(* ===== verification/Prelude.thy ===== *)
theory Prelude
  imports
    Complex_Main
    "HOL-Library.Multiset"
    "HOL-Library.Sublist"
    "HOL-Library.Char_ord"
    "HOL-Library.List_Lexorder"
    "HOL-Library.Product_Lexorder"
    "HOL-Library.AList"
begin

section \<open>Prelude: types, Python runtime fragments and shared lemmas\<close>

text \<open>
  What every component of the development shares:
  \<^item> grid cells and their arithmetic (\<open>_shift\<close>, \<open>_sub\<close>, Chebyshev distance);
  \<^item> the fragments of the Python runtime the sources use: values with \<open>int()\<close> and
    \<open>or\<close>, dictionaries as association lists in insertion order, substring and prefix
    tests, floating-point arithmetic and the \<open>random\<close> module;
  \<^item> two interfaces as locales: an action of the four quarter turns, and a reordering of
    candidates, with the lemmas their clients need.

  Floating-point numbers. The sources use floats only as weights. A model of a function
  that computes with them takes the arithmetic as a record \<open>'f fops\<close> over an arbitrary
  carrier \<open>'f\<close>, with no law assumed: what is proved holds for IEEE doubles with all
  their rounding.

  Randomness. \<open>random.Random\<close> is an oracle: the draws it will return are arbitrary
  functions of the position in its stream, so each theorem holds for every seed.
\<close>

named_theorems cell_simps \<open>unfolding of cell arithmetic\<close>
named_theorems perm_facts \<open>operations that only reorder their argument\<close>

declare split_paired_Ex [simp del] split_paired_All [simp del]

subsection \<open>Grid cells\<close>

type_synonym cell = "int \<times> int \<times> int"

definition shift :: "cell \<Rightarrow> cell \<Rightarrow> cell" where
  "shift c d = (fst c + fst d, fst (snd c) + fst (snd d), snd (snd c) + snd (snd d))"

definition sub :: "cell \<Rightarrow> cell \<Rightarrow> cell" where
  "sub a b = (fst a - fst b, fst (snd a) - fst (snd b), snd (snd a) - snd (snd b))"

definition chebyshev :: "cell \<Rightarrow> cell \<Rightarrow> int" where
  "chebyshev a b =
     max (max \<bar>fst a - fst b\<bar> \<bar>fst (snd a) - fst (snd b)\<bar>) \<bar>snd (snd a) - snd (snd b)\<bar>"

lemma shift_simps [simp, cell_simps]:
  "shift (x, y, z) (dx, dy, dz) = (x + dx, y + dy, z + dz)"
  by (simp add: shift_def)

lemma sub_simps [simp, cell_simps]:
  "sub (x, y, z) (dx, dy, dz) = (x - dx, y - dy, z - dz)"
  by (simp add: sub_def)

lemma shift_inj [simp]: "shift a c = shift a d \<longleftrightarrow> c = d"
  by (cases a; cases c; cases d) auto

lemma shift_sub [simp]: "shift (sub a b) b = a"
  by (cases a; cases b) auto

lemma chebyshev_sym: "chebyshev a b = chebyshev b a"
  by (simp add: chebyshev_def abs_minus_commute)

lemma chebyshev_le_iff:
  "chebyshev (a, b, c) (d, e, f) \<le> r \<longleftrightarrow> \<bar>a - d\<bar> \<le> r \<and> \<bar>b - e\<bar> \<le> r \<and> \<bar>c - f\<bar> \<le> r"
  by (auto simp: chebyshev_def)

lemma chebyshev_eq_0 [simp]: "chebyshev a b = 0 \<longleftrightarrow> a = b"
  by (cases a; cases b) (auto simp: chebyshev_def)

lemma chebyshev_nonneg [simp]: "0 \<le> chebyshev a b"
  by (simp add: chebyshev_def)

subsection \<open>Python values\<close>

text \<open>
  The scalar values a parsed block dictionary can hold. A finite float is a rational
  number, which is all that \<open>int()\<close> needs; infinities and NaN do not occur in JSON.
\<close>

datatype pyval = PyNone | PyBool bool | PyInt int | PyFloat rat | PyStr string

datatype py_error = KeyError | TypeError | ValueError | IndexError

text \<open>\<open>int(s)\<close> of a string: surrounding white space, a sign and decimal digits, where
  single underscores may separate digits.\<close>

definition is_space :: "char \<Rightarrow> bool" where
  "is_space c \<longleftrightarrow> of_char c \<in> {9, 10, 11, 12, 13, 28, 29, 30, 31, 32 :: nat}"

definition py_strip :: "string \<Rightarrow> string" where
  "py_strip s = rev (dropWhile is_space (rev (dropWhile is_space s)))"

definition is_digit :: "char \<Rightarrow> bool" where
  "is_digit c \<longleftrightarrow> 48 \<le> (of_char c :: nat) \<and> (of_char c :: nat) \<le> 57"

fun parse_digits :: "string \<Rightarrow> int \<Rightarrow> int option" where
  "parse_digits [] acc = Some acc"
| "parse_digits (c # cs) acc =
     (if is_digit c then parse_digits cs (10 * acc + (of_char c - 48))
      else if c = CHR ''_'' then
        (case cs of [] \<Rightarrow> None
         | d # _ \<Rightarrow> if is_digit d then parse_digits cs acc else None)
      else None)"

definition parse_nat :: "string \<Rightarrow> int option" where
  "parse_nat s = (case s of [] \<Rightarrow> None | c # _ \<Rightarrow> if is_digit c then parse_digits s 0 else None)"

definition parse_int :: "string \<Rightarrow> int option" where
  "parse_int s = (case py_strip s of
       [] \<Rightarrow> None
     | c # cs \<Rightarrow>
         if c = CHR ''-'' then map_option uminus (parse_nat cs)
         else if c = CHR ''+'' then parse_nat cs
         else parse_nat (c # cs))"

text \<open>\<open>int(v)\<close>: floats truncate towards zero, \<open>None\<close> is a TypeError, a string that is
  no number a ValueError.\<close>

fun py_int :: "pyval \<Rightarrow> py_error + int" where
  "py_int PyNone = Inl TypeError"
| "py_int (PyBool b) = Inr (if b then 1 else 0)"
| "py_int (PyInt i) = Inr i"
| "py_int (PyFloat q) = Inr (if 0 \<le> q then \<lfloor>q\<rfloor> else \<lceil>q\<rceil>)"
| "py_int (PyStr s) = (case parse_int s of None \<Rightarrow> Inl ValueError | Some i \<Rightarrow> Inr i)"

text \<open>Truth value of a scalar, for \<open>v or default\<close>.\<close>

fun py_truthy :: "pyval \<Rightarrow> bool" where
  "py_truthy PyNone = False"
| "py_truthy (PyBool b) = b"
| "py_truthy (PyInt i) = (i \<noteq> 0)"
| "py_truthy (PyFloat q) = (q \<noteq> 0)"
| "py_truthy (PyStr s) = (s \<noteq> [])"

text \<open>\<open>str\<close> of an integer.\<close>

fun digits_of :: "nat \<Rightarrow> string" where
  "digits_of n = (if n < 10 then [char_of (48 + n)] else digits_of (n div 10) @ [char_of (48 + n mod 10)])"

declare digits_of.simps [simp del]

definition py_str_int :: "int \<Rightarrow> string" where
  "py_str_int i = (if i < 0 then CHR ''-'' # digits_of (nat (- i)) else digits_of (nat i))"

text \<open>A decoded JSON document. A finite number with a fraction or exponent is a rational.\<close>

datatype json = JNull | JBool bool | JInt int | JFloat rat | JStr string | JArr "json list" | JObj "(string \<times> json) list"

text \<open>What reading and decoding a JSON file gives.\<close>

datatype json_file = Os_error | Json_decode_error | Unicode_decode_error | Payload json

text \<open>\<open>str(v)\<close>; \<open>repr_of\<close> prints the values whose text nothing here depends on.\<close>

fun json_str :: "(json \<Rightarrow> string) \<Rightarrow> json \<Rightarrow> string" where
  "json_str repr_of (JStr s) = s"
| "json_str repr_of (JInt i) = py_str_int i"
| "json_str repr_of (JBool b) = (if b then ''True'' else ''False'')"
| "json_str repr_of JNull = ''None''"
| "json_str repr_of v = repr_of v"

fun json_truthy :: "json \<Rightarrow> bool" where
  "json_truthy JNull = False"
| "json_truthy (JBool b) = b"
| "json_truthy (JInt i) = (i \<noteq> 0)"
| "json_truthy (JFloat q) = (q \<noteq> 0)"
| "json_truthy (JStr s) = (s \<noteq> [])"
| "json_truthy (JArr xs) = (xs \<noteq> [])"
| "json_truthy (JObj kvs) = (kvs \<noteq> [])"

text \<open>\<open>int(v)\<close> of a decoded value.\<close>

fun json_int :: "json \<Rightarrow> py_error + int" where
  "json_int (JBool b) = Inr (if b then 1 else 0)"
| "json_int (JInt i) = Inr i"
| "json_int (JFloat q) = Inr (if 0 \<le> q then \<lfloor>q\<rfloor> else \<lceil>q\<rceil>)"
| "json_int (JStr s) = (case parse_int s of None \<Rightarrow> Inl ValueError | Some i \<Rightarrow> Inr i)"
| "json_int _ = Inl TypeError"

text \<open>\<open>isinstance(v, (int, float))\<close>: a Python bool is an int.\<close>

fun json_number :: "json \<Rightarrow> bool" where
  "json_number (JBool b) = True"
| "json_number (JInt i) = True"
| "json_number (JFloat q) = True"
| "json_number _ = False"

text \<open>\<open>body.get(key)\<close> of an object: a missing key and \<open>null\<close> both give \<open>None\<close>.\<close>

type_synonym json_obj = "(string \<times> json) list"

text \<open>A byte is a \<open>char\<close>.\<close>

type_synonym bytes = string

definition json_get :: "string \<Rightarrow> (string \<times> json) list \<Rightarrow> json" where
  "json_get key body = (case map_of body key of None \<Rightarrow> JNull | Some v \<Rightarrow> v)"

subsection \<open>Strings\<close>

text \<open>\<open>needle in s\<close> and \<open>s.startswith(p)\<close>.\<close>

abbreviation in_str :: "string \<Rightarrow> string \<Rightarrow> bool" where
  "in_str needle s \<equiv> sublist needle s"

abbreviation startswith :: "string \<Rightarrow> string \<Rightarrow> bool" where
  "startswith s p \<equiv> prefix p s"

text \<open>\<open>s.lower()\<close> on ASCII letters.\<close>

definition lower_char :: "char \<Rightarrow> char" where
  "lower_char c = (if CHR ''A'' \<le> c \<and> c \<le> CHR ''Z'' then char_of (of_char c + 32 :: nat) else c)"

definition lower :: "string \<Rightarrow> string" where
  "lower s = map lower_char s"

subsection \<open>Floating-point arithmetic as a parameter\<close>

record 'f fops =
  f_lit :: "rat \<Rightarrow> 'f"
  f_add :: "'f \<Rightarrow> 'f \<Rightarrow> 'f"
  f_mul :: "'f \<Rightarrow> 'f \<Rightarrow> 'f"
  f_div :: "'f \<Rightarrow> 'f \<Rightarrow> 'f"
  f_le :: "'f \<Rightarrow> 'f \<Rightarrow> bool"
  f_sum :: "'f list \<Rightarrow> 'f"

text \<open>Exact rational arithmetic, the carrier at which the witnesses evaluate.\<close>

definition rat_fops :: "rat fops" where
  "rat_fops = \<lparr>f_lit = (\<lambda>q. q), f_add = (+), f_mul = (*), f_div = (/), f_le = (\<le>),
     f_sum = sum_list\<rparr>"

subsection \<open>The \<open>random\<close> module\<close>

text \<open>
  \<open>rng_ints\<close> and \<open>rng_floats\<close> are the raw draws, \<open>rng_pos\<close> the position in the
  stream. \<open>_randbelow(n)\<close> returns a number below \<open>n\<close>; every sequence of results is
  obtained from some oracle, since the raw draw can be the result itself.
\<close>

record 'f rng =
  rng_ints :: "nat \<Rightarrow> nat"
  rng_floats :: "nat \<Rightarrow> 'f"
  rng_pos :: nat

definition rng_below :: "nat \<Rightarrow> 'f rng \<Rightarrow> nat \<times> 'f rng" where
  "rng_below n r = (rng_ints r (rng_pos r) mod n, r\<lparr>rng_pos := Suc (rng_pos r)\<rparr>)"

definition rng_random :: "'f rng \<Rightarrow> 'f \<times> 'f rng" where
  "rng_random r = (rng_floats r (rng_pos r), r\<lparr>rng_pos := Suc (rng_pos r)\<rparr>)"

lemma rng_below_less: "0 < n \<Longrightarrow> fst (rng_below n r) < n"
  by (simp add: rng_below_def)

definition rng_choice :: "'a list \<Rightarrow> 'f rng \<Rightarrow> (py_error + 'a) \<times> 'f rng" where
  "rng_choice xs r =
     (if xs = [] then (Inl IndexError, r)
      else case rng_below (length xs) r of (i, r') \<Rightarrow> (Inr (xs ! i), r'))"

lemma rng_choice_in: "rng_choice xs r = (Inr x, r') \<Longrightarrow> x \<in> set xs"
  using rng_below_less [of "length xs" r]
  by (auto simp: rng_choice_def split: if_splits prod.splits)

lemma rng_choice_total: "xs \<noteq> [] \<Longrightarrow> \<exists>x r'. rng_choice xs r = (Inr x, r')"
  by (auto simp: rng_choice_def split: prod.splits)

text \<open>\<open>shuffle\<close>: for \<open>i\<close> from the last index down to 1, swap entry \<open>i\<close> with entry
  \<open>randbelow(i + 1)\<close>.\<close>

definition swap_at :: "nat \<Rightarrow> nat \<Rightarrow> 'a list \<Rightarrow> 'a list" where
  "swap_at i j xs = xs[i := xs ! j, j := xs ! i]"

fun shuffle_from :: "nat \<Rightarrow> 'a list \<Rightarrow> 'f rng \<Rightarrow> 'a list \<times> 'f rng" where
  "shuffle_from 0 xs r = (xs, r)"
| "shuffle_from (Suc i) xs r =
     (case rng_below (Suc (Suc i)) r of (j, r') \<Rightarrow> shuffle_from i (swap_at (Suc i) j xs) r')"

definition rng_shuffle :: "'a list \<Rightarrow> 'f rng \<Rightarrow> 'a list \<times> 'f rng" where
  "rng_shuffle xs r = shuffle_from (length xs - 1) xs r"

lemma mset_swap_at: "i < length xs \<Longrightarrow> j < length xs \<Longrightarrow> mset (swap_at i j xs) = mset xs"
  by (simp add: swap_at_def mset_swap)

lemma length_swap_at [simp]: "length (swap_at i j xs) = length xs"
  by (simp add: swap_at_def)

lemma mset_shuffle_from: "i < length xs \<Longrightarrow> mset (fst (shuffle_from i xs r)) = mset xs"
proof (induction i xs r rule: shuffle_from.induct)
  case (2 i xs r)
  obtain j r' where jr: "rng_below (Suc (Suc i)) r = (j, r')"
    by (cases "rng_below (Suc (Suc i)) r")
  have "j < Suc (Suc i)"
    using rng_below_less [of "Suc (Suc i)" r] jr by simp
  with "2.prems" have "mset (swap_at (Suc i) j xs) = mset xs"
    by (intro mset_swap_at) auto
  with 2 jr show ?case by simp
qed simp

lemma mset_rng_shuffle [perm_facts]: "mset (fst (rng_shuffle xs r)) = mset xs"
  using mset_shuffle_from [of "length xs - 1" xs r] by (cases xs) (simp_all add: rng_shuffle_def)

subsection \<open>Interface: an action of the four quarter turns\<close>

locale quarter_turns =
  fixes turn :: "int \<Rightarrow> 'a \<Rightarrow> 'a"
  assumes turn_0: "turn 0 x = x"
    and turn_add: "turn d (turn e x) = turn (d + e) x"
    and turn_4: "turn 4 x = x"
begin

lemma turn_mult4: "turn (4 * int k) x = x"
proof (induction k)
  case (Suc k)
  have "turn (4 * int (Suc k)) x = turn 4 (turn (4 * int k) x)"
    by (simp add: turn_add algebra_simps)
  with Suc turn_4 show ?case by simp
qed (simp add: turn_0)

lemma turn_neg: "turn (4 - d) (turn d x) = x"
  by (simp add: turn_add turn_4)

lemma turn_neg': "turn d (turn (4 - d) x) = x"
  by (simp add: turn_add turn_4)

lemma turn_inj: "turn d x = turn d y \<Longrightarrow> x = y"
  by (metis turn_neg)

lemma turn_bij: "bij (turn d)"
proof (rule o_bij)
  show "turn (4 - d) \<circ> turn d = id" by (rule ext) (simp only: comp_apply id_apply turn_neg)
  show "turn d \<circ> turn (4 - d) = id" by (rule ext) (simp only: comp_apply id_apply turn_neg')
qed

end

subsection \<open>Interface: reordering candidates\<close>

text \<open>
  Both walkers try their candidates in an order drawn from the random stream. What their
  search relies on is that the order neither loses nor invents a candidate.
\<close>

locale candidate_order =
  fixes order_of :: "'a list \<Rightarrow> 'r \<Rightarrow> 'b list \<times> 'r"
    and cand :: "'a \<Rightarrow> 'b"
  assumes order_mset: "mset (fst (order_of xs r)) = mset (map cand xs)"
begin

lemma order_set: "set (fst (order_of xs r)) = cand ` set xs"
  by (metis order_mset set_map set_mset_mset)

lemma order_length: "length (fst (order_of xs r)) = length xs"
  by (metis order_mset length_map size_mset)

lemma order_distinct: "distinct (map cand xs) \<Longrightarrow> distinct (fst (order_of xs r))"
  by (metis order_mset mset_eq_imp_distinct_iff)

lemma order_Nil: "fst (order_of xs r) = [] \<longleftrightarrow> xs = []"
  by (metis order_length length_0_conv)

end

interpretation uniform_shuffle: candidate_order rng_shuffle "\<lambda>x. x"
  by unfold_locales (simp add: perm_facts)

subsection \<open>Lists\<close>

text \<open>Consecutive pairs of a list, the traversal of \<open>for i in range(1, len(xs))\<close>.\<close>

fun steps_of :: "'a list \<Rightarrow> ('a \<times> 'a) list" where
  "steps_of (x # y # xs) = (x, y) # steps_of (y # xs)"
| "steps_of xs = []"

lemma length_steps_of [simp]: "length (steps_of xs) = length xs - 1"
  by (induction xs rule: steps_of.induct) auto

lemma steps_of_nth: "i < length xs - 1 \<Longrightarrow> steps_of xs ! i = (xs ! i, xs ! Suc i)"
proof (induction xs arbitrary: i rule: steps_of.induct)
  case (1 x y xs)
  then show ?case by (cases i) auto
qed auto

lemma set_steps_of: "set (steps_of xs) = {(xs ! i, xs ! Suc i) | i. Suc i < length xs}"
proof -
  have "set (steps_of xs) = {steps_of xs ! i | i. i < length xs - 1}"
    by (simp add: set_conv_nth)
  also have "\<dots> = {(xs ! i, xs ! Suc i) | i. i < length xs - 1}"
    using steps_of_nth [of _ xs] by (intro Collect_cong ex_cong1) auto
  also have "\<dots> = {(xs ! i, xs ! Suc i) | i. Suc i < length xs}"
    by (auto simp: less_diff_conv)
  finally show ?thesis .
qed

lemma dom_map_of_update [simp]:
  "dom (map_of (AList.update k v xs)) = insert k (dom (map_of xs))"
  by (simp add: update_conv')

lemma set_map_filter: "set (List.map_filter f xs) = {y. \<exists>x \<in> set xs. f x = Some y}"
  by (force simp: List.map_filter_def image_iff)

lemma bex_map_filter:
  "(\<exists>y \<in> set (List.map_filter f xs). P y) \<longleftrightarrow>
     (\<exists>x \<in> set xs. case f x of None \<Rightarrow> False | Some y \<Rightarrow> P y)"
  unfolding set_map_filter by (auto split: option.splits)

lemma map_filter_Nil [simp]: "List.map_filter f [] = []"
  by (simp add: List.map_filter_def)

lemma map_filter_Cons:
  "List.map_filter f (x # xs) =
     (case f x of None \<Rightarrow> List.map_filter f xs | Some y \<Rightarrow> y # List.map_filter f xs)"
  by (simp add: List.map_filter_def split: option.split)

lemma fold_concat_map: "fold f (concat (map g xs)) s = fold (\<lambda>x. fold f (g x)) xs s"
  by (induction xs arbitrary: s) auto

lemma bex_concat_map: "(\<exists>y \<in> set (concat (map g xs)). P y) \<longleftrightarrow> (\<exists>x \<in> set xs. \<exists>y \<in> set (g x). P y)"
  by auto

lemma find_append:
  "find P (xs @ ys) = (case find P xs of None \<Rightarrow> find P ys | Some x \<Rightarrow> Some x)"
  by (induction xs) auto

lemma fold_preserves: "(\<And>x s. x \<in> set xs \<Longrightarrow> P s \<Longrightarrow> P (f x s)) \<Longrightarrow> P s \<Longrightarrow> P (fold f xs s)"
  by (induction xs arbitrary: s) auto

lemma length_filter_mset: "mset xs = mset ys \<Longrightarrow> length (filter P xs) = length (filter P ys)"
  by (metis mset_filter size_mset)

lemma sort_key_Nil_iff [simp]: "sort_key f xs = [] \<longleftrightarrow> xs = []"
  by (simp only: set_empty [symmetric] set_sort)

lemma set_update_cases:
  "(a, v) \<in> set (AList.update k w xs) \<Longrightarrow> (a, v) = (k, w) \<or> (a, v) \<in> set xs"
  by (induction xs) (auto split: if_splits)

text \<open>The inclusive integer range \<open>range(a, b + 1)\<close> is \<open>[a..b]\<close>.\<close>
lemma mset_take_drop_nth:
  "i < length xs \<Longrightarrow> mset (xs ! i # take i xs @ drop (Suc i) xs) = mset xs"
  by (metis Cons_nth_drop_Suc append_take_drop_id mset.simps(2) mset_append
      union_mset_add_mset_left union_mset_add_mset_right)

end
