(* ===== verification/Catalogue.thy ===== *)
theory Catalogue
  imports Prelude
begin

section \<open>The block catalogue and its rotation arithmetic\<close>

text \<open>
  Model of \<^verbatim>\<open>src/src/catalogue/loader.py\<close>: the four side faces and their world deltas,
  rotation of faces, unit offsets, free vectors and footprints, the block data model, its
  side ports, and the loader of the NDJSON dump (with the JSON records as typed records
  whose absent keys are \<open>None\<close>).

  Main results: the three rotations are actions of the quarter turns (interpretations of
  \<open>quarter_turns\<close>); rotating offsets is a bijection between the boxes of the unrotated
  and the rotated footprint; and the face convention is coherent, that is, rotating a block
  keeps every face pointing at the image of the neighbouring cell.
\<close>

subsection \<open>Faces and rotations\<close>

definition FACE_NORTH :: int where "FACE_NORTH = 0"
definition FACE_EAST :: int where "FACE_EAST = 1"
definition FACE_SOUTH :: int where "FACE_SOUTH = 2"
definition FACE_WEST :: int where "FACE_WEST = 3"

definition SIDE_FACES :: "string list" where
  "SIDE_FACES = [''n'', ''e'', ''s'', ''w'']"

definition FACE_DELTAS :: "int \<rightharpoonup> cell" where
  "FACE_DELTAS = [FACE_NORTH \<mapsto> (0, 0, 1), FACE_EAST \<mapsto> (-1, 0, 0),
                  FACE_SOUTH \<mapsto> (0, 0, -1), FACE_WEST \<mapsto> (1, 0, 0)]"

definition opposite_face :: "int \<Rightarrow> int" where
  "opposite_face face = (face + 2) mod 4"

definition rotate_face :: "int \<Rightarrow> int \<Rightarrow> int" where
  "rotate_face face direction = (face + direction) mod 4"

fun rotate_offset :: "cell \<Rightarrow> int \<Rightarrow> cell \<Rightarrow> cell" where
  "rotate_offset (x, y, z) direction (sx, sy, sz) =
     (let d = direction mod 4 in
      if d = 0 then (x, y, z)
      else if d = 1 then (sz - 1 - z, y, x)
      else if d = 2 then (sx - 1 - x, y, sz - 1 - z)
      else (z, y, sx - 1 - x))"

fun rotate_vector :: "cell \<Rightarrow> int \<Rightarrow> cell" where
  "rotate_vector (x, y, z) direction =
     (let d = direction mod 4 in
      if d = 0 then (x, y, z)
      else if d = 1 then (- z, y, x)
      else if d = 2 then (- x, y, - z)
      else (z, y, - x))"

fun rotated_size :: "cell \<Rightarrow> int \<Rightarrow> cell" where
  "rotated_size (sx, sy, sz) direction =
     (if direction mod 2 = 1 then (sz, sy, sx) else (sx, sy, sz))"

subsection \<open>The block data model\<close>

record unit_port =
  up_offset :: cell
  up_face :: int
  up_clip_id :: string

record block_unit =
  bu_offset :: cell
  bu_underground :: bool
  bu_terrain_modifier :: string
  bu_surface :: string
  bu_clips :: "(string \<times> string list) list"

record block_variant =
  bv_kind :: string
  bv_index :: int
  bv_size :: cell
  bv_units :: "block_unit list"

record block_def =
  bd_block_id :: string
  bd_name :: string
  bd_page :: string
  bd_waypoint :: string
  bd_is_pillar :: bool
  bd_variants :: "block_variant list"
  bd_collection :: string

type_synonym catalogue = "(string \<times> block_def) list"

definition unit_side_ports :: "block_unit \<Rightarrow> unit_port list" where
  "unit_side_ports u = concat (map (\<lambda>(face_idx, face_key).
     map (\<lambda>clip_id. \<lparr>up_offset = bu_offset u, up_face = int face_idx, up_clip_id = clip_id\<rparr>)
       (case map_of (bu_clips u) face_key of None \<Rightarrow> [] | Some clips \<Rightarrow> clips))
     (enumerate 0 SIDE_FACES))"

definition side_ports :: "block_variant \<Rightarrow> unit_port list" where
  "side_ports v = concat (map unit_side_ports (bv_units v))"

definition block_variant_of :: "block_def \<Rightarrow> string \<Rightarrow> int \<Rightarrow> block_variant option" where
  "block_variant_of b kind index = find (\<lambda>v. bv_kind v = kind \<and> bv_index v = index) (bd_variants b)"

subsection \<open>Loading the dump\<close>

text \<open>
  One NDJSON record after \<open>json.loads\<close>; a key the record lacks is \<open>None\<close>. The waypoint
  is an enum name in offline dumps and an integer in runtime dumps.
\<close>

datatype raw_waypoint = WpInt int | WpName string

record raw_unit =
  ru_offset :: "cell option"
  ru_underground :: "bool option"
  ru_terrain_modifier :: "string option"
  ru_surface :: "string option"
  ru_clips :: "(string \<times> string list) list option"

record raw_variant =
  rv_kind :: "string option"
  rv_index :: "int option"
  rv_size :: "cell option"
  rv_units :: "raw_unit list option"

record raw_block =
  rb_id :: "string option"
  rb_name :: "string option"
  rb_page :: "string option"
  rb_waypoint :: "raw_waypoint option"
  rb_is_pillar :: "bool option"
  rb_variants :: "raw_variant list option"
  rb_collection :: "string option"

datatype raw_record = RawMeta "string option" | RawBlock raw_block | RawOther

datatype load_error = MarkerMissing | UnsupportedSchema "string option" | NoMeta | BlockWithoutId

definition SCHEMA :: string where "SCHEMA = ''block_catalogue_v1''"

definition get_or :: "'a option \<Rightarrow> 'a \<Rightarrow> 'a" where
  "get_or v d = (case v of None \<Rightarrow> d | Some x \<Rightarrow> x)"

definition waypoint_name :: "raw_waypoint \<Rightarrow> string" where
  "waypoint_name w = (case w of
       WpInt i \<Rightarrow> get_or (map_of [(0, ''Start''), (1, ''Finish''), (2, ''Checkpoint''),
         (3, ''None''), (4, ''StartFinish''), (5, ''Dispenser'')] i) ''None''
     | WpName s \<Rightarrow> s)"

definition parse_unit :: "raw_unit \<Rightarrow> block_unit" where
  "parse_unit u =
     \<lparr>bu_offset = get_or (ru_offset u) (0, 0, 0),
      bu_underground = get_or (ru_underground u) False,
      bu_terrain_modifier = get_or (ru_terrain_modifier u) '''',
      bu_surface = get_or (ru_surface u) '''',
      bu_clips = get_or (ru_clips u) []\<rparr>"

definition parse_variant :: "raw_variant \<Rightarrow> block_variant" where
  "parse_variant v =
     \<lparr>bv_kind = get_or (rv_kind v) ''ground'',
      bv_index = get_or (rv_index v) 0,
      bv_size = get_or (rv_size v) (1, 1, 1),
      bv_units = map parse_unit (get_or (rv_units v) [])\<rparr>"

definition parse_block :: "raw_block \<Rightarrow> load_error + block_def" where
  "parse_block rec = (case rb_id rec of
       None \<Rightarrow> Inl BlockWithoutId
     | Some i \<Rightarrow> Inr
         \<lparr>bd_block_id = i,
          bd_name = get_or (rb_name rec) '''',
          bd_page = get_or (rb_page rec) '''',
          bd_waypoint = waypoint_name (get_or (rb_waypoint rec) (WpName ''None'')),
          bd_is_pillar = get_or (rb_is_pillar rec) False,
          bd_variants = map parse_variant (get_or (rb_variants rec) []),
          bd_collection = get_or (rb_collection rec) ''''\<rparr>)"

text \<open>The loop over the lines: the dictionary so far and whether a meta record was seen.\<close>

fun load_lines :: "string option \<Rightarrow> raw_record list \<Rightarrow> catalogue \<Rightarrow> bool
    \<Rightarrow> load_error + (catalogue \<times> bool)" where
  "load_lines collection [] blocks meta_seen = Inr (blocks, meta_seen)"
| "load_lines collection (RawMeta schema # recs) blocks meta_seen =
     (if schema \<noteq> Some SCHEMA then Inl (UnsupportedSchema schema)
      else load_lines collection recs blocks True)"
| "load_lines collection (RawOther # recs) blocks meta_seen =
     load_lines collection recs blocks meta_seen"
| "load_lines collection (RawBlock b # recs) blocks meta_seen =
     (if collection \<noteq> None \<and> Some (get_or (rb_collection b) '''') \<noteq> collection
      then load_lines collection recs blocks meta_seen
      else case parse_block b of
          Inl e \<Rightarrow> Inl e
        | Inr blk \<Rightarrow> load_lines collection recs (AList.update (bd_block_id blk) blk blocks) meta_seen)"

definition load_catalogue :: "bool \<Rightarrow> raw_record list \<Rightarrow> string option \<Rightarrow> load_error + catalogue" where
  "load_catalogue done_marker recs collection =
     (if \<not> done_marker then Inl MarkerMissing
      else case load_lines collection recs [] False of
          Inl e \<Rightarrow> Inl e
        | Inr (blocks, meta_seen) \<Rightarrow> if \<not> meta_seen then Inl NoMeta else Inr blocks)"

subsection \<open>Rotation lemmas\<close>

lemma mod4_cases:
  obtains "(d::int) mod 4 = 0" | "d mod 4 = 1" | "d mod 4 = 2" | "d mod 4 = 3"
proof -
  have "d mod 4 = 0 \<or> d mod 4 = 1 \<or> d mod 4 = 2 \<or> d mod 4 = 3"
    by presburger
  then show thesis by (elim disjE) (erule that)+
qed

lemma mod2_of_mod4: "(d::int) mod 2 = (d mod 4) mod 2"
  by presburger

lemma mod4_add: "((d::int) + e) mod 4 = (d mod 4 + e mod 4) mod 4"
  by presburger

lemmas rotation_defs = rotate_offset.simps rotate_vector.simps rotated_size.simps Let_def

lemma rotate_vector_add:
  "rotate_vector (rotate_vector v e) d = rotate_vector v (d + e)"
  by (cases v; cases d rule: mod4_cases; cases e rule: mod4_cases)
    (simp_all add: rotation_defs mod4_add [of d e])

lemma rotate_offset_add:
  "rotate_offset (rotate_offset c e s) d (rotated_size s e) = rotate_offset c (d + e) s"
  by (cases c; cases s; cases d rule: mod4_cases; cases e rule: mod4_cases)
    (simp_all add: rotation_defs mod4_add [of d e] mod2_of_mod4 [of e])

lemma rotated_size_add: "rotated_size (rotated_size s e) d = rotated_size s (d + e)"
  by (cases s; cases d rule: mod4_cases; cases e rule: mod4_cases)
    (simp_all add: rotation_defs mod2_of_mod4 [of d] mod2_of_mod4 [of e] mod2_of_mod4 [of "d + e"]
      mod4_add [of d e])

interpretation vec: quarter_turns "\<lambda>d v. rotate_vector v d"
  by unfold_locales (auto simp: rotate_vector_add rotation_defs)

text \<open>A unit offset is only meaningful together with the footprint it lies in, so the
  action is on pairs of offset and size.\<close>

definition rotate_cell_in :: "int \<Rightarrow> cell \<times> cell \<Rightarrow> cell \<times> cell" where
  "rotate_cell_in d p = (rotate_offset (fst p) d (snd p), rotated_size (snd p) d)"

interpretation off: quarter_turns rotate_cell_in
  by unfold_locales
    (auto simp: rotate_cell_in_def rotate_offset_add rotated_size_add rotation_defs)

lemma rotate_vector_shift:
  "rotate_vector (shift a b) d = shift (rotate_vector a d) (rotate_vector b d)"
  by (cases a; cases b; cases d rule: mod4_cases) (simp_all add: rotation_defs)

lemma rotate_offset_shift:
  "rotate_offset (shift c v) d s = shift (rotate_offset c d s) (rotate_vector v d)"
  by (cases c; cases v; cases s; cases d rule: mod4_cases) (simp_all add: rotation_defs)

lemmas face_defs = FACE_DELTAS_def FACE_NORTH_def FACE_EAST_def FACE_SOUTH_def FACE_WEST_def

lemma rotate_face_range [simp]: "0 \<le> rotate_face f d" "rotate_face f d < 4"
  by (simp_all add: rotate_face_def)

lemma opposite_face_range [simp]: "0 \<le> opposite_face f" "opposite_face f < 4"
  by (simp_all add: opposite_face_def)

lemma FACE_DELTAS_range: "FACE_DELTAS f = Some v \<Longrightarrow> 0 \<le> f \<and> f < 4"
  by (auto simp: face_defs split: if_splits)

lemma FACE_DELTAS_dom: "0 \<le> f \<Longrightarrow> f < 4 \<Longrightarrow> \<exists>v. FACE_DELTAS f = Some v"
  by (auto simp: face_defs)

lemma FACE_DELTAS_flat: "FACE_DELTAS f = Some v \<Longrightarrow> fst (snd v) = 0"
  by (auto simp: face_defs split: if_splits)

lemma rotate_face_delta:
  assumes "FACE_DELTAS f = Some v"
  shows "FACE_DELTAS (rotate_face f d) = Some (rotate_vector v d)"
proof -
  have "f = 0 \<or> f = 1 \<or> f = 2 \<or> f = 3"
    using FACE_DELTAS_range [OF assms] by presburger
  then have "FACE_DELTAS (rotate_face f (d mod 4)) = Some (rotate_vector v (d mod 4))"
    using assms
    by (elim disjE; cases d rule: mod4_cases)
      (auto simp: face_defs rotate_face_def rotation_defs)
  moreover have "rotate_face f (d mod 4) = rotate_face f d"
    by (simp add: rotate_face_def mod_add_right_eq)
  moreover have "rotate_vector v (d mod 4) = rotate_vector v d"
    by (cases v) (simp add: rotation_defs)
  ultimately show ?thesis by simp
qed

lemma opposite_face_delta:
  assumes "FACE_DELTAS f = Some v"
  shows "FACE_DELTAS (opposite_face f) = Some (rotate_vector v 2)"
  using rotate_face_delta [OF assms, of 2] by (simp add: opposite_face_def rotate_face_def)

lemma delta_opposite_cancel:
  assumes "FACE_DELTAS f = Some v" "FACE_DELTAS (opposite_face f) = Some w"
  shows "shift (shift c v) w = c"
  using assms opposite_face_delta [OF assms(1)] FACE_DELTAS_flat [OF assms(1)]
  by (cases c; cases v) (auto simp: rotation_defs)

definition in_box :: "cell \<Rightarrow> cell \<Rightarrow> bool" where
  "in_box s c \<longleftrightarrow> 0 \<le> fst c \<and> fst c < fst s \<and> 0 \<le> fst (snd c) \<and> fst (snd c) < fst (snd s) \<and>
     0 \<le> snd (snd c) \<and> snd (snd c) < snd (snd s)"

lemma rotate_offset_in_box: "in_box s c \<Longrightarrow> in_box (rotated_size s d) (rotate_offset c d s)"
  by (cases c; cases s; cases d rule: mod4_cases)
    (simp_all add: in_box_def rotation_defs mod2_of_mod4 [of d])

lemma rotate_offset_inj: "rotate_offset c d s = rotate_offset c' d s \<Longrightarrow> c = c'"
  using off.turn_inj [of d "(c, s)" "(c', s)"] by (simp add: rotate_cell_in_def)

lemma rotate_offset_back:
  "rotate_offset (rotate_offset c d s) (4 - d) (rotated_size s d) = c"
  using off.turn_neg [of d "(c, s)"] by (simp add: rotate_cell_in_def)

lemma rotated_size_back: "rotated_size (rotated_size s d) (4 - d) = s"
  using off.turn_neg [of d "(c, s)"] by (simp add: rotate_cell_in_def)

lemma rotate_offset_bij_betw:
  "bij_betw (\<lambda>c. rotate_offset c d s) {c. in_box s c} {c. in_box (rotated_size s d) c}"
proof (rule bij_betw_imageI)
  show "inj_on (\<lambda>c. rotate_offset c d s) {c. in_box s c}"
    by (auto intro: inj_onI dest: rotate_offset_inj)
  have "c \<in> (\<lambda>c. rotate_offset c d s) ` {c. in_box s c}" if "in_box (rotated_size s d) c" for c
  proof (rule image_eqI)
    show "c = rotate_offset (rotate_offset c (4 - d) (rotated_size s d)) d s"
      using off.turn_neg' [of d "(c, rotated_size s d)"]
      by (simp add: rotate_cell_in_def rotated_size_back)
    show "rotate_offset c (4 - d) (rotated_size s d) \<in> {c. in_box s c}"
      using rotate_offset_in_box [OF that, of "4 - d"] by (simp add: rotated_size_back)
  qed
  then show "(\<lambda>c. rotate_offset c d s) ` {c. in_box s c} = {c. in_box (rotated_size s d) c}"
    by (auto intro: rotate_offset_in_box)
qed

subsection \<open>What the loader guarantees\<close>

text \<open>The block records of the requested collection, in file order.\<close>

definition selected :: "string option \<Rightarrow> raw_record list \<Rightarrow> raw_block list" where
  "selected collection recs =
     concat (map (\<lambda>rec. case rec of
         RawBlock b \<Rightarrow> if collection = None \<or> collection = Some (get_or (rb_collection b) '''')
                      then [b] else []
       | _ \<Rightarrow> []) recs)"

lemma selected_simps [simp]:
  "selected collection [] = []"
  "selected collection (RawMeta s # recs) = selected collection recs"
  "selected collection (RawOther # recs) = selected collection recs"
  "selected collection (RawBlock b # recs) =
     (if collection = None \<or> collection = Some (get_or (rb_collection b) '''')
      then b # selected collection recs else selected collection recs)"
  by (simp_all add: selected_def)

lemma parse_block_id: "parse_block b = Inr blk \<Longrightarrow> rb_id b = Some (bd_block_id blk)"
  by (auto simp: parse_block_def split: option.splits)

lemma load_lines_map_of:
  "load_lines collection recs blocks seen = Inr (cat, seen') \<Longrightarrow> map_of cat i =
      (case find (\<lambda>b. rb_id b = Some i) (rev (selected collection recs)) of
         None \<Rightarrow> map_of blocks i
       | Some b \<Rightarrow> Some (projr (parse_block b)))"
proof (induction collection recs blocks seen rule: load_lines.induct)
  case (4 collection b recs blocks seen)
  show ?case
  proof (cases "collection = None \<or> collection = Some (get_or (rb_collection b) '''')")
    case True
    with "4.prems" obtain blk where blk: "parse_block b = Inr blk"
      and rest: "load_lines collection recs (AList.update (bd_block_id blk) blk blocks) seen =
        Inr (cat, seen')"
      by (auto split: sum.splits)
    have "map_of cat i =
      (case find (\<lambda>b. rb_id b = Some i) (rev (selected collection recs)) of
         None \<Rightarrow> map_of (AList.update (bd_block_id blk) blk blocks) i
       | Some b \<Rightarrow> Some (projr (parse_block b)))"
      using "4.IH"(2) [OF _ blk rest] True by fastforce
    with True blk parse_block_id [OF blk] show ?thesis
      by (auto simp: find_append update_conv' split: option.splits)
  next
    case False
    with 4 show ?thesis by auto
  qed
qed (auto split: if_splits)

lemma load_lines_seen:
  "load_lines collection recs blocks seen = Inr (cat, seen') \<Longrightarrow>
     (seen' \<longleftrightarrow> seen \<or> (\<exists>s. RawMeta s \<in> set recs)) \<and> (\<forall>s. RawMeta s \<in> set recs \<longrightarrow> s = Some SCHEMA)"
  by (induction collection recs blocks seen rule: load_lines.induct)
    (auto split: if_splits sum.splits)

lemma load_lines_distinct:
  "load_lines collection recs blocks seen = Inr (cat, seen') \<Longrightarrow> distinct (map fst blocks) \<Longrightarrow>
     distinct (map fst cat)"
  by (induction collection recs blocks seen rule: load_lines.induct)
    (auto simp: distinct_update split: if_splits sum.splits)

lemma load_lines_total:
  "(\<exists>cat seen'. load_lines collection recs blocks seen = Inr (cat, seen')) \<longleftrightarrow>
     (\<forall>s. RawMeta s \<in> set recs \<longrightarrow> s = Some SCHEMA) \<and>
     (\<forall>b \<in> set (selected collection recs). rb_id b \<noteq> None)"
  by (induction collection recs blocks seen rule: load_lines.induct)
    (auto simp: parse_block_def split: option.splits)

text \<open>
  \<open>load_catalogue\<close> succeeds exactly on a complete dump: the marker exists, a meta record
  occurs, every meta record has the supported schema, and every block of the collection has an id.
\<close>

theorem load_catalogue_succeeds:
  "(\<exists>cat. load_catalogue marker recs collection = Inr cat) =
     (marker \<and> {s. RawMeta s \<in> set recs} = {Some SCHEMA} \<and>
      None \<notin> rb_id ` set (selected collection recs))"
proof (cases "load_lines collection recs [] False")
  case (Inl e)
  then have "\<not> (\<exists>cat seen'. load_lines collection recs [] False = Inr (cat, seen'))" by simp
  then show ?thesis using Inl load_lines_total [of collection recs "[]" False]
    by (auto simp: load_catalogue_def intro: rev_image_eqI)
next
  case (Inr res)
  obtain cat seen' where res: "res = (cat, seen')" by fastforce
  show ?thesis
    using Inr load_lines_total [of collection recs "[]" False]
      load_lines_seen [OF Inr [unfolded res]]
    by (auto simp: load_catalogue_def res)
qed

text \<open>
  A loaded catalogue maps each block id to the last block record of the collection that
  carries it, parsed, and lists no id twice.
\<close>

theorem load_catalogue_lookup:
  assumes "load_catalogue marker recs collection = Inr cat"
  shows "map_of cat i =
      map_option (\<lambda>b. projr (parse_block b))
        (find (\<lambda>b. rb_id b = Some i) (rev (selected collection recs))) \<and>
    distinct (map fst cat)"
proof -
  from assms obtain seen where "load_lines collection recs [] False = Inr (cat, seen)"
    by (auto simp: load_catalogue_def split: if_splits sum.splits)
  from load_lines_map_of [OF this] load_lines_distinct [OF this] show ?thesis
    by (simp split: option.split)
qed

text \<open>A dump with a repeated block id.\<close>

definition demo_raw :: "string \<Rightarrow> raw_record" where
  "demo_raw nm = RawBlock \<lparr>rb_id = Some ''A'', rb_name = Some nm, rb_page = None,
     rb_waypoint = Some (WpInt 0), rb_is_pillar = None, rb_variants = None, rb_collection = None\<rparr>"

theorem load_catalogue_lookup_witness:
  "\<exists>cat. load_catalogue True [RawMeta (Some SCHEMA), demo_raw ''x'', demo_raw ''y''] None = Inr cat \<and>
     map_option bd_name (map_of cat ''A'') = Some ''y''"
proof -
  obtain cat where cat: "load_catalogue True
      [RawMeta (Some SCHEMA), demo_raw ''x'', demo_raw ''y''] None = Inr cat"
    by (simp add: load_catalogue_def demo_raw_def parse_block_def)
  from load_catalogue_lookup [OF this, of "''A''"]
  have "map_option bd_name (map_of cat ''A'') = Some ''y''"
    by (simp add: demo_raw_def parse_block_def get_or_def)
  with cat show ?thesis by blast
qed

text \<open>
  The face convention is coherent under rotation: turning a block takes the cell across a
  face of one of its units to the cell across the turned face of the turned unit.
\<close>

theorem rotation_keeps_faces:
  assumes "FACE_DELTAS face = Some delta"
  shows "\<exists>delta'. FACE_DELTAS (rotate_face face d) = Some delta' \<and>
    rotate_offset (shift c delta) d s = shift (rotate_offset c d s) delta'"
  using rotate_face_delta [OF assms] rotate_offset_shift by blast

theorem rotation_keeps_faces_witness:
  "\<exists>delta'. FACE_DELTAS (rotate_face FACE_EAST 3) = Some delta' \<and>
     rotate_offset (shift (2, 0, 1) (-1, 0, 0)) 3 (4, 1, 2) =
       shift (rotate_offset (2, 0, 1) 3 (4, 1, 2)) delta'"
  by (rule rotation_keeps_faces) (simp add: face_defs)

text \<open>
  Rotating unit offsets is a bijection from the cells of the footprint box onto the cells of
  the rotated footprint box, and undone by the complementary rotation: no two units of a block can
  fall onto the same cell, and none leaves the box.
\<close>

lemma rotation_bijective:
  "bij_betw (\<lambda>c. rotate_offset c d s) {c. in_box s c} {c. in_box (rotated_size s d) c} \<and>
   rotate_offset (rotate_offset c d s) (4 - d) (rotated_size s d) = c"
  using rotate_offset_bij_betw rotate_offset_back by blast

end
