(* ===== verification/Face_Priors.thy ===== *)
theory Face_Priors
  imports Prelude
begin

section \<open>Face-transition priors\<close>

text \<open>
  Model of \<^verbatim>\<open>src/src/generation/priors.py\<close>: the table of corpus transitions exported as
  JSON rows, and the weight it gives to a continuation. The weight depends only on the
  relative rotation, which is what makes a pattern learned at one heading apply at all four.
\<close>

type_synonym prior_row = "string \<times> string \<times> string \<times> int \<times> int \<times> int"
type_synonym prior_key = "string \<times> string \<times> string \<times> int"

record face_priors =
  fp_environment :: string
  fp_table :: "(prior_key \<times> int) list"

definition PRIORS_SCHEMA :: string where "PRIORS_SCHEMA = ''face_priors_v1''"

definition UNSEEN_WEIGHT :: "'f fops \<Rightarrow> 'f" where
  "UNSEEN_WEIGHT F = f_lit F 1"

definition add_prior_row :: "prior_row \<Rightarrow> (prior_key \<times> int) list \<Rightarrow> (prior_key \<times> int) list" where
  "add_prior_row row table = (case row of (block_a, block_b, clip_id, rel_rotation, _, map_count) \<Rightarrow>
     AList.update (block_a, block_b, clip_id, rel_rotation) map_count table)"

definition face_priors_from_json :: "string option \<Rightarrow> string option \<Rightarrow> prior_row list
    \<Rightarrow> py_error + face_priors" where
  "face_priors_from_json schema environment rows =
     (if schema \<noteq> Some PRIORS_SCHEMA then Inl ValueError
      else Inr \<lparr>fp_environment = (case environment of None \<Rightarrow> '''' | Some e \<Rightarrow> e),
                fp_table = fold add_prior_row rows []\<rparr>)"

definition prior_weight :: "'f fops \<Rightarrow> face_priors \<Rightarrow> string \<Rightarrow> int \<Rightarrow> string \<Rightarrow> int \<Rightarrow> string \<Rightarrow> 'f" where
  "prior_weight F p prev_block prev_rotation next_block next_rotation clip_id =
     (let rel = (next_rotation - prev_rotation) mod 4
      in f_add F (UNSEEN_WEIGHT F)
           (f_lit F (of_int (case map_of (fp_table p) (prev_block, next_block, clip_id, rel) of
              None \<Rightarrow> 0 | Some n \<Rightarrow> n))))"

lemma prior_weight_heading:
  "prior_weight F p a (ra + k) b (rb + k) c = prior_weight F p a ra b rb c"
  by (simp add: prior_weight_def)

lemma prior_weight_unseen:
  "map_of (fp_table p) (a, b, c, (rb - ra) mod 4) = None \<Longrightarrow>
     prior_weight F p a ra b rb c = f_add F (UNSEEN_WEIGHT F) (f_lit F 0)"
  by (simp add: prior_weight_def)

lemma map_of_fold_add_prior_row:
  "map_of (fold add_prior_row rows table) (a, b, c, rel) =
     (case find (\<lambda>(a', b', c', rel', _, _). (a', b', c', rel') = (a, b, c, rel)) (rev rows) of
        None \<Rightarrow> map_of table (a, b, c, rel)
      | Some (_, _, _, _, _, n) \<Rightarrow> Some n)"
proof (induction rows rule: rev_induct)
  case (snoc row rows)
  then show ?case
    by (cases row) (auto simp: add_prior_row_def update_conv')
qed simp

text \<open>
  The weight of a continuation is one plus the map count of the last exported row for the two
  blocks, the clip and the relative rotation (one if there is none), and it does not change when
  both blocks are turned by the same amount: a pattern learned at one heading applies at all four.
\<close>

theorem face_priors_weight:
  assumes "face_priors_from_json schema environment rows = Inr p"
  shows "prior_weight F p a (ra + k) b (rb + k) c =
    f_add F (UNSEEN_WEIGHT F) (f_lit F (of_int
      (case find (\<lambda>(a', b', c', rel, _, _). (a', b', c', rel) = (a, b, c, (rb - ra) mod 4)) (rev rows) of
         None \<Rightarrow> 0 | Some (_, _, _, _, _, n) \<Rightarrow> n)))"
proof -
  have "fp_table p = fold add_prior_row rows []"
    using assms by (auto simp: face_priors_from_json_def split: if_splits)
  then show ?thesis
    unfolding prior_weight_heading
    by (auto simp: prior_weight_def map_of_fold_add_prior_row split: option.splits)
qed

theorem face_priors_weight_witness:
  "\<exists>p. face_priors_from_json (Some ''face_priors_v1'') None
        [(''A'', ''B'', ''c'', 1, 5, 4), (''A'', ''B'', ''c'', 1, 9, 7)] = Inr p \<and>
     prior_weight rat_fops p ''A'' 2 ''B'' 3 ''c'' = 8"
proof -
  obtain p where p: "face_priors_from_json (Some ''face_priors_v1'') None
      [(''A'', ''B'', ''c'', 1, 5, 4), (''A'', ''B'', ''c'', 1, 9, 7)] = Inr p"
    by (simp add: face_priors_from_json_def PRIORS_SCHEMA_def)
  from face_priors_weight [OF this, of rat_fops "''A''" 0 2 "''B''" 1 "''c''"]
  have "prior_weight rat_fops p ''A'' 2 ''B'' 3 ''c'' = 8"
    by (simp add: rat_fops_def UNSEEN_WEIGHT_def)
  with p show ?thesis by blast
qed

end
