(* ===== verification/Backtracking.thy ===== *)
theory Backtracking
  imports Prelude
begin

section \<open>Depth-first search with undo\<close>

text \<open>
  Both walkers search depth-first over a mutable state: they append a placement and mark its
  cells, call themselves, and undo the change when the call returns \<open>False\<close>. This theory
  holds the result type of such a search, the contract of one call (\<open>outcome_ok\<close>) and the
  interface the undo step has to satisfy (locale \<open>undo_stack\<close>): popping right after an
  unsuccessful call restores what the search may depend on. The search lemma
  \<open>extend_ok\<close> is proved once in the locale and used by both walkers.
\<close>

datatype 'e search_result = Ret bool | Raise 'e | NoFuel

text \<open>
  \<open>outcome_ok\<close>: a call that returns \<open>True\<close> has appended to the trail a list that
  satisfies \<open>R\<close>; one that returns \<open>False\<close> has left trail and core as they were, and
  no list satisfies \<open>R\<close>. A call that raised leaves no obligation.
\<close>

definition outcome_ok :: "('s \<Rightarrow> 'p list) \<Rightarrow> ('s \<Rightarrow> 'c) \<Rightarrow> ('p list \<Rightarrow> bool) \<Rightarrow> 's
    \<Rightarrow> 'e search_result \<times> 's \<Rightarrow> bool" where
  "outcome_ok trail core R s res \<longleftrightarrow>
     (case fst res of
        Ret True \<Rightarrow> \<exists>ps. R ps \<and> trail (snd res) = trail s @ ps
      | Ret False \<Rightarrow> trail (snd res) = trail s \<and> core (snd res) = core s \<and> (\<forall>ps. \<not> R ps)
      | _ \<Rightarrow> True)"

lemma outcome_ok_simps [simp]:
  "outcome_ok trail core R s (Ret True, s') \<longleftrightarrow> (\<exists>ps. R ps \<and> trail s' = trail s @ ps)"
  "outcome_ok trail core R s (Ret False, s') \<longleftrightarrow>
     trail s' = trail s \<and> core s' = core s \<and> (\<forall>ps. \<not> R ps)"
  "outcome_ok trail core R s (Raise e, s')"
  "outcome_ok trail core R s (NoFuel, s')"
  by (simp_all add: outcome_ok_def)

text \<open>What the loop does with the result of the recursive call.\<close>

definition or_else :: "'e search_result \<times> 's \<Rightarrow> ('s \<Rightarrow> 'e search_result \<times> 's) \<Rightarrow> 'e search_result \<times> 's" where
  "or_else res cont = (case res of (Ret False, s) \<Rightarrow> cont s | (r, s) \<Rightarrow> (r, s))"

lemma or_else_simps [simp]:
  "or_else (Ret True, s) cont = (Ret True, s)"
  "or_else (Ret False, s) cont = cont s"
  "or_else (Raise e, s) cont = (Raise e, s)"
  "or_else (NoFuel, s) cont = (NoFuel, s)"
  by (simp_all add: or_else_def)

lemma search_result_cases [case_names found failed raised nofuel]:
  obtains s where "res = (Ret True, s)" | s where "res = (Ret False, s)"
    | e s where "res = (Raise e, s)" | s where "res = (NoFuel, s)"
  by (metis (full_types) prod.exhaust search_result.exhaust)

lemma outcome_ok_cong:
  "trail s = trail t \<Longrightarrow> core s = core t \<Longrightarrow> (\<And>ps. R ps \<longleftrightarrow> R' ps) \<Longrightarrow>
     outcome_ok trail core R s res = outcome_ok trail core R' t res"
  by (cases res rule: search_result_cases) auto

lemma outcome_ok_state:
  "outcome_ok trail core R s res \<Longrightarrow> trail s = trail t \<Longrightarrow> core s = core t \<Longrightarrow>
     outcome_ok trail core R t res"
  using outcome_ok_cong [of trail s t core R R res] by simp

locale undo_stack =
  fixes trail :: "'s \<Rightarrow> 'p list"
    and core :: "'s \<Rightarrow> 'c"
    and push :: "'d \<Rightarrow> 's \<Rightarrow> 's"
    and pop :: "'d \<Rightarrow> 's \<Rightarrow> 's"
    and item :: "'d \<Rightarrow> 'p"
    and fresh :: "'d \<Rightarrow> 's \<Rightarrow> bool"
  assumes trail_push: "trail (push d s) = trail s @ [item d]"
    and trail_pop: "trail (pop d s) = butlast (trail s)"
    and core_pop: "fresh d s \<Longrightarrow> core s' = core (push d s) \<Longrightarrow> core (pop d s') = core s"
begin

lemma extend_ok:
  assumes fresh: "fresh d s"
    and call: "outcome_ok trail core R (push d s) res"
    and rest: "\<And>s'. trail s' = trail s \<Longrightarrow> core s' = core s \<Longrightarrow> outcome_ok trail core R' s (cont s')"
  shows "outcome_ok trail core (\<lambda>ps. (\<exists>qs. ps = item d # qs \<and> R qs) \<or> R' ps) s
    (or_else res (\<lambda>s'. cont (pop d s')))"
proof (cases res rule: search_result_cases)
  case (found s')
  with call show ?thesis by (auto simp: trail_push)
next
  case (failed s')
  with call have "trail (pop d s') = trail s" "core (pop d s') = core s"
    using core_pop [OF fresh] by (simp_all add: trail_push trail_pop)
  from rest [OF this] have "outcome_ok trail core R' s (cont (pop d s'))" .
  moreover have "\<not> R qs" for qs using failed call by simp
  ultimately show ?thesis using failed by simp
qed simp_all

end

subsection \<open>Expansion budgets\<close>

text \<open>
  Both searches count their calls and raise once the count exceeds a budget \<open>m\<close>.
  \<open>bounded_call\<close>: from a count \<open>before\<close>, a call never lowers the count, keeps it within the
  budget if it returns, raises nothing but the budget error at \<open>m + 1\<close>, and runs out of fuel
  only if the fuel did not exceed the remaining budget.
\<close>

definition bounded_call :: "('s \<Rightarrow> int) \<Rightarrow> (int \<Rightarrow> 'e) \<Rightarrow> int \<Rightarrow> int \<Rightarrow> nat \<Rightarrow> 'e search_result \<times> 's
    \<Rightarrow> bool" where
  "bounded_call cnt budget_error m before fuel res \<longleftrightarrow>
     before \<le> cnt (snd res) \<and>
     (case fst res of
        Ret _ \<Rightarrow> cnt (snd res) \<le> m
      | Raise e \<Rightarrow> e = budget_error (m + 1)
      | NoFuel \<Rightarrow> int fuel \<le> m - before)"

lemma bounded_call_simps [simp]:
  "bounded_call cnt err m b fuel (Ret x, s) \<longleftrightarrow> b \<le> cnt s \<and> cnt s \<le> m"
  "bounded_call cnt err m b fuel (Raise e, s) \<longleftrightarrow> b \<le> cnt s \<and> e = err (m + 1)"
  "bounded_call cnt err m b fuel (NoFuel, s) \<longleftrightarrow> b \<le> cnt s \<and> int fuel \<le> m - b"
  by (simp_all add: bounded_call_def)

lemma bounded_call_later:
  "bounded_call cnt err m c fuel res \<Longrightarrow> b \<le> c \<Longrightarrow> bounded_call cnt err m b fuel res"
  by (cases res rule: search_result_cases) auto

lemma bounded_call_Suc:
  "bounded_call cnt err m (b + 1) fuel res \<Longrightarrow> bounded_call cnt err m b (Suc fuel) res"
  by (cases res rule: search_result_cases) auto

lemma bounded_or_else:
  assumes "bounded_call cnt err m c fuel res" "b \<le> c"
    and "\<And>s. c \<le> cnt s \<Longrightarrow> cnt s \<le> m \<Longrightarrow> bounded_call cnt err m b fuel (cont s)"
  shows "bounded_call cnt err m b fuel (or_else res cont)"
  using assms by (cases res rule: search_result_cases) auto

end
