(* ===== verification/Clip_Walker.thy ===== *)
theory Clip_Walker
  imports Catalogue Face_Priors Backtracking
begin

section \<open>The clip-matching route walker\<close>

text \<open>
  Model of \<^verbatim>\<open>src/src/generation/clip_walker.py\<close>: oriented blocks with their route ports,
  the constructor of \<open>ClipWalker\<close>, the candidate order, and \<open>generate\<close> with its
  depth-first search. The search mutates three variables (\<open>placements\<close>, \<open>occupied\<close>,
  \<open>expansions\<close>) and the random state; they are the record \<open>walk_state\<close>, threaded
  through. Recursion is on fuel; \<open>generate\<close> supplies one unit more than the expansion
  budget, and running out (\<open>NoFuel\<close>) is shown impossible.

  The abstract specification is the inductive relation \<open>legal_route\<close>: which lists of
  placed blocks complete a route from an open port. The search is proved sound and complete
  for it, and from it the declarative properties of a route follow.
\<close>

subsection \<open>Constants and data\<close>

definition GRID_MIN :: int where "GRID_MIN = 6"
definition GRID_MAX :: int where "GRID_MAX = 42"
definition GROUND_Y :: int where "GROUND_Y = 9"
definition MAX_Y :: int where "MAX_Y = GROUND_Y + 10"
definition GATE_FORWARD_LOCAL_FACE :: int where "GATE_FORWARD_LOCAL_FACE = FACE_NORTH"

definition DIRECTIONAL_WAYPOINTS :: "string list" where
  "DIRECTIONAL_WAYPOINTS = [''Checkpoint'', ''StartFinish'']"

definition DIRECTIONAL_BLOCK_PATTERNS :: "string list" where
  "DIRECTIONAL_BLOCK_PATTERNS = [''Special'', ''Penalty'']"

definition DEFAULT_ROUTE_CLIPS :: "string set" where
  "DEFAULT_ROUTE_CLIPS = {''RoadTechFC''}"

record placement =
  pl_block_id :: string
  pl_x :: int
  pl_y :: int
  pl_z :: int
  pl_rotation :: int
  pl_variant :: "int option"

record port =
  pt_cell :: cell
  pt_face :: int
  pt_clip :: string

record oriented =
  or_block_id :: string
  or_rotation :: int
  or_cells :: "cell list"
  or_ports :: "port list"
  or_waypoint :: string

definition is_directional :: "oriented \<Rightarrow> bool" where
  "is_directional oriented \<longleftrightarrow>
     or_waypoint oriented \<in> set DIRECTIONAL_WAYPOINTS \<or>
     (\<exists>pat \<in> set DIRECTIONAL_BLOCK_PATTERNS. in_str pat (or_block_id oriented))"

definition orient_at :: "block_def \<Rightarrow> block_variant \<Rightarrow> unit_port list \<Rightarrow> int \<Rightarrow> oriented" where
  "orient_at block v local_ports rotation =
     \<lparr>or_block_id = bd_block_id block,
      or_rotation = rotation,
      or_cells = map (\<lambda>u. rotate_offset (bu_offset u) rotation (bv_size v)) (bv_units v),
      or_ports = map (\<lambda>p. \<lparr>pt_cell = rotate_offset (up_offset p) rotation (bv_size v),
                           pt_face = rotate_face (up_face p) rotation,
                           pt_clip = up_clip_id p\<rparr>) local_ports,
      or_waypoint = bd_waypoint block\<rparr>"

definition orientations :: "block_def \<Rightarrow> string set \<Rightarrow> oriented list" where
  "orientations block route_clips =
     (case block_variant_of block ''ground'' 0 of
        None \<Rightarrow> []
      | Some v \<Rightarrow>
          let local_ports = filter (\<lambda>p. up_clip_id p \<in> route_clips) (side_ports v)
          in if local_ports = [] then []
             else map (orient_at block v local_ports) [0, 1, 2, 3])"

subsection \<open>The constructor\<close>

record 'f walker =
  w_priors :: "face_priors option"
  w_bias :: "(string \<times> 'f) list"
  w_orient :: "oriented list"
  w_starts :: "oriented list"
  w_finishes :: "oriented list"
  w_checkpoints :: "oriented list"
  w_plain :: "oriented list"

datatype init_error = NotInCatalogue string | NeedStartAndFinish

fun gather_orient :: "catalogue \<Rightarrow> string set \<Rightarrow> string list \<Rightarrow> init_error + oriented list" where
  "gather_orient cat route_clips [] = Inr []"
| "gather_orient cat route_clips (block_id # ids) =
     (case map_of cat block_id of
        None \<Rightarrow> Inl (NotInCatalogue block_id)
      | Some block \<Rightarrow>
          (case gather_orient cat route_clips ids of
             Inl e \<Rightarrow> Inl e
           | Inr os \<Rightarrow> Inr (orientations block route_clips @ os)))"

definition usable :: "string \<Rightarrow> nat \<Rightarrow> oriented list \<Rightarrow> oriented list" where
  "usable waypoint n_ports os =
     filter (\<lambda>o'. or_waypoint o' = waypoint \<and> length (or_ports o') = n_ports) os"

definition clip_walker_init :: "catalogue \<Rightarrow> string list \<Rightarrow> string set \<Rightarrow> face_priors option
    \<Rightarrow> (string \<times> 'f) list \<Rightarrow> init_error + 'f walker" where
  "clip_walker_init cat allowed_ids route_clips priors block_bias =
     (case gather_orient cat route_clips allowed_ids of
        Inl e \<Rightarrow> Inl e
      | Inr os \<Rightarrow>
          if usable ''Start'' 1 os = [] \<or> usable ''Finish'' 1 os = [] then Inl NeedStartAndFinish
          else Inr \<lparr>w_priors = priors, w_bias = block_bias, w_orient = os,
                    w_starts = usable ''Start'' 1 os,
                    w_finishes = usable ''Finish'' 1 os,
                    w_checkpoints = usable ''Checkpoint'' 2 os,
                    w_plain = usable ''None'' 2 os\<rparr>)"

subsection \<open>Candidate weights and order\<close>

definition bias_for :: "'f fops \<Rightarrow> (string \<times> 'f) list \<Rightarrow> string \<Rightarrow> 'f" where
  "bias_for F bias block_id =
     fold (\<lambda>(needle, weight) factor. if in_str needle block_id then f_mul F factor weight else factor)
       bias (f_lit F 1)"

definition cand_weight :: "'f fops \<Rightarrow> 'f walker \<Rightarrow> placement \<Rightarrow> oriented \<Rightarrow> string \<Rightarrow> 'f" where
  "cand_weight F W prev cand clip =
     f_mul F
       (case w_priors W of
          None \<Rightarrow> f_lit F 1
        | Some p \<Rightarrow> prior_weight F p (pl_block_id prev) (pl_rotation prev)
                      (or_block_id cand) (or_rotation cand) clip)
       (bias_for F (w_bias W) (or_block_id cand))"

text \<open>The inner scan: the first index whose accumulated weight reaches \<open>pick\<close>, else the
  dflt (the last index).\<close>

fun chosen_index :: "'f fops \<Rightarrow> 'f \<Rightarrow> 'f \<Rightarrow> nat \<Rightarrow> ('a \<times> 'f) list \<Rightarrow> nat \<Rightarrow> nat" where
  "chosen_index F pick acc i [] dflt = dflt"
| "chosen_index F pick acc i (x # xs) dflt =
     (let acc' = f_add F acc (snd x)
      in if f_le F pick acc' then i else chosen_index F pick acc' (Suc i) xs dflt)"

lemma chosen_index_less:
  "dflt < i + length xs \<Longrightarrow> chosen_index F pick acc i xs dflt < i + length xs"
proof (induction xs arbitrary: acc i)
  case (Cons x xs)
  then show ?case
    using Cons.IH [of "Suc i" "f_add F acc (snd x)"] by (auto simp: Let_def)
qed simp

definition draw_index :: "'f fops \<Rightarrow> ('a \<times> 'f) list \<Rightarrow> 'f rng \<Rightarrow> nat \<times> 'f rng" where
  "draw_index F items r =
     (case rng_random r of (u, r') \<Rightarrow>
        let total = f_sum F (map snd items); pick = f_mul F u total
        in (chosen_index F pick (f_lit F 0) 0 items (length items - 1), r'))"

lemma draw_index_less: "items \<noteq> [] \<Longrightarrow> fst (draw_index F items r) < length items"
  using chosen_index_less [of "length items - 1" 0 items]
  by (auto simp: draw_index_def Let_def split: prod.split)

lemma draw_index_bound: "draw_index F items r = (k, r') \<Longrightarrow> items \<noteq> [] \<Longrightarrow> k < length items"
  using draw_index_less [of items F r] by simp

function weighted_order :: "'f fops \<Rightarrow> ('a \<times> 'f) list \<Rightarrow> 'f rng \<Rightarrow> 'a list \<times> 'f rng" where
  "weighted_order F items r =
     (if items = [] then ([], r)
      else case draw_index F items r of (chosen, r') \<Rightarrow>
        case weighted_order F (take chosen items @ drop (Suc chosen) items) r' of (rest, r'') \<Rightarrow>
          (fst (items ! chosen) # rest, r''))"
  by pat_completeness auto
termination
  by (relation "measure (\<lambda>(F, items, r). length items)") (auto dest: draw_index_bound [OF sym])

declare weighted_order.simps [simp del]

definition order_candidates :: "'f fops \<Rightarrow> 'f walker \<Rightarrow> placement \<Rightarrow> string \<Rightarrow> oriented list
    \<Rightarrow> 'f rng \<Rightarrow> oriented list \<times> 'f rng" where
  "order_candidates F W prev clip pool r =
     (if w_priors W = None \<and> w_bias W = [] then rng_shuffle pool r
      else weighted_order F (map (\<lambda>cand. (cand, cand_weight F W prev cand clip)) pool) r)"

subsection \<open>The search\<close>

datatype walk_error =
    BudgetExhausted int
  | NoRouteFound int cell int
  | WalkKeyError
  | WalkIndexError

datatype route_result = Route "placement list" | Failed walk_error | OutOfFuel

record 'f walk_state =
  ws_placements :: "placement list"
  ws_occupied :: "cell set"
  ws_expansions :: int
  ws_rng :: "'f rng"

definition in_bounds :: "cell list \<Rightarrow> bool" where
  "in_bounds cells \<longleftrightarrow> (\<forall>c \<in> set cells.
     GRID_MIN \<le> fst c \<and> fst c < GRID_MAX \<and>
     GROUND_Y \<le> fst (snd c) \<and> fst (snd c) \<le> MAX_Y \<and>
     GRID_MIN \<le> snd (snd c) \<and> snd (snd c) < GRID_MAX)"

text \<open>A placed block is an oriented block with its anchor.\<close>

type_synonym placed = "oriented \<times> cell"

definition place :: "oriented \<Rightarrow> cell \<Rightarrow> placement" where
  "place cand anchor =
     \<lparr>pl_block_id = or_block_id cand, pl_x = fst anchor, pl_y = fst (snd anchor),
      pl_z = snd (snd anchor), pl_rotation = or_rotation cand, pl_variant = None\<rparr>"

definition footprint_at :: "oriented \<Rightarrow> cell \<Rightarrow> cell list" where
  "footprint_at cand anchor = map (shift anchor) (or_cells cand)"

text \<open>Ports are distinct objects, so \<open>p is not entry\<close> removes exactly the port at the
  index of \<open>entry\<close>.\<close>

definition other_ports :: "oriented \<Rightarrow> nat \<Rightarrow> port list" where
  "other_ports cand j = take j (or_ports cand) @ drop (Suc j) (or_ports cand)"

definition faces_exit :: "oriented \<Rightarrow> port \<Rightarrow> bool" where
  "faces_exit cand nxt \<longleftrightarrow>
     rotate_face GATE_FORWARD_LOCAL_FACE (or_rotation cand) = pt_face nxt"

datatype verdict = Skip | Close oriented cell | Extend oriented cell port

definition consider_entry :: "cell \<Rightarrow> int \<Rightarrow> string \<Rightarrow> cell set \<Rightarrow> oriented \<times> nat \<Rightarrow> verdict" where
  "consider_entry target entry_face clip occupied ce =
     (case ce of (cand, j) \<Rightarrow>
      let entry = or_ports cand ! j in
      if pt_face entry \<noteq> entry_face \<or> pt_clip entry \<noteq> clip then Skip
      else let anchor = sub target (pt_cell entry); footprint = footprint_at cand anchor in
      if \<not> in_bounds footprint then Skip
      else if \<exists>c \<in> set footprint. c \<in> occupied then Skip
      else if or_waypoint cand = ''Finish'' then
        (if other_ports cand j \<noteq> [] then Skip else Close cand anchor)
      else (case other_ports cand j of
          [nxt] \<Rightarrow>
            if is_directional cand \<and> \<not> faces_exit cand nxt then Skip else Extend cand anchor nxt
        | _ \<Rightarrow> Skip))"

text \<open>Appending a candidate and marking its cells, and the undo after a failed call.\<close>

definition clip_push :: "placed \<Rightarrow> 'f walk_state \<Rightarrow> 'f walk_state" where
  "clip_push p st =
     st\<lparr>ws_placements := ws_placements st @ [place (fst p) (snd p)],
        ws_occupied := ws_occupied st \<union> set (footprint_at (fst p) (snd p))\<rparr>"

definition clip_pop :: "placed \<Rightarrow> 'f walk_state \<Rightarrow> 'f walk_state" where
  "clip_pop p st =
     st\<lparr>ws_placements := butlast (ws_placements st),
        ws_occupied := ws_occupied st - set (footprint_at (fst p) (snd p))\<rparr>"

fun try_entries :: "cell \<Rightarrow> int \<Rightarrow> string
    \<Rightarrow> (cell \<Rightarrow> int \<Rightarrow> string \<Rightarrow> 'f walk_state \<Rightarrow> walk_error search_result \<times> 'f walk_state)
    \<Rightarrow> (oriented \<times> nat) list \<Rightarrow> 'f walk_state \<Rightarrow> walk_error search_result \<times> 'f walk_state" where
  "try_entries target entry_face clip rec [] st = (Ret False, st)"
| "try_entries target entry_face clip rec (ce # ces) st =
     (case consider_entry target entry_face clip (ws_occupied st) ce of
        Skip \<Rightarrow> try_entries target entry_face clip rec ces st
      | Close cand anchor \<Rightarrow>
          (Ret True, st\<lparr>ws_placements := ws_placements st @ [place cand anchor]\<rparr>)
      | Extend cand anchor nxt \<Rightarrow>
          or_else
            (rec (shift anchor (pt_cell nxt)) (pt_face nxt) (pt_clip nxt)
               (clip_push (cand, anchor) st))
            (\<lambda>st'. try_entries target entry_face clip rec ces (clip_pop (cand, anchor) st')))"

definition pool_at :: "'f walker \<Rightarrow> int \<Rightarrow> int \<Rightarrow> int \<Rightarrow> oriented list" where
  "pool_at W len checkpoint_every steps =
     (if steps \<ge> len then w_finishes W
      else if checkpoint_every > 0 \<and> steps > 0 \<and> steps mod checkpoint_every = 0
      then (if w_checkpoints W \<noteq> [] then w_checkpoints W else w_plain W)
      else w_plain W)"

definition entries_of :: "oriented list \<Rightarrow> (oriented \<times> nat) list" where
  "entries_of pool = concat (map (\<lambda>cand. map (Pair cand) [0..<length (or_ports cand)]) pool)"

primrec clip_dfs :: "nat \<Rightarrow> 'f fops \<Rightarrow> 'f walker \<Rightarrow> int \<Rightarrow> int \<Rightarrow> int
    \<Rightarrow> int \<Rightarrow> cell \<Rightarrow> int \<Rightarrow> string \<Rightarrow> 'f walk_state
    \<Rightarrow> walk_error search_result \<times> 'f walk_state" where
  "clip_dfs 0 F W len checkpoint_every max_expansions steps wcell wface clip st = (NoFuel, st)"
| "clip_dfs (Suc fuel) F W len checkpoint_every max_expansions steps wcell wface clip st =
     (let st = st\<lparr>ws_expansions := ws_expansions st + 1\<rparr> in
      if ws_expansions st > max_expansions then (Raise (BudgetExhausted (ws_expansions st)), st)
      else case FACE_DELTAS wface of
          None \<Rightarrow> (Raise WalkKeyError, st)
        | Some delta \<Rightarrow>
            case order_candidates F W (last (ws_placements st)) clip
                (pool_at W len checkpoint_every steps) (ws_rng st) of (pool, r) \<Rightarrow>
              try_entries (shift wcell delta) (opposite_face wface) clip
                (clip_dfs fuel F W len checkpoint_every max_expansions (steps + 1))
                (entries_of pool) (st\<lparr>ws_rng := r\<rparr>))"

definition walk_origin :: cell where
  "walk_origin = (GRID_MIN + (GRID_MAX - GRID_MIN) div 2, GROUND_Y,
                  GRID_MIN + (GRID_MAX - GRID_MIN) div 2)"

definition start_state :: "oriented \<Rightarrow> 'f rng \<Rightarrow> 'f walk_state" where
  "start_state start r =
     \<lparr>ws_placements = [place start walk_origin],
      ws_occupied = set (footprint_at start walk_origin),
      ws_expansions = 0, ws_rng = r\<rparr>"

text \<open>What \<open>generate\<close> makes of the outcome of the search.\<close>

definition walk_outcome :: "int \<Rightarrow> walk_error search_result \<times> 'f walk_state \<Rightarrow> route_result" where
  "walk_outcome len res =
     (case res of
        (Ret True, st) \<Rightarrow> Route (ws_placements st)
      | (Ret False, st) \<Rightarrow> Failed (NoRouteFound len walk_origin (ws_expansions st))
      | (Raise e, _) \<Rightarrow> Failed e
      | (NoFuel, _) \<Rightarrow> OutOfFuel)"

definition generate :: "'f fops \<Rightarrow> 'f walker \<Rightarrow> int \<Rightarrow> int \<Rightarrow> int \<Rightarrow> 'f rng
    \<Rightarrow> route_result" where
  "generate F W len checkpoint_every max_expansions r =
     (case rng_choice (w_starts W) r of
        (Inl _, _) \<Rightarrow> Failed WalkIndexError
      | (Inr start, r') \<Rightarrow>
          (case or_ports start of
             [] \<Rightarrow> Failed WalkIndexError
           | port # _ \<Rightarrow>
               walk_outcome len
                 (clip_dfs (Suc (nat max_expansions)) F W len checkpoint_every max_expansions 1
                   (shift walk_origin (pt_cell port)) (pt_face port) (pt_clip port)
                   (start_state start r'))))"

subsection \<open>Specification of a route\<close>

definition cells_of :: "placed \<Rightarrow> cell set" where
  "cells_of p = set (footprint_at (fst p) (snd p))"

definition port_at :: "placed \<Rightarrow> port \<Rightarrow> cell" where
  "port_at p q = shift (snd p) (pt_cell q)"

text \<open>A block fits onto an open port: its port \<open>j\<close> lies in the cell across, looks back at
  it and carries the same clip; its cells are in bounds and free.\<close>

definition fits :: "cell set \<Rightarrow> cell \<Rightarrow> int \<Rightarrow> string \<Rightarrow> placed \<Rightarrow> nat \<Rightarrow> bool" where
  "fits occ wcell wface clip p j \<longleftrightarrow>
     j < length (or_ports (fst p)) \<and>
     (\<exists>delta. FACE_DELTAS wface = Some delta \<and> port_at p (or_ports (fst p) ! j) = shift wcell delta) \<and>
     pt_face (or_ports (fst p) ! j) = opposite_face wface \<and>
     pt_clip (or_ports (fst p) ! j) = clip \<and>
     in_bounds (footprint_at (fst p) (snd p)) \<and> cells_of p \<inter> occ = {}"

inductive legal_route :: "'f walker \<Rightarrow> int \<Rightarrow> int \<Rightarrow> cell set \<Rightarrow> int \<Rightarrow> cell \<Rightarrow> int \<Rightarrow> string
    \<Rightarrow> placed list \<Rightarrow> bool" for W len every where
  finish: "fst p \<in> set (pool_at W len every steps) \<Longrightarrow> fits occ wcell wface clip p j \<Longrightarrow>
     or_waypoint (fst p) = ''Finish'' \<Longrightarrow> other_ports (fst p) j = [] \<Longrightarrow>
     legal_route W len every occ steps wcell wface clip [p]"
| extend: "fst p \<in> set (pool_at W len every steps) \<Longrightarrow> fits occ wcell wface clip p j \<Longrightarrow>
     or_waypoint (fst p) \<noteq> ''Finish'' \<Longrightarrow> other_ports (fst p) j = [nxt] \<Longrightarrow>
     (is_directional (fst p) \<Longrightarrow> faces_exit (fst p) nxt) \<Longrightarrow>
     legal_route W len every (occ \<union> cells_of p) (steps + 1) (port_at p nxt) (pt_face nxt)
       (pt_clip nxt) ps \<Longrightarrow>
     legal_route W len every occ steps wcell wface clip (p # ps)"

inductive_cases legal_route_NilE: "legal_route W len every occ steps wcell wface clip []"
inductive_cases legal_route_ConsE: "legal_route W len every occ steps wcell wface clip (p # ps)"

subsection \<open>The candidate order is a permutation\<close>

lemma mset_weighted_order [perm_facts]:
  "mset (fst (weighted_order F items r)) = mset (map fst items)"
proof (induction F items r rule: weighted_order.induct)
  case (1 F items r)
  show ?case
  proof (cases "items = []")
    case True
    then show ?thesis by (simp add: weighted_order.simps)
  next
    case False
    obtain k r' where k: "draw_index F items r = (k, r')" by fastforce
    let ?rest = "take k items @ drop (Suc k) items"
    obtain xs r'' where xs: "weighted_order F ?rest r' = (xs, r'')" by fastforce
    have "k < length items" using draw_index_bound [OF k False] .
    have "mset xs = mset (map fst ?rest)"
      using "1.IH" [OF False k [symmetric]] xs by simp
    then have "mset (fst (weighted_order F items r)) =
        image_mset fst (mset (items ! k # ?rest))"
      using False k xs by (simp add: weighted_order.simps [of F items r])
    also have "\<dots> = mset (map fst items)"
      using mset_take_drop_nth [OF \<open>k < length items\<close>] by simp
    finally show ?thesis .
  qed
qed

lemma mset_order_candidates [perm_facts]:
  "mset (fst (order_candidates F W prev clip pool r)) = mset pool"
  by (simp add: order_candidates_def perm_facts comp_def)

interpretation weighted: candidate_order "weighted_order F" fst for F
  by unfold_locales (simp add: perm_facts)

interpretation clip_order: candidate_order "order_candidates F W prev clip" "\<lambda>x. x"
  for F W prev clip
  by unfold_locales (simp add: perm_facts)

lemma set_entries_of: "set (entries_of pool) = {(c, j). c \<in> set pool \<and> j < length (or_ports c)}"
  by (auto simp: entries_of_def)

lemma set_entries_of_order:
  "order_candidates F W prev clip pool r = (pool', r') \<Longrightarrow> set (entries_of pool') = set (entries_of pool)"
  using clip_order.order_set [of F W prev clip pool r] by (simp add: set_entries_of)

subsection \<open>One candidate: the verdict against the specification\<close>

lemma shift_eq_iff_sub: "shift a c = t \<longleftrightarrow> a = sub t c"
  by (cases a; cases c; cases t) auto

lemma fits_port: "fits occ wcell wface clip p j \<Longrightarrow> j < length (or_ports (fst p))"
  by (simp add: fits_def)

lemma fits_iff:
  assumes "FACE_DELTAS wface = Some delta"
  shows "fits occ wcell wface clip (cand, anchor) j \<longleftrightarrow>
    j < length (or_ports cand) \<and> anchor = sub (shift wcell delta) (pt_cell (or_ports cand ! j)) \<and>
    pt_face (or_ports cand ! j) = opposite_face wface \<and> pt_clip (or_ports cand ! j) = clip \<and>
    in_bounds (footprint_at cand anchor) \<and> (\<forall>c \<in> set (footprint_at cand anchor). c \<notin> occ)"
  using assms by (auto simp: fits_def port_at_def cells_of_def shift_eq_iff_sub)

lemma consider_Close_iff:
  assumes "FACE_DELTAS wface = Some delta" "j < length (or_ports cand)"
  shows "consider_entry (shift wcell delta) (opposite_face wface) clip occ (cand, j) = Close c a \<longleftrightarrow>
    c = cand \<and> fits occ wcell wface clip (cand, a) j \<and> or_waypoint cand = ''Finish'' \<and>
    other_ports cand j = []"
  using assms(2)
  by (auto simp: consider_entry_def Let_def fits_iff [OF assms(1)] split: list.splits)

lemma consider_Extend_iff:
  assumes "FACE_DELTAS wface = Some delta" "j < length (or_ports cand)"
  shows "consider_entry (shift wcell delta) (opposite_face wface) clip occ (cand, j) = Extend c a nxt \<longleftrightarrow>
    c = cand \<and> fits occ wcell wface clip (cand, a) j \<and> or_waypoint cand \<noteq> ''Finish'' \<and>
    other_ports cand j = [nxt] \<and> (is_directional cand \<longrightarrow> faces_exit cand nxt)"
  using assms(2)
  by (auto simp: consider_entry_def Let_def fits_iff [OF assms(1)] split: list.splits)

text \<open>The routes whose first block enters through a given port.\<close>

definition route_via :: "'f walker \<Rightarrow> int \<Rightarrow> int \<Rightarrow> cell set \<Rightarrow> int \<Rightarrow> cell \<Rightarrow> int \<Rightarrow> string
    \<Rightarrow> oriented \<times> nat \<Rightarrow> placed list \<Rightarrow> bool" where
  "route_via W len every occ steps wcell wface clip ce ps \<longleftrightarrow>
     (\<exists>a ps'. ps = (fst ce, a) # ps' \<and> fits occ wcell wface clip (fst ce, a) (snd ce) \<and>
       (if or_waypoint (fst ce) = ''Finish'' then other_ports (fst ce) (snd ce) = [] \<and> ps' = []
        else \<exists>nxt. other_ports (fst ce) (snd ce) = [nxt] \<and>
          (is_directional (fst ce) \<longrightarrow> faces_exit (fst ce) nxt) \<and>
          legal_route W len every (occ \<union> cells_of (fst ce, a)) (steps + 1)
            (port_at (fst ce, a) nxt) (pt_face nxt) (pt_clip nxt) ps'))"

lemma legal_route_via:
  "legal_route W len every occ steps wcell wface clip ps \<longleftrightarrow>
     (\<exists>ce \<in> set (entries_of (pool_at W len every steps)).
        route_via W len every occ steps wcell wface clip ce ps)"
proof
  assume "legal_route W len every occ steps wcell wface clip ps"
  then show "\<exists>ce \<in> set (entries_of (pool_at W len every steps)).
      route_via W len every occ steps wcell wface clip ce ps"
  proof (cases rule: legal_route.cases)
    case (finish p j)
    then show ?thesis
      by (intro bexI [of _ "(fst p, j)"])
        (auto simp: route_via_def set_entries_of dest: fits_port intro!: exI [of _ "snd p"])
  next
    case (extend p j nxt ps')
    then show ?thesis
      by (intro bexI [of _ "(fst p, j)"])
        (auto simp: route_via_def set_entries_of dest: fits_port intro!: exI [of _ "snd p"])
  qed
next
  assume "\<exists>ce \<in> set (entries_of (pool_at W len every steps)).
      route_via W len every occ steps wcell wface clip ce ps"
  then show "legal_route W len every occ steps wcell wface clip ps"
    by (auto simp: route_via_def set_entries_of split: if_splits
        intro!: legal_route.intros)
qed

lemma route_via_Close:
  assumes "FACE_DELTAS wface = Some delta" "snd ce < length (or_ports (fst ce))"
    and "consider_entry (shift wcell delta) (opposite_face wface) clip occ ce = Close c a"
  shows "route_via W len every occ steps wcell wface clip ce [(c, a)]"
  using assms(3) consider_Close_iff [OF assms(1,2), of wcell clip occ c a] by (simp add: route_via_def)

lemma route_via_Extend:
  assumes "FACE_DELTAS wface = Some delta" "snd ce < length (or_ports (fst ce))"
    and "consider_entry (shift wcell delta) (opposite_face wface) clip occ ce = Extend c a nxt"
  shows "route_via W len every occ steps wcell wface clip ce ps \<longleftrightarrow>
    (\<exists>ps'. ps = (c, a) # ps' \<and> legal_route W len every (occ \<union> cells_of (c, a)) (steps + 1)
       (port_at (c, a) nxt) (pt_face nxt) (pt_clip nxt) ps')"
proof -
  have *: "c = fst ce" "fits occ wcell wface clip (c, a) (snd ce)" "or_waypoint c \<noteq> ''Finish''"
    "other_ports c (snd ce) = [nxt]" "is_directional c \<longrightarrow> faces_exit c nxt"
    using assms(3) consider_Extend_iff [OF assms(1,2), of wcell clip occ c a nxt] by auto
  have "route_via W len every occ steps wcell wface clip ce ps \<longleftrightarrow>
      (\<exists>a' ps'. ps = (c, a') # ps' \<and> fits occ wcell wface clip (c, a') (snd ce) \<and>
         legal_route W len every (occ \<union> cells_of (c, a')) (steps + 1)
           (port_at (c, a') nxt) (pt_face nxt) (pt_clip nxt) ps')"
    using *(3-5) by (simp add: route_via_def *(1) [symmetric])
  moreover have "fits occ wcell wface clip (c, a') (snd ce) \<longleftrightarrow> a' = a" for a'
    using *(2) by (auto simp: fits_iff [OF assms(1)])
  ultimately show ?thesis by auto
qed

lemma route_via_Skip:
  assumes "FACE_DELTAS wface = Some delta" "snd ce < length (or_ports (fst ce))"
    and "consider_entry (shift wcell delta) (opposite_face wface) clip occ ce = Skip"
  shows "\<not> route_via W len every occ steps wcell wface clip ce ps"
proof
  assume "route_via W len every occ steps wcell wface clip ce ps"
  then obtain a where a: "fits occ wcell wface clip (fst ce, a) (snd ce)"
    "if or_waypoint (fst ce) = ''Finish'' then other_ports (fst ce) (snd ce) = []
     else \<exists>nxt. other_ports (fst ce) (snd ce) = [nxt] \<and>
       (is_directional (fst ce) \<longrightarrow> faces_exit (fst ce) nxt)"
    by (auto simp: route_via_def split: if_splits)
  show False
  proof (cases "or_waypoint (fst ce) = ''Finish''")
    case True
    with a assms(3) consider_Close_iff [OF assms(1,2), of wcell clip occ "fst ce" a]
    show False by simp
  next
    case False
    with a(2) obtain nxt where "other_ports (fst ce) (snd ce) = [nxt]"
      "is_directional (fst ce) \<longrightarrow> faces_exit (fst ce) nxt" by auto
    with False a(1) assms(3) consider_Extend_iff [OF assms(1,2), of wcell clip occ "fst ce" a nxt]
    show False by simp
  qed
qed

lemma Extend_fresh:
  "consider_entry target face clip occ ce = Extend c a nxt \<Longrightarrow> cells_of (c, a) \<inter> occ = {}"
  by (auto simp: consider_entry_def Let_def cells_of_def split: if_splits list.splits prod.splits)

subsection \<open>The search is sound and complete\<close>

abbreviation placements_of :: "placed list \<Rightarrow> placement list" where
  "placements_of ps \<equiv> map (\<lambda>p. place (fst p) (snd p)) ps"

abbreviation clip_ok :: "(placed list \<Rightarrow> bool) \<Rightarrow> 'f walk_state \<Rightarrow> walk_error search_result \<times> 'f walk_state
    \<Rightarrow> bool" where
  "clip_ok R \<equiv> outcome_ok ws_placements ws_occupied (\<lambda>qs. \<exists>ps. qs = placements_of ps \<and> R ps)"

lemmas clip_stack_defs = clip_push_def clip_pop_def cells_of_def

interpretation clip_stack: undo_stack ws_placements ws_occupied clip_push clip_pop
  "\<lambda>p. place (fst p) (snd p)" "\<lambda>p st. cells_of p \<inter> ws_occupied st = {}"
  by unfold_locales (auto simp: clip_stack_defs)

lemma try_entries_ok:
  assumes rec: "\<And>wcell wface clip st.
      clip_ok (legal_route W len every (ws_occupied st) (steps + 1) wcell wface clip) st
        (rec wcell wface clip st)"
    and delta: "FACE_DELTAS wface = Some delta"
    and ports: "\<forall>ce \<in> set ces. snd ce < length (or_ports (fst ce))"
  shows "clip_ok (\<lambda>ps. \<exists>ce \<in> set ces. route_via W len every (ws_occupied st) steps wcell wface clip ce ps)
    st (try_entries (shift wcell delta) (opposite_face wface) clip rec ces st)"
  using ports
proof (induction ces arbitrary: st)
  case (Cons ce ces)
  then have ce: "snd ce < length (or_ports (fst ce))" by simp
  let ?v = "consider_entry (shift wcell delta) (opposite_face wface) clip (ws_occupied st) ce"
  let ?via = "\<lambda>ces ps. \<exists>ce \<in> set ces. route_via W len every (ws_occupied st) steps wcell wface clip ce ps"
  show ?case
  proof (cases ?v)
    case Skip
    with route_via_Skip [OF delta ce Skip, of W] Cons show ?thesis by simp
  next
    case (Close c a)
    with route_via_Close [OF delta ce Close, of W] show ?thesis
      by (auto intro!: exI [of _ "[(c, a)]"])
  next
    case (Extend c a nxt)
    let ?loop = "try_entries (shift wcell delta) (opposite_face wface) clip rec"
    let ?R = "legal_route W len every (ws_occupied (clip_push (c, a) st)) (steps + 1)
      (port_at (c, a) nxt) (pt_face nxt) (pt_clip nxt)"
    have call: "clip_ok ?R (clip_push (c, a) st)
        (rec (shift a (pt_cell nxt)) (pt_face nxt) (pt_clip nxt) (clip_push (c, a) st))"
      using rec by (simp add: port_at_def)
    have rest: "clip_ok (?via ces) st (?loop ces s')"
      if "ws_placements s' = ws_placements st" "ws_occupied s' = ws_occupied st" for s'
      by (rule outcome_ok_state [OF _ that]) (use Cons.IH [of s'] Cons.prems that in simp)
    have "outcome_ok ws_placements ws_occupied
        (\<lambda>qs. (\<exists>rs. qs = place c a # rs \<and> (\<exists>ps. rs = placements_of ps \<and> ?R ps)) \<or>
              (\<exists>ps. qs = placements_of ps \<and> ?via ces ps)) st (?loop (ce # ces) st)"
      using clip_stack.extend_ok [of "(c, a)" st, OF Extend_fresh [OF Extend] call rest] Extend
      by simp
    moreover have "((\<exists>rs. qs = place c a # rs \<and> (\<exists>ps. rs = placements_of ps \<and> ?R ps)) \<or>
        (\<exists>ps. qs = placements_of ps \<and> ?via ces ps)) \<longleftrightarrow>
        (\<exists>ps. qs = placements_of ps \<and> ?via (ce # ces) ps)" for qs
      using route_via_Extend [OF delta ce Extend, of W len every steps]
      by (auto simp: clip_stack_defs intro: exI [of _ "(c, a) # _"])
    ultimately show ?thesis by simp
  qed
qed simp

lemma clip_dfs_ok:
  "clip_ok (legal_route W len every (ws_occupied st) steps wcell wface clip) st
     (clip_dfs fuel F W len every max_expansions steps wcell wface clip st)"
proof (induction fuel arbitrary: steps wcell wface clip st)
  case (Suc fuel)
  let ?st = "st\<lparr>ws_expansions := ws_expansions st + 1\<rparr>"
  show ?case
  proof (cases "ws_expansions st + 1 > max_expansions \<or> FACE_DELTAS wface = None")
    case False
    then obtain delta where delta: "FACE_DELTAS wface = Some delta"
      and budget: "\<not> ws_expansions st + 1 > max_expansions" by auto
    obtain pool r where pool: "order_candidates F W (last (ws_placements st)) clip
        (pool_at W len every steps) (ws_rng st) = (pool, r)" by fastforce
    let ?st' = "?st\<lparr>ws_rng := r\<rparr>"
    have "clip_ok (\<lambda>ps. \<exists>ce \<in> set (entries_of pool).
          route_via W len every (ws_occupied ?st') steps wcell wface clip ce ps) ?st'
        (try_entries (shift wcell delta) (opposite_face wface) clip
          (clip_dfs fuel F W len every max_expansions (steps + 1)) (entries_of pool) ?st')"
      by (rule try_entries_ok [OF Suc.IH delta]) (auto simp: set_entries_of)
    then have "clip_ok (legal_route W len every (ws_occupied st) steps wcell wface clip) ?st'
        (try_entries (shift wcell delta) (opposite_face wface) clip
          (clip_dfs fuel F W len every max_expansions (steps + 1)) (entries_of pool) ?st')"
      using set_entries_of_order [OF pool] by (simp add: legal_route_via [abs_def])
    then have "clip_ok (legal_route W len every (ws_occupied st) steps wcell wface clip) st
        (try_entries (shift wcell delta) (opposite_face wface) clip
          (clip_dfs fuel F W len every max_expansions (steps + 1)) (entries_of pool) ?st')"
      by (rule outcome_ok_state) simp_all
    with delta budget pool show ?thesis by (simp add: Let_def)
  qed (auto simp: Let_def)
qed simp

subsection \<open>What the constructor guarantees\<close>

definition walker_wf :: "'f walker \<Rightarrow> bool" where
  "walker_wf W \<longleftrightarrow>
     w_starts W \<noteq> [] \<and> w_finishes W \<noteq> [] \<and>
     (\<forall>c \<in> set (w_starts W). or_waypoint c = ''Start'' \<and> length (or_ports c) = 1) \<and>
     (\<forall>c \<in> set (w_finishes W). or_waypoint c = ''Finish'' \<and> length (or_ports c) = 1) \<and>
     (\<forall>c \<in> set (w_checkpoints W). or_waypoint c = ''Checkpoint'' \<and> length (or_ports c) = 2) \<and>
     (\<forall>c \<in> set (w_plain W). or_waypoint c = ''None'' \<and> length (or_ports c) = 2) \<and>
     (\<forall>c \<in> set (w_starts W) \<union> set (w_finishes W) \<union> set (w_checkpoints W) \<union> set (w_plain W).
        \<forall>q \<in> set (or_ports c). 0 \<le> pt_face q \<and> pt_face q < 4)"

lemma orientations_faces:
  "c \<in> set (orientations block clips) \<Longrightarrow> q \<in> set (or_ports c) \<Longrightarrow> 0 \<le> pt_face q \<and> pt_face q < 4"
  by (auto simp: orientations_def orient_at_def Let_def split: option.splits if_splits)

lemma gather_orient_mem:
  "gather_orient cat clips ids = Inr os \<Longrightarrow> c \<in> set os \<longleftrightarrow>
     (\<exists>i \<in> set ids. \<exists>block. map_of cat i = Some block \<and> c \<in> set (orientations block clips))"
  by (induction ids arbitrary: os) (auto split: option.splits sum.splits)

lemma clip_walker_init_wf:
  assumes "clip_walker_init cat ids clips priors bias = Inr W"
  shows "walker_wf W"
proof -
  from assms obtain os where os: "gather_orient cat clips ids = Inr os"
    and W: "W = \<lparr>w_priors = priors, w_bias = bias, w_orient = os,
      w_starts = usable ''Start'' 1 os, w_finishes = usable ''Finish'' 1 os,
      w_checkpoints = usable ''Checkpoint'' 2 os, w_plain = usable ''None'' 2 os\<rparr>"
    and ne: "usable ''Start'' 1 os \<noteq> []" "usable ''Finish'' 1 os \<noteq> []"
    by (auto simp: clip_walker_init_def split: sum.splits if_splits)
  have faces: "0 \<le> pt_face q \<and> pt_face q < 4" if "c \<in> set os" "q \<in> set (or_ports c)" for c q
    using that gather_orient_mem [OF os] orientations_faces by blast
  show ?thesis using ne faces by (auto simp: walker_wf_def W usable_def)
qed

lemma pool_at_subset:
  "set (pool_at W len every steps) \<subseteq> set (w_finishes W) \<union> set (w_checkpoints W) \<union> set (w_plain W)"
  by (auto simp: pool_at_def)

lemma pool_at_wf:
  assumes "walker_wf W" "c \<in> set (pool_at W len every steps)"
  shows "or_waypoint c = ''Finish'' \<longleftrightarrow> len \<le> steps"
    and "length (or_ports c) = (if len \<le> steps then 1 else 2)"
    and "q \<in> set (or_ports c) \<Longrightarrow> 0 \<le> pt_face q \<and> pt_face q < 4"
  using assms by (auto simp: walker_wf_def pool_at_def split: if_splits)

subsection \<open>The budget bounds the search, and no other exception escapes\<close>

lemma other_ports_subset: "other_ports c j = qs \<Longrightarrow> set qs \<subseteq> set (or_ports c)"
  by (auto simp: other_ports_def dest: in_set_takeD in_set_dropD)

lemma Extend_port:
  "consider_entry target face clip occ ce = Extend c a nxt \<Longrightarrow> nxt \<in> set (or_ports (fst ce))"
  by (auto simp: consider_entry_def Let_def split: if_splits list.splits prod.splits
      dest: other_ports_subset)

abbreviation clip_bounded :: "int \<Rightarrow> int \<Rightarrow> nat \<Rightarrow> walk_error search_result \<times> 'f walk_state \<Rightarrow> bool" where
  "clip_bounded \<equiv> bounded_call ws_expansions BudgetExhausted"

lemma try_entries_bounded:
  assumes rec: "\<And>wcell wface clip s. 0 \<le> wface \<Longrightarrow> wface < 4 \<Longrightarrow> b \<le> ws_expansions s \<Longrightarrow>
      ws_expansions s \<le> m \<Longrightarrow> clip_bounded m (ws_expansions s) fuel (rec wcell wface clip s)"
    and "\<forall>ce \<in> set ces. \<forall>q \<in> set (or_ports (fst ce)). 0 \<le> pt_face q \<and> pt_face q < 4"
    and "b \<le> ws_expansions st" "ws_expansions st \<le> m"
  shows "clip_bounded m b fuel (try_entries target face clip rec ces st)"
  using assms(2-)
proof (induction ces arbitrary: st)
  case (Cons ce ces)
  show ?case
  proof (cases "consider_entry target face clip (ws_occupied st) ce")
    case (Extend c a nxt)
    let ?st = "clip_push (c, a) st"
    have "clip_bounded m (ws_expansions ?st) fuel
        (rec (shift a (pt_cell nxt)) (pt_face nxt) (pt_clip nxt) ?st)"
      using rec [of _ ?st] Extend_port [OF Extend] Cons.prems by (simp add: clip_push_def)
    then have "clip_bounded m b fuel
        (or_else (rec (shift a (pt_cell nxt)) (pt_face nxt) (pt_clip nxt) ?st)
          (\<lambda>s. try_entries target face clip rec ces (clip_pop (c, a) s)))"
      by (rule bounded_or_else) (use Cons in \<open>simp_all add: clip_push_def clip_pop_def\<close>)
    with Extend show ?thesis by simp
  qed (use Cons in auto)
qed simp

lemma clip_dfs_bounded:
  assumes "walker_wf W"
  shows "0 \<le> wface \<Longrightarrow> wface < 4 \<Longrightarrow> ws_expansions st \<le> m \<Longrightarrow> clip_bounded m (ws_expansions st) fuel
    (clip_dfs fuel F W len every m steps wcell wface clip st)"
proof (induction fuel arbitrary: steps wcell wface clip st)
  case (Suc fuel)
  let ?st = "st\<lparr>ws_expansions := ws_expansions st + 1\<rparr>"
  obtain delta where delta: "FACE_DELTAS wface = Some delta"
    using FACE_DELTAS_dom Suc.prems by blast
  obtain pool r where pool: "order_candidates F W (last (ws_placements st)) clip
      (pool_at W len every steps) (ws_rng st) = (pool, r)" by fastforce
  have faces: "\<forall>ce \<in> set (entries_of pool). \<forall>q \<in> set (or_ports (fst ce)). 0 \<le> pt_face q \<and> pt_face q < 4"
    using pool_at_wf(3) [OF assms] set_entries_of_order [OF pool] by (fastforce simp: set_entries_of)
  show ?case
  proof (cases "ws_expansions st + 1 > m")
    case False
    have "clip_bounded m (ws_expansions st + 1) fuel
        (try_entries (shift wcell delta) (opposite_face wface) clip
          (clip_dfs fuel F W len every m (steps + 1)) (entries_of pool) (?st\<lparr>ws_rng := r\<rparr>))"
      by (rule try_entries_bounded [OF Suc.IH faces]) (use False in auto)
    then show ?thesis using delta pool False bounded_call_Suc by (simp add: Let_def)
  qed (use Suc.prems in \<open>simp add: Let_def\<close>)
qed simp

subsection \<open>Declarative form of a route\<close>

text \<open>
  \<open>threaded\<close>: the open port meets port \<open>j\<close> of the next block (facing cell, opposite face,
  same clip), and the route leaves that block through another port \<open>k\<close>; a block whose arrow
  matters points out of the port the route leaves through.
\<close>

definition meshes :: "cell \<Rightarrow> int \<Rightarrow> string \<Rightarrow> placed \<Rightarrow> nat \<Rightarrow> bool" where
  "meshes wcell wface clip p j \<longleftrightarrow>
     j < length (or_ports (fst p)) \<and>
     (case FACE_DELTAS wface of None \<Rightarrow> False
      | Some delta \<Rightarrow> port_at p (or_ports (fst p) ! j) = shift wcell delta) \<and>
     pt_face (or_ports (fst p) ! j) = opposite_face wface \<and>
     pt_clip (or_ports (fst p) ! j) = clip"

fun threaded :: "cell \<Rightarrow> int \<Rightarrow> string \<Rightarrow> placed list \<Rightarrow> bool" where
  "threaded wcell wface clip [] \<longleftrightarrow> True"
| "threaded wcell wface clip (p # ps) \<longleftrightarrow>
     (\<exists>j < length (or_ports (fst p)). meshes wcell wface clip p j \<and>
        (ps = [] \<or> (\<exists>k < length (or_ports (fst p)). k \<noteq> j \<and>
           (is_directional (fst p) \<longrightarrow> faces_exit (fst p) (or_ports (fst p) ! k)) \<and>
           threaded (port_at p (or_ports (fst p) ! k)) (pt_face (or_ports (fst p) ! k))
             (pt_clip (or_ports (fst p) ! k)) ps)))"

definition route_from :: "'f walker \<Rightarrow> int \<Rightarrow> int \<Rightarrow> cell set \<Rightarrow> int \<Rightarrow> cell \<Rightarrow> int \<Rightarrow> string
    \<Rightarrow> placed list \<Rightarrow> bool" where
  "route_from W len every occ steps wcell wface clip ps \<longleftrightarrow>
     threaded wcell wface clip ps \<and>
     (\<forall>p \<in> set ps. in_bounds (footprint_at (fst p) (snd p))) \<and>
     (\<forall>p \<in> set ps. cells_of p \<inter> occ = {}) \<and>
     sorted_wrt (\<lambda>p q. cells_of p \<inter> cells_of q = {}) ps \<and>
     int (length ps) = max 1 (len - steps + 1) \<and>
     (\<forall>i < length ps. fst (ps ! i) \<in> set (pool_at W len every (steps + int i)))"

lemma fits_meshes:
  "fits occ wcell wface clip p j \<longleftrightarrow> meshes wcell wface clip p j \<and>
     in_bounds (footprint_at (fst p) (snd p)) \<and> cells_of p \<inter> occ = {}"
  by (auto simp: fits_def meshes_def split: option.splits)

lemma other_ports_single:
  assumes "length (or_ports c) = 1" "j < length (or_ports c)"
  shows "other_ports c j = []"
  using assms by (simp add: other_ports_def)

lemma other_ports_pair:
  assumes "length (or_ports c) = 2" "j < 2" "k < 2" "k \<noteq> j"
  shows "other_ports c j = [or_ports c ! k]"
proof -
  obtain a b where ab: "or_ports c = [a, b]"
    using assms(1) by (auto simp: numeral_2_eq_2 length_Suc_conv)
  have "j = 0 \<and> k = 1 \<or> j = 1 \<and> k = 0"
    using assms(2-4) by linarith
  then show ?thesis by (auto simp: other_ports_def ab)
qed

text \<open>With a constructed walker the two forms agree.\<close>

lemma all_pool_Cons:
  "(\<forall>i < length (p # ps). fst ((p # ps) ! i) \<in> set (pool_at W len every (steps + int i))) \<longleftrightarrow>
     fst p \<in> set (pool_at W len every steps) \<and>
     (\<forall>i < length ps. fst (ps ! i) \<in> set (pool_at W len every (steps + 1 + int i)))"
  by (auto simp: less_Suc_eq_0_disj add.assoc)

lemma route_from_last:
  assumes wf: "walker_wf W" and p: "fst p \<in> set (pool_at W len every steps)" and "len \<le> steps"
  shows "route_from W len every occ steps wcell wface clip (p # ps) \<longleftrightarrow>
    (\<exists>j. fits occ wcell wface clip p j) \<and> ps = []"
  using assms by (auto simp: route_from_def fits_meshes meshes_def)

lemma threaded_next:
  assumes "length (or_ports (fst p)) = 2" "ps \<noteq> []"
  shows "threaded wcell wface clip (p # ps) \<longleftrightarrow>
    (\<exists>j nxt. meshes wcell wface clip p j \<and> other_ports (fst p) j = [nxt] \<and>
       (is_directional (fst p) \<longrightarrow> faces_exit (fst p) nxt) \<and>
       threaded (port_at p nxt) (pt_face nxt) (pt_clip nxt) ps)" (is "?l \<longleftrightarrow> ?r")
proof
  assume ?l
  then obtain j k where jk: "j < 2" "k < 2" "k \<noteq> j" "meshes wcell wface clip p j"
    "is_directional (fst p) \<longrightarrow> faces_exit (fst p) (or_ports (fst p) ! k)"
    "threaded (port_at p (or_ports (fst p) ! k)) (pt_face (or_ports (fst p) ! k))
       (pt_clip (or_ports (fst p) ! k)) ps"
    using assms by auto
  then show ?r using other_ports_pair [OF assms(1) jk(1-3)] by blast
next
  assume ?r
  then obtain j nxt where j: "meshes wcell wface clip p j" and o: "other_ports (fst p) j = [nxt]"
    and *: "is_directional (fst p) \<longrightarrow> faces_exit (fst p) nxt"
      "threaded (port_at p nxt) (pt_face nxt) (pt_clip nxt) ps" by blast
  have "j < 2" using j assms(1) by (simp add: meshes_def)
  then have k: "1 - j < 2" "1 - j \<noteq> j" by presburger+
  have "nxt = or_ports (fst p) ! (1 - j)"
    using other_ports_pair [OF assms(1) \<open>j < 2\<close> k] o by simp
  with j * k \<open>j < 2\<close> assms(1) show ?l
    by (simp only: threaded.simps) (rule exI [of _ j], auto)
qed

lemma route_from_Cons:
  assumes wf: "walker_wf W" and p: "fst p \<in> set (pool_at W len every steps)"
  shows "route_from W len every occ steps wcell wface clip (p # ps) \<longleftrightarrow>
    (\<exists>j. fits occ wcell wface clip p j \<and>
       (if len \<le> steps then ps = []
        else \<exists>nxt. other_ports (fst p) j = [nxt] \<and> (is_directional (fst p) \<longrightarrow> faces_exit (fst p) nxt) \<and>
          route_from W len every (occ \<union> cells_of p) (steps + 1) (port_at p nxt) (pt_face nxt)
            (pt_clip nxt) ps))"
proof (cases "len \<le> steps")
  case True
  then show ?thesis using route_from_last [OF wf p] by auto
next
  case False
  have len: "int (length (p # ps)) = max 1 (len - steps + 1) \<longleftrightarrow>
      int (length ps) = max 1 (len - (steps + 1) + 1)"
    using False by auto
  have ne: "ps \<noteq> []" if "int (length ps) = max 1 (len - (steps + 1) + 1)"
    using that by auto
  have two: "length (or_ports (fst p)) = 2" using pool_at_wf(2) [OF wf p] False by simp
  show ?thesis
  proof (cases "ps = []")
    case True
    then show ?thesis using False by (auto simp: route_from_def)
  next
    case ps: False
    show ?thesis
      using False p
      by (simp only: route_from_def all_pool_Cons len threaded_next [OF two ps] fits_meshes)
        (auto simp: Int_Un_distrib; blast)
  qed
qed

lemma legal_route_pool:
  "legal_route W len every occ steps wcell wface clip (p # ps) \<Longrightarrow>
     fst p \<in> set (pool_at W len every steps)"
  by (auto elim: legal_route_ConsE)

lemma legal_route_Cons:
  assumes wf: "walker_wf W" and p: "fst p \<in> set (pool_at W len every steps)"
  shows "legal_route W len every occ steps wcell wface clip (p # ps) \<longleftrightarrow>
    (\<exists>j. fits occ wcell wface clip p j \<and>
       (if len \<le> steps then ps = []
        else \<exists>nxt. other_ports (fst p) j = [nxt] \<and> (is_directional (fst p) \<longrightarrow> faces_exit (fst p) nxt) \<and>
          legal_route W len every (occ \<union> cells_of p) (steps + 1) (port_at p nxt) (pt_face nxt)
            (pt_clip nxt) ps))"
  (is "?l \<longleftrightarrow> ?r")
proof
  assume ?l
  then show ?r
    by (rule legal_route_ConsE) (use pool_at_wf(1) [OF wf p] in \<open>auto intro: fits_port\<close>)
next
  assume ?r
  then obtain j where j: "fits occ wcell wface clip p j" and
    rest: "if len \<le> steps then ps = []
        else \<exists>nxt. other_ports (fst p) j = [nxt] \<and> (is_directional (fst p) \<longrightarrow> faces_exit (fst p) nxt) \<and>
          legal_route W len every (occ \<union> cells_of p) (steps + 1) (port_at p nxt) (pt_face nxt)
            (pt_clip nxt) ps" by blast
  have "len \<le> steps \<Longrightarrow> other_ports (fst p) j = []"
    using pool_at_wf(2) [OF wf p] other_ports_single fits_port [OF j] by simp
  with j rest show ?l
    using pool_at_wf(1) [OF wf p] p by (auto split: if_splits intro: legal_route.intros)
qed

lemma legal_route_iff:
  assumes wf: "walker_wf W"
  shows "legal_route W len every occ steps wcell wface clip ps \<longleftrightarrow>
    route_from W len every occ steps wcell wface clip ps"
proof (induction ps arbitrary: occ steps wcell wface clip)
  case Nil
  then show ?case by (auto simp: route_from_def elim: legal_route_NilE)
next
  case (Cons p ps)
  show ?case
  proof (cases "fst p \<in> set (pool_at W len every steps)")
    case True
    then show ?thesis
      by (simp only: legal_route_Cons [OF wf True] route_from_Cons [OF wf True] Cons.IH)
  next
    case False
    then have "\<not> route_from W len every occ steps wcell wface clip (p # ps)"
      by (simp only: route_from_def all_pool_Cons simp_thms)
    with False show ?thesis using legal_route_pool by blast
  qed
qed


subsection \<open>A small instance\<close>

text \<open>A catalogue of three one-cell blocks (start, straight, finish), used by the witnesses.\<close>

definition demo_unit :: "string list \<Rightarrow> block_unit" where
  "demo_unit faces = \<lparr>bu_offset = (0, 0, 0), bu_underground = False, bu_terrain_modifier = '''',
     bu_surface = '''', bu_clips = map (\<lambda>f. (f, [''RoadTechFC''])) faces\<rparr>"

definition demo_block :: "string \<Rightarrow> string \<Rightarrow> string list \<Rightarrow> string \<times> block_def" where
  "demo_block name waypoint faces = (name,
     \<lparr>bd_block_id = name, bd_name = name, bd_page = '''', bd_waypoint = waypoint,
      bd_is_pillar = False,
      bd_variants = [\<lparr>bv_kind = ''ground'', bv_index = 0, bv_size = (1, 1, 1),
                      bv_units = [demo_unit faces]\<rparr>],
      bd_collection = ''''\<rparr>)"

definition demo_catalogue :: catalogue where
  "demo_catalogue =
     [demo_block ''RoadTechStart'' ''Start'' [''n''],
      demo_block ''RoadTechStraight'' ''None'' [''n'', ''s''],
      demo_block ''RoadTechFinish'' ''Finish'' [''s'']]"

definition demo_ids :: "string list" where
  "demo_ids = [''RoadTechStart'', ''RoadTechStraight'', ''RoadTechFinish'']"

definition demo_walker :: "string list \<Rightarrow> rat walker" where
  "demo_walker ids =
     (case clip_walker_init demo_catalogue ids DEFAULT_ROUTE_CLIPS None [] of
        Inr W \<Rightarrow> W
      | Inl _ \<Rightarrow> \<lparr>w_priors = None, w_bias = [], w_orient = [], w_starts = [], w_finishes = [],
         w_checkpoints = [], w_plain = []\<rparr>)"

definition demo_rng :: "rat rng" where
  "demo_rng = \<lparr>rng_ints = (\<lambda>_. 0), rng_floats = (\<lambda>_. 0), rng_pos = 0\<rparr>"

definition demo_route :: "placement list" where
  "demo_route = map (\<lambda>(b, z, d).
     \<lparr>pl_block_id = b, pl_x = 24, pl_y = 9, pl_z = z, pl_rotation = d, pl_variant = None\<rparr>)
     [(''RoadTechStart'', 24, 0), (''RoadTechStraight'', 25, 2), (''RoadTechFinish'', 26, 0)]"

lemma demo_init_ok:
  "clip_walker_init demo_catalogue demo_ids DEFAULT_ROUTE_CLIPS None [] = Inr (demo_walker demo_ids)"
  by code_simp

lemma demo_init_bare:
  "clip_walker_init demo_catalogue [''RoadTechStart'', ''RoadTechFinish''] DEFAULT_ROUTE_CLIPS None [] =
     Inr (demo_walker [''RoadTechStart'', ''RoadTechFinish''])"
  by code_simp

lemma generate_demo: "generate rat_fops (demo_walker demo_ids) 2 0 10 demo_rng = Route demo_route"
  by code_simp

lemma generate_bare:
  "generate rat_fops (demo_walker [''RoadTechStart'', ''RoadTechFinish'']) 2 0 10 demo_rng =
     Failed (NoRouteFound 2 walk_origin 1)"
  by code_simp

subsection \<open>The properties of \<open>generate\<close>\<close>

abbreviation route_for :: "'f walker \<Rightarrow> int \<Rightarrow> int \<Rightarrow> oriented \<Rightarrow> placed list \<Rightarrow> bool" where
  "route_for W len every start \<equiv>
     route_from W len every (cells_of (start, walk_origin)) 1
       (port_at (start, walk_origin) (hd (or_ports start)))
       (pt_face (hd (or_ports start))) (pt_clip (hd (or_ports start)))"

abbreviation start_dfs :: "'f fops \<Rightarrow> 'f walker \<Rightarrow> int \<Rightarrow> int \<Rightarrow> int \<Rightarrow> oriented \<Rightarrow> 'f rng
    \<Rightarrow> walk_error search_result \<times> 'f walk_state" where
  "start_dfs F W len every m start r \<equiv>
     clip_dfs (Suc (nat m)) F W len every m 1
       (port_at (start, walk_origin) (hd (or_ports start))) (pt_face (hd (or_ports start)))
       (pt_clip (hd (or_ports start))) (start_state start r)"

lemma start_port_face:
  assumes "walker_wf W" "c \<in> set (w_starts W)" "q \<in> set (or_ports c)"
  shows "0 \<le> pt_face q \<and> pt_face q < 4"
  using assms by (simp add: walker_wf_def ball_Un)

lemma start_dfs_bounded:
  assumes "walker_wf W" "0 \<le> pt_face (hd (or_ports start))" "pt_face (hd (or_ports start)) < 4"
  shows "clip_bounded (max 0 m) 0 (Suc (nat m)) (start_dfs F W len every m start r)"
proof (cases "0 \<le> m")
  case True
  then show ?thesis
    using clip_dfs_bounded [OF assms, of "start_state start r" m "Suc (nat m)"]
    by (simp add: start_state_def del: clip_dfs.simps)
qed (simp add: start_state_def Let_def)

lemma generate_cases:
  assumes wf: "walker_wf W"
  obtains start r' where "rng_choice (w_starts W) r = (Inr start, r')"
    and "start \<in> set (w_starts W)"
    and "generate F W len every m r = walk_outcome len (start_dfs F W len every m start r')"
    and "clip_bounded (max 0 m) 0 (Suc (nat m)) (start_dfs F W len every m start r')"
proof -
  have "w_starts W \<noteq> []" using wf by (simp add: walker_wf_def)
  then obtain start r' where choice: "rng_choice (w_starts W) r = (Inr start, r')"
    using rng_choice_total [of "w_starts W" r] by blast
  have start: "start \<in> set (w_starts W)" using rng_choice_in [OF choice] .
  with wf have "length (or_ports start) = 1" by (simp add: walker_wf_def)
  then obtain port where port: "or_ports start = [port]" by (auto simp: length_Suc_conv)
  have "0 \<le> pt_face (hd (or_ports start))" "pt_face (hd (or_ports start)) < 4"
    using start_port_face [OF wf start, of port] port by simp_all
  then have "clip_bounded (max 0 m) 0 (Suc (nat m)) (start_dfs F W len every m start r')"
    by (rule start_dfs_bounded [OF wf])
  then show thesis
    by (rule that [OF choice start, rotated])
      (simp add: port generate_def choice port_at_def del: clip_dfs.simps)
qed

lemma start_dfs_ok:
  assumes "walker_wf W"
  shows "clip_ok (route_for W len every start) (start_state start r')
    (start_dfs F W len every m start r')"
proof -
  have occ: "ws_occupied (start_state start r') = cells_of (start, walk_origin)"
    by (simp add: start_state_def cells_of_def)
  have "legal_route W len every = route_from W len every"
    by (intro ext) (rule legal_route_iff [OF assms])
  then show ?thesis
    using clip_dfs_ok [of W len every "start_state start r'" 1
        "port_at (start, walk_origin) (hd (or_ports start))" "pt_face (hd (or_ports start))"
        "pt_clip (hd (or_ports start))" "Suc (nat m)" F m] by (simp only: occ)
qed

lemma walk_outcome_simps [simp]:
  "walk_outcome len (Ret True, st) = Route (ws_placements st)"
  "walk_outcome len (Ret False, st) = Failed (NoRouteFound len walk_origin (ws_expansions st))"
  "walk_outcome len (Raise e, st) = Failed e"
  "walk_outcome len (NoFuel, st) = OutOfFuel"
  by (simp_all add: walk_outcome_def)

text \<open>
  C1. A route that \<open>generate\<close> returns is a drivable route. It begins with a usable start block
  at the origin; each later block meets the open port of its predecessor (its port lies in the
  facing cell, looks back and carries the same clip) and is left through its other port, along
  its arrow if it has one; all placed blocks are pairwise disjoint, the blocks after the start lie
  inside the build bounds; and there are exactly \<open>max 1 length\<close> of them, each from the pool of
  its position (finishes at the end, checkpoints on the period, plain blocks otherwise).
\<close>

theorem generate_sound:
  assumes "clip_walker_init cat ids clips priors bias = Inr W"
    and "generate F W len every m r = Route route"
  shows "\<exists>start \<in> set (w_starts W). \<exists>ps.
    route = placements_of ((start, walk_origin) # ps) \<and> route_for W len every start ps"
proof -
  note wf = clip_walker_init_wf [OF assms(1)]
  obtain start r' where s: "start \<in> set (w_starts W)"
    and g: "generate F W len every m r = walk_outcome len (start_dfs F W len every m start r')"
    by (rule generate_cases [OF wf])
  show ?thesis
    using start_dfs_ok [OF wf, of len every start r' m F] g assms(2) s
    by (cases "start_dfs F W len every m start r'" rule: search_result_cases)
      (auto simp: start_state_def simp del: clip_dfs.simps)
qed

theorem generate_sound_witness:
  "\<exists>start \<in> set (w_starts (demo_walker demo_ids)). \<exists>ps.
     demo_route = placements_of ((start, walk_origin) # ps) \<and>
     route_for (demo_walker demo_ids) 2 0 start ps"
  by (rule generate_sound [OF demo_init_ok generate_demo])

text \<open>
  C2. When \<open>generate\<close> gives up with "no route of the requested length found", the search was
  exhaustive: for the start block it drew, no arrangement of the walker's blocks is a route of the
  requested length from the origin.
\<close>

theorem generate_complete:
  assumes "clip_walker_init cat ids clips priors bias = Inr W"
    and "generate F W len every m r = Failed (NoRouteFound len' origin n)"
  shows "len' = len \<and> origin = walk_origin \<and>
    (\<exists>start \<in> set (w_starts W). fst (rng_choice (w_starts W) r) = Inr start \<and>
       (\<nexists>ps. route_for W len every start ps))"
proof -
  note wf = clip_walker_init_wf [OF assms(1)]
  obtain start r' where c: "rng_choice (w_starts W) r = (Inr start, r')"
    and s: "start \<in> set (w_starts W)"
    and g: "generate F W len every m r = walk_outcome len (start_dfs F W len every m start r')"
    and e: "clip_bounded (max 0 m) 0 (Suc (nat m)) (start_dfs F W len every m start r')"
    by (rule generate_cases [OF wf])
  show ?thesis
    using start_dfs_ok [OF wf, of len every start r' m F] g assms(2) c s e
    by (cases "start_dfs F W len every m start r'" rule: search_result_cases)
      (auto simp del: clip_dfs.simps)
qed

theorem generate_complete_witness:
  "\<exists>start \<in> set (w_starts (demo_walker [''RoadTechStart'', ''RoadTechFinish''])).
     \<nexists>ps. route_for (demo_walker [''RoadTechStart'', ''RoadTechFinish'']) 2 0 start ps"
  using generate_complete [OF demo_init_bare generate_bare] by blast

text \<open>
  C39. \<open>generate\<close> is total: with a constructed walker it returns a route, or reports that there
  is none within the budget, or that the budget is exhausted, after exactly one call more than the
  budget. No other exception escapes, and the recursion never needs more depth than the budget.
\<close>

theorem generate_total:
  assumes "clip_walker_init cat ids clips priors bias = Inr W"
  shows "(\<exists>route. generate F W len every m r = Route route) \<or>
    (\<exists>n \<le> max 0 m. generate F W len every m r = Failed (NoRouteFound len walk_origin n)) \<or>
    generate F W len every m r = Failed (BudgetExhausted (max 0 m + 1))"
proof -
  note wf = clip_walker_init_wf [OF assms(1)]
  obtain start r' where
    g: "generate F W len every m r = walk_outcome len (start_dfs F W len every m start r')"
    and e: "clip_bounded (max 0 m) 0 (Suc (nat m)) (start_dfs F W len every m start r')"
    by (rule generate_cases [OF wf])
  from e g show ?thesis
    by (cases "start_dfs F W len every m start r'" rule: search_result_cases)
      (auto simp: max_def simp del: clip_dfs.simps split: if_splits)
qed

theorem generate_total_witness:
  "generate rat_fops (demo_walker demo_ids) 3 0 2 demo_rng \<noteq> OutOfFuel"
  using generate_total [OF demo_init_ok, of rat_fops 3 0 2 demo_rng] by auto

text \<open>
  Priors and biases only reorder: whatever the weights, zero included, the order in which
  candidates are tried is a permutation of the pool. In particular a zero bias does not ban a
  block.
\<close>

theorem order_candidates_permutation:
  "mset (fst (order_candidates F W prev clip pool r)) = mset pool"
  by (rule mset_order_candidates)

end
