(* ===== verification/Families.thy ===== *)
theory Families
  imports Clip_Walker
begin

section \<open>Surface families: the walkers' block vocabulary\<close>

text \<open>
  Model of \<^verbatim>\<open>src/src/generation/families.py\<close>: the table of families, \<open>resolve_pool\<close> (the
  pool of the grammar walker) and \<open>resolve\<close> (ids and route clips for the clip walker), with
  every \<open>FamilyError\<close> a value. Main results: which ids each resolver returns, that what
  \<open>resolve\<close> returns is accepted by the clip walker's constructor, and that \<open>resolve\<close>
  never mixes two families.
\<close>

datatype unsupported_reason = PLATFORM_REASON | OPEN_REASON

record family =
  fam_name :: string
  fam_prefix :: string
  fam_clip :: string
  fam_unsupported :: "unsupported_reason option"

definition mk_family :: "string \<Rightarrow> string \<Rightarrow> string \<Rightarrow> unsupported_reason option \<Rightarrow> string \<times> family" where
  "mk_family name pre clip unsup =
     (name, \<lparr>fam_name = name, fam_prefix = pre, fam_clip = clip, fam_unsupported = unsup\<rparr>)"

definition FAMILIES :: "(string \<times> family) list" where
  "FAMILIES =
     [mk_family ''tech'' ''RoadTech'' ''RoadTechFC'' None,
      mk_family ''dirt'' ''RoadDirt'' ''RoadDirtFC'' None,
      mk_family ''bump'' ''RoadBump'' ''RoadBumpFC'' None,
      mk_family ''ice'' ''RoadIce'' ''RoadIceFC'' None,
      mk_family ''water'' ''RoadWater'' ''RoadWaterVFC'' None,
      mk_family ''platform-tech'' ''PlatformTech'' ''PlatFormFCSmall'' (Some PLATFORM_REASON),
      mk_family ''platform-dirt'' ''PlatformDirt'' ''PlatFormFCSmall'' (Some PLATFORM_REASON),
      mk_family ''platform-ice'' ''PlatformIce'' ''PlatFormFCSmall'' (Some PLATFORM_REASON),
      mk_family ''platform-grass'' ''PlatformGrass'' ''PlatFormFCSmall'' (Some PLATFORM_REASON),
      mk_family ''platform-plastic'' ''PlatformPlastic'' ''PlatFormFCSmall'' (Some PLATFORM_REASON),
      mk_family ''open-tech'' ''OpenTechRoad'' '''' (Some OPEN_REASON),
      mk_family ''open-dirt'' ''OpenDirtRoad'' '''' (Some OPEN_REASON)]"

definition GATE_PREFIX :: string where "GATE_PREFIX = ''Gate''"
definition BRIDGE_PREFIX :: string where "BRIDGE_PREFIX = ''RoadTech''"

definition SUPPORTED :: "string list" where
  "SUPPORTED = map fst (filter (\<lambda>(_, f). fam_unsupported f = None) FAMILIES)"

definition GRAMMAR_FAMILIES :: "string list" where
  "GRAMMAR_FAMILIES = sort (map fst FAMILIES)"

datatype family_error =
    NoFamilies
  | UnknownFamilies "string list"
  | FamilyBlocked string unsupported_reason
  | DifferentClips "string list" "string set"
  | LackWaypoints "string list"

definition unknown_families :: "string list \<Rightarrow> string list" where
  "unknown_families names = filter (\<lambda>n. map_of FAMILIES n = None) names"

definition family_of :: "string \<Rightarrow> family" where
  "family_of n = the (map_of FAMILIES n)"

text \<open>\<open>block_id.startswith(prefixes)\<close> with a tuple, and the footprint cap.\<close>

definition startswith_any :: "string \<Rightarrow> string list \<Rightarrow> bool" where
  "startswith_any s pres \<longleftrightarrow> (\<exists>p \<in> set pres. startswith s p)"

definition footprint_ok :: "int option \<Rightarrow> block_variant \<Rightarrow> bool" where
  "footprint_ok max_footprint v \<longleftrightarrow>
     (case max_footprint of
        None \<Rightarrow> True
      | Some m \<Rightarrow> \<not> (fst (bv_size v) > m \<or> snd (snd (bv_size v)) > m))"

definition have_waypoint :: "catalogue \<Rightarrow> string \<Rightarrow> string list \<Rightarrow> bool" where
  "have_waypoint cat waypoint ids \<longleftrightarrow>
     (\<exists>b \<in> set ids. \<exists>block \<in> set_option (map_of cat b). bd_waypoint block = waypoint)"

definition pool_prefixes :: "string list \<Rightarrow> bool \<Rightarrow> bool \<Rightarrow> string list" where
  "pool_prefixes names gates bridge =
     (let pres = map (\<lambda>n. fam_prefix (family_of n)) names;
          pres = (if gates then pres @ [GATE_PREFIX] else pres)
      in if bridge \<and> card (set names) > 1 \<and> BRIDGE_PREFIX \<notin> set pres
         then pres @ [BRIDGE_PREFIX] else pres)"

definition pool_block :: "string list \<Rightarrow> int option \<Rightarrow> string \<times> block_def \<Rightarrow> bool" where
  "pool_block pres max_footprint entry =
     (startswith_any (fst entry) pres \<and>
      (case block_variant_of (snd entry) ''ground'' 0 of
         None \<Rightarrow> False
       | Some v \<Rightarrow> footprint_ok max_footprint v))"

definition resolve_pool :: "string list \<Rightarrow> catalogue \<Rightarrow> int option \<Rightarrow> bool \<Rightarrow> bool
    \<Rightarrow> family_error + string list" where
  "resolve_pool names cat max_footprint gates bridge =
     (if names = [] then Inl NoFamilies
      else if unknown_families names \<noteq> [] then Inl (UnknownFamilies (unknown_families names))
      else let allowed = map fst (filter (pool_block (pool_prefixes names gates bridge) max_footprint) cat)
      in if \<not> (have_waypoint cat ''Start'' allowed \<and> have_waypoint cat ''Finish'' allowed)
         then Inl (LackWaypoints names)
         else Inr (sort allowed))"

definition clip_block :: "string list \<Rightarrow> string set \<Rightarrow> int option \<Rightarrow> string \<times> block_def \<Rightarrow> bool" where
  "clip_block pres clips max_footprint entry =
     (startswith_any (fst entry) pres \<and>
      (case block_variant_of (snd entry) ''ground'' 0 of
         None \<Rightarrow> False
       | Some v \<Rightarrow> footprint_ok max_footprint v \<and>
           (\<exists>p \<in> set (side_ports v). up_clip_id p \<in> clips)))"

definition resolve :: "string list \<Rightarrow> catalogue \<Rightarrow> int option
    \<Rightarrow> family_error + (string list \<times> string set)" where
  "resolve names cat max_footprint =
     (if names = [] then Inl NoFamilies
      else if unknown_families names \<noteq> [] then Inl (UnknownFamilies (unknown_families names))
      else let chosen = map family_of names;
               blocked = filter (\<lambda>f. fam_unsupported f \<noteq> None) chosen;
               clips = fam_clip ` set chosen
      in case blocked of
           f # _ \<Rightarrow> Inl (FamilyBlocked (fam_name f) (the (fam_unsupported f)))
         | [] \<Rightarrow>
             if card clips > 1 then Inl (DifferentClips names clips)
             else let allowed = map fst (filter (clip_block (map fam_prefix chosen) clips max_footprint) cat)
               in if \<not> (have_waypoint cat ''Start'' allowed \<and> have_waypoint cat ''Finish'' allowed)
                  then Inl (LackWaypoints names)
                  else Inr (sort allowed, clips))"

subsection \<open>Lemmas\<close>

lemma known_families: "unknown_families names = [] \<longleftrightarrow> set names \<subseteq> dom (map_of FAMILIES)"
  by (auto simp: unknown_families_def filter_empty_conv)

lemma supported_family:
  assumes "map_of FAMILIES n = Some f" "fam_unsupported f = None"
  shows "(n, f) \<in> set (take 5 FAMILIES)"
  using assms by (auto simp: FAMILIES_def mk_family_def split: if_splits)

lemma supported_clip_inj:
  assumes "map_of FAMILIES n = Some f" "fam_unsupported f = None"
    and "map_of FAMILIES m = Some g" "fam_unsupported g = None" "fam_clip f = fam_clip g"
  shows "n = m"
  using supported_family [OF assms(1,2)] supported_family [OF assms(3,4)] assms(5)
  by (auto simp: FAMILIES_def mk_family_def)

lemma set_filter_catalogue:
  "distinct (map fst cat) \<Longrightarrow>
     b \<in> set (map fst (filter P cat)) \<longleftrightarrow> (\<exists>block. map_of cat b = Some block \<and> P (b, block))"
  by force

lemma have_waypoint_sort [simp]: "have_waypoint cat w (sort ids) = have_waypoint cat w ids"
  by (simp add: have_waypoint_def)

lemma startswith_any_append [simp]:
  "startswith_any b (ps @ qs) \<longleftrightarrow> startswith_any b ps \<or> startswith_any b qs"
  "startswith_any b (p # ps) \<longleftrightarrow> startswith b p \<or> startswith_any b ps"
  "startswith_any b [] \<longleftrightarrow> False"
  by (auto simp: startswith_any_def)

lemma startswith_any_mem: "p \<in> set ps \<Longrightarrow> startswith b p \<Longrightarrow> startswith_any b ps"
  by (auto simp: startswith_any_def)

lemma startswith_any_pool:
  "startswith_any b (pool_prefixes names gates bridge) \<longleftrightarrow>
     startswith_any b (map (fam_prefix \<circ> family_of) names) \<or> gates \<and> startswith b GATE_PREFIX \<or>
     bridge \<and> card (set names) > 1 \<and> startswith b BRIDGE_PREFIX"
  unfolding pool_prefixes_def Let_def comp_def
  using startswith_any_mem [of BRIDGE_PREFIX "map (\<lambda>n. fam_prefix (family_of n)) names" b]
  by (cases gates) auto

lemma resolve_cases:
  assumes "resolve names cat max_footprint = Inr (ids, clips)"
  shows "names \<noteq> []" "set names \<subseteq> dom (map_of FAMILIES)"
    and "\<And>n. n \<in> set names \<Longrightarrow> fam_unsupported (family_of n) = None"
    and "clips = (fam_clip \<circ> family_of) ` set names" "card clips \<le> 1"
    and "ids = sort (map fst (filter (clip_block (map (fam_prefix \<circ> family_of) names) clips max_footprint) cat))"
    and "have_waypoint cat ''Start'' ids" "have_waypoint cat ''Finish'' ids"
  using assms
  by (auto simp: resolve_def Let_def known_families [symmetric] filter_empty_conv image_image comp_def
      split: if_splits list.splits)

text \<open>
  What \<open>resolve_pool\<close> returns: the requested families are known, and the ids are the
  sorted, duplicate-free list of exactly those catalogue blocks whose id starts with the prefix of
  a requested family (or a gate, or the connector road when surfaces are mixed), that have a ground
  variant within the footprint cap; a start and a finish are among them.
\<close>

theorem resolve_pool_spec:
  assumes "distinct (map fst cat)" and "resolve_pool names cat max_footprint gates bridge = Inr ids"
  shows "set names \<subseteq> set GRAMMAR_FAMILIES \<and> sorted ids \<and> distinct ids \<and>
    set ids = {b. \<exists>block v. map_of cat b = Some block \<and>
      (startswith_any b (map (fam_prefix \<circ> family_of) names) \<or> gates \<and> startswith b GATE_PREFIX \<or>
       bridge \<and> card (set names) > 1 \<and> startswith b BRIDGE_PREFIX) \<and>
      block_variant_of block ''ground'' 0 = Some v \<and> footprint_ok max_footprint v} \<and>
    have_waypoint cat ''Start'' ids \<and> have_waypoint cat ''Finish'' ids"
proof -
  let ?allowed = "map fst (filter (pool_block (pool_prefixes names gates bridge) max_footprint) cat)"
  from assms(2) have known: "unknown_families names = []" and ids: "ids = sort ?allowed"
    and wp: "have_waypoint cat ''Start'' ?allowed" "have_waypoint cat ''Finish'' ?allowed"
    by (auto simp: resolve_pool_def Let_def split: if_splits)
  have "set names \<subseteq> set GRAMMAR_FAMILIES"
    using known by (auto simp: known_families GRAMMAR_FAMILIES_def dom_map_of_conv_image_fst)
  moreover have "distinct ids" using assms(1) by (simp add: ids distinct_map_filter)
  moreover have "set ids = {b. \<exists>block. map_of cat b = Some block \<and>
      pool_block (pool_prefixes names gates bridge) max_footprint (b, block)}"
    using set_filter_catalogue [OF assms(1)] by (auto simp: ids)
  moreover have "startswith_any b (pool_prefixes names gates bridge) \<longleftrightarrow>
      startswith_any b (map (fam_prefix \<circ> family_of) names) \<or> gates \<and> startswith b GATE_PREFIX \<or>
       bridge \<and> card (set names) > 1 \<and> startswith b BRIDGE_PREFIX" for b
    by (rule startswith_any_pool)
  ultimately show ?thesis using wp
    by (auto simp: ids pool_block_def split: option.splits)
qed

lemma demo_distinct: "distinct (map fst demo_catalogue)"
  by code_simp

lemma demo_resolve_pool:
  "resolve_pool [''tech'', ''dirt''] demo_catalogue (Some 1) True True =
     Inr [''RoadTechFinish'', ''RoadTechStart'', ''RoadTechStraight'']"
  by code_simp

theorem resolve_pool_spec_witness:
  "have_waypoint demo_catalogue ''Start'' [''RoadTechFinish'', ''RoadTechStart'', ''RoadTechStraight'']"
  using resolve_pool_spec [OF demo_distinct demo_resolve_pool] by blast

text \<open>
  \<open>resolve\<close> only ever succeeds for one supported family: the families that could share a
  clip are exactly the ones it refuses as unsupported. It then returns that family's clip.
\<close>

theorem resolve_single_family:
  assumes "resolve names cat max_footprint = Inr (ids, clips)"
  shows "\<exists>n \<in> set SUPPORTED. set names = {n} \<and> clips = {fam_clip (family_of n)}"
proof -
  note r = resolve_cases [OF assms]
  from r(1) obtain n where n: "n \<in> set names" by (meson hd_in_set)
  have "finite clips" by (simp add: r(4))
  with r(5) have unique: "\<forall>x \<in> clips. \<forall>y \<in> clips. x = y"
    by (simp add: card_le_Suc0_iff_eq)
  have clip_in: "fam_clip (family_of k) \<in> clips" if "k \<in> set names" for k
    using imageI [OF that, of "fam_clip \<circ> family_of"] by (simp only: r(4) comp_apply)
  have same: "m = n" if m: "m \<in> set names" for m
  proof (rule supported_clip_inj)
    show "map_of FAMILIES m = Some (family_of m)" "map_of FAMILIES n = Some (family_of n)"
      using r(2) m n by (auto simp: family_of_def)
    show "fam_unsupported (family_of m) = None" "fam_unsupported (family_of n) = None"
      using r(3) m n by auto
    show "fam_clip (family_of m) = fam_clip (family_of n)"
      using unique clip_in [OF m] clip_in [OF n] by blast
  qed
  with n have names: "set names = {n}" by blast
  have "map_of FAMILIES n = Some (family_of n)" using r(2) n by (auto simp: family_of_def)
  then have "n \<in> set SUPPORTED"
    using r(3) [OF n] by (force simp: SUPPORTED_def dest: map_of_SomeD)
  with names r(4) show ?thesis by auto
qed

lemma demo_resolve:
  "resolve [''tech''] demo_catalogue None =
     Inr ([''RoadTechFinish'', ''RoadTechStart'', ''RoadTechStraight''], {''RoadTechFC''})"
  by code_simp

theorem resolve_single_family_witness: "\<exists>n \<in> set SUPPORTED. {''tech''} = {n}"
  using resolve_single_family [OF demo_resolve] by auto

text \<open>
  What \<open>resolve\<close> hands to \<open>ClipWalker\<close> fits it: every id is in the catalogue and
  has all four orientations, with a port on the family's clip, so the constructor never raises
  \<open>KeyError\<close>.
\<close>

theorem resolve_feeds_clip_walker:
  assumes "distinct (map fst cat)" and "resolve names cat max_footprint = Inr (ids, clips)"
  shows "\<forall>b. clip_walker_init cat ids clips priors bias \<noteq> Inl (NotInCatalogue b) \<and>
    (b \<in> set ids \<longrightarrow> (\<exists>block. map_of cat b = Some block \<and> length (orientations block clips) = 4))"
proof -
  note r = resolve_cases [OF assms(2)]
  have mem: "\<exists>block. map_of cat b = Some block \<and> length (orientations block clips) = 4"
    if "b \<in> set ids" for b
    using that set_filter_catalogue [OF assms(1)]
    by (auto simp: r(6) clip_block_def orientations_def filter_empty_conv split: option.splits)
  have "\<exists>os. gather_orient cat clips bs = Inr os" if "set bs \<subseteq> set ids" for bs
    using that
  proof (induction bs)
    case (Cons b bs)
    then show ?case using mem [of b] by auto
  qed simp
  then obtain os where "gather_orient cat clips ids = Inr os" by blast
  then have "clip_walker_init cat ids clips priors bias \<noteq> Inl (NotInCatalogue b)" for b
    by (simp add: clip_walker_init_def)
  with mem show ?thesis by blast
qed

theorem resolve_feeds_clip_walker_witness:
  "clip_walker_init demo_catalogue [''RoadTechFinish'', ''RoadTechStart'', ''RoadTechStraight'']
     {''RoadTechFC''} None ([] :: (string \<times> rat) list) \<noteq> Inl (NotInCatalogue ''x'')"
  using resolve_feeds_clip_walker [OF demo_distinct demo_resolve] by blast

end
