(* ===== verification/Grammar.thy ===== *)
theory Grammar
  imports Catalogue
begin

section \<open>The placement grammar\<close>

text \<open>
  Model of \<^verbatim>\<open>src/src/generation/grammar.py\<close>: moves observed in the corpus, their
  application to a placement, the JSON loader, the filtered successors of a block and the route
  vocabulary. Main result: \<open>route_vocabulary\<close> is the set of blocks within \<open>rounds\<close> steps of
  the seeds, one step leading to a block's \<open>per_block\<close> first distinct targets.
\<close>

subsection \<open>Moves\<close>

record move =
  mv_block :: string
  mv_offset :: cell
  mv_rel_rotation :: int
  mv_map_count :: int
  mv_pair_count :: int
  mv_clip_matched :: bool

definition is_overlay :: "move \<Rightarrow> bool" where
  "is_overlay m \<longleftrightarrow> fst (mv_offset m) = 0 \<and> snd (snd (mv_offset m)) = 0"

definition is_gap :: "move \<Rightarrow> bool" where
  "is_gap m \<longleftrightarrow> max \<bar>fst (mv_offset m)\<bar> \<bar>snd (snd (mv_offset m))\<bar> > 1"

definition apply_move :: "move \<Rightarrow> cell \<Rightarrow> int \<Rightarrow> cell \<times> int" where
  "apply_move m anchor rotation =
     (shift anchor (rotate_vector (mv_offset m) rotation), (rotation + mv_rel_rotation m) mod 4)"

subsection \<open>Loading\<close>

text \<open>A Python list index: negative indices count from the end.\<close>

definition py_index :: "'a list \<Rightarrow> int \<Rightarrow> py_error + 'a" where
  "py_index xs i =
     (if 0 \<le> i \<and> i < int (length xs) then Inr (xs ! nat i)
      else if i < 0 \<and> - int (length xs) \<le> i then Inr (xs ! nat (int (length xs) + i))
      else Inl IndexError)"

type_synonym rule_row = "string \<times> int \<times> int \<times> int \<times> int \<times> bool"

record grammar_doc =
  gd_schema :: "string option"
  gd_environment :: "string option"
  gd_offsets :: "cell list option"
  gd_rules :: "(string \<times> rule_row list) list option"

record grammar =
  gr_moves :: "(string \<times> move list) list"
  gr_environment :: string

definition GRAMMAR_SCHEMA :: string where "GRAMMAR_SCHEMA = ''placement_grammar_v1''"

fun rows_to_moves :: "cell list \<Rightarrow> rule_row list \<Rightarrow> py_error + move list" where
  "rows_to_moves offsets [] = Inr []"
| "rows_to_moves offsets ((b, oid, rel, maps, pairs, clip) # rows) =
     (case py_index offsets oid of
        Inl e \<Rightarrow> Inl e
      | Inr off \<Rightarrow>
          (case rows_to_moves offsets rows of
             Inl e \<Rightarrow> Inl e
           | Inr ms \<Rightarrow> Inr (\<lparr>mv_block = b, mv_offset = off, mv_rel_rotation = rel,
               mv_map_count = maps, mv_pair_count = pairs, mv_clip_matched = clip\<rparr> # ms)))"

fun rules_to_moves :: "cell list \<Rightarrow> (string \<times> rule_row list) list \<Rightarrow> (string \<times> move list) list
    \<Rightarrow> py_error + (string \<times> move list) list" where
  "rules_to_moves offsets [] moves = Inr moves"
| "rules_to_moves offsets ((block_a, rows) # rules) moves =
     (case rows_to_moves offsets rows of
        Inl e \<Rightarrow> Inl e
      | Inr ms \<Rightarrow> rules_to_moves offsets rules (AList.update block_a ms moves))"

definition grammar_from_json :: "grammar_doc \<Rightarrow> py_error + grammar" where
  "grammar_from_json doc =
     (if gd_schema doc \<noteq> Some GRAMMAR_SCHEMA then Inl ValueError
      else case gd_offsets doc of
          None \<Rightarrow> Inl KeyError
        | Some offsets \<Rightarrow>
            (case gd_rules doc of
               None \<Rightarrow> Inl KeyError
             | Some rules \<Rightarrow>
                 (case rules_to_moves offsets rules [] of
                    Inl e \<Rightarrow> Inl e
                  | Inr moves \<Rightarrow> Inr \<lparr>gr_moves = moves,
                      gr_environment = get_or (gd_environment doc) ''''\<rparr>)))"

subsection \<open>Queries\<close>

definition moves_of :: "grammar \<Rightarrow> string \<Rightarrow> move list" where
  "moves_of g block_a = get_or (map_of (gr_moves g) block_a) []"

definition in_grammar :: "string \<Rightarrow> grammar \<Rightarrow> bool" where
  "in_grammar block_a g \<longleftrightarrow> map_of (gr_moves g) block_a \<noteq> None"

definition successors :: "grammar \<Rightarrow> string \<Rightarrow> int \<Rightarrow> string set option \<Rightarrow> bool option \<Rightarrow> bool option
    \<Rightarrow> move list" where
  "successors g block_a min_maps allow overlays gaps =
     filter (\<lambda>m. \<not> mv_map_count m < min_maps \<and>
       \<not> (case allow of None \<Rightarrow> False | Some a \<Rightarrow> mv_block m \<notin> a) \<and>
       \<not> (case overlays of None \<Rightarrow> False | Some ov \<Rightarrow> is_overlay m \<noteq> ov) \<and>
       \<not> (case gaps of None \<Rightarrow> False | Some gp \<Rightarrow> is_gap m \<noteq> gp))
     (moves_of g block_a)"

text \<open>The scan over one block's moves: at most \<open>per_block\<close> distinct targets.\<close>

fun scan_targets :: "int \<Rightarrow> string set \<Rightarrow> string set \<Rightarrow> string list \<Rightarrow> string set" where
  "scan_targets per_block vocab seen [] = {}"
| "scan_targets per_block vocab seen (b # bs) =
     (if b \<in> seen then scan_targets per_block vocab seen bs
      else let seen' = insert b seen
      in if int (card seen') > per_block then {}
         else (if b \<notin> vocab then {b} else {}) \<union> scan_targets per_block vocab seen' bs)"

definition targets_of :: "grammar \<Rightarrow> string set \<Rightarrow> int \<Rightarrow> string \<Rightarrow> string list" where
  "targets_of g allow min_maps block =
     map mv_block (successors g block min_maps (Some allow) (Some False) (Some False))"

primrec vocab_rounds :: "nat \<Rightarrow> grammar \<Rightarrow> string set \<Rightarrow> int \<Rightarrow> int \<Rightarrow> string set \<Rightarrow> string set
    \<Rightarrow> string set" where
  "vocab_rounds 0 g allow min_maps per_block vocab frontier = vocab"
| "vocab_rounds (Suc n) g allow min_maps per_block vocab frontier =
     (let grown = (\<Union>block \<in> frontier.
        scan_targets per_block vocab {} (targets_of g allow min_maps block))
      in if grown = {} then vocab
         else vocab_rounds n g allow min_maps per_block (vocab \<union> grown) grown)"

definition route_vocabulary :: "grammar \<Rightarrow> string list \<Rightarrow> string set \<Rightarrow> int \<Rightarrow> int \<Rightarrow> int
    \<Rightarrow> string set" where
  "route_vocabulary g seeds allow min_maps rounds per_block =
     vocab_rounds (nat rounds) g allow min_maps per_block (set seeds) (set seeds)"

subsection \<open>The vocabulary is a bounded closure\<close>

lemma scan_targets_eq:
  assumes "finite seen"
  shows "scan_targets per vocab seen bs =
    {bs ! i | i. i < length bs \<and> bs ! i \<notin> seen \<and> bs ! i \<notin> vocab \<and>
       int (card (seen \<union> set (take (Suc i) bs))) \<le> per}"
  using assms
proof (induction bs arbitrary: seen)
  case (Cons b bs)
  let ?S = "\<lambda>seen bs. {bs ! i | i. i < length bs \<and> bs ! i \<notin> seen \<and> bs ! i \<notin> vocab \<and>
       int (card (seen \<union> set (take (Suc i) bs))) \<le> per}"
  have split: "?S seen (b # bs) =
      (if b \<notin> seen \<and> b \<notin> vocab \<and> int (card (insert b seen)) \<le> per then {b} else {}) \<union>
      {bs ! i | i. i < length bs \<and> bs ! i \<notin> seen \<and> bs ! i \<notin> vocab \<and>
       int (card (insert b seen \<union> set (take (Suc i) bs))) \<le> per}"
    (is "?l = ?h \<union> ?t")
  proof (intro set_eqI iffI)
    fix x
    assume "x \<in> ?l"
    then obtain i where i: "x = (b # bs) ! i" "i < length (b # bs)" "(b # bs) ! i \<notin> seen"
      "(b # bs) ! i \<notin> vocab" "int (card (seen \<union> set (take (Suc i) (b # bs)))) \<le> per" by blast
    then show "x \<in> ?h \<union> ?t"
      by (cases i) auto
  next
    fix x
    assume "x \<in> ?h \<union> ?t"
    then show "x \<in> ?l"
    proof
      assume "x \<in> ?h"
      then show ?thesis by (auto split: if_splits intro!: exI [of _ 0])
    next
      assume "x \<in> ?t"
      then obtain i where "x = bs ! i" "i < length bs" "bs ! i \<notin> seen" "bs ! i \<notin> vocab"
        "int (card (insert b seen \<union> set (take (Suc i) bs))) \<le> per" by blast
      then show ?thesis by (auto intro!: exI [of _ "Suc i"])
    qed
  qed
  show ?case
  proof (cases "b \<in> seen")
    case True
    then show ?thesis unfolding split using Cons by (simp add: insert_absorb)
  next
    case False
    have mono: "card (insert b seen) \<le> card (insert b seen \<union> set (take (Suc i) bs))" for i
      using Cons.prems by (intro card_mono) auto
    show ?thesis
    proof (cases "int (card (insert b seen)) > per")
      case True
      then have "?S seen (b # bs) = {}"
        unfolding split using mono by (auto simp: not_le intro: less_le_trans)
      with True False show ?thesis by (simp add: Let_def)
    next
      case small: False
      have "scan_targets per vocab (insert b seen) bs = ?S (insert b seen) bs"
        by (rule Cons.IH) (use Cons.prems in simp)
      moreover have "(if b \<notin> vocab then {b} else {}) \<union> ?S (insert b seen) bs = ?S seen (b # bs)"
        unfolding split using small False by (auto; blast)
      ultimately show ?thesis using small False by (simp add: Let_def)
    qed
  qed
qed simp

text \<open>One step: the blocks that are among the first \<open>per_block\<close> distinct targets.\<close>

definition vocab_step :: "grammar \<Rightarrow> string set \<Rightarrow> int \<Rightarrow> int \<Rightarrow> (string \<times> string) set" where
  "vocab_step g allow min_maps per_block =
     {(a, targets_of g allow min_maps a ! i) | a i. i < length (targets_of g allow min_maps a) \<and>
        int (card (set (take (Suc i) (targets_of g allow min_maps a)))) \<le> per_block}"

lemma scan_targets_step:
  "scan_targets per vocab {} (targets_of g allow min_maps a) =
     vocab_step g allow min_maps per `` {a} - vocab"
  by (auto simp: scan_targets_eq vocab_step_def)

definition within_steps :: "('a \<times> 'a) set \<Rightarrow> nat \<Rightarrow> 'a set \<Rightarrow> 'a set" where
  "within_steps T n V = (\<Union>k \<le> n. (T ^^ k) `` V)"

lemma within_steps_0 [simp]: "within_steps T 0 V = V"
  by (simp add: within_steps_def)

lemma UN_atMost_shift: "(\<Union>k \<le> n. f k) \<union> (\<Union>k \<le> n. f (Suc k)) = (\<Union>k \<le> Suc n. f k)" (is "?l = ?r")
proof
  show "?l \<subseteq> ?r" using le_SucI by fastforce
  show "?r \<subseteq> ?l"
  proof
    fix x
    assume "x \<in> ?r"
    then obtain k where "k \<le> Suc n" "x \<in> f k" by blast
    then show "x \<in> ?l" by (cases k) auto
  qed
qed

lemma within_steps_Suc: "within_steps T (Suc n) V = within_steps T n (V \<union> T `` V)"
proof -
  have "(T ^^ k) `` (T `` V) = (T ^^ Suc k) `` V" for k
    by (metis relcomp_Image relpow.simps(2) relpow_commute)
  then have "within_steps T n (V \<union> T `` V) =
      (\<Union>k \<le> n. (T ^^ k) `` V) \<union> (\<Union>k \<le> n. (T ^^ Suc k) `` V)"
    unfolding within_steps_def by (simp only: Image_Un UN_Un_distrib)
  also have "\<dots> = (\<Union>k \<le> Suc n. (T ^^ k) `` V)"
    by (rule UN_atMost_shift)
  finally show ?thesis by (simp add: within_steps_def)
qed

lemma within_steps_closed: "T `` V \<subseteq> V \<Longrightarrow> within_steps T n V = V"
proof (induction n)
  case (Suc n)
  then show ?case by (simp add: within_steps_Suc sup_absorb1)
qed simp

lemma vocab_rounds_eq:
  assumes "frontier \<subseteq> vocab"
    and "vocab_step g allow min_maps per `` (vocab - frontier) \<subseteq> vocab"
  shows "vocab_rounds n g allow min_maps per vocab frontier =
    within_steps (vocab_step g allow min_maps per) n vocab"
  using assms
proof (induction n arbitrary: vocab frontier)
  case (Suc n)
  let ?T = "vocab_step g allow min_maps per"
  let ?grown = "?T `` frontier - vocab"
  have grown: "(\<Union>block \<in> frontier.
      scan_targets per vocab {} (targets_of g allow min_maps block)) = ?grown"
    unfolding scan_targets_step by blast
  have next_vocab: "vocab \<union> ?grown = vocab \<union> ?T `` vocab"
    using Suc.prems by blast
  then have next_vocab': "vocab \<union> ?T `` frontier = vocab \<union> ?T `` vocab" by blast
  show ?case
  proof (cases "?grown = {}")
    case True
    with next_vocab have "?T `` vocab \<subseteq> vocab" by blast
    then have "within_steps ?T (Suc n) vocab = vocab" by (rule within_steps_closed)
    with True show ?thesis by (simp add: grown)
  next
    case False
    have "vocab_rounds n g allow min_maps per (vocab \<union> ?grown) ?grown =
        within_steps ?T n (vocab \<union> ?grown)"
      by (rule Suc.IH) (use Suc.prems in blast)+
    with False show ?thesis by (simp add: grown within_steps_Suc next_vocab')
  qed
qed simp

text \<open>
  C40. The route vocabulary is exactly the set of blocks reachable from the seeds in at most
  \<open>rounds\<close> steps, where a step leads from a block to one of its first \<open>per_block\<close> distinct
  allowed targets among the moves attested in \<open>min_maps\<close> maps that are neither overlays nor
  gaps. In particular everything beyond the seeds is in the allowed pool.
\<close>

theorem route_vocabulary_closure:
  "route_vocabulary g seeds allow min_maps rounds per_block =
     within_steps (vocab_step g allow min_maps per_block) (nat rounds) (set seeds) \<and>
   set seeds \<subseteq> route_vocabulary g seeds allow min_maps rounds per_block \<and>
   route_vocabulary g seeds allow min_maps rounds per_block \<subseteq> set seeds \<union> allow"
proof -
  let ?T = "vocab_step g allow min_maps per_block"
  have eq: "route_vocabulary g seeds allow min_maps rounds per_block =
      within_steps ?T (nat rounds) (set seeds)"
    unfolding route_vocabulary_def by (rule vocab_rounds_eq) auto
  have T: "?T `` V \<subseteq> allow" for V
    by (force simp: vocab_step_def targets_of_def successors_def in_set_conv_nth [symmetric]
        dest: nth_mem)
  have "within_steps ?T n V \<subseteq> V \<union> allow" for n V
  proof (induction n arbitrary: V)
    case (Suc n)
    show ?case using Suc [of "V \<union> ?T `` V"] T [of V] by (auto simp: within_steps_Suc)
  qed simp
  moreover have "V \<subseteq> within_steps ?T n V" for n V
    by (auto simp: within_steps_def intro: bexI [of _ 0])
  ultimately show ?thesis unfolding eq by blast
qed

end
