(* ===== verification/Route_Model.thy ===== *)
theory Route_Model
  imports Catalogue
begin

section \<open>Sequence priors, mined jumps and the driven prior\<close>

text \<open>
  Model of \<^verbatim>\<open>src/src/generation/route_model.py\<close> (three-block runs and candidate jumps) and
  \<^verbatim>\<open>src/src/generation/driven_prior.py\<close> (successor preference of driven routes). Both give the
  grammar walker multipliers. The main results say that the multipliers are normalised: a
  sequence score and a driven share are quotients \<open>n / best\<close> with \<open>n\<close> at most \<open>best\<close>, and
  the driven prior never rewards a repeated block.
\<close>

subsection \<open>Route model\<close>

record jump =
  jm_block :: string
  jm_offset :: cell
  jm_rel_rotation :: int
  jm_gap :: int
  jm_map_count :: int

type_synonym run_key = "string \<times> int \<times> int \<times> int \<times> int"
type_synonym triple_row = "string \<times> string \<times> string \<times> int \<times> int \<times> int \<times> int \<times> int"
type_synonym jump_row = "string \<times> string \<times> int \<times> int \<times> int \<times> int \<times> int \<times> int"

record route_model =
  rm_triples :: "((string \<times> string) \<times> (run_key \<times> int) list) list"
  rm_jumps :: "(string \<times> jump list) list"
  rm_environment :: string

record route_model_doc =
  md_schema :: "string option"
  md_environment :: "string option"
  md_triples :: "triple_row list option"
  md_jumps :: "jump_row list option"

definition ROUTE_MODEL_SCHEMA :: string where "ROUTE_MODEL_SCHEMA = ''route_model_v1''"

definition add_triple :: "triple_row \<Rightarrow> ((string \<times> string) \<times> (run_key \<times> int) list) list
    \<Rightarrow> ((string \<times> string) \<times> (run_key \<times> int) list) list" where
  "add_triple row triples = (case row of (a, b, c, dx, dy, dz, rel, maps) \<Rightarrow>
     AList.update (a, b)
       (AList.update (c, dx, dy, dz, rel) maps (get_or (map_of triples (a, b)) [])) triples)"

definition add_jump :: "jump_row \<Rightarrow> (string \<times> jump list) list \<Rightarrow> (string \<times> jump list) list" where
  "add_jump row jumps = (case row of (a, b, dx, dy, dz, rel, gap, maps) \<Rightarrow>
     AList.update a (get_or (map_of jumps a) [] @
       [\<lparr>jm_block = b, jm_offset = (dx, dy, dz), jm_rel_rotation = rel, jm_gap = gap,
         jm_map_count = maps\<rparr>]) jumps)"

definition route_model_from_json :: "route_model_doc \<Rightarrow> py_error + route_model" where
  "route_model_from_json doc =
     (if md_schema doc \<noteq> Some ROUTE_MODEL_SCHEMA then Inl ValueError
      else Inr
        \<lparr>rm_triples = fold add_triple (get_or (md_triples doc) []) [],
         rm_jumps = map (\<lambda>(k, v). (k, sort_key (\<lambda>j. - jm_map_count j) v))
           (fold add_jump (get_or (md_jumps doc) []) []),
         rm_environment = get_or (md_environment doc) ''''\<rparr>)"

text \<open>\<open>max(d.values())\<close> of a non-empty dictionary.\<close>

definition max_value :: "('k \<times> int) list \<Rightarrow> int" where
  "max_value d = Max (set (map snd d))"

definition sequence_weight :: "route_model \<Rightarrow> string option \<Rightarrow> string \<Rightarrow> string \<Rightarrow> cell \<Rightarrow> int \<Rightarrow> int" where
  "sequence_weight model before_id current candidate offset rel_rotation =
     (case before_id of
        None \<Rightarrow> 0
      | Some b \<Rightarrow>
          (case map_of (rm_triples model) (b, current) of
             None \<Rightarrow> 0
           | Some ctxt \<Rightarrow>
               get_or (map_of ctxt
                 (candidate, fst offset, fst (snd offset), snd (snd offset), rel_rotation)) 0))"

definition sequence_score :: "'f fops \<Rightarrow> route_model \<Rightarrow> string option \<Rightarrow> string \<Rightarrow> string \<Rightarrow> cell
    \<Rightarrow> int \<Rightarrow> 'f" where
  "sequence_score F model before_id current candidate offset rel_rotation =
     (case before_id of
        None \<Rightarrow> f_lit F 0
      | Some b \<Rightarrow>
          (case get_or (map_of (rm_triples model) (b, current)) [] of
             [] \<Rightarrow> f_lit F 0
           | ctxt \<Rightarrow>
               (let seen = get_or (map_of ctxt
                      (candidate, fst offset, fst (snd offset), snd (snd offset), rel_rotation)) 0
                in if seen = 0 then f_lit F 0
                   else f_div F (f_lit F (of_int seen)) (f_lit F (of_int (max_value ctxt))))))"

definition jumps_from :: "route_model \<Rightarrow> string \<Rightarrow> int \<Rightarrow> jump list" where
  "jumps_from model block min_maps =
     filter (\<lambda>j. jm_map_count j \<ge> min_maps) (get_or (map_of (rm_jumps model) block) [])"

subsection \<open>Driven prior\<close>

record transition =
  tr_link :: "string option"
  tr_from :: "string option"
  tr_to :: "string option"
  tr_maps :: "int option"

definition MIN_MAPS :: int where "MIN_MAPS = 3"

type_synonym driven_table = "(string \<times> (string \<times> int) list) list"
type_synonym 'f driven_prior = "(string \<times> (string \<times> 'f) list) list"

fun driven_init :: "'f fops \<Rightarrow> driven_table \<Rightarrow> py_error + 'f driven_prior" where
  "driven_init F [] = Inr []"
| "driven_init F ((from_type, succ) # table) =
     (if succ = [] then Inl ValueError
      else let best = max_value succ in
      case driven_init F table of
        Inl e \<Rightarrow> Inl e
      | Inr shares \<Rightarrow>
          if best \<le> 0 then Inr shares
          else Inr ((from_type, map (\<lambda>(to, n).
            (to, f_div F (f_lit F (of_int n)) (f_lit F (of_int best)))) succ) # shares))"

fun driven_rows :: "transition list \<Rightarrow> driven_table \<Rightarrow> py_error + driven_table" where
  "driven_rows [] table = Inr table"
| "driven_rows (t # ts) table =
     (if tr_link t \<noteq> Some ''contact'' then driven_rows ts table
      else case (tr_from t, tr_to t) of
          (Some a, Some b) \<Rightarrow>
            if a = b then driven_rows ts table
            else if get_or (tr_maps t) 0 < MIN_MAPS then driven_rows ts table
            else let row = get_or (map_of table a) [];
                     best = max (get_or (map_of row b) 0) (get_or (tr_maps t) 0)
                 in driven_rows ts (AList.update a (AList.update b best row) table)
        | _ \<Rightarrow> Inl KeyError)"

definition driven_load :: "'f fops \<Rightarrow> transition list \<Rightarrow> py_error + 'f driven_prior" where
  "driven_load F ts =
     (case driven_rows ts [] of Inl e \<Rightarrow> Inl e | Inr table \<Rightarrow> driven_init F table)"

definition driven_share :: "'f fops \<Rightarrow> 'f driven_prior \<Rightarrow> string \<Rightarrow> string \<Rightarrow> 'f" where
  "driven_share F prior from_type to_type =
     (if from_type = to_type then f_lit F 0
      else get_or (map_of (get_or (map_of prior from_type) []) to_type) (f_lit F 0))"

subsection \<open>Normalisation\<close>

lemma max_value_ge: "map_of d k = Some n \<Longrightarrow> n \<le> max_value d"
  unfolding max_value_def by (rule Max_ge) (force dest: map_of_SomeD)+

lemma max_value_in: "d \<noteq> [] \<Longrightarrow> \<exists>k n. (k, n) \<in> set d \<and> max_value d = n"
  using Max_in [of "set (map snd d)"] by (fastforce simp: max_value_def image_iff)

text \<open>
  A sequence score is normalised: it is zero, or the quotient of a run's map count and the
  largest count of its context, the former never exceeding the latter.
\<close>

lemma sequence_score_normalised:
  "\<exists>seen best. seen \<le> best \<and>
     sequence_score F model before_id current candidate offset rel \<in>
       {f_lit F 0, f_div F (f_lit F (of_int seen)) (f_lit F (of_int best))} \<and>
     (seen = sequence_weight model before_id current candidate offset rel \<or> seen = 0)"
proof (cases "sequence_weight model before_id current candidate offset rel = 0")
  case True
  then have "sequence_score F model before_id current candidate offset rel = f_lit F 0"
    by (auto simp: sequence_score_def sequence_weight_def get_or_def Let_def
        split: option.splits list.splits)
  then show ?thesis by auto
next
  case False
  let ?key = "(candidate, fst offset, fst (snd offset), snd (snd offset), rel)"
  from False obtain b ctxt seen where *: "before_id = Some b"
    "map_of (rm_triples model) (b, current) = Some ctxt" "map_of ctxt ?key = Some seen" "seen \<noteq> 0"
    by (auto simp: sequence_weight_def get_or_def split: option.splits)
  then have "sequence_score F model before_id current candidate offset rel =
      f_div F (f_lit F (of_int seen)) (f_lit F (of_int (max_value ctxt)))"
    by (cases ctxt) (auto simp: sequence_score_def get_or_def Let_def)
  moreover have "sequence_weight model before_id current candidate offset rel = seen"
    using * by (simp add: sequence_weight_def get_or_def)
  ultimately show ?thesis using max_value_ge [OF *(3)] by blast
qed

text \<open>The tables \<open>load\<close> builds: distinct types, every count at least \<open>MIN_MAPS\<close>.\<close>

definition driven_table_ok :: "driven_table \<Rightarrow> bool" where
  "driven_table_ok table \<longleftrightarrow>
     (\<forall>(a, row) \<in> set table. row \<noteq> [] \<and> (\<forall>(b, n) \<in> set row. a \<noteq> b \<and> MIN_MAPS \<le> n))"

lemma update_not_Nil [simp]: "AList.update k v xs \<noteq> []" "[] \<noteq> AList.update k v xs"
  by (cases xs; auto)+

lemma driven_table_okD:
  assumes "driven_table_ok table" "(a, row) \<in> set table"
  shows "row \<noteq> []" "(b, n) \<in> set row \<Longrightarrow> a \<noteq> b \<and> MIN_MAPS \<le> n"
  using assms by (auto simp: driven_table_ok_def)

lemma driven_table_okI:
  assumes "\<And>a row. (a, row) \<in> set table \<Longrightarrow> row \<noteq> []"
    and "\<And>a row b n. (a, row) \<in> set table \<Longrightarrow> (b, n) \<in> set row \<Longrightarrow> a \<noteq> b \<and> MIN_MAPS \<le> n"
  shows "driven_table_ok table"
  unfolding driven_table_ok_def using assms by blast

lemma driven_rows_ok:
  "driven_rows ts table = Inr table' \<Longrightarrow> driven_table_ok table \<Longrightarrow> driven_table_ok table'"
proof (induction ts arbitrary: table)
  case (Cons t ts)
  show ?case
  proof (cases "tr_link t = Some ''contact'' \<and> tr_from t \<noteq> tr_to t \<and>
      MIN_MAPS \<le> get_or (tr_maps t) 0 \<and> tr_from t \<noteq> None \<and> tr_to t \<noteq> None")
    case True
    then obtain a b where ab: "tr_from t = Some a" "tr_to t = Some b" "a \<noteq> b" by auto
    let ?row = "get_or (map_of table a) []"
    let ?new = "AList.update a (AList.update b
      (max (get_or (map_of ?row b) 0) (get_or (tr_maps t) 0)) ?row) table"
    have row: "a \<noteq> c \<and> MIN_MAPS \<le> n" if "(c, n) \<in> set ?row" for c n
    proof (cases "map_of table a")
      case (Some r)
      then show ?thesis using that driven_table_okD [OF Cons.prems(2) map_of_SomeD [OF Some]]
        by (simp add: get_or_def)
    qed (use that in \<open>simp add: get_or_def\<close>)
    have new_row: "a \<noteq> c \<and> MIN_MAPS \<le> n" if "(c, n) \<in> set (AList.update b
      (max (get_or (map_of ?row b) 0) (get_or (tr_maps t) 0)) ?row)" for c n
      using set_update_cases [OF that] row ab True by auto
    have "driven_table_ok ?new"
    proof (rule driven_table_okI)
      fix a' row'
      assume m: "(a', row') \<in> set ?new"
      show "row' \<noteq> []"
        using set_update_cases [OF m] driven_table_okD(1) [OF Cons.prems(2)] by auto
      fix b' n
      assume "(b', n) \<in> set row'"
      then show "a' \<noteq> b' \<and> MIN_MAPS \<le> n"
        using set_update_cases [OF m] new_row driven_table_okD(2) [OF Cons.prems(2)]
        by (elim disjE) blast+
    qed
    moreover have "driven_rows ts ?new = Inr table'"
      using Cons.prems(1) True ab by (simp add: Let_def)
    ultimately show ?thesis using Cons.IH by blast
  next
    case False
    then have "driven_rows ts table = Inr table'"
      using Cons.prems(1) by (auto simp: Let_def split: if_splits option.splits)
    then show ?thesis using Cons by blast
  qed
qed simp

lemma driven_init_ok:
  assumes "driven_table_ok table"
  shows "\<exists>prior. driven_init F table = Inr prior \<and>
    (\<forall>(a, row) \<in> set prior. \<exists>best > 0. \<forall>(b, x) \<in> set row. \<exists>n. a \<noteq> b \<and> MIN_MAPS \<le> n \<and> n \<le> best \<and>
       x = f_div F (f_lit F (of_int n)) (f_lit F (of_int best)))"
  using assms
proof (induction table)
  case (Cons p table)
  obtain a succ where p: "p = (a, succ)" by fastforce
  from Cons obtain prior where prior: "driven_init F table = Inr prior"
    and ok: "\<forall>(a, row) \<in> set prior. \<exists>best > 0. \<forall>(b, x) \<in> set row. \<exists>n. a \<noteq> b \<and> MIN_MAPS \<le> n \<and>
       n \<le> best \<and> x = f_div F (f_lit F (of_int n)) (f_lit F (of_int best))"
    by (auto simp: driven_table_ok_def)
  have succ: "succ \<noteq> []" "\<And>b n. (b, n) \<in> set succ \<Longrightarrow> a \<noteq> b \<and> MIN_MAPS \<le> n"
    using Cons.prems by (auto simp: driven_table_ok_def p)
  have le: "n \<le> max_value succ" if "(b, n) \<in> set succ" for b n
    unfolding max_value_def using that by (intro Max_ge) force+
  from max_value_in [OF succ(1)] succ(2) have "max_value succ > 0"
    by (fastforce simp: MIN_MAPS_def)
  moreover have "\<forall>(b, x) \<in> set (map (\<lambda>(to, n).
      (to, f_div F (f_lit F (of_int n)) (f_lit F (of_int (max_value succ))))) succ).
      \<exists>n. a \<noteq> b \<and> MIN_MAPS \<le> n \<and> n \<le> max_value succ \<and>
        x = f_div F (f_lit F (of_int n)) (f_lit F (of_int (max_value succ)))"
    using succ(2) le by fastforce
  ultimately show ?case using prior ok succ(1) by (auto simp: p Let_def)
qed simp

text \<open>
  Loading the driven prior from complete transition rows succeeds, and every preference it
  gives is normalised and backed by breadth: a non-default share of \<open>to\<close> after \<open>from\<close> is a
  quotient \<open>n / best\<close> with \<open>MIN_MAPS \<le> n \<le> best\<close>, and a repeated block never has one.
\<close>

theorem driven_prior_bounded:
  assumes "driven_rows ts [] = Inr table"
  shows "\<exists>prior. driven_load F ts = Inr prior \<and>
    (\<forall>a b. driven_share F prior a b = f_lit F 0 \<or>
       a \<noteq> b \<and> (\<exists>n best. MIN_MAPS \<le> n \<and> n \<le> best \<and>
         driven_share F prior a b = f_div F (f_lit F (of_int n)) (f_lit F (of_int best))))"
proof -
  have "driven_table_ok table" using driven_rows_ok [OF assms] by (simp add: driven_table_ok_def)
  from driven_init_ok [OF this, of F] obtain prior where load: "driven_load F ts = Inr prior"
    and ok: "\<forall>(a, row) \<in> set prior. \<exists>best > 0. \<forall>(b, x) \<in> set row. \<exists>n. a \<noteq> b \<and> MIN_MAPS \<le> n \<and>
       n \<le> best \<and> x = f_div F (f_lit F (of_int n)) (f_lit F (of_int best))"
    by (auto simp: driven_load_def assms)
  have "driven_share F prior a b = f_lit F 0 \<or>
       a \<noteq> b \<and> (\<exists>n best. MIN_MAPS \<le> n \<and> n \<le> best \<and>
         driven_share F prior a b = f_div F (f_lit F (of_int n)) (f_lit F (of_int best)))" for a b
  proof (cases "\<exists>row x. a \<noteq> b \<and> map_of prior a = Some row \<and> map_of row b = Some x")
    case True
    then obtain row x where *: "a \<noteq> b" "map_of prior a = Some row" "map_of row b = Some x" by blast
    then show ?thesis
      using ok map_of_SomeD [OF *(2)] map_of_SomeD [OF *(3)]
      by (fastforce simp: driven_share_def get_or_def)
  next
    case False
    then show ?thesis by (auto simp: driven_share_def get_or_def split: option.splits)
  qed
  with load show ?thesis by blast
qed

theorem driven_prior_bounded_witness:
  "\<exists>prior. driven_load rat_fops
     [\<lparr>tr_link = Some ''contact'', tr_from = Some ''A'', tr_to = Some ''B'', tr_maps = Some 4\<rparr>,
      \<lparr>tr_link = Some ''contact'', tr_from = Some ''A'', tr_to = Some ''C'', tr_maps = Some 8\<rparr>] = Inr prior \<and>
     driven_share rat_fops prior ''A'' ''A'' = 0"
proof -
  have "driven_rows
     [\<lparr>tr_link = Some ''contact'', tr_from = Some ''A'', tr_to = Some ''B'', tr_maps = Some 4\<rparr>,
      \<lparr>tr_link = Some ''contact'', tr_from = Some ''A'', tr_to = Some ''C'', tr_maps = Some 8\<rparr>] [] =
      Inr [(''A'', [(''B'', 4), (''C'', 8)])]"
    by code_simp
  from driven_prior_bounded [OF this, of rat_fops] show ?thesis
    by (force simp: rat_fops_def)
qed

end
