(* ===== verification/Grammar_Walker.thy ===== *)
theory Grammar_Walker
  imports Clip_Walker Grammar Route_Model
begin

section \<open>The grammar-driven route walker\<close>

text \<open>
  Model of \<^verbatim>\<open>src/src/generation/grammar_walker.py\<close>: the constructor of \<open>GrammarWalker\<close>, its
  candidate moves, the scoring and two-tier weighted order, the backtracking search of one
  attempt and the restarts of \<open>generate\<close>.

  The attempt keeps, besides placements and occupied cells, a counter of route levels per
  column, the recent blocks and the visited surfaces. The last two only influence weights. The
  abstract specification \<open>g_chain\<close> knows neither weights nor randomness nor undo: it says which
  sequences of candidates are legal. The search is sound and complete for it.
\<close>

subsection \<open>Constants and helpers\<close>

definition DEFAULT_MIN_MAPS :: int where "DEFAULT_MIN_MAPS = 20"
definition GAP_MIN_MAPS_FACTOR :: int where "GAP_MIN_MAPS_FACTOR = 10"
definition MAX_LEVELS_PER_COLUMN :: int where "MAX_LEVELS_PER_COLUMN = 2"
definition NO_CLIP_MIN_MAPS_FACTOR :: int where "NO_CLIP_MIN_MAPS_FACTOR = 5"
definition RECENCY_WINDOW :: nat where "RECENCY_WINDOW = 14"
definition COLUMN_REUSE_PENALTY :: rat where "COLUMN_REUSE_PENALTY = 5 / 100"
definition UNVISITED_FAMILY_BOOST :: rat where "UNVISITED_FAMILY_BOOST = 5000"
definition SEQUENCE_WEIGHT :: rat where "SEQUENCE_WEIGHT = 0"
definition RECENCY_PENALTY :: rat where "RECENCY_PENALTY = 25 / 100"

record g_oriented =
  go_block_id :: string
  go_rotation :: int
  go_cells :: "cell list"
  go_waypoint :: string

definition usable_variant :: "block_def \<Rightarrow> string \<Rightarrow> block_variant option" where
  "usable_variant block kind =
     (case block_variant_of block kind 0 of
        None \<Rightarrow> None
      | Some v \<Rightarrow> if bv_units v = [] then None else Some v)"

definition chosen_variant :: "block_def \<Rightarrow> string \<Rightarrow> block_variant option" where
  "chosen_variant block kind =
     (case usable_variant block kind of
        Some v \<Rightarrow> Some v
      | None \<Rightarrow> usable_variant block (if kind = ''ground'' then ''air'' else ''ground''))"

definition g_orientations :: "block_def \<Rightarrow> string \<Rightarrow> g_oriented list" where
  "g_orientations block kind =
     (case chosen_variant block kind of
        None \<Rightarrow> []
      | Some v \<Rightarrow> map (\<lambda>rotation.
          \<lparr>go_block_id = bd_block_id block, go_rotation = rotation,
           go_cells = map (\<lambda>u. rotate_offset (bu_offset u) rotation (bv_size v)) (bv_units v),
           go_waypoint = bd_waypoint block\<rparr>) [0, 1, 2, 3])"

definition POOL_PREFIXES :: "string list \<Rightarrow> string list" where
  "POOL_PREFIXES pool = filter (\<lambda>p. \<exists>b \<in> set pool. startswith b p)
     [''RoadTech'', ''RoadDirt'', ''RoadBump'', ''RoadIce'', ''RoadWater'',
      ''PlatformTech'', ''PlatformDirt'', ''PlatformIce'',
      ''PlatformGrass'', ''PlatformPlastic'', ''PlatformWater'']"

definition variant_kind :: "int \<Rightarrow> string" where
  "variant_kind y = (if y \<le> GROUND_Y then ''ground'' else ''air'')"

definition sign :: "int \<Rightarrow> int" where
  "sign v = (if v > 0 then 1 else 0) - (if v < 0 then 1 else 0)"

definition reverse_offset :: "move \<Rightarrow> cell" where
  "reverse_offset m =
     rotate_vector (- fst (mv_offset m), - fst (snd (mv_offset m)), - snd (snd (mv_offset m)))
       ((4 - mv_rel_rotation m) mod 4)"

definition NEIGHBOURS :: "cell list" where
  "NEIGHBOURS = [(1, 0, 0), (-1, 0, 0), (0, 1, 0), (0, -1, 0), (0, 0, 1), (0, 0, -1)]"

definition touches :: "cell set \<Rightarrow> cell list \<Rightarrow> bool" where
  "touches source target \<longleftrightarrow> (\<exists>c \<in> set target. \<exists>d \<in> set NEIGHBOURS. shift c d \<in> source)"

definition faces_travel :: "int \<Rightarrow> cell \<Rightarrow> bool" where
  "faces_travel rotation travel =
     (let want = the (FACE_DELTAS (rotate_face GATE_FORWARD_LOCAL_FACE rotation))
      in (fst want, snd (snd want)) = (sign (fst travel), sign (snd (snd travel))))"

subsection \<open>The constructor\<close>

type_synonym cell_key = "string \<times> int \<times> string"

record 'f gw_config =
  gc_min_maps :: int
  gc_allow_jumps :: bool
  gc_gap_min_maps :: "int option"
  gc_block_bias :: "(string \<times> 'f) list"
  gc_route_only :: bool
  gc_require_prefixes :: "string list"
  gc_route_model :: "route_model option"
  gc_jump_bias :: 'f
  gc_driven_prior :: "'f driven_prior option"
  gc_driven_weight :: 'f

record 'f gwalker =
  gw_grammar :: grammar
  gw_min_maps :: int
  gw_allow_jumps :: bool
  gw_gap_min_maps :: int
  gw_bias :: "(string \<times> 'f) list"
  gw_allow :: "string set"
  gw_require :: "string list"
  gw_model :: "route_model option"
  gw_jump_bias :: 'f
  gw_driven_prior :: "'f driven_prior option"
  gw_driven_weight :: 'f
  gw_cells :: "(cell_key \<times> cell list) list"
  gw_waypoint :: "(string \<times> string) list"
  gw_starts :: "string list"
  gw_finishes :: "string list"

datatype gw_init_error = GwNotInCatalogue string | GwNeedStartAndFinish | GwNoGrammarEntry

type_synonym gw_tables = "(cell_key \<times> cell list) list \<times> (string \<times> string) list"

definition add_oriented :: "string \<Rightarrow> string \<Rightarrow> g_oriented \<Rightarrow> gw_tables \<Rightarrow> gw_tables" where
  "add_oriented block_id kind o' tabs =
     (AList.update (block_id, go_rotation o', kind) (go_cells o') (fst tabs),
      AList.update block_id (go_waypoint o') (snd tabs))"

definition add_block :: "string \<Rightarrow> block_def \<Rightarrow> gw_tables \<Rightarrow> gw_tables" where
  "add_block block_id block tabs =
     fold (\<lambda>kind. fold (add_oriented block_id kind) (g_orientations block kind))
       [''ground'', ''air''] tabs"

fun gather_cells :: "catalogue \<Rightarrow> string list \<Rightarrow> gw_tables \<Rightarrow> gw_init_error + gw_tables" where
  "gather_cells cat [] tabs = Inr tabs"
| "gather_cells cat (block_id # pool) tabs =
     (case map_of cat block_id of
        None \<Rightarrow> Inl (GwNotInCatalogue block_id)
      | Some block \<Rightarrow> gather_cells cat pool (add_block block_id block tabs))"

definition seeds_of :: "string list \<Rightarrow> (string \<times> string) list \<Rightarrow> string list" where
  "seeds_of pool waypoint = filter (\<lambda>b. map_of waypoint b \<in>
     {Some ''Start'', Some ''Finish'', Some ''Checkpoint'', Some ''StartFinish''}) pool"

definition bridges_of :: "string list \<Rightarrow> string list" where
  "bridges_of pool = sort (filter (\<lambda>b. \<exists>p \<in> set (POOL_PREFIXES pool). in_str (''To'' @ p) b) pool)"

definition gw_init :: "catalogue \<Rightarrow> grammar \<Rightarrow> string list \<Rightarrow> 'f gw_config \<Rightarrow> gw_init_error + 'f gwalker" where
  "gw_init cat g pool conf =
     (case gather_cells cat pool ([], []) of
        Inl e \<Rightarrow> Inl e
      | Inr (cells, waypoint) \<Rightarrow>
          let starts = filter (\<lambda>b. map_of waypoint b = Some ''Start'') pool;
              finishes = filter (\<lambda>b. map_of waypoint b = Some ''Finish'') pool
          in if starts = [] \<or> finishes = [] then Inl GwNeedStartAndFinish
          else let allow = (if gc_route_only conf
              then route_vocabulary g (seeds_of pool waypoint @ bridges_of pool) (set pool)
                (gc_min_maps conf) 4 6
              else set pool)
          in if \<not> (\<exists>b \<in> allow. in_grammar b g) then Inl GwNoGrammarEntry
          else Inr \<lparr>gw_grammar = g, gw_min_maps = gc_min_maps conf,
            gw_allow_jumps = gc_allow_jumps conf,
            gw_gap_min_maps = get_or (gc_gap_min_maps conf) (gc_min_maps conf * GAP_MIN_MAPS_FACTOR),
            gw_bias = gc_block_bias conf, gw_allow = allow, gw_require = gc_require_prefixes conf,
            gw_model = gc_route_model conf, gw_jump_bias = gc_jump_bias conf,
            gw_driven_prior = gc_driven_prior conf, gw_driven_weight = gc_driven_weight conf,
            gw_cells = cells, gw_waypoint = waypoint, gw_starts = starts, gw_finishes = finishes\<rparr>)"

subsection \<open>Candidate moves\<close>

definition jump_move :: "jump \<Rightarrow> move" where
  "jump_move j = \<lparr>mv_block = jm_block j, mv_offset = jm_offset j, mv_rel_rotation = jm_rel_rotation j,
     mv_map_count = jm_map_count j, mv_pair_count = jm_map_count j, mv_clip_matched = False\<rparr>"

definition waypoint_is :: "'f gwalker \<Rightarrow> string \<Rightarrow> string \<Rightarrow> bool" where
  "waypoint_is W block want \<longleftrightarrow> get_or (map_of (gw_waypoint W) block) ''None'' = want"

text \<open>The three stages of \<open>_candidates\<close>: the filtered grammar moves, the clip-first rule, and the
  mined jumps added after it.\<close>

definition grammar_moves :: "'f gwalker \<Rightarrow> string \<Rightarrow> string \<Rightarrow> cell option \<Rightarrow> move list" where
  "grammar_moves W block_id want incoming =
     filter (\<lambda>m. waypoint_is W (mv_block m) want \<and>
         \<not> (incoming \<noteq> None \<and> Some (mv_offset m) = incoming) \<and>
         \<not> (is_gap m \<and> mv_map_count m < gw_gap_min_maps W))
       (successors (gw_grammar W) block_id (gw_min_maps W) (Some (gw_allow W)) (Some False)
         (if gw_allow_jumps W \<and> gw_model W = None then None else Some False))"

definition clip_first :: "'f gwalker \<Rightarrow> move list \<Rightarrow> move list" where
  "clip_first W out =
     (let clipped = filter mv_clip_matched out;
          strong = filter (\<lambda>m. mv_map_count m \<ge> gw_min_maps W * NO_CLIP_MIN_MAPS_FACTOR) out
      in if clipped \<noteq> [] then clipped else if strong \<noteq> [] then strong else out)"

definition mined_jumps :: "'f gwalker \<Rightarrow> string \<Rightarrow> string \<Rightarrow> cell option \<Rightarrow> jump list" where
  "mined_jumps W block_id want incoming =
     (case gw_model W of
        None \<Rightarrow> []
      | Some model \<Rightarrow>
          if gw_allow_jumps W
          then filter (\<lambda>j. jm_block j \<in> gw_allow W \<and> waypoint_is W (jm_block j) want \<and>
                 \<not> (incoming \<noteq> None \<and> Some (jm_offset j) = incoming))
               (jumps_from model block_id (gw_min_maps W))
          else [])"

definition gw_candidates :: "'f gwalker \<Rightarrow> string \<Rightarrow> string \<Rightarrow> cell option \<Rightarrow> move list" where
  "gw_candidates W block_id want incoming =
     clip_first W (grammar_moves W block_id want incoming) @
     map jump_move (mined_jumps W block_id want incoming)"

definition gw_is_directional :: "'f gwalker \<Rightarrow> string \<Rightarrow> bool" where
  "gw_is_directional W block_id \<longleftrightarrow>
     map_of (gw_waypoint W) block_id \<in> Some ` set DIRECTIONAL_WAYPOINTS \<or>
     (\<exists>p \<in> set DIRECTIONAL_BLOCK_PATTERNS. in_str p block_id)"

subsection \<open>Weights and order\<close>

text \<open>Truth value of a float.\<close>

definition f_truthy :: "'f fops \<Rightarrow> 'f \<Rightarrow> bool" where
  "f_truthy F x \<longleftrightarrow> \<not> (f_le F x (f_lit F 0) \<and> f_le F (f_lit F 0) x)"

definition gw_weight :: "'f fops \<Rightarrow> 'f gwalker \<Rightarrow> move \<Rightarrow> 'f" where
  "gw_weight F W m =
     f_mul F (f_mul F (f_lit F (of_int (mv_map_count m))) (bias_for F (gw_bias W) (mv_block m)))
       (f_lit F (if mv_clip_matched m then 3 / 2 else 1))"

function gw_shuffle :: "'f fops \<Rightarrow> ('a \<times> 'f) list \<Rightarrow> 'f rng \<Rightarrow> 'a list \<times> 'f rng" where
  "gw_shuffle F items r =
     (if items = [] then ([], r)
      else if f_le F (f_sum F (map snd items)) (f_lit F 0) then (map fst items, r)
      else case draw_index F items r of (chosen, r') \<Rightarrow>
        case gw_shuffle F (take chosen items @ drop (Suc chosen) items) r' of (rest, r'') \<Rightarrow>
          (fst (items ! chosen) # rest, r''))"
  by pat_completeness auto
termination
  by (relation "measure (\<lambda>(F, items, r). length items)") (auto dest: draw_index_bound [OF sym])

declare gw_shuffle.simps [simp del]

type_synonym column = "int \<times> int"

record gcand =
  cd_move :: move
  cd_anchor :: cell
  cd_rotation :: int
  cd_footprint :: "cell list"

definition cols_of :: "cell list \<Rightarrow> column set" where
  "cols_of footprint = (\<lambda>c. (fst c, snd (snd c))) ` set footprint"

definition primary :: "gcand \<times> 'f \<Rightarrow> bool" where
  "primary s \<longleftrightarrow> mv_clip_matched (cd_move (fst s)) \<or> is_gap (cd_move (fst s))"

definition gw_order :: "'f fops \<Rightarrow> (gcand \<times> 'f) list \<Rightarrow> 'f rng \<Rightarrow> gcand list \<times> 'f rng" where
  "gw_order F scored r =
     (case gw_shuffle F (filter primary scored) r of (a, r') \<Rightarrow>
      case gw_shuffle F (filter (\<lambda>s. \<not> primary s) scored) r' of (b, r'') \<Rightarrow> (a @ b, r''))"

subsection \<open>One attempt\<close>

datatype gw_error =
    GBudget int
  | GNoRoute int cell int
  | GMissing "string list"
  | GExhausted int int "gw_error option"
  | GKeyError
  | GIndexError

datatype gw_result = GRoute "placement list" | GFailed gw_error | GOutOfFuel

record 'f gw_state =
  gs_placements :: "placement list"
  gs_occupied :: "cell set"
  gs_columns :: "column \<Rightarrow> int"
  gs_recent :: "string list"
  gs_visited :: "string set"
  gs_expansions :: int
  gs_rng :: "'f rng"

definition want_at :: "int \<Rightarrow> int \<Rightarrow> int \<Rightarrow> string" where
  "want_at len checkpoint_every steps =
     (if steps \<ge> len then ''Finish''
      else if checkpoint_every > 0 \<and> steps > 0 \<and> steps mod checkpoint_every = 0 then ''Checkpoint''
      else ''None'')"

definition gw_moves :: "'f gwalker \<Rightarrow> string \<Rightarrow> string \<Rightarrow> cell option \<Rightarrow> move list" where
  "gw_moves W block_id want incoming =
     (let moves = gw_candidates W block_id want incoming
      in if moves = [] \<and> want = ''Checkpoint'' then gw_candidates W block_id ''None'' incoming
         else moves)"

definition pl_cell :: "placement \<Rightarrow> cell" where
  "pl_cell p = (pl_x p, pl_y p, pl_z p)"

text \<open>The guards of the scoring loop: a legal candidate, or \<open>None\<close> for \<open>continue\<close>.\<close>

definition move_cand :: "'f gwalker \<Rightarrow> cell set \<Rightarrow> (column \<Rightarrow> int) \<Rightarrow> placement \<Rightarrow> cell set \<Rightarrow> move
    \<Rightarrow> gcand option" where
  "move_cand W occupied columns prev source m =
     (case apply_move m (pl_cell prev) (pl_rotation prev) of (anchor, rotation) \<Rightarrow>
      case map_of (gw_cells W) (mv_block m, rotation, variant_kind (fst (snd anchor))) of
        None \<Rightarrow> None
      | Some cells \<Rightarrow>
          let footprint = map (shift anchor) cells in
          if \<not> in_bounds footprint then None
          else if \<exists>c \<in> set footprint. c \<in> occupied then None
          else if is_gap m \<and> touches source footprint then None
          else if \<not> is_gap m \<and> \<not> touches source footprint then None
          else if gw_is_directional W (mv_block m) \<and>
            \<not> faces_travel rotation (sub anchor (pl_cell prev)) then None
          else if \<exists>col \<in> cols_of footprint. columns col \<ge> MAX_LEVELS_PER_COLUMN then None
          else Some \<lparr>cd_move = m, cd_anchor = anchor, cd_rotation = rotation,
            cd_footprint = footprint\<rparr>)"

definition cand_score :: "'f fops \<Rightarrow> 'f gwalker \<Rightarrow> 'f gw_state \<Rightarrow> placement \<Rightarrow> string option \<Rightarrow> gcand
    \<Rightarrow> 'f" where
  "cand_score F W st prev before_id c =
     (let m = cd_move c;
          w = gw_weight F W m;
          w = (if mv_block m \<in> set (gs_recent st) then f_mul F w (f_lit F RECENCY_PENALTY) else w);
          w = (case gw_model W of
                 None \<Rightarrow> w
               | Some model \<Rightarrow>
                   let score = sequence_score F model before_id (pl_block_id prev) (mv_block m)
                     (mv_offset m) (mv_rel_rotation m)
                   in if f_truthy F score
                      then f_mul F w (f_add F (f_lit F 1) (f_mul F (f_lit F SEQUENCE_WEIGHT) score))
                      else w);
          w = (case gw_driven_prior W of
                 None \<Rightarrow> w
               | Some prior \<Rightarrow>
                   let share = driven_share F prior (pl_block_id prev) (mv_block m)
                   in if f_truthy F share
                      then f_mul F w (f_add F (f_lit F 1) (f_mul F (gw_driven_weight W) share))
                      else w);
          w = (if is_gap m then f_mul F w (gw_jump_bias W) else w);
          w = (if \<exists>col \<in> cols_of (cd_footprint c). gs_columns st col \<noteq> 0
               then f_mul F w (f_lit F COLUMN_REUSE_PENALTY) else w)
      in if \<exists>p \<in> set (gw_require W). p \<notin> gs_visited st \<and> startswith (mv_block m) p
         then f_mul F w (f_lit F UNVISITED_FAMILY_BOOST) else w)"

definition g_place :: "gcand \<Rightarrow> placement" where
  "g_place c = \<lparr>pl_block_id = mv_block (cd_move c), pl_x = fst (cd_anchor c),
     pl_y = fst (snd (cd_anchor c)), pl_z = snd (snd (cd_anchor c)), pl_rotation = cd_rotation c,
     pl_variant = None\<rparr>"

definition bump :: "int \<Rightarrow> column set \<Rightarrow> (column \<Rightarrow> int) \<Rightarrow> column \<Rightarrow> int" where
  "bump k cols columns = (\<lambda>col. if col \<in> cols then columns col + k else columns col)"

text \<open>\<open>deque(maxlen)\<close>: appending to a full window drops its oldest entry.\<close>

definition recent_append :: "string \<Rightarrow> string list \<Rightarrow> string list" where
  "recent_append b recent =
     (let xs = recent @ [b] in drop (length xs - RECENCY_WINDOW) xs)"

definition gw_push :: "gcand \<times> string set \<Rightarrow> 'f gw_state \<Rightarrow> 'f gw_state" where
  "gw_push d st =
     st\<lparr>gs_placements := gs_placements st @ [g_place (fst d)],
        gs_occupied := gs_occupied st \<union> set (cd_footprint (fst d)),
        gs_columns := bump 1 (cols_of (cd_footprint (fst d))) (gs_columns st),
        gs_recent := recent_append (mv_block (cd_move (fst d))) (gs_recent st),
        gs_visited := gs_visited st \<union> snd d\<rparr>"

definition gw_pop :: "gcand \<times> string set \<Rightarrow> 'f gw_state \<Rightarrow> 'f gw_state" where
  "gw_pop d st =
     st\<lparr>gs_placements := butlast (gs_placements st),
        gs_occupied := gs_occupied st - set (cd_footprint (fst d)),
        gs_columns := bump (- 1) (cols_of (cd_footprint (fst d))) (gs_columns st),
        gs_recent := butlast (gs_recent st),
        gs_visited := gs_visited st - snd d\<rparr>"

definition reached_by :: "'f gwalker \<Rightarrow> string set \<Rightarrow> gcand \<Rightarrow> string set" where
  "reached_by W visited c =
     {p \<in> set (gw_require W). p \<notin> visited \<and> startswith (mv_block (cd_move c)) p}"

fun try_cands :: "'f gwalker \<Rightarrow> string
    \<Rightarrow> (placement \<Rightarrow> cell option \<Rightarrow> 'f gw_state \<Rightarrow> gw_error search_result \<times> 'f gw_state)
    \<Rightarrow> gcand list \<Rightarrow> 'f gw_state \<Rightarrow> gw_error search_result \<times> 'f gw_state" where
  "try_cands W want rec [] st = (Ret False, st)"
| "try_cands W want rec (c # cs) st =
     (if want = ''Finish''
      then (Ret True, st\<lparr>gs_placements := gs_placements st @ [g_place c]\<rparr>)
      else let d = (c, reached_by W (gs_visited st) c) in
        or_else (rec (g_place c) (Some (reverse_offset (cd_move c))) (gw_push d st))
          (\<lambda>st'. try_cands W want rec cs (gw_pop d st')))"

definition legal_cands :: "'f gwalker \<Rightarrow> cell set \<Rightarrow> (column \<Rightarrow> int) \<Rightarrow> string \<Rightarrow> placement
    \<Rightarrow> cell option \<Rightarrow> cell list \<Rightarrow> gcand list" where
  "legal_cands W occupied columns want prev incoming prev_cells =
     List.map_filter (move_cand W occupied columns prev (shift (pl_cell prev) ` set prev_cells))
       (gw_moves W (pl_block_id prev) want incoming)"

definition prev_cells_of :: "'f gwalker \<Rightarrow> placement \<Rightarrow> cell list option" where
  "prev_cells_of W prev =
     map_of (gw_cells W) (pl_block_id prev, pl_rotation prev, variant_kind (pl_y prev))"

primrec gw_dfs :: "nat \<Rightarrow> 'f fops \<Rightarrow> 'f gwalker \<Rightarrow> int \<Rightarrow> int \<Rightarrow> int \<Rightarrow> int \<Rightarrow> string option
    \<Rightarrow> placement \<Rightarrow> cell option \<Rightarrow> 'f gw_state \<Rightarrow> gw_error search_result \<times> 'f gw_state" where
  "gw_dfs 0 F W len checkpoint_every max_expansions steps before_id prev incoming st = (NoFuel, st)"
| "gw_dfs (Suc fuel) F W len checkpoint_every max_expansions steps before_id prev incoming st =
     (let st = st\<lparr>gs_expansions := gs_expansions st + 1\<rparr> in
      if gs_expansions st > max_expansions then (Raise (GBudget (gs_expansions st)), st)
      else let want = want_at len checkpoint_every steps in
      case prev_cells_of W prev of
        None \<Rightarrow> (Raise GKeyError, st)
      | Some prev_cells \<Rightarrow>
          let cands = legal_cands W (gs_occupied st) (gs_columns st) want prev incoming prev_cells
          in case gw_order F (map (\<lambda>c. (c, cand_score F W st prev before_id c)) cands) (gs_rng st) of
               (ordered, r) \<Rightarrow>
                 try_cands W want
                   (gw_dfs fuel F W len checkpoint_every max_expansions (steps + 1)
                     (Some (pl_block_id prev)))
                   ordered (st\<lparr>gs_rng := r\<rparr>))"

definition count_columns :: "cell set \<Rightarrow> column \<Rightarrow> int" where
  "count_columns occupied col = int (card (Set.filter (\<lambda>c. (fst c, snd (snd c)) = col) occupied))"

definition gw_start_state :: "'f gwalker \<Rightarrow> string \<Rightarrow> int \<Rightarrow> cell list \<Rightarrow> 'f rng \<Rightarrow> 'f gw_state" where
  "gw_start_state W start_id start_rot cells r =
     (let occ = set (map (shift walk_origin) cells) in
      \<lparr>gs_placements = [\<lparr>pl_block_id = start_id, pl_x = fst walk_origin, pl_y = fst (snd walk_origin),
          pl_z = snd (snd walk_origin), pl_rotation = start_rot, pl_variant = None\<rparr>],
       gs_occupied = occ, gs_columns = count_columns occ, gs_recent = [],
       gs_visited = {p \<in> set (gw_require W). startswith start_id p},
       gs_expansions = 0, gs_rng = r\<rparr>)"

definition gw_outcome :: "int \<Rightarrow> gw_error search_result \<times> 'f gw_state \<Rightarrow> gw_result" where
  "gw_outcome len res =
     (case res of
        (Ret True, st) \<Rightarrow> GRoute (gs_placements st)
      | (Ret False, st) \<Rightarrow> GFailed (GNoRoute len walk_origin (gs_expansions st))
      | (Raise e, _) \<Rightarrow> GFailed e
      | (NoFuel, _) \<Rightarrow> GOutOfFuel)"

definition gw_attempt :: "'f fops \<Rightarrow> 'f gwalker \<Rightarrow> int \<Rightarrow> int \<Rightarrow> int \<Rightarrow> 'f rng \<Rightarrow> gw_result" where
  "gw_attempt F W len checkpoint_every max_expansions r =
     (case rng_choice (gw_starts W) r of
        (Inl _, _) \<Rightarrow> GFailed GIndexError
      | (Inr start_id, r') \<Rightarrow>
          (case rng_below 4 r' of (rot, r'') \<Rightarrow>
           case map_of (gw_cells W) (start_id, int rot, variant_kind (fst (snd walk_origin))) of
             None \<Rightarrow> GFailed GKeyError
           | Some cells \<Rightarrow>
               let st = gw_start_state W start_id (int rot) cells r'' in
               gw_outcome len
                 (gw_dfs (Suc (nat max_expansions)) F W len checkpoint_every max_expansions 1 None
                   (hd (gs_placements st)) None st)))"

subsection \<open>Restarts\<close>

definition is_dead_end :: "gw_error \<Rightarrow> bool" where
  "is_dead_end e = (case e of GKeyError \<Rightarrow> False | GIndexError \<Rightarrow> False | _ \<Rightarrow> True)"

definition missing_prefixes :: "'f gwalker \<Rightarrow> placement list \<Rightarrow> string list" where
  "missing_prefixes W route =
     filter (\<lambda>p. \<not> (\<exists>pl \<in> set route. startswith (pl_block_id pl) p)) (gw_require W)"

definition checked_attempt :: "'f gwalker \<Rightarrow> gw_result \<Rightarrow> gw_result" where
  "checked_attempt W res =
     (case res of
        GRoute route \<Rightarrow>
          if missing_prefixes W route \<noteq> [] then GFailed (GMissing (missing_prefixes W route))
          else GRoute route
      | _ \<Rightarrow> res)"

fun gw_restarts :: "'f fops \<Rightarrow> 'f gwalker \<Rightarrow> int \<Rightarrow> int \<Rightarrow> int \<Rightarrow> int \<Rightarrow> 'f rng list \<Rightarrow> gw_error option
    \<Rightarrow> gw_result" where
  "gw_restarts F W len checkpoint_every max_expansions attempts [] last_exc =
     GFailed (GExhausted len attempts last_exc)"
| "gw_restarts F W len checkpoint_every max_expansions attempts (r # rs) last_exc =
     (case checked_attempt W (gw_attempt F W len checkpoint_every max_expansions r) of
        GRoute route \<Rightarrow> GRoute route
      | GFailed e \<Rightarrow>
          if is_dead_end e
          then gw_restarts F W len checkpoint_every max_expansions attempts rs (Some e)
          else GFailed e
      | GOutOfFuel \<Rightarrow> GOutOfFuel)"

text \<open>\<open>rngs i\<close> is the generator \<open>random.Random(f"{seed}:{i}")\<close> of attempt \<open>i\<close>.\<close>

definition gw_generate :: "'f fops \<Rightarrow> 'f gwalker \<Rightarrow> int \<Rightarrow> int \<Rightarrow> int \<Rightarrow> int \<Rightarrow> (nat \<Rightarrow> 'f rng)
    \<Rightarrow> gw_result" where
  "gw_generate F W len checkpoint_every max_expansions attempts rngs =
     gw_restarts F W len checkpoint_every max_expansions attempts (map rngs [0..<nat attempts]) None"

subsection \<open>The orders are permutations\<close>

lemma mset_gw_shuffle [perm_facts]:
  "mset (fst (gw_shuffle F items r)) = mset (map fst items)"
proof (induction F items r rule: gw_shuffle.induct)
  case (1 F items r)
  show ?case
  proof (cases "items = [] \<or> f_le F (f_sum F (map snd items)) (f_lit F 0)")
    case True
    then show ?thesis by (auto simp: gw_shuffle.simps)
  next
    case False
    obtain k r' where k: "draw_index F items r = (k, r')" by fastforce
    let ?rest = "take k items @ drop (Suc k) items"
    obtain xs r'' where xs: "gw_shuffle F ?rest r' = (xs, r'')" by fastforce
    have "k < length items" using draw_index_bound [OF k] False by blast
    have "mset xs = mset (map fst ?rest)"
      using "1.IH" [OF _ _ k [symmetric]] False xs by simp
    then have "mset (fst (gw_shuffle F items r)) =
        image_mset fst (mset (items ! k # ?rest))"
      using False k xs by (simp add: gw_shuffle.simps [of F items r])
    also have "\<dots> = mset (map fst items)"
      using mset_take_drop_nth [OF \<open>k < length items\<close>] by simp
    finally show ?thesis .
  qed
qed

lemma mset_gw_order [perm_facts]: "mset (fst (gw_order F scored r)) = mset (map fst scored)"
proof -
  obtain a r' where a: "gw_shuffle F (filter primary scored) r = (a, r')" by fastforce
  obtain b r'' where b: "gw_shuffle F (filter (\<lambda>s. \<not> primary s) scored) r' = (b, r'')" by fastforce
  have "mset a = image_mset fst (mset (filter primary scored))"
    "mset b = image_mset fst (mset (filter (\<lambda>s. \<not> primary s) scored))"
    using mset_gw_shuffle [of F "filter primary scored" r]
      mset_gw_shuffle [of F "filter (\<lambda>s. \<not> primary s) scored" r'] a b by simp_all
  then have "mset a + mset b =
      image_mset fst (mset (filter primary scored) + mset (filter (\<lambda>s. \<not> primary s) scored))"
    by (simp only: image_mset_union)
  also have "\<dots> = mset (map fst scored)"
    unfolding mset_filter multiset_partition [symmetric] by simp
  finally show ?thesis by (simp add: gw_order_def a b)
qed

interpretation gw_tier: candidate_order "gw_shuffle F" fst for F
  by unfold_locales (simp add: perm_facts)

interpretation gw_tiers: candidate_order "gw_order F" fst for F
  by unfold_locales (simp add: perm_facts)

lemma set_gw_order:
  "gw_order F (map (\<lambda>c. (c, w c)) cands) r = (ordered, r') \<Longrightarrow> set ordered = set cands"
  using gw_tiers.order_set [of F "map (\<lambda>c. (c, w c)) cands" r] by (simp add: image_image)

subsection \<open>Specification of an attempt\<close>

text \<open>
  A legal continuation from \<open>prev\<close>: each candidate passes all guards in the state its
  predecessors leave behind, and the chain ends with a finish exactly when the length is reached.
\<close>

definition g_legal :: "'f gwalker \<Rightarrow> cell set \<Rightarrow> (column \<Rightarrow> int) \<Rightarrow> string \<Rightarrow> placement \<Rightarrow> cell option
    \<Rightarrow> gcand \<Rightarrow> bool" where
  "g_legal W occ cols want prev incoming c \<longleftrightarrow>
     (\<exists>cells. prev_cells_of W prev = Some cells \<and>
        c \<in> set (legal_cands W occ cols want prev incoming cells))"

fun g_chain :: "'f gwalker \<Rightarrow> int \<Rightarrow> int \<Rightarrow> cell set \<Rightarrow> (column \<Rightarrow> int) \<Rightarrow> int \<Rightarrow> placement \<Rightarrow> cell option
    \<Rightarrow> gcand list \<Rightarrow> bool" where
  "g_chain W len every occ cols steps prev incoming [] = False"
| "g_chain W len every occ cols steps prev incoming (c # cs) =
     (g_legal W occ cols (want_at len every steps) prev incoming c \<and>
      (if want_at len every steps = ''Finish'' then cs = []
       else g_chain W len every (occ \<union> set (cd_footprint c)) (bump 1 (cols_of (cd_footprint c)) cols)
         (steps + 1) (g_place c) (Some (reverse_offset (cd_move c))) cs))"

abbreviation gw_core :: "'f gw_state \<Rightarrow> cell set \<times> (column \<Rightarrow> int)" where
  "gw_core st \<equiv> (gs_occupied st, gs_columns st)"

abbreviation gw_ok :: "(gcand list \<Rightarrow> bool) \<Rightarrow> 'f gw_state \<Rightarrow> gw_error search_result \<times> 'f gw_state
    \<Rightarrow> bool" where
  "gw_ok R \<equiv> outcome_ok gs_placements gw_core (\<lambda>qs. \<exists>cs. qs = map g_place cs \<and> R cs)"

lemma bump_undo [simp]: "bump (- 1) cols (bump 1 cols columns) = columns"
  by (auto simp: bump_def)

lemmas gw_stack_defs = gw_push_def gw_pop_def

interpretation gw_stack: undo_stack gs_placements gw_core gw_push gw_pop "\<lambda>d. g_place (fst d)"
  "\<lambda>d st. set (cd_footprint (fst d)) \<inter> gs_occupied st = {}"
  by unfold_locales (auto simp: gw_stack_defs)


lemma move_cand_iff:
  "move_cand W occ cols prev source m = Some c \<longleftrightarrow>
     cd_move c = m \<and>
     apply_move m (pl_cell prev) (pl_rotation prev) = (cd_anchor c, cd_rotation c) \<and>
     (\<exists>cells. map_of (gw_cells W) (mv_block m, cd_rotation c, variant_kind (fst (snd (cd_anchor c)))) =
        Some cells \<and> cd_footprint c = map (shift (cd_anchor c)) cells) \<and>
     in_bounds (cd_footprint c) \<and> set (cd_footprint c) \<inter> occ = {} \<and>
     (is_gap m \<longleftrightarrow> \<not> touches source (cd_footprint c)) \<and>
     (gw_is_directional W (mv_block m) \<longrightarrow>
        faces_travel (cd_rotation c) (sub (cd_anchor c) (pl_cell prev))) \<and>
     (\<forall>col \<in> cols_of (cd_footprint c). cols col < MAX_LEVELS_PER_COLUMN)"
proof -
  obtain anchor rotation where ar: "apply_move m (pl_cell prev) (pl_rotation prev) = (anchor, rotation)"
    by fastforce
  show ?thesis
  proof (cases "map_of (gw_cells W) (mv_block m, rotation, variant_kind (fst (snd anchor)))")
    case (Some cells)
    let ?fp = "map (shift anchor) cells"
    have disj: "set ?fp \<inter> occ = {} \<longleftrightarrow> \<not> (\<exists>c \<in> set ?fp. c \<in> occ)" by blast
    have "move_cand W occ cols prev source m = Some c \<longleftrightarrow>
        in_bounds ?fp \<and> set ?fp \<inter> occ = {} \<and> (is_gap m \<longleftrightarrow> \<not> touches source ?fp) \<and>
        (gw_is_directional W (mv_block m) \<longrightarrow> faces_travel rotation (sub anchor (pl_cell prev))) \<and>
        (\<forall>col \<in> cols_of ?fp. cols col < MAX_LEVELS_PER_COLUMN) \<and>
        c = \<lparr>cd_move = m, cd_anchor = anchor, cd_rotation = rotation, cd_footprint = ?fp\<rparr>"
      unfolding disj not_le [symmetric] move_cand_def ar Some Let_def prod.case option.case
      by (simp split del: if_split split: if_split) (meson option.inject option.distinct(1))
    moreover have "c = \<lparr>cd_move = m, cd_anchor = anchor, cd_rotation = rotation, cd_footprint = ?fp\<rparr> \<longleftrightarrow>
        cd_move c = m \<and> cd_anchor c = anchor \<and> cd_rotation c = rotation \<and> cd_footprint c = ?fp"
      by (cases c) simp
    ultimately show ?thesis unfolding ar prod.inject using Some by (metis option.inject)
  qed (auto simp: move_cand_def ar)
qed

lemma move_cand_fresh:
  "move_cand W occ cols prev source m = Some c \<Longrightarrow> set (cd_footprint c) \<inter> occ = {}"
  by (simp add: move_cand_iff)

lemma legal_cands_fresh:
  "c \<in> set (legal_cands W occ cols want prev incoming cells) \<Longrightarrow> set (cd_footprint c) \<inter> occ = {}"
  by (auto simp: legal_cands_def set_map_filter dest: move_cand_fresh)

text \<open>The chains that begin with a given candidate.\<close>

definition chain_via :: "'f gwalker \<Rightarrow> int \<Rightarrow> int \<Rightarrow> cell set \<Rightarrow> (column \<Rightarrow> int) \<Rightarrow> int \<Rightarrow> gcand
    \<Rightarrow> gcand list \<Rightarrow> bool" where
  "chain_via W len every occ cols steps c cs \<longleftrightarrow>
     (\<exists>cs'. cs = c # cs' \<and>
        (if want_at len every steps = ''Finish'' then cs' = []
         else g_chain W len every (occ \<union> set (cd_footprint c)) (bump 1 (cols_of (cd_footprint c)) cols)
           (steps + 1) (g_place c) (Some (reverse_offset (cd_move c))) cs'))"

lemma g_chain_via:
  assumes "prev_cells_of W prev = Some cells"
  shows "g_chain W len every occ cols steps prev incoming cs \<longleftrightarrow>
    (\<exists>c \<in> set (legal_cands W occ cols (want_at len every steps) prev incoming cells).
       chain_via W len every occ cols steps c cs)"
  using assms by (cases cs) (auto simp: chain_via_def g_legal_def)

lemma try_cands_ok:
  assumes rec: "\<And>prev incoming st.
      gw_ok (g_chain W len every (gs_occupied st) (gs_columns st) (steps + 1) prev incoming) st
        (rec prev incoming st)"
    and fresh: "\<forall>c \<in> set cands. set (cd_footprint c) \<inter> gs_occupied st = {}"
  shows "gw_ok (\<lambda>cs. \<exists>c \<in> set cands.
      chain_via W len every (gs_occupied st) (gs_columns st) steps c cs) st
    (try_cands W (want_at len every steps) rec cands st)"
  using fresh
proof (induction cands arbitrary: st)
  case (Cons c cands)
  let ?via = "\<lambda>c. chain_via W len every (gs_occupied st) (gs_columns st) steps c"
  show ?case
  proof (cases "want_at len every steps = ''Finish''")
    case True
    then show ?thesis by (auto simp: chain_via_def intro!: exI [of _ "[c]"])
  next
    case False
    let ?d = "(c, reached_by W (gs_visited st) c)"
    let ?loop = "try_cands W (want_at len every steps) rec"
    let ?R = "g_chain W len every (gs_occupied (gw_push ?d st)) (gs_columns (gw_push ?d st)) (steps + 1)
      (g_place c) (Some (reverse_offset (cd_move c)))"
    have rest: "gw_ok (\<lambda>cs. \<exists>c \<in> set cands. ?via c cs) st (?loop cands s')"
      if "gs_placements s' = gs_placements st" "gw_core s' = gw_core st" for s'
      by (rule outcome_ok_state [OF _ that]) (use Cons.IH [of s'] Cons.prems that in simp)
    have "set (cd_footprint (fst ?d)) \<inter> gs_occupied st = {}" using Cons.prems by simp
    note ext = gw_stack.extend_ok [OF this, OF rec
        [where prev = "g_place c" and incoming = "Some (reverse_offset (cd_move c))"] rest]
    have "outcome_ok gs_placements gw_core
        (\<lambda>qs. (\<exists>rs. qs = g_place c # rs \<and> (\<exists>cs. rs = map g_place cs \<and> ?R cs)) \<or>
              (\<exists>cs. qs = map g_place cs \<and> (\<exists>c \<in> set cands. ?via c cs))) st (?loop (c # cands) st)"
      using ext False by (simp add: Let_def)
    moreover have "((\<exists>rs. qs = g_place c # rs \<and> (\<exists>cs. rs = map g_place cs \<and> ?R cs)) \<or>
        (\<exists>cs. qs = map g_place cs \<and> (\<exists>c \<in> set cands. ?via c cs))) \<longleftrightarrow>
        (\<exists>cs. qs = map g_place cs \<and> (\<exists>c \<in> set (c # cands). ?via c cs))" for qs
      using False by (auto simp: chain_via_def gw_push_def intro: exI [of _ "c # _"])
    ultimately show ?thesis by simp
  qed
qed simp

lemma gw_dfs_ok:
  "gw_ok (g_chain W len every (gs_occupied st) (gs_columns st) steps prev incoming) st
     (gw_dfs fuel F W len every m steps before_id prev incoming st)"
proof (induction fuel arbitrary: steps before_id prev incoming st)
  case (Suc fuel)
  let ?st = "st\<lparr>gs_expansions := gs_expansions st + 1\<rparr>"
  show ?case
  proof (cases "gs_expansions st + 1 > m \<or> prev_cells_of W prev = None")
    case False
    then obtain cells where cells: "prev_cells_of W prev = Some cells"
      and budget: "\<not> gs_expansions st + 1 > m" by auto
    let ?cands = "legal_cands W (gs_occupied st) (gs_columns st) (want_at len every steps) prev
      incoming cells"
    obtain ordered r where ord: "gw_order F (map (\<lambda>c. (c, cand_score F W ?st prev before_id c)) ?cands)
      (gs_rng st) = (ordered, r)" by fastforce
    let ?st' = "?st\<lparr>gs_rng := r\<rparr>"
    let ?res = "try_cands W (want_at len every steps)
      (gw_dfs fuel F W len every m (steps + 1) (Some (pl_block_id prev))) ordered ?st'"
    have "gw_ok (\<lambda>cs. \<exists>c \<in> set ordered.
        chain_via W len every (gs_occupied ?st') (gs_columns ?st') steps c cs) ?st' ?res"
      by (rule try_cands_ok [OF Suc.IH]) (auto simp: set_gw_order [OF ord] dest: legal_cands_fresh)
    then have "gw_ok (g_chain W len every (gs_occupied st) (gs_columns st) steps prev incoming) ?st' ?res"
      by (simp add: set_gw_order [OF ord] g_chain_via [OF cells, abs_def])
    then have "gw_ok (g_chain W len every (gs_occupied st) (gs_columns st) steps prev incoming) st ?res"
      by (rule outcome_ok_state) simp_all
    with cells budget ord show ?thesis by (simp add: Let_def)
  qed (auto simp: Let_def)
qed simp

subsection \<open>What the constructor guarantees\<close>

lemma set_rotations: "{0, 1, 2, 3} = {r :: int. 0 \<le> r \<and> r < 4}"
  by auto

lemma g_orientations_rotations:
  "g_orientations block kind \<noteq> [] \<Longrightarrow> go_rotation ` set (g_orientations block kind) = {r. 0 \<le> r \<and> r < 4}"
  unfolding set_rotations [symmetric] g_orientations_def
  by (cases "chosen_variant block kind") simp_all

lemma g_orientations_Nil:
  "g_orientations block ''ground'' = [] \<longleftrightarrow> g_orientations block ''air'' = []"
  by (simp add: g_orientations_def chosen_variant_def split: option.splits)

lemma fold_add_oriented:
  "dom (map_of (fst (fold (add_oriented b kind) os tabs))) =
     dom (map_of (fst tabs)) \<union> {(b, go_rotation o', kind) | o'. o' \<in> set os}"
  "dom (map_of (snd (fold (add_oriented b kind) os tabs))) =
     dom (map_of (snd tabs)) \<union> (if os = [] then {} else {b})"
proof (induction os arbitrary: tabs)
  case (Cons x os)
  case 1
  show ?case using Cons.IH(1) [of "add_oriented b kind x tabs"] by (auto simp: add_oriented_def)
  case 2
  show ?case using Cons.IH(2) [of "add_oriented b kind x tabs"] by (auto simp: add_oriented_def)
qed simp_all

text \<open>Every block with a waypoint entry has cells at all four rotations, in both kinds.\<close>

definition tables_ok :: "gw_tables \<Rightarrow> bool" where
  "tables_ok tabs \<longleftrightarrow> (\<forall>b \<in> dom (map_of (snd tabs)). \<forall>rot. 0 \<le> rot \<and> rot < 4 \<longrightarrow>
     (b, rot, ''ground'') \<in> dom (map_of (fst tabs)) \<and> (b, rot, ''air'') \<in> dom (map_of (fst tabs)))"

lemma add_block_ok:
  assumes "tables_ok tabs"
  shows "tables_ok (add_block b block tabs)"
proof (cases "g_orientations block ''ground'' = []")
  case True
  then have "g_orientations block ''air'' = []" by (simp only: g_orientations_Nil)
  with True assms show ?thesis by (simp add: add_block_def)
next
  case False
  then have ne: "g_orientations block ''air'' \<noteq> []" by (simp add: g_orientations_Nil)
  have rot: "\<exists>o'. rot = go_rotation o' \<and> o' \<in> set (g_orientations block kind)"
    if "0 \<le> rot" "rot < 4" "g_orientations block kind \<noteq> []" for rot kind
    using g_orientations_rotations [OF that(3)] that(1,2) by blast
  show ?thesis
    unfolding tables_ok_def
  proof (intro ballI allI impI conjI)
    fix b' rot
    assume "b' \<in> dom (map_of (snd (add_block b block tabs)))" and r: "0 \<le> rot \<and> rot < (4 :: int)"
    then have "b' = b \<or> b' \<in> dom (map_of (snd tabs))"
      by (auto simp: add_block_def fold_add_oriented split: if_splits)
    then show "(b', rot, ''ground'') \<in> dom (map_of (fst (add_block b block tabs)))"
      "(b', rot, ''air'') \<in> dom (map_of (fst (add_block b block tabs)))"
      using assms r rot [OF _ _ False] rot [OF _ _ ne]
      by (auto simp: add_block_def fold_add_oriented tables_ok_def)
  qed
qed

lemma gather_cells_ok:
  "gather_cells cat pool tabs = Inr tabs' \<Longrightarrow> tables_ok tabs \<Longrightarrow> tables_ok tabs'"
  by (induction cat pool tabs rule: gather_cells.induct) (auto split: option.splits dest: add_block_ok)

definition gw_wf :: "'f gwalker \<Rightarrow> bool" where
  "gw_wf W \<longleftrightarrow> gw_starts W \<noteq> [] \<and>
     (\<forall>b \<in> set (gw_starts W). \<forall>rot. 0 \<le> rot \<and> rot < 4 \<longrightarrow>
        map_of (gw_cells W) (b, rot, ''ground'') \<noteq> None)"

lemma gw_init_wf:
  assumes "gw_init cat g pool conf = Inr W"
  shows "gw_wf W"
proof -
  from assms obtain cells waypoint where tabs: "gather_cells cat pool ([], []) = Inr (cells, waypoint)"
    and W: "gw_cells W = cells" "gw_starts W = filter (\<lambda>b. map_of waypoint b = Some ''Start'') pool"
      "gw_starts W \<noteq> []"
    by (auto simp: gw_init_def Let_def split: sum.splits if_splits)
  have "tables_ok (cells, waypoint)"
    by (rule gather_cells_ok [OF tabs]) (simp add: tables_ok_def)
  then show ?thesis using W by (fastforce simp: gw_wf_def tables_ok_def)
qed

subsection \<open>The budget bounds an attempt\<close>

abbreviation gw_bounded :: "int \<Rightarrow> int \<Rightarrow> nat \<Rightarrow> gw_error search_result \<times> 'f gw_state \<Rightarrow> bool" where
  "gw_bounded \<equiv> bounded_call gs_expansions GBudget"

lemma legal_cands_placeable:
  "c \<in> set (legal_cands W occ cols want prev incoming cells) \<Longrightarrow> prev_cells_of W (g_place c) \<noteq> None"
  by (auto simp: legal_cands_def set_map_filter move_cand_iff prev_cells_of_def g_place_def)

lemma try_cands_bounded:
  assumes rec: "\<And>prev incoming s. prev_cells_of W prev \<noteq> None \<Longrightarrow> b \<le> gs_expansions s \<Longrightarrow>
      gs_expansions s \<le> m \<Longrightarrow> gw_bounded m (gs_expansions s) fuel (rec prev incoming s)"
    and "\<forall>c \<in> set cands. prev_cells_of W (g_place c) \<noteq> None"
    and "b \<le> gs_expansions st" "gs_expansions st \<le> m"
  shows "gw_bounded m b fuel (try_cands W want rec cands st)"
  using assms(2-)
proof (induction cands arbitrary: st)
  case (Cons c cands)
  show ?case
  proof (cases "want = ''Finish''")
    case False
    let ?d = "(c, reached_by W (gs_visited st) c)"
    have "gw_bounded m (gs_expansions (gw_push ?d st)) fuel
        (rec (g_place c) (Some (reverse_offset (cd_move c))) (gw_push ?d st))"
      using Cons.prems by (intro rec) (simp_all add: gw_push_def)
    then have "gw_bounded m b fuel
        (or_else (rec (g_place c) (Some (reverse_offset (cd_move c))) (gw_push ?d st))
          (\<lambda>s. try_cands W want rec cands (gw_pop ?d s)))"
      by (rule bounded_or_else) (use Cons in \<open>simp_all add: gw_stack_defs\<close>)
    with False show ?thesis by (simp add: Let_def)
  qed (use Cons.prems in simp)
qed simp

lemma gw_dfs_bounded:
  "prev_cells_of W prev \<noteq> None \<Longrightarrow> gs_expansions st \<le> m \<Longrightarrow> gw_bounded m (gs_expansions st) fuel
     (gw_dfs fuel F W len every m steps before_id prev incoming st)"
proof (induction fuel arbitrary: steps before_id prev incoming st)
  case (Suc fuel)
  let ?st = "st\<lparr>gs_expansions := gs_expansions st + 1\<rparr>"
  obtain cells where cells: "prev_cells_of W prev = Some cells" using Suc.prems by blast
  let ?cands = "legal_cands W (gs_occupied st) (gs_columns st) (want_at len every steps) prev
    incoming cells"
  obtain ordered r where ord: "gw_order F (map (\<lambda>c. (c, cand_score F W ?st prev before_id c)) ?cands)
    (gs_rng st) = (ordered, r)" by fastforce
  show ?case
  proof (cases "gs_expansions st + 1 > m")
    case False
    have "gw_bounded m (gs_expansions st + 1) fuel (try_cands W (want_at len every steps)
        (gw_dfs fuel F W len every m (steps + 1) (Some (pl_block_id prev))) ordered
        (?st\<lparr>gs_rng := r\<rparr>))"
      by (rule try_cands_bounded [OF Suc.IH])
        (use False legal_cands_placeable set_gw_order [OF ord] in auto)
    then show ?thesis using cells ord False bounded_call_Suc by (simp add: Let_def)
  qed (use Suc.prems in \<open>simp add: Let_def\<close>)
qed simp

subsection \<open>From an attempt to \<open>generate\<close>\<close>

definition start_placement :: "string \<Rightarrow> int \<Rightarrow> placement" where
  "start_placement start_id rot =
     \<lparr>pl_block_id = start_id, pl_x = fst walk_origin, pl_y = fst (snd walk_origin),
      pl_z = snd (snd walk_origin), pl_rotation = rot, pl_variant = None\<rparr>"

text \<open>The chains of an attempt that begins with \<open>start_id\<close> at rotation \<open>rot\<close>.\<close>

definition chain_from_start :: "'f gwalker \<Rightarrow> int \<Rightarrow> int \<Rightarrow> string \<Rightarrow> int \<Rightarrow> gcand list \<Rightarrow> bool" where
  "chain_from_start W len every start_id rot cs \<longleftrightarrow>
     (\<exists>cells. map_of (gw_cells W) (start_id, rot, ''ground'') = Some cells \<and>
        g_chain W len every (shift walk_origin ` set cells)
          (count_columns (shift walk_origin ` set cells)) 1 (start_placement start_id rot) None cs)"

lemma variant_kind_origin [simp]: "variant_kind (fst (snd walk_origin)) = ''ground''"
  by (simp add: variant_kind_def walk_origin_def)

lemma gw_outcome_simps [simp]:
  "gw_outcome len (Ret True, st) = GRoute (gs_placements st)"
  "gw_outcome len (Ret False, st) = GFailed (GNoRoute len walk_origin (gs_expansions st))"
  "gw_outcome len (Raise e, st) = GFailed e"
  "gw_outcome len (NoFuel, st) = GOutOfFuel"
  by (simp_all add: gw_outcome_def)

lemma gw_attempt_cases:
  assumes wf: "gw_wf W"
  obtains start_id rot r' res where "start_id \<in> set (gw_starts W)" "0 \<le> rot" "rot < 4"
    and "fst (rng_choice (gw_starts W) r) = Inr start_id"
    and "rot = int (fst (rng_below 4 (snd (rng_choice (gw_starts W) r))))"
    and "gw_attempt F W len every m r = gw_outcome len res"
    and "gw_ok (chain_from_start W len every start_id rot)
      (gw_start_state W start_id rot (the (map_of (gw_cells W) (start_id, rot, ''ground''))) r') res"
    and "gw_bounded (max 0 m) 0 (Suc (nat m)) res"
proof -
  have "gw_starts W \<noteq> []" using wf by (simp add: gw_wf_def)
  then obtain start_id r1 where choice: "rng_choice (gw_starts W) r = (Inr start_id, r1)"
    using rng_choice_total [of "gw_starts W" r] by blast
  have start: "start_id \<in> set (gw_starts W)" using rng_choice_in [OF choice] .
  obtain k r' where k: "rng_below 4 r1 = (k, r')" by fastforce
  have k4: "k < 4" using rng_below_less [of 4 r1] k by simp
  with wf start obtain cells where cells: "map_of (gw_cells W) (start_id, int k, ''ground'') = Some cells"
    by (force simp: gw_wf_def)
  let ?st = "gw_start_state W start_id (int k) cells r'"
  let ?res = "gw_dfs (Suc (nat m)) F W len every m 1 None (start_placement start_id (int k)) None ?st"
  have occ: "gs_occupied ?st = shift walk_origin ` set cells"
    "gs_columns ?st = count_columns (shift walk_origin ` set cells)" "gs_expansions ?st = 0"
    "gs_placements ?st = [start_placement start_id (int k)]"
    by (simp_all add: gw_start_state_def start_placement_def Let_def)
  have "chain_from_start W len every start_id (int k) =
      g_chain W len every (gs_occupied ?st) (gs_columns ?st) 1 (start_placement start_id (int k)) None"
    by (intro ext) (simp add: chain_from_start_def cells occ)
  then have ok: "gw_ok (chain_from_start W len every start_id (int k)) ?st ?res"
    by (simp only: gw_dfs_ok)
  have prev: "prev_cells_of W (start_placement start_id (int k)) \<noteq> None"
    using cells by (simp add: prev_cells_of_def start_placement_def)
  have "gw_bounded (max 0 m) 0 (Suc (nat m)) ?res"
  proof (cases "0 \<le> m")
    case True
    then show ?thesis using gw_dfs_bounded [OF prev, of ?st m "Suc (nat m)"] occ(3)
      by (simp del: gw_dfs.simps)
  qed (simp add: occ Let_def)
  moreover have "gw_attempt F W len every m r = gw_outcome len ?res"
    using cells by (simp add: gw_attempt_def choice k Let_def occ(4) del: gw_dfs.simps)
  moreover have "gw_ok (chain_from_start W len every start_id (int k)) (gw_start_state W start_id (int k)
      (the (map_of (gw_cells W) (start_id, int k, ''ground''))) r') ?res"
    using ok by (simp only: cells option.sel)
  moreover have "fst (rng_choice (gw_starts W) r) = Inr start_id"
    "int k = int (fst (rng_below 4 (snd (rng_choice (gw_starts W) r))))" "0 \<le> int k" "int k < 4"
    using choice k k4 by simp_all
  ultimately show thesis using that [OF start] by blast
qed

lemma gw_attempt_route:
  assumes "gw_wf W" "gw_attempt F W len every m r = GRoute route"
  obtains start_id rot cs where "start_id \<in> set (gw_starts W)" "0 \<le> rot" "rot < 4"
    and "route = start_placement start_id rot # map g_place cs"
    and "chain_from_start W len every start_id rot cs"
proof (rule gw_attempt_cases [OF assms(1), of r F len every m])
  fix start_id rot r' res
  assume s: "start_id \<in> set (gw_starts W)" "0 \<le> rot" "rot < 4"
    and g: "gw_attempt F W len every m r = gw_outcome len res"
    and ok: "gw_ok (chain_from_start W len every start_id rot)
      (gw_start_state W start_id rot (the (map_of (gw_cells W) (start_id, rot, ''ground''))) r') res"
  have "\<exists>cs. route = start_placement start_id rot # map g_place cs \<and>
      chain_from_start W len every start_id rot cs"
    using g ok assms(2)
    by (cases res rule: search_result_cases) (auto simp: gw_start_state_def start_placement_def Let_def)
  with s that show thesis by blast
qed

lemma gw_attempt_total:
  assumes "gw_wf W"
  shows "(\<exists>route. gw_attempt F W len every m r = GRoute route) \<or>
    (\<exists>e. is_dead_end e \<and> gw_attempt F W len every m r = GFailed e)"
proof (rule gw_attempt_cases [OF assms, of r F len every m])
  fix res
  assume "gw_attempt F W len every m r = gw_outcome len res" "gw_bounded (max 0 m) 0 (Suc (nat m)) res"
  then show ?thesis
    by (cases res rule: search_result_cases) (auto simp: is_dead_end_def max_def split: if_splits)
qed

lemma checked_attempt_simps [simp]:
  "checked_attempt W (GFailed e) = GFailed e"
  "checked_attempt W (GRoute route) =
     (if missing_prefixes W route \<noteq> [] then GFailed (GMissing (missing_prefixes W route)) else GRoute route)"
  by (simp_all add: checked_attempt_def)

lemma gw_restarts_route:
  "gw_restarts F W len every m attempts rs e = GRoute route \<Longrightarrow>
     \<exists>r \<in> set rs. gw_attempt F W len every m r = GRoute route \<and> missing_prefixes W route = []"
proof (induction rs arbitrary: e)
  case (Cons r rs)
  then show ?case
    by (cases "gw_attempt F W len every m r") (auto simp: checked_attempt_def split: if_splits)
qed simp

lemma gw_restarts_total:
  assumes "gw_wf W"
  shows "(\<exists>route. gw_restarts F W len every m attempts rs e = GRoute route) \<or>
    (\<exists>e'. gw_restarts F W len every m attempts rs e = GFailed (GExhausted len attempts e'))"
proof (induction rs arbitrary: e)
  case (Cons r rs)
  from gw_attempt_total [OF assms, of F len every m r] show ?case
  proof (elim disjE exE conjE)
    fix route
    assume "gw_attempt F W len every m r = GRoute route"
    with Cons [of "Some (GMissing (missing_prefixes W route))"] show ?thesis
      by (cases "missing_prefixes W route = []") (auto simp: is_dead_end_def)
  next
    fix e'
    assume "is_dead_end e'" "gw_attempt F W len every m r = GFailed e'"
    with Cons [of "Some e'"] show ?thesis by simp
  qed
qed simp

subsection \<open>A small instance\<close>

text \<open>A grammar with two moves over the blocks of \<open>demo_catalogue\<close>, used by the witnesses.\<close>

definition demo_move :: "string \<Rightarrow> move" where
  "demo_move b = \<lparr>mv_block = b, mv_offset = (0, 0, 1), mv_rel_rotation = 0, mv_map_count = 100,
     mv_pair_count = 100, mv_clip_matched = True\<rparr>"

definition demo_grammar :: grammar where
  "demo_grammar = \<lparr>gr_moves = [(''RoadTechStart'', [demo_move ''RoadTechStraight'']),
     (''RoadTechStraight'', [demo_move ''RoadTechFinish''])], gr_environment = ''''\<rparr>"

definition demo_config :: "rat gw_config" where
  "demo_config = \<lparr>gc_min_maps = 20, gc_allow_jumps = False, gc_gap_min_maps = None,
     gc_block_bias = [], gc_route_only = True, gc_require_prefixes = [''RoadTech''],
     gc_route_model = None, gc_jump_bias = 0, gc_driven_prior = None, gc_driven_weight = 1\<rparr>"

definition demo_gw :: "rat gwalker" where
  "demo_gw = projr (gw_init demo_catalogue demo_grammar demo_ids demo_config)"

definition demo_gw_route :: "placement list" where
  "demo_gw_route = map (\<lambda>(b, z).
     \<lparr>pl_block_id = b, pl_x = 24, pl_y = 9, pl_z = z, pl_rotation = 0, pl_variant = None\<rparr>)
     [(''RoadTechStart'', 24), (''RoadTechStraight'', 25), (''RoadTechFinish'', 26)]"

lemma demo_gw_init: "gw_init demo_catalogue demo_grammar demo_ids demo_config = Inr demo_gw"
  by code_simp

lemma gw_generate_demo:
  "gw_generate rat_fops demo_gw 2 0 10 3 (\<lambda>_. demo_rng) = GRoute demo_gw_route"
  by code_simp

lemma gw_attempt_demo:
  "gw_attempt rat_fops demo_gw 3 0 10 demo_rng = GFailed (GNoRoute 3 walk_origin 2)"
  by code_simp

definition demo_chain :: "gcand list" where
  "demo_chain = map (\<lambda>(b, z). \<lparr>cd_move = demo_move b, cd_anchor = (24, 9, z), cd_rotation = 0,
     cd_footprint = [(24, 9, z)]\<rparr>) [(''RoadTechStraight'', 25), (''RoadTechFinish'', 26)]"

lemma demo_cells: "map_of (gw_cells demo_gw) (''RoadTechStart'', 0, ''ground'') = Some [(0, 0, 0)]"
  by code_simp

lemma demo_chain_ok: "chain_from_start demo_gw 2 0 ''RoadTechStart'' 0 demo_chain"
proof -
  have "list_ex (\<lambda>c. c = hd demo_chain) (legal_cands demo_gw {(24, 9, 24)} (count_columns {(24, 9, 24)})
      (want_at 2 0 1) (start_placement ''RoadTechStart'' 0) None [(0, 0, 0)])"
    by code_simp
  moreover have "list_ex (\<lambda>c. c = demo_chain ! 1) (legal_cands demo_gw {(24, 9, 24), (24, 9, 25)}
      (bump 1 {(24, 25)} (count_columns {(24, 9, 24)}))
      (want_at 2 0 2) (g_place (hd demo_chain)) (Some (reverse_offset (demo_move ''RoadTechStraight'')))
      [(0, 0, 0)])"
    by code_simp
  moreover have "prev_cells_of demo_gw (g_place (hd demo_chain)) = Some [(0, 0, 0)]"
    "prev_cells_of demo_gw (start_placement ''RoadTechStart'' 0) = Some [(0, 0, 0)]"
    by code_simp+
  moreover have "shift walk_origin (0, 0, 0) = (24, 9, 24)" by code_simp
  ultimately show ?thesis
    by (simp add: chain_from_start_def demo_cells demo_chain_def g_legal_def list_ex_iff cols_of_def
        want_at_def insert_commute)
qed

text \<open>
  C3. A route of the grammar walker is a legal chain: it begins with a start block of the pool at
  the origin, every further placement passes all guards of the search in the state left by the
  ones before it (see the properties of \<open>g_chain\<close>), and every required surface is visited.
\<close>

theorem gw_generate_sound:
  assumes "gw_init cat g pool conf = Inr W"
    and "gw_generate F W len every m attempts rngs = GRoute route"
  shows "\<exists>start_id rot cs. start_id \<in> set (gw_starts W) \<and> 0 \<le> rot \<and> rot < 4 \<and>
    route = start_placement start_id rot # map g_place cs \<and>
    chain_from_start W len every start_id rot cs \<and>
    (\<forall>p \<in> set (gw_require W). \<exists>pl \<in> set route. startswith (pl_block_id pl) p)"
proof -
  note wf = gw_init_wf [OF assms(1)]
  obtain r where r: "gw_attempt F W len every m r = GRoute route" "missing_prefixes W route = []"
    using gw_restarts_route assms(2) unfolding gw_generate_def by blast
  have "\<forall>p \<in> set (gw_require W). \<exists>pl \<in> set route. startswith (pl_block_id pl) p"
    using r(2) by (simp add: missing_prefixes_def filter_empty_conv)
  then show ?thesis by (rule_tac gw_attempt_route [OF wf r(1)]) blast
qed

theorem gw_generate_sound_witness:
  "\<exists>start_id rot cs. demo_gw_route = start_placement start_id rot # map g_place cs \<and>
     chain_from_start demo_gw 2 0 start_id rot cs"
  using gw_generate_sound [OF demo_gw_init gw_generate_demo] by blast

text \<open>
  An attempt that ends with "no route found" was exhaustive, in spite of the weights, the two
  tiers and the random order: from the start block and the rotation it drew, no legal chain of the
  requested length exists.
\<close>

theorem gw_attempt_complete:
  assumes "gw_init cat g pool conf = Inr W"
    and "gw_attempt F W len every m r = GFailed (GNoRoute len' origin n)"
  shows "\<exists>start_id rot. fst (rng_choice (gw_starts W) r) = Inr start_id \<and>
    rot = int (fst (rng_below 4 (snd (rng_choice (gw_starts W) r)))) \<and>
    (\<nexists>cs. chain_from_start W len every start_id rot cs)"
proof (rule gw_attempt_cases [OF gw_init_wf [OF assms(1)], of r F len every m])
  fix start_id rot r' res
  assume s: "fst (rng_choice (gw_starts W) r) = Inr start_id"
      "rot = int (fst (rng_below 4 (snd (rng_choice (gw_starts W) r))))"
    and g: "gw_attempt F W len every m r = gw_outcome len res"
    and ok: "gw_ok (chain_from_start W len every start_id rot)
      (gw_start_state W start_id rot (the (map_of (gw_cells W) (start_id, rot, ''ground''))) r') res"
    and b: "gw_bounded (max 0 m) 0 (Suc (nat m)) res"
  have "\<nexists>cs. chain_from_start W len every start_id rot cs"
    using g ok b assms(2) by (cases res rule: search_result_cases) auto
  with s show ?thesis by blast
qed

theorem gw_attempt_complete_witness:
  "\<exists>start_id rot. fst (rng_choice (gw_starts demo_gw) demo_rng) = Inr start_id \<and>
     (\<nexists>cs. chain_from_start demo_gw 3 0 start_id rot cs)"
  using gw_attempt_complete [OF demo_gw_init gw_attempt_demo] by blast

text \<open>
  \<open>generate\<close> is total: with a constructed walker it returns a route or, after all attempts,
  raises the dead end that names the requested length and the number of attempts. No look-up in
  its tables fails, and the recursion never exceeds the expansion budget.
\<close>

theorem gw_generate_total:
  assumes "gw_init cat g pool conf = Inr W"
  shows "(\<exists>route. gw_generate F W len every m attempts rngs = GRoute route) \<or>
    (\<exists>e. gw_generate F W len every m attempts rngs = GFailed (GExhausted len attempts e))"
  unfolding gw_generate_def by (rule gw_restarts_total [OF gw_init_wf [OF assms]])

theorem gw_generate_total_witness:
  "gw_generate rat_fops demo_gw 9 3 7 2 (\<lambda>_. demo_rng) \<noteq> GOutOfFuel"
  using gw_generate_total [OF demo_gw_init, of rat_fops 9 3 7 2 "\<lambda>_. demo_rng"] by auto

subsection \<open>What a legal chain looks like\<close>

definition attested :: "'f gwalker \<Rightarrow> string \<Rightarrow> move \<Rightarrow> bool" where
  "attested W block_id m \<longleftrightarrow>
     mv_block m \<in> gw_allow W \<and> gw_min_maps W \<le> mv_map_count m \<and>
     (m \<in> set (moves_of (gw_grammar W) block_id) \<and> \<not> is_overlay m \<or>
      (\<exists>model. gw_model W = Some model \<and> gw_allow_jumps W \<and>
         m \<in> jump_move ` set (get_or (map_of (rm_jumps model) block_id) [])))"

definition pl_footprint :: "'f gwalker \<Rightarrow> placement \<Rightarrow> cell list" where
  "pl_footprint W p = map (shift (pl_cell p)) (get_or (prev_cells_of W p) [])"

text \<open>One step of the route, from placement \<open>a\<close> to placement \<open>b\<close>.\<close>

definition step_ok :: "'f gwalker \<Rightarrow> placement \<Rightarrow> placement \<Rightarrow> bool" where
  "step_ok W a b \<longleftrightarrow> (\<exists>m. attested W (pl_block_id a) m \<and> mv_block m = pl_block_id b \<and>
     apply_move m (pl_cell a) (pl_rotation a) = (pl_cell b, pl_rotation b) \<and>
     (is_gap m \<longleftrightarrow> \<not> touches (set (pl_footprint W a)) (pl_footprint W b)) \<and>
     (gw_is_directional W (pl_block_id b) \<longrightarrow> faces_travel (pl_rotation b) (sub (pl_cell b) (pl_cell a))))"

fun no_uturn :: "placement list \<Rightarrow> bool" where
  "no_uturn (a # b # c # ps) \<longleftrightarrow> pl_cell c \<noteq> pl_cell a \<and> no_uturn (b # c # ps)"
| "no_uturn ps \<longleftrightarrow> True"

lemma clip_first_subset: "set (clip_first W out) \<subseteq> set out"
  by (auto simp: clip_first_def Let_def)

lemma grammar_moves_facts:
  "m \<in> set (grammar_moves W block_id want incoming) \<Longrightarrow>
     attested W block_id m \<and> waypoint_is W (mv_block m) want \<and> incoming \<noteq> Some (mv_offset m)"
  by (auto simp: grammar_moves_def successors_def attested_def)

lemma jump_move_simps [simp]:
  "mv_block (jump_move j) = jm_block j" "mv_offset (jump_move j) = jm_offset j"
  "mv_map_count (jump_move j) = jm_map_count j"
  by (simp_all add: jump_move_def)

lemma mined_jumps_facts:
  "m \<in> set (map jump_move (mined_jumps W block_id want incoming)) \<Longrightarrow>
     attested W block_id m \<and> waypoint_is W (mv_block m) want \<and> incoming \<noteq> Some (mv_offset m)"
  by (cases "gw_model W") (auto simp: mined_jumps_def jumps_from_def attested_def split: if_splits)

lemma gw_candidates_facts:
  "m \<in> set (gw_candidates W block_id want incoming) \<Longrightarrow>
     attested W block_id m \<and> waypoint_is W (mv_block m) want \<and> incoming \<noteq> Some (mv_offset m)"
  unfolding gw_candidates_def set_append
  using grammar_moves_facts mined_jumps_facts clip_first_subset by blast

lemma gw_moves_facts:
  assumes "m \<in> set (gw_moves W block_id want incoming)"
  shows "attested W block_id m" "incoming \<noteq> Some (mv_offset m)"
    and "want = ''Finish'' \<Longrightarrow> waypoint_is W (mv_block m) want"
proof -
  from assms obtain want' where "m \<in> set (gw_candidates W block_id want' incoming)"
    and "want' = want \<or> want = ''Checkpoint''"
    by (auto simp: gw_moves_def Let_def split: if_splits)
  with gw_candidates_facts [of m W block_id want' incoming]
  show "attested W block_id m" "incoming \<noteq> Some (mv_offset m)"
    "want = ''Finish'' \<Longrightarrow> waypoint_is W (mv_block m) want" by auto
qed

lemma g_place_simps [simp]:
  "pl_block_id (g_place c) = mv_block (cd_move c)" "pl_cell (g_place c) = cd_anchor c"
  "pl_rotation (g_place c) = cd_rotation c" "pl_y (g_place c) = fst (snd (cd_anchor c))"
  by (simp_all add: g_place_def pl_cell_def)

lemma g_legal_facts:
  assumes "g_legal W occ cols want prev incoming c"
  shows "cd_move c \<in> set (gw_moves W (pl_block_id prev) want incoming)"
    and "apply_move (cd_move c) (pl_cell prev) (pl_rotation prev) = (cd_anchor c, cd_rotation c)"
    and "pl_footprint W (g_place c) = cd_footprint c"
    and "in_bounds (cd_footprint c)" "set (cd_footprint c) \<inter> occ = {}"
    and "step_ok W prev (g_place c)"
    and "\<forall>col \<in> cols_of (cd_footprint c). cols col < MAX_LEVELS_PER_COLUMN"
proof -
  from assms obtain cells where cells: "prev_cells_of W prev = Some cells"
    and m: "cd_move c \<in> set (gw_moves W (pl_block_id prev) want incoming)"
    and c: "move_cand W occ cols prev (shift (pl_cell prev) ` set cells) (cd_move c) = Some c"
    by (auto simp: g_legal_def legal_cands_def set_map_filter move_cand_iff)
  note c' = c [unfolded move_cand_iff]
  from m show "cd_move c \<in> set (gw_moves W (pl_block_id prev) want incoming)" .
  from c' show "apply_move (cd_move c) (pl_cell prev) (pl_rotation prev) = (cd_anchor c, cd_rotation c)"
    "in_bounds (cd_footprint c)" "set (cd_footprint c) \<inter> occ = {}"
    "\<forall>col \<in> cols_of (cd_footprint c). cols col < MAX_LEVELS_PER_COLUMN" by blast+
  from c' show fp: "pl_footprint W (g_place c) = cd_footprint c"
    by (auto simp: pl_footprint_def prev_cells_of_def get_or_def)
  have "set (pl_footprint W prev) = shift (pl_cell prev) ` set cells"
    using cells by (simp add: pl_footprint_def get_or_def)
  with c' fp show "step_ok W prev (g_place c)"
    unfolding step_ok_def using gw_moves_facts(1) [OF m] by (auto intro!: exI [of _ "cd_move c"])
qed

lemma g_chain_length:
  "g_chain W len every occ cols steps prev incoming cs \<Longrightarrow> int (length cs) = max 1 (len - steps + 1)"
proof (induction cs arbitrary: occ cols steps prev incoming)
  case (Cons c cs)
  show ?case
  proof (cases "len \<le> steps")
    case True
    with Cons.prems show ?thesis by (auto simp: want_at_def)
  next
    case False
    with Cons show ?thesis by (fastforce simp: want_at_def max_def split: if_splits)
  qed
qed simp

lemma g_chain_finish:
  "g_chain W len every occ cols steps prev incoming cs \<Longrightarrow>
     waypoint_is W (mv_block (cd_move (last cs))) ''Finish''"
proof (induction cs arbitrary: occ cols steps prev incoming)
  case (Cons c cs)
  show ?case
  proof (cases "want_at len every steps = ''Finish''")
    case True
    then show ?thesis
      using Cons.prems gw_moves_facts(3) [OF g_legal_facts(1)] by fastforce
  next
    case False
    with Cons.prems have "g_chain W len every (occ \<union> set (cd_footprint c))
      (bump 1 (cols_of (cd_footprint c)) cols) (steps + 1) (g_place c)
      (Some (reverse_offset (cd_move c))) cs" by simp
    with Cons.IH [OF this] show ?thesis by (cases cs) auto
  qed
qed simp

lemma g_chain_cells:
  "g_chain W len every occ cols steps prev incoming cs \<Longrightarrow>
     (\<forall>p \<in> set (map g_place cs). in_bounds (pl_footprint W p) \<and> set (pl_footprint W p) \<inter> occ = {}) \<and>
     sorted_wrt (\<lambda>p q. set (pl_footprint W p) \<inter> set (pl_footprint W q) = {}) (map g_place cs)"
proof (induction cs arbitrary: occ cols steps prev incoming)
  case (Cons c cs)
  then have legal: "g_legal W occ cols (want_at len every steps) prev incoming c" by simp
  note facts = g_legal_facts(3-5) [OF legal]
  show ?case
  proof (cases "cs = []")
    case False
    with Cons.prems have "g_chain W len every (occ \<union> set (cd_footprint c))
      (bump 1 (cols_of (cd_footprint c)) cols) (steps + 1) (g_place c)
      (Some (reverse_offset (cd_move c))) cs" by (simp split: if_splits)
    from Cons.IH [OF this] facts show ?thesis by (simp add: Int_Un_distrib) blast
  qed (use facts in simp)
qed simp

lemma g_chain_steps:
  "g_chain W len every occ cols steps prev incoming cs \<Longrightarrow>
     (\<forall>(a, b) \<in> set (steps_of (prev # map g_place cs)). step_ok W a b)"
proof (induction cs arbitrary: occ cols steps prev incoming)
  case (Cons c cs)
  then have legal: "g_legal W occ cols (want_at len every steps) prev incoming c" by simp
  show ?case
  proof (cases "cs = []")
    case False
    with Cons.prems have "g_chain W len every (occ \<union> set (cd_footprint c))
      (bump 1 (cols_of (cd_footprint c)) cols) (steps + 1) (g_place c)
      (Some (reverse_offset (cd_move c))) cs" by (simp split: if_splits)
    from Cons.IH [OF this] g_legal_facts(6) [OF legal] show ?thesis by simp
  qed (use g_legal_facts(6) [OF legal] in simp)
qed simp

lemma g_chain_columns:
  "g_chain W len every occ cols steps prev incoming cs \<Longrightarrow> i < length cs \<Longrightarrow>
     col \<in> cols_of (cd_footprint (cs ! i)) \<Longrightarrow>
     cols col + int (length (filter (\<lambda>c. col \<in> cols_of (cd_footprint c)) (take i cs))) <
       MAX_LEVELS_PER_COLUMN"
proof (induction cs arbitrary: occ cols steps prev incoming i)
  case (Cons c cs)
  then have legal: "g_legal W occ cols (want_at len every steps) prev incoming c" by simp
  show ?case
  proof (cases i)
    case 0
    then show ?thesis using Cons.prems g_legal_facts(7) [OF legal] by simp
  next
    case (Suc k)
    with Cons.prems have "g_chain W len every (occ \<union> set (cd_footprint c))
      (bump 1 (cols_of (cd_footprint c)) cols) (steps + 1) (g_place c)
      (Some (reverse_offset (cd_move c))) cs" by (auto split: if_splits)
    from Cons.IH [OF this, of k] Cons.prems Suc show ?thesis by (auto simp: bump_def split: if_splits)
  qed
qed simp

lemma rotate_vector_mod4 [simp]: "rotate_vector v (d mod 4) = rotate_vector v d"
  by (cases v) (simp add: rotation_defs)

lemma reverse_offset_undoes:
  assumes "apply_move m anchor rot = (anchor', rot')"
  shows "shift anchor' (rotate_vector (reverse_offset m) rot') = anchor"
proof -
  obtain x y z where v: "rotate_vector (mv_offset m) rot = (x, y, z)" by (metis prod_cases3)
  define n where "n = (- fst (mv_offset m), - fst (snd (mv_offset m)), - snd (snd (mv_offset m)))"
  have "rotate_vector n rot = (- x, - y, - z)"
    using v by (cases "mv_offset m"; cases rot rule: mod4_cases) (auto simp: rotation_defs n_def)
  moreover have "rotate_vector (reverse_offset m) rot' = rotate_vector n (rot' + (4 - mv_rel_rotation m))"
    by (simp only: reverse_offset_def n_def [symmetric] rotate_vector_mod4 rotate_vector_add)
  moreover have "(rot' + (4 - mv_rel_rotation m)) mod 4 = rot mod 4"
    using assms by (auto simp: apply_move_def) presburger
  ultimately have "rotate_vector (reverse_offset m) rot' = (- x, - y, - z)"
    by (metis rotate_vector_mod4)
  then show ?thesis using assms v by (cases anchor) (auto simp: apply_move_def)
qed

lemma g_legal_no_uturn:
  assumes "g_legal W occ cols want prev (Some incoming) c"
  shows "cd_anchor c \<noteq> shift (pl_cell prev) (rotate_vector incoming (pl_rotation prev))"
proof
  assume eq: "cd_anchor c = shift (pl_cell prev) (rotate_vector incoming (pl_rotation prev))"
  have "cd_anchor c = shift (pl_cell prev) (rotate_vector (mv_offset (cd_move c)) (pl_rotation prev))"
    using g_legal_facts(2) [OF assms] by (simp add: apply_move_def)
  with eq have "mv_offset (cd_move c) = incoming" using vec.turn_inj by simp
  with gw_moves_facts(2) [OF g_legal_facts(1) [OF assms]] show False by simp
qed

lemma g_chain_no_uturn:
  "g_chain W len every occ cols steps prev incoming cs \<Longrightarrow> no_uturn (prev # map g_place cs)"
proof (induction cs arbitrary: occ cols steps prev incoming)
  case (Cons c cs)
  then have legal: "g_legal W occ cols (want_at len every steps) prev incoming c" by simp
  show ?case
  proof (cases cs)
    case (Cons c' cs')
    with Cons.prems have chain: "g_chain W len every (occ \<union> set (cd_footprint c))
      (bump 1 (cols_of (cd_footprint c)) cols) (steps + 1) (g_place c)
      (Some (reverse_offset (cd_move c))) cs" by (simp split: if_splits)
    then have "cd_anchor c' \<noteq> shift (cd_anchor c) (rotate_vector (reverse_offset (cd_move c)) (cd_rotation c))"
      using g_legal_no_uturn Cons by fastforce
    then have "cd_anchor c' \<noteq> pl_cell prev"
      using reverse_offset_undoes [OF g_legal_facts(2) [OF legal]] by simp
    with Cons.IH [OF chain] Cons show ?thesis by simp
  qed simp
qed simp

text \<open>
  C35. What a route of the grammar walker looks like: no two placements share a cell, all but the
  start lie inside the build bounds, there are \<open>max 2 (length + 1)\<close> of them, the last is a finish,
  and each step from a placement to the next is a move attested by the corpus (by enough maps,
  into the allowed vocabulary) that touches its predecessor unless it is a gap, does not touch it
  if it is one, and points along the travel if the block has an arrow.
\<close>

theorem gw_route_shape:
  assumes "gw_init cat g pool conf = Inr W"
    and "gw_generate F W len every m attempts rngs = GRoute route"
  shows "sorted_wrt (\<lambda>p q. set (pl_footprint W p) \<inter> set (pl_footprint W q) = {}) route \<and>
    (\<forall>p \<in> set (tl route). in_bounds (pl_footprint W p)) \<and>
    int (length route) = max 2 (len + 1) \<and>
    waypoint_is W (pl_block_id (last route)) ''Finish'' \<and>
    (\<forall>(a, b) \<in> set (steps_of route). step_ok W a b)"
proof -
  note wf = gw_init_wf [OF assms(1)]
  obtain r where r: "gw_attempt F W len every m r = GRoute route"
    using gw_restarts_route assms(2) unfolding gw_generate_def by blast
  obtain start_id rot cs where route: "route = start_placement start_id rot # map g_place cs"
    and chain: "chain_from_start W len every start_id rot cs"
    by (rule gw_attempt_route [OF wf r])
  from chain obtain cells where cells: "map_of (gw_cells W) (start_id, rot, ''ground'') = Some cells"
    and ch: "g_chain W len every (shift walk_origin ` set cells)
      (count_columns (shift walk_origin ` set cells)) 1 (start_placement start_id rot) None cs"
    by (auto simp: chain_from_start_def)
  have "set (pl_footprint W (start_placement start_id rot)) = shift walk_origin ` set cells"
    using cells by (simp add: pl_footprint_def prev_cells_of_def start_placement_def pl_cell_def get_or_def)
  moreover have "cs \<noteq> []" using ch by auto
  moreover have "sorted_wrt (\<lambda>p q. set (pl_footprint W p) \<inter> set (pl_footprint W q) = {}) route"
    using g_chain_cells [OF ch] calculation(1) unfolding route sorted_wrt.simps by blast
  moreover have "\<forall>p \<in> set (tl route). in_bounds (pl_footprint W p)"
    using g_chain_cells [OF ch] by (simp add: route)
  ultimately show ?thesis
    using g_chain_length [OF ch] g_chain_finish [OF ch] g_chain_steps [OF ch]
    by (simp add: route last_map)
qed

theorem gw_route_shape_witness:
  "step_ok demo_gw (hd demo_gw_route) (hd (tl demo_gw_route)) \<and>
   set (pl_footprint demo_gw (hd demo_gw_route)) \<inter> set (pl_footprint demo_gw (last demo_gw_route)) = {}"
  using gw_route_shape [OF demo_gw_init gw_generate_demo] by (simp add: demo_gw_route_def)

text \<open>
  A route never stacks more than two levels on a column: at every placement after the start,
  each column it covers carries fewer than two levels, counting the cells of the start block and
  every earlier placement once.
\<close>

theorem gw_route_columns:
  assumes "chain_from_start W len every start_id rot cs"
    and "map_of (gw_cells W) (start_id, rot, ''ground'') = Some cells"
    and "i < length cs" and "col \<in> cols_of (cd_footprint (cs ! i))"
  shows "count_columns (shift walk_origin ` set cells) col +
    int (length (filter (\<lambda>c. col \<in> cols_of (cd_footprint c)) (take i cs))) < 2"
proof -
  from assms(1,2) have "g_chain W len every (shift walk_origin ` set cells)
      (count_columns (shift walk_origin ` set cells)) 1 (start_placement start_id rot) None cs"
    by (auto simp: chain_from_start_def)
  from g_chain_columns [OF this assms(3,4)] show ?thesis by (simp add: MAX_LEVELS_PER_COLUMN_def)
qed

theorem gw_route_columns_witness:
  "count_columns (shift walk_origin ` set [(0, 0, 0)]) (24, 26) +
     int (length (filter (\<lambda>c. (24, 26) \<in> cols_of (cd_footprint c)) (take 1 demo_chain))) < 2"
  by (rule gw_route_columns [OF demo_chain_ok demo_cells]) (simp_all add: demo_chain_def cols_of_def)

text \<open>
  No U-turns: \<open>_reverse_offset\<close> is the offset that leads back to where a move came from, in
  the frame of the block it led to, and consequently no route returns to the anchor it left two
  placements before.
\<close>

theorem gw_no_uturn:
  assumes "gw_init cat g pool conf = Inr W"
    and "gw_generate F W len every m attempts rngs = GRoute route"
  shows "no_uturn route \<and>
    (\<forall>mv anchor rot. case apply_move mv anchor rot of (anchor', rot') \<Rightarrow>
       shift anchor' (rotate_vector (reverse_offset mv) rot') = anchor)"
proof -
  note wf = gw_init_wf [OF assms(1)]
  obtain r where r: "gw_attempt F W len every m r = GRoute route"
    using gw_restarts_route assms(2) unfolding gw_generate_def by blast
  obtain start_id rot cs where route: "route = start_placement start_id rot # map g_place cs"
    and chain: "chain_from_start W len every start_id rot cs"
    by (rule gw_attempt_route [OF wf r])
  then have "no_uturn route" by (auto simp: chain_from_start_def dest: g_chain_no_uturn)
  then show ?thesis by (simp split: prod.split add: reverse_offset_undoes)
qed

theorem gw_no_uturn_witness: "no_uturn demo_gw_route"
  using gw_no_uturn [OF demo_gw_init gw_generate_demo] by blast

end
