(* ===== verification/Supports.thy ===== *)
theory Supports
  imports Clip_Walker
begin

section \<open>Support pillars\<close>

text \<open>
  Model of \<^verbatim>\<open>src/src/generation/supports.py\<close>: the harvested pillar table, the cells of a list
  of placements, and \<open>build_supports\<close>, which walks the elevated blocks bottom-up and adds a
  pillar for every slot of every level unless its cells are taken. Main results: pillars never
  intersect the route or each other, they stand between the ground and the block they support,
  and none is left out unless something is in its way.
\<close>

subsection \<open>The pillar table\<close>

record pillar_slot =
  ps_dx :: int
  ps_dz :: int
  ps_pillar :: string
  ps_variant :: int
  ps_direction :: int

record pillar_rule =
  pr_pattern :: "pillar_slot list"
  pr_uniform :: bool

record pillar_rules =
  prs_rules :: "(string \<times> pillar_rule) list"
  prs_ground_y :: int

record raw_slot =
  rs_dx :: "int option"
  rs_dz :: "int option"
  rs_pillar :: "string option"
  rs_variant :: "int option"
  rs_dir :: "int option"

record raw_rule =
  rr_pattern :: "raw_slot list option"
  rr_uniform :: "bool option"

record pillar_doc =
  pd_schema :: "string option"
  pd_ground_y :: "int option"
  pd_rules :: "(string \<times> raw_rule) list option"

definition PILLAR_SCHEMA :: string where "PILLAR_SCHEMA = ''pillar_rules_v3''"

definition parse_slot :: "raw_slot \<Rightarrow> py_error + pillar_slot" where
  "parse_slot s =
     (case (rs_dx s, rs_dz s, rs_pillar s, rs_variant s, rs_dir s) of
        (Some dx, Some dz, Some pillar, Some variant, Some dir) \<Rightarrow>
          Inr \<lparr>ps_dx = dx, ps_dz = dz, ps_pillar = pillar, ps_variant = variant, ps_direction = dir\<rparr>
      | _ \<Rightarrow> Inl KeyError)"

fun parse_all :: "('a \<Rightarrow> 'e + 'b) \<Rightarrow> 'a list \<Rightarrow> 'e + 'b list" where
  "parse_all f [] = Inr []"
| "parse_all f (x # xs) =
     (case f x of
        Inl e \<Rightarrow> Inl e
      | Inr y \<Rightarrow> (case parse_all f xs of Inl e \<Rightarrow> Inl e | Inr ys \<Rightarrow> Inr (y # ys)))"

definition parse_rule :: "string \<times> raw_rule \<Rightarrow> py_error + (string \<times> pillar_rule)" where
  "parse_rule kv =
     (case parse_all parse_slot (get_or (rr_pattern (snd kv)) []) of
        Inl e \<Rightarrow> Inl e
      | Inr slots \<Rightarrow> Inr (fst kv, \<lparr>pr_pattern = slots, pr_uniform = get_or (rr_uniform (snd kv)) True\<rparr>))"

definition pillar_rules_load :: "pillar_doc \<Rightarrow> py_error + pillar_rules" where
  "pillar_rules_load doc =
     (if pd_schema doc \<noteq> Some PILLAR_SCHEMA then Inl ValueError
      else case parse_all parse_rule (get_or (pd_rules doc) []) of
          Inl e \<Rightarrow> Inl e
        | Inr rules \<Rightarrow> Inr \<lparr>prs_rules = rules, prs_ground_y = get_or (pd_ground_y doc) GROUND_Y\<rparr>)"

subsection \<open>Cells\<close>

definition block_footprint :: "catalogue \<Rightarrow> string \<Rightarrow> cell \<Rightarrow> int \<Rightarrow> cell list" where
  "block_footprint cat block_id anchor rotation =
     (case map_of cat block_id of
        None \<Rightarrow> []
      | Some block \<Rightarrow>
          (case block_variant_of block ''ground'' 0 of
             None \<Rightarrow> []
           | Some v \<Rightarrow> map (\<lambda>u. shift anchor (rotate_offset (bu_offset u) rotation (bv_size v)))
               (bv_units v)))"

definition placement_footprint :: "catalogue \<Rightarrow> placement \<Rightarrow> cell list" where
  "placement_footprint cat p =
     block_footprint cat (pl_block_id p) (pl_x p, pl_y p, pl_z p) (pl_rotation p)"

definition route_cells :: "placement list \<Rightarrow> catalogue \<Rightarrow> cell set" where
  "route_cells placements cat = (\<Union>p \<in> set placements. set (placement_footprint cat p))"

subsection \<open>Building the pillars\<close>

record support_state =
  sp_supports :: "placement list"
  sp_occupied :: "cell set"

definition road_size :: "catalogue \<Rightarrow> string \<Rightarrow> cell" where
  "road_size cat block_id =
     (case map_of cat block_id of
        None \<Rightarrow> (1, 1, 1)
      | Some road \<Rightarrow>
          (case block_variant_of road ''ground'' 0 of None \<Rightarrow> (1, 1, 1) | Some v \<Rightarrow> bv_size v))"

text \<open>The pillar of one slot at one level, or \<open>None\<close> when the pillar block has no cells.\<close>

definition slot_pillar :: "catalogue \<Rightarrow> placement \<Rightarrow> int \<Rightarrow> pillar_slot \<Rightarrow> placement option" where
  "slot_pillar cat p y slot =
     (let srot = (ps_direction slot + pl_rotation p) mod 4;
          lcells = block_footprint cat (ps_pillar slot) (ps_dx slot, 0, ps_dz slot) (ps_direction slot)
      in if lcells = [] then None
         else let moved = map (\<lambda>c. rotate_offset (fst c, 0, snd (snd c)) (pl_rotation p)
                    (road_size cat (pl_block_id p))) lcells
           in Some \<lparr>pl_block_id = ps_pillar slot,
                    pl_x = pl_x p + Min (set (map fst moved)),
                    pl_y = y,
                    pl_z = pl_z p + Min (set (map (\<lambda>c. snd (snd c)) moved)),
                    pl_rotation = srot, pl_variant = Some (ps_variant slot)\<rparr>)"

definition add_pillar :: "catalogue \<Rightarrow> placement \<Rightarrow> support_state \<Rightarrow> support_state" where
  "add_pillar cat pillar st =
     (let want = placement_footprint cat pillar
      in if want = [] \<or> (\<exists>c \<in> set want. c \<in> sp_occupied st) then st
         else st\<lparr>sp_supports := sp_supports st @ [pillar],
                 sp_occupied := sp_occupied st \<union> set want\<rparr>)"

definition add_slot :: "catalogue \<Rightarrow> placement \<Rightarrow> int \<Rightarrow> pillar_slot \<Rightarrow> support_state \<Rightarrow> support_state" where
  "add_slot cat p y slot st =
     (case slot_pillar cat p y slot of None \<Rightarrow> st | Some pillar \<Rightarrow> add_pillar cat pillar st)"

definition base_y :: "cell list \<Rightarrow> int" where
  "base_y own = Min (set (map (\<lambda>c. fst (snd c)) own))"

definition support_block :: "catalogue \<Rightarrow> pillar_rules \<Rightarrow> int \<Rightarrow> placement \<Rightarrow> support_state
    \<Rightarrow> support_state" where
  "support_block cat rules ground p st =
     (let own = placement_footprint cat p in
      if own = [] then st
      else if base_y own \<le> ground then st
      else case map_of (prs_rules rules) (pl_block_id p) of
          None \<Rightarrow> st
        | Some rule \<Rightarrow>
            if \<not> pr_uniform rule then st
            else fold (\<lambda>y. fold (add_slot cat p y) (pr_pattern rule)) [ground..base_y own - 1] st)"

definition bottom_up :: "placement list \<Rightarrow> placement list" where
  "bottom_up placements = sort_key (\<lambda>q. (pl_y q, pl_z q, pl_x q)) placements"

definition build_supports :: "placement list \<Rightarrow> catalogue \<Rightarrow> pillar_rules \<Rightarrow> int option
    \<Rightarrow> placement list" where
  "build_supports placements cat rules ground_y =
     (let ground = (case ground_y of None \<Rightarrow> prs_ground_y rules | Some g \<Rightarrow> g)
      in sp_supports (fold (support_block cat rules ground) (bottom_up placements)
           \<lparr>sp_supports = [], sp_occupied = route_cells placements cat\<rparr>))"

subsection \<open>All wanted pillars, in order\<close>

definition block_pillars :: "catalogue \<Rightarrow> pillar_rules \<Rightarrow> int \<Rightarrow> placement \<Rightarrow> placement list" where
  "block_pillars cat rules ground p =
     (let own = placement_footprint cat p in
      case map_of (prs_rules rules) (pl_block_id p) of
        None \<Rightarrow> []
      | Some rule \<Rightarrow>
          if own = [] \<or> \<not> pr_uniform rule then []
          else concat (map (\<lambda>y. List.map_filter (slot_pillar cat p y) (pr_pattern rule))
            [ground..base_y own - 1]))"

lemma fold_add_slot:
  "fold (add_slot cat p y) slots = fold (add_pillar cat) (List.map_filter (slot_pillar cat p y) slots)"
proof
  show "fold (add_slot cat p y) slots st =
      fold (add_pillar cat) (List.map_filter (slot_pillar cat p y) slots) st" for st
    by (induction slots arbitrary: st) (auto simp: map_filter_Cons add_slot_def split: option.split)
qed

lemma support_block_pillars:
  "support_block cat rules ground p st = fold (add_pillar cat) (block_pillars cat rules ground p) st"
  by (auto simp: support_block_def block_pillars_def Let_def fold_concat_map fold_add_slot
      split: option.split)

abbreviation wanted_pillars :: "catalogue \<Rightarrow> pillar_rules \<Rightarrow> int \<Rightarrow> placement list \<Rightarrow> placement list" where
  "wanted_pillars cat rules ground placements \<equiv>
     concat (map (block_pillars cat rules ground) (bottom_up placements))"

lemma support_blocks_pillars:
  "fold (support_block cat rules ground) ps st =
     fold (add_pillar cat) (concat (map (block_pillars cat rules ground) ps)) st"
  by (induction ps arbitrary: st) (auto simp: support_block_pillars)

subsection \<open>The invariant of the placement loop\<close>

definition supports_inv :: "catalogue \<Rightarrow> cell set \<Rightarrow> support_state \<Rightarrow> bool" where
  "supports_inv cat route st \<longleftrightarrow>
     sp_occupied st = route \<union> (\<Union>s \<in> set (sp_supports st). set (placement_footprint cat s)) \<and>
     (\<forall>s \<in> set (sp_supports st). placement_footprint cat s \<noteq> [] \<and>
        set (placement_footprint cat s) \<inter> route = {}) \<and>
     sorted_wrt (\<lambda>s t. set (placement_footprint cat s) \<inter> set (placement_footprint cat t) = {})
       (sp_supports st)"

lemma add_pillar_inv:
  assumes "supports_inv cat route st"
  shows "supports_inv cat route (add_pillar cat pillar st)"
  using assms by (auto simp: supports_inv_def add_pillar_def Let_def sorted_wrt_append)

lemma fold_add_pillar_inv:
  "supports_inv cat route st \<Longrightarrow> supports_inv cat route (fold (add_pillar cat) pillars st)"
  by (induction pillars arbitrary: st) (auto intro: add_pillar_inv)

lemma fold_add_pillar_mono: "sp_occupied st \<subseteq> sp_occupied (fold (add_pillar cat) pillars st)"
proof (induction pillars arbitrary: st)
  case (Cons p pillars)
  have "sp_occupied st \<subseteq> sp_occupied (add_pillar cat p st)" by (auto simp: add_pillar_def Let_def)
  with Cons [of "add_pillar cat p st"] show ?case by auto
qed simp

lemma fold_add_pillar_blocked:
  "p \<in> set pillars \<Longrightarrow> placement_footprint cat p \<noteq> [] \<Longrightarrow>
     set (placement_footprint cat p) \<inter> sp_occupied (fold (add_pillar cat) pillars st) \<noteq> {}"
proof (induction pillars arbitrary: st)
  case (Cons q pillars)
  show ?case
  proof (cases "q = p")
    case True
    have "set (placement_footprint cat p) \<inter> sp_occupied (add_pillar cat p st) \<noteq> {}"
      using Cons.prems(2) by (auto simp: add_pillar_def Let_def)
    with True fold_add_pillar_mono [of "add_pillar cat p st" cat pillars] show ?thesis by auto
  qed (use Cons in auto)
qed simp

lemma fold_add_pillar_subset:
  "set (sp_supports (fold (add_pillar cat) pillars st)) \<subseteq> set (sp_supports st) \<union> set pillars"
proof (induction pillars arbitrary: st)
  case (Cons p pillars)
  have "set (sp_supports (add_pillar cat p st)) \<subseteq> set (sp_supports st) \<union> {p}"
    by (auto simp: add_pillar_def Let_def)
  with Cons [of "add_pillar cat p st"] show ?case by auto
qed simp

lemma build_supports_fold:
  "build_supports placements cat rules ground_y =
     sp_supports (fold (add_pillar cat)
       (wanted_pillars cat rules (get_or ground_y (prs_ground_y rules)) placements)
       \<lparr>sp_supports = [], sp_occupied = route_cells placements cat\<rparr>)"
  by (simp add: build_supports_def Let_def support_blocks_pillars get_or_def)

lemma supports_inv_start: "supports_inv cat route \<lparr>sp_supports = [], sp_occupied = route\<rparr>"
  by (simp add: supports_inv_def)

lemma set_bottom_up [simp]: "set (bottom_up placements) = set placements"
  by (simp add: bottom_up_def)


lemma slot_pillar_fields:
  "slot_pillar cat p y slot = Some s \<Longrightarrow>
     pl_block_id s = ps_pillar slot \<and> pl_y s = y \<and> pl_rotation s = (ps_direction slot + pl_rotation p) mod 4 \<and>
     pl_variant s = Some (ps_variant slot)"
  by (auto simp: slot_pillar_def Let_def split: if_splits)

lemma block_pillars_mem:
  "s \<in> set (block_pillars cat rules ground p) \<longleftrightarrow>
     (\<exists>rule. map_of (prs_rules rules) (pl_block_id p) = Some rule \<and> pr_uniform rule \<and>
        placement_footprint cat p \<noteq> [] \<and>
        (\<exists>slot \<in> set (pr_pattern rule). \<exists>y. ground \<le> y \<and> y < base_y (placement_footprint cat p) \<and>
           slot_pillar cat p y slot = Some s))"
  by (cases "map_of (prs_rules rules) (pl_block_id p)")
    (auto simp: block_pillars_def Let_def set_map_filter, blast?)

text \<open>
  C27. Pillars never intersect the route or one another: the footprint of every pillar is non-empty
  and disjoint from all cells of the route, and two pillars have disjoint footprints, also when the
  route crosses over itself.
\<close>

theorem build_supports_disjoint:
  "set (concat (map (placement_footprint cat) (build_supports placements cat rules ground_y)))
     \<inter> route_cells placements cat = {} \<and>
   [] \<notin> placement_footprint cat ` set (build_supports placements cat rules ground_y) \<and>
   sorted_wrt (\<lambda>s t. set (placement_footprint cat s) \<inter> set (placement_footprint cat t) = {})
     (build_supports placements cat rules ground_y)"
proof -
  have "supports_inv cat (route_cells placements cat) (fold (add_pillar cat)
      (wanted_pillars cat rules (get_or ground_y (prs_ground_y rules)) placements)
      \<lparr>sp_supports = [], sp_occupied = route_cells placements cat\<rparr>)"
    by (rule fold_add_pillar_inv [OF supports_inv_start])
  then show ?thesis unfolding build_supports_fold supports_inv_def by auto
qed

text \<open>
  Every pillar supports something: it comes from a slot of the uniform rule of an elevated route
  block, stands on a level from the ground up to but excluding the lowest cell of that block, and
  has the slot's block, variant and the slot's direction turned with the block.
\<close>

theorem build_supports_beneath:
  assumes "s \<in> set (build_supports placements cat rules ground_y)"
  shows "\<exists>p \<in> set placements. \<exists>rule. \<exists>slot \<in> set (pr_pattern rule).
    map_of (prs_rules rules) (pl_block_id p) = Some rule \<and> pr_uniform rule \<and>
    get_or ground_y (prs_ground_y rules) \<le> pl_y s \<and> pl_y s < base_y (placement_footprint cat p) \<and>
    pl_block_id s = ps_pillar slot \<and> pl_variant s = Some (ps_variant slot) \<and>
    pl_rotation s = (ps_direction slot + pl_rotation p) mod 4"
proof -
  have "s \<in> set (wanted_pillars cat rules (get_or ground_y (prs_ground_y rules)) placements)"
    using assms fold_add_pillar_subset unfolding build_supports_fold by fastforce
  then obtain p where p: "p \<in> set placements"
    and s: "s \<in> set (block_pillars cat rules (get_or ground_y (prs_ground_y rules)) p)" by auto
  then show ?thesis by (auto simp: block_pillars_mem dest!: slot_pillar_fields intro!: bexI [of _ p])
qed

text \<open>
  No pillar is left out without a reason: whenever an elevated block has a uniform rule, for each
  of its slots and levels the cells of the wanted pillar meet the route or a pillar that was built.
\<close>

theorem build_supports_maximal:
  assumes "p \<in> set placements" "map_of (prs_rules rules) (pl_block_id p) = Some rule" "pr_uniform rule"
    and "placement_footprint cat p \<noteq> []" "slot \<in> set (pr_pattern rule)"
    and "get_or ground_y (prs_ground_y rules) \<le> y" "y < base_y (placement_footprint cat p)"
    and "slot_pillar cat p y slot = Some s" "placement_footprint cat s \<noteq> []"
  shows "set (placement_footprint cat s) \<inter> (route_cells placements cat \<union>
    (\<Union>t \<in> set (build_supports placements cat rules ground_y). set (placement_footprint cat t))) \<noteq> {}"
proof -
  let ?pillars = "wanted_pillars cat rules (get_or ground_y (prs_ground_y rules)) placements"
  let ?st = "fold (add_pillar cat) ?pillars \<lparr>sp_supports = [], sp_occupied = route_cells placements cat\<rparr>"
  have "s \<in> set (block_pillars cat rules (get_or ground_y (prs_ground_y rules)) p)"
    using assms by (auto simp: block_pillars_mem)
  then have "s \<in> set ?pillars" using assms(1) by auto
  then have "set (placement_footprint cat s) \<inter> sp_occupied ?st \<noteq> {}"
    by (rule fold_add_pillar_blocked [OF _ assms(9)])
  moreover have "supports_inv cat (route_cells placements cat) ?st"
    by (rule fold_add_pillar_inv [OF supports_inv_start])
  ultimately show ?thesis unfolding build_supports_fold by (simp add: supports_inv_def)
qed

text \<open>An elevated straight over a one-cell pillar.\<close>

definition demo_rules :: pillar_rules where
  "demo_rules = \<lparr>prs_rules = [(''RoadTechStraight'', \<lparr>pr_pattern = [\<lparr>ps_dx = 0, ps_dz = 0,
     ps_pillar = ''RoadTechFinish'', ps_variant = 2, ps_direction = 1\<rparr>], pr_uniform = True\<rparr>)],
     prs_ground_y = 9\<rparr>"

definition demo_elevated :: placement where
  "demo_elevated = \<lparr>pl_block_id = ''RoadTechStraight'', pl_x = 20, pl_y = 11, pl_z = 20,
     pl_rotation = 3, pl_variant = None\<rparr>"

definition demo_pillar :: "int \<Rightarrow> placement" where
  "demo_pillar y = \<lparr>pl_block_id = ''RoadTechFinish'', pl_x = 20, pl_y = y, pl_z = 20, pl_rotation = 0,
     pl_variant = Some 2\<rparr>"

lemma demo_supports:
  "build_supports [demo_elevated] demo_catalogue demo_rules None = [demo_pillar 9, demo_pillar 10]"
  by code_simp

theorem build_supports_beneath_witness:
  "\<exists>rule. map_of (prs_rules demo_rules) (pl_block_id demo_elevated) = Some rule \<and> pr_uniform rule \<and>
     pl_y (demo_pillar 10) < base_y (placement_footprint demo_catalogue demo_elevated)"
proof -
  have "demo_pillar 10 \<in> set (build_supports [demo_elevated] demo_catalogue demo_rules None)"
    by (simp add: demo_supports)
  from build_supports_beneath [OF this] show ?thesis by auto
qed

theorem build_supports_maximal_witness:
  "set (placement_footprint demo_catalogue (demo_pillar 9)) \<inter> (route_cells [demo_elevated] demo_catalogue \<union>
    (\<Union>t \<in> set (build_supports [demo_elevated] demo_catalogue demo_rules None).
       set (placement_footprint demo_catalogue t))) \<noteq> {}"
proof -
  define slot where "slot = \<lparr>ps_dx = 0, ps_dz = 0, ps_pillar = ''RoadTechFinish'', ps_variant = 2,
    ps_direction = 1\<rparr>"
  have rule: "map_of (prs_rules demo_rules) (pl_block_id demo_elevated) =
      Some \<lparr>pr_pattern = [slot], pr_uniform = True\<rparr>" unfolding slot_def by code_simp
  have fp: "placement_footprint demo_catalogue demo_elevated = [(20, 11, 20)]"
    "placement_footprint demo_catalogue (demo_pillar 9) = [(20, 9, 20)]" by code_simp+
  have pillar: "slot_pillar demo_catalogue demo_elevated 9 slot = Some (demo_pillar 9)"
    unfolding slot_def by code_simp
  have ground: "get_or None (prs_ground_y demo_rules) = 9" by code_simp
  show ?thesis
    by (rule build_supports_maximal [OF _ rule _ _ _ _ _ pillar]) (simp_all add: fp ground base_y_def)
qed

end
