(* ===== verification/Geom_Validator.thy ===== *)
theory Geom_Validator
  imports Catalogue
begin

section \<open>The geometry validator\<close>

text \<open>
  Model of \<^verbatim>\<open>src/src/generation/geom_validator.py\<close>: the parsed block dictionaries, the index
  from cells to blocks, the five structural checks and \<open>validate_map_geometry\<close>. The message
  of a finding is kept as a structured value. A block dictionary is a record; \<open>mb_uid\<close> stands for the
  object's identity, which the multi-cell check compares with \<open>is\<close>. The only exception the code
  lets escape, \<open>int(rotation)\<close> on a value that is no number, is an error of the model. The
  database query \<open>load_geometry_lookup\<close> is not modelled: the table it returns is an argument.

  The index is built first-writer-wins. That contract is the locale \<open>cell_index\<close>, which the jump
  validator's index satisfies as well.
\<close>

subsection \<open>Blocks and the cell index\<close>

record map_block =
  mb_uid :: nat
  mb_placement :: "string option"
  mb_x :: "pyval option"
  mb_y :: "pyval option"
  mb_z :: "pyval option"
  mb_family :: "string option"
  mb_name :: "string option"
  mb_rotation :: "pyval option"

text \<open>\<open>int(block[k])\<close> inside the \<open>try\<close>: a missing key, \<open>None\<close> and a non-number are caught.\<close>

definition coord :: "pyval option \<Rightarrow> int option" where
  "coord v = (case v of
       None \<Rightarrow> None
     | Some p \<Rightarrow> (case py_int p of Inl _ \<Rightarrow> None | Inr i \<Rightarrow> Some i))"

definition xyz_cell :: "map_block \<Rightarrow> cell option" where
  "xyz_cell b = (case (coord (mb_x b), coord (mb_y b), coord (mb_z b)) of
       (Some x, Some y, Some z) \<Rightarrow> Some (x, y, z)
     | _ \<Rightarrow> None)"

definition is_grid :: "map_block \<Rightarrow> bool" where
  "is_grid b \<longleftrightarrow> mb_placement b = Some ''grid''"

definition block_cell :: "map_block \<Rightarrow> cell option" where
  "block_cell b = (if \<not> is_grid b then None else xyz_cell b)"

definition setdefault :: "'k \<Rightarrow> 'v \<Rightarrow> ('k \<rightharpoonup> 'v) \<Rightarrow> 'k \<rightharpoonup> 'v" where
  "setdefault k v m = (case m k of None \<Rightarrow> m(k \<mapsto> v) | Some _ \<Rightarrow> m)"

definition index_blocks :: "map_block list \<Rightarrow> cell \<rightharpoonup> map_block" where
  "index_blocks grid_blocks =
     fold (\<lambda>b m. case block_cell b of None \<Rightarrow> m | Some c \<Rightarrow> setdefault c b m) grid_blocks Map.empty"

subsection \<open>Findings\<close>

datatype severity = SEVERITY_INFO | SEVERITY_WARN | SEVERITY_FAIL

datatype finding_code =
    CODE_PARTIAL_MULTICELL
  | CODE_ROUTE_GAP
  | CODE_ROUTE_CELL_MISSING_BLOCK
  | CODE_MISSING_SUPPORT
  | CODE_SPAWN_INTERSECT
  | CODE_UNKNOWN_BLOCK

record block_ref =
  br_family :: string
  br_name :: string
  br_cell :: cell

datatype detail =
    FootprintEmpty cell string string int int
  | FootprintOverlapped cell "string option" "string option" block_ref
  | RouteStep int cell cell int
  | RouteCellNoBlock cell
  | NoSupport cell int cell
  | SpawnOccupied cell "string option" "string option"
  | HeadroomOccupied cell "string option" "string option"

record finding =
  fd_severity :: severity
  fd_code :: finding_code
  fd_detail :: detail
  fd_cell :: "cell option"
  fd_block :: "block_ref option"

record validation_report =
  vr_findings :: "finding list"
  vr_checks_run :: "finding_code list"
  vr_blocks_total :: nat
  vr_grid_blocks_total :: nat
  vr_route_cells_total :: nat

definition has_failures :: "validation_report \<Rightarrow> bool" where
  "has_failures r \<longleftrightarrow> (\<exists>f \<in> set (vr_findings r). fd_severity f = SEVERITY_FAIL)"

definition has_warnings :: "validation_report \<Rightarrow> bool" where
  "has_warnings r \<longleftrightarrow> (\<exists>f \<in> set (vr_findings r). fd_severity f = SEVERITY_WARN)"

definition by_code :: "validation_report \<Rightarrow> finding_code \<Rightarrow> finding list" where
  "by_code r code = filter (\<lambda>f. fd_code f = code) (vr_findings r)"

record geometry_info =
  gi_footprint_x :: int
  gi_footprint_y :: int
  gi_footprint_z :: int
  gi_connector_hint :: string
  gi_shape_class :: string
  gi_is_anchor_capable :: bool

type_synonym geometry_lookup = "(string \<times> string) \<rightharpoonup> geometry_info"

definition str_or_empty :: "string option \<Rightarrow> string" where
  "str_or_empty s = get_or s ''''"

definition block_ref_of :: "map_block \<Rightarrow> cell \<Rightarrow> block_ref" where
  "block_ref_of b c = \<lparr>br_family = str_or_empty (mb_family b), br_name = str_or_empty (mb_name b), br_cell = c\<rparr>"

definition info_of :: "geometry_lookup \<Rightarrow> map_block \<Rightarrow> geometry_info option" where
  "info_of geo b = geo (str_or_empty (mb_family b), str_or_empty (mb_name b))"

text \<open>\<open>rotation & 0b11\<close> is the remainder modulo 4, also for negative numbers.\<close>

definition footprint_shadow_cells :: "cell \<Rightarrow> int \<Rightarrow> int \<Rightarrow> cell list" where
  "footprint_shadow_cells origin rotation footprint_x =
     (case origin of (x, y, z) \<Rightarrow>
      if footprint_x \<le> 1 then [origin]
      else let rot = rotation mod 4 in
        if rot = 0 then map (\<lambda>i. (x + i, y, z)) [0..footprint_x - 1]
        else if rot = 1 then map (\<lambda>i. (x, y, z + i)) [0..footprint_x - 1]
        else if rot = 2 then map (\<lambda>i. (x - i, y, z)) [0..footprint_x - 1]
        else map (\<lambda>i. (x, y, z - i)) [0..footprint_x - 1])"

subsection \<open>The checks\<close>

definition block_rotation :: "map_block \<Rightarrow> py_error + int" where
  "block_rotation b = (case mb_rotation b of
       None \<Rightarrow> Inr 0
     | Some v \<Rightarrow> if py_truthy v then py_int v else Inr 0)"

definition shadow_findings :: "(cell \<rightharpoonup> map_block) \<Rightarrow> map_block \<Rightarrow> cell \<Rightarrow> geometry_info \<Rightarrow> int
    \<Rightarrow> cell \<Rightarrow> finding list" where
  "shadow_findings idx b c info rotation shadow_cell =
     (case idx shadow_cell of
        None \<Rightarrow>
          [\<lparr>fd_severity = SEVERITY_FAIL, fd_code = CODE_PARTIAL_MULTICELL,
            fd_detail = FootprintEmpty shadow_cell (str_or_empty (mb_family b)) (str_or_empty (mb_name b))
              (gi_footprint_x info) rotation,
            fd_cell = Some shadow_cell, fd_block = Some (block_ref_of b c)\<rparr>]
      | Some occupant \<Rightarrow>
          if mb_uid occupant \<noteq> mb_uid b
          then [\<lparr>fd_severity = SEVERITY_WARN, fd_code = CODE_PARTIAL_MULTICELL,
            fd_detail = FootprintOverlapped shadow_cell (mb_family occupant) (mb_name occupant)
              (block_ref_of b c),
            fd_cell = Some shadow_cell, fd_block = Some (block_ref_of b c)\<rparr>]
          else [])"

definition multicell_block :: "(cell \<rightharpoonup> map_block) \<Rightarrow> geometry_lookup \<Rightarrow> map_block
    \<Rightarrow> py_error + finding list" where
  "multicell_block idx geo b =
     (case block_cell b of
        None \<Rightarrow> Inr []
      | Some c \<Rightarrow>
          (case info_of geo b of
             None \<Rightarrow> Inr []
           | Some info \<Rightarrow>
               if gi_footprint_x info \<le> 1 then Inr []
               else case block_rotation b of
                   Inl e \<Rightarrow> Inl e
                 | Inr rotation \<Rightarrow>
                     Inr (concat (map (shadow_findings idx b c info rotation)
                       (tl (footprint_shadow_cells c rotation (gi_footprint_x info)))))))"

fun check_partial_multicell :: "(cell \<rightharpoonup> map_block) \<Rightarrow> geometry_lookup \<Rightarrow> map_block list
    \<Rightarrow> py_error + finding list" where
  "check_partial_multicell idx geo [] = Inr []"
| "check_partial_multicell idx geo (b # bs) =
     (case multicell_block idx geo b of
        Inl e \<Rightarrow> Inl e
      | Inr fs \<Rightarrow>
          (case check_partial_multicell idx geo bs of Inl e \<Rightarrow> Inl e | Inr fs' \<Rightarrow> Inr (fs @ fs')))"

definition check_route_continuity :: "cell list \<Rightarrow> int \<Rightarrow> finding list" where
  "check_route_continuity route max_step =
     List.map_filter (\<lambda>(a, b).
       if chebyshev a b > max_step
       then Some \<lparr>fd_severity = SEVERITY_WARN, fd_code = CODE_ROUTE_GAP,
         fd_detail = RouteStep (chebyshev a b) a b max_step, fd_cell = Some b, fd_block = None\<rparr>
       else None) (steps_of route)"

definition check_route_cells_have_blocks :: "(cell \<rightharpoonup> map_block) \<Rightarrow> cell list \<Rightarrow> finding list" where
  "check_route_cells_have_blocks idx route =
     List.map_filter (\<lambda>c.
       if idx c = None
       then Some \<lparr>fd_severity = SEVERITY_FAIL, fd_code = CODE_ROUTE_CELL_MISSING_BLOCK,
         fd_detail = RouteCellNoBlock c, fd_cell = Some c, fd_block = None\<rparr>
       else None) route"

definition SELF_SUPPORTING_SHAPES :: "string list" where
  "SELF_SUPPORTING_SHAPES = [''ramp'', ''loop'', ''platform'', ''start'', ''checkpoint'', ''finish'']"

definition self_supporting :: "geometry_lookup \<Rightarrow> map_block \<Rightarrow> bool" where
  "self_supporting geo b = (case info_of geo b of
       None \<Rightarrow> False | Some info \<Rightarrow> gi_shape_class info \<in> set SELF_SUPPORTING_SHAPES)"

definition below :: "cell \<Rightarrow> cell" where
  "below c = (fst c, fst (snd c) - 1, snd (snd c))"

definition above :: "cell \<Rightarrow> cell" where
  "above c = (fst c, fst (snd c) + 1, snd (snd c))"

definition check_missing_support :: "(cell \<rightharpoonup> map_block) \<Rightarrow> geometry_lookup \<Rightarrow> int \<Rightarrow> cell list
    \<Rightarrow> finding list" where
  "check_missing_support idx geo ground_y route =
     List.map_filter (\<lambda>c.
       if fst (snd c) \<le> ground_y then None
       else case idx c of
           None \<Rightarrow> None
         | Some b \<Rightarrow>
             if self_supporting geo b then None
             else if idx (below c) = None
             then Some \<lparr>fd_severity = SEVERITY_WARN, fd_code = CODE_MISSING_SUPPORT,
               fd_detail = NoSupport c ground_y (below c), fd_cell = Some c,
               fd_block = Some (block_ref_of b c)\<rparr>
             else None) route"

definition anchor_capable :: "geometry_lookup \<Rightarrow> map_block \<Rightarrow> bool" where
  "anchor_capable geo b = (case info_of geo b of None \<Rightarrow> False | Some info \<Rightarrow> gi_is_anchor_capable info)"

definition check_spawn_intersect :: "(cell \<rightharpoonup> map_block) \<Rightarrow> geometry_lookup \<Rightarrow> cell option \<Rightarrow> finding list" where
  "check_spawn_intersect idx geo spawn_cell =
     (case spawn_cell of
        None \<Rightarrow> []
      | Some c \<Rightarrow>
          (case idx c of
             None \<Rightarrow> []
           | Some b \<Rightarrow>
               if \<not> anchor_capable geo b
               then [\<lparr>fd_severity = SEVERITY_FAIL, fd_code = CODE_SPAWN_INTERSECT,
                 fd_detail = SpawnOccupied c (mb_family b) (mb_name b), fd_cell = Some c,
                 fd_block = Some (block_ref_of b c)\<rparr>]
               else []) @
          (case idx (above c) of
             None \<Rightarrow> []
           | Some b \<Rightarrow>
               [\<lparr>fd_severity = SEVERITY_FAIL, fd_code = CODE_SPAWN_INTERSECT,
                 fd_detail = HeadroomOccupied (above c) (mb_family b) (mb_name b),
                 fd_cell = Some (above c), fd_block = Some (block_ref_of b (above c))\<rparr>]))"

subsection \<open>The orchestrator\<close>

definition validate_map_geometry :: "map_block list \<Rightarrow> geometry_lookup \<Rightarrow> cell list option
    \<Rightarrow> cell option \<Rightarrow> int \<Rightarrow> int \<Rightarrow> py_error + validation_report" where
  "validate_map_geometry blocks geo route_cells spawn_cell ground_y max_step =
     (let grid_blocks = filter is_grid blocks;
          idx = index_blocks grid_blocks;
          route = get_or route_cells []
      in case check_partial_multicell idx geo grid_blocks of
           Inl e \<Rightarrow> Inl e
         | Inr multicell \<Rightarrow>
             Inr \<lparr>vr_findings = multicell @
                 (if route \<noteq> []
                  then check_route_continuity route max_step @ check_route_cells_have_blocks idx route @
                    check_missing_support idx geo ground_y route
                  else []) @
                 (if spawn_cell \<noteq> None then check_spawn_intersect idx geo spawn_cell else []),
               vr_checks_run = [CODE_PARTIAL_MULTICELL] @
                 (if route \<noteq> []
                  then [CODE_ROUTE_GAP, CODE_ROUTE_CELL_MISSING_BLOCK, CODE_MISSING_SUPPORT] else []) @
                 (if spawn_cell \<noteq> None then [CODE_SPAWN_INTERSECT] else []),
               vr_blocks_total = length blocks,
               vr_grid_blocks_total = length grid_blocks,
               vr_route_cells_total = length route\<rparr>)"

subsection \<open>Interface: a first-writer-wins index\<close>

locale cell_index =
  fixes build :: "'b list \<Rightarrow> cell \<rightharpoonup> 'b"
    and cell_of :: "'b \<Rightarrow> cell option"
  assumes build_first: "build bs c = find (\<lambda>b. cell_of b = Some c) bs"
begin

lemma lookup_None: "build bs c = None \<longleftrightarrow> (\<forall>b \<in> set bs. cell_of b \<noteq> Some c)"
  by (auto simp: build_first find_None_iff)

lemma lookup_Some: "build bs c = Some b \<Longrightarrow> b \<in> set bs \<and> cell_of b = Some c"
  by (auto simp: build_first find_Some_iff)

lemma lookup_append: "build (bs @ cs) c = (case build bs c of None \<Rightarrow> build cs c | Some b \<Rightarrow> Some b)"
  by (simp add: build_first find_append split: option.split)

lemma dom_build: "dom (build bs) = {c. \<exists>b \<in> set bs. cell_of b = Some c}"
  using lookup_None by (auto simp: dom_def; metis)

end

lemma fold_setdefault:
  "fold (\<lambda>b m. case cell_of b of None \<Rightarrow> m | Some c \<Rightarrow> setdefault c b m) bs m c =
     (case m c of None \<Rightarrow> find (\<lambda>b. cell_of b = Some c) bs | Some b \<Rightarrow> Some b)"
  by (induction bs arbitrary: m) (auto simp: setdefault_def split: option.splits)

interpretation geom_index: cell_index index_blocks block_cell
  by unfold_locales (simp add: index_blocks_def fold_setdefault)

subsection \<open>What the checks find\<close>

lemma shadow_findings_fail:
  "(\<exists>f \<in> set (shadow_findings idx b c info rotation s). fd_severity f = SEVERITY_FAIL) \<longleftrightarrow> idx s = None"
  by (auto simp: shadow_findings_def split: option.splits)

lemma multicell_block_ok:
  "multicell_block idx geo b = Inr fs \<Longrightarrow>
     (\<exists>f \<in> set fs. fd_severity f = SEVERITY_FAIL) \<longleftrightarrow>
     (\<exists>c info rotation. block_cell b = Some c \<and> info_of geo b = Some info \<and> gi_footprint_x info > 1 \<and>
        block_rotation b = Inr rotation \<and>
        (\<exists>s \<in> set (tl (footprint_shadow_cells c rotation (gi_footprint_x info))). idx s = None))"
proof (cases "block_cell b"; cases "info_of geo b"; cases "block_rotation b")
  fix c info rotation
  assume "multicell_block idx geo b = Inr fs"
    and *: "block_cell b = Some c" "info_of geo b = Some info" "block_rotation b = Inr rotation"
  then have fs: "fs = (if gi_footprint_x info \<le> 1 then [] else concat (map
      (shadow_findings idx b c info rotation)
      (tl (footprint_shadow_cells c rotation (gi_footprint_x info)))))"
    by (auto simp: multicell_block_def split: if_splits)
  show ?thesis
  proof (cases "gi_footprint_x info \<le> 1")
    case False
    then have "(\<exists>f \<in> set fs. fd_severity f = SEVERITY_FAIL) \<longleftrightarrow>
        (\<exists>s \<in> set (tl (footprint_shadow_cells c rotation (gi_footprint_x info))). idx s = None)"
      by (simp only: fs if_False bex_concat_map shadow_findings_fail)
    with * False show ?thesis by simp
  qed (use fs * in simp)
qed (auto simp: multicell_block_def split: if_splits)

lemma check_partial_multicell_ok:
  "check_partial_multicell idx geo bs = Inr fs \<Longrightarrow>
     (\<exists>f \<in> set fs. fd_severity f = SEVERITY_FAIL) \<longleftrightarrow>
     (\<exists>b \<in> set bs. \<exists>c info rotation. block_cell b = Some c \<and> info_of geo b = Some info \<and>
        gi_footprint_x info > 1 \<and> block_rotation b = Inr rotation \<and>
        (\<exists>s \<in> set (tl (footprint_shadow_cells c rotation (gi_footprint_x info))). idx s = None))"
proof (induction bs arbitrary: fs)
  case (Cons b bs)
  from Cons.prems obtain fs1 fs2 where fs: "multicell_block idx geo b = Inr fs1"
    "check_partial_multicell idx geo bs = Inr fs2" "fs = fs1 @ fs2"
    by (auto split: sum.splits)
  show ?case
    unfolding fs(3) set_append bex_Un set_simps bex_simps(7) multicell_block_ok [OF fs(1)]
      Cons.IH [OF fs(2)] by blast
qed simp

abbreviation first_at :: "map_block list \<Rightarrow> cell \<Rightarrow> map_block option" where
  "first_at blocks c \<equiv> find (\<lambda>b. block_cell b = Some c) blocks"

definition cell_taken :: "map_block list \<Rightarrow> cell \<Rightarrow> bool" where
  "cell_taken blocks c \<longleftrightarrow> (\<exists>b \<in> set blocks. block_cell b = Some c)"

lemma block_cell_grid: "block_cell b = Some c \<Longrightarrow> is_grid b"
  by (simp add: block_cell_def split: if_splits)

lemma index_grid: "index_blocks (filter is_grid blocks) c = first_at blocks c"
proof -
  have "find (\<lambda>b. block_cell b = Some c) (filter is_grid blocks) = first_at blocks c"
    by (induction blocks) (auto dest: block_cell_grid)
  then show ?thesis by (simp add: geom_index.build_first)
qed

lemma first_at_None: "first_at blocks c = None \<longleftrightarrow> \<not> cell_taken blocks c"
  by (auto simp: find_None_iff cell_taken_def)

text \<open>Shadow cells follow the catalogue's rotation of free vectors.\<close>

lemma shadow_cells_rotate:
  "footprint_shadow_cells origin rotation fx =
     map (\<lambda>i. shift origin (rotate_vector (i, 0, 0) rotation)) [0..max 1 fx - 1]"
proof (cases "fx \<le> 1")
  case True
  then show ?thesis
    by (cases origin; cases rotation rule: mod4_cases)
      (simp_all add: footprint_shadow_cells_def rotation_defs max_def)
next
  case False
  then show ?thesis
    by (cases origin; cases rotation rule: mod4_cases)
      (simp_all add: footprint_shadow_cells_def rotation_defs max_def)
qed

lemma set_tl_shadow:
  "1 < fx \<Longrightarrow> set (tl (footprint_shadow_cells c rot fx)) =
     {shift c (rotate_vector (i, 0, 0) rot) | i. 0 < i \<and> i < fx}"
  by (auto simp: shadow_cells_rotate upto.simps [of 0] max_def map_tl)

lemma route_checks_fail:
  "\<not> (\<exists>f \<in> set (check_route_continuity route max_step). fd_severity f = SEVERITY_FAIL)"
  "\<not> (\<exists>f \<in> set (check_missing_support idx geo ground_y route). fd_severity f = SEVERITY_FAIL)"
  "(\<exists>f \<in> set (check_route_cells_have_blocks idx route). fd_severity f = SEVERITY_FAIL) \<longleftrightarrow>
     (\<exists>c \<in> set route. idx c = None)"
  by (auto simp: check_route_continuity_def check_missing_support_def check_route_cells_have_blocks_def
      set_map_filter split: if_splits option.splits)

lemma spawn_check_fail:
  "(\<exists>f \<in> set (check_spawn_intersect idx geo spawn). fd_severity f = SEVERITY_FAIL) \<longleftrightarrow>
     (\<exists>c. spawn = Some c \<and>
        ((\<exists>b. idx c = Some b \<and> \<not> anchor_capable geo b) \<or> idx (above c) \<noteq> None))"
  by (cases spawn) (auto simp: check_spawn_intersect_def split: option.splits)

lemma validate_findings:
  assumes "validate_map_geometry blocks geo route_cells spawn ground_y max_step = Inr report"
  obtains multicell where
    "check_partial_multicell (first_at blocks) geo (filter is_grid blocks) = Inr multicell"
    "vr_findings report = multicell @
       (if get_or route_cells [] \<noteq> []
        then check_route_continuity (get_or route_cells []) max_step @
          check_route_cells_have_blocks (first_at blocks) (get_or route_cells []) @
          check_missing_support (first_at blocks) geo ground_y (get_or route_cells [])
        else []) @
       (if spawn \<noteq> None then check_spawn_intersect (first_at blocks) geo spawn else [])"
proof -
  have idx: "index_blocks (filter is_grid blocks) = first_at blocks"
    by (rule ext) (rule index_grid)
  show thesis
    using assms that
    by (auto simp: validate_map_geometry_def Let_def idx split: sum.splits)
qed

lemma has_failures_iff:
  assumes "validate_map_geometry blocks geo route_cells spawn ground_y max_step = Inr report"
  shows "has_failures report \<longleftrightarrow>
    (\<exists>b \<in> set blocks. \<exists>c info rot i. block_cell b = Some c \<and> info_of geo b = Some info \<and>
       block_rotation b = Inr rot \<and> 0 < i \<and> i < gi_footprint_x info \<and>
       \<not> cell_taken blocks (shift c (rotate_vector (i, 0, 0) rot))) \<or>
    (\<exists>c \<in> set (get_or route_cells []). \<not> cell_taken blocks c) \<or>
    (\<exists>c. spawn = Some c \<and> ((\<exists>b. first_at blocks c = Some b \<and> \<not> anchor_capable geo b) \<or>
       cell_taken blocks (above c)))"
proof -
  obtain multicell where m: "check_partial_multicell (first_at blocks) geo (filter is_grid blocks) = Inr multicell"
    and f: "vr_findings report = multicell @
       (if get_or route_cells [] \<noteq> []
        then check_route_continuity (get_or route_cells []) max_step @
          check_route_cells_have_blocks (first_at blocks) (get_or route_cells []) @
          check_missing_support (first_at blocks) geo ground_y (get_or route_cells [])
        else []) @
       (if spawn \<noteq> None then check_spawn_intersect (first_at blocks) geo spawn else [])"
    by (rule validate_findings [OF assms])
  have "(\<exists>f \<in> set multicell. fd_severity f = SEVERITY_FAIL) \<longleftrightarrow>
    (\<exists>b \<in> set blocks. \<exists>c info rot i. block_cell b = Some c \<and> info_of geo b = Some info \<and>
       block_rotation b = Inr rot \<and> 0 < i \<and> i < gi_footprint_x info \<and>
       \<not> cell_taken blocks (shift c (rotate_vector (i, 0, 0) rot)))"
    unfolding check_partial_multicell_ok [OF m] first_at_None
    by (force simp: set_tl_shadow dest: block_cell_grid)
  moreover have "(\<exists>f \<in> set (check_spawn_intersect (first_at blocks) geo spawn).
      fd_severity f = SEVERITY_FAIL) \<longleftrightarrow>
    (\<exists>c. spawn = Some c \<and> ((\<exists>b. first_at blocks c = Some b \<and> \<not> anchor_capable geo b) \<or>
       cell_taken blocks (above c)))"
    unfolding spawn_check_fail first_at_None not_not ..
  ultimately show ?thesis
    unfolding has_failures_def f set_append bex_Un
    using route_checks_fail
    by (cases "get_or route_cells [] = []"; cases spawn) (simp_all add: bex_Un first_at_None)
qed

text \<open>
  C22. A validated map has a failure exactly when one of three defects is present: a cell in the shadow
  of a multi-cell block (the cells reached from its origin along its rotated X axis) holds no block,
  a route cell holds no block, or the spawn cell is taken by a block that is no anchor or has
  something above it.
\<close>

theorem geometry_failures:
  assumes "validate_map_geometry blocks geo route_cells spawn ground_y max_step = Inr report"
  shows "has_failures report \<longleftrightarrow>
    (\<exists>b \<in> set blocks. \<exists>c info rot i. block_cell b = Some c \<and> info_of geo b = Some info \<and>
       block_rotation b = Inr rot \<and> 0 < i \<and> i < gi_footprint_x info \<and>
       \<not> cell_taken blocks (shift c (rotate_vector (i, 0, 0) rot))) \<or>
    (\<exists>c \<in> set (get_or route_cells []). \<not> cell_taken blocks c) \<or>
    (\<exists>c. spawn = Some c \<and> ((\<exists>b. first_at blocks c = Some b \<and> \<not> anchor_capable geo b) \<or>
       cell_taken blocks (above c)))"
  using assms by (rule has_failures_iff)

lemma by_code_ne: "by_code r code \<noteq> [] \<longleftrightarrow> (\<exists>f \<in> set (vr_findings r). fd_code f = code)"
  by (auto simp: by_code_def filter_empty_conv)

lemma multicell_codes:
  "check_partial_multicell idx geo bs = Inr fs \<Longrightarrow> f \<in> set fs \<Longrightarrow> fd_code f = CODE_PARTIAL_MULTICELL"
proof (induction bs arbitrary: fs)
  case (Cons b bs)
  then obtain fs1 fs2 where fs: "multicell_block idx geo b = Inr fs1"
    "check_partial_multicell idx geo bs = Inr fs2" "fs = fs1 @ fs2"
    by (auto split: sum.splits)
  have "fd_code f = CODE_PARTIAL_MULTICELL" if "f \<in> set fs1"
    using that fs(1)
    by (auto simp: multicell_block_def shadow_findings_def split: option.splits if_splits sum.splits)
  with Cons fs show ?case by auto
qed simp

lemma gap_check:
  "(\<exists>f \<in> set (check_route_continuity route max_step). fd_code f = code) \<longleftrightarrow>
     code = CODE_ROUTE_GAP \<and> (\<exists>(a, b) \<in> set (steps_of route). chebyshev a b > max_step)"
proof -
  have "(case (case x of (a, b) \<Rightarrow>
       if chebyshev a b > max_step
       then Some \<lparr>fd_severity = SEVERITY_WARN, fd_code = CODE_ROUTE_GAP,
         fd_detail = RouteStep (chebyshev a b) a b max_step, fd_cell = Some b, fd_block = None\<rparr>
       else None) of None \<Rightarrow> False | Some f \<Rightarrow> fd_code f = code) \<longleftrightarrow>
      code = CODE_ROUTE_GAP \<and> (case x of (a, b) \<Rightarrow> chebyshev a b > max_step)" for x
    by (cases x) auto
  from this [abs_def] show ?thesis
    unfolding check_route_continuity_def bex_map_filter by (simp only: bex_simps)
qed

lemma blocks_check:
  "f \<in> set (check_route_cells_have_blocks idx route) \<Longrightarrow> fd_code f = CODE_ROUTE_CELL_MISSING_BLOCK"
  by (auto simp: check_route_cells_have_blocks_def set_map_filter split: if_splits)

lemma support_check:
  "(\<exists>f \<in> set (check_missing_support idx geo ground_y route). fd_code f = code) \<longleftrightarrow>
     code = CODE_MISSING_SUPPORT \<and> (\<exists>c \<in> set route. ground_y < fst (snd c) \<and> idx (below c) = None \<and>
        (\<exists>b. idx c = Some b \<and> \<not> self_supporting geo b))"
proof -
  have "(case (if fst (snd c) \<le> ground_y then None
       else case idx c of
           None \<Rightarrow> None
         | Some b \<Rightarrow>
             if self_supporting geo b then None
             else if idx (below c) = None
             then Some \<lparr>fd_severity = SEVERITY_WARN, fd_code = CODE_MISSING_SUPPORT,
               fd_detail = NoSupport c ground_y (below c), fd_cell = Some c,
               fd_block = Some (block_ref_of b c)\<rparr>
             else None) of None \<Rightarrow> False | Some f \<Rightarrow> fd_code f = code) \<longleftrightarrow>
      code = CODE_MISSING_SUPPORT \<and> ground_y < fst (snd c) \<and> idx (below c) = None \<and>
        (\<exists>b. idx c = Some b \<and> \<not> self_supporting geo b)" for c
    by (auto split: option.splits)
  then show ?thesis unfolding check_missing_support_def bex_map_filter by blast
qed

lemma spawn_codes: "f \<in> set (check_spawn_intersect idx geo spawn) \<Longrightarrow> fd_code f = CODE_SPAWN_INTERSECT"
  by (auto simp: check_spawn_intersect_def split: option.splits if_splits)

text \<open>
  The warnings about the route: a gap is reported exactly when two consecutive route cells are
  farther apart than the allowed step, and missing support exactly when an elevated route cell holds
  a block that does not carry itself and has no block right below.
\<close>

theorem geometry_route_warnings:
  assumes "validate_map_geometry blocks geo (Some route) spawn ground_y max_step = Inr report"
  shows "(by_code report CODE_ROUTE_GAP \<noteq> []) =
      (\<exists>(a, b) \<in> set (steps_of route). chebyshev a b > max_step) \<and>
    (by_code report CODE_MISSING_SUPPORT \<noteq> []) =
      (\<exists>c \<in> set route. ground_y < fst (snd c) \<and> \<not> cell_taken blocks (below c) \<and>
        (\<exists>b. first_at blocks c = Some b \<and> \<not> self_supporting geo b))"
proof -
  obtain multicell where m: "check_partial_multicell (first_at blocks) geo (filter is_grid blocks) = Inr multicell"
    and f: "vr_findings report = multicell @
       (if route \<noteq> []
        then check_route_continuity route max_step @ check_route_cells_have_blocks (first_at blocks) route @
          check_missing_support (first_at blocks) geo ground_y route
        else []) @
       (if spawn \<noteq> None then check_spawn_intersect (first_at blocks) geo spawn else [])"
    by (rule validate_findings [OF assms, unfolded get_or_def option.case])
  have other: "(\<exists>f \<in> set (vr_findings report). fd_code f = code) \<longleftrightarrow> route \<noteq> [] \<and>
      ((\<exists>f \<in> set (check_route_continuity route max_step). fd_code f = code) \<or>
       (\<exists>f \<in> set (check_missing_support (first_at blocks) geo ground_y route). fd_code f = code))"
    if "code \<in> {CODE_ROUTE_GAP, CODE_MISSING_SUPPORT}" for code
  proof -
    have "\<not> (\<exists>f \<in> set multicell. fd_code f = code)"
      "\<not> (\<exists>f \<in> set (check_spawn_intersect (first_at blocks) geo spawn). fd_code f = code)"
      "\<not> (\<exists>f \<in> set (check_route_cells_have_blocks (first_at blocks) route). fd_code f = code)"
      using that multicell_codes [OF m] spawn_codes blocks_check by fastforce+
    then show ?thesis unfolding f set_append bex_Un
      by (cases "route = []"; cases spawn) (simp_all add: bex_Un)
  qed
  show ?thesis
    unfolding by_code_ne
    by (subst (1 2) other) (auto simp: gap_check support_check first_at_None)
qed

lemma multicell_block_total:
  "(\<exists>fs. multicell_block idx geo b = Inr fs) \<longleftrightarrow>
     \<not> (\<exists>c info e. block_cell b = Some c \<and> info_of geo b = Some info \<and> 1 < gi_footprint_x info \<and>
        block_rotation b = Inl e)"
  by (auto simp: multicell_block_def split: option.splits sum.splits)

lemma check_partial_multicell_total:
  "(\<exists>fs. check_partial_multicell idx geo bs = Inr fs) \<longleftrightarrow> (\<forall>b \<in> set bs. \<exists>fs. multicell_block idx geo b = Inr fs)"
  by (induction bs) (auto split: sum.splits)

text \<open>
  Validation never raises except for one malformed input: a multi-cell block whose rotation is a
  value \<open>int\<close> does not accept.
\<close>

lemma validation_ok_iff:
  "(\<exists>report. validate_map_geometry blocks geo route_cells spawn ground_y max_step = Inr report) =
     (\<not> (\<exists>b \<in> set blocks. \<exists>c info e. block_cell b = Some c \<and> info_of geo b = Some info \<and>
        1 < gi_footprint_x info \<and> block_rotation b = Inl e))"
proof -
  have "(\<exists>report. validate_map_geometry blocks geo route_cells spawn ground_y max_step = Inr report) \<longleftrightarrow>
      (\<exists>fs. check_partial_multicell (index_blocks (filter is_grid blocks)) geo (filter is_grid blocks) = Inr fs)"
    by (auto simp: validate_map_geometry_def Let_def split: sum.splits)
  then show ?thesis
    unfolding check_partial_multicell_total multicell_block_total by (auto dest: block_cell_grid)
qed

text \<open>The findings with a given route code are exactly those of the check that owns the code.\<close>

lemma route_findings:
  assumes "validate_map_geometry blocks geo (Some route) spawn ground_y max_step = Inr report"
  shows "by_code report CODE_ROUTE_CELL_MISSING_BLOCK = check_route_cells_have_blocks (first_at blocks) route"
    and "by_code report CODE_ROUTE_GAP = check_route_continuity route max_step"
proof -
  obtain multicell where m: "check_partial_multicell (first_at blocks) geo (filter is_grid blocks) = Inr multicell"
    and f: "vr_findings report = multicell @
       (if route \<noteq> []
        then check_route_continuity route max_step @ check_route_cells_have_blocks (first_at blocks) route @
          check_missing_support (first_at blocks) geo ground_y route
        else []) @
       (if spawn \<noteq> None then check_spawn_intersect (first_at blocks) geo spawn else [])"
    by (rule validate_findings [OF assms, unfolded get_or_def option.case])
  have none: "filter (\<lambda>f. fd_code f = code) xs = []" if "\<And>f. f \<in> set xs \<Longrightarrow> fd_code f = c" "c \<noteq> code" for xs c code
    using that by (auto simp: filter_empty_conv)
  have all: "filter (\<lambda>f. fd_code f = code) xs = xs" if "\<And>f. f \<in> set xs \<Longrightarrow> fd_code f = code" for xs code
    using that by (simp add: filter_id_conv)
  have gap: "f \<in> set (check_route_continuity route max_step) \<Longrightarrow> fd_code f = CODE_ROUTE_GAP" for f
    using gap_check [of route max_step "fd_code f"] by blast
  have sup: "f \<in> set (check_missing_support (first_at blocks) geo ground_y route) \<Longrightarrow> fd_code f = CODE_MISSING_SUPPORT" for f
    using support_check [of "first_at blocks" geo ground_y route "fd_code f"] by blast
  note codes = none [OF multicell_codes [OF m]] none [OF gap] none [OF sup] none [OF blocks_check] none [OF spawn_codes]
    all [OF gap] all [OF blocks_check]
  have empty: "check_route_continuity [] max_step = []" "check_route_cells_have_blocks (first_at blocks) [] = []"
    by (simp_all add: check_route_continuity_def check_route_cells_have_blocks_def)
  show "by_code report CODE_ROUTE_CELL_MISSING_BLOCK = check_route_cells_have_blocks (first_at blocks) route"
    unfolding by_code_def f by (simp add: codes empty)
  show "by_code report CODE_ROUTE_GAP = check_route_continuity route max_step"
    unfolding by_code_def f by (simp add: codes empty)
qed

subsection \<open>Two blocks in one cell\<close>

definition demo_map_block :: "nat \<Rightarrow> int \<Rightarrow> map_block" where
  "demo_map_block uid x = \<lparr>mb_uid = uid, mb_placement = Some ''grid'', mb_x = Some (PyInt x),
     mb_y = Some (PyInt 9), mb_z = Some (PyInt 5), mb_family = Some ''Road'', mb_name = Some ''A'',
     mb_rotation = Some (PyInt 0)\<rparr>"

definition demo_geo :: "int \<Rightarrow> geometry_lookup" where
  "demo_geo fx = [(''Road'', ''A'') \<mapsto> \<lparr>gi_footprint_x = fx, gi_footprint_y = 1, gi_footprint_z = 1,
     gi_connector_hint = '''', gi_shape_class = ''straight'', gi_is_anchor_capable = False\<rparr>]"

text \<open>Contrary to the comment at the index, two blocks in the same cell go unnoticed: the
  multi-cell check skips the origin of every block.\<close>

lemma collision_unflagged:
  "\<exists>report. validate_map_geometry [demo_map_block 0 5, demo_map_block 1 5] (demo_geo 1) None None 9 1 =
     Inr report \<and> vr_findings report = []"
  by (simp add: validate_map_geometry_def demo_map_block_def demo_geo_def is_grid_def
      multicell_block_def block_cell_def xyz_cell_def coord_def info_of_def str_or_empty_def get_or_def)


text \<open>A two-cell block with one cell missing, on a route with a gap.\<close>

definition demo_report :: validation_report where
  "demo_report = projr (validate_map_geometry [demo_map_block 0 5] (demo_geo 2)
     (Some [(5, 9, 5), (8, 9, 5)]) None 9 1)"

lemma demo_validate:
  "validate_map_geometry [demo_map_block 0 5] (demo_geo 2) (Some [(5, 9, 5), (8, 9, 5)]) None 9 1 =
     Inr demo_report"
  by code_simp

theorem geometry_failures_witness: "has_failures demo_report"
proof -
  have "\<not> cell_taken [demo_map_block 0 5] (8, 9, 5)" by code_simp
  with geometry_failures [OF demo_validate] show ?thesis by (simp add: get_or_def)
qed

theorem geometry_route_warnings_witness: "by_code demo_report CODE_ROUTE_GAP \<noteq> []"
  using geometry_route_warnings [OF demo_validate] by (simp add: chebyshev_def)

end
