(* ===== verification/Jump_Validator.thy ===== *)
theory Jump_Validator
  imports Geom_Validator
begin

section \<open>The jump validator\<close>

text \<open>
  Model of \<^verbatim>\<open>src/src/generation/jump_validator.py\<close>: jump candidates along a route, the search
  cone for landing surfaces, the classification of a candidate, and \<open>validate_jumps\<close>. Messages
  are left out of the classification; \<open>findings\<close> keeps class and take-off cell. Main results: the
  landing candidates are exactly the cells of the cone that carry a landing shape, each class has a
  declarative characterisation, and more replay evidence only ever promotes a candidate.
\<close>

datatype jump_class =
    CLASS_SUPPORTED_BY_REPLAY
  | CLASS_GEOMETRICALLY_PLAUSIBLE
  | CLASS_UNCERTAIN
  | CLASS_LIKELY_BROKEN

fun class_to_severity :: "jump_class \<Rightarrow> severity" where
  "class_to_severity CLASS_SUPPORTED_BY_REPLAY = SEVERITY_INFO"
| "class_to_severity CLASS_GEOMETRICALLY_PLAUSIBLE = SEVERITY_INFO"
| "class_to_severity CLASS_UNCERTAIN = SEVERITY_WARN"
| "class_to_severity CLASS_LIKELY_BROKEN = SEVERITY_FAIL"

record jump_cone =
  jc_forward_min :: int
  jc_forward_max :: int
  jc_max_rise :: int
  jc_max_drop :: int
  jc_lateral_half_width :: int

definition mk_jump_cone :: "int \<Rightarrow> int \<Rightarrow> int \<Rightarrow> int \<Rightarrow> int \<Rightarrow> py_error + jump_cone" where
  "mk_jump_cone fmin fmax rise drp lateral =
     (if fmin \<le> 0 then Inl ValueError
      else if fmax < fmin then Inl ValueError
      else Inr \<lparr>jc_forward_min = fmin, jc_forward_max = fmax, jc_max_rise = rise, jc_max_drop = drp,
             jc_lateral_half_width = lateral\<rparr>)"

definition default_cone :: jump_cone where
  "default_cone = \<lparr>jc_forward_min = 2, jc_forward_max = 12, jc_max_rise = 4, jc_max_drop = 8,
     jc_lateral_half_width = 2\<rparr>"

definition TAKEOFF_SHAPES :: "string list" where
  "TAKEOFF_SHAPES = [''ramp'', ''loop'']"

definition LANDING_SHAPES :: "string list" where
  "LANDING_SHAPES = [''straight'', ''curve'', ''ramp'', ''platform'', ''loop'', ''start'', ''checkpoint'',
     ''finish'']"

record jump_candidate =
  ca_takeoff_cell :: cell
  ca_next_route_cell :: cell
  ca_gap_cheb :: int
  ca_takeoff_shape :: string
  ca_takeoff_family :: string
  ca_takeoff_name :: string

record jump_classification =
  jk_candidate :: jump_candidate
  jk_class :: jump_class
  jk_landings :: "cell list"

record jump_report =
  jr_classifications :: "jump_classification list"
  jr_cone :: jump_cone
  jr_route_cells_total :: nat

definition by_class :: "jump_report \<Rightarrow> jump_class \<Rightarrow> jump_classification list" where
  "by_class r cls = filter (\<lambda>c. jk_class c = cls) (jr_classifications r)"

definition jump_findings :: "jump_report \<Rightarrow> (severity \<times> jump_class \<times> cell) list" where
  "jump_findings r = map (\<lambda>c. (class_to_severity (jk_class c), jk_class c,
     ca_takeoff_cell (jk_candidate c))) (jr_classifications r)"

subsection \<open>Detection\<close>

definition takeoff_shape_of :: "(cell \<rightharpoonup> map_block) \<Rightarrow> geometry_lookup \<Rightarrow> cell \<Rightarrow> string" where
  "takeoff_shape_of idx geo c =
     (case idx c of
        None \<Rightarrow> ''unknown''
      | Some b \<Rightarrow> (case info_of geo b of None \<Rightarrow> ''unknown'' | Some info \<Rightarrow> gi_shape_class info))"

definition jump_step :: "(cell \<rightharpoonup> map_block) \<Rightarrow> geometry_lookup \<Rightarrow> int \<Rightarrow> cell \<times> cell
    \<Rightarrow> jump_candidate option" where
  "jump_step idx geo min_gap step =
     (case step of (prev, nxt) \<Rightarrow>
      let gap = chebyshev prev nxt;
          shape = takeoff_shape_of idx geo prev;
          fam = (case idx prev of None \<Rightarrow> '''' | Some b \<Rightarrow> str_or_empty (mb_family b));
          nam = (case idx prev of None \<Rightarrow> '''' | Some b \<Rightarrow> str_or_empty (mb_name b))
      in if \<not> (shape \<in> set TAKEOFF_SHAPES \<or> gap \<ge> min_gap) then None
         else Some \<lparr>ca_takeoff_cell = prev, ca_next_route_cell = nxt, ca_gap_cheb = gap,
           ca_takeoff_shape = shape, ca_takeoff_family = fam, ca_takeoff_name = nam\<rparr>)"

definition detect_jump_candidates :: "(cell \<rightharpoonup> map_block) \<Rightarrow> geometry_lookup \<Rightarrow> int \<Rightarrow> cell list
    \<Rightarrow> jump_candidate list" where
  "detect_jump_candidates idx geo min_gap route = List.map_filter (jump_step idx geo min_gap) (steps_of route)"

subsection \<open>Landing surfaces\<close>

definition forward_axis :: "cell \<Rightarrow> cell \<Rightarrow> int \<times> int" where
  "forward_axis takeoff nxt =
     (let dx = fst nxt - fst takeoff; dz = snd (snd nxt) - snd (snd takeoff)
      in if \<bar>dx\<bar> \<ge> \<bar>dz\<bar> \<and> dx \<noteq> 0 then (if dx > 0 then 1 else -1, 0)
         else if dz \<noteq> 0 then (0, if dz > 0 then 1 else -1)
         else (1, 0))"

definition is_landing :: "(cell \<rightharpoonup> map_block) \<Rightarrow> geometry_lookup \<Rightarrow> cell \<Rightarrow> bool" where
  "is_landing idx geo c =
     (case idx c of
        None \<Rightarrow> False
      | Some b \<Rightarrow>
          (case info_of geo b of None \<Rightarrow> False | Some info \<Rightarrow> gi_shape_class info \<in> set LANDING_SHAPES))"

definition cone_cells :: "jump_cone \<Rightarrow> cell \<Rightarrow> int \<times> int \<Rightarrow> cell list" where
  "cone_cells cone takeoff axis =
     (case takeoff of (ox, oy, oz) \<Rightarrow> case axis of (fwd_x, fwd_z) \<Rightarrow>
      concat (map (\<lambda>step.
        let cx = ox + fwd_x * step; cz = oz + fwd_z * step; lat_x = - fwd_z; lat_z = fwd_x in
        concat (map (\<lambda>lat.
          let px = cx + lat_x * lat; pz = cz + lat_z * lat in
          map (\<lambda>dy. (px, oy + dy, pz)) [- jc_max_drop cone..jc_max_rise cone])
          [- jc_lateral_half_width cone..jc_lateral_half_width cone]))
        [jc_forward_min cone..jc_forward_max cone]))"

definition find_landing_candidates :: "(cell \<rightharpoonup> map_block) \<Rightarrow> geometry_lookup \<Rightarrow> jump_cone
    \<Rightarrow> jump_candidate \<Rightarrow> cell list" where
  "find_landing_candidates idx geo cone ca =
     filter (is_landing idx geo)
       (cone_cells cone (ca_takeoff_cell ca) (forward_axis (ca_takeoff_cell ca) (ca_next_route_cell ca)))"

subsection \<open>Classification\<close>

definition replay_supports :: "jump_candidate \<Rightarrow> cell set option \<Rightarrow> bool" where
  "replay_supports ca replay =
     (case replay of
        None \<Rightarrow> False
      | Some cells \<Rightarrow> ca_takeoff_cell ca \<in> cells \<and>
          (\<exists>c \<in> cells. chebyshev (ca_next_route_cell ca) c \<le> 1))"

definition classify_jump :: "jump_candidate \<Rightarrow> cell list \<Rightarrow> cell set option \<Rightarrow> jump_classification" where
  "classify_jump ca landings replay =
     (if replay_supports ca replay
      then \<lparr>jk_candidate = ca, jk_class = CLASS_SUPPORTED_BY_REPLAY, jk_landings = landings\<rparr>
      else if landings = []
      then (if ca_takeoff_shape ca \<in> set TAKEOFF_SHAPES
            then \<lparr>jk_candidate = ca, jk_class = CLASS_LIKELY_BROKEN, jk_landings = []\<rparr>
            else \<lparr>jk_candidate = ca, jk_class = CLASS_UNCERTAIN, jk_landings = []\<rparr>)
      else if \<exists>c \<in> set landings. chebyshev (ca_next_route_cell ca) c \<le> 1
      then \<lparr>jk_candidate = ca, jk_class = CLASS_GEOMETRICALLY_PLAUSIBLE, jk_landings = landings\<rparr>
      else \<lparr>jk_candidate = ca, jk_class = CLASS_UNCERTAIN, jk_landings = landings\<rparr>)"

definition index_jump_blocks :: "map_block list \<Rightarrow> cell \<rightharpoonup> map_block" where
  "index_jump_blocks blocks =
     fold (\<lambda>b m. if \<not> is_grid b then m
                 else case xyz_cell b of None \<Rightarrow> m | Some c \<Rightarrow> setdefault c b m) blocks Map.empty"

definition validate_jumps :: "map_block list \<Rightarrow> geometry_lookup \<Rightarrow> cell list \<Rightarrow> cell set option
    \<Rightarrow> jump_cone option \<Rightarrow> int \<Rightarrow> jump_report" where
  "validate_jumps blocks geo route replay cone min_gap =
     (let cone = get_or cone default_cone;
          idx = index_jump_blocks blocks;
          candidates = detect_jump_candidates idx geo min_gap route
      in \<lparr>jr_classifications = map (\<lambda>ca.
            classify_jump ca (find_landing_candidates idx geo cone ca) replay) candidates,
          jr_cone = cone, jr_route_cells_total = length route\<rparr>)"

subsection \<open>Lemmas\<close>

lemma index_jump_blocks_eq: "index_jump_blocks blocks = index_blocks blocks"
  unfolding index_jump_blocks_def index_blocks_def
  by (rule arg_cong [where f = "\<lambda>f. fold f blocks Map.empty"])
    (auto simp: fun_eq_iff block_cell_def)

interpretation jump_index: cell_index index_jump_blocks block_cell
  by unfold_locales (simp add: index_jump_blocks_eq geom_index.build_first)

lemma jump_index_first: "index_jump_blocks blocks = first_at blocks"
  by (rule ext) (rule jump_index.build_first)

lemma forward_axis_unit:
  "forward_axis a b \<in> {(1, 0), (-1, 0), (0, 1), (0, -1)}"
  by (auto simp: forward_axis_def Let_def)

lemma cone_cells_coords:
  "p \<in> set (cone_cells cone (ox, oy, oz) (fx, fz)) \<longleftrightarrow>
     (\<exists>s \<in> {jc_forward_min cone..jc_forward_max cone}.
      \<exists>l \<in> {- jc_lateral_half_width cone..jc_lateral_half_width cone}.
      \<exists>d \<in> {- jc_max_drop cone..jc_max_rise cone}.
        p = (ox + fx * s - fz * l, oy + d, oz + fz * s + fx * l))"
  by (simp add: cone_cells_def Let_def image_iff)

lemma cone_cells_mem:
  assumes "(fx, fz) \<in> {(1, 0), (-1, 0), (0, 1), (0, -1)}"
  shows "(x, y, z) \<in> set (cone_cells cone (ox, oy, oz) (fx, fz)) \<longleftrightarrow>
    jc_forward_min cone \<le> fx * (x - ox) + fz * (z - oz) \<and> fx * (x - ox) + fz * (z - oz) \<le> jc_forward_max cone \<and>
    \<bar>fx * (z - oz) - fz * (x - ox)\<bar> \<le> jc_lateral_half_width cone \<and>
    - jc_max_drop cone \<le> y - oy \<and> y - oy \<le> jc_max_rise cone"
    (is "?L \<longleftrightarrow> ?R")
proof
  assume ?L
  then show ?R using assms by (auto simp: cone_cells_coords)
next
  assume R: ?R
  have unit: "fx * fx + fz * fz = 1" using assms by auto
  let ?s = "fx * (x - ox) + fz * (z - oz)" and ?l = "fx * (z - oz) - fz * (x - ox)"
  have "x = ox + fx * ?s - fz * ?l" and "z = oz + fz * ?s + fx * ?l"
    using assms by auto
  with R show ?L
    unfolding cone_cells_coords
    by (intro bexI [of _ ?s] bexI [of _ ?l] bexI [of _ "y - oy"]) (auto simp: abs_le_iff)
qed

subsection \<open>What the report says\<close>

text \<open>The search cone as a region: between the two forward distances along the dominant axis, within
  the lateral half width, and between the drop and the rise.\<close>

definition in_cone :: "jump_cone \<Rightarrow> cell \<Rightarrow> cell \<Rightarrow> cell \<Rightarrow> bool" where
  "in_cone cone takeoff nxt c =
     (case (takeoff, c, forward_axis takeoff nxt) of ((ox, oy, oz), (x, y, z), (fx, fz)) \<Rightarrow>
        fx * (x - ox) + fz * (z - oz) \<in> {jc_forward_min cone..jc_forward_max cone} \<and>
        \<bar>fx * (z - oz) - fz * (x - ox)\<bar> \<le> jc_lateral_half_width cone \<and>
        y - oy \<in> {- jc_max_drop cone..jc_max_rise cone})"

lemma landing_candidates_mem:
  "c \<in> set (find_landing_candidates idx geo cone ca) \<longleftrightarrow>
     in_cone cone (ca_takeoff_cell ca) (ca_next_route_cell ca) c \<and> is_landing idx geo c"
proof -
  obtain ox oy oz where o: "ca_takeoff_cell ca = (ox, oy, oz)" by (cases "ca_takeoff_cell ca")
  obtain x y z where c: "c = (x, y, z)" by (cases c)
  obtain fx fz where f: "forward_axis (ox, oy, oz) (ca_next_route_cell ca) = (fx, fz)" by force
  have "(fx, fz) \<in> {(1, 0), (-1, 0), (0, 1), (0, -1)}"
    using forward_axis_unit [of "(ox, oy, oz)" "ca_next_route_cell ca"] unfolding f .
  from cone_cells_mem [OF this, of x y z cone ox oy oz]
  show ?thesis by (auto simp: find_landing_candidates_def in_cone_def o c f)
qed

lemma jump_step_fields:
  "jump_step idx geo min_gap s = Some ca \<Longrightarrow>
     s = (ca_takeoff_cell ca, ca_next_route_cell ca) \<and>
     ca_takeoff_shape ca = takeoff_shape_of idx geo (ca_takeoff_cell ca) \<and>
     ca_gap_cheb ca = chebyshev (ca_takeoff_cell ca) (ca_next_route_cell ca)"
  by (auto simp: jump_step_def Let_def split: prod.splits if_splits)

lemma jump_step_None:
  "jump_step idx geo min_gap (a, b) = None \<longleftrightarrow>
     chebyshev a b < min_gap \<and> takeoff_shape_of idx geo a \<notin> set TAKEOFF_SHAPES"
  by (auto simp: jump_step_def Let_def)

lemma candidate_steps:
  "map (\<lambda>ca. (ca_takeoff_cell ca, ca_next_route_cell ca)) (List.map_filter (jump_step idx geo min_gap) ss) =
     filter (\<lambda>(a, b). min_gap \<le> chebyshev a b \<or> takeoff_shape_of idx geo a \<in> set TAKEOFF_SHAPES) ss"
proof (induction ss)
  case (Cons s ss)
  obtain a b where s: "s = (a, b)" by (cases s)
  show ?case
  proof (cases "jump_step idx geo min_gap s")
    case None
    moreover have "chebyshev a b < min_gap \<and> takeoff_shape_of idx geo a \<notin> set TAKEOFF_SHAPES"
      using None unfolding s jump_step_None .
    ultimately show ?thesis using Cons by (auto simp: s map_filter_Cons)
  next
    case (Some ca)
    then have "\<not> (chebyshev a b < min_gap \<and> takeoff_shape_of idx geo a \<notin> set TAKEOFF_SHAPES)"
      by (metis jump_step_None option.distinct(1) s)
    with Cons jump_step_fields [OF Some] Some show ?thesis by (auto simp: s map_filter_Cons)
  qed
qed (simp add: List.map_filter_def)

lemma classify_candidate [simp]: "jk_candidate (classify_jump ca landings replay) = ca"
  by (simp add: classify_jump_def)

text \<open>
  The jumps a report classifies are, in route order, exactly the steps of the route that span at
  least the minimal gap or start on a block with a take-off shape (the first grid block listed for
  that cell).
\<close>

theorem jump_candidates_exact:
  "map (\<lambda>k. (ca_takeoff_cell (jk_candidate k), ca_next_route_cell (jk_candidate k)))
     (jr_classifications (validate_jumps blocks geo route replay cone min_gap)) =
   filter (\<lambda>(a, b). min_gap \<le> chebyshev a b \<or>
       takeoff_shape_of (first_at blocks) geo a \<in> set TAKEOFF_SHAPES) (steps_of route)"
  using candidate_steps [of "first_at blocks" geo min_gap "steps_of route"]
  by (simp add: validate_jumps_def Let_def detect_jump_candidates_def jump_index_first comp_def)

text \<open>
  The verdict on each classified jump, from the declarative cone: it is supported by replay iff the
  replay evidence contains the take-off and a cell next to the landing; otherwise plausible iff some
  landing surface of the cone touches the next route cell, broken iff the cone holds no landing
  surface and the take-off is a ramp or loop; and the reported landings are exactly the landing
  surfaces of the cone.
\<close>

theorem jump_classification_exact:
  assumes k: "k \<in> set (jr_classifications (validate_jumps blocks geo route replay (Some cone) min_gap))"
  defines "a \<equiv> ca_takeoff_cell (jk_candidate k)" and "b \<equiv> ca_next_route_cell (jk_candidate k)"
  defines "driven \<equiv> replay_supports (jk_candidate k) replay"
    and "lands \<equiv> {c. in_cone cone a b c \<and> is_landing (first_at blocks) geo c}"
  shows "(jk_class k = CLASS_SUPPORTED_BY_REPLAY) = driven \<and>
    (jk_class k = CLASS_GEOMETRICALLY_PLAUSIBLE) = (\<not> driven \<and> (\<exists>c \<in> lands. chebyshev b c \<le> 1)) \<and>
    (jk_class k = CLASS_LIKELY_BROKEN) =
      (\<not> driven \<and> lands = {} \<and> takeoff_shape_of (first_at blocks) geo a \<in> set TAKEOFF_SHAPES) \<and>
    set (jk_landings k) = lands"
proof -
  let ?idx = "first_at blocks"
  from k obtain ca s where ca: "jump_step ?idx geo min_gap s = Some ca"
    and k_eq: "k = classify_jump ca (find_landing_candidates ?idx geo cone ca) replay"
    by (auto simp: validate_jumps_def Let_def detect_jump_candidates_def jump_index_first
        set_map_filter get_or_def)
  have lands: "lands = set (find_landing_candidates ?idx geo cone ca)"
    by (auto simp: lands_def a_def b_def k_eq landing_candidates_mem)
  have shape: "takeoff_shape_of ?idx geo a = ca_takeoff_shape ca"
    using jump_step_fields [OF ca] by (simp add: a_def k_eq)
  show ?thesis
    unfolding lands shape by (auto simp: classify_jump_def driven_def k_eq b_def)
qed

text \<open>A jump is broken when it takes off from a ramp or a loop, no replay drove it and its cone holds no
  landing surface.\<close>

definition broken_jump :: "map_block list \<Rightarrow> geometry_lookup \<Rightarrow> jump_cone \<Rightarrow> cell set option \<Rightarrow> cell \<Rightarrow> cell \<Rightarrow> bool" where
  "broken_jump blocks geo cone replay a b \<longleftrightarrow>
     takeoff_shape_of (first_at blocks) geo a \<in> set TAKEOFF_SHAPES \<and>
     \<not> (\<exists>cells. replay = Some cells \<and> a \<in> cells \<and> (\<exists>c \<in> cells. chebyshev b c \<le> 1)) \<and>
     \<not> (\<exists>c. in_cone cone a b c \<and> is_landing (first_at blocks) geo c)"

lemma classify_broken:
  assumes "jump_step (first_at blocks) geo min_gap (a, b) = Some ca"
  shows "jk_class (classify_jump ca (find_landing_candidates (first_at blocks) geo cone ca) replay) = CLASS_LIKELY_BROKEN \<longleftrightarrow>
    broken_jump blocks geo cone replay a b"
proof -
  have ca: "ca_takeoff_cell ca = a" "ca_next_route_cell ca = b"
    "ca_takeoff_shape ca = takeoff_shape_of (first_at blocks) geo a"
    using jump_step_fields [OF assms] by simp_all
  define ls where "ls = find_landing_candidates (first_at blocks) geo cone ca"
  have "set ls = {c. in_cone cone a b c \<and> is_landing (first_at blocks) geo c}"
    unfolding ls_def by (rule set_eqI) (simp only: landing_candidates_mem ca mem_Collect_eq)
  then have none: "ls = [] \<longleftrightarrow> \<not> (\<exists>c. in_cone cone a b c \<and> is_landing (first_at blocks) geo c)"
    by (simp add: set_empty [symmetric] del: set_empty)
  have driven: "replay_supports ca replay \<longleftrightarrow> (\<exists>cells. replay = Some cells \<and> a \<in> cells \<and> (\<exists>c \<in> cells. chebyshev b c \<le> 1))"
    by (cases replay) (simp_all add: replay_supports_def ca)
  show ?thesis
    unfolding broken_jump_def none [symmetric] driven [symmetric] ca(3) [symmetric] ls_def [symmetric]
    by (simp add: classify_jump_def)
qed

lemma broken_steps:
  "(\<exists>k \<in> set (jr_classifications (validate_jumps blocks geo route replay cone min_gap)). jk_class k = CLASS_LIKELY_BROKEN) \<longleftrightarrow>
     (\<exists>(a, b) \<in> set (steps_of route). broken_jump blocks geo (get_or cone default_cone) replay a b)"
proof -
  let ?idx = "first_at blocks" and ?cone = "get_or cone default_cone"
  let ?k = "\<lambda>ca. classify_jump ca (find_landing_candidates ?idx geo ?cone ca) replay"
  have "(case jump_step ?idx geo min_gap s of None \<Rightarrow> False | Some ca \<Rightarrow> jk_class (?k ca) = CLASS_LIKELY_BROKEN) \<longleftrightarrow>
      (case s of (a, b) \<Rightarrow> broken_jump blocks geo ?cone replay a b)" for s
  proof -
    obtain a b where Pair: "s = (a, b)" by (rule prod.exhaust)
    show ?thesis
    proof (cases "jump_step ?idx geo min_gap (a, b)")
      case None
      moreover from None have "\<not> broken_jump blocks geo ?cone replay a b"
        unfolding jump_step_None broken_jump_def by blast
      ultimately show ?thesis by (simp only: Pair option.case prod.case)
    next
      case (Some ca)
      then show ?thesis using classify_broken [OF Some] by (simp only: Pair option.case prod.case)
    qed
  qed
  then show ?thesis
    by (simp add: validate_jumps_def Let_def detect_jump_candidates_def jump_index_first bex_map_filter)
qed

lemma replay_supports_mono:
  "replay_supports ca replay \<Longrightarrow> set_option replay \<noteq> {} \<longrightarrow> \<Union>(set_option replay) \<subseteq> cells \<Longrightarrow>
     replay_supports ca (Some cells)"
  by (auto simp: replay_supports_def split: option.splits)

text \<open>
  Replay evidence can only help: with more driven cells every classified jump keeps its class or is
  promoted to supported-by-replay, so no failure or warning is ever added.
\<close>

theorem replay_only_promotes:
  assumes "\<Union>(set_option replay) \<subseteq> cells"
  shows "list_all2 (\<lambda>k k'. jk_candidate k = jk_candidate k' \<and>
      (jk_class k' = jk_class k \<or> jk_class k' = CLASS_SUPPORTED_BY_REPLAY))
    (jr_classifications (validate_jumps blocks geo route replay cone min_gap))
    (jr_classifications (validate_jumps blocks geo route (Some cells) cone min_gap))"
proof -
  have "jk_class (classify_jump ca ls (Some cells)) = jk_class (classify_jump ca ls replay) \<or>
      jk_class (classify_jump ca ls (Some cells)) = CLASS_SUPPORTED_BY_REPLAY" for ca ls
    using replay_supports_mono [of ca replay cells] assms by (auto simp: classify_jump_def)
  then show ?thesis
    by (simp add: validate_jumps_def Let_def list_all2_conv_all_nth)
qed

subsection \<open>A ramp towards a road three cells ahead\<close>

definition demo_jump_blocks :: "map_block list" where
  "demo_jump_blocks = [(demo_map_block 0 5)\<lparr>mb_name := Some ''R''\<rparr>, demo_map_block 1 8]"

definition demo_jump_geo :: geometry_lookup where
  "demo_jump_geo = (demo_geo 1)((''Road'', ''R'') \<mapsto> \<lparr>gi_footprint_x = 1, gi_footprint_y = 1,
     gi_footprint_z = 1, gi_connector_hint = '''', gi_shape_class = ''ramp'', gi_is_anchor_capable = False\<rparr>)"

definition demo_cone :: jump_cone where
  "demo_cone = \<lparr>jc_forward_min = 2, jc_forward_max = 3, jc_max_rise = 0, jc_max_drop = 1,
     jc_lateral_half_width = 0\<rparr>"

definition demo_jump :: jump_classification where
  "demo_jump = hd (jr_classifications
     (validate_jumps demo_jump_blocks demo_jump_geo [(5, 9, 5), (8, 9, 5)] None (Some demo_cone) 2))"

lemma demo_jump_mem:
  "demo_jump \<in> set (jr_classifications
     (validate_jumps demo_jump_blocks demo_jump_geo [(5, 9, 5), (8, 9, 5)] None (Some demo_cone) 2))"
  by code_simp

theorem jump_classification_exact_witness:
  "jk_class demo_jump = CLASS_GEOMETRICALLY_PLAUSIBLE"
proof -
  have "in_cone demo_cone (ca_takeoff_cell (jk_candidate demo_jump))
      (ca_next_route_cell (jk_candidate demo_jump)) (8, 9, 5)"
    "is_landing (first_at demo_jump_blocks) demo_jump_geo (8, 9, 5)"
    "chebyshev (ca_next_route_cell (jk_candidate demo_jump)) (8, 9, 5) \<le> 1"
    "\<not> replay_supports (jk_candidate demo_jump) None"
    by code_simp+
  with jump_classification_exact [OF demo_jump_mem] show ?thesis by blast
qed

theorem replay_only_promotes_witness:
  "length (jr_classifications (validate_jumps demo_jump_blocks demo_jump_geo [(5, 9, 5), (8, 9, 5)] None None 2)) =
   length (jr_classifications
     (validate_jumps demo_jump_blocks demo_jump_geo [(5, 9, 5), (8, 9, 5)] (Some {(5, 9, 5)}) None 2))"
  by (rule list_all2_lengthD [OF replay_only_promotes]) simp

end
