(* ===== verification/Route_Assembly.thy ===== *)
theory Route_Assembly
  imports Prelude
begin

section \<open>Route assembly\<close>

text \<open>
  Model of \<^verbatim>\<open>src/src/generation/types.py\<close> and \<^verbatim>\<open>src/src/generation/assembly.py\<close>: from the
  ordered anchors of a map and the corridors between them, one corridor is chosen per interval and
  the chain is checked. Scores are finite doubles, that is rationals: comparison and negation are
  exact, while addition, multiplication, division and \<open>sum\<close> are those of a parameter
  \<open>F\<close> without laws. The keyed hash \<open>blake2b\<close> is the parameter \<open>blake\<close>, from the payload to
  the integer its eight bytes denote. Database rows arrive as records; the text of a log line is not
  modelled, the detail of an error is a structured value.

  Main results: a route visits all anchors in order with a scored corridor for each interval, the
  chosen corridor is among the first \<open>top_k\<close> by learned score, assembly succeeds exactly when every
  interval has a scored corridor, and \<open>chain_broken\<close> is never reported.
\<close>

subsection \<open>Types\<close>

datatype reject_reason =
    plain_cp_not_supported_v0 | missing_corridor_in_interval | chain_broken | empty_corridors
  | confidence_below_floor | unknown_block | invalid_schema | stripped_route_broken
  | beam_exhausted | interval_validation_failed | no_valid_candidates

record anchor =
  an_tag :: string
  an_order :: int
  an_cell :: "cell option"

record chosen_corridor =
  ch_corridor_id :: int
  ch_map_id :: int
  ch_src :: anchor
  ch_dst :: anchor
  ch_path_cells :: "cell list"
  ch_path_length :: int
  ch_contains_virtual_edge :: bool
  ch_corridor_confidence :: "rat option"
  ch_learned_corridor_score :: rat
  ch_expected_time_ms :: int
  ch_combined_sequence_score :: "rat option"
  ch_validation_score :: "rat option"

record interval_assembly =
  iv_index :: nat
  iv_src :: anchor
  iv_dst :: anchor
  iv_chosen :: chosen_corridor

record assembled_route =
  ar_map_id :: int
  ar_anchors :: "anchor list"
  ar_intervals :: "interval_assembly list"
  ar_cells_total :: int
  ar_estimated_time_ms :: int
  ar_ai_confidence :: rat

datatype assembly_detail =
    AnchorSequence nat
  | LinkedOnly
  | NoCorridorRows
  | NoScoredCorridor anchor anchor
  | EmptyPathCells nat
  | ChainBreak nat cell cell

record assembly_error =
  ae_reason :: reject_reason
  ae_detail :: assembly_detail
  ae_interval_index :: "nat option"

record candidate_corridor =
  cc_corridor_id :: int
  cc_map_id :: int
  cc_src :: anchor
  cc_dst :: anchor
  cc_path_cells :: "cell list"
  cc_path_length :: int
  cc_contains_virtual_edge :: bool
  cc_corridor_confidence :: "rat option"
  cc_learned_corridor_score :: "rat option"
  cc_combined_sequence_score :: "rat option"
  cc_validation_score :: "rat option"

record assembly_inputs =
  ai_map_id :: int
  ai_is_linked_cp :: bool
  ai_anchors :: "anchor list"
  ai_candidates :: "candidate_corridor list"
  ai_random_seed :: int
  ai_top_k_candidates :: int
  ai_use_validation_tie_break :: bool

subsection \<open>Physics, tie-breaks and the pick\<close>

text \<open>\<open>round\<close> to the nearest integer, halves to even.\<close>

definition py_round :: "rat \<Rightarrow> int" where
  "py_round q =
     (let f = \<lfloor>q\<rfloor>; d = q - of_int f
      in if d < 1 / 2 then f else if 1 / 2 < d then f + 1 else if even f then f else f + 1)"

definition BLOCK_SIZE_M :: rat where "BLOCK_SIZE_M = 32"
definition DEFAULT_SPEED_PRIOR_M_S :: rat where "DEFAULT_SPEED_PRIOR_M_S = 30"

definition expected_time_ms :: "rat fops \<Rightarrow> int \<Rightarrow> int" where
  "expected_time_ms F path_length_cells =
     (if path_length_cells \<le> 0 then 0
      else let seconds = f_div F (f_mul F (f_lit F (of_int path_length_cells)) BLOCK_SIZE_M)
                 DEFAULT_SPEED_PRIOR_M_S
        in py_round (f_mul F seconds 1000))"

definition neg_score :: "rat option \<Rightarrow> rat" where
  "neg_score v = - (case v of None \<Rightarrow> -1 | Some s \<Rightarrow> s)"

definition tie_break_key :: "candidate_corridor \<Rightarrow> rat \<times> rat \<times> int \<times> int" where
  "tie_break_key c = (neg_score (cc_learned_corridor_score c), neg_score (cc_combined_sequence_score c),
     cc_path_length c, cc_corridor_id c)"

definition tie_break_key_with_validation ::
    "candidate_corridor \<Rightarrow> rat \<times> int \<times> rat \<times> rat \<times> int \<times> int" where
  "tie_break_key_with_validation c =
     (let zero_floor = (if cc_validation_score c = Some 0 then 1 else 0)
      in (neg_score (cc_learned_corridor_score c), zero_floor, neg_score (cc_validation_score c),
          neg_score (cc_combined_sequence_score c), cc_path_length c, cc_corridor_id c))"

text \<open>The payload of the hash.\<close>

definition pick_within_top_k :: "(string \<Rightarrow> nat) \<Rightarrow> int \<Rightarrow> nat \<Rightarrow> nat \<Rightarrow> int \<Rightarrow> nat" where
  "pick_within_top_k blake random_seed interval_index pool_size top_k =
     (let k = min (max 1 top_k) (max 1 (int pool_size))
      in if k \<le> 1 then 0
         else blake (py_str_int random_seed @ '':'' @ py_str_int (int interval_index)) mod nat k)"

definition cells_continuous :: "cell \<Rightarrow> cell \<Rightarrow> bool" where
  "cells_continuous end_cell start_cell = (chebyshev end_cell start_cell \<le> 1)"

subsection \<open>The pure assembly pass\<close>

type_synonym interval_key = "string \<times> int \<times> string \<times> int"

definition key_of :: "anchor \<Rightarrow> anchor \<Rightarrow> interval_key" where
  "key_of src dst = (an_tag src, an_order src, an_tag dst, an_order dst)"

definition corridor_key :: "candidate_corridor \<Rightarrow> interval_key" where
  "corridor_key c = key_of (cc_src c) (cc_dst c)"

text \<open>\<open>d.setdefault(key(c), []).append(c)\<close> for each \<open>c\<close>.\<close>

definition group_by :: "('a \<Rightarrow> 'k) \<Rightarrow> 'a list \<Rightarrow> ('k \<times> 'a list) list" where
  "group_by key cs =
     fold (\<lambda>c m. AList.update (key c) ((case map_of m (key c) of None \<Rightarrow> [] | Some l \<Rightarrow> l) @ [c]) m) cs []"

definition by_interval :: "candidate_corridor list \<Rightarrow> (interval_key \<times> candidate_corridor list) list" where
  "by_interval cs = group_by corridor_key cs"

definition chosen_of :: "rat fops \<Rightarrow> candidate_corridor \<Rightarrow> chosen_corridor" where
  "chosen_of F topc =
     \<lparr>ch_corridor_id = cc_corridor_id topc, ch_map_id = cc_map_id topc, ch_src = cc_src topc,
      ch_dst = cc_dst topc, ch_path_cells = cc_path_cells topc, ch_path_length = cc_path_length topc,
      ch_contains_virtual_edge = cc_contains_virtual_edge topc,
      ch_corridor_confidence = cc_corridor_confidence topc,
      ch_learned_corridor_score = (case cc_learned_corridor_score topc of None \<Rightarrow> 0 | Some s \<Rightarrow> s),
      ch_expected_time_ms = expected_time_ms F (cc_path_length topc),
      ch_combined_sequence_score = cc_combined_sequence_score topc,
      ch_validation_score = cc_validation_score topc\<rparr>"

definition ranked_pool :: "assembly_inputs \<Rightarrow> anchor \<Rightarrow> anchor \<Rightarrow> candidate_corridor list" where
  "ranked_pool inputs src dst =
     (let pool = (case map_of (by_interval (ai_candidates inputs)) (key_of src dst) of None \<Rightarrow> [] | Some l \<Rightarrow> l);
          scored_pool = filter (\<lambda>c. cc_learned_corridor_score c \<noteq> None) pool;
          learned_sorted = sort_key tie_break_key scored_pool
      in if ai_use_validation_tie_break inputs then sort_key tie_break_key_with_validation learned_sorted
         else learned_sorted)"

definition pick_interval :: "rat fops \<Rightarrow> (string \<Rightarrow> nat) \<Rightarrow> assembly_inputs \<Rightarrow> nat \<Rightarrow> anchor \<Rightarrow> anchor
    \<Rightarrow> assembly_error + interval_assembly" where
  "pick_interval F blake inputs idx src dst =
     (let scored_pool = ranked_pool inputs src dst
      in if scored_pool = []
         then Inl \<lparr>ae_reason = missing_corridor_in_interval, ae_detail = NoScoredCorridor src dst,
           ae_interval_index = Some idx\<rparr>
         else let topc = scored_pool ! pick_within_top_k blake (ai_random_seed inputs) idx
                    (length scored_pool) (ai_top_k_candidates inputs)
           in Inr \<lparr>iv_index = idx, iv_src = src, iv_dst = dst, iv_chosen = chosen_of F topc\<rparr>)"

fun pick_intervals :: "rat fops \<Rightarrow> (string \<Rightarrow> nat) \<Rightarrow> assembly_inputs \<Rightarrow> nat \<Rightarrow> anchor list
    \<Rightarrow> assembly_error + interval_assembly list" where
  "pick_intervals F blake inputs idx (src # dst # rest) =
     (case pick_interval F blake inputs idx src dst of
        Inl e \<Rightarrow> Inl e
      | Inr iv \<Rightarrow>
          (case pick_intervals F blake inputs (Suc idx) (dst # rest) of
             Inl e \<Rightarrow> Inl e
           | Inr ivs \<Rightarrow> Inr (iv # ivs)))"
| "pick_intervals F blake inputs idx _ = Inr []"

definition shares_anchor :: "chosen_corridor \<Rightarrow> chosen_corridor \<Rightarrow> bool" where
  "shares_anchor this_c next_c \<longleftrightarrow>
     an_tag (ch_dst this_c) = an_tag (ch_src next_c) \<and> an_order (ch_dst this_c) = an_order (ch_src next_c)"

fun check_chain :: "nat \<Rightarrow> chosen_corridor list \<Rightarrow> assembly_error option" where
  "check_chain idx (this_c # next_c # rest) =
     (if ch_path_cells this_c = [] \<or> ch_path_cells next_c = []
      then Some \<lparr>ae_reason = invalid_schema, ae_detail = EmptyPathCells idx, ae_interval_index = Some idx\<rparr>
      else if shares_anchor this_c next_c then check_chain (Suc idx) (next_c # rest)
      else let end_cell = last (ch_path_cells this_c); start_cell = hd (ch_path_cells next_c)
        in if \<not> cells_continuous end_cell start_cell
           then Some \<lparr>ae_reason = chain_broken, ae_detail = ChainBreak idx end_cell start_cell,
             ae_interval_index = Some idx\<rparr>
           else check_chain (Suc idx) (next_c # rest))"
| "check_chain idx _ = None"

definition assemble_route_from_inputs :: "rat fops \<Rightarrow> (string \<Rightarrow> nat) \<Rightarrow> assembly_inputs
    \<Rightarrow> assembly_error + assembled_route" where
  "assemble_route_from_inputs F blake inputs =
     (if length (ai_anchors inputs) < 2
      then Inl \<lparr>ae_reason = empty_corridors, ae_detail = AnchorSequence (length (ai_anchors inputs)),
        ae_interval_index = None\<rparr>
      else if \<not> ai_is_linked_cp inputs
      then Inl \<lparr>ae_reason = plain_cp_not_supported_v0, ae_detail = LinkedOnly, ae_interval_index = None\<rparr>
      else if ai_candidates inputs = []
      then Inl \<lparr>ae_reason = empty_corridors, ae_detail = NoCorridorRows, ae_interval_index = None\<rparr>
      else case pick_intervals F blake inputs 0 (ai_anchors inputs) of
          Inl e \<Rightarrow> Inl e
        | Inr intervals \<Rightarrow>
            (let chosen_corridors = map iv_chosen intervals
             in case check_chain 0 chosen_corridors of
                  Some e \<Rightarrow> Inl e
                | None \<Rightarrow>
                    Inr \<lparr>ar_map_id = ai_map_id inputs, ar_anchors = ai_anchors inputs,
                      ar_intervals = intervals,
                      ar_cells_total = sum_list (map ch_path_length chosen_corridors),
                      ar_estimated_time_ms = sum_list (map ch_expected_time_ms chosen_corridors),
                      ar_ai_confidence = f_div F (f_sum F (map ch_learned_corridor_score chosen_corridors))
                        (f_lit F (of_nat (length chosen_corridors)))\<rparr>))"

subsection \<open>The database wrapper\<close>

text \<open>Decoded JSON of one stored path: its elements are lists of scalars or anything else.\<close>

datatype json_item = JList "pyval list" | JOther

definition parse_cell :: "json_item \<Rightarrow> cell option" where
  "parse_cell item =
     (case item of
        JList [x, y, z] \<Rightarrow>
          (case (py_int x, py_int y, py_int z) of
             (Inr a, Inr b, Inr c) \<Rightarrow> Some (a, b, c)
           | _ \<Rightarrow> None)
      | _ \<Rightarrow> None)"

definition parse_cells :: "json_item list option \<Rightarrow> cell list" where
  "parse_cells raw = (case raw of None \<Rightarrow> [] | Some data \<Rightarrow> List.map_filter parse_cell data)"

record checkpoint_row =
  cr_waypoint_order :: int
  cr_tag :: string
  cr_x :: "int option"
  cr_y :: "int option"
  cr_z :: "int option"

record anchor_scan =
  as_spawn :: "anchor option"
  as_goal :: "anchor option"
  as_plain_cps :: "(int \<times> anchor) list"
  as_linked_cps :: "(int \<times> anchor) list"

definition row_anchor :: "checkpoint_row \<Rightarrow> anchor" where
  "row_anchor r =
     \<lparr>an_tag = cr_tag r, an_order = cr_waypoint_order r,
      an_cell = (case (cr_x r, cr_y r, cr_z r) of
          (Some x, Some y, Some z) \<Rightarrow> Some (x, y, z)
        | _ \<Rightarrow> None)\<rparr>"

definition al_setdefault :: "'k \<Rightarrow> 'v \<Rightarrow> ('k \<times> 'v) list \<Rightarrow> ('k \<times> 'v) list" where
  "al_setdefault k v m = (if map_of m k = None then m @ [(k, v)] else m)"

definition scan_row :: "checkpoint_row \<Rightarrow> anchor_scan \<Rightarrow> anchor_scan" where
  "scan_row r st =
     (let a = row_anchor r in
      if cr_tag r = ''Spawn'' then (if as_spawn st = None then st\<lparr>as_spawn := Some a\<rparr> else st)
      else if cr_tag r = ''Goal'' then (if as_goal st = None then st\<lparr>as_goal := Some a\<rparr> else st)
      else if cr_tag r = ''Checkpoint''
      then st\<lparr>as_plain_cps := al_setdefault (cr_waypoint_order r) a (as_plain_cps st)\<rparr>
      else if cr_tag r = ''LinkedCheckpoint''
      then st\<lparr>as_linked_cps := al_setdefault (cr_waypoint_order r) a (as_linked_cps st)\<rparr>
      else st)"

definition scan_rows :: "checkpoint_row list \<Rightarrow> anchor_scan" where
  "scan_rows rows = fold scan_row rows
     \<lparr>as_spawn = None, as_goal = None, as_plain_cps = [], as_linked_cps = []\<rparr>"

definition opt_list :: "'a option \<Rightarrow> 'a list" where
  "opt_list v = (case v of None \<Rightarrow> [] | Some x \<Rightarrow> [x])"

definition detect_and_order_anchors :: "checkpoint_row list \<Rightarrow> bool \<times> anchor list" where
  "detect_and_order_anchors rows =
     (let st = scan_rows rows;
          linked = (as_linked_cps st \<noteq> [] \<and> as_plain_cps st = [] \<and> as_goal st \<noteq> None);
          cps_source = (if linked then as_linked_cps st else AList.merge (as_plain_cps st) (as_linked_cps st))
      in (linked, opt_list (as_spawn st) @ List.map_filter (map_of cps_source) (sort (remdups (map fst cps_source))) @
            opt_list (as_goal st)))"

record corridor_row =
  co_id :: int
  co_map_id :: int
  co_src_tag :: string
  co_src_order :: int
  co_dst_tag :: string
  co_dst_order :: int
  co_path_cells :: "json_item list option"
  co_path_length :: int
  co_contains_virtual_edge :: bool
  co_corridor_confidence :: "rat option"
  co_learned_corridor_score :: "rat option"
  co_combined_sequence_score :: "rat option"

definition row_candidate :: "corridor_row \<Rightarrow> candidate_corridor" where
  "row_candidate r =
     \<lparr>cc_corridor_id = co_id r, cc_map_id = co_map_id r,
      cc_src = \<lparr>an_tag = co_src_tag r, an_order = co_src_order r, an_cell = None\<rparr>,
      cc_dst = \<lparr>an_tag = co_dst_tag r, an_order = co_dst_order r, an_cell = None\<rparr>,
      cc_path_cells = parse_cells (co_path_cells r), cc_path_length = co_path_length r,
      cc_contains_virtual_edge = co_contains_virtual_edge r,
      cc_corridor_confidence = co_corridor_confidence r,
      cc_learned_corridor_score = co_learned_corridor_score r,
      cc_combined_sequence_score = co_combined_sequence_score r, cc_validation_score = None\<rparr>"

text \<open>The validator pass identifies candidates by object identity, here their position in the list.\<close>

definition VALIDATOR_CANDIDATE_CAP :: int where "VALIDATOR_CANDIDATE_CAP = 10"

definition score_candidate :: "(candidate_corridor \<Rightarrow> nat \<Rightarrow> rat option) \<Rightarrow> nat \<Rightarrow> nat \<times> candidate_corridor
    \<Rightarrow> (nat \<times> candidate_corridor) list \<Rightarrow> (nat \<times> candidate_corridor) list" where
  "score_candidate validator idx ic replacements =
     (case ic of (pos, c) \<Rightarrow>
        if cc_learned_corridor_score c = None then replacements
        else case validator c idx of
            None \<Rightarrow> replacements
          | Some score \<Rightarrow> AList.update pos (c\<lparr>cc_validation_score := Some score\<rparr>) replacements)"

definition interval_order :: "interval_key list \<Rightarrow> interval_key list" where
  "interval_order keys =
     sort_key (\<lambda>(src_tag, src_order, dst_tag, dst_order). (src_order, dst_order, src_tag, dst_tag)) keys"

definition validator_replacements :: "(candidate_corridor \<Rightarrow> nat \<Rightarrow> rat option) \<Rightarrow> int
    \<Rightarrow> candidate_corridor list \<Rightarrow> (nat \<times> candidate_corridor) list" where
  "validator_replacements validator cap cs =
     (let groups = group_by (\<lambda>ic. corridor_key (snd ic)) (enumerate 0 cs)
      in fold (\<lambda>(idx, key).
           fold (score_candidate validator idx)
             (take (nat cap) (sort_key (\<lambda>ic. tie_break_key (snd ic))
               (case map_of groups key of None \<Rightarrow> [] | Some l \<Rightarrow> l))))
         (enumerate 0 (interval_order (map fst groups))) [])"

definition score_top_candidates_per_interval :: "(candidate_corridor \<Rightarrow> nat \<Rightarrow> rat option) \<Rightarrow> int
    \<Rightarrow> candidate_corridor list \<Rightarrow> candidate_corridor list" where
  "score_top_candidates_per_interval validator cap cs =
     (let replacements = validator_replacements validator cap cs
      in if replacements = [] then cs
         else map (\<lambda>(pos, c). case map_of replacements pos of None \<Rightarrow> c | Some c' \<Rightarrow> c') (enumerate 0 cs))"

definition assemble_route :: "rat fops \<Rightarrow> (string \<Rightarrow> nat) \<Rightarrow> checkpoint_row list \<Rightarrow> corridor_row list
    \<Rightarrow> int \<Rightarrow> int \<Rightarrow> int \<Rightarrow> (candidate_corridor \<Rightarrow> nat \<Rightarrow> rat option) option
    \<Rightarrow> assembly_error + assembled_route" where
  "assemble_route F blake anchor_rows corridor_rows map_id random_seed top_k_candidates validator =
     (let la = detect_and_order_anchors anchor_rows;
          candidates = map row_candidate corridor_rows;
          candidates = (case validator of
              None \<Rightarrow> candidates
            | Some v \<Rightarrow> score_top_candidates_per_interval v (max top_k_candidates VALIDATOR_CANDIDATE_CAP) candidates)
      in assemble_route_from_inputs F blake
           \<lparr>ai_map_id = map_id, ai_is_linked_cp = fst la, ai_anchors = snd la, ai_candidates = candidates,
            ai_random_seed = random_seed, ai_top_k_candidates = top_k_candidates,
            ai_use_validation_tie_break = (validator \<noteq> None)\<rparr>)"

subsection \<open>Grouping and ranking\<close>

lemma group_by_snoc:
  "group_by key (cs @ [c]) =
     AList.update (key c) ((case map_of (group_by key cs) (key c) of None \<Rightarrow> [] | Some l \<Rightarrow> l) @ [c])
       (group_by key cs)"
  by (simp add: group_by_def)

lemma group_by_lookup:
  "(case map_of (group_by key cs) k of None \<Rightarrow> [] | Some l \<Rightarrow> l) = filter (\<lambda>c. key c = k) cs"
proof (induction cs rule: rev_induct)
  case (snoc c cs)
  then show ?case by (auto simp: group_by_snoc update_conv')
qed (simp add: group_by_def)

lemma by_interval_lookup:
  "(case map_of (by_interval cs) k of None \<Rightarrow> [] | Some l \<Rightarrow> l) = filter (\<lambda>c. corridor_key c = k) cs"
  by (simp add: by_interval_def group_by_lookup)

text \<open>The corridors that compete for an interval, in no particular order.\<close>

definition scored_for :: "assembly_inputs \<Rightarrow> anchor \<Rightarrow> anchor \<Rightarrow> candidate_corridor list" where
  "scored_for inputs src dst =
     filter (\<lambda>c. corridor_key c = key_of src dst \<and> cc_learned_corridor_score c \<noteq> None) (ai_candidates inputs)"

lemma mset_ranked_pool [perm_facts]: "mset (ranked_pool inputs src dst) = mset (scored_for inputs src dst)"
  by (simp add: ranked_pool_def Let_def by_interval_lookup scored_for_def conj_commute)

lemma set_ranked_pool: "set (ranked_pool inputs src dst) = set (scored_for inputs src dst)"
  by (metis mset_ranked_pool set_mset_mset)

lemma length_ranked_pool: "length (ranked_pool inputs src dst) = length (scored_for inputs src dst)"
  by (metis mset_ranked_pool size_mset)

lemma ranked_pool_Nil: "ranked_pool inputs src dst = [] \<longleftrightarrow> scored_for inputs src dst = []"
  by (metis length_ranked_pool length_0_conv)

text \<open>Whatever the tie-break, the ranking is sorted by descending learned score.\<close>

lemma sorted_fst_key: "sorted (map f xs) \<Longrightarrow> sorted (map (\<lambda>x. fst (f x)) xs)" for f :: "_ \<Rightarrow> 'a::linorder \<times> 'b::linorder"
  unfolding sorted_map by (erule sorted_wrt_mono_rel [rotated]) (auto simp: less_eq_prod_def)

lemma ranked_pool_sorted: "sorted (map (\<lambda>c. neg_score (cc_learned_corridor_score c)) (ranked_pool inputs src dst))"
  using sorted_fst_key [of tie_break_key] sorted_fst_key [of tie_break_key_with_validation]
  by (simp add: ranked_pool_def Let_def tie_break_key_def tie_break_key_with_validation_def
      sorted_sort_key del: sorted_map)

lemma sorted_before:
  assumes "sorted (map f xs)" and "p < length xs"
  shows "length (filter (\<lambda>x. f x < f (xs ! p)) xs) \<le> p"
proof -
  have "{i. i < length xs \<and> f (xs ! i) < f (xs ! p)} \<subseteq> {..<p}"
  proof (rule subsetI, rule ccontr)
    fix i assume "i \<in> {i. i < length xs \<and> f (xs ! i) < f (xs ! p)}" "i \<notin> {..<p}"
    then show False using sorted_nth_mono [OF assms(1), of p i] assms(2) by (auto dest: leD)
  qed
  then have "card {i. i < length xs \<and> f (xs ! i) < f (xs ! p)} \<le> p"
    using card_mono [OF finite_lessThan] by (metis card_lessThan)
  then show ?thesis by (simp add: length_filter_conv_card)
qed

lemma pick_in_pool:
  assumes "pool_size > 0"
  shows "pick_within_top_k blake seed idx pool_size k < pool_size"
    and "int (pick_within_top_k blake seed idx pool_size k) < max 1 k"
proof -
  let ?k = "min (max 1 k) (max 1 (int pool_size))"
  have *: "pick_within_top_k blake seed idx pool_size k < nat ?k"
  proof (cases "?k \<le> 1")
    case False
    then show ?thesis unfolding pick_within_top_k_def Let_def by (subst if_not_P) (auto intro!: mod_less_divisor)
  qed (auto simp: pick_within_top_k_def less_max_iff_disj)
  then show "pick_within_top_k blake seed idx pool_size k < pool_size"
    using assms by linarith
  show "int (pick_within_top_k blake seed idx pool_size k) < max 1 k"
    using * by linarith
qed

subsection \<open>The chosen intervals\<close>

text \<open>What one chosen interval satisfies: a scored corridor for its anchors, and fewer than
  \<open>top_k\<close> corridors of that interval with a higher learned score.\<close>

definition interval_ok :: "rat fops \<Rightarrow> assembly_inputs \<Rightarrow> nat \<Rightarrow> anchor \<Rightarrow> anchor \<Rightarrow> interval_assembly \<Rightarrow> bool" where
  "interval_ok F inputs idx src dst iv \<longleftrightarrow>
     iv_index iv = idx \<and> iv_src iv = src \<and> iv_dst iv = dst \<and>
     (\<exists>c \<in> set (scored_for inputs src dst). iv_chosen iv = chosen_of F c \<and>
        int (length (filter (\<lambda>c'. neg_score (cc_learned_corridor_score c') < neg_score (cc_learned_corridor_score c))
          (scored_for inputs src dst))) < max 1 (ai_top_k_candidates inputs))"

lemma pick_interval_ok:
  assumes "pick_interval F blake inputs idx src dst = Inr iv"
  shows "interval_ok F inputs idx src dst iv"
proof -
  let ?pool = "ranked_pool inputs src dst"
  define p where "p = pick_within_top_k blake (ai_random_seed inputs) idx (length ?pool) (ai_top_k_candidates inputs)"
  from assms have ne: "?pool \<noteq> []"
    and iv: "iv = \<lparr>iv_index = idx, iv_src = src, iv_dst = dst, iv_chosen = chosen_of F (?pool ! p)\<rparr>"
    by (auto simp: pick_interval_def Let_def p_def split: if_splits)
  from ne have p: "p < length ?pool" "int p < max 1 (ai_top_k_candidates inputs)"
    unfolding p_def by (simp_all add: pick_in_pool)
  let ?better = "\<lambda>c'. neg_score (cc_learned_corridor_score c') < neg_score (cc_learned_corridor_score (?pool ! p))"
  have "length (filter ?better (scored_for inputs src dst)) = length (filter ?better ?pool)"
    by (rule length_filter_mset) (simp add: perm_facts)
  also have "\<dots> \<le> p"
    by (rule sorted_before [OF ranked_pool_sorted p(1)])
  finally have "int (length (filter ?better (scored_for inputs src dst))) < max 1 (ai_top_k_candidates inputs)"
    using p(2) by linarith
  then show ?thesis
    using nth_mem [OF p(1)] by (auto simp: interval_ok_def iv set_ranked_pool)
qed

lemma pick_interval_Inl:
  "(\<exists>e. pick_interval F blake inputs idx src dst = Inl e) \<longleftrightarrow> scored_for inputs src dst = []"
  by (auto simp: pick_interval_def Let_def ranked_pool_Nil)

lemma pick_interval_reason:
  "pick_interval F blake inputs idx src dst = Inl e \<Longrightarrow> ae_reason e = missing_corridor_in_interval"
  by (auto simp: pick_interval_def Let_def split: if_splits)

lemma pick_intervals_ok:
  assumes "pick_intervals F blake inputs idx as = Inr ivs"
  shows "length ivs = length as - 1 \<and>
    (\<forall>i < length ivs. interval_ok F inputs (idx + i) (as ! i) (as ! Suc i) (ivs ! i))"
  using assms
proof (induction F blake inputs idx as arbitrary: ivs rule: pick_intervals.induct)
  case (1 F blake inputs idx src dst rest)
  then obtain iv ivs' where iv: "pick_interval F blake inputs idx src dst = Inr iv"
    and rec: "pick_intervals F blake inputs (Suc idx) (dst # rest) = Inr ivs'" and ivs: "ivs = iv # ivs'"
    by (auto split: sum.splits)
  note IH = "1.IH" [OF iv rec]
  show ?case
  proof (intro conjI allI impI)
    show "length ivs = length (src # dst # rest) - 1" using IH ivs by simp
    fix i assume "i < length ivs"
    then show "interval_ok F inputs (idx + i) ((src # dst # rest) ! i) ((src # dst # rest) ! Suc i) (ivs ! i)"
      using IH pick_interval_ok [OF iv] by (cases i) (auto simp: ivs)
  qed
qed auto

lemma pick_intervals_Inl:
  "(\<exists>e. pick_intervals F blake inputs idx as = Inl e) \<longleftrightarrow>
     (\<exists>(src, dst) \<in> set (steps_of as). scored_for inputs src dst = [])"
proof (induction F blake inputs idx as rule: pick_intervals.induct)
  case (1 F blake inputs idx src dst rest)
  show ?case
  proof (cases "pick_interval F blake inputs idx src dst")
    case (Inl e)
    then show ?thesis using pick_interval_Inl [of F blake inputs idx src dst] by auto
  next
    case (Inr iv)
    then have "scored_for inputs src dst \<noteq> []"
      using pick_interval_Inl [of F blake inputs idx src dst] by auto
    moreover have "(\<exists>e. pick_intervals F blake inputs idx (src # dst # rest) = Inl e) \<longleftrightarrow>
        (\<exists>e. pick_intervals F blake inputs (Suc idx) (dst # rest) = Inl e)"
      using Inr by (auto split: sum.splits)
    ultimately show ?thesis using "1.IH" [OF Inr] by simp
  qed
qed auto

lemma pick_intervals_reason:
  "pick_intervals F blake inputs idx as = Inl e \<Longrightarrow> ae_reason e = missing_corridor_in_interval"
  by (induction F blake inputs idx as arbitrary: e rule: pick_intervals.induct)
    (auto split: sum.splits dest: pick_interval_reason)

lemma check_chain_reason:
  "check_chain idx cs = Some e \<Longrightarrow> ae_reason e \<in> {invalid_schema, chain_broken}"
  by (induction idx cs rule: check_chain.induct) (auto simp: Let_def split: if_splits)

text \<open>Corridors chosen for consecutive intervals meet in the anchor between them, so the adjacency
  test of their end cells is never reached.\<close>

lemma check_chain_shared:
  assumes "\<forall>(a, b) \<in> set (steps_of cs). shares_anchor a b"
  shows "check_chain idx cs \<noteq> None \<longleftrightarrow> (\<exists>(a, b) \<in> set (steps_of cs). ch_path_cells a = [] \<or> ch_path_cells b = [])"
    and "check_chain idx cs = Some e \<Longrightarrow> ae_reason e = invalid_schema"
  using assms by (induction idx cs rule: check_chain.induct) (auto split: if_splits)

lemma interval_ok_keys:
  "interval_ok F inputs i src dst iv \<Longrightarrow> key_of (ch_src (iv_chosen iv)) (ch_dst (iv_chosen iv)) = key_of src dst"
  by (auto simp: interval_ok_def scored_for_def corridor_key_def chosen_of_def)

lemma picked_share_anchors:
  assumes "pick_intervals F blake inputs idx as = Inr ivs"
  shows "\<forall>(a, b) \<in> set (steps_of (map iv_chosen ivs)). shares_anchor a b"
proof -
  have "shares_anchor (iv_chosen (ivs ! i)) (iv_chosen (ivs ! Suc i))" if "Suc i < length ivs" for i
  proof -
    have "interval_ok F inputs (idx + i) (as ! i) (as ! Suc i) (ivs ! i)"
      "interval_ok F inputs (idx + Suc i) (as ! Suc i) (as ! Suc (Suc i)) (ivs ! Suc i)"
      using pick_intervals_ok [OF assms] that by (simp_all del: add_Suc_right)
    then show ?thesis
      using interval_ok_keys by (fastforce simp: shares_anchor_def key_of_def)
  qed
  then show ?thesis by (auto simp: set_steps_of)
qed

text \<open>The four ways assembly can end.\<close>

lemma assemble_cases:
  obtains (empty) "length (ai_anchors inputs) < 2 \<or> ai_is_linked_cp inputs \<and> ai_candidates inputs = []"
      "\<exists>e. assemble_route_from_inputs F blake inputs = Inl e \<and> ae_reason e = empty_corridors"
  | (plain) "2 \<le> length (ai_anchors inputs)" "\<not> ai_is_linked_cp inputs"
      "\<exists>e. assemble_route_from_inputs F blake inputs = Inl e \<and> ae_reason e = plain_cp_not_supported_v0"
  | (missing) "2 \<le> length (ai_anchors inputs)" "ai_is_linked_cp inputs" "ai_candidates inputs \<noteq> []"
      "\<exists>(src, dst) \<in> set (steps_of (ai_anchors inputs)). scored_for inputs src dst = []"
      "\<exists>e. assemble_route_from_inputs F blake inputs = Inl e \<and> ae_reason e = missing_corridor_in_interval"
  | (picked) ivs where "2 \<le> length (ai_anchors inputs)" "ai_is_linked_cp inputs" "ai_candidates inputs \<noteq> []"
      "\<forall>(src, dst) \<in> set (steps_of (ai_anchors inputs)). scored_for inputs src dst \<noteq> []"
      "pick_intervals F blake inputs 0 (ai_anchors inputs) = Inr ivs"
      "assemble_route_from_inputs F blake inputs = (case check_chain 0 (map iv_chosen ivs) of
         Some e \<Rightarrow> Inl e
       | None \<Rightarrow> Inr \<lparr>ar_map_id = ai_map_id inputs, ar_anchors = ai_anchors inputs, ar_intervals = ivs,
           ar_cells_total = sum_list (map ch_path_length (map iv_chosen ivs)),
           ar_estimated_time_ms = sum_list (map ch_expected_time_ms (map iv_chosen ivs)),
           ar_ai_confidence = f_div F (f_sum F (map ch_learned_corridor_score (map iv_chosen ivs)))
             (f_lit F (of_nat (length (map iv_chosen ivs))))\<rparr>)"
proof (cases "length (ai_anchors inputs) < 2 \<or> \<not> ai_is_linked_cp inputs \<or> ai_candidates inputs = []")
  case True
  then show ?thesis
    by (cases "length (ai_anchors inputs) < 2"; cases "ai_is_linked_cp inputs")
      (auto simp: assemble_route_from_inputs_def intro: empty plain)
next
  case False
  note inl = pick_intervals_Inl [of F blake inputs 0 "ai_anchors inputs"]
  show ?thesis
  proof (cases "pick_intervals F blake inputs 0 (ai_anchors inputs)")
    case (Inl e)
    with inl have "\<exists>(src, dst) \<in> set (steps_of (ai_anchors inputs)). scored_for inputs src dst = []" by blast
    with False Inl pick_intervals_reason [OF Inl] show ?thesis
      by (intro missing) (auto simp: assemble_route_from_inputs_def)
  next
    case (Inr ivs)
    then have "\<not> (\<exists>e. pick_intervals F blake inputs 0 (ai_anchors inputs) = Inl e)" by simp
    with inl have "\<forall>(src, dst) \<in> set (steps_of (ai_anchors inputs)). scored_for inputs src dst \<noteq> []" by blast
    with False Inr show ?thesis
      by (intro picked [of ivs]) (auto simp: assemble_route_from_inputs_def Let_def)
  qed
qed

lemma route_intervals:
  assumes "assemble_route_from_inputs F blake inputs = Inr route"
  shows "length (ar_intervals route) = length (ai_anchors inputs) - 1 \<and>
    (\<forall>i < length (ar_intervals route).
       interval_ok F inputs i (ai_anchors inputs ! i) (ai_anchors inputs ! Suc i) (ar_intervals route ! i)) \<and>
    (\<forall>(a, b) \<in> set (steps_of (map iv_chosen (ar_intervals route))). shares_anchor a b)"
  using assms
proof (cases rule: assemble_cases [of inputs F blake])
  case (picked ivs)
  from picked(6) assms have "ar_intervals route = ivs" by (auto split: option.splits)
  then show ?thesis
    using pick_intervals_ok [OF picked(5)] picked_share_anchors [OF picked(5)] by simp
qed auto

lemma route_confidence:
  assumes "assemble_route_from_inputs F blake inputs = Inr route"
  shows "ar_ai_confidence route =
    f_div F (f_sum F (map (\<lambda>iv. ch_learned_corridor_score (iv_chosen iv)) (ar_intervals route)))
      (f_lit F (of_nat (length (ar_intervals route))))"
  using assms
  by (cases rule: assemble_cases [of inputs F blake]) (auto simp: comp_def split: option.splits)

lemma route_linked:
  assumes "assemble_route_from_inputs F blake inputs = Inr route"
  shows "ai_is_linked_cp inputs \<and> 2 \<le> length (ai_anchors inputs) \<and> ar_anchors route = ai_anchors inputs"
  using assms
  by (cases rule: assemble_cases [of inputs F blake]) (auto split: option.splits)

text \<open>
  C20. An assembled route belongs to a linked-checkpoint map, keeps its anchors, and has exactly one
  interval between every two consecutive anchors, numbered in order: each carries a corridor of the
  inputs with a learned score, stored for exactly these two anchors, and fewer than \<open>top_k\<close> corridors
  of that interval have a higher learned score (none for \<open>top_k = 1\<close>), whatever the seed and the
  tie-break.
\<close>

theorem assemble_sound:
  assumes "assemble_route_from_inputs F blake inputs = Inr route"
  shows "ai_is_linked_cp inputs \<and> 2 \<le> length (ai_anchors inputs) \<and> ar_anchors route = ai_anchors inputs \<and>
    length (ar_intervals route) = length (ar_anchors route) - 1 \<and>
    (\<forall>i < length (ar_intervals route).
       interval_ok F inputs i (ar_anchors route ! i) (ar_anchors route ! Suc i) (ar_intervals route ! i)) \<and>
    (\<forall>(a, b) \<in> set (steps_of (map iv_chosen (ar_intervals route))). shares_anchor a b)"
  using route_linked [OF assms] route_intervals [OF assms] by simp

text \<open>
  When no scored corridor has an empty path, assembly succeeds exactly for a linked-checkpoint
  map with at least two anchors and a scored corridor for every interval.
\<close>

theorem assemble_total:
  assumes "\<forall>c \<in> set (ai_candidates inputs). cc_learned_corridor_score c \<noteq> None \<longrightarrow> cc_path_cells c \<noteq> []"
  shows "(\<exists>route. assemble_route_from_inputs F blake inputs = Inr route) =
    (2 \<le> length (ai_anchors inputs) \<and> ai_is_linked_cp inputs \<and>
     (\<forall>(src, dst) \<in> set (steps_of (ai_anchors inputs)). scored_for inputs src dst \<noteq> []))"
proof (cases rule: assemble_cases [of inputs F blake])
  case empty
  have "steps_of (ai_anchors inputs) \<noteq> []" if "2 \<le> length (ai_anchors inputs)"
    using that length_steps_of [of "ai_anchors inputs"] by (metis One_nat_def Suc_1 diff_is_0_eq list.size(3) not_less_eq_eq)
  with empty show ?thesis by (cases "steps_of (ai_anchors inputs)") (auto simp: scored_for_def)
next
  case (picked ivs)
  have "ch_path_cells (iv_chosen iv) \<noteq> []" if "iv \<in> set ivs" for iv
  proof -
    from that obtain i where "i < length ivs" "iv = ivs ! i" by (auto simp: in_set_conv_nth)
    with pick_intervals_ok [OF picked(5)] have "interval_ok F inputs i (ai_anchors inputs ! i) (ai_anchors inputs ! Suc i) iv"
      by simp
    with assms show ?thesis by (auto simp: interval_ok_def scored_for_def chosen_of_def)
  qed
  then have "check_chain 0 (map iv_chosen ivs) = None"
    using check_chain_shared(1) [OF picked_share_anchors [OF picked(5)], of 0] by (auto simp: set_steps_of)
  with picked show ?thesis by simp
qed auto

text \<open>
  The reasons assembly can give, and when. \<open>chain_broken\<close> is not among them: chosen corridors of
  consecutive intervals always share the anchor between them.
\<close>

theorem assemble_errors:
  assumes "assemble_route_from_inputs F blake inputs = Inl e"
  shows "(ae_reason e = empty_corridors) =
      (length (ai_anchors inputs) < 2 \<or> ai_is_linked_cp inputs \<and> ai_candidates inputs = []) \<and>
    (ae_reason e = plain_cp_not_supported_v0) = (2 \<le> length (ai_anchors inputs) \<and> \<not> ai_is_linked_cp inputs) \<and>
    (ae_reason e = missing_corridor_in_interval) =
      (2 \<le> length (ai_anchors inputs) \<and> ai_is_linked_cp inputs \<and> ai_candidates inputs \<noteq> [] \<and>
       (\<exists>(src, dst) \<in> set (steps_of (ai_anchors inputs)). scored_for inputs src dst = [])) \<and>
    ae_reason e \<in> {empty_corridors, plain_cp_not_supported_v0, missing_corridor_in_interval, invalid_schema}"
proof (cases rule: assemble_cases [of inputs F blake])
  case (picked ivs)
  with assms have "check_chain 0 (map iv_chosen ivs) = Some e" by (auto split: option.splits)
  then have "ae_reason e = invalid_schema"
    by (rule check_chain_shared(2) [OF picked_share_anchors [OF picked(5)]])
  with picked show ?thesis by fastforce
qed (use assms in auto)

subsection \<open>Anchors from checkpoint rows\<close>

abbreviation first_tagged :: "string \<Rightarrow> checkpoint_row list \<Rightarrow> anchor option" where
  "first_tagged tag rows \<equiv> map_option row_anchor (find (\<lambda>r. cr_tag r = tag) rows)"

abbreviation first_cp :: "string \<Rightarrow> checkpoint_row list \<Rightarrow> int \<Rightarrow> anchor option" where
  "first_cp tag rows k \<equiv> map_option row_anchor (find (\<lambda>r. cr_tag r = tag \<and> cr_waypoint_order r = k) rows)"

lemma al_setdefault_lookup:
  "map_of (al_setdefault k v m) = (if map_of m k = None then (map_of m)(k \<mapsto> v) else map_of m)"
  by (auto simp: al_setdefault_def fun_eq_iff map_add_def split: option.splits)

lemma scan_rows_snoc: "scan_rows (rows @ [r]) = scan_row r (scan_rows rows)"
  by (simp add: scan_rows_def)

lemma scan_spawn: "as_spawn (scan_rows rows) = first_tagged ''Spawn'' rows"
proof (induction rows rule: rev_induct)
  case (snoc r rows)
  then show ?case by (auto simp: scan_rows_snoc scan_row_def Let_def find_append split: option.splits)
qed (simp add: scan_rows_def)

lemma scan_goal: "as_goal (scan_rows rows) = first_tagged ''Goal'' rows"
proof (induction rows rule: rev_induct)
  case (snoc r rows)
  then show ?case by (auto simp: scan_rows_snoc scan_row_def Let_def find_append split: option.splits)
qed (simp add: scan_rows_def)

lemma scan_plain: "map_of (as_plain_cps (scan_rows rows)) = first_cp ''Checkpoint'' rows"
proof (induction rows rule: rev_induct)
  case (snoc r rows)
  then show ?case
    by (auto simp: scan_rows_snoc scan_row_def Let_def find_append al_setdefault_lookup fun_eq_iff
        split: option.splits)
qed (simp add: scan_rows_def)

lemma scan_linked: "map_of (as_linked_cps (scan_rows rows)) = first_cp ''LinkedCheckpoint'' rows"
proof (induction rows rule: rev_induct)
  case (snoc r rows)
  then show ?case
    by (auto simp: scan_rows_snoc scan_row_def Let_def find_append al_setdefault_lookup fun_eq_iff
        split: option.splits)
qed (simp add: scan_rows_def)

lemma first_cp_order: "first_cp tag rows k = Some a \<Longrightarrow> an_order a = k \<and> an_tag a = tag"
  by (auto simp: find_Some_iff row_anchor_def)

lemma map_filter_lookup:
  assumes "\<forall>k \<in> set ks. \<exists>a. f k = Some a \<and> g a = k"
  shows "map g (List.map_filter f ks) = ks"
  using assms by (induction ks) (auto simp: map_filter_Cons)

lemma al_Nil_iff: "xs = [] \<longleftrightarrow> map_of xs = Map.empty"
  by (cases xs) auto

text \<open>
  For a map recognised as linked there is no plain checkpoint row, and the anchors are: the first
  spawn row if any, one anchor for each distinct order of a linked checkpoint in strictly increasing
  order (from the first row with that order, so a multi-cell gate counts once), and the first goal row.
\<close>

lemma linked_anchors:
  assumes "detect_and_order_anchors rows = (True, as)"
  shows "\<exists>cps goal. as = opt_list (first_tagged ''Spawn'' rows) @ cps @ [goal] \<and>
    first_tagged ''Goal'' rows = Some goal \<and>
    sorted_wrt (<) (map an_order cps) \<and>
    set (map an_order cps) = {cr_waypoint_order r | r. r \<in> set rows \<and> cr_tag r = ''LinkedCheckpoint''} \<and>
    (\<forall>a \<in> set cps. first_cp ''LinkedCheckpoint'' rows (an_order a) = Some a) \<and>
    (\<forall>r \<in> set rows. cr_tag r \<noteq> ''Checkpoint'')"
proof -
  define cps where "cps = as_linked_cps (scan_rows rows)"
  define ks where "ks = sort (remdups (map fst cps))"
  have lookup: "map_of cps = first_cp ''LinkedCheckpoint'' rows" by (simp add: cps_def scan_linked)
  from assms obtain goal where goal: "first_tagged ''Goal'' rows = Some goal"
    and plain: "as_plain_cps (scan_rows rows) = []"
    and as: "as = opt_list (first_tagged ''Spawn'' rows) @ List.map_filter (map_of cps) ks @ [goal]"
    by (auto simp: detect_and_order_anchors_def Let_def scan_spawn scan_goal cps_def ks_def opt_list_def
        split: if_splits)
  have keys: "set ks = dom (map_of cps)" by (simp add: ks_def dom_map_of_conv_image_fst)
  have orders: "map an_order (List.map_filter (map_of cps) ks) = ks"
  proof (rule map_filter_lookup, rule ballI)
    fix k assume "k \<in> set ks"
    then obtain a where "first_cp ''LinkedCheckpoint'' rows k = Some a" unfolding keys lookup by blast
    with first_cp_order show "\<exists>a. map_of cps k = Some a \<and> an_order a = k" unfolding lookup by blast
  qed
  have "sorted_wrt (<) ks" by (simp add: ks_def strict_sorted_iff)
  moreover have "set ks = {cr_waypoint_order r | r. r \<in> set rows \<and> cr_tag r = ''LinkedCheckpoint''}"
    by (auto simp: keys lookup dom_def find_None_iff)
  moreover have "first_cp ''LinkedCheckpoint'' rows (an_order a) = Some a"
    if "a \<in> set (List.map_filter (map_of cps) ks)" for a
  proof -
    from that obtain k where "first_cp ''LinkedCheckpoint'' rows k = Some a"
      unfolding set_map_filter lookup by blast
    with first_cp_order show ?thesis by blast
  qed
  moreover have "\<forall>r \<in> set rows. cr_tag r \<noteq> ''Checkpoint''"
    using plain scan_plain [of rows] by (auto simp: fun_eq_iff find_None_iff)
  ultimately show ?thesis using as goal orders by (intro exI [of _ "List.map_filter (map_of cps) ks"] exI [of _ goal]) auto
qed

subsection \<open>The validator pass\<close>

definition same_but_validation :: "candidate_corridor \<Rightarrow> candidate_corridor \<Rightarrow> bool" where
  "same_but_validation c c' \<longleftrightarrow> (\<exists>v. c' = c\<lparr>cc_validation_score := v\<rparr>)"

lemma same_but_validation_refl [simp]: "same_but_validation c c"
  unfolding same_but_validation_def by (rule exI [of _ "cc_validation_score c"]) simp

lemma same_but_validation_simps:
  assumes "same_but_validation c c'"
  shows "corridor_key c' = corridor_key c" and "cc_learned_corridor_score c' = cc_learned_corridor_score c"
    and "cc_path_cells c' = cc_path_cells c"
  using assms by (auto simp: same_but_validation_def corridor_key_def)

definition repl_ok :: "candidate_corridor list \<Rightarrow> (nat \<times> candidate_corridor) list \<Rightarrow> bool" where
  "repl_ok cs m \<longleftrightarrow> (\<forall>i c'. map_of m i = Some c' \<longrightarrow> i < length cs \<and> same_but_validation (cs ! i) c')"

lemma score_candidate_ok:
  "repl_ok cs m \<Longrightarrow> ic \<in> set (enumerate 0 cs) \<Longrightarrow> repl_ok cs (score_candidate v idx ic m)"
  by (auto simp: score_candidate_def repl_ok_def same_but_validation_def update_conv' in_set_enumerate_eq
      split: prod.splits option.splits if_splits)

lemma validator_replacements_ok: "repl_ok cs (validator_replacements v cap cs)"
proof -
  have grp: "set (case map_of (group_by (\<lambda>ic. corridor_key (snd ic)) (enumerate 0 cs)) key of
      None \<Rightarrow> [] | Some l \<Rightarrow> l) \<subseteq> set (enumerate 0 cs)" for key
    by (simp add: group_by_lookup)
  show ?thesis
    unfolding validator_replacements_def Let_def
  proof (rule fold_preserves)
    show "repl_ok cs []" by (simp add: repl_ok_def)
    fix ik and m assume "repl_ok cs m"
    then show "repl_ok cs ((case ik of (idx, key) \<Rightarrow> fold (score_candidate v idx)
        (take (nat cap) (sort_key (\<lambda>ic. tie_break_key (snd ic))
          (case map_of (group_by (\<lambda>ic. corridor_key (snd ic)) (enumerate 0 cs)) key of None \<Rightarrow> [] | Some l \<Rightarrow> l)))) m)"
      using grp [of "snd ik"] score_candidate_ok [of cs]
      by (cases ik) (auto intro!: fold_preserves [where P = "repl_ok cs"] dest!: in_set_takeD)
  qed
qed

lemma score_top_keeps: "list_all2 same_but_validation cs (score_top_candidates_per_interval v cap cs)"
proof -
  define m where "m = validator_replacements v cap cs"
  have "same_but_validation (cs ! i) (case map_of m i of None \<Rightarrow> cs ! i | Some c' \<Rightarrow> c')" if "i < length cs" for i
    using validator_replacements_ok [of cs v cap] by (auto simp: repl_ok_def m_def split: option.splits)
  then show ?thesis
    by (simp add: score_top_candidates_per_interval_def Let_def m_def [symmetric] list_all2_conv_all_nth
        nth_enumerate_eq)
qed

lemma same_filter_learned:
  "list_all2 same_but_validation cs cs' \<Longrightarrow>
     map cc_learned_corridor_score (filter (\<lambda>c. corridor_key c = k \<and> cc_learned_corridor_score c \<noteq> None) cs) =
     map cc_learned_corridor_score (filter (\<lambda>c. corridor_key c = k \<and> cc_learned_corridor_score c \<noteq> None) cs')"
  by (induction rule: list_all2_induct) (auto simp: same_but_validation_simps)

text \<open>With \<open>top_k \<le> 1\<close> the learned score of a chosen corridor is the best of its interval, so
  it depends only on the scores of the pool.\<close>

lemma interval_ok_best:
  assumes "interval_ok F inputs i src dst iv" and "ai_top_k_candidates inputs \<le> 1"
  shows "Some (ch_learned_corridor_score (iv_chosen iv)) \<in> cc_learned_corridor_score ` set (scored_for inputs src dst) \<and>
    (\<forall>s. Some s \<in> cc_learned_corridor_score ` set (scored_for inputs src dst) \<longrightarrow>
       s \<le> ch_learned_corridor_score (iv_chosen iv))"
proof -
  from assms obtain c where c: "c \<in> set (scored_for inputs src dst)" "iv_chosen iv = chosen_of F c"
    and best: "\<forall>c' \<in> set (scored_for inputs src dst).
      \<not> neg_score (cc_learned_corridor_score c') < neg_score (cc_learned_corridor_score c)"
  proof -
    have "max 1 (ai_top_k_candidates inputs) = 1" using assms(2) by simp
    with assms(1) that show ?thesis unfolding interval_ok_def by (auto simp: filter_empty_conv)
  qed
  from c obtain s where s: "cc_learned_corridor_score c = Some s" by (auto simp: scored_for_def)
  have "t \<le> s" if "c' \<in> set (scored_for inputs src dst)" "cc_learned_corridor_score c' = Some t" for c' t
    using best that s by (force simp: neg_score_def)
  with c s show ?thesis by (force simp: chosen_of_def)
qed

text \<open>
  The validator only breaks ties: when the top-ranked corridor is taken, assembling with any
  validator selects, interval by interval, corridors of the same learned score as assembling without
  one, and the route's confidence is the same.
\<close>

theorem validator_keeps_learned:
  assumes "assemble_route F blake arows crows map_id seed k None = Inr r"
    and "assemble_route F blake arows crows map_id seed k (Some v) = Inr r'"
    and "k \<le> 1"
  shows "map (\<lambda>iv. ch_learned_corridor_score (iv_chosen iv)) (ar_intervals r) =
      map (\<lambda>iv. ch_learned_corridor_score (iv_chosen iv)) (ar_intervals r') \<and>
    ar_ai_confidence r = ar_ai_confidence r'"
proof -
  let ?as = "snd (detect_and_order_anchors arows)" and ?cs = "map row_candidate crows"
  let ?cs' = "score_top_candidates_per_interval v (max k VALIDATOR_CANDIDATE_CAP) ?cs"
  obtain inp where a: "assemble_route_from_inputs F blake inp = Inr r"
    and inp: "ai_anchors inp = ?as" "ai_candidates inp = ?cs" "ai_top_k_candidates inp = k"
    using assms(1) by (auto simp: assemble_route_def Let_def)
  obtain inp' where a': "assemble_route_from_inputs F blake inp' = Inr r'"
    and inp': "ai_anchors inp' = ?as" "ai_candidates inp' = ?cs'" "ai_top_k_candidates inp' = k"
    using assms(2) by (auto simp: assemble_route_def Let_def)
  have pool: "map cc_learned_corridor_score (scored_for inp src dst) =
      map cc_learned_corridor_score (scored_for inp' src dst)" for src dst
    using same_filter_learned [OF score_top_keeps [of ?cs v "max k VALIDATOR_CANDIDATE_CAP"]]
    by (simp add: scored_for_def inp inp')
  have same: "map (\<lambda>iv. ch_learned_corridor_score (iv_chosen iv)) (ar_intervals r) =
      map (\<lambda>iv. ch_learned_corridor_score (iv_chosen iv)) (ar_intervals r')"
  proof (rule nth_equalityI)
    show len: "length (map (\<lambda>iv. ch_learned_corridor_score (iv_chosen iv)) (ar_intervals r)) =
        length (map (\<lambda>iv. ch_learned_corridor_score (iv_chosen iv)) (ar_intervals r'))"
      using route_intervals [OF a] route_intervals [OF a'] by (simp add: inp inp')
    fix i assume "i < length (map (\<lambda>iv. ch_learned_corridor_score (iv_chosen iv)) (ar_intervals r))"
    with len have i: "i < length (ar_intervals r)" "i < length (ar_intervals r')" by simp_all
    have ok: "interval_ok F inp i (?as ! i) (?as ! Suc i) (ar_intervals r ! i)"
      "interval_ok F inp' i (?as ! i) (?as ! Suc i) (ar_intervals r' ! i)"
      using route_intervals [OF a] route_intervals [OF a'] i by (simp_all add: inp inp')
    have "ai_top_k_candidates inp \<le> 1" "ai_top_k_candidates inp' \<le> 1" using assms(3) by (simp_all add: inp inp')
    then have "ch_learned_corridor_score (iv_chosen (ar_intervals r ! i)) =
        ch_learned_corridor_score (iv_chosen (ar_intervals r' ! i))"
      using interval_ok_best [OF ok(1)] interval_ok_best [OF ok(2)] arg_cong [OF pool, of set "?as ! i" "?as ! Suc i"]
      by (metis list.set_map order_antisym)
    with i show "map (\<lambda>iv. ch_learned_corridor_score (iv_chosen iv)) (ar_intervals r) ! i =
        map (\<lambda>iv. ch_learned_corridor_score (iv_chosen iv)) (ar_intervals r') ! i" by simp
  qed
  have "length (ar_intervals r) = length (ar_intervals r')" using same by (metis length_map)
  with same show ?thesis by (simp add: route_confidence [OF a] route_confidence [OF a'])
qed

subsection \<open>From rows to routes\<close>

lemma assemble_route_inputs:
  assumes "assemble_route F blake arows crows map_id seed k v = Inr route"
  obtains inputs where "assemble_route_from_inputs F blake inputs = Inr route"
    and "ai_anchors inputs = snd (detect_and_order_anchors arows)"
    and "ai_is_linked_cp inputs = fst (detect_and_order_anchors arows)"
    and "ai_top_k_candidates inputs = k"
    and "list_all2 same_but_validation (map row_candidate crows) (ai_candidates inputs)"
proof -
  define cs where "cs = (case v of None \<Rightarrow> map row_candidate crows
    | Some f \<Rightarrow> score_top_candidates_per_interval f (max k VALIDATOR_CANDIDATE_CAP) (map row_candidate crows))"
  have "list_all2 same_but_validation (map row_candidate crows) cs"
    unfolding cs_def by (cases v) (simp_all add: list.rel_refl score_top_keeps)
  with assms that show ?thesis by (auto simp: assemble_route_def Let_def cs_def [symmetric])
qed

text \<open>An interval between two given anchors whose corridor is a stored, scored row for exactly these
  anchors.\<close>

definition stored_interval :: "corridor_row list \<Rightarrow> anchor \<times> anchor \<Rightarrow> interval_assembly \<Rightarrow> bool" where
  "stored_interval crows ends iv \<longleftrightarrow>
     (case ends of (src, dst) \<Rightarrow>
        iv_src iv = src \<and> iv_dst iv = dst \<and>
        (\<exists>row \<in> set crows. co_src_tag row = an_tag src \<and> co_src_order row = an_order src \<and>
          co_dst_tag row = an_tag dst \<and> co_dst_order row = an_order dst \<and>
          co_learned_corridor_score row \<noteq> None \<and>
          ch_path_cells (iv_chosen iv) = parse_cells (co_path_cells row)))"

text \<open>A chosen corridor comes from a stored row of its interval.\<close>

lemma scored_row:
  assumes "list_all2 same_but_validation (map row_candidate crows) (ai_candidates inputs)"
    and "c \<in> set (scored_for inputs src dst)"
  shows "\<exists>row \<in> set crows. co_src_tag row = an_tag src \<and> co_src_order row = an_order src \<and>
    co_dst_tag row = an_tag dst \<and> co_dst_order row = an_order dst \<and>
    co_learned_corridor_score row \<noteq> None \<and> cc_path_cells c = parse_cells (co_path_cells row)"
proof -
  from assms(2) have c: "c \<in> set (ai_candidates inputs)" "corridor_key c = key_of src dst"
    "cc_learned_corridor_score c \<noteq> None"
    by (auto simp: scored_for_def)
  from assms(1) c(1) obtain row where "row \<in> set crows" "same_but_validation (row_candidate row) c"
    by (auto simp: list_all2_conv_all_nth in_set_conv_nth) (metis nth_map nth_mem)
  with c show ?thesis
    by (intro bexI [of _ row]) (auto dest: same_but_validation_simps simp: corridor_key_def key_of_def row_candidate_def)
qed

text \<open>What an assembled route is, from the database rows on.\<close>

lemma assembled_chain:
  assumes r: "assemble_route F blake arows crows map_id seed k v = Inr route"
  shows "\<exists>cps goal. (\<forall>r \<in> set arows. cr_tag r \<noteq> ''Checkpoint'') \<and>
    first_tagged ''Goal'' arows = Some goal \<and>
    ar_anchors route = opt_list (first_tagged ''Spawn'' arows) @ cps @ [goal] \<and>
    sorted_wrt (<) (map an_order cps) \<and>
    set (map an_order cps) = {cr_waypoint_order r | r. r \<in> set arows \<and> cr_tag r = ''LinkedCheckpoint''} \<and>
    (\<forall>a \<in> set cps. \<exists>row \<in> set arows. cr_tag row = ''LinkedCheckpoint'' \<and> a = row_anchor row) \<and>
    list_all2 (stored_interval crows) (steps_of (ar_anchors route)) (ar_intervals route)"
proof -
  from r obtain inputs where a: "assemble_route_from_inputs F blake inputs = Inr route"
    and anchors: "ai_anchors inputs = snd (detect_and_order_anchors arows)"
    and linked: "ai_is_linked_cp inputs = fst (detect_and_order_anchors arows)"
    and cs: "list_all2 same_but_validation (map row_candidate crows) (ai_candidates inputs)"
    by (rule assemble_route_inputs)
  have "detect_and_order_anchors arows = (True, ar_anchors route)"
    using route_linked [OF a] anchors linked by (simp add: prod_eq_iff)
  from linked_anchors [OF this] obtain cps goal where
    ls: "ar_anchors route = opt_list (first_tagged ''Spawn'' arows) @ cps @ [goal]"
      "first_tagged ''Goal'' arows = Some goal" "sorted_wrt (<) (map an_order cps)"
      "set (map an_order cps) = {cr_waypoint_order r | r. r \<in> set arows \<and> cr_tag r = ''LinkedCheckpoint''}"
      "\<forall>r \<in> set arows. cr_tag r \<noteq> ''Checkpoint''"
      "\<forall>a \<in> set cps. first_cp ''LinkedCheckpoint'' arows (an_order a) = Some a"
    by blast
  have from_row: "\<forall>a \<in> set cps. \<exists>row \<in> set arows. cr_tag row = ''LinkedCheckpoint'' \<and> a = row_anchor row"
    using ls(6) by (force simp: find_Some_iff in_set_conv_nth)
  have "list_all2 (stored_interval crows) (steps_of (ar_anchors route)) (ar_intervals route)"
  proof (rule list_all2_all_nthI)
    show "length (steps_of (ar_anchors route)) = length (ar_intervals route)"
      using route_intervals [OF a] route_linked [OF a] by simp
    fix i assume "i < length (steps_of (ar_anchors route))"
    then have i: "i < length (ar_anchors route) - 1" by simp
    with route_intervals [OF a] route_linked [OF a]
    have ok: "interval_ok F inputs i (ar_anchors route ! i) (ar_anchors route ! Suc i) (ar_intervals route ! i)" by simp
    then obtain c where "c \<in> set (scored_for inputs (ar_anchors route ! i) (ar_anchors route ! Suc i))"
      "iv_chosen (ar_intervals route ! i) = chosen_of F c"
      by (auto simp: interval_ok_def)
    with scored_row [OF cs] ok i
    show "stored_interval crows (steps_of (ar_anchors route) ! i) (ar_intervals route ! i)"
      by (simp add: steps_of_nth interval_ok_def chosen_of_def stored_interval_def)
  qed
  with ls from_row show ?thesis by blast
qed

subsection \<open>A map with one linked checkpoint\<close>

definition demo_cp_row :: "string \<Rightarrow> int \<Rightarrow> int \<Rightarrow> checkpoint_row" where
  "demo_cp_row tag order x = \<lparr>cr_waypoint_order = order, cr_tag = tag, cr_x = Some x, cr_y = Some 9, cr_z = Some 5\<rparr>"

definition demo_cp_rows :: "checkpoint_row list" where
  "demo_cp_rows = [demo_cp_row ''Spawn'' 0 5, demo_cp_row ''LinkedCheckpoint'' 1 7,
     demo_cp_row ''LinkedCheckpoint'' 1 8, demo_cp_row ''Goal'' 0 9]"

definition demo_corridor :: "int \<Rightarrow> string \<times> int \<Rightarrow> string \<times> int \<Rightarrow> int list \<Rightarrow> rat \<Rightarrow> corridor_row" where
  "demo_corridor i src dst xs score = \<lparr>co_id = i, co_map_id = 1, co_src_tag = fst src, co_src_order = snd src,
     co_dst_tag = fst dst, co_dst_order = snd dst,
     co_path_cells = Some (map (\<lambda>x. JList [PyInt x, PyInt 9, PyInt 5]) xs), co_path_length = int (length xs),
     co_contains_virtual_edge = False, co_corridor_confidence = None,
     co_learned_corridor_score = Some score, co_combined_sequence_score = None\<rparr>"

definition demo_corridors :: "corridor_row list" where
  "demo_corridors = [demo_corridor 1 (''Spawn'', 0) (''LinkedCheckpoint'', 1) [5, 6, 7] (1/2),
     demo_corridor 2 (''Spawn'', 0) (''LinkedCheckpoint'', 1) [5, 6, 6, 7] (1/2),
     demo_corridor 3 (''LinkedCheckpoint'', 1) (''Goal'', 0) [8, 9] (3/4)]"

definition demo_inputs :: assembly_inputs where
  "demo_inputs = \<lparr>ai_map_id = 1, ai_is_linked_cp = True, ai_anchors = snd (detect_and_order_anchors demo_cp_rows),
     ai_candidates = map row_candidate demo_corridors, ai_random_seed = 0, ai_top_k_candidates = 1,
     ai_use_validation_tie_break = False\<rparr>"

definition demo_assembled :: assembled_route where
  "demo_assembled = projr (assemble_route_from_inputs rat_fops (\<lambda>_. 0) demo_inputs)"

definition demo_validator :: "candidate_corridor \<Rightarrow> nat \<Rightarrow> rat option" where
  "demo_validator c idx = Some (if cc_corridor_id c = 1 then 0 else 1)"

definition demo_route_of :: "(candidate_corridor \<Rightarrow> nat \<Rightarrow> rat option) option \<Rightarrow> assembled_route" where
  "demo_route_of v = projr (assemble_route rat_fops (\<lambda>_. 0) demo_cp_rows demo_corridors 1 0 1 v)"

lemma demo_assemble: "assemble_route_from_inputs rat_fops (\<lambda>_. 0) demo_inputs = Inr demo_assembled"
  by code_simp

lemma demo_assemble_rows:
  "assemble_route rat_fops (\<lambda>_. 0) demo_cp_rows demo_corridors 1 0 1 None = Inr (demo_route_of None)"
  "assemble_route rat_fops (\<lambda>_. 0) demo_cp_rows demo_corridors 1 0 1 (Some demo_validator) =
     Inr (demo_route_of (Some demo_validator))"
  by code_simp+

theorem assemble_sound_witness: "length (ar_intervals demo_assembled) = 2"
proof -
  have "length (ai_anchors demo_inputs) = 3" by code_simp
  with assemble_sound [OF demo_assemble] show ?thesis by simp
qed

theorem assemble_total_witness: "\<exists>route. assemble_route_from_inputs rat_fops (\<lambda>s. length s) demo_inputs = Inr route"
proof -
  have "\<forall>c \<in> set (ai_candidates demo_inputs). cc_learned_corridor_score c \<noteq> None \<longrightarrow> cc_path_cells c \<noteq> []"
    "2 \<le> length (ai_anchors demo_inputs) \<and> ai_is_linked_cp demo_inputs \<and>
       (\<forall>(src, dst) \<in> set (steps_of (ai_anchors demo_inputs)). scored_for demo_inputs src dst \<noteq> [])"
    by code_simp+
  with assemble_total [of demo_inputs] show ?thesis by blast
qed

lemma demo_plain:
  "assemble_route_from_inputs rat_fops (\<lambda>_. 0) (demo_inputs\<lparr>ai_is_linked_cp := False\<rparr>) =
     Inl \<lparr>ae_reason = plain_cp_not_supported_v0, ae_detail = LinkedOnly, ae_interval_index = None\<rparr>"
  by code_simp

theorem assemble_errors_witness: "\<not> ai_is_linked_cp (demo_inputs\<lparr>ai_is_linked_cp := False\<rparr>)"
  using assemble_errors [OF demo_plain] by simp

theorem validator_keeps_learned_witness:
  "ar_ai_confidence (demo_route_of None) = ar_ai_confidence (demo_route_of (Some demo_validator)) \<and>
   ar_intervals (demo_route_of None) \<noteq> ar_intervals (demo_route_of (Some demo_validator))"
proof
  show "ar_ai_confidence (demo_route_of None) = ar_ai_confidence (demo_route_of (Some demo_validator))"
    using validator_keeps_learned [OF demo_assemble_rows] by simp
  show "ar_intervals (demo_route_of None) \<noteq> ar_intervals (demo_route_of (Some demo_validator))"
    by code_simp
qed

end
