(* ===== verification/Finishability.thy ===== *)
theory Finishability
  imports Route_Assembly
begin

section \<open>The finishability gate\<close>

text \<open>
  Model of \<^verbatim>\<open>src/src/generation/finishability.py\<close>: the translation of an assembly result into the
  verdict of the generated artifact. The floor 0.30 is the double nearest to it, \<open>f_lit F (3/10)\<close>.
\<close>

definition GATE_VERSION :: string where "GATE_VERSION = ''finishability-v0''"

definition AI_CONFIDENCE_FLOOR :: "rat fops \<Rightarrow> rat" where
  "AI_CONFIDENCE_FLOOR F = f_lit F (3 / 10)"

text \<open>The last constructor is used by the generator when stripping broke the route.\<close>

datatype gate_detail = AssemblyFailed assembly_detail | BelowFloor rat | StrippedBroken nat int nat cell

record finishability_result =
  fr_route_verified :: bool
  fr_estimated_time_ms :: "int option"
  fr_ai_confidence :: "rat option"
  fr_reject_reason :: "reject_reason option"
  fr_gate_version :: string
  fr_detail :: "gate_detail option"

definition run_finishability_gate :: "rat fops \<Rightarrow> assembly_error + assembled_route \<Rightarrow> finishability_result" where
  "run_finishability_gate F result =
     (case result of
        Inl e \<Rightarrow>
          \<lparr>fr_route_verified = False, fr_estimated_time_ms = None, fr_ai_confidence = None,
           fr_reject_reason = Some (ae_reason e), fr_gate_version = GATE_VERSION,
           fr_detail = Some (AssemblyFailed (ae_detail e))\<rparr>
      | Inr route \<Rightarrow>
          if ar_ai_confidence route < AI_CONFIDENCE_FLOOR F
          then \<lparr>fr_route_verified = False, fr_estimated_time_ms = Some (ar_estimated_time_ms route),
             fr_ai_confidence = Some (ar_ai_confidence route),
             fr_reject_reason = Some confidence_below_floor, fr_gate_version = GATE_VERSION,
             fr_detail = Some (BelowFloor (ar_ai_confidence route))\<rparr>
          else \<lparr>fr_route_verified = True, fr_estimated_time_ms = Some (ar_estimated_time_ms route),
             fr_ai_confidence = Some (ar_ai_confidence route), fr_reject_reason = None,
             fr_gate_version = GATE_VERSION, fr_detail = None\<rparr>)"

lemma gate_verified:
  "fr_route_verified (run_finishability_gate F result) \<longleftrightarrow>
     (\<exists>route. result = Inr route \<and> AI_CONFIDENCE_FLOOR F \<le> ar_ai_confidence route)"
  by (auto simp: run_finishability_gate_def not_less split: sum.splits)

lemma gate_reject: "fr_reject_reason (run_finishability_gate F result) = None \<longleftrightarrow>
    fr_route_verified (run_finishability_gate F result)"
  by (auto simp: run_finishability_gate_def split: sum.splits)

end
