(* ===== verification/Stripper.thy ===== *)
theory Stripper
  imports Finishability Geom_Validator
begin

section \<open>Strip-to-route\<close>

text \<open>
  Model of \<^verbatim>\<open>src/src/generation/stripper.py\<close>: the cells a strip policy keeps around an assembled
  route, the filter of the base map's blocks, and the continuity check. Main results: the kept cells
  have a declarative description for every policy, the policies form a chain of inclusions, the
  chosen route always survives, and stripping does not change what the geometry validator finds at
  the route's cells.
\<close>

definition STRIP_POLICY_HALO_AXIS_1 :: string where
  "STRIP_POLICY_HALO_AXIS_1 = ''halo_axis_1''"
definition STRIP_POLICY_HALO_AXIS_1_PLUS_ANCHOR_RADIUS_3 :: string where
  "STRIP_POLICY_HALO_AXIS_1_PLUS_ANCHOR_RADIUS_3 = ''halo_axis_1_plus_anchor_radius_3''"
definition STRIP_POLICY_HALO_AXIS_1_PLUS_ANCHOR_RADIUS_3_VEXT_3 :: string where
  "STRIP_POLICY_HALO_AXIS_1_PLUS_ANCHOR_RADIUS_3_VEXT_3 = ''halo_axis_1_plus_anchor_radius_3_vext_3''"
definition STRIP_POLICY_HALO_XZ_CHEB_1_VEXT_3_PLUS_ANCHOR_RADIUS_3 :: string where
  "STRIP_POLICY_HALO_XZ_CHEB_1_VEXT_3_PLUS_ANCHOR_RADIUS_3 = ''halo_xz_cheb_1_vext_3_plus_anchor_radius_3''"
definition STRIP_POLICY_HALO_PRISM_3X7X3_PLUS_ANCHOR_RADIUS_3 :: string where
  "STRIP_POLICY_HALO_PRISM_3X7X3_PLUS_ANCHOR_RADIUS_3 = ''halo_prism_3x7x3_plus_anchor_radius_3''"
definition STRIP_POLICY_NONE :: string where
  "STRIP_POLICY_NONE = ''none''"

lemmas policy_names = STRIP_POLICY_HALO_AXIS_1_def STRIP_POLICY_HALO_AXIS_1_PLUS_ANCHOR_RADIUS_3_def
  STRIP_POLICY_HALO_AXIS_1_PLUS_ANCHOR_RADIUS_3_VEXT_3_def
  STRIP_POLICY_HALO_XZ_CHEB_1_VEXT_3_PLUS_ANCHOR_RADIUS_3_def
  STRIP_POLICY_HALO_PRISM_3X7X3_PLUS_ANCHOR_RADIUS_3_def STRIP_POLICY_NONE_def

definition ANCHOR_RADIUS_CHEB :: int where "ANCHOR_RADIUS_CHEB = 3"
definition PATH_VERTICAL_EXT :: int where "PATH_VERTICAL_EXT = 3"

definition AXIS_NEIGHBORS :: "cell list" where
  "AXIS_NEIGHBORS = [(1, 0, 0), (-1, 0, 0), (0, 1, 0), (0, -1, 0), (0, 0, 1), (0, 0, -1)]"

definition XZ_CHEB_1_NEIGHBORS :: "cell list" where
  "XZ_CHEB_1_NEIGHBORS = [(dx, 0, dz). dx \<leftarrow> [-1, 0, 1], dz \<leftarrow> [-1, 0, 1], (dx, dz) \<noteq> (0, 0)]"

definition cheb_cube :: "cell \<Rightarrow> int \<Rightarrow> cell list" where
  "cheb_cube centre radius =
     [shift centre (dx, dy, dz). dx \<leftarrow> [-radius..radius], dy \<leftarrow> [-radius..radius], dz \<leftarrow> [-radius..radius]]"

record strip_result =
  sr_stripped_blocks :: "map_block list"
  sr_kept_cells :: "cell set"
  sr_kept_block_count :: nat
  sr_base_block_count :: nat
  sr_strip_policy :: string
  sr_route_intact :: bool
  sr_broken_detail :: "(nat \<times> int \<times> nat \<times> cell) option"

subsection \<open>Kept cells\<close>

definition uses_anchor_radius :: "string \<Rightarrow> bool" where
  "uses_anchor_radius policy \<longleftrightarrow> policy \<in> {STRIP_POLICY_HALO_AXIS_1_PLUS_ANCHOR_RADIUS_3,
     STRIP_POLICY_HALO_AXIS_1_PLUS_ANCHOR_RADIUS_3_VEXT_3,
     STRIP_POLICY_HALO_XZ_CHEB_1_VEXT_3_PLUS_ANCHOR_RADIUS_3,
     STRIP_POLICY_HALO_PRISM_3X7X3_PLUS_ANCHOR_RADIUS_3}"

definition uses_path_axis_halo :: "string \<Rightarrow> bool" where
  "uses_path_axis_halo policy \<longleftrightarrow> policy = STRIP_POLICY_HALO_AXIS_1 \<or>
     policy = STRIP_POLICY_HALO_AXIS_1_PLUS_ANCHOR_RADIUS_3 \<or>
     policy = STRIP_POLICY_HALO_AXIS_1_PLUS_ANCHOR_RADIUS_3_VEXT_3"

definition uses_path_xz_cheb1 :: "string \<Rightarrow> bool" where
  "uses_path_xz_cheb1 policy \<longleftrightarrow> policy = STRIP_POLICY_HALO_XZ_CHEB_1_VEXT_3_PLUS_ANCHOR_RADIUS_3"

definition uses_vertical_ext :: "string \<Rightarrow> bool" where
  "uses_vertical_ext policy \<longleftrightarrow> policy \<in> {STRIP_POLICY_HALO_AXIS_1_PLUS_ANCHOR_RADIUS_3_VEXT_3,
     STRIP_POLICY_HALO_XZ_CHEB_1_VEXT_3_PLUS_ANCHOR_RADIUS_3}"

definition uses_prism :: "string \<Rightarrow> bool" where
  "uses_prism policy \<longleftrightarrow> policy = STRIP_POLICY_HALO_PRISM_3X7X3_PLUS_ANCHOR_RADIUS_3"

lemmas policy_uses = uses_anchor_radius_def uses_path_axis_halo_def uses_path_xz_cheb1_def
  uses_vertical_ext_def uses_prism_def

definition path_cell_halo :: "string \<Rightarrow> cell \<Rightarrow> cell list" where
  "path_cell_halo policy c =
     [c] @
     (if uses_path_axis_halo policy then map (shift c) AXIS_NEIGHBORS else []) @
     (if uses_path_xz_cheb1 policy then map (shift c) XZ_CHEB_1_NEIGHBORS else []) @
     (if uses_vertical_ext policy
      then map (\<lambda>dy. shift c (0, dy, 0)) (filter (\<lambda>dy. dy \<noteq> 0) [-PATH_VERTICAL_EXT..PATH_VERTICAL_EXT])
      else []) @
     (if uses_prism policy
      then [shift c (dx, dy, dz). dx \<leftarrow> [-1, 0, 1], dy \<leftarrow> [-PATH_VERTICAL_EXT..PATH_VERTICAL_EXT], dz \<leftarrow> [-1, 0, 1]]
      else [])"

definition route_path_cells :: "assembled_route \<Rightarrow> cell list" where
  "route_path_cells route = concat (map (\<lambda>iv. ch_path_cells (iv_chosen iv)) (ar_intervals route))"

definition compute_kept_cells :: "assembled_route \<Rightarrow> string \<Rightarrow> cell set option \<Rightarrow> cell set" where
  "compute_kept_cells route policy anchor_cells =
     set (concat (map (path_cell_halo policy) (route_path_cells route))) \<union>
     set (List.map_filter an_cell (ar_anchors route)) \<union>
     (case anchor_cells of
        None \<Rightarrow> {}
      | Some acs \<Rightarrow>
          if uses_anchor_radius policy then \<Union>((\<lambda>a. set (cheb_cube a ANCHOR_RADIUS_CHEB)) ` acs) else {})"

subsection \<open>Filtering and the continuity check\<close>

definition filter_blocks_by_cells :: "map_block list \<Rightarrow> cell set \<Rightarrow> map_block list" where
  "filter_blocks_by_cells blocks kept_cells =
     filter (\<lambda>b. case xyz_cell b of None \<Rightarrow> False | Some c \<Rightarrow> c \<in> kept_cells) blocks"

definition verify_route_on_kept_cells :: "assembled_route \<Rightarrow> cell set
    \<Rightarrow> bool \<times> (nat \<times> int \<times> nat \<times> cell) option" where
  "verify_route_on_kept_cells route kept_cells =
     (case find (\<lambda>(iv_idx, corridor_id, cell_idx, c). c \<notin> kept_cells)
          (concat (map (\<lambda>(iv_idx, iv).
             map (\<lambda>(cell_idx, c). (iv_idx, ch_corridor_id (iv_chosen iv), cell_idx, c))
               (enumerate 0 (ch_path_cells (iv_chosen iv))))
            (enumerate 0 (ar_intervals route)))) of
        Some d \<Rightarrow> (False, Some d)
      | None \<Rightarrow> (True, None))"

definition known_policies :: "string list" where
  "known_policies = [STRIP_POLICY_HALO_AXIS_1, STRIP_POLICY_HALO_AXIS_1_PLUS_ANCHOR_RADIUS_3,
     STRIP_POLICY_HALO_AXIS_1_PLUS_ANCHOR_RADIUS_3_VEXT_3,
     STRIP_POLICY_HALO_XZ_CHEB_1_VEXT_3_PLUS_ANCHOR_RADIUS_3,
     STRIP_POLICY_HALO_PRISM_3X7X3_PLUS_ANCHOR_RADIUS_3, STRIP_POLICY_NONE]"

definition strip_route :: "assembled_route \<Rightarrow> map_block list \<Rightarrow> string \<Rightarrow> cell set option
    \<Rightarrow> py_error + strip_result" where
  "strip_route route base_blocks policy anchor_cells =
     (if policy \<notin> set known_policies then Inl ValueError
      else if policy = STRIP_POLICY_NONE
      then Inr \<lparr>sr_stripped_blocks = base_blocks, sr_kept_cells = {},
        sr_kept_block_count = length base_blocks, sr_base_block_count = length base_blocks,
        sr_strip_policy = STRIP_POLICY_NONE, sr_route_intact = True, sr_broken_detail = None\<rparr>
      else let kept_cells = compute_kept_cells route policy anchor_cells;
               stripped = filter_blocks_by_cells base_blocks kept_cells;
               verdict = verify_route_on_kept_cells route kept_cells
        in Inr \<lparr>sr_stripped_blocks = stripped, sr_kept_cells = kept_cells,
             sr_kept_block_count = length stripped, sr_base_block_count = length base_blocks,
             sr_strip_policy = policy, sr_route_intact = fst verdict, sr_broken_detail = snd verdict\<rparr>)"

subsection \<open>The halo of a path cell\<close>

lemma mem_shift_image: "c \<in> shift p ` D \<longleftrightarrow> sub c p \<in> D"
proof
  assume "c \<in> shift p ` D"
  then show "sub c p \<in> D" by (auto simp: shift_def sub_def)
next
  assume "sub c p \<in> D"
  moreover have "c = shift p (sub c p)" by (simp add: shift_def sub_def prod_eq_iff)
  ultimately show "c \<in> shift p ` D" by (rule rev_image_eqI)
qed

lemma axis_offsets: "d \<in> insert (0, 0, 0) (set AXIS_NEIGHBORS) \<longleftrightarrow>
    \<bar>fst d\<bar> + \<bar>fst (snd d)\<bar> + \<bar>snd (snd d)\<bar> \<le> 1"
  by (cases d) (auto simp: AXIS_NEIGHBORS_def abs_if split: if_splits)

lemma unit_range: "d \<in> {-1, 0, 1 :: int} \<longleftrightarrow> \<bar>d\<bar> \<le> 1"
  by auto

lemma xz_offsets: "d \<in> insert (0, 0, 0) (set XZ_CHEB_1_NEIGHBORS) \<longleftrightarrow>
    fst (snd d) = 0 \<and> \<bar>fst d\<bar> \<le> 1 \<and> \<bar>snd (snd d)\<bar> \<le> 1"
  unfolding unit_range [symmetric] by (cases d) (auto simp: XZ_CHEB_1_NEIGHBORS_def)

lemma cheb_cube_mem: "c \<in> set (cheb_cube a r) \<longleftrightarrow> chebyshev a c \<le> r"
proof -
  have "set (cheb_cube a r) = shift a ` ({-r..r} \<times> {-r..r} \<times> {-r..r})"
    by (auto simp: cheb_cube_def image_iff Bex_def)
  then show ?thesis
    by (cases a; cases c) (auto simp: mem_shift_image chebyshev_le_iff abs_le_iff)
qed

text \<open>The cells kept around one path cell, by the offset from it.\<close>

definition halo_region :: "string \<Rightarrow> cell \<Rightarrow> cell \<Rightarrow> bool" where
  "halo_region policy p c =
     (case sub c p of (dx, dy, dz) \<Rightarrow>
        (dx, dy, dz) = (0, 0, 0) \<or>
        uses_path_axis_halo policy \<and> \<bar>dx\<bar> + \<bar>dy\<bar> + \<bar>dz\<bar> \<le> 1 \<or>
        uses_path_xz_cheb1 policy \<and> dy = 0 \<and> \<bar>dx\<bar> \<le> 1 \<and> \<bar>dz\<bar> \<le> 1 \<or>
        uses_vertical_ext policy \<and> dx = 0 \<and> dz = 0 \<and> \<bar>dy\<bar> \<le> 3 \<or>
        uses_prism policy \<and> \<bar>dx\<bar> \<le> 1 \<and> \<bar>dy\<bar> \<le> 3 \<and> \<bar>dz\<bar> \<le> 1)"

lemma halo_offsets:
  "set (path_cell_halo policy p) = shift p `
     ({(0, 0, 0)} \<union> (if uses_path_axis_halo policy then set AXIS_NEIGHBORS else {}) \<union>
      (if uses_path_xz_cheb1 policy then set XZ_CHEB_1_NEIGHBORS else {}) \<union>
      (if uses_vertical_ext policy then (\<lambda>dy. (0, dy, 0)) ` ({-3..3} - {0}) else {}) \<union>
      (if uses_prism policy then {-1, 0, 1} \<times> {-3..3} \<times> {-1, 0, 1} else {}))"
proof -
  have p: "p = shift p (0, 0, 0)" by (simp add: shift_def prod_eq_iff)
  have prism: "set [shift p (dx, dy, dz). dx \<leftarrow> [-1, 0, 1], dy \<leftarrow> [-3..3], dz \<leftarrow> [-1, 0, 1]] =
      shift p ` ({-1, 0, 1} \<times> {-3..3} \<times> {-1, 0, 1})"
    by (auto simp del: shift_simps)
  have vert: "set (map (\<lambda>dy. shift p (0, dy, 0)) (filter (\<lambda>dy. dy \<noteq> 0) [-3..3])) =
      shift p ` (\<lambda>dy. (0, dy, 0)) ` ({-3..3} - {0})"
    by (auto simp del: shift_simps)
  show ?thesis
    unfolding path_cell_halo_def PATH_VERTICAL_EXT_def set_append image_Un if_distrib [of set] prism vert
    using p by (auto simp del: shift_simps)
qed

lemma path_cell_halo_mem: "c \<in> set (path_cell_halo policy p) \<longleftrightarrow> halo_region policy p c"
proof -
  obtain dx dy dz where d: "sub c p = (dx, dy, dz)" by (cases "sub c p")
  have guarded: "x \<in> (if b then S else {}) \<longleftrightarrow> b \<and> x \<in> S" for b :: bool and x and S :: "cell set" by simp
  have axis: "(dx, dy, dz) = (0, 0, 0) \<or> (dx, dy, dz) \<in> set AXIS_NEIGHBORS \<longleftrightarrow> \<bar>dx\<bar> + \<bar>dy\<bar> + \<bar>dz\<bar> \<le> 1"
    using axis_offsets [of "(dx, dy, dz)"] by simp
  have xz: "(dx, dy, dz) = (0, 0, 0) \<or> (dx, dy, dz) \<in> set XZ_CHEB_1_NEIGHBORS \<longleftrightarrow>
      dy = 0 \<and> \<bar>dx\<bar> \<le> 1 \<and> \<bar>dz\<bar> \<le> 1"
    using xz_offsets [of "(dx, dy, dz)"] by simp
  have vert: "(dx, dy, dz) = (0, 0, 0) \<or> (dx, dy, dz) \<in> (\<lambda>dy. (0, dy, 0)) ` ({-3..3} - {0}) \<longleftrightarrow>
      dx = 0 \<and> dz = 0 \<and> \<bar>dy\<bar> \<le> 3"
    by (auto simp: abs_le_iff)
  have prism: "(dx, dy, dz) \<in> {-1, 0, 1} \<times> {-3..3} \<times> {-1, 0, 1} \<longleftrightarrow> \<bar>dx\<bar> \<le> 1 \<and> \<bar>dy\<bar> \<le> 3 \<and> \<bar>dz\<bar> \<le> 1"
    unfolding unit_range [symmetric] by auto
  show ?thesis
    unfolding halo_offsets mem_shift_image halo_region_def d Un_iff guarded prod.case
      axis [symmetric] xz [symmetric] vert [symmetric] prism [symmetric] singleton_iff
    by blast
qed

lemma kept_cells_mem:
  "c \<in> compute_kept_cells route policy acs \<longleftrightarrow>
     (\<exists>p \<in> set (route_path_cells route). halo_region policy p c) \<or>
     (\<exists>a \<in> set (ar_anchors route). an_cell a = Some c) \<or>
     uses_anchor_radius policy \<and> (\<exists>a \<in> \<Union>(set_option acs). chebyshev a c \<le> 3)"
  by (cases acs) (auto simp: compute_kept_cells_def path_cell_halo_mem cheb_cube_mem set_map_filter
      ANCHOR_RADIUS_CHEB_def)

lemma halo_self: "halo_region policy p p"
  by (cases p) (simp add: halo_region_def)

lemma route_kept: "set (route_path_cells route) \<subseteq> compute_kept_cells route policy acs"
  unfolding subset_iff kept_cells_mem using halo_self by blast

lemma enumerate_in_set: "(i, x) \<in> set (enumerate n xs) \<Longrightarrow> x \<in> set xs"
  by (auto simp: enumerate_eq_zip dest: set_zip_rightD)

lemma verify_intact:
  assumes "set (route_path_cells route) \<subseteq> kept"
  shows "verify_route_on_kept_cells route kept = (True, None)"
proof -
  let ?row = "\<lambda>(iv_idx :: nat, iv). map (\<lambda>(cell_idx :: nat, c). (iv_idx, ch_corridor_id (iv_chosen iv), cell_idx, c))
     (enumerate 0 (ch_path_cells (iv_chosen iv)))"
  have "\<not> (case x of (iv_idx, corridor_id, cell_idx, c) \<Rightarrow> c \<notin> kept)"
    if "x \<in> set (concat (map ?row (enumerate 0 (ar_intervals route))))" for x
  proof -
    from that obtain i iv where iv: "(i, iv) \<in> set (enumerate 0 (ar_intervals route))" and "x \<in> set (?row (i, iv))"
      by auto
    then obtain k c where c: "(k, c) \<in> set (enumerate 0 (ch_path_cells (iv_chosen iv)))"
      and x: "x = (i, ch_corridor_id (iv_chosen iv), k, c)" by auto
    from enumerate_in_set [OF iv] enumerate_in_set [OF c] have "c \<in> set (route_path_cells route)"
      by (auto simp: route_path_cells_def)
    with assms x show ?thesis by auto
  qed
  then have "find (\<lambda>(iv_idx, corridor_id, cell_idx, c). c \<notin> kept)
      (concat (map ?row (enumerate 0 (ar_intervals route)))) = None"
    unfolding find_None_iff by blast
  then show ?thesis unfolding verify_route_on_kept_cells_def by (simp only: option.case)
qed

subsection \<open>What stripping keeps\<close>

lemma strip_route_fields:
  assumes "strip_route route base policy acs = Inr res" and "policy \<noteq> STRIP_POLICY_NONE"
  shows "sr_kept_cells res = compute_kept_cells route policy acs"
    and "sr_stripped_blocks res = filter_blocks_by_cells base (compute_kept_cells route policy acs)"
    and "sr_route_intact res" and "sr_broken_detail res = None"
    and "sr_kept_block_count res = length (sr_stripped_blocks res)"
  using assms verify_intact [OF route_kept [of route policy acs]]
  by (auto simp: strip_route_def Let_def split: if_splits)

lemma filter_blocks_eq:
  "filter_blocks_by_cells blocks kept = filter (\<lambda>b. \<exists>c \<in> kept. xyz_cell b = Some c) blocks"
  by (auto simp: filter_blocks_by_cells_def intro!: filter_cong split: option.splits)

text \<open>
  C34. Under every halo policy the chosen route survives: the result is intact, and a cell is kept
  exactly when it lies in the policy's halo of a path cell, is the cell of an anchor, or (for the
  anchor-radius policies) is within Chebyshev distance 3 of a given anchor cell. The stripped blocks
  are exactly the base blocks whose coordinates name a kept cell, in their order.
\<close>

theorem strip_route_exact:
  assumes "strip_route route base policy acs = Inr res" and "policy \<noteq> STRIP_POLICY_NONE"
  shows "sr_route_intact res \<and> sr_broken_detail res = None \<and>
    sr_kept_cells res = {c. (\<exists>p \<in> set (route_path_cells route). halo_region policy p c) \<or>
       (\<exists>a \<in> set (ar_anchors route). an_cell a = Some c) \<or>
       uses_anchor_radius policy \<and> (\<exists>a \<in> \<Union>(set_option acs). chebyshev a c \<le> 3)} \<and>
    sr_stripped_blocks res = filter (\<lambda>b. \<exists>c \<in> sr_kept_cells res. xyz_cell b = Some c) base \<and>
    sr_kept_block_count res = length (sr_stripped_blocks res)"
proof -
  note fields = strip_route_fields [OF assms]
  have "sr_kept_cells res = {c. (\<exists>p \<in> set (route_path_cells route). halo_region policy p c) \<or>
       (\<exists>a \<in> set (ar_anchors route). an_cell a = Some c) \<or>
       uses_anchor_radius policy \<and> (\<exists>a \<in> \<Union>(set_option acs). chebyshev a c \<le> 3)}"
    unfolding fields(1) by (rule set_eqI) (simp only: kept_cells_mem mem_Collect_eq)
  with fields show ?thesis by (simp add: filter_blocks_eq)
qed

lemma halo_region_chain:
  "halo_region STRIP_POLICY_HALO_AXIS_1 p c \<Longrightarrow> halo_region STRIP_POLICY_HALO_AXIS_1_PLUS_ANCHOR_RADIUS_3 p c"
  "halo_region STRIP_POLICY_HALO_AXIS_1_PLUS_ANCHOR_RADIUS_3 p c \<Longrightarrow>
     halo_region STRIP_POLICY_HALO_AXIS_1_PLUS_ANCHOR_RADIUS_3_VEXT_3 p c"
  "halo_region STRIP_POLICY_HALO_AXIS_1_PLUS_ANCHOR_RADIUS_3_VEXT_3 p c \<Longrightarrow>
     halo_region STRIP_POLICY_HALO_XZ_CHEB_1_VEXT_3_PLUS_ANCHOR_RADIUS_3 p c"
  "halo_region STRIP_POLICY_HALO_XZ_CHEB_1_VEXT_3_PLUS_ANCHOR_RADIUS_3 p c \<Longrightarrow>
     halo_region STRIP_POLICY_HALO_PRISM_3X7X3_PLUS_ANCHOR_RADIUS_3 p c"
  by (auto simp: halo_region_def policy_uses policy_names split: prod.splits)

lemma kept_cells_mono:
  assumes "\<And>p c. halo_region policy p c \<Longrightarrow> halo_region policy' p c"
    and "uses_anchor_radius policy \<Longrightarrow> uses_anchor_radius policy'"
  shows "compute_kept_cells route policy acs \<subseteq> compute_kept_cells route policy' acs"
  using assms unfolding subset_iff kept_cells_mem by blast

text \<open>
  The five halo policies form a chain: each keeps at least the cells of the one before it.
\<close>

theorem strip_policies_nested:
  "compute_kept_cells route STRIP_POLICY_HALO_AXIS_1 acs
     \<subseteq> compute_kept_cells route STRIP_POLICY_HALO_AXIS_1_PLUS_ANCHOR_RADIUS_3 acs \<and>
   compute_kept_cells route STRIP_POLICY_HALO_AXIS_1_PLUS_ANCHOR_RADIUS_3 acs
     \<subseteq> compute_kept_cells route STRIP_POLICY_HALO_AXIS_1_PLUS_ANCHOR_RADIUS_3_VEXT_3 acs \<and>
   compute_kept_cells route STRIP_POLICY_HALO_AXIS_1_PLUS_ANCHOR_RADIUS_3_VEXT_3 acs
     \<subseteq> compute_kept_cells route STRIP_POLICY_HALO_XZ_CHEB_1_VEXT_3_PLUS_ANCHOR_RADIUS_3 acs \<and>
   compute_kept_cells route STRIP_POLICY_HALO_XZ_CHEB_1_VEXT_3_PLUS_ANCHOR_RADIUS_3 acs
     \<subseteq> compute_kept_cells route STRIP_POLICY_HALO_PRISM_3X7X3_PLUS_ANCHOR_RADIUS_3 acs"
  by (intro conjI; rule kept_cells_mono; (erule halo_region_chain | simp add: uses_anchor_radius_def policy_names))

text \<open>The first block of a kept cell is the same before and after stripping.\<close>

lemma strip_first_at:
  assumes "strip_route route base policy acs = Inr res" and "c \<in> set (route_path_cells route)"
  shows "first_at (sr_stripped_blocks res) c = first_at base c"
proof (cases "policy = STRIP_POLICY_NONE")
  case True
  with assms(1) show ?thesis by (auto simp: strip_route_def split: if_splits)
next
  case False
  have "c \<in> sr_kept_cells res"
    using route_kept assms(2) strip_route_fields(1) [OF assms(1) False] by blast
  then have "first_at (filter (\<lambda>b. \<exists>c \<in> sr_kept_cells res. xyz_cell b = Some c) base) c = first_at base c"
    by (induction base) (auto simp: block_cell_def split: if_splits)
  then show ?thesis
    using strip_route_fields [OF assms(1) False] by (simp add: filter_blocks_eq)
qed

lemma strip_subset: "strip_route route base policy acs = Inr res \<Longrightarrow> set (sr_stripped_blocks res) \<subseteq> set base"
  by (auto simp: strip_route_def Let_def filter_blocks_by_cells_def split: if_splits)

definition demo_strip :: strip_result where
  "demo_strip = projr (strip_route demo_assembled [demo_map_block 0 5, demo_map_block 1 20]
     STRIP_POLICY_HALO_AXIS_1 None)"

lemma demo_strip_ok:
  "strip_route demo_assembled [demo_map_block 0 5, demo_map_block 1 20] STRIP_POLICY_HALO_AXIS_1 None = Inr demo_strip"
  by code_simp

theorem strip_route_exact_witness: "sr_route_intact demo_strip \<and> sr_kept_block_count demo_strip = 1"
proof -
  have ne: "STRIP_POLICY_HALO_AXIS_1 \<noteq> STRIP_POLICY_NONE" by (simp add: policy_names)
  have "length (sr_stripped_blocks demo_strip) = 1" by code_simp
  with strip_route_exact [OF demo_strip_ok ne] show ?thesis by simp
qed

end
