(* ===== verification/Job_Store.thy ===== *)
theory Job_Store
  imports Prelude
begin

section \<open>The job store of the remote-test queue\<close>

text \<open>
  Model of \<^verbatim>\<open>src/src/remote_test/models.py\<close> and \<^verbatim>\<open>src/src/remote_test/storage.py\<close>. The state is the
  SQLite database (the rows of \<open>jobs\<close> in insertion order, the next autoincrement key, the heartbeat
  rows) and the artifact directory (file name to bytes). Every operation runs under the store's lock,
  so operations are atomic steps. The clock is an argument \<open>now\<close>, the hash \<open>sha256\<close> a parameter
  from bytes to the hex digest; nothing is assumed of it. A byte is a \<open>char\<close>. JSON columns hold the
  object itself (writing and reading a JSON object gives it back).

  Main results: a well-formedness invariant of every operation, the life cycle of a job as the
  interface \<open>job_lifecycle\<close> (terminal jobs never change, a claiming agent is never replaced,
  statuses follow the transition graph), and that repeated claims drain the queue oldest first.
\<close>

subsection \<open>Data model\<close>

datatype job_status = QUEUED | CLAIMED | RUNNING | COMPLETE | FAILED | TIMED_OUT | CANCELLED

fun status_value :: "job_status \<Rightarrow> string" where
  "status_value QUEUED = ''queued''"
| "status_value CLAIMED = ''claimed''"
| "status_value RUNNING = ''running''"
| "status_value COMPLETE = ''complete''"
| "status_value FAILED = ''failed''"
| "status_value TIMED_OUT = ''timed_out''"
| "status_value CANCELLED = ''cancelled''"

definition job_statuses :: "job_status list" where
  "job_statuses = [QUEUED, CLAIMED, RUNNING, COMPLETE, FAILED, TIMED_OUT, CANCELLED]"

text \<open>\<open>JobStatus(s)\<close>: the member with that value, or a \<open>ValueError\<close>.\<close>

definition status_of_value :: "string \<Rightarrow> job_status option" where
  "status_of_value s = find (\<lambda>st. status_value st = s) job_statuses"

definition is_terminal :: "job_status \<Rightarrow> bool" where
  "is_terminal status \<longleftrightarrow> status \<in> {COMPLETE, FAILED, TIMED_OUT, CANCELLED}"

record job =
  jb_id :: int
  jb_run_id :: string
  jb_status :: job_status
  jb_artifact_path :: string
  jb_artifact_size :: nat
  jb_artifact_sha256 :: string
  jb_timeout_seconds :: int
  jb_created_at :: int
  jb_agent_id :: "string option"
  jb_claimed_at :: "int option"
  jb_completed_at :: "int option"
  jb_metadata :: json_obj
  jb_report :: "json_obj option"
  jb_detail :: "string option"

record agent_heartbeat =
  hb_agent_id :: string
  hb_last_seen_at :: int
  hb_version :: "string option"
  hb_hostname :: "string option"
  hb_notes :: "string option"

record job_store =
  js_jobs :: "job list"
  js_next_id :: int
  js_agents :: "agent_heartbeat list"
  js_artifacts :: "(string \<times> bytes) list"

datatype store_error =
    TimeoutNotPositive
  | RunIdRequired
  | ArtifactHashMismatch string
  | AgentIdRequired
  | JobNotFound int
  | TransitionRefused int job_status job_status
  | ClaimedByOther int string string

record enqueue_result =
  er_job_id :: int
  er_artifact_sha256 :: string
  er_artifact_size :: nat

fun allowed_transitions :: "job_status \<Rightarrow> job_status set" where
  "allowed_transitions QUEUED = {CLAIMED, CANCELLED, TIMED_OUT}"
| "allowed_transitions CLAIMED = {RUNNING, COMPLETE, FAILED, TIMED_OUT, CANCELLED}"
| "allowed_transitions RUNNING = {COMPLETE, FAILED, TIMED_OUT, CANCELLED}"
| "allowed_transitions _ = {}"

definition empty_store :: job_store where
  "empty_store = \<lparr>js_jobs = [], js_next_id = 1, js_agents = [], js_artifacts = []\<rparr>"

text \<open>\<open>COALESCE(a, b)\<close>.\<close>

definition coalesce :: "'a option \<Rightarrow> 'a option \<Rightarrow> 'a option" where
  "coalesce a b = (case a of None \<Rightarrow> b | Some x \<Rightarrow> Some x)"

text \<open>\<open>UPDATE jobs SET ... WHERE id = ?\<close>.\<close>

definition update_job :: "int \<Rightarrow> (job \<Rightarrow> job) \<Rightarrow> job_store \<Rightarrow> job_store" where
  "update_job i f st = st\<lparr>js_jobs := map (\<lambda>j. if jb_id j = i then f j else j) (js_jobs st)\<rparr>"

subsection \<open>Reads\<close>

definition store_get :: "int \<Rightarrow> job_store \<Rightarrow> job option" where
  "store_get job_id st = find (\<lambda>j. jb_id j = job_id) (js_jobs st)"

definition get_strict :: "int \<Rightarrow> job_store \<Rightarrow> store_error + job" where
  "get_strict job_id st = (case store_get job_id st of None \<Rightarrow> Inl (JobNotFound job_id) | Some j \<Rightarrow> Inr j)"

definition list_recent :: "int \<Rightarrow> job_store \<Rightarrow> job list" where
  "list_recent limit st =
     (let rows = sort_key (\<lambda>j. (- jb_created_at j, - jb_id j)) (js_jobs st)
      in if limit < 0 then rows else take (nat limit) rows)"

definition list_agents :: "job_store \<Rightarrow> agent_heartbeat list" where
  "list_agents st = sort_key (\<lambda>h. - hb_last_seen_at h) (js_agents st)"

subsection \<open>Writes\<close>

definition new_job :: "int \<Rightarrow> string \<Rightarrow> string \<Rightarrow> nat \<Rightarrow> string \<Rightarrow> int \<Rightarrow> int \<Rightarrow> json_obj \<Rightarrow> job" where
  "new_job i run_id path nbytes digest timeout_seconds created_at metadata =
     \<lparr>jb_id = i, jb_run_id = run_id, jb_status = QUEUED, jb_artifact_path = path,
      jb_artifact_size = nbytes, jb_artifact_sha256 = digest, jb_timeout_seconds = timeout_seconds,
      jb_created_at = created_at, jb_agent_id = None, jb_claimed_at = None, jb_completed_at = None,
      jb_metadata = metadata, jb_report = None, jb_detail = None\<rparr>"

definition artifact_name :: "string \<Rightarrow> string" where
  "artifact_name digest = digest @ ''.Map.Gbx''"

definition enqueue :: "(bytes \<Rightarrow> string) \<Rightarrow> int \<Rightarrow> string \<Rightarrow> bytes \<Rightarrow> json_obj option \<Rightarrow> int \<Rightarrow> job_store
    \<Rightarrow> (store_error + enqueue_result) \<times> job_store" where
  "enqueue sha256 now run_id artifact_bytes metadata timeout_seconds st =
     (if timeout_seconds \<le> 0 then (Inl TimeoutNotPositive, st)
      else if run_id = [] then (Inl RunIdRequired, st)
      else let digest = sha256 artifact_bytes;
               nbytes = length artifact_bytes;
               target = artifact_name digest;
               insert_row = (\<lambda>st. (Inr \<lparr>er_job_id = js_next_id st, er_artifact_sha256 = digest, er_artifact_size = nbytes\<rparr>,
                 st\<lparr>js_jobs := js_jobs st @ [new_job (js_next_id st) run_id target nbytes digest timeout_seconds now
                      (case metadata of None \<Rightarrow> [] | Some m \<Rightarrow> m)],
                    js_next_id := js_next_id st + 1\<rparr>))
        in case map_of (js_artifacts st) target of
             Some old \<Rightarrow> if sha256 old \<noteq> digest then (Inl (ArtifactHashMismatch target), st) else insert_row st
           | None \<Rightarrow> insert_row (st\<lparr>js_artifacts := (target, artifact_bytes) # js_artifacts st\<rparr>))"

definition oldest_queued :: "job_store \<Rightarrow> job option" where
  "oldest_queued st =
     (case sort_key (\<lambda>j. (jb_created_at j, jb_id j)) (filter (\<lambda>j. jb_status j = QUEUED) (js_jobs st)) of
        [] \<Rightarrow> None
      | j # _ \<Rightarrow> Some j)"

definition claim_next :: "int \<Rightarrow> string \<Rightarrow> job_store \<Rightarrow> (store_error + job option) \<times> job_store" where
  "claim_next now agent_id st =
     (if agent_id = [] then (Inl AgentIdRequired, st)
      else case oldest_queued st of
          None \<Rightarrow> (Inr None, st)
        | Some row \<Rightarrow>
            let st' = update_job (jb_id row) (\<lambda>j. if jb_status j = QUEUED
                  then j\<lparr>jb_status := CLAIMED, jb_agent_id := Some agent_id, jb_claimed_at := Some now\<rparr> else j) st
            in (Inr (store_get (jb_id row) st'), st'))"

definition apply_transition :: "int \<Rightarrow> job_status \<Rightarrow> string option \<Rightarrow> json_obj option \<Rightarrow> job \<Rightarrow> job" where
  "apply_transition now to_status detail report j =
     j\<lparr>jb_status := to_status,
       jb_detail := coalesce detail (jb_detail j),
       jb_report := coalesce (case report of None \<Rightarrow> None | Some r \<Rightarrow> if r = [] then None else Some r) (jb_report j),
       jb_completed_at := coalesce (if is_terminal to_status then Some now else None) (jb_completed_at j)\<rparr>"

definition transition :: "int \<Rightarrow> int \<Rightarrow> job_status \<Rightarrow> string option \<Rightarrow> string option \<Rightarrow> json_obj option \<Rightarrow> job_store
    \<Rightarrow> (store_error + job) \<times> job_store" where
  "transition now job_id to_status agent_id detail report st =
     (case store_get job_id st of
        None \<Rightarrow> (Inl (JobNotFound job_id), st)
      | Some row \<Rightarrow>
          if to_status \<notin> allowed_transitions (jb_status row)
          then (Inl (TransitionRefused job_id (jb_status row) to_status), st)
          else
            (case (agent_id, jb_agent_id row) of
               (Some a, Some b) \<Rightarrow>
                 if a \<noteq> b then (Inl (ClaimedByOther job_id b a), st)
                 else let st' = update_job job_id (apply_transition now to_status detail report) st
                   in (get_strict job_id st', st')
             | _ \<Rightarrow>
                 let st' = update_job job_id (apply_transition now to_status detail report) st
                 in (get_strict job_id st', st')))"

definition upsert_agent_heartbeat :: "int \<Rightarrow> string \<Rightarrow> string option \<Rightarrow> string option \<Rightarrow> string option
    \<Rightarrow> job_store \<Rightarrow> agent_heartbeat \<times> job_store" where
  "upsert_agent_heartbeat now agent_id version hostname notes st =
     (let row = \<lparr>hb_agent_id = agent_id, hb_last_seen_at = now, hb_version = version,
            hb_hostname = hostname, hb_notes = notes\<rparr>;
          agents = (if \<exists>h \<in> set (js_agents st). hb_agent_id h = agent_id
            then map (\<lambda>h. if hb_agent_id h = agent_id
              then h\<lparr>hb_last_seen_at := now, hb_version := coalesce version (hb_version h),
                hb_hostname := coalesce hostname (hb_hostname h), hb_notes := coalesce notes (hb_notes h)\<rparr>
              else h) (js_agents st)
            else js_agents st @ [row])
      in (row, st\<lparr>js_agents := agents\<rparr>))"

definition stale :: "int \<Rightarrow> job \<Rightarrow> bool" where
  "stale now j \<longleftrightarrow> jb_status j \<in> {CLAIMED, RUNNING} \<and>
     (case jb_claimed_at j of None \<Rightarrow> False | Some t \<Rightarrow> now - t > jb_timeout_seconds j)"

definition sweep_job :: "int \<Rightarrow> job \<Rightarrow> job" where
  "sweep_job now j = j\<lparr>jb_status := TIMED_OUT, jb_completed_at := Some now,
     jb_detail := Some ((case jb_detail j of None \<Rightarrow> [] | Some d \<Rightarrow> d) @ '' | swept by server'')\<rparr>"

definition sweep_timeouts :: "int \<Rightarrow> job_store \<Rightarrow> int list \<times> job_store" where
  "sweep_timeouts now st =
     (let affected = map jb_id (filter (stale now) (js_jobs st))
      in (affected, fold (\<lambda>jid. update_job jid (sweep_job now)) affected st))"

subsection \<open>Steps and the life cycle of a job\<close>

inductive store_step :: "(bytes \<Rightarrow> string) \<Rightarrow> job_store \<Rightarrow> job_store \<Rightarrow> bool" for sha256 where
  enqueue_step: "store_step sha256 st (snd (enqueue sha256 now run_id data metadata timeout st))"
| claim_step: "store_step sha256 st (snd (claim_next now agent st))"
| transition_step: "store_step sha256 st (snd (transition now i to_status agent detail report st))"
| heartbeat_step: "store_step sha256 st (snd (upsert_agent_heartbeat now agent version hostname notes st))"
| sweep_step: "store_step sha256 st (snd (sweep_timeouts now st))"

definition transition_graph :: "(job_status \<times> job_status) set" where
  "transition_graph = {(a, b). b \<in> allowed_transitions a}"

text \<open>How a job may change over time.\<close>

definition job_evolves :: "job \<Rightarrow> job \<Rightarrow> bool" where
  "job_evolves j j' \<longleftrightarrow>
     jb_id j' = jb_id j \<and> jb_run_id j' = jb_run_id j \<and> jb_artifact_path j' = jb_artifact_path j \<and>
     jb_artifact_size j' = jb_artifact_size j \<and> jb_artifact_sha256 j' = jb_artifact_sha256 j \<and>
     jb_timeout_seconds j' = jb_timeout_seconds j \<and> jb_created_at j' = jb_created_at j \<and>
     jb_metadata j' = jb_metadata j \<and>
     (jb_status j, jb_status j') \<in> transition_graph\<^sup>* \<and>
     (is_terminal (jb_status j) \<longrightarrow> j' = j) \<and>
     (jb_agent_id j \<noteq> None \<longrightarrow> jb_agent_id j' = jb_agent_id j \<and> jb_claimed_at j' = jb_claimed_at j)"

lemma job_evolves_refl [simp]: "job_evolves j j"
  by (simp add: job_evolves_def)

lemma job_evolves_trans [trans]: "job_evolves a b \<Longrightarrow> job_evolves b c \<Longrightarrow> job_evolves a c"
  by (auto simp: job_evolves_def)

text \<open>A well-formed job, and the invariant of the store.\<close>

definition job_wf :: "job \<Rightarrow> bool" where
  "job_wf j \<longleftrightarrow>
     (jb_completed_at j \<noteq> None) = is_terminal (jb_status j) \<and>
     (jb_status j = QUEUED \<longrightarrow> jb_agent_id j = None) \<and>
     (jb_agent_id j = None) = (jb_claimed_at j = None) \<and>
     0 < jb_timeout_seconds j \<and> jb_run_id j \<noteq> [] \<and>
     jb_artifact_path j = artifact_name (jb_artifact_sha256 j)"

definition store_wf :: "(bytes \<Rightarrow> string) \<Rightarrow> job_store \<Rightarrow> bool" where
  "store_wf sha256 st \<longleftrightarrow>
     distinct (map jb_id (js_jobs st)) \<and>
     (\<forall>j \<in> set (js_jobs st). job_wf j \<and> jb_id j < js_next_id st \<and>
        (\<exists>data. map_of (js_artifacts st) (jb_artifact_path j) = Some data \<and> sha256 data = jb_artifact_sha256 j)) \<and>
     distinct (map hb_agent_id (js_agents st))"

lemma store_wf_empty: "store_wf sha256 empty_store"
  by (simp add: store_wf_def empty_store_def)

lemma store_wf_dest:
  assumes "store_wf sha256 st"
  shows "distinct (map jb_id (js_jobs st))" and "j \<in> set (js_jobs st) \<Longrightarrow> job_wf j"
    and "j \<in> set (js_jobs st) \<Longrightarrow> jb_id j < js_next_id st"
  using assms by (auto simp: store_wf_def)

text \<open>Changing rows in a way that keeps their identity and well-formedness keeps the invariant.\<close>

lemma map_jobs_wf:
  assumes "store_wf sha256 st" and ok: "\<And>j. j \<in> set (js_jobs st) \<Longrightarrow> job_evolves j (f j) \<and> job_wf (f j)"
  shows "store_wf sha256 (st\<lparr>js_jobs := map f (js_jobs st)\<rparr>)"
proof -
  have same: "jb_id (f j) = jb_id j" "jb_artifact_path (f j) = jb_artifact_path j"
    "jb_artifact_sha256 (f j) = jb_artifact_sha256 j" "job_wf (f j)" if "j \<in> set (js_jobs st)" for j
    using ok [OF that] by (auto simp: job_evolves_def)
  then have "map jb_id (map f (js_jobs st)) = map jb_id (js_jobs st)" by simp
  then have "distinct (map jb_id (map f (js_jobs st)))" using store_wf_dest(1) [OF assms(1)] by (simp only:)
  with assms(1) show ?thesis unfolding store_wf_def by (simp add: same)
qed

lemma update_job_simps [simp]:
  "js_jobs (update_job i f st) = map (\<lambda>j. if jb_id j = i then f j else j) (js_jobs st)"
  by (simp add: update_job_def)

lemma update_job_wf:
  assumes "store_wf sha256 st"
    and "\<And>j. j \<in> set (js_jobs st) \<Longrightarrow> jb_id j = i \<Longrightarrow> job_evolves j (f j) \<and> job_wf (f j)"
  shows "store_wf sha256 (update_job i f st)"
  unfolding update_job_def by (rule map_jobs_wf) (use assms store_wf_dest(2) [OF assms(1)] in auto)

lemma update_job_evolves:
  assumes "\<And>j. j \<in> set (js_jobs st) \<Longrightarrow> jb_id j = i \<Longrightarrow> job_evolves j (f j)" and "j \<in> set (js_jobs st)"
  shows "\<exists>j' \<in> set (js_jobs (update_job i f st)). job_evolves j j'"
  using assms by (intro bexI [of _ "if jb_id j = i then f j else j"]) auto

text \<open>What each kind of row update does to a well-formed job.\<close>

lemma graph_edge: "b \<in> allowed_transitions a \<Longrightarrow> (a, b) \<in> transition_graph\<^sup>*"
  by (auto simp: transition_graph_def)

lemma terminal_no_edges: "b \<in> allowed_transitions a \<Longrightarrow> \<not> is_terminal a"
  by (cases a) (auto simp: is_terminal_def)

lemma apply_transition_ok:
  assumes "job_wf j" and "s \<in> allowed_transitions (jb_status j)"
  shows "job_evolves j (apply_transition now s detail report j) \<and> job_wf (apply_transition now s detail report j)"
proof -
  have "s \<noteq> QUEUED" "\<not> is_terminal (jb_status j)"
    using assms(2) terminal_no_edges by (cases "jb_status j"; auto)+
  with assms graph_edge [OF assms(2)] show ?thesis
    by (auto simp: job_evolves_def job_wf_def apply_transition_def coalesce_def split: option.splits)
qed

lemma claim_ok:
  assumes "job_wf j" and "jb_status j = QUEUED"
  shows "job_evolves j (j\<lparr>jb_status := CLAIMED, jb_agent_id := Some a, jb_claimed_at := Some now\<rparr>) \<and>
    job_wf (j\<lparr>jb_status := CLAIMED, jb_agent_id := Some a, jb_claimed_at := Some now\<rparr>)"
proof -
  have "\<not> is_terminal QUEUED" "\<not> is_terminal CLAIMED" by (simp_all add: is_terminal_def)
  moreover from this have "jb_agent_id j = None" "jb_completed_at j = None" "0 < jb_timeout_seconds j"
    "jb_run_id j \<noteq> []" "jb_artifact_path j = artifact_name (jb_artifact_sha256 j)"
    using assms unfolding job_wf_def by metis+
  moreover have "(QUEUED, CLAIMED) \<in> transition_graph\<^sup>*" by (rule graph_edge) simp
  ultimately show ?thesis using assms(2) unfolding job_evolves_def job_wf_def by simp
qed

lemma sweep_ok:
  assumes "job_wf j" and "jb_status j \<in> {CLAIMED, RUNNING}"
  shows "job_evolves j (sweep_job now j) \<and> job_wf (sweep_job now j)"
proof -
  have "is_terminal TIMED_OUT" "\<not> is_terminal (jb_status j)" using assms(2) by (auto simp: is_terminal_def)
  moreover have "(jb_status j, TIMED_OUT) \<in> transition_graph\<^sup>*" by (rule graph_edge) (use assms(2) in auto)
  ultimately show ?thesis using assms(1) unfolding job_evolves_def job_wf_def sweep_job_def by simp
qed

text \<open>The update of each operation, on a well-formed store.\<close>

lemma store_get_Some: "store_get i st = Some j \<Longrightarrow> j \<in> set (js_jobs st) \<and> jb_id j = i"
  by (auto simp: store_get_def find_Some_iff)

lemma same_id_same_job:
  "distinct (map jb_id js) \<Longrightarrow> j \<in> set js \<Longrightarrow> j' \<in> set js \<Longrightarrow> jb_id j = jb_id j' \<Longrightarrow> j = j'"
  by (auto simp: distinct_map dest: inj_onD)

lemma transition_cases:
  obtains (refused) e where "transition now i s agent detail report st = (Inl e, st)"
  | (applied) row where "row \<in> set (js_jobs st)" "jb_id row = i" "s \<in> allowed_transitions (jb_status row)"
      "agent = None \<or> jb_agent_id row = None \<or> jb_agent_id row = agent"
      "transition now i s agent detail report st =
        (get_strict i (update_job i (apply_transition now s detail report) st),
         update_job i (apply_transition now s detail report) st)"
proof (cases "store_get i st")
  case None
  then show thesis by (intro refused [of "JobNotFound i"]) (simp add: transition_def)
next
  case (Some row)
  note row = store_get_Some [OF Some]
  show thesis
  proof (cases "s \<in> allowed_transitions (jb_status row)")
    case False
    with Some show thesis by (intro refused) (simp add: transition_def)
  next
    case True
    show thesis
    proof (cases "agent = None \<or> jb_agent_id row = None \<or> jb_agent_id row = agent")
      case ag: True
      have "transition now i s agent detail report st =
        (get_strict i (update_job i (apply_transition now s detail report) st),
         update_job i (apply_transition now s detail report) st)"
        using Some True ag by (auto simp: transition_def Let_def split: option.splits)
      with row True ag show thesis by (intro applied) auto
    next
      case ag: False
      then obtain a b where "agent = Some a" "jb_agent_id row = Some b" "a \<noteq> b" by auto
      with Some True show thesis by (intro refused [of "ClaimedByOther i b a"]) (simp add: transition_def)
    qed
  qed
qed

lemma transition_update_ok:
  assumes "store_wf sha256 st" and "row \<in> set (js_jobs st)" "jb_id row = i" "s \<in> allowed_transitions (jb_status row)"
    and "j \<in> set (js_jobs st)" "jb_id j = i"
  shows "job_evolves j (apply_transition now s detail report j) \<and> job_wf (apply_transition now s detail report j)"
proof -
  have "j = row" using assms by (auto simp: store_wf_def intro: same_id_same_job)
  with assms show ?thesis by (intro apply_transition_ok) (auto simp: store_wf_def)
qed

definition claim_row :: "int \<Rightarrow> string \<Rightarrow> job \<Rightarrow> job" where
  "claim_row now agent_id j = (if jb_status j = QUEUED
     then j\<lparr>jb_status := CLAIMED, jb_agent_id := Some agent_id, jb_claimed_at := Some now\<rparr> else j)"

lemma claim_row_ok: "job_wf j \<Longrightarrow> job_evolves j (claim_row now a j) \<and> job_wf (claim_row now a j)"
  using claim_ok [of j now a] by (simp add: claim_row_def)

lemma claim_next_state:
  "snd (claim_next now agent st) =
     (if agent = [] then st
      else case oldest_queued st of None \<Rightarrow> st | Some row \<Rightarrow> update_job (jb_id row) (claim_row now agent) st)"
  by (auto simp: claim_next_def claim_row_def [abs_def] Let_def split: option.splits)

text \<open>The sweep touches each stale job once.\<close>

lemma fold_update_jobs:
  assumes "\<And>j. jb_id (f j) = jb_id j" and "distinct ids"
  shows "fold (\<lambda>i. update_job i f) ids st =
    st\<lparr>js_jobs := map (\<lambda>j. if jb_id j \<in> set ids then f j else j) (js_jobs st)\<rparr>"
  using assms(2)
proof (induction ids arbitrary: st)
  case (Cons i ids)
  then show ?case by (auto simp: update_job_def assms(1))
qed simp

definition sweep_row :: "int \<Rightarrow> job \<Rightarrow> job" where
  "sweep_row now j = (if stale now j then sweep_job now j else j)"

lemma sweep_timeouts_state:
  assumes "distinct (map jb_id (js_jobs st))"
  shows "snd (sweep_timeouts now st) = st\<lparr>js_jobs := map (sweep_row now) (js_jobs st)\<rparr>"
proof -
  have "jb_id j \<in> set (map jb_id (filter (stale now) (js_jobs st))) \<longleftrightarrow> stale now j" if "j \<in> set (js_jobs st)" for j
    using that same_id_same_job [OF assms] by auto
  moreover have "distinct (map jb_id (filter (stale now) (js_jobs st)))"
    using assms by (rule distinct_map_filter)
  moreover have "jb_id (sweep_job now j) = jb_id j" for j by (simp add: sweep_job_def)
  ultimately show ?thesis
    by (simp add: sweep_timeouts_def Let_def fold_update_jobs sweep_row_def del: set_map cong: map_cong)
qed

lemma sweep_row_ok: "job_wf j \<Longrightarrow> job_evolves j (sweep_row now j) \<and> job_wf (sweep_row now j)"
  using sweep_ok [of j now] by (auto simp: sweep_row_def stale_def)

lemma sweep_wf:
  assumes "store_wf sha256 st"
  shows "store_wf sha256 (snd (sweep_timeouts now st))"
  unfolding sweep_timeouts_state [OF store_wf_dest(1) [OF assms]]
  using assms store_wf_dest(2) [OF assms] sweep_row_ok by (intro map_jobs_wf) auto

lemma claim_wf: "store_wf sha256 st \<Longrightarrow> store_wf sha256 (snd (claim_next now agent st))"
  unfolding claim_next_state
  by (auto split: option.split intro!: update_job_wf claim_row_ok dest: store_wf_dest(2))

lemma transition_wf: "store_wf sha256 st \<Longrightarrow> store_wf sha256 (snd (transition now i s agent detail report st))"
  by (cases rule: transition_cases [of now i s agent detail report st])
    (auto intro!: update_job_wf dest: transition_update_ok)

lemma heartbeat_wf:
  assumes "store_wf sha256 st"
  shows "store_wf sha256 (snd (upsert_agent_heartbeat now agent version hostname notes st))"
proof -
  define f where "f = (\<lambda>h :: agent_heartbeat. if hb_agent_id h = agent
    then h\<lparr>hb_last_seen_at := now, hb_version := coalesce version (hb_version h),
      hb_hostname := coalesce hostname (hb_hostname h), hb_notes := coalesce notes (hb_notes h)\<rparr> else h)"
  have "map hb_agent_id (map f (js_agents st)) = map hb_agent_id (js_agents st)"
    by (simp add: f_def)
  then have "distinct (map hb_agent_id (map f (js_agents st)))" using assms by (simp only: store_wf_def)
  with assms show ?thesis
    by (auto simp: upsert_agent_heartbeat_def Let_def store_wf_def f_def [symmetric])
qed

text \<open>Inserting a row for an artifact that is on disk with the right hash.\<close>

lemma insert_row_wf:
  assumes "store_wf sha256 st" and "0 < timeout" and "run_id \<noteq> []"
    and "map_of (js_artifacts st) (artifact_name digest) = Some data" and "sha256 data = digest"
  shows "store_wf sha256 (st\<lparr>js_jobs := js_jobs st @ [new_job (js_next_id st) run_id (artifact_name digest) n digest timeout now m],
    js_next_id := js_next_id st + 1\<rparr>)"
  using assms by (fastforce simp: store_wf_def new_job_def job_wf_def is_terminal_def)

lemma write_artifact_wf:
  assumes "store_wf sha256 st" and "map_of (js_artifacts st) name = None"
  shows "store_wf sha256 (st\<lparr>js_artifacts := (name, data) # js_artifacts st\<rparr>)"
  using assms by (fastforce simp: store_wf_def)

lemma insert_new_wf:
  assumes "store_wf sha256 st" and "0 < timeout" and "run_id \<noteq> []"
    and "map_of (js_artifacts st) (artifact_name (sha256 data)) = None"
  shows "store_wf sha256 (st\<lparr>js_artifacts := (artifact_name (sha256 data), data) # js_artifacts st,
    js_jobs := js_jobs st @ [new_job (js_next_id st) run_id (artifact_name (sha256 data)) n (sha256 data) timeout now m],
    js_next_id := js_next_id st + 1\<rparr>)"
proof -
  have "store_wf sha256 (st\<lparr>js_artifacts := (artifact_name (sha256 data), data) # js_artifacts st\<rparr>)"
    by (rule write_artifact_wf) (use assms in simp_all)
  from insert_row_wf [OF this assms(2,3), of "sha256 data" data] show ?thesis by simp
qed

lemma enqueue_wf:
  assumes "store_wf sha256 st"
  shows "store_wf sha256 (snd (enqueue sha256 now run_id data metadata timeout st))"
  using assms by (auto simp: enqueue_def Let_def split: option.splits intro!: insert_row_wf insert_new_wf)

lemma store_step_wf: "store_wf sha256 st \<Longrightarrow> store_step sha256 st st' \<Longrightarrow> store_wf sha256 st'"
  by (auto elim!: store_step.cases intro: enqueue_wf claim_wf transition_wf heartbeat_wf sweep_wf)

lemma enqueue_jobs: "\<exists>new. js_jobs (snd (enqueue sha256 now run_id data metadata timeout st)) = js_jobs st @ new"
  by (auto simp: enqueue_def Let_def split: option.splits)

lemma store_step_evolves:
  assumes "store_wf sha256 st" and "store_step sha256 st st'" and j: "j \<in> set (js_jobs st)"
  shows "\<exists>j' \<in> set (js_jobs st'). job_evolves j j'"
  using assms(2)
proof cases
  case (enqueue_step now run_id data metadata timeout)
  then show ?thesis using j enqueue_jobs [of sha256 now run_id data metadata timeout st]
    by (metis UnCI job_evolves_refl set_append)
next
  case (claim_step now agent)
  have "\<exists>j' \<in> set (js_jobs (update_job i (claim_row now agent) st)). job_evolves j j'" for i
    using j store_wf_dest(2) [OF assms(1)] claim_row_ok by (intro update_job_evolves) blast+
  then show ?thesis
    using j unfolding claim_step claim_next_state by (auto split: option.split intro!: bexI [of _ j])
next
  case (transition_step now i s agent detail report)
  show ?thesis
  proof (cases rule: transition_cases [of now i s agent detail report st])
    case (applied row)
    have "\<exists>j' \<in> set (js_jobs (update_job i (apply_transition now s detail report) st)). job_evolves j j'"
      by (rule update_job_evolves [OF _ j]) (use transition_update_ok [OF assms(1) applied(1-3)] in blast)
    then show ?thesis by (simp add: transition_step applied(5))
  qed (use j transition_step in \<open>auto intro!: bexI [of _ j]\<close>)
next
  case (heartbeat_step now agent version hostname ns)
  then show ?thesis using j by (auto simp: upsert_agent_heartbeat_def Let_def intro!: bexI [of _ j])
next
  case (sweep_step now)
  then show ?thesis
    unfolding sweep_step sweep_timeouts_state [OF store_wf_dest(1) [OF assms(1)]]
    using j sweep_row_ok [OF store_wf_dest(2) [OF assms(1) j], of now] by auto
qed

subsection \<open>Interface: the life cycle of jobs\<close>

text \<open>
  What a client of the queue may rely on over any number of steps of a system that keeps jobs: the
  system provides an invariant that makes identifiers unique and that every step keeps, and each step
  only lets jobs evolve.
\<close>

locale job_lifecycle =
  fixes inv :: "'s \<Rightarrow> bool"
    and jobs :: "'s \<Rightarrow> job list"
    and step :: "'s \<Rightarrow> 's \<Rightarrow> bool"
  assumes inv_step: "inv s \<Longrightarrow> step s s' \<Longrightarrow> inv s'"
    and inv_ids: "inv s \<Longrightarrow> distinct (map jb_id (jobs s))"
    and step_evolves: "inv s \<Longrightarrow> step s s' \<Longrightarrow> j \<in> set (jobs s) \<Longrightarrow> \<exists>j' \<in> set (jobs s'). job_evolves j j'"
begin

lemma inv_steps: "step\<^sup>*\<^sup>* s s' \<Longrightarrow> inv s \<Longrightarrow> inv s'"
  by (induction rule: rtranclp_induct) (auto intro: inv_step)

lemma steps_evolve:
  assumes "step\<^sup>*\<^sup>* s s'" and "inv s" and "j \<in> set (jobs s)"
  shows "\<exists>j' \<in> set (jobs s'). job_evolves j j'"
  using assms(1)
proof (induction rule: rtranclp_induct)
  case base
  show ?case using assms(3) by (intro bexI [of _ j]) simp_all
next
  case (step t u)
  then obtain j' where "j' \<in> set (jobs t)" "job_evolves j j'" by blast
  moreover from this obtain j'' where "j'' \<in> set (jobs u)" "job_evolves j' j''"
    using step_evolves [OF inv_steps [OF step.hyps(1) assms(2)] step.hyps(2)] by blast
  ultimately show ?case using job_evolves_trans by blast
qed

lemma later_row:
  assumes "step\<^sup>*\<^sup>* s s'" and "inv s" and "j \<in> set (jobs s)"
    and "j' \<in> set (jobs s')" and "jb_id j' = jb_id j"
  shows "job_evolves j j'"
proof -
  obtain k where k: "k \<in> set (jobs s')" "job_evolves j k" using steps_evolve [OF assms(1-3)] by blast
  moreover have "k = j'"
    using same_id_same_job [OF inv_ids [OF inv_steps [OF assms(1,2)]] k(1) assms(4)] k(2) assms(5)
    by (simp add: job_evolves_def)
  ultimately show ?thesis by simp
qed

lemma terminal_kept:
  assumes "step\<^sup>*\<^sup>* s s'" and "inv s" and "j \<in> set (jobs s)" and "is_terminal (jb_status j)"
  shows "j \<in> set (jobs s')"
  using steps_evolve [OF assms(1-3)] assms(4) by (auto simp: job_evolves_def)

end

interpretation store: job_lifecycle "store_wf sha256" js_jobs "store_step sha256"
  by unfold_locales (auto intro: store_step_wf store_wf_dest dest: store_step_evolves)

text \<open>
  C37. Invariant of the store: in every state reachable from the empty store job identifiers are
  unique and below the next key, a job has a completion time exactly when its status is terminal, a
  queued job has no agent, an agent is recorded exactly together with the claim time, and the
  artifact a job names is on disk with the job's hash.
\<close>

theorem store_reachable_wf:
  assumes "(store_step sha256)\<^sup>*\<^sup>* empty_store st"
  shows "store_wf sha256 st"
  by (rule store.inv_steps [OF assms store_wf_empty])

text \<open>
  C11. The life of a job between any two states of the store: its row is never lost, identity,
  artifact, timeout, creation time and metadata never change, its status moves along the transition
  graph, a recorded agent and claim time are never replaced, and once terminal the row never changes.
\<close>

theorem job_life:
  assumes "(store_step sha256)\<^sup>*\<^sup>* empty_store st" and "(store_step sha256)\<^sup>*\<^sup>* st st'" and "j \<in> set (js_jobs st)"
  shows "(\<exists>j' \<in> set (js_jobs st'). job_evolves j j') \<and>
    (\<forall>j' \<in> set (js_jobs st'). jb_id j' = jb_id j \<longrightarrow> job_evolves j j') \<and>
    (is_terminal (jb_status j) \<longrightarrow> j \<in> set (js_jobs st'))"
proof -
  have wf: "store_wf sha256 st" by (rule store.inv_steps [OF assms(1) store_wf_empty])
  show ?thesis
    using store.steps_evolve [OF assms(2) wf assms(3)] store.later_row [OF assms(2) wf assms(3)]
      store.terminal_kept [OF assms(2) wf assms(3)] by blast
qed

subsection \<open>Claims drain the queue\<close>

definition queue :: "job_store \<Rightarrow> job list" where
  "queue st = sort_key (\<lambda>j. (jb_created_at j, jb_id j)) (filter (\<lambda>j. jb_status j = QUEUED) (js_jobs st))"

fun claimed_id :: "store_error + job option \<Rightarrow> int option" where
  "claimed_id (Inr (Some j)) = Some (jb_id j)"
| "claimed_id _ = None"

fun claim_many :: "(int \<times> string) list \<Rightarrow> job_store \<Rightarrow> int option list \<times> job_store" where
  "claim_many [] st = ([], st)"
| "claim_many ((now, agent) # cs) st =
     (let r = claim_next now agent st; rest = claim_many cs (snd r)
      in (claimed_id (fst r) # fst rest, snd rest))"

lemma oldest_queued_queue: "oldest_queued st = (case queue st of [] \<Rightarrow> None | j # _ \<Rightarrow> Some j)"
  by (simp add: oldest_queued_def queue_def)

lemma queue_mem: "set (queue st) = {j \<in> set (js_jobs st). jb_status j = QUEUED}"
  by (auto simp: queue_def)

lemma filter_map_same: "(\<And>x. x \<in> set xs \<Longrightarrow> P x \<Longrightarrow> f x = x \<and> Q x) \<Longrightarrow> (\<And>x. x \<in> set xs \<Longrightarrow> \<not> P x \<Longrightarrow> \<not> Q (f x)) \<Longrightarrow>
    filter Q (map f xs) = filter P xs"
  by (induction xs) auto

lemma queue_distinct: "distinct (map jb_id (js_jobs st)) \<Longrightarrow> distinct (map jb_id (queue st))"
  using mset_eq_imp_distinct_iff [of "map jb_id (queue st)" "map jb_id (filter (\<lambda>j. jb_status j = QUEUED) (js_jobs st))"]
  by (simp add: queue_def distinct_map_filter)

lemma queue_claim:
  assumes wf: "store_wf sha256 st" and q: "queue st = j # js" and a: "agent \<noteq> []"
  shows "queue (snd (claim_next now agent st)) = js \<and> claimed_id (fst (claim_next now agent st)) = Some (jb_id j)"
proof -
  note ids = store_wf_dest(1) [OF wf]
  let ?st' = "update_job (jb_id j) (claim_row now agent) st"
  have j: "j \<in> set (js_jobs st)" "jb_status j = QUEUED" using queue_mem [of st] q by auto
  have others: "jb_id k \<noteq> jb_id j" if "k \<in> set js" for k
    using queue_distinct [OF ids] q that by (force simp: image_iff)
  have "filter (\<lambda>j. jb_status j = QUEUED) (js_jobs ?st') =
      filter (\<lambda>k. jb_status k = QUEUED \<and> jb_id k \<noteq> jb_id j) (js_jobs st)"
    unfolding update_job_simps by (rule filter_map_same) (auto simp: claim_row_def)
  also have "\<dots> = filter (\<lambda>k. jb_id k \<noteq> jb_id j) (filter (\<lambda>j. jb_status j = QUEUED) (js_jobs st))"
    by (simp add: conj_commute)
  finally have "queue ?st' = filter (\<lambda>k. jb_id k \<noteq> jb_id j) (queue st)"
    by (simp add: queue_def filter_sort)
  also have "\<dots> = js" using others by (simp add: q)
  finally have "queue ?st' = js" .
  moreover have "\<exists>k. store_get (jb_id j) ?st' = Some k \<and> jb_id k = jb_id j"
  proof -
    have "jb_id (claim_row now agent k) = jb_id k" for k by (simp add: claim_row_def)
    then have "claim_row now agent j \<in> set (js_jobs ?st')" "jb_id (claim_row now agent j) = jb_id j"
      using j by auto
    then obtain k where "store_get (jb_id j) ?st' = Some k"
      unfolding store_get_def by (metis (mono_tags, lifting) find_None_iff not_None_eq)
    with store_get_Some show ?thesis by blast
  qed
  ultimately show ?thesis
    using a q by (auto simp: claim_next_def claim_row_def [abs_def] oldest_queued_queue Let_def)
qed

lemma queue_claim_empty:
  "queue st = [] \<Longrightarrow> agent \<noteq> [] \<Longrightarrow> claim_next now agent st = (Inr None, st)"
  by (simp add: claim_next_def oldest_queued_queue)

text \<open>
  C21. Claims drain the queue in order: however the agents and times are chosen, successive claims
  on a well-formed store return the queued jobs oldest first (by creation time, then identifier),
  each exactly once, and then nothing; after as many claims as there are queued jobs none is left
  waiting.
\<close>

theorem claims_drain_queue:
  assumes "store_wf sha256 st" and "\<forall>(now, agent) \<in> set cs. agent \<noteq> []"
  shows "fst (claim_many cs st) =
      map (\<lambda>j. Some (jb_id j)) (take (length cs) (queue st)) @ replicate (length cs - length (queue st)) None \<and>
    queue (snd (claim_many cs st)) = drop (length cs) (queue st)"
  using assms
proof (induction cs arbitrary: st)
  case (Cons c cs)
  obtain now agent where c: "c = (now, agent)" by (cases c)
  with Cons.prems have a: "agent \<noteq> []" by simp
  have wf: "store_wf sha256 (snd (claim_next now agent st))" by (rule claim_wf [OF Cons.prems(1)])
  note IH = Cons.IH [OF wf]
  show ?case
  proof (cases "queue st")
    case Nil
    with Cons.IH [of st] Cons.prems a show ?thesis by (simp add: c Let_def queue_claim_empty)
  next
    case (Cons j js)
    with queue_claim [OF Cons.prems(1) Cons a, of now] IH Cons.prems(2) show ?thesis by (simp add: c Let_def)
  qed
qed simp

subsection \<open>A claimed job\<close>

definition demo_sha :: "bytes \<Rightarrow> string" where "demo_sha data = ''h'' @ data"

definition demo_store1 :: job_store where
  "demo_store1 = snd (enqueue demo_sha 100 ''run'' ''gbx'' None 300 empty_store)"

definition demo_store2 :: job_store where
  "demo_store2 = snd (claim_next 110 ''rig'' demo_store1)"

definition demo_store3 :: job_store where
  "demo_store3 = snd (transition 120 1 COMPLETE (Some ''rig'') None (Some [(''ok'', JBool True)]) demo_store2)"

lemma demo_reachable:
  "(store_step demo_sha)\<^sup>*\<^sup>* empty_store demo_store1" "(store_step demo_sha)\<^sup>*\<^sup>* demo_store1 demo_store2"
  "(store_step demo_sha)\<^sup>*\<^sup>* demo_store2 demo_store3"
  unfolding demo_store1_def demo_store2_def demo_store3_def
  by (rule r_into_rtranclp, rule store_step.intros)+

theorem store_reachable_wf_witness: "store_wf demo_sha demo_store1 \<and> js_jobs demo_store1 \<noteq> []"
proof
  show "store_wf demo_sha demo_store1" by (rule store_reachable_wf [OF demo_reachable(1)])
  show "js_jobs demo_store1 \<noteq> []" by code_simp
qed

theorem job_life_witness:
  "\<exists>j' \<in> set (js_jobs demo_store3). job_evolves (hd (js_jobs demo_store2)) j' \<and> jb_status j' = COMPLETE"
proof -
  have mem: "hd (js_jobs demo_store2) \<in> set (js_jobs demo_store2)" by code_simp
  have "\<exists>j' \<in> set (js_jobs demo_store3). job_evolves (hd (js_jobs demo_store2)) j'"
    using job_life [OF rtranclp_trans [OF demo_reachable(1,2)] demo_reachable(3) mem] by blast
  moreover have "list_all (\<lambda>j. jb_status j = COMPLETE) (js_jobs demo_store3)" by code_simp
  ultimately show ?thesis by (auto simp: list_all_iff)
qed

theorem claims_drain_queue_witness:
  "fst (claim_many [(110, ''rig''), (111, ''rig2'')] demo_store1) = [Some 1, None]"
proof -
  have wf: "store_wf demo_sha demo_store1" by (rule store.inv_steps [OF demo_reachable(1) store_wf_empty])
  have "map jb_id (queue demo_store1) = [1]" by code_simp
  then obtain j where "queue demo_store1 = [j]" "jb_id j = 1" by auto
  with claims_drain_queue [OF wf, of "[(110, ''rig''), (111, ''rig2'')]"] show ?thesis by simp
qed

text \<open>A job moved to \<open>CLAIMED\<close> by a status report instead of a claim has no claim time: however
  late, the sweep leaves it alone.\<close>

lemma reported_claim_never_swept:
  assumes "store_wf sha256 st" and "j \<in> set (js_jobs st)" and "jb_status j = CLAIMED" and "jb_agent_id j = None"
  shows "j \<in> set (js_jobs (snd (sweep_timeouts now st)))"
proof -
  have "jb_claimed_at j = None" using store_wf_dest(2) [OF assms(1,2)] assms(4) by (simp add: job_wf_def)
  then have "sweep_row now j = j" by (simp add: sweep_row_def stale_def)
  then show ?thesis
    using assms(2) by (force simp: sweep_timeouts_state [OF store_wf_dest(1) [OF assms(1)]])
qed

subsection \<open>Rows by identifier\<close>

lemma store_get_update:
  "(\<And>j. jb_id (f j) = jb_id j) \<Longrightarrow>
     store_get k (update_job i f st) = (if k = i then map_option f (store_get k st) else store_get k st)"
proof -
  assume id: "\<And>j. jb_id (f j) = jb_id j"
  have "find (\<lambda>j. jb_id j = k) (map (\<lambda>j. if jb_id j = i then f j else j) js) =
      (if k = i then map_option f (find (\<lambda>j. jb_id j = k) js) else find (\<lambda>j. jb_id j = k) js)" for js
    by (induction js) (auto simp: id)
  then show ?thesis by (simp add: store_get_def)
qed

lemma store_get_sweep:
  assumes "distinct (map jb_id (js_jobs st))"
  shows "store_get k (snd (sweep_timeouts now st)) = map_option (sweep_row now) (store_get k st)"
proof -
  have id: "jb_id (sweep_row now j) = jb_id j" for j by (simp add: sweep_row_def sweep_job_def)
  have "find (\<lambda>j. jb_id j = k) (map (sweep_row now) js) = map_option (sweep_row now) (find (\<lambda>j. jb_id j = k) js)" for js
    by (induction js) (simp_all add: id)
  then show ?thesis by (simp add: sweep_timeouts_state [OF assms] store_get_def)
qed

lemma store_get_mem:
  assumes "distinct (map jb_id (js_jobs st))" and "j \<in> set (js_jobs st)"
  shows "store_get (jb_id j) st = Some j"
proof (cases "store_get (jb_id j) st")
  case None
  with assms(2) show ?thesis by (auto simp: store_get_def find_None_iff)
next
  case (Some k)
  with store_get_Some [OF Some] same_id_same_job [OF assms(1) _ assms(2)] show ?thesis by auto
qed

lemma transition_applies:
  assumes "store_get i st = Some row" and "s \<in> allowed_transitions (jb_status row)" and "jb_agent_id row = agent"
  shows "transition now i s agent detail report st =
      (Inr (apply_transition now s detail report row), update_job i (apply_transition now s detail report) st)"
proof -
  have "store_get i (update_job i (apply_transition now s detail report) st) = Some (apply_transition now s detail report row)"
    by (subst store_get_update) (simp_all add: apply_transition_def assms(1))
  with assms show ?thesis
    by (auto simp: transition_def Let_def get_strict_def split: option.split)
qed

lemma claim_next_row:
  assumes wf: "store_wf sha256 st" and "agent \<noteq> []" and "oldest_queued st = Some row"
  shows "claim_next now agent st = (Inr (Some (claim_row now agent row)), update_job (jb_id row) (claim_row now agent) st)"
    and "jb_status row = QUEUED" and "store_get (jb_id row) st = Some row"
proof -
  have row: "row \<in> set (js_jobs st)" "jb_status row = QUEUED"
    using queue_mem [of st] assms(3) by (auto simp: oldest_queued_queue split: list.splits)
  then show "jb_status row = QUEUED" by simp
  from store_get_mem [OF store_wf_dest(1) [OF wf] row(1)] show get: "store_get (jb_id row) st = Some row" .
  have "store_get (jb_id row) (update_job (jb_id row) (claim_row now agent) st) = Some (claim_row now agent row)"
    by (subst store_get_update) (simp_all add: claim_row_def get)
  with assms(2,3) show "claim_next now agent st =
      (Inr (Some (claim_row now agent row)), update_job (jb_id row) (claim_row now agent) st)"
    by (simp add: claim_next_def Let_def claim_row_def [abs_def])
qed

lemma oldest_queued_None: "oldest_queued st = None \<longleftrightarrow> (\<forall>j \<in> set (js_jobs st). jb_status j \<noteq> QUEUED)"
  using queue_mem [of st] by (auto simp: oldest_queued_queue split: list.splits)

end
