(* ===== verification/Job_Server.thy ===== *)
theory Job_Server
  imports Job_Store
begin

section \<open>The HTTP server of the remote-test queue\<close>

text \<open>
  Model of \<^verbatim>\<open>src/src/remote_test/server.py\<close>: one function per endpoint and the dispatcher with the
  bearer-token gate, over the job store of \<open>Job_Store\<close>. A request is a value with its decoded
  parameters: a JSON body field that has the wrong shape arrives as \<open>Some None\<close>. Routing, streaming
  and the upload limit belong to the web framework and are not modelled. Each request runs with two
  clock readings, since claiming a job reads the clock for the sweep and again for the claim.
\<close>

datatype http_error =
    Unauthorised | ArtifactRequired | RunIdMissing | BadMetadata | TimeoutNotInt | AgentIdMissing
  | StatusRequired | UnknownStatus | ReportNotObject | LimitNotInt | StoreRefused store_error

datatype payload =
    NoBody
  | HealthBody bool
  | ErrorBody http_error
  | JobBody job
  | AgentJobBody job
  | JobsBody "job list"
  | AgentsBody "agent_heartbeat list"
  | HeartbeatBody agent_heartbeat
  | FileBody bytes string

record response =
  rp_status :: nat
  rp_body :: payload

definition respond :: "nat \<Rightarrow> payload \<Rightarrow> response" where
  "respond code body = \<lparr>rp_status = code, rp_body = body\<rparr>"

record status_body =
  sb_status :: "pyval option"
  sb_agent_id :: "string option"
  sb_detail :: "string option"
  sb_report :: "json_obj option option"

datatype request =
    GetHealth
  | PostJobs "bytes option" "string option" "json_obj option option" "string option"
  | GetJobsNext "string option"
  | GetArtifact int
  | PostStatus int status_body
  | PostHeartbeat string "string option" "string option" "string option"
  | GetJob int
  | GetJobs "string option"
  | GetAgents

record server_config =
  sc_auth_token :: "string option"
  sc_allow_insecure :: bool

definition token_set :: "string option \<Rightarrow> bool" where
  "token_set auth_token \<longleftrightarrow> (case auth_token of None \<Rightarrow> False | Some t \<Rightarrow> t \<noteq> [])"

text \<open>\<open>create_app\<close> refuses to start without a token unless insecure mode is asked for.\<close>

definition create_app :: "string option \<Rightarrow> bool \<Rightarrow> server_config option" where
  "create_app auth_token allow_insecure =
     (if \<not> token_set auth_token \<and> \<not> allow_insecure then None
      else Some \<lparr>sc_auth_token = auth_token, sc_allow_insecure = allow_insecure\<rparr>)"

definition BEARER_PREFIX :: string where "BEARER_PREFIX = ''Bearer ''"

definition authorised :: "server_config \<Rightarrow> string option \<Rightarrow> bool" where
  "authorised cfg authorization =
     (if sc_allow_insecure cfg then True
      else let header = (case authorization of None \<Rightarrow> [] | Some h \<Rightarrow> h)
        in if \<not> startswith header BEARER_PREFIX then False
           else let candidate = py_strip (drop (length BEARER_PREFIX) header)
             in token_set (sc_auth_token cfg) \<and> sc_auth_token cfg = Some candidate)"

text \<open>Priority: command line, then a non-blank environment variable.\<close>

definition resolve_auth_token :: "string option \<Rightarrow> string option \<Rightarrow> string option" where
  "resolve_auth_token cli_token env =
     (if token_set cli_token then cli_token
      else case env of
          None \<Rightarrow> None
        | Some e \<Rightarrow> if e = [] \<or> py_strip e = [] then None else Some (py_strip e))"

subsection \<open>Endpoints\<close>

definition enqueue_job :: "(bytes \<Rightarrow> string) \<Rightarrow> int \<Rightarrow> bytes option \<Rightarrow> string option \<Rightarrow> json_obj option option
    \<Rightarrow> string option \<Rightarrow> job_store \<Rightarrow> response \<times> job_store" where
  "enqueue_job sha256 now artifact run_id_field metadata_field timeout_field st =
     (case artifact of
        None \<Rightarrow> (respond 400 (ErrorBody ArtifactRequired), st)
      | Some data \<Rightarrow>
          let run_id = py_strip (case run_id_field of None \<Rightarrow> [] | Some r \<Rightarrow> r) in
          if run_id = [] then (respond 400 (ErrorBody RunIdMissing), st)
          else (case (case metadata_field of None \<Rightarrow> Some [] | Some m \<Rightarrow> m) of
              None \<Rightarrow> (respond 400 (ErrorBody BadMetadata), st)
            | Some metadata \<Rightarrow>
                (case parse_int (case timeout_field of None \<Rightarrow> ''300'' | Some t \<Rightarrow> t) of
                   None \<Rightarrow> (respond 400 (ErrorBody TimeoutNotInt), st)
                 | Some timeout_seconds \<Rightarrow>
                     (case enqueue sha256 now run_id data (Some metadata) timeout_seconds st of
                        (Inl e, st') \<Rightarrow> (respond 400 (ErrorBody (StoreRefused e)), st')
                      | (Inr res, st') \<Rightarrow>
                          (case get_strict (er_job_id res) st' of
                             Inl e \<Rightarrow> (respond 500 (ErrorBody (StoreRefused e)), st')
                           | Inr j \<Rightarrow> (respond 201 (JobBody j), st'))))))"

definition claim_next_job :: "int \<Rightarrow> int \<Rightarrow> string option \<Rightarrow> job_store \<Rightarrow> response \<times> job_store" where
  "claim_next_job now now' agent_field st =
     (let agent_id = py_strip (case agent_field of None \<Rightarrow> [] | Some a \<Rightarrow> a) in
      if agent_id = [] then (respond 400 (ErrorBody AgentIdMissing), st)
      else case claim_next now' agent_id (snd (sweep_timeouts now st)) of
          (Inl e, st') \<Rightarrow> (respond 500 (ErrorBody (StoreRefused e)), st')
        | (Inr None, st') \<Rightarrow> (respond 204 NoBody, st')
        | (Inr (Some j), st') \<Rightarrow> (respond 200 (AgentJobBody j), st'))"

definition download_artifact :: "int \<Rightarrow> job_store \<Rightarrow> response" where
  "download_artifact job_id st =
     (case store_get job_id st of
        None \<Rightarrow> respond 404 NoBody
      | Some j \<Rightarrow>
          (case map_of (js_artifacts st) (jb_artifact_path j) of
             None \<Rightarrow> respond 410 NoBody
           | Some data \<Rightarrow> respond 200 (FileBody data (jb_run_id j @ ''.Map.Gbx''))))"

definition post_status :: "int \<Rightarrow> int \<Rightarrow> status_body \<Rightarrow> job_store \<Rightarrow> response \<times> job_store" where
  "post_status now job_id body st =
     (case sb_status body of
        None \<Rightarrow> (respond 400 (ErrorBody StatusRequired), st)
      | Some status_raw \<Rightarrow>
          if \<not> py_truthy status_raw then (respond 400 (ErrorBody StatusRequired), st)
          else case (case status_raw of PyStr s \<Rightarrow> status_of_value s | _ \<Rightarrow> None) of
              None \<Rightarrow> (respond 400 (ErrorBody UnknownStatus), st)
            | Some to_status \<Rightarrow>
                if sb_report body = Some None then (respond 400 (ErrorBody ReportNotObject), st)
                else (case transition now job_id to_status (sb_agent_id body) (sb_detail body)
                         (case sb_report body of Some r \<Rightarrow> r | None \<Rightarrow> None) st of
                    (Inl e, st') \<Rightarrow> (respond 409 (ErrorBody (StoreRefused e)), st')
                  | (Inr j, st') \<Rightarrow> (respond 200 (JobBody j), st')))"

definition list_jobs :: "string option \<Rightarrow> job_store \<Rightarrow> response" where
  "list_jobs limit_field st =
     (case parse_int (case limit_field of None \<Rightarrow> ''50'' | Some l \<Rightarrow> l) of
        None \<Rightarrow> respond 400 (ErrorBody LimitNotInt)
      | Some limit \<Rightarrow> respond 200 (JobsBody (list_recent (max 1 (min 500 limit)) st)))"

definition dispatch :: "(bytes \<Rightarrow> string) \<Rightarrow> server_config \<Rightarrow> int \<Rightarrow> int \<Rightarrow> request \<Rightarrow> job_store
    \<Rightarrow> response \<times> job_store" where
  "dispatch sha256 cfg now now' req st =
     (case req of
        GetHealth \<Rightarrow> (respond 200 (HealthBody (\<not> sc_allow_insecure cfg)), st)
      | PostJobs artifact run_id metadata timeout \<Rightarrow> enqueue_job sha256 now artifact run_id metadata timeout st
      | GetJobsNext agent \<Rightarrow> claim_next_job now now' agent st
      | GetArtifact i \<Rightarrow> (download_artifact i st, st)
      | PostStatus i body \<Rightarrow> post_status now i body st
      | PostHeartbeat agent version hostname notes \<Rightarrow>
          (case upsert_agent_heartbeat now agent version hostname notes st of
             (hb, st') \<Rightarrow> (respond 200 (HeartbeatBody hb), st'))
      | GetJob i \<Rightarrow>
          ((case store_get i st of None \<Rightarrow> respond 404 NoBody | Some j \<Rightarrow> respond 200 (JobBody j)), st)
      | GetJobs limit \<Rightarrow> (list_jobs limit st, st)
      | GetAgents \<Rightarrow> (respond 200 (AgentsBody (list_agents st)), st))"

text \<open>The gate runs before every endpoint but \<open>/health\<close>.\<close>

definition handle :: "(bytes \<Rightarrow> string) \<Rightarrow> server_config \<Rightarrow> int \<Rightarrow> int \<Rightarrow> string option \<Rightarrow> request \<Rightarrow> job_store
    \<Rightarrow> response \<times> job_store" where
  "handle sha256 cfg now now' authorization req st =
     (if req \<noteq> GetHealth \<and> \<not> authorised cfg authorization
      then (respond 401 (ErrorBody Unauthorised), st)
      else dispatch sha256 cfg now now' req st)"

subsection \<open>The server as a system of jobs\<close>

inductive server_step :: "(bytes \<Rightarrow> string) \<Rightarrow> server_config \<Rightarrow> job_store \<Rightarrow> job_store \<Rightarrow> bool" for sha256 cfg where
  request_step: "server_step sha256 cfg st (snd (handle sha256 cfg now now' authorization req st))"

text \<open>Turning the result of a store operation into a response does not touch the state.\<close>

lemma respond_state:
  "snd (case p of (Inl e, s) \<Rightarrow> (f e, s) | (Inr r, s) \<Rightarrow> (g r, s)) = snd p"
  "snd (case p of (Inl e, s) \<Rightarrow> (f e, s) | (Inr r, s) \<Rightarrow>
     (case h r s of Inl e \<Rightarrow> (k e, s) | Inr j \<Rightarrow> (l j, s))) = snd p"
  "snd (case q of (Inl e, s) \<Rightarrow> (f e, s) | (Inr None, s) \<Rightarrow> (c, s) | (Inr (Some j), s) \<Rightarrow> (l j, s)) = snd q"
  by (auto split: prod.split sum.split option.split)

lemma enqueue_job_state:
  "snd (enqueue_job sha256 now artifact run_id metadata timeout st) = st \<or>
   (\<exists>r d m t. snd (enqueue_job sha256 now artifact run_id metadata timeout st) = snd (enqueue sha256 now r d m t st))"
proof (cases artifact)
  case (Some data)
  define m where "m = (case metadata of None \<Rightarrow> Some [] | Some m \<Rightarrow> m)"
  define t where "t = parse_int (case timeout of None \<Rightarrow> ''300'' | Some t \<Rightarrow> t)"
  show ?thesis
    by (cases m; cases t) (auto simp: enqueue_job_def Let_def Some respond_state m_def [symmetric] t_def [symmetric])
qed (simp add: enqueue_job_def)

lemma claim_next_job_state:
  "snd (claim_next_job now now' agent st) = st \<or>
   (\<exists>a. snd (claim_next_job now now' agent st) = snd (claim_next now' a (snd (sweep_timeouts now st))))"
  by (auto simp: claim_next_job_def Let_def respond_state)

lemma post_status_state:
  "snd (post_status now i body st) = st \<or>
   (\<exists>s a d r. snd (post_status now i body st) = snd (transition now i s a d r st))"
proof (cases "sb_status body")
  case (Some raw)
  define s where "s = (case raw of PyStr s \<Rightarrow> status_of_value s | _ \<Rightarrow> None)"
  show ?thesis
    by (cases s) (auto simp: post_status_def Some respond_state s_def [symmetric])
qed (simp add: post_status_def)

lemma handle_steps: "(store_step sha256)\<^sup>*\<^sup>* st (snd (handle sha256 cfg now now' authorization req st))"
proof -
  have step: "(store_step sha256)\<^sup>*\<^sup>* st st'" if "store_step sha256 st st'" for st st'
    using that by (rule r_into_rtranclp)
  have "(store_step sha256)\<^sup>*\<^sup>* st (snd (dispatch sha256 cfg now now' req st))"
  proof (cases req)
    case (PostJobs artifact run_id metadata timeout)
    then show ?thesis
      using enqueue_job_state [of sha256 now artifact run_id metadata timeout st]
      by (auto simp: dispatch_def intro: step [OF enqueue_step])
  next
    case (GetJobsNext agent)
    have "(store_step sha256)\<^sup>*\<^sup>* st (snd (claim_next now' a (snd (sweep_timeouts now st))))" for a
      by (rule rtranclp_trans [OF step [OF sweep_step] step [OF claim_step]])
    then show ?thesis
      using GetJobsNext claim_next_job_state [of now now' agent st] by (auto simp: dispatch_def)
  next
    case (PostStatus i body)
    then show ?thesis
      using post_status_state [of now i body st] by (auto simp: dispatch_def intro: step [OF transition_step])
  next
    case (PostHeartbeat agent version hostname ns)
    then show ?thesis
      using step [OF heartbeat_step, of st now agent version hostname ns]
      by (auto simp: dispatch_def split: prod.splits)
  qed (simp_all add: dispatch_def)
  then show ?thesis by (simp add: handle_def)
qed

text \<open>A request is a sequence of store operations, so the server keeps the life-cycle contract.\<close>

interpretation server: job_lifecycle "store_wf sha256" js_jobs "server_step sha256 cfg"
proof
  fix s s' assume wf: "store_wf sha256 s"
  then show "distinct (map jb_id (js_jobs s))" by (rule store_wf_dest(1))
  assume "server_step sha256 cfg s s'"
  then have steps: "(store_step sha256)\<^sup>*\<^sup>* s s'" by cases (simp add: handle_steps)
  show "store_wf sha256 s'" by (rule store.inv_steps [OF steps wf])
  fix j assume "j \<in> set (js_jobs s)"
  then show "\<exists>j' \<in> set (js_jobs s'). job_evolves j j'" by (rule store.steps_evolve [OF steps wf])
qed

text \<open>A resolved token is always accepted by the server.\<close>

lemma resolve_auth_token_starts:
  "resolve_auth_token cli env \<noteq> None \<Longrightarrow> create_app (resolve_auth_token cli env) insecure \<noteq> None"
  by (auto simp: resolve_auth_token_def create_app_def token_set_def split: option.splits if_splits)

lemma read_only:
  "req \<in> {GetHealth, GetAgents} \<union> range GetArtifact \<union> range GetJob \<union> range GetJobs \<Longrightarrow>
     snd (dispatch sha256 cfg now now' req st) = st"
  by (auto simp: dispatch_def)

text \<open>
  C28. Authentication: when the server was started without insecure mode, a request that changes the
  store in any way carries the configured, non-empty token in a bearer header; and the read endpoints
  change nothing even then.
\<close>

theorem changes_need_token:
  assumes "create_app auth_token False = Some cfg"
    and "handle sha256 cfg now now' authorization req st = (resp, st')" and "st' \<noteq> st"
  shows "(\<exists>header. authorization = Some header \<and> startswith header BEARER_PREFIX \<and>
      py_strip (drop (length BEARER_PREFIX) header) \<noteq> [] \<and>
      auth_token = Some (py_strip (drop (length BEARER_PREFIX) header))) \<and>
    req \<notin> {GetHealth, GetAgents} \<union> range GetArtifact \<union> range GetJob \<union> range GetJobs"
proof -
  have cfg: "sc_auth_token cfg = auth_token" "\<not> sc_allow_insecure cfg" "token_set auth_token"
    using assms(1) by (auto simp: create_app_def split: if_splits)
  have ro: "req \<notin> {GetHealth, GetAgents} \<union> range GetArtifact \<union> range GetJob \<union> range GetJobs"
  proof
    assume "req \<in> {GetHealth, GetAgents} \<union> range GetArtifact \<union> range GetJob \<union> range GetJobs"
    from read_only [OF this, of sha256 cfg now now' st] assms(2,3) show False
      by (auto simp: handle_def split: if_splits)
  qed
  have "authorised cfg authorization"
    using assms(2,3) ro by (auto simp: handle_def split: if_splits)
  with cfg have "\<exists>header. authorization = Some header \<and> startswith header BEARER_PREFIX \<and>
      py_strip (drop (length BEARER_PREFIX) header) \<noteq> [] \<and>
      auth_token = Some (py_strip (drop (length BEARER_PREFIX) header))"
    by (cases authorization)
      (auto simp: authorised_def Let_def token_set_def BEARER_PREFIX_def split: if_splits option.splits)
  with ro show ?thesis by blast
qed

text \<open>
  C33. Upload and download agree: in every state the server can reach from the empty store, the
  artifact of each known job can be downloaded (never gone), and the bytes served hash to the digest
  recorded for that job, whatever the hash function.
\<close>

theorem download_matches_hash:
  assumes "(server_step sha256 cfg)\<^sup>*\<^sup>* empty_store st" and "store_get i st = Some j"
  shows "\<exists>data. download_artifact i st = respond 200 (FileBody data (jb_run_id j @ ''.Map.Gbx'')) \<and>
    sha256 data = jb_artifact_sha256 j"
proof -
  have wf: "store_wf sha256 st" by (rule server.inv_steps [OF assms(1) store_wf_empty])
  with store_get_Some [OF assms(2)] obtain data where
    "map_of (js_artifacts st) (jb_artifact_path j) = Some data" "sha256 data = jb_artifact_sha256 j"
    by (auto simp: store_wf_def)
  with assms(2) show ?thesis by (auto simp: download_artifact_def)
qed

subsection \<open>An upload over HTTP\<close>

definition demo_cfg :: server_config where
  "demo_cfg = \<lparr>sc_auth_token = Some ''s3'', sc_allow_insecure = False\<rparr>"

definition demo_upload :: "response \<times> job_store" where
  "demo_upload = handle demo_sha demo_cfg 100 100 (Some ''Bearer s3'') (PostJobs (Some ''gbx'') (Some ''run'') None None) empty_store"

theorem changes_need_token_witness:
  "(case demo_upload of (resp, st) \<Rightarrow> rp_status resp = 201) \<and> startswith ''Bearer s3'' BEARER_PREFIX"
proof -
  have cfg: "create_app (Some ''s3'') False = Some demo_cfg" by code_simp
  have st: "snd demo_upload \<noteq> empty_store" by code_simp
  have "handle demo_sha demo_cfg 100 100 (Some ''Bearer s3'') (PostJobs (Some ''gbx'') (Some ''run'') None None) empty_store =
      (fst demo_upload, snd demo_upload)"
    by (simp add: demo_upload_def)
  from changes_need_token [OF cfg this st] have "startswith ''Bearer s3'' BEARER_PREFIX" by blast
  moreover have "case demo_upload of (resp, st) \<Rightarrow> rp_status resp = 201" by code_simp
  ultimately show ?thesis by blast
qed

theorem download_matches_hash_witness:
  "\<exists>data. download_artifact 1 (snd demo_upload) = respond 200 (FileBody data ''run.Map.Gbx'')"
proof -
  have reach: "(server_step demo_sha demo_cfg)\<^sup>*\<^sup>* empty_store (snd demo_upload)"
    unfolding demo_upload_def by (rule r_into_rtranclp) (rule request_step)
  have get: "store_get 1 (snd demo_upload) = Some (hd (js_jobs (snd demo_upload)))"
    "jb_run_id (hd (js_jobs (snd demo_upload))) = ''run''" by code_simp+
  from download_matches_hash [OF reach get(1)] show ?thesis unfolding get(2) by auto
qed

end
