(* ===== verification/Traversability.thy ===== *)
theory Traversability
  imports Prelude
begin

section \<open>Traversability: families, edge labels and the cell graph\<close>

text \<open>
  Model of \<^verbatim>\<open>src/src/corridor/traversability/classification.py\<close>, \<^verbatim>\<open>labeling.py\<close> and the graph
  construction of \<^verbatim>\<open>reachability.py\<close>: the three buckets of block families, the label of an edge, the
  batch labeler over a list of edges, and the graph of a map's cells. Main result: two cells are
  neighbours in the built graph exactly when they touch along an axis and both resolve to a drivable
  family.
\<close>

subsection \<open>Families\<close>

datatype family_bucket = DRIVABLE | NON_DRIVABLE | AMBIGUOUS

definition DRIVABLE_FAMILIES :: "string list" where
  "DRIVABLE_FAMILIES = [''Platform'', ''Road'', ''Track'', ''Gate'', ''Technics'', ''Rally'', ''Snow'', ''Dirt'']"

definition NON_DRIVABLE_FAMILIES :: "string list" where
  "NON_DRIVABLE_FAMILIES = [''Deco'', ''Structure'', ''Stand'', ''Canopy'', ''Stadium'', ''Water'', ''Void'',
     ''Lake'', ''Ground'', ''Grass'', ''Land'', ''Unknown'']"

definition AMBIGUOUS_FAMILIES :: "string list" where
  "AMBIGUOUS_FAMILIES = [''Open'', ''Stage'', ''Items'', ''Nations'', ''Special'', ''Trackmania'', ''Tm'',
     ''Block'', ''Wood'', ''Plastic'']"

text \<open>The import-time check: \<open>Inl\<close> the first overlapping pair of buckets with the overlap.\<close>

definition validate_buckets :: "(family_bucket \<times> family_bucket \<times> string list) + unit" where
  "validate_buckets =
     (case find (\<lambda>(a, a_set, b, b_set). set a_set \<inter> set b_set \<noteq> {})
          [(DRIVABLE, DRIVABLE_FAMILIES, NON_DRIVABLE, NON_DRIVABLE_FAMILIES),
           (DRIVABLE, DRIVABLE_FAMILIES, AMBIGUOUS, AMBIGUOUS_FAMILIES),
           (NON_DRIVABLE, NON_DRIVABLE_FAMILIES, AMBIGUOUS, AMBIGUOUS_FAMILIES)] of
        None \<Rightarrow> Inr ()
      | Some (a, a_set, b, b_set) \<Rightarrow> Inl (a, b, sort (filter (\<lambda>f. f \<in> set b_set) a_set)))"

definition classify_family :: "string \<Rightarrow> family_bucket" where
  "classify_family family =
     (if family \<in> set DRIVABLE_FAMILIES then DRIVABLE
      else if family \<in> set NON_DRIVABLE_FAMILIES then NON_DRIVABLE
      else if family \<in> set AMBIGUOUS_FAMILIES then AMBIGUOUS
      else AMBIGUOUS)"

subsection \<open>Edge labels\<close>

datatype edge_state = STATE_SEED_VALID | STATE_UNSUPPORTED | STATE_UNKNOWN

record edge_label =
  el_state :: edge_state
  el_rule_support :: bool

definition label_edge :: "string \<Rightarrow> string \<Rightarrow> edge_label" where
  "label_edge src_family dst_family =
     (let src = classify_family src_family; dst = classify_family dst_family
      in if src = NON_DRIVABLE \<or> dst = NON_DRIVABLE then \<lparr>el_state = STATE_UNSUPPORTED, el_rule_support = False\<rparr>
         else if src = DRIVABLE \<and> dst = DRIVABLE then \<lparr>el_state = STATE_SEED_VALID, el_rule_support = True\<rparr>
         else \<lparr>el_state = STATE_UNKNOWN, el_rule_support = False\<rparr>)"

record labeling_stats =
  ls_edges_seen :: nat
  ls_seed_valid :: nat
  ls_unsupported :: nat
  ls_unknown :: nat

definition suppression_fraction :: "'f fops \<Rightarrow> labeling_stats \<Rightarrow> 'f" where
  "suppression_fraction F s =
     (if ls_edges_seen s = 0 then f_lit F 0
      else f_div F (f_lit F (of_nat (ls_unsupported s + ls_unknown s))) (f_lit F (of_nat (ls_edges_seen s))))"

definition unsupported_fraction :: "'f fops \<Rightarrow> labeling_stats \<Rightarrow> 'f" where
  "unsupported_fraction F s =
     (if ls_edges_seen s = 0 then f_lit F 0
      else f_div F (f_lit F (of_nat (ls_unsupported s))) (f_lit F (of_nat (ls_edges_seen s))))"

text \<open>One update of the graph: edge, state, rule support.\<close>

type_synonym label_row = "string \<times> edge_state \<times> bool"

definition label_row_of :: "string \<times> string option \<times> string option \<Rightarrow> label_row" where
  "label_row_of e =
     (case e of (edge_id, src, dst) \<Rightarrow>
        let l = label_edge (case src of None \<Rightarrow> [] | Some s \<Rightarrow> s) (case dst of None \<Rightarrow> [] | Some d \<Rightarrow> d)
        in (edge_id, el_state l, el_rule_support l))"

definition count_label :: "label_row \<Rightarrow> labeling_stats \<Rightarrow> labeling_stats" where
  "count_label row s =
     (let s = s\<lparr>ls_edges_seen := ls_edges_seen s + 1\<rparr>
      in case fst (snd row) of
           STATE_SEED_VALID \<Rightarrow> s\<lparr>ls_seed_valid := ls_seed_valid s + 1\<rparr>
         | STATE_UNSUPPORTED \<Rightarrow> s\<lparr>ls_unsupported := ls_unsupported s + 1\<rparr>
         | STATE_UNKNOWN \<Rightarrow> s\<lparr>ls_unknown := ls_unknown s + 1\<rparr>)"

fun chunks_of :: "nat \<Rightarrow> 'a list \<Rightarrow> 'a list list" where
  "chunks_of n [] = []"
| "chunks_of n (x # xs) = (if n = 0 then [] else take n (x # xs) # chunks_of n (drop n (x # xs)))"

text \<open>\<open>TraversabilityLabeler.run\<close>: the statistics and the batches written. A batch size of zero is the
  \<open>ValueError\<close> of \<open>range\<close>, a negative one writes nothing.\<close>

definition labeler_run :: "int \<Rightarrow> (string \<times> string option \<times> string option) list
    \<Rightarrow> py_error + (labeling_stats \<times> label_row list list)" where
  "labeler_run batch_size edges =
     (let buckets = map label_row_of edges;
          stats = fold count_label buckets
            \<lparr>ls_edges_seen = 0, ls_seed_valid = 0, ls_unsupported = 0, ls_unknown = 0\<rparr>
      in if batch_size = 0 then Inl ValueError
         else Inr (stats, if batch_size < 0 then [] else chunks_of (nat batch_size) buckets))"

subsection \<open>The graph of a map's cells\<close>

definition axis_neighbours :: "cell \<Rightarrow> cell list" where
  "axis_neighbours c =
     (case c of (x, y, z) \<Rightarrow>
        [(x + 1, y, z), (x - 1, y, z), (x, y + 1, z), (x, y - 1, z), (x, y, z + 1), (x, y, z - 1)])"

definition place_family :: "int \<times> int \<times> int \<times> string \<Rightarrow> (cell \<times> string) list \<Rightarrow> (cell \<times> string) list" where
  "place_family row m =
     (case row of (x, y, z, family) \<Rightarrow>
        let c = (x, y, z) in
        case map_of m c of
          None \<Rightarrow> AList.update c family m
        | Some existing \<Rightarrow>
            if classify_family existing = NON_DRIVABLE \<and> classify_family family \<noteq> NON_DRIVABLE
            then AList.update c family m
            else if classify_family existing = AMBIGUOUS \<and> classify_family family = DRIVABLE
            then AList.update c family m
            else m)"

definition cell_families :: "(int \<times> int \<times> int \<times> string) list \<Rightarrow> (cell \<times> string) list" where
  "cell_families rows = fold place_family rows []"

definition sort_pair :: "cell \<Rightarrow> cell \<Rightarrow> cell \<times> cell" where
  "sort_pair a b = (if a \<le> b then (a, b) else (b, a))"

type_synonym neighbour_map = "(cell \<times> cell list) list"

definition nbs_of :: "neighbour_map \<Rightarrow> cell \<Rightarrow> cell list" where
  "nbs_of m c = (case map_of m c of None \<Rightarrow> [] | Some l \<Rightarrow> l)"

text \<open>\<open>neighbors[c].append(nb)\<close> of a \<open>defaultdict(list)\<close>.\<close>

definition add_nb :: "cell \<Rightarrow> cell \<Rightarrow> neighbour_map \<Rightarrow> neighbour_map" where
  "add_nb c nb m = AList.update c (nbs_of m c @ [nb]) m"

record graph_state =
  gr_neighbours :: neighbour_map
  gr_seen :: "(cell \<times> cell) set"
  gr_seed_valid :: nat
  gr_unsupported :: nat
  gr_unknown :: nat

definition visit_pair :: "(cell \<rightharpoonup> string) \<Rightarrow> cell \<times> cell \<Rightarrow> graph_state \<Rightarrow> graph_state" where
  "visit_pair fam p st =
     (case p of (c, nb) \<Rightarrow>
        case (fam c, fam nb) of
          (Some family, Some nb_family) \<Rightarrow>
            let key = sort_pair c nb in
            if key \<in> gr_seen st then st
            else let st = st\<lparr>gr_seen := insert key (gr_seen st)\<rparr> in
              (case el_state (label_edge family nb_family) of
                 STATE_SEED_VALID \<Rightarrow>
                   st\<lparr>gr_seed_valid := gr_seed_valid st + 1,
                      gr_neighbours := add_nb nb c (add_nb c nb (gr_neighbours st))\<rparr>
               | STATE_UNSUPPORTED \<Rightarrow> st\<lparr>gr_unsupported := gr_unsupported st + 1\<rparr>
               | STATE_UNKNOWN \<Rightarrow> st\<lparr>gr_unknown := gr_unknown st + 1\<rparr>)
        | _ \<Rightarrow> st)"

definition graph_pairs :: "(cell \<times> string) list \<Rightarrow> (cell \<times> cell) list" where
  "graph_pairs families = concat (map (\<lambda>(c, _). map (\<lambda>nb. (c, nb)) (axis_neighbours c)) families)"

definition build_cell_graph :: "(int \<times> int \<times> int \<times> string) list \<Rightarrow> (cell \<times> string) list \<times> graph_state" where
  "build_cell_graph rows =
     (let families = cell_families rows
      in (families, fold (visit_pair (map_of families)) (graph_pairs families)
           \<lparr>gr_neighbours = [], gr_seen = {}, gr_seed_valid = 0, gr_unsupported = 0, gr_unknown = 0\<rparr>))"

subsection \<open>Buckets and labels\<close>

lemma buckets_disjoint: "validate_buckets = Inr ()"
  by code_simp

lemma label_edge_sym: "label_edge a b = label_edge b a"
  by (auto simp: label_edge_def Let_def)

lemma label_seed_valid:
  "el_state (label_edge a b) = STATE_SEED_VALID \<longleftrightarrow> classify_family a = DRIVABLE \<and> classify_family b = DRIVABLE"
  by (auto simp: label_edge_def Let_def)

lemma concat_chunks_of: "0 < n \<Longrightarrow> concat (chunks_of n xs) = xs"
  by (induction n xs rule: chunks_of.induct) (auto simp del: take_Suc_Cons drop_Suc_Cons)

lemma count_labels:
  "fold count_label rows s = s\<lparr>ls_edges_seen := ls_edges_seen s + length rows,
     ls_seed_valid := ls_seed_valid s + length (filter (\<lambda>r. fst (snd r) = STATE_SEED_VALID) rows),
     ls_unsupported := ls_unsupported s + length (filter (\<lambda>r. fst (snd r) = STATE_UNSUPPORTED) rows),
     ls_unknown := ls_unknown s + length (filter (\<lambda>r. fst (snd r) = STATE_UNKNOWN) rows)\<rparr>"
  by (induction rows arbitrary: s) (auto simp: count_label_def Let_def split: edge_state.splits)

text \<open>A labelling run writes the label of every edge exactly once and its counters add up.\<close>

lemma labeler_run_writes:
  assumes "0 < batch_size"
  shows "\<exists>stats batches. labeler_run batch_size edges = Inr (stats, batches) \<and>
    concat batches = map label_row_of edges \<and> ls_edges_seen stats = length edges \<and>
    ls_seed_valid stats + ls_unsupported stats + ls_unknown stats = length edges"
proof -
  have "length (filter (\<lambda>r. fst (snd r) = STATE_SEED_VALID) rows) + length (filter (\<lambda>r. fst (snd r) = STATE_UNSUPPORTED) rows) +
      length (filter (\<lambda>r. fst (snd r) = STATE_UNKNOWN) rows) = length rows" for rows :: "label_row list"
    by (induction rows) (auto intro: edge_state.exhaust)
  from this [of "map label_row_of edges"] show ?thesis
    using assms by (simp add: labeler_run_def Let_def count_labels concat_chunks_of)
qed

subsection \<open>Cells and neighbours\<close>

lemma sort_pair_eq: "sort_pair a b = sort_pair c d \<longleftrightarrow> (a = c \<and> b = d) \<or> (a = d \<and> b = c)"
  by (auto simp: sort_pair_def)

lemma sort_pair_commute: "sort_pair a b = sort_pair b a"
  by (auto simp: sort_pair_def)

lemma axis_neighbours_sym: "b \<in> set (axis_neighbours a) \<longleftrightarrow> a \<in> set (axis_neighbours b)"
  by (cases a; cases b) (auto simp: axis_neighbours_def)

lemma axis_neighbours_irrefl: "a \<notin> set (axis_neighbours a)"
  by (cases a) (auto simp: axis_neighbours_def)

lemma nbs_of_add_nb: "nbs_of (add_nb c n m) a = (if a = c then nbs_of m c @ [n] else nbs_of m a)"
  by (simp add: nbs_of_def add_nb_def update_conv')

abbreviation row_cell :: "int \<times> int \<times> int \<times> string \<Rightarrow> cell" where
  "row_cell r \<equiv> (fst r, fst (snd r), fst (snd (snd r)))"

abbreviation row_family :: "int \<times> int \<times> int \<times> string \<Rightarrow> string" where
  "row_family r \<equiv> snd (snd (snd r))"

definition drivable_at :: "(int \<times> int \<times> int \<times> string) list \<Rightarrow> cell \<Rightarrow> bool" where
  "drivable_at rows c \<longleftrightarrow> (\<exists>r \<in> set rows. row_cell r = c \<and> classify_family (row_family r) = DRIVABLE)"

lemma cell_families_snoc: "cell_families (rows @ [r]) = place_family r (cell_families rows)"
  by (simp add: cell_families_def)

lemma place_family_dom: "dom (map_of (place_family r m)) = insert (row_cell r) (dom (map_of m))"
proof -
  obtain x y z f where r: "r = (x, y, z, f)" by (cases r)
  show ?thesis
    by (cases "map_of m (x, y, z)") (simp_all add: place_family_def r Let_def insert_absorb domIff)
qed

lemma cell_families_dom: "dom (map_of (cell_families rows)) = row_cell ` set rows"
proof (induction rows rule: rev_induct)
  case (snoc r rows)
  then show ?case by (simp only: cell_families_snoc place_family_dom) simp
qed (simp add: cell_families_def)

text \<open>The most drivable block of a cell decides.\<close>

lemma cell_families_drivable:
  "(\<exists>f. map_of (cell_families rows) c = Some f \<and> classify_family f = DRIVABLE) \<longleftrightarrow> drivable_at rows c"
proof (induction rows rule: rev_induct)
  case (snoc r rows)
  obtain x y z f where r: "r = (x, y, z, f)" by (cases r)
  have at: "drivable_at (rows @ [r]) c \<longleftrightarrow> drivable_at rows c \<or> (c = (x, y, z) \<and> classify_family f = DRIVABLE)"
    by (auto simp: drivable_at_def r)
  show ?case
  proof (cases "map_of (cell_families rows) (x, y, z)")
    case None
    with snoc show ?thesis unfolding at
      by (auto simp: cell_families_snoc place_family_def r Let_def update_conv')
  next
    case (Some g)
    with snoc show ?thesis unfolding at
      by (cases "classify_family g"; cases "classify_family f")
        (auto simp: cell_families_snoc place_family_def r Let_def update_conv')
  qed
qed (simp add: cell_families_def drivable_at_def)

text \<open>The state after a prefix of the pairs.\<close>

definition graph_inv :: "(cell \<rightharpoonup> string) \<Rightarrow> (cell \<times> cell) set \<Rightarrow> graph_state \<Rightarrow> bool" where
  "graph_inv fam ps st \<longleftrightarrow>
     gr_seen st = {sort_pair c n | c n. (c, n) \<in> ps \<and> fam c \<noteq> None \<and> fam n \<noteq> None} \<and>
     (\<forall>a. distinct (nbs_of (gr_neighbours st) a)) \<and>
     (\<forall>a b. b \<in> set (nbs_of (gr_neighbours st) a) \<longleftrightarrow>
        sort_pair a b \<in> gr_seen st \<and>
        (\<exists>f g. fam a = Some f \<and> fam b = Some g \<and> el_state (label_edge f g) = STATE_SEED_VALID)) \<and>
     finite (gr_seen st) \<and>
     gr_seed_valid st + gr_unsupported st + gr_unknown st = card (gr_seen st)"

lemma visit_pair_inv:
  assumes inv: "graph_inv fam ps st" and "c \<noteq> n"
  shows "graph_inv fam (insert (c, n) ps) (visit_pair fam (c, n) st)"
proof (cases "fam c = None \<or> fam n = None")
  case True
  then have "visit_pair fam (c, n) st = st" by (auto simp: visit_pair_def split: option.splits)
  with inv True show ?thesis by (auto simp: graph_inv_def)
next
  case False
  then obtain f g where fg: "fam c = Some f" "fam n = Some g" by auto
  have seen: "{sort_pair a b | a b. (a, b) \<in> insert (c, n) ps \<and> fam a \<noteq> None \<and> fam b \<noteq> None} =
      insert (sort_pair c n) (gr_seen st)"
    using inv fg by (auto simp: graph_inv_def)
  show ?thesis
  proof (cases "sort_pair c n \<in> gr_seen st")
    case True
    then have same: "visit_pair fam (c, n) st = st" by (simp add: visit_pair_def fg)
    show ?thesis using inv unfolding graph_inv_def seen same insert_absorb [OF True] by blast
  next
    case new: False
    have fresh: "n \<notin> set (nbs_of (gr_neighbours st) c)" "c \<notin> set (nbs_of (gr_neighbours st) n)"
      using inv new sort_pair_commute [of c n] unfolding graph_inv_def by metis+
    define P where "P a b \<longleftrightarrow> (\<exists>f g. fam a = Some f \<and> fam b = Some g \<and> el_state (label_edge f g) = STATE_SEED_VALID)" for a b
    define st' where "st' = visit_pair fam (c, n) st"
    have P: "P c n \<longleftrightarrow> el_state (label_edge f g) = STATE_SEED_VALID" "P a b \<longleftrightarrow> P b a" for a b
      using fg label_edge_sym by (auto simp: P_def)
    have seen': "gr_seen st' = insert (sort_pair c n) (gr_seen st)"
      and nbs': "nbs_of (gr_neighbours st') a =
        (if P c n \<and> a = c then nbs_of (gr_neighbours st) c @ [n]
         else if P c n \<and> a = n then nbs_of (gr_neighbours st) n @ [c]
         else nbs_of (gr_neighbours st) a)"
      and total': "gr_seed_valid st' + gr_unsupported st' + gr_unknown st' =
        Suc (gr_seed_valid st + gr_unsupported st + gr_unknown st)" for a
      using new fg assms(2)
      by (auto simp: st'_def visit_pair_def Let_def nbs_of_add_nb P(1) split: edge_state.split)
    have old: "b \<in> set (nbs_of (gr_neighbours st) a) \<longleftrightarrow> sort_pair a b \<in> gr_seen st \<and> P a b" for a b
      using inv unfolding graph_inv_def P_def by blast
    have "b \<in> set (nbs_of (gr_neighbours st') a) \<longleftrightarrow> sort_pair a b \<in> gr_seen st' \<and> P a b" for a b
      using assms(2) P(2) [of c n] by (auto simp: nbs' seen' old sort_pair_eq)
    moreover have "distinct (nbs_of (gr_neighbours st') a)" for a
      using inv fresh by (auto simp: nbs' graph_inv_def)
    moreover have "finite (gr_seen st')" "gr_seed_valid st' + gr_unsupported st' + gr_unknown st' = card (gr_seen st')"
    proof -
      have "finite (gr_seen st)" "gr_seed_valid st + gr_unsupported st + gr_unknown st = card (gr_seen st)"
        using inv unfolding graph_inv_def by blast+
      with new show "finite (gr_seen st')" "gr_seed_valid st' + gr_unsupported st' + gr_unknown st' = card (gr_seen st')"
        by (simp_all add: seen' total')
    qed
    ultimately show ?thesis
      unfolding graph_inv_def seen st'_def [symmetric] seen' P_def by blast
  qed
qed

lemma visit_pairs_inv:
  assumes "\<forall>(c, n) \<in> set ps. c \<noteq> n"
  shows "graph_inv fam (set ps) (fold (visit_pair fam) ps
    \<lparr>gr_neighbours = [], gr_seen = {}, gr_seed_valid = 0, gr_unsupported = 0, gr_unknown = 0\<rparr>)"
  using assms
proof (induction ps rule: rev_induct)
  case Nil
  then show ?case by (simp add: graph_inv_def nbs_of_def)
next
  case (snoc p ps)
  obtain c n where p: "p = (c, n)" by (cases p)
  from snoc have "graph_inv fam (set ps) (fold (visit_pair fam) ps
    \<lparr>gr_neighbours = [], gr_seen = {}, gr_seed_valid = 0, gr_unsupported = 0, gr_unknown = 0\<rparr>)" by simp
  from visit_pair_inv [OF this, of c n] snoc.prems show ?case by (simp add: p)
qed

lemma graph_pairs_mem:
  "(c, n) \<in> set (graph_pairs fams) \<longleftrightarrow> c \<in> fst ` set fams \<and> n \<in> set (axis_neighbours c)"
  by (force simp: graph_pairs_def)

lemma build_cell_graph_inv:
  assumes "build_cell_graph rows = (fams, g)"
  shows "fams = cell_families rows" and "graph_inv (map_of fams) (set (graph_pairs fams)) g"
proof -
  show fams: "fams = cell_families rows" using assms by (simp add: build_cell_graph_def Let_def)
  have "\<forall>(c, n) \<in> set (graph_pairs fams). c \<noteq> n"
    using axis_neighbours_irrefl by (auto simp: graph_pairs_mem)
  from visit_pairs_inv [OF this, of "map_of fams"] assms
  show "graph_inv (map_of fams) (set (graph_pairs fams)) g"
    by (simp add: build_cell_graph_def Let_def fams)
qed

text \<open>The touching pairs of occupied cells.\<close>

definition touching_pairs :: "(int \<times> int \<times> int \<times> string) list \<Rightarrow> (cell \<times> cell) set" where
  "touching_pairs rows = {sort_pair c n | c n.
     c \<in> row_cell ` set rows \<and> n \<in> row_cell ` set rows \<and> n \<in> set (axis_neighbours c)}"

lemma graph_seen:
  assumes "build_cell_graph rows = (fams, g)"
  shows "gr_seen g = touching_pairs rows"
proof -
  have occ: "map_of fams c \<noteq> None \<longleftrightarrow> c \<in> row_cell ` set rows" for c
    unfolding build_cell_graph_inv(1) [OF assms] cell_families_dom [symmetric] by blast
  have "c \<in> fst ` set fams \<longleftrightarrow> c \<in> row_cell ` set rows" for c
    using occ [of c] by (simp add: map_of_eq_None_iff)
  with occ build_cell_graph_inv(2) [OF assms] show ?thesis
    unfolding graph_inv_def touching_pairs_def graph_pairs_mem by auto
qed

lemma sort_pair_touching:
  "sort_pair a b \<in> touching_pairs rows \<longleftrightarrow>
     a \<in> row_cell ` set rows \<and> b \<in> row_cell ` set rows \<and> b \<in> set (axis_neighbours a)"
  using axis_neighbours_sym by (auto simp: touching_pairs_def sort_pair_eq)

lemma cell_graph_nbs:
  assumes "build_cell_graph rows = (fams, g)"
  shows "b \<in> set (nbs_of (gr_neighbours g) a) \<longleftrightarrow>
    b \<in> set (axis_neighbours a) \<and> drivable_at rows a \<and> drivable_at rows b"
proof -
  have "b \<in> set (nbs_of (gr_neighbours g) a) \<longleftrightarrow> sort_pair a b \<in> touching_pairs rows \<and>
      (\<exists>f. map_of fams a = Some f \<and> classify_family f = DRIVABLE) \<and>
      (\<exists>f. map_of fams b = Some f \<and> classify_family f = DRIVABLE)"
    using build_cell_graph_inv(2) [OF assms] unfolding graph_inv_def graph_seen [OF assms] label_seed_valid by blast
  also have "\<dots> \<longleftrightarrow> b \<in> set (axis_neighbours a) \<and> drivable_at rows a \<and> drivable_at rows b"
    unfolding build_cell_graph_inv(1) [OF assms] cell_families_drivable sort_pair_touching
    by (auto simp: drivable_at_def)
  finally show ?thesis .
qed

text \<open>
  The seed graph of a map: two cells are neighbours exactly when they touch along an axis and each
  carries at least one block of a drivable family (whatever else is stacked there); neighbour lists
  have no duplicates, and the three edge counters together count every pair of touching cells once.
\<close>

theorem cell_graph_exact:
  assumes "build_cell_graph rows = (fams, g)"
  shows "(\<forall>a b. b \<in> set (nbs_of (gr_neighbours g) a) \<longleftrightarrow>
      b \<in> set (axis_neighbours a) \<and> drivable_at rows a \<and> drivable_at rows b) \<and>
    (\<forall>a. distinct (nbs_of (gr_neighbours g) a)) \<and>
    gr_seed_valid g + gr_unsupported g + gr_unknown g = card (touching_pairs rows)"
  using cell_graph_nbs [OF assms] graph_seen [OF assms] build_cell_graph_inv(2) [OF assms]
  unfolding graph_inv_def by metis

definition demo_grid :: "(int \<times> int \<times> int \<times> string) list" where
  "demo_grid = [(5, 9, 5, ''Deco''), (5, 9, 5, ''Road''), (6, 9, 5, ''Road''), (7, 9, 5, ''Water''), (20, 9, 5, ''Gate'')]"

definition demo_graph :: graph_state where "demo_graph = snd (build_cell_graph demo_grid)"

lemma demo_graph_built: "build_cell_graph demo_grid = (cell_families demo_grid, demo_graph)"
  by (simp add: demo_graph_def build_cell_graph_def Let_def)

theorem cell_graph_exact_witness:
  "(6, 9, 5) \<in> set (nbs_of (gr_neighbours demo_graph) (5, 9, 5)) \<and>
   (7, 9, 5) \<notin> set (nbs_of (gr_neighbours demo_graph) (6, 9, 5))"
proof -
  have "drivable_at demo_grid (5, 9, 5)" "drivable_at demo_grid (6, 9, 5)" "\<not> drivable_at demo_grid (7, 9, 5)"
    "(6, 9, 5) \<in> set (axis_neighbours (5, 9, 5))"
    by code_simp+
  with cell_graph_exact [OF demo_graph_built] show ?thesis by blast
qed

end
