(* ===== verification/Union_Find.thy ===== *)
theory Union_Find
  imports Prelude
begin

section \<open>Union-find\<close>

text \<open>
  Model of the class \<open>_UnionFind\<close> of \<^verbatim>\<open>src/src/corridor/traversability/reachability.py\<close>: parent and
  size dictionaries, lookup with path halving, union by size. The loop of \<open>find\<close> is a partial function
  whose value is \<open>None\<close> when it runs forever or meets a missing key; it is shown to return. The
  contract a client needs is the interface \<open>components\<close>: after any sequence of unions two elements
  have the same root exactly when the unions connect them.
\<close>

record 'a union_find =
  uf_parent :: "'a \<rightharpoonup> 'a"
  uf_size :: "'a \<rightharpoonup> int"

definition uf_empty :: "'a union_find" where
  "uf_empty = \<lparr>uf_parent = Map.empty, uf_size = Map.empty\<rparr>"

definition uf_ensure :: "'a \<Rightarrow> 'a union_find \<Rightarrow> 'a union_find" where
  "uf_ensure x uf =
     (if uf_parent uf x = None
      then uf\<lparr>uf_parent := (uf_parent uf)(x \<mapsto> x), uf_size := (uf_size uf)(x \<mapsto> 1)\<rparr> else uf)"

partial_function (option) uf_climb :: "'a \<Rightarrow> 'a union_find \<Rightarrow> ('a \<times> 'a union_find) option" where
  "uf_climb x uf =
     (case uf_parent uf x of
        None \<Rightarrow> None
      | Some p \<Rightarrow>
          if p = x then Some (x, uf)
          else (case uf_parent uf p of
              None \<Rightarrow> None
            | Some g \<Rightarrow> uf_climb g (uf\<lparr>uf_parent := (uf_parent uf)(x \<mapsto> g)\<rparr>)))"

declare uf_climb.simps [code]

definition uf_find :: "'a \<Rightarrow> 'a union_find \<Rightarrow> ('a \<times> 'a union_find) option" where
  "uf_find x uf = uf_climb x (uf_ensure x uf)"

definition uf_link :: "'a \<Rightarrow> 'a \<Rightarrow> 'a union_find \<Rightarrow> 'a union_find option" where
  "uf_link ra rb uf =
     (if ra = rb then Some uf
      else case (uf_size uf ra, uf_size uf rb) of
          (Some sa, Some sb) \<Rightarrow>
            let (big, small) = (if sa < sb then (rb, ra) else (ra, rb))
            in Some (uf\<lparr>uf_parent := (uf_parent uf)(small \<mapsto> big), uf_size := (uf_size uf)(big \<mapsto> sa + sb)\<rparr>)
        | _ \<Rightarrow> None)"

definition uf_union :: "'a \<Rightarrow> 'a \<Rightarrow> 'a union_find \<Rightarrow> 'a union_find option" where
  "uf_union a b uf =
     (case uf_find a uf of
        None \<Rightarrow> None
      | Some (ra, uf1) \<Rightarrow>
          (case uf_find b uf1 of
             None \<Rightarrow> None
           | Some (rb, uf2) \<Rightarrow> uf_link ra rb uf2))"

text \<open>A loop over unions, and the scan that looks for an element with a given root; a scan is written
  over the lookup it calls, since a lookup changes the state.\<close>

primrec for_each :: "('a \<Rightarrow> 's \<Rightarrow> 's option) \<Rightarrow> 'a list \<Rightarrow> 's \<Rightarrow> 's option" where
  "for_each f [] s = Some s"
| "for_each f (x # xs) s = (case f x s of None \<Rightarrow> None | Some s \<Rightarrow> for_each f xs s)"

primrec scan_root :: "('a \<Rightarrow> 's \<Rightarrow> ('a \<times> 's) option) \<Rightarrow> 'a \<Rightarrow> 'a list \<Rightarrow> 's \<Rightarrow> (bool \<times> 's) option" where
  "scan_root look r [] s = Some (False, s)"
| "scan_root look r (x # xs) s =
     (case look x s of
        None \<Rightarrow> None
      | Some (rx, s) \<Rightarrow> if rx = r then Some (True, s) else scan_root look r xs s)"

primrec count_roots :: "('a \<Rightarrow> 's \<Rightarrow> ('a \<times> 's) option) \<Rightarrow> 'a \<Rightarrow> 'a list list \<Rightarrow> nat \<Rightarrow> 's \<Rightarrow> (nat \<times> 's) option" where
  "count_roots look r [] n s = Some (n, s)"
| "count_roots look r (xs # xss) n s =
     (case scan_root look r xs s of
        None \<Rightarrow> None
      | Some (hit, s) \<Rightarrow> count_roots look r xss (if hit then n + 1 else n) s)"

definition uf_same :: "'a \<Rightarrow> 'a \<Rightarrow> 'a union_find \<Rightarrow> (bool \<times> 'a union_find) option" where
  "uf_same a b uf =
     (case uf_find a uf of
        None \<Rightarrow> None
      | Some (ra, uf1) \<Rightarrow> map_option (\<lambda>(rb, uf2). (ra = rb, uf2)) (uf_find b uf1))"

subsection \<open>Connectivity\<close>

definition conn :: "('a \<times> 'a) set \<Rightarrow> ('a \<times> 'a) set" where
  "conn E = (E \<union> E\<inverse>)\<^sup>*"

lemma conn_refl [simp]: "(x, x) \<in> conn E"
  by (simp add: conn_def)

lemma conn_sym: "(x, y) \<in> conn E \<Longrightarrow> (y, x) \<in> conn E"
  unfolding conn_def by (metis Un_commute converse_Un converse_converse rtrancl_converseI)

lemma conn_trans: "(x, y) \<in> conn E \<Longrightarrow> (y, z) \<in> conn E \<Longrightarrow> (x, z) \<in> conn E"
  unfolding conn_def by (rule rtrancl_trans)

lemma conn_edge: "(x, y) \<in> E \<Longrightarrow> (x, y) \<in> conn E"
  unfolding conn_def by blast

lemma conn_mono: "E \<subseteq> E' \<Longrightarrow> conn E \<subseteq> conn E'"
  unfolding conn_def by (rule rtrancl_mono) blast

lemma conn_sub:
  assumes "\<And>a b. (a, b) \<in> E \<Longrightarrow> (a, b) \<in> conn E'"
  shows "conn E \<subseteq> conn E'"
proof
  fix p assume "p \<in> conn E"
  moreover obtain x y where p: "p = (x, y)" by (cases p)
  ultimately have "(x, y) \<in> (E \<union> E\<inverse>)\<^sup>*" by (simp add: conn_def)
  then have "(x, y) \<in> conn E'"
  proof (induction rule: rtrancl_induct)
    case (step y z)
    then have "(y, z) \<in> conn E'" using assms conn_sym by fastforce
    with step show ?case using conn_trans by metis
  qed simp
  then show "p \<in> conn E'" by (simp add: p)
qed

text \<open>Adding one edge merges the two classes of its ends.\<close>

lemma conn_insert:
  "(x, y) \<in> conn (insert (a, b) E) \<longleftrightarrow>
     (x, y) \<in> conn E \<or> (x, a) \<in> conn E \<and> (b, y) \<in> conn E \<or> (x, b) \<in> conn E \<and> (a, y) \<in> conn E"
proof
  assume "(x, y) \<in> conn (insert (a, b) E)"
  then have "(x, y) \<in> (insert (a, b) E \<union> (insert (a, b) E)\<inverse>)\<^sup>*" by (simp only: conn_def)
  then show "(x, y) \<in> conn E \<or> (x, a) \<in> conn E \<and> (b, y) \<in> conn E \<or> (x, b) \<in> conn E \<and> (a, y) \<in> conn E"
  proof (induction rule: rtrancl_induct)
    case (step y z)
    then consider "y = a" "z = b" | "y = b" "z = a" | "(y, z) \<in> conn E"
      using conn_edge conn_sym by fastforce
    then show ?case
    proof cases
      case 3
      then show ?thesis using step.IH conn_trans [OF _ 3] by blast
    qed (use step.IH in auto)
  qed simp
next
  have ab: "(a, b) \<in> conn (insert (a, b) E)" by (rule conn_edge) simp
  have sub: "conn E \<subseteq> conn (insert (a, b) E)" by (rule conn_mono) blast
  assume "(x, y) \<in> conn E \<or> (x, a) \<in> conn E \<and> (b, y) \<in> conn E \<or> (x, b) \<in> conn E \<and> (a, y) \<in> conn E"
  then show "(x, y) \<in> conn (insert (a, b) E)"
  proof (elim disjE conjE)
    assume "(x, a) \<in> conn E" "(b, y) \<in> conn E"
    then have "(x, a) \<in> conn (insert (a, b) E)" "(b, y) \<in> conn (insert (a, b) E)" using sub by blast+
    then show ?thesis by (rule conn_trans [OF conn_trans [OF _ ab]])
  next
    assume "(x, b) \<in> conn E" "(a, y) \<in> conn E"
    then have "(x, b) \<in> conn (insert (a, b) E)" "(a, y) \<in> conn (insert (a, b) E)" using sub by blast+
    then show ?thesis by (rule conn_trans [OF conn_trans [OF _ conn_sym [OF ab]]])
  qed (use sub in blast)
qed

subsection \<open>Invariant\<close>

definition uf_rel :: "'a union_find \<Rightarrow> ('a \<times> 'a) set" where
  "uf_rel uf = {(p, x). uf_parent uf x = Some p \<and> p \<noteq> x}"

text \<open>\<open>f\<close> is the root of each element.\<close>

definition uf_inv :: "'a union_find \<Rightarrow> ('a \<Rightarrow> 'a) \<Rightarrow> bool" where
  "uf_inv uf f \<longleftrightarrow>
     (\<forall>x p. uf_parent uf x = Some p \<longrightarrow> uf_parent uf p \<noteq> None \<and> f p = f x) \<and>
     (\<forall>x. uf_parent uf x = Some x \<longleftrightarrow> uf_parent uf x \<noteq> None \<and> f x = x) \<and>
     (\<forall>x. uf_parent uf x = None \<longrightarrow> f x = x) \<and>
     (\<forall>x. f (f x) = f x \<and> (uf_parent uf x \<noteq> None \<longrightarrow> uf_parent uf (f x) \<noteq> None)) \<and>
     wf (uf_rel uf) \<and> dom (uf_size uf) = dom (uf_parent uf)"

lemma uf_inv_empty: "uf_inv uf_empty (\<lambda>x. x)"
  by (simp add: uf_inv_def uf_empty_def uf_rel_def)

lemma uf_ensure_inv:
  assumes "uf_inv uf f"
  shows "uf_inv (uf_ensure x uf) f" and "uf_parent (uf_ensure x uf) x \<noteq> None"
proof -
  have rel: "uf_rel (uf_ensure x uf) = uf_rel uf"
    by (auto simp: uf_rel_def uf_ensure_def)
  have ids: "uf_parent uf y \<noteq> None \<Longrightarrow> f y \<noteq> x" if "uf_parent uf x = None" for y
    using assms that unfolding uf_inv_def by metis
  show "uf_inv (uf_ensure x uf) f"
    using assms unfolding uf_inv_def rel
    by (auto simp: uf_ensure_def)
  show "uf_parent (uf_ensure x uf) x \<noteq> None" by (auto simp: uf_ensure_def)
qed

text \<open>Path halving keeps the roots and only shortens paths.\<close>

lemma halve_inv:
  assumes inv: "uf_inv uf f" and p: "uf_parent uf x = Some p" "p \<noteq> x" and g: "uf_parent uf p = Some g"
  defines "uf' \<equiv> uf\<lparr>uf_parent := (uf_parent uf)(x \<mapsto> g)\<rparr>"
  shows "uf_inv uf' f" and "uf_rel uf' \<subseteq> (uf_rel uf)\<^sup>+" and "(g, x) \<in> (uf_rel uf)\<^sup>+"
    and "dom (uf_parent uf') = dom (uf_parent uf)"
proof -
  have px: "(p, x) \<in> uf_rel uf" using p by (simp add: uf_rel_def)
  have gp: "g = p \<or> (g, p) \<in> uf_rel uf" using g by (auto simp: uf_rel_def)
  show gx: "(g, x) \<in> (uf_rel uf)\<^sup>+" using px gp by (metis r_into_trancl trancl_into_trancl)
  show sub: "uf_rel uf' \<subseteq> (uf_rel uf)\<^sup>+"
    using gx by (auto simp: uf_rel_def uf'_def split: if_splits)
  have wf: "wf (uf_rel uf)" using inv by (simp add: uf_inv_def)
  then have "wf ((uf_rel uf)\<^sup>+)" by (rule wf_trancl)
  then have wf': "wf (uf_rel uf')" and "g \<noteq> x" using sub gx by (auto intro: wf_subset)
  show dom: "dom (uf_parent uf') = dom (uf_parent uf)" using p by (auto simp: uf'_def)
  have f: "f g = f x" "uf_parent uf g \<noteq> None" "f x \<noteq> x"
    using inv p g unfolding uf_inv_def by (metis option.inject)+
  show "uf_inv uf' f"
    unfolding uf_inv_def
  proof (intro conjI allI impI)
    show "wf (uf_rel uf')" by (rule wf')
    show "dom (uf_size uf') = dom (uf_parent uf')" using inv dom by (simp add: uf_inv_def uf'_def)
  qed (use inv f \<open>g \<noteq> x\<close> p in \<open>auto simp: uf_inv_def uf'_def split: if_splits\<close>)
qed

lemma climb_roots:
  assumes "wf R" and "trans R"
  shows "uf_inv uf f \<Longrightarrow> uf_rel uf \<subseteq> R \<Longrightarrow> uf_parent uf x \<noteq> None \<Longrightarrow>
    \<exists>uf'. uf_climb x uf = Some (f x, uf') \<and> uf_inv uf' f \<and> dom (uf_parent uf') = dom (uf_parent uf)"
  using assms(1)
proof (induction x arbitrary: uf rule: wf_induct_rule)
  case (less x)
  then obtain p where p: "uf_parent uf x = Some p" by blast
  with less.prems(1) obtain g where g: "uf_parent uf p = Some g" unfolding uf_inv_def by blast
  show ?case
  proof (cases "p = x")
    case True
    then have "f x = x" using p less.prems(1) unfolding uf_inv_def by blast
    moreover have "uf_climb x uf = Some (x, uf)" using p True by (subst uf_climb.simps) simp
    ultimately show ?thesis using less.prems(1) by simp
  next
    case False
    let ?uf = "uf\<lparr>uf_parent := (uf_parent uf)(x \<mapsto> g)\<rparr>"
    note h = halve_inv [OF less.prems(1) p False g]
    have R: "(uf_rel uf)\<^sup>+ \<subseteq> R"
      using trancl_mono [OF _ less.prems(2)] trancl_id [OF assms(2)] by blast
    have "uf_parent ?uf g \<noteq> None" "f g = f x"
      using less.prems(1) p g unfolding uf_inv_def by auto
    moreover have "uf_climb x uf = uf_climb g ?uf"
      using p g False by (subst uf_climb.simps) simp
    moreover have "uf_rel ?uf \<subseteq> R" "(g, x) \<in> R" using h(2,3) R by blast+
    ultimately show ?thesis
      using less.IH [of g ?uf] h(1) unfolding h(4) by simp
  qed
qed

lemma uf_find_roots:
  assumes inv: "uf_inv uf f"
  shows "\<exists>uf'. uf_find x uf = Some (f x, uf') \<and> uf_inv uf' f \<and>
    dom (uf_parent uf') = insert x (dom (uf_parent uf))"
proof -
  note e = uf_ensure_inv [OF inv, of x]
  have "wf ((uf_rel (uf_ensure x uf))\<^sup>+)" using e(1) by (simp add: uf_inv_def wf_trancl)
  moreover have "uf_rel (uf_ensure x uf) \<subseteq> (uf_rel (uf_ensure x uf))\<^sup>+"
    by (rule subsetI) (rule r_into_trancl')
  moreover have "dom (uf_parent (uf_ensure x uf)) = insert x (dom (uf_parent uf))"
    by (auto simp: uf_ensure_def)
  ultimately show ?thesis
    using climb_roots [OF _ trans_trancl e(1) _ e(2)] by (simp add: uf_find_def)
qed

text \<open>Linking one root below another redirects the elements of the first.\<close>

lemma uf_rel_same_root:
  assumes "uf_inv uf f" and "(y, x) \<in> (uf_rel uf)\<^sup>*"
  shows "f y = f x"
  using assms(2)
proof (induction rule: rtrancl_induct)
  case (step y z)
  then show ?case using assms(1) by (auto simp: uf_inv_def uf_rel_def)
qed simp

lemma link_inv:
  assumes inv: "uf_inv uf f" and roots: "f big = big" "f small = small" "big \<noteq> small"
    and known: "uf_parent uf big \<noteq> None" "uf_parent uf small \<noteq> None"
  shows "uf_inv (uf\<lparr>uf_parent := (uf_parent uf)(small \<mapsto> big), uf_size := (uf_size uf)(big \<mapsto> n)\<rparr>)
    (\<lambda>y. if f y = small then big else f y)" (is "uf_inv ?uf ?f")
proof -
  have par: "uf_parent uf small = Some small" "uf_parent uf big = Some big"
    using inv roots known unfolding uf_inv_def by auto
  have "uf_rel ?uf = insert (big, small) (uf_rel uf)"
    using par roots by (auto simp: uf_rel_def)
  moreover have "(small, big) \<notin> (uf_rel uf)\<^sup>*"
    using uf_rel_same_root [OF inv] roots by force
  ultimately have wf: "wf (uf_rel ?uf)" using inv by (simp add: uf_inv_def wf_insert)
  show ?thesis
    unfolding uf_inv_def
  proof (intro conjI allI impI)
    show "wf (uf_rel ?uf)" by (rule wf)
    show "dom (uf_size ?uf) = dom (uf_parent ?uf)" using inv known by (auto simp: uf_inv_def)
  qed (use inv par roots in \<open>auto simp: uf_inv_def split: if_splits\<close>)
qed


text \<open>The state represents the classes of \<open>conn E\<close>, with \<open>f\<close> choosing the root of each class.\<close>

definition uf_rep :: "'a union_find \<Rightarrow> ('a \<times> 'a) set \<Rightarrow> ('a \<Rightarrow> 'a) \<Rightarrow> bool" where
  "uf_rep uf E f \<longleftrightarrow> uf_inv uf f \<and> (\<forall>x y. f x = f y \<longleftrightarrow> (x, y) \<in> conn E)"

lemma merged_classes:
  assumes rep: "\<And>x y. f x = f y \<longleftrightarrow> (x, y) \<in> conn E"
    and bs: "big = f a \<and> small = f b \<or> big = f b \<and> small = f a"
  shows "(if f x = small then big else f x) = (if f y = small then big else f y) \<longleftrightarrow>
    (x, y) \<in> conn (insert (a, b) E)"
  unfolding conn_insert rep [symmetric] using bs by auto

lemma uf_link_rep:
  assumes rep: "uf_rep uf E f" and known: "uf_parent uf a \<noteq> None" "uf_parent uf b \<noteq> None"
  shows "\<exists>uf' f'. uf_link (f a) (f b) uf = Some uf' \<and> uf_rep uf' (insert (a, b) E) f'"
proof (cases "f a = f b")
  case True
  then have ab: "(a, b) \<in> conn E" using rep by (simp add: uf_rep_def)
  then have "conn (insert (a, b) E) = conn E"
    using conn_sub [of "insert (a, b) E" E] conn_mono [of E "insert (a, b) E"] conn_edge by fastforce
  with True rep show ?thesis by (auto simp: uf_link_def uf_rep_def)
next
  case False
  have inv: "uf_inv uf f" and cls: "f x = f y \<longleftrightarrow> (x, y) \<in> conn E" for x y
    using rep by (simp_all add: uf_rep_def)
  have roots: "f (f x) = f x" "uf_parent uf x \<noteq> None \<Longrightarrow> uf_parent uf (f x) \<noteq> None" for x
    using inv unfolding uf_inv_def by metis+
  then have "f a \<in> dom (uf_size uf)" "f b \<in> dom (uf_size uf)" using inv known unfolding uf_inv_def by blast+
  then obtain sa sb where sizes: "uf_size uf (f a) = Some sa" "uf_size uf (f b) = Some sb" by blast
  define bs where "bs = (if sa < sb then (f b, f a) else (f a, f b))"
  obtain big small where bs': "bs = (big, small)" by fastforce
  then have alt: "big = f a \<and> small = f b \<or> big = f b \<and> small = f a" by (auto simp: bs_def split: if_splits)
  let ?uf = "uf\<lparr>uf_parent := (uf_parent uf)(small \<mapsto> big), uf_size := (uf_size uf)(big \<mapsto> sa + sb)\<rparr>"
  have "uf_inv ?uf (\<lambda>y. if f y = small then big else f y)"
    by (rule link_inv [OF inv]) (use alt roots known False in auto)
  then have "uf_rep ?uf (insert (a, b) E) (\<lambda>y. if f y = small then big else f y)"
    unfolding uf_rep_def using merged_classes [OF cls alt] by blast
  moreover have "uf_link (f a) (f b) uf = Some ?uf"
    using False sizes bs' by (simp add: uf_link_def bs_def [symmetric])
  ultimately show ?thesis by blast
qed

lemma uf_find_rep: "uf_rep uf E f \<Longrightarrow> \<exists>uf'. uf_find x uf = Some (f x, uf') \<and> uf_rep uf' E f"
  using uf_find_roots [of uf f x] by (auto simp: uf_rep_def)

lemma uf_union_rep:
  assumes rep: "uf_rep uf E f"
  shows "\<exists>uf' f'. uf_union a b uf = Some uf' \<and> uf_rep uf' (insert (a, b) E) f'"
proof -
  have inv: "uf_inv uf f" using rep by (simp add: uf_rep_def)
  from uf_find_roots [OF inv, of a] obtain uf1 where
    1: "uf_find a uf = Some (f a, uf1)" "uf_inv uf1 f" "a \<in> dom (uf_parent uf1)" by blast
  from uf_find_roots [OF this(2), of b] 1(3) obtain uf2 where
    2: "uf_find b uf1 = Some (f b, uf2)" "uf_inv uf2 f" "a \<in> dom (uf_parent uf2)" "b \<in> dom (uf_parent uf2)"
    by blast
  then have "uf_rep uf2 E f" using rep by (simp add: uf_rep_def)
  then have "\<exists>uf' f'. uf_link (f a) (f b) uf2 = Some uf' \<and> uf_rep uf' (insert (a, b) E) f'"
    using 2(3,4) by (intro uf_link_rep) auto
  moreover have "uf_union a b uf = uf_link (f a) (f b) uf2" by (simp add: uf_union_def 1(1) 2(1))
  ultimately show ?thesis by simp
qed

lemma uf_rep_empty: "uf_rep uf_empty {} (\<lambda>x. x)"
  by (simp add: uf_rep_def uf_inv_empty conn_def)


subsection \<open>The contract of a component structure\<close>

locale components =
  fixes init :: 's
    and merge :: "'a \<Rightarrow> 'a \<Rightarrow> 's \<Rightarrow> 's option"
    and look :: "'a \<Rightarrow> 's \<Rightarrow> ('a \<times> 's) option"
    and rep :: "'s \<Rightarrow> ('a \<times> 'a) set \<Rightarrow> ('a \<Rightarrow> 'a) \<Rightarrow> bool"
  assumes init_rep: "\<exists>f. rep init {} f"
    and merge_rep: "rep s E f \<Longrightarrow> \<exists>s' f'. merge a b s = Some s' \<and> rep s' (insert (a, b) E) f'"
    and root_rep: "rep s E f \<Longrightarrow> \<exists>s'. look a s = Some (f a, s') \<and> rep s' E f"
    and rep_conn: "rep s E f \<Longrightarrow> f a = f b \<longleftrightarrow> (a, b) \<in> conn E"
    and rep_idem: "rep s E f \<Longrightarrow> f (f a) = f a"
begin

lemma root_connected: "rep s E f \<Longrightarrow> (a, f a) \<in> conn E"
  using rep_conn [of s E f a "f a"] rep_idem [of s E f a] by simp

lemma merge_all:
  "rep s E f \<Longrightarrow> \<exists>s' f'. for_each (\<lambda>(a, b). merge a b) ps s = Some s' \<and> rep s' (set ps \<union> E) f'"
proof (induction ps arbitrary: s E f)
  case (Cons p ps)
  obtain a b where p: "p = (a, b)" by (cases p)
  from merge_rep [OF Cons.prems] obtain s1 f1 where
    1: "merge a b s = Some s1" "rep s1 (insert (a, b) E) f1" by blast
  from Cons.IH [OF 1(2)] show ?case by (auto simp: p 1(1))
qed auto

lemma scan:
  "rep s E f \<Longrightarrow> \<exists>s'. scan_root look (f r) xs s = Some (\<exists>x \<in> set xs. (x, r) \<in> conn E, s') \<and> rep s' E f"
proof (induction xs arbitrary: s)
  case (Cons x xs)
  from root_rep [OF Cons.prems] obtain s1 where 1: "look x s = Some (f x, s1)" "rep s1 E f" by blast
  from Cons.IH [OF 1(2)] 1 show ?case by (auto simp: rep_conn [OF Cons.prems, symmetric])
qed auto

lemma count_connected:
  "rep s E f \<Longrightarrow> \<exists>s'. count_roots look (f r) xss n s =
     Some (n + length (filter (\<lambda>xs. \<exists>x \<in> set xs. (x, r) \<in> conn E) xss), s') \<and> rep s' E f"
proof (induction xss arbitrary: s n)
  case (Cons xs xss)
  from scan [OF Cons.prems, of r xs] obtain s1 where
    1: "scan_root look (f r) xs s = Some (\<exists>x \<in> set xs. (x, r) \<in> conn E, s1)" "rep s1 E f" by blast
  show ?case
    using Cons.IH [OF 1(2), of "if \<exists>x \<in> set xs. (x, r) \<in> conn E then n + 1 else n"]
    by (cases "\<exists>x \<in> set xs. (x, r) \<in> conn E") (auto simp: 1(1))
qed auto

end

lemma uf_rep_conn: "uf_rep uf E f \<Longrightarrow> f a = f b \<longleftrightarrow> (a, b) \<in> conn E"
  by (simp add: uf_rep_def)

lemma uf_rep_idem: "uf_rep uf E f \<Longrightarrow> f (f a) = f a"
  by (simp add: uf_rep_def uf_inv_def)

interpretation uf: components uf_empty uf_union uf_find uf_rep
  by unfold_locales (rule exI, rule uf_rep_empty, (fact uf_union_rep uf_find_rep uf_rep_conn uf_rep_idem)+)

text \<open>C36. Union-find computes connectivity: after any sequence of unions on an empty structure the
  query \<open>same\<close> returns, and answers yes exactly when the united pairs connect the two elements; in
  particular no lookup with path halving runs forever or meets a missing key.\<close>

theorem union_find_same:
  "\<exists>uf uf'. for_each (\<lambda>(a, b). uf_union a b) ps uf_empty = Some uf \<and>
     uf_same x y uf = Some ((x, y) \<in> conn (set ps), uf')"
proof -
  from uf.merge_all [OF uf_rep_empty, of ps] obtain s f where
    s: "for_each (\<lambda>(a, b). uf_union a b) ps uf_empty = Some s" "uf_rep s (set ps) f" by auto
  from uf.root_rep [OF s(2), of x] obtain s1 where 1: "uf_find x s = Some (f x, s1)" "uf_rep s1 (set ps) f" by blast
  from uf.root_rep [OF 1(2), of y] obtain s2 where 2: "uf_find y s1 = Some (f y, s2)" by blast
  show ?thesis
    using s(1) by (simp add: uf_same_def 1(1) 2 uf.rep_conn [OF s(2)])
qed

end
