(* ===== verification/Reachability.thy ===== *)
theory Reachability
  imports Traversability Union_Find
begin

section \<open>Reachability of a map's checkpoints\<close>

text \<open>
  Model of \<^verbatim>\<open>src/src/corridor/traversability/reachability.py\<close>: anchor sets, the breadth-first search,
  snapping of free waypoints, observations of replays and \<open>validate_map\<close> with its report. The rows of
  the database queries and the sidecar files are arguments; the order in which Python iterates over a
  set is the argument \<open>set_iter\<close>. \<open>validate_map\<close> has the value \<open>None\<close> when a union-find lookup would not
  return.
\<close>

subsection \<open>Anchor sets\<close>

record anchor_set =
  as_tag :: string
  as_order :: int
  as_cells :: "cell set"

type_synonym waypoint_row = "string option \<times> int \<times> int option \<times> int option \<times> int option"

definition SPAWN_TAGS :: "string list" where
  "SPAWN_TAGS = [''Spawn'', ''StartFinish'']"

definition group_waypoint :: "waypoint_row \<Rightarrow> ((string \<times> int) \<times> cell set) list \<Rightarrow> ((string \<times> int) \<times> cell set) list" where
  "group_waypoint row groups =
     (case row of
        (Some tag, wp_order, Some x, Some y, Some z) \<Rightarrow>
          AList.update (tag, wp_order)
            (insert (x, y, z) (case map_of groups (tag, wp_order) of None \<Rightarrow> {} | Some cs \<Rightarrow> cs)) groups
      | _ \<Rightarrow> groups)"

definition build_anchor_sets :: "waypoint_row list \<Rightarrow> anchor_set list" where
  "build_anchor_sets rows =
     map (\<lambda>((tag, wp_order), cells). \<lparr>as_tag = tag, as_order = wp_order, as_cells = cells\<rparr>)
       (sort_key fst (fold group_waypoint rows []))"

subsection \<open>Breadth-first search\<close>

text \<open>Enqueue a cell that was not visited.\<close>

definition enqueue_new :: "'a \<Rightarrow> 'a set \<times> 'a list \<Rightarrow> 'a set \<times> 'a list" where
  "enqueue_new nb st =
     (case st of (visited, queue) \<Rightarrow> if nb \<in> visited then (visited, queue) else (insert nb visited, queue @ [nb]))"

lemma fold_enqueue:
  "\<exists>r. fold enqueue_new ns (v, q) = (v \<union> set ns, q @ r) \<and> set r = set ns - v \<and> distinct r"
proof (induction ns arbitrary: v q)
  case (Cons n ns)
  show ?case
  proof (cases "n \<in> v")
    case True
    then have "set (n # ns) - v = set ns - v" "v \<union> set (n # ns) = v \<union> set ns" by auto
    with True Cons [of v q] show ?thesis by (simp add: enqueue_new_def)
  next
    case False
    from Cons [of "insert n v" "q @ [n]"] obtain r where r:
      "fold enqueue_new ns (insert n v, q @ [n]) = (insert n v \<union> set ns, (q @ [n]) @ r)"
      "set r = set ns - insert n v" "distinct r" by blast
    have "fold enqueue_new (n # ns) (v, q) = (v \<union> set (n # ns), q @ n # r)"
      using r(1) False by (simp add: enqueue_new_def)
    moreover have "set (n # r) = set (n # ns) - v" "distinct (n # r)" using r(2,3) False by auto
    ultimately show ?thesis by blast
  qed
qed simp

function bfs_loop :: "neighbour_map \<Rightarrow> cell list \<Rightarrow> cell set \<Rightarrow> cell set" where
  "bfs_loop neighbours [] visited = visited"
| "bfs_loop neighbours (cur # queue) visited =
     (case fold enqueue_new (nbs_of neighbours cur) (visited, queue) of
        (visited, queue) \<Rightarrow> bfs_loop neighbours queue visited)"
  by pat_completeness auto

definition bfs_universe :: "neighbour_map \<Rightarrow> cell set" where
  "bfs_universe m = (\<Union>(c, l) \<in> set m. set l)"

lemma nbs_of_universe: "set (nbs_of m c) \<subseteq> bfs_universe m"
proof (cases "map_of m c")
  case (Some l)
  then have "(c, l) \<in> set m" by (rule map_of_SomeD)
  then show ?thesis by (force simp: nbs_of_def bfs_universe_def Some)
qed (simp add: nbs_of_def)

lemma finite_bfs_universe [simp]: "finite (bfs_universe m)"
  by (auto simp: bfs_universe_def)

termination bfs_loop
proof (relation "measures [\<lambda>(m, q, v). card (bfs_universe m - v), \<lambda>(m, q, v). length q]")
  fix m cur queue v visited' queue'
  assume x: "(visited', queue') = fold enqueue_new (nbs_of m cur) (v, queue)"
  from fold_enqueue [of "nbs_of m cur" v queue] x obtain r where
    r: "visited' = v \<union> set (nbs_of m cur)" "queue' = queue @ r" "set r = set (nbs_of m cur) - v" by auto
  show "((m, queue', visited'), m, cur # queue, v) \<in>
      measures [\<lambda>(m, q, v). card (bfs_universe m - v), \<lambda>(m, q, v). length q]"
  proof (cases "set (nbs_of m cur) \<subseteq> v")
    case True
    then have "set r = {}" "visited' = v" using r(1,3) by (simp_all add: Un_absorb2)
    with r(2) show ?thesis by simp
  next
    case False
    then have "bfs_universe m - visited' \<subset> bfs_universe m - v"
      using r(1) nbs_of_universe [of m cur] by auto
    then show ?thesis by (simp add: psubset_card_mono)
  qed
qed simp

definition bfs_reachable :: "neighbour_map \<Rightarrow> cell list \<Rightarrow> cell set" where
  "bfs_reachable neighbours sources =
     (case fold enqueue_new sources ({}, []) of (visited, queue) \<Rightarrow> bfs_loop neighbours queue visited)"

subsection \<open>Snapping of free waypoints\<close>

text \<open>The float operations snapping needs beyond \<open>fops\<close>; again no law is assumed.\<close>

record 'f gops = "'f fops" +
  f_sub :: "'f \<Rightarrow> 'f \<Rightarrow> 'f"
  f_lt :: "'f \<Rightarrow> 'f \<Rightarrow> bool"
  f_inf :: 'f

type_synonym 'f free_waypoint = "string \<times> int \<times> 'f \<times> 'f \<times> 'f"

definition cell_centre :: "('f, 'z) gops_scheme \<Rightarrow> cell \<Rightarrow> 'f \<times> 'f \<times> 'f" where
  "cell_centre F c =
     (case c of (gx, gy, gz) \<Rightarrow>
       (f_add F (f_mul F (f_lit F (of_int gx)) (f_lit F 32)) (f_div F (f_lit F 32) (f_lit F 2)),
        f_add F (f_mul F (f_lit F (of_int gy)) (f_lit F 8)) (f_div F (f_lit F 8) (f_lit F 2)),
        f_add F (f_mul F (f_lit F (of_int gz)) (f_lit F 32)) (f_div F (f_lit F 32) (f_lit F 2))))"

definition sq_dist :: "('f, 'z) gops_scheme \<Rightarrow> 'f \<times> 'f \<times> 'f \<Rightarrow> 'f \<times> 'f \<times> 'f \<Rightarrow> 'f" where
  "sq_dist F p q =
     (case p of (ax, ay, az) \<Rightarrow> case q of (cx, cy, cz) \<Rightarrow>
       let dx = f_sub F ax cx; dy = f_sub F ay cy; dz = f_sub F az cz
       in f_add F (f_add F (f_mul F dx dx) (f_mul F dy dy)) (f_mul F dz dz))"

text \<open>The best cell so far, with its distance.\<close>

definition closer :: "('f, 'z) gops_scheme \<Rightarrow> 'f \<Rightarrow> cell \<Rightarrow> 'f \<times> cell option \<Rightarrow> 'f \<times> cell option" where
  "closer F d c best = (if f_lt F d (fst best) then (d, Some c) else best)"

definition snap_scan :: "('f, 'z) gops_scheme \<Rightarrow> (cell \<rightharpoonup> string) option \<Rightarrow> 'f \<times> 'f \<times> 'f \<Rightarrow> cell
    \<Rightarrow> ('f \<times> cell option) \<times> ('f \<times> cell option) \<Rightarrow> ('f \<times> cell option) \<times> ('f \<times> cell option)" where
  "snap_scan F cell_to_family p c st =
     (case st of (best_drivable, best_any) \<Rightarrow>
        let d = sq_dist F p (cell_centre F c)
        in (case cell_to_family of
              None \<Rightarrow> best_drivable
            | Some fam \<Rightarrow>
                if classify_family (case fam c of None \<Rightarrow> [] | Some f \<Rightarrow> f) = DRIVABLE
                then closer F d c best_drivable else best_drivable,
            closer F d c best_any))"

definition snap_cell :: "('f, 'z) gops_scheme \<Rightarrow> (cell \<rightharpoonup> string) option \<Rightarrow> cell list \<Rightarrow> 'f \<times> 'f \<times> 'f \<Rightarrow> cell option" where
  "snap_cell F cell_to_family grid_cells p =
     (case fold (snap_scan F cell_to_family p) grid_cells ((f_inf F, None), (f_inf F, None)) of
        ((_, best_drivable_cell), (_, best_any_cell)) \<Rightarrow>
          if best_drivable_cell \<noteq> None then best_drivable_cell else best_any_cell)"

definition snap_free_waypoints_to_grid :: "('f, 'z) gops_scheme \<Rightarrow> 'f free_waypoint list \<Rightarrow> cell list
    \<Rightarrow> (cell \<rightharpoonup> string) option \<Rightarrow> waypoint_row list" where
  "snap_free_waypoints_to_grid F free_waypoints grid_cells cell_to_family =
     (if grid_cells = [] then []
      else List.map_filter (\<lambda>(tag, order, p).
        map_option (\<lambda>(x, y, z). (Some tag, order, Some x, Some y, Some z))
          (snap_cell F cell_to_family grid_cells p)) free_waypoints)"

subsection \<open>Observations of replays\<close>

text \<open>The errors of a sidecar that nothing handles.\<close>

datatype sidecar_error = AttributeError | UnicodeDecodeError

definition load_breadcrumbs_cp_count :: "json_file \<Rightarrow> sidecar_error + nat option" where
  "load_breadcrumbs_cp_count s =
     (case s of
        Os_error \<Rightarrow> Inr None
      | Json_decode_error \<Rightarrow> Inr None
      | Unicode_decode_error \<Rightarrow> Inl UnicodeDecodeError
      | Payload (JObj kvs) \<Rightarrow>
          (case map_of kvs ''checkpoint_times_ms'' of
             Some (JArr cps) \<Rightarrow> Inr (Some (length cps))
           | _ \<Rightarrow> Inr None)
      | Payload _ \<Rightarrow> Inl AttributeError)"

datatype observation_kind = Spawn_goal_only | Linked_ordered | Checkpoint_matched

record replay_observation =
  ob_replay_id :: int
  ob_kind :: observation_kind
  ob_cells :: "cell set"

definition cells_tagged :: "string list \<Rightarrow> anchor_set list \<Rightarrow> cell set" where
  "cells_tagged tags anchor_sets = (\<Union>a \<in> set (filter (\<lambda>a. as_tag a \<in> set tags) anchor_sets). as_cells a)"

definition observe_replay :: "anchor_set list \<Rightarrow> int \<Rightarrow> nat option \<Rightarrow> replay_observation option" where
  "observe_replay anchor_sets replay_id cp_count =
     (let linked_cells = cells_tagged [''LinkedCheckpoint''] anchor_sets;
          checkpoint_cells = cells_tagged [''Checkpoint''] anchor_sets;
          has_linked = (\<exists>a \<in> set anchor_sets. as_tag a = ''LinkedCheckpoint'');
          has_plain_cp = (\<exists>a \<in> set anchor_sets. as_tag a = ''Checkpoint'');
          linked_anchor_count = length (filter (\<lambda>a. as_tag a = ''LinkedCheckpoint'') anchor_sets);
          plain_cp_anchor_count = card checkpoint_cells;
          asserted = cells_tagged SPAWN_TAGS anchor_sets \<union> cells_tagged [''Goal'', ''StartFinish''] anchor_sets;
          (kind, asserted) =
            (case cp_count of
               None \<Rightarrow> (Spawn_goal_only, asserted)
             | Some n \<Rightarrow>
                 if has_linked \<and> has_plain_cp then (Spawn_goal_only, asserted)
                 else if has_linked \<and> (n = linked_anchor_count \<or> n = linked_anchor_count + 1)
                 then (Linked_ordered, asserted \<union> linked_cells)
                 else if has_plain_cp \<and> (n = plain_cp_anchor_count \<or> n = plain_cp_anchor_count + 1)
                 then (Checkpoint_matched, asserted \<union> checkpoint_cells)
                 else (Spawn_goal_only, asserted))
      in if card asserted < 2 then None
         else Some \<lparr>ob_replay_id = replay_id, ob_kind = kind, ob_cells = asserted\<rparr>)"

primrec build_observations :: "(string \<Rightarrow> json_file) \<Rightarrow> anchor_set list \<Rightarrow> (int \<times> string) list
    \<Rightarrow> sidecar_error + replay_observation list" where
  "build_observations read anchor_sets [] = Inr []"
| "build_observations read anchor_sets (r # rs) =
     (case load_breadcrumbs_cp_count (read (snd r)) of
        Inl e \<Rightarrow> Inl e
      | Inr cp_count \<Rightarrow>
          (case build_observations read anchor_sets rs of
             Inl e \<Rightarrow> Inl e
           | Inr obs \<Rightarrow>
               Inr (case observe_replay anchor_sets (fst r) cp_count of None \<Rightarrow> obs | Some ob \<Rightarrow> ob # obs)))"


subsection \<open>Validation of one map\<close>

text \<open>The rows the database returns for one map.\<close>

record 'f map_rows =
  mq_grid :: "(int option \<times> int option \<times> int option \<times> string option) list"
  mq_waypoints :: "waypoint_row list"
  mq_free :: "'f free_waypoint list"
  mq_replays :: "(int \<times> string) list"

definition fetch_map_grid_blocks ::
    "(int option \<times> int option \<times> int option \<times> string option) list \<Rightarrow> (int \<times> int \<times> int \<times> string) list" where
  "fetch_map_grid_blocks = List.map_filter (\<lambda>r.
     case r of (Some x, Some y, Some z, family) \<Rightarrow> Some (x, y, z, case family of None \<Rightarrow> [] | Some f \<Rightarrow> f)
     | _ \<Rightarrow> None)"

text \<open>Grid waypoints, then the free ones snapped to the grid, grouped into anchor sets.\<close>

definition load_anchor_sets :: "('f, 'z) gops_scheme \<Rightarrow> 'f map_rows \<Rightarrow> (cell \<times> string) list \<Rightarrow> anchor_set list" where
  "load_anchor_sets F q cell_to_family =
     (let wp_rows = mq_waypoints q;
          free_wp_rows = mq_free q;
          wp_rows = (if free_wp_rows \<noteq> []
            then wp_rows @ snap_free_waypoints_to_grid F free_wp_rows (map fst cell_to_family) (Some (map_of cell_to_family))
            else wp_rows)
      in build_anchor_sets wp_rows)"

datatype reach_error = No_grid_placements | No_grid_waypoints | No_spawn_anchor | Exception_raised

record map_reachability =
  mr_map_id :: int
  mr_total_cells :: nat
  mr_total_edges :: nat
  mr_seed_valid_edges :: nat
  mr_unsupported_edges :: nat
  mr_unknown_edges :: nat
  mr_anchor_sets_total :: nat
  mr_anchor_sets_reachable :: nat
  mr_spawn_anchor_cells :: nat
  mr_observations_available :: nat
  mr_observations_applied :: nat
  mr_anchor_sets_reachable_seed_only :: nat
  mr_errors :: "reach_error list"

definition empty_reachability :: "int \<Rightarrow> map_reachability" where
  "empty_reachability map_id =
     \<lparr>mr_map_id = map_id, mr_total_cells = 0, mr_total_edges = 0, mr_seed_valid_edges = 0, mr_unsupported_edges = 0,
      mr_unknown_edges = 0, mr_anchor_sets_total = 0, mr_anchor_sets_reachable = 0, mr_spawn_anchor_cells = 0,
      mr_observations_available = 0, mr_observations_applied = 0, mr_anchor_sets_reachable_seed_only = 0, mr_errors = []\<rparr>"

text \<open>The unions of the inductive path, in order: seed edges, then each observation as a star around its
  first cell; then every spawn cell with the representative of the first one.\<close>

definition seed_pairs :: "neighbour_map \<Rightarrow> (cell \<times> cell) list" where
  "seed_pairs neighbours = concat (map (\<lambda>(c, nbs). map (\<lambda>nb. (c, nb)) nbs) neighbours)"

definition star_pairs :: "cell list \<Rightarrow> (cell \<times> cell) list" where
  "star_pairs cells = (case cells of [] \<Rightarrow> [] | head # rest \<Rightarrow> map (\<lambda>c. (head, c)) rest)"

definition merge_components :: "(cell set \<Rightarrow> cell list) \<Rightarrow> neighbour_map \<Rightarrow> replay_observation list \<Rightarrow> cell set
    \<Rightarrow> (cell \<times> cell union_find) option" where
  "merge_components set_iter neighbours observations spawn_cells =
     (case for_each (\<lambda>(a, b). uf_union a b)
          (seed_pairs neighbours @ concat (map (\<lambda>ob. star_pairs (set_iter (ob_cells ob))) observations)) uf_empty of
        None \<Rightarrow> None
      | Some uf \<Rightarrow>
          (case set_iter spawn_cells of
             [] \<Rightarrow> None
           | first # _ \<Rightarrow>
               (case uf_find first uf of
                  None \<Rightarrow> None
                | Some (spawn_rep, uf) \<Rightarrow>
                    (case for_each (\<lambda>(a, b). uf_union a b) (map (\<lambda>sc. (sc, spawn_rep)) (set_iter spawn_cells)) uf of
                       None \<Rightarrow> None
                     | Some uf \<Rightarrow> uf_find spawn_rep uf))))"

definition non_spawn :: "anchor_set list \<Rightarrow> anchor_set list" where
  "non_spawn anchor_sets = filter (\<lambda>a. as_tag a \<notin> set SPAWN_TAGS) anchor_sets"

definition validate_map :: "('f, 'z) gops_scheme \<Rightarrow> (cell set \<Rightarrow> cell list) \<Rightarrow> (string \<Rightarrow> json_file) \<Rightarrow> 'f map_rows
    \<Rightarrow> int \<Rightarrow> bool \<Rightarrow> (sidecar_error + map_reachability) option" where
  "validate_map F set_iter read q map_id use_observations =
     (let result = empty_reachability map_id;
          grid_rows = fetch_map_grid_blocks (mq_grid q)
      in if grid_rows = [] then Some (Inr (result\<lparr>mr_errors := [No_grid_placements]\<rparr>))
         else case build_cell_graph grid_rows of (cell_to_family, g) \<Rightarrow>
           let result = result\<lparr>mr_total_cells := length cell_to_family, mr_seed_valid_edges := gr_seed_valid g,
                 mr_unsupported_edges := gr_unsupported g, mr_unknown_edges := gr_unknown g,
                 mr_total_edges := gr_seed_valid g + gr_unsupported g + gr_unknown g\<rparr>;
               anchor_sets = load_anchor_sets F q cell_to_family
           in if anchor_sets = [] then Some (Inr (result\<lparr>mr_errors := [No_grid_waypoints]\<rparr>))
              else let spawn_cells = cells_tagged SPAWN_TAGS anchor_sets;
                       non_spawn_sets = non_spawn anchor_sets;
                       result = result\<lparr>mr_spawn_anchor_cells := card spawn_cells,
                         mr_anchor_sets_total := length non_spawn_sets\<rparr>
              in if spawn_cells = {} then Some (Inr (result\<lparr>mr_errors := [No_spawn_anchor]\<rparr>))
              else if non_spawn_sets = [] then Some (Inr result)
              else let seed_reachable = bfs_reachable (gr_neighbours g) (set_iter spawn_cells);
                       seed_only = length (filter (\<lambda>a. \<exists>c \<in> as_cells a. c \<in> seed_reachable) non_spawn_sets);
                       result = result\<lparr>mr_anchor_sets_reachable_seed_only := seed_only\<rparr>
              in if \<not> use_observations then Some (Inr (result\<lparr>mr_anchor_sets_reachable := seed_only\<rparr>))
              else case build_observations read anchor_sets (mq_replays q) of
                Inl e \<Rightarrow> Some (Inl e)
              | Inr observations \<Rightarrow>
                  let result = result\<lparr>mr_observations_available := length (mq_replays q),
                        mr_observations_applied := length observations\<rparr>
                  in (case merge_components set_iter (gr_neighbours g) observations spawn_cells of
                        None \<Rightarrow> None
                      | Some (spawn_rep, uf) \<Rightarrow>
                          map_option (\<lambda>(reachable_count, _). Inr (result\<lparr>mr_anchor_sets_reachable := reachable_count\<rparr>))
                            (count_roots uf_find spawn_rep (map (\<lambda>a. set_iter (as_cells a)) non_spawn_sets) 0 uf)))"


subsection \<open>Reports\<close>

definition reachability_fraction :: "('f, 'z) fops_scheme \<Rightarrow> map_reachability \<Rightarrow> 'f" where
  "reachability_fraction F m =
     (if mr_anchor_sets_total m = 0 then f_lit F 1
      else f_div F (f_lit F (of_nat (mr_anchor_sets_reachable m))) (f_lit F (of_nat (mr_anchor_sets_total m))))"

definition passes_reachability :: "('f, 'z) fops_scheme \<Rightarrow> map_reachability \<Rightarrow> bool" where
  "passes_reachability F m = f_le F (f_lit F 1) (reachability_fraction F m)"

definition mr_suppression_fraction :: "('f, 'z) fops_scheme \<Rightarrow> map_reachability \<Rightarrow> 'f" where
  "mr_suppression_fraction F m =
     (if mr_total_edges m = 0 then f_lit F 0
      else f_div F (f_lit F (of_nat (mr_unsupported_edges m + mr_unknown_edges m))) (f_lit F (of_nat (mr_total_edges m))))"

definition mr_unsupported_fraction :: "('f, 'z) fops_scheme \<Rightarrow> map_reachability \<Rightarrow> 'f" where
  "mr_unsupported_fraction F m =
     (if mr_total_edges m = 0 then f_lit F 0
      else f_div F (f_lit F (of_nat (mr_unsupported_edges m))) (f_lit F (of_nat (mr_total_edges m))))"

definition maps_passing_reachability :: "('f, 'z) fops_scheme \<Rightarrow> map_reachability list \<Rightarrow> nat" where
  "maps_passing_reachability F per_map = length (filter (passes_reachability F) per_map)"

definition interval_reachability_fraction :: "('f, 'z) fops_scheme \<Rightarrow> map_reachability list \<Rightarrow> 'f" where
  "interval_reachability_fraction F per_map =
     (let intervals_total = sum_list (map mr_anchor_sets_total per_map);
          intervals_reachable = sum_list (map mr_anchor_sets_reachable per_map)
      in if intervals_total = 0 then f_lit F 0
         else f_div F (f_lit F (of_nat intervals_reachable)) (f_lit F (of_nat intervals_total)))"

definition weighted_unsupported_fraction :: "('f, 'z) fops_scheme \<Rightarrow> map_reachability list \<Rightarrow> 'f" where
  "weighted_unsupported_fraction F per_map =
     (let total_edges = sum_list (map mr_total_edges per_map)
      in if total_edges = 0 then f_lit F 0
         else f_div F (f_lit F (of_nat (sum_list (map mr_unsupported_edges per_map)))) (f_lit F (of_nat total_edges)))"

definition weighted_suppression_fraction :: "('f, 'z) fops_scheme \<Rightarrow> map_reachability list \<Rightarrow> 'f" where
  "weighted_suppression_fraction F per_map =
     (let total_edges = sum_list (map mr_total_edges per_map)
      in if total_edges = 0 then f_lit F 0
         else f_div F (f_lit F (of_nat (sum_list (map (\<lambda>m. mr_unsupported_edges m + mr_unknown_edges m) per_map))))
           (f_lit F (of_nat total_edges)))"

text \<open>\<open>validate_set\<close>: \<open>db\<close> has no rows for a map when a query raises. Every exception becomes a report with
  an error.\<close>

definition validate_one :: "('f, 'z) gops_scheme \<Rightarrow> (cell set \<Rightarrow> cell list) \<Rightarrow> (string \<Rightarrow> json_file)
    \<Rightarrow> (int \<rightharpoonup> 'f map_rows) \<Rightarrow> bool \<Rightarrow> int \<Rightarrow> map_reachability option" where
  "validate_one F set_iter read db use_observations mid =
     (let failed = (empty_reachability mid)\<lparr>mr_errors := [Exception_raised]\<rparr>
      in case db mid of
           None \<Rightarrow> Some failed
         | Some q \<Rightarrow> map_option (\<lambda>r. case r of Inl _ \<Rightarrow> failed | Inr m \<Rightarrow> m)
             (validate_map F set_iter read q mid use_observations))"

definition validate_set :: "('f, 'z) gops_scheme \<Rightarrow> (cell set \<Rightarrow> cell list) \<Rightarrow> (string \<Rightarrow> json_file)
    \<Rightarrow> (int \<rightharpoonup> 'f map_rows) \<Rightarrow> int list \<Rightarrow> bool \<Rightarrow> map_reachability list option" where
  "validate_set F set_iter read db map_ids use_observations =
     those (map (validate_one F set_iter read db use_observations) map_ids)"

subsection \<open>Breadth-first search computes the reachable cells\<close>

definition nb_rel :: "neighbour_map \<Rightarrow> (cell \<times> cell) set" where
  "nb_rel m = {(a, b). b \<in> set (nbs_of m a)}"

lemma closed_rtrancl:
  assumes "\<And>a b. a \<in> V \<Longrightarrow> (a, b) \<in> R \<Longrightarrow> b \<in> V" and "S \<subseteq> V"
  shows "R\<^sup>* `` S \<subseteq> V"
proof
  fix y assume "y \<in> R\<^sup>* `` S"
  then obtain x where "x \<in> S" "(x, y) \<in> R\<^sup>*" by blast
  from this(2,1) show "y \<in> V"
    by (induction rule: rtrancl_induct) (use assms in blast)+
qed

text \<open>The loop invariant: expanded cells have their neighbours visited.\<close>

lemma bfs_loop_closure:
  assumes "set q \<subseteq> v" and "\<And>a b. a \<in> v \<Longrightarrow> a \<notin> set q \<Longrightarrow> (a, b) \<in> nb_rel m \<Longrightarrow> b \<in> v"
  shows "bfs_loop m q v = (nb_rel m)\<^sup>* `` v"
  using assms
proof (induction m q v rule: bfs_loop.induct)
  case (1 m v)
  then have "(nb_rel m)\<^sup>* `` v \<subseteq> v" by (intro closed_rtrancl) auto
  then show ?case by auto
next
  case (2 m c q v)
  let ?v = "v \<union> set (nbs_of m c)"
  from fold_enqueue [of "nbs_of m c" v q] obtain r where
    r: "fold enqueue_new (nbs_of m c) (v, q) = (?v, q @ r)" "set r = set (nbs_of m c) - v" by blast
  have "c \<in> v" using "2.prems"(1) by simp
  have "bfs_loop m (q @ r) ?v = (nb_rel m)\<^sup>* `` ?v"
  proof (rule "2.IH" [OF r(1) [symmetric]])
    show "set (q @ r) \<subseteq> ?v" using "2.prems"(1) r(2) by auto
  next
    fix a b assume a: "a \<in> ?v" "a \<notin> set (q @ r)" "(a, b) \<in> nb_rel m"
    then have "a \<in> v" using r(2) by auto
    then show "b \<in> ?v"
      using "2.prems"(2) [of a b] a by (cases "a = c") (auto simp: nb_rel_def)
  qed
  moreover have "(nb_rel m)\<^sup>* `` ?v = (nb_rel m)\<^sup>* `` v"
  proof -
    have "set (nbs_of m c) \<subseteq> (nb_rel m)\<^sup>* `` v" using \<open>c \<in> v\<close> by (auto simp: nb_rel_def)
    then show ?thesis by (auto intro: rtrancl_trans)
  qed
  ultimately show ?case by (simp add: r(1))
qed

lemma bfs_reachable_closure: "bfs_reachable m sources = (nb_rel m)\<^sup>* `` set sources"
proof -
  from fold_enqueue [of sources "{}" "[]"] obtain r where
    r: "fold enqueue_new sources ({}, []) = (set sources, r)" "set r = set sources" by auto
  have "bfs_loop m r (set sources) = (nb_rel m)\<^sup>* `` set sources"
    by (rule bfs_loop_closure) (use r(2) in auto)
  then show ?thesis by (simp add: bfs_reachable_def r(1))
qed


subsection \<open>Anchor sets\<close>

text \<open>The cells the rows give to a tag and order.\<close>

definition waypoint_cells :: "waypoint_row list \<Rightarrow> string \<Rightarrow> int \<Rightarrow> cell set" where
  "waypoint_cells rows tag ord = {(x, y, z). (Some tag, ord, Some x, Some y, Some z) \<in> set rows}"

lemma finite_waypoint_cells: "finite (waypoint_cells rows tag ord)"
proof (rule finite_surj)
  show "finite (set rows)" by simp
  show "waypoint_cells rows tag ord \<subseteq>
      (\<lambda>(t, n, x, y, z). (the x, the y, the z)) ` set rows"
    by (force simp: waypoint_cells_def)
qed

lemma group_waypoint_lookup:
  "map_of (fold group_waypoint rows []) (tag, ord) =
     (if waypoint_cells rows tag ord = {} then None else Some (waypoint_cells rows tag ord))"
proof (induction rows rule: rev_induct)
  case (snoc r rows)
  show ?case
  proof (cases "\<exists>t n x y z. r = (Some t, n, Some x, Some y, Some z)")
    case True
    then obtain t n x y z where r: "r = (Some t, n, Some x, Some y, Some z)" by blast
    have w: "waypoint_cells (rows @ [r]) tag ord =
        (if (t, n) = (tag, ord) then insert (x, y, z) (waypoint_cells rows tag ord) else waypoint_cells rows tag ord)"
      by (auto simp: waypoint_cells_def r)
    show ?thesis
    proof (cases "(t, n) = (tag, ord)")
      case True
      then have w': "waypoint_cells (rows @ [r]) tag ord = insert (x, y, z) (waypoint_cells rows tag ord)"
        and tn: "t = tag" "n = ord" using w by simp_all
      show ?thesis unfolding w' using snoc.IH by (simp add: r group_waypoint_def update_conv' tn)
    next
      case False
      then have "waypoint_cells (rows @ [r]) tag ord = waypoint_cells rows tag ord" by (simp only: w if_False)
      then show ?thesis using snoc.IH False by (auto simp: r group_waypoint_def update_conv')
    qed
  next
    case False
    then have "group_waypoint r g = g" for g by (auto simp: group_waypoint_def split: option.splits prod.splits)
    moreover have "waypoint_cells (rows @ [r]) tag ord = waypoint_cells rows tag ord"
      using False by (auto simp: waypoint_cells_def)
    ultimately show ?thesis using snoc.IH by simp
  qed
qed (simp add: waypoint_cells_def)

lemma group_waypoint_distinct: "distinct (map fst (fold group_waypoint rows g)) \<longleftrightarrow> distinct (map fst g)"
  if "distinct (map fst g)"
proof -
  have "distinct (map fst (group_waypoint r g))" if "distinct (map fst g)" for r g
    using that by (auto simp: group_waypoint_def distinct_update split: option.splits prod.splits)
  then have "distinct (map fst (fold group_waypoint rows g))" using \<open>distinct (map fst g)\<close>
    by (induction rows arbitrary: g) auto
  with \<open>distinct (map fst g)\<close> show ?thesis by simp
qed

lemma anchor_groups:
  "((tag, ord), cs) \<in> set (fold group_waypoint rows []) \<longleftrightarrow> cs = waypoint_cells rows tag ord \<and> cs \<noteq> {}"
proof -
  have "distinct (map fst (fold group_waypoint rows []))" using group_waypoint_distinct [of "[]" rows] by simp
  then have "((tag, ord), cs) \<in> set (fold group_waypoint rows []) \<longleftrightarrow>
      map_of (fold group_waypoint rows []) (tag, ord) = Some cs" by simp
  then show ?thesis by (auto simp: group_waypoint_lookup)
qed

lemma build_anchor_sets_mem:
  "a \<in> set (build_anchor_sets rows) \<longleftrightarrow>
     as_cells a = waypoint_cells rows (as_tag a) (as_order a) \<and> as_cells a \<noteq> {}"
proof
  assume "a \<in> set (build_anchor_sets rows)"
  then show "as_cells a = waypoint_cells rows (as_tag a) (as_order a) \<and> as_cells a \<noteq> {}"
    by (auto simp: build_anchor_sets_def anchor_groups)
next
  assume "as_cells a = waypoint_cells rows (as_tag a) (as_order a) \<and> as_cells a \<noteq> {}"
  then have "((as_tag a, as_order a), as_cells a) \<in> set (fold group_waypoint rows [])"
    unfolding anchor_groups .
  then have "(\<lambda>((tag, wp_order), cells). \<lparr>as_tag = tag, as_order = wp_order, as_cells = cells\<rparr>)
      ((as_tag a, as_order a), as_cells a) \<in> set (build_anchor_sets rows)"
    unfolding build_anchor_sets_def set_map set_sort by (rule imageI)
  then show "a \<in> set (build_anchor_sets rows)" by (cases a) simp
qed

lemma build_anchor_sets_keys:
  "sorted (map (\<lambda>a. (as_tag a, as_order a)) (build_anchor_sets rows)) \<and>
   distinct (map (\<lambda>a. (as_tag a, as_order a)) (build_anchor_sets rows))"
proof -
  have "map (\<lambda>a. (as_tag a, as_order a)) (build_anchor_sets rows) = map fst (sort_key fst (fold group_waypoint rows []))"
    by (auto simp: build_anchor_sets_def)
  moreover have "distinct (map fst (sort_key fst (fold group_waypoint rows [])))"
    using group_waypoint_distinct [of "[]" rows] by (simp add: distinct_map)
  ultimately show ?thesis by simp
qed

lemma anchor_cells_finite: "a \<in> set (build_anchor_sets rows) \<Longrightarrow> finite (as_cells a)"
  using finite_waypoint_cells by (simp add: build_anchor_sets_mem)

lemma load_anchor_sets_finite: "a \<in> set (load_anchor_sets F q fams) \<Longrightarrow> finite (as_cells a)"
  unfolding load_anchor_sets_def Let_def by (rule anchor_cells_finite)

lemma cells_tagged_finite: "(\<And>a. a \<in> set asets \<Longrightarrow> finite (as_cells a)) \<Longrightarrow> finite (cells_tagged tags asets)"
  by (auto simp: cells_tagged_def)


subsection \<open>Validation computes connectivity\<close>

definition seed_edges :: "(int \<times> int \<times> int \<times> string) list \<Rightarrow> (cell \<times> cell) set" where
  "seed_edges rows = {(a, b). b \<in> set (axis_neighbours a) \<and> drivable_at rows a \<and> drivable_at rows b}"

lemma nb_rel_graph:
  assumes "build_cell_graph rows = (fams, g)"
  shows "nb_rel (gr_neighbours g) = seed_edges rows"
  unfolding nb_rel_def seed_edges_def using cell_graph_nbs [OF assms] by auto

lemma seed_edges_conn: "(seed_edges rows)\<^sup>* = conn (seed_edges rows)"
proof -
  have "(seed_edges rows)\<inverse> = seed_edges rows"
    using axis_neighbours_sym by (auto simp: seed_edges_def)
  then show ?thesis by (simp add: conn_def)
qed

lemma seed_pairs_set: "distinct (map fst m) \<Longrightarrow> set (seed_pairs m) = nb_rel m"
proof -
  assume d: "distinct (map fst m)"
  have "(a, b) \<in> set (seed_pairs m) \<longleftrightarrow> (\<exists>l. (a, l) \<in> set m \<and> b \<in> set l)" for a b
    by (force simp: seed_pairs_def)
  moreover have "(\<exists>l. (a, l) \<in> set m \<and> b \<in> set l) \<longleftrightarrow> b \<in> set (nbs_of m a)" for a b
    using d by (auto simp: nbs_of_def split: option.splits)
  ultimately show ?thesis unfolding nb_rel_def by auto
qed

lemma neighbours_distinct:
  assumes "build_cell_graph rows = (fams, g)"
  shows "distinct (map fst (gr_neighbours g))"
proof -
  have "distinct (map fst (gr_neighbours (visit_pair fam p st)))" if "distinct (map fst (gr_neighbours st))" for fam p st
    using that by (auto simp: visit_pair_def add_nb_def Let_def distinct_update split: option.splits edge_state.splits prod.splits)
  then have "distinct (map fst (gr_neighbours (fold (visit_pair fam) ps st)))"
    if "distinct (map fst (gr_neighbours st))" for fam ps st
    using that by (induction ps arbitrary: st) auto
  then show ?thesis using assms by (auto simp: build_cell_graph_def Let_def)
qed

text \<open>A star around one cell connects what all its pairs would.\<close>

lemma star_pairs_conn:
  assumes "set cs = S" and "(a, b) \<in> S \<times> S" and "set (star_pairs cs) \<subseteq> E"
  shows "(a, b) \<in> conn E"
proof (cases cs)
  case (Cons h rest)
  have "(h, c) \<in> conn E" if "c \<in> S" for c
  proof (cases "c = h")
    case False
    with that assms(1) have "(h, c) \<in> set (star_pairs cs)" by (auto simp: star_pairs_def Cons)
    with assms(3) show ?thesis by (blast intro: conn_edge)
  qed simp
  with assms(2) show ?thesis using conn_sym conn_trans by fast
qed (use assms in auto)

lemma star_pairs_subset: "set cs = S \<Longrightarrow> set (star_pairs cs) \<subseteq> S \<times> S"
  by (cases cs) (auto simp: star_pairs_def)

text \<open>The relation a validation with observations decides.\<close>

definition race_edges :: "(cell \<times> cell) set \<Rightarrow> replay_observation list \<Rightarrow> cell set \<Rightarrow> (cell \<times> cell) set" where
  "race_edges seed observations spawn_cells =
     seed \<union> (\<Union>ob \<in> set observations. ob_cells ob \<times> ob_cells ob) \<union> spawn_cells \<times> spawn_cells"

lemma merged_conn:
  assumes stars: "E1 = seed \<union> (\<Union>ob \<in> set obs. set (star_pairs (set_iter (ob_cells ob))))"
    and iter: "\<And>ob. ob \<in> set obs \<Longrightarrow> set (set_iter (ob_cells ob)) = ob_cells ob"
    and first: "first \<in> spawn" "(first, r) \<in> conn E1"
  shows "conn ((\<lambda>sc. (sc, r)) ` spawn \<union> E1) = conn (race_edges seed obs spawn)" (is "conn ?E = conn ?R")
proof
  have E1: "E1 \<subseteq> ?R" using stars star_pairs_subset [OF iter] by (fastforce simp: race_edges_def)
  have "(first, r) \<in> conn ?R" using first(2) conn_mono [OF E1] by blast
  then have r: "(sc, r) \<in> conn ?R" if "sc \<in> spawn" for sc
    using that first(1) conn_trans [of sc first ?R r] conn_edge [of sc first ?R] by (simp add: race_edges_def)
  show "conn ?E \<subseteq> conn ?R"
  proof (rule conn_sub)
    fix a b assume "(a, b) \<in> ?E"
    then consider "a \<in> spawn" "b = r" | "(a, b) \<in> ?R" using E1 by blast
    then show "(a, b) \<in> conn ?R" by cases (simp_all add: r conn_edge)
  qed
next
  have to_r: "(sc, r) \<in> conn ?E" if "sc \<in> spawn" for sc
    by (rule conn_edge) (use that in blast)
  have "(a, b) \<in> conn ?E" if "(a, b) \<in> spawn \<times> spawn" for a b
    by (rule conn_trans [OF to_r conn_sym [OF to_r]]) (use that in simp_all)
  moreover have "(a, b) \<in> conn ?E" if "ob \<in> set obs" "(a, b) \<in> ob_cells ob \<times> ob_cells ob" for a b ob
  proof (rule star_pairs_conn [OF iter [OF that(1)] that(2)])
    show "set (star_pairs (set_iter (ob_cells ob))) \<subseteq> ?E" unfolding stars using that(1) by blast
  qed
  moreover have "(a, b) \<in> conn ?E" if "(a, b) \<in> seed" for a b
    by (rule conn_edge) (use that stars in simp)
  ultimately show "conn ?R \<subseteq> conn ?E"
    by (intro conn_sub) (unfold race_edges_def, blast)
qed


lemma merge_components_ok:
  assumes m: "distinct (map fst m)"
    and iter: "\<And>ob. ob \<in> set obs \<Longrightarrow> set (set_iter (ob_cells ob)) = ob_cells ob"
    and spawn: "set (set_iter spawn) = spawn" "spawn \<noteq> {}"
  shows "\<exists>r uf E f. merge_components set_iter m obs spawn = Some (f r, uf) \<and> uf_rep uf E f \<and>
    conn E = conn (race_edges (nb_rel m) obs spawn) \<and> (\<forall>s \<in> spawn. (s, r) \<in> conn E)"
proof -
  define ps where "ps = seed_pairs m @ concat (map (\<lambda>ob. star_pairs (set_iter (ob_cells ob))) obs)"
  have ps: "set ps = nb_rel m \<union> (\<Union>ob \<in> set obs. set (star_pairs (set_iter (ob_cells ob))))"
    by (simp add: ps_def seed_pairs_set [OF m])
  from uf.merge_all [OF uf_rep_empty, of ps] obtain uf1 f1 where
    1: "for_each (\<lambda>(a, b). uf_union a b) ps uf_empty = Some uf1" "uf_rep uf1 (set ps) f1" by auto
  obtain first rest where first: "set_iter spawn = first # rest" using spawn by (cases "set_iter spawn") auto
  from uf.root_rep [OF 1(2), of first] obtain uf2 where
    2: "uf_find first uf1 = Some (f1 first, uf2)" "uf_rep uf2 (set ps) f1" by blast
  let ?r = "f1 first" and ?E = "(\<lambda>sc. (sc, f1 first)) ` spawn \<union> set ps"
  from uf.merge_all [OF 2(2), of "map (\<lambda>sc. (sc, ?r)) (set_iter spawn)"] obtain uf3 f3 where
    3: "for_each (\<lambda>(a, b). uf_union a b) (map (\<lambda>sc. (sc, ?r)) (set_iter spawn)) uf2 = Some uf3" "uf_rep uf3 ?E f3"
    by (auto simp: spawn(1))
  from uf.root_rep [OF 3(2), of ?r] obtain uf4 where
    4: "uf_find ?r uf3 = Some (f3 ?r, uf4)" "uf_rep uf4 ?E f3" by blast
  have "merge_components set_iter m obs spawn = Some (f3 ?r, uf4)"
    using 1(1) 2(1) 3(1) 4(1) first by (simp add: merge_components_def ps_def)
  moreover have "first \<in> spawn" using first spawn(1) by (metis list.set_intros(1))
  then have "conn ?E = conn (race_edges (nb_rel m) obs spawn)"
    using uf.root_connected [OF 1(2), of first] by (intro merged_conn [OF ps]) (simp_all add: iter)
  moreover have "\<forall>s \<in> spawn. (s, ?r) \<in> conn ?E" by (intro ballI conn_edge) blast
  ultimately show ?thesis using 4(2) by blast
qed

text \<open>Every observation only asserts cells of anchor sets, hence finitely many.\<close>

lemma cells_tagged_subset: "cells_tagged tags asets \<subseteq> (\<Union>a \<in> set asets. as_cells a)"
  unfolding cells_tagged_def by (rule UN_mono) auto

lemma observe_replay_cells:
  "observe_replay asets rid n = Some ob \<Longrightarrow> ob_cells ob \<subseteq> (\<Union>a \<in> set asets. as_cells a) \<and> 2 \<le> card (ob_cells ob)"
  by (clarsimp simp: observe_replay_def Let_def not_less cells_tagged_subset split: if_splits option.splits prod.splits)

lemma build_observations_cells:
  "build_observations read asets rs = Inr obs \<Longrightarrow> ob \<in> set obs \<Longrightarrow>
     ob_cells ob \<subseteq> (\<Union>a \<in> set asets. as_cells a) \<and> 2 \<le> card (ob_cells ob)"
proof (induction rs arbitrary: obs)
  case (Cons r rs)
  from Cons.prems(1) obtain n obs' where obs: "build_observations read asets rs = Inr obs'"
    "obs = (case observe_replay asets (fst r) n of None \<Rightarrow> obs' | Some o' \<Rightarrow> o' # obs')"
    by (auto split: sum.splits)
  with Cons.prems(2) have "observe_replay asets (fst r) n = Some ob \<or> ob \<in> set obs'"
    by (auto split: option.splits)
  then show ?case by (elim disjE) (erule observe_replay_cells, erule Cons.IH [OF obs(1)])
qed simp


text \<open>The number of anchor sets with a cell connected to a spawn cell.\<close>

definition connected_sets :: "(cell \<times> cell) set \<Rightarrow> cell set \<Rightarrow> anchor_set list \<Rightarrow> nat" where
  "connected_sets E spawn sets = length (filter (\<lambda>a. \<exists>c \<in> as_cells a. \<exists>s \<in> spawn. (s, c) \<in> conn E) sets)"

lemma connected_sets_mono: "E \<subseteq> E' \<Longrightarrow> connected_sets E spawn sets \<le> connected_sets E' spawn sets"
proof -
  assume "E \<subseteq> E'"
  from conn_mono [OF this]
  have "\<And>a. \<exists>c \<in> as_cells a. \<exists>s \<in> spawn. (s, c) \<in> conn E \<Longrightarrow> \<exists>c \<in> as_cells a. \<exists>s \<in> spawn. (s, c) \<in> conn E'"
    by blast
  then show ?thesis unfolding connected_sets_def by (induction sets) auto
qed

lemma seed_only_count:
  assumes "build_cell_graph rows = (fams, g)" and "set (set_iter spawn) = spawn"
  shows "length (filter (\<lambda>a. \<exists>c \<in> as_cells a. c \<in> bfs_reachable (gr_neighbours g) (set_iter spawn)) sets) =
    connected_sets (seed_edges rows) spawn sets"
  unfolding connected_sets_def bfs_reachable_closure assms(2) nb_rel_graph [OF assms(1)] seed_edges_conn Image_iff
  by (rule refl)

lemma observed_count:
  assumes uf: "merge_components set_iter m obs spawn = Some (f r, uf)" "uf_rep uf E f"
    and E: "conn E = conn R" "\<forall>s \<in> spawn. (s, r) \<in> conn E" "spawn \<noteq> {}"
    and iter: "\<And>a. a \<in> set sets \<Longrightarrow> set (set_iter (as_cells a)) = as_cells a"
  shows "\<exists>uf'. count_roots uf_find (f r) (map (\<lambda>a. set_iter (as_cells a)) sets) 0 uf =
    Some (connected_sets R spawn sets, uf')"
proof -
  have eq: "(c, r) \<in> conn E \<longleftrightarrow> (\<exists>s \<in> spawn. (s, c) \<in> conn R)" for c
  proof
    assume c: "(c, r) \<in> conn E"
    obtain s where "s \<in> spawn" using E(3) by blast
    with E(2) have "(s, r) \<in> conn E" by blast
    from conn_trans [OF this conn_sym [OF c]] \<open>s \<in> spawn\<close> show "\<exists>s \<in> spawn. (s, c) \<in> conn R" unfolding E(1) by blast
  next
    assume "\<exists>s \<in> spawn. (s, c) \<in> conn R"
    then obtain s where s: "s \<in> spawn" "(s, c) \<in> conn E" unfolding E(1) by blast
    from E(2) s(1) have "(s, r) \<in> conn E" by blast
    from conn_trans [OF conn_sym [OF s(2)] this] show "(c, r) \<in> conn E" .
  qed
  have "length (filter (\<lambda>xs. \<exists>x \<in> set xs. (x, r) \<in> conn E) (map (\<lambda>a. set_iter (as_cells a)) sets)) =
      connected_sets R spawn sets"
    unfolding connected_sets_def filter_map length_map comp_def eq
    by (intro arg_cong [of _ _ length] filter_cong refl) (simp add: iter)
  with uf.count_connected [OF uf(2), of r "map (\<lambda>a. set_iter (as_cells a)) sets" 0] show ?thesis by auto
qed

text \<open>
  C19. Validation of a map with spawn and other anchor sets always returns, whatever order the sets are
  iterated in. It counts as reachable exactly the anchor sets with a cell that seed edges (touching
  drivable cells), the cells asserted by each replay and the spawn cells together connect to a spawn
  cell; the seed-only count is the same with the seed edges alone, and never the larger of the two.
\<close>

theorem validate_map_reachable:
  assumes iter: "\<And>S. finite S \<Longrightarrow> set (set_iter S) = S"
    and rows: "fetch_map_grid_blocks (mq_grid q) = rows" "rows \<noteq> []"
    and graph: "build_cell_graph rows = (fams, g)" and asets: "load_anchor_sets F q fams = asets"
    and spawn: "cells_tagged SPAWN_TAGS asets = spawn" "spawn \<noteq> {}"
    and obs: "build_observations read asets (mq_replays q) = Inr obs"
  shows "\<exists>r. validate_map F set_iter read q map_id True = Some (Inr r) \<and> mr_errors r = [] \<and>
    mr_anchor_sets_total r = length (non_spawn asets) \<and>
    mr_anchor_sets_reachable r = connected_sets (race_edges (seed_edges rows) obs spawn) spawn (non_spawn asets) \<and>
    mr_anchor_sets_reachable_seed_only r = connected_sets (seed_edges rows) spawn (non_spawn asets) \<and>
    mr_anchor_sets_reachable_seed_only r \<le> mr_anchor_sets_reachable r"
proof -
  have le: "connected_sets (seed_edges rows) spawn sets \<le> connected_sets (race_edges (seed_edges rows) obs spawn) spawn sets"
    for sets by (rule connected_sets_mono) (auto simp: race_edges_def)
  have fin: "finite (as_cells a)" if "a \<in> set asets" for a
    using that load_anchor_sets_finite unfolding asets [symmetric] by blast
  then have "finite spawn" using cells_tagged_finite spawn(1) by blast
  then have sp: "set (set_iter spawn) = spawn" by (rule iter)
  have ne: "asets \<noteq> []" using spawn by (auto simp: cells_tagged_def)
  show ?thesis
  proof (cases "non_spawn asets = []")
    case True
    then show ?thesis
      using rows graph asets spawn ne by (simp add: validate_map_def Let_def connected_sets_def empty_reachability_def)
  next
    case False
    have "finite (ob_cells ob)" if "ob \<in> set obs" for ob
      using build_observations_cells [OF obs that] card.infinite by fastforce
    then have it: "set (set_iter (ob_cells ob)) = ob_cells ob" if "ob \<in> set obs" for ob using iter that by blast
    from merge_components_ok [OF neighbours_distinct [OF graph] it sp spawn(2)] obtain r uf E f where
      m: "merge_components set_iter (gr_neighbours g) obs spawn = Some (f r, uf)" "uf_rep uf E f"
        "conn E = conn (race_edges (seed_edges rows) obs spawn)" "\<forall>s \<in> spawn. (s, r) \<in> conn E"
      unfolding nb_rel_graph [OF graph] by blast
    have "set (set_iter (as_cells a)) = as_cells a" if "a \<in> set (non_spawn asets)" for a
      using that fin iter by (simp add: non_spawn_def)
    from observed_count [OF m spawn(2) this] obtain uf' where
      "count_roots uf_find (f r) (map (\<lambda>a. set_iter (as_cells a)) (non_spawn asets)) 0 uf =
         Some (connected_sets (race_edges (seed_edges rows) obs spawn) spawn (non_spawn asets), uf')" by blast
    then show ?thesis
      using rows graph asets spawn ne False obs m(1) le
      by (simp add: validate_map_def Let_def empty_reachability_def seed_only_count [where set_iter = set_iter, OF graph sp])
  qed
qed


definition rat_gops :: "rat gops" where
  "rat_gops = \<lparr>f_lit = (\<lambda>q. q), f_add = (+), f_mul = (*), f_div = (/), f_le = (\<le>), f_sum = sum_list,
     f_sub = (-), f_lt = (<), f_inf = 1000000000\<rparr>"

definition demo_rows :: "rat map_rows" where
  "demo_rows = \<lparr>mq_grid = map (\<lambda>(x, y, z, f). (Some x, Some y, Some z, Some f)) demo_grid,
     mq_waypoints = [(Some ''Spawn'', 0, Some 5, Some 9, Some 5), (Some ''Checkpoint'', 0, Some 6, Some 9, Some 5)],
     mq_free = [(''Goal'', 0, 650, 76, 170)], mq_replays = [(4, ''run.json'')]\<rparr>"

definition demo_anchors :: "anchor_set list" where
  "demo_anchors = load_anchor_sets rat_gops demo_rows (cell_families demo_grid)"

definition demo_sidecar :: "string \<Rightarrow> json_file" where
  "demo_sidecar f = Payload (JObj [(''checkpoint_times_ms'', JArr [JInt 1200, JInt 4100])])"

lemma demo_anchors_eval: "demo_anchors =
    [\<lparr>as_tag = ''Checkpoint'', as_order = 0, as_cells = {(6, 9, 5)}\<rparr>, \<lparr>as_tag = ''Goal'', as_order = 0, as_cells = {(20, 9, 5)}\<rparr>,
     \<lparr>as_tag = ''Spawn'', as_order = 0, as_cells = {(5, 9, 5)}\<rparr>]"
  by code_simp

lemma demo_observations: "build_observations demo_sidecar demo_anchors (mq_replays demo_rows) =
    Inr [\<lparr>ob_replay_id = 4, ob_kind = Checkpoint_matched, ob_cells = {(5, 9, 5), (20, 9, 5), (6, 9, 5)}\<rparr>]"
  by code_simp

theorem validate_map_reachable_witness:
  "\<exists>r. validate_map rat_gops sorted_list_of_set demo_sidecar demo_rows 7 True = Some (Inr r) \<and>
     mr_errors r = [] \<and> mr_anchor_sets_total r = 2 \<and> mr_anchor_sets_reachable_seed_only r \<le> mr_anchor_sets_reachable r"
proof -
  have rows: "fetch_map_grid_blocks (mq_grid demo_rows) = demo_grid" and ne: "demo_grid \<noteq> []"
    and spawn: "cells_tagged SPAWN_TAGS demo_anchors = {(5, 9, 5)}" and total: "length (non_spawn demo_anchors) = 2"
    by code_simp+
  have anchors: "load_anchor_sets rat_gops demo_rows (cell_families demo_grid) = demo_anchors"
    by (simp only: demo_anchors_def)
  from validate_map_reachable [where set_iter = sorted_list_of_set, OF _ rows ne demo_graph_built anchors spawn _ demo_observations]
  show ?thesis unfolding total by auto
qed

text \<open>
  C38. Breadth-first search from a set of sources terminates on every neighbour map, cyclic or not, and
  returns exactly the cells that a path of neighbours leads to from a source.
\<close>

theorem bfs_reachable_exact:
  "c \<in> bfs_reachable m sources \<longleftrightarrow> (\<exists>s \<in> set sources. (s, c) \<in> {(a, b). b \<in> set (nbs_of m a)}\<^sup>*)"
  unfolding bfs_reachable_closure nb_rel_def Image_iff by (rule refl)

text \<open>
  A map that could not be evaluated counts as passing: when a query raises or a replay sidecar holds
  JSON that is not an object, \<open>validate_set\<close> records an error and a report with no anchor sets, whose
  reachability fraction is by convention 1.
\<close>

theorem failed_map_passes:
  assumes "db mid = None \<or> (\<exists>q e. db mid = Some q \<and> validate_map F set_iter read q mid b = Some (Inl e))"
    and "f_le F (f_lit F 1) (f_lit F 1)"
  shows "\<exists>r. validate_set F set_iter read db [mid] b = Some [r] \<and> mr_errors r = [Exception_raised] \<and>
    passes_reachability F r \<and> maps_passing_reachability F [r] = 1"
  using assms
  by (auto simp: validate_set_def validate_one_def Let_def empty_reachability_def passes_reachability_def
      reachability_fraction_def maps_passing_reachability_def)

theorem failed_map_passes_witness:
  "\<exists>r. validate_set rat_gops sorted_list_of_set demo_sidecar (\<lambda>_. None) [7] False = Some [r] \<and>
     mr_errors r = [Exception_raised] \<and> passes_reachability rat_gops r \<and> maps_passing_reachability rat_gops [r] = 1"
  by (rule failed_map_passes) (simp_all add: rat_gops_def)


subsection \<open>Snapping lands on the grid\<close>

definition drivable_cell :: "(cell \<rightharpoonup> string) \<Rightarrow> cell \<Rightarrow> bool" where
  "drivable_cell fam c \<longleftrightarrow> (\<exists>f. fam c = Some f \<and> classify_family f = DRIVABLE)"

lemma classify_default: "classify_family (case fam c of None \<Rightarrow> [] | Some f \<Rightarrow> f) = DRIVABLE \<longleftrightarrow> drivable_cell fam c"
proof -
  have "classify_family [] \<noteq> DRIVABLE" by code_simp
  then show ?thesis by (cases "fam c") (simp_all add: drivable_cell_def)
qed

definition snap_inv :: "('f, 'z) gops_scheme \<Rightarrow> (cell \<rightharpoonup> string) \<Rightarrow> 'f \<times> 'f \<times> 'f \<Rightarrow> cell set
    \<Rightarrow> ('f \<times> cell option) \<times> ('f \<times> cell option) \<Rightarrow> bool" where
  "snap_inv F fam p seen st \<longleftrightarrow>
     (\<forall>c. snd (snd st) = Some c \<longrightarrow> c \<in> seen) \<and>
     (\<forall>c. snd (fst st) = Some c \<longrightarrow> c \<in> seen \<and> drivable_cell fam c) \<and>
     (snd (fst st) = None \<longrightarrow> fst (fst st) = f_inf F \<and>
        (\<forall>c \<in> seen. drivable_cell fam c \<longrightarrow> \<not> f_lt F (sq_dist F p (cell_centre F c)) (f_inf F)))"

lemma snap_scan_inv:
  assumes "snap_inv F fam p seen st"
  shows "snap_inv F fam p (insert c seen) (snap_scan F (Some fam) p c st)"
  using assms
  by (cases st) (auto simp: snap_inv_def snap_scan_def Let_def closer_def classify_default simp del: split_paired_All)

lemma snap_fold_inv:
  "snap_inv F fam p seen st \<Longrightarrow> snap_inv F fam p (seen \<union> set cs) (fold (snap_scan F (Some fam) p) cs st)"
proof (induction cs arbitrary: seen st)
  case (Cons c cs)
  from Cons.IH [OF snap_scan_inv [OF Cons.prems]] show ?case by simp
qed simp

lemma snap_cell_on_grid:
  assumes "snap_cell F (Some fam) cells p = Some c"
  shows "c \<in> set cells"
    and "\<exists>d \<in> set cells. drivable_cell fam d \<and> f_lt F (sq_dist F p (cell_centre F d)) (f_inf F) \<Longrightarrow> drivable_cell fam c"
proof -
  let ?st = "fold (snap_scan F (Some fam) p) cells ((f_inf F, None), (f_inf F, None))"
  have "snap_inv F fam p {} ((f_inf F, None), (f_inf F, None))" by (simp add: snap_inv_def)
  from snap_fold_inv [OF this, of cells] have inv: "snap_inv F fam p (set cells) ?st" by simp
  have c: "(if snd (fst ?st) \<noteq> None then snd (fst ?st) else snd (snd ?st)) = Some c"
    using assms by (auto simp: snap_cell_def split: prod.splits)
  show "c \<in> set cells" using inv c unfolding snap_inv_def by (metis option.distinct(1))
  show "drivable_cell fam c"
    if "\<exists>d \<in> set cells. drivable_cell fam d \<and> f_lt F (sq_dist F p (cell_centre F d)) (f_inf F)"
    using inv c that unfolding snap_inv_def by metis
qed

text \<open>
  Snapping invents no anchor: every snapped waypoint keeps its tag and order and lies on a cell that
  carries a grid block, and on a drivable one as soon as some drivable cell is at a finite distance.
\<close>

theorem snap_on_grid:
  assumes "row \<in> set (snap_free_waypoints_to_grid F ws cells (Some fam))"
  shows "\<exists>tag ord p x y z. row = (Some tag, ord, Some x, Some y, Some z) \<and> (tag, ord, p) \<in> set ws \<and>
    (x, y, z) \<in> set cells \<and>
    ((\<exists>d \<in> set cells. drivable_cell fam d \<and> f_lt F (sq_dist F p (cell_centre F d)) (f_inf F)) \<longrightarrow>
      drivable_cell fam (x, y, z))"
proof -
  from assms obtain tag ord p where w: "(tag, ord, p) \<in> set ws"
    "map_option (\<lambda>(x, y, z). (Some tag, ord, Some x, Some y, Some z)) (snap_cell F (Some fam) cells p) = Some row"
    by (auto simp: snap_free_waypoints_to_grid_def set_map_filter split: if_splits)
  from w(2) obtain x y z where c: "snap_cell F (Some fam) cells p = Some (x, y, z)"
    "row = (Some tag, ord, Some x, Some y, Some z)" by auto
  show ?thesis using w(1) c(2) snap_cell_on_grid [OF c(1)] by blast
qed

theorem snap_on_grid_witness:
  "\<exists>tag ord p x y z. (Some ''Goal'', 0, Some 20, Some 9, Some 5) = (Some tag, ord, Some x, Some y, Some z) \<and>
     (tag, ord, p) \<in> set (mq_free demo_rows) \<and> (x, y, z) \<in> set (map fst (cell_families demo_grid)) \<and>
     drivable_cell (map_of (cell_families demo_grid)) (x, y, z)"
proof -
  let ?cells = "map fst (cell_families demo_grid)" and ?fam = "map_of (cell_families demo_grid)"
  have "(Some ''Goal'', 0, Some 20, Some 9, Some 5) \<in>
      set (snap_free_waypoints_to_grid rat_gops (mq_free demo_rows) ?cells (Some ?fam))"
    by code_simp
  note s = snap_on_grid [OF this]
  have "map_of (cell_families demo_grid) (20, 9, 5) = Some ''Gate''" "classify_family ''Gate'' = DRIVABLE" by code_simp+
  then have "drivable_cell ?fam (20, 9, 5)" by (simp add: drivable_cell_def)
  with s show ?thesis by auto
qed

end
