(* ===== verification/Enumeration.thy ===== *)
theory Enumeration
  imports Reachability
begin

section \<open>Corridor enumeration\<close>

text \<open>
  Model of \<^verbatim>\<open>src/src/corridor/traversability/enumeration.py\<close>: the capped depth-first enumeration of paths
  between two sets of cells, the graph with the virtual edges that replays assert, the sanity checks on
  the enumerated corridors, the plan of the intervals of a map, and the report. As in the theory of
  reachability, rows and sidecars are arguments and \<open>set_iter\<close> is Python's order of iteration over a set.
\<close>

definition DEFAULT_DEPTH_CAP :: int where "DEFAULT_DEPTH_CAP = 10"
definition MEDIAN_PATH_COUNT_CAP :: int where "MEDIAN_PATH_COUNT_CAP = 1000"
definition P95_PATH_COUNT_CAP :: int where "P95_PATH_COUNT_CAP = 10000"
definition DECO_ADJACENT_CONTAMINATION_CAP :: rat where "DECO_ADJACENT_CONTAMINATION_CAP = 2 / 5"
definition STABILITY_PERTURBATION_CAP :: nat where "STABILITY_PERTURBATION_CAP = 5"

subsection \<open>Path enumeration\<close>

type_synonym frame = "cell \<times> cell list \<times> int"

record dfs_state =
  ds_paths :: "cell list list"
  ds_visited :: "cell set"
  ds_stack :: "frame list"

definition full :: "int \<Rightarrow> dfs_state \<Rightarrow> bool" where
  "full hard_cap st \<longleftrightarrow> hard_cap \<le> int (length (ds_paths st))"

text \<open>The loop over the neighbours of the popped cell; the flag tells that the function returned. The
  stack has its top first.\<close>

fun expand :: "int \<Rightarrow> cell set \<Rightarrow> cell list \<Rightarrow> int \<Rightarrow> cell list \<Rightarrow> dfs_state \<Rightarrow> bool \<times> dfs_state" where
  "expand hard_cap targets path depth [] st = (False, st)"
| "expand hard_cap targets path depth (nb # nbs) st =
     (if nb \<in> ds_visited st then expand hard_cap targets path depth nbs st
      else if nb \<in> targets
      then let st = st\<lparr>ds_paths := ds_paths st @ [path @ [nb]]\<rparr>
        in if full hard_cap st then (True, st) else expand hard_cap targets path depth nbs st
      else expand hard_cap targets path depth nbs
        (st\<lparr>ds_visited := insert nb (ds_visited st), ds_stack := (nb, path @ [nb], depth + 1) # ds_stack st\<rparr>))"

lemma expand_stack:
  "\<exists>new. ds_stack (snd (expand hard_cap targets path depth nbs st)) = new @ ds_stack st \<and>
     (\<forall>f \<in> set new. snd (snd f) = depth + 1)"
proof (induction hard_cap targets path depth nbs st rule: expand.induct)
  case (2 hard_cap targets path depth nb nbs st)
  show ?case
  proof (cases "nb \<in> ds_visited st \<or> nb \<in> targets")
    case True
    then show ?thesis using 2 by (auto simp: Let_def)
  next
    case False
    then obtain new where
      "ds_stack (snd (expand hard_cap targets path depth (nb # nbs) st)) = new @ (nb, path @ [nb], depth + 1) # ds_stack st"
      "\<forall>f \<in> set new. snd (snd f) = depth + 1"
      using "2.IH"(3) by auto
    then show ?thesis by (intro exI [of _ "new @ [(nb, path @ [nb], depth + 1)]"]) auto
  qed
qed simp

function dfs_loop :: "neighbour_map \<Rightarrow> cell set \<Rightarrow> int \<Rightarrow> int \<Rightarrow> dfs_state \<Rightarrow> bool \<times> dfs_state" where
  "dfs_loop neighbours targets depth_cap hard_cap st =
     (case ds_stack st of
        [] \<Rightarrow> (False, st)
      | (current, path, depth) # stack \<Rightarrow>
          let st = st\<lparr>ds_stack := stack\<rparr>
          in if full hard_cap st then (True, st)
             else if depth_cap \<le> depth
             then dfs_loop neighbours targets depth_cap hard_cap (st\<lparr>ds_visited := ds_visited st - {current}\<rparr>)
             else (case expand hard_cap targets path depth (nbs_of neighbours current) st of
                 (True, st) \<Rightarrow> (True, st)
               | (False, st) \<Rightarrow>
                   let st = (if \<forall>nb \<in> set (nbs_of neighbours current). nb \<in> ds_visited st
                     then st\<lparr>ds_visited := ds_visited st - {current}\<rparr> else st)
                   in dfs_loop neighbours targets depth_cap hard_cap st))"
  by pat_completeness auto

text \<open>A popped frame is replaced by frames one step deeper.\<close>

definition frame_measure :: "int \<Rightarrow> frame list \<Rightarrow> nat multiset" where
  "frame_measure depth_cap stack = image_mset (\<lambda>f. nat (depth_cap - snd (snd f))) (mset stack)"

lemma frame_measure_deeper:
  assumes "\<forall>f \<in> set new. snd (snd f) = depth + 1" and "depth < depth_cap"
  shows "(frame_measure depth_cap (new @ stack), frame_measure depth_cap ((c, p, depth) # stack)) \<in> mult less_than"
  unfolding frame_measure_def
  using assms one_step_implies_mult [of "{#nat (depth_cap - depth)#}" "image_mset (\<lambda>f. nat (depth_cap - snd (snd f))) (mset new)"
      less_than "image_mset (\<lambda>f. nat (depth_cap - snd (snd f))) (mset stack)"]
  by (simp add: union_commute)

lemma frame_measure_pop:
  "(frame_measure depth_cap stack, frame_measure depth_cap (f # stack)) \<in> mult less_than"
  unfolding frame_measure_def
  using one_step_implies_mult [of "{#nat (depth_cap - snd (snd f))#}" "{#}" less_than
      "image_mset (\<lambda>f. nat (depth_cap - snd (snd f))) (mset stack)"]
  by simp

lemma expand_measure:
  assumes "expand hard_cap targets path depth nbs (st\<lparr>ds_stack := stack\<rparr>) = (b, st')" and "depth < depth_cap"
  shows "(frame_measure depth_cap (ds_stack st'), frame_measure depth_cap ((c, p, depth) # stack)) \<in> mult less_than"
proof -
  from expand_stack [of hard_cap targets path depth nbs "st\<lparr>ds_stack := stack\<rparr>"] obtain new where
    "ds_stack st' = new @ stack" "\<forall>f \<in> set new. snd (snd f) = depth + 1" by (auto simp: assms(1))
  with assms(2) show ?thesis by (simp add: frame_measure_deeper)
qed

termination dfs_loop
proof (relation "inv_image (mult less_than) (\<lambda>(m, t, dc, hc, st). frame_measure dc (ds_stack st))", goal_cases)
  case 1
  show ?case by (intro wf_inv_image wf_mult wf_less_than)
next
  case (2 neighbours targets depth_cap hard_cap st)
  then show ?case using frame_measure_pop by (cases st) auto
next
  case (3 neighbours targets depth_cap hard_cap st)
  then show ?case by (auto simp: not_le intro: expand_measure [OF sym])
qed

declare dfs_loop.simps [simp del]

primrec enumerate_sources :: "neighbour_map \<Rightarrow> cell set \<Rightarrow> int \<Rightarrow> int \<Rightarrow> cell list \<Rightarrow> dfs_state \<Rightarrow> dfs_state" where
  "enumerate_sources neighbours targets depth_cap hard_cap [] st = st"
| "enumerate_sources neighbours targets depth_cap hard_cap (start # sources) st =
     (if start \<in> targets
      then let st = st\<lparr>ds_paths := ds_paths st @ [[start]]\<rparr>
        in if full hard_cap st then st else enumerate_sources neighbours targets depth_cap hard_cap sources st
      else case dfs_loop neighbours targets depth_cap hard_cap
          (st\<lparr>ds_stack := [(start, [start], 0)], ds_visited := insert start (ds_visited st)\<rparr>) of
            (True, st) \<Rightarrow> st
          | (False, st) \<Rightarrow> enumerate_sources neighbours targets depth_cap hard_cap sources
              (st\<lparr>ds_visited := ds_visited st - {start}\<rparr>))"

definition enumerate_simple_paths :: "neighbour_map \<Rightarrow> cell list \<Rightarrow> cell set \<Rightarrow> int \<Rightarrow> int \<Rightarrow> cell list list" where
  "enumerate_simple_paths neighbours sources targets depth_cap hard_cap =
     ds_paths (enumerate_sources neighbours targets depth_cap hard_cap sources
       \<lparr>ds_paths = [], ds_visited = {}, ds_stack = []\<rparr>)"

subsection \<open>The graph with virtual edges\<close>

fun list_pairs :: "'a list \<Rightarrow> ('a \<times> 'a) list" where
  "list_pairs [] = []"
| "list_pairs (a # cells) = map (Pair a) cells @ list_pairs cells"

definition add_virtual :: "cell \<times> cell \<Rightarrow> neighbour_map \<times> (cell \<times> cell) set \<Rightarrow> neighbour_map \<times> (cell \<times> cell) set" where
  "add_virtual ab st =
     (case ab of (a, b) \<Rightarrow> case st of (combined, virtual) \<Rightarrow>
        let pair = sort_pair a b
        in if pair \<in> virtual then (combined, virtual)
           else (add_nb b a (add_nb a b combined), insert pair virtual))"

definition copy_neighbours :: "neighbour_map \<Rightarrow> neighbour_map" where
  "copy_neighbours neighbours = fold (\<lambda>(src, nb). add_nb src nb) (seed_pairs neighbours) []"

definition build_enumeration_graph :: "(cell set \<Rightarrow> cell list) \<Rightarrow> neighbour_map \<Rightarrow> cell set list
    \<Rightarrow> neighbour_map \<times> (cell \<times> cell) set" where
  "build_enumeration_graph set_iter neighbours_seed observation_sets =
     fold (\<lambda>obs_cells. fold add_virtual (list_pairs (set_iter obs_cells))) observation_sets
       (copy_neighbours neighbours_seed, {})"

subsection \<open>Sanity checks\<close>

record 'f interval_enumeration =
  ie_map_id :: int
  ie_src_tag :: string
  ie_src_order :: int
  ie_dst_tag :: string
  ie_dst_order :: int
  ie_path_count :: nat
  ie_corridor_cells :: "cell set"
  ie_unsupported_edges :: nat
  ie_non_drivable_cells :: nat
  ie_deco_adjacent :: 'f
  ie_top_corridor_stable :: "bool option"
  ie_paths :: "cell list list"

definition compute_deco_adjacent_contamination :: "('f, 'z) fops_scheme \<Rightarrow> cell set \<Rightarrow> cell set \<Rightarrow> (cell \<rightharpoonup> string) \<Rightarrow> 'f" where
  "compute_deco_adjacent_contamination F corridor_cells anchor_cells cell_to_family =
     (let interior = corridor_cells - anchor_cells
      in if interior = {} then f_lit F 0
         else let hits = card (Set.filter (\<lambda>c. \<exists>n \<in> set (axis_neighbours c).
                   (case cell_to_family n of None \<Rightarrow> False | Some fam \<Rightarrow> classify_family fam = NON_DRIVABLE)) interior)
           in f_div F (f_lit F (of_nat hits)) (f_lit F (of_nat (card interior))))"

definition family_or_empty :: "(cell \<rightharpoonup> string) \<Rightarrow> cell \<Rightarrow> string" where
  "family_or_empty cell_to_family c = (case cell_to_family c of None \<Rightarrow> [] | Some f \<Rightarrow> f)"

definition unsupported_step :: "(cell \<rightharpoonup> string) \<Rightarrow> (cell \<times> cell) set \<Rightarrow> cell \<times> cell \<Rightarrow> bool" where
  "unsupported_step cell_to_family virtual_edges ab =
     (case ab of (a, b) \<Rightarrow> sort_pair a b \<notin> virtual_edges \<and>
        (classify_family (family_or_empty cell_to_family a) = NON_DRIVABLE \<or>
         classify_family (family_or_empty cell_to_family b) = NON_DRIVABLE))"

definition evaluate_corridor_sanity :: "('f, 'z) fops_scheme \<Rightarrow> cell list list \<Rightarrow> (cell \<rightharpoonup> string) \<Rightarrow> (cell \<times> cell) set
    \<Rightarrow> cell set \<Rightarrow> 'f interval_enumeration \<Rightarrow> 'f interval_enumeration" where
  "evaluate_corridor_sanity F paths cell_to_family virtual_edges anchor_cells iv =
     (let corridor_cells = \<Union> (set (map set paths))
      in iv\<lparr>ie_corridor_cells := corridor_cells,
            ie_unsupported_edges := sum_list (map (\<lambda>path.
              length (filter (unsupported_step cell_to_family virtual_edges) (steps_of path))) paths),
            ie_non_drivable_cells := card (Set.filter (\<lambda>c.
              classify_family (family_or_empty cell_to_family c) = NON_DRIVABLE) corridor_cells),
            ie_deco_adjacent := compute_deco_adjacent_contamination F corridor_cells anchor_cells cell_to_family\<rparr>)"

definition passes_sanity_1_unsupported :: "'f interval_enumeration \<Rightarrow> bool" where
  "passes_sanity_1_unsupported iv = (ie_unsupported_edges iv = 0)"

definition passes_sanity_2_non_drivable :: "'f interval_enumeration \<Rightarrow> bool" where
  "passes_sanity_2_non_drivable iv = (ie_non_drivable_cells iv = 0)"

definition passes_sanity_3_deco_adjacent :: "('f, 'z) fops_scheme \<Rightarrow> 'f interval_enumeration \<Rightarrow> bool" where
  "passes_sanity_3_deco_adjacent F iv = f_le F (ie_deco_adjacent iv) (f_lit F DECO_ADJACENT_CONTAMINATION_CAP)"

definition passes_sanity_4_stable :: "'f interval_enumeration \<Rightarrow> bool" where
  "passes_sanity_4_stable iv = (ie_top_corridor_stable iv \<noteq> Some False)"

definition top_ranked_path :: "cell list list \<Rightarrow> cell list option" where
  "top_ranked_path paths = (case sort_key (\<lambda>p. (length p, p)) paths of [] \<Rightarrow> None | p # _ \<Rightarrow> Some p)"

definition assess_path_stability :: "(cell set \<Rightarrow> cell list) \<Rightarrow> neighbour_map \<Rightarrow> cell set list \<Rightarrow> cell set \<Rightarrow> cell set
    \<Rightarrow> int \<Rightarrow> cell list option \<Rightarrow> bool option" where
  "assess_path_stability set_iter neighbours_seed observations sources targets depth_cap baseline_top =
     (if length observations < 2 then None
      else if baseline_top = None then None
      else Some (\<forall>i \<in> set [0..<min STABILITY_PERTURBATION_CAP (length observations)].
        let held_out = take i observations @ drop (i + 1) observations;
            combined = fst (build_enumeration_graph set_iter neighbours_seed held_out);
            paths = enumerate_simple_paths combined (set_iter sources) targets depth_cap P95_PATH_COUNT_CAP
        in top_ranked_path paths = baseline_top))"


subsection \<open>The plan of a map's intervals\<close>

record interval_plan =
  ip_src_tag :: string
  ip_src_order :: int
  ip_dst_tag :: string
  ip_dst_order :: int
  ip_sources :: "cell set"
  ip_targets :: "cell set"

definition plan_between :: "anchor_set \<Rightarrow> anchor_set \<Rightarrow> interval_plan" where
  "plan_between a b =
     \<lparr>ip_src_tag = as_tag a, ip_src_order = as_order a, ip_dst_tag = as_tag b, ip_dst_order = as_order b,
      ip_sources = as_cells a, ip_targets = as_cells b\<rparr>"

definition plan_from_spawn :: "cell set \<Rightarrow> anchor_set \<Rightarrow> interval_plan" where
  "plan_from_spawn spawn_cells b =
     \<lparr>ip_src_tag = ''Spawn'', ip_src_order = 0, ip_dst_tag = as_tag b, ip_dst_order = as_order b,
      ip_sources = spawn_cells, ip_targets = as_cells b\<rparr>"

definition first_goal :: "anchor_set list \<Rightarrow> anchor_set option" where
  "first_goal anchor_sets = find (\<lambda>a. as_tag a = ''Goal'') anchor_sets"

definition plan_intervals :: "anchor_set list \<Rightarrow> interval_plan list" where
  "plan_intervals anchor_sets =
     (let spawn_cells = cells_tagged SPAWN_TAGS anchor_sets;
          plain_cps = filter (\<lambda>a. as_tag a = ''Checkpoint'') anchor_sets;
          linked_cps = filter (\<lambda>a. as_tag a = ''LinkedCheckpoint'') anchor_sets;
          goal = first_goal anchor_sets;
          others = filter (\<lambda>a. as_tag a \<notin> set (SPAWN_TAGS @ [''Checkpoint'', ''LinkedCheckpoint'', ''Goal''])) anchor_sets
      in if spawn_cells = {} then []
         else case (goal, linked_cps \<noteq> [] \<and> plain_cps = []) of
           (Some goal, True) \<Rightarrow>
             let chain = sort_key as_order linked_cps
             in plan_from_spawn spawn_cells (hd chain) # map (\<lambda>(a, b). plan_between a b) (steps_of chain) @
                [plan_between (List.last chain) goal]
         | _ \<Rightarrow> map (plan_from_spawn spawn_cells)
             (plain_cps @ linked_cps @ (case goal of None \<Rightarrow> [] | Some g \<Rightarrow> [g]) @ others))"

subsection \<open>Enumeration of a map\<close>

definition enumerate_interval :: "('f, 'z) fops_scheme \<Rightarrow> (cell set \<Rightarrow> cell list) \<Rightarrow> int \<Rightarrow> int \<Rightarrow> bool
    \<Rightarrow> neighbour_map \<Rightarrow> cell set list \<Rightarrow> (cell \<rightharpoonup> string) \<Rightarrow> cell set \<Rightarrow> interval_plan \<Rightarrow> 'f interval_enumeration" where
  "enumerate_interval F set_iter map_id depth_cap keep_paths neighbours observation_sets cell_to_family all_anchor_cells plan =
     (let (combined, virtual_edges) = build_enumeration_graph set_iter neighbours observation_sets;
          paths = enumerate_simple_paths combined (set_iter (ip_sources plan)) (ip_targets plan) depth_cap P95_PATH_COUNT_CAP;
          iv = \<lparr>ie_map_id = map_id, ie_src_tag = ip_src_tag plan, ie_src_order = ip_src_order plan,
            ie_dst_tag = ip_dst_tag plan, ie_dst_order = ip_dst_order plan, ie_path_count = length paths,
            ie_corridor_cells = {}, ie_unsupported_edges = 0, ie_non_drivable_cells = 0, ie_deco_adjacent = f_lit F 0,
            ie_top_corridor_stable = None, ie_paths = (if keep_paths then paths else [])\<rparr>;
          iv = evaluate_corridor_sanity F paths cell_to_family virtual_edges all_anchor_cells iv
      in iv\<lparr>ie_top_corridor_stable := assess_path_stability set_iter neighbours observation_sets
             (ip_sources plan) (ip_targets plan) depth_cap (top_ranked_path paths)\<rparr>)"

definition enumerate_map :: "('f, 'z) gops_scheme \<Rightarrow> (cell set \<Rightarrow> cell list) \<Rightarrow> (string \<Rightarrow> json_file) \<Rightarrow> 'f map_rows
    \<Rightarrow> int \<Rightarrow> int \<Rightarrow> bool \<Rightarrow> sidecar_error + 'f interval_enumeration list" where
  "enumerate_map F set_iter read q map_id depth_cap keep_paths =
     (let grid_rows = fetch_map_grid_blocks (mq_grid q)
      in if grid_rows = [] then Inr []
         else case build_cell_graph grid_rows of (cell_to_family, g) \<Rightarrow>
           let anchor_sets = load_anchor_sets F q cell_to_family
           in if anchor_sets = [] then Inr []
              else let plans = plan_intervals anchor_sets
                in if plans = [] then Inr []
                   else case build_observations read anchor_sets (mq_replays q) of
                     Inl e \<Rightarrow> Inl e
                   | Inr observations \<Rightarrow>
                       Inr (map (enumerate_interval F set_iter map_id depth_cap keep_paths (gr_neighbours g)
                         (map ob_cells observations) (map_of cell_to_family) (\<Union>a \<in> set anchor_sets. as_cells a)) plans))"

definition enumerate_set :: "('f, 'z) gops_scheme \<Rightarrow> (cell set \<Rightarrow> cell list) \<Rightarrow> (string \<Rightarrow> json_file)
    \<Rightarrow> (int \<rightharpoonup> 'f map_rows) \<Rightarrow> int list \<Rightarrow> int \<Rightarrow> (int \<times> 'f interval_enumeration list) list" where
  "enumerate_set F set_iter read db map_ids depth_cap =
     fold (\<lambda>mid report. AList.update mid
       (case db mid of None \<Rightarrow> []
        | Some q \<Rightarrow> (case enumerate_map F set_iter read q mid depth_cap False of Inl _ \<Rightarrow> [] | Inr ivs \<Rightarrow> ivs)) report) map_ids []"

subsection \<open>The report\<close>

type_synonym 'f enumeration_report = "(int \<times> 'f interval_enumeration list) list"

definition all_intervals :: "'f enumeration_report \<Rightarrow> 'f interval_enumeration list" where
  "all_intervals per_map = concat (map snd per_map)"

definition path_counts :: "'f enumeration_report \<Rightarrow> int list" where
  "path_counts per_map = map (\<lambda>iv. int (ie_path_count iv)) (all_intervals per_map)"

definition median_path_count :: "('f, 'z) fops_scheme \<Rightarrow> 'f enumeration_report \<Rightarrow> 'f" where
  "median_path_count F per_map =
     (let counts = sort (path_counts per_map); n = length counts
      in if n = 0 then f_lit F 0
         else if odd n then f_lit F (of_int (counts ! (n div 2)))
         else f_div F (f_lit F (of_int (counts ! (n div 2 - 1) + counts ! (n div 2)))) (f_lit F 2))"

definition p95_path_count :: "'f enumeration_report \<Rightarrow> int" where
  "p95_path_count per_map =
     (let counts = sort (path_counts per_map)
      in if counts = [] then 0 else counts ! (max 0 (min (length counts - 1) (length counts * 95 div 100))))"

definition passes_84_median :: "('f, 'z) fops_scheme \<Rightarrow> 'f enumeration_report \<Rightarrow> bool" where
  "passes_84_median F per_map = f_le F (median_path_count F per_map) (f_lit F (of_int MEDIAN_PATH_COUNT_CAP))"

definition passes_84_p95 :: "'f enumeration_report \<Rightarrow> bool" where
  "passes_84_p95 per_map = (p95_path_count per_map \<le> P95_PATH_COUNT_CAP)"

definition passes_83_unsupported :: "'f enumeration_report \<Rightarrow> bool" where
  "passes_83_unsupported per_map = (\<forall>iv \<in> set (all_intervals per_map). passes_sanity_1_unsupported iv)"

definition passes_83_non_drivable :: "'f enumeration_report \<Rightarrow> bool" where
  "passes_83_non_drivable per_map = (\<forall>iv \<in> set (all_intervals per_map). passes_sanity_2_non_drivable iv)"

definition passes_83_deco_adjacent :: "('f, 'z) fops_scheme \<Rightarrow> 'f enumeration_report \<Rightarrow> bool" where
  "passes_83_deco_adjacent F per_map = (\<forall>iv \<in> set (all_intervals per_map). passes_sanity_3_deco_adjacent F iv)"

definition passes_83_stable :: "'f enumeration_report \<Rightarrow> bool" where
  "passes_83_stable per_map = (\<forall>iv \<in> set (all_intervals per_map). passes_sanity_4_stable iv)"


subsection \<open>Enumerated paths\<close>

lemma steps_of_snoc: "p \<noteq> [] \<Longrightarrow> steps_of (p @ [x]) = steps_of p @ [(List.last p, x)]"
  by (induction p rule: steps_of.induct) auto

text \<open>A path under construction, and a finished one.\<close>

definition walk_ok :: "neighbour_map \<Rightarrow> cell set \<Rightarrow> cell set \<Rightarrow> cell list \<Rightarrow> bool" where
  "walk_ok m S T p \<longleftrightarrow> p \<noteq> [] \<and> hd p \<in> S \<and> set (steps_of p) \<subseteq> nb_rel m \<and> set p \<inter> T = {}"

definition path_ok :: "neighbour_map \<Rightarrow> cell set \<Rightarrow> cell set \<Rightarrow> int \<Rightarrow> cell list \<Rightarrow> bool" where
  "path_ok m S T depth_cap p \<longleftrightarrow>
     p \<noteq> [] \<and> hd p \<in> S \<and> List.last p \<in> T \<and> set (steps_of p) \<subseteq> nb_rel m \<and> set (butlast p) \<inter> T = {} \<and>
     int (length p) \<le> max 1 (depth_cap + 1)"

definition frame_ok :: "neighbour_map \<Rightarrow> cell set \<Rightarrow> cell set \<Rightarrow> frame \<Rightarrow> bool" where
  "frame_ok m S T f \<longleftrightarrow>
     walk_ok m S T (fst (snd f)) \<and> List.last (fst (snd f)) = fst f \<and> int (length (fst (snd f))) = snd (snd f) + 1"

definition dfs_ok :: "neighbour_map \<Rightarrow> cell set \<Rightarrow> cell set \<Rightarrow> int \<Rightarrow> dfs_state \<Rightarrow> bool" where
  "dfs_ok m S T depth_cap st \<longleftrightarrow>
     (\<forall>p \<in> set (ds_paths st). path_ok m S T depth_cap p) \<and> (\<forall>f \<in> set (ds_stack st). frame_ok m S T f)"

lemma walk_snoc:
  assumes "frame_ok m S T (c, path, depth)" and "nb \<in> set (nbs_of m c)" and "depth < depth_cap"
  shows "nb \<in> T \<Longrightarrow> path_ok m S T depth_cap (path @ [nb])"
    and "nb \<notin> T \<Longrightarrow> frame_ok m S T (nb, path @ [nb], depth + 1)"
  using assms by (auto simp: frame_ok_def walk_ok_def path_ok_def nb_rel_def steps_of_snoc)

lemma expand_ok:
  assumes frame: "frame_ok m S T (c, path, depth)" and depth: "depth < depth_cap"
  shows "set nbs \<subseteq> set (nbs_of m c) \<Longrightarrow> dfs_ok m S T depth_cap st \<Longrightarrow>
    dfs_ok m S T depth_cap (snd (expand hard_cap T path depth nbs st))"
proof (induction nbs arbitrary: st)
  case (Cons nb nbs)
  then have nb: "nb \<in> set (nbs_of m c)" and nbs: "set nbs \<subseteq> set (nbs_of m c)" by auto
  note new = walk_snoc [OF frame nb depth]
  consider "nb \<in> ds_visited st" | "nb \<notin> ds_visited st" "nb \<in> T" | "nb \<notin> ds_visited st" "nb \<notin> T" by blast
  then show ?case
  proof cases
    case 1
    then show ?thesis using Cons.IH [OF nbs Cons.prems(2)] by simp
  next
    case 2
    let ?st = "st\<lparr>ds_paths := ds_paths st @ [path @ [nb]]\<rparr>"
    have "dfs_ok m S T depth_cap ?st" using Cons.prems(2) new(1) [OF 2(2)] by (auto simp: dfs_ok_def)
    with 2 show ?thesis using Cons.IH [OF nbs] by (simp add: Let_def)
  next
    case 3
    let ?st = "st\<lparr>ds_visited := insert nb (ds_visited st), ds_stack := (nb, path @ [nb], depth + 1) # ds_stack st\<rparr>"
    have "dfs_ok m S T depth_cap ?st" using Cons.prems(2) new(2) [OF 3(2)] by (simp add: dfs_ok_def)
    with 3 show ?thesis using Cons.IH [OF nbs] by simp
  qed
qed simp

lemma expand_full:
  "\<not> full hard_cap st \<Longrightarrow> expand hard_cap T path depth nbs st = (b, st') \<Longrightarrow>
     (if b then int (length (ds_paths st')) = hard_cap else \<not> full hard_cap st')"
proof (induction nbs arbitrary: st)
  case (Cons nb nbs)
  let ?found = "st\<lparr>ds_paths := ds_paths st @ [path @ [nb]]\<rparr>"
  let ?pushed = "st\<lparr>ds_visited := insert nb (ds_visited st), ds_stack := (nb, path @ [nb], depth + 1) # ds_stack st\<rparr>"
  show ?case
    using Cons.IH [of st] Cons.IH [of ?found] Cons.IH [of ?pushed] Cons.prems
    by (auto simp: Let_def full_def split: if_splits)
qed simp

text \<open>What the loop keeps: sound paths and frames, and room for a path unless it returned.\<close>

definition roomy :: "int \<Rightarrow> dfs_state \<Rightarrow> bool" where
  "roomy hard_cap st \<longleftrightarrow> \<not> full hard_cap st \<or> ds_paths st = []"

definition capped :: "int \<Rightarrow> dfs_state \<Rightarrow> bool" where
  "capped hard_cap st \<longleftrightarrow> int (length (ds_paths st)) \<le> max 1 hard_cap"

lemma roomy_capped: "roomy hard_cap st \<Longrightarrow> capped hard_cap st"
  by (auto simp: roomy_def capped_def full_def)

lemma dfs_loop_ok:
  "dfs_ok m S T depth_cap st \<Longrightarrow> roomy hard_cap st \<Longrightarrow> dfs_loop m T depth_cap hard_cap st = (b, st') \<Longrightarrow>
     dfs_ok m S T depth_cap st' \<and> (if b then capped hard_cap st' else roomy hard_cap st')"
proof (induction m T depth_cap hard_cap st arbitrary: b st' rule: dfs_loop.induct)
  case (1 m T depth_cap hard_cap st)
  show ?case
  proof (cases "ds_stack st")
    case Nil
    then show ?thesis using "1.prems" by (subst (asm) dfs_loop.simps) auto
  next
    case (Cons f stack)
    obtain c path depth where f: "f = (c, path, depth)" by (cases f)
    let ?st = "st\<lparr>ds_stack := stack\<rparr>"
    have ok: "dfs_ok m S T depth_cap ?st" "frame_ok m S T (c, path, depth)" "roomy hard_cap ?st"
      using "1.prems"(1,2) by (auto simp: dfs_ok_def roomy_def full_def Cons f)
    note loop = "1.prems"(3) [unfolded dfs_loop.simps [of m T depth_cap hard_cap st] Cons f]
    show ?thesis
    proof (cases "full hard_cap ?st")
      case True
      then show ?thesis using loop ok(1,3) roomy_capped by (auto simp: Let_def)
    next
      case room: False
      show ?thesis
      proof (cases "depth_cap \<le> depth")
        case True
        let ?st1 = "?st\<lparr>ds_visited := ds_visited ?st - {c}\<rparr>"
        have "dfs_ok m S T depth_cap ?st1" "roomy hard_cap ?st1"
          using ok by (simp_all add: dfs_ok_def roomy_def full_def)
        with True room loop show ?thesis
          using "1.IH"(1) [OF Cons f [symmetric] refl refl room True] by (simp add: Let_def)
      next
        case False
        obtain b1 st1 where e: "expand hard_cap T path depth (nbs_of m c) ?st = (b1, st1)" by fastforce
        have ok1: "dfs_ok m S T depth_cap st1"
          using expand_ok [OF ok(2) _ subset_refl ok(1), of hard_cap] False e by simp
        note full1 = expand_full [OF room e]
        let ?st2 = "if \<forall>nb \<in> set (nbs_of m c). nb \<in> ds_visited st1 then st1\<lparr>ds_visited := ds_visited st1 - {c}\<rparr> else st1"
        show ?thesis
        proof (cases b1)
          case True
          then show ?thesis using loop room False e ok1 full1 by (auto simp: Let_def capped_def)
        next
          case b1: False
          then have b1': "b1 = False" by simp
          have "dfs_ok m S T depth_cap ?st2" "roomy hard_cap ?st2"
            using ok1 full1 b1 by (simp_all add: dfs_ok_def roomy_def full_def)
          moreover have "dfs_loop m T depth_cap hard_cap ?st2 = (b, st')"
            using loop room False e b1 by (simp add: Let_def)
          ultimately show ?thesis
            by (rule "1.IH"(2) [OF Cons f [symmetric] refl refl room False e [symmetric] b1' refl])
        qed
      qed
    qed
  qed
qed


lemma enumerate_sources_ok:
  "dfs_ok m S T depth_cap st \<Longrightarrow> roomy hard_cap st \<Longrightarrow> set sources \<subseteq> S \<Longrightarrow>
     dfs_ok m S T depth_cap (enumerate_sources m T depth_cap hard_cap sources st) \<and>
     capped hard_cap (enumerate_sources m T depth_cap hard_cap sources st)"
proof (induction sources arbitrary: st)
  case Nil
  then show ?case using roomy_capped by simp
next
  case (Cons start sources)
  show ?case
  proof (cases "start \<in> T")
    case True
    let ?st = "st\<lparr>ds_paths := ds_paths st @ [[start]]\<rparr>"
    have ok: "dfs_ok m S T depth_cap ?st"
      using Cons.prems(1,3) True by (auto simp: dfs_ok_def path_ok_def)
    have "capped hard_cap ?st" using Cons.prems(2) by (auto simp: capped_def roomy_def full_def)
    then show ?thesis
      using True ok Cons.IH [OF ok] Cons.prems(3) by (simp add: Let_def roomy_def)
  next
    case False
    let ?st = "st\<lparr>ds_stack := [(start, [start], 0)], ds_visited := insert start (ds_visited st)\<rparr>"
    obtain b st1 where loop: "dfs_loop m T depth_cap hard_cap ?st = (b, st1)" by fastforce
    have "dfs_ok m S T depth_cap ?st" "roomy hard_cap ?st"
      using Cons.prems False by (auto simp: dfs_ok_def frame_ok_def walk_ok_def roomy_def full_def)
    note ok1 = dfs_loop_ok [OF this loop]
    let ?st2 = "st1\<lparr>ds_visited := ds_visited st1 - {start}\<rparr>"
    have "dfs_ok m S T depth_cap ?st2" "\<not> b \<Longrightarrow> roomy hard_cap ?st2"
      using ok1 by (simp_all add: dfs_ok_def roomy_def full_def)
    then show ?thesis
      using False loop ok1 Cons.IH [of ?st2] Cons.prems(3) by (cases b) simp_all
  qed
qed

lemma enumerate_simple_paths_ok:
  "(\<forall>p \<in> set (enumerate_simple_paths m sources T depth_cap hard_cap). path_ok m (set sources) T depth_cap p) \<and>
   int (length (enumerate_simple_paths m sources T depth_cap hard_cap)) \<le> max 1 hard_cap"
proof -
  have "dfs_ok m (set sources) T depth_cap \<lparr>ds_paths = [], ds_visited = {}, ds_stack = []\<rparr>"
    and "roomy hard_cap \<lparr>ds_paths = [], ds_visited = {}, ds_stack = []\<rparr>"
    by (simp_all add: dfs_ok_def roomy_def)
  from enumerate_sources_ok [OF this subset_refl] show ?thesis
    by (simp add: enumerate_simple_paths_def dfs_ok_def capped_def)
qed

subsection \<open>Edges of the enumeration graph\<close>

lemma nb_rel_add_nb: "nb_rel (add_nb a b m) = insert (a, b) (nb_rel m)"
  by (auto simp: nb_rel_def nbs_of_add_nb split: if_splits)

lemma nb_rel_copy: "nb_rel (fold (\<lambda>(src, nb). add_nb src nb) ps m) = set ps \<union> nb_rel m"
  by (induction ps arbitrary: m) (auto simp: nb_rel_add_nb)

lemma list_pairs_mem: "(a, b) \<in> set (list_pairs xs) \<Longrightarrow> a \<in> set xs \<and> b \<in> set xs"
  by (induction xs) auto

lemma list_pairs_all: "a \<in> set xs \<Longrightarrow> b \<in> set xs \<Longrightarrow> a \<noteq> b \<Longrightarrow> (a, b) \<in> set (list_pairs xs) \<or> (b, a) \<in> set (list_pairs xs)"
  by (induction xs) auto

text \<open>The virtual pairs and the edges added for them.\<close>

definition virtual_inv :: "(cell \<times> cell) set \<Rightarrow> (cell \<times> cell) set \<Rightarrow> neighbour_map \<times> (cell \<times> cell) set \<Rightarrow> bool" where
  "virtual_inv seed ps st \<longleftrightarrow>
     snd st = (\<lambda>(a, b). sort_pair a b) ` ps \<and> nb_rel (fst st) = seed \<union> ps \<union> ps\<inverse>"

lemma sort_pair_image:
  "sort_pair a b \<in> (\<lambda>(a, b). sort_pair a b) ` ps \<longleftrightarrow> (a, b) \<in> ps \<or> (b, a) \<in> ps"
  by (auto simp: sort_pair_eq intro: rev_image_eqI)

lemma add_virtual_inv:
  assumes "virtual_inv seed ps st"
  shows "virtual_inv seed (insert (a, b) ps) (add_virtual (a, b) st)"
proof -
  obtain m v where st: "st = (m, v)" by (cases st)
  have v: "v = (\<lambda>(a, b). sort_pair a b) ` ps" and m: "nb_rel m = seed \<union> ps \<union> ps\<inverse>"
    using assms by (simp_all add: virtual_inv_def st)
  show ?thesis
  proof (cases "sort_pair a b \<in> v")
    case True
    then have "(a, b) \<in> ps \<or> (b, a) \<in> ps" unfolding v sort_pair_image .
    then have "seed \<union> insert (a, b) ps \<union> (insert (a, b) ps)\<inverse> = seed \<union> ps \<union> ps\<inverse>" by blast
    with True show ?thesis using m by (auto simp: virtual_inv_def add_virtual_def st v)
  next
    case False
    then show ?thesis
      by (simp add: virtual_inv_def add_virtual_def st Let_def nb_rel_add_nb m v) blast
  qed
qed

lemma add_virtuals_inv:
  "virtual_inv seed ps st \<Longrightarrow> virtual_inv seed (ps \<union> set qs) (fold add_virtual qs st)"
proof (induction qs arbitrary: ps st)
  case (Cons q qs)
  obtain a b where q: "q = (a, b)" by (cases q)
  from Cons.IH [OF add_virtual_inv [OF Cons.prems, of a b]] show ?case by (simp add: q)
qed simp

definition virtual_pairs :: "(cell set \<Rightarrow> cell list) \<Rightarrow> cell set list \<Rightarrow> (cell \<times> cell) set" where
  "virtual_pairs set_iter sets = (\<Union>S \<in> set sets. set (list_pairs (set_iter S)))"

lemma build_enumeration_graph_inv:
  assumes "distinct (map fst m)"
  shows "virtual_inv (nb_rel m) (virtual_pairs set_iter sets) (build_enumeration_graph set_iter m sets)"
proof -
  have "virtual_inv (nb_rel m) {} (copy_neighbours m, {})"
    using nb_rel_copy [of "seed_pairs m" "[]"] seed_pairs_set [OF assms]
    by (simp add: virtual_inv_def copy_neighbours_def nb_rel_def nbs_of_def)
  then have "virtual_inv (nb_rel m) ({} \<union> set (concat (map (\<lambda>S. list_pairs (set_iter S)) sets)))
      (fold add_virtual (concat (map (\<lambda>S. list_pairs (set_iter S)) sets)) (copy_neighbours m, {}))"
    by (rule add_virtuals_inv)
  then show ?thesis by (simp add: build_enumeration_graph_def fold_concat_map virtual_pairs_def)
qed


lemma virtual_pairs_cells:
  assumes "(a, b) \<in> virtual_pairs set_iter sets \<union> (virtual_pairs set_iter sets)\<inverse>"
    and "\<And>S. S \<in> set sets \<Longrightarrow> set (set_iter S) = S"
  shows "\<exists>S \<in> set sets. a \<in> S \<and> b \<in> S"
proof -
  from assms(1) obtain S where S: "S \<in> set sets" "(a, b) \<in> set (list_pairs (set_iter S)) \<or> (b, a) \<in> set (list_pairs (set_iter S))"
    unfolding virtual_pairs_def by blast
  from S(2) have "a \<in> set (set_iter S) \<and> b \<in> set (set_iter S)"
    using list_pairs_mem [of a b "set_iter S"] list_pairs_mem [of b a "set_iter S"] by argo
  with S(1) show ?thesis unfolding assms(2) [OF S(1)] by blast
qed

lemma seed_step_supported:
  assumes "build_cell_graph rows = (fams, g)" and "(a, b) \<in> nb_rel (gr_neighbours g)"
  shows "\<not> unsupported_step (map_of fams) v (a, b)"
proof -
  have "drivable_at rows a" "drivable_at rows b"
    using assms(2) unfolding nb_rel_graph [OF assms(1)] seed_edges_def by simp_all
  then show ?thesis
    unfolding cell_families_drivable [symmetric] build_cell_graph_inv(1) [OF assms(1), symmetric]
    by (auto simp: unsupported_step_def family_or_empty_def)
qed

text \<open>Steps of the combined graph pass the first sanity check.\<close>

lemma combined_step_supported:
  assumes "build_cell_graph rows = (fams, g)"
    and "build_enumeration_graph set_iter (gr_neighbours g) sets = (combined, virtual)" and "(a, b) \<in> nb_rel combined"
  shows "\<not> unsupported_step (map_of fams) virtual (a, b)"
proof (cases "sort_pair a b \<in> virtual")
  case True
  then show ?thesis by (simp add: unsupported_step_def)
next
  case False
  have inv: "virtual_inv (nb_rel (gr_neighbours g)) (virtual_pairs set_iter sets) (combined, virtual)"
    using build_enumeration_graph_inv [OF neighbours_distinct [OF assms(1)], of set_iter sets] assms(2) by simp
  have "(a, b) \<in> nb_rel (gr_neighbours g)"
    using assms(3) False inv sort_pair_image [of a b "virtual_pairs set_iter sets"] by (auto simp: virtual_inv_def)
  then show ?thesis by (rule seed_step_supported [OF assms(1)])
qed

lemma sanity_1_holds:
  assumes "\<And>p ab. p \<in> set paths \<Longrightarrow> ab \<in> set (steps_of p) \<Longrightarrow> \<not> unsupported_step fam virtual ab"
  shows "ie_unsupported_edges (evaluate_corridor_sanity F paths fam virtual anchors iv) = 0"
proof -
  have "filter (unsupported_step fam virtual) (steps_of p) = []" if "p \<in> set paths" for p
    using assms [OF that] by (simp add: filter_empty_conv)
  then have "sum_list (map (\<lambda>p. length (filter (unsupported_step fam virtual) (steps_of p))) paths) = 0"
    by (simp add: sum_list_eq_0_iff)
  then show ?thesis by (simp add: evaluate_corridor_sanity_def Let_def)
qed

definition linked_chain :: "anchor_set list \<Rightarrow> anchor_set list" where
  "linked_chain asets = sort_key as_order (filter (\<lambda>a. as_tag a = ''LinkedCheckpoint'') asets)"

lemma plan_intervals_linked:
  assumes "cells_tagged SPAWN_TAGS asets \<noteq> {}" and "first_goal asets = Some g" and "linked_chain asets \<noteq> []"
    and "\<forall>a \<in> set asets. as_tag a \<noteq> ''Checkpoint''"
  shows "plan_intervals asets = plan_from_spawn (cells_tagged SPAWN_TAGS asets) (hd (linked_chain asets)) #
    map (\<lambda>(a, b). plan_between a b) (steps_of (linked_chain asets)) @ [plan_between (List.last (linked_chain asets)) g]"
proof -
  have "filter (\<lambda>a. as_tag a = ''Checkpoint'') asets = []" using assms(4) by (simp add: filter_empty_conv)
  moreover have "filter (\<lambda>a. as_tag a = ''LinkedCheckpoint'') asets \<noteq> []" using assms(3) by (auto simp: linked_chain_def)
  ultimately show ?thesis using assms(1,2) by (simp add: plan_intervals_def Let_def linked_chain_def)
qed

lemma plan_intervals_unlinked:
  assumes "first_goal asets = None \<or> linked_chain asets = [] \<or> (\<exists>a \<in> set asets. as_tag a = ''Checkpoint'')"
  shows "plan_intervals asets = [] \<or> (\<exists>ts. plan_intervals asets = map (plan_from_spawn (cells_tagged SPAWN_TAGS asets)) ts)"
proof (cases "cells_tagged SPAWN_TAGS asets = {}")
  case False
  have "linked_chain asets = [] \<longleftrightarrow> filter (\<lambda>a. as_tag a = ''LinkedCheckpoint'') asets = []"
    by (simp add: linked_chain_def)
  moreover have "(\<exists>a \<in> set asets. as_tag a = ''Checkpoint'') \<longleftrightarrow> filter (\<lambda>a. as_tag a = ''Checkpoint'') asets \<noteq> []"
    by (auto simp: filter_empty_conv)
  ultimately have "first_goal asets = None \<or>
      \<not> (filter (\<lambda>a. as_tag a = ''LinkedCheckpoint'') asets \<noteq> [] \<and> filter (\<lambda>a. as_tag a = ''Checkpoint'') asets = [])"
    using assms by argo
  with False show ?thesis
    unfolding plan_intervals_def Let_def by (cases "first_goal asets") (auto simp del: map_append)
qed (simp add: plan_intervals_def)

lemma steps_of_fst: "ab \<in> set (steps_of xs) \<Longrightarrow> fst ab \<in> set xs"
  by (induction xs rule: steps_of.induct) auto

lemma plan_cells:
  assumes plan: "plan \<in> set (plan_intervals asets)"
  shows "ip_sources plan = cells_tagged SPAWN_TAGS asets \<or> (\<exists>a \<in> set asets. ip_sources plan = as_cells a)"
proof (cases "first_goal asets = None \<or> linked_chain asets = [] \<or> (\<exists>a \<in> set asets. as_tag a = ''Checkpoint'')")
  case True
  from plan_intervals_unlinked [OF this] plan show ?thesis by (auto simp: plan_from_spawn_def)
next
  case False
  then obtain g where g: "first_goal asets = Some g" "linked_chain asets \<noteq> []" "\<forall>a \<in> set asets. as_tag a \<noteq> ''Checkpoint''"
    by auto
  have sub: "set (linked_chain asets) \<subseteq> set asets" by (auto simp: linked_chain_def)
  have "cells_tagged SPAWN_TAGS asets \<noteq> {}" using plan by (auto simp: plan_intervals_def)
  with plan consider "plan = plan_from_spawn (cells_tagged SPAWN_TAGS asets) (hd (linked_chain asets))"
    | ab where "ab \<in> set (steps_of (linked_chain asets))" "plan = plan_between (fst ab) (snd ab)"
    | "plan = plan_between (List.last (linked_chain asets)) g"
    unfolding plan_intervals_linked [OF \<open>cells_tagged SPAWN_TAGS asets \<noteq> {}\<close> g] by force
  then show ?thesis
  proof cases
    case (2 ab)
    then show ?thesis using steps_of_fst [OF 2(1)] sub by (auto simp: plan_between_def)
  next
    case 3
    then show ?thesis using last_in_set [OF g(2)] sub by (auto simp: plan_between_def)
  qed (simp add: plan_from_spawn_def)
qed

lemma top_ranked_path_least:
  "top_ranked_path paths = Some p \<Longrightarrow> p \<in> set paths \<and> (\<forall>q \<in> set paths. (length p, p) \<le> (length q, q))"
proof -
  assume "top_ranked_path paths = Some p"
  then obtain ps where ps: "sort_key (\<lambda>p. (length p, p)) paths = p # ps"
    by (auto simp: top_ranked_path_def split: list.splits)
  have "sorted (map (\<lambda>p. (length p, p)) (p # ps))" unfolding ps [symmetric] by (rule sorted_sort_key)
  moreover have "set paths = set (p # ps)" unfolding ps [symmetric] by simp
  ultimately show ?thesis by auto
qed


lemma enumerate_interval_paths:
  assumes iv: "iv = enumerate_interval F set_iter map_id depth_cap True neighbours sets fam anchors plan"
    and graph: "build_enumeration_graph set_iter neighbours sets = (combined, virtual)"
    and src: "set (set_iter (ip_sources plan)) = ip_sources plan"
  shows "\<forall>p \<in> set (ie_paths iv). path_ok combined (ip_sources plan) (ip_targets plan) depth_cap p"
    and "ie_path_count iv = length (ie_paths iv)" and "int (ie_path_count iv) \<le> P95_PATH_COUNT_CAP"
    and "ie_unsupported_edges iv =
      ie_unsupported_edges (evaluate_corridor_sanity F (ie_paths iv) fam virtual anchors iv)"
proof -
  define paths where
    "paths = enumerate_simple_paths combined (set_iter (ip_sources plan)) (ip_targets plan) depth_cap P95_PATH_COUNT_CAP"
  have p: "ie_paths iv = paths" "ie_path_count iv = length paths"
    by (simp_all add: iv enumerate_interval_def graph paths_def evaluate_corridor_sanity_def Let_def)
  note ok = enumerate_simple_paths_ok [of combined "set_iter (ip_sources plan)" "ip_targets plan" depth_cap P95_PATH_COUNT_CAP,
      folded paths_def, unfolded src]
  show "\<forall>p \<in> set (ie_paths iv). path_ok combined (ip_sources plan) (ip_targets plan) depth_cap p"
    using ok by (simp add: p)
  show "ie_path_count iv = length (ie_paths iv)" by (simp add: p)
  show "int (ie_path_count iv) \<le> P95_PATH_COUNT_CAP" using ok by (simp add: p P95_PATH_COUNT_CAP_def)
  show "ie_unsupported_edges iv =
      ie_unsupported_edges (evaluate_corridor_sanity F (ie_paths iv) fam virtual anchors iv)"
    unfolding p(1) by (simp add: iv enumerate_interval_def graph paths_def evaluate_corridor_sanity_def Let_def)
qed

text \<open>
  C14. Every corridor enumerated for a map is driveable evidence: for each interval of the result there is
  a planned interval with the same ends, and each of its paths starts in a source cell of that plan,
  ends in its first target cell, has at most \<open>depth_cap\<close> steps, and takes each step between two touching
  drivable cells or between two cells that one replay asserts to be connected. At most 10000 paths are
  kept, and the first sanity check (no unsupported edge) always passes.
\<close>

theorem enumerate_map_sound:
  assumes iter: "\<And>S. finite S \<Longrightarrow> set (set_iter S) = S"
    and rows: "fetch_map_grid_blocks (mq_grid q) = rows"
    and graph: "build_cell_graph rows = (fams, g)" and asets: "load_anchor_sets F q fams = asets"
    and obs: "build_observations read asets (mq_replays q) = Inr obs"
    and ivs: "enumerate_map F set_iter read q map_id depth_cap True = Inr ivs" and iv: "iv \<in> set ivs"
  shows "\<exists>plan \<in> set (plan_intervals asets).
    (ie_src_tag iv, ie_src_order iv, ie_dst_tag iv, ie_dst_order iv) =
      (ip_src_tag plan, ip_src_order plan, ip_dst_tag plan, ip_dst_order plan) \<and>
    (\<forall>p \<in> set (ie_paths iv). p \<noteq> [] \<and> hd p \<in> ip_sources plan \<and> List.last p \<in> ip_targets plan \<and>
       set (butlast p) \<inter> ip_targets plan = {} \<and> int (length p) \<le> max 1 (depth_cap + 1) \<and>
       (\<forall>(a, b) \<in> set (steps_of p). (a, b) \<in> seed_edges rows \<or> (\<exists>ob \<in> set obs. a \<in> ob_cells ob \<and> b \<in> ob_cells ob))) \<and>
    ie_path_count iv = length (ie_paths iv) \<and> int (ie_path_count iv) \<le> P95_PATH_COUNT_CAP \<and>
    passes_sanity_1_unsupported iv"
proof -
  let ?sets = "map ob_cells obs" and ?anchors = "\<Union>a \<in> set asets. as_cells a"
  from ivs iv obtain plan where plan: "plan \<in> set (plan_intervals asets)"
    and iv': "iv = enumerate_interval F set_iter map_id depth_cap True (gr_neighbours g) ?sets (map_of fams) ?anchors plan"
    by (auto simp: enumerate_map_def Let_def rows graph asets obs split: if_splits)
  obtain combined virtual where c: "build_enumeration_graph set_iter (gr_neighbours g) ?sets = (combined, virtual)"
    by fastforce
  have fin: "finite (as_cells a)" if "a \<in> set asets" for a
    using that load_anchor_sets_finite unfolding asets [symmetric] by blast
  then have "finite (ip_sources plan)" using plan_cells [OF plan] cells_tagged_finite by metis
  note p = enumerate_interval_paths [OF iv' c iter [OF this]]
  have "finite (ob_cells ob)" if "ob \<in> set obs" for ob
    using build_observations_cells [OF obs that] card.infinite by fastforce
  then have it: "set (set_iter S) = S" if "S \<in> set ?sets" for S using that iter by auto
  have "virtual_inv (seed_edges rows) (virtual_pairs set_iter ?sets) (combined, virtual)"
    using build_enumeration_graph_inv [OF neighbours_distinct [OF graph], of set_iter ?sets]
    by (simp only: c nb_rel_graph [OF graph])
  then have rel: "nb_rel combined = seed_edges rows \<union> (virtual_pairs set_iter ?sets \<union> (virtual_pairs set_iter ?sets)\<inverse>)"
    by (simp add: virtual_inv_def Un_assoc)
  have step: "(a, b) \<in> seed_edges rows \<or> (\<exists>ob \<in> set obs. a \<in> ob_cells ob \<and> b \<in> ob_cells ob)" if "(a, b) \<in> nb_rel combined" for a b
    using that virtual_pairs_cells [of a b set_iter ?sets, OF _ it] unfolding rel by auto
  have "ie_unsupported_edges iv = 0"
    unfolding p(4)
  proof (rule sanity_1_holds)
    fix p' ab assume "p' \<in> set (ie_paths iv)" "ab \<in> set (steps_of p')"
    then have "(fst ab, snd ab) \<in> nb_rel combined" using p(1) by (auto simp: path_ok_def)
    from combined_step_supported [OF graph c this] show "\<not> unsupported_step (map_of fams) virtual ab" by simp
  qed
  moreover have "(ie_src_tag iv, ie_src_order iv, ie_dst_tag iv, ie_dst_order iv) =
      (ip_src_tag plan, ip_src_order plan, ip_dst_tag plan, ip_dst_order plan)"
    by (simp add: iv' enumerate_interval_def c evaluate_corridor_sanity_def Let_def)
  moreover have "\<forall>(a, b) \<in> set (steps_of p'). (a, b) \<in> seed_edges rows \<or> (\<exists>ob \<in> set obs. a \<in> ob_cells ob \<and> b \<in> ob_cells ob)"
    if "p' \<in> set (ie_paths iv)" for p'
    using p(1) that step unfolding path_ok_def by blast
  ultimately show ?thesis
    using plan p(1-3) unfolding passes_sanity_1_unsupported_def path_ok_def by blast
qed


definition demo_ivs :: "rat interval_enumeration list" where
  "demo_ivs =
     [\<lparr>ie_map_id = 7, ie_src_tag = ''Spawn'', ie_src_order = 0, ie_dst_tag = ''Checkpoint'', ie_dst_order = 0,
       ie_path_count = 3, ie_corridor_cells = {(20, 9, 5), (6, 9, 5), (5, 9, 5)}, ie_unsupported_edges = 0,
       ie_non_drivable_cells = 0, ie_deco_adjacent = 0, ie_top_corridor_stable = None,
       ie_paths = [[(5, 9, 5), (6, 9, 5)], [(5, 9, 5), (6, 9, 5)], [(5, 9, 5), (20, 9, 5), (6, 9, 5)]]\<rparr>,
      \<lparr>ie_map_id = 7, ie_src_tag = ''Spawn'', ie_src_order = 0, ie_dst_tag = ''Goal'', ie_dst_order = 0,
       ie_path_count = 2, ie_corridor_cells = {(6, 9, 5), (20, 9, 5), (5, 9, 5)}, ie_unsupported_edges = 0,
       ie_non_drivable_cells = 0, ie_deco_adjacent = 0, ie_top_corridor_stable = None,
       ie_paths = [[(5, 9, 5), (20, 9, 5)], [(5, 9, 5), (6, 9, 5), (20, 9, 5)]]\<rparr>]"

lemma demo_enumerated: "enumerate_map rat_gops sorted_list_of_set demo_sidecar demo_rows 7 2 True = Inr demo_ivs"
  by code_simp

theorem enumerate_map_sound_witness: "passes_sanity_1_unsupported (hd demo_ivs) \<and> int (ie_path_count (hd demo_ivs)) \<le> 10000"
proof -
  have rows: "fetch_map_grid_blocks (mq_grid demo_rows) = demo_grid" by code_simp
  have "hd demo_ivs \<in> set demo_ivs" by (simp add: demo_ivs_def)
  moreover have anchors: "load_anchor_sets rat_gops demo_rows (cell_families demo_grid) = demo_anchors"
    by (simp only: demo_anchors_def)
  ultimately show ?thesis
    using enumerate_map_sound [where set_iter = sorted_list_of_set, OF _ rows demo_graph_built anchors demo_observations demo_enumerated]
    by (auto simp: P95_PATH_COUNT_CAP_def)
qed

subsection \<open>What the enumeration does not give\<close>

text \<open>A square of four road cells with a fifth behind its far corner: two simple paths of three steps.\<close>

definition square_rows :: "(int \<times> int \<times> int \<times> string) list" where
  "square_rows = map (\<lambda>(x, z). (x, 9, z, ''Road'')) [(0, 0), (1, 0), (0, 1), (1, 1), (2, 1)]"

abbreviation square_graph :: neighbour_map where
  "square_graph \<equiv> gr_neighbours (snd (build_cell_graph square_rows))"

text \<open>
  The enumeration is incomplete: on a square of road cells with the target behind its far corner two
  simple paths of three steps lead to the target, but with the default caps only one is returned. A cell
  next to a target is never unmarked, so a second path through it is lost.
\<close>

theorem enumeration_incomplete:
  "path_ok square_graph {(0, 9, 0)} {(2, 9, 1)} DEFAULT_DEPTH_CAP [(0, 9, 0), (1, 9, 0), (1, 9, 1), (2, 9, 1)] \<and>
   path_ok square_graph {(0, 9, 0)} {(2, 9, 1)} DEFAULT_DEPTH_CAP [(0, 9, 0), (0, 9, 1), (1, 9, 1), (2, 9, 1)] \<and>
   enumerate_simple_paths square_graph [(0, 9, 0)] {(2, 9, 1)} DEFAULT_DEPTH_CAP P95_PATH_COUNT_CAP =
     [[(0, 9, 0), (0, 9, 1), (1, 9, 1), (2, 9, 1)]]"
proof (intro conjI)
  have g: "square_graph = [((0, 9, 0), [(1, 9, 0), (0, 9, 1)]), ((1, 9, 0), [(0, 9, 0), (1, 9, 1)]),
    ((0, 9, 1), [(0, 9, 0), (1, 9, 1)]), ((1, 9, 1), [(1, 9, 0), (0, 9, 1), (2, 9, 1)]), ((2, 9, 1), [(1, 9, 1)])]"
    by code_simp
  show "path_ok square_graph {(0, 9, 0)} {(2, 9, 1)} DEFAULT_DEPTH_CAP [(0, 9, 0), (1, 9, 0), (1, 9, 1), (2, 9, 1)]"
    "path_ok square_graph {(0, 9, 0)} {(2, 9, 1)} DEFAULT_DEPTH_CAP [(0, 9, 0), (0, 9, 1), (1, 9, 1), (2, 9, 1)]"
    unfolding g by (simp_all add: path_ok_def nb_rel_def nbs_of_def DEFAULT_DEPTH_CAP_def)
  show "enumerate_simple_paths square_graph [(0, 9, 0)] {(2, 9, 1)} DEFAULT_DEPTH_CAP P95_PATH_COUNT_CAP =
     [[(0, 9, 0), (0, 9, 1), (1, 9, 1), (2, 9, 1)]]"
    by code_simp
qed

text \<open>A pair of cells that is both a seed edge and asserted by a replay is stored twice, and so are the
  paths through it.\<close>

lemma duplicate_corridors:
  "enumerate_map rat_gops sorted_list_of_set demo_sidecar demo_rows 7 2 True = Inr demo_ivs \<and>
   ie_paths (hd demo_ivs) = [[(5, 9, 5), (6, 9, 5)], [(5, 9, 5), (6, 9, 5)], [(5, 9, 5), (20, 9, 5), (6, 9, 5)]]"
  by (simp only: demo_enumerated) (simp add: demo_ivs_def)

text \<open>The second sanity check is no tautology: a virtual edge may start on a cell that is not drivable.\<close>

definition deco_rows :: "rat map_rows" where
  "deco_rows = \<lparr>mq_grid = [(Some 5, Some 9, Some 5, Some ''Deco''), (Some 20, Some 9, Some 5, Some ''Gate'')],
     mq_waypoints = [(Some ''Spawn'', 0, Some 5, Some 9, Some 5), (Some ''Goal'', 0, Some 20, Some 9, Some 5)],
     mq_free = [], mq_replays = [(4, ''run.json'')]\<rparr>"

lemma sanity_2_can_fail:
  "case enumerate_map rat_gops sorted_list_of_set demo_sidecar deco_rows 7 2 False of
     Inr [iv] \<Rightarrow> passes_sanity_1_unsupported iv \<and> \<not> passes_sanity_2_non_drivable iv | _ \<Rightarrow> False"
  by code_simp

subsection \<open>The gates of the report\<close>

lemma enumerate_interval_capped:
  "int (ie_path_count (enumerate_interval F set_iter map_id depth_cap keep neighbours sets fam anchors plan)) \<le> P95_PATH_COUNT_CAP"
proof -
  obtain combined virtual where c: "build_enumeration_graph set_iter neighbours sets = (combined, virtual)" by fastforce
  have "ie_path_count (enumerate_interval F set_iter map_id depth_cap keep neighbours sets fam anchors plan) =
      length (enumerate_simple_paths combined (set_iter (ip_sources plan)) (ip_targets plan) depth_cap P95_PATH_COUNT_CAP)"
    by (simp add: enumerate_interval_def c evaluate_corridor_sanity_def Let_def)
  with enumerate_simple_paths_ok [of combined "set_iter (ip_sources plan)" "ip_targets plan" depth_cap P95_PATH_COUNT_CAP]
  show ?thesis by (simp add: P95_PATH_COUNT_CAP_def)
qed

lemma enumerate_map_capped:
  "enumerate_map F set_iter read q map_id depth_cap keep = Inr ivs \<Longrightarrow> iv \<in> set ivs \<Longrightarrow>
     int (ie_path_count iv) \<le> P95_PATH_COUNT_CAP"
  using enumerate_interval_capped
  by (auto simp: enumerate_map_def Let_def split: if_splits prod.splits sum.splits)

lemma p95_index: "xs \<noteq> [] \<Longrightarrow> min (length xs - 1) (length xs * 95 div 100) < length xs"
  by (rule min.strict_coboundedI1) (cases xs; simp)

lemma p95_is_count:
  assumes "path_counts per_map \<noteq> []"
  shows "p95_path_count per_map \<in> set (path_counts per_map)"
proof -
  let ?c = "sort (path_counts per_map)"
  have ne: "?c \<noteq> []" using assms by simp
  from nth_mem [OF p95_index [OF ne]] have "?c ! min (length ?c - 1) (length ?c * 95 div 100) \<in> set (path_counts per_map)" by simp
  then show ?thesis using assms by (simp add: p95_path_count_def Let_def)
qed

lemma enumerate_set_capped:
  fixes F :: "('f, 'z) gops_scheme"
  assumes "iv \<in> set (all_intervals (enumerate_set F set_iter read db map_ids depth_cap))"
  shows "int (ie_path_count iv) \<le> P95_PATH_COUNT_CAP"
proof -
  define upd where "upd mid report = AList.update mid (case db mid of None \<Rightarrow> []
    | Some q \<Rightarrow> (case enumerate_map F set_iter read q mid depth_cap False of Inl _ \<Rightarrow> [] | Inr ivs \<Rightarrow> ivs)) report" for mid report
  define good where "good report \<longleftrightarrow> (\<forall>(mid, ivs) \<in> set report. \<forall>iv \<in> set ivs. int (ie_path_count iv) \<le> P95_PATH_COUNT_CAP)"
    for report :: "'f enumeration_report"
  have keep: "good (upd mid report)" if "good report" for mid report
    unfolding good_def
  proof (clarify)
    fix m ivs iv assume m: "(m, ivs) \<in> set (upd mid report)" and iv: "iv \<in> set ivs"
    from m have "(m, ivs) \<in> set report \<or> ivs = (case db mid of None \<Rightarrow> []
      | Some q \<Rightarrow> (case enumerate_map F set_iter read q mid depth_cap False of Inl _ \<Rightarrow> [] | Inr ivs \<Rightarrow> ivs))"
      unfolding upd_def using set_update_cases by fast
    then show "int (ie_path_count iv) \<le> P95_PATH_COUNT_CAP"
      using that iv enumerate_map_capped by (auto simp: good_def split: option.splits sum.splits)
  qed
  have "good (fold upd map_ids [])"
  proof (rule fold_preserves)
    show "good []" by (simp add: good_def)
  qed (rule keep)
  then show ?thesis using assms unfolding enumerate_set_def upd_def [symmetric] all_intervals_def good_def by fastforce
qed

text \<open>
  The tractability gate on the 95th percentile cannot fail: the enumerator stops at the very bound
  the gate compares with, so every report \<open>enumerate_set\<close> produces passes it, however many paths the
  maps have.
\<close>

theorem p95_gate_always_passes: "passes_84_p95 (enumerate_set F set_iter read db map_ids depth_cap)"
proof (cases "path_counts (enumerate_set F set_iter read db map_ids depth_cap) = []")
  case True
  then show ?thesis by (simp add: passes_84_p95_def p95_path_count_def P95_PATH_COUNT_CAP_def)
next
  case False
  from p95_is_count [OF this] show ?thesis
    using enumerate_set_capped by (auto simp: passes_84_p95_def path_counts_def)
qed

text \<open>
  The 95th percentile is one: at least 95 percent of the intervals of a report have at most that many
  paths, and it is the count of some interval.
\<close>

theorem p95_covers:
  assumes "path_counts per_map \<noteq> []"
  shows "95 * length (path_counts per_map) \<le> 100 * length (filter (\<lambda>n. n \<le> p95_path_count per_map) (path_counts per_map)) \<and>
    p95_path_count per_map \<in> set (path_counts per_map)"
proof -
  let ?c = "sort (path_counts per_map)"
  define i where "i = min (length ?c - 1) (length ?c * 95 div 100)"
  have i: "i < length ?c" unfolding i_def by (rule p95_index) (simp add: assms)
  have p: "p95_path_count per_map = ?c ! i" using assms by (simp add: i_def p95_path_count_def Let_def)
  have "set (take (Suc i) ?c) \<subseteq> {n. n \<le> ?c ! i}"
  proof
    fix n assume "n \<in> set (take (Suc i) ?c)"
    then obtain j where "j \<le> i" "n = ?c ! j" using i by (auto simp: in_set_conv_nth less_Suc_eq_le)
    then show "n \<in> {n. n \<le> ?c ! i}" using i by (simp add: sorted_nth_mono)
  qed
  then have "filter (\<lambda>n. n \<le> ?c ! i) (take (Suc i) ?c) = take (Suc i) ?c" by (intro filter_True) blast
  then have "Suc i \<le> length (filter (\<lambda>n. n \<le> ?c ! i) (take (Suc i) ?c @ drop (Suc i) ?c))"
    using i by (simp only: filter_append length_append) simp
  then have "Suc i \<le> length (filter (\<lambda>n. n \<le> ?c ! i) ?c)" by simp
  also have "\<dots> = length (filter (\<lambda>n. n \<le> p95_path_count per_map) (path_counts per_map))"
    unfolding p by (rule length_filter_mset) simp
  finally have "95 * length (path_counts per_map) \<le> 100 * length (filter (\<lambda>n. n \<le> p95_path_count per_map) (path_counts per_map))"
    using i by (auto simp: i_def min_def split: if_splits)
  with p95_is_count [OF assms] show ?thesis by blast
qed


theorem p95_covers_witness: "p95_path_count [(7, demo_ivs)] \<in> set (path_counts [(7, demo_ivs)])"
proof -
  have "path_counts [(7, demo_ivs)] \<noteq> []" by (simp add: path_counts_def all_intervals_def demo_ivs_def)
  from p95_covers [OF this] show ?thesis by blast
qed

end
