(* ===== verification/Corridor_Plan.thy ===== *)
theory Corridor_Plan
  imports Enumeration Route_Assembly
begin

section \<open>From planned intervals to assembled intervals\<close>

text \<open>
  Where the enumerator of \<^verbatim>\<open>src/src/corridor/traversability/enumeration.py\<close> and the assembler of
  \<^verbatim>\<open>src/src/generation/assembly.py\<close> meet: the enumerator stores corridors under the ends of the planned
  interval, the assembler looks them up under the ends of consecutive anchors. Both derive them from the
  same checkpoint rows.
\<close>

text \<open>The corridors of a map are stored under the ends of the planned interval; the assembler looks them up
  under the ends of consecutive anchors.\<close>

definition plan_key :: "interval_plan \<Rightarrow> interval_key" where
  "plan_key p = (ip_src_tag p, ip_src_order p, ip_dst_tag p, ip_dst_order p)"

definition wp_of :: "checkpoint_row \<Rightarrow> waypoint_row" where
  "wp_of r = (Some (cr_tag r), cr_waypoint_order r, cr_x r, cr_y r, cr_z r)"























text \<open>A free-placed linked checkpoint is enough: no corridor is stored for the intervals the assembler asks for.\<close>

lemma free_checkpoint_disagrees:
  "let rows = [demo_cp_row ''Spawn'' 0 5, demo_cp_row ''LinkedCheckpoint'' 1 7, (demo_cp_row ''LinkedCheckpoint'' 2 8)\<lparr>cr_x := None\<rparr>,
      demo_cp_row ''Goal'' 0 9]
   in map plan_key (plan_intervals (build_anchor_sets (map wp_of rows))) =
        [(''Spawn'', 0, ''LinkedCheckpoint'', 1), (''LinkedCheckpoint'', 1, ''Goal'', 0)] \<and>
      map (\<lambda>(a, b). key_of a b) (steps_of (snd (detect_and_order_anchors rows))) =
        [(''Spawn'', 0, ''LinkedCheckpoint'', 1), (''LinkedCheckpoint'', 1, ''LinkedCheckpoint'', 2), (''LinkedCheckpoint'', 2, ''Goal'', 0)]"
  by code_simp

end
