(* ===== verification/Plugin_IO.thy ===== *)
theory Plugin_IO
  imports Job_Store
begin

section \<open>The file protocol between agent and game plugin\<close>

text \<open>
  Model of \<^verbatim>\<open>src/src/remote_test_agent/plugin_io.py\<close>: the trigger the agent drops, the report it parses
  and the wait between the two. The rig directory maps a job to its trigger file and to its report file.
  Clock and plugin are the environment: at the \<open>n\<close>-th reading of the clock the time is \<open>re_time n\<close>, and
  before it the plugin has changed the directory by \<open>re_plugin n\<close>; \<open>re_unlink n\<close> tells whether the
  \<open>n\<close>-th removal of a file succeeds. Times are rationals (sums of a clock reading and a timeout are
  exact for doubles of that size). Waiting is a partial function: it ends when the clock reaches the
  deadline.
\<close>

definition PROTOCOL_VERSION :: string where "PROTOCOL_VERSION = ''ai_rig_v1''"

record trigger =
  tr_protocol :: string
  tr_job_id :: int
  tr_run_id :: string
  tr_map_file :: string
  tr_deadline_unix :: int
  tr_metadata :: "json_obj option"

record telemetry_report =
  rt_job_id :: int
  rt_run_id :: string
  rt_load_success :: bool
  rt_load_error :: "string option"
  rt_spawn_ok :: bool
  rt_finished :: bool
  rt_checkpoint_times_ms :: "int list"
  rt_driven_cells :: "cell list"
  rt_exit_reason :: string
  rt_notes :: "string option"
  rt_plugin_version :: "string option"
  rt_validation_status :: "string option"
  rt_author_time_ms :: "int option"
  rt_raw :: json_obj

definition json_opt :: "('a \<Rightarrow> json) \<Rightarrow> 'a option \<Rightarrow> json" where
  "json_opt f v = (case v of None \<Rightarrow> JNull | Some x \<Rightarrow> f x)"

definition json_cell :: "cell \<Rightarrow> json" where
  "json_cell c = (case c of (x, y, z) \<Rightarrow> JArr [JInt x, JInt y, JInt z])"

definition to_report_dict :: "telemetry_report \<Rightarrow> json_obj" where
  "to_report_dict r =
     [(''load_success'', JBool (rt_load_success r)),
      (''load_error'', json_opt JStr (rt_load_error r)),
      (''spawn_ok'', JBool (rt_spawn_ok r)),
      (''finished'', JBool (rt_finished r)),
      (''checkpoint_times_ms'', JArr (map JInt (rt_checkpoint_times_ms r))),
      (''driven_cells_count'', JInt (int (length (rt_driven_cells r)))),
      (''driven_cells_head'', JArr (map json_cell (take 20 (rt_driven_cells r)))),
      (''exit_reason'', JStr (rt_exit_reason r)),
      (''notes'', json_opt JStr (rt_notes r)),
      (''plugin_version'', json_opt JStr (rt_plugin_version r)),
      (''validation_status'', json_opt JStr (rt_validation_status r)),
      (''author_time_ms'', json_opt JInt (rt_author_time_ms r))]"

subsection \<open>Parsing a report\<close>

text \<open>\<open>PluginIOError\<close> is handled by the waiting loop, the other two exceptions are not.\<close>

datatype plugin_exn = PluginIOError | DecodeError | ParseError py_error

definition parse_cells_raw :: "json \<Rightarrow> cell list" where
  "parse_cells_raw raw =
     (case raw of
        JArr xs \<Rightarrow> List.map_filter (\<lambda>c. case c of
            JArr [a, b, d] \<Rightarrow>
              (case (json_int a, json_int b, json_int d) of (Inr x, Inr y, Inr z) \<Rightarrow> Some (x, y, z) | _ \<Rightarrow> None)
          | _ \<Rightarrow> None) xs
      | _ \<Rightarrow> [])"

text \<open>Iterating over a string or an object yields strings, over a number or a bool is an error.\<close>

definition parse_times :: "json \<Rightarrow> py_error + int list" where
  "parse_times raw =
     (case (if json_truthy raw then raw else JArr []) of
        JArr xs \<Rightarrow> Inr (List.map_filter (\<lambda>t.
          if json_number t then (case json_int t of Inr i \<Rightarrow> Some i | Inl _ \<Rightarrow> None) else None) xs)
      | JStr _ \<Rightarrow> Inr []
      | JObj _ \<Rightarrow> Inr []
      | _ \<Rightarrow> Inl TypeError)"

fun json_nonneg :: "json \<Rightarrow> bool" where
  "json_nonneg (JBool b) = True"
| "json_nonneg (JInt i) = (0 \<le> i)"
| "json_nonneg (JFloat q) = (0 \<le> q)"
| "json_nonneg _ = False"

definition parse_author_time :: "json \<Rightarrow> int option" where
  "parse_author_time raw =
     (if json_number raw \<and> json_nonneg raw then (case json_int raw of Inr i \<Rightarrow> Some i | Inl _ \<Rightarrow> None) else None)"

definition opt_str :: "(json \<Rightarrow> string) \<Rightarrow> json \<Rightarrow> string option" where
  "opt_str repr_of v = (if json_truthy v then Some (json_str repr_of v) else None)"

definition str_or :: "(json \<Rightarrow> string) \<Rightarrow> string \<Rightarrow> json \<Rightarrow> string" where
  "str_or repr_of dflt v = (if json_truthy v then json_str repr_of v else dflt)"

definition parse_report :: "(json \<Rightarrow> string) \<Rightarrow> json_file \<Rightarrow> plugin_exn + telemetry_report" where
  "parse_report repr_of file =
     (case file of
        Os_error \<Rightarrow> Inl PluginIOError
      | Json_decode_error \<Rightarrow> Inl PluginIOError
      | Unicode_decode_error \<Rightarrow> Inl DecodeError
      | Payload (JObj body) \<Rightarrow>
          if json_get ''protocol'' body \<noteq> JStr PROTOCOL_VERSION then Inl PluginIOError
          else (case map_of body ''job_id'' of
              None \<Rightarrow> Inl PluginIOError
            | Some job_id \<Rightarrow>
                (case (json_int job_id, parse_times (json_get ''checkpoint_times_ms'' body)) of
                   (Inl e, _) \<Rightarrow> Inl (ParseError e)
                 | (Inr i, Inl e) \<Rightarrow> Inl (ParseError e)
                 | (Inr i, Inr cps) \<Rightarrow>
                     Inr \<lparr>rt_job_id = i,
                       rt_run_id = str_or repr_of [] (json_get ''run_id'' body),
                       rt_load_success = json_truthy (json_get ''load_success'' body),
                       rt_load_error = opt_str repr_of (json_get ''load_error'' body),
                       rt_spawn_ok = json_truthy (json_get ''spawn_ok'' body),
                       rt_finished = json_truthy (json_get ''finished'' body),
                       rt_checkpoint_times_ms = cps,
                       rt_driven_cells = parse_cells_raw (json_get ''driven_cells'' body),
                       rt_exit_reason = str_or repr_of ''other'' (json_get ''exit_reason'' body),
                       rt_notes = opt_str repr_of (json_get ''notes'' body),
                       rt_plugin_version = opt_str repr_of (json_get ''plugin_version'' body),
                       rt_validation_status = opt_str repr_of (json_get ''validation_status'' body),
                       rt_author_time_ms = parse_author_time (json_get ''author_time_ms'' body),
                       rt_raw = body\<rparr>))
      | Payload _ \<Rightarrow> Inl PluginIOError)"

subsection \<open>The rig directory\<close>

record rig_env =
  re_time :: "nat \<Rightarrow> rat"
  re_plugin :: "nat \<Rightarrow> (int \<rightharpoonup> trigger) \<Rightarrow> (int \<rightharpoonup> json_file) \<Rightarrow> (int \<rightharpoonup> json_file)"
  re_unlink :: "nat \<Rightarrow> bool"

record rig_world =
  rw_in :: "int \<rightharpoonup> trigger"
  rw_out :: "int \<rightharpoonup> json_file"
  rw_ticks :: nat
  rw_unlinks :: nat

definition read_clock :: "rig_env \<Rightarrow> rig_world \<Rightarrow> rat \<times> rig_world" where
  "read_clock env w =
     (re_time env (rw_ticks w),
      w\<lparr>rw_ticks := rw_ticks w + 1, rw_out := re_plugin env (rw_ticks w) (rw_in w) (rw_out w)\<rparr>)"

definition unlink_in :: "rig_env \<Rightarrow> int \<Rightarrow> rig_world \<Rightarrow> rig_world" where
  "unlink_in env job_id w =
     (if rw_in w job_id = None then w
      else (if re_unlink env (rw_unlinks w) then w\<lparr>rw_in := (rw_in w)(job_id := None)\<rparr> else w)\<lparr>rw_unlinks := rw_unlinks w + 1\<rparr>)"

definition unlink_out :: "rig_env \<Rightarrow> int \<Rightarrow> rig_world \<Rightarrow> rig_world" where
  "unlink_out env job_id w =
     (if rw_out w job_id = None then w
      else (if re_unlink env (rw_unlinks w) then w\<lparr>rw_out := (rw_out w)(job_id := None)\<rparr> else w)\<lparr>rw_unlinks := rw_unlinks w + 1\<rparr>)"

definition clear_stale :: "rig_env \<Rightarrow> int \<Rightarrow> rig_world \<Rightarrow> rig_world" where
  "clear_stale env job_id w = unlink_out env job_id (unlink_in env job_id w)"

definition ack :: "rig_env \<Rightarrow> int \<Rightarrow> rig_world \<Rightarrow> rig_world" where
  "ack env job_id w = unlink_out env job_id w"

definition drop_trigger :: "int \<Rightarrow> string \<Rightarrow> string \<Rightarrow> int \<Rightarrow> json_obj \<Rightarrow> rig_world \<Rightarrow> rig_world" where
  "drop_trigger job_id run_id map_file deadline_unix metadata w =
     w\<lparr>rw_in := (rw_in w)(job_id \<mapsto>
       \<lparr>tr_protocol = PROTOCOL_VERSION, tr_job_id = job_id, tr_run_id = run_id, tr_map_file = map_file,
        tr_deadline_unix = deadline_unix, tr_metadata = (if metadata = [] then None else Some metadata)\<rparr>)\<rparr>"

partial_function (option) wait_for_report :: "(json \<Rightarrow> string) \<Rightarrow> rig_env \<Rightarrow> int \<Rightarrow> int \<Rightarrow> rig_world
    \<Rightarrow> ((plugin_exn + telemetry_report option) \<times> rig_world) option" where
  "wait_for_report repr_of env job_id deadline_unix w =
     (let now = fst (read_clock env w); w = snd (read_clock env w)
      in if \<not> now < of_int deadline_unix then Some (Inr None, w)
         else case rw_out w job_id of
             None \<Rightarrow> wait_for_report repr_of env job_id deadline_unix w
           | Some file \<Rightarrow>
               (case parse_report repr_of file of
                  Inr report \<Rightarrow> Some (Inr (Some report), w)
                | Inl PluginIOError \<Rightarrow> Some (Inr None, unlink_out env job_id w)
                | Inl e \<Rightarrow> Some (Inl e, w)))"

declare wait_for_report.simps [code]

subsection \<open>Waiting\<close>

text \<open>The wait ends as soon as some later reading of the clock reaches the deadline.\<close>

lemma wait_returns:
  assumes "rw_ticks w \<le> n" and "of_int deadline \<le> re_time env n"
  shows "\<exists>res w'. wait_for_report repr_of env job_id deadline w = Some (res, w')"
  using assms(1)
proof (induction "n - rw_ticks w" arbitrary: w)
  case 0
  then have "rw_ticks w = n" by simp
  with assms(2) show ?case
    by (subst wait_for_report.simps) (simp add: read_clock_def Let_def not_less)
next
  case (Suc k)
  let ?w = "snd (read_clock env w)"
  have "rw_ticks ?w = Suc (rw_ticks w)" by (simp add: read_clock_def)
  then have "k = n - rw_ticks ?w" "rw_ticks ?w \<le> n" using Suc.hyps(2) by simp_all
  from Suc.hyps(1) [OF this] obtain res w' where "wait_for_report repr_of env job_id deadline ?w = Some (res, w')" by blast
  then show ?case
    by (subst wait_for_report.simps) (auto simp: Let_def split: option.split sum.split plugin_exn.split)
qed

text \<open>What a wait that returned has seen: a report is the parsed report file, read before the deadline;
  \<open>None\<close> means that the deadline passed or the file was malformed.\<close>

definition waited :: "(json \<Rightarrow> string) \<Rightarrow> rig_env \<Rightarrow> int \<Rightarrow> int \<Rightarrow> plugin_exn + telemetry_report option \<Rightarrow> rig_world \<Rightarrow> bool" where
  "waited repr_of env job_id deadline res w \<longleftrightarrow>
     (case res of
        Inr (Some report) \<Rightarrow> (\<exists>file. rw_out w job_id = Some file \<and> parse_report repr_of file = Inr report) \<and>
          re_time env (rw_ticks w - 1) < of_int deadline
      | Inr None \<Rightarrow> of_int deadline \<le> re_time env (rw_ticks w - 1) \<or>
          (\<exists>file. parse_report repr_of file = Inl PluginIOError)
      | Inl e \<Rightarrow> e \<noteq> PluginIOError \<and> (\<exists>file. rw_out w job_id = Some file \<and> parse_report repr_of file = Inl e))"

lemma unlink_ticks [simp]:
  "rw_ticks (unlink_out env i w) = rw_ticks w" "rw_in (unlink_out env i w) = rw_in w"
  by (simp_all add: unlink_out_def)

lemma wait_result:
  "wait_for_report repr_of env job_id deadline w = Some y \<Longrightarrow>
     waited repr_of env job_id deadline (fst y) (snd y) \<and> rw_in (snd y) = rw_in w \<and> rw_ticks w < rw_ticks (snd y)"
proof (induction rule: wait_for_report.raw_induct [rotated 1, consumes 1, case_names step])
  case (step wait repr_of env job_id deadline w y)
  let ?w = "snd (read_clock env w)"
  have c: "rw_in ?w = rw_in w" "rw_ticks ?w = Suc (rw_ticks w)" "fst (read_clock env w) = re_time env (rw_ticks w)"
    by (simp_all add: read_clock_def)
  show ?case
  proof (cases "fst (read_clock env w) < of_int deadline")
    case False
    with step.hyps c show ?thesis by (auto simp: Let_def waited_def)
  next
    case time: True
    show ?thesis
    proof (cases "rw_out ?w job_id")
      case None
      with step.hyps time have "wait repr_of env job_id deadline ?w = Some y" by (simp add: Let_def)
      from step.IH [OF this] c show ?thesis by auto
    next
      case (Some f)
      with step.hyps time c show ?thesis
        by (auto simp: Let_def waited_def split: sum.splits plugin_exn.splits)
    qed
  qed
qed
end
