(* ===== verification/Remote_Agent.thy ===== *)
theory Remote_Agent
  imports Job_Server Plugin_IO
begin

section \<open>The remote-test agent\<close>

text \<open>
  Model of \<^verbatim>\<open>src/src/remote_test_agent/http_client.py\<close> and \<^verbatim>\<open>src/src/remote_test_agent/agent.py\<close>, composed
  with the server of \<open>Job_Server\<close> and the plugin protocol of \<open>Plugin_IO\<close>: a request of the agent runs the
  server's handler on the shared store. What the agent does not control is the environment \<open>agent_env\<close>:
  what happens to its \<open>n\<close>-th request on the network, what other clients did to the store before it, the
  server's clock, the plugin, and when a signal asks for shutdown. Status details are rendered by the
  parameter \<open>render\<close>.
\<close>

subsection \<open>World and environment\<close>

text \<open>The fate of a request: answered; lost before or after the server ran; answered by a gateway with a
  status of its own; answered with the file contents replaced.\<close>

datatype net = Deliver | Drop | Drop_reply | Gateway nat | Tamper bytes

record agent_env =
  ae_rig :: rig_env
  ae_net :: "nat \<Rightarrow> net"
  ae_others :: "nat \<Rightarrow> job_store \<Rightarrow> job_store"
  ae_server_clock :: "nat \<Rightarrow> int \<times> int"
  ae_shutdown :: "nat \<Rightarrow> bool"

record agent_world =
  aw_store :: job_store
  aw_rig :: rig_world
  aw_sent :: nat
  aw_inbox :: "string \<rightharpoonup> bytes"
  aw_last_heartbeat :: rat

record agent_config =
  ac_id :: string
  ac_version :: "string option"
  ac_hostname :: "string option"
  ac_token :: "string option"
  ac_heartbeat_interval_s :: rat
  ac_plugin_wait_max_extra_s :: rat

text \<open>\<open>RemoteTestHTTPError\<close>, any other exception of the HTTP library, and exceptions of the report
  parser.\<close>

datatype agent_exn = HttpError nat | RequestError | PluginExn plugin_exn

datatype agent_detail =
    Staged
  | DownloadFailed nat
  | SizeMismatch int nat
  | HashMismatch string string
  | NoResponse int
  | Summary telemetry_report

record claimed_job =
  cj_id :: int
  cj_run_id :: string
  cj_artifact_url :: int
  cj_artifact_size :: int
  cj_artifact_sha256 :: string
  cj_timeout_seconds :: int
  cj_metadata :: json_obj

subsection \<open>The HTTP client\<close>

text \<open>The session carries the bearer header when a token is configured.\<close>

definition session_auth :: "agent_config \<Rightarrow> string option" where
  "session_auth cfg = (if token_set (ac_token cfg) then map_option (\<lambda>t. BEARER_PREFIX @ t) (ac_token cfg) else None)"

definition tampered :: "bytes \<Rightarrow> response \<Rightarrow> response" where
  "tampered data r = (case rp_body r of FileBody _ name \<Rightarrow> r\<lparr>rp_body := FileBody data name\<rparr> | _ \<Rightarrow> r)"

definition send :: "(bytes \<Rightarrow> string) \<Rightarrow> server_config \<Rightarrow> agent_env \<Rightarrow> agent_config \<Rightarrow> request \<Rightarrow> agent_world
    \<Rightarrow> (agent_exn + response) \<times> agent_world" where
  "send sha256 scfg env cfg req w =
     (let n = aw_sent w;
          st = ae_others env n (aw_store w);
          w = w\<lparr>aw_sent := n + 1, aw_store := st\<rparr>;
          (resp, st') = handle sha256 scfg (fst (ae_server_clock env n)) (snd (ae_server_clock env n)) (session_auth cfg) req st
      in case ae_net env n of
           Deliver \<Rightarrow> (Inr resp, w\<lparr>aw_store := st'\<rparr>)
         | Drop \<Rightarrow> (Inl RequestError, w)
         | Drop_reply \<Rightarrow> (Inl RequestError, w\<lparr>aw_store := st'\<rparr>)
         | Gateway code \<Rightarrow> (Inr (respond code NoBody), w)
         | Tamper data \<Rightarrow> (Inr (tampered data resp), w\<lparr>aw_store := st'\<rparr>))"

definition claimed_of :: "job \<Rightarrow> claimed_job" where
  "claimed_of j =
     \<lparr>cj_id = jb_id j, cj_run_id = jb_run_id j, cj_artifact_url = jb_id j,
      cj_artifact_size = int (jb_artifact_size j), cj_artifact_sha256 = jb_artifact_sha256 j,
      cj_timeout_seconds = jb_timeout_seconds j, cj_metadata = jb_metadata j\<rparr>"

text \<open>A body that is not the expected JSON makes the HTTP library raise.\<close>

definition client_claim_next :: "(bytes \<Rightarrow> string) \<Rightarrow> server_config \<Rightarrow> agent_env \<Rightarrow> agent_config \<Rightarrow> agent_world
    \<Rightarrow> (agent_exn + claimed_job option) \<times> agent_world" where
  "client_claim_next sha256 scfg env cfg w =
     (case send sha256 scfg env cfg (GetJobsNext (Some (ac_id cfg))) w of
        (Inl e, w) \<Rightarrow> (Inl e, w)
      | (Inr r, w) \<Rightarrow>
          if rp_status r = 204 then (Inr None, w)
          else if rp_status r \<noteq> 200 then (Inl (HttpError (rp_status r)), w)
          else (case rp_body r of AgentJobBody j \<Rightarrow> (Inr (Some (claimed_of j)), w) | _ \<Rightarrow> (Inl RequestError, w)))"

definition client_download :: "(bytes \<Rightarrow> string) \<Rightarrow> server_config \<Rightarrow> agent_env \<Rightarrow> agent_config \<Rightarrow> int \<Rightarrow> string
    \<Rightarrow> agent_world \<Rightarrow> (agent_exn + nat) \<times> agent_world" where
  "client_download sha256 scfg env cfg url destination w =
     (case send sha256 scfg env cfg (GetArtifact url) w of
        (Inl e, w) \<Rightarrow> (Inl e, w)
      | (Inr r, w) \<Rightarrow>
          if rp_status r \<noteq> 200 then (Inl (HttpError (rp_status r)), w)
          else let data = (case rp_body r of FileBody data _ \<Rightarrow> data | _ \<Rightarrow> [])
            in (Inr (length data), w\<lparr>aw_inbox := (aw_inbox w)(destination \<mapsto> data)\<rparr>))"

definition client_post_status :: "(bytes \<Rightarrow> string) \<Rightarrow> server_config \<Rightarrow> agent_env \<Rightarrow> agent_config \<Rightarrow> int \<Rightarrow> string
    \<Rightarrow> string option \<Rightarrow> json_obj option \<Rightarrow> agent_world \<Rightarrow> (agent_exn + unit) \<times> agent_world" where
  "client_post_status sha256 scfg env cfg job_id status detail report w =
     (case send sha256 scfg env cfg (PostStatus job_id
          \<lparr>sb_status = Some (PyStr status), sb_agent_id = Some (ac_id cfg), sb_detail = detail,
           sb_report = map_option Some report\<rparr>) w of
        (Inl e, w) \<Rightarrow> (Inl e, w)
      | (Inr r, w) \<Rightarrow>
          if rp_status r \<notin> {200, 409} then (Inl (HttpError (rp_status r)), w)
          else if rp_body r = NoBody then (Inl RequestError, w) else (Inr (), w))"

definition client_post_heartbeat :: "(bytes \<Rightarrow> string) \<Rightarrow> server_config \<Rightarrow> agent_env \<Rightarrow> agent_config
    \<Rightarrow> agent_world \<Rightarrow> (agent_exn + unit) \<times> agent_world" where
  "client_post_heartbeat sha256 scfg env cfg w =
     (case send sha256 scfg env cfg (PostHeartbeat (ac_id cfg) (ac_version cfg) (ac_hostname cfg) None) w of
        (Inl e, w) \<Rightarrow> (Inl e, w)
      | (Inr r, w) \<Rightarrow>
          if rp_status r \<noteq> 200 then (Inl (HttpError (rp_status r)), w)
          else if rp_body r = NoBody then (Inl RequestError, w) else (Inr (), w))"

definition ping_health :: "(bytes \<Rightarrow> string) \<Rightarrow> server_config \<Rightarrow> agent_env \<Rightarrow> agent_config \<Rightarrow> agent_world \<Rightarrow> bool \<times> agent_world" where
  "ping_health sha256 scfg env cfg w =
     (case send sha256 scfg env cfg GetHealth w of
        (Inl _, w) \<Rightarrow> (False, w)
      | (Inr r, w) \<Rightarrow> (rp_status r = 200, w))"

subsection \<open>One job\<close>

text \<open>A failed post is logged when it is an HTTP error; other exceptions pass through.\<close>

definition log_http :: "(agent_exn + unit) \<times> agent_world \<Rightarrow> (agent_exn + unit) \<times> agent_world" where
  "log_http p = (case p of (Inl (HttpError _), w) \<Rightarrow> (Inr (), w) | _ \<Rightarrow> p)"

definition report_fail :: "(agent_detail \<Rightarrow> string) \<Rightarrow> (bytes \<Rightarrow> string) \<Rightarrow> server_config \<Rightarrow> agent_env \<Rightarrow> agent_config
    \<Rightarrow> int \<Rightarrow> agent_detail \<Rightarrow> string \<Rightarrow> agent_world \<Rightarrow> (agent_exn + unit) \<times> agent_world" where
  "report_fail render sha256 scfg env cfg job_id detail status w =
     log_http (client_post_status sha256 scfg env cfg job_id status (Some (render detail)) None w)"

definition ship_report :: "(agent_detail \<Rightarrow> string) \<Rightarrow> (bytes \<Rightarrow> string) \<Rightarrow> server_config \<Rightarrow> agent_env \<Rightarrow> agent_config
    \<Rightarrow> int \<Rightarrow> telemetry_report \<Rightarrow> agent_world \<Rightarrow> (agent_exn + unit) \<times> agent_world" where
  "ship_report render sha256 scfg env cfg job_id report w =
     log_http (client_post_status sha256 scfg env cfg job_id ''complete'' (Some (render (Summary report)))
       (Some (to_report_dict report)) w)"

definition trunc :: "rat \<Rightarrow> int" where
  "trunc q = (if 0 \<le> q then \<lfloor>q\<rfloor> else \<lceil>q\<rceil>)"

definition agent_time :: "agent_env \<Rightarrow> agent_world \<Rightarrow> rat \<times> agent_world" where
  "agent_time env w = (case read_clock (ae_rig env) (aw_rig w) of (t, rig) \<Rightarrow> (t, w\<lparr>aw_rig := rig\<rparr>))"

definition inbox_name :: "string \<Rightarrow> string" where
  "inbox_name run_id = run_id @ ''.Map.Gbx''"

text \<open>The part after the artifact was verified: post running, drop the trigger, wait, report.\<close>

definition run_staged :: "(json \<Rightarrow> string) \<Rightarrow> (agent_detail \<Rightarrow> string) \<Rightarrow> (bytes \<Rightarrow> string) \<Rightarrow> server_config
    \<Rightarrow> agent_env \<Rightarrow> agent_config \<Rightarrow> claimed_job \<Rightarrow> agent_world \<Rightarrow> ((agent_exn + unit) \<times> agent_world) option" where
  "run_staged repr_of render sha256 scfg env cfg job w =
     (case log_http (client_post_status sha256 scfg env cfg (cj_id job) ''running'' (Some (render Staged)) None w) of
        (Inl e, w) \<Rightarrow> Some (Inl e, w)
      | (Inr _, w) \<Rightarrow>
          (case agent_time env w of
             (now, w) \<Rightarrow>
               let deadline = trunc now + trunc (of_int (cj_timeout_seconds job) + ac_plugin_wait_max_extra_s cfg);
                   w = w\<lparr>aw_rig := drop_trigger (cj_id job) (cj_run_id job) (inbox_name (cj_run_id job)) deadline
                     (cj_metadata job) (aw_rig w)\<rparr>
               in (case wait_for_report repr_of (ae_rig env) (cj_id job) deadline (aw_rig w) of
                     None \<Rightarrow> None
                   | Some (Inl e, rig) \<Rightarrow> Some (Inl (PluginExn e), w\<lparr>aw_rig := rig\<rparr>)
                   | Some (Inr None, rig) \<Rightarrow>
                       (case agent_time env (w\<lparr>aw_rig := rig\<rparr>) of
                          (now, w) \<Rightarrow> Some (report_fail render sha256 scfg env cfg (cj_id job)
                            (NoResponse (deadline - trunc now)) ''timed_out'' w))
                   | Some (Inr (Some report), rig) \<Rightarrow>
                       Some (ship_report render sha256 scfg env cfg (cj_id job) report
                         (w\<lparr>aw_rig := ack (ae_rig env) (cj_id job) rig\<rparr>)))))"

definition handle_job :: "(json \<Rightarrow> string) \<Rightarrow> (agent_detail \<Rightarrow> string) \<Rightarrow> (bytes \<Rightarrow> string) \<Rightarrow> server_config
    \<Rightarrow> agent_env \<Rightarrow> agent_config \<Rightarrow> claimed_job \<Rightarrow> agent_world \<Rightarrow> ((agent_exn + unit) \<times> agent_world) option" where
  "handle_job repr_of render sha256 scfg env cfg job w =
     (let inbox_map = inbox_name (cj_run_id job);
          w = w\<lparr>aw_rig := clear_stale (ae_rig env) (cj_id job) (aw_rig w)\<rparr>;
          fail = (\<lambda>detail w. Some (report_fail render sha256 scfg env cfg (cj_id job) detail ''failed'' w))
      in case client_download sha256 scfg env cfg (cj_artifact_url job) inbox_map w of
           (Inl (HttpError code), w) \<Rightarrow> fail (DownloadFailed code) w
         | (Inl e, w) \<Rightarrow> Some (Inl e, w)
         | (Inr got, w) \<Rightarrow>
             if int got \<noteq> cj_artifact_size job then fail (SizeMismatch (cj_artifact_size job) got) w
             else let digest = sha256 (case aw_inbox w inbox_map of None \<Rightarrow> [] | Some data \<Rightarrow> data)
               in if digest \<noteq> cj_artifact_sha256 job then fail (HashMismatch (cj_artifact_sha256 job) digest) w
                  else run_staged repr_of render sha256 scfg env cfg job w)"

subsection \<open>The loop\<close>

definition maybe_heartbeat :: "(bytes \<Rightarrow> string) \<Rightarrow> server_config \<Rightarrow> agent_env \<Rightarrow> agent_config \<Rightarrow> agent_world
    \<Rightarrow> (agent_exn + unit) \<times> agent_world" where
  "maybe_heartbeat sha256 scfg env cfg w =
     (case agent_time env w of
        (now, w) \<Rightarrow>
          if now - aw_last_heartbeat w < ac_heartbeat_interval_s cfg then (Inr (), w)
          else case client_post_heartbeat sha256 scfg env cfg w of
              (Inr _, w) \<Rightarrow> (Inr (), w\<lparr>aw_last_heartbeat := now\<rparr>)
            | (Inl (HttpError _), w) \<Rightarrow> (Inr (), w)
            | (Inl e, w) \<Rightarrow> (Inl e, w))"

text \<open>One pass of the loop body. An exception of the job is logged, one of the heartbeat or of the claim
  that is no HTTP error leaves the loop.\<close>

definition agent_cycle :: "(json \<Rightarrow> string) \<Rightarrow> (agent_detail \<Rightarrow> string) \<Rightarrow> (bytes \<Rightarrow> string) \<Rightarrow> server_config
    \<Rightarrow> agent_env \<Rightarrow> agent_config \<Rightarrow> agent_world \<Rightarrow> ((agent_exn + unit) \<times> agent_world) option" where
  "agent_cycle repr_of render sha256 scfg env cfg w =
     (case maybe_heartbeat sha256 scfg env cfg w of
        (Inl e, w) \<Rightarrow> Some (Inl e, w)
      | (Inr _, w) \<Rightarrow>
          (case client_claim_next sha256 scfg env cfg w of
             (Inl (HttpError _), w) \<Rightarrow> Some (Inr (), w)
           | (Inl e, w) \<Rightarrow> Some (Inl e, w)
           | (Inr None, w) \<Rightarrow> Some (Inr (), w)
           | (Inr (Some job), w) \<Rightarrow>
               map_option (\<lambda>(_, w). (Inr (), w)) (handle_job repr_of render sha256 scfg env cfg job w)))"

partial_function (option) agent_loop :: "(json \<Rightarrow> string) \<Rightarrow> (agent_detail \<Rightarrow> string) \<Rightarrow> (bytes \<Rightarrow> string) \<Rightarrow> server_config
    \<Rightarrow> agent_env \<Rightarrow> agent_config \<Rightarrow> nat option \<Rightarrow> nat \<Rightarrow> agent_world \<Rightarrow> ((agent_exn + unit) \<times> agent_world) option" where
  "agent_loop repr_of render sha256 scfg env cfg max_iterations iterations w =
     (if ae_shutdown env iterations then Some (Inr (), w)
      else case agent_cycle repr_of render sha256 scfg env cfg w of
          None \<Rightarrow> None
        | Some (Inl e, w) \<Rightarrow> Some (Inl e, w)
        | Some (Inr _, w) \<Rightarrow>
            if (case max_iterations of None \<Rightarrow> False | Some m \<Rightarrow> m \<le> iterations + 1) then Some (Inr (), w)
            else agent_loop repr_of render sha256 scfg env cfg max_iterations (iterations + 1) w)"

declare agent_loop.simps [code]

datatype agent_exit = Exit int | Raised agent_exn

definition run_agent :: "(json \<Rightarrow> string) \<Rightarrow> (agent_detail \<Rightarrow> string) \<Rightarrow> (bytes \<Rightarrow> string) \<Rightarrow> server_config
    \<Rightarrow> agent_env \<Rightarrow> agent_config \<Rightarrow> nat option \<Rightarrow> agent_world \<Rightarrow> (agent_exit \<times> agent_world) option" where
  "run_agent repr_of render sha256 scfg env cfg max_iterations w =
     (case ping_health sha256 scfg env cfg w of
        (False, w) \<Rightarrow> Some (Exit 2, w)
      | (True, w) \<Rightarrow>
          map_option (\<lambda>(r, w). (case r of Inl e \<Rightarrow> Raised e | Inr _ \<Rightarrow> Exit 0, w))
            (agent_loop repr_of render sha256 scfg env cfg max_iterations 0 w))"

subsection \<open>The agent acts through the server only\<close>

text \<open>Other clients are clients of the same server.\<close>

definition fair_others :: "(bytes \<Rightarrow> string) \<Rightarrow> server_config \<Rightarrow> agent_env \<Rightarrow> bool" where
  "fair_others sha256 scfg env \<longleftrightarrow> (\<forall>n st. (server_step sha256 scfg)\<^sup>*\<^sup>* st (ae_others env n st))"

abbreviation served :: "(bytes \<Rightarrow> string) \<Rightarrow> server_config \<Rightarrow> agent_world \<Rightarrow> agent_world \<Rightarrow> bool" where
  "served sha256 scfg w w' \<equiv> (server_step sha256 scfg)\<^sup>*\<^sup>* (aw_store w) (aw_store w')"

named_theorems served_intros \<open>operations of the agent change the store by server steps only\<close>

lemma send_served [served_intros]:
  assumes "fair_others sha256 scfg env"
  shows "served sha256 scfg w (snd (send sha256 scfg env cfg req w))"
proof -
  let ?n = "aw_sent w"
  let ?st = "ae_others env ?n (aw_store w)"
  let ?h = "handle sha256 scfg (fst (ae_server_clock env ?n)) (snd (ae_server_clock env ?n)) (session_auth cfg) req ?st"
  have others: "(server_step sha256 scfg)\<^sup>*\<^sup>* (aw_store w) ?st" using assms by (simp add: fair_others_def)
  moreover have "server_step sha256 scfg ?st (snd ?h)" by (rule request_step)
  ultimately have "(server_step sha256 scfg)\<^sup>*\<^sup>* (aw_store w) (snd ?h)" by (rule rtranclp.rtrancl_into_rtrancl)
  with others show ?thesis
    by (cases ?h; cases "ae_net env ?n") (simp_all add: send_def Let_def)
qed

lemma client_served [served_intros]:
  assumes "fair_others sha256 scfg env"
  shows "served sha256 scfg w (snd (client_claim_next sha256 scfg env cfg w))"
    and "served sha256 scfg w (snd (client_download sha256 scfg env cfg url dst w))"
    and "served sha256 scfg w (snd (client_post_status sha256 scfg env cfg i s d r w))"
    and "served sha256 scfg w (snd (client_post_heartbeat sha256 scfg env cfg w))"
    and "served sha256 scfg w (snd (ping_health sha256 scfg env cfg w))"
proof -
  note s = send_served [OF assms]
  show "served sha256 scfg w (snd (client_claim_next sha256 scfg env cfg w))"
    using s [of w cfg "GetJobsNext (Some (ac_id cfg))"]
    by (auto simp: client_claim_next_def split: prod.split sum.split payload.split)
  show "served sha256 scfg w (snd (client_download sha256 scfg env cfg url dst w))"
    using s [of w cfg "GetArtifact url"]
    by (auto simp: client_download_def Let_def split: prod.split sum.split)
  show "served sha256 scfg w (snd (client_post_status sha256 scfg env cfg i s d r w))"
    using s [of w cfg "PostStatus i \<lparr>sb_status = Some (PyStr s), sb_agent_id = Some (ac_id cfg), sb_detail = d,
           sb_report = map_option Some r\<rparr>"]
    by (auto simp: client_post_status_def split: prod.split sum.split)
  show "served sha256 scfg w (snd (client_post_heartbeat sha256 scfg env cfg w))"
    using s [of w cfg "PostHeartbeat (ac_id cfg) (ac_version cfg) (ac_hostname cfg) None"]
    by (auto simp: client_post_heartbeat_def split: prod.split sum.split)
  show "served sha256 scfg w (snd (ping_health sha256 scfg env cfg w))"
    using s [of w cfg GetHealth] by (auto simp: ping_health_def split: prod.split sum.split)
qed

lemma log_http_world [simp]: "snd (log_http p) = snd p"
  by (auto simp: log_http_def split: prod.split sum.split agent_exn.split)

lemma agent_time_store [simp]:
  "aw_store (snd (agent_time env w)) = aw_store w" "aw_inbox (snd (agent_time env w)) = aw_inbox w"
  "aw_sent (snd (agent_time env w)) = aw_sent w"
  by (simp_all add: agent_time_def split: prod.split)

lemma posts_served [served_intros]:
  assumes "fair_others sha256 scfg env"
  shows "served sha256 scfg w (snd (report_fail render sha256 scfg env cfg i d s w))"
    and "served sha256 scfg w (snd (ship_report render sha256 scfg env cfg i rep w))"
  by (simp_all add: report_fail_def ship_report_def client_served [OF assms])

text \<open>The four ways through the part after staging.\<close>

lemma run_staged_cases:
  assumes "run_staged repr_of render sha256 scfg env cfg job w = Some y"
  obtains (post) e w0 where "log_http (client_post_status sha256 scfg env cfg (cj_id job) ''running'' (Some (render Staged)) None w) = (Inl e, w0)"
      "y = (Inl e, w0)"
  | (waited) u w0 now w1 deadline res rig where
      "log_http (client_post_status sha256 scfg env cfg (cj_id job) ''running'' (Some (render Staged)) None w) = (Inr u, w0)"
      "agent_time env w0 = (now, w1)"
      "deadline = trunc now + trunc (of_int (cj_timeout_seconds job) + ac_plugin_wait_max_extra_s cfg)"
      "wait_for_report repr_of (ae_rig env) (cj_id job) deadline
         (drop_trigger (cj_id job) (cj_run_id job) (inbox_name (cj_run_id job)) deadline (cj_metadata job) (aw_rig w1)) = Some (res, rig)"
      "y = (case res of
           Inl e \<Rightarrow> (Inl (PluginExn e), w1\<lparr>aw_rig := rig\<rparr>)
         | Inr None \<Rightarrow> (case agent_time env (w1\<lparr>aw_rig := rig\<rparr>) of (now, w2) \<Rightarrow>
             report_fail render sha256 scfg env cfg (cj_id job) (NoResponse (deadline - trunc now)) ''timed_out'' w2)
         | Inr (Some report) \<Rightarrow> ship_report render sha256 scfg env cfg (cj_id job) report
             (w1\<lparr>aw_rig := ack (ae_rig env) (cj_id job) rig\<rparr>))"
proof -
  obtain r w0 where p: "log_http (client_post_status sha256 scfg env cfg (cj_id job) ''running'' (Some (render Staged)) None w) = (r, w0)"
    by fastforce
  show thesis
  proof (cases r)
    case (Inl e)
    with p assms show thesis by (intro post [of e w0]) (simp_all add: run_staged_def)
  next
    case (Inr u)
    obtain now w1 where t: "agent_time env w0 = (now, w1)" by fastforce
    define deadline where "deadline = trunc now + trunc (of_int (cj_timeout_seconds job) + ac_plugin_wait_max_extra_s cfg)"
    let ?wait = "wait_for_report repr_of (ae_rig env) (cj_id job) deadline
         (drop_trigger (cj_id job) (cj_run_id job) (inbox_name (cj_run_id job)) deadline (cj_metadata job) (aw_rig w1))"
    have run: "run_staged repr_of render sha256 scfg env cfg job w =
      (case ?wait of None \<Rightarrow> None
       | Some (Inl e, rig) \<Rightarrow> Some (Inl (PluginExn e), w1\<lparr>aw_rig := rig\<rparr>)
       | Some (Inr None, rig) \<Rightarrow> (case agent_time env (w1\<lparr>aw_rig := rig\<rparr>) of (now, w2) \<Rightarrow>
             Some (report_fail render sha256 scfg env cfg (cj_id job) (NoResponse (deadline - trunc now)) ''timed_out'' w2))
       | Some (Inr (Some report), rig) \<Rightarrow> Some (ship_report render sha256 scfg env cfg (cj_id job) report
             (w1\<lparr>aw_rig := ack (ae_rig env) (cj_id job) rig\<rparr>)))"
      using p Inr t by (simp add: run_staged_def Let_def deadline_def split: option.split sum.split prod.split)
    show thesis
    proof (cases ?wait)
      case None
      with run assms show thesis by simp
    next
      case (Some q)
      obtain res rig where q: "q = (res, rig)" by fastforce
      show thesis
        using run assms Some q p Inr t
        by (intro waited [OF p [unfolded Inr] t deadline_def, of res rig])
          (simp_all split: sum.splits option.splits prod.splits)
    qed
  qed
qed

lemma run_staged_served:
  assumes "fair_others sha256 scfg env"
    and "run_staged repr_of render sha256 scfg env cfg job w = Some y"
  shows "served sha256 scfg w (snd y)"
  using assms(2)
proof (cases rule: run_staged_cases)
  case (post e w0)
  then show ?thesis
    using client_served(3) [OF assms(1), of w cfg "cj_id job" "''running''" "Some (render Staged)" None]
    by (metis log_http_world snd_conv)
next
  case (waited u w0 now w1 deadline res rig)
  have "served sha256 scfg w w0"
    using client_served(3) [OF assms(1), of w cfg "cj_id job" "''running''" "Some (render Staged)" None] waited(1)
    by (metis log_http_world snd_conv)
  then have 1: "served sha256 scfg w w1"
    using agent_time_store(1) [of env w0] waited(2) by simp
  have 2: "served sha256 scfg w1 (snd y)"
    using waited(5) agent_time_store(1) [of env "w1\<lparr>aw_rig := rig\<rparr>"]
      posts_served(1) [OF assms(1), of "snd (agent_time env (w1\<lparr>aw_rig := rig\<rparr>))"]
      posts_served(2) [OF assms(1), of "w1\<lparr>aw_rig := ack (ae_rig env) (cj_id job) rig\<rparr>"]
    by (auto split: sum.splits option.splits prod.splits)
  show ?thesis using rtranclp_trans [OF 1 2] .
qed

text \<open>The ways through a job: the download fails, the artifact is not the job's, or it is staged.\<close>

definition staged_data :: "claimed_job \<Rightarrow> agent_world \<Rightarrow> bytes" where
  "staged_data job w = (case aw_inbox w (inbox_name (cj_run_id job)) of None \<Rightarrow> [] | Some data \<Rightarrow> data)"

definition verified :: "(bytes \<Rightarrow> string) \<Rightarrow> claimed_job \<Rightarrow> nat \<Rightarrow> agent_world \<Rightarrow> bool" where
  "verified sha256 job got w \<longleftrightarrow> int got = cj_artifact_size job \<and> sha256 (staged_data job w) = cj_artifact_sha256 job"

lemma handle_job_cases:
  assumes "handle_job repr_of render sha256 scfg env cfg job w = Some y"
    and "w1 = w\<lparr>aw_rig := clear_stale (ae_rig env) (cj_id job) (aw_rig w)\<rparr>"
  obtains (raised) e w2 where
      "client_download sha256 scfg env cfg (cj_artifact_url job) (inbox_name (cj_run_id job)) w1 = (Inl e, w2)" "y = (Inl e, w2)"
  | (no_download) code w2 where
      "client_download sha256 scfg env cfg (cj_artifact_url job) (inbox_name (cj_run_id job)) w1 = (Inl (HttpError code), w2)"
      "y = report_fail render sha256 scfg env cfg (cj_id job) (DownloadFailed code) ''failed'' w2"
  | (mismatch) got w2 detail where
      "client_download sha256 scfg env cfg (cj_artifact_url job) (inbox_name (cj_run_id job)) w1 = (Inr got, w2)"
      "\<not> verified sha256 job got w2"
      "y = report_fail render sha256 scfg env cfg (cj_id job) detail ''failed'' w2"
  | (ready) got w2 where
      "client_download sha256 scfg env cfg (cj_artifact_url job) (inbox_name (cj_run_id job)) w1 = (Inr got, w2)"
      "verified sha256 job got w2"
      "run_staged repr_of render sha256 scfg env cfg job w2 = Some y"
proof -
  obtain r w2 where d: "client_download sha256 scfg env cfg (cj_artifact_url job) (inbox_name (cj_run_id job)) w1 = (r, w2)"
    by fastforce
  note run = assms(1) [unfolded handle_job_def Let_def assms(2) [symmetric] d staged_data_def [symmetric]]
  show thesis
  proof (cases r)
    case (Inl e)
    show thesis
    proof (cases e)
      case (HttpError code)
      with run Inl d show thesis by (intro no_download [of code w2]) simp_all
    next
      case RequestError
      with run Inl d show thesis by (intro raised [of e w2]) simp_all
    next
      case (PluginExn x)
      with run Inl d show thesis by (intro raised [of e w2]) simp_all
    qed
  next
    case (Inr got)
    consider "int got \<noteq> cj_artifact_size job" | "int got = cj_artifact_size job" "sha256 (staged_data job w2) \<noteq> cj_artifact_sha256 job"
      | "verified sha256 job got w2" by (auto simp: verified_def)
    then show thesis
    proof cases
      case 1
      with run Inr d show thesis by (intro mismatch [of got w2 "SizeMismatch (cj_artifact_size job) got"]) (simp_all add: verified_def)
    next
      case 2
      with run Inr d show thesis by (intro mismatch [of got w2 "HashMismatch (cj_artifact_sha256 job) (sha256 (staged_data job w2))"]) (simp_all add: verified_def)
    next
      case 3
      with run Inr d show thesis by (intro ready [of got w2]) (simp_all add: verified_def)
    qed
  qed
qed

lemma handle_job_served:
  assumes fair: "fair_others sha256 scfg env"
    and "handle_job repr_of render sha256 scfg env cfg job w = Some y"
  shows "served sha256 scfg w (snd y)"
proof -
  define w1 where "w1 = w\<lparr>aw_rig := clear_stale (ae_rig env) (cj_id job) (aw_rig w)\<rparr>"
  let ?dl = "client_download sha256 scfg env cfg (cj_artifact_url job) (inbox_name (cj_run_id job)) w1"
  have dl: "served sha256 scfg w (snd ?dl)"
    using client_served(2) [OF fair, of w1] by (simp add: w1_def)
  show ?thesis
    using assms(2) w1_def
  proof (cases rule: handle_job_cases)
    case (raised e w2)
    with dl show ?thesis by simp
  next
    case (no_download code w2)
    with dl show ?thesis using rtranclp_trans [OF _ posts_served(1) [OF fair]] by (metis snd_conv)
  next
    case (mismatch got w2 detail)
    with dl show ?thesis using rtranclp_trans [OF _ posts_served(1) [OF fair]] by (metis snd_conv)
  next
    case (ready got w2)
    with dl show ?thesis using rtranclp_trans [OF _ run_staged_served [OF fair]] by (metis snd_conv)
  qed
qed

lemma maybe_heartbeat_served:
  assumes "fair_others sha256 scfg env"
  shows "served sha256 scfg w (snd (maybe_heartbeat sha256 scfg env cfg w))"
proof -
  obtain now w1 where t: "agent_time env w = (now, w1)" by fastforce
  then have "aw_store w1 = aw_store w" using agent_time_store(1) [of env w] by simp
  with client_served(4) [OF assms, of w1 cfg] t show ?thesis
    by (auto simp: maybe_heartbeat_def split: prod.split sum.split agent_exn.split)
qed

lemma agent_cycle_cases:
  assumes "agent_cycle repr_of render sha256 scfg env cfg w = Some y"
  obtains (beat) e w1 where "maybe_heartbeat sha256 scfg env cfg w = (Inl e, w1)" "y = (Inl e, w1)"
  | (no_job) u w1 c where "maybe_heartbeat sha256 scfg env cfg w = (Inr u, w1)"
      "fst (client_claim_next sha256 scfg env cfg w1) = c" "c = Inr None \<or> (\<exists>e. c = Inl e)"
      "y = (case c of Inl RequestError \<Rightarrow> (Inl RequestError, snd (client_claim_next sha256 scfg env cfg w1))
        | Inl (PluginExn e) \<Rightarrow> (Inl (PluginExn e), snd (client_claim_next sha256 scfg env cfg w1))
        | _ \<Rightarrow> (Inr (), snd (client_claim_next sha256 scfg env cfg w1)))"
  | (job) u w1 j w2 r w3 where "maybe_heartbeat sha256 scfg env cfg w = (Inr u, w1)"
      "client_claim_next sha256 scfg env cfg w1 = (Inr (Some j), w2)"
      "handle_job repr_of render sha256 scfg env cfg j w2 = Some (r, w3)" "y = (Inr (), w3)"
proof -
  obtain b w1 where b: "maybe_heartbeat sha256 scfg env cfg w = (b, w1)" by fastforce
  show thesis
  proof (cases b)
    case (Inl e)
    with b assms show thesis by (intro beat [of e w1]) (simp_all add: agent_cycle_def)
  next
    case (Inr u)
    obtain c w2 where c: "client_claim_next sha256 scfg env cfg w1 = (c, w2)" by fastforce
    show thesis
    proof (cases "\<exists>j. c = Inr (Some j)")
      case True
      with b Inr c assms show thesis by (auto simp: agent_cycle_def intro: job)
    next
      case False
      with b Inr c assms show thesis
        by (intro no_job [of u w1 c])
          (auto simp: agent_cycle_def split: sum.splits option.splits agent_exn.splits)
    qed
  qed
qed

lemma agent_cycle_served:
  assumes fair: "fair_others sha256 scfg env"
    and "agent_cycle repr_of render sha256 scfg env cfg w = Some y"
  shows "served sha256 scfg w (snd y)"
  using assms(2)
proof (cases rule: agent_cycle_cases)
  case (beat e w1)
  then show ?thesis using maybe_heartbeat_served [OF fair, of w cfg] by simp
next
  case (no_job u w1 c)
  have y: "snd y = snd (client_claim_next sha256 scfg env cfg w1)"
    using no_job(4) by (auto split: sum.splits agent_exn.splits)
  have "served sha256 scfg w w1" using maybe_heartbeat_served [OF fair, of w cfg] no_job(1) by simp
  also have "served sha256 scfg w1 (snd y)" using client_served(1) [OF fair, of w1 cfg] y by simp
  finally show ?thesis .
next
  case (job u w1 j w2 r w3)
  have "served sha256 scfg w w1" using maybe_heartbeat_served [OF fair, of w cfg] job(1) by simp
  also have "served sha256 scfg w1 w2" using client_served(1) [OF fair, of w1 cfg] job(2) by simp
  also have "served sha256 scfg w2 w3" using handle_job_served [OF fair job(3)] by simp
  finally show ?thesis using job(4) by simp
qed

lemma agent_loop_served:
  "agent_loop repr_of render sha256 scfg env cfg m n w = Some y \<Longrightarrow>
     fair_others sha256 scfg env \<Longrightarrow> served sha256 scfg w (snd y)"
proof (induction rule: agent_loop.raw_induct [rotated 1, consumes 1, case_names step])
  case (step loop repr_of render sha256 scfg env cfg m n w y)
  show ?case
  proof (cases "ae_shutdown env n")
    case True
    with step.hyps show ?thesis by auto
  next
    case False
    then obtain r w1 where c: "agent_cycle repr_of render sha256 scfg env cfg w = Some (r, w1)"
      using step.hyps by (auto split: option.splits)
    have s: "served sha256 scfg w w1" using agent_cycle_served [OF step.prems c] by simp
    have "y = (r, w1) \<or> loop repr_of render sha256 scfg env cfg m (n + 1) w1 = Some y \<or> snd y = w1"
      using step.hyps False c by (auto split: sum.splits if_splits)
    then show ?thesis
      using s step.IH [OF _ step.prems, of repr_of render cfg m "n + 1" w1 y] rtranclp_trans [OF s] by auto
  qed
qed

lemma run_agent_served:
  assumes fair: "fair_others sha256 scfg env"
    and run: "run_agent repr_of render sha256 scfg env cfg m w = Some (x, w')"
  shows "served sha256 scfg w w'"
proof -
  obtain b w1 where p: "ping_health sha256 scfg env cfg w = (b, w1)" by fastforce
  have s: "served sha256 scfg w w1" using client_served(5) [OF fair, of w cfg] p by simp
  show ?thesis
  proof (cases b)
    case False
    with run p s show ?thesis by (simp add: run_agent_def)
  next
    case True
    with run p obtain y where y: "agent_loop repr_of render sha256 scfg env cfg m 0 w1 = Some y" "snd y = w'"
      by (auto simp: run_agent_def)
    from agent_loop_served [OF y(1) fair] s y(2) show ?thesis by auto
  qed
qed

end
