(* ===== verification/Agent_Jobs.thy ===== *)
theory Agent_Jobs
  imports Remote_Agent
begin

section \<open>What becomes of a job in the hands of an agent\<close>

text \<open>
  The end-to-end behaviour of agent, server and plugin over the definitions of \<open>Remote_Agent\<close>. The first
  part holds for every network and every other client: which file a trigger names. The second part is
  about an environment whose requests are all answered (\<open>answered\<close>, a reply may still carry a corrupted
  file) with no other client at work: the status a job ends in, that the agent returns, and that it
  empties the queue.
\<close>

subsection \<open>What the operations leave alone\<close>

named_theorems rig_frame \<open>operations of the agent that leave rig directory and inbox alone\<close>

lemma send_frame [rig_frame]:
  "aw_rig (snd (send sha256 scfg env cfg req w)) = aw_rig w"
  "aw_inbox (snd (send sha256 scfg env cfg req w)) = aw_inbox w"
  "aw_last_heartbeat (snd (send sha256 scfg env cfg req w)) = aw_last_heartbeat w"
  by (simp_all add: send_def Let_def split: prod.split net.split)

lemma client_frame [rig_frame]:
  "aw_rig (snd (client_claim_next sha256 scfg env cfg w)) = aw_rig w"
  "aw_inbox (snd (client_claim_next sha256 scfg env cfg w)) = aw_inbox w"
  "aw_rig (snd (client_post_status sha256 scfg env cfg i s d r w)) = aw_rig w"
  "aw_inbox (snd (client_post_status sha256 scfg env cfg i s d r w)) = aw_inbox w"
  "aw_rig (snd (client_post_heartbeat sha256 scfg env cfg w)) = aw_rig w"
  "aw_inbox (snd (client_post_heartbeat sha256 scfg env cfg w)) = aw_inbox w"
  "aw_rig (snd (client_download sha256 scfg env cfg url dst w)) = aw_rig w"
  using send_frame [of sha256 scfg env cfg "GetJobsNext (Some (ac_id cfg))" w]
    send_frame [of sha256 scfg env cfg "PostStatus i \<lparr>sb_status = Some (PyStr s), sb_agent_id = Some (ac_id cfg), sb_detail = d,
           sb_report = map_option Some r\<rparr>" w]
    send_frame [of sha256 scfg env cfg "PostHeartbeat (ac_id cfg) (ac_version cfg) (ac_hostname cfg) None" w]
    send_frame [of sha256 scfg env cfg "GetArtifact url" w]
  by (auto simp: client_claim_next_def client_post_status_def client_post_heartbeat_def client_download_def Let_def
      split: prod.split sum.split payload.split)

lemma posts_frame [rig_frame]:
  "aw_rig (snd (report_fail render sha256 scfg env cfg i d s w)) = aw_rig w"
  "aw_inbox (snd (report_fail render sha256 scfg env cfg i d s w)) = aw_inbox w"
  "aw_rig (snd (ship_report render sha256 scfg env cfg i rep w)) = aw_rig w"
  "aw_inbox (snd (ship_report render sha256 scfg env cfg i rep w)) = aw_inbox w"
  by (simp_all add: report_fail_def ship_report_def client_frame)

lemma time_frame [rig_frame]:
  "rw_in (aw_rig (snd (agent_time env w))) = rw_in (aw_rig w)"
  "aw_inbox (snd (agent_time env w)) = aw_inbox w"
  by (simp_all add: agent_time_def read_clock_def)

lemma heartbeat_frame [rig_frame]:
  "rw_in (aw_rig (snd (maybe_heartbeat sha256 scfg env cfg w))) = rw_in (aw_rig w)"
  "aw_inbox (snd (maybe_heartbeat sha256 scfg env cfg w)) = aw_inbox w"
proof -
  obtain now w1 where t: "agent_time env w = (now, w1)" by fastforce
  have f: "rw_in (aw_rig w1) = rw_in (aw_rig w)" "aw_inbox w1 = aw_inbox w"
    using time_frame [of env w] t by simp_all
  have c: "aw_rig (snd (client_post_heartbeat sha256 scfg env cfg w1)) = aw_rig w1"
    "aw_inbox (snd (client_post_heartbeat sha256 scfg env cfg w1)) = aw_inbox w1" by (simp_all add: client_frame)
  show "rw_in (aw_rig (snd (maybe_heartbeat sha256 scfg env cfg w))) = rw_in (aw_rig w)"
    "aw_inbox (snd (maybe_heartbeat sha256 scfg env cfg w)) = aw_inbox w"
    using t f c by (auto simp: maybe_heartbeat_def split: prod.split sum.split agent_exn.split)
qed

lemma clear_stale_in: "rw_in (clear_stale env i w) k = Some tr \<Longrightarrow> rw_in w k = Some tr"
  by (auto simp: clear_stale_def unlink_in_def split: if_splits)

lemma download_inbox:
  assumes "client_download sha256 scfg env cfg url dst w = (Inr got, w')"
  shows "\<exists>data. aw_inbox w' = (aw_inbox w)(dst \<mapsto> data) \<and> length data = got"
proof -
  obtain r w1 where s: "send sha256 scfg env cfg (GetArtifact url) w = (r, w1)" by fastforce
  have "aw_inbox w1 = aw_inbox w" using send_frame(2) [of sha256 scfg env cfg "GetArtifact url" w] s by simp
  with assms s show ?thesis
    by (auto simp: client_download_def Let_def split: sum.splits if_splits)
qed

subsection \<open>Triggers\<close>

definition artifact_ok :: "(bytes \<Rightarrow> string) \<Rightarrow> claimed_job \<Rightarrow> agent_world \<Rightarrow> bool" where
  "artifact_ok sha256 job w \<longleftrightarrow>
     (\<exists>data. aw_inbox w (inbox_name (cj_run_id job)) = Some data \<and> int (length data) = cj_artifact_size job \<and>
        sha256 data = cj_artifact_sha256 job)"

lemma verified_artifact_ok:
  assumes "client_download sha256 scfg env cfg url (inbox_name (cj_run_id job)) w = (Inr got, w')"
  shows "verified sha256 job got w' \<longleftrightarrow> artifact_ok sha256 job w'"
  using download_inbox [OF assms] by (auto simp: verified_def artifact_ok_def staged_data_def)

lemma wait_in: "wait_for_report repr_of env i deadline w = Some (res, w') \<Longrightarrow> rw_in w' = rw_in w"
  using wait_result by fastforce

lemma run_staged_frame:
  assumes "run_staged repr_of render sha256 scfg env cfg job w = Some y"
  shows "aw_inbox (snd y) = aw_inbox w"
    and "rw_in (aw_rig (snd y)) k = Some tr \<Longrightarrow> rw_in (aw_rig w) k = Some tr \<or>
      (k = cj_id job \<and> tr_job_id tr = cj_id job \<and> tr_run_id tr = cj_run_id job \<and> tr_map_file tr = inbox_name (cj_run_id job))"
proof -
  let ?post = "client_post_status sha256 scfg env cfg (cj_id job) ''running'' (Some (render Staged)) None w"
  have post: "aw_rig (snd (log_http ?post)) = aw_rig w" "aw_inbox (snd (log_http ?post)) = aw_inbox w"
    by (simp_all add: client_frame)
  have "aw_inbox (snd y) = aw_inbox w \<and> (rw_in (aw_rig (snd y)) k = Some tr \<longrightarrow> rw_in (aw_rig w) k = Some tr \<or>
      (k = cj_id job \<and> tr_job_id tr = cj_id job \<and> tr_run_id tr = cj_run_id job \<and> tr_map_file tr = inbox_name (cj_run_id job)))"
    using assms
  proof (cases rule: run_staged_cases)
    case (post e w0)
    have "aw_rig w0 = aw_rig w" "aw_inbox w0 = aw_inbox w"
      using client_frame(3,4) [of sha256 scfg env cfg "cj_id job" "''running''" "Some (render Staged)" None w] post(1)
      by (metis log_http_world snd_conv)+
    with post(2) show ?thesis by simp
  next
    case (waited u w0 now w1 deadline res rig)
    have w0: "aw_rig w0 = aw_rig w" "aw_inbox w0 = aw_inbox w" using post waited(1) by simp_all
    have w1: "rw_in (aw_rig w1) = rw_in (aw_rig w)" "aw_inbox w1 = aw_inbox w"
      using time_frame [of env w0] waited(2) w0 by simp_all
    have rig: "rw_in rig = rw_in (drop_trigger (cj_id job) (cj_run_id job) (inbox_name (cj_run_id job)) deadline (cj_metadata job) (aw_rig w1))"
      by (rule wait_in [OF waited(4)])
    have y: "rw_in (aw_rig (snd y)) = rw_in rig \<and> aw_inbox (snd y) = aw_inbox w1"
    proof (cases res)
      case (Inl e)
      with waited(5) show ?thesis by simp
    next
      case (Inr rep)
      show ?thesis
      proof (cases rep)
        case None
        obtain now' w2 where t: "agent_time env (w1\<lparr>aw_rig := rig\<rparr>) = (now', w2)" by fastforce
        have "rw_in (aw_rig w2) = rw_in rig" "aw_inbox w2 = aw_inbox w1"
          using time_frame [of env "w1\<lparr>aw_rig := rig\<rparr>"] t by simp_all
        with waited(5) Inr None t show ?thesis by (simp add: posts_frame)
      next
        case (Some r)
        with waited(5) Inr show ?thesis by (simp add: posts_frame ack_def)
      qed
    qed
    with rig w1 show ?thesis by (auto simp: drop_trigger_def split: if_splits)
  qed
  then show "aw_inbox (snd y) = aw_inbox w"
    and "rw_in (aw_rig (snd y)) k = Some tr \<Longrightarrow> rw_in (aw_rig w) k = Some tr \<or>
      (k = cj_id job \<and> tr_job_id tr = cj_id job \<and> tr_run_id tr = cj_run_id job \<and> tr_map_file tr = inbox_name (cj_run_id job))"
    by blast+
qed

lemma handle_job_trigger:
  assumes "handle_job repr_of render sha256 scfg env cfg job w = Some y"
    and "rw_in (aw_rig (snd y)) k = Some tr"
  shows "rw_in (aw_rig w) k = Some tr \<or>
    (k = cj_id job \<and> tr_job_id tr = cj_id job \<and> tr_run_id tr = cj_run_id job \<and> tr_map_file tr = inbox_name (cj_run_id job) \<and>
     artifact_ok sha256 job (snd y))"
proof -
  define w1 where "w1 = w\<lparr>aw_rig := clear_stale (ae_rig env) (cj_id job) (aw_rig w)\<rparr>"
  have stale: "rw_in (aw_rig w) k = Some tr" if "rw_in (aw_rig w1) k = Some tr"
    using that clear_stale_in [of "ae_rig env" "cj_id job" "aw_rig w" k tr] by (simp add: w1_def)
  have dl: "aw_rig w2 = aw_rig w1"
    if "client_download sha256 scfg env cfg (cj_artifact_url job) (inbox_name (cj_run_id job)) w1 = (r, w2)" for r w2
    using client_frame(7) [of sha256 scfg env cfg "cj_artifact_url job" "inbox_name (cj_run_id job)" w1] that by simp
  show ?thesis
    using assms(1) w1_def
  proof (cases rule: handle_job_cases)
    case (raised e w2)
    with dl stale assms(2) show ?thesis by simp
  next
    case (no_download code w2)
    with dl stale assms(2) show ?thesis by (simp add: posts_frame)
  next
    case (mismatch got w2 detail)
    with dl stale assms(2) show ?thesis by (simp add: posts_frame)
  next
    case (ready got w2)
    have "artifact_ok sha256 job w2" using verified_artifact_ok [OF ready(1)] ready(2) by simp
    then have "artifact_ok sha256 job (snd y)" by (simp add: artifact_ok_def run_staged_frame(1) [OF ready(3)])
    with run_staged_frame(2) [OF ready(3) assms(2)] dl [OF ready(1)] stale show ?thesis by auto
  qed
qed

subsection \<open>Claims\<close>

lemma handle_claim:
  assumes wf: "store_wf sha256 st"
    and "handle sha256 scfg now now' au (GetJobsNext (Some a)) st = (r, st')" and "rp_body r = AgentJobBody j"
  shows "store_get (jb_id j) st' = Some j \<and> jb_status j = CLAIMED \<and> jb_agent_id j = Some (py_strip a) \<and>
    py_strip a \<noteq> [] \<and> store_wf sha256 st'"
proof -
  let ?sw = "snd (sweep_timeouts now st)"
  have sw: "store_wf sha256 ?sw" by (rule sweep_wf [OF wf])
  from assms(2,3) have c: "claim_next_job now now' (Some a) st = (r, st')"
    by (auto simp: handle_def dispatch_def respond_def split: if_splits)
  with assms(3) have a: "py_strip a \<noteq> []" by (auto simp: claim_next_job_def Let_def respond_def)
  show ?thesis
  proof (cases "oldest_queued ?sw")
    case None
    with c a assms(3) show ?thesis by (auto simp: claim_next_job_def claim_next_def Let_def respond_def)
  next
    case (Some row)
    note row = claim_next_row [OF sw a Some]
    from c a row(1) assms(3) have "j = claim_row now' (py_strip a) row"
      "st' = update_job (jb_id row) (claim_row now' (py_strip a)) ?sw"
      by (auto simp: claim_next_job_def Let_def respond_def)
    moreover have "store_wf sha256 (snd (claim_next now' (py_strip a) ?sw))" by (rule claim_wf [OF sw])
    ultimately show ?thesis
      using row(1,2,3) a by (simp add: store_get_update claim_row_def)
  qed
qed

lemma others_wf:
  assumes "fair_others sha256 scfg env" and "store_wf sha256 st"
  shows "store_wf sha256 (ae_others env n st)"
  using server.inv_steps [of sha256 scfg st "ae_others env n st"] assms by (simp add: fair_others_def)

lemma claim_from_store:
  assumes fair: "fair_others sha256 scfg env" and wf: "store_wf sha256 (aw_store w)"
    and claim: "client_claim_next sha256 scfg env cfg w = (Inr (Some job), w')"
  obtains row where "store_get (cj_id job) (aw_store w') = Some row" "job = claimed_of row" "jb_status row = CLAIMED"
    "jb_agent_id row = Some (py_strip (ac_id cfg))" "store_wf sha256 (aw_store w')"
proof -
  let ?n = "aw_sent w"
  let ?req = "GetJobsNext (Some (ac_id cfg))"
  let ?st = "ae_others env ?n (aw_store w)"
  obtain resp st' where h: "handle sha256 scfg (fst (ae_server_clock env ?n)) (snd (ae_server_clock env ?n)) (session_auth cfg) ?req ?st = (resp, st')"
    by fastforce
  obtain r w1 where s: "send sha256 scfg env cfg ?req w = (Inr r, w1)" "w1 = w'" and "rp_status r = 200"
    and body: "\<exists>j. rp_body r = AgentJobBody j \<and> job = claimed_of j"
    using claim by (auto simp: client_claim_next_def split: prod.splits sum.splits if_splits payload.splits)
  then obtain j where j: "rp_body r = AgentJobBody j" "job = claimed_of j" by blast
  have "rp_body resp = AgentJobBody j \<and> aw_store w' = st'"
    using s h j by (auto simp: send_def Let_def respond_def tampered_def split: net.splits payload.splits)
  with handle_claim [OF others_wf [OF fair wf] h] j show thesis
    by (intro that [of j]) (simp_all add: claimed_of_def)
qed

text \<open>
  C10. Only verified files reach the game: whatever the network does to the agent's requests and replies,
  whatever other clients do and whatever the plugin writes, a trigger in the rig directory after a pass of
  the agent loop either was there before, or belongs to a job of the server, carries that job's
  identifier and run, and names a file in the inbox whose length and hash are those the server recorded
  for the job.
\<close>

theorem trigger_verified:
  assumes "fair_others sha256 scfg env" and "store_wf sha256 (aw_store w)"
    and "agent_cycle repr_of render sha256 scfg env cfg w = Some (r, w')"
    and "rw_in (aw_rig w') i = Some tr"
  shows "rw_in (aw_rig w) i = Some tr \<or>
    (\<exists>row \<in> set (js_jobs (aw_store w')). jb_id row = i \<and> tr_job_id tr = i \<and> tr_run_id tr = jb_run_id row \<and>
      (\<exists>data. aw_inbox w' (tr_map_file tr) = Some data \<and> length data = jb_artifact_size row \<and>
        sha256 data = jb_artifact_sha256 row))"
  using assms(3)
proof (cases rule: agent_cycle_cases)
  case (beat e w1)
  then show ?thesis using heartbeat_frame(1) [of sha256 scfg env cfg w] assms(4) by simp
next
  case (no_job u w1 c)
  have "w' = snd (client_claim_next sha256 scfg env cfg w1)"
    using no_job(4) by (auto split: sum.splits agent_exn.splits)
  then show ?thesis
    using heartbeat_frame(1) [of sha256 scfg env cfg w] client_frame(1) [of sha256 scfg env cfg w1] no_job(1) assms(4) by simp
next
  case (job u w1 j w2 r2 w3)
  have w1: "rw_in (aw_rig w1) = rw_in (aw_rig w)" using heartbeat_frame(1) [of sha256 scfg env cfg w] job(1) by simp
  have w2: "rw_in (aw_rig w2) = rw_in (aw_rig w)" using client_frame(1) [of sha256 scfg env cfg w1] job(2) w1 by simp
  have "served sha256 scfg w w1" using maybe_heartbeat_served [OF assms(1), of w cfg] job(1) by simp
  then have wf1: "store_wf sha256 (aw_store w1)" using server.inv_steps assms(2) by blast
  obtain row where row: "store_get (cj_id j) (aw_store w2) = Some row" "j = claimed_of row" "store_wf sha256 (aw_store w2)"
    using claim_from_store [OF assms(1) wf1 job(2)] by blast
  note mem = store_get_Some [OF row(1)]
  have "served sha256 scfg w2 w3" using handle_job_served [OF assms(1) job(3)] by simp
  from server.steps_evolve [OF this row(3)] mem obtain row'
    where row': "row' \<in> set (js_jobs (aw_store w3))" "job_evolves row row'" by blast
  from handle_job_trigger [OF job(3), of i tr] job(4) assms(4) w2 consider "rw_in (aw_rig w) i = Some tr"
    | "i = cj_id j" "tr_job_id tr = cj_id j" "tr_run_id tr = cj_run_id j" "tr_map_file tr = inbox_name (cj_run_id j)"
      "artifact_ok sha256 j w3" by auto
  then show ?thesis
  proof cases
    case 2
    have same: "jb_id row' = cj_id j" "jb_run_id row' = cj_run_id j" "int (jb_artifact_size row') = cj_artifact_size j"
      "jb_artifact_sha256 row' = cj_artifact_sha256 j"
      using row'(2) row(2) by (simp_all add: job_evolves_def claimed_of_def)
    from 2(5) obtain data where "aw_inbox w3 (tr_map_file tr) = Some data" "length data = jb_artifact_size row'"
      "sha256 data = jb_artifact_sha256 row'" unfolding artifact_ok_def 2(4) using same by auto
    with 2 same row'(1) job(4) show ?thesis by auto
  qed simp
qed

text \<open>
  C25. Agents cannot break the queue: whatever the network, the plugin and other clients do, a run of the
  agent leaves a well-formed store in which no job has been lost, every job has only moved along the
  transition graph, and the terminal ones are unchanged.
\<close>

theorem agent_keeps_store:
  assumes "fair_others sha256 scfg env" and "store_wf sha256 (aw_store w)"
    and "run_agent repr_of render sha256 scfg env cfg m w = Some (x, w')"
  shows "store_wf sha256 (aw_store w') \<and>
    (\<forall>j \<in> set (js_jobs (aw_store w)). \<exists>j' \<in> set (js_jobs (aw_store w')). job_evolves j j') \<and>
    (\<forall>j \<in> set (js_jobs (aw_store w)). is_terminal (jb_status j) \<longrightarrow> j \<in> set (js_jobs (aw_store w')))"
proof -
  note served = run_agent_served [OF assms(1,3)]
  show ?thesis
    using server.inv_steps [OF served assms(2)] server.steps_evolve [OF served assms(2)]
      server.terminal_kept [OF served assms(2)] by blast
qed

subsection \<open>An environment that answers\<close>

definition answered :: "agent_env \<Rightarrow> bool" where
  "answered env \<longleftrightarrow> (\<forall>n. (ae_net env n = Deliver \<or> (\<exists>data. ae_net env n = Tamper data)) \<and> (\<forall>st. ae_others env n st = st))"

lemma answered_fair: "answered env \<Longrightarrow> fair_others sha256 scfg env"
  by (simp add: answered_def fair_others_def)

definition reply :: "net \<Rightarrow> response \<Rightarrow> response" where
  "reply n r = (case n of Tamper data \<Rightarrow> tampered data r | _ \<Rightarrow> r)"

lemma reply_body [simp]:
  "rp_status (reply n r) = rp_status r" "\<forall>d name. rp_body r \<noteq> FileBody d name \<Longrightarrow> reply n r = r"
  by (auto simp: reply_def tampered_def split: net.split payload.split)

definition clock_at :: "agent_env \<Rightarrow> agent_world \<Rightarrow> int" where
  "clock_at env w = fst (ae_server_clock env (aw_sent w))"

lemma send_answered:
  assumes "answered env"
    and "handle sha256 scfg (clock_at env w) (snd (ae_server_clock env (aw_sent w))) (session_auth cfg) req (aw_store w) = (resp, st')"
  shows "send sha256 scfg env cfg req w =
    (Inr (reply (ae_net env (aw_sent w)) resp), w\<lparr>aw_sent := aw_sent w + 1, aw_store := st'\<rparr>)"
proof -
  have "ae_others env (aw_sent w) (aw_store w) = aw_store w"
    "ae_net env (aw_sent w) = Deliver \<or> (\<exists>data. ae_net env (aw_sent w) = Tamper data)"
    using assms(1) by (simp_all add: answered_def)
  with assms(2) show ?thesis by (auto simp: send_def Let_def reply_def clock_at_def)
qed

text \<open>A status the transition table allows for the agent's own job is recorded.\<close>

lemma post_applied:
  assumes "answered env" and "authorised scfg (session_auth cfg)"
    and "store_get i (aw_store w) = Some row" and "jb_agent_id row = Some (ac_id cfg)"
    and "status_of_value str = Some s" and "str \<noteq> []" and "s \<in> allowed_transitions (jb_status row)"
  shows "client_post_status sha256 scfg env cfg i str d rep w =
    (Inr (), w\<lparr>aw_sent := aw_sent w + 1, aw_store := update_job i (apply_transition (clock_at env w) s d rep) (aw_store w)\<rparr>)"
proof -
  let ?req = "PostStatus i \<lparr>sb_status = Some (PyStr str), sb_agent_id = Some (ac_id cfg), sb_detail = d, sb_report = map_option Some rep\<rparr>"
  have rep: "(case map_option Some rep of Some r \<Rightarrow> r | None \<Rightarrow> None) = rep" "map_option Some rep \<noteq> Some None"
    by (cases rep; simp)+
  have "handle sha256 scfg (clock_at env w) (snd (ae_server_clock env (aw_sent w))) (session_auth cfg) ?req (aw_store w) =
      (respond 200 (JobBody (apply_transition (clock_at env w) s d rep row)),
       update_job i (apply_transition (clock_at env w) s d rep) (aw_store w))"
    using assms(2,5,6) rep
    by (simp add: handle_def dispatch_def post_status_def transition_applies [OF assms(3,7,4)])
  from send_answered [OF assms(1) this] show ?thesis
    by (simp add: client_post_status_def respond_def)
qed

lemma row_after_post:
  assumes "store_get i st = Some row"
  shows "store_get k (update_job i (apply_transition now s d rep) st) =
    (if k = i then Some (apply_transition now s d rep row) else store_get k st)"
  using assms by (simp add: store_get_update apply_transition_def)

text \<open>Every known job's artifact is served.\<close>

lemma download_answered:
  assumes "answered env" and "authorised scfg (session_auth cfg)" and "store_wf sha256 (aw_store w)"
    and "store_get i (aw_store w) = Some row"
  obtains got w' where "client_download sha256 scfg env cfg i dst w = (Inr got, w')" "aw_store w' = aw_store w"
    "aw_sent w' = aw_sent w + 1" "aw_rig w' = aw_rig w" "aw_last_heartbeat w' = aw_last_heartbeat w"
proof -
  obtain data where data: "map_of (js_artifacts (aw_store w)) (jb_artifact_path row) = Some data"
    using assms(3) store_get_Some [OF assms(4)] by (auto simp: store_wf_def)
  have "handle sha256 scfg (clock_at env w) (snd (ae_server_clock env (aw_sent w))) (session_auth cfg) (GetArtifact i) (aw_store w) =
      (respond 200 (FileBody data (jb_run_id row @ ''.Map.Gbx'')), aw_store w)"
    using assms(2) by (simp add: handle_def dispatch_def download_artifact_def assms(4) data)
  from send_answered [OF assms(1) this]
  have "\<exists>got w'. client_download sha256 scfg env cfg i dst w = (Inr got, w') \<and> aw_store w' = aw_store w \<and>
    aw_sent w' = aw_sent w + 1 \<and> aw_rig w' = aw_rig w \<and> aw_last_heartbeat w' = aw_last_heartbeat w"
    by (simp add: client_download_def Let_def respond_def)
  then show thesis using that by blast
qed

subsection \<open>The outcome of a job\<close>

text \<open>What the server's row and the agent's result say, by the status the job ends in.\<close>

definition job_outcome :: "(json \<Rightarrow> string) \<Rightarrow> bool \<Rightarrow> agent_exn + unit \<Rightarrow> job \<Rightarrow> bool" where
  "job_outcome repr_of intact r row \<longleftrightarrow>
     (case jb_status row of
        FAILED \<Rightarrow> \<not> intact \<and> r = Inr ()
      | TIMED_OUT \<Rightarrow> intact \<and> r = Inr ()
      | COMPLETE \<Rightarrow> intact \<and> r = Inr () \<and>
          (\<exists>file report. parse_report repr_of file = Inr report \<and> jb_report row = Some (to_report_dict report))
      | RUNNING \<Rightarrow> intact \<and> (\<exists>file e. r = Inl (PluginExn e) \<and> parse_report repr_of file = Inl e \<and> e \<noteq> PluginIOError)
      | _ \<Rightarrow> False)"

text \<open>What a row that the agent reported on became.\<close>

definition became :: "job_store \<Rightarrow> int \<Rightarrow> job \<Rightarrow> job_store \<Rightarrow> bool" where
  "became st i row st' \<longleftrightarrow> (\<forall>k. store_get k st' = (if k = i then Some row else store_get k st))"

lemma became_post:
  assumes "became st i row st'"
  shows "became st i (apply_transition now s d rep row) (update_job i (apply_transition now s d rep) st')"
  using assms row_after_post [of i st' row _ now s d rep] by (simp add: became_def)

lemma became_refl: "store_get i st = Some row \<Longrightarrow> became st i row st"
  by (simp add: became_def)

lemma log_post_fail:
  assumes "answered env" and "authorised scfg (session_auth cfg)"
    and "became st i row (aw_store w)" and "jb_agent_id row = Some (ac_id cfg)"
    and "status_of_value str = Some s" and "str \<noteq> []" and "s \<in> allowed_transitions (jb_status row)"
    and "report_fail render sha256 scfg env cfg i detail str w = (r, w')"
  shows "\<exists>now d. r = Inr () \<and> became st i (apply_transition now s d None row) (aw_store w')"
proof -
  have "store_get i (aw_store w) = Some row" using assms(3) by (simp add: became_def)
  from post_applied [OF assms(1,2) this assms(4-7), of sha256 "Some (render detail)" None] assms(8)
  show ?thesis
    using became_post [OF assms(3)] by (fastforce simp: report_fail_def log_http_def)
qed

lemma run_staged_outcome:
  assumes env: "answered env" "authorised scfg (session_auth cfg)"
    and row: "became st (cj_id job) row (aw_store w)" "jb_agent_id row = Some (ac_id cfg)" "jb_status row = CLAIMED"
    and run: "run_staged repr_of render sha256 scfg env cfg job w = Some y"
  shows "\<exists>row'. became st (cj_id job) row' (aw_store (snd y)) \<and> job_outcome repr_of True (fst y) row'"
proof -
  have get: "store_get (cj_id job) (aw_store w) = Some row" using row(1) by (simp add: became_def)
  have sv: "status_of_value ''running'' = Some RUNNING" "status_of_value ''timed_out'' = Some TIMED_OUT"
    "status_of_value ''complete'' = Some COMPLETE" by code_simp+
  note post = post_applied [OF env get row(2) sv(1), of sha256 "Some (render Staged)" None, unfolded row(3), simplified]
  show ?thesis
    using run
  proof (cases rule: run_staged_cases)
    case (post e w0)
    with \<open>client_post_status _ _ _ _ _ _ _ _ _ = _\<close> show ?thesis by (simp add: log_http_def)
  next
    case (waited u w0 now w1 deadline res rig)
    define row1 where "row1 = apply_transition (clock_at env w) RUNNING (Some (render Staged)) None row"
    have w0: "aw_store w0 = update_job (cj_id job) (apply_transition (clock_at env w) RUNNING (Some (render Staged)) None) (aw_store w)"
      using waited(1) post by (auto simp: log_http_def)
    have w1: "aw_store w1 = aw_store w0" using agent_time_store(1) [of env w0] waited(2) by simp
    have b1: "became st (cj_id job) row1 (aw_store w1)"
      unfolding w1 w0 row1_def by (rule became_post [OF row(1)])
    have r1: "jb_agent_id row1 = Some (ac_id cfg)" "jb_status row1 = RUNNING"
      by (simp_all add: row1_def apply_transition_def row(2))
    have wr: "waited repr_of (ae_rig env) (cj_id job) deadline res rig" using wait_result [OF waited(4)] by simp
    show ?thesis
    proof (cases res)
      case (Inl e)
      with wr obtain f where "parse_report repr_of f = Inl e" "e \<noteq> PluginIOError" by (auto simp: waited_def)
      with Inl waited(5) b1 r1 show ?thesis
        by (intro exI [of _ row1]) (auto simp: job_outcome_def)
    next
      case (Inr rep)
      show ?thesis
      proof (cases rep)
        case None
        obtain now' w2 where t: "agent_time env (w1\<lparr>aw_rig := rig\<rparr>) = (now', w2)" by fastforce
        have "aw_store w2 = aw_store w1" using agent_time_store(1) [of env "w1\<lparr>aw_rig := rig\<rparr>"] t by simp
        with b1 have b2: "became st (cj_id job) row1 (aw_store w2)" by simp
        obtain r w' where y: "y = (r, w')" by fastforce
        with waited(5) Inr None t have
          "report_fail render sha256 scfg env cfg (cj_id job) (NoResponse (deadline - trunc now')) ''timed_out'' w2 = (r, w')" by simp
        from log_post_fail [OF env b2 r1(1) sv(2) _ _ this] r1(2) obtain n d where
          "r = Inr ()" "became st (cj_id job) (apply_transition n TIMED_OUT d None row1) (aw_store w')" by auto
        with y show ?thesis
          by (intro exI [of _ "apply_transition n TIMED_OUT d None row1"]) (simp add: job_outcome_def apply_transition_def)
      next
        case (Some report)
        with wr Inr obtain f where f: "parse_report repr_of f = Inr report" by (auto simp: waited_def)
        let ?w2 = "w1\<lparr>aw_rig := ack (ae_rig env) (cj_id job) rig\<rparr>"
        let ?row2 = "apply_transition (clock_at env ?w2) COMPLETE (Some (render (Summary report))) (Some (to_report_dict report)) row1"
        have g1: "store_get (cj_id job) (aw_store ?w2) = Some row1" using b1 by (simp add: became_def)
        have "y = (Inr (), ?w2\<lparr>aw_sent := aw_sent ?w2 + 1, aw_store := update_job (cj_id job) (apply_transition (clock_at env ?w2) COMPLETE
              (Some (render (Summary report))) (Some (to_report_dict report))) (aw_store ?w2)\<rparr>)"
          using waited(5) Inr Some post_applied [OF env g1 r1(1) sv(3), of sha256 "Some (render (Summary report))" "Some (to_report_dict report)"] r1(2)
          by (simp add: ship_report_def log_http_def)
        moreover have "became st (cj_id job) ?row2 (update_job (cj_id job) (apply_transition (clock_at env ?w2) COMPLETE
              (Some (render (Summary report))) (Some (to_report_dict report))) (aw_store ?w2))"
          using became_post [OF b1] by simp
        moreover have "jb_report ?row2 = Some (to_report_dict report)"
          by (simp add: apply_transition_def to_report_dict_def coalesce_def)
        ultimately show ?thesis
          using f by (intro exI [of _ ?row2]) (auto simp: job_outcome_def apply_transition_def)
      qed
    qed
  qed
qed

lemma handle_job_outcome:
  assumes env: "answered env" "authorised scfg (session_auth cfg)"
    and wf: "store_wf sha256 (aw_store w)"
    and row: "store_get (cj_id job) (aw_store w) = Some row" "jb_agent_id row = Some (ac_id cfg)" "jb_status row = CLAIMED"
      "cj_artifact_url job = cj_id job"
    and run: "handle_job repr_of render sha256 scfg env cfg job w = Some y"
  shows "\<exists>row'. became (aw_store w) (cj_id job) row' (aw_store (snd y)) \<and>
    job_outcome repr_of (artifact_ok sha256 job (snd y)) (fst y) row'"
proof -
  define w1 where "w1 = w\<lparr>aw_rig := clear_stale (ae_rig env) (cj_id job) (aw_rig w)\<rparr>"
  have st: "aw_store w1 = aw_store w" by (simp add: w1_def)
  obtain got w2 where dl: "client_download sha256 scfg env cfg (cj_artifact_url job) (inbox_name (cj_run_id job)) w1 = (Inr got, w2)"
    and st2: "aw_store w2 = aw_store w"
    by (rule download_answered [OF env, of sha256 w1 "cj_artifact_url job" row "inbox_name (cj_run_id job)"])
      (use wf row(1,4) st in \<open>simp_all\<close>)
  have b: "became (aw_store w) (cj_id job) row (aw_store w2)" unfolding st2 by (rule became_refl [OF row(1)])
  note ok = verified_artifact_ok [OF dl]
  show ?thesis
    using run w1_def
  proof (cases rule: handle_job_cases)
    case (raised e w3)
    with dl show ?thesis by simp
  next
    case (no_download code w3)
    with dl show ?thesis by simp
  next
    case (mismatch got' w3 detail)
    with dl ok have no: "\<not> artifact_ok sha256 job w2" and "w3 = w2" by simp_all
    obtain r w' where y: "y = (r, w')" by fastforce
    with mismatch(3) \<open>w3 = w2\<close> have f: "report_fail render sha256 scfg env cfg (cj_id job) detail ''failed'' w2 = (r, w')" by simp
    have sv: "status_of_value ''failed'' = Some FAILED" by code_simp
    from log_post_fail [OF env b row(2) sv _ _ f] row(3) obtain n d where
      o: "r = Inr ()" "became (aw_store w) (cj_id job) (apply_transition n FAILED d None row) (aw_store w')" by auto
    have "aw_inbox w' = aw_inbox w2" using posts_frame(2) [of render sha256 scfg env cfg "cj_id job" detail "''failed''" w2] f by simp
    with no have "\<not> artifact_ok sha256 job w'" by (simp add: artifact_ok_def)
    with o y show ?thesis
      by (intro exI [of _ "apply_transition n FAILED d None row"]) (simp add: job_outcome_def apply_transition_def)
  next
    case (ready got' w3)
    with dl ok have yes: "artifact_ok sha256 job w2" and "w3 = w2" by simp_all
    with ready(3) have run2: "run_staged repr_of render sha256 scfg env cfg job w2 = Some y" by simp
    have "artifact_ok sha256 job (snd y)" using yes by (simp add: artifact_ok_def run_staged_frame(1) [OF run2])
    with run_staged_outcome [OF env b row(2,3) run2] show ?thesis by simp
  qed
qed

subsection \<open>One pass\<close>

lemma oldest_queued_sweep:
  assumes "distinct (map jb_id (js_jobs st))"
  shows "oldest_queued (snd (sweep_timeouts now st)) = oldest_queued st"
proof -
  have "filter (\<lambda>j. jb_status j = QUEUED) (map (sweep_row now) (js_jobs st)) = filter (\<lambda>j. jb_status j = QUEUED) (js_jobs st)"
    by (rule filter_map_same) (auto simp: sweep_row_def sweep_job_def stale_def)
  then show ?thesis by (simp add: oldest_queued_def sweep_timeouts_state [OF assms])
qed

definition agent_ready :: "server_config \<Rightarrow> agent_env \<Rightarrow> agent_config \<Rightarrow> bool" where
  "agent_ready scfg env cfg \<longleftrightarrow>
     answered env \<and> authorised scfg (session_auth cfg) \<and> py_strip (ac_id cfg) = ac_id cfg \<and> ac_id cfg \<noteq> []"

lemma heartbeat_answered:
  assumes "agent_ready scfg env cfg"
  obtains w1 where "maybe_heartbeat sha256 scfg env cfg w = (Inr (), w1)" "js_jobs (aw_store w1) = js_jobs (aw_store w)"
proof -
  obtain now w0 where t: "agent_time env w = (now, w0)" by fastforce
  have st: "aw_store w0 = aw_store w" using agent_time_store(1) [of env w] t by simp
  let ?req = "PostHeartbeat (ac_id cfg) (ac_version cfg) (ac_hostname cfg) None"
  obtain hb st' where u: "upsert_agent_heartbeat (clock_at env w0) (ac_id cfg) (ac_version cfg) (ac_hostname cfg) None (aw_store w0) = (hb, st')"
    by fastforce
  then have jobs: "js_jobs st' = js_jobs (aw_store w0)" by (auto simp: upsert_agent_heartbeat_def Let_def split: if_splits option.splits)
  have "handle sha256 scfg (clock_at env w0) (snd (ae_server_clock env (aw_sent w0))) (session_auth cfg) ?req (aw_store w0) =
      (respond 200 (HeartbeatBody hb), st')"
    using assms u by (simp add: handle_def dispatch_def agent_ready_def)
  from send_answered [OF _ this] assms
  have "client_post_heartbeat sha256 scfg env cfg w0 = (Inr (), w0\<lparr>aw_sent := aw_sent w0 + 1, aw_store := st'\<rparr>)"
    by (simp add: client_post_heartbeat_def respond_def agent_ready_def)
  then have "\<exists>w1. maybe_heartbeat sha256 scfg env cfg w = (Inr (), w1) \<and> js_jobs (aw_store w1) = js_jobs (aw_store w)"
    using t st jobs by (simp add: maybe_heartbeat_def)
  with that show thesis by blast
qed

lemma claim_answered:
  assumes "agent_ready scfg env cfg" and wf: "store_wf sha256 (aw_store w)"
  obtains (none) w1 now where "oldest_queued (aw_store w) = None" "client_claim_next sha256 scfg env cfg w = (Inr None, w1)"
      "\<forall>k. store_get k (aw_store w1) = map_option (sweep_row now) (store_get k (aw_store w))"
  | (some) row row1 w1 now where "oldest_queued (aw_store w) = Some row"
      "client_claim_next sha256 scfg env cfg w = (Inr (Some (claimed_of row1)), w1)"
      "jb_id row1 = jb_id row" "jb_agent_id row1 = Some (ac_id cfg)" "jb_status row1 = CLAIMED"
      "\<forall>k. store_get k (aw_store w1) =
         (if k = jb_id row then Some row1 else map_option (sweep_row now) (store_get k (aw_store w)))"
proof -
  define now where "now = clock_at env w"
  define now' where "now' = snd (ae_server_clock env (aw_sent w))"
  let ?sw = "snd (sweep_timeouts now (aw_store w))"
  have sw: "store_wf sha256 ?sw" by (rule sweep_wf [OF wf])
  have env: "answered env" "authorised scfg (session_auth cfg)" "py_strip (ac_id cfg) = ac_id cfg" "ac_id cfg \<noteq> []"
    using assms(1) by (simp_all add: agent_ready_def)
  note ids = store_wf_dest(1) [OF wf]
  have req: "handle sha256 scfg now now' (session_auth cfg) (GetJobsNext (Some (ac_id cfg))) (aw_store w) =
      claim_next_job now now' (Some (ac_id cfg)) (aw_store w)"
    using env by (simp add: handle_def dispatch_def)
  show thesis
  proof (cases "oldest_queued ?sw")
    case None
    with req env have "handle sha256 scfg now now' (session_auth cfg) (GetJobsNext (Some (ac_id cfg))) (aw_store w) = (respond 204 NoBody, ?sw)"
      by (simp add: claim_next_job_def claim_next_def Let_def)
    from send_answered [OF env(1) this [unfolded now_def now'_def]]
    have "client_claim_next sha256 scfg env cfg w = (Inr None, w\<lparr>aw_sent := aw_sent w + 1, aw_store := ?sw\<rparr>)"
      by (simp add: client_claim_next_def respond_def now_def)
    with None show thesis
      by (intro none [of "w\<lparr>aw_sent := aw_sent w + 1, aw_store := ?sw\<rparr>" now]) (simp_all add: oldest_queued_sweep [OF ids] store_get_sweep [OF ids])
  next
    case (Some row)
    note row = claim_next_row [OF sw env(4) Some]
    let ?row1 = "claim_row now' (ac_id cfg) row"
    let ?st1 = "update_job (jb_id row) (claim_row now' (ac_id cfg)) ?sw"
    from req env row(1) have "handle sha256 scfg now now' (session_auth cfg) (GetJobsNext (Some (ac_id cfg))) (aw_store w) =
        (respond 200 (AgentJobBody ?row1), ?st1)"
      by (simp add: claim_next_job_def Let_def)
    from send_answered [OF env(1) this [unfolded now_def now'_def]]
    have c: "client_claim_next sha256 scfg env cfg w = (Inr (Some (claimed_of ?row1)), w\<lparr>aw_sent := aw_sent w + 1, aw_store := ?st1\<rparr>)"
      by (simp add: client_claim_next_def respond_def now_def now'_def)
    have id: "jb_id (claim_row now' (ac_id cfg) j) = jb_id j" for j by (simp add: claim_row_def)
    have g: "\<forall>k. store_get k ?st1 = (if k = jb_id row then Some ?row1 else map_option (sweep_row now) (store_get k (aw_store w)))"
      using row(3) by (simp add: store_get_update [OF id] store_get_sweep [OF ids, symmetric])
    show thesis
      by (rule some [of row ?row1 "w\<lparr>aw_sent := aw_sent w + 1, aw_store := ?st1\<rparr>" now])
        (use Some c g row(2) in \<open>simp_all add: oldest_queued_sweep [OF ids] claim_row_def\<close>)
  qed
qed

lemma store_get_cong: "js_jobs st = js_jobs st' \<Longrightarrow> store_get k st = store_get k st'"
  by (simp add: store_get_def)

lemma oldest_queued_cong: "js_jobs st = js_jobs st' \<Longrightarrow> oldest_queued st = oldest_queued st'"
  by (simp add: oldest_queued_def)

lemma cycle_idle:
  assumes "agent_ready scfg env cfg" and "store_wf sha256 (aw_store w)" and "oldest_queued (aw_store w) = None"
  obtains w' now where "agent_cycle repr_of render sha256 scfg env cfg w = Some (Inr (), w')"
    "\<forall>k. store_get k (aw_store w') = map_option (sweep_row now) (store_get k (aw_store w))"
proof -
  obtain w1 where h: "maybe_heartbeat sha256 scfg env cfg w = (Inr (), w1)" "js_jobs (aw_store w1) = js_jobs (aw_store w)"
    by (rule heartbeat_answered [OF assms(1)])
  have "served sha256 scfg w w1"
    using maybe_heartbeat_served [OF answered_fair, of env sha256 scfg w cfg] assms(1) h(1) by (simp add: agent_ready_def)
  then have wf1: "store_wf sha256 (aw_store w1)" by (rule server.inv_steps [OF _ assms(2)])
  note cong = store_get_cong [OF h(2)] oldest_queued_cong [OF h(2)]
  show thesis
  proof (cases rule: claim_answered [OF assms(1) wf1])
    case (1 w2 now)
    with h(1) cong show thesis by (intro that [of w2 now]) (simp_all add: agent_cycle_def)
  next
    case (2 row row1 w2 now)
    with cong assms(3) show thesis by simp
  qed
qed

lemma cycle_job:
  assumes "agent_ready scfg env cfg" and "store_wf sha256 (aw_store w)" and "oldest_queued (aw_store w) = Some row"
    and "agent_cycle repr_of render sha256 scfg env cfg w = Some (r, w')"
  shows "r = Inr () \<and> (\<exists>row' res now row1. jb_id row' = jb_id row \<and>
    (\<forall>k. store_get k (aw_store w') =
       (if k = jb_id row then Some row' else map_option (sweep_row now) (store_get k (aw_store w)))) \<and>
    job_outcome repr_of (\<exists>data. aw_inbox w' (inbox_name (jb_run_id row')) = Some data \<and>
      length data = jb_artifact_size row' \<and> sha256 data = jb_artifact_sha256 row') res row' \<and>
    (\<exists>u w1 c w2. maybe_heartbeat sha256 scfg env cfg w = (u, w1) \<and> client_claim_next sha256 scfg env cfg w1 = (c, w2) \<and>
      handle_job repr_of render sha256 scfg env cfg (claimed_of row1) w2 = Some (res, w')))"
proof -
  have env: "answered env" "authorised scfg (session_auth cfg)" using assms(1) by (simp_all add: agent_ready_def)
  note fair = answered_fair [OF env(1), of sha256 scfg]
  obtain w1 where h: "maybe_heartbeat sha256 scfg env cfg w = (Inr (), w1)" "js_jobs (aw_store w1) = js_jobs (aw_store w)"
    by (rule heartbeat_answered [OF assms(1)])
  have "served sha256 scfg w w1" using maybe_heartbeat_served [OF fair, of w cfg] h(1) by simp
  then have wf1: "store_wf sha256 (aw_store w1)" by (rule server.inv_steps [OF _ assms(2)])
  note cong = store_get_cong [OF h(2)] oldest_queued_cong [OF h(2)]
  show ?thesis
  proof (cases rule: claim_answered [OF assms(1) wf1])
    case (1 w2 now)
    with cong assms(3) show ?thesis by simp
  next
    case (2 rowb row1 w2 now)
    then have row: "rowb = row" using cong(2) assms(3) by simp
    have "served sha256 scfg w1 w2" using client_served(1) [OF fair, of w1 cfg] 2(2) by simp
    then have wf2: "store_wf sha256 (aw_store w2)" by (rule server.inv_steps [OF _ wf1])
    obtain x w3 where hj: "handle_job repr_of render sha256 scfg env cfg (claimed_of row1) w2 = Some (x, w3)" "r = Inr ()" "w' = w3"
      using assms(4) h(1) 2(2) by (auto simp: agent_cycle_def)
    let ?job = "claimed_of row1"
    have id: "cj_id ?job = jb_id row" "cj_artifact_url ?job = cj_id ?job" using 2(3) row by (simp_all add: claimed_of_def)
    have g: "store_get (cj_id ?job) (aw_store w2) = Some row1" using 2(6) id(1) row by simp
    from handle_job_outcome [OF env wf2 g 2(4,5) id(2) hj(1)] obtain row' where
      b: "became (aw_store w2) (jb_id row) row' (aw_store w3)" "job_outcome repr_of (artifact_ok sha256 ?job w3) x row'"
      using id(1) by auto
    have g': "store_get (jb_id row) (aw_store w3) = Some row'" using b(1) by (simp add: became_def)
    note mem = store_get_Some [OF g] and mem' = store_get_Some [OF g']
    have "served sha256 scfg w2 w3" using handle_job_served [OF fair hj(1)] by simp
    from server.later_row [OF this wf2 conjunct1 [OF mem] conjunct1 [OF mem']] mem mem' id(1)
    have ev: "job_evolves row1 row'" by simp
    then have "artifact_ok sha256 ?job w3 \<longleftrightarrow> (\<exists>data. aw_inbox w' (inbox_name (jb_run_id row')) = Some data \<and>
      length data = jb_artifact_size row' \<and> sha256 data = jb_artifact_sha256 row')"
      by (simp add: artifact_ok_def claimed_of_def job_evolves_def hj(3))
    with b(2) have o: "job_outcome repr_of (\<exists>data. aw_inbox w' (inbox_name (jb_run_id row')) = Some data \<and>
      length data = jb_artifact_size row' \<and> sha256 data = jb_artifact_sha256 row') x row'" by simp
    have "\<forall>k. store_get k (aw_store w') =
       (if k = jb_id row then Some row' else map_option (sweep_row now) (store_get k (aw_store w)))"
      using b(1) 2(6) cong(1) row hj(3) by (simp add: became_def)
    with o hj mem' h(1) 2(2) show ?thesis by blast
  qed
qed

text \<open>
  C16. The outcome of a pass: when requests are answered (replies may carry corrupted files), the token is
  accepted and no other client is at work, a pass of the agent loop takes the oldest queued job, and the
  job leaves it failed exactly when the file in the inbox is not the job's artifact, complete with the
  plugin's parsed report, timed out, or still running when reading the report raised an exception other
  than \<open>PluginIOError\<close>; all other jobs are as the server's sweep left them.
\<close>

theorem cycle_outcome:
  assumes "agent_ready scfg env cfg" and "store_wf sha256 (aw_store w)" and "oldest_queued (aw_store w) = Some row"
    and "agent_cycle repr_of render sha256 scfg env cfg w = Some (r, w')"
  shows "r = Inr () \<and> (\<exists>row' res now. jb_id row' = jb_id row \<and>
    (\<forall>k. store_get k (aw_store w') =
       (if k = jb_id row then Some row' else map_option (sweep_row now) (store_get k (aw_store w)))) \<and>
    job_outcome repr_of (\<exists>data. aw_inbox w' (inbox_name (jb_run_id row')) = Some data \<and>
      length data = jb_artifact_size row' \<and> sha256 data = jb_artifact_sha256 row') res row')"
  using cycle_job [OF assms] by blast

subsection \<open>Returning\<close>

definition clock_unbounded :: "rig_env \<Rightarrow> bool" where
  "clock_unbounded rig \<longleftrightarrow> (\<forall>q k. \<exists>n \<ge> k. q \<le> re_time rig n)"

lemma wait_total:
  assumes "clock_unbounded rig"
  shows "\<exists>res w'. wait_for_report repr_of rig i deadline w = Some (res, w')"
proof -
  from assms obtain n where "rw_ticks w \<le> n" "of_int deadline \<le> re_time rig n"
    unfolding clock_unbounded_def by blast
  then show ?thesis by (rule wait_returns)
qed

lemma run_staged_total:
  assumes "clock_unbounded (ae_rig env)"
  shows "\<exists>y. run_staged repr_of render sha256 scfg env cfg job w = Some y"
proof -
  let ?deadline = "\<lambda>now. trunc now + trunc (of_int (cj_timeout_seconds job) + ac_plugin_wait_max_extra_s cfg)"
  obtain r w0 where p: "log_http (client_post_status sha256 scfg env cfg (cj_id job) ''running'' (Some (render Staged)) None w) = (r, w0)"
    by fastforce
  obtain now w1 where t: "agent_time env w0 = (now, w1)" by fastforce
  obtain res rig where wt: "wait_for_report repr_of (ae_rig env) (cj_id job) (?deadline now)
      (drop_trigger (cj_id job) (cj_run_id job) (inbox_name (cj_run_id job)) (?deadline now) (cj_metadata job) (aw_rig w1)) = Some (res, rig)"
    using wait_total [OF assms] by blast
  show ?thesis
    by (cases r) (auto simp: run_staged_def p t wt Let_def split: sum.split option.split prod.split)
qed

lemma handle_job_total:
  assumes "clock_unbounded (ae_rig env)"
  shows "\<exists>y. handle_job repr_of render sha256 scfg env cfg job w = Some y"
proof -
  obtain r w2 where dl: "client_download sha256 scfg env cfg (cj_artifact_url job) (inbox_name (cj_run_id job))
      (w\<lparr>aw_rig := clear_stale (ae_rig env) (cj_id job) (aw_rig w)\<rparr>) = (r, w2)" by fastforce
  show ?thesis
    using run_staged_total [OF assms, of repr_of render sha256 scfg cfg job w2]
    by (cases r) (auto simp: handle_job_def dl Let_def split: agent_exn.split)
qed

lemma agent_cycle_total:
  assumes "clock_unbounded (ae_rig env)"
  shows "\<exists>y. agent_cycle repr_of render sha256 scfg env cfg w = Some y"
proof -
  obtain r w1 where h: "maybe_heartbeat sha256 scfg env cfg w = (r, w1)" by fastforce
  obtain c w2 where c: "client_claim_next sha256 scfg env cfg w1 = (c, w2)" by fastforce
  have "\<exists>y. handle_job repr_of render sha256 scfg env cfg j w2 = Some y" for j by (rule handle_job_total [OF assms])
  then show ?thesis
    by (cases r) (auto simp: agent_cycle_def h c split: sum.split option.split agent_exn.split)
qed

lemma agent_loop_total:
  assumes "clock_unbounded (ae_rig env)" and "ae_shutdown env n' \<or> max_iterations = Some n'" and "n \<le> n'"
  shows "\<exists>y. agent_loop repr_of render sha256 scfg env cfg max_iterations n w = Some y"
  using assms(3)
proof (induction "n' - n" arbitrary: n w rule: less_induct)
  case less
  obtain r w1 where c: "agent_cycle repr_of render sha256 scfg env cfg w = Some (r, w1)"
    using agent_cycle_total [OF assms(1), of repr_of render sha256 scfg cfg w] by auto
  show ?case
  proof (cases "n = n' \<and> ae_shutdown env n' \<or> n' \<le> n + 1 \<and> max_iterations = Some n'")
    case True
    then show ?thesis by (subst agent_loop.simps) (auto simp: c split: sum.split option.split)
  next
    case False
    with assms(2) less.prems have "n' - (n + 1) < n' - n" "n + 1 \<le> n'" by auto
    from less.hyps [OF this] obtain y where "agent_loop repr_of render sha256 scfg env cfg max_iterations (n + 1) w1 = Some y" by blast
    then show ?thesis by (subst agent_loop.simps) (auto simp: c split: sum.split option.split)
  qed
qed

text \<open>
  The agent returns: if the rig's clock is unbounded, a run that is limited to some number of
  iterations or asked to shut down before some iteration returns an exit code or raises, whatever the
  network, the server and the plugin do.
\<close>

theorem agent_returns:
  assumes "clock_unbounded (ae_rig env)" and "ae_shutdown env n \<or> max_iterations = Some n"
  shows "\<exists>x w'. run_agent repr_of render sha256 scfg env cfg max_iterations w = Some (x, w')"
proof -
  obtain b w1 where p: "ping_health sha256 scfg env cfg w = (b, w1)" by fastforce
  obtain r w2 where "agent_loop repr_of render sha256 scfg env cfg max_iterations 0 w1 = Some (r, w2)"
    using agent_loop_total [OF assms, of 0 repr_of render sha256 scfg cfg w1] by auto
  with p show ?thesis by (cases b) (auto simp: run_agent_def)
qed

subsection \<open>Emptying the queue\<close>

text \<open>A directory without reports on which the parser raises anything but \<open>PluginIOError\<close>, and a plugin
  that keeps it so.\<close>

definition tidy :: "(json \<Rightarrow> string) \<Rightarrow> (int \<rightharpoonup> json_file) \<Rightarrow> bool" where
  "tidy repr_of outs \<longleftrightarrow> (\<forall>k f e. outs k = Some f \<longrightarrow> parse_report repr_of f = Inl e \<longrightarrow> e = PluginIOError)"

definition tidy_plugin :: "(json \<Rightarrow> string) \<Rightarrow> rig_env \<Rightarrow> bool" where
  "tidy_plugin repr_of rig \<longleftrightarrow> (\<forall>n ins outs. tidy repr_of outs \<longrightarrow> tidy repr_of (re_plugin rig n ins outs))"

abbreviation tidy_rig :: "(json \<Rightarrow> string) \<Rightarrow> agent_world \<Rightarrow> bool" where
  "tidy_rig repr_of w \<equiv> tidy repr_of (rw_out (aw_rig w))"

lemma tidy_ops:
  "tidy repr_of (rw_out w) \<Longrightarrow> tidy repr_of (rw_out (unlink_out rig i w))"
  "tidy repr_of (rw_out w) \<Longrightarrow> tidy repr_of (rw_out (unlink_in rig i w))"
  "tidy repr_of (rw_out w) \<Longrightarrow> tidy repr_of (rw_out (clear_stale rig i w))"
  "tidy repr_of (rw_out w) \<Longrightarrow> tidy repr_of (rw_out (drop_trigger i r m d md w))"
  "tidy repr_of (rw_out w) \<Longrightarrow> tidy_plugin repr_of rig \<Longrightarrow> tidy repr_of (rw_out (snd (read_clock rig w)))"
  by (auto simp: tidy_def tidy_plugin_def unlink_out_def unlink_in_def clear_stale_def drop_trigger_def read_clock_def)

lemma tidy_time: "tidy_rig repr_of w \<Longrightarrow> tidy_plugin repr_of (ae_rig env) \<Longrightarrow> tidy_rig repr_of (snd (agent_time env w))"
  using tidy_ops(5) [of repr_of "aw_rig w" "ae_rig env"]
  by (cases "read_clock (ae_rig env) (aw_rig w)") (simp add: agent_time_def)

lemma wait_tidy:
  "wait_for_report repr_of env i deadline w = Some y \<Longrightarrow> tidy_plugin repr_of env \<Longrightarrow> tidy repr_of (rw_out w) \<Longrightarrow>
     tidy repr_of (rw_out (snd y)) \<and> (\<exists>r. fst y = Inr r)"
proof (induction rule: wait_for_report.raw_induct [rotated 1, consumes 1, case_names step])
  case (step wait repr_of env i deadline w y)
  let ?w = "snd (read_clock env w)"
  have t: "tidy repr_of (rw_out ?w)" by (rule tidy_ops(5) [OF step.prems(2,1)])
  show ?case
  proof (cases "fst (read_clock env w) < of_int deadline")
    case False
    with step.hyps t show ?thesis by (auto simp: Let_def)
  next
    case time: True
    show ?thesis
    proof (cases "rw_out ?w i")
      case None
      with step.hyps time have "wait repr_of env i deadline ?w = Some y" by (simp add: Let_def)
      from step.IH [OF this step.prems(1) t] show ?thesis .
    next
      case (Some f)
      with step.hyps time t tidy_ops(1) [OF t, of env i] show ?thesis
        by (auto simp: Let_def tidy_def split: sum.splits plugin_exn.splits)
    qed
  qed
qed

lemma run_staged_tidy:
  assumes "tidy_plugin repr_of (ae_rig env)" and "tidy_rig repr_of w"
    and "run_staged repr_of render sha256 scfg env cfg job w = Some y"
    and posts: "\<And>i str d r w. fst (log_http (client_post_status sha256 scfg env cfg i str d r w)) \<noteq> Inl (PluginExn e)"
  shows "tidy_rig repr_of (snd y) \<and> fst y \<noteq> Inl (PluginExn e)"
  using assms(3)
proof (cases rule: run_staged_cases)
  case (post x w0)
  have "aw_rig w0 = aw_rig w"
    using client_frame(3) [of sha256 scfg env cfg "cj_id job" "''running''" "Some (render Staged)" None w] post(1)
    by (metis log_http_world snd_conv)
  with post assms(2) posts [of "cj_id job" "''running''" "Some (render Staged)" None w] show ?thesis by simp
next
  case (waited u w0 now w1 deadline res rig)
  have w0: "aw_rig w0 = aw_rig w"
    using client_frame(3) [of sha256 scfg env cfg "cj_id job" "''running''" "Some (render Staged)" None w] waited(1)
    by (metis log_http_world snd_conv)
  have "tidy_rig repr_of w1" using tidy_time [OF _ assms(1), of w0] waited(2) w0 assms(2) by simp
  from wait_tidy [OF waited(4) assms(1) tidy_ops(4) [OF this]] obtain rep where
    rig: "tidy repr_of (rw_out rig)" "res = Inr rep" by auto
  show ?thesis
  proof (cases rep)
    case None
    obtain now' w2 where t: "agent_time env (w1\<lparr>aw_rig := rig\<rparr>) = (now', w2)" by fastforce
    have "tidy_rig repr_of w2" using tidy_time [OF _ assms(1), of "w1\<lparr>aw_rig := rig\<rparr>"] t rig(1) by simp
    with waited(5) rig(2) None t posts [of "cj_id job" "''timed_out''" "Some (render (NoResponse (deadline - trunc now')))" None w2] show ?thesis
      by (simp add: posts_frame) (simp add: report_fail_def)
  next
    case (Some report)
    with waited(5) rig(2) tidy_ops(1) [OF rig(1), of "ae_rig env" "cj_id job"]
      posts [of "cj_id job" "''complete''" "Some (render (Summary report))" "Some (to_report_dict report)" "w1\<lparr>aw_rig := ack (ae_rig env) (cj_id job) rig\<rparr>"]
    show ?thesis by (simp add: posts_frame ack_def) (simp add: ship_report_def ack_def)
  qed
qed

lemma post_no_plugin_exn: "fst (log_http (client_post_status sha256 scfg env cfg i str d r w)) \<noteq> Inl (PluginExn e)"
proof -
  have "fst (send sha256 scfg env cfg req w) \<noteq> Inl (PluginExn e)" for req
    by (simp add: send_def Let_def split: prod.split net.split)
  then show ?thesis by (auto simp: log_http_def client_post_status_def split: prod.splits sum.splits agent_exn.splits if_splits) (metis fst_conv)
qed

lemma handle_job_tidy:
  assumes "tidy_plugin repr_of (ae_rig env)" and "tidy_rig repr_of w"
    and "handle_job repr_of render sha256 scfg env cfg job w = Some y"
  shows "tidy_rig repr_of (snd y) \<and> fst y \<noteq> Inl (PluginExn e)"
proof -
  define w1 where "w1 = w\<lparr>aw_rig := clear_stale (ae_rig env) (cj_id job) (aw_rig w)\<rparr>"
  have t1: "tidy_rig repr_of w1" unfolding w1_def using tidy_ops(3) [OF assms(2)] by simp
  have s: "fst (send sha256 scfg env cfg req v) \<noteq> Inl (PluginExn e)" for req v
    by (simp add: send_def Let_def split: prod.split net.split)
  have dl: "tidy_rig repr_of w2 \<and> r \<noteq> Inl (PluginExn e)"
    if "client_download sha256 scfg env cfg (cj_artifact_url job) (inbox_name (cj_run_id job)) w1 = (r, w2)" for r w2
    using client_frame(7) [of sha256 scfg env cfg "cj_artifact_url job" "inbox_name (cj_run_id job)" w1] that t1
      s [of "GetArtifact (cj_artifact_url job)" w1]
    by (auto simp: client_download_def Let_def split: prod.splits sum.splits if_splits)
  have fail: "fst (report_fail render sha256 scfg env cfg i d str v) \<noteq> Inl (PluginExn e)" for i d str v
    unfolding report_fail_def by (rule post_no_plugin_exn)
  show ?thesis
    using assms(3) w1_def
  proof (cases rule: handle_job_cases)
    case (raised x w2)
    with dl [OF raised(1)] show ?thesis by simp
  next
    case (no_download code w2)
    with dl [OF no_download(1)] fail show ?thesis by (simp add: posts_frame)
  next
    case (mismatch got w2 detail)
    with dl [OF mismatch(1)] fail show ?thesis by (simp add: posts_frame)
  next
    case (ready got w2)
    with dl [OF ready(1)] run_staged_tidy [OF assms(1) _ ready(3) post_no_plugin_exn] show ?thesis by simp
  qed
qed

lemma heartbeat_tidy:
  assumes "tidy_plugin repr_of (ae_rig env)" and "tidy_rig repr_of w"
  shows "tidy_rig repr_of (snd (maybe_heartbeat sha256 scfg env cfg w))"
proof -
  obtain now w1 where t: "agent_time env w = (now, w1)" by fastforce
  have "tidy_rig repr_of w1" using tidy_time [OF assms(2,1)] t by simp
  then show ?thesis
    using t client_frame(5) [of sha256 scfg env cfg w1]
    by (auto simp: maybe_heartbeat_def split: prod.split sum.split agent_exn.split)
qed

definition queued_ids :: "job_store \<Rightarrow> int set" where
  "queued_ids st = {k. \<exists>j. store_get k st = Some j \<and> jb_status j = QUEUED}"

lemma queued_ids_queue: "queued_ids st \<subseteq> jb_id ` set (queue st)"
proof
  fix k assume "k \<in> queued_ids st"
  then obtain j where j: "store_get k st = Some j" "jb_status j = QUEUED" by (auto simp: queued_ids_def)
  from store_get_Some [OF j(1)] j(2) have "j \<in> set (queue st)" "k = jb_id j" by (simp_all add: queue_mem)
  then show "k \<in> jb_id ` set (queue st)" by blast
qed

lemma finite_queued_ids: "finite (queued_ids st)"
  by (rule finite_subset [OF queued_ids_queue]) simp

lemma sweep_row_queued: "jb_status (sweep_row now j) = QUEUED \<longleftrightarrow> jb_status j = QUEUED"
  by (auto simp: sweep_row_def sweep_job_def stale_def)

lemma queued_ids_sweep:
  assumes "\<forall>k. store_get k st' = map_option (sweep_row now) (store_get k st)"
  shows "queued_ids st' = queued_ids st"
proof (rule set_eqI)
  fix k
  from assms show "k \<in> queued_ids st' \<longleftrightarrow> k \<in> queued_ids st"
    by (cases "store_get k st") (simp_all add: queued_ids_def sweep_row_queued)
qed

lemma queued_ids_oldest:
  assumes "store_wf sha256 st" and "oldest_queued st = Some row"
  shows "jb_id row \<in> queued_ids st"
  using queue_mem [of st] assms(2) store_get_mem [OF store_wf_dest(1) [OF assms(1)], of row]
  by (auto simp: oldest_queued_queue queued_ids_def split: list.splits)

lemma queued_ids_none: "oldest_queued st = None \<Longrightarrow> queued_ids st = {}"
  using queued_ids_queue [of st] by (simp add: oldest_queued_queue split: list.splits)

definition serves_all :: "(json \<Rightarrow> string) \<Rightarrow> (bytes \<Rightarrow> string) \<Rightarrow> server_config \<Rightarrow> agent_env \<Rightarrow> agent_config \<Rightarrow> agent_world \<Rightarrow> bool" where
  "serves_all repr_of sha256 scfg env cfg w \<longleftrightarrow>
     agent_ready scfg env cfg \<and> store_wf sha256 (aw_store w) \<and> tidy_plugin repr_of (ae_rig env) \<and> tidy_rig repr_of w \<and>
     clock_unbounded (ae_rig env)"

lemma cycle_takes_one:
  assumes all: "serves_all repr_of sha256 scfg env cfg w"
  obtains w' where "agent_cycle repr_of render sha256 scfg env cfg w = Some (Inr (), w')"
    "serves_all repr_of sha256 scfg env cfg w'"
    "queued_ids (aw_store w) \<noteq> {} \<Longrightarrow> \<exists>k \<in> queued_ids (aw_store w). queued_ids (aw_store w') = queued_ids (aw_store w) - {k} \<and>
       (\<exists>j. store_get k (aw_store w') = Some j \<and> is_terminal (jb_status j))"
    "queued_ids (aw_store w) = {} \<Longrightarrow> queued_ids (aw_store w') = {}"
proof -
  have ready: "agent_ready scfg env cfg" and wf: "store_wf sha256 (aw_store w)" and tp: "tidy_plugin repr_of (ae_rig env)"
    and tr: "tidy_rig repr_of w" and clock: "clock_unbounded (ae_rig env)"
    using all by (simp_all add: serves_all_def)
  have fair: "fair_others sha256 scfg env" using ready answered_fair by (simp add: agent_ready_def)
  obtain r w' where c: "agent_cycle repr_of render sha256 scfg env cfg w = Some (r, w')"
    using agent_cycle_total [OF clock, of repr_of render sha256 scfg cfg w] by auto
  have wf': "store_wf sha256 (aw_store w')" by (rule server.inv_steps [OF _ wf]) (use agent_cycle_served [OF fair c] in simp)
  have hb: "tidy_rig repr_of w1" if "maybe_heartbeat sha256 scfg env cfg w = (u, w1)" for u w1
    using heartbeat_tidy [OF tp tr, of sha256 scfg cfg] that by simp
  have cl: "tidy_rig repr_of w2" if "client_claim_next sha256 scfg env cfg w1 = (x, w2)" "tidy_rig repr_of w1" for x w1 w2
    using client_frame(1) [of sha256 scfg env cfg w1] that by simp
  have tidy': "tidy_rig repr_of w'"
    using c
  proof (cases rule: agent_cycle_cases)
    case (beat e w1)
    with hb show ?thesis by simp
  next
    case (no_job u w1 x)
    have "w' = snd (client_claim_next sha256 scfg env cfg w1)" using no_job(4) by (auto split: sum.splits agent_exn.splits)
    with cl [OF _ hb [OF no_job(1)]] show ?thesis by (metis prod.collapse)
  next
    case (job u w1 j w2 r2 w3)
    from handle_job_tidy [OF tp cl [OF job(2) hb [OF job(1)]] job(3)] job(4) show ?thesis by simp
  qed
  have all': "serves_all repr_of sha256 scfg env cfg w'" using ready wf' tp tidy' clock by (simp add: serves_all_def)
  show thesis
  proof (cases "oldest_queued (aw_store w)")
    case None
    obtain w'' now where i: "agent_cycle repr_of render sha256 scfg env cfg w = Some (Inr (), w'')"
      "\<forall>k. store_get k (aw_store w'') = map_option (sweep_row now) (store_get k (aw_store w))"
      by (rule cycle_idle [OF ready wf None])
    with c have "w'' = w'" "r = Inr ()" by simp_all
    moreover have "queued_ids (aw_store w) = {}" by (rule queued_ids_none [OF None])
    ultimately show thesis using that [of w'] c all' queued_ids_sweep [OF i(2)] by simp
  next
    case (Some row)
    from cycle_job [OF ready wf Some c] obtain row' res now row1 where r: "r = Inr ()" and
      g: "\<forall>k. store_get k (aw_store w') =
       (if k = jb_id row then Some row' else map_option (sweep_row now) (store_get k (aw_store w)))" and
      o: "\<exists>intact. job_outcome repr_of intact res row'" and
      h: "\<exists>u w1 x w2. maybe_heartbeat sha256 scfg env cfg w = (u, w1) \<and> client_claim_next sha256 scfg env cfg w1 = (x, w2) \<and>
        handle_job repr_of render sha256 scfg env cfg (claimed_of row1) w2 = Some (res, w')" by blast
    from h obtain u w1 x w2 where "maybe_heartbeat sha256 scfg env cfg w = (u, w1)" "client_claim_next sha256 scfg env cfg w1 = (x, w2)"
      and hj: "handle_job repr_of render sha256 scfg env cfg (claimed_of row1) w2 = Some (res, w')" by blast
    then have "tidy_rig repr_of w2" using hb cl by blast
    from handle_job_tidy [OF tp this hj] have "res \<noteq> Inl (PluginExn e)" for e by simp
    with o have final: "is_terminal (jb_status row')"
      by (cases "jb_status row'") (auto simp: job_outcome_def is_terminal_def)
    have "queued_ids (aw_store w') = queued_ids (aw_store w) - {jb_id row}"
    proof (rule set_eqI)
      fix k
      from g final show "k \<in> queued_ids (aw_store w') \<longleftrightarrow> k \<in> queued_ids (aw_store w) - {jb_id row}"
        by (cases "store_get k (aw_store w)") (auto simp: queued_ids_def is_terminal_def sweep_row_queued)
    qed
    moreover have mem: "jb_id row \<in> queued_ids (aw_store w)" by (rule queued_ids_oldest [OF wf Some])
    moreover have "\<exists>j. store_get (jb_id row) (aw_store w') = Some j \<and> is_terminal (jb_status j)"
      using g final by simp
    ultimately have one: "\<exists>k \<in> queued_ids (aw_store w). queued_ids (aw_store w') = queued_ids (aw_store w) - {k} \<and>
       (\<exists>j. store_get k (aw_store w') = Some j \<and> is_terminal (jb_status j))" by blast
    show thesis
      by (rule that [of w']) (use c r all' one mem in \<open>simp_all\<close>)
  qed
qed

lemma loop_drains:
  assumes "serves_all repr_of sha256 scfg env cfg w" and "\<forall>n. \<not> ae_shutdown env n"
    and "card (queued_ids (aw_store w)) \<le> m - n" and "n < m"
  shows "\<exists>w'. agent_loop repr_of render sha256 scfg env cfg (Some m) n w = Some (Inr (), w') \<and>
    (\<forall>k \<in> queued_ids (aw_store w). \<exists>j. store_get k (aw_store w') = Some j \<and> is_terminal (jb_status j))"
  using assms(1,3,4)
proof (induction "m - n" arbitrary: n w)
  case 0
  then show ?case by simp
next
  case (Suc d)
  obtain w1 where c: "agent_cycle repr_of render sha256 scfg env cfg w = Some (Inr (), w1)"
    and all: "serves_all repr_of sha256 scfg env cfg w1"
    and one: "queued_ids (aw_store w) \<noteq> {} \<Longrightarrow> \<exists>k \<in> queued_ids (aw_store w). queued_ids (aw_store w1) = queued_ids (aw_store w) - {k} \<and>
       (\<exists>j. store_get k (aw_store w1) = Some j \<and> is_terminal (jb_status j))"
    and none: "queued_ids (aw_store w) = {} \<Longrightarrow> queued_ids (aw_store w1) = {}"
    by (rule cycle_takes_one [OF Suc.prems(1), of render]) blast
  have fin: "finite (queued_ids (aw_store w))" by (rule finite_queued_ids)
  have card: "card (queued_ids (aw_store w1)) \<le> m - (n + 1)"
  proof (cases "queued_ids (aw_store w) = {}")
    case True
    with none show ?thesis by simp
  next
    case False
    then obtain k where "k \<in> queued_ids (aw_store w)" "queued_ids (aw_store w1) = queued_ids (aw_store w) - {k}" using one by blast
    with fin Suc.prems(2) show ?thesis by simp
  qed
  show ?case
  proof (cases "m \<le> n + 1")
    case True
    then have "queued_ids (aw_store w1) = {}" using card finite_queued_ids [of "aw_store w1"] by simp
    then have "\<forall>k \<in> queued_ids (aw_store w). \<exists>j. store_get k (aw_store w1) = Some j \<and> is_terminal (jb_status j)"
      using one by blast
    moreover have "agent_loop repr_of render sha256 scfg env cfg (Some m) n w = Some (Inr (), w1)"
      by (subst agent_loop.simps) (use True c assms(2) in simp)
    ultimately show ?thesis by blast
  next
    case False
    then have "d = m - (n + 1)" "n + 1 < m" using Suc.hyps(2) by simp_all
    from Suc.hyps(1) [OF this(1) all card this(2)] obtain w' where
      l: "agent_loop repr_of render sha256 scfg env cfg (Some m) (n + 1) w1 = Some (Inr (), w')"
      and rest: "\<forall>k \<in> queued_ids (aw_store w1). \<exists>j. store_get k (aw_store w') = Some j \<and> is_terminal (jb_status j)" by blast
    have fair: "fair_others sha256 scfg env" and wf1: "store_wf sha256 (aw_store w1)"
      using all answered_fair by (simp_all add: serves_all_def agent_ready_def)
    have served: "served sha256 scfg w1 w'" using agent_loop_served [OF l fair] by simp
    note wf' = server.inv_steps [OF served wf1]
    have keep: "\<exists>j. store_get k (aw_store w') = Some j \<and> is_terminal (jb_status j)"
      if g: "store_get k (aw_store w1) = Some j" and t: "is_terminal (jb_status j)" for k j
    proof -
      note mem = store_get_Some [OF g]
      have "j \<in> set (js_jobs (aw_store w'))" by (rule server.terminal_kept [OF served wf1 _ t]) (use mem in simp)
      from store_get_mem [OF store_wf_dest(1) [OF wf'] this] mem t show ?thesis by blast
    qed
    have "\<forall>k \<in> queued_ids (aw_store w). \<exists>j. store_get k (aw_store w') = Some j \<and> is_terminal (jb_status j)"
    proof
      fix k assume k: "k \<in> queued_ids (aw_store w)"
      then obtain k0 where k0: "queued_ids (aw_store w1) = queued_ids (aw_store w) - {k0}"
        "\<exists>j. store_get k0 (aw_store w1) = Some j \<and> is_terminal (jb_status j)" using one by blast
      show "\<exists>j. store_get k (aw_store w') = Some j \<and> is_terminal (jb_status j)"
        using k k0 keep rest by (cases "k = k0") auto
    qed
    moreover have "agent_loop repr_of render sha256 scfg env cfg (Some m) n w = Some (Inr (), w')"
      by (subst agent_loop.simps) (use False c l assms(2) in simp)
    ultimately show ?thesis by blast
  qed
qed

text \<open>
  C12. The agent empties the queue: with an accepted token, answered requests, an unbounded clock, no
  shutdown and a plugin whose reports never make the parser raise anything but \<open>PluginIOError\<close>, a run of
  at least as many iterations as there are queued jobs exits cleanly and every job that was queued has
  reached a terminal status.
\<close>

theorem agent_empties_queue:
  assumes "agent_ready scfg env cfg" and "store_wf sha256 (aw_store w)"
    and "tidy_plugin repr_of (ae_rig env)" and "tidy repr_of (rw_out (aw_rig w))"
    and "clock_unbounded (ae_rig env)" and "\<forall>n. \<not> ae_shutdown env n"
    and "length (queue (aw_store w)) \<le> m" and "0 < m"
  shows "\<exists>w'. run_agent repr_of render sha256 scfg env cfg (Some m) w = Some (Exit 0, w') \<and>
    (\<forall>j \<in> set (queue (aw_store w)). \<exists>j' \<in> set (js_jobs (aw_store w')). jb_id j' = jb_id j \<and> is_terminal (jb_status j'))"
proof -
  have env: "answered env" using assms(1) by (simp add: agent_ready_def)
  obtain w1 where p: "ping_health sha256 scfg env cfg w = (True, w1)" "aw_store w1 = aw_store w" "aw_rig w1 = aw_rig w"
  proof -
    have "handle sha256 scfg (clock_at env w) (snd (ae_server_clock env (aw_sent w))) (session_auth cfg) GetHealth (aw_store w) =
        (respond 200 (HealthBody (\<not> sc_allow_insecure scfg)), aw_store w)" by (simp add: handle_def dispatch_def)
    from send_answered [OF env this] that show thesis by (simp add: ping_health_def respond_def)
  qed
  note ids = store_wf_dest(1) [OF assms(2)]
  have mem: "jb_id j \<in> queued_ids (aw_store w)" if "j \<in> set (queue (aw_store w))" for j
    using that queue_mem [of "aw_store w"] store_get_mem [OF ids] by (auto simp: queued_ids_def)
  have "card (queued_ids (aw_store w)) \<le> card (jb_id ` set (queue (aw_store w)))"
    by (rule card_mono [OF _ queued_ids_queue]) simp
  also have "\<dots> \<le> card (set (queue (aw_store w)))" by (rule card_image_le) simp
  also have "\<dots> \<le> length (queue (aw_store w))" by (rule card_length)
  finally have "card (queued_ids (aw_store w)) \<le> length (queue (aw_store w))" .
  then have "card (queued_ids (aw_store w1)) \<le> m - 0" using assms(7) p(2) by simp
  moreover have "serves_all repr_of sha256 scfg env cfg w1"
    using assms(1-5) p(2,3) by (simp add: serves_all_def)
  ultimately obtain w' where l: "agent_loop repr_of render sha256 scfg env cfg (Some m) 0 w1 = Some (Inr (), w')"
    and t: "\<forall>k \<in> queued_ids (aw_store w1). \<exists>j. store_get k (aw_store w') = Some j \<and> is_terminal (jb_status j)"
    using loop_drains [OF _ assms(6) _ assms(8)] by blast
  have "\<exists>j' \<in> set (js_jobs (aw_store w')). jb_id j' = jb_id j \<and> is_terminal (jb_status j')"
    if j: "j \<in> set (queue (aw_store w))" for j
  proof -
    obtain j' where "store_get (jb_id j) (aw_store w') = Some j'" "is_terminal (jb_status j')"
      using t mem [OF j] p(2) by auto
    with store_get_Some [of "jb_id j" "aw_store w'" j'] show ?thesis by blast
  qed
  with l p(1) show ?thesis by (simp add: run_agent_def)
qed

subsection \<open>A rig with one job\<close>

definition demo_plugin_report :: "int \<Rightarrow> json_file" where
  "demo_plugin_report i = Payload (JObj [(''protocol'', JStr ''ai_rig_v1''), (''job_id'', JInt i), (''finished'', JBool True),
     (''checkpoint_times_ms'', JArr [JInt 900, JInt 2100])])"

definition demo_rig_env :: rig_env where
  "demo_rig_env = \<lparr>re_time = (\<lambda>n. of_nat n), re_plugin = (\<lambda>n ins outs k. case ins k of None \<Rightarrow> outs k | Some tr \<Rightarrow> Some (demo_plugin_report k)),
     re_unlink = (\<lambda>n. True)\<rparr>"

definition demo_agent_env :: agent_env where
  "demo_agent_env = \<lparr>ae_rig = demo_rig_env, ae_net = (\<lambda>n. Deliver), ae_others = (\<lambda>n st. st), ae_server_clock = (\<lambda>n. (120, 120)),
     ae_shutdown = (\<lambda>n. False)\<rparr>"

definition demo_agent_cfg :: agent_config where
  "demo_agent_cfg = \<lparr>ac_id = ''rig'', ac_version = None, ac_hostname = None, ac_token = Some ''s3'', ac_heartbeat_interval_s = 30,
     ac_plugin_wait_max_extra_s = 60\<rparr>"

definition demo_agent_world :: agent_world where
  "demo_agent_world = \<lparr>aw_store = demo_store1, aw_rig = \<lparr>rw_in = Map.empty, rw_out = Map.empty, rw_ticks = 0, rw_unlinks = 0\<rparr>,
     aw_sent = 0, aw_inbox = Map.empty, aw_last_heartbeat = 0\<rparr>"

definition demo_repr :: "json \<Rightarrow> string" where "demo_repr j = ''?''"

definition demo_render :: "agent_detail \<Rightarrow> string" where "demo_render d = ''d''"

abbreviation demo_cycle :: "((agent_exn + unit) \<times> agent_world) option" where
  "demo_cycle \<equiv> agent_cycle demo_repr demo_render demo_sha demo_cfg demo_agent_env demo_agent_cfg demo_agent_world"

lemma demo_ready: "agent_ready demo_cfg demo_agent_env demo_agent_cfg"
proof -
  have "answered demo_agent_env" by (simp add: answered_def demo_agent_env_def)
  moreover have "authorised demo_cfg (session_auth demo_agent_cfg)" "py_strip (ac_id demo_agent_cfg) = ac_id demo_agent_cfg"
    "ac_id demo_agent_cfg \<noteq> []" by code_simp+
  ultimately show ?thesis by (simp add: agent_ready_def)
qed

lemma demo_fair: "fair_others demo_sha demo_cfg demo_agent_env"
  using demo_ready answered_fair by (simp add: agent_ready_def)

lemma demo_wf: "store_wf demo_sha (aw_store demo_agent_world)"
  using store.inv_steps [OF demo_reachable(1) store_wf_empty] by (simp add: demo_agent_world_def)

lemma demo_clock: "clock_unbounded (ae_rig demo_agent_env)"
  unfolding clock_unbounded_def
proof (intro allI)
  fix q :: rat and k
  obtain n :: nat where "q \<le> of_nat n" using real_arch_simple by blast
  then have "q \<le> of_nat (max n k)" using of_nat_mono [of n "max n k"] by (meson max.cobounded1 order_trans)
  then show "\<exists>n \<ge> k. q \<le> re_time (ae_rig demo_agent_env) n"
    by (intro exI [of _ "max n k"]) (simp add: demo_agent_env_def demo_rig_env_def)
qed

lemma demo_parses: "\<exists>r. parse_report demo_repr (demo_plugin_report k) = Inr r"
  by (simp add: demo_plugin_report_def parse_report_def json_get_def PROTOCOL_VERSION_def parse_times_def)

lemma demo_tidy: "tidy_plugin demo_repr (ae_rig demo_agent_env)"
  unfolding tidy_plugin_def
proof (intro allI impI)
  fix n ins outs assume t: "tidy demo_repr outs"
  show "tidy demo_repr (re_plugin (ae_rig demo_agent_env) n ins outs)"
    unfolding tidy_def
  proof (intro allI impI)
    fix k f e
    assume f: "re_plugin (ae_rig demo_agent_env) n ins outs k = Some f" and e: "parse_report demo_repr f = Inl e"
    have "f \<noteq> demo_plugin_report k" using demo_parses [of k] e by auto
    with f have "outs k = Some f" by (simp add: demo_agent_env_def demo_rig_env_def split: option.splits)
    with t e show "e = PluginIOError" by (simp add: tidy_def)
  qed
qed

lemma demo_oldest: "oldest_queued (aw_store demo_agent_world) = Some (hd (js_jobs demo_store1))"
  by code_simp

theorem trigger_verified_witness:
  "\<exists>r w' tr. demo_cycle = Some (r, w') \<and> rw_in (aw_rig w') 1 = Some tr \<and> aw_inbox w' (tr_map_file tr) \<noteq> None"
proof -
  have "(case demo_cycle of None \<Rightarrow> False | Some (r, w') \<Rightarrow> (case rw_in (aw_rig w') 1 of None \<Rightarrow> False | Some tr \<Rightarrow> True))"
    by code_simp
  then obtain r w' tr where c: "demo_cycle = Some (r, w')" and t: "rw_in (aw_rig w') 1 = Some tr"
    by (auto split: option.splits)
  have "rw_in (aw_rig demo_agent_world) 1 = None" by (simp add: demo_agent_world_def)
  with trigger_verified [OF demo_fair demo_wf c t] have "aw_inbox w' (tr_map_file tr) \<noteq> None" by auto
  with c t show ?thesis by blast
qed

theorem agent_keeps_store_witness:
  "\<exists>x w'. run_agent demo_repr demo_render demo_sha demo_cfg demo_agent_env demo_agent_cfg (Some 2) demo_agent_world = Some (x, w') \<and>
    store_wf demo_sha (aw_store w')"
proof -
  have "case run_agent demo_repr demo_render demo_sha demo_cfg demo_agent_env demo_agent_cfg (Some 2) demo_agent_world of None \<Rightarrow> False | Some (x, w') \<Rightarrow> x = Exit 0"
    by code_simp
  then obtain x w' where r: "run_agent demo_repr demo_render demo_sha demo_cfg demo_agent_env demo_agent_cfg (Some 2) demo_agent_world = Some (x, w')"
    by (auto split: option.splits)
  with agent_keeps_store [OF demo_fair demo_wf r] show ?thesis by blast
qed

theorem cycle_outcome_witness:
  "\<exists>r w' row'. demo_cycle = Some (r, w') \<and> store_get (jb_id (hd (js_jobs demo_store1))) (aw_store w') = Some row' \<and> jb_status row' \<noteq> QUEUED"
proof -
  obtain r w' where c: "demo_cycle = Some (r, w')"
    using agent_cycle_total [OF demo_clock, of demo_repr demo_render demo_sha demo_cfg demo_agent_cfg demo_agent_world] by auto
  from cycle_outcome [OF demo_ready demo_wf demo_oldest c] obtain row' intact res where
    "store_get (jb_id (hd (js_jobs demo_store1))) (aw_store w') = Some row'" "job_outcome demo_repr intact res row'" by auto
  with c show ?thesis by (auto simp: job_outcome_def)
qed

theorem agent_returns_witness:
  "\<exists>x w'. run_agent demo_repr demo_render demo_sha demo_cfg demo_agent_env demo_agent_cfg (Some 3) demo_agent_world = Some (x, w')"
  by (rule agent_returns [OF demo_clock, of 3]) simp

theorem agent_empties_queue_witness:
  "\<exists>w' j'. run_agent demo_repr demo_render demo_sha demo_cfg demo_agent_env demo_agent_cfg (Some 1) demo_agent_world = Some (Exit 0, w') \<and>
    j' \<in> set (js_jobs (aw_store w')) \<and> is_terminal (jb_status j')"
proof -
  have q: "length (queue (aw_store demo_agent_world)) \<le> 1" "queue (aw_store demo_agent_world) \<noteq> []" by code_simp+
  have out: "tidy demo_repr (rw_out (aw_rig demo_agent_world))" by (simp add: tidy_def demo_agent_world_def)
  have sh: "\<forall>n. \<not> ae_shutdown demo_agent_env n" by (simp add: demo_agent_env_def)
  from q(2) have "hd (queue (aw_store demo_agent_world)) \<in> set (queue (aw_store demo_agent_world))" by (rule hd_in_set)
  with agent_empties_queue [OF demo_ready demo_wf demo_tidy out demo_clock sh q(1), of demo_render] show ?thesis
    by fastforce
qed

end
