(* ===== verification/Agent_Config.thy ===== *)
theory Agent_Config
  imports Remote_Agent
begin

section \<open>The agent's configuration\<close>

text \<open>
  Model of \<^verbatim>\<open>src/src/remote_test_agent/config.py\<close>. The decoded YAML document is a \<open>json\<close> value (dates and
  non-string keys, which YAML also has, are not represented), the machine's host name, the environment
  variable and Python's \<open>float\<close> on strings (\<open>float_of\<close>) are arguments. The loaded configuration extends the
  record the agent works with, and a lemma states that it is one the server accepts.
\<close>

datatype config_error = NotAnObject | UrlRequired | NoAttribute | BadFloat py_error

record loaded_config = agent_config +
  lc_url :: string
  lc_verify_tls :: bool
  lc_tm_maps_root :: string
  lc_ai_inbox_subdir :: string
  lc_plugin_rig_dir :: string
  lc_queue_interval_s :: rat
  lc_plugin_poll_interval_s :: rat

text \<open>\<open>d.get(key, dflt)\<close> and \<open>str(...)\<close>.\<close>

definition get_or :: "json \<Rightarrow> string \<Rightarrow> json_obj \<Rightarrow> json" where
  "get_or dflt key d = (case map_of d key of None \<Rightarrow> dflt | Some v \<Rightarrow> v)"

definition rstrip_slash :: "string \<Rightarrow> string" where
  "rstrip_slash s = rev (dropWhile (\<lambda>c. c = CHR ''/'') (rev s))"

definition py_float :: "(string \<Rightarrow> rat option) \<Rightarrow> json \<Rightarrow> py_error + rat" where
  "py_float float_of v =
     (case v of
        JInt i \<Rightarrow> Inr (of_int i)
      | JFloat q \<Rightarrow> Inr q
      | JBool b \<Rightarrow> Inr (if b then 1 else 0)
      | JStr s \<Rightarrow> (case float_of s of None \<Rightarrow> Inl ValueError | Some q \<Rightarrow> Inr q)
      | _ \<Rightarrow> Inl TypeError)"

definition str_truthy :: "(json \<Rightarrow> string) \<Rightarrow> json \<Rightarrow> string option" where
  "str_truthy repr_of v = (if json_truthy v then Some (json_str repr_of v) else None)"

text \<open>\<open>d.get(section) or {}\<close>, on which the sections call \<open>get\<close>.\<close>

definition section_of :: "string \<Rightarrow> json_obj \<Rightarrow> config_error + json_obj" where
  "section_of key d =
     (let v = json_get key d in
      if \<not> json_truthy v then Inr [] else case v of JObj kvs \<Rightarrow> Inr kvs | _ \<Rightarrow> Inl NoAttribute)"

definition server_url_of :: "(json \<Rightarrow> string) \<Rightarrow> json_obj \<Rightarrow> string" where
  "server_url_of repr_of d = rstrip_slash (json_str repr_of (get_or (JStr []) ''url'' d))"

definition agent_id_of :: "(json \<Rightarrow> string) \<Rightarrow> string \<Rightarrow> json_obj \<Rightarrow> string" where
  "agent_id_of repr_of hostname d =
     (let i = py_strip (case str_truthy repr_of (json_get ''id'' d) of None \<Rightarrow> [] | Some s \<Rightarrow> s)
      in if i \<noteq> [] then i else ''agent-'' @ hostname)"

definition polling_of :: "(string \<Rightarrow> rat option) \<Rightarrow> json_obj \<Rightarrow> py_error + rat \<times> rat \<times> rat \<times> rat" where
  "polling_of float_of d =
     (case py_float float_of (get_or (JInt 3) ''queue_interval_s'' d) of
        Inl e \<Rightarrow> Inl e
      | Inr qi \<Rightarrow>
          (case py_float float_of (get_or (JInt 30) ''heartbeat_interval_s'' d) of
             Inl e \<Rightarrow> Inl e
           | Inr beat \<Rightarrow>
               (case py_float float_of (get_or (JInt 1) ''plugin_poll_interval_s'' d) of
                  Inl e \<Rightarrow> Inl e
                | Inr poll \<Rightarrow>
                    (case py_float float_of (get_or (JInt 60) ''plugin_wait_max_extra_s'' d) of
                       Inl e \<Rightarrow> Inl e
                     | Inr extra \<Rightarrow> Inr (qi, beat, poll, extra)))))"

definition config_from_dict :: "(json \<Rightarrow> string) \<Rightarrow> (string \<Rightarrow> rat option) \<Rightarrow> string \<Rightarrow> json_obj \<Rightarrow> config_error + loaded_config" where
  "config_from_dict repr_of float_of hostname d =
     (case section_of ''server'' d of
        Inl e \<Rightarrow> Inl e
      | Inr sv \<Rightarrow>
          (case section_of ''agent'' d of
             Inl e \<Rightarrow> Inl e
           | Inr ag \<Rightarrow>
               (case section_of ''paths'' d of
                  Inl e \<Rightarrow> Inl e
                | Inr pa \<Rightarrow>
                    (case section_of ''polling'' d of
                       Inl e \<Rightarrow> Inl e
                     | Inr po \<Rightarrow>
                         (case polling_of float_of po of
                            Inl e \<Rightarrow> Inl (BadFloat e)
                          | Inr (qi, beat, poll, extra) \<Rightarrow>
                              Inr \<lparr>ac_id = agent_id_of repr_of hostname ag,
                                ac_version = Some (case str_truthy repr_of (json_get ''version'' ag) of None \<Rightarrow> ''agent-v0.1'' | Some v \<Rightarrow> v),
                                ac_hostname = Some (case str_truthy repr_of (json_get ''hostname'' ag) of None \<Rightarrow> hostname | Some h \<Rightarrow> h),
                                ac_token = str_truthy repr_of (json_get ''token'' sv),
                                ac_heartbeat_interval_s = beat,
                                ac_plugin_wait_max_extra_s = extra,
                                lc_url = server_url_of repr_of sv,
                                lc_verify_tls = json_truthy (get_or (JBool True) ''verify_tls'' sv),
                                lc_tm_maps_root = json_str repr_of (get_or (JStr ''.'') ''tm_maps_root'' pa),
                                lc_ai_inbox_subdir = (case str_truthy repr_of (json_get ''ai_inbox_subdir'' pa) of None \<Rightarrow> ''AI-inbox'' | Some s \<Rightarrow> s),
                                lc_plugin_rig_dir = json_str repr_of (get_or (JStr ''.'') ''plugin_rig_dir'' pa),
                                lc_queue_interval_s = qi,
                                lc_plugin_poll_interval_s = poll\<rparr>)))))"

text \<open>A non-empty environment variable wins over the file, even when it is blank.\<close>

definition env_override :: "string option \<Rightarrow> loaded_config \<Rightarrow> loaded_config" where
  "env_override env_token cfg =
     (case env_token of
        None \<Rightarrow> cfg
      | Some t \<Rightarrow> if t = [] then cfg else cfg\<lparr>ac_token := (if py_strip t = [] then None else Some (py_strip t))\<rparr>)"

definition load_config :: "(json \<Rightarrow> string) \<Rightarrow> (string \<Rightarrow> rat option) \<Rightarrow> string \<Rightarrow> string option \<Rightarrow> json \<Rightarrow> config_error + loaded_config" where
  "load_config repr_of float_of hostname env_token document =
     (case (if json_truthy document then document else JObj []) of
        JObj raw \<Rightarrow>
          (case config_from_dict repr_of float_of hostname raw of
             Inl e \<Rightarrow> Inl e
           | Inr cfg \<Rightarrow> let cfg = env_override env_token cfg in if lc_url cfg = [] then Inl UrlRequired else Inr cfg)
      | _ \<Rightarrow> Inl NotAnObject)"

subsection \<open>Stripping\<close>

lemma dropWhile_prefix_stop: "dropWhile P (ys @ zs) = ys @ zs \<Longrightarrow> dropWhile P ys = ys"
proof (cases ys)
  case (Cons y ys')
  assume eq: "dropWhile P (ys @ zs) = ys @ zs"
  have "\<not> P y"
  proof
    assume "P y"
    with eq Cons have "length (dropWhile P (ys' @ zs)) = Suc (length (ys' @ zs))" by simp
    with length_dropWhile_le [of P "ys' @ zs"] show False by simp
  qed
  with Cons show ?thesis by simp
qed simp

lemma py_strip_front: "dropWhile is_space (py_strip s) = py_strip s"
proof -
  let ?t = "dropWhile is_space s"
  have "dropWhile is_space ?t = ?t" by (induction s) auto
  moreover have "?t = py_strip s @ rev (takeWhile is_space (rev ?t))"
    unfolding py_strip_def by (metis rev_append rev_rev_ident takeWhile_dropWhile_id)
  ultimately show ?thesis by (metis dropWhile_prefix_stop)
qed

lemma py_strip_back: "dropWhile is_space (rev (py_strip s)) = rev (py_strip s)"
proof -
  have "dropWhile is_space (dropWhile is_space xs) = dropWhile is_space xs" for xs by (induction xs) auto
  then show ?thesis by (simp add: py_strip_def)
qed

lemma py_strip_idem [simp]: "py_strip (py_strip s) = py_strip s"
proof -
  have "py_strip (py_strip s) = rev (dropWhile is_space (rev (dropWhile is_space (py_strip s))))" by (rule py_strip_def)
  also have "\<dots> = py_strip s" by (simp only: py_strip_front py_strip_back rev_rev_ident)
  finally show ?thesis .
qed

lemma load_config_cases:
  assumes "load_config repr_of float_of hostname env_token document = Inr cfg"
  obtains raw file_cfg where "config_from_dict repr_of float_of hostname raw = Inr file_cfg"
    "cfg = env_override env_token file_cfg" "lc_url cfg \<noteq> []"
  using assms by (auto simp: load_config_def Let_def split: json.splits sum.splits if_splits)

lemma config_from_dict_id:
  assumes "config_from_dict repr_of float_of hostname raw = Inr cfg"
  shows "\<exists>ag sv. ac_id cfg = agent_id_of repr_of hostname ag \<and> lc_url cfg = server_url_of repr_of sv"
  using assms by (auto simp: config_from_dict_def split: sum.splits prod.splits)

lemma env_override_simps [simp]:
  "ac_id (env_override t cfg) = ac_id cfg" "lc_url (env_override t cfg) = lc_url cfg"
  by (simp_all add: env_override_def split: option.split)

lemma env_override_token:
  "py_strip t \<noteq> [] \<Longrightarrow> ac_token (env_override (Some t) cfg) = Some (py_strip t)"
  by (auto simp: env_override_def py_strip_def)

lemma agent_id_of_stripped:
  assumes "py_strip (''agent-'' @ hostname) = ''agent-'' @ hostname"
  shows "py_strip (agent_id_of repr_of hostname d) = agent_id_of repr_of hostname d \<and> agent_id_of repr_of hostname d \<noteq> []"
  using assms by (auto simp: agent_id_of_def Let_def)

lemma rstrip_slash_end: "rstrip_slash s \<noteq> [] \<Longrightarrow> List.last (rstrip_slash s) \<noteq> CHR ''/''"
proof -
  assume ne: "rstrip_slash s \<noteq> []"
  then have "hd (dropWhile (\<lambda>c. c = CHR ''/'') (rev s)) \<noteq> CHR ''/''"
    using hd_dropWhile [of "\<lambda>c. c = CHR ''/''" "rev s"] by (simp add: rstrip_slash_def)
  with ne show ?thesis by (simp add: rstrip_slash_def last_rev)
qed

text \<open>
  Configuration meets server: when the operator gives the server and the agent the same token
  through the environment, up to surrounding blanks on either side, and the server starts, every
  configuration the agent loads (whatever token its file contains) makes the server accept the agent's
  requests; the agent's identifier is non-empty and survives the server's stripping, and the server
  address is non-empty without a trailing slash.
\<close>

theorem loaded_config_accepted:
  assumes "load_config repr_of float_of hostname (Some t) document = Inr cfg"
    and "create_app (resolve_auth_token None (Some t')) False = Some scfg" and "py_strip t = py_strip t'"
    and "py_strip (''agent-'' @ hostname) = ''agent-'' @ hostname"
  shows "authorised scfg (session_auth (agent_config.truncate cfg)) \<and>
    py_strip (ac_id cfg) = ac_id cfg \<and> ac_id cfg \<noteq> [] \<and> lc_url cfg \<noteq> [] \<and> List.last (lc_url cfg) \<noteq> CHR ''/''"
proof -
  obtain raw file_cfg where c: "config_from_dict repr_of float_of hostname raw = Inr file_cfg"
    "cfg = env_override (Some t) file_cfg" "lc_url cfg \<noteq> []"
    by (rule load_config_cases [OF assms(1)])
  obtain ag sv where i: "ac_id file_cfg = agent_id_of repr_of hostname ag" "lc_url file_cfg = server_url_of repr_of sv"
    using config_from_dict_id [OF c(1)] by blast
  have s: "scfg = \<lparr>sc_auth_token = Some (py_strip t'), sc_allow_insecure = False\<rparr>" "py_strip t' \<noteq> []"
    using assms(2) by (auto simp: create_app_def resolve_auth_token_def token_set_def split: if_splits)
  then have tok: "ac_token cfg = Some (py_strip t')" using env_override_token [of t] c(2) assms(3) by simp
  have "ac_token (agent_config.truncate cfg) = ac_token cfg" by (simp add: agent_config.truncate_def)
  then have "session_auth (agent_config.truncate cfg) = Some (BEARER_PREFIX @ py_strip t')"
    using s(2) tok by (simp add: session_auth_def token_set_def)
  then have "authorised scfg (session_auth (agent_config.truncate cfg))"
    using s by (simp add: authorised_def token_set_def BEARER_PREFIX_def)
  with agent_id_of_stripped [OF assms(4)] i c rstrip_slash_end show ?thesis
    by (simp add: server_url_of_def)
qed

definition demo_document :: json where
  "demo_document = JObj [(''server'', JObj [(''url'', JStr ''http://rig:8090/''), (''token'', JStr '' old '')]), (''agent'', JObj [(''id'', JStr '' rig '')])]"

theorem loaded_config_accepted_witness:
  "\<exists>cfg. load_config (\<lambda>_. ''?'') (\<lambda>_. None) ''host'' (Some '' s3'') demo_document = Inr cfg \<and>
    authorised demo_cfg (session_auth (agent_config.truncate cfg)) \<and> ac_id cfg = ''rig''"
proof -
  have "case load_config (\<lambda>_. ''?'') (\<lambda>_. None) ''host'' (Some '' s3'') demo_document of Inl _ \<Rightarrow> False | Inr cfg \<Rightarrow> ac_id cfg = ''rig''"
    by code_simp
  then obtain cfg where l: "load_config (\<lambda>_. ''?'') (\<lambda>_. None) ''host'' (Some '' s3'') demo_document = Inr cfg" "ac_id cfg = ''rig''"
    by (auto split: sum.splits)
  have "create_app (resolve_auth_token None (Some ''s3 '')) False = Some demo_cfg" "py_strip '' s3'' = py_strip ''s3 ''"
    "py_strip (''agent-'' @ ''host'') = ''agent-'' @ ''host''" by code_simp+
  from loaded_config_accepted [OF l(1) this] l show ?thesis by blast
qed

end
