(* ===== verification/Rate_Limit.thy ===== *)
theory Rate_Limit
  imports Prelude
begin

section \<open>The token bucket\<close>

text \<open>
  Model of \<^verbatim>\<open>src/src/ingestion/rate_limit.py\<close>. The monotonic clock is a state of its own: before its
  \<open>n\<close>-th reading \<open>drift n\<close> seconds have passed (the work of the program and of the machine), and sleeping
  adds the requested time. Seconds and tokens are rationals, so rounding of doubles is not modelled. The
  lock is not modelled (the ingestion is serial). Waiting is a partial function, which is shown to return
  after at most one sleep.
\<close>

record timer =
  tm_now :: rat
  tm_reads :: nat

definition read_timer :: "(nat \<Rightarrow> rat) \<Rightarrow> timer \<Rightarrow> rat \<times> timer" where
  "read_timer drift t =
     (let now = tm_now t + drift (tm_reads t) in (now, t\<lparr>tm_now := now, tm_reads := tm_reads t + 1\<rparr>))"

definition sleep_timer :: "rat \<Rightarrow> timer \<Rightarrow> timer" where
  "sleep_timer seconds t = t\<lparr>tm_now := tm_now t + seconds\<rparr>"

record token_bucket =
  tb_rate :: rat
  tb_capacity :: rat
  tb_tokens :: rat
  tb_last :: rat

definition token_bucket_init :: "(nat \<Rightarrow> rat) \<Rightarrow> rat \<Rightarrow> rat option \<Rightarrow> timer \<Rightarrow> (py_error + token_bucket) \<times> timer" where
  "token_bucket_init drift rate_per_second capacity t =
     (if rate_per_second \<le> 0 then (Inl ValueError, t)
      else let cap = (case capacity of Some c \<Rightarrow> c | None \<Rightarrow> max rate_per_second 1)
        in if cap \<le> 0 then (Inl ValueError, t)
           else let (now, t) = read_timer drift t
             in (Inr \<lparr>tb_rate = rate_per_second, tb_capacity = cap, tb_tokens = cap, tb_last = now\<rparr>, t))"

definition refill :: "rat \<Rightarrow> token_bucket \<Rightarrow> token_bucket" where
  "refill now b =
     (let elapsed = now - tb_last b
      in if 0 < elapsed then b\<lparr>tb_tokens := min (tb_capacity b) (tb_tokens b + elapsed * tb_rate b), tb_last := now\<rparr>
         else b)"

partial_function (option) acquire_loop :: "(nat \<Rightarrow> rat) \<Rightarrow> rat \<Rightarrow> token_bucket \<Rightarrow> timer \<Rightarrow> (token_bucket \<times> timer) option" where
  "acquire_loop drift tokens b t =
     (let now = fst (read_timer drift t); t = snd (read_timer drift t); b = refill now b
      in if tokens \<le> tb_tokens b then Some (b\<lparr>tb_tokens := tb_tokens b - tokens\<rparr>, t)
         else acquire_loop drift tokens b (sleep_timer ((tokens - tb_tokens b) / tb_rate b) t))"

declare acquire_loop.simps [code]

definition acquire :: "(nat \<Rightarrow> rat) \<Rightarrow> rat \<Rightarrow> token_bucket \<Rightarrow> timer \<Rightarrow> ((py_error + token_bucket) \<times> timer) option" where
  "acquire drift tokens b t =
     (if tokens \<le> 0 \<or> tb_capacity b < tokens then Some (Inl ValueError, t)
      else map_option (\<lambda>(b, t). (Inr b, t)) (acquire_loop drift tokens b t))"

subsection \<open>The invariant\<close>

definition bucket_wf :: "token_bucket \<Rightarrow> timer \<Rightarrow> bool" where
  "bucket_wf b t \<longleftrightarrow> 0 < tb_rate b \<and> 0 < tb_capacity b \<and> 0 \<le> tb_tokens b \<and> tb_tokens b \<le> tb_capacity b \<and> tb_last b \<le> tm_now t"

lemma read_timer_simps [simp]:
  "fst (read_timer drift t) = tm_now t + drift (tm_reads t)"
  "tm_now (snd (read_timer drift t)) = tm_now t + drift (tm_reads t)"
  by (simp_all add: read_timer_def Let_def)

lemma init_wf:
  assumes "token_bucket_init drift rate_per_second capacity t = (Inr b, t')"
  shows "bucket_wf b t'"
  using assms by (auto simp: token_bucket_init_def bucket_wf_def Let_def read_timer_def split: if_splits option.splits)

lemma refill_simps [simp]: "tb_rate (refill now b) = tb_rate b" "tb_capacity (refill now b) = tb_capacity b"
  by (simp_all add: refill_def Let_def)

lemma refill_wf:
  assumes "bucket_wf b t" and "tb_last b \<le> now" and "now \<le> tm_now t'"
  shows "bucket_wf (refill now b) t'" and "tb_last (refill now b) = now"
    and "tb_tokens (refill now b) = min (tb_capacity b) (tb_tokens b + (now - tb_last b) * tb_rate b)"
proof -
  have nn: "0 \<le> (now - tb_last b) * tb_rate b" using assms by (auto simp: bucket_wf_def)
  show "bucket_wf (refill now b) t'"
    using assms nn by (auto simp: bucket_wf_def refill_def Let_def)
  show "tb_last (refill now b) = now" using assms(2) by (auto simp: refill_def Let_def)
  show "tb_tokens (refill now b) = min (tb_capacity b) (tb_tokens b + (now - tb_last b) * tb_rate b)"
    using assms(1,2) by (auto simp: refill_def Let_def bucket_wf_def)
qed

text \<open>What one call did: it took its tokens at the time it last read the clock, and the bucket gained at
  most what the rate allows.\<close>

definition granted :: "rat \<Rightarrow> token_bucket \<Rightarrow> timer \<Rightarrow> token_bucket \<Rightarrow> timer \<Rightarrow> bool" where
  "granted tokens b t b' t' \<longleftrightarrow>
     bucket_wf b' t' \<and> tb_last b' = tm_now t' \<and> tm_now t \<le> tm_now t' \<and>
     tb_rate b' = tb_rate b \<and> tb_capacity b' = tb_capacity b \<and> tb_tokens b' \<le> tb_capacity b - tokens \<and>
     tb_tokens b' \<le> tb_tokens b + (tb_last b' - tb_last b) * tb_rate b - tokens"

lemma acquire_step:
  assumes "\<forall>n. 0 \<le> drift n" and "bucket_wf b t"
    and "now = tm_now t + drift (tm_reads t)" and "b1 = refill now b" and "t1 = snd (read_timer drift t)"
  shows "bucket_wf b1 t1" and "tb_last b1 = tm_now t1" and "tm_now t \<le> tm_now t1"
    and "tb_tokens b1 \<le> tb_tokens b + (tb_last b1 - tb_last b) * tb_rate b"
    and "tb_rate b1 = tb_rate b" and "tb_capacity b1 = tb_capacity b"
proof -
  have t: "tm_now t \<le> now" "tm_now t1 = now" using assms(1,3,5) by simp_all
  then have last: "tb_last b \<le> now" using assms(2) by (simp add: bucket_wf_def)
  note r = refill_wf [OF assms(2) last, of t1]
  show "bucket_wf b1 t1" "tb_last b1 = tm_now t1" "tm_now t \<le> tm_now t1"
    "tb_tokens b1 \<le> tb_tokens b + (tb_last b1 - tb_last b) * tb_rate b"
    "tb_rate b1 = tb_rate b" "tb_capacity b1 = tb_capacity b"
    using r t assms(4) by simp_all
qed

lemma acquire_loop_granted:
  "acquire_loop drift tokens b t = Some y \<Longrightarrow> \<forall>n. 0 \<le> drift n \<Longrightarrow> bucket_wf b t \<Longrightarrow> 0 < tokens \<Longrightarrow>
     granted tokens b t (fst y) (snd y)"
proof (induction rule: acquire_loop.raw_induct [rotated 1, consumes 1, case_names step])
  case (step loop drift tokens b t y)
  define now where "now = tm_now t + drift (tm_reads t)"
  define b1 where "b1 = refill now b"
  define t1 where "t1 = snd (read_timer drift t)"
  note s = acquire_step [OF step.prems(1,2) now_def b1_def t1_def]
  have eq: "(if tokens \<le> tb_tokens b1 then Some (b1\<lparr>tb_tokens := tb_tokens b1 - tokens\<rparr>, t1)
      else loop drift tokens b1 (sleep_timer ((tokens - tb_tokens b1) / tb_rate b1) t1)) = Some y"
    using step.hyps by (simp only: Let_def now_def b1_def t1_def read_timer_simps)
  show ?case
  proof (cases "tokens \<le> tb_tokens b1")
    case True
    with eq have "y = (b1\<lparr>tb_tokens := tb_tokens b1 - tokens\<rparr>, t1)" by simp
    with True s step.prems show ?thesis by (auto simp: granted_def bucket_wf_def)
  next
    case False
    define t2 where "t2 = sleep_timer ((tokens - tb_tokens b1) / tb_rate b1) t1"
    have rate: "0 < tb_rate b1" using s(1) by (simp add: bucket_wf_def)
    have "0 \<le> (tokens - tb_tokens b1) / tb_rate b1" using False rate by simp
    then have t2: "tm_now t1 \<le> tm_now t2" by (simp add: t2_def sleep_timer_def)
    then have "bucket_wf b1 t2" using s(1) by (simp add: bucket_wf_def)
    from eq False have "loop drift tokens b1 t2 = Some y" by (simp add: t2_def)
    from step.IH [OF this step.prems(1) \<open>bucket_wf b1 t2\<close> step.prems(3)]
    have g: "granted tokens b1 t2 (fst y) (snd y)" .
    have "(tb_last (fst y) - tb_last b1) * tb_rate b1 + (tb_last b1 - tb_last b) * tb_rate b =
        (tb_last (fst y) - tb_last b) * tb_rate b" by (simp add: s(5) algebra_simps)
    with g s t2 show ?thesis by (auto simp: granted_def)
  qed
qed

text \<open>One sleep is enough: the bucket then holds the missing tokens.\<close>

lemma acquire_loop_returns:
  assumes "\<forall>n. 0 \<le> drift n" and "bucket_wf b t" and "tokens \<le> tb_capacity b"
  shows "\<exists>y. acquire_loop drift tokens b t = Some y"
proof -
  define b1 where "b1 = refill (tm_now t + drift (tm_reads t)) b"
  define t1 where "t1 = snd (read_timer drift t)"
  note s = acquire_step [OF assms(1,2) refl b1_def t1_def]
  show ?thesis
  proof (cases "tokens \<le> tb_tokens b1")
    case True
    then show ?thesis by (subst acquire_loop.simps) (simp add: Let_def b1_def)
  next
    case False
    define w where "w = (tokens - tb_tokens b1) / tb_rate b1"
    define t2 where "t2 = sleep_timer w t1"
    define b2 where "b2 = refill (tm_now t2 + drift (tm_reads t2)) b1"
    have rate: "0 < tb_rate b1" using s(1) by (simp add: bucket_wf_def)
    then have w: "0 \<le> w" "w * tb_rate b1 = tokens - tb_tokens b1" using False by (simp_all add: w_def)
    have now2: "tb_last b1 + w \<le> tm_now t2 + drift (tm_reads t2)"
      using s(2) assms(1) by (simp add: t2_def sleep_timer_def)
    have wf2: "bucket_wf b1 t2" using s(1) w(1) by (simp add: bucket_wf_def t2_def sleep_timer_def)
    have "w * tb_rate b1 \<le> (tm_now t2 + drift (tm_reads t2) - tb_last b1) * tb_rate b1"
      using now2 rate by (intro mult_right_mono) simp_all
    then have "tokens \<le> tb_tokens b1 + (tm_now t2 + drift (tm_reads t2) - tb_last b1) * tb_rate b1" using w(2) by simp
    moreover have "tb_tokens b2 = min (tb_capacity b1) (tb_tokens b1 + (tm_now t2 + drift (tm_reads t2) - tb_last b1) * tb_rate b1)"
      unfolding b2_def by (rule refill_wf(3) [OF wf2, of _ "snd (read_timer drift t2)"]) (use now2 w(1) in simp_all)
    ultimately have "tokens \<le> tb_tokens b2" using assms(3) s(6) by simp
    then have "\<exists>y. acquire_loop drift tokens b1 t2 = Some y"
      by (subst acquire_loop.simps) (simp add: Let_def b2_def)
    then show ?thesis
      using False by (subst acquire_loop.simps) (simp add: Let_def b1_def t1_def t2_def w_def)
  qed
qed

subsection \<open>The rate\<close>

text \<open>\<open>n\<close> calls in a row, with the times at which they were granted.\<close>

fun acquire_many :: "(nat \<Rightarrow> rat) \<Rightarrow> nat \<Rightarrow> token_bucket \<Rightarrow> timer \<Rightarrow> (rat list \<times> token_bucket \<times> timer) option" where
  "acquire_many drift 0 b t = Some ([], b, t)"
| "acquire_many drift (Suc n) b t =
     (case acquire drift 1 b t of
        Some (Inr b', t') \<Rightarrow> map_option (\<lambda>(ts, r). (tm_now t' # ts, r)) (acquire_many drift n b' t')
      | _ \<Rightarrow> None)"

lemma acquire_granted:
  assumes "acquire drift tokens b t = Some (Inr b', t')" and "\<forall>n. 0 \<le> drift n" and "bucket_wf b t"
  shows "granted tokens b t b' t'"
  using acquire_loop_granted [OF _ assms(2,3), of tokens "(b', t')"] assms(1)
  by (auto simp: acquire_def split: if_splits)

lemma acquire_many_rate:
  assumes "acquire_many drift n b t = Some (ts, b', t')" and "\<forall>n. 0 \<le> drift n" and "bucket_wf b t" and "i < length ts"
  shows "of_nat (i + 1) \<le> tb_tokens b + (ts ! i - tb_last b) * tb_rate b"
  using assms(1,3,4)
proof (induction n arbitrary: b t ts i)
  case (Suc n)
  from Suc.prems(1) obtain b1 t1 rest where a: "acquire drift 1 b t = Some (Inr b1, t1)"
    "acquire_many drift n b1 t1 = Some (rest, b', t')" "ts = tm_now t1 # rest"
    by (auto split: option.splits sum.splits)
  note g = acquire_granted [OF a(1) assms(2) Suc.prems(2)]
  then have wf: "bucket_wf b1 t1" and last: "tb_last b1 = tm_now t1" and rate: "tb_rate b1 = tb_rate b"
    and tok: "tb_tokens b1 \<le> tb_tokens b + (tb_last b1 - tb_last b) * tb_rate b - 1"
    unfolding granted_def by blast+
  show ?case
  proof (cases i)
    case 0
    have "0 \<le> tb_tokens b1" using wf by (simp add: bucket_wf_def)
    with tok last a(3) 0 show ?thesis by simp
  next
    case (Suc k)
    with Suc.prems(3) a(3) have "k < length rest" by simp
    from Suc.IH [OF a(2) wf this]
    have "of_nat (k + 1) \<le> tb_tokens b1 + (rest ! k - tb_last b1) * tb_rate b" by (simp add: rate)
    with tok have "of_nat (k + 1) + 1 \<le> tb_tokens b + (tb_last b1 - tb_last b) * tb_rate b + (rest ! k - tb_last b1) * tb_rate b" by simp
    also have "\<dots> = tb_tokens b + (rest ! k - tb_last b) * tb_rate b" by (simp add: algebra_simps)
    finally show ?thesis using Suc a(3) by simp
  qed
qed simp

text \<open>
  C29. The rate limit: whatever the clock does as long as it does not run backwards, between the grants
  number \<open>i\<close> and \<open>j\<close> of a bucket at most its capacity plus the rate times the time between them have been
  granted, both included.
\<close>

theorem bucket_limits_rate:
  assumes "token_bucket_init drift rate capacity t0 = (Inr b, t)" and "\<forall>n. 0 \<le> drift n"
    and "acquire_many drift n b t = Some (ts, b', t')" and "i \<le> j" and "j < length ts"
  shows "of_nat (j - i + 1) \<le> tb_capacity b + (ts ! j - ts ! i) * tb_rate b"
proof -
  have step: "of_nat (j - i + 1) \<le> tb_capacity b + (ts ! j - ts ! i) * tb_rate b"
    if "acquire_many drift n b t = Some (ts, b', t')" "bucket_wf b t" "i \<le> j" "j < length ts" for b t n ts i j
    using that
  proof (induction i arbitrary: n b t ts j)
    case 0
    from 0 obtain m b1 t1 rest where a: "n = Suc m" "acquire drift 1 b t = Some (Inr b1, t1)"
      "acquire_many drift m b1 t1 = Some (rest, b', t')" "ts = tm_now t1 # rest"
      by (cases n) (auto split: option.splits sum.splits)
    note g = acquire_granted [OF a(2) assms(2) 0(2)]
    then have wf: "bucket_wf b1 t1" and last: "tb_last b1 = tm_now t1" and rate: "tb_rate b1 = tb_rate b"
      and tok: "tb_tokens b1 \<le> tb_capacity b - 1" by (simp_all add: granted_def)
    show ?case
    proof (cases j)
      case 0
      have "0 \<le> tb_tokens b1" using wf by (simp add: bucket_wf_def)
      with 0 tok show ?thesis by simp
    next
      case (Suc k)
      with 0(4) a(4) have "k < length rest" by simp
      from acquire_many_rate [OF a(3) assms(2) wf this]
      have "of_nat (k + 1) \<le> tb_tokens b1 + (rest ! k - tm_now t1) * tb_rate b" by (simp add: rate last)
      with tok Suc a(4) show ?thesis by simp
    qed
  next
    case (Suc i)
    from Suc.prems(3) obtain k where k: "j = Suc k" by (cases j) auto
    from Suc.prems(1,4) obtain m b1 t1 rest where a: "n = Suc m" "acquire drift 1 b t = Some (Inr b1, t1)"
      "acquire_many drift m b1 t1 = Some (rest, b', t')" "ts = tm_now t1 # rest"
      by (cases n) (auto split: option.splits sum.splits)
    note g = acquire_granted [OF a(2) assms(2) Suc.prems(2)]
    then have "bucket_wf b1 t1" "tb_rate b1 = tb_rate b" "tb_capacity b1 = tb_capacity b" by (simp_all add: granted_def)
    with Suc.IH [OF a(3), of k] Suc.prems(3,4) a(4) k show ?case by simp
  qed
  from step [OF assms(3) init_wf [OF assms(1)] assms(4,5)] show ?thesis .
qed

definition demo_bucket :: "(py_error + token_bucket) \<times> timer" where
  "demo_bucket = token_bucket_init (\<lambda>n. 0) 2 None \<lparr>tm_now = 10, tm_reads = 0\<rparr>"

theorem bucket_limits_rate_witness:
  "\<exists>b t ts r. demo_bucket = (Inr b, t) \<and> acquire_many (\<lambda>n. 0) 3 b t = Some (ts, r) \<and> length ts = 3 \<and>
    of_nat 3 \<le> tb_capacity b + (ts ! 2 - ts ! 0) * tb_rate b"
proof -
  obtain b t where b: "demo_bucket = (Inr b, t)" "b = \<lparr>tb_rate = 2, tb_capacity = 2, tb_tokens = 2, tb_last = 10\<rparr>"
    "t = \<lparr>tm_now = 10, tm_reads = 1\<rparr>"
    by (simp add: demo_bucket_def token_bucket_init_def read_timer_def Let_def)
  have "case acquire_many (\<lambda>n. 0) 3 \<lparr>tb_rate = 2, tb_capacity = 2, tb_tokens = 2, tb_last = 10\<rparr> \<lparr>tm_now = 10, tm_reads = 1\<rparr> of
      None \<Rightarrow> False | Some (ts, b', t') \<Rightarrow> length ts = 3" by code_simp
  with b obtain ts b' t' where m: "acquire_many (\<lambda>n. 0) 3 b t = Some (ts, b', t')" "length ts = 3"
    by (auto split: option.splits)
  from bucket_limits_rate [OF b(1) [unfolded demo_bucket_def] _ m(1), of 0 2] m(2)
  have "of_nat (2 - 0 + 1) \<le> tb_capacity b + (ts ! 2 - ts ! 0) * tb_rate b" by simp
  then have "of_nat 3 \<le> tb_capacity b + (ts ! 2 - ts ! 0) * tb_rate b" by (simp only: numeral_3_eq_3)
  with b(1) m show ?thesis by blast
qed

end
