(* ===== verification/Ingest_Http.thy ===== *)
theory Ingest_Http
  imports Rate_Limit
begin

section \<open>The HTTP client of the ingestion\<close>

text \<open>
  Model of \<^verbatim>\<open>src/src/ingestion/cache.py\<close> and \<^verbatim>\<open>src/src/ingestion/http.py\<close>. The network is the
  environment: the answer to the \<open>n\<close>-th request, as a function of its URL and parameters, is a response or
  an exception of the \<open>requests\<close> library. The disk cache is a map from keys to bytes, the random generator a
  sequence of jitter draws, \<open>sha256\<close>, \<open>float()\<close> and the parser of HTTP dates are parameters, query parameters
  are given as strings. Seconds are rationals, so infinities and NaN in a \<open>Retry-After\<close> header are not
  represented. \<open>hw_slept\<close> is the log of the sleeps between retries, last first.
\<close>

type_synonym params = "(string \<times> string) list"

datatype ingest_exn = HttpError "nat option" | PyError py_error | JsonError

record raw_response =
  rr_status :: nat
  rr_content :: bytes
  rr_headers :: params

record http_response =
  ht_status :: nat
  ht_content :: bytes
  ht_headers :: params
  ht_from_cache :: bool

record http_env =
  he_drift :: "nat \<Rightarrow> rat"
  he_net :: "nat \<Rightarrow> string \<Rightarrow> params \<Rightarrow> raw_response option"
  he_uniform :: "nat \<Rightarrow> rat"
  he_wall :: "nat \<Rightarrow> rat"
  he_float :: "string \<Rightarrow> rat option"
  he_date :: "string \<Rightarrow> rat option"
  he_sha256 :: "string \<Rightarrow> string"

record http_config =
  hc_base_url :: string
  hc_user_agent :: string
  hc_cached :: bool
  hc_backoff :: "rat list"
  hc_max_total_retry_seconds :: rat
  hc_jitter_lo :: rat
  hc_jitter_hi :: rat

record http_world =
  hw_timer :: timer
  hw_bucket :: token_bucket
  hw_cache :: "string \<rightharpoonup> bytes"
  hw_requests :: nat
  hw_draws :: nat
  hw_slept :: "rat list"

subsection \<open>The response cache\<close>

text \<open>\<open>method.upper()\<close> is \<open>GET\<close> throughout. The items are sorted as pairs of strings.\<close>

definition canonical :: "params \<Rightarrow> string" where
  "canonical ps = (case map (\<lambda>(k, v). k @ ''='' @ v) (sort ps) of
     [] \<Rightarrow> [] | p # rest \<Rightarrow> p @ concat (map (\<lambda>q. ''&'' @ q) rest))"

definition key_for :: "http_env \<Rightarrow> string \<Rightarrow> params \<Rightarrow> string" where
  "key_for env url ps = he_sha256 env (''GET'' @ [CHR 0x0A] @ url @ [CHR 0x0A] @ canonical ps)"

subsection \<open>Construction\<close>

definition http_client_init :: "string \<Rightarrow> string \<Rightarrow> bool \<Rightarrow> rat list \<Rightarrow> rat \<Rightarrow> rat \<times> rat \<Rightarrow> py_error + http_config" where
  "http_client_init base_url user_agent cached backoff max_total jitter =
     (if base_url = [] \<or> user_agent = [] then Inl ValueError
      else if \<not> (0 < fst jitter \<and> fst jitter \<le> 1 \<and> 1 \<le> snd jitter) then Inl ValueError
      else Inr \<lparr>hc_base_url = rev (dropWhile (\<lambda>c. c = CHR ''/'') (rev base_url)), hc_user_agent = user_agent,
        hc_cached = cached, hc_backoff = backoff, hc_max_total_retry_seconds = max_total,
        hc_jitter_lo = fst jitter, hc_jitter_hi = snd jitter\<rparr>)"

subsection \<open>Requests with retries\<close>

definition parse_retry_after :: "http_env \<Rightarrow> rat \<Rightarrow> string option \<Rightarrow> rat option" where
  "parse_retry_after env now value =
     (case value of
        None \<Rightarrow> None
      | Some v \<Rightarrow>
          let v = py_strip v in
          if v = [] then None
          else case he_float env v of
              Some q \<Rightarrow> Some (max 0 q)
            | None \<Rightarrow> map_option (\<lambda>ts. max 0 (ts - now)) (he_date env v))"

text \<open>\<open>headers.get\<close> of the \<open>requests\<close> library ignores case.\<close>

definition header_get :: "string \<Rightarrow> params \<Rightarrow> string option" where
  "header_get name hs = map_option snd (find (\<lambda>(k, v). lower k = lower name) hs)"

definition next_wait :: "http_env \<Rightarrow> http_config \<Rightarrow> rat \<Rightarrow> string option \<Rightarrow> http_world \<Rightarrow> rat \<times> http_world" where
  "next_wait env cfg base retry_after w =
     (let scheduled = base * he_uniform env (hw_draws w);
          hint = parse_retry_after env (he_wall env (hw_draws w)) retry_after
      in (case hint of None \<Rightarrow> scheduled | Some h \<Rightarrow> max scheduled h, w\<lparr>hw_draws := hw_draws w + 1\<rparr>))"

definition sleep_retry :: "rat \<Rightarrow> http_world \<Rightarrow> http_world" where
  "sleep_retry seconds w = w\<lparr>hw_timer := sleep_timer seconds (hw_timer w), hw_slept := seconds # hw_slept w\<rparr>"

definition final_status :: "nat \<Rightarrow> bool" where
  "final_status status \<longleftrightarrow> (200 \<le> status \<and> status < 300) \<or> (400 \<le> status \<and> status < 500 \<and> status \<noteq> 429)"

definition response_of :: "raw_response \<Rightarrow> http_response" where
  "response_of raw = \<lparr>ht_status = rr_status raw, ht_content = rr_content raw, ht_headers = rr_headers raw, ht_from_cache = False\<rparr>"

text \<open>The list is what is left of the back-off schedule; an attempt with none left is the last one.\<close>

fun retry_loop :: "http_env \<Rightarrow> http_config \<Rightarrow> string \<Rightarrow> params \<Rightarrow> rat list \<Rightarrow> rat \<Rightarrow> http_world
    \<Rightarrow> ((ingest_exn + http_response) \<times> http_world) option" where
  "retry_loop env cfg url ps schedule total_wait w =
     (case acquire (he_drift env) 1 (hw_bucket w) (hw_timer w) of
        None \<Rightarrow> None
      | Some (Inl e, t) \<Rightarrow> Some (Inl (PyError e), w\<lparr>hw_timer := t\<rparr>)
      | Some (Inr b, t) \<Rightarrow>
          let n = hw_requests w; w = w\<lparr>hw_bucket := b, hw_timer := t, hw_requests := n + 1\<rparr>
          in (case he_net env n url ps of
                None \<Rightarrow>
                  (case schedule of
                     [] \<Rightarrow> Some (Inl (HttpError None), w)
                   | base # rest \<Rightarrow>
                       (case next_wait env cfg base None w of
                          (wait, w) \<Rightarrow>
                            if hc_max_total_retry_seconds cfg < total_wait + wait then Some (Inl (HttpError None), w)
                            else retry_loop env cfg url ps rest (total_wait + wait) (sleep_retry wait w)))
              | Some raw \<Rightarrow>
                  if final_status (rr_status raw) then Some (Inr (response_of raw), w)
                  else (case schedule of
                     [] \<Rightarrow> Some (Inr (response_of raw), w)
                   | base # rest \<Rightarrow>
                       (case next_wait env cfg base (header_get ''Retry-After'' (rr_headers raw)) w of
                          (wait, w) \<Rightarrow>
                            if hc_max_total_retry_seconds cfg < total_wait + wait then Some (Inr (response_of raw), w)
                            else retry_loop env cfg url ps rest (total_wait + wait) (sleep_retry wait w)))))"

declare retry_loop.simps [simp del]

definition request_with_retries :: "http_env \<Rightarrow> http_config \<Rightarrow> string \<Rightarrow> params \<Rightarrow> http_world
    \<Rightarrow> ((ingest_exn + http_response) \<times> http_world) option" where
  "request_with_retries env cfg url ps w = retry_loop env cfg url ps (hc_backoff cfg) 0 w"

definition build_url :: "http_config \<Rightarrow> string \<Rightarrow> string" where
  "build_url cfg path =
     (if startswith path ''http://'' \<or> startswith path ''https://'' then path
      else hc_base_url cfg @ (if startswith path ''/'' then [] else ''/'') @ path)"

definition http_get :: "http_env \<Rightarrow> http_config \<Rightarrow> string \<Rightarrow> params \<Rightarrow> bool \<Rightarrow> http_world
    \<Rightarrow> ((ingest_exn + http_response) \<times> http_world) option" where
  "http_get env cfg path ps use_cache w =
     (let url = build_url cfg path; key = key_for env url ps
      in case (if use_cache \<and> hc_cached cfg then hw_cache w key else None) of
           Some content \<Rightarrow>
             Some (Inr \<lparr>ht_status = 200, ht_content = content, ht_headers = [], ht_from_cache = True\<rparr>, w)
         | None \<Rightarrow>
             (case request_with_retries env cfg url ps w of
                None \<Rightarrow> None
              | Some (Inl e, w) \<Rightarrow> Some (Inl e, w)
              | Some (Inr r, w) \<Rightarrow>
                  Some (Inr r, if use_cache \<and> hc_cached cfg \<and> 200 \<le> ht_status r \<and> ht_status r < 300
                    then w\<lparr>hw_cache := (hw_cache w)(key \<mapsto> ht_content r)\<rparr> else w)))"

subsection \<open>What a request does\<close>

definition http_ready :: "http_env \<Rightarrow> http_world \<Rightarrow> bool" where
  "http_ready env w \<longleftrightarrow> (\<forall>n. 0 \<le> he_drift env n) \<and> bucket_wf (hw_bucket w) (hw_timer w) \<and> 1 \<le> tb_capacity (hw_bucket w)"

text \<open>The contract of a request: how many attempts were made, that only retryable answers were retried,
  what the result says about the last answer, and that the sleeps stay within the deadline.\<close>

definition retryable :: "raw_response option \<Rightarrow> bool" where
  "retryable answer \<longleftrightarrow> (case answer of None \<Rightarrow> True | Some raw \<Rightarrow> \<not> final_status (rr_status raw))"

definition result_of :: "raw_response option \<Rightarrow> ingest_exn + http_response" where
  "result_of answer = (case answer of None \<Rightarrow> Inl (HttpError None) | Some raw \<Rightarrow> Inr (response_of raw))"

definition request_spec :: "http_env \<Rightarrow> string \<Rightarrow> params \<Rightarrow> rat \<Rightarrow> nat \<Rightarrow> http_world \<Rightarrow> ingest_exn + http_response \<Rightarrow> http_world \<Rightarrow> bool" where
  "request_spec env url ps budget tries w r w' \<longleftrightarrow>
     http_ready env w' \<and> hw_cache w' = hw_cache w \<and>
     hw_requests w < hw_requests w' \<and> hw_requests w' \<le> hw_requests w + tries \<and>
     (\<forall>i. hw_requests w \<le> i \<and> i < hw_requests w' - 1 \<longrightarrow> retryable (he_net env i url ps)) \<and>
     r = result_of (he_net env (hw_requests w' - 1) url ps) \<and>
     (\<exists>ws. hw_slept w' = ws @ hw_slept w \<and> length ws = hw_requests w' - hw_requests w - 1 \<and> (ws \<noteq> [] \<longrightarrow> sum_list ws \<le> budget))"

lemma next_wait_world [simp]:
  "next_wait env cfg base h w = (wait, w') \<Longrightarrow> w' = w\<lparr>hw_draws := hw_draws w + 1\<rparr>"
  by (simp add: next_wait_def Let_def)

text \<open>One more attempt in front of a request.\<close>

lemma request_spec_again:
  assumes spec: "request_spec env url ps (budget - wait) tries w2 r w'"
    and w2: "hw_requests w2 = hw_requests w + 1" "hw_cache w2 = hw_cache w" "hw_slept w2 = wait # hw_slept w"
    and again: "retryable (he_net env (hw_requests w) url ps)" and wait: "wait \<le> budget"
  shows "request_spec env url ps budget (tries + 1) w r w'"
proof -
  from spec obtain ws where ws: "hw_slept w' = ws @ hw_slept w2" "length ws = hw_requests w' - hw_requests w2 - 1"
    "ws \<noteq> [] \<longrightarrow> sum_list ws \<le> budget - wait" unfolding request_spec_def by blast
  have n: "hw_requests w2 < hw_requests w'" "hw_requests w' \<le> hw_requests w2 + tries"
    and rest: "\<forall>i. hw_requests w2 \<le> i \<and> i < hw_requests w' - 1 \<longrightarrow> retryable (he_net env i url ps)"
    and r: "http_ready env w'" "hw_cache w' = hw_cache w2" "r = result_of (he_net env (hw_requests w' - 1) url ps)"
    using spec unfolding request_spec_def by blast+
  have "retryable (he_net env i url ps)" if "hw_requests w \<le> i" "i < hw_requests w' - 1" for i
    using that rest again w2(1) by (cases "i = hw_requests w") auto
  moreover have "\<exists>vs. hw_slept w' = vs @ hw_slept w \<and> length vs = hw_requests w' - hw_requests w - 1 \<and> (vs \<noteq> [] \<longrightarrow> sum_list vs \<le> budget)"
  proof (intro exI [of _ "ws @ [wait]"] conjI)
    show "length (ws @ [wait]) = hw_requests w' - hw_requests w - 1" using ws(2) w2(1) n(1) by simp
    show "ws @ [wait] \<noteq> [] \<longrightarrow> sum_list (ws @ [wait]) \<le> budget" using ws(3) wait by (cases "ws = []") simp_all
  qed (simp add: ws(1) w2(3))
  ultimately show ?thesis using n r w2 unfolding request_spec_def by auto
qed

lemma request_spec_done:
  assumes "http_ready env w'" "hw_cache w' = hw_cache w" "hw_requests w' = hw_requests w + 1" "hw_slept w' = hw_slept w"
    and "r = result_of (he_net env (hw_requests w) url ps)"
  shows "request_spec env url ps budget (Suc tries) w r w'"
  using assms by (auto simp: request_spec_def)

lemma acquire_ready:
  assumes "http_ready env w"
  obtains b t where "acquire (he_drift env) 1 (hw_bucket w) (hw_timer w) = Some (Inr b, t)"
    "bucket_wf b t" "tb_capacity b = tb_capacity (hw_bucket w)"
proof -
  have ok: "\<forall>n. 0 \<le> he_drift env n" "bucket_wf (hw_bucket w) (hw_timer w)" "1 \<le> tb_capacity (hw_bucket w)"
    using assms by (simp_all add: http_ready_def)
  obtain b t where "acquire_loop (he_drift env) 1 (hw_bucket w) (hw_timer w) = Some (b, t)"
    using acquire_loop_returns [OF ok] by auto
  then have a: "acquire (he_drift env) 1 (hw_bucket w) (hw_timer w) = Some (Inr b, t)"
    using ok(3) by (simp add: acquire_def)
  from acquire_granted [OF a ok(1,2)] a that show thesis by (auto simp: granted_def)
qed

text \<open>With a non-negative schedule every sleep moves the clock forward, so the bucket stays well-formed.\<close>

definition draws_ok :: "http_env \<Rightarrow> bool" where
  "draws_ok env \<longleftrightarrow> (\<forall>n. 0 \<le> he_uniform env n)"

lemma next_wait_nonneg:
  assumes "draws_ok env" and "0 \<le> base" and "next_wait env cfg base h w = (wait, w')"
  shows "0 \<le> wait"
proof -
  have "0 \<le> base * he_uniform env (hw_draws w)" using assms(1,2) by (simp add: draws_ok_def)
  with assms(3) show ?thesis by (auto simp: next_wait_def Let_def split: option.splits)
qed

lemma retry_loop_spec:
  assumes "draws_ok env"
  shows "http_ready env w \<Longrightarrow> \<forall>base \<in> set schedule. 0 \<le> base \<Longrightarrow>
    \<exists>r w'. retry_loop env cfg url ps schedule total_wait w = Some (r, w') \<and>
      request_spec env url ps (hc_max_total_retry_seconds cfg - total_wait) (length schedule + 1) w r w'"
proof (induction schedule arbitrary: w total_wait)
  case Nil
  obtain b t where a: "acquire (he_drift env) 1 (hw_bucket w) (hw_timer w) = Some (Inr b, t)"
    and b: "bucket_wf b t" "tb_capacity b = tb_capacity (hw_bucket w)" by (rule acquire_ready [OF Nil.prems(1)])
  let ?w1 = "w\<lparr>hw_bucket := b, hw_timer := t, hw_requests := hw_requests w + 1\<rparr>"
  have ready: "http_ready env ?w1" using Nil.prems(1) b by (simp add: http_ready_def)
  have "retry_loop env cfg url ps [] total_wait w = Some (result_of (he_net env (hw_requests w) url ps), ?w1)"
    by (subst retry_loop.simps) (simp add: a Let_def result_of_def split: option.split)
  then show ?case using request_spec_done [OF ready, of w] by auto
next
  case (Cons base rest)
  obtain b t where a: "acquire (he_drift env) 1 (hw_bucket w) (hw_timer w) = Some (Inr b, t)"
    and b: "bucket_wf b t" "tb_capacity b = tb_capacity (hw_bucket w)" by (rule acquire_ready [OF Cons.prems(1)])
  let ?w1 = "w\<lparr>hw_bucket := b, hw_timer := t, hw_requests := hw_requests w + 1\<rparr>"
  let ?answer = "he_net env (hw_requests w) url ps"
  have ready: "http_ready env ?w1" using Cons.prems(1) b by (simp add: http_ready_def)
  define h where "h = (case ?answer of None \<Rightarrow> None | Some raw \<Rightarrow> header_get ''Retry-After'' (rr_headers raw))"
  obtain wait w2 where nw: "next_wait env cfg base h ?w1 = (wait, w2)" by fastforce
  note w2 = next_wait_world [OF nw]
  have wait: "0 \<le> wait" using next_wait_nonneg [OF assms _ nw] Cons.prems(2) by simp
  have ready2: "http_ready env w2" using ready by (simp add: w2 http_ready_def)
  have ready3: "http_ready env (sleep_retry wait w2)"
    using ready2 wait by (auto simp: http_ready_def sleep_retry_def sleep_timer_def bucket_wf_def)
  show ?case
  proof (cases "retryable ?answer")
    case False
    then obtain raw where raw: "?answer = Some raw" "final_status (rr_status raw)" by (auto simp: retryable_def split: option.splits)
    then have "retry_loop env cfg url ps (base # rest) total_wait w = Some (Inr (response_of raw), ?w1)"
      by (subst retry_loop.simps) (simp add: a Let_def)
    moreover have "request_spec env url ps (hc_max_total_retry_seconds cfg - total_wait) (Suc (length rest + 1)) w (Inr (response_of raw)) ?w1"
      by (rule request_spec_done [OF ready]) (simp_all add: raw result_of_def)
    ultimately show ?thesis by simp
  next
    case again: True
    have eq: "retry_loop env cfg url ps (base # rest) total_wait w =
      (if hc_max_total_retry_seconds cfg < total_wait + wait then Some (result_of ?answer, w2)
       else retry_loop env cfg url ps rest (total_wait + wait) (sleep_retry wait w2))"
      using again nw by (subst retry_loop.simps) (auto simp: a Let_def result_of_def retryable_def h_def split: option.splits)
    show ?thesis
    proof (cases "hc_max_total_retry_seconds cfg < total_wait + wait")
      case True
      moreover have "request_spec env url ps (hc_max_total_retry_seconds cfg - total_wait) (Suc (length rest + 1)) w (result_of ?answer) w2"
        by (rule request_spec_done [OF ready2]) (simp_all add: w2)
      ultimately show ?thesis using eq by simp
    next
      case False
      from Cons.IH [OF ready3] Cons.prems(2) obtain r w' where
        l: "retry_loop env cfg url ps rest (total_wait + wait) (sleep_retry wait w2) = Some (r, w')" and
        s: "request_spec env url ps (hc_max_total_retry_seconds cfg - (total_wait + wait)) (length rest + 1) (sleep_retry wait w2) r w'"
        by (metis list.set_intros(2))
      have "request_spec env url ps (hc_max_total_retry_seconds cfg - total_wait) (length rest + 1 + 1) w r w'"
        by (rule request_spec_again [OF _ _ _ _ again, of _ wait _ "sleep_retry wait w2"])
          (use s False in \<open>simp_all add: w2 sleep_retry_def algebra_simps\<close>)
      with l False eq show ?thesis by simp
    qed
  qed
qed

definition schedule_ok :: "http_config \<Rightarrow> bool" where
  "schedule_ok cfg \<longleftrightarrow> (\<forall>base \<in> set (hc_backoff cfg). 0 \<le> base)"

lemma request_with_retries_spec:
  assumes "draws_ok env" and "http_ready env w" and "schedule_ok cfg"
  obtains r w' where "request_with_retries env cfg url ps w = Some (r, w')"
    "request_spec env url ps (hc_max_total_retry_seconds cfg) (length (hc_backoff cfg) + 1) w r w'"
  using retry_loop_spec [OF assms(1,2), of "hc_backoff cfg" cfg url ps 0] assms(3)
  by (auto simp: request_with_retries_def schedule_ok_def)

subsection \<open>Cached requests\<close>

definition is_success :: "nat \<Rightarrow> bool" where "is_success status \<longleftrightarrow> 200 \<le> status \<and> status < 300"

definition cache_honest :: "http_env \<Rightarrow> http_world \<Rightarrow> bool" where
  "cache_honest env w \<longleftrightarrow>
     (\<forall>key content. hw_cache w key = Some content \<longrightarrow>
        (\<exists>n url ps raw. n < hw_requests w \<and> key = key_for env url ps \<and> he_net env n url ps = Some raw \<and>
          is_success (rr_status raw) \<and> content = rr_content raw))"

definition client_ok :: "http_env \<Rightarrow> http_config \<Rightarrow> http_world \<Rightarrow> bool" where
  "client_ok env cfg w \<longleftrightarrow> draws_ok env \<and> schedule_ok cfg \<and> http_ready env w \<and> cache_honest env w"

definition cache_lookup :: "http_env \<Rightarrow> http_config \<Rightarrow> string \<Rightarrow> params \<Rightarrow> bool \<Rightarrow> http_world \<Rightarrow> bytes option" where
  "cache_lookup env cfg path ps use_cache w =
     (if use_cache \<and> hc_cached cfg then hw_cache w (key_for env (build_url cfg path) ps) else None)"

lemma http_get_cached:
  "cache_lookup env cfg path ps use_cache w = Some content \<Longrightarrow>
     http_get env cfg path ps use_cache w =
       Some (Inr \<lparr>ht_status = 200, ht_content = content, ht_headers = [], ht_from_cache = True\<rparr>, w)"
  by (simp add: http_get_def cache_lookup_def Let_def)

text \<open>A request that was not cached: the answer of the network, stored exactly when it is a success.\<close>

lemma http_get_fetched:
  assumes ok: "client_ok env cfg w" and "cache_lookup env cfg path ps use_cache w = None"
  obtains r w1 w' where "http_get env cfg path ps use_cache w = Some (r, w')"
    "request_spec env (build_url cfg path) ps (hc_max_total_retry_seconds cfg) (length (hc_backoff cfg) + 1) w r w1"
    "w' = (case r of Inr resp \<Rightarrow> if use_cache \<and> hc_cached cfg \<and> is_success (ht_status resp)
        then w1\<lparr>hw_cache := (hw_cache w1)(key_for env (build_url cfg path) ps \<mapsto> ht_content resp)\<rparr> else w1 | Inl _ \<Rightarrow> w1)"
proof -
  have "draws_ok env" "http_ready env w" "schedule_ok cfg" using ok by (simp_all add: client_ok_def)
  then obtain r w1 where r: "request_with_retries env cfg (build_url cfg path) ps w = Some (r, w1)"
    "request_spec env (build_url cfg path) ps (hc_max_total_retry_seconds cfg) (length (hc_backoff cfg) + 1) w r w1"
    by (rule request_with_retries_spec)
  from assms(2) have none: "(if use_cache \<and> hc_cached cfg then hw_cache w (key_for env (build_url cfg path) ps) else None) = None"
    by (simp add: cache_lookup_def)
  show thesis
    by (rule that [of r _ w1]) (use r none in \<open>auto simp: http_get_def Let_def is_success_def split: sum.split\<close>)
qed

lemma fetched_honest:
  assumes ok: "cache_honest env w" and spec: "request_spec env (build_url cfg path) ps budget tries w r w1"
    and "w' = (case r of Inr resp \<Rightarrow> if use_cache \<and> hc_cached cfg \<and> is_success (ht_status resp)
        then w1\<lparr>hw_cache := (hw_cache w1)(key_for env (build_url cfg path) ps \<mapsto> ht_content resp)\<rparr> else w1 | Inl _ \<Rightarrow> w1)"
  shows "cache_honest env w' \<and> http_ready env w'"
proof
  have s: "http_ready env w1" "hw_cache w1 = hw_cache w" "hw_requests w < hw_requests w1"
    "r = result_of (he_net env (hw_requests w1 - 1) (build_url cfg path) ps)"
    using spec unfolding request_spec_def by blast+
  have req: "hw_requests w' = hw_requests w1" using assms(3) by (simp split: sum.split)
  show "http_ready env w'" using s(1) assms(3) by (simp add: http_ready_def split: sum.split)
  have old: "cache_honest env w1"
    using ok s(2,3) unfolding cache_honest_def by (metis less_trans)
  show "cache_honest env w'"
    unfolding cache_honest_def
  proof (intro allI impI)
    fix key content assume c: "hw_cache w' key = Some content"
    show "\<exists>n url ps raw. n < hw_requests w' \<and> key = key_for env url ps \<and> he_net env n url ps = Some raw \<and>
          is_success (rr_status raw) \<and> content = rr_content raw"
    proof (cases "hw_cache w1 key = Some content")
      case True
      with old req show ?thesis unfolding cache_honest_def by metis
    next
      case False
      with c assms(3) obtain resp where r: "r = Inr resp" "is_success (ht_status resp)"
        "key = key_for env (build_url cfg path) ps" "content = ht_content resp"
        by (auto split: sum.splits if_splits)
      with s(4) obtain raw where "he_net env (hw_requests w1 - 1) (build_url cfg path) ps = Some raw" "resp = response_of raw"
        by (auto simp: result_of_def split: option.splits)
      with r s(3) req show ?thesis
        by (intro exI [of _ "hw_requests w1 - 1"] exI [of _ "build_url cfg path"] exI [of _ ps] exI [of _ raw]) (simp add: response_of_def)
    qed
  qed
qed

text \<open>Every request returns, and the client stays fit for the next one.\<close>

lemma http_get_total:
  assumes ok: "client_ok env cfg w"
  obtains r w' where "http_get env cfg path ps use_cache w = Some (r, w')" "client_ok env cfg w'"
proof (cases "cache_lookup env cfg path ps use_cache w")
  case None
  obtain r w1 w' where g: "http_get env cfg path ps use_cache w = Some (r, w')"
    "request_spec env (build_url cfg path) ps (hc_max_total_retry_seconds cfg) (length (hc_backoff cfg) + 1) w r w1"
    "w' = (case r of Inr resp \<Rightarrow> if use_cache \<and> hc_cached cfg \<and> is_success (ht_status resp)
        then w1\<lparr>hw_cache := (hw_cache w1)(key_for env (build_url cfg path) ps \<mapsto> ht_content resp)\<rparr> else w1 | Inl _ \<Rightarrow> w1)"
    by (rule http_get_fetched [OF ok None])
  from fetched_honest [OF _ g(2,3)] ok have "client_ok env cfg w'" by (simp add: client_ok_def)
  with g(1) that show thesis by blast
next
  case (Some content)
  from http_get_cached [OF this] ok that show thesis by blast
qed

text \<open>
  C17. A request of the ingestion: it always returns; a cached answer is the body of an earlier
  successful answer to a request with the same key and costs no request; otherwise at least one and at
  most one more request than the back-off schedule has entries is sent, every attempt but the last got
  a network error, a 429 or a status outside 2xx and 4xx, the result is the last answer (an error
  exactly when that was a network error), the sleeps in between stay within the deadline, and the body is
  stored exactly when caching is on and the status is 2xx.
\<close>

theorem http_get_contract:
  assumes "client_ok env cfg w"
  shows "\<exists>r w'. http_get env cfg path ps use_cache w = Some (r, w') \<and> client_ok env cfg w' \<and>
    (case cache_lookup env cfg path ps use_cache w of
       Some content \<Rightarrow> w' = w \<and> (\<exists>resp. r = Inr resp \<and> ht_content resp = content \<and> ht_from_cache resp) \<and>
         (\<exists>n url ps' raw. n < hw_requests w \<and> key_for env url ps' = key_for env (build_url cfg path) ps \<and>
           he_net env n url ps' = Some raw \<and> is_success (rr_status raw) \<and> content = rr_content raw)
     | None \<Rightarrow> (\<exists>w1. request_spec env (build_url cfg path) ps (hc_max_total_retry_seconds cfg) (length (hc_backoff cfg) + 1) w r w1 \<and>
         hw_requests w' = hw_requests w1 \<and> hw_slept w' = hw_slept w1 \<and>
         hw_cache w' = (case r of Inr resp \<Rightarrow> if use_cache \<and> hc_cached cfg \<and> is_success (ht_status resp)
           then (hw_cache w)(key_for env (build_url cfg path) ps \<mapsto> ht_content resp) else hw_cache w | Inl _ \<Rightarrow> hw_cache w)))"
proof (cases "cache_lookup env cfg path ps use_cache w")
  case None
  obtain r w1 w' where g: "http_get env cfg path ps use_cache w = Some (r, w')"
    "request_spec env (build_url cfg path) ps (hc_max_total_retry_seconds cfg) (length (hc_backoff cfg) + 1) w r w1"
    "w' = (case r of Inr resp \<Rightarrow> if use_cache \<and> hc_cached cfg \<and> is_success (ht_status resp)
        then w1\<lparr>hw_cache := (hw_cache w1)(key_for env (build_url cfg path) ps \<mapsto> ht_content resp)\<rparr> else w1 | Inl _ \<Rightarrow> w1)"
    by (rule http_get_fetched [OF assms None])
  have "client_ok env cfg w'" using fetched_honest [OF _ g(2,3)] assms by (simp add: client_ok_def)
  moreover have "hw_cache w1 = hw_cache w" using g(2) unfolding request_spec_def by blast
  ultimately show ?thesis using g None by (intro exI [of _ r] exI [of _ w']) (auto split: sum.split)
next
  case (Some content)
  then have "hw_cache w (key_for env (build_url cfg path) ps) = Some content" by (simp add: cache_lookup_def split: if_splits)
  moreover have "cache_honest env w" using assms by (simp add: client_ok_def)
  ultimately have "\<exists>n url ps' raw. n < hw_requests w \<and> key_for env url ps' = key_for env (build_url cfg path) ps \<and>
      he_net env n url ps' = Some raw \<and> is_success (rr_status raw) \<and> content = rr_content raw"
    unfolding cache_honest_def by metis
  with http_get_cached [OF Some] assms show ?thesis unfolding Some by auto
qed

subsection \<open>A request that is retried once\<close>

definition demo_http_env :: http_env where
  "demo_http_env = \<lparr>he_drift = (\<lambda>n. 0), he_net = (\<lambda>n url ps. if n = 0 then Some \<lparr>rr_status = 429, rr_content = [], rr_headers = [(''retry-after'', ''5'')]\<rparr>
       else Some \<lparr>rr_status = 200, rr_content = ''{}'', rr_headers = []\<rparr>), he_uniform = (\<lambda>n. 1), he_wall = (\<lambda>n. 0),
     he_float = (\<lambda>s. map_option of_int (parse_int s)), he_date = (\<lambda>s. None), he_sha256 = (\<lambda>s. s)\<rparr>"

definition demo_http_cfg :: http_config where
  "demo_http_cfg = \<lparr>hc_base_url = ''http://x'', hc_user_agent = ''ua'', hc_cached = True, hc_backoff = [2, 4],
     hc_max_total_retry_seconds = 120, hc_jitter_lo = 3/4, hc_jitter_hi = 5/4\<rparr>"

definition demo_http_world :: http_world where
  "demo_http_world = \<lparr>hw_timer = \<lparr>tm_now = 0, tm_reads = 0\<rparr>, hw_bucket = \<lparr>tb_rate = 1, tb_capacity = 1, tb_tokens = 1, tb_last = 0\<rparr>,
     hw_cache = Map.empty, hw_requests = 0, hw_draws = 0, hw_slept = []\<rparr>"

lemma demo_client_ok: "client_ok demo_http_env demo_http_cfg demo_http_world"
  by (simp add: client_ok_def draws_ok_def schedule_ok_def http_ready_def bucket_wf_def cache_honest_def
      demo_http_env_def demo_http_cfg_def demo_http_world_def)

theorem http_get_contract_witness:
  "\<exists>r w'. http_get demo_http_env demo_http_cfg ''maps'' [] True demo_http_world = Some (r, w') \<and>
    1 \<le> hw_requests w' \<and> hw_requests w' \<le> 3"
proof -
  have "cache_lookup demo_http_env demo_http_cfg ''maps'' [] True demo_http_world = None"
    by (simp add: cache_lookup_def demo_http_world_def)
  with http_get_contract [OF demo_client_ok, of "''maps''" "[]" True] show ?thesis
    by (auto simp: request_spec_def demo_http_cfg_def demo_http_world_def)
qed

end
