(* ===== verification/Tmx_Client.thy ===== *)
theory Tmx_Client
  imports Ingest_Http
begin

section \<open>The map exchange client\<close>

text \<open>
  Model of \<^verbatim>\<open>src/src/ingestion/tmx.py\<close>. A decoded reply is a \<open>json\<close> value; \<open>decode\<close> is the JSON decoder (\<open>None\<close>
  when it raises) and \<open>repr_of\<close> Python's \<open>str\<close> on floats and containers. A generator is a state with a function
  that runs it up to its next item, because its requests interleave with those of its consumer. The
  listing generator is total; the random one is a partial function, since it asks again without bound when
  the server returns entries it cannot use.
\<close>

definition DEFAULT_ENDPOINTS :: params where
  "DEFAULT_ENDPOINTS =
     [(''list_maps'', ''/api/maps''), (''map_detail'', ''/api/maps/{id}''), (''map_download'', ''/mapgbx/{id}''),
      (''meta_tags'', ''/api/meta/tags''), (''meta_vehicles'', ''/api/meta/vehicles''),
      (''list_replays'', ''/api/replays/get_replays/{map_id}''),
      (''replay_detail'', ''/api/replays/get_replay_info/{replay_id}''), (''replay_download'', ''/recordgbx/{replay_id}'')]"

definition DEFAULT_SUMMARY_FIELDS :: "string list" where
  "DEFAULT_SUMMARY_FIELDS =
     [''MapId'', ''Name'', ''GbxMapName'', ''MapUid'', ''Authors'', ''Tags'', ''AwardCount'', ''Length'', ''Difficulty'',
      ''TrackValue'', ''UpdatedAt'', ''UploadedAt'', ''TitlePack'', ''Environment'']"

record tmx_map_summary =
  ts_tmx_id :: string
  ts_title :: "string option"
  ts_author :: "string option"
  ts_environment :: "string option"
  ts_style_tags_raw :: "string list"
  ts_length_estimate_ms :: "int option"
  ts_award_count :: "int option"
  ts_average_rating :: "rat option"
  ts_popularity_metric :: "int option"
  ts_track_value :: "int option"
  ts_difficulty :: "int option"
  ts_has_items :: bool
  ts_is_block_mode :: bool
  ts_raw :: json_obj

record tmx_replay_summary =
  rs_replay_id :: string
  rs_map_source_id :: string
  rs_player_display_name :: "string option"
  rs_finish_time_ms :: "int option"
  rs_position :: "int option"
  rs_beaten :: "int option"
  rs_stunt_score :: "int option"
  rs_respawns :: "int option"
  rs_player_model :: "string option"
  rs_replay_uploaded_at :: "string option"
  rs_exe_build :: "string option"
  rs_raw :: json_obj

subsection \<open>Entries\<close>

definition as_str :: "(json \<Rightarrow> string) \<Rightarrow> json \<Rightarrow> string option" where
  "as_str repr_of v =
     (if v = JNull then None else let s = json_str repr_of v in if s = [] then None else Some s)"

definition as_int :: "json \<Rightarrow> int option" where
  "as_int v =
     (case v of
        JNull \<Rightarrow> None
      | JBool _ \<Rightarrow> None
      | _ \<Rightarrow> (case json_int v of Inl _ \<Rightarrow> None | Inr i \<Rightarrow> Some i))"

definition json_or :: "json \<Rightarrow> json \<Rightarrow> json" where
  "json_or a b = (if json_truthy a then a else b)"

definition extract_author :: "(json \<Rightarrow> string) \<Rightarrow> json_obj \<Rightarrow> string option" where
  "extract_author repr_of raw =
     (case json_get ''Authors'' raw of
        JArr (JObj a # _) \<Rightarrow>
          (case json_get ''User'' a of
             JObj user \<Rightarrow> as_str repr_of (json_get ''Name'' user)
           | _ \<Rightarrow> as_str repr_of (json_get ''Name'' a))
      | _ \<Rightarrow> None)"

definition tag_of :: "(json \<Rightarrow> string) \<Rightarrow> json \<Rightarrow> string option" where
  "tag_of repr_of t =
     (case t of
        JObj kvs \<Rightarrow> as_str repr_of (json_get ''Name'' kvs)
      | JNull \<Rightarrow> None
      | _ \<Rightarrow> Some (json_str repr_of t))"

definition extract_tags :: "(json \<Rightarrow> string) \<Rightarrow> json_obj \<Rightarrow> string list" where
  "extract_tags repr_of raw = (case json_get ''Tags'' raw of JArr ts \<Rightarrow> List.map_filter (tag_of repr_of) ts | _ \<Rightarrow> [])"

definition normalize_replay :: "(json \<Rightarrow> string) \<Rightarrow> json_obj \<Rightarrow> tmx_replay_summary option" where
  "normalize_replay repr_of raw =
     (case (as_str repr_of (json_get ''ReplayID'' raw), as_str repr_of (json_get ''TrackID'' raw)) of
        (Some replay_id, Some track_id) \<Rightarrow>
          Some \<lparr>rs_replay_id = replay_id, rs_map_source_id = track_id,
            rs_player_display_name = as_str repr_of (json_get ''Username'' raw),
            rs_finish_time_ms = as_int (json_get ''ReplayTime'' raw),
            rs_position = as_int (json_get ''Position'' raw),
            rs_beaten = as_int (json_get ''Beaten'' raw),
            rs_stunt_score = as_int (json_get ''StuntScore'' raw),
            rs_respawns = as_int (json_get ''Respawns'' raw),
            rs_player_model = as_str repr_of (json_get ''PlayerModel'' raw),
            rs_replay_uploaded_at = as_str repr_of (json_get ''ReplayAt'' raw),
            rs_exe_build = as_str repr_of (json_get ''ExeBuild'' raw), rs_raw = raw\<rparr>
      | _ \<Rightarrow> None)"

definition normalize_summary :: "(json \<Rightarrow> string) \<Rightarrow> json_obj \<Rightarrow> tmx_map_summary option" where
  "normalize_summary repr_of raw =
     (case as_str repr_of (json_get ''MapId'' raw) of
        None \<Rightarrow> None
      | Some tmx_id \<Rightarrow>
          Some \<lparr>ts_tmx_id = tmx_id,
            ts_title = as_str repr_of (json_or (json_get ''Name'' raw) (json_get ''GbxMapName'' raw)),
            ts_author = extract_author repr_of raw,
            ts_environment = as_str repr_of (json_or (json_get ''TitlePack'' raw) (json_get ''Environment'' raw)),
            ts_style_tags_raw = extract_tags repr_of raw,
            ts_length_estimate_ms = as_int (json_get ''Length'' raw),
            ts_award_count = as_int (json_get ''AwardCount'' raw),
            ts_average_rating = None, ts_popularity_metric = None,
            ts_track_value = as_int (json_get ''TrackValue'' raw),
            ts_difficulty = as_int (json_get ''Difficulty'' raw),
            ts_has_items = False, ts_is_block_mode = True, ts_raw = raw\<rparr>)"

subsection \<open>The client\<close>

record tmx_env =
  te_http :: http_env
  te_decode :: "bytes \<Rightarrow> json option"
  te_repr :: "json \<Rightarrow> string"

record tmx_config =
  tc_http :: http_config
  tc_endpoints :: params
  tc_summary_fields :: "string list"
  tc_page_size :: int

definition tmx_client_init :: "http_config \<Rightarrow> params option \<Rightarrow> string list option \<Rightarrow> int \<Rightarrow> tmx_config" where
  "tmx_client_init http endpoints summary_fields page_size =
     \<lparr>tc_http = http,
      tc_endpoints = (case endpoints of None \<Rightarrow> DEFAULT_ENDPOINTS | Some es \<Rightarrow> fold (\<lambda>(k, v). AList.update k v) es DEFAULT_ENDPOINTS),
      tc_summary_fields = (case summary_fields of None \<Rightarrow> DEFAULT_SUMMARY_FIELDS | Some fs \<Rightarrow> if fs = [] then DEFAULT_SUMMARY_FIELDS else fs),
      tc_page_size = page_size\<rparr>"

definition endpoint :: "tmx_config \<Rightarrow> string \<Rightarrow> string" where
  "endpoint cfg name = (case map_of (tc_endpoints cfg) name of Some p \<Rightarrow> p | None \<Rightarrow> [])"

text \<open>\<open>template.format(name=value)\<close> for templates whose only fields are \<open>{name}\<close>.\<close>

function format_field :: "string \<Rightarrow> string \<Rightarrow> string \<Rightarrow> string" where
  "format_field name v [] = []"
| "format_field name v (c # cs) =
     (let field = ''{'' @ name @ ''}'' in
      if startswith (c # cs) field then v @ format_field name v (drop (length field) (c # cs)) else c # format_field name v cs)"
  by pat_completeness auto
termination format_field by (relation "measure (\<lambda>(_, _, s). length s)") (auto simp: Let_def)

fun join_comma :: "string list \<Rightarrow> string" where
  "join_comma [] = []"
| "join_comma [s] = s"
| "join_comma (s # rest) = s @ '','' @ join_comma rest"

definition response_json :: "tmx_env \<Rightarrow> http_response \<Rightarrow> ingest_exn + json" where
  "response_json env r =
     (if ht_content r = [] then Inl (HttpError None)
      else case te_decode env (ht_content r) of None \<Rightarrow> Inl JsonError | Some j \<Rightarrow> Inr j)"

definition get_json :: "tmx_env \<Rightarrow> tmx_config \<Rightarrow> string \<Rightarrow> params \<Rightarrow> bool \<Rightarrow> http_world
    \<Rightarrow> ((ingest_exn + json) \<times> http_world) option" where
  "get_json env cfg path ps use_cache w =
     map_option (\<lambda>(r, w). (case r of
          Inl e \<Rightarrow> Inl e
        | Inr resp \<Rightarrow> if ht_status resp \<noteq> 200 then Inl (HttpError (Some (ht_status resp))) else response_json env resp, w))
       (http_get (te_http env) (tc_http cfg) path ps use_cache w)"

definition get_json_object :: "tmx_env \<Rightarrow> tmx_config \<Rightarrow> string \<Rightarrow> params \<Rightarrow> bool \<Rightarrow> http_world
    \<Rightarrow> ((ingest_exn + json_obj) \<times> http_world) option" where
  "get_json_object env cfg path ps use_cache w =
     map_option (\<lambda>(r, w). (case r of Inl e \<Rightarrow> Inl e | Inr (JObj kvs) \<Rightarrow> Inr kvs | Inr _ \<Rightarrow> Inl (HttpError None), w))
       (get_json env cfg path ps use_cache w)"

subsection \<open>The map listing\<close>

record map_listing =
  ml_after :: "int option"
  ml_environment :: "int option"
  ml_pending :: "json list"
  ml_more :: bool
  ml_emitted :: bool
  ml_finished :: bool

definition list_maps :: "int option \<Rightarrow> int option \<Rightarrow> map_listing" where
  "list_maps after_map_id environment =
     \<lparr>ml_after = after_map_id, ml_environment = environment, ml_pending = [], ml_more = True, ml_emitted = True, ml_finished = False\<rparr>"

definition listing_params :: "tmx_config \<Rightarrow> map_listing \<Rightarrow> params" where
  "listing_params cfg it =
     [(''fields'', join_comma (tc_summary_fields cfg)), (''count'', py_str_int (tc_page_size cfg))] @
     (case ml_environment it of None \<Rightarrow> [] | Some e \<Rightarrow> [(''environment'', py_str_int e)]) @
     (case ml_after it of None \<Rightarrow> [] | Some a \<Rightarrow> [(''after'', py_str_int a)])"

text \<open>The next usable entry of a page, and the rest of the page.\<close>

fun scan_entries :: "(json \<Rightarrow> string) \<Rightarrow> json list \<Rightarrow> (tmx_map_summary \<times> json list) option" where
  "scan_entries repr_of [] = None"
| "scan_entries repr_of (raw # rest) =
     (case (case raw of JObj kvs \<Rightarrow> normalize_summary repr_of kvs | _ \<Rightarrow> None) of
        None \<Rightarrow> scan_entries repr_of rest
      | Some summary \<Rightarrow> Some (summary, rest))"

definition emit_entry :: "tmx_map_summary \<Rightarrow> json list \<Rightarrow> map_listing \<Rightarrow> map_listing" where
  "emit_entry summary rest it =
     it\<lparr>ml_pending := rest, ml_emitted := True,
       ml_after := (case parse_int (ts_tmx_id summary) of None \<Rightarrow> ml_after it | Some i \<Rightarrow> Some i)\<rparr>"

definition next_summary :: "tmx_env \<Rightarrow> tmx_config \<Rightarrow> map_listing \<Rightarrow> http_world
    \<Rightarrow> ((ingest_exn + tmx_map_summary option) \<times> map_listing \<times> http_world) option" where
  "next_summary env cfg it w =
     (if ml_finished it then Some (Inr None, it, w)
      else case scan_entries (te_repr env) (ml_pending it) of
          Some (summary, rest) \<Rightarrow> Some (Inr (Some summary), emit_entry summary rest it, w)
        | None \<Rightarrow>
            if \<not> ml_more it \<or> \<not> ml_emitted it then Some (Inr None, it\<lparr>ml_finished := True\<rparr>, w)
            else (case get_json_object env cfg (endpoint cfg ''list_maps'') (listing_params cfg it) True w of
                None \<Rightarrow> None
              | Some (Inl e, w) \<Rightarrow> Some (Inl e, it\<lparr>ml_finished := True\<rparr>, w)
              | Some (Inr payload, w) \<Rightarrow>
                  (case json_get ''Results'' payload of
                     JArr (r # rs) \<Rightarrow>
                       let it = it\<lparr>ml_pending := r # rs, ml_more := json_truthy (json_get ''More'' payload), ml_emitted := False\<rparr>
                       in (case scan_entries (te_repr env) (r # rs) of
                             Some (summary, rest) \<Rightarrow> Some (Inr (Some summary), emit_entry summary rest it, w)
                           | None \<Rightarrow> Some (Inr None, it\<lparr>ml_finished := True\<rparr>, w))
                   | _ \<Rightarrow> Some (Inr None, it\<lparr>ml_finished := True\<rparr>, w))))"

subsection \<open>Random maps\<close>

text \<open>\<open>results[0]\<close> of a truthy value that is no list is an error for numbers and objects, and a character of
  a string, which is no mapping.\<close>

datatype random_entry = NoEntry | BadEntry ingest_exn | UnusableEntry | Entry tmx_map_summary

definition random_entry_of :: "(json \<Rightarrow> string) \<Rightarrow> json \<Rightarrow> random_entry" where
  "random_entry_of repr_of results =
     (if \<not> json_truthy results then NoEntry
      else case results of
          JArr (JObj kvs # _) \<Rightarrow> (case normalize_summary repr_of kvs of None \<Rightarrow> UnusableEntry | Some s \<Rightarrow> Entry s)
        | JArr _ \<Rightarrow> UnusableEntry
        | JStr _ \<Rightarrow> UnusableEntry
        | JObj _ \<Rightarrow> BadEntry (PyError KeyError)
        | _ \<Rightarrow> BadEntry (PyError TypeError))"

partial_function (option) next_random :: "tmx_env \<Rightarrow> tmx_config \<Rightarrow> http_world
    \<Rightarrow> ((ingest_exn + tmx_map_summary option) \<times> http_world) option" where
  "next_random env cfg w =
     (case get_json_object env cfg (endpoint cfg ''list_maps'')
         [(''fields'', join_comma (tc_summary_fields cfg)), (''random'', ''1''), (''count'', ''1'')] False w of
        None \<Rightarrow> None
      | Some (Inl e, w) \<Rightarrow> Some (Inl e, w)
      | Some (Inr payload, w) \<Rightarrow>
          (case random_entry_of (te_repr env) (json_get ''Results'' payload) of
             NoEntry \<Rightarrow> Some (Inr None, w)
           | BadEntry e \<Rightarrow> Some (Inl e, w)
           | UnusableEntry \<Rightarrow> next_random env cfg w
           | Entry s \<Rightarrow> Some (Inr (Some s), w)))"

declare next_random.simps [code]

text \<open>The two generators behind one interface.\<close>

datatype summary_source = Listing map_listing | Random int

fun next_from :: "tmx_env \<Rightarrow> tmx_config \<Rightarrow> summary_source \<Rightarrow> http_world
    \<Rightarrow> ((ingest_exn + tmx_map_summary option) \<times> summary_source \<times> http_world) option" where
  "next_from env cfg (Listing it) w = map_option (\<lambda>(r, it, w). (r, Listing it, w)) (next_summary env cfg it w)"
| "next_from env cfg (Random left) w =
     (if left \<le> 0 then Some (Inr None, Random left, w)
      else map_option (\<lambda>(r, w). (r, Random (case r of Inr (Some _) \<Rightarrow> left - 1 | _ \<Rightarrow> 0), w)) (next_random env cfg w))"

subsection \<open>Other calls\<close>

definition first_result :: "json_obj \<Rightarrow> json_obj" where
  "first_result payload = (case json_get ''Results'' payload of JArr (JObj kvs # _) \<Rightarrow> kvs | _ \<Rightarrow> payload)"

definition map_right :: "('a \<Rightarrow> 'b) \<Rightarrow> 'e + 'a \<Rightarrow> 'e + 'b" where
  "map_right f r = (case r of Inl e \<Rightarrow> Inl e | Inr x \<Rightarrow> Inr (f x))"

definition fetch_map_detail :: "tmx_env \<Rightarrow> tmx_config \<Rightarrow> string \<Rightarrow> http_world \<Rightarrow> ((ingest_exn + json_obj) \<times> http_world) option" where
  "fetch_map_detail env cfg tmx_id w =
     map_option (\<lambda>(r, w). (map_right first_result r, w))
       (get_json_object env cfg (format_field ''id'' tmx_id (endpoint cfg ''map_detail''))
          [(''fields'', join_comma (tc_summary_fields cfg))] True w)"

definition fetch_replay_detail :: "tmx_env \<Rightarrow> tmx_config \<Rightarrow> string \<Rightarrow> http_world \<Rightarrow> ((ingest_exn + json_obj) \<times> http_world) option" where
  "fetch_replay_detail env cfg replay_id w =
     map_option (\<lambda>(r, w). (map_right first_result r, w))
       (get_json_object env cfg (format_field ''replay_id'' replay_id (endpoint cfg ''replay_detail'')) [] True w)"

definition download_map_artifact :: "tmx_env \<Rightarrow> tmx_config \<Rightarrow> string \<Rightarrow> http_world \<Rightarrow> ((ingest_exn + http_response) \<times> http_world) option" where
  "download_map_artifact env cfg tmx_id w =
     http_get (te_http env) (tc_http cfg) (format_field ''id'' tmx_id (endpoint cfg ''map_download'')) [] False w"

definition download_replay_artifact :: "tmx_env \<Rightarrow> tmx_config \<Rightarrow> string \<Rightarrow> http_world \<Rightarrow> ((ingest_exn + http_response) \<times> http_world) option" where
  "download_replay_artifact env cfg replay_id w =
     http_get (te_http env) (tc_http cfg) (format_field ''replay_id'' replay_id (endpoint cfg ''replay_download'')) [] False w"

definition fetch_tags :: "tmx_env \<Rightarrow> tmx_config \<Rightarrow> http_world \<Rightarrow> ((ingest_exn + json_obj list) \<times> http_world) option" where
  "fetch_tags env cfg w =
     map_option (\<lambda>(r, w). (case r of
          Inl e \<Rightarrow> Inl e
        | Inr (JArr ts) \<Rightarrow> Inr (List.map_filter (\<lambda>t. case t of JObj kvs \<Rightarrow> Some kvs | _ \<Rightarrow> None) ts)
        | Inr _ \<Rightarrow> Inl (HttpError None), w))
       (get_json env cfg (endpoint cfg ''meta_tags'') [] True w)"

definition fetch_vehicles :: "tmx_env \<Rightarrow> tmx_config \<Rightarrow> http_world \<Rightarrow> ((ingest_exn + string list) \<times> http_world) option" where
  "fetch_vehicles env cfg w =
     map_option (\<lambda>(r, w). (case r of
          Inl e \<Rightarrow> Inl e
        | Inr (JArr vs) \<Rightarrow> Inr (map (json_str (te_repr env)) (filter (\<lambda>v. v \<noteq> JNull) vs))
        | Inr _ \<Rightarrow> Inl (HttpError None), w))
       (get_json env cfg (endpoint cfg ''meta_vehicles'') [] True w)"

definition replays_for_map :: "tmx_env \<Rightarrow> tmx_config \<Rightarrow> string \<Rightarrow> int option \<Rightarrow> http_world
    \<Rightarrow> ((ingest_exn + tmx_replay_summary list) \<times> http_world) option" where
  "replays_for_map env cfg map_source_id amount w =
     map_option (\<lambda>(r, w). (map_right (\<lambda>payload. case json_get ''Results'' payload of
          JArr raws \<Rightarrow> List.map_filter (\<lambda>raw. case raw of JObj kvs \<Rightarrow> normalize_replay (te_repr env) kvs | _ \<Rightarrow> None) raws
        | _ \<Rightarrow> []) r, w))
       (get_json_object env cfg (format_field ''map_id'' map_source_id (endpoint cfg ''list_replays''))
          (case amount of None \<Rightarrow> [] | Some a \<Rightarrow> [(''amount'', py_str_int a)]) True w)"

end
