(* ===== verification/Map_Ingest.thy ===== *)
theory Map_Ingest
  imports Tmx_Client
begin

section \<open>Ingesting maps and replays\<close>

text \<open>
  Model of \<^verbatim>\<open>src/src/ingestion/artifacts.py\<close> and \<^verbatim>\<open>src/src/ingestion/orchestrator.py\<close>. The database is
  what is committed and what the connection sees in its open transaction, with the counters of the keys, which no
  rollback takes back. Each statement and each commit is a step of its own: \<open>ie_db_reply n\<close> says whether step \<open>n\<close> is
  answered, fails without effect (and leaves the transaction open), rolls the transaction back, or loses the connection
  (a commit may then have happened). This run is the only writer. The artifact directory maps paths to bytes. \<open>run\<close> returns how it ended
  beside its statistics, which its \<open>finally\<close> clause completes also when an exception leaves it; timestamps
  are not modelled. The affected rows of an upsert are 1 for a new row, 2 for a changed and 0 for an unchanged one.
\<close>

subsection \<open>The artifact store\<close>

type_synonym artifact_files = "string \<rightharpoonup> bytes"

definition artifact_path_for :: "string \<Rightarrow> string \<Rightarrow> py_error + string" where
  "artifact_path_for base content_hash =
     (if length content_hash \<noteq> 64 then Inl ValueError
      else Inr (base @ ''/'' @ take 2 content_hash @ ''/'' @ take 2 (drop 2 content_hash) @ ''/'' @ content_hash))"

definition artifact_write :: "(bytes \<Rightarrow> string) \<Rightarrow> string \<Rightarrow> bytes \<Rightarrow> artifact_files
    \<Rightarrow> (py_error + string \<times> string) \<times> artifact_files" where
  "artifact_write sha256 base data files =
     (let digest = sha256 data in
      case artifact_path_for base digest of
        Inl e \<Rightarrow> (Inl e, files)
      | Inr dest \<Rightarrow> (Inr (digest, dest), if files dest \<noteq> None then files else files(dest \<mapsto> data)))"

definition artifact_has :: "string \<Rightarrow> string \<Rightarrow> artifact_files \<Rightarrow> py_error + bool" where
  "artifact_has base content_hash files = map_right (\<lambda>p. files p \<noteq> None) (artifact_path_for base content_hash)"

subsection \<open>The tables\<close>

record map_row =
  mr_id :: int
  mr_source_system :: string
  mr_source_map_id :: string
  mr_snapshot :: string
  mr_summary :: tmx_map_summary
  mr_parser_version :: string
  mr_parse_status :: string
  mr_created_by_version :: string
  mr_artifact_hash :: "string option"
  mr_artifact_path :: "string option"

record replay_row =
  pr_id :: int
  pr_source_system :: string
  pr_source_replay_id :: string
  pr_map_id :: int
  pr_snapshot :: string
  pr_summary :: tmx_replay_summary
  pr_created_by_version :: string
  pr_artifact_hash :: "string option"
  pr_artifact_path :: "string option"

record stage_run =
  sr_id :: int
  sr_stage :: string
  sr_status :: string
  sr_summary :: "json_obj option"
  sr_error_code :: "string option"
  sr_error_message :: "string option"

record ingest_tables =
  tb_snapshots :: "string list"
  tb_stage_runs :: "stage_run list"
  tb_maps :: "map_row list"
  tb_replays :: "replay_row list"

record ingest_db =
  db_tables :: ingest_tables
  db_stored :: ingest_tables
  db_next_run :: int
  db_next_map :: int
  db_next_replay :: int
  db_statements :: nat

datatype db_reply = Answered | Failing | Rolled_back | Connection_lost

record ingest_world =
  iw_http :: http_world
  iw_db :: ingest_db
  iw_files :: artifact_files

record ingest_env =
  ie_tmx :: tmx_env
  ie_db_reply :: "nat \<Rightarrow> db_reply"
  ie_sha256 :: "bytes \<Rightarrow> string"

datatype run_exn = Client ingest_exn | DatabaseError | RowMissing | StoreError py_error

definition MAP_SOURCE_SYSTEM :: string where "MAP_SOURCE_SYSTEM = ''tmx''"

text \<open>Every step counts. A lost connection undoes the open transaction on the server.\<close>

definition rolled_back :: "ingest_db \<Rightarrow> ingest_db" where
  "rolled_back db = db\<lparr>db_tables := db_stored db\<rparr>"

definition statement :: "ingest_env \<Rightarrow> (ingest_db \<Rightarrow> 'a \<times> ingest_db) \<Rightarrow> ingest_db \<Rightarrow> (run_exn + 'a) \<times> ingest_db" where
  "statement env f db =
     (let n = db_statements db; db = db\<lparr>db_statements := n + 1\<rparr>
      in case ie_db_reply env n of
           Answered \<Rightarrow> (case f db of (x, db) \<Rightarrow> (Inr x, db))
         | Failing \<Rightarrow> (Inl DatabaseError, db)
         | _ \<Rightarrow> (Inl DatabaseError, rolled_back db))"

definition commit :: "ingest_env \<Rightarrow> ingest_db \<Rightarrow> (run_exn + unit) \<times> ingest_db" where
  "commit env db =
     (let n = db_statements db; db = db\<lparr>db_statements := n + 1\<rparr>
      in case ie_db_reply env n of
           Answered \<Rightarrow> (Inr (), db\<lparr>db_stored := db_tables db\<rparr>)
         | Failing \<Rightarrow> (Inl DatabaseError, db)
         | Rolled_back \<Rightarrow> (Inl DatabaseError, rolled_back db)
         | Connection_lost \<Rightarrow> (Inl DatabaseError, db\<lparr>db_stored := db_tables db\<rparr>))"

definition and_then :: "(run_exn + 'a) \<times> ingest_db \<Rightarrow> ('a \<Rightarrow> ingest_db \<Rightarrow> (run_exn + 'b) \<times> ingest_db)
    \<Rightarrow> (run_exn + 'b) \<times> ingest_db" where
  "and_then p f = (case p of (Inl e, db) \<Rightarrow> (Inl e, db) | (Inr x, db) \<Rightarrow> f x db)"

definition committed :: "ingest_env \<Rightarrow> 'a \<Rightarrow> ingest_db \<Rightarrow> (run_exn + 'a) \<times> ingest_db" where
  "committed env x db = and_then (commit env db) (\<lambda>_ db. (Inr x, db))"

definition ensure_snapshot :: "ingest_env \<Rightarrow> string \<Rightarrow> ingest_db \<Rightarrow> (run_exn + unit) \<times> ingest_db" where
  "ensure_snapshot env snapshot_id db =
     and_then (statement env (\<lambda>db. ((), if snapshot_id \<in> set (tb_snapshots (db_tables db)) then db
       else db\<lparr>db_tables := (db_tables db)\<lparr>tb_snapshots := tb_snapshots (db_tables db) @ [snapshot_id]\<rparr>\<rparr>)) db) (committed env)"

definition open_stage_run :: "ingest_env \<Rightarrow> string \<Rightarrow> ingest_db \<Rightarrow> (run_exn + int) \<times> ingest_db" where
  "open_stage_run env stage db =
     and_then (statement env (\<lambda>db. (db_next_run db, db\<lparr>db_tables := (db_tables db)\<lparr>tb_stage_runs := tb_stage_runs (db_tables db) @
         [\<lparr>sr_id = db_next_run db, sr_stage = stage, sr_status = ''running'', sr_summary = None, sr_error_code = None,
           sr_error_message = None\<rparr>]\<rparr>, db_next_run := db_next_run db + 1\<rparr>)) db) (committed env)"

definition close_stage_run :: "ingest_env \<Rightarrow> int \<Rightarrow> string \<Rightarrow> json_obj option \<Rightarrow> string option \<Rightarrow> string option
    \<Rightarrow> ingest_db \<Rightarrow> (run_exn + unit) \<times> ingest_db" where
  "close_stage_run env i status summary code message db =
     and_then (statement env (\<lambda>db. ((), db\<lparr>db_tables := (db_tables db)\<lparr>tb_stage_runs := map (\<lambda>s. if sr_id s = i
       then s\<lparr>sr_status := status, sr_summary := summary, sr_error_code := code, sr_error_message := message\<rparr> else s)
         (tb_stage_runs (db_tables db))\<rparr>\<rparr>)) db) (committed env)"

definition map_key :: "map_row \<Rightarrow> string \<times> string \<times> string" where
  "map_key m = (mr_source_system m, mr_source_map_id m, mr_snapshot m)"

text \<open>\<open>INSERT ... ON DUPLICATE KEY UPDATE\<close>, with the affected rows; it takes a number of the counter either way.\<close>

definition insert_map :: "tmx_map_summary \<Rightarrow> string \<Rightarrow> string \<Rightarrow> string \<Rightarrow> ingest_db \<Rightarrow> nat \<times> ingest_db" where
  "insert_map summary snapshot_id parser_version created_by db =
     (let key = (MAP_SOURCE_SYSTEM, ts_tmx_id summary, snapshot_id);
          t = db_tables db;
          put = (\<lambda>rows. db\<lparr>db_tables := t\<lparr>tb_maps := rows\<rparr>, db_next_map := db_next_map db + 1\<rparr>)
      in case find (\<lambda>m. map_key m = key) (tb_maps t) of
           Some m \<Rightarrow> (if mr_summary m = summary then 0 else 2,
             put (map (\<lambda>m. if map_key m = key then m\<lparr>mr_summary := summary\<rparr> else m) (tb_maps t)))
         | None \<Rightarrow> (1, put (tb_maps t @ [\<lparr>mr_id = db_next_map db, mr_source_system = MAP_SOURCE_SYSTEM,
               mr_source_map_id = ts_tmx_id summary, mr_snapshot = snapshot_id, mr_summary = summary,
               mr_parser_version = parser_version, mr_parse_status = ''unparsed'', mr_created_by_version = created_by,
               mr_artifact_hash = None, mr_artifact_path = None\<rparr>])))"

text \<open>The missing row is noticed after the commit.\<close>

definition upsert_map :: "ingest_env \<Rightarrow> tmx_map_summary \<Rightarrow> string \<Rightarrow> string \<Rightarrow> string \<Rightarrow> ingest_db
    \<Rightarrow> (run_exn + int \<times> bool) \<times> ingest_db" where
  "upsert_map env summary snapshot_id parser_version created_by db =
     and_then (statement env (insert_map summary snapshot_id parser_version created_by) db) (\<lambda>affected db.
     and_then (statement env (\<lambda>db. (map_option mr_id
         (find (\<lambda>m. map_key m = (MAP_SOURCE_SYSTEM, ts_tmx_id summary, snapshot_id)) (tb_maps (db_tables db))), db)) db) (\<lambda>row db.
     and_then (commit env db) (\<lambda>_ db.
       case row of None \<Rightarrow> (Inl RowMissing, db) | Some map_id \<Rightarrow> (Inr (map_id, affected = 1), db))))"

definition record_artifact :: "ingest_env \<Rightarrow> int \<Rightarrow> string \<Rightarrow> string \<Rightarrow> ingest_db \<Rightarrow> (run_exn + unit) \<times> ingest_db" where
  "record_artifact env map_id content_hash artifact_path db =
     and_then (statement env (\<lambda>db. ((), db\<lparr>db_tables := (db_tables db)\<lparr>tb_maps := map (\<lambda>m. if mr_id m = map_id
       then m\<lparr>mr_artifact_hash := Some content_hash, mr_artifact_path := Some artifact_path\<rparr> else m) (tb_maps (db_tables db))\<rparr>\<rparr>)) db)
       (committed env)"

definition replay_key :: "replay_row \<Rightarrow> string \<times> string \<times> string" where
  "replay_key r = (pr_source_system r, pr_source_replay_id r, pr_snapshot r)"

definition insert_replay :: "tmx_replay_summary \<Rightarrow> int \<Rightarrow> string \<Rightarrow> string \<Rightarrow> ingest_db \<Rightarrow> nat \<times> ingest_db" where
  "insert_replay summary map_id snapshot_id created_by db =
     (let key = (MAP_SOURCE_SYSTEM, rs_replay_id summary, snapshot_id);
          t = db_tables db;
          put = (\<lambda>rows. db\<lparr>db_tables := t\<lparr>tb_replays := rows\<rparr>, db_next_replay := db_next_replay db + 1\<rparr>)
      in case find (\<lambda>r. replay_key r = key) (tb_replays t) of
           Some r \<Rightarrow> (if pr_map_id r = map_id \<and> pr_summary r = summary then 0 else 2,
             put (map (\<lambda>r. if replay_key r = key then r\<lparr>pr_map_id := map_id, pr_summary := summary\<rparr> else r) (tb_replays t)))
         | None \<Rightarrow> (1, put (tb_replays t @ [\<lparr>pr_id = db_next_replay db, pr_source_system = MAP_SOURCE_SYSTEM,
               pr_source_replay_id = rs_replay_id summary, pr_map_id = map_id, pr_snapshot = snapshot_id, pr_summary = summary,
               pr_created_by_version = created_by, pr_artifact_hash = None, pr_artifact_path = None\<rparr>])))"

definition upsert_replay :: "ingest_env \<Rightarrow> tmx_replay_summary \<Rightarrow> int \<Rightarrow> string \<Rightarrow> string \<Rightarrow> ingest_db
    \<Rightarrow> (run_exn + int \<times> bool) \<times> ingest_db" where
  "upsert_replay env summary map_id snapshot_id created_by db =
     and_then (statement env (insert_replay summary map_id snapshot_id created_by) db) (\<lambda>affected db.
     and_then (statement env (\<lambda>db. (map_option pr_id
         (find (\<lambda>r. replay_key r = (MAP_SOURCE_SYSTEM, rs_replay_id summary, snapshot_id)) (tb_replays (db_tables db))), db)) db) (\<lambda>row db.
     and_then (commit env db) (\<lambda>_ db.
       case row of None \<Rightarrow> (Inl RowMissing, db) | Some replay_id \<Rightarrow> (Inr (replay_id, affected = 1), db))))"

definition record_replay_artifact :: "ingest_env \<Rightarrow> int \<Rightarrow> string \<Rightarrow> string \<Rightarrow> ingest_db \<Rightarrow> (run_exn + unit) \<times> ingest_db" where
  "record_replay_artifact env replay_id content_hash artifact_path db =
     and_then (statement env (\<lambda>db. ((), db\<lparr>db_tables := (db_tables db)\<lparr>tb_replays := map (\<lambda>r. if pr_id r = replay_id
       then r\<lparr>pr_artifact_hash := Some content_hash, pr_artifact_path := Some artifact_path\<rparr> else r) (tb_replays (db_tables db))\<rparr>\<rparr>)) db)
       (committed env)"

subsection \<open>Maps\<close>

datatype ingest_note =
    UpsertFailed string
  | DownloadFailed string
  | DownloadStatus string nat
  | ListFailed string

record ingest_stats =
  is_maps_seen :: nat
  is_maps_inserted :: nat
  is_maps_updated :: nat
  is_artifacts_downloaded :: nat
  is_artifacts_failed :: nat
  is_summary_failures :: nat
  is_errors :: "ingest_note list"

definition stats_init :: ingest_stats where
  "stats_init = \<lparr>is_maps_seen = 0, is_maps_inserted = 0, is_maps_updated = 0, is_artifacts_downloaded = 0,
     is_artifacts_failed = 0, is_summary_failures = 0, is_errors = []\<rparr>"

definition to_summary_json :: "ingest_stats \<Rightarrow> json_obj" where
  "to_summary_json s =
     [(''maps_seen'', JInt (int (is_maps_seen s))), (''maps_inserted'', JInt (int (is_maps_inserted s))),
      (''maps_updated'', JInt (int (is_maps_updated s))), (''artifacts_downloaded'', JInt (int (is_artifacts_downloaded s))),
      (''artifacts_failed'', JInt (int (is_artifacts_failed s))), (''summary_failures'', JInt (int (is_summary_failures s))),
      (''error_count'', JInt (int (length (is_errors s))))]"

record ingestor =
  in_tmx :: tmx_config
  in_base :: string
  in_snapshot_id :: string
  in_parser_version :: string
  in_created_by :: string
  in_max_maps :: "nat option"
  in_download :: bool

definition note_failure :: "ingest_note \<Rightarrow> ingest_stats \<Rightarrow> ingest_stats" where
  "note_failure e s = s\<lparr>is_artifacts_failed := is_artifacts_failed s + 1, is_errors := is_errors s @ [e]\<rparr>"

definition fetch_and_store :: "ingest_env \<Rightarrow> ingestor \<Rightarrow> string \<Rightarrow> int \<Rightarrow> ingest_stats \<Rightarrow> ingest_world
    \<Rightarrow> ((run_exn + unit) \<times> ingest_stats \<times> ingest_world) option" where
  "fetch_and_store env ing tmx_id map_id stats w =
     (case download_map_artifact (ie_tmx env) (in_tmx ing) tmx_id (iw_http w) of
        None \<Rightarrow> None
      | Some (Inl (HttpError _), h) \<Rightarrow> Some (Inr (), note_failure (DownloadFailed tmx_id) stats, w\<lparr>iw_http := h\<rparr>)
      | Some (Inl e, h) \<Rightarrow> Some (Inl (Client e), stats, w\<lparr>iw_http := h\<rparr>)
      | Some (Inr r, h) \<Rightarrow>
          if ht_status r \<noteq> 200 then Some (Inr (), note_failure (DownloadStatus tmx_id (ht_status r)) stats, w\<lparr>iw_http := h\<rparr>)
          else (case artifact_write (ie_sha256 env) (in_base ing) (ht_content r) (iw_files w) of
              (Inl e, files) \<Rightarrow> Some (Inl (StoreError e), stats, w\<lparr>iw_http := h, iw_files := files\<rparr>)
            | (Inr (digest, dest), files) \<Rightarrow>
                (case record_artifact env map_id digest dest (iw_db w) of
                   (Inl e, db) \<Rightarrow> Some (Inl e, stats, w\<lparr>iw_http := h, iw_files := files, iw_db := db\<rparr>)
                 | (Inr _, db) \<Rightarrow>
                     Some (Inr (), stats\<lparr>is_artifacts_downloaded := is_artifacts_downloaded stats + 1\<rparr>,
                       w\<lparr>iw_http := h, iw_files := files, iw_db := db\<rparr>))))"

text \<open>The body of the loop for one summary.\<close>

definition ingest_one :: "ingest_env \<Rightarrow> ingestor \<Rightarrow> tmx_map_summary \<Rightarrow> ingest_stats \<Rightarrow> ingest_world
    \<Rightarrow> ((run_exn + unit) \<times> ingest_stats \<times> ingest_world) option" where
  "ingest_one env ing summary stats w =
     (let stats = stats\<lparr>is_maps_seen := is_maps_seen stats + 1\<rparr> in
      case upsert_map env summary (in_snapshot_id ing) (in_parser_version ing) (in_created_by ing) (iw_db w) of
        (Inl e, db) \<Rightarrow>
          Some (Inr (), stats\<lparr>is_summary_failures := is_summary_failures stats + 1,
            is_errors := is_errors stats @ [UpsertFailed (ts_tmx_id summary)]\<rparr>, w\<lparr>iw_db := db\<rparr>)
      | (Inr (map_id, inserted), db) \<Rightarrow>
          let stats = (if inserted then stats\<lparr>is_maps_inserted := is_maps_inserted stats + 1\<rparr>
                else stats\<lparr>is_maps_updated := is_maps_updated stats + 1\<rparr>);
              w = w\<lparr>iw_db := db\<rparr>
          in if in_download ing then fetch_and_store env ing (ts_tmx_id summary) map_id stats w else Some (Inr (), stats, w))"

partial_function (option) ingest_loop :: "ingest_env \<Rightarrow> ingestor \<Rightarrow> summary_source \<Rightarrow> ingest_stats \<Rightarrow> ingest_world
    \<Rightarrow> ((run_exn + unit) \<times> ingest_stats \<times> ingest_world) option" where
  "ingest_loop env ing src stats w =
     (case next_from (ie_tmx env) (in_tmx ing) src (iw_http w) of
        None \<Rightarrow> None
      | Some (Inl e, src, h) \<Rightarrow> Some (Inl (Client e), stats, w\<lparr>iw_http := h\<rparr>)
      | Some (Inr None, src, h) \<Rightarrow> Some (Inr (), stats, w\<lparr>iw_http := h\<rparr>)
      | Some (Inr (Some summary), src, h) \<Rightarrow>
          if (case in_max_maps ing of None \<Rightarrow> False | Some m \<Rightarrow> m \<le> is_maps_seen stats)
          then Some (Inr (), stats, w\<lparr>iw_http := h\<rparr>)
          else (case ingest_one env ing summary stats (w\<lparr>iw_http := h\<rparr>) of
              None \<Rightarrow> None
            | Some (Inl e, stats, w) \<Rightarrow> Some (Inl e, stats, w)
            | Some (Inr _, stats, w) \<Rightarrow> ingest_loop env ing src stats w))"

declare ingest_loop.simps [code]

definition summaries :: "int option \<Rightarrow> int option \<Rightarrow> int option \<Rightarrow> summary_source" where
  "summaries random_count after_map_id environment =
     (case random_count of Some n \<Rightarrow> Random n | None \<Rightarrow> Listing (list_maps after_map_id environment))"

definition ingest_maps :: "ingest_env \<Rightarrow> ingestor \<Rightarrow> summary_source \<Rightarrow> ingest_world
    \<Rightarrow> ((run_exn + unit) \<times> ingest_stats \<times> ingest_world) option" where
  "ingest_maps env ing src w = ingest_loop env ing src stats_init w"

subsection \<open>Replays\<close>

record replay_stats =
  ps_maps_seen :: nat
  ps_maps_skipped_no_map_row :: nat
  ps_maps_with_no_replays :: nat
  ps_replays_seen :: nat
  ps_replays_inserted :: nat
  ps_replays_updated :: nat
  ps_artifacts_downloaded :: nat
  ps_artifacts_failed :: nat
  ps_errors :: "ingest_note list"

definition replay_stats_init :: replay_stats where
  "replay_stats_init = \<lparr>ps_maps_seen = 0, ps_maps_skipped_no_map_row = 0, ps_maps_with_no_replays = 0, ps_replays_seen = 0,
     ps_replays_inserted = 0, ps_replays_updated = 0, ps_artifacts_downloaded = 0, ps_artifacts_failed = 0, ps_errors = []\<rparr>"

definition to_replay_summary_json :: "replay_stats \<Rightarrow> json_obj" where
  "to_replay_summary_json s =
     [(''maps_seen'', JInt (int (ps_maps_seen s))), (''maps_skipped_no_map_row'', JInt (int (ps_maps_skipped_no_map_row s))),
      (''maps_with_no_replays'', JInt (int (ps_maps_with_no_replays s))), (''replays_seen'', JInt (int (ps_replays_seen s))),
      (''replays_inserted'', JInt (int (ps_replays_inserted s))), (''replays_updated'', JInt (int (ps_replays_updated s))),
      (''artifacts_downloaded'', JInt (int (ps_artifacts_downloaded s))), (''artifacts_failed'', JInt (int (ps_artifacts_failed s))),
      (''error_count'', JInt (int (length (ps_errors s))))]"

record replay_ingestor =
  pi_tmx :: tmx_config
  pi_base :: string
  pi_snapshot_id :: string
  pi_created_by :: string
  pi_per_map :: "int option"
  pi_download :: bool

definition note_replay_failure :: "ingest_note \<Rightarrow> replay_stats \<Rightarrow> replay_stats" where
  "note_replay_failure e s = s\<lparr>ps_artifacts_failed := ps_artifacts_failed s + 1, ps_errors := ps_errors s @ [e]\<rparr>"

definition fetch_and_store_replay :: "ingest_env \<Rightarrow> replay_ingestor \<Rightarrow> string \<Rightarrow> int \<Rightarrow> replay_stats \<Rightarrow> ingest_world
    \<Rightarrow> ((run_exn + unit) \<times> replay_stats \<times> ingest_world) option" where
  "fetch_and_store_replay env ing source_id db_id stats w =
     (case download_replay_artifact (ie_tmx env) (pi_tmx ing) source_id (iw_http w) of
        None \<Rightarrow> None
      | Some (Inl (HttpError _), h) \<Rightarrow> Some (Inr (), note_replay_failure (DownloadFailed source_id) stats, w\<lparr>iw_http := h\<rparr>)
      | Some (Inl e, h) \<Rightarrow> Some (Inl (Client e), stats, w\<lparr>iw_http := h\<rparr>)
      | Some (Inr r, h) \<Rightarrow>
          if ht_status r \<noteq> 200 then Some (Inr (), note_replay_failure (DownloadStatus source_id (ht_status r)) stats, w\<lparr>iw_http := h\<rparr>)
          else (case artifact_write (ie_sha256 env) (pi_base ing) (ht_content r) (iw_files w) of
              (Inl e, files) \<Rightarrow> Some (Inl (StoreError e), stats, w\<lparr>iw_http := h, iw_files := files\<rparr>)
            | (Inr (digest, dest), files) \<Rightarrow>
                (case record_replay_artifact env db_id digest dest (iw_db w) of
                   (Inl e, db) \<Rightarrow> Some (Inl e, stats, w\<lparr>iw_http := h, iw_files := files, iw_db := db\<rparr>)
                 | (Inr _, db) \<Rightarrow>
                     Some (Inr (), stats\<lparr>ps_artifacts_downloaded := ps_artifacts_downloaded stats + 1\<rparr>,
                       w\<lparr>iw_http := h, iw_files := files, iw_db := db\<rparr>))))"

fun ingest_replays_of :: "ingest_env \<Rightarrow> replay_ingestor \<Rightarrow> int \<Rightarrow> tmx_replay_summary list \<Rightarrow> replay_stats \<Rightarrow> ingest_world
    \<Rightarrow> ((run_exn + unit) \<times> replay_stats \<times> ingest_world) option" where
  "ingest_replays_of env ing map_id [] stats w = Some (Inr (), stats, w)"
| "ingest_replays_of env ing map_id (summary # rest) stats w =
     (let stats = stats\<lparr>ps_replays_seen := ps_replays_seen stats + 1\<rparr> in
      case upsert_replay env summary map_id (pi_snapshot_id ing) (pi_created_by ing) (iw_db w) of
        (Inl e, db) \<Rightarrow>
          ingest_replays_of env ing map_id rest
            (stats\<lparr>ps_errors := ps_errors stats @ [UpsertFailed (rs_replay_id summary)]\<rparr>) (w\<lparr>iw_db := db\<rparr>)
      | (Inr (replay_id, inserted), db) \<Rightarrow>
          let stats = (if inserted then stats\<lparr>ps_replays_inserted := ps_replays_inserted stats + 1\<rparr>
                else stats\<lparr>ps_replays_updated := ps_replays_updated stats + 1\<rparr>);
              w = w\<lparr>iw_db := db\<rparr>
          in if pi_download ing then
               (case fetch_and_store_replay env ing (rs_replay_id summary) replay_id stats w of
                  None \<Rightarrow> None
                | Some (Inl e, stats, w) \<Rightarrow> Some (Inl e, stats, w)
                | Some (Inr _, stats, w) \<Rightarrow> ingest_replays_of env ing map_id rest stats w)
             else ingest_replays_of env ing map_id rest stats w)"

text \<open>\<open>summaries[:n]\<close>; a negative bound counts from the end.\<close>

definition slice_to :: "int \<Rightarrow> 'a list \<Rightarrow> 'a list" where
  "slice_to n xs = (if 0 \<le> n then take (nat n) xs else take (length xs - nat (- n)) xs)"

definition process_map :: "ingest_env \<Rightarrow> replay_ingestor \<Rightarrow> int \<Rightarrow> string \<Rightarrow> replay_stats \<Rightarrow> ingest_world
    \<Rightarrow> ((run_exn + unit) \<times> replay_stats \<times> ingest_world) option" where
  "process_map env ing db_map_id source_map_id stats w =
     (case replays_for_map (ie_tmx env) (pi_tmx ing) source_map_id (pi_per_map ing) (iw_http w) of
        None \<Rightarrow> None
      | Some (Inl (HttpError _), h) \<Rightarrow>
          Some (Inr (), stats\<lparr>ps_errors := ps_errors stats @ [ListFailed source_map_id]\<rparr>, w\<lparr>iw_http := h\<rparr>)
      | Some (Inl e, h) \<Rightarrow> Some (Inl (Client e), stats, w\<lparr>iw_http := h\<rparr>)
      | Some (Inr found, h) \<Rightarrow>
          if found = [] then Some (Inr (), stats\<lparr>ps_maps_with_no_replays := ps_maps_with_no_replays stats + 1\<rparr>, w\<lparr>iw_http := h\<rparr>)
          else ingest_replays_of env ing db_map_id
            (case pi_per_map ing of None \<Rightarrow> found | Some n \<Rightarrow> slice_to n found) stats (w\<lparr>iw_http := h\<rparr>))"

fun ingest_replays :: "ingest_env \<Rightarrow> replay_ingestor \<Rightarrow> (int \<times> string) list \<Rightarrow> replay_stats \<Rightarrow> ingest_world
    \<Rightarrow> ((run_exn + unit) \<times> replay_stats \<times> ingest_world) option" where
  "ingest_replays env ing [] stats w = Some (Inr (), stats, w)"
| "ingest_replays env ing ((db_map_id, source_map_id) # refs) stats w =
     (case process_map env ing db_map_id source_map_id (stats\<lparr>ps_maps_seen := ps_maps_seen stats + 1\<rparr>) w of
        None \<Rightarrow> None
      | Some (Inl e, stats, w) \<Rightarrow> Some (Inl e, stats, w)
      | Some (Inr _, stats, w) \<Rightarrow> ingest_replays env ing refs stats w)"

subsection \<open>The artifact directory\<close>

definition files_wf :: "(bytes \<Rightarrow> string) \<Rightarrow> string \<Rightarrow> artifact_files \<Rightarrow> bool" where
  "files_wf sha256 base files \<longleftrightarrow> (\<forall>p data. files p = Some data \<longrightarrow> artifact_path_for base (sha256 data) = Inr p)"

text \<open>The path determines the hash.\<close>

lemma path_for_inj: "artifact_path_for base h = Inr p \<Longrightarrow> artifact_path_for base h' = Inr p \<Longrightarrow> h = h'"
  by (auto simp: artifact_path_for_def split: if_splits)

lemma artifact_write_wf:
  assumes "files_wf sha256 base files" and "artifact_write sha256 base data files = (r, files')"
  shows "files_wf sha256 base files' \<and> files \<subseteq>\<^sub>m files' \<and>
    (\<forall>digest dest. r = Inr (digest, dest) \<longrightarrow> artifact_path_for base digest = Inr dest \<and>
      (\<exists>data'. files' dest = Some data' \<and> sha256 data' = digest))"
proof (cases "artifact_path_for base (sha256 data)")
  case (Inl e)
  with assms show ?thesis by (auto simp: artifact_write_def Let_def)
next
  case (Inr dest)
  with assms have w: "r = Inr (sha256 data, dest)" "files' = (if files dest \<noteq> None then files else files(dest \<mapsto> data))"
    by (auto simp: artifact_write_def Let_def)
  show ?thesis
  proof (cases "files dest")
    case None
    with w assms(1) Inr show ?thesis by (auto simp: files_wf_def map_le_def)
  next
    case (Some data')
    with assms(1) have "artifact_path_for base (sha256 data') = Inr dest" by (simp add: files_wf_def)
    with path_for_inj Inr have "sha256 data' = sha256 data" by blast
    with w assms(1) Inr Some show ?thesis by auto
  qed
qed

subsection \<open>Tables with a natural key\<close>

definition rows_ok :: "('row \<Rightarrow> 'k) \<Rightarrow> ('row \<Rightarrow> int) \<Rightarrow> 'row list \<Rightarrow> int \<Rightarrow> bool" where
  "rows_ok key ident rows next_id \<longleftrightarrow>
     distinct (map key rows) \<and> distinct (map ident rows) \<and> (\<forall>r \<in> set rows. ident r < next_id)"

lemma rows_ok_map:
  assumes "rows_ok key ident rows next_id" and "\<And>r. key (f r) = key r" and "\<And>r. ident (f r) = ident r"
  shows "rows_ok key ident (map f rows) next_id"
proof -
  have "map key (map f rows) = map key rows" "map ident (map f rows) = map ident rows" using assms(2,3) by simp_all
  with assms show ?thesis unfolding rows_ok_def by (simp only: set_map ball_simps) auto
qed

lemma rows_ok_append:
  assumes "rows_ok key ident rows next_id" and "ident r = next_id" and "\<forall>r' \<in> set rows. key r' \<noteq> key r"
  shows "rows_ok key ident (rows @ [r]) (next_id + 1)"
  using assms by (fastforce simp: rows_ok_def)

text \<open>Rows are only added; a row keeps its identifier and its key.\<close>

definition rows_kept :: "('row \<Rightarrow> 'k) \<Rightarrow> ('row \<Rightarrow> int) \<Rightarrow> 'row list \<Rightarrow> 'row list \<Rightarrow> bool" where
  "rows_kept key ident rows rows' \<longleftrightarrow>
     (\<exists>more. map (\<lambda>r. (ident r, key r)) rows' = map (\<lambda>r. (ident r, key r)) rows @ more)"

lemma rows_kept_refl [simp]: "rows_kept key ident rows rows"
  by (simp add: rows_kept_def)

lemma rows_kept_trans [trans]: "rows_kept key ident a b \<Longrightarrow> rows_kept key ident b c \<Longrightarrow> rows_kept key ident a c"
  by (auto simp: rows_kept_def)

lemma rows_kept_map: "(\<And>r. key (f r) = key r) \<Longrightarrow> (\<And>r. ident (f r) = ident r) \<Longrightarrow> rows_kept key ident rows (map f rows)"
  by (simp add: rows_kept_def comp_def)

lemma rows_kept_append: "rows_kept key ident rows (rows @ [r])"
  by (simp add: rows_kept_def)

subsection \<open>The invariant of database and directory\<close>

definition artifact_ref :: "(bytes \<Rightarrow> string) \<Rightarrow> string \<Rightarrow> artifact_files \<Rightarrow> string option \<Rightarrow> string option \<Rightarrow> bool" where
  "artifact_ref sha256 base files h p \<longleftrightarrow>
     (case (h, p) of
        (None, None) \<Rightarrow> True
      | (Some digest, Some dest) \<Rightarrow> artifact_path_for base digest = Inr dest \<and>
          (\<exists>data. files dest = Some data \<and> sha256 data = digest)
      | _ \<Rightarrow> False)"

lemma artifact_ref_mono: "artifact_ref sha256 base files h p \<Longrightarrow> files \<subseteq>\<^sub>m files' \<Longrightarrow> artifact_ref sha256 base files' h p"
  by (cases h; cases p) (auto simp: artifact_ref_def map_le_def dom_def)

text \<open>
  Interface of a table whose rows have a natural key, an identifier and a reference to an artifact: what
  the three kinds of statement keep, whatever else the rows hold.
\<close>

locale artifact_table =
  fixes key :: "'row \<Rightarrow> 'k" and ident :: "'row \<Rightarrow> int" and hash :: "'row \<Rightarrow> string option" and loc :: "'row \<Rightarrow> string option"
    and put_ref :: "string \<Rightarrow> string \<Rightarrow> 'row \<Rightarrow> 'row"
  assumes put_key: "key (put_ref h p r) = key r" "ident (put_ref h p r) = ident r"
    and put_hash: "hash (put_ref h p r) = Some h" "loc (put_ref h p r) = Some p"
begin

definition ok :: "(bytes \<Rightarrow> string) \<Rightarrow> string \<Rightarrow> artifact_files \<Rightarrow> 'row list \<Rightarrow> int \<Rightarrow> bool" where
  "ok sha256 base files rows next_id \<longleftrightarrow>
     rows_ok key ident rows next_id \<and> (\<forall>r \<in> set rows. artifact_ref sha256 base files (hash r) (loc r))"

lemma recorded:
  assumes "ok sha256 base files rows next_id" and "artifact_ref sha256 base files (Some h) (Some p)"
  shows "ok sha256 base files (map (\<lambda>r. if ident r = i then put_ref h p r else r) rows) next_id"
    and "rows_kept key ident rows (map (\<lambda>r. if ident r = i then put_ref h p r else r) rows)"
proof -
  define f where "f = (\<lambda>r. if ident r = i then put_ref h p r else r)"
  have f: "key (f r) = key r" "ident (f r) = ident r" for r by (simp_all add: f_def put_key)
  have "artifact_ref sha256 base files (hash (f r)) (loc (f r))" if "r \<in> set rows" for r
    using that assms by (simp add: f_def put_hash ok_def)
  with assms(1) f show "ok sha256 base files (map (\<lambda>r. if ident r = i then put_ref h p r else r) rows) next_id"
    unfolding f_def [symmetric] by (auto simp: ok_def intro: rows_ok_map)
  show "rows_kept key ident rows (map (\<lambda>r. if ident r = i then put_ref h p r else r) rows)"
    unfolding f_def [symmetric] by (rule rows_kept_map) (simp_all add: f)
qed

lemma updated:
  assumes "ok sha256 base files rows next_id"
    and f: "\<And>r. key (f r) = key r" "\<And>r. ident (f r) = ident r" "\<And>r. hash (f r) = hash r" "\<And>r. loc (f r) = loc r"
  shows "ok sha256 base files (map f rows) next_id" and "rows_kept key ident rows (map f rows)"
  using assms(1) f by (auto simp: ok_def intro: rows_ok_map rows_kept_map)

lemma inserted:
  assumes "ok sha256 base files rows next_id" and "find (\<lambda>r'. key r' = key r) rows = None" and "ident r = next_id"
    and "hash r = None" "loc r = None"
  shows "ok sha256 base files (rows @ [r]) (next_id + 1)" and "rows_kept key ident rows (rows @ [r])"
proof -
  have "\<forall>r' \<in> set rows. key r' \<noteq> key r" using assms(2) by (auto simp: find_None_iff)
  with assms show "ok sha256 base files (rows @ [r]) (next_id + 1)"
    by (auto simp: ok_def artifact_ref_def intro: rows_ok_append)
qed (rule rows_kept_append)

lemma later: "ok sha256 base files rows next_id \<Longrightarrow> next_id \<le> n \<Longrightarrow> ok sha256 base files rows n"
  by (auto simp: ok_def rows_ok_def)

lemma mono: "ok sha256 base files rows next_id \<Longrightarrow> files \<subseteq>\<^sub>m files' \<Longrightarrow> ok sha256 base files' rows next_id"
  unfolding ok_def using artifact_ref_mono by blast

end

interpretation maps: artifact_table map_key mr_id mr_artifact_hash mr_artifact_path
  "\<lambda>h p m. m\<lparr>mr_artifact_hash := Some h, mr_artifact_path := Some p\<rparr> :: map_row"
  by unfold_locales (simp_all add: map_key_def)

interpretation replays: artifact_table replay_key pr_id pr_artifact_hash pr_artifact_path
  "\<lambda>h p r. r\<lparr>pr_artifact_hash := Some h, pr_artifact_path := Some p\<rparr> :: replay_row"
  by unfold_locales (simp_all add: replay_key_def)

text \<open>Both copies of the tables, under the shared counters; the connection sees every committed row.\<close>

definition tables_ok :: "(bytes \<Rightarrow> string) \<Rightarrow> string \<Rightarrow> artifact_files \<Rightarrow> int \<Rightarrow> int \<Rightarrow> ingest_tables \<Rightarrow> bool" where
  "tables_ok sha256 base files next_map next_replay t \<longleftrightarrow>
     rows_ok map_key mr_id (tb_maps t) next_map \<and> rows_ok replay_key pr_id (tb_replays t) next_replay \<and>
     (\<forall>m \<in> set (tb_maps t). artifact_ref sha256 base files (mr_artifact_hash m) (mr_artifact_path m)) \<and>
     (\<forall>r \<in> set (tb_replays t). artifact_ref sha256 base files (pr_artifact_hash r) (pr_artifact_path r))"

lemma tables_ok_iff:
  "tables_ok sha256 base files nm nr t \<longleftrightarrow> maps.ok sha256 base files (tb_maps t) nm \<and> replays.ok sha256 base files (tb_replays t) nr"
  by (auto simp: tables_ok_def maps.ok_def replays.ok_def)

definition tables_kept :: "ingest_tables \<Rightarrow> ingest_tables \<Rightarrow> bool" where
  "tables_kept t t' \<longleftrightarrow> rows_kept map_key mr_id (tb_maps t) (tb_maps t') \<and> rows_kept replay_key pr_id (tb_replays t) (tb_replays t')"

lemma tables_kept_refl [simp]: "tables_kept t t"
  by (simp add: tables_kept_def)

lemma tables_kept_trans [trans]: "tables_kept a b \<Longrightarrow> tables_kept b c \<Longrightarrow> tables_kept a c"
  unfolding tables_kept_def by (meson rows_kept_trans)

lemma rows_kept_length: "rows_kept key ident rows rows' \<Longrightarrow> length rows \<le> length rows'"
proof -
  assume "rows_kept key ident rows rows'"
  then obtain new where "map (\<lambda>r. (ident r, key r)) rows' = map (\<lambda>r. (ident r, key r)) rows @ new" by (auto simp: rows_kept_def)
  then have "length (map (\<lambda>r. (ident r, key r)) rows') = length (map (\<lambda>r. (ident r, key r)) rows @ new)" by simp
  then show "length rows \<le> length rows'" by simp
qed

definition db_wf :: "(bytes \<Rightarrow> string) \<Rightarrow> string \<Rightarrow> artifact_files \<Rightarrow> ingest_db \<Rightarrow> bool" where
  "db_wf sha256 base files db \<longleftrightarrow> tables_ok sha256 base files (db_next_map db) (db_next_replay db) (db_tables db) \<and>
     tables_ok sha256 base files (db_next_map db) (db_next_replay db) (db_stored db) \<and> tables_kept (db_stored db) (db_tables db)"

definition ingest_wf :: "(bytes \<Rightarrow> string) \<Rightarrow> string \<Rightarrow> ingest_world \<Rightarrow> bool" where
  "ingest_wf sha256 base w \<longleftrightarrow> files_wf sha256 base (iw_files w) \<and> db_wf sha256 base (iw_files w) (iw_db w)"

text \<open>What is committed and what is in the directory stays.\<close>

definition ingest_ext :: "ingest_world \<Rightarrow> ingest_world \<Rightarrow> bool" where
  "ingest_ext w w' \<longleftrightarrow> tables_kept (db_stored (iw_db w)) (db_stored (iw_db w')) \<and> iw_files w \<subseteq>\<^sub>m iw_files w'"

lemma ingest_ext_refl [simp]: "ingest_ext w w"
  by (simp add: ingest_ext_def)

lemma ingest_ext_trans [trans]: "ingest_ext a b \<Longrightarrow> ingest_ext b c \<Longrightarrow> ingest_ext a c"
  unfolding ingest_ext_def by (meson map_le_trans tables_kept_trans)

lemma db_wf_mono: "db_wf sha256 base files db \<Longrightarrow> files \<subseteq>\<^sub>m files' \<Longrightarrow> db_wf sha256 base files' db"
  unfolding db_wf_def tables_ok_iff using maps.mono replays.mono by blast

lemma db_wf_lengths: "db_wf sha256 base files db \<Longrightarrow>
    length (tb_maps (db_stored db)) \<le> length (tb_maps (db_tables db)) \<and> length (tb_replays (db_stored db)) \<le> length (tb_replays (db_tables db))"
  by (auto simp: db_wf_def tables_kept_def intro: rows_kept_length)

subsection \<open>Statements and commits\<close>

lemma statement_cases:
  assumes "statement env f db = (r, db')"
  obtains (ok) x where "r = Inr x" "f (db\<lparr>db_statements := db_statements db + 1\<rparr>) = (x, db')"
  | (failed) "r = Inl DatabaseError" "db' = db\<lparr>db_statements := db_statements db + 1\<rparr>"
  | (undone) "r = Inl DatabaseError" "db' = db\<lparr>db_statements := db_statements db + 1, db_tables := db_stored db\<rparr>"
proof (cases "ie_db_reply env (db_statements db)")
  case Answered
  with assms ok show ?thesis by (auto simp: statement_def Let_def split: prod.splits)
next
  case Failing
  with assms failed show ?thesis by (simp add: statement_def Let_def)
next
  case Rolled_back
  with assms undone show ?thesis by (simp add: statement_def Let_def rolled_back_def)
next
  case Connection_lost
  with assms undone show ?thesis by (simp add: statement_def Let_def rolled_back_def)
qed

lemma commit_cases:
  assumes "commit env db = (r, db')"
  obtains (stored) "db' = db\<lparr>db_statements := db_statements db + 1, db_stored := db_tables db\<rparr>"
  | (failed) "r = Inl DatabaseError" "db' = db\<lparr>db_statements := db_statements db + 1\<rparr>"
  | (undone) "r = Inl DatabaseError" "db' = db\<lparr>db_statements := db_statements db + 1, db_tables := db_stored db\<rparr>"
proof (cases "ie_db_reply env (db_statements db)")
  case Answered
  with assms stored show ?thesis by (simp add: commit_def Let_def)
next
  case Failing
  with assms failed show ?thesis by (simp add: commit_def Let_def)
next
  case Rolled_back
  with assms undone show ?thesis by (simp add: commit_def Let_def rolled_back_def)
next
  case Connection_lost
  with assms stored show ?thesis by (simp add: commit_def Let_def)
qed

text \<open>What a commit does to well-formed tables: nothing, undoing, or storing what was seen; only the last is answered.\<close>

lemma commit_ok:
  assumes "db_wf sha256 base files db" and "commit env db = (r, db')"
  shows "db_wf sha256 base files db' \<and> tables_kept (db_stored db) (db_stored db') \<and>
    (db_stored db' = db_tables db \<and> db_tables db' = db_tables db \<or>
     r \<noteq> Inr () \<and> db_stored db' = db_stored db \<and> db_tables db' \<in> {db_tables db, db_stored db})"
  using assms(2)
proof (cases rule: commit_cases)
  case stored
  with assms(1) show ?thesis by (simp add: db_wf_def)
next
  case failed
  with assms(1) show ?thesis by (simp add: db_wf_def)
next
  case undone
  with assms(1) show ?thesis by (simp add: db_wf_def)
qed

lemma committed_ok:
  assumes "db_wf sha256 base files db" and "committed env x db = (r, db')"
  shows "db_wf sha256 base files db' \<and> tables_kept (db_stored db) (db_stored db') \<and> db_tables db' \<in> {db_tables db, db_stored db} \<and>
    db_stored db' \<in> {db_tables db, db_stored db}"
proof -
  obtain c db1 where c: "commit env db = (c, db1)" by fastforce
  then have "db' = db1" using assms(2) by (cases c) (auto simp: committed_def and_then_def)
  then show ?thesis using commit_ok [OF assms(1) c] by blast
qed

text \<open>What the two upserts do to the tables the connection sees.\<close>

lemma insert_map_ok:
  assumes wf: "db_wf sha256 base files db" and "insert_map summary snapshot_id pv cb db = (n, db')"
  shows "db_wf sha256 base files db' \<and> db_stored db' = db_stored db \<and> tb_replays (db_tables db') = tb_replays (db_tables db) \<and>
    length (tb_maps (db_tables db')) = length (tb_maps (db_tables db)) + (if n = 1 then 1 else 0) \<and>
    find (\<lambda>m. map_key m = (MAP_SOURCE_SYSTEM, ts_tmx_id summary, snapshot_id)) (tb_maps (db_tables db')) \<noteq> None"
proof -
  have t: "maps.ok sha256 base files (tb_maps (db_tables db)) (db_next_map db)"
    and st: "maps.ok sha256 base files (tb_maps (db_stored db)) (db_next_map db + 1)"
    using wf maps.later by (auto simp: db_wf_def tables_ok_iff)
  let ?key = "(MAP_SOURCE_SYSTEM, ts_tmx_id summary, snapshot_id)"
  show ?thesis
  proof (cases "find (\<lambda>m. map_key m = ?key) (tb_maps (db_tables db))")
    case None
    define row where "row = \<lparr>mr_id = db_next_map db, mr_source_system = MAP_SOURCE_SYSTEM,
             mr_source_map_id = ts_tmx_id summary, mr_snapshot = snapshot_id, mr_summary = summary,
             mr_parser_version = pv, mr_parse_status = ''unparsed'', mr_created_by_version = cb,
             mr_artifact_hash = None, mr_artifact_path = None\<rparr>"
    have db': "n = 1" "db' = db\<lparr>db_tables := (db_tables db)\<lparr>tb_maps := tb_maps (db_tables db) @ [row]\<rparr>, db_next_map := db_next_map db + 1\<rparr>"
      using assms(2) None by (simp_all add: insert_map_def Let_def row_def)
    have row: "map_key row = ?key" "mr_id row = db_next_map db" "mr_artifact_hash row = None" "mr_artifact_path row = None"
      by (simp_all add: row_def map_key_def)
    note ins = maps.inserted [OF t _ row(2-4)]
    have "find (\<lambda>m. map_key m = ?key) (tb_maps (db_tables db) @ [row]) \<noteq> None" using row(1) by (auto simp: find_None_iff)
    then show ?thesis
      using wf st ins None row(1) rows_kept_trans by (auto simp: db' db_wf_def tables_ok_iff tables_kept_def)
  next
    case (Some m)
    define f where "f = (\<lambda>m. if map_key m = ?key then m\<lparr>mr_summary := summary\<rparr> else m)"
    have db': "n \<noteq> Suc 0" "db' = db\<lparr>db_tables := (db_tables db)\<lparr>tb_maps := map f (tb_maps (db_tables db))\<rparr>, db_next_map := db_next_map db + 1\<rparr>"
      using assms(2) Some by (auto simp: insert_map_def Let_def f_def split: if_splits)
    have upd: "maps.ok sha256 base files (map f (tb_maps (db_tables db))) (db_next_map db)"
      "rows_kept map_key mr_id (tb_maps (db_tables db)) (map f (tb_maps (db_tables db)))"
      by (rule maps.updated [OF t]; simp add: f_def map_key_def)+
    have "map_key (f r) = map_key r" for r by (simp add: f_def map_key_def)
    then have "find (\<lambda>m. map_key m = ?key) (map f (tb_maps (db_tables db))) \<noteq> None"
      using Some unfolding find_None_iff by (fastforce simp: find_Some_iff)
    then show ?thesis
      using wf st upd maps.later [OF upd(1)] rows_kept_trans by (auto simp: db' db_wf_def tables_ok_iff tables_kept_def)
  qed
qed

lemma insert_replay_ok:
  assumes wf: "db_wf sha256 base files db" and "insert_replay summary map_id snapshot_id cb db = (n, db')"
  shows "db_wf sha256 base files db' \<and> db_stored db' = db_stored db \<and> tb_maps (db_tables db') = tb_maps (db_tables db) \<and>
    length (tb_replays (db_tables db')) = length (tb_replays (db_tables db)) + (if n = 1 then 1 else 0) \<and>
    find (\<lambda>r. replay_key r = (MAP_SOURCE_SYSTEM, rs_replay_id summary, snapshot_id)) (tb_replays (db_tables db')) \<noteq> None"
proof -
  have t: "replays.ok sha256 base files (tb_replays (db_tables db)) (db_next_replay db)"
    and st: "replays.ok sha256 base files (tb_replays (db_stored db)) (db_next_replay db + 1)"
    using wf replays.later by (auto simp: db_wf_def tables_ok_iff)
  let ?key = "(MAP_SOURCE_SYSTEM, rs_replay_id summary, snapshot_id)"
  show ?thesis
  proof (cases "find (\<lambda>r. replay_key r = ?key) (tb_replays (db_tables db))")
    case None
    define row where "row = \<lparr>pr_id = db_next_replay db, pr_source_system = MAP_SOURCE_SYSTEM,
             pr_source_replay_id = rs_replay_id summary, pr_map_id = map_id, pr_snapshot = snapshot_id, pr_summary = summary,
             pr_created_by_version = cb, pr_artifact_hash = None, pr_artifact_path = None\<rparr>"
    have db': "n = 1" "db' = db\<lparr>db_tables := (db_tables db)\<lparr>tb_replays := tb_replays (db_tables db) @ [row]\<rparr>, db_next_replay := db_next_replay db + 1\<rparr>"
      using assms(2) None by (simp_all add: insert_replay_def Let_def row_def)
    have row: "replay_key row = ?key" "pr_id row = db_next_replay db" "pr_artifact_hash row = None" "pr_artifact_path row = None"
      by (simp_all add: row_def replay_key_def)
    note ins = replays.inserted [OF t _ row(2-4)]
    have "find (\<lambda>r. replay_key r = ?key) (tb_replays (db_tables db) @ [row]) \<noteq> None" using row(1) by (auto simp: find_None_iff)
    then show ?thesis
      using wf st ins None row(1) rows_kept_trans by (auto simp: db' db_wf_def tables_ok_iff tables_kept_def)
  next
    case (Some q)
    define f where "f = (\<lambda>r. if replay_key r = ?key then r\<lparr>pr_map_id := map_id, pr_summary := summary\<rparr> else r)"
    have db': "n \<noteq> Suc 0" "db' = db\<lparr>db_tables := (db_tables db)\<lparr>tb_replays := map f (tb_replays (db_tables db))\<rparr>, db_next_replay := db_next_replay db + 1\<rparr>"
      using assms(2) Some by (auto simp: insert_replay_def Let_def f_def split: if_splits)
    have upd: "replays.ok sha256 base files (map f (tb_replays (db_tables db))) (db_next_replay db)"
      "rows_kept replay_key pr_id (tb_replays (db_tables db)) (map f (tb_replays (db_tables db)))"
      by (rule replays.updated [OF t]; simp add: f_def replay_key_def)+
    have "replay_key (f r) = replay_key r" for r by (simp add: f_def replay_key_def)
    then have "find (\<lambda>r. replay_key r = ?key) (map f (tb_replays (db_tables db))) \<noteq> None"
      using Some unfolding find_None_iff by (fastforce simp: find_Some_iff)
    then show ?thesis
      using wf st upd replays.later [OF upd(1)] rows_kept_trans by (auto simp: db' db_wf_def tables_ok_iff tables_kept_def)
  qed
qed

text \<open>The second half of both upserts: read the identifier, commit.\<close>

lemma statement_read:
  assumes "db_wf sha256 base files db" and "statement env (\<lambda>db. (g (db_tables db), db)) db = (r, db')"
  shows "db_wf sha256 base files db' \<and> db_stored db' = db_stored db \<and>
    (r = Inr (g (db_tables db)) \<and> db_tables db' = db_tables db \<or> r = Inl DatabaseError \<and> db_tables db' \<in> {db_tables db, db_stored db})"
  using assms(2) by (cases rule: statement_cases) (use assms(1) in \<open>auto simp: db_wf_def\<close>)

lemma read_commit_ok:
  assumes wf: "db_wf sha256 base files db" and some: "g (db_tables db) \<noteq> None"
    and run: "and_then (statement env (\<lambda>db. (g (db_tables db), db)) db) (\<lambda>row db. and_then (commit env db) (\<lambda>_ db.
      case row of None \<Rightarrow> (Inl RowMissing, db) | Some i \<Rightarrow> (Inr (i, new), db))) = (r, db')"
  shows "db_wf sha256 base files db' \<and> tables_kept (db_stored db) (db_stored db') \<and> r \<noteq> Inl RowMissing \<and>
    db_tables db' \<in> {db_tables db, db_stored db} \<and> db_stored db' \<in> {db_tables db, db_stored db} \<and>
    (\<forall>i b. r = Inr (i, b) \<longrightarrow> b = new \<and> g (db_tables db) = Some i \<and> db_stored db' = db_tables db \<and> db_tables db' = db_tables db)"
proof -
  obtain x db1 where x: "statement env (\<lambda>db. (g (db_tables db), db)) db = (x, db1)" by fastforce
  note read = statement_read [OF wf x]
  show ?thesis
  proof (cases x)
    case (Inl e)
    with run x read show ?thesis by (auto simp: and_then_def)
  next
    case (Inr row)
    with read have row: "row = g (db_tables db)" "db_tables db1 = db_tables db" "db_stored db1 = db_stored db" by auto
    with some obtain i where i: "row = Some i" by auto
    obtain c db2 where c: "commit env db1 = (c, db2)" by fastforce
    have "db_wf sha256 base files db1" using read by simp
    note com = commit_ok [OF this c]
    show ?thesis
    proof (cases c)
      case (Inl e)
      with run x Inr c have "r = Inl e" "db' = db2" by (simp_all add: and_then_def)
      moreover have "e = DatabaseError" using c Inl by (auto simp: commit_def Let_def split: db_reply.splits)
      ultimately show ?thesis using com row by auto
    next
      case c2: (Inr u)
      with run x Inr c i have "r = Inr (i, new)" "db' = db2" by (simp_all add: and_then_def)
      with com c2 row i show ?thesis by auto
    qed
  qed
qed

text \<open>
  An upsert that returns has committed what the connection saw, the row included. One that fails may have stored
  the row, may have left it in the open transaction, or may have undone the transaction. A missing row is never seen.
\<close>

lemma upsert_map_ok:
  assumes wf: "db_wf sha256 base files db" and run: "upsert_map env summary snapshot_id pv cb db = (r, db')"
  shows "db_wf sha256 base files db' \<and> tables_kept (db_stored db) (db_stored db') \<and> r \<noteq> Inl RowMissing \<and>
    (case r of
       Inl _ \<Rightarrow> length (tb_maps (db_tables db')) \<le> length (tb_maps (db_tables db)) + 1
     | Inr (_, new) \<Rightarrow> db_stored db' = db_tables db' \<and>
         length (tb_maps (db_tables db')) = length (tb_maps (db_tables db)) + (if new then 1 else 0))"
proof -
  obtain x db1 where x: "statement env (insert_map summary snapshot_id pv cb) db = (x, db1)" by fastforce
  let ?n = "db\<lparr>db_statements := db_statements db + 1\<rparr>"
  have wf': "db_wf sha256 base files ?n" using wf by (simp add: db_wf_def)
  from x show ?thesis
  proof (cases rule: statement_cases)
    case (ok n)
    note ins = insert_map_ok [OF wf' ok(2)]
    let ?g = "\<lambda>t. map_option mr_id (find (\<lambda>m. map_key m = (MAP_SOURCE_SYSTEM, ts_tmx_id summary, snapshot_id)) (tb_maps t))"
    have "and_then (statement env (\<lambda>db. (?g (db_tables db), db)) db1) (\<lambda>row db. and_then (commit env db) (\<lambda>_ db.
        case row of None \<Rightarrow> (Inl RowMissing, db) | Some i \<Rightarrow> (Inr (i, n = 1), db))) = (r, db')"
      using run x ok(1) by (simp add: upsert_map_def and_then_def)
    note rc = read_commit_ok [where g = ?g, OF _ _ this]
    have rest: "db_wf sha256 base files db' \<and> tables_kept (db_stored db1) (db_stored db') \<and> r \<noteq> Inl RowMissing \<and>
      db_tables db' \<in> {db_tables db1, db_stored db1} \<and> db_stored db' \<in> {db_tables db1, db_stored db1} \<and>
      (\<forall>i b. r = Inr (i, b) \<longrightarrow> b = (n = 1) \<and> ?g (db_tables db1) = Some i \<and> db_stored db' = db_tables db1 \<and> db_tables db' = db_tables db1)"
      by (rule rc) (use ins in auto)
    have len: "length (tb_maps (db_stored db)) \<le> length (tb_maps (db_tables db))" using db_wf_lengths [OF wf] by simp
    show ?thesis
    proof (cases r)
      case (Inl e)
      with rest ins len show ?thesis by auto
    next
      case (Inr q)
      with rest ins show ?thesis by (cases q) auto
    qed
  next
    case failed
    then show ?thesis using run x wf by (auto simp: upsert_map_def and_then_def db_wf_def)
  next
    case undone
    then show ?thesis using run x wf db_wf_lengths [OF wf] by (auto simp: upsert_map_def and_then_def db_wf_def)
  qed
qed

lemma upsert_replay_ok:
  assumes wf: "db_wf sha256 base files db" and run: "upsert_replay env summary map_id snapshot_id cb db = (r, db')"
  shows "db_wf sha256 base files db' \<and> tables_kept (db_stored db) (db_stored db') \<and> r \<noteq> Inl RowMissing \<and>
    (tb_maps (db_tables db) = tb_maps (db_stored db) \<longrightarrow>
      tb_maps (db_tables db') = tb_maps (db_stored db) \<and> tb_maps (db_stored db') = tb_maps (db_stored db)) \<and>
    (case r of
       Inl _ \<Rightarrow> length (tb_replays (db_tables db')) \<le> length (tb_replays (db_tables db)) + 1
     | Inr (_, new) \<Rightarrow> db_stored db' = db_tables db' \<and>
         length (tb_replays (db_tables db')) = length (tb_replays (db_tables db)) + (if new then 1 else 0))"
proof -
  obtain x db1 where x: "statement env (insert_replay summary map_id snapshot_id cb) db = (x, db1)" by fastforce
  let ?n = "db\<lparr>db_statements := db_statements db + 1\<rparr>"
  have wf': "db_wf sha256 base files ?n" using wf by (simp add: db_wf_def)
  from x show ?thesis
  proof (cases rule: statement_cases)
    case (ok n)
    note ins = insert_replay_ok [OF wf' ok(2)]
    let ?g = "\<lambda>t. map_option pr_id (find (\<lambda>r. replay_key r = (MAP_SOURCE_SYSTEM, rs_replay_id summary, snapshot_id)) (tb_replays t))"
    have "and_then (statement env (\<lambda>db. (?g (db_tables db), db)) db1) (\<lambda>row db. and_then (commit env db) (\<lambda>_ db.
        case row of None \<Rightarrow> (Inl RowMissing, db) | Some i \<Rightarrow> (Inr (i, n = 1), db))) = (r, db')"
      using run x ok(1) by (simp add: upsert_replay_def and_then_def)
    note rc = read_commit_ok [where g = ?g, OF _ _ this]
    have rest: "db_wf sha256 base files db' \<and> tables_kept (db_stored db1) (db_stored db') \<and> r \<noteq> Inl RowMissing \<and>
      db_tables db' \<in> {db_tables db1, db_stored db1} \<and> db_stored db' \<in> {db_tables db1, db_stored db1} \<and>
      (\<forall>i b. r = Inr (i, b) \<longrightarrow> b = (n = 1) \<and> ?g (db_tables db1) = Some i \<and> db_stored db' = db_tables db1 \<and> db_tables db' = db_tables db1)"
      by (rule rc) (use ins in auto)
    have len: "length (tb_replays (db_stored db)) \<le> length (tb_replays (db_tables db))" using db_wf_lengths [OF wf] by simp
    show ?thesis
    proof (cases r)
      case (Inl e)
      with rest ins len show ?thesis by auto
    next
      case (Inr q)
      with rest ins show ?thesis by (cases q) auto
    qed
  next
    case failed
    then show ?thesis using run x wf by (auto simp: upsert_replay_def and_then_def db_wf_def)
  next
    case undone
    then show ?thesis using run x wf db_wf_lengths [OF wf] by (auto simp: upsert_replay_def and_then_def db_wf_def)
  qed
qed

lemma record_artifact_ok:
  assumes wf: "db_wf sha256 base files db" and ref: "artifact_ref sha256 base files (Some digest) (Some dest)"
    and run: "record_artifact env i digest dest db = (r, db')"
  shows "db_wf sha256 base files db' \<and> tables_kept (db_stored db) (db_stored db') \<and>
    length (tb_maps (db_tables db')) \<le> length (tb_maps (db_tables db))"
proof -
  let ?f = "map (\<lambda>m. if mr_id m = i then m\<lparr>mr_artifact_hash := Some digest, mr_artifact_path := Some dest\<rparr> else m)"
  have "maps.ok sha256 base files (tb_maps (db_tables db)) (db_next_map db)" using wf by (simp add: db_wf_def tables_ok_iff)
  note t = maps.recorded [OF this ref, of i]
  obtain x db1 where x: "statement env (\<lambda>db. ((), db\<lparr>db_tables := (db_tables db)\<lparr>tb_maps := ?f (tb_maps (db_tables db))\<rparr>\<rparr>)) db = (x, db1)"
    by fastforce
  have len: "length (tb_maps (db_stored db)) \<le> length (tb_maps (db_tables db))" using db_wf_lengths [OF wf] by simp
  from x show ?thesis
  proof (cases rule: statement_cases)
    case (ok u)
    have "committed env () db1 = (r, db')" using run x ok(1) by (simp add: record_artifact_def and_then_def)
    moreover have "db_wf sha256 base files db1" using ok(2) wf t rows_kept_trans by (auto simp: db_wf_def tables_ok_iff tables_kept_def)
    ultimately show ?thesis using committed_ok [of sha256 base files db1 env "()" r db'] ok(2) len by auto
  next
    case failed
    then show ?thesis using run x wf by (auto simp: record_artifact_def and_then_def db_wf_def)
  next
    case undone
    then show ?thesis using run x wf len by (auto simp: record_artifact_def and_then_def db_wf_def)
  qed
qed

lemma record_replay_artifact_ok:
  assumes wf: "db_wf sha256 base files db" and ref: "artifact_ref sha256 base files (Some digest) (Some dest)"
    and run: "record_replay_artifact env i digest dest db = (r, db')"
  shows "db_wf sha256 base files db' \<and> tables_kept (db_stored db) (db_stored db') \<and>
    (tb_maps (db_tables db) = tb_maps (db_stored db) \<longrightarrow>
      tb_maps (db_tables db') = tb_maps (db_stored db) \<and> tb_maps (db_stored db') = tb_maps (db_stored db)) \<and>
    length (tb_replays (db_tables db')) \<le> length (tb_replays (db_tables db))"
proof -
  let ?f = "map (\<lambda>r. if pr_id r = i then r\<lparr>pr_artifact_hash := Some digest, pr_artifact_path := Some dest\<rparr> else r)"
  have "replays.ok sha256 base files (tb_replays (db_tables db)) (db_next_replay db)" using wf by (simp add: db_wf_def tables_ok_iff)
  note t = replays.recorded [OF this ref, of i]
  obtain x db1 where x: "statement env (\<lambda>db. ((), db\<lparr>db_tables := (db_tables db)\<lparr>tb_replays := ?f (tb_replays (db_tables db))\<rparr>\<rparr>)) db = (x, db1)"
    by fastforce
  have len: "length (tb_replays (db_stored db)) \<le> length (tb_replays (db_tables db))" using db_wf_lengths [OF wf] by simp
  from x show ?thesis
  proof (cases rule: statement_cases)
    case (ok u)
    have "committed env () db1 = (r, db')" using run x ok(1) by (simp add: record_replay_artifact_def and_then_def)
    moreover have "db_wf sha256 base files db1" using ok(2) wf t rows_kept_trans by (auto simp: db_wf_def tables_ok_iff tables_kept_def)
    ultimately show ?thesis using committed_ok [of sha256 base files db1 env "()" r db'] ok(2) len by auto
  next
    case failed
    then show ?thesis using run x wf by (auto simp: record_replay_artifact_def and_then_def db_wf_def)
  next
    case undone
    then show ?thesis using run x wf len by (auto simp: record_replay_artifact_def and_then_def db_wf_def)
  qed
qed

subsection \<open>One map\<close>

lemma fetch_and_store_ok:
  assumes wf: "ingest_wf (ie_sha256 env) (in_base ing) w"
    and run: "fetch_and_store env ing tmx_id i stats w = Some (r, stats', w')"
  shows "ingest_wf (ie_sha256 env) (in_base ing) w'" and "ingest_ext w w'"
    and "length (tb_maps (db_tables (iw_db w'))) \<le> length (tb_maps (db_tables (iw_db w)))"
    and "is_maps_seen stats' = is_maps_seen stats" "is_maps_inserted stats' = is_maps_inserted stats"
      "is_maps_updated stats' = is_maps_updated stats" "is_summary_failures stats' = is_summary_failures stats"
    and "is_artifacts_downloaded stats' + is_artifacts_failed stats' =
      is_artifacts_downloaded stats + is_artifacts_failed stats + (if r = Inr () then 1 else 0)"
proof -
  obtain x h where d: "download_map_artifact (ie_tmx env) (in_tmx ing) tmx_id (iw_http w) = Some (x, h)"
    using run by (auto simp: fetch_and_store_def split: option.splits)
  note run' = run [unfolded fetch_and_store_def d option.case prod.case]
  have "ingest_wf (ie_sha256 env) (in_base ing) w' \<and> ingest_ext w w' \<and>
    length (tb_maps (db_tables (iw_db w'))) \<le> length (tb_maps (db_tables (iw_db w))) \<and>
    is_maps_seen stats' = is_maps_seen stats \<and> is_maps_inserted stats' = is_maps_inserted stats \<and>
    is_maps_updated stats' = is_maps_updated stats \<and> is_summary_failures stats' = is_summary_failures stats \<and>
    is_artifacts_downloaded stats' + is_artifacts_failed stats' =
      is_artifacts_downloaded stats + is_artifacts_failed stats + (if r = Inr () then 1 else 0)"
  proof (cases x)
    case (Inl e)
    have wf': "ingest_wf (ie_sha256 env) (in_base ing) (w\<lparr>iw_http := h\<rparr>)" "ingest_ext w (w\<lparr>iw_http := h\<rparr>)"
      using wf by (simp_all add: ingest_wf_def ingest_ext_def)
    with run' Inl show ?thesis by (cases e) (auto simp: note_failure_def)
  next
    case (Inr resp)
    have wf': "ingest_wf (ie_sha256 env) (in_base ing) (w\<lparr>iw_http := h\<rparr>)" "ingest_ext w (w\<lparr>iw_http := h\<rparr>)"
      using wf by (simp_all add: ingest_wf_def ingest_ext_def)
    show ?thesis
    proof (cases "ht_status resp = 200")
      case False
      with run' Inr wf' show ?thesis by (auto simp: note_failure_def)
    next
      case True
      obtain s files where s: "artifact_write (ie_sha256 env) (in_base ing) (ht_content resp) (iw_files w) = (s, files)" by fastforce
      have fwf: "files_wf (ie_sha256 env) (in_base ing) (iw_files w)" and dwf: "db_wf (ie_sha256 env) (in_base ing) (iw_files w) (iw_db w)"
        using wf by (simp_all add: ingest_wf_def)
      note f = artifact_write_wf [OF fwf s]
      then have f1: "files_wf (ie_sha256 env) (in_base ing) files" "iw_files w \<subseteq>\<^sub>m files" by blast+
      have dwf': "db_wf (ie_sha256 env) (in_base ing) files (iw_db w)" by (rule db_wf_mono [OF dwf f1(2)])
      show ?thesis
      proof (cases s)
        case (Inl e)
        with run' Inr True s f1 dwf' show ?thesis by (auto simp: ingest_wf_def ingest_ext_def)
      next
        case s2: (Inr q)
        obtain digest dest where q: "q = (digest, dest)" by fastforce
        with f s2 have ref: "artifact_ref (ie_sha256 env) (in_base ing) files (Some digest) (Some dest)"
          by (auto simp: artifact_ref_def)
        obtain t db where t: "record_artifact env i digest dest (iw_db w) = (t, db)" by fastforce
        note rec = record_artifact_ok [OF dwf' ref t]
        show ?thesis
        proof (cases t)
          case (Inl e)
          with run' Inr True s s2 q t have "r = Inl e" "stats' = stats" "w' = w\<lparr>iw_http := h, iw_files := files, iw_db := db\<rparr>" by auto
          with rec f1 show ?thesis by (auto simp: ingest_wf_def ingest_ext_def)
        next
          case t2: (Inr u)
          with run' Inr True s s2 q t have "r = Inr ()" "stats' = stats\<lparr>is_artifacts_downloaded := is_artifacts_downloaded stats + 1\<rparr>"
            "w' = w\<lparr>iw_http := h, iw_files := files, iw_db := db\<rparr>" by auto
          with rec f1 show ?thesis by (auto simp: ingest_wf_def ingest_ext_def)
        qed
      qed
    qed
  qed
  then show "ingest_wf (ie_sha256 env) (in_base ing) w'" "ingest_ext w w'"
    "length (tb_maps (db_tables (iw_db w'))) \<le> length (tb_maps (db_tables (iw_db w)))"
    "is_maps_seen stats' = is_maps_seen stats" "is_maps_inserted stats' = is_maps_inserted stats"
    "is_maps_updated stats' = is_maps_updated stats" "is_summary_failures stats' = is_summary_failures stats"
    "is_artifacts_downloaded stats' + is_artifacts_failed stats' =
      is_artifacts_downloaded stats + is_artifacts_failed stats + (if r = Inr () then 1 else 0)"
    by blast+
qed

text \<open>What holds between two maps of a run that started in \<open>w0\<close>; \<open>fetched\<close> tells whether every download of
  the maps so far was settled, which an exception can prevent for the last one.\<close>

definition run_inv :: "ingest_env \<Rightarrow> ingestor \<Rightarrow> ingest_world \<Rightarrow> bool \<Rightarrow> ingest_stats \<Rightarrow> ingest_world \<Rightarrow> bool" where
  "run_inv env ing w0 fetched s w \<longleftrightarrow>
     ingest_wf (ie_sha256 env) (in_base ing) w \<and> ingest_ext w0 w \<and>
     is_maps_seen s = is_maps_inserted s + is_maps_updated s + is_summary_failures s \<and>
     length (tb_maps (db_stored (iw_db w0))) + is_maps_inserted s \<le> length (tb_maps (db_stored (iw_db w))) \<and>
     length (tb_maps (db_tables (iw_db w))) \<le> length (tb_maps (db_stored (iw_db w0))) + is_maps_inserted s + is_summary_failures s \<and>
     (let settled = is_artifacts_downloaded s + is_artifacts_failed s; stored = (if in_download ing then is_maps_inserted s + is_maps_updated s else 0)
      in if fetched then settled = stored else settled + 1 = stored) \<and>
     (case in_max_maps ing of None \<Rightarrow> True | Some m \<Rightarrow> is_maps_seen s \<le> m)"

lemma run_inv_http [simp]: "run_inv env ing w0 b s (w\<lparr>iw_http := h\<rparr>) = run_inv env ing w0 b s w"
  by (simp add: run_inv_def ingest_wf_def ingest_ext_def)

lemma ingest_one_inv:
  assumes inv: "run_inv env ing w0 True s w"
    and room: "case in_max_maps ing of None \<Rightarrow> True | Some m \<Rightarrow> is_maps_seen s < m"
    and run: "ingest_one env ing summary s w = Some (r, s', w')"
  shows "run_inv env ing w0 (r = Inr ()) s' w'"
proof -
  let ?s = "s\<lparr>is_maps_seen := is_maps_seen s + 1\<rparr>"
  have wf: "files_wf (ie_sha256 env) (in_base ing) (iw_files w)" "db_wf (ie_sha256 env) (in_base ing) (iw_files w) (iw_db w)"
    and ext: "ingest_ext w0 w"
    using inv by (simp_all add: run_inv_def ingest_wf_def)
  obtain x db where u: "upsert_map env summary (in_snapshot_id ing) (in_parser_version ing) (in_created_by ing) (iw_db w) = (x, db)"
    by fastforce
  have up: "db_wf (ie_sha256 env) (in_base ing) (iw_files w) db" "tables_kept (db_stored (iw_db w)) (db_stored db)"
    "case x of
       Inl _ \<Rightarrow> length (tb_maps (db_tables db)) \<le> length (tb_maps (db_tables (iw_db w))) + 1
     | Inr (_, new) \<Rightarrow> db_stored db = db_tables db \<and>
         length (tb_maps (db_tables db)) = length (tb_maps (db_tables (iw_db w))) + (if new then 1 else 0)"
    using upsert_map_ok [OF wf(2) u] by blast+
  have kept: "length (tb_maps (db_stored (iw_db w))) \<le> length (tb_maps (db_stored db))"
    "length (tb_maps (db_stored (iw_db w))) \<le> length (tb_maps (db_tables (iw_db w)))"
    using up(2) rows_kept_length db_wf_lengths [OF wf(2)] by (auto simp: tables_kept_def)
  have wf1: "ingest_wf (ie_sha256 env) (in_base ing) (w\<lparr>iw_db := db\<rparr>)" using wf(1) up(1) by (simp add: ingest_wf_def)
  have "ingest_ext w (w\<lparr>iw_db := db\<rparr>)" using up(2) by (simp add: ingest_ext_def)
  with ext have ext1: "ingest_ext w0 (w\<lparr>iw_db := db\<rparr>)" by (rule ingest_ext_trans)
  show ?thesis
  proof (cases x)
    case (Inl e)
    with run u have "r = Inr ()" "w' = w\<lparr>iw_db := db\<rparr>"
      "s' = ?s\<lparr>is_summary_failures := is_summary_failures s + 1, is_errors := is_errors s @ [UpsertFailed (ts_tmx_id summary)]\<rparr>"
      by (simp_all add: ingest_one_def Let_def)
    with inv room wf1 ext1 up(3) kept Inl show ?thesis by (auto simp: run_inv_def Let_def split: option.splits)
  next
    case (Inr q)
    obtain i ins where q: "q = (i, ins)" by fastforce
    define s1 where "s1 = (if ins then ?s\<lparr>is_maps_inserted := is_maps_inserted s + 1\<rparr> else ?s\<lparr>is_maps_updated := is_maps_updated s + 1\<rparr>)"
    have run1: "(if in_download ing then fetch_and_store env ing (ts_tmx_id summary) i s1 (w\<lparr>iw_db := db\<rparr>) else Some (Inr (), s1, w\<lparr>iw_db := db\<rparr>)) = Some (r, s', w')"
      using run u Inr q by (cases ins; cases "in_download ing") (simp_all add: ingest_one_def Let_def s1_def)
    have len: "length (tb_maps (db_stored db)) = length (tb_maps (db_tables db))"
      "length (tb_maps (db_tables db)) = length (tb_maps (db_tables (iw_db w))) + (if ins then 1 else 0)" using up(3) Inr q by simp_all
    show ?thesis
    proof (cases "in_download ing")
      case False
      with run1 have "r = Inr ()" "s' = s1" "w' = w\<lparr>iw_db := db\<rparr>" by simp_all
      with False inv room wf1 ext1 len kept show ?thesis by (auto simp: run_inv_def Let_def s1_def split: option.splits)
    next
      case True
      with run1 have f: "fetch_and_store env ing (ts_tmx_id summary) i s1 (w\<lparr>iw_db := db\<rparr>) = Some (r, s', w')" by simp
      note ok = fetch_and_store_ok [OF wf1 f]
      have ext2: "ingest_ext w0 w'" by (rule ingest_ext_trans [OF ext1 ok(2)])
      have "rows_kept map_key mr_id (tb_maps (db_stored db)) (tb_maps (db_stored (iw_db w')))"
        using ok(2) by (simp add: ingest_ext_def tables_kept_def)
      then have stored: "length (tb_maps (db_stored db)) \<le> length (tb_maps (db_stored (iw_db w')))" by (rule rows_kept_length)
      have num: "is_maps_seen s' = is_maps_seen s + 1" "is_maps_inserted s' = is_maps_inserted s + (if ins then 1 else 0)"
        "is_maps_updated s' = is_maps_updated s + (if ins then 0 else 1)" "is_summary_failures s' = is_summary_failures s"
        "is_artifacts_downloaded s' + is_artifacts_failed s' = is_artifacts_downloaded s + is_artifacts_failed s + (if r = Inr () then 1 else 0)"
        "length (tb_maps (db_tables (iw_db w'))) \<le> length (tb_maps (db_tables (iw_db w))) + (if ins then 1 else 0)"
        "length (tb_maps (db_tables (iw_db w))) + (if ins then 1 else 0) \<le> length (tb_maps (db_stored (iw_db w')))"
        using ok(3-) len stored by (simp_all add: s1_def)
      show ?thesis
        using inv room True ok(1) ext2 num kept unfolding run_inv_def Let_def by (auto split: option.splits)
    qed
  qed
qed

lemma ingest_loop_inv:
  "ingest_loop env ing src s w = Some y \<Longrightarrow> run_inv env ing w0 True s w \<Longrightarrow>
     run_inv env ing w0 True (fst (snd y)) (snd (snd y)) \<or>
     (fst y \<noteq> Inr () \<and> run_inv env ing w0 False (fst (snd y)) (snd (snd y)))"
proof (induction rule: ingest_loop.raw_induct [rotated 1, consumes 1, case_names step])
  case (step loop env ing src s w y)
  obtain x src1 h where n: "next_from (ie_tmx env) (in_tmx ing) src (iw_http w) = Some (x, src1, h)"
    using step.hyps by (auto split: option.splits)
  note run = step.hyps [unfolded n option.case prod.case]
  show ?case
  proof (cases x)
    case (Inl e)
    with run step.prems show ?thesis by auto
  next
    case (Inr found)
    show ?thesis
    proof (cases found)
      case None
      with run Inr step.prems show ?thesis by auto
    next
      case (Some summary)
      show ?thesis
      proof (cases "case in_max_maps ing of None \<Rightarrow> False | Some m \<Rightarrow> m \<le> is_maps_seen s")
        case True
        with run Inr Some step.prems show ?thesis by auto
      next
        case False
        then obtain r s1 w1 where o: "ingest_one env ing summary s (w\<lparr>iw_http := h\<rparr>) = Some (r, s1, w1)"
          using run Inr Some by (auto split: option.splits)
        have room: "case in_max_maps ing of None \<Rightarrow> True | Some m \<Rightarrow> is_maps_seen s < m" using False by (auto split: option.splits)
        have "run_inv env ing w0 True s (w\<lparr>iw_http := h\<rparr>)" using step.prems by simp
        note inv = ingest_one_inv [OF this room o]
        have rest: "(case r of Inl e \<Rightarrow> Some (Inl e, s1, w1) | Inr _ \<Rightarrow> loop env ing src1 s1 w1) = Some y"
          using run Inr Some False o by (cases r) simp_all
        show ?thesis
        proof (cases r)
          case (Inl e)
          with rest inv show ?thesis by auto
        next
          case (Inr u)
          with rest have "loop env ing src1 s1 w1 = Some y" by simp
          moreover have "run_inv env ing w0 True s1 w1" using inv Inr by simp
          ultimately show ?thesis by (rule step.IH)
        qed
      qed
    qed
  qed
qed

text \<open>
  C13. An ingestion run on a connection without an open transaction, however it ends and whatever network, database and
  server do (statements and commits that fail, roll the transaction back or lose their reply): no committed row
  is lost and each keeps its key and identifier, natural keys and identifiers stay unique, every artifact a committed
  row records is in the directory under a path made of its hash, and the statistics add up: seen maps are the
  inserted, the updated and the failed ones; every inserted map is a committed row, and the committed table
  grew by the inserted ones and at most one row per failed upsert (a failed upsert can be committed by a later
  one), so by exactly the inserted ones when no upsert failed; with downloads a run that ends normally has settled one
  download per stored map, and no more maps than the limit are seen.
\<close>

theorem ingest_run_consistent:
  assumes "ingest_wf (ie_sha256 env) (in_base ing) w" and "db_tables (iw_db w) = db_stored (iw_db w)"
    and "ingest_maps env ing src w = Some (r, s, w')"
  shows "ingest_wf (ie_sha256 env) (in_base ing) w' \<and> ingest_ext w w' \<and>
    is_maps_seen s = is_maps_inserted s + is_maps_updated s + is_summary_failures s \<and>
    length (tb_maps (db_stored (iw_db w))) + is_maps_inserted s \<le> length (tb_maps (db_stored (iw_db w'))) \<and>
    length (tb_maps (db_stored (iw_db w'))) \<le> length (tb_maps (db_stored (iw_db w))) + is_maps_inserted s + is_summary_failures s \<and>
    (r = Inr () \<and> in_download ing \<longrightarrow> is_artifacts_downloaded s + is_artifacts_failed s = is_maps_inserted s + is_maps_updated s) \<and>
    (\<forall>m. in_max_maps ing = Some m \<longrightarrow> is_maps_seen s \<le> m)"
proof -
  have "run_inv env ing w True stats_init w"
    using assms(1,2) by (auto simp: run_inv_def stats_init_def Let_def split: option.split)
  from ingest_loop_inv [OF assms(3) [unfolded ingest_maps_def] this]
  obtain fetched where inv: "run_inv env ing w fetched s w'" and f: "r = Inr () \<longrightarrow> fetched" by auto
  then have "db_wf (ie_sha256 env) (in_base ing) (iw_files w') (iw_db w')" by (simp add: run_inv_def ingest_wf_def)
  from db_wf_lengths [OF this] show ?thesis using inv f by (auto simp: run_inv_def Let_def)
qed

text \<open>
  There is no rollback: when the query for the identifier fails, the inserted row stays in the open transaction
  and the commit of the next map stores it. The run counts the map as failed, and its artifact is not downloaded.
\<close>

lemma failed_upsert_is_stored:
  assumes reply: "\<And>k. ie_db_reply env k = (if k = Suc n then Failing else Answered)" and ids: "ts_tmx_id a \<noteq> ts_tmx_id b"
    and start: "db_tables db = db_stored db" "tb_maps (db_stored db) = []" "db_statements db = n"
  shows "case upsert_map env a snapshot p c db of (r, db1) \<Rightarrow> r = Inl DatabaseError \<and> tb_maps (db_stored db1) = [] \<and>
    (case upsert_map env b snapshot p c db1 of (r', db2) \<Rightarrow> (\<exists>i. r' = Inr (i, True)) \<and>
       map mr_source_map_id (tb_maps (db_stored db2)) = [ts_tmx_id a, ts_tmx_id b])"
  using ids start by (simp add: reply upsert_map_def and_then_def statement_def commit_def insert_map_def Let_def map_key_def)

subsection \<open>Replays of the maps\<close>

definition replay_inv :: "ingest_env \<Rightarrow> replay_ingestor \<Rightarrow> ingest_world \<Rightarrow> bool \<Rightarrow> replay_stats \<Rightarrow> ingest_world \<Rightarrow> bool" where
  "replay_inv env ing w0 fetched s w \<longleftrightarrow>
     ingest_wf (ie_sha256 env) (pi_base ing) w \<and> ingest_ext w0 w \<and>
     tb_maps (db_tables (iw_db w)) = tb_maps (db_stored (iw_db w0)) \<and> tb_maps (db_stored (iw_db w)) = tb_maps (db_stored (iw_db w0)) \<and>
     ps_replays_inserted s + ps_replays_updated s \<le> ps_replays_seen s \<and>
     length (tb_replays (db_stored (iw_db w0))) + ps_replays_inserted s \<le> length (tb_replays (db_stored (iw_db w))) \<and>
     length (tb_replays (db_tables (iw_db w))) + ps_replays_updated s \<le> length (tb_replays (db_stored (iw_db w0))) + ps_replays_seen s \<and>
     (let settled = ps_artifacts_downloaded s + ps_artifacts_failed s; stored = (if pi_download ing then ps_replays_inserted s + ps_replays_updated s else 0)
      in if fetched then settled = stored else settled + 1 = stored)"

lemma replay_inv_http [simp]: "replay_inv env ing w0 b s (w\<lparr>iw_http := h\<rparr>) = replay_inv env ing w0 b s w"
  by (simp add: replay_inv_def ingest_wf_def ingest_ext_def)

lemma replay_inv_stats:
  assumes "replay_inv env ing w0 b s w"
  shows "replay_inv env ing w0 b (s\<lparr>ps_errors := es\<rparr>) w" "replay_inv env ing w0 b (s\<lparr>ps_maps_seen := n\<rparr>) w"
    "replay_inv env ing w0 b (s\<lparr>ps_maps_with_no_replays := n\<rparr>) w"
  using assms by (auto simp: replay_inv_def Let_def split: if_splits)

text \<open>The run of a download: settled, or left by an exception.\<close>

lemma fetch_and_store_replay_inv:
  assumes inv: "replay_inv env ing w0 False s w" and dl: "pi_download ing"
    and run: "fetch_and_store_replay env ing source_id i s w = Some (r, s', w')"
  shows "replay_inv env ing w0 (r = Inr ()) s' w'"
proof -
  obtain x h where d: "download_replay_artifact (ie_tmx env) (pi_tmx ing) source_id (iw_http w) = Some (x, h)"
    using run by (auto simp: fetch_and_store_replay_def split: option.splits)
  note run' = run [unfolded fetch_and_store_replay_def d option.case prod.case]
  have noted: "replay_inv env ing w0 True (note_replay_failure e s) (w\<lparr>iw_http := h\<rparr>)" for e
    using inv dl by (simp add: replay_inv_def note_replay_failure_def Let_def ingest_wf_def ingest_ext_def)
  have left: "replay_inv env ing w0 False s (w\<lparr>iw_http := h\<rparr>)" using inv by simp
  show ?thesis
  proof (cases x)
    case (Inl e)
    with run' noted left show ?thesis by (cases e) auto
  next
    case (Inr resp)
    show ?thesis
    proof (cases "ht_status resp = 200")
      case False
      with run' Inr noted show ?thesis by auto
    next
      case True
      obtain t files where t: "artifact_write (ie_sha256 env) (pi_base ing) (ht_content resp) (iw_files w) = (t, files)" by fastforce
      have fwf: "files_wf (ie_sha256 env) (pi_base ing) (iw_files w)" and dwf: "db_wf (ie_sha256 env) (pi_base ing) (iw_files w) (iw_db w)"
        using inv by (simp_all add: replay_inv_def ingest_wf_def)
      note f = artifact_write_wf [OF fwf t]
      then have f1: "files_wf (ie_sha256 env) (pi_base ing) files" "iw_files w \<subseteq>\<^sub>m files" by blast+
      have dwf': "db_wf (ie_sha256 env) (pi_base ing) files (iw_db w)" by (rule db_wf_mono [OF dwf f1(2)])
      have ext: "ingest_ext w0 w" using inv by (simp add: replay_inv_def)
      show ?thesis
      proof (cases t)
        case (Inl e)
        have "ingest_ext w0 (w\<lparr>iw_http := h, iw_files := files\<rparr>)"
          by (rule ingest_ext_trans [OF ext]) (simp add: ingest_ext_def f1)
        with run' Inr True t Inl f1 dwf' inv show ?thesis by (auto simp: replay_inv_def ingest_wf_def)
      next
        case t2: (Inr q)
        obtain digest dest where q: "q = (digest, dest)" by fastforce
        with f t2 have ref: "artifact_ref (ie_sha256 env) (pi_base ing) files (Some digest) (Some dest)" by (auto simp: artifact_ref_def)
        obtain u db where u: "record_replay_artifact env i digest dest (iw_db w) = (u, db)" by fastforce
        have same: "tb_maps (db_tables (iw_db w)) = tb_maps (db_stored (iw_db w))" using inv by (simp add: replay_inv_def)
        have rec: "db_wf (ie_sha256 env) (pi_base ing) files db" "tables_kept (db_stored (iw_db w)) (db_stored db)"
          "tb_maps (db_tables db) = tb_maps (db_stored (iw_db w))" "tb_maps (db_stored db) = tb_maps (db_stored (iw_db w))"
          "length (tb_replays (db_tables db)) \<le> length (tb_replays (db_tables (iw_db w)))"
          using record_replay_artifact_ok [OF dwf' ref u] same by blast+
        have grow: "length (tb_replays (db_stored (iw_db w))) \<le> length (tb_replays (db_stored db))"
          using rec(2) rows_kept_length by (auto simp: tables_kept_def)
        let ?w = "w\<lparr>iw_http := h, iw_files := files, iw_db := db\<rparr>"
        have "ingest_ext w0 ?w" by (rule ingest_ext_trans [OF ext]) (simp add: ingest_ext_def f1 rec)
        then have base: "ingest_wf (ie_sha256 env) (pi_base ing) ?w" "ingest_ext w0 ?w"
          using f1 rec by (simp_all add: ingest_wf_def)
        show ?thesis
        proof (cases u)
          case (Inl e)
          with run' Inr True t t2 q u have "r = Inl e" "s' = s" "w' = ?w" by auto
          with base rec grow inv show ?thesis by (simp add: replay_inv_def)
        next
          case (Inr v)
          with run' \<open>x = Inr resp\<close> True t t2 q u have "r = Inr ()" "s' = s\<lparr>ps_artifacts_downloaded := ps_artifacts_downloaded s + 1\<rparr>" "w' = ?w" by auto
          with base rec grow inv dl show ?thesis by (simp add: replay_inv_def Let_def)
        qed
      qed
    qed
  qed
qed

lemma ingest_replays_of_inv:
  "ingest_replays_of env ing map_id found s w = Some (r, s', w') \<Longrightarrow> replay_inv env ing w0 True s w \<Longrightarrow>
     replay_inv env ing w0 True s' w' \<or> (r \<noteq> Inr () \<and> replay_inv env ing w0 False s' w')"
proof (induction found arbitrary: s w)
  case (Cons summary rest)
  let ?s = "s\<lparr>ps_replays_seen := ps_replays_seen s + 1\<rparr>"
  obtain x db where u: "upsert_replay env summary map_id (pi_snapshot_id ing) (pi_created_by ing) (iw_db w) = (x, db)" by fastforce
  have wf: "files_wf (ie_sha256 env) (pi_base ing) (iw_files w)" "db_wf (ie_sha256 env) (pi_base ing) (iw_files w) (iw_db w)"
    and ext: "ingest_ext w0 w"
    using Cons.prems(2) by (simp_all add: replay_inv_def ingest_wf_def)
  have same: "tb_maps (db_tables (iw_db w)) = tb_maps (db_stored (iw_db w))" using Cons.prems(2) by (simp add: replay_inv_def)
  have up: "db_wf (ie_sha256 env) (pi_base ing) (iw_files w) db" "tables_kept (db_stored (iw_db w)) (db_stored db)"
    "tb_maps (db_tables db) = tb_maps (db_stored (iw_db w))" "tb_maps (db_stored db) = tb_maps (db_stored (iw_db w))"
    "case x of
       Inl _ \<Rightarrow> length (tb_replays (db_tables db)) \<le> length (tb_replays (db_tables (iw_db w))) + 1
     | Inr (_, new) \<Rightarrow> db_stored db = db_tables db \<and>
         length (tb_replays (db_tables db)) = length (tb_replays (db_tables (iw_db w))) + (if new then 1 else 0)"
    using upsert_replay_ok [OF wf(2) u] same by blast+
  have grow: "length (tb_replays (db_stored (iw_db w))) \<le> length (tb_replays (db_stored db))"
    "length (tb_replays (db_stored (iw_db w))) \<le> length (tb_replays (db_tables (iw_db w)))"
    using up(2) rows_kept_length db_wf_lengths [OF wf(2)] by (auto simp: tables_kept_def)
  let ?w = "w\<lparr>iw_db := db\<rparr>"
  have "ingest_ext w0 ?w" by (rule ingest_ext_trans [OF ext]) (simp add: ingest_ext_def up)
  then have base: "ingest_wf (ie_sha256 env) (pi_base ing) ?w" "ingest_ext w0 ?w"
    using wf(1) up by (simp_all add: ingest_wf_def)
  show ?case
  proof (cases x)
    case (Inl e)
    let ?s1 = "?s\<lparr>ps_errors := ps_errors s @ [UpsertFailed (rs_replay_id summary)]\<rparr>"
    have "ingest_replays_of env ing map_id rest ?s1 ?w = Some (r, s', w')" using Cons.prems(1) u Inl by (simp add: Let_def)
    moreover have "replay_inv env ing w0 True ?s1 ?w"
      using Cons.prems(2) base up(3-5) grow Inl by (simp add: replay_inv_def Let_def)
    ultimately show ?thesis by (rule Cons.IH)
  next
    case (Inr q)
    obtain i ins where q: "q = (i, ins)" by fastforce
    define s1 where "s1 = (if ins then ?s\<lparr>ps_replays_inserted := ps_replays_inserted s + 1\<rparr> else ?s\<lparr>ps_replays_updated := ps_replays_updated s + 1\<rparr>)"
    have inv1: "replay_inv env ing w0 (\<not> pi_download ing) s1 ?w"
      using Cons.prems(2) base up(3-5) grow Inr q by (cases ins) (auto simp: replay_inv_def Let_def s1_def)
    show ?thesis
    proof (cases "pi_download ing")
      case False
      have "ingest_replays_of env ing map_id rest s1 ?w = Some (r, s', w')"
        using Cons.prems(1) u Inr q False by (cases ins) (simp_all add: Let_def s1_def)
      then show ?thesis by (rule Cons.IH) (use inv1 False in simp)
    next
      case True
      then obtain t s2 w2 where f: "fetch_and_store_replay env ing (rs_replay_id summary) i s1 ?w = Some (t, s2, w2)"
        using Cons.prems(1) u Inr q by (cases ins) (auto simp: Let_def s1_def split: option.splits)
      have inv2: "replay_inv env ing w0 (t = Inr ()) s2 w2"
        by (rule fetch_and_store_replay_inv [OF _ True f]) (use inv1 True in simp)
      have rest: "(case t of Inl e \<Rightarrow> Some (Inl e, s2, w2) | Inr _ \<Rightarrow> ingest_replays_of env ing map_id rest s2 w2) = Some (r, s', w')"
        using Cons.prems(1) u Inr q True f by (cases ins; cases t) (auto simp: Let_def s1_def)
      show ?thesis
      proof (cases t)
        case (Inl e)
        with rest inv2 show ?thesis by auto
      next
        case (Inr v)
        with rest have "ingest_replays_of env ing map_id rest s2 w2 = Some (r, s', w')" by simp
        then show ?thesis by (rule Cons.IH) (use inv2 Inr in simp)
      qed
    qed
  qed
qed simp

lemma process_map_inv:
  assumes run: "process_map env ing i source s w = Some (r, s', w')" and inv: "replay_inv env ing w0 True s w"
  shows "replay_inv env ing w0 True s' w' \<or> (r \<noteq> Inr () \<and> replay_inv env ing w0 False s' w')"
proof -
  obtain x h where l: "replays_for_map (ie_tmx env) (pi_tmx ing) source (pi_per_map ing) (iw_http w) = Some (x, h)"
    using run by (auto simp: process_map_def split: option.splits)
  note run' = run [unfolded process_map_def l option.case prod.case]
  have inv': "replay_inv env ing w0 True s (w\<lparr>iw_http := h\<rparr>)" using inv by simp
  show ?thesis
  proof (cases x)
    case (Inl e)
    with run' inv' replay_inv_stats [OF inv'] show ?thesis by (cases e) auto
  next
    case (Inr found)
    show ?thesis
    proof (cases "found = []")
      case True
      with run' Inr replay_inv_stats [OF inv'] show ?thesis by auto
    next
      case False
      with run' Inr have "ingest_replays_of env ing i (case pi_per_map ing of None \<Rightarrow> found | Some n \<Rightarrow> slice_to n found) s (w\<lparr>iw_http := h\<rparr>) = Some (r, s', w')"
        by simp
      from ingest_replays_of_inv [OF this inv'] show ?thesis .
    qed
  qed
qed

text \<open>
  A replay run on a connection without an open transaction, however it ends and whatever network, database and server do:
  the committed maps are untouched, no committed replay row is lost, keys and identifiers stay unique, every
  recorded artifact is in the directory under its hash, every inserted replay is a committed row and the table grew by at
  most one row per replay seen and not updated, and on a run that ends normally with downloads one download per
  stored replay is settled.
\<close>

theorem replay_run_consistent:
  assumes "ingest_wf (ie_sha256 env) (pi_base ing) w" and "db_tables (iw_db w) = db_stored (iw_db w)"
    and "ingest_replays env ing refs replay_stats_init w = Some (r, s, w')"
  shows "ingest_wf (ie_sha256 env) (pi_base ing) w' \<and> ingest_ext w w' \<and>
    tb_maps (db_stored (iw_db w')) = tb_maps (db_stored (iw_db w)) \<and>
    ps_replays_inserted s + ps_replays_updated s \<le> ps_replays_seen s \<and>
    length (tb_replays (db_stored (iw_db w))) + ps_replays_inserted s \<le> length (tb_replays (db_stored (iw_db w'))) \<and>
    length (tb_replays (db_stored (iw_db w'))) + ps_replays_updated s \<le> length (tb_replays (db_stored (iw_db w))) + ps_replays_seen s \<and>
    (r = Inr () \<and> pi_download ing \<longrightarrow> ps_artifacts_downloaded s + ps_artifacts_failed s = ps_replays_inserted s + ps_replays_updated s)"
proof -
  have "ingest_replays env ing refs s w1 = Some (r, s', w2) \<Longrightarrow> replay_inv env ing w True s w1 \<Longrightarrow>
     replay_inv env ing w True s' w2 \<or> (r \<noteq> Inr () \<and> replay_inv env ing w False s' w2)" for s s' w1 w2
  proof (induction refs arbitrary: s w1)
    case (Cons ref refs)
    obtain i source where ref: "ref = (i, source)" by fastforce
    let ?s = "s\<lparr>ps_maps_seen := ps_maps_seen s + 1\<rparr>"
    obtain t s1 w3 where p: "process_map env ing i source ?s w1 = Some (t, s1, w3)"
      using Cons.prems(1) ref by (auto split: option.splits)
    note inv = process_map_inv [OF p replay_inv_stats(2) [OF Cons.prems(2)]]
    show ?case
    proof (cases t)
      case (Inl e)
      with Cons.prems(1) ref p inv show ?thesis by auto
    next
      case (Inr u)
      with Cons.prems(1) ref p have "ingest_replays env ing refs s1 w3 = Some (r, s', w2)" by simp
      then show ?thesis by (rule Cons.IH) (use inv Inr in simp)
    qed
  qed simp
  moreover have "replay_inv env ing w True replay_stats_init w" using assms(1,2) by (simp add: replay_inv_def replay_stats_init_def)
  ultimately have "replay_inv env ing w True s w' \<or> r \<noteq> Inr () \<and> replay_inv env ing w False s w'" using assms(3) by blast
  then obtain fetched where inv: "replay_inv env ing w fetched s w'" and f: "r = Inr () \<longrightarrow> fetched" by auto
  then have "db_wf (ie_sha256 env) (pi_base ing) (iw_files w') (iw_db w')" by (simp add: replay_inv_def ingest_wf_def)
  from db_wf_lengths [OF this] show ?thesis using inv f by (auto simp: replay_inv_def Let_def)
qed

subsection \<open>Runs return\<close>

lemma get_json_total:
  assumes "client_ok (te_http env) (tc_http cfg) w"
  obtains r w' where "get_json env cfg path ps use_cache w = Some (r, w')" "client_ok (te_http env) (tc_http cfg) w'"
proof -
  obtain r h where "http_get (te_http env) (tc_http cfg) path ps use_cache w = Some (r, h)" "client_ok (te_http env) (tc_http cfg) h"
    by (rule http_get_total [OF assms])
  then have "\<exists>x. get_json env cfg path ps use_cache w = Some (x, h)" by (cases r) (simp_all add: get_json_def)
  with \<open>client_ok (te_http env) (tc_http cfg) h\<close> that show thesis by blast
qed

lemma get_json_object_total:
  assumes "client_ok (te_http env) (tc_http cfg) w"
  obtains r w' where "get_json_object env cfg path ps use_cache w = Some (r, w')" "client_ok (te_http env) (tc_http cfg) w'"
proof -
  obtain r h where g: "get_json env cfg path ps use_cache w = Some (r, h)" "client_ok (te_http env) (tc_http cfg) h"
    by (rule get_json_total [OF assms])
  then have "\<exists>x. get_json_object env cfg path ps use_cache w = Some (x, h)"
    by (auto simp: get_json_object_def split: sum.split json.split)
  with g(2) that show thesis by blast
qed

lemma next_summary_total:
  assumes "client_ok (te_http env) (tc_http cfg) w"
  obtains r it' w' where "next_summary env cfg it w = Some (r, it', w')" "client_ok (te_http env) (tc_http cfg) w'"
proof -
  obtain x v where g: "get_json_object env cfg (endpoint cfg ''list_maps'') (listing_params cfg it) True w = Some (x, v)"
    "client_ok (te_http env) (tc_http cfg) v" by (rule get_json_object_total [OF assms])
  have "\<exists>r it' w'. next_summary env cfg it w = Some (r, it', w') \<and> (w' = w \<or> w' = v)"
  proof (cases "ml_finished it")
    case True
    then show ?thesis by (simp add: next_summary_def)
  next
    case open_it: False
    show ?thesis
    proof (cases "scan_entries (te_repr env) (ml_pending it)")
      case None
      with open_it g(1) show ?thesis
        by (cases x) (auto simp: next_summary_def Let_def split: json.split list.split option.split)
    next
      case (Some q)
      with open_it show ?thesis by (auto simp: next_summary_def split: prod.split)
    qed
  qed
  with assms g(2) that show thesis by blast
qed

lemma download_total:
  assumes "client_ok (te_http env) (tc_http cfg) w"
  shows "\<exists>r w'. download_map_artifact env cfg i w = Some (r, w') \<and> client_ok (te_http env) (tc_http cfg) w'"
    and "\<exists>r w'. download_replay_artifact env cfg i w = Some (r, w') \<and> client_ok (te_http env) (tc_http cfg) w'"
    and "\<exists>r w'. replays_for_map env cfg i amount w = Some (r, w') \<and> client_ok (te_http env) (tc_http cfg) w'"
proof -
  show "\<exists>r w'. download_map_artifact env cfg i w = Some (r, w') \<and> client_ok (te_http env) (tc_http cfg) w'"
    unfolding download_map_artifact_def by (rule http_get_total [OF assms]) blast
  show "\<exists>r w'. download_replay_artifact env cfg i w = Some (r, w') \<and> client_ok (te_http env) (tc_http cfg) w'"
    unfolding download_replay_artifact_def by (rule http_get_total [OF assms]) blast
  show "\<exists>r w'. replays_for_map env cfg i amount w = Some (r, w') \<and> client_ok (te_http env) (tc_http cfg) w'"
    unfolding replays_for_map_def by (rule get_json_object_total [OF assms]) fastforce
qed

abbreviation map_client_ok :: "ingest_env \<Rightarrow> ingestor \<Rightarrow> ingest_world \<Rightarrow> bool" where
  "map_client_ok env ing w \<equiv> client_ok (te_http (ie_tmx env)) (tc_http (in_tmx ing)) (iw_http w)"

abbreviation replay_client_ok :: "ingest_env \<Rightarrow> replay_ingestor \<Rightarrow> ingest_world \<Rightarrow> bool" where
  "replay_client_ok env ing w \<equiv> client_ok (te_http (ie_tmx env)) (tc_http (pi_tmx ing)) (iw_http w)"

lemma fetch_and_store_total:
  assumes "map_client_ok env ing w"
  shows "\<exists>r s' w'. fetch_and_store env ing i j s w = Some (r, s', w') \<and> map_client_ok env ing w' \<and> is_maps_seen s' = is_maps_seen s"
proof -
  obtain x h where d: "download_map_artifact (ie_tmx env) (in_tmx ing) i (iw_http w) = Some (x, h)"
    "client_ok (te_http (ie_tmx env)) (tc_http (in_tmx ing)) h" using download_total(1) [OF assms] by blast
  show ?thesis
    using d by (cases x) (auto simp: fetch_and_store_def note_failure_def split: ingest_exn.split sum.split prod.split)
qed

lemma ingest_one_total:
  assumes "map_client_ok env ing w"
  shows "\<exists>r s' w'. ingest_one env ing summary s w = Some (r, s', w') \<and> map_client_ok env ing w' \<and> is_maps_seen s' = is_maps_seen s + 1"
proof -
  obtain x db where u: "upsert_map env summary (in_snapshot_id ing) (in_parser_version ing) (in_created_by ing) (iw_db w) = (x, db)"
    by fastforce
  have f: "\<exists>r s' w'. fetch_and_store env ing (ts_tmx_id summary) i s (w\<lparr>iw_db := db\<rparr>) = Some (r, s', w') \<and> map_client_ok env ing w' \<and> is_maps_seen s' = is_maps_seen s" for i s
    by (rule fetch_and_store_total) (use assms in simp)
  show ?thesis
  proof (cases x)
    case (Inl e)
    with u assms show ?thesis by (simp add: ingest_one_def Let_def)
  next
    case (Inr q)
    obtain i ins where q: "q = (i, ins)" by fastforce
    define s1 where "s1 = (let s = s\<lparr>is_maps_seen := is_maps_seen s + 1\<rparr> in
      if ins then s\<lparr>is_maps_inserted := is_maps_inserted s + 1\<rparr> else s\<lparr>is_maps_updated := is_maps_updated s + 1\<rparr>)"
    have "ingest_one env ing summary s w =
        (if in_download ing then fetch_and_store env ing (ts_tmx_id summary) i s1 (w\<lparr>iw_db := db\<rparr>) else Some (Inr (), s1, w\<lparr>iw_db := db\<rparr>))"
      using u Inr q by (cases ins) (simp_all add: ingest_one_def Let_def s1_def)
    moreover have "is_maps_seen s1 = is_maps_seen s + 1" by (simp add: s1_def Let_def)
    ultimately show ?thesis using f [of i s1] assms by auto
  qed
qed

lemma ingest_loop_total:
  assumes "in_max_maps ing = Some m"
  shows "map_client_ok env ing w \<Longrightarrow> \<exists>y. ingest_loop env ing (Listing it) s w = Some y"
proof (induction "Suc m - is_maps_seen s" arbitrary: it s w rule: less_induct)
  case less
  obtain x it' h where n: "next_summary (ie_tmx env) (in_tmx ing) it (iw_http w) = Some (x, it', h)"
    "client_ok (te_http (ie_tmx env)) (tc_http (in_tmx ing)) h" by (rule next_summary_total [OF less.prems])
  show ?case
  proof (cases "\<exists>summary. x = Inr (Some summary) \<and> is_maps_seen s < m")
    case True
    then obtain summary where x: "x = Inr (Some summary)" "is_maps_seen s < m" by blast
    have ok: "map_client_ok env ing (w\<lparr>iw_http := h\<rparr>)" using n(2) by simp
    obtain r s1 w1 where o: "ingest_one env ing summary s (w\<lparr>iw_http := h\<rparr>) = Some (r, s1, w1)"
      "map_client_ok env ing w1" "is_maps_seen s1 = is_maps_seen s + 1"
      using ingest_one_total [OF ok, of summary s] by blast
    have "Suc m - is_maps_seen s1 < Suc m - is_maps_seen s" using x(2) o(3) by simp
    from less.hyps [OF this o(2)] obtain y where "ingest_loop env ing (Listing it') s1 w1 = Some y" by blast
    with n x o show ?thesis
      by (subst ingest_loop.simps) (auto simp: assms split: sum.split)
  next
    case False
    with n show ?thesis
      by (subst ingest_loop.simps) (cases x; auto simp: assms split: option.split)
  qed
qed

lemma ingest_replays_of_total:
  "replay_client_ok env ing w \<Longrightarrow> \<exists>r s' w'. ingest_replays_of env ing i found s w = Some (r, s', w') \<and> replay_client_ok env ing w'"
proof (induction found arbitrary: s w)
  case (Cons summary rest)
  obtain x db where u: "upsert_replay env summary i (pi_snapshot_id ing) (pi_created_by ing) (iw_db w) = (x, db)" by fastforce
  have ok: "replay_client_ok env ing (w\<lparr>iw_db := db\<rparr>)" using Cons.prems by simp
  have f: "\<exists>r s' w'. fetch_and_store_replay env ing (rs_replay_id summary) j s (w\<lparr>iw_db := db\<rparr>) = Some (r, s', w') \<and> replay_client_ok env ing w'" for j s
  proof -
    obtain y h where d: "download_replay_artifact (ie_tmx env) (pi_tmx ing) (rs_replay_id summary) (iw_http w) = Some (y, h)"
      "client_ok (te_http (ie_tmx env)) (tc_http (pi_tmx ing)) h" using download_total(2) [OF Cons.prems] by blast
    then show ?thesis
      by (cases y) (auto simp: fetch_and_store_replay_def split: ingest_exn.split sum.split prod.split)
  qed
  show ?case
  proof (cases x)
    case (Inl e)
    with u Cons.IH [OF ok] show ?thesis by (simp add: Let_def)
  next
    case (Inr q)
    obtain j ins where q: "q = (j, ins)" by fastforce
    let ?s = "s\<lparr>ps_replays_seen := ps_replays_seen s + 1\<rparr>"
    define s1 where "s1 = (if ins then ?s\<lparr>ps_replays_inserted := ps_replays_inserted s + 1\<rparr> else ?s\<lparr>ps_replays_updated := ps_replays_updated s + 1\<rparr>)"
    obtain r s2 w2 where f1: "fetch_and_store_replay env ing (rs_replay_id summary) j s1 (w\<lparr>iw_db := db\<rparr>) = Some (r, s2, w2)" "replay_client_ok env ing w2"
      using f by blast
    have eq: "ingest_replays_of env ing i (summary # rest) s w =
      (if pi_download ing then (case r of Inl e \<Rightarrow> Some (Inl e, s2, w2) | Inr _ \<Rightarrow> ingest_replays_of env ing i rest s2 w2)
       else ingest_replays_of env ing i rest s1 (w\<lparr>iw_db := db\<rparr>))"
      using u Inr q f1(1) by (cases ins; cases r) (simp_all add: Let_def s1_def)
    show ?thesis
      using eq Cons.IH [OF ok, of s1] Cons.IH [OF f1(2), of s2] f1(2) by (cases r) auto
  qed
qed simp

lemma process_map_total:
  assumes "replay_client_ok env ing w"
  shows "\<exists>r s' w'. process_map env ing i source s w = Some (r, s', w') \<and> replay_client_ok env ing w'"
proof -
  obtain x h where l: "replays_for_map (ie_tmx env) (pi_tmx ing) source (pi_per_map ing) (iw_http w) = Some (x, h)"
    "client_ok (te_http (ie_tmx env)) (tc_http (pi_tmx ing)) h" using download_total(3) [OF assms] by blast
  have "\<exists>r s' w'. ingest_replays_of env ing i found s (w\<lparr>iw_http := h\<rparr>) = Some (r, s', w') \<and> replay_client_ok env ing w'" for found
    by (rule ingest_replays_of_total) (use l(2) in simp)
  with l show ?thesis by (cases x) (auto simp: process_map_def split: ingest_exn.split)
qed

lemma ingest_replays_total:
  "replay_client_ok env ring w \<Longrightarrow> \<exists>y. ingest_replays env ring refs stats w = Some y"
proof (induction refs arbitrary: stats w)
  case (Cons ref refs)
  obtain i source where ref: "ref = (i, source)" by fastforce
  obtain r s1 w1 where "process_map env ring i source (stats\<lparr>ps_maps_seen := ps_maps_seen stats + 1\<rparr>) w = Some (r, s1, w1)"
    "replay_client_ok env ring w1" using process_map_total [OF Cons.prems] by blast
  with Cons.IH [of w1 s1] ref show ?case by (cases r) auto
qed simp

text \<open>
  C26. Ingestion returns: with a client whose bucket holds at least one token, whose clock does not run
  backwards and whose back-off is not negative, a run over the map listing with a limit and every replay
  run come back, whatever the server answers (also when it always announces another page).
\<close>

theorem ingestion_returns:
  assumes "client_ok (te_http (ie_tmx env)) (tc_http cfg) (iw_http w)"
  shows "(in_tmx ing = cfg \<and> in_max_maps ing = Some m \<longrightarrow> (\<exists>y. ingest_maps env ing (Listing it) w = Some y)) \<and>
    (pi_tmx ring = cfg \<longrightarrow> (\<exists>y. ingest_replays env ring refs stats w = Some y))"
proof (intro conjI impI)
  assume "in_tmx ing = cfg \<and> in_max_maps ing = Some m"
  with ingest_loop_total [of ing m env w it stats_init] assms show "\<exists>y. ingest_maps env ing (Listing it) w = Some y"
    by (simp add: ingest_maps_def)
next
  assume "pi_tmx ring = cfg"
  with ingest_replays_total [of env ring w] assms show "\<exists>y. ingest_replays env ring refs stats w = Some y" by simp
qed

subsection \<open>One map and one replay\<close>

definition demo_ingest_env :: ingest_env where
  "demo_ingest_env = \<lparr>ie_tmx = \<lparr>te_http = demo_http_env,
       te_decode = (\<lambda>b. Some (JObj [(''Results'', JArr [JObj [(''MapId'', JInt 7), (''ReplayID'', JInt 3), (''TrackID'', JInt 7)]])])),
       te_repr = (\<lambda>j. [])\<rparr>,
     ie_db_reply = (\<lambda>n. if n = 4 then Failing else Answered), ie_sha256 = (\<lambda>data. replicate 64 (CHR ''a''))\<rparr>"

definition demo_tmx :: tmx_config where
  "demo_tmx = tmx_client_init demo_http_cfg None None 100"

definition demo_ingestor :: ingestor where
  "demo_ingestor = \<lparr>in_tmx = demo_tmx, in_base = ''raw'', in_snapshot_id = ''s1'', in_parser_version = ''p1'',
     in_created_by = ''c1'', in_max_maps = Some 1, in_download = True\<rparr>"

definition demo_replay_ingestor :: replay_ingestor where
  "demo_replay_ingestor = \<lparr>pi_tmx = demo_tmx, pi_base = ''raw'', pi_snapshot_id = ''s1'', pi_created_by = ''c1'',
     pi_per_map = None, pi_download = True\<rparr>"

definition demo_ingest_world :: ingest_world where
  "demo_ingest_world = \<lparr>iw_http = demo_http_world,
     iw_db = \<lparr>db_tables = \<lparr>tb_snapshots = [], tb_stage_runs = [], tb_maps = [], tb_replays = []\<rparr>,
       db_stored = \<lparr>tb_snapshots = [], tb_stage_runs = [], tb_maps = [], tb_replays = []\<rparr>,
       db_next_run = 1, db_next_map = 1, db_next_replay = 1, db_statements = 0\<rparr>,
     iw_files = Map.empty\<rparr>"

lemma demo_ingest_wf: "ingest_wf (ie_sha256 demo_ingest_env) ''raw'' demo_ingest_world"
  by (simp add: ingest_wf_def db_wf_def tables_ok_def demo_ingest_world_def files_wf_def rows_ok_def)

lemma demo_ingest_settled: "db_tables (iw_db demo_ingest_world) = db_stored (iw_db demo_ingest_world)"
  by (simp add: demo_ingest_world_def)

lemma demo_ingest_client:
  "client_ok (te_http (ie_tmx demo_ingest_env)) (tc_http demo_tmx) (iw_http demo_ingest_world)"
  using demo_client_ok by (simp add: demo_ingest_env_def demo_tmx_def tmx_client_init_def demo_ingest_world_def)

theorem ingest_run_consistent_witness:
  "\<exists>r s w'. ingest_maps demo_ingest_env demo_ingestor (Listing (list_maps None None)) demo_ingest_world = Some (r, s, w') \<and>
    ingest_wf (ie_sha256 demo_ingest_env) ''raw'' w' \<and> is_maps_seen s \<le> 1"
proof -
  have "map_client_ok demo_ingest_env demo_ingestor demo_ingest_world" using demo_ingest_client by (simp add: demo_ingestor_def)
  then obtain r s w' where "ingest_loop demo_ingest_env demo_ingestor (Listing (list_maps None None)) stats_init demo_ingest_world = Some (r, s, w')"
    using ingest_loop_total [of demo_ingestor 1] by (fastforce simp: demo_ingestor_def)
  then have run: "ingest_maps demo_ingest_env demo_ingestor (Listing (list_maps None None)) demo_ingest_world = Some (r, s, w')"
    by (simp add: ingest_maps_def)
  have "ingest_wf (ie_sha256 demo_ingest_env) (in_base demo_ingestor) demo_ingest_world"
    using demo_ingest_wf by (simp add: demo_ingestor_def)
  from ingest_run_consistent [OF this demo_ingest_settled run] run show ?thesis by (auto simp: demo_ingestor_def)
qed

theorem replay_run_consistent_witness:
  "\<exists>r s w'. ingest_replays demo_ingest_env demo_replay_ingestor [(1, ''7'')] replay_stats_init demo_ingest_world = Some (r, s, w') \<and>
    ingest_wf (ie_sha256 demo_ingest_env) ''raw'' w' \<and> ps_replays_inserted s + ps_replays_updated s \<le> ps_replays_seen s"
proof -
  have "replay_client_ok demo_ingest_env demo_replay_ingestor demo_ingest_world"
    using demo_ingest_client by (simp add: demo_replay_ingestor_def)
  then obtain r s w' where run: "ingest_replays demo_ingest_env demo_replay_ingestor [(1, ''7'')] replay_stats_init demo_ingest_world = Some (r, s, w')"
    using ingest_replays_total by fastforce
  have "ingest_wf (ie_sha256 demo_ingest_env) (pi_base demo_replay_ingestor) demo_ingest_world"
    using demo_ingest_wf by (simp add: demo_replay_ingestor_def)
  from replay_run_consistent [OF this demo_ingest_settled run] run show ?thesis by (auto simp: demo_replay_ingestor_def)
qed

theorem ingestion_returns_witness:
  "(\<exists>y. ingest_maps demo_ingest_env demo_ingestor (Listing (list_maps None (Some 1))) demo_ingest_world = Some y) \<and>
   (\<exists>y. ingest_replays demo_ingest_env demo_replay_ingestor [(1, ''7'')] replay_stats_init demo_ingest_world = Some y)"
  using ingestion_returns [OF demo_ingest_client, of demo_ingestor 1 "list_maps None (Some 1)" demo_replay_ingestor "[(1, ''7'')]" replay_stats_init]
  by (simp add: demo_ingestor_def demo_replay_ingestor_def)

end
