(* ===== verification/Preemit.thy ===== *)
theory Preemit
  imports Jump_Validator
begin

section \<open>Pre-emission validation\<close>

text \<open>
  Model of \<^verbatim>\<open>src/src/generation/preemit.py\<close> and \<^verbatim>\<open>src/src/generation/replay_cells.py\<close>: both validators run over
  one block list, their findings are merged and counted, and each corridor gets a score. A row's
  \<open>block_family\<close> and a wrapper's \<open>family\<close> are both \<open>mb_family\<close>. Normalisation builds new dictionaries, so
  the identity of a normalised block is its position. Scores are finite doubles; the additions and
  products of the penalty are those of the parameter \<open>F\<close>. Messages are structured values; log lines are
  left out.
\<close>

subsection \<open>Findings of both validators\<close>

datatype preemit_code = GeomCode finding_code | CODE_JUMP
datatype preemit_detail = GeomDetail detail | JumpDetail jump_class

record preemit_finding =
  pf_severity :: severity
  pf_code :: preemit_code
  pf_detail :: preemit_detail
  pf_cell :: "cell option"
  pf_block :: "block_ref option"

definition of_geom :: "finding \<Rightarrow> preemit_finding" where
  "of_geom f = \<lparr>pf_severity = fd_severity f, pf_code = GeomCode (fd_code f), pf_detail = GeomDetail (fd_detail f),
     pf_cell = fd_cell f, pf_block = fd_block f\<rparr>"

definition of_jump :: "severity \<times> jump_class \<times> cell \<Rightarrow> preemit_finding" where
  "of_jump j = (case j of (severity, cls, c) \<Rightarrow>
     \<lparr>pf_severity = severity, pf_code = CODE_JUMP, pf_detail = JumpDetail cls, pf_cell = Some c, pf_block = None\<rparr>)"

record corridor_validation_score =
  vs_corridor_id :: int
  vs_interval_index :: int
  vs_path_length :: nat
  vs_partial_multicell_hits :: nat
  vs_missing_support_hits :: nat
  vs_route_gap_hits :: nat
  vs_jump_likely_broken :: nat
  vs_jump_uncertain :: nat
  vs_jump_geometrically_plausible :: nat
  vs_jump_supported_by_replay :: nat
  vs_validation_score :: rat

record preemit_summary =
  su_version :: string
  su_fail_count :: nat
  su_warn_count :: nat
  su_info_count :: nat
  su_code_counts :: "(preemit_code \<times> nat) list"
  su_jump_class_counts :: "(jump_class \<times> nat) list"
  su_top_findings :: "preemit_finding list"
  su_blocks_total :: nat
  su_grid_blocks_total :: nat
  su_route_cells_total :: nat
  su_per_corridor_scores :: "corridor_validation_score list"

definition PREEMIT_VERSION :: string where "PREEMIT_VERSION = ''preemit-v0''"
definition TOP_N :: nat where "TOP_N = 20"

subsection \<open>Normalisation\<close>

definition int_get :: "pyval option \<Rightarrow> py_error + int" where
  "int_get v = (case v of None \<Rightarrow> Inr 0 | Some p \<Rightarrow> py_int p)"

definition normalize_block :: "nat \<Rightarrow> map_block \<Rightarrow> py_error + map_block" where
  "normalize_block uid b =
     (case int_get (mb_x b) of Inl e \<Rightarrow> Inl e | Inr x \<Rightarrow>
     (case int_get (mb_y b) of Inl e \<Rightarrow> Inl e | Inr y \<Rightarrow>
     (case int_get (mb_z b) of Inl e \<Rightarrow> Inl e | Inr z \<Rightarrow>
     (case int_get (mb_rotation b) of Inl e \<Rightarrow> Inl e | Inr rotation \<Rightarrow>
        Inr \<lparr>mb_uid = uid, mb_placement = Some ''grid'', mb_x = Some (PyInt x), mb_y = Some (PyInt y), mb_z = Some (PyInt z),
          mb_family = Some (str_or_empty (mb_family b)), mb_name = Some (str_or_empty (mb_name b)),
          mb_rotation = Some (PyInt rotation)\<rparr>))))"

fun normalize_from :: "nat \<Rightarrow> map_block list \<Rightarrow> py_error + map_block list" where
  "normalize_from n [] = Inr []"
| "normalize_from n (b # bs) =
     (case normalize_block n b of
        Inl e \<Rightarrow> Inl e
      | Inr b' \<Rightarrow> (case normalize_from (Suc n) bs of Inl e \<Rightarrow> Inl e | Inr bs' \<Rightarrow> Inr (b' # bs')))"

definition normalize_blocks :: "map_block list \<Rightarrow> py_error + map_block list" where
  "normalize_blocks = normalize_from 0"

subsection \<open>The score of a corridor\<close>

definition W_PARTIAL_MULTICELL :: rat where "W_PARTIAL_MULTICELL = 8 / 100"
definition W_MISSING_SUPPORT :: rat where "W_MISSING_SUPPORT = 4 / 100"
definition W_ROUTE_GAP :: rat where "W_ROUTE_GAP = 5 / 100"
definition W_JUMP_LIKELY_BROKEN :: rat where "W_JUMP_LIKELY_BROKEN = 30 / 100"
definition W_JUMP_UNCERTAIN :: rat where "W_JUMP_UNCERTAIN = 8 / 100"
definition NEAR_RADIUS :: int where "NEAR_RADIUS = 3"

definition weigh :: "rat fops \<Rightarrow> rat \<Rightarrow> nat \<Rightarrow> rat" where
  "weigh F w n = f_mul F (f_lit F w) (f_lit F (of_nat n))"

text \<open>A subtraction is the addition of the negated number.\<close>

definition corridor_score :: "rat fops \<Rightarrow> nat \<Rightarrow> nat \<Rightarrow> nat \<Rightarrow> nat \<Rightarrow> nat \<Rightarrow> rat" where
  "corridor_score F partial_hits missing_hits gap_hits broken uncertain =
     (let penalty = f_add F (f_add F (f_add F (f_add F (weigh F W_PARTIAL_MULTICELL partial_hits)
              (weigh F W_MISSING_SUPPORT missing_hits)) (weigh F W_ROUTE_GAP gap_hits))
            (weigh F W_JUMP_LIKELY_BROKEN broken)) (weigh F W_JUMP_UNCERTAIN uncertain)
      in max 0 (min 1 (f_add F 1 (- penalty))))"

definition near :: "cell list \<Rightarrow> cell option \<Rightarrow> bool" where
  "near path_cells finding_cell =
     (case finding_cell of None \<Rightarrow> False | Some c \<Rightarrow> \<exists>pc \<in> set path_cells. chebyshev c pc \<le> NEAR_RADIUS)"

definition score_corridor :: "rat fops \<Rightarrow> int \<Rightarrow> int \<Rightarrow> cell list \<Rightarrow> map_block list \<Rightarrow> geometry_lookup \<Rightarrow> cell set option
    \<Rightarrow> int \<Rightarrow> int \<Rightarrow> jump_cone option \<Rightarrow> py_error + corridor_validation_score option" where
  "score_corridor F corridor_id interval_index path_cells blocks geo replay ground_y max_step cone =
     (if path_cells = [] then Inr None
      else case validate_map_geometry blocks geo (Some path_cells) None ground_y max_step of
          Inl e \<Rightarrow> Inl e
        | Inr rpt \<Rightarrow>
            let partial_hits = length (filter (\<lambda>f. fd_severity f = SEVERITY_FAIL \<and> near path_cells (fd_cell f))
                  (by_code rpt CODE_PARTIAL_MULTICELL));
                missing_hits = length (by_code rpt CODE_MISSING_SUPPORT);
                gap_hits = length (by_code rpt CODE_ROUTE_GAP);
                jrpt = validate_jumps blocks geo path_cells replay cone 2;
                hits = (\<lambda>cls. if 2 \<le> length path_cells then length (by_class jrpt cls) else 0);
                broken = hits CLASS_LIKELY_BROKEN; uncertain = hits CLASS_UNCERTAIN
            in Inr (Some \<lparr>vs_corridor_id = corridor_id, vs_interval_index = interval_index,
                 vs_path_length = length path_cells, vs_partial_multicell_hits = partial_hits,
                 vs_missing_support_hits = missing_hits, vs_route_gap_hits = gap_hits,
                 vs_jump_likely_broken = broken, vs_jump_uncertain = uncertain,
                 vs_jump_geometrically_plausible = hits CLASS_GEOMETRICALLY_PLAUSIBLE,
                 vs_jump_supported_by_replay = hits CLASS_SUPPORTED_BY_REPLAY,
                 vs_validation_score = corridor_score F partial_hits missing_hits gap_hits broken uncertain\<rparr>))"

fun score_per_corridor :: "rat fops \<Rightarrow> (int \<times> int \<times> cell list) list \<Rightarrow> map_block list \<Rightarrow> geometry_lookup \<Rightarrow> cell set option
    \<Rightarrow> int \<Rightarrow> int \<Rightarrow> jump_cone option \<Rightarrow> py_error + corridor_validation_score list" where
  "score_per_corridor F [] blocks geo replay ground_y max_step cone = Inr []"
| "score_per_corridor F ((i, idx, path) # rest) blocks geo replay ground_y max_step cone =
     (case score_corridor F i idx path blocks geo replay ground_y max_step cone of
        Inl e \<Rightarrow> Inl e
      | Inr cs \<Rightarrow>
          (case score_per_corridor F rest blocks geo replay ground_y max_step cone of
             Inl e \<Rightarrow> Inl e
           | Inr out \<Rightarrow> Inr ((case cs of None \<Rightarrow> [] | Some s \<Rightarrow> [s]) @ out)))"

subsection \<open>The summary\<close>

definition with_severity :: "severity \<Rightarrow> preemit_finding list \<Rightarrow> preemit_finding list" where
  "with_severity s fs = filter (\<lambda>f. pf_severity f = s) fs"

definition top_findings :: "preemit_finding list \<Rightarrow> preemit_finding list" where
  "top_findings fs = take TOP_N (with_severity SEVERITY_FAIL fs @ with_severity SEVERITY_WARN fs @ with_severity SEVERITY_INFO fs)"

definition count_code :: "preemit_finding \<Rightarrow> (preemit_code \<times> nat) list \<Rightarrow> (preemit_code \<times> nat) list" where
  "count_code f counts =
     AList.update (pf_code f) ((case map_of counts (pf_code f) of None \<Rightarrow> 0 | Some n \<Rightarrow> n) + 1) counts"

definition jump_classes :: "jump_class list" where
  "jump_classes = [CLASS_SUPPORTED_BY_REPLAY, CLASS_GEOMETRICALLY_PLAUSIBLE, CLASS_UNCERTAIN, CLASS_LIKELY_BROKEN]"

definition run_preemit_validation :: "rat fops \<Rightarrow> map_block list \<Rightarrow> geometry_lookup \<Rightarrow> cell list option \<Rightarrow> cell option
    \<Rightarrow> cell set option \<Rightarrow> int \<Rightarrow> int \<Rightarrow> jump_cone option \<Rightarrow> (int \<times> int \<times> cell list) list option
    \<Rightarrow> py_error + preemit_summary" where
  "run_preemit_validation F blocks geo route_cells spawn_cell replay ground_y max_step cone corridor_paths =
     (case normalize_blocks blocks of
        Inl e \<Rightarrow> Inl e
      | Inr normalised \<Rightarrow>
          (let route_list = get_or route_cells [] in
           case validate_map_geometry normalised geo (Some route_list) spawn_cell ground_y max_step of
             Inl e \<Rightarrow> Inl e
           | Inr geom_report \<Rightarrow>
               let jump_report = (if route_list \<noteq> [] then Some (validate_jumps normalised geo route_list replay cone 2) else None);
                   all_findings = map of_geom (vr_findings geom_report) @
                     (case jump_report of None \<Rightarrow> [] | Some r \<Rightarrow> map of_jump (jump_findings r))
               in (case (case corridor_paths of None \<Rightarrow> Inr []
                      | Some ps \<Rightarrow> score_per_corridor F ps normalised geo replay ground_y max_step cone) of
                     Inl e \<Rightarrow> Inl e
                   | Inr scores \<Rightarrow>
                       Inr \<lparr>su_version = PREEMIT_VERSION,
                         su_fail_count = length (with_severity SEVERITY_FAIL all_findings),
                         su_warn_count = length (with_severity SEVERITY_WARN all_findings),
                         su_info_count = length (with_severity SEVERITY_INFO all_findings),
                         su_code_counts = fold count_code all_findings [],
                         su_jump_class_counts = (case jump_report of None \<Rightarrow> []
                           | Some r \<Rightarrow> map (\<lambda>cls. (cls, length (by_class r cls))) jump_classes),
                         su_top_findings = top_findings all_findings,
                         su_blocks_total = vr_blocks_total geom_report,
                         su_grid_blocks_total = vr_grid_blocks_total geom_report,
                         su_route_cells_total = vr_route_cells_total geom_report,
                         su_per_corridor_scores = scores\<rparr>)))"

subsection \<open>Serialisation\<close>

definition severity_text :: "severity \<Rightarrow> string" where
  "severity_text s = (case s of SEVERITY_INFO \<Rightarrow> ''info'' | SEVERITY_WARN \<Rightarrow> ''warn'' | SEVERITY_FAIL \<Rightarrow> ''fail'')"

definition code_text :: "preemit_code \<Rightarrow> string" where
  "code_text c = (case c of
       CODE_JUMP \<Rightarrow> ''jump''
     | GeomCode CODE_PARTIAL_MULTICELL \<Rightarrow> ''partial_multicell''
     | GeomCode CODE_ROUTE_GAP \<Rightarrow> ''route_gap''
     | GeomCode CODE_ROUTE_CELL_MISSING_BLOCK \<Rightarrow> ''route_cell_missing_block''
     | GeomCode CODE_MISSING_SUPPORT \<Rightarrow> ''missing_support''
     | GeomCode CODE_SPAWN_INTERSECT \<Rightarrow> ''spawn_intersect''
     | GeomCode CODE_UNKNOWN_BLOCK \<Rightarrow> ''unknown_block'')"

definition class_text :: "jump_class \<Rightarrow> string" where
  "class_text c = (case c of
       CLASS_SUPPORTED_BY_REPLAY \<Rightarrow> ''supported_by_replay''
     | CLASS_GEOMETRICALLY_PLAUSIBLE \<Rightarrow> ''geometrically_plausible''
     | CLASS_UNCERTAIN \<Rightarrow> ''uncertain''
     | CLASS_LIKELY_BROKEN \<Rightarrow> ''likely_broken'')"

definition cell_json :: "cell \<Rightarrow> json" where
  "cell_json c = (case c of (x, y, z) \<Rightarrow> JArr [JInt x, JInt y, JInt z])"

definition finding_json :: "(preemit_detail \<Rightarrow> string) \<Rightarrow> preemit_finding \<Rightarrow> json" where
  "finding_json text f = JObj
     [(''severity'', JStr (severity_text (pf_severity f))), (''code'', JStr (code_text (pf_code f))),
      (''detail'', JStr (text (pf_detail f))),
      (''cell'', case pf_cell f of None \<Rightarrow> JNull | Some c \<Rightarrow> cell_json c),
      (''block'', case pf_block f of None \<Rightarrow> JNull | Some b \<Rightarrow> JObj
         [(''family'', JStr (br_family b)), (''name'', JStr (br_name b)), (''cell'', cell_json (br_cell b))])]"

definition score_json :: "corridor_validation_score \<Rightarrow> json" where
  "score_json s = JObj
     [(''corridor_id'', JInt (vs_corridor_id s)), (''interval_index'', JInt (vs_interval_index s)),
      (''path_length'', JInt (int (vs_path_length s))), (''partial_multicell_hits'', JInt (int (vs_partial_multicell_hits s))),
      (''missing_support_hits'', JInt (int (vs_missing_support_hits s))), (''route_gap_hits'', JInt (int (vs_route_gap_hits s))),
      (''jump_likely_broken'', JInt (int (vs_jump_likely_broken s))), (''jump_uncertain'', JInt (int (vs_jump_uncertain s))),
      (''jump_geometrically_plausible'', JInt (int (vs_jump_geometrically_plausible s))),
      (''jump_supported_by_replay'', JInt (int (vs_jump_supported_by_replay s))), (''validation_score'', JFloat (vs_validation_score s))]"

definition summary_dict :: "(preemit_detail \<Rightarrow> string) \<Rightarrow> preemit_summary \<Rightarrow> json" where
  "summary_dict text s = JObj
     [(''version'', JStr (su_version s)), (''fail_count'', JInt (int (su_fail_count s))), (''warn_count'', JInt (int (su_warn_count s))),
      (''info_count'', JInt (int (su_info_count s))),
      (''code_counts'', JObj (map (\<lambda>(c, n). (code_text c, JInt (int n))) (su_code_counts s))),
      (''jump_class_counts'', JObj (map (\<lambda>(c, n). (class_text c, JInt (int n))) (su_jump_class_counts s))),
      (''top_findings'', JArr (map (finding_json text) (su_top_findings s))),
      (''blocks_total'', JInt (int (su_blocks_total s))), (''grid_blocks_total'', JInt (int (su_grid_blocks_total s))),
      (''route_cells_total'', JInt (int (su_route_cells_total s))),
      (''per_corridor_scores'', JArr (map score_json (su_per_corridor_scores s)))]"

subsection \<open>Normalised blocks\<close>

lemma normalize_block_ints:
  assumes "normalize_block uid b = Inr b'"
  shows "\<exists>x y z r. int_get (mb_x b) = Inr x \<and> int_get (mb_y b) = Inr y \<and> int_get (mb_z b) = Inr z \<and> int_get (mb_rotation b) = Inr r"
proof (cases "int_get (mb_x b)")
  case x: (Inr x)
  show ?thesis
  proof (cases "int_get (mb_y b)")
    case y: (Inr y)
    show ?thesis
    proof (cases "int_get (mb_z b)")
      case z: (Inr z)
      show ?thesis using assms x y z by (cases "int_get (mb_rotation b)") (simp_all add: normalize_block_def)
    qed (use assms x y in \<open>simp add: normalize_block_def\<close>)
  qed (use assms x in \<open>simp add: normalize_block_def\<close>)
qed (use assms in \<open>simp add: normalize_block_def\<close>)

lemma normalize_block_fields:
  assumes "normalize_block uid b = Inr b'"
  shows "is_grid b'" and "block_cell b' = (case (int_get (mb_x b), int_get (mb_y b), int_get (mb_z b)) of
      (Inr x, Inr y, Inr z) \<Rightarrow> Some (x, y, z) | _ \<Rightarrow> None)"
    and "\<exists>rot. block_rotation b' = Inr rot" and "mb_uid b' = uid"
    and "str_or_empty (mb_family b') = str_or_empty (mb_family b)" and "str_or_empty (mb_name b') = str_or_empty (mb_name b)"
proof -
  from assms obtain x y z r where i: "int_get (mb_x b) = Inr x" "int_get (mb_y b) = Inr y" "int_get (mb_z b) = Inr z"
    "int_get (mb_rotation b) = Inr r"
    using normalize_block_ints by blast
  with assms have b': "b' = \<lparr>mb_uid = uid, mb_placement = Some ''grid'', mb_x = Some (PyInt x), mb_y = Some (PyInt y),
      mb_z = Some (PyInt z), mb_family = Some (str_or_empty (mb_family b)), mb_name = Some (str_or_empty (mb_name b)),
      mb_rotation = Some (PyInt r)\<rparr>" by (simp add: normalize_block_def)
  show "is_grid b'" "mb_uid b' = uid" "str_or_empty (mb_family b') = str_or_empty (mb_family b)"
    "str_or_empty (mb_name b') = str_or_empty (mb_name b)"
    by (simp_all add: b' is_grid_def str_or_empty_def get_or_def)
  show "block_cell b' = (case (int_get (mb_x b), int_get (mb_y b), int_get (mb_z b)) of
      (Inr x, Inr y, Inr z) \<Rightarrow> Some (x, y, z) | _ \<Rightarrow> None)"
    by (simp add: i b' block_cell_def is_grid_def xyz_cell_def coord_def)
  show "\<exists>rot. block_rotation b' = Inr rot" by (simp add: b' block_rotation_def)
qed

lemma normalize_from_all:
  "normalize_from n bs = Inr ns \<Longrightarrow> list_all2 (\<lambda>b b'. \<exists>uid. normalize_block uid b = Inr b') bs ns"
  by (induction bs arbitrary: n ns) (auto split: sum.splits)

lemma normalized_validates:
  assumes "normalize_blocks bs = Inr ns"
  shows "\<exists>report. validate_map_geometry ns geo route spawn ground_y max_step = Inr report"
proof -
  have rot: "\<exists>rot. block_rotation b' = Inr rot" if "b' \<in> set ns" for b'
  proof -
    from that obtain i where i: "i < length ns" "b' = ns ! i" by (auto simp: in_set_conv_nth)
    with normalize_from_all [OF assms [unfolded normalize_blocks_def]] obtain uid where "normalize_block uid (bs ! i) = Inr b'"
      by (auto simp: list_all2_conv_all_nth)
    then show ?thesis by (rule normalize_block_fields(3))
  qed
  show ?thesis
    unfolding validation_ok_iff
  proof (intro notI, elim bexE exE conjE)
    fix b' e assume "b' \<in> set ns" "block_rotation b' = Inl e"
    with rot [of b'] show False by auto
  qed
qed

lemma normalize_total:
  "(\<And>b. b \<in> set bs \<Longrightarrow> \<exists>x y z r. int_get (mb_x b) = Inr x \<and> int_get (mb_y b) = Inr y \<and> int_get (mb_z b) = Inr z \<and>
      int_get (mb_rotation b) = Inr r) \<Longrightarrow> \<exists>ns. normalize_from n bs = Inr ns"
proof (induction bs arbitrary: n)
  case (Cons b bs)
  obtain x y z r where "int_get (mb_x b) = Inr x" "int_get (mb_y b) = Inr y" "int_get (mb_z b) = Inr z"
    "int_get (mb_rotation b) = Inr r" using Cons.prems [of b] by auto
  moreover obtain ns where "normalize_from (Suc n) bs = Inr ns" using Cons by fastforce
  ultimately show ?case by (simp add: normalize_block_def)
qed simp

subsection \<open>Scores\<close>

lemma corridor_score_bounds: "0 \<le> corridor_score F a b c d e \<and> corridor_score F a b c d e \<le> 1"
  by (simp add: corridor_score_def Let_def)

lemma score_corridor_bounds:
  "score_corridor F i idx path ns geo replay ground_y max_step cone = Inr (Some s) \<Longrightarrow>
     path \<noteq> [] \<and> vs_corridor_id s = i \<and> vs_interval_index s = idx \<and> vs_path_length s = length path \<and>
     0 \<le> vs_validation_score s \<and> vs_validation_score s \<le> 1"
  using corridor_score_bounds by (auto simp: score_corridor_def Let_def split: if_splits sum.splits)

lemma score_corridor_None:
  "score_corridor F i idx path ns geo replay ground_y max_step cone = Inr None \<longleftrightarrow> path = []"
  by (auto simp: score_corridor_def Let_def split: sum.splits)

lemma score_per_corridor_spec:
  "score_per_corridor F paths ns geo replay ground_y max_step cone = Inr out \<Longrightarrow>
     map (\<lambda>s. (vs_corridor_id s, vs_interval_index s, vs_path_length s)) out =
       map (\<lambda>(i, idx, path). (i, idx, length path)) (filter (\<lambda>(i, idx, path). path \<noteq> []) paths) \<and>
     (\<forall>s \<in> set out. 0 \<le> vs_validation_score s \<and> vs_validation_score s \<le> 1)"
proof (induction paths arbitrary: out)
  case (Cons p paths)
  obtain i idx path where p: "p = (i, idx, path)" by (cases p)
  obtain cs rest where cs: "score_corridor F i idx path ns geo replay ground_y max_step cone = Inr cs"
    and rest: "score_per_corridor F paths ns geo replay ground_y max_step cone = Inr rest"
    and out: "out = (case cs of None \<Rightarrow> [] | Some s \<Rightarrow> [s]) @ rest"
    using Cons.prems by (auto simp: p split: sum.splits)
  show ?case
  proof (cases cs)
    case None
    with cs have "path = []" by (simp add: score_corridor_None)
    with Cons.IH [OF rest] None out p show ?thesis by simp
  next
    case (Some s)
    from score_corridor_bounds [OF cs [unfolded Some]] Cons.IH [OF rest] Some out p show ?thesis by simp
  qed
qed simp

text \<open>On normalised blocks nothing raises.\<close>

lemma score_corridor_normalised:
  assumes "normalize_blocks bs = Inr ns"
  shows "\<exists>cs. score_corridor F i idx path ns geo replay ground_y max_step cone = Inr cs"
proof -
  obtain report where "validate_map_geometry ns geo (Some path) None ground_y max_step = Inr report"
    using normalized_validates [OF assms] by blast
  then show ?thesis by (simp add: score_corridor_def Let_def)
qed

lemma score_per_corridor_total:
  assumes "normalize_blocks bs = Inr ns"
  shows "\<exists>out. score_per_corridor F paths ns geo replay ground_y max_step cone = Inr out"
proof (induction paths)
  case (Cons p paths)
  obtain i idx path where p: "p = (i, idx, path)" by (cases p)
  obtain cs where "score_corridor F i idx path ns geo replay ground_y max_step cone = Inr cs"
    using score_corridor_normalised [OF assms] by blast
  with Cons p show ?case by auto
qed simp

lemma preemit_total:
  assumes "\<exists>ns. normalize_blocks bs = Inr ns"
  shows "\<exists>su. run_preemit_validation F bs geo route spawn replay ground_y max_step cone paths = Inr su"
proof -
  obtain ns where ns: "normalize_blocks bs = Inr ns" using assms by blast
  obtain report where r: "validate_map_geometry ns geo (Some (get_or route [])) spawn ground_y max_step = Inr report"
    using normalized_validates [OF ns] by blast
  have "\<exists>scores. (case paths of None \<Rightarrow> Inr [] | Some ps \<Rightarrow> score_per_corridor F ps ns geo replay ground_y max_step cone) = Inr scores"
    using score_per_corridor_total [OF ns] by (cases paths) auto
  then show ?thesis by (auto simp: run_preemit_validation_def ns r Let_def)
qed

subsection \<open>Counts\<close>

lemma count_code_lookup:
  "(case map_of (fold count_code fs []) c of None \<Rightarrow> 0 | Some n \<Rightarrow> n) = length (filter (\<lambda>f. pf_code f = c) fs)"
proof (induction fs rule: rev_induct)
  case (snoc f fs)
  then show ?case by (auto simp: count_code_def update_conv')
qed simp

lemma severity_partition:
  "length (with_severity SEVERITY_FAIL fs) + length (with_severity SEVERITY_WARN fs) + length (with_severity SEVERITY_INFO fs) = length fs"
proof (induction fs)
  case (Cons f fs)
  then show ?case by (cases "pf_severity f") (simp_all add: with_severity_def)
qed (simp add: with_severity_def)

lemma takeWhile_take_front:
  "\<forall>x \<in> set xs. P x \<Longrightarrow> \<forall>y \<in> set ys. \<not> P y \<Longrightarrow> takeWhile P (take n (xs @ ys)) = take n xs"
proof (induction xs arbitrary: n)
  case Nil
  then show ?case by (cases ys; cases n) simp_all
next
  case (Cons x xs)
  then show ?case by (cases n) simp_all
qed

lemma top_findings_fail:
  "length (takeWhile (\<lambda>f. pf_severity f = SEVERITY_FAIL) (top_findings fs)) = min TOP_N (length (with_severity SEVERITY_FAIL fs))"
  unfolding top_findings_def
  by (subst takeWhile_take_front) (auto simp: with_severity_def)

subsection \<open>What the summary says\<close>

lemma jump_findings_fail:
  "(\<exists>f \<in> set (map of_jump (jump_findings r)). pf_severity f = SEVERITY_FAIL) \<longleftrightarrow>
     (\<exists>k \<in> set (jr_classifications r). jk_class k = CLASS_LIKELY_BROKEN)"
proof -
  have "class_to_severity c = SEVERITY_FAIL \<longleftrightarrow> c = CLASS_LIKELY_BROKEN" for c by (cases c) simp_all
  then show ?thesis by (simp add: jump_findings_def of_jump_def)
qed

lemma geom_findings_fail:
  "(\<exists>f \<in> set (map of_geom fs). pf_severity f = SEVERITY_FAIL) \<longleftrightarrow> (\<exists>f \<in> set fs. fd_severity f = SEVERITY_FAIL)"
  by (simp add: of_geom_def)

lemma no_fail: "length (with_severity s fs) = 0 \<longleftrightarrow> \<not> (\<exists>f \<in> set fs. pf_severity f = s)"
  by (auto simp: with_severity_def filter_empty_conv)

lemma class_partition:
  "sum_list (map (\<lambda>cls. length (filter (\<lambda>k. jk_class k = cls) ks)) jump_classes) = length ks"
proof (induction ks)
  case (Cons k ks)
  then show ?case by (cases "jk_class k") (simp_all add: jump_classes_def)
qed (simp add: jump_classes_def)

lemma run_preemit_parts:
  assumes "run_preemit_validation F blocks geo (Some route) spawn replay ground_y max_step cone paths = Inr su" and "route \<noteq> []"
  obtains ns report where "normalize_blocks blocks = Inr ns"
    "validate_map_geometry ns geo (Some route) spawn ground_y max_step = Inr report"
    "su_fail_count su = length (with_severity SEVERITY_FAIL (map of_geom (vr_findings report) @
       map of_jump (jump_findings (validate_jumps ns geo route replay cone 2))))"
    "su_fail_count su + su_warn_count su + su_info_count su = length (vr_findings report) +
       length (jr_classifications (validate_jumps ns geo route replay cone 2))"
    "su_code_counts su = fold count_code (map of_geom (vr_findings report) @
       map of_jump (jump_findings (validate_jumps ns geo route replay cone 2))) []"
    "su_jump_class_counts su = map (\<lambda>cls. (cls, length (by_class (validate_jumps ns geo route replay cone 2) cls))) jump_classes"
    "su_top_findings su = top_findings (map of_geom (vr_findings report) @
       map of_jump (jump_findings (validate_jumps ns geo route replay cone 2)))"
    "(case paths of None \<Rightarrow> su_per_corridor_scores su = [] | Some ps \<Rightarrow>
       score_per_corridor F ps ns geo replay ground_y max_step cone = Inr (su_per_corridor_scores su))"
proof -
  obtain ns where ns: "normalize_blocks blocks = Inr ns"
    using assms by (cases "normalize_blocks blocks") (simp_all add: run_preemit_validation_def)
  obtain report where r: "validate_map_geometry ns geo (Some route) spawn ground_y max_step = Inr report"
    using normalized_validates [OF ns] by blast
  let ?all = "map of_geom (vr_findings report) @ map of_jump (jump_findings (validate_jumps ns geo route replay cone 2))"
  define sc where "sc = (case paths of None \<Rightarrow> Inr [] | Some ps \<Rightarrow> score_per_corridor F ps ns geo replay ground_y max_step cone)"
  obtain scores where scores: "sc = Inr scores"
    using assms by (cases sc) (simp_all add: run_preemit_validation_def ns r Let_def get_or_def sc_def [symmetric])
  have su: "su = \<lparr>su_version = PREEMIT_VERSION,
      su_fail_count = length (with_severity SEVERITY_FAIL ?all), su_warn_count = length (with_severity SEVERITY_WARN ?all),
      su_info_count = length (with_severity SEVERITY_INFO ?all), su_code_counts = fold count_code ?all [],
      su_jump_class_counts = map (\<lambda>cls. (cls, length (by_class (validate_jumps ns geo route replay cone 2) cls))) jump_classes,
      su_top_findings = top_findings ?all, su_blocks_total = vr_blocks_total report,
      su_grid_blocks_total = vr_grid_blocks_total report, su_route_cells_total = vr_route_cells_total report,
      su_per_corridor_scores = scores\<rparr>"
    using assms scores by (simp add: run_preemit_validation_def ns r Let_def get_or_def sc_def [symmetric])
  have sum: "su_fail_count su + su_warn_count su + su_info_count su = length ?all"
    using severity_partition [of ?all] by (simp add: su)
  show thesis
    by (rule that [OF ns r]) (use sum scores in \<open>simp_all add: su jump_findings_def sc_def split: option.splits\<close>)
qed

text \<open>
  C23. The summary of a run over a route: there is no failure exactly when the geometry report has none and
  no step of the route is a broken jump (a take-off from a ramp or loop that no replay drove and whose
  cone holds no landing surface); the counts per code are those of the geometry report and of the jumps;
  the severities partition the findings; the listed findings start with the failures, up to the cap; and
  the corridors with a path are scored in order, between 0 and 1.
\<close>

theorem preemit_summary_exact:
  assumes "run_preemit_validation F blocks geo (Some route) spawn replay ground_y max_step cone (Some paths) = Inr su"
    and "route \<noteq> []"
  shows "\<exists>ns report. normalize_blocks blocks = Inr ns \<and>
    validate_map_geometry ns geo (Some route) spawn ground_y max_step = Inr report \<and>
    (su_fail_count su = 0 \<longleftrightarrow> \<not> has_failures report \<and>
      \<not> (\<exists>(a, b) \<in> set (steps_of route). broken_jump ns geo (get_or cone default_cone) replay a b)) \<and>
    (\<forall>code. get_or (map_of (su_code_counts su) (GeomCode code)) 0 = length (by_code report code)) \<and>
    su_fail_count su + su_warn_count su + su_info_count su =
      length (vr_findings report) + sum_list (map snd (su_jump_class_counts su)) \<and>
    length (takeWhile (\<lambda>f. pf_severity f = SEVERITY_FAIL) (su_top_findings su)) = min TOP_N (su_fail_count su) \<and>
    map vs_corridor_id (su_per_corridor_scores su) = map fst (filter (\<lambda>(i, idx, path). path \<noteq> []) paths) \<and>
    (\<forall>s \<in> set (su_per_corridor_scores su). 0 \<le> vs_validation_score s \<and> vs_validation_score s \<le> 1)"
proof -
  obtain ns report where p: "normalize_blocks blocks = Inr ns"
    "validate_map_geometry ns geo (Some route) spawn ground_y max_step = Inr report"
    "su_fail_count su = length (with_severity SEVERITY_FAIL (map of_geom (vr_findings report) @
       map of_jump (jump_findings (validate_jumps ns geo route replay cone 2))))"
    "su_fail_count su + su_warn_count su + su_info_count su = length (vr_findings report) +
       length (jr_classifications (validate_jumps ns geo route replay cone 2))"
    "su_code_counts su = fold count_code (map of_geom (vr_findings report) @
       map of_jump (jump_findings (validate_jumps ns geo route replay cone 2))) []"
    "su_jump_class_counts su = map (\<lambda>cls. (cls, length (by_class (validate_jumps ns geo route replay cone 2) cls))) jump_classes"
    "su_top_findings su = top_findings (map of_geom (vr_findings report) @
       map of_jump (jump_findings (validate_jumps ns geo route replay cone 2)))"
    "score_per_corridor F paths ns geo replay ground_y max_step cone = Inr (su_per_corridor_scores su)"
    by (rule run_preemit_parts [OF assms]) simp
  have fail: "su_fail_count su = 0 \<longleftrightarrow> \<not> has_failures report \<and>
      \<not> (\<exists>(a, b) \<in> set (steps_of route). broken_jump ns geo (get_or cone default_cone) replay a b)"
    unfolding p(3) no_fail set_append bex_Un geom_findings_fail jump_findings_fail broken_steps has_failures_def by blast
  have code: "get_or (map_of (su_code_counts su) (GeomCode code)) 0 = length (by_code report code)" for code
    using count_code_lookup [of "map of_geom (vr_findings report) @
        map of_jump (jump_findings (validate_jumps ns geo route replay cone 2))" "GeomCode code"]
    by (simp add: get_or_def p(5) by_code_def filter_map comp_def of_geom_def of_jump_def jump_findings_def)
  have jumps: "sum_list (map snd (su_jump_class_counts su)) = length (jr_classifications (validate_jumps ns geo route replay cone 2))"
    using class_partition by (simp add: p(6) comp_def by_class_def)
  have ids: "map vs_corridor_id (su_per_corridor_scores su) = map fst (filter (\<lambda>(i, idx, path). path \<noteq> []) paths)"
    using arg_cong [OF conjunct1 [OF score_per_corridor_spec [OF p(8)]], of "map fst"]
    by (simp add: comp_def case_prod_unfold)
  show ?thesis
    using p(1,2,4) fail code jumps ids score_per_corridor_spec [OF p(8)] top_findings_fail [of "map of_geom (vr_findings report) @
        map of_jump (jump_findings (validate_jumps ns geo route replay cone 2))"]
    unfolding p(3) [symmetric] p(7) [symmetric] by (intro exI [of _ ns] exI [of _ report]) simp
qed

theorem preemit_summary_exact_witness:
  "\<exists>su. run_preemit_validation rat_fops demo_jump_blocks demo_jump_geo (Some [(5, 9, 5), (8, 9, 5)]) None None 9 1 None
      (Some [(4, 0, [(5, 9, 5)]), (5, 1, [])]) = Inr su \<and> map vs_corridor_id (su_per_corridor_scores su) = [4]"
proof -
  have "case normalize_blocks demo_jump_blocks of Inl _ \<Rightarrow> False | Inr _ \<Rightarrow> True" by code_simp
  then have "\<exists>ns. normalize_blocks demo_jump_blocks = Inr ns" by (auto split: sum.splits)
  then obtain su where "run_preemit_validation rat_fops demo_jump_blocks demo_jump_geo (Some [(5, 9, 5), (8, 9, 5)]) None None 9 1 None
      (Some [(4, 0, [(5, 9, 5)]), (5, 1, [])]) = Inr su" using preemit_total by blast
  with preemit_summary_exact [OF this] show ?thesis by auto
qed

end
