(* ===== verification/Map_Schema.thy ===== *)
theory Map_Schema
  imports Prelude
begin

section \<open>The schema of generated maps\<close>

text \<open>
  Model of \<^verbatim>\<open>src/src/generation/generated_map.schema.json\<close>, which \<^verbatim>\<open>src/src/generation/schema.py\<close> hands to the
  \<open>jsonschema\<close> library. Each keyword the schema uses is a predicate on decoded JSON, with the standard's
  meaning: numeric and string keywords constrain only values of their type, an integral float is an
  integer, a boolean is no number, \<open>$\<close> in a pattern also matches before a final line feed, and \<open>format\<close> is
  an annotation. Objects have distinct keys.
\<close>

subsection \<open>Keywords\<close>

definition is_integer :: "json \<Rightarrow> bool" where
  "is_integer v = (case v of JInt _ \<Rightarrow> True | JFloat q \<Rightarrow> of_int \<lfloor>q\<rfloor> = q | _ \<Rightarrow> False)"

definition num_value :: "json \<Rightarrow> rat option" where
  "num_value v = (case v of JInt i \<Rightarrow> Some (of_int i) | JFloat q \<Rightarrow> Some q | _ \<Rightarrow> None)"

definition is_number :: "json \<Rightarrow> bool" where "is_number v \<longleftrightarrow> num_value v \<noteq> None"
definition is_string :: "json \<Rightarrow> bool" where "is_string v = (case v of JStr _ \<Rightarrow> True | _ \<Rightarrow> False)"
definition is_boolean :: "json \<Rightarrow> bool" where "is_boolean v = (case v of JBool _ \<Rightarrow> True | _ \<Rightarrow> False)"

definition at_least :: "rat \<Rightarrow> json \<Rightarrow> bool" where
  "at_least lo v = (case num_value v of None \<Rightarrow> True | Some q \<Rightarrow> lo \<le> q)"

definition at_most :: "rat \<Rightarrow> json \<Rightarrow> bool" where
  "at_most hi v = (case num_value v of None \<Rightarrow> True | Some q \<Rightarrow> q \<le> hi)"

definition one_of :: "string list \<Rightarrow> json \<Rightarrow> bool" where
  "one_of names v \<longleftrightarrow> v \<in> JStr ` set names"

definition is_hex :: "char \<Rightarrow> bool" where
  "is_hex c \<longleftrightarrow> is_digit c \<or> (97 \<le> (of_char c :: nat) \<and> (of_char c :: nat) \<le> 102)"

definition hex_string :: "nat \<Rightarrow> string \<Rightarrow> bool" where
  "hex_string n s \<longleftrightarrow> length s = n \<and> list_all is_hex s"

definition hex_pattern :: "nat \<Rightarrow> json \<Rightarrow> bool" where
  "hex_pattern n v = (case v of JStr s \<Rightarrow> hex_string n s \<or> (s \<noteq> [] \<and> List.last s = CHR 0x0A \<and> hex_string n (butlast s)) | _ \<Rightarrow> True)"

definition or_null :: "(json \<Rightarrow> bool) \<Rightarrow> json \<Rightarrow> bool" where
  "or_null p v \<longleftrightarrow> v = JNull \<or> p v"

definition array_of :: "nat \<Rightarrow> (json \<Rightarrow> bool) \<Rightarrow> json \<Rightarrow> bool" where
  "array_of min_items item v = (case v of JArr xs \<Rightarrow> min_items \<le> length xs \<and> list_all item xs | _ \<Rightarrow> False)"

text \<open>\<open>required\<close>, \<open>properties\<close> and \<open>additionalProperties: false\<close>.\<close>

definition object_of :: "string list \<Rightarrow> (string \<times> (json \<Rightarrow> bool)) list \<Rightarrow> json \<Rightarrow> bool" where
  "object_of required props v =
     (case v of
        JObj kvs \<Rightarrow> list_all (\<lambda>k. k \<in> fst ` set kvs) required \<and> list_all (\<lambda>kv. fst kv \<in> fst ` set props) kvs \<and>
          list_all (\<lambda>(k, p). case map_of kvs k of None \<Rightarrow> True | Some x \<Rightarrow> p x) props
      | _ \<Rightarrow> False)"

subsection \<open>The document\<close>

definition nonneg_integer :: "json \<Rightarrow> bool" where "nonneg_integer v \<longleftrightarrow> is_integer v \<and> at_least 0 v"
definition unit_number :: "json \<Rightarrow> bool" where "unit_number v \<longleftrightarrow> is_number v \<and> at_least 0 v \<and> at_most 1 v"
definition nonempty_string :: "json \<Rightarrow> bool" where "nonempty_string v \<longleftrightarrow> is_string v \<and> v \<noteq> JStr []"

definition score_breakdown :: "json \<Rightarrow> bool" where
  "score_breakdown = object_of []
     (map (\<lambda>k. (k, or_null is_number)) [''pair_prior'', ''triple_prior'', ''connector'', ''traversability'', ''sequence'',
        ''diversity_penalty'', ''validation_penalty''])"

definition schema_Block :: "json \<Rightarrow> bool" where
  "schema_Block = object_of [''block_family'', ''block_name'', ''x'', ''y'', ''z'', ''rotation'']
     [(''block_family'', nonempty_string), (''block_name'', nonempty_string), (''x'', is_integer), (''y'', is_integer),
      (''z'', is_integer), (''rotation'', \<lambda>v. nonneg_integer v \<and> at_most 3 v), (''ai_score'', or_null is_number),
      (''ai_score_breakdown'', or_null score_breakdown)]"

definition schema_Checkpoint :: "json \<Rightarrow> bool" where
  "schema_Checkpoint = object_of [''waypoint_index'', ''waypoint_order'', ''tag'', ''x'', ''y'', ''z'']
     [(''waypoint_index'', nonneg_integer), (''waypoint_order'', nonneg_integer),
      (''tag'', one_of [''Spawn'', ''Checkpoint'', ''LinkedCheckpoint'', ''Goal'']), (''x'', is_integer), (''y'', is_integer),
      (''z'', is_integer)]"

definition schema_IntervalEntry :: "json \<Rightarrow> bool" where
  "schema_IntervalEntry = object_of [''index'', ''src_tag'', ''src_order'', ''dst_tag'', ''dst_order'', ''chosen_corridor_id'',
       ''chosen_corridor_score'', ''path_length_cells'', ''expected_time_ms'']
     [(''index'', nonneg_integer), (''src_tag'', one_of [''Spawn'', ''Checkpoint'', ''LinkedCheckpoint'']),
      (''src_order'', nonneg_integer), (''dst_tag'', one_of [''Checkpoint'', ''LinkedCheckpoint'', ''Goal'']),
      (''dst_order'', nonneg_integer), (''chosen_corridor_id'', is_integer), (''chosen_corridor_score'', unit_number),
      (''path_length_cells'', nonneg_integer), (''expected_time_ms'', nonneg_integer)]"

definition schema_CorridorUsed :: "json \<Rightarrow> bool" where
  "schema_CorridorUsed = object_of [''corridor_id'', ''interval_index'', ''learned_corridor_score'', ''contains_virtual_edge'',
       ''path_length_cells'']
     [(''corridor_id'', is_integer), (''interval_index'', nonneg_integer), (''learned_corridor_score'', unit_number),
      (''corridor_confidence'', or_null is_number), (''contains_virtual_edge'', is_boolean),
      (''path_length_cells'', nonneg_integer), (''combined_sequence_score'', or_null unit_number)]"

definition schema_inputs :: "json \<Rightarrow> bool" where
  "schema_inputs = object_of [''random_seed'']
     [(''base_map_id'', or_null is_integer), (''base_map_source_id'', or_null is_string),
      (''style_tag_filter'', or_null (one_of [''Tech'', ''FullSpeed''])), (''difficulty'', one_of [''easy'', ''medium'', ''hard'']),
      (''random_seed'', is_integer), (''strip'', is_boolean)]"

definition schema_provenance :: "json \<Rightarrow> bool" where
  "schema_provenance = object_of [''model_hash'', ''learned_score_version'', ''config_hash'', ''code_version'', ''classification_version'']
     [(''model_hash'', \<lambda>v. is_string v \<and> hex_pattern 64 v), (''learned_score_version'', is_string), (''config_hash'', is_string),
      (''code_version'', is_string), (''classification_version'', is_string)]"

definition schema_map :: "json \<Rightarrow> bool" where
  "schema_map = object_of [''waypoint_order_style'', ''interval_count'', ''blocks'', ''checkpoints'']
     [(''waypoint_order_style'', one_of [''linked'']), (''interval_count'', \<lambda>v. is_integer v \<and> at_least 1 v),
      (''blocks'', array_of 1 schema_Block), (''checkpoints'', array_of 2 schema_Checkpoint), (''stripped'', is_boolean),
      (''strip_policy'', one_of [''none'', ''halo_axis_1'', ''halo_axis_1_plus_anchor_radius_3'',
         ''halo_axis_1_plus_anchor_radius_3_vext_3'', ''halo_xz_cheb_1_vext_3_plus_anchor_radius_3'',
         ''halo_prism_3x7x3_plus_anchor_radius_3'']),
      (''kept_block_count'', nonneg_integer), (''base_block_count'', nonneg_integer), (''ai_generated'', is_boolean),
      (''ai_generator_version'', is_string)]"

definition schema_route :: "json \<Rightarrow> bool" where
  "schema_route = object_of [''intervals'', ''cells_total'', ''corridors_used'']
     [(''intervals'', array_of 0 schema_IntervalEntry), (''cells_total'', nonneg_integer),
      (''corridors_used'', array_of 0 schema_CorridorUsed)]"

definition schema_finishability :: "json \<Rightarrow> bool" where
  "schema_finishability = object_of [''route_verified'', ''estimated_time_ms'', ''ai_confidence'', ''reject_reason'', ''gate_version'']
     [(''route_verified'', is_boolean), (''estimated_time_ms'', or_null nonneg_integer), (''ai_confidence'', or_null unit_number),
      (''reject_reason'', or_null (one_of [''plain_cp_not_supported_v0'', ''missing_corridor_in_interval'', ''chain_broken'',
         ''empty_corridors'', ''confidence_below_floor'', ''unknown_block'', ''invalid_schema'', ''stripped_route_broken'',
         ''beam_exhausted'', ''interval_validation_failed'', ''no_valid_candidates''])),
      (''gate_version'', one_of [''finishability-v0'']), (''detail'', or_null is_string)]"

definition generated_map_schema :: "json \<Rightarrow> bool" where
  "generated_map_schema = object_of
     [''schema_version'', ''run_id'', ''generated_at'', ''inputs'', ''provenance'', ''map'', ''route'', ''finishability'']
     [(''schema_version'', one_of [''generation-v0'', ''generation-v0.1'', ''generation-v0.2'']),
      (''run_id'', \<lambda>v. is_string v \<and> hex_pattern 16 v), (''generated_at'', is_string), (''inputs'', schema_inputs),
      (''provenance'', schema_provenance), (''map'', schema_map), (''route'', schema_route),
      (''finishability'', schema_finishability)]"

subsection \<open>Simplification\<close>

lemma schema_simps [simp]:
  "is_integer (JInt i)" "\<not> is_integer JNull" "is_string (JStr s)" "is_boolean (JBool b)" "is_number (JInt i)" "is_number (JFloat q)"
  "at_least lo (JInt i) \<longleftrightarrow> lo \<le> of_int i" "at_least lo (JFloat q) \<longleftrightarrow> lo \<le> q" "at_most hi (JInt i) \<longleftrightarrow> of_int i \<le> hi"
  "at_most hi (JFloat q) \<longleftrightarrow> q \<le> hi" "or_null p JNull" "or_null p (JInt i) \<longleftrightarrow> p (JInt i)" "or_null p (JFloat q) \<longleftrightarrow> p (JFloat q)"
  "or_null p (JStr s) \<longleftrightarrow> p (JStr s)" "one_of names (JStr s) \<longleftrightarrow> s \<in> set names"
  "nonneg_integer (JInt i) \<longleftrightarrow> 0 \<le> i" "unit_number (JFloat q) \<longleftrightarrow> 0 \<le> q \<and> q \<le> 1" "nonempty_string (JStr s) \<longleftrightarrow> s \<noteq> []"
  "array_of n p (JArr xs) \<longleftrightarrow> n \<le> length xs \<and> list_all p xs" "\<not> nonneg_integer JNull" "hex_string n s \<Longrightarrow> hex_pattern n (JStr s)"
  by (auto simp: is_integer_def is_string_def is_boolean_def is_number_def num_value_def at_least_def at_most_def or_null_def
      one_of_def nonneg_integer_def unit_number_def nonempty_string_def array_of_def hex_pattern_def)

lemma object_of_Obj [simp]:
  "object_of required props (JObj kvs) \<longleftrightarrow> list_all (\<lambda>k. k \<in> fst ` set kvs) required \<and> list_all (\<lambda>kv. fst kv \<in> fst ` set props) kvs \<and>
     list_all (\<lambda>(k, p). case map_of kvs k of None \<Rightarrow> True | Some x \<Rightarrow> p x) props"
  by (simp add: object_of_def)

end
