(* ===== verification/Base_Generator.thy ===== *)
theory Base_Generator
  imports Preemit Stripper Map_Schema
begin

section \<open>The base-map generator\<close>

text \<open>
  Model of \<^verbatim>\<open>src/src/generation/generator.py\<close> with \<^verbatim>\<open>src/src/generation/replay_cells.py\<close>: one artifact from
  one base map. The rows its queries return for a map are a record; both queries on the checkpoints see
  one list. Positions in metres are rationals (dividing a double by 8 or 32 is exact). The
  configuration hash, the code version, the time stamp, the serialisation under the run identifier, the
  wording of a detail and the \<open>jsonschema\<close> library are parameters. A base block is a \<open>map_block\<close> without
  \<open>placement\<close> whose coordinates are integers.
\<close>

subsection \<open>Inputs\<close>

record generation_inputs =
  gn_base_map_id :: "int option"
  gn_base_map_source_id :: "string option"
  gn_style_tag_filter :: "string option"
  gn_difficulty :: string
  gn_random_seed :: int
  gn_strip :: bool

definition ALLOWED_STYLE :: "string option list" where "ALLOWED_STYLE = [Some ''Tech'', Some ''FullSpeed'', None]"
definition ALLOWED_DIFFICULTY :: "string list" where "ALLOWED_DIFFICULTY = [''easy'', ''medium'', ''hard'']"
definition TOP_K_CANDIDATES :: int where "TOP_K_CANDIDATES = 3"

definition inputs_ok :: "generation_inputs \<Rightarrow> bool" where
  "inputs_ok i \<longleftrightarrow> gn_style_tag_filter i \<in> set ALLOWED_STYLE \<and> gn_difficulty i \<in> set ALLOWED_DIFFICULTY"

definition mk_generation_inputs :: "int option \<Rightarrow> string option \<Rightarrow> string option \<Rightarrow> string \<Rightarrow> int \<Rightarrow> bool
    \<Rightarrow> py_error + generation_inputs" where
  "mk_generation_inputs base source style difficulty seed strip =
     (let i = \<lparr>gn_base_map_id = base, gn_base_map_source_id = source, gn_style_tag_filter = style,
          gn_difficulty = difficulty, gn_random_seed = seed, gn_strip = strip\<rparr>
      in if inputs_ok i then Inr i else Inl ValueError)"

definition opt_json :: "('a \<Rightarrow> json) \<Rightarrow> 'a option \<Rightarrow> json" where
  "opt_json f v = (case v of None \<Rightarrow> JNull | Some x \<Rightarrow> f x)"

definition inputs_dict :: "generation_inputs \<Rightarrow> json_obj" where
  "inputs_dict i =
     [(''base_map_id'', opt_json JInt (gn_base_map_id i)), (''base_map_source_id'', opt_json JStr (gn_base_map_source_id i)),
      (''style_tag_filter'', opt_json JStr (gn_style_tag_filter i)), (''difficulty'', JStr (gn_difficulty i)),
      (''random_seed'', JInt (gn_random_seed i)), (''strip'', JBool (gn_strip i))]"

record generator_env =
  ge_floats :: "rat fops"
  ge_blake :: "string \<Rightarrow> nat"
  ge_sha256 :: "string \<Rightarrow> string"
  ge_dumps :: "json \<Rightarrow> string"
  ge_validate :: "json \<Rightarrow> string option"
  ge_detail :: "gate_detail \<Rightarrow> string"
  ge_now :: string
  ge_code_version :: string
  ge_config_hash :: string
  ge_classification_version :: string

definition compute_run_id :: "generator_env \<Rightarrow> generation_inputs \<Rightarrow> string" where
  "compute_run_id env i = take 16 (ge_sha256 env (ge_dumps env (JObj (inputs_dict i))))"

subsection \<open>The base map\<close>

record block_row =
  bw_family :: "string option"
  bw_type :: "string option"
  bw_cell :: cell
  bw_rotation :: "int option"

record waypoint_row =
  wr_index :: int
  wr_order :: int
  wr_tag :: string
  wr_x :: "int option"
  wr_y :: "int option"
  wr_z :: "int option"
  wr_abs :: "(rat \<times> rat \<times> rat) option"

record map_rows =
  mp_source_map_id :: "string option"
  mp_blocks :: "block_row list"
  mp_waypoints :: "waypoint_row list"
  mp_provenance :: "(string option \<times> string option) option"
  mp_corridors :: "corridor_row list"
  mp_replay_paths :: "json_item list option list"
  mp_geometry :: "((string \<times> string) \<times> geometry_info) list"

record checkpoint_entry =
  ce_index :: int
  ce_order :: int
  ce_tag :: string
  ce_cell :: cell

record base_map_data =
  bd_source_map_id :: "string option"
  bd_blocks :: "map_block list"
  bd_checkpoints :: "checkpoint_entry list"
  bd_anchor_cells :: "cell list"
  bd_model_hash :: "string option"
  bd_learned_score_version :: "string option"

definition base_block :: "nat \<times> block_row \<Rightarrow> map_block" where
  "base_block ir = (case ir of (uid, r) \<Rightarrow> case bw_cell r of (x, y, z) \<Rightarrow>
     \<lparr>mb_uid = uid, mb_placement = None, mb_x = Some (PyInt x), mb_y = Some (PyInt y), mb_z = Some (PyInt z),
      mb_family = Some (get_or (bw_family r) ''Unknown''), mb_name = Some (get_or (bw_type r) ''Unknown''),
      mb_rotation = Some (PyInt (get_or (bw_rotation r) 0))\<rparr>)"

definition snap_abs_to_grid :: "rat \<times> rat \<times> rat \<Rightarrow> cell" where
  "snap_abs_to_grid p = (case p of (x, y, z) \<Rightarrow> (\<lfloor>x / 32\<rfloor>, \<lfloor>y / 8\<rfloor>, \<lfloor>z / 32\<rfloor>))"

definition grid_cell :: "waypoint_row \<Rightarrow> cell option" where
  "grid_cell w = (case (wr_x w, wr_y w, wr_z w) of (Some x, Some y, Some z) \<Rightarrow> Some (x, y, z) | _ \<Rightarrow> None)"

definition checkpoint_of :: "waypoint_row \<Rightarrow> checkpoint_entry option" where
  "checkpoint_of w = map_option (\<lambda>c. \<lparr>ce_index = wr_index w, ce_order = wr_order w, ce_tag = wr_tag w, ce_cell = c\<rparr>) (grid_cell w)"

definition anchor_cell_of :: "waypoint_row \<Rightarrow> cell option" where
  "anchor_cell_of w = (case grid_cell w of Some c \<Rightarrow> Some c | None \<Rightarrow> map_option snap_abs_to_grid (wr_abs w))"

definition fetch_base_map :: "map_rows \<Rightarrow> base_map_data" where
  "fetch_base_map rows =
     \<lparr>bd_source_map_id = mp_source_map_id rows,
      bd_blocks = map base_block (enumerate 0 (mp_blocks rows)),
      bd_checkpoints = List.map_filter checkpoint_of (mp_waypoints rows),
      bd_anchor_cells = List.map_filter anchor_cell_of (mp_waypoints rows),
      bd_model_hash = (case mp_provenance rows of None \<Rightarrow> None | Some p \<Rightarrow> fst p),
      bd_learned_score_version = (case mp_provenance rows of None \<Rightarrow> None | Some p \<Rightarrow> snd p)\<rparr>"

definition assembly_row :: "waypoint_row \<Rightarrow> checkpoint_row" where
  "assembly_row w = \<lparr>cr_waypoint_order = wr_order w, cr_tag = wr_tag w, cr_x = wr_x w, cr_y = wr_y w, cr_z = wr_z w\<rparr>"

subsection \<open>Replay evidence and the candidate validator\<close>

definition load_replay_touched_cells :: "map_rows \<Rightarrow> cell list" where
  "load_replay_touched_cells rows = concat (map parse_cells (mp_replay_paths rows))"

definition replay_evidence :: "map_rows \<Rightarrow> cell set option" where
  "replay_evidence rows = (let cells = load_replay_touched_cells rows in if cells = [] then None else Some (set cells))"

text \<open>The closure's call cannot raise on normalised blocks (lemma \<open>score_corridor_normalised\<close>).\<close>

definition validator_of :: "rat fops \<Rightarrow> map_rows \<Rightarrow> map_block list \<Rightarrow> candidate_corridor \<Rightarrow> nat \<Rightarrow> rat option" where
  "validator_of F rows normalised candidate interval_index =
     (case score_corridor F (cc_corridor_id candidate) (int interval_index) (cc_path_cells candidate) normalised
         (map_of (mp_geometry rows)) (replay_evidence rows) 9 1 None of
        Inr (Some cs) \<Rightarrow> Some (vs_validation_score cs)
      | _ \<Rightarrow> None)"

definition build_candidate_validator :: "rat fops \<Rightarrow> map_rows \<Rightarrow> map_block list
    \<Rightarrow> py_error + (candidate_corridor \<Rightarrow> nat \<Rightarrow> rat option) option" where
  "build_candidate_validator F rows base_blocks =
     (if mp_geometry rows = [] then Inr None
      else case normalize_blocks base_blocks of
          Inl e \<Rightarrow> Inl e
        | Inr normalised \<Rightarrow> Inr (Some (validator_of F rows normalised)))"

subsection \<open>The artifact\<close>

definition reason_text :: "reject_reason \<Rightarrow> string" where
  "reason_text r = (case r of
       plain_cp_not_supported_v0 \<Rightarrow> ''plain_cp_not_supported_v0''
     | missing_corridor_in_interval \<Rightarrow> ''missing_corridor_in_interval''
     | chain_broken \<Rightarrow> ''chain_broken''
     | empty_corridors \<Rightarrow> ''empty_corridors''
     | confidence_below_floor \<Rightarrow> ''confidence_below_floor''
     | unknown_block \<Rightarrow> ''unknown_block''
     | invalid_schema \<Rightarrow> ''invalid_schema''
     | stripped_route_broken \<Rightarrow> ''stripped_route_broken''
     | beam_exhausted \<Rightarrow> ''beam_exhausted''
     | interval_validation_failed \<Rightarrow> ''interval_validation_failed''
     | no_valid_candidates \<Rightarrow> ''no_valid_candidates'')"

definition interval_entry :: "interval_assembly \<Rightarrow> json" where
  "interval_entry iv = JObj
     [(''index'', JInt (int (iv_index iv))), (''src_tag'', JStr (an_tag (iv_src iv))), (''src_order'', JInt (an_order (iv_src iv))),
      (''dst_tag'', JStr (an_tag (iv_dst iv))), (''dst_order'', JInt (an_order (iv_dst iv))),
      (''chosen_corridor_id'', JInt (ch_corridor_id (iv_chosen iv))),
      (''chosen_corridor_score'', JFloat (ch_learned_corridor_score (iv_chosen iv))),
      (''path_length_cells'', JInt (ch_path_length (iv_chosen iv))), (''expected_time_ms'', JInt (ch_expected_time_ms (iv_chosen iv)))]"

definition corridor_used_entry :: "interval_assembly \<Rightarrow> json" where
  "corridor_used_entry iv = (let c = iv_chosen iv in JObj
     ([(''corridor_id'', JInt (ch_corridor_id c)), (''interval_index'', JInt (int (iv_index iv))),
       (''learned_corridor_score'', JFloat (ch_learned_corridor_score c)), (''contains_virtual_edge'', JBool (ch_contains_virtual_edge c)),
       (''path_length_cells'', JInt (ch_path_length c))] @
      (case ch_corridor_confidence c of None \<Rightarrow> [] | Some q \<Rightarrow> [(''corridor_confidence'', JFloat q)]) @
      (case ch_combined_sequence_score c of None \<Rightarrow> [] | Some q \<Rightarrow> [(''combined_sequence_score'', JFloat q)])))"

definition route_entries :: "(interval_assembly \<Rightarrow> json) \<Rightarrow> assembly_error + assembled_route \<Rightarrow> json list" where
  "route_entries f route = (case route of Inl _ \<Rightarrow> [] | Inr r \<Rightarrow> map f (ar_intervals r))"

definition finishability_block :: "generator_env \<Rightarrow> finishability_result \<Rightarrow> json" where
  "finishability_block env r = JObj
     ([(''route_verified'', JBool (fr_route_verified r)), (''estimated_time_ms'', opt_json JInt (fr_estimated_time_ms r)),
       (''ai_confidence'', opt_json JFloat (fr_ai_confidence r)),
       (''reject_reason'', opt_json (\<lambda>x. JStr (reason_text x)) (fr_reject_reason r)), (''gate_version'', JStr (fr_gate_version r))] @
      (case fr_detail r of None \<Rightarrow> [] | Some d \<Rightarrow> [(''detail'', JStr (ge_detail env d))]))"

definition int_field :: "pyval option \<Rightarrow> json" where
  "int_field v = (case v of Some (PyInt i) \<Rightarrow> JInt i | _ \<Rightarrow> JNull)"

definition block_entry :: "map_block \<Rightarrow> json" where
  "block_entry b = JObj
     [(''block_family'', JStr (str_or_empty (mb_family b))), (''block_name'', JStr (str_or_empty (mb_name b))),
      (''x'', int_field (mb_x b)), (''y'', int_field (mb_y b)), (''z'', int_field (mb_z b)), (''rotation'', int_field (mb_rotation b))]"

definition checkpoint_json :: "checkpoint_entry \<Rightarrow> json" where
  "checkpoint_json c = (case ce_cell c of (x, y, z) \<Rightarrow> JObj
     [(''waypoint_index'', JInt (ce_index c)), (''waypoint_order'', JInt (ce_order c)), (''tag'', JStr (ce_tag c)),
      (''x'', JInt x), (''y'', JInt y), (''z'', JInt z)])"

definition strip_fields :: "strip_result \<Rightarrow> json_obj" where
  "strip_fields s =
     [(''stripped'', JBool True), (''strip_policy'', JStr (sr_strip_policy s)),
      (''kept_block_count'', JInt (int (sr_kept_block_count s))), (''base_block_count'', JInt (int (sr_base_block_count s)))]"

definition interval_count :: "base_map_data \<Rightarrow> assembly_error + assembled_route \<Rightarrow> int" where
  "interval_count base route =
     (let produced = route_entries interval_entry route in
      if produced \<noteq> [] then int (length produced)
      else max 1 (int (length (remdups (map (\<lambda>c. (ce_tag c, ce_order c)) (bd_checkpoints base)))) - 1))"

definition str_default :: "string option \<Rightarrow> string \<Rightarrow> string" where
  "str_default v other = (case v of Some s \<Rightarrow> if s = [] then other else s | None \<Rightarrow> other)"

definition emitted_blocks :: "base_map_data \<Rightarrow> strip_result option \<Rightarrow> map_block list" where
  "emitted_blocks base strip = (case strip of None \<Rightarrow> bd_blocks base | Some s \<Rightarrow> sr_stripped_blocks s)"

definition build_artifact :: "generator_env \<Rightarrow> generation_inputs \<Rightarrow> base_map_data \<Rightarrow> assembly_error + assembled_route
    \<Rightarrow> finishability_result \<Rightarrow> strip_result option \<Rightarrow> json" where
  "build_artifact env inputs base route gate strip = JObj
     [(''schema_version'', JStr (case strip of None \<Rightarrow> ''generation-v0'' | Some _ \<Rightarrow> ''generation-v0.1'')),
      (''run_id'', JStr (compute_run_id env inputs)), (''generated_at'', JStr (ge_now env)),
      (''inputs'', JObj (inputs_dict inputs)),
      (''provenance'', JObj
         [(''model_hash'', JStr (str_default (bd_model_hash base) (replicate 64 (CHR ''0'')))),
          (''learned_score_version'', JStr (str_default (bd_learned_score_version base) ''unscored'')),
          (''config_hash'', JStr (ge_config_hash env)), (''code_version'', JStr (ge_code_version env)),
          (''classification_version'', JStr (ge_classification_version env))]),
      (''map'', JObj
         ([(''waypoint_order_style'', JStr ''linked''), (''interval_count'', JInt (interval_count base route)),
           (''blocks'', JArr (map block_entry (emitted_blocks base strip))),
           (''checkpoints'', JArr (map checkpoint_json (bd_checkpoints base)))] @
          (case strip of None \<Rightarrow> [] | Some s \<Rightarrow> strip_fields s))),
      (''route'', JObj
         [(''intervals'', JArr (route_entries interval_entry route)),
          (''cells_total'', JInt (case route of Inl _ \<Rightarrow> 0 | Inr r \<Rightarrow> ar_cells_total r)),
          (''corridors_used'', JArr (route_entries corridor_used_entry route))]),
      (''finishability'', finishability_block env gate)]"

subsection \<open>Generation\<close>

datatype generation_exn = BadRequest | SchemaMismatch string | RaisedPy py_error

definition strip_policy_used :: string where
  "strip_policy_used = STRIP_POLICY_HALO_PRISM_3X7X3_PLUS_ANCHOR_RADIUS_3"

definition strip_step :: "base_map_data \<Rightarrow> bool \<Rightarrow> assembly_error + assembled_route \<Rightarrow> py_error + strip_result option" where
  "strip_step base strip route =
     (case route of
        Inl _ \<Rightarrow> Inr None
      | Inr r \<Rightarrow>
          if \<not> strip then Inr None
          else (case strip_route r (bd_blocks base) strip_policy_used (Some (set (bd_anchor_cells base))) of
              Inl e \<Rightarrow> Inl e | Inr s \<Rightarrow> Inr (Some s)))"

definition regate :: "strip_result option \<Rightarrow> finishability_result \<Rightarrow> finishability_result" where
  "regate strip gate =
     (case strip of
        None \<Rightarrow> gate
      | Some s \<Rightarrow>
          if sr_route_intact s then gate
          else gate\<lparr>fr_route_verified := False, fr_reject_reason := Some stripped_route_broken,
            fr_detail := map_option (\<lambda>(i, cid, k, c). StrippedBroken i cid k c) (sr_broken_detail s)\<rparr>)"

definition effective_inputs :: "generation_inputs \<Rightarrow> base_map_data \<Rightarrow> generation_inputs" where
  "effective_inputs inputs base =
     (if gn_base_map_source_id inputs = None \<and> str_default (bd_source_map_id base) [] \<noteq> []
      then inputs\<lparr>gn_base_map_source_id := bd_source_map_id base\<rparr> else inputs)"

definition generated_route :: "generator_env \<Rightarrow> map_rows \<Rightarrow> int \<Rightarrow> int \<Rightarrow> (candidate_corridor \<Rightarrow> nat \<Rightarrow> rat option) option
    \<Rightarrow> assembly_error + assembled_route" where
  "generated_route env rows map_id seed validator =
     assemble_route (ge_floats env) (ge_blake env) (map assembly_row (mp_waypoints rows)) (mp_corridors rows)
       map_id seed TOP_K_CANDIDATES validator"

text \<open>Validator, assembly and stripping: the route and what stripping made of the map.\<close>

definition plan_generation :: "generator_env \<Rightarrow> map_rows \<Rightarrow> int \<Rightarrow> int \<Rightarrow> bool
    \<Rightarrow> py_error + (assembly_error + assembled_route) \<times> strip_result option" where
  "plan_generation env rows map_id seed strip =
     (let base = fetch_base_map rows in
      case build_candidate_validator (ge_floats env) rows (bd_blocks base) of
        Inl e \<Rightarrow> Inl e
      | Inr validator \<Rightarrow>
          (let route = generated_route env rows map_id seed validator in
           case strip_step base strip route of Inl e \<Rightarrow> Inl e | Inr s \<Rightarrow> Inr (route, s)))"

definition artifact_of :: "generator_env \<Rightarrow> map_rows \<Rightarrow> generation_inputs \<Rightarrow> assembly_error + assembled_route
    \<Rightarrow> strip_result option \<Rightarrow> json" where
  "artifact_of env rows inputs route strip =
     (let base = fetch_base_map rows; gate = run_finishability_gate (ge_floats env) route
      in build_artifact env (effective_inputs inputs base) base route (regate strip gate) strip)"

text \<open>The inline validation after the schema check is left out: its summary is only logged and its exceptions are swallowed.\<close>

definition generate_from_base :: "generator_env \<Rightarrow> (int \<Rightarrow> map_rows option) \<Rightarrow> generation_inputs \<Rightarrow> generation_exn + json" where
  "generate_from_base env db inputs =
     (case gn_base_map_id inputs of
        None \<Rightarrow> Inl BadRequest
      | Some map_id \<Rightarrow>
          (case db map_id of
             None \<Rightarrow> Inl BadRequest
           | Some rows \<Rightarrow>
               (case plan_generation env rows map_id (gn_random_seed inputs) (gn_strip inputs) of
                  Inl e \<Rightarrow> Inl (RaisedPy e)
                | Inr (route, strip) \<Rightarrow>
                    (let artifact = artifact_of env rows inputs route strip
                     in case ge_validate env artifact of
                          Some err \<Rightarrow> Inl (SchemaMismatch err)
                        | None \<Rightarrow> Inr artifact))))"

subsection \<open>Validation of an artifact\<close>

definition routed_intervals :: "assembled_route \<Rightarrow> interval_assembly list" where
  "routed_intervals route = filter (\<lambda>iv. ch_path_cells (iv_chosen iv) \<noteq> []) (ar_intervals route)"

definition preemit_spawn :: "assembled_route \<Rightarrow> cell option" where
  "preemit_spawn route = (case routed_intervals route of [] \<Rightarrow> None | iv # _ \<Rightarrow> Some (hd (ch_path_cells (iv_chosen iv))))"

definition preemit_paths :: "assembled_route \<Rightarrow> (int \<times> int \<times> cell list) list" where
  "preemit_paths route =
     map (\<lambda>iv. (ch_corridor_id (iv_chosen iv), int (iv_index iv), ch_path_cells (iv_chosen iv))) (routed_intervals route)"

definition run_preemit_inline :: "generator_env \<Rightarrow> map_rows \<Rightarrow> assembly_error + assembled_route \<Rightarrow> map_block list
    \<Rightarrow> py_error + preemit_summary option" where
  "run_preemit_inline env rows route blocks =
     (case route of
        Inl _ \<Rightarrow> Inr None
      | Inr r \<Rightarrow>
          if mp_geometry rows = [] then Inr None
          else let paths = preemit_paths r in
            (case run_preemit_validation (ge_floats env) blocks (map_of (mp_geometry rows)) (Some (route_path_cells r))
                (preemit_spawn r) (replay_evidence rows) 9 1 None (if paths = [] then None else Some paths) of
               Inl e \<Rightarrow> Inl e | Inr su \<Rightarrow> Inr (Some su)))"

text \<open>What an artifact says about its run.\<close>

definition artifact_inputs :: "json \<Rightarrow> json_obj" where
  "artifact_inputs artifact =
     (case artifact of
        JObj kvs \<Rightarrow> (case json_get ''inputs'' kvs of JObj b \<Rightarrow> b | _ \<Rightarrow> [])
      | _ \<Rightarrow> [])"

definition artifact_seed :: "json_obj \<Rightarrow> py_error + int" where
  "artifact_seed b = (let v = json_get ''random_seed'' b in if json_truthy v then json_int v else Inr 0)"

definition revalidate_rows :: "generator_env \<Rightarrow> map_rows \<Rightarrow> int \<Rightarrow> int \<Rightarrow> bool \<Rightarrow> generation_exn + preemit_summary option" where
  "revalidate_rows env rows map_id seed strip =
     (let base = fetch_base_map rows; route = generated_route env rows map_id seed None in
      case strip_step base strip route of
        Inl e \<Rightarrow> Inl (RaisedPy e)
      | Inr s \<Rightarrow>
          (case run_preemit_inline env rows route (emitted_blocks base s) of
             Inl e \<Rightarrow> Inl (RaisedPy e) | Inr su \<Rightarrow> Inr su))"

definition validate_artifact :: "generator_env \<Rightarrow> (int \<Rightarrow> map_rows option) \<Rightarrow> json \<Rightarrow> generation_exn + preemit_summary option" where
  "validate_artifact env db artifact =
     (case ge_validate env artifact of
        Some err \<Rightarrow> Inl BadRequest
      | None \<Rightarrow>
          (let b = artifact_inputs artifact in
           if json_get ''base_map_id'' b = JNull then Inl BadRequest
           else case artifact_seed b of
               Inl e \<Rightarrow> Inl (RaisedPy e)
             | Inr seed \<Rightarrow>
                 (case json_int (json_get ''base_map_id'' b) of
                    Inl e \<Rightarrow> Inl (RaisedPy e)
                  | Inr map_id \<Rightarrow>
                      (case db map_id of
                         None \<Rightarrow> Inl BadRequest
                       | Some rows \<Rightarrow> revalidate_rows env rows map_id seed (json_truthy (json_get ''strip'' b))))))"

definition sidecar_payload :: "(preemit_detail \<Rightarrow> string) \<Rightarrow> string \<Rightarrow> json \<Rightarrow> preemit_summary \<Rightarrow> json" where
  "sidecar_payload text path artifact su =
     (let b = artifact_inputs artifact in JObj
        [(''artifact_path'', JStr path), (''run_id'', case artifact of JObj kvs \<Rightarrow> json_get ''run_id'' kvs | _ \<Rightarrow> JNull),
         (''base_map_id'', json_get ''base_map_id'' b), (''strip'', JBool (json_truthy (json_get ''strip'' b))),
         (''summary'', summary_dict text su)])"

subsection \<open>Generation never raises on its own\<close>

lemma emitted_normalise:
  assumes "set bs \<subseteq> set (bd_blocks (fetch_base_map rows))"
  shows "\<exists>ns. normalize_blocks bs = Inr ns"
  unfolding normalize_blocks_def
proof (rule normalize_total)
  fix b assume "b \<in> set bs"
  with assms obtain ir where "b = base_block ir" by (auto simp: fetch_base_map_def)
  then show "\<exists>x y z r. int_get (mb_x b) = Inr x \<and> int_get (mb_y b) = Inr y \<and> int_get (mb_z b) = Inr z \<and> int_get (mb_rotation b) = Inr r"
    by (simp add: base_block_def int_get_def split: prod.split)
qed

lemmas base_blocks_normalise = emitted_normalise [OF subset_refl]

lemma build_validator_total: "\<exists>v. build_candidate_validator F rows (bd_blocks (fetch_base_map rows)) = Inr v"
  using base_blocks_normalise [of rows] by (auto simp: build_candidate_validator_def)

lemma strip_policy_known: "strip_policy_used \<in> set known_policies" "strip_policy_used \<noteq> STRIP_POLICY_NONE"
  by (simp_all add: strip_policy_used_def known_policies_def policy_names)

lemma strip_step_total: "\<exists>s. strip_step base strip route = Inr s"
  using strip_policy_known by (auto simp: strip_step_def strip_route_def Let_def split: sum.split)

lemma plan_total: "\<exists>route s. plan_generation env rows map_id seed strip = Inr (route, s)"
proof -
  obtain v where "build_candidate_validator (ge_floats env) rows (bd_blocks (fetch_base_map rows)) = Inr v"
    using build_validator_total by blast
  then show ?thesis
    using strip_step_total [of "fetch_base_map rows" strip "generated_route env rows map_id seed v"]
    by (auto simp: plan_generation_def Let_def)
qed

text \<open>Stripping never overrides the verdict: the stripped map always keeps the route.\<close>

lemma strip_step_intact:
  assumes "strip_step base strip route = Inr (Some s)"
  shows "sr_route_intact s \<and> strip \<and> (\<exists>r. route = Inr r \<and>
    strip_route r (bd_blocks base) strip_policy_used (Some (set (bd_anchor_cells base))) = Inr s)"
  using assms strip_route_fields(3) [OF _ strip_policy_known(2)]
  by (fastforce simp: strip_step_def split: sum.splits if_splits)

lemma regate_same: "strip_step base strip route = Inr s \<Longrightarrow> regate s gate = gate"
  by (cases s) (auto simp: regate_def dest: strip_step_intact)

lemma plan_parts:
  assumes "plan_generation env rows map_id seed strip = Inr (route, s)"
  obtains v where "build_candidate_validator (ge_floats env) rows (bd_blocks (fetch_base_map rows)) = Inr v"
    "route = generated_route env rows map_id seed v" "strip_step (fetch_base_map rows) strip route = Inr s"
  using assms by (auto simp: plan_generation_def Let_def split: sum.splits)

subsection \<open>The rows behind a route\<close>

definition interval_from :: "rat fops \<Rightarrow> nat \<Rightarrow> corridor_row \<Rightarrow> interval_assembly \<Rightarrow> bool" where
  "interval_from F i row iv \<longleftrightarrow>
     iv_index iv = i \<and> co_learned_corridor_score row = Some (ch_learned_corridor_score (iv_chosen iv)) \<and>
     ch_path_length (iv_chosen iv) = co_path_length row \<and> ch_corridor_confidence (iv_chosen iv) = co_corridor_confidence row \<and>
     ch_combined_sequence_score (iv_chosen iv) = co_combined_sequence_score row \<and>
     ch_expected_time_ms (iv_chosen iv) = expected_time_ms F (co_path_length row)"

lemma chosen_interval_from:
  assumes "same_but_validation (row_candidate row) c" and "cc_learned_corridor_score c \<noteq> None" and "iv_index iv = i"
    and "iv_chosen iv = chosen_of F c"
  shows "interval_from F i row iv"
  using assms by (auto simp: same_but_validation_def interval_from_def chosen_of_def row_candidate_def)

lemma route_interval_row:
  assumes r: "assemble_route F blake arows crows map_id seed k v = Inr route" and i: "i < length (ar_intervals route)"
  shows "\<exists>row \<in> set crows. interval_from F i row (ar_intervals route ! i)"
    and "iv_src (ar_intervals route ! i) = ar_anchors route ! i" and "iv_dst (ar_intervals route ! i) = ar_anchors route ! Suc i"
proof -
  from r obtain inputs where a: "assemble_route_from_inputs F blake inputs = Inr route"
    and cs: "list_all2 same_but_validation (map row_candidate crows) (ai_candidates inputs)"
    by (rule assemble_route_inputs)
  have ok: "interval_ok F inputs i (ar_anchors route ! i) (ar_anchors route ! Suc i) (ar_intervals route ! i)"
    using route_intervals [OF a] route_linked [OF a] i by simp
  then show "iv_src (ar_intervals route ! i) = ar_anchors route ! i" "iv_dst (ar_intervals route ! i) = ar_anchors route ! Suc i"
    by (simp_all add: interval_ok_def)
  from ok obtain c where c: "c \<in> set (ai_candidates inputs)" "cc_learned_corridor_score c \<noteq> None"
    "iv_chosen (ar_intervals route ! i) = chosen_of F c" "iv_index (ar_intervals route ! i) = i"
    by (auto simp: interval_ok_def scored_for_def)
  from c(1) obtain j where "j < length (ai_candidates inputs)" "c = ai_candidates inputs ! j" by (auto simp: in_set_conv_nth)
  with cs have "crows ! j \<in> set crows" "same_but_validation (row_candidate (crows ! j)) c"
    by (auto simp: list_all2_conv_all_nth)
  with chosen_interval_from [OF _ c(2,4,3)] show "\<exists>row \<in> set crows. interval_from F i row (ar_intervals route ! i)" by blast
qed

lemma route_totals:
  assumes "assemble_route F blake arows crows map_id seed k v = Inr route"
  shows "ar_cells_total route = sum_list (map (\<lambda>iv. ch_path_length (iv_chosen iv)) (ar_intervals route))"
    and "ar_estimated_time_ms route = sum_list (map (\<lambda>iv. ch_expected_time_ms (iv_chosen iv)) (ar_intervals route))"
    and "ar_ai_confidence route = f_div F (f_sum F (map (\<lambda>iv. ch_learned_corridor_score (iv_chosen iv)) (ar_intervals route)))
      (f_lit F (of_nat (length (ar_intervals route))))" and "ar_intervals route \<noteq> []"
proof -
  from assms obtain inputs where a: "assemble_route_from_inputs F blake inputs = Inr route" by (rule assemble_route_inputs)
  then show "ar_cells_total route = sum_list (map (\<lambda>iv. ch_path_length (iv_chosen iv)) (ar_intervals route))"
    "ar_estimated_time_ms route = sum_list (map (\<lambda>iv. ch_expected_time_ms (iv_chosen iv)) (ar_intervals route))"
    by (auto simp: assemble_route_from_inputs_def Let_def comp_def split: if_splits sum.splits option.splits)
  show "ar_ai_confidence route = f_div F (f_sum F (map (\<lambda>iv. ch_learned_corridor_score (iv_chosen iv)) (ar_intervals route)))
      (f_lit F (of_nat (length (ar_intervals route))))" by (rule route_confidence [OF a])
  show "ar_intervals route \<noteq> []" using route_intervals [OF a] route_linked [OF a] by (cases "ar_intervals route") auto
qed

lemma first_tagged_row:
  assumes "first_tagged tag rows = Some a"
  shows "an_tag a = tag \<and> (\<exists>row \<in> set rows. a = row_anchor row)"
proof -
  from assms obtain row where f: "find (\<lambda>r. cr_tag r = tag) rows = Some row" and a: "a = row_anchor row" by auto
  from f have "row \<in> set rows" "cr_tag row = tag" by (auto simp: find_Some_iff)
  with a show ?thesis by (auto simp: row_anchor_def)
qed

text \<open>The anchors of a route, with the tags the schema allows at either end of an interval.\<close>

lemma route_anchor_tags:
  assumes r: "assemble_route F blake arows crows map_id seed k v = Inr route" and i: "i < length (ar_intervals route)"
  shows "an_tag (ar_anchors route ! i) \<in> {''Spawn'', ''LinkedCheckpoint''}"
    and "an_tag (ar_anchors route ! Suc i) \<in> {''LinkedCheckpoint'', ''Goal''}"
    and "\<exists>row \<in> set arows. ar_anchors route ! i = row_anchor row" and "\<exists>row \<in> set arows. ar_anchors route ! Suc i = row_anchor row"
proof -
  obtain cps goal where c: "first_tagged ''Goal'' arows = Some goal"
    "ar_anchors route = opt_list (first_tagged ''Spawn'' arows) @ cps @ [goal]"
    "\<forall>a \<in> set cps. \<exists>row \<in> set arows. cr_tag row = ''LinkedCheckpoint'' \<and> a = row_anchor row"
    "list_all2 (stored_interval crows) (steps_of (ar_anchors route)) (ar_intervals route)"
    using assembled_chain [OF r] by blast
  have n: "Suc i < length (ar_anchors route)" using list_all2_lengthD [OF c(4)] i by simp
  have goal: "an_tag goal = ''Goal'' \<and> (\<exists>row \<in> set arows. goal = row_anchor row)"
    using first_tagged_row [OF c(1)] .
  have spawn: "\<forall>a \<in> set (opt_list (first_tagged ''Spawn'' arows)). an_tag a = ''Spawn'' \<and> (\<exists>row \<in> set arows. a = row_anchor row)"
  proof
    fix a assume "a \<in> set (opt_list (first_tagged ''Spawn'' arows))"
    then have "first_tagged ''Spawn'' arows = Some a" by (simp only: opt_list_def split: option.splits) auto
    then show "an_tag a = ''Spawn'' \<and> (\<exists>row \<in> set arows. a = row_anchor row)" by (rule first_tagged_row)
  qed
  have cps: "\<forall>a \<in> set cps. an_tag a = ''LinkedCheckpoint'' \<and> (\<exists>row \<in> set arows. a = row_anchor row)"
    using c(3) by (auto simp: row_anchor_def)
  have front: "ar_anchors route ! i \<in> set (opt_list (first_tagged ''Spawn'' arows) @ cps)"
  proof -
    define xs where "xs = opt_list (first_tagged ''Spawn'' arows) @ cps"
    have eq: "ar_anchors route = xs @ [goal]" by (simp add: c(2) xs_def)
    with n have "i < length xs" by simp
    then have "ar_anchors route ! i \<in> set xs" by (simp add: eq nth_append)
    then show ?thesis by (simp only: xs_def)
  qed
  have rear: "ar_anchors route ! Suc i \<in> set (cps @ [goal])"
  proof (cases "opt_list (first_tagged ''Spawn'' arows)")
    case Nil
    then have eq: "ar_anchors route = cps @ [goal]" using c(2) by simp
    from nth_mem [OF n] show ?thesis by (simp only: eq)
  next
    case (Cons a rest)
    then have "rest = []" by (simp only: opt_list_def split: option.splits) simp_all
    with Cons have eq: "ar_anchors route = a # (cps @ [goal])" using c(2) by simp
    with n have "i < length (cps @ [goal])" by simp
    from nth_mem [OF this] show ?thesis by (simp only: eq nth_Cons_Suc)
  qed
  from front spawn cps show "an_tag (ar_anchors route ! i) \<in> {''Spawn'', ''LinkedCheckpoint''}"
    "\<exists>row \<in> set arows. ar_anchors route ! i = row_anchor row" by auto
  from rear goal cps show "an_tag (ar_anchors route ! Suc i) \<in> {''LinkedCheckpoint'', ''Goal''}"
    "\<exists>row \<in> set arows. ar_anchors route ! Suc i = row_anchor row" by auto
qed

subsection \<open>Conformance with the schema\<close>

definition in_unit :: "rat option \<Rightarrow> bool" where
  "in_unit v \<longleftrightarrow> (\<forall>q. v = Some q \<longrightarrow> 0 \<le> q \<and> q \<le> 1)"

definition block_row_ok :: "block_row \<Rightarrow> bool" where
  "block_row_ok r \<longleftrightarrow> bw_family r \<noteq> Some [] \<and> bw_type r \<noteq> Some [] \<and> get_or (bw_rotation r) 0 \<in> {0..3}"

text \<open>The bounds of the schema, on what the artifact takes over from the rows. None of them is a constraint of
  the tables: names may be empty, a rotation or an order is any integer, and the learned score of a
  corridor is the model's unclipped prediction.\<close>

definition block_fits :: "map_block \<Rightarrow> bool" where
  "block_fits b \<longleftrightarrow> str_or_empty (mb_family b) \<noteq> [] \<and> str_or_empty (mb_name b) \<noteq> [] \<and>
     (\<exists>r \<in> {0..3}. mb_rotation b = Some (PyInt r))"

definition checkpoint_fits :: "checkpoint_entry \<Rightarrow> bool" where
  "checkpoint_fits c \<longleftrightarrow> 0 \<le> ce_index c \<and> 0 \<le> ce_order c \<and>
     ce_tag c \<in> {''Spawn'', ''Checkpoint'', ''LinkedCheckpoint'', ''Goal''}"

definition interval_fits :: "interval_assembly \<Rightarrow> bool" where
  "interval_fits iv \<longleftrightarrow> 0 \<le> an_order (iv_src iv) \<and> 0 \<le> an_order (iv_dst iv) \<and> 0 \<le> ch_path_length (iv_chosen iv) \<and>
     in_unit (Some (ch_learned_corridor_score (iv_chosen iv))) \<and> in_unit (ch_combined_sequence_score (iv_chosen iv))"

definition route_fits :: "assembly_error + assembled_route \<Rightarrow> bool" where
  "route_fits route \<longleftrightarrow> (case route of Inl _ \<Rightarrow> True | Inr r \<Rightarrow> \<forall>iv \<in> set (ar_intervals r). interval_fits iv)"

definition artifact_fits :: "base_map_data \<Rightarrow> assembly_error + assembled_route \<Rightarrow> strip_result option \<Rightarrow> bool" where
  "artifact_fits base route s \<longleftrightarrow> 2 \<le> length (bd_checkpoints base) \<and> emitted_blocks base s \<noteq> [] \<and>
     (\<forall>b \<in> set (emitted_blocks base s). block_fits b) \<and> (\<forall>c \<in> set (bd_checkpoints base). checkpoint_fits c) \<and>
     hex_pattern 64 (JStr (str_default (bd_model_hash base) (replicate 64 (CHR ''0'')))) \<and> route_fits route"

text \<open>What is used of the environment: \<open>sha256\<close> prints 64 hexadecimal digits, the library accepts exactly
  the documents the schema describes, and the arithmetic has the signs of exact arithmetic and a mean of
  numbers between 0 and 1 stays there.\<close>

definition floats_ok :: "rat fops \<Rightarrow> bool" where
  "floats_ok F \<longleftrightarrow> (\<forall>q. 0 \<le> q \<longrightarrow> 0 \<le> f_lit F q) \<and> (\<forall>a b. 0 \<le> a \<longrightarrow> 0 \<le> b \<longrightarrow> 0 \<le> f_mul F a b \<and> 0 \<le> f_div F a b) \<and>
     (\<forall>xs. xs \<noteq> [] \<longrightarrow> (\<forall>x \<in> set xs. 0 \<le> x \<and> x \<le> 1) \<longrightarrow>
        0 \<le> f_div F (f_sum F xs) (f_lit F (of_nat (length xs))) \<and> f_div F (f_sum F xs) (f_lit F (of_nat (length xs))) \<le> 1)"

definition env_ok :: "generator_env \<Rightarrow> bool" where
  "env_ok env \<longleftrightarrow> (\<forall>s. hex_string 64 (ge_sha256 env s)) \<and> (\<forall>d. ge_validate env d = None \<longleftrightarrow> generated_map_schema d) \<and>
     floats_ok (ge_floats env)"

lemma py_round_nonneg: "0 \<le> q \<Longrightarrow> 0 \<le> py_round q"
  by (auto simp: py_round_def Let_def zero_le_floor)

lemma expected_time_nonneg: "floats_ok F \<Longrightarrow> 0 \<le> expected_time_ms F n"
  unfolding expected_time_ms_def Let_def
  by (auto simp: floats_ok_def BLOCK_SIZE_M_def DEFAULT_SPEED_PRIOR_M_S_def intro!: py_round_nonneg)

lemma block_entry_iff: "schema_Block (block_entry (base_block ir)) \<longleftrightarrow> block_fits (base_block ir)"
proof -
  obtain n r where ir: "ir = (n, r)" by fastforce
  obtain x y z where "bw_cell r = (x, y, z)" by (cases "bw_cell r")
  then show ?thesis
    by (auto simp: ir schema_Block_def block_entry_def base_block_def int_field_def str_or_empty_def block_fits_def)
qed

lemma block_row_fits: "block_row_ok r \<Longrightarrow> block_fits (base_block (n, r))"
  by (cases "bw_cell r"; cases "bw_family r"; cases "bw_type r")
    (auto simp: block_fits_def base_block_def str_or_empty_def get_or_def block_row_ok_def)

lemma checkpoint_json_iff: "schema_Checkpoint (checkpoint_json c) \<longleftrightarrow> checkpoint_fits c"
  by (cases "ce_cell c") (auto simp: schema_Checkpoint_def checkpoint_json_def checkpoint_fits_def)

text \<open>An interval of an assembled route: its tags and its time always conform.\<close>

definition interval_tags :: "interval_assembly \<Rightarrow> bool" where
  "interval_tags iv \<longleftrightarrow> an_tag (iv_src iv) \<in> {''Spawn'', ''LinkedCheckpoint''} \<and> an_tag (iv_dst iv) \<in> {''LinkedCheckpoint'', ''Goal''} \<and>
     0 \<le> ch_expected_time_ms (iv_chosen iv)"

lemma interval_entry_iff:
  "interval_tags iv \<Longrightarrow> schema_IntervalEntry (interval_entry iv) \<and> schema_CorridorUsed (corridor_used_entry iv) \<longleftrightarrow> interval_fits iv"
  by (cases "ch_corridor_confidence (iv_chosen iv)"; cases "ch_combined_sequence_score (iv_chosen iv)")
    (auto simp: schema_IntervalEntry_def interval_entry_def schema_CorridorUsed_def corridor_used_entry_def Let_def
      interval_fits_def interval_tags_def in_unit_def)

lemma route_interval_tags:
  assumes "floats_ok (ge_floats env)" and r: "generated_route env rows map_id seed v = Inr route"
    and "iv \<in> set (ar_intervals route)"
  shows "interval_tags iv"
proof -
  from assms(3) obtain i where i: "i < length (ar_intervals route)" "iv = ar_intervals route ! i" by (auto simp: in_set_conv_nth)
  note r' = r [unfolded generated_route_def]
  obtain row where "interval_from (ge_floats env) i row iv" using route_interval_row(1) [OF r' i(1)] i(2) by blast
  then have "0 \<le> ch_expected_time_ms (iv_chosen iv)"
    using expected_time_nonneg [OF assms(1)] by (simp add: interval_from_def)
  then show ?thesis
    using route_anchor_tags(1,2) [OF r' i(1)] unfolding interval_tags_def i(2) route_interval_row(2,3) [OF r' i(1)] by blast
qed

lemma finishability_ok:
  assumes "floats_ok (ge_floats env)" and "route = generated_route env rows map_id seed v" and "route_fits route"
  shows "schema_finishability (finishability_block env (run_finishability_gate (ge_floats env) route))"
proof (cases route)
  case (Inl e)
  then show ?thesis
    by (cases "ae_reason e") (simp_all add: run_finishability_gate_def finishability_block_def schema_finishability_def opt_json_def
        GATE_VERSION_def reason_text_def)
next
  case (Inr r)
  then have g: "generated_route env rows map_id seed v = Inr r" using assms(2) by simp
  note totals = route_totals [OF g [unfolded generated_route_def]]
  have ok: "interval_fits iv" "interval_tags iv" if "iv \<in> set (ar_intervals r)" for iv
    using assms(3) Inr that route_interval_tags [OF assms(1) g that] by (simp_all add: route_fits_def)
  have time: "0 \<le> ar_estimated_time_ms r"
    unfolding totals(2) by (rule sum_list_nonneg) (auto dest: ok simp: interval_tags_def)
  let ?xs = "map (\<lambda>iv. ch_learned_corridor_score (iv_chosen iv)) (ar_intervals r)"
  have "?xs \<noteq> []" "\<forall>x \<in> set ?xs. 0 \<le> x \<and> x \<le> 1" using totals(4) ok by (auto simp: interval_fits_def in_unit_def)
  with assms(1) have "0 \<le> f_div (ge_floats env) (f_sum (ge_floats env) ?xs) (f_lit (ge_floats env) (of_nat (length ?xs))) \<and>
      f_div (ge_floats env) (f_sum (ge_floats env) ?xs) (f_lit (ge_floats env) (of_nat (length ?xs))) \<le> 1"
    unfolding floats_ok_def by blast
  then have "0 \<le> ar_ai_confidence r \<and> ar_ai_confidence r \<le> 1" unfolding totals(3) length_map .
  with time Inr show ?thesis
    by (simp add: run_finishability_gate_def finishability_block_def schema_finishability_def opt_json_def GATE_VERSION_def reason_text_def)
qed

lemma inputs_conform: "inputs_ok i \<Longrightarrow> schema_inputs (JObj (inputs_dict i))"
  by (cases "gn_base_map_id i"; cases "gn_base_map_source_id i"; cases "gn_style_tag_filter i")
    (auto simp: schema_inputs_def inputs_dict_def opt_json_def inputs_ok_def ALLOWED_STYLE_def ALLOWED_DIFFICULTY_def)

lemma effective_inputs_ok: "inputs_ok i \<Longrightarrow> inputs_ok (effective_inputs i base)"
  by (simp add: effective_inputs_def inputs_ok_def)

lemma hex_zeros: "hex_string 64 (replicate 64 (CHR ''0''))"
  by (simp add: hex_string_def is_hex_def is_digit_def list_all_iff)

lemma hex_take: "hex_string 64 s \<Longrightarrow> hex_string 16 (take 16 s)"
  by (auto simp: hex_string_def list_all_iff dest: in_set_takeD)

lemma emitted_from_base: "strip_step base strip route = Inr s \<Longrightarrow> set (emitted_blocks base s) \<subseteq> set (bd_blocks base)"
proof (cases s)
  case (Some t)
  assume "strip_step base strip route = Inr s"
  from strip_step_intact [OF this [unfolded Some]] obtain r where
    "strip_route r (bd_blocks base) strip_policy_used (Some (set (bd_anchor_cells base))) = Inr t" by blast
  from strip_subset [OF this] Some show ?thesis by (simp add: emitted_blocks_def)
qed (simp add: emitted_blocks_def)

lemma emitted_base_block:
  assumes "strip_step (fetch_base_map rows) strip route = Inr s" and "b \<in> set (emitted_blocks (fetch_base_map rows) s)"
  shows "\<exists>n r. b = base_block (n, r) \<and> r \<in> set (mp_blocks rows)"
  using emitted_from_base [OF assms(1)] assms(2) by (auto simp: fetch_base_map_def dest!: subsetD enumerate_in_set)

lemma strip_fields_policy:
  assumes "strip_step base strip route = Inr (Some s)"
  shows "sr_strip_policy s = ''halo_prism_3x7x3_plus_anchor_radius_3''"
proof -
  from strip_step_intact [OF assms] obtain r where "strip_route r (bd_blocks base) strip_policy_used (Some (set (bd_anchor_cells base))) = Inr s"
    by blast
  then have "sr_strip_policy s = strip_policy_used"
    using strip_policy_known by (auto simp: strip_route_def Let_def split: if_splits)
  then show ?thesis by (simp add: strip_policy_used_def policy_names)
qed

lemma map_object_iff:
  assumes s: "strip_step (fetch_base_map rows) strip route = Inr s"
  shows "schema_map (JObj ([(''waypoint_order_style'', JStr ''linked''), (''interval_count'', JInt (interval_count (fetch_base_map rows) route)),
           (''blocks'', JArr (map block_entry (emitted_blocks (fetch_base_map rows) s))),
           (''checkpoints'', JArr (map checkpoint_json (bd_checkpoints (fetch_base_map rows))))] @
          (case s of None \<Rightarrow> [] | Some s \<Rightarrow> strip_fields s))) \<longleftrightarrow>
    2 \<le> length (bd_checkpoints (fetch_base_map rows)) \<and> emitted_blocks (fetch_base_map rows) s \<noteq> [] \<and>
    (\<forall>b \<in> set (emitted_blocks (fetch_base_map rows) s). block_fits b) \<and>
    (\<forall>c \<in> set (bd_checkpoints (fetch_base_map rows)). checkpoint_fits c)"
proof -
  have count: "1 \<le> interval_count (fetch_base_map rows) route"
    by (cases "route_entries interval_entry route") (simp_all add: interval_count_def Let_def)
  have blocks: "list_all schema_Block (map block_entry (emitted_blocks (fetch_base_map rows) s)) \<longleftrightarrow>
      (\<forall>b \<in> set (emitted_blocks (fetch_base_map rows) s). block_fits b)"
    using emitted_base_block [OF s] block_entry_iff by (fastforce simp: list_all_iff)
  have checkpoints: "list_all schema_Checkpoint (map checkpoint_json cs) \<longleftrightarrow> (\<forall>c \<in> set cs. checkpoint_fits c)" for cs
    by (simp add: list_all_iff checkpoint_json_iff)
  note facts = blocks checkpoints count
  show ?thesis
  proof (cases s)
    case None
    with facts show ?thesis unfolding schema_map_def by (auto simp: Suc_le_eq)
  next
    case (Some t)
    with facts strip_fields_policy [OF s [unfolded Some]] show ?thesis
      unfolding schema_map_def strip_fields_def by (auto simp: Suc_le_eq)
  qed
qed

lemma route_object_iff:
  assumes "floats_ok (ge_floats env)" and "route = generated_route env rows map_id seed v"
  shows "schema_route (JObj [(''intervals'', JArr (route_entries interval_entry route)),
          (''cells_total'', JInt (case route of Inl _ \<Rightarrow> 0 | Inr r \<Rightarrow> ar_cells_total r)),
          (''corridors_used'', JArr (route_entries corridor_used_entry route))]) \<longleftrightarrow> route_fits route"
proof (cases route)
  case (Inl e)
  then show ?thesis by (simp add: schema_route_def route_entries_def route_fits_def)
next
  case (Inr r)
  then have g: "generated_route env rows map_id seed v = Inr r" using assms(2) by simp
  note tags = route_interval_tags [OF assms(1) g]
  have entries: "list_all schema_IntervalEntry (map interval_entry (ar_intervals r)) \<and>
      list_all schema_CorridorUsed (map corridor_used_entry (ar_intervals r)) \<longleftrightarrow> (\<forall>iv \<in> set (ar_intervals r). interval_fits iv)"
    using interval_entry_iff [OF tags] unfolding list_all_iff set_map by blast
  have "0 \<le> ar_cells_total r" if "\<forall>iv \<in> set (ar_intervals r). interval_fits iv"
    unfolding route_totals(1) [OF g [unfolded generated_route_def]]
    by (rule sum_list_nonneg) (use that in \<open>auto simp: interval_fits_def\<close>)
  with entries Inr show ?thesis
    by (auto simp: schema_route_def route_entries_def route_fits_def)
qed

lemma artifact_schema:
  assumes env: "env_ok env" and inputs: "inputs_ok inputs"
    and plan: "plan_generation env rows map_id seed strip = Inr (route, s)"
  shows "generated_map_schema (artifact_of env rows inputs route s) \<longleftrightarrow> artifact_fits (fetch_base_map rows) route s"
proof -
  obtain v where route: "route = generated_route env rows map_id seed v"
    and s: "strip_step (fetch_base_map rows) strip route = Inr s" using plan_parts [OF plan] by metis
  have F: "floats_ok (ge_floats env)" and sha: "hex_string 16 (compute_run_id env i)" for i
    using env hex_take by (auto simp: env_ok_def compute_run_id_def)
  have prov: "schema_provenance (JObj [(''model_hash'', JStr h),
          (''learned_score_version'', JStr (str_default (bd_learned_score_version (fetch_base_map rows)) ''unscored'')),
          (''config_hash'', JStr (ge_config_hash env)), (''code_version'', JStr (ge_code_version env)),
          (''classification_version'', JStr (ge_classification_version env))]) \<longleftrightarrow> hex_pattern 64 (JStr h)" for h
    unfolding schema_provenance_def by simp
  note parts = map_object_iff [OF s] route_object_iff [OF F route] prov inputs_conform [OF effective_inputs_ok [OF inputs]]
  have version: "(case s of None \<Rightarrow> ''generation-v0'' | Some _ \<Rightarrow> ''generation-v0.1'') \<in> {''generation-v0'', ''generation-v0.1'', ''generation-v0.2''}"
    by (cases s) simp_all
  show ?thesis
    unfolding artifact_of_def Let_def build_artifact_def regate_same [OF s] generated_map_schema_def artifact_fits_def
    using version sha [of "effective_inputs inputs (fetch_base_map rows)"] finishability_ok [OF F route]
    by (auto simp: parts(2-) parts(1) [simplified] simp del: object_of_Obj simp: object_of_def)
qed

text \<open>Rows within the bounds of the schema leave the two conditions on their number.\<close>

definition rows_ok :: "map_rows \<Rightarrow> bool" where
  "rows_ok rows \<longleftrightarrow> (\<forall>r \<in> set (mp_blocks rows). block_row_ok r) \<and>
     (\<forall>w \<in> set (mp_waypoints rows). 0 \<le> wr_index w \<and> 0 \<le> wr_order w \<and>
        wr_tag w \<in> {''Spawn'', ''Checkpoint'', ''LinkedCheckpoint'', ''Goal''}) \<and>
     (\<forall>c \<in> set (mp_corridors rows). 0 \<le> co_path_length c \<and> in_unit (co_learned_corridor_score c) \<and>
        in_unit (co_combined_sequence_score c)) \<and>
     (\<forall>h v. mp_provenance rows = Some (Some h, v) \<longrightarrow> h = [] \<or> hex_string 64 h)"

lemma rows_ok_route_fits:
  assumes rows: "rows_ok rows" and r: "generated_route env rows map_id seed v = Inr route" and "iv \<in> set (ar_intervals route)"
  shows "interval_fits iv"
proof -
  from assms(3) obtain i where i: "i < length (ar_intervals route)" "iv = ar_intervals route ! i" by (auto simp: in_set_conv_nth)
  note r' = r [unfolded generated_route_def]
  obtain row where row: "row \<in> set (mp_corridors rows)" "interval_from (ge_floats env) i row iv"
    using route_interval_row(1) [OF r' i(1)] i(2) by blast
  have order: "0 \<le> an_order a" if "\<exists>row \<in> set (map assembly_row (mp_waypoints rows)). a = row_anchor row" for a
    using that rows by (auto simp: rows_ok_def assembly_row_def row_anchor_def)
  have "0 \<le> an_order (iv_src iv)" "0 \<le> an_order (iv_dst iv)"
    unfolding i(2) route_interval_row(2,3) [OF r' i(1)]
    using order [OF route_anchor_tags(3) [OF r' i(1)]] order [OF route_anchor_tags(4) [OF r' i(1)]] .
  then show ?thesis using rows row by (auto simp: interval_fits_def interval_from_def rows_ok_def)
qed

lemma rows_ok_fits:
  assumes rows: "rows_ok rows" and plan: "plan_generation env rows map_id seed strip = Inr (route, s)"
  shows "artifact_fits (fetch_base_map rows) route s \<longleftrightarrow>
    2 \<le> length (bd_checkpoints (fetch_base_map rows)) \<and> emitted_blocks (fetch_base_map rows) s \<noteq> []"
proof -
  obtain v where route: "route = generated_route env rows map_id seed v"
    and s: "strip_step (fetch_base_map rows) strip route = Inr s" using plan_parts [OF plan] by metis
  have "block_fits b" if "b \<in> set (emitted_blocks (fetch_base_map rows) s)" for b
    using emitted_base_block [OF s that] rows by (auto simp: rows_ok_def intro: block_row_fits)
  moreover have "checkpoint_fits c" if "c \<in> set (bd_checkpoints (fetch_base_map rows))" for c
    using that rows by (auto simp: fetch_base_map_def set_map_filter checkpoint_of_def checkpoint_fits_def rows_ok_def)
  moreover have "hex_pattern 64 (JStr (str_default (bd_model_hash (fetch_base_map rows)) (replicate 64 (CHR ''0''))))"
    using rows hex_zeros by (auto simp: rows_ok_def fetch_base_map_def str_default_def split: option.split)
  moreover have "route_fits route"
    using rows_ok_route_fits [OF rows] route by (auto simp: route_fits_def split: sum.split)
  ultimately show ?thesis by (simp add: artifact_fits_def)
qed

subsection \<open>What generation returns\<close>

lemma generate_unfold:
  assumes "gn_base_map_id inputs = Some map_id" and "db map_id = Some rows"
    and "plan_generation env rows map_id (gn_random_seed inputs) (gn_strip inputs) = Inr (route, s)"
  shows "generate_from_base env db inputs =
    (case ge_validate env (artifact_of env rows inputs route s) of Some err \<Rightarrow> Inl (SchemaMismatch err)
     | None \<Rightarrow> Inr (artifact_of env rows inputs route s))"
  using assms by (simp add: generate_from_base_def Let_def)

text \<open>
  C4. Generation of a stored base map always finishes, whatever the rows are, and with nothing but an artifact or
  \<open>RuntimeError\<close>: a conforming artifact is returned exactly when the map has two grid-placed waypoints, a block is
  left to emit, and what the artifact takes over stays within the schema: non-empty block names, rotations
  from 0 to 3, non-negative indices, orders and lengths, known tags, a hexadecimal model hash, and
  scores of the chosen corridors between 0 and 1 (the stored scores are unclipped). An assembly or gate
  rejection still gives an artifact; otherwise the artifact fails its own schema.
\<close>

theorem generation_exact:
  assumes "env_ok env" and "inputs_ok inputs" and "gn_base_map_id inputs = Some map_id" and "db map_id = Some rows"
  shows "\<exists>route s. plan_generation env rows map_id (gn_random_seed inputs) (gn_strip inputs) = Inr (route, s) \<and>
    (if artifact_fits (fetch_base_map rows) route s
     then generate_from_base env db inputs = Inr (artifact_of env rows inputs route s) \<and>
       generated_map_schema (artifact_of env rows inputs route s)
     else \<exists>err. generate_from_base env db inputs = Inl (SchemaMismatch err))"
proof -
  obtain route s where plan: "plan_generation env rows map_id (gn_random_seed inputs) (gn_strip inputs) = Inr (route, s)"
    using plan_total by blast
  note gen = generate_unfold [where env = env and inputs = inputs and db = db, OF assms(3,4) plan]
  have v: "ge_validate env (artifact_of env rows inputs route s) = None \<longleftrightarrow> artifact_fits (fetch_base_map rows) route s"
    using assms(1) artifact_schema [OF assms(1,2) plan] by (simp add: env_ok_def)
  show ?thesis
    using plan gen v artifact_schema [OF assms(1,2) plan]
    by (cases "ge_validate env (artifact_of env rows inputs route s)") auto
qed

text \<open>A stored prediction above 1 that the assembler picks costs the whole artifact.\<close>

lemma unclipped_score_fails:
  assumes "env_ok env" and "inputs_ok inputs" and "gn_base_map_id inputs = Some map_id" and "db map_id = Some rows"
    and plan: "plan_generation env rows map_id (gn_random_seed inputs) (gn_strip inputs) = Inr (Inr route, s)"
    and "iv \<in> set (ar_intervals route)" and "1 < ch_learned_corridor_score (iv_chosen iv)"
  shows "\<exists>err. generate_from_base env db inputs = Inl (SchemaMismatch err)"
proof -
  have "\<not> artifact_fits (fetch_base_map rows) (Inr route) s"
    using assms(6,7) by (force simp: artifact_fits_def route_fits_def interval_fits_def in_unit_def)
  then have "ge_validate env (artifact_of env rows inputs (Inr route) s) \<noteq> None"
    using assms(1) artifact_schema [OF assms(1,2) plan] by (simp add: env_ok_def)
  then show ?thesis using generate_unfold [where env = env and inputs = inputs and db = db, OF assms(3,4) plan] by auto
qed

definition obj_get :: "string \<Rightarrow> json \<Rightarrow> json" where
  "obj_get k j = (case j of JObj kvs \<Rightarrow> json_get k kvs | _ \<Rightarrow> JNull)"

lemma generated_parts:
  assumes "generate_from_base env db inputs = Inr artifact"
  obtains map_id rows route s where "gn_base_map_id inputs = Some map_id" "db map_id = Some rows"
    "plan_generation env rows map_id (gn_random_seed inputs) (gn_strip inputs) = Inr (route, s)"
    "artifact = artifact_of env rows inputs route s" "ge_validate env artifact = None"
  using assms by (auto simp: generate_from_base_def Let_def split: option.splits sum.splits prod.splits)

lemma strip_keeps_column:
  assumes "strip_route r base policy acs = Inr t" and "policy \<noteq> STRIP_POLICY_NONE" and "c \<in> set (route_path_cells r)"
  shows "filter (\<lambda>b. xyz_cell b = Some c) (sr_stripped_blocks t) = filter (\<lambda>b. xyz_cell b = Some c) base"
proof -
  have "c \<in> compute_kept_cells r policy acs" using route_kept assms(3) by blast
  then show ?thesis
    unfolding strip_route_fields(2) [OF assms(1,2)] filter_blocks_eq filter_filter by (auto intro!: filter_cong)
qed

text \<open>
  C6. What a returned artifact says about its base map: its route was assembled from stored, scored corridors
  between the ordered anchors (or its interval list is empty); it is marked verified exactly when assembly
  succeeded and the confidence reaches the floor, so stripping never changes the verdict; its blocks are
  base blocks, all of them unless stripping was asked for and assembly succeeded; and no block is lost
  on a cell of the route.
\<close>

theorem generated_artifact_faithful:
  assumes "generate_from_base env db inputs = Inr artifact"
  shows "\<exists>map_id rows route s. gn_base_map_id inputs = Some map_id \<and> db map_id = Some rows \<and>
    plan_generation env rows map_id (gn_random_seed inputs) (gn_strip inputs) = Inr (route, s) \<and>
    (obj_get ''route_verified'' (obj_get ''finishability'' artifact) = JBool True \<longleftrightarrow>
       (\<exists>r. route = Inr r \<and> AI_CONFIDENCE_FLOOR (ge_floats env) \<le> ar_ai_confidence r)) \<and>
    (\<forall>r. route = Inr r \<longrightarrow> list_all2 (stored_interval (mp_corridors rows)) (steps_of (ar_anchors r)) (ar_intervals r)) \<and>
    obj_get ''intervals'' (obj_get ''route'' artifact) = JArr (route_entries interval_entry route) \<and>
    obj_get ''blocks'' (obj_get ''map'' artifact) = JArr (map block_entry (emitted_blocks (fetch_base_map rows) s)) \<and>
    (if gn_strip inputs \<and> (\<exists>r. route = Inr r)
     then (\<forall>c \<in> set (route_path_cells (projr route)).
       filter (\<lambda>b. xyz_cell b = Some c) (emitted_blocks (fetch_base_map rows) s) =
       filter (\<lambda>b. xyz_cell b = Some c) (bd_blocks (fetch_base_map rows)))
     else emitted_blocks (fetch_base_map rows) s = bd_blocks (fetch_base_map rows)) \<and>
    set (emitted_blocks (fetch_base_map rows) s) \<subseteq> set (bd_blocks (fetch_base_map rows))"
proof -
  obtain map_id rows route s where p: "gn_base_map_id inputs = Some map_id" "db map_id = Some rows"
    "plan_generation env rows map_id (gn_random_seed inputs) (gn_strip inputs) = Inr (route, s)"
    "artifact = artifact_of env rows inputs route s" by (rule generated_parts [OF assms])
  obtain v where route: "route = generated_route env rows map_id (gn_random_seed inputs) v"
    and s: "strip_step (fetch_base_map rows) (gn_strip inputs) route = Inr s" using plan_parts [OF p(3)] by metis
  have art: "artifact = build_artifact env (effective_inputs inputs (fetch_base_map rows)) (fetch_base_map rows) route
      (run_finishability_gate (ge_floats env) route) s"
    by (simp add: p(4) artifact_of_def Let_def regate_same [OF s])
  have verified: "obj_get ''route_verified'' (obj_get ''finishability'' artifact) = JBool True \<longleftrightarrow>
       (\<exists>r. route = Inr r \<and> AI_CONFIDENCE_FLOOR (ge_floats env) \<le> ar_ai_confidence r)"
    using gate_verified [of "ge_floats env" route] by (simp add: art build_artifact_def obj_get_def json_get_def finishability_block_def)
  have fields: "obj_get ''intervals'' (obj_get ''route'' artifact) = JArr (route_entries interval_entry route)"
    "obj_get ''blocks'' (obj_get ''map'' artifact) = JArr (map block_entry (emitted_blocks (fetch_base_map rows) s))"
    by (simp_all add: art build_artifact_def obj_get_def json_get_def)
  have chain: "list_all2 (stored_interval (mp_corridors rows)) (steps_of (ar_anchors r)) (ar_intervals r)" if "route = Inr r" for r
    using assembled_chain [OF trans [OF route [symmetric, unfolded generated_route_def] that]] by blast
  have strip: "if gn_strip inputs \<and> (\<exists>r. route = Inr r)
     then (\<forall>c \<in> set (route_path_cells (projr route)).
       filter (\<lambda>b. xyz_cell b = Some c) (emitted_blocks (fetch_base_map rows) s) =
       filter (\<lambda>b. xyz_cell b = Some c) (bd_blocks (fetch_base_map rows)))
     else emitted_blocks (fetch_base_map rows) s = bd_blocks (fetch_base_map rows)"
  proof (cases s)
    case None
    then show ?thesis using s by (auto simp: emitted_blocks_def strip_step_def split: sum.splits if_splits)
  next
    case (Some t)
    from strip_step_intact [OF s [unfolded Some]] obtain r where r: "gn_strip inputs" "route = Inr r"
      "strip_route r (bd_blocks (fetch_base_map rows)) strip_policy_used (Some (set (bd_anchor_cells (fetch_base_map rows)))) = Inr t" by blast
    with strip_keeps_column [OF r(3) strip_policy_known(2)] Some show ?thesis by (simp add: emitted_blocks_def)
  qed
  show ?thesis
    by (rule exI [of _ map_id], rule exI [of _ rows], rule exI [of _ route], rule exI [of _ s])
      (use p(1-3) verified chain fields strip emitted_from_base [OF s] in blast)
qed

text \<open>
  C32. Re-validating a returned artifact reads back what the run was given (map, seed and strip flag, also
  for seed 0), never raises, and gives a summary exactly when a route is assembled and the geometry
  catalogue is not empty.
\<close>

theorem revalidation_reads_inputs:
  assumes "generate_from_base env db inputs = Inr artifact"
  shows "\<exists>map_id rows result. gn_base_map_id inputs = Some map_id \<and> db map_id = Some rows \<and>
    validate_artifact env db artifact = revalidate_rows env rows map_id (gn_random_seed inputs) (gn_strip inputs) \<and>
    validate_artifact env db artifact = Inr result \<and>
    (result = None \<longleftrightarrow> mp_geometry rows = [] \<or> (\<exists>e. generated_route env rows map_id (gn_random_seed inputs) None = Inl e))"
proof -
  obtain map_id rows route s where p: "gn_base_map_id inputs = Some map_id" "db map_id = Some rows"
    "artifact = artifact_of env rows inputs route s" "ge_validate env artifact = None" by (rule generated_parts [OF assms])
  let ?eff = "effective_inputs inputs (fetch_base_map rows)"
  have eff: "gn_base_map_id ?eff = Some map_id" "gn_random_seed ?eff = gn_random_seed inputs" "gn_strip ?eff = gn_strip inputs"
    using p(1) by (simp_all add: effective_inputs_def)
  have "artifact_inputs artifact = inputs_dict ?eff"
    by (simp add: p(3) artifact_of_def Let_def build_artifact_def artifact_inputs_def json_get_def)
  then have inputs: "json_get ''base_map_id'' (artifact_inputs artifact) = JInt map_id"
    "json_get ''random_seed'' (artifact_inputs artifact) = JInt (gn_random_seed inputs)"
    "json_get ''strip'' (artifact_inputs artifact) = JBool (gn_strip inputs)"
    by (simp_all add: inputs_dict_def json_get_def eff opt_json_def)
  have same: "validate_artifact env db artifact = revalidate_rows env rows map_id (gn_random_seed inputs) (gn_strip inputs)"
    using p(2,4) inputs by (simp add: validate_artifact_def Let_def artifact_seed_def)
  define route' where "route' = generated_route env rows map_id (gn_random_seed inputs) None"
  obtain s' where s': "strip_step (fetch_base_map rows) (gn_strip inputs) route' = Inr s'" using strip_step_total by blast
  have "\<exists>result. run_preemit_inline env rows route' (emitted_blocks (fetch_base_map rows) s') = Inr result \<and>
      (result = None \<longleftrightarrow> mp_geometry rows = [] \<or> (\<exists>e. route' = Inl e))"
  proof (cases "(\<exists>e. route' = Inl e) \<or> mp_geometry rows = []")
    case True
    then show ?thesis by (auto simp: run_preemit_inline_def split: sum.split)
  next
    case False
    then obtain r where r: "route' = Inr r" by (cases route') auto
    have "set (emitted_blocks (fetch_base_map rows) s') \<subseteq> set (bd_blocks (fetch_base_map rows))" by (rule emitted_from_base [OF s'])
    from preemit_total [OF emitted_normalise [OF this]] obtain su where
      "run_preemit_validation (ge_floats env) (emitted_blocks (fetch_base_map rows) s') (map_of (mp_geometry rows)) (Some (route_path_cells r))
         (preemit_spawn r) (replay_evidence rows) 9 1 None (if preemit_paths r = [] then None else Some (preemit_paths r)) = Inr su" by blast
    with False r show ?thesis by (auto simp: run_preemit_inline_def Let_def)
  qed
  then show ?thesis using p(1,2) same s' by (auto simp: revalidate_rows_def Let_def route'_def [symmetric])
qed

subsection \<open>Instances\<close>

definition demo_env :: generator_env where
  "demo_env = \<lparr>ge_floats = rat_fops, ge_blake = (\<lambda>_. 0), ge_sha256 = (\<lambda>_. replicate 64 (CHR ''a'')), ge_dumps = (\<lambda>_. []),
     ge_validate = (\<lambda>d. if generated_map_schema d then None else Some ''nonconforming''), ge_detail = (\<lambda>_. ''detail''),
     ge_now = ''2026-01-01T00:00:00'', ge_code_version = ''dev'', ge_config_hash = ''c0'', ge_classification_version = ''v1''\<rparr>"

definition demo_waypoint :: "string \<Rightarrow> int \<Rightarrow> int \<Rightarrow> waypoint_row" where
  "demo_waypoint tag order x = \<lparr>wr_index = x, wr_order = order, wr_tag = tag, wr_x = Some x, wr_y = Some 9, wr_z = Some 5, wr_abs = None\<rparr>"

definition demo_rows :: map_rows where
  "demo_rows = \<lparr>mp_source_map_id = Some ''tmx1'',
     mp_blocks = [\<lparr>bw_family = Some ''Road'', bw_type = None, bw_cell = (5, 9, 5), bw_rotation = Some 1\<rparr>,
       \<lparr>bw_family = Some ''Deco'', bw_type = Some ''Tree'', bw_cell = (30, 9, 30), bw_rotation = None\<rparr>],
     mp_waypoints = [demo_waypoint ''Spawn'' 0 5, demo_waypoint ''LinkedCheckpoint'' 1 7,
       demo_waypoint ''LinkedCheckpoint'' 1 8, demo_waypoint ''Goal'' 0 9],
     mp_provenance = None, mp_corridors = demo_corridors, mp_replay_paths = [], mp_geometry = []\<rparr>"

definition demo_db :: "int \<Rightarrow> map_rows option" where
  "demo_db i = (if i = 1 then Some demo_rows else None)"

definition demo_request :: generation_inputs where
  "demo_request = \<lparr>gn_base_map_id = Some 1, gn_base_map_source_id = None, gn_style_tag_filter = None, gn_difficulty = ''medium'',
     gn_random_seed = 0, gn_strip = False\<rparr>"

lemma exact_floats_ok: "floats_ok rat_fops"
proof -
  have "0 \<le> sum_list xs / of_nat (length xs) \<and> sum_list xs / of_nat (length xs) \<le> 1"
    if "xs \<noteq> []" "\<forall>x \<in> set xs. 0 \<le> x \<and> x \<le> 1" for xs :: "rat list"
  proof -
    have "0 \<le> sum_list xs" using that(2) by (simp add: sum_list_nonneg)
    moreover have "sum_list xs \<le> of_nat (length xs)" using that(2) by (induction xs) auto
    moreover have "0 < (of_nat (length xs) :: rat)" using that(1) by simp
    ultimately show ?thesis by (simp add: divide_le_eq)
  qed
  then show ?thesis by (simp add: floats_ok_def rat_fops_def)
qed

lemma demo_facts: "env_ok demo_env" "rows_ok demo_rows" "inputs_ok demo_request" "gn_base_map_id demo_request = Some 1"
  "demo_db 1 = Some demo_rows" "2 \<le> length (bd_checkpoints (fetch_base_map demo_rows))" "bd_blocks (fetch_base_map demo_rows) \<noteq> []"
proof -
  have "hex_string 64 (replicate 64 (CHR ''a''))" by (simp add: hex_string_def is_hex_def is_digit_def list_all_iff)
  then show "env_ok demo_env" using exact_floats_ok by (simp add: env_ok_def demo_env_def)
  show "rows_ok demo_rows"
    by (simp add: rows_ok_def demo_rows_def demo_corridors_def demo_corridor_def demo_waypoint_def block_row_ok_def
        in_unit_def get_or_def)
  show "inputs_ok demo_request" "gn_base_map_id demo_request = Some 1" "demo_db 1 = Some demo_rows"
    by (simp_all add: inputs_ok_def demo_request_def ALLOWED_STYLE_def ALLOWED_DIFFICULTY_def demo_db_def)
  show "2 \<le> length (bd_checkpoints (fetch_base_map demo_rows))" "bd_blocks (fetch_base_map demo_rows) \<noteq> []"
    by (simp_all add: fetch_base_map_def demo_rows_def demo_waypoint_def checkpoint_of_def grid_cell_def List.map_filter_simps)
qed

lemma demo_keeps_blocks:
  assumes "plan_generation demo_env demo_rows 1 (gn_random_seed demo_request) (gn_strip demo_request) = Inr (route, s)"
  shows "emitted_blocks (fetch_base_map demo_rows) s \<noteq> []"
proof -
  from plan_parts [OF assms] have "strip_step (fetch_base_map demo_rows) False route = Inr s"
    by (metis demo_request_def generation_inputs.select_convs(6))
  then have "s = None" by (auto simp: strip_step_def split: sum.splits)
  then show ?thesis using demo_facts(7) by (simp add: emitted_blocks_def)
qed

theorem generation_exact_witness:
  "\<exists>artifact. generate_from_base demo_env demo_db demo_request = Inr artifact \<and> generated_map_schema artifact"
proof -
  obtain route s where r: "plan_generation demo_env demo_rows 1 (gn_random_seed demo_request) (gn_strip demo_request) = Inr (route, s)"
    "if artifact_fits (fetch_base_map demo_rows) route s
     then generate_from_base demo_env demo_db demo_request = Inr (artifact_of demo_env demo_rows demo_request route s) \<and>
       generated_map_schema (artifact_of demo_env demo_rows demo_request route s)
     else \<exists>err. generate_from_base demo_env demo_db demo_request = Inl (SchemaMismatch err)"
    using generation_exact [where db = demo_db and env = demo_env and inputs = demo_request, OF demo_facts(1,3-5)] by blast
  then show ?thesis using rows_ok_fits [OF demo_facts(2) r(1)] demo_facts(6) demo_keeps_blocks [OF r(1)] by auto
qed

lemma demo_generates: "\<exists>artifact. generate_from_base demo_env demo_db demo_request = Inr artifact"
proof -
  obtain route s where plan: "plan_generation demo_env demo_rows 1 (gn_random_seed demo_request) (gn_strip demo_request) = Inr (route, s)"
    using plan_total by blast
  have "generated_map_schema (artifact_of demo_env demo_rows demo_request route s)"
    using artifact_schema [OF demo_facts(1,3) plan] rows_ok_fits [OF demo_facts(2) plan] demo_facts(6) demo_keeps_blocks [OF plan] by blast
  moreover have "ge_validate demo_env d = None" if "generated_map_schema d" for d
    using demo_facts(1) that by (simp add: env_ok_def)
  ultimately show ?thesis
    using generate_unfold [where env = demo_env and db = demo_db and inputs = demo_request, OF demo_facts(4,5) plan] by simp
qed

text \<open>The same request with stripping: the route exists, so the block on its first cell stays.\<close>

definition demo_generated :: assembled_route where
  "demo_generated = projr (assemble_route rat_fops (\<lambda>_. 0) demo_cp_rows demo_corridors 1 0 3 None)"

lemma demo_route:
  "assemble_route rat_fops (\<lambda>_. 0) demo_cp_rows demo_corridors 1 0 3 None = Inr demo_generated"
  "(5, 9, 5) \<in> set (route_path_cells demo_generated)"
  by code_simp+

lemma demo_plan: "\<exists>t. plan_generation demo_env demo_rows 1 0 True = Inr (Inr demo_generated, Some t)"
proof -
  have "map assembly_row (mp_waypoints demo_rows) = demo_cp_rows"
    by (simp add: demo_rows_def demo_waypoint_def demo_cp_rows_def demo_cp_row_def assembly_row_def)
  then have "generated_route demo_env demo_rows 1 0 None = Inr demo_generated"
    using demo_route(1) by (simp add: generated_route_def demo_env_def demo_rows_def TOP_K_CANDIDATES_def)
  moreover have "build_candidate_validator (ge_floats demo_env) demo_rows bs = Inr None" for bs
    by (simp add: build_candidate_validator_def demo_rows_def)
  moreover obtain s where "strip_step (fetch_base_map demo_rows) True (Inr demo_generated) = Inr s" using strip_step_total by blast
  ultimately show ?thesis by (auto simp: plan_generation_def Let_def strip_step_def split: sum.splits)
qed

lemma demo_strip_generates:
  "\<exists>artifact. generate_from_base demo_env demo_db (demo_request\<lparr>gn_strip := True\<rparr>) = Inr artifact"
proof -
  let ?inputs = "demo_request\<lparr>gn_strip := True\<rparr>"
  obtain t where t: "plan_generation demo_env demo_rows 1 (gn_random_seed ?inputs) (gn_strip ?inputs) = Inr (Inr demo_generated, Some t)"
    using demo_plan by (auto simp: demo_request_def)
  from plan_parts [OF t] have "strip_step (fetch_base_map demo_rows) (gn_strip ?inputs) (Inr demo_generated) = Inr (Some t)" by metis
  from strip_step_intact [OF this] have "strip_route demo_generated (bd_blocks (fetch_base_map demo_rows)) strip_policy_used
      (Some (set (bd_anchor_cells (fetch_base_map demo_rows)))) = Inr t" by blast
  moreover have "filter (\<lambda>b. xyz_cell b = Some (5, 9, 5)) (bd_blocks (fetch_base_map demo_rows)) \<noteq> []" by code_simp
  ultimately have "filter (\<lambda>b. xyz_cell b = Some (5, 9, 5)) (sr_stripped_blocks t) \<noteq> []"
    using strip_keeps_column [OF _ strip_policy_known(2) demo_route(2)] by metis
  then have kept: "emitted_blocks (fetch_base_map demo_rows) (Some t) \<noteq> []" by (auto simp: emitted_blocks_def)
  have ok: "inputs_ok ?inputs" "gn_base_map_id ?inputs = Some 1" using demo_facts(3,4) by (simp_all add: inputs_ok_def)
  have "generated_map_schema (artifact_of demo_env demo_rows ?inputs (Inr demo_generated) (Some t))"
    using artifact_schema [OF demo_facts(1) ok(1) t] rows_ok_fits [OF demo_facts(2) t] demo_facts(6) kept by blast
  moreover have "ge_validate demo_env d = None" if "generated_map_schema d" for d
    using demo_facts(1) that by (simp add: env_ok_def)
  ultimately show ?thesis
    using generate_unfold [where env = demo_env and db = demo_db and inputs = ?inputs, OF ok(2) demo_facts(5) t] by simp
qed

theorem generated_artifact_faithful_witness:
  "\<exists>artifact s. generate_from_base demo_env demo_db (demo_request\<lparr>gn_strip := True\<rparr>) = Inr artifact \<and>
     obj_get ''blocks'' (obj_get ''map'' artifact) = JArr (map block_entry (emitted_blocks (fetch_base_map demo_rows) s)) \<and>
     set (emitted_blocks (fetch_base_map demo_rows) s) \<subseteq> set (bd_blocks (fetch_base_map demo_rows))"
proof -
  obtain artifact where a: "generate_from_base demo_env demo_db (demo_request\<lparr>gn_strip := True\<rparr>) = Inr artifact"
    using demo_strip_generates by blast
  have "gn_base_map_id (demo_request\<lparr>gn_strip := True\<rparr>) = Some 1" using demo_facts(4) by simp
  with generated_artifact_faithful [OF a] a demo_facts(5) show ?thesis by force
qed

theorem revalidation_reads_inputs_witness:
  "\<exists>artifact. generate_from_base demo_env demo_db demo_request = Inr artifact \<and> validate_artifact demo_env demo_db artifact = Inr None"
proof -
  obtain artifact where a: "generate_from_base demo_env demo_db demo_request = Inr artifact" using demo_generates by blast
  have "mp_geometry demo_rows = []" by (simp add: demo_rows_def)
  with revalidation_reads_inputs [OF a] a demo_facts(4,5) show ?thesis by force
qed

end
