(* ===== verification/Beam_Search.thy ===== *)
theory Beam_Search
  imports Geom_Validator Route_Assembly
begin

section \<open>The synthesising generator: scoring and interval search\<close>

text \<open>
  Model of the first two thirds of \<^verbatim>\<open>src/src/generation/ai_generator.py\<close>: the catalogue of candidate
  blocks, the priors mined from the corpus, the score of a candidate and the beam search from one anchor
  to the next. Tables are lists of rows in the order the query returns them, dictionaries association
  lists in insertion order, scores rationals computed with the parameter \<open>F\<close> (a subtraction is the
  addition of the negated number). \<open>r6\<close> is \<open>round(v, 6)\<close>, \<open>coll\<close> what the collation of the database
  identifies. The set of occupied cells is threaded through the intervals.
\<close>

type_synonym block_id = "string \<times> string"

subsection \<open>The catalogue\<close>

text \<open>\<open>LIKE\<close> with the default escape character, a backslash.\<close>

fun sql_like :: "(char \<Rightarrow> char) \<Rightarrow> string \<Rightarrow> string \<Rightarrow> bool" where
  "sql_like coll [] s = (s = [])"
| "sql_like coll (p # ps) [] = (p = CHR ''%'' \<and> sql_like coll ps [])"
| "sql_like coll (p # ps) (c # cs) =
     (if p = CHR ''%'' then sql_like coll ps (c # cs) \<or> sql_like coll (p # ps) cs
      else if p = CHR 0x5C then
        (case ps of [] \<Rightarrow> c = p \<and> cs = [] | q # qs \<Rightarrow> coll c = coll q \<and> sql_like coll qs cs)
      else (p = CHR ''_'' \<or> coll c = coll p) \<and> sql_like coll ps cs)"

text \<open>The patterns of the query as \<open>LIKE\<close> receives them: the client halves each doubled percent sign, and
  the string literal of SQL halves the doubled backslash.\<close>

definition CUSTOM_PATTERNS :: "string list" where
  "CUSTOM_PATTERNS = [[CHR ''%'', CHR 0x5C, CHR ''%''], ''%/%'', ''%.Block.Gbx%'', ''%_CustomBlock%'']"

text \<open>A backslash in a name is not filtered: the pattern meant for it asks for a percent sign at the end.\<close>

lemma backslash_pattern:
  "sql_like coll [CHR ''%'', CHR 0x5C, CHR ''%''] s \<longleftrightarrow> s \<noteq> [] \<and> coll (List.last s) = coll CHR ''%''"
proof (induction s)
  case (Cons c cs)
  have "sql_like coll [CHR 0x5C, CHR ''%''] (c # cs) \<longleftrightarrow> coll c = coll CHR ''%'' \<and> cs = []" by simp
  with Cons show ?case by auto
qed simp

definition MIN_MAP_COUNT_THRESHOLD :: int where "MIN_MAP_COUNT_THRESHOLD = 1"

record geometry_row =
  gr_family :: string
  gr_name :: string
  gr_shape_class :: string
  gr_surface_hint :: string
  gr_is_anchor_capable :: bool
  gr_is_deco :: bool
  gr_placement_mode :: string
  gr_connector_hint :: string
  gr_footprint_x :: int
  gr_footprint_y :: int
  gr_footprint_z :: int
  gr_map_count :: int

record catalogue_entry =
  ct_family :: string
  ct_name :: string
  ct_info :: geometry_info

definition catalogue_where :: "(char \<Rightarrow> char) \<Rightarrow> string set \<Rightarrow> int \<Rightarrow> geometry_row \<Rightarrow> bool" where
  "catalogue_where coll base_families min_map_count r \<longleftrightarrow>
     \<not> gr_is_anchor_capable r \<and> \<not> gr_is_deco r \<and> gr_shape_class r = ''straight'' \<and>
     gr_placement_mode r \<in> {''grid_only'', ''mixed'', ''unknown''} \<and> gr_connector_hint r \<noteq> [] \<and> gr_footprint_x r = 1 \<and>
     (\<forall>p \<in> set CUSTOM_PATTERNS. \<not> sql_like coll p (gr_name r)) \<and> min_map_count \<le> gr_map_count r \<and>
     (base_families = {} \<or> (\<exists>f \<in> base_families. map coll f = map coll (gr_family r)))"

definition geometry_info_of :: "geometry_row \<Rightarrow> geometry_info" where
  "geometry_info_of r =
     \<lparr>gi_footprint_x = gr_footprint_x r, gi_footprint_y = gr_footprint_y r, gi_footprint_z = gr_footprint_z r,
      gi_connector_hint = gr_connector_hint r,
      gi_shape_class = (if gr_shape_class r = [] then ''unknown'' else gr_shape_class r),
      gi_is_anchor_capable = gr_is_anchor_capable r\<rparr>"

text \<open>\<open>load_geometry_lookup\<close> of the geometry validator, which is called without families.\<close>

definition load_geometry_lookup :: "geometry_row list \<Rightarrow> (block_id \<times> geometry_info) list" where
  "load_geometry_lookup rows = fold (\<lambda>r. AList.update (gr_family r, gr_name r) (geometry_info_of r)) rows []"

definition candidate_entry :: "geometry_row \<Rightarrow> catalogue_entry" where
  "candidate_entry r = \<lparr>ct_family = gr_family r, ct_name = gr_name r, ct_info = geometry_info_of r\<rparr>"

definition load_candidate_catalogue :: "(char \<Rightarrow> char) \<Rightarrow> geometry_row list \<Rightarrow> string set \<Rightarrow> catalogue_entry list" where
  "load_candidate_catalogue coll rows base_families =
     map candidate_entry (filter (catalogue_where coll base_families MIN_MAP_COUNT_THRESHOLD) rows)"

record shape_surface =
  ss_shape_class :: string
  ss_surface_hint :: string

definition add_shape :: "geometry_row \<Rightarrow> (block_id \<times> shape_surface) list \<Rightarrow> (block_id \<times> shape_surface) list" where
  "add_shape r out = AList.update (gr_family r, gr_name r)
     \<lparr>ss_shape_class = (if gr_shape_class r = [] then ''unknown'' else gr_shape_class r), ss_surface_hint = gr_surface_hint r\<rparr> out"

definition load_shape_surface_lookup :: "geometry_row list \<Rightarrow> (block_id \<times> shape_surface) list" where
  "load_shape_surface_lookup rows = fold add_shape rows []"

subsection \<open>Priors\<close>

text \<open>Both loaders count successors per source (a block, or a pair of blocks) and normalise.\<close>

type_synonym 'k prior_table = "('k \<times> (block_id \<times> rat) list) list"

definition count_of :: "int option \<Rightarrow> int" where "count_of c = get_or c 0"

definition count_row :: "'k \<times> block_id \<times> int option \<Rightarrow> ('k \<times> (block_id \<times> int) list) list \<Rightarrow> ('k \<times> (block_id \<times> int) list) list" where
  "count_row row counts =
     (case row of (k, b, c) \<Rightarrow> AList.update k (AList.update b (count_of c) (get_or (map_of counts k) [])) counts)"

definition total_row :: "'k \<times> block_id \<times> int option \<Rightarrow> ('k \<times> int) list \<Rightarrow> ('k \<times> int) list" where
  "total_row row totals = (case row of (k, b, c) \<Rightarrow> AList.update k (get_or (map_of totals k) 0 + count_of c) totals)"

definition load_priors :: "rat fops \<Rightarrow> ('k \<times> block_id \<times> int option) list \<Rightarrow> 'k prior_table" where
  "load_priors F rows =
     (let totals = fold total_row rows [] in
      map (\<lambda>(k, dests). (k,
          let total = get_or (map_of totals k) 0 in
          if total = 0 then []
          else map (\<lambda>(b, c). (b, f_div F (f_lit F (of_int c)) (f_lit F (of_int total)))) dests))
        (fold count_row rows []))"

definition load_pair_priors :: "rat fops \<Rightarrow> (block_id \<times> block_id \<times> int option) list \<Rightarrow> block_id prior_table" where
  "load_pair_priors F rows = load_priors F rows"

definition load_triple_priors :: "rat fops \<Rightarrow> (block_id \<times> block_id \<times> block_id \<times> int option) list
    \<Rightarrow> (block_id \<times> block_id) prior_table" where
  "load_triple_priors F rows = load_priors F (map (\<lambda>(a, b, c, n). ((a, b), c, n)) rows)"

definition prior_of :: "'k prior_table \<Rightarrow> 'k \<Rightarrow> block_id \<Rightarrow> rat" where
  "prior_of priors k b = get_or (map_of (get_or (map_of priors k) []) b) 0"

subsection \<open>Directions and footprints\<close>

definition DIR_BY_ROT :: "int \<Rightarrow> int \<times> int" where
  "DIR_BY_ROT r = (if r = 0 then (1, 0) else if r = 1 then (0, 1) else if r = 2 then (-1, 0) else (0, -1))"

definition advance :: "cell \<Rightarrow> int \<Rightarrow> cell" where
  "advance c rotation = (case c of (x, y, z) \<Rightarrow> case DIR_BY_ROT (rotation mod 4) of (dx, dz) \<Rightarrow> (x + dx, y, z + dz))"

definition direction_toward :: "cell \<Rightarrow> cell \<Rightarrow> int" where
  "direction_toward src dst =
     (case src of (sx, sy, sz) \<Rightarrow> case dst of (tx, ty, tz) \<Rightarrow>
        let dx = tx - sx; dz = tz - sz
        in if \<bar>dz\<bar> \<le> \<bar>dx\<bar> then (if 0 \<le> dx then 0 else 2) else (if 0 \<le> dz then 1 else 3))"

definition footprint_cells :: "cell \<Rightarrow> int \<Rightarrow> int \<Rightarrow> cell list" where
  "footprint_cells origin rotation footprint_x =
     (case origin of (x, y, z) \<Rightarrow>
        if footprint_x \<le> 1 then [origin]
        else let rot = rotation mod 4; steps = map int [0..<nat footprint_x]
          in if rot = 0 then map (\<lambda>i. (x + i, y, z)) steps
            else if rot = 1 then map (\<lambda>i. (x, y, z + i)) steps
            else if rot = 2 then map (\<lambda>i. (x - i, y, z)) steps
            else map (\<lambda>i. (x, y, z - i)) steps)"

subsection \<open>The score of a candidate\<close>

record score_terms =
  tm_pair_prior :: rat
  tm_triple_prior :: rat
  tm_connector :: rat
  tm_traversability :: rat
  tm_sequence :: rat
  tm_diversity_penalty :: rat
  tm_validation_penalty :: rat

definition AI_GENERATOR_WEIGHTS :: "rat fops \<Rightarrow> score_terms" where
  "AI_GENERATOR_WEIGHTS F =
     \<lparr>tm_pair_prior = f_lit F 1, tm_triple_prior = f_lit F (7 / 10), tm_connector = f_lit F (1 / 2),
      tm_traversability = f_lit F (1 / 2), tm_sequence = f_lit F (3 / 10), tm_diversity_penalty = f_lit F (3 / 10),
      tm_validation_penalty = f_lit F (4 / 10)\<rparr>"

record candidate_block =
  cb_family :: string
  cb_name :: string
  cb_cell :: cell
  cb_rotation :: int
  cb_info :: geometry_info

record ai_block =
  ab_family :: string
  ab_name :: string
  ab_cell :: cell
  ab_rotation :: int
  ab_score :: rat
  ab_breakdown :: score_terms

definition SHAPE_COMPATIBLE_PAIRS :: "(string \<times> string) list" where
  "SHAPE_COMPATIBLE_PAIRS =
     [(''straight'', ''straight''), (''curve'', ''straight''), (''straight'', ''curve''), (''curve'', ''curve''),
      (''platform'', ''platform''), (''ramp'', ''straight''), (''straight'', ''ramp''), (''ramp'', ''curve''), (''curve'', ''ramp''),
      (''ramp'', ''platform''), (''platform'', ''ramp''), (''ramp'', ''ramp''), (''straight'', ''loop''), (''loop'', ''straight''),
      (''ramp'', ''loop''), (''loop'', ''ramp''), (''loop'', ''loop''), (''start'', ''straight''), (''start'', ''ramp''),
      (''start'', ''curve''), (''start'', ''platform''), (''checkpoint'', ''straight''), (''straight'', ''checkpoint''),
      (''checkpoint'', ''ramp''), (''ramp'', ''checkpoint''), (''checkpoint'', ''curve''), (''curve'', ''checkpoint''),
      (''checkpoint'', ''platform''), (''platform'', ''checkpoint''), (''checkpoint'', ''checkpoint''), (''finish'', ''straight''),
      (''straight'', ''finish''), (''finish'', ''ramp''), (''ramp'', ''finish''), (''gate'', ''straight''), (''straight'', ''gate''),
      (''gate'', ''ramp''), (''ramp'', ''gate''), (''gate'', ''checkpoint''), (''checkpoint'', ''gate'')]"

definition clamp01 :: "rat \<Rightarrow> rat" where "clamp01 q = max 0 (min 1 q)"

definition sequence_pair_score :: "rat fops \<Rightarrow> shape_surface option \<Rightarrow> shape_surface \<Rightarrow> rat" where
  "sequence_pair_score F prev cand =
     (case prev of
        None \<Rightarrow> 0
      | Some p \<Rightarrow>
          clamp01 (if ss_shape_class p = ''unknown'' \<or> ss_shape_class cand = ''unknown''
            then f_add F (f_lit F (4 / 10)) (- f_lit F (1 / 10))
            else let s = f_lit F (4 / 10);
                s = (if (ss_shape_class p, ss_shape_class cand) \<in> set SHAPE_COMPATIBLE_PAIRS then f_add F s (f_lit F (3 / 10)) else s)
              in if ss_surface_hint p \<noteq> [] \<and> ss_surface_hint cand \<noteq> [] \<and> ss_surface_hint p = ss_surface_hint cand
                then f_add F s (f_lit F (3 / 10)) else s))"

definition shadow_cells_clear :: "rat fops \<Rightarrow> candidate_block \<Rightarrow> cell set \<Rightarrow> rat" where
  "shadow_cells_clear F cand occupied =
     (let fx = gi_footprint_x (cb_info cand) in
      if fx \<le> 1 then 0
      else let shadow = tl (footprint_cells (cb_cell cand) (cb_rotation cand) fx)
        in if shadow = [] then 0
          else f_div F (f_lit F (of_nat (length (filter (\<lambda>c. c \<in> occupied) shadow)))) (f_lit F (of_nat (length shadow))))"

text \<open>The corpus tables a search reads.\<close>

record corpus =
  cp_catalogue :: "catalogue_entry list"
  cp_pair_priors :: "block_id prior_table"
  cp_triple_priors :: "(block_id \<times> block_id) prior_table"
  cp_shape_surface :: "(block_id \<times> shape_surface) list"

definition score_candidate_ai :: "rat fops \<Rightarrow> corpus \<Rightarrow> score_terms \<Rightarrow> candidate_block \<Rightarrow> block_id option \<Rightarrow> block_id option
    \<Rightarrow> ai_block list \<Rightarrow> cell set \<Rightarrow> rat \<times> score_terms" where
  "score_candidate_ai F corpus weights cand prev prev_prev path_so_far occupied =
     (let cid = (cb_family cand, cb_name cand);
          pair = (case prev of None \<Rightarrow> 0 | Some p \<Rightarrow> prior_of (cp_pair_priors corpus) p cid);
          triple = (case (prev_prev, prev) of (Some pp, Some p) \<Rightarrow> prior_of (cp_triple_priors corpus) (pp, p) cid | _ \<Rightarrow> 0);
          sequence = (case prev of None \<Rightarrow> 0
            | Some p \<Rightarrow> (case map_of (cp_shape_surface corpus) cid of None \<Rightarrow> 0
                | Some ss \<Rightarrow> sequence_pair_score F (map_of (cp_shape_surface corpus) p) ss));
          same = length (filter (\<lambda>b. (ab_family b, ab_name b) = cid) path_so_far);
          b = \<lparr>tm_pair_prior = pair, tm_triple_prior = triple, tm_connector = 1, tm_traversability = (if 0 < pair then 1 else 0),
             tm_sequence = sequence,
             tm_diversity_penalty = (if path_so_far = [] then 0
               else f_div F (f_lit F (of_nat same)) (f_lit F (of_nat (max 1 (length path_so_far))))),
             tm_validation_penalty = shadow_cells_clear F cand occupied\<rparr>;
          w = (\<lambda>field. f_mul F (field weights) (field b))
      in (f_add F (f_add F (f_add F (f_add F (f_add F (f_add F (w tm_pair_prior) (w tm_triple_prior)) (w tm_connector))
            (w tm_traversability)) (w tm_sequence)) (- w tm_diversity_penalty)) (- w tm_validation_penalty), b))"

subsection \<open>Priors are probabilities\<close>

text \<open>What grouping in the query promises: one row per source and successor, with a count that is not negative.\<close>

definition grouped :: "('k \<times> block_id \<times> int option) list \<Rightarrow> bool" where
  "grouped rows \<longleftrightarrow> distinct (map (\<lambda>(k, b, c). (k, b)) rows) \<and> (\<forall>(k, b, c) \<in> set rows. 0 \<le> count_of c)"

lemma update_fresh: "k \<notin> fst ` set xs \<Longrightarrow> AList.update k v xs = xs @ [(k, v)]"
  by (induction xs) auto

lemma grouped_counts:
  assumes "grouped rows"
  shows "sum_list (map snd (get_or (map_of (fold count_row rows []) k) [])) = get_or (map_of (fold total_row rows []) k) 0 \<and>
    fst ` set (get_or (map_of (fold count_row rows []) k) []) = {b. \<exists>c. (k, b, c) \<in> set rows} \<and>
    (\<forall>(b, c) \<in> set (get_or (map_of (fold count_row rows []) k) []). 0 \<le> c)"
  using assms
proof (induction rows rule: rev_induct)
  case Nil
  then show ?case by (simp add: get_or_def)
next
  case (snoc row rows)
  obtain k' b c where row: "row = (k', b, c)" by (cases row)
  from snoc.prems have g: "grouped rows" and c: "0 \<le> count_of c" and "(k', b) \<notin> (\<lambda>(k, b, c). (k, b)) ` set rows"
    by (auto simp: grouped_def row)
  then have new: "\<forall>c'. (k', b, c') \<notin> set rows" by force
  note IH = snoc.IH [OF g]
  show ?case
  proof (cases "k' = k")
    case True
    define ds where "ds = get_or (map_of (fold count_row rows []) k) []"
    have "b \<notin> fst ` set ds" using IH new True by (simp add: ds_def)
    then have "AList.update b (count_of c) ds = ds @ [(b, count_of c)]" by (rule update_fresh)
    then have "get_or (map_of (fold count_row (rows @ [row]) []) k) [] = ds @ [(b, count_of c)]"
      by (simp add: row count_row_def True update_conv' ds_def) (simp add: get_or_def)
    moreover have "get_or (map_of (fold total_row (rows @ [row]) []) k) 0 = get_or (map_of (fold total_row rows []) k) 0 + count_of c"
      by (simp add: row total_row_def True update_conv') (simp add: get_or_def)
    ultimately show ?thesis using IH [folded ds_def] c True by (auto simp: row)
  next
    case False
    then have "get_or (map_of (fold count_row (rows @ [row]) []) k) [] = get_or (map_of (fold count_row rows []) k) []"
      "get_or (map_of (fold total_row (rows @ [row]) []) k) 0 = get_or (map_of (fold total_row rows []) k) 0"
      by (simp_all add: row count_row_def total_row_def update_conv')
    with IH False show ?thesis by (simp add: row)
  qed
qed

lemma count_keys_distinct: "distinct (map fst (fold count_row rows []))"
proof (induction rows rule: rev_induct)
  case (snoc row rows)
  then show ?case by (cases row) (simp add: count_row_def distinct_update)
qed simp

lemma sum_list_divide: "sum_list (map (\<lambda>x. f x / d) xs) = sum_list (map f xs) / (d :: rat)"
  by (induction xs) (simp_all add: add_divide_distrib)

lemma member_le_sum_list: "\<forall>x \<in> set xs. 0 \<le> x \<Longrightarrow> x \<in> set xs \<Longrightarrow> x \<le> sum_list (xs :: int list)"
  by (induction xs) (auto intro: add_increasing2 sum_list_nonneg simp: add_increasing)

lemma of_int_sum_list: "rat_of_int (sum_list xs) = sum_list (map rat_of_int xs)"
  by (induction xs) simp_all

lemma priors_distribution:
  assumes "grouped rows" and "(k, ps) \<in> set (load_priors rat_fops rows)"
  shows "(ps = [] \<or> sum_list (map snd ps) = 1) \<and> (\<forall>(b, p) \<in> set ps. 0 \<le> p \<and> p \<le> 1)"
proof -
  from assms(2) obtain ds where ds: "(k, ds) \<in> set (fold count_row rows [])"
    and ps: "ps = (let n = get_or (map_of (fold total_row rows []) k) 0 in
      if n = 0 then [] else map (\<lambda>(b, c). (b, f_div rat_fops (f_lit rat_fops (of_int c)) (f_lit rat_fops (of_int n)))) ds)"
    by (auto simp: load_priors_def Let_def)
  have "get_or (map_of (fold count_row rows []) k) [] = ds"
    using map_of_is_SomeI [OF count_keys_distinct ds] by (simp add: get_or_def)
  with grouped_counts [OF assms(1), of k] have c: "get_or (map_of (fold total_row rows []) k) 0 = sum_list (map snd ds)"
    "\<forall>(b, c) \<in> set ds. 0 \<le> c" by simp_all
  define n where "n = sum_list (map snd ds)"
  have nonneg: "\<forall>x \<in> set (map snd ds). 0 \<le> x" using c(2) by auto
  show ?thesis
  proof (cases "n = 0")
    case True
    then show ?thesis using ps c(1) by (simp add: n_def)
  next
    case False
    have "0 \<le> n" using nonneg unfolding n_def by (intro sum_list_nonneg) blast
    with False have n: "0 < rat_of_int n" by simp
    have ps': "ps = map (\<lambda>(b, c). (b, rat_of_int c / rat_of_int n)) ds"
      using ps False by (simp add: c(1) n_def rat_fops_def)
    have "sum_list (map snd ps) = sum_list (map (\<lambda>d. rat_of_int (snd d) / rat_of_int n) ds)"
      by (simp add: ps' comp_def case_prod_unfold)
    also have "\<dots> = rat_of_int n / rat_of_int n"
      unfolding sum_list_divide by (simp add: n_def of_int_sum_list comp_def)
    finally have "sum_list (map snd ps) = 1" using False by simp
    moreover have "0 \<le> p \<and> p \<le> 1" if "(b, p) \<in> set ps" for b p
    proof -
      from that obtain c where bc: "(b, c) \<in> set ds" "p = rat_of_int c / rat_of_int n" by (auto simp: ps')
      then have "0 \<le> c" "c \<le> n" using nonneg member_le_sum_list [OF nonneg, of c] by (force simp: n_def)+
      with n bc(2) show ?thesis by (simp add: divide_le_eq)
    qed
    ultimately show ?thesis by auto
  qed
qed

text \<open>Rounded arithmetic: every literal and every operation is the rounded exact result, and rounding is monotone
  and keeps 0 and 1, as that of doubles does. Nothing is asked of \<open>sum\<close>, which Python compensates.\<close>

definition rounding :: "(rat \<Rightarrow> rat) \<Rightarrow> rat fops \<Rightarrow> bool" where
  "rounding rnd F \<longleftrightarrow> (\<forall>p q. p \<le> q \<longrightarrow> rnd p \<le> rnd q) \<and> rnd 0 = 0 \<and> rnd 1 = 1 \<and> (\<forall>q. f_lit F q = rnd q) \<and>
     (\<forall>p q. f_add F p q = rnd (p + q) \<and> f_mul F p q = rnd (p * q) \<and> f_div F p q = rnd (p / q))"

lemma exact_rounding: "rounding (\<lambda>q. q) rat_fops"
  by (simp add: rounding_def rat_fops_def)

lemma rounded_fraction:
  assumes "rounding rnd F" and "0 \<le> m" and "m \<le> n"
  shows "0 \<le> f_div F (f_lit F m) (f_lit F n) \<and> f_div F (f_lit F m) (f_lit F n) \<le> 1"
proof -
  have m: "0 \<le> rnd m" "rnd m \<le> rnd n" using assms by (auto simp: rounding_def dest: spec [of _ 0])
  have "0 \<le> rnd m / rnd n" using m by simp
  moreover have "rnd m / rnd n \<le> 1" using m by (cases "rnd n = 0") (auto simp: divide_le_eq)
  ultimately show ?thesis using assms(1) unfolding rounding_def by metis
qed

lemma prior_unit:
  assumes "rounding rnd F" and "grouped rows"
  shows "0 \<le> prior_of (load_priors F rows) k b \<and> prior_of (load_priors F rows) k b \<le> 1"
proof (cases "map_of (load_priors F rows) k")
  case None
  then show ?thesis by (simp add: prior_of_def get_or_def)
next
  case (Some ps)
  then have "(k, ps) \<in> set (load_priors F rows)" by (rule map_of_SomeD)
  then obtain ds where ds: "(k, ds) \<in> set (fold count_row rows [])"
    and ps: "ps = (let n = get_or (map_of (fold total_row rows []) k) 0 in
      if n = 0 then [] else map (\<lambda>(b, c). (b, f_div F (f_lit F (of_int c)) (f_lit F (of_int n)))) ds)"
    by (auto simp: load_priors_def Let_def)
  have "get_or (map_of (fold count_row rows []) k) [] = ds"
    using map_of_is_SomeI [OF count_keys_distinct ds] by (simp add: get_or_def)
  with grouped_counts [OF assms(2), of k] have c: "get_or (map_of (fold total_row rows []) k) 0 = sum_list (map snd ds)"
    "\<forall>(b, c) \<in> set ds. 0 \<le> c" by simp_all
  have nonneg: "\<forall>x \<in> set (map snd ds). 0 \<le> x" using c(2) by auto
  show ?thesis
  proof (cases "map_of ps b")
    case None
    then show ?thesis using Some by (simp add: prior_of_def get_or_def)
  next
    case p: (Some p)
    then have "(b, p) \<in> set ps" by (rule map_of_SomeD)
    then obtain x where x: "(b, x) \<in> set ds" "p = f_div F (f_lit F (of_int x)) (f_lit F (of_int (sum_list (map snd ds))))"
      using ps c(1) by (auto simp: Let_def split: if_splits)
    then have "0 \<le> x" "x \<le> sum_list (map snd ds)" using nonneg member_le_sum_list [OF nonneg, of x] by force+
    then have "0 \<le> p \<and> p \<le> 1" unfolding x(2) by (intro rounded_fraction [OF assms(1)]) simp_all
    with Some p show ?thesis by (simp add: prior_of_def get_or_def)
  qed
qed

subsection \<open>Beam search\<close>

record beam =
  bm_blocks :: "ai_block list"
  bm_path_cells :: "cell list"
  bm_interval_cells :: "cell set"
  bm_score_sum :: rat
  bm_current_cell :: cell
  bm_prev_block :: "block_id option"
  bm_prev_prev_block :: "block_id option"

record search_params =
  sq_floats :: "rat fops"
  sq_round :: "rat \<Rightarrow> rat"
  sq_corpus :: corpus
  sq_weights :: score_terms
  sq_max_depth :: nat
  sq_beam_width :: nat
  sq_top_n_children :: nat

definition DEFAULT_TOP_N_CANDIDATES :: nat where "DEFAULT_TOP_N_CANDIDATES = 8"

definition beam_depth :: "beam \<Rightarrow> nat" where "beam_depth b = length (bm_blocks b)"

definition adjacent_xz :: "cell \<Rightarrow> cell \<Rightarrow> bool" where
  "adjacent_xz c dst = (case c of (cx, cy, cz) \<Rightarrow> case dst of (tx, ty, tz) \<Rightarrow> max \<bar>tx - cx\<bar> \<bar>tz - cz\<bar> \<le> 1)"

definition beam_reached_dst :: "cell \<Rightarrow> beam \<Rightarrow> bool" where
  "beam_reached_dst dst b \<longleftrightarrow> 0 < beam_depth b \<and> adjacent_xz (bm_current_cell b) dst"

definition round_terms :: "(rat \<Rightarrow> rat) \<Rightarrow> score_terms \<Rightarrow> score_terms" where
  "round_terms r6 t =
     \<lparr>tm_pair_prior = r6 (tm_pair_prior t), tm_triple_prior = r6 (tm_triple_prior t), tm_connector = r6 (tm_connector t),
      tm_traversability = r6 (tm_traversability t), tm_sequence = r6 (tm_sequence t),
      tm_diversity_penalty = r6 (tm_diversity_penalty t), tm_validation_penalty = r6 (tm_validation_penalty t)\<rparr>"

definition scored_entry :: "search_params \<Rightarrow> cell set \<Rightarrow> beam \<Rightarrow> cell \<Rightarrow> int \<Rightarrow> catalogue_entry \<Rightarrow> rat \<times> ai_block \<times> catalogue_entry" where
  "scored_entry P combined b next_cell rotation entry =
     (case score_candidate_ai (sq_floats P) (sq_corpus P) (sq_weights P)
         \<lparr>cb_family = ct_family entry, cb_name = ct_name entry, cb_cell = next_cell, cb_rotation = rotation, cb_info = ct_info entry\<rparr>
         (bm_prev_block b) (bm_prev_prev_block b) (bm_blocks b) combined of
       (score, breakdown) \<Rightarrow>
         (score, \<lparr>ab_family = ct_family entry, ab_name = ct_name entry, ab_cell = next_cell, ab_rotation = rotation,
            ab_score = sq_round P score, ab_breakdown = round_terms (sq_round P) breakdown\<rparr>, entry))"

definition child_beam :: "beam \<Rightarrow> cell \<Rightarrow> rat \<times> ai_block \<times> catalogue_entry \<Rightarrow> rat \<Rightarrow> beam" where
  "child_beam b next_cell scored score_sum = (case scored of (score, block, entry) \<Rightarrow>
     \<lparr>bm_blocks = bm_blocks b @ [block], bm_path_cells = bm_path_cells b @ [next_cell],
      bm_interval_cells = bm_interval_cells b \<union> set (footprint_cells next_cell (ab_rotation block) (gi_footprint_x (ct_info entry))),
      bm_score_sum = score_sum, bm_current_cell = next_cell, bm_prev_block = Some (ab_family block, ab_name block),
      bm_prev_prev_block = bm_prev_block b\<rparr>)"

definition expand_beam :: "search_params \<Rightarrow> cell \<Rightarrow> cell set \<Rightarrow> beam \<Rightarrow> beam list" where
  "expand_beam P dst occupied b =
     (let rotation = direction_toward (bm_current_cell b) dst; next_cell = advance (bm_current_cell b) rotation
      in if next_cell \<in> occupied \<or> next_cell \<in> bm_interval_cells b then []
        else let combined = occupied \<union> bm_interval_cells b;
            scored = map (scored_entry P combined b next_cell rotation) (cp_catalogue (sq_corpus P))
          in map (\<lambda>t. child_beam b next_cell t (f_add (sq_floats P) (bm_score_sum b) (fst t)))
            (take (sq_top_n_children P) (sort_key (\<lambda>t. - fst t) scored)))"

text \<open>The layers of the search: what is left alive, what arrived, and whether any layer had children.\<close>

fun beam_rounds :: "search_params \<Rightarrow> cell \<Rightarrow> cell set \<Rightarrow> nat \<Rightarrow> beam list \<Rightarrow> beam list \<Rightarrow> bool \<Rightarrow> beam list \<times> beam list \<times> bool" where
  "beam_rounds P dst occupied 0 live completed stepped = (live, completed, stepped)"
| "beam_rounds P dst occupied (Suc n) live completed stepped =
     (let completed = completed @ filter (beam_reached_dst dst) live;
          next_live = filter (\<lambda>b. \<not> beam_reached_dst dst b) live;
          children = concat (map (expand_beam P dst occupied) next_live)
      in if next_live = [] then (live, completed, stepped)
        else if children = [] then (live, completed, stepped)
        else beam_rounds P dst occupied n (take (sq_beam_width P) (sort_key (\<lambda>b. - bm_score_sum b) children)) completed True)"

text \<open>The first beam of greatest mean score, shorter ones first.\<close>

definition beam_key :: "rat fops \<Rightarrow> beam \<Rightarrow> rat \<times> int" where
  "beam_key F b = (f_div F (bm_score_sum b) (f_lit F (of_nat (max 1 (beam_depth b)))), - int (beam_depth b))"

fun first_max :: "('a \<Rightarrow> 'k::linorder) \<Rightarrow> 'a \<Rightarrow> 'a list \<Rightarrow> 'a" where
  "first_max key best [] = best"
| "first_max key best (x # xs) = first_max key (if key best < key x then x else best) xs"

datatype interval_detail = NoFirstStep cell cell | NoArrival cell nat nat nat

record interval_result =
  ir_blocks :: "ai_block list"
  ir_path_cells :: "cell list"
  ir_score_sum :: rat
  ir_score_count :: nat
  ir_reject :: "(reject_reason \<times> interval_detail) option"

definition empty_result :: "cell \<Rightarrow> (reject_reason \<times> interval_detail) option \<Rightarrow> interval_result" where
  "empty_result src reject = \<lparr>ir_blocks = [], ir_path_cells = [src], ir_score_sum = 0, ir_score_count = 0, ir_reject = reject\<rparr>"

definition beam_result :: "beam \<Rightarrow> (reject_reason \<times> interval_detail) option \<Rightarrow> interval_result" where
  "beam_result b reject = \<lparr>ir_blocks = bm_blocks b, ir_path_cells = bm_path_cells b, ir_score_sum = bm_score_sum b,
     ir_score_count = beam_depth b, ir_reject = reject\<rparr>"

definition initial_beam :: "cell \<Rightarrow> block_id option \<Rightarrow> beam" where
  "initial_beam src src_block = \<lparr>bm_blocks = [], bm_path_cells = [src], bm_interval_cells = {}, bm_score_sum = 0,
     bm_current_cell = src, bm_prev_block = src_block, bm_prev_prev_block = None\<rparr>"

definition generate_interval :: "search_params \<Rightarrow> cell \<Rightarrow> cell \<Rightarrow> block_id option \<Rightarrow> cell set \<Rightarrow> interval_result \<times> cell set" where
  "generate_interval P src dst src_block occupied =
     (if adjacent_xz src dst then (empty_result src None, occupied)
      else case beam_rounds P dst occupied (sq_max_depth P) [initial_beam src src_block] [] False of
        (live, completed, stepped) \<Rightarrow>
          (case completed @ filter (beam_reached_dst dst) live of
             b # bs \<Rightarrow>
               (let best = first_max (beam_key (sq_floats P)) b bs
                in (beam_result best None, occupied \<union> bm_interval_cells best))
           | [] \<Rightarrow>
               if \<not> stepped then (empty_result src (Some (no_valid_candidates, NoFirstStep src dst)), occupied)
               else let reject = Some (beam_exhausted, NoArrival dst (sq_max_depth P) (sq_beam_width P) (sq_top_n_children P))
                 in (case live of
                      [] \<Rightarrow> (empty_result src reject, occupied)
                    | b # bs \<Rightarrow> (beam_result (first_max (beam_key (sq_floats P)) b bs) reject, occupied))))"

subsection \<open>The walk between two anchors\<close>

text \<open>The direction depends on the current cell and the destination only, so all beams take the same walk.\<close>

definition step_toward :: "cell \<Rightarrow> cell \<Rightarrow> cell" where
  "step_toward dst c = advance c (direction_toward c dst)"

definition walk_cell :: "cell \<Rightarrow> cell \<Rightarrow> nat \<Rightarrow> cell" where
  "walk_cell src dst n = (step_toward dst ^^ n) src"

definition walk_length :: "cell \<Rightarrow> cell \<Rightarrow> nat" where
  "walk_length src dst = (case src of (sx, sy, sz) \<Rightarrow> case dst of (tx, ty, tz) \<Rightarrow> nat (\<bar>tx - sx\<bar> - 1) + nat (\<bar>tz - sz\<bar> - 1))"

definition manhattan_xz :: "cell \<Rightarrow> cell \<Rightarrow> int" where
  "manhattan_xz c dst = (case c of (x, y, z) \<Rightarrow> case dst of (tx, ty, tz) \<Rightarrow> \<bar>tx - x\<bar> + \<bar>tz - z\<bar>)"

lemma direction_range: "direction_toward a b \<in> {0..3}"
  by (simp add: direction_toward_def Let_def split: prod.split)

lemma walk_cell_simps [simp]:
  "walk_cell src dst 0 = src" "walk_cell src dst (Suc n) = step_toward dst (walk_cell src dst n)"
  by (simp_all add: walk_cell_def)

lemma adjacent_walk_length: "adjacent_xz c dst \<longleftrightarrow> walk_length c dst = 0"
  by (cases c; cases dst) (auto simp: adjacent_xz_def walk_length_def)

lemma step_toward_cases:
  "step_toward (tx, ty, tz) (x, y, z) =
     (if \<bar>tz - z\<bar> \<le> \<bar>tx - x\<bar> then (if x \<le> tx then (x + 1, y, z) else (x - 1, y, z))
      else if z \<le> tz then (x, y, z + 1) else (x, y, z - 1))"
  by (simp add: step_toward_def direction_toward_def advance_def DIR_BY_ROT_def Let_def)

lemma abs_step:
  "2 \<le> \<bar>t - x\<bar> \<Longrightarrow> x \<le> t \<Longrightarrow> \<bar>t - (x + 1)\<bar> = \<bar>t - x\<bar> - 1" "2 \<le> \<bar>t - x\<bar> \<Longrightarrow> \<not> x \<le> t \<Longrightarrow> \<bar>t - (x - 1)\<bar> = \<bar>t - x\<bar> - 1"
  for t x :: int
  by arith+

lemma step_toward_progress:
  assumes "walk_length c dst \<noteq> 0"
  shows "walk_length (step_toward dst c) dst = walk_length c dst - 1 \<and>
    manhattan_xz (step_toward dst c) dst = manhattan_xz c dst - 1"
proof -
  obtain x y z tx ty tz where c: "c = (x, y, z)" "dst = (tx, ty, tz)" by (cases c; cases dst)
  show ?thesis
  proof (cases "\<bar>tz - z\<bar> \<le> \<bar>tx - x\<bar>")
    case True
    with assms have "2 \<le> \<bar>tx - x\<bar>" by (simp add: c walk_length_def)
    with True abs_step [OF this] show ?thesis
      by (cases "x \<le> tx") (simp_all add: c step_toward_cases walk_length_def manhattan_xz_def nat_diff_distrib)
  next
    case False
    with assms have "2 \<le> \<bar>tz - z\<bar>" by (cases "\<bar>tx - x\<bar> \<le> 1") (simp_all add: c walk_length_def)
    with False abs_step [OF this] show ?thesis
      by (cases "z \<le> tz") (simp_all add: c step_toward_cases walk_length_def manhattan_xz_def nat_diff_distrib)
  qed
qed

lemma walk_progress:
  assumes "n \<le> walk_length src dst"
  shows "walk_length (walk_cell src dst n) dst = walk_length src dst - n \<and>
    manhattan_xz (walk_cell src dst n) dst = manhattan_xz src dst - int n"
  using assms
proof (induction n)
  case (Suc n)
  then have "walk_length (walk_cell src dst n) dst \<noteq> 0" by simp
  from step_toward_progress [OF this] Suc show ?case by simp
qed simp

lemma walk_adjacent: "n \<le> walk_length src dst \<Longrightarrow> adjacent_xz (walk_cell src dst n) dst \<longleftrightarrow> n = walk_length src dst"
  using walk_progress [of n src dst] by (auto simp: adjacent_walk_length)

lemma walk_inj: "inj_on (walk_cell src dst) {0..walk_length src dst}"
proof (rule inj_onI)
  fix i j assume i: "i \<in> {0..walk_length src dst}" and j: "j \<in> {0..walk_length src dst}"
    and eq: "walk_cell src dst i = walk_cell src dst j"
  have "manhattan_xz (walk_cell src dst i) dst = manhattan_xz src dst - int i" using i walk_progress by simp
  moreover have "manhattan_xz (walk_cell src dst j) dst = manhattan_xz src dst - int j" using j walk_progress by simp
  ultimately show "i = j" unfolding eq by simp
qed

lemma walk_level: "fst (snd (walk_cell src dst n)) = fst (snd src)"
proof (induction n)
  case (Suc n)
  obtain x y z where "walk_cell src dst n = (x, y, z)" by (cases "walk_cell src dst n")
  with Suc show ?case by (cases dst) (simp add: step_toward_cases)
qed simp

subsection \<open>The layers of the search\<close>

definition unit_catalogue :: "catalogue_entry list \<Rightarrow> bool" where
  "unit_catalogue cat \<longleftrightarrow> (\<forall>e \<in> set cat. gi_footprint_x (ct_info e) \<le> 1)"

definition block_from :: "catalogue_entry list \<Rightarrow> ai_block \<Rightarrow> bool" where
  "block_from cat b \<longleftrightarrow> (\<exists>e \<in> set cat. ab_family b = ct_family e \<and> ab_name b = ct_name e) \<and> ab_rotation b \<in> {0..3}"

definition at_layer :: "catalogue_entry list \<Rightarrow> cell \<Rightarrow> cell \<Rightarrow> nat \<Rightarrow> beam \<Rightarrow> bool" where
  "at_layer cat src dst n b \<longleftrightarrow>
     bm_current_cell b = walk_cell src dst n \<and> map ab_cell (bm_blocks b) = map (walk_cell src dst) [1..<Suc n] \<and>
     bm_path_cells b = map (walk_cell src dst) [0..<Suc n] \<and> bm_interval_cells b = walk_cell src dst ` {1..n} \<and>
     (\<forall>x \<in> set (bm_blocks b). block_from cat x)"

definition blocked :: "search_params \<Rightarrow> cell set \<Rightarrow> cell \<Rightarrow> bool" where
  "blocked P occupied c \<longleftrightarrow> c \<in> occupied \<or> cp_catalogue (sq_corpus P) = []"

lemma at_layer_depth: "at_layer cat src dst n b \<Longrightarrow> beam_depth b = n"
  unfolding at_layer_def beam_depth_def by (metis add_diff_cancel_left' length_map length_upt plus_1_eq_Suc)

lemma at_layer_reached:
  assumes "at_layer cat src dst n b" and "n \<le> walk_length src dst" and "walk_length src dst \<noteq> 0"
  shows "beam_reached_dst dst b \<longleftrightarrow> n = walk_length src dst"
  using assms at_layer_depth [OF assms(1)] walk_adjacent [OF assms(2)] by (auto simp: beam_reached_dst_def at_layer_def)

lemma take_nonempty: "0 < n \<Longrightarrow> take n xs = [] \<longleftrightarrow> xs = []"
  by (cases xs; cases n) simp_all

lemma sort_key_Nil: "sort_key f xs = [] \<longleftrightarrow> xs = []"
  by (metis length_0_conv length_sort)

lemma expand_layer:
  assumes b: "at_layer (cp_catalogue (sq_corpus P)) src dst n b" and n: "n < walk_length src dst"
    and unit: "unit_catalogue (cp_catalogue (sq_corpus P))" and k: "0 < sq_top_n_children P"
  shows "expand_beam P dst occupied b = [] \<longleftrightarrow> blocked P occupied (walk_cell src dst (Suc n))"
    and "c \<in> set (expand_beam P dst occupied b) \<Longrightarrow> at_layer (cp_catalogue (sq_corpus P)) src dst (Suc n) c"
proof -
  let ?cat = "cp_catalogue (sq_corpus P)" and ?next = "walk_cell src dst (Suc n)"
  have cur: "advance (bm_current_cell b) (direction_toward (bm_current_cell b) dst) = ?next"
    using b by (simp add: at_layer_def step_toward_def)
  have "?next \<noteq> walk_cell src dst i" if "i \<in> {1..n}" for i
    using inj_onD [OF walk_inj [of src dst], of "Suc n" i] that n by auto
  then have "?next \<notin> walk_cell src dst ` {1..n}" by blast
  moreover have "bm_interval_cells b = walk_cell src dst ` {1..n}" using b by (simp only: at_layer_def)
  ultimately have fresh: "?next \<notin> bm_interval_cells b" by (simp only: not_False_eq_True)
  define rot where "rot = direction_toward (bm_current_cell b) dst"
  have expand: "expand_beam P dst occupied b = (if ?next \<in> occupied then []
      else map (\<lambda>t. child_beam b ?next t (f_add (sq_floats P) (bm_score_sum b) (fst t)))
        (take (sq_top_n_children P) (sort_key (\<lambda>t. - fst t)
          (map (scored_entry P (occupied \<union> bm_interval_cells b) b ?next rot) ?cat))))"
    unfolding expand_beam_def Let_def cur rot_def using fresh by (simp only: simp_thms if_cancel)
  show "expand_beam P dst occupied b = [] \<longleftrightarrow> blocked P occupied ?next"
    unfolding expand blocked_def
    by (cases "?next \<in> occupied") (simp_all only: if_True if_False map_is_Nil_conv take_nonempty [OF k] sort_key_Nil simp_thms)
  assume c: "c \<in> set (expand_beam P dst occupied b)"
  from c obtain e s blk where e: "e \<in> set ?cat" and s: "scored_entry P (occupied \<union> bm_interval_cells b) b ?next rot e = (s, blk, e)"
    and c': "c = child_beam b ?next (s, blk, e) (f_add (sq_floats P) (bm_score_sum b) s)"
    unfolding expand by (auto simp: scored_entry_def simp del: walk_cell_simps split: if_splits prod.splits dest!: in_set_takeD)
  have blk: "ab_family blk = ct_family e" "ab_name blk = ct_name e" "ab_cell blk = ?next" "ab_rotation blk = rot"
    using s by (auto simp: scored_entry_def split: prod.splits)
  have "footprint_cells ?next rot (gi_footprint_x (ct_info e)) = [?next]"
    using unit e by (auto simp: footprint_cells_def unit_catalogue_def split: prod.split)
  moreover have "block_from ?cat blk" using blk e direction_range unfolding block_from_def rot_def by metis
  ultimately show "at_layer ?cat src dst (Suc n) c"
    using b blk by (auto simp: at_layer_def c' child_beam_def atLeastAtMostSuc_conv)
qed

definition layer :: "search_params \<Rightarrow> cell \<Rightarrow> cell \<Rightarrow> nat \<Rightarrow> beam list \<Rightarrow> bool" where
  "layer P src dst n live \<longleftrightarrow> live \<noteq> [] \<and> (\<forall>b \<in> set live. at_layer (cp_catalogue (sq_corpus P)) src dst n b)"

definition usable_search :: "search_params \<Rightarrow> bool" where
  "usable_search P \<longleftrightarrow> unit_catalogue (cp_catalogue (sq_corpus P)) \<and> 0 < sq_top_n_children P \<and> 0 < sq_beam_width P"

lemma layer_reached:
  assumes "layer P src dst n live" and "n \<le> walk_length src dst" and "walk_length src dst \<noteq> 0"
  shows "filter (beam_reached_dst dst) live = (if n = walk_length src dst then live else [])"
    and "filter (\<lambda>b. \<not> beam_reached_dst dst b) live = (if n = walk_length src dst then [] else live)"
proof -
  have "beam_reached_dst dst b \<longleftrightarrow> n = walk_length src dst" if "b \<in> set live" for b
    using assms(1) that at_layer_reached [OF _ assms(2,3)] unfolding layer_def by blast
  then show "filter (beam_reached_dst dst) live = (if n = walk_length src dst then live else [])"
    "filter (\<lambda>b. \<not> beam_reached_dst dst b) live = (if n = walk_length src dst then [] else live)"
    by (auto simp: filter_empty_conv filter_id_conv)
qed

lemma next_layer:
  assumes "layer P src dst n live" and "n < walk_length src dst" and "usable_search P"
  shows "concat (map (expand_beam P dst occupied) live) = [] \<longleftrightarrow> blocked P occupied (walk_cell src dst (Suc n))"
    and "\<not> blocked P occupied (walk_cell src dst (Suc n)) \<Longrightarrow>
      layer P src dst (Suc n) (take (sq_beam_width P) (sort_key f (concat (map (expand_beam P dst occupied) live))))"
proof -
  have u: "unit_catalogue (cp_catalogue (sq_corpus P))" "0 < sq_top_n_children P" "0 < sq_beam_width P"
    using assms(3) by (simp_all add: usable_search_def)
  have beams: "at_layer (cp_catalogue (sq_corpus P)) src dst n b" if "b \<in> set live" for b
    using assms(1) that by (simp add: layer_def)
  note ex = expand_layer [OF beams assms(2) u(1,2), where occupied = occupied]
  have "live \<noteq> []" using assms(1) by (simp add: layer_def)
  then show none: "concat (map (expand_beam P dst occupied) live) = [] \<longleftrightarrow> blocked P occupied (walk_cell src dst (Suc n))"
    using ex(1) by (cases live) (auto simp del: walk_cell_simps)
  assume "\<not> blocked P occupied (walk_cell src dst (Suc n))"
  with none have "take (sq_beam_width P) (sort_key f (concat (map (expand_beam P dst occupied) live))) \<noteq> []"
    unfolding take_nonempty [OF u(3)] sort_key_Nil by blast
  then show "layer P src dst (Suc n) (take (sq_beam_width P) (sort_key f (concat (map (expand_beam P dst occupied) live))))"
    using ex(2) unfolding layer_def by (auto simp del: walk_cell_simps dest!: in_set_takeD)
qed

text \<open>Where the rounds stop: at the destination, at the depth limit or in front of a blocked cell.\<close>

lemma beam_rounds_stop:
  assumes "layer P src dst n live" and "n \<le> walk_length src dst" and "walk_length src dst \<noteq> 0" and "usable_search P"
  shows "\<exists>m live' completed'. beam_rounds P dst occupied fuel live [] stepped = (live', completed', stepped \<or> n < m) \<and>
    n \<le> m \<and> m \<le> walk_length src dst \<and> m \<le> n + fuel \<and> layer P src dst m live' \<and>
    (\<forall>i \<in> {Suc n..m}. \<not> blocked P occupied (walk_cell src dst i)) \<and>
    (m = walk_length src dst \<or> m = n + fuel \<or> blocked P occupied (walk_cell src dst (Suc m))) \<and>
    set (completed' @ filter (beam_reached_dst dst) live') = (if m = walk_length src dst then set live' else {})"
  using assms(1,2)
proof (induction fuel arbitrary: n live stepped)
  case 0
  show ?case
    by (rule exI [of _ n], rule exI [of _ live], rule exI [of _ "[]"]) (use 0 layer_reached(1) [OF 0 assms(3)] in simp)
next
  case (Suc fuel)
  show ?case
  proof (cases "n = walk_length src dst")
    case True
    then show ?thesis
      by (intro exI [of _ n] exI [of _ live] exI [of _ live]) (use Suc.prems layer_reached [OF Suc.prems assms(3)] in simp)
  next
    case False
    then have n: "n < walk_length src dst" using Suc.prems(2) by simp
    note split = layer_reached [OF Suc.prems assms(3)]
    note nl = next_layer [OF Suc.prems(1) n assms(4), where occupied = occupied]
    have live: "live \<noteq> []" using Suc.prems(1) by (simp add: layer_def)
    show ?thesis
    proof (cases "blocked P occupied (walk_cell src dst (Suc n))")
      case True
      with False live split nl(1) Suc.prems show ?thesis
        by (intro exI [of _ n] exI [of _ live] exI [of _ "[]"]) (simp del: walk_cell_simps)
    next
      case clear: False
      define live2 where "live2 = take (sq_beam_width P) (sort_key (\<lambda>b. - bm_score_sum b) (concat (map (expand_beam P dst occupied) live)))"
      have l2: "layer P src dst (Suc n) live2" unfolding live2_def by (rule nl(2) [OF clear])
      have round: "beam_rounds P dst occupied (Suc fuel) live [] stepped = beam_rounds P dst occupied fuel live2 [] True"
        using False live split nl(1) clear by (simp add: live2_def [symmetric] del: walk_cell_simps concat_eq_Nil_conv)
      have "Suc n \<le> walk_length src dst" using n by simp
      from Suc.IH [OF l2 this, of True] obtain m live' completed' where m:
        "beam_rounds P dst occupied fuel live2 [] True = (live', completed', True \<or> Suc n < m)"
        "Suc n \<le> m" "m \<le> walk_length src dst" "m \<le> Suc n + fuel" "layer P src dst m live'"
        "\<forall>i \<in> {Suc (Suc n)..m}. \<not> blocked P occupied (walk_cell src dst i)"
        "m = walk_length src dst \<or> m = Suc n + fuel \<or> blocked P occupied (walk_cell src dst (Suc m))"
        "set (completed' @ filter (beam_reached_dst dst) live') = (if m = walk_length src dst then set live' else {})" by blast
      have "\<forall>i \<in> {Suc n..m}. \<not> blocked P occupied (walk_cell src dst i)"
        using m(2,6) clear atLeastAtMost_insertL [of "Suc n" m] by (metis insertE)
      with m round show ?thesis
        by (intro exI [of _ m] exI [of _ live'] exI [of _ completed']) (simp del: walk_cell_simps)
    qed
  qed
qed

lemma first_max_mem: "first_max key b bs \<in> set (b # bs)"
  by (induction bs arbitrary: b) (auto split: if_splits)

lemma initial_layer: "layer P src dst 0 [initial_beam src src_block]"
  by (simp add: layer_def at_layer_def initial_beam_def)

definition interval_clear :: "search_params \<Rightarrow> cell \<Rightarrow> cell \<Rightarrow> cell set \<Rightarrow> bool" where
  "interval_clear P src dst occupied \<longleftrightarrow> walk_length src dst \<le> sq_max_depth P \<and>
     (\<forall>i \<in> {1..walk_length src dst}. \<not> blocked P occupied (walk_cell src dst i))"

text \<open>Where the search of an interval stops, for the cases of \<open>generate_interval\<close>.\<close>

lemma search_stop:
  assumes "usable_search P" and "walk_length src dst \<noteq> 0"
  shows "\<exists>m live completed. beam_rounds P dst occupied (sq_max_depth P) [initial_beam src src_block] [] False = (live, completed, 0 < m) \<and>
    layer P src dst m live \<and> set (completed @ filter (beam_reached_dst dst) live) = (if m = walk_length src dst then set live else {}) \<and>
    (m = walk_length src dst \<longleftrightarrow> interval_clear P src dst occupied) \<and> m \<le> walk_length src dst \<and>
    (0 < m \<longleftrightarrow> sq_max_depth P \<noteq> 0 \<and> \<not> blocked P occupied (walk_cell src dst 1))"
proof -
  from beam_rounds_stop [OF initial_layer [of P src dst src_block] le0 assms(2,1), of occupied "sq_max_depth P" False]
  obtain m live completed where m:
    "beam_rounds P dst occupied (sq_max_depth P) [initial_beam src src_block] [] False = (live, completed, False \<or> 0 < m)"
    "m \<le> walk_length src dst" "m \<le> 0 + sq_max_depth P" "layer P src dst m live"
    "\<forall>i \<in> {Suc 0..m}. \<not> blocked P occupied (walk_cell src dst i)"
    "m = walk_length src dst \<or> m = 0 + sq_max_depth P \<or> blocked P occupied (walk_cell src dst (Suc m))"
    "set (completed @ filter (beam_reached_dst dst) live) = (if m = walk_length src dst then set live else {})" by blast
  have arrived: "m = walk_length src dst \<longleftrightarrow> interval_clear P src dst occupied"
  proof
    assume "m = walk_length src dst"
    with m(3,5) show "interval_clear P src dst occupied" by (simp add: interval_clear_def)
  next
    assume c: "interval_clear P src dst occupied"
    show "m = walk_length src dst"
    proof (rule ccontr)
      assume "m \<noteq> walk_length src dst"
      with m(2) have "Suc m \<in> {1..walk_length src dst}" by simp
      with c have "\<not> blocked P occupied (walk_cell src dst (Suc m))" "walk_length src dst \<le> sq_max_depth P"
        unfolding interval_clear_def by blast+
      with m(2,6) \<open>m \<noteq> walk_length src dst\<close> show False by simp
    qed
  qed
  have first: "0 < m \<longleftrightarrow> sq_max_depth P \<noteq> 0 \<and> \<not> blocked P occupied (walk_cell src dst 1)"
  proof
    assume "0 < m"
    then have "1 \<in> {Suc 0..m}" by simp
    with m(5) have "\<not> blocked P occupied (walk_cell src dst 1)" by blast
    with \<open>0 < m\<close> m(3) show "sq_max_depth P \<noteq> 0 \<and> \<not> blocked P occupied (walk_cell src dst 1)" by simp
  next
    assume f: "sq_max_depth P \<noteq> 0 \<and> \<not> blocked P occupied (walk_cell src dst 1)"
    show "0 < m"
    proof (rule ccontr)
      assume "\<not> 0 < m"
      then have "m = 0" by simp
      with m(6) assms(2) f show False by (simp del: walk_cell_simps)
    qed
  qed
  from m(1,2,4,7) arrived first show ?thesis by (intro exI [of _ m] exI [of _ live] exI [of _ completed]) simp
qed

text \<open>What a beam of a layer contributes to a result.\<close>

lemma layer_result:
  assumes "layer P src dst m live" and "x \<in> set live"
  shows "map ab_cell (ir_blocks (beam_result x r)) = map (walk_cell src dst) [1..<Suc m]"
    and "ir_path_cells (beam_result x r) = map (walk_cell src dst) [0..<Suc m]" and "ir_score_count (beam_result x r) = m"
    and "\<forall>y \<in> set (ir_blocks (beam_result x r)). block_from (cp_catalogue (sq_corpus P)) y"
    and "ir_reject (beam_result x r) = r"
    and "bm_interval_cells x = set (map ab_cell (ir_blocks (beam_result x r)))"
proof -
  have x: "at_layer (cp_catalogue (sq_corpus P)) src dst m x" using assms by (simp add: layer_def)
  then show cells: "map ab_cell (ir_blocks (beam_result x r)) = map (walk_cell src dst) [1..<Suc m]"
    and "ir_path_cells (beam_result x r) = map (walk_cell src dst) [0..<Suc m]" and "ir_reject (beam_result x r) = r"
    by (simp_all only: at_layer_def beam_result_def interval_result.select_convs)
  show "\<forall>y \<in> set (ir_blocks (beam_result x r)). block_from (cp_catalogue (sq_corpus P)) y"
    using x by (simp add: at_layer_def beam_result_def)
  from cells show "bm_interval_cells x = set (map ab_cell (ir_blocks (beam_result x r)))"
    using x by (simp only: at_layer_def set_map set_upt atLeastLessThanSuc_atLeastAtMost)
  show "ir_score_count (beam_result x r) = m" using at_layer_depth [OF x] by (simp add: beam_result_def)
qed

lemma walk_distinct:
  assumes "m \<le> walk_length src dst"
  shows "distinct (map (walk_cell src dst) [0..<Suc m])"
  using inj_on_subset [OF walk_inj [of src dst], of "{0..m}"] assms
  by (simp only: distinct_map set_upt distinct_upt atLeastLessThanSuc_atLeastAtMost) simp

lemma generate_interval_spec:
  assumes "usable_search P"
  shows "\<exists>res occupied'. generate_interval P src dst src_block occupied = (res, occupied') \<and>
    (\<exists>m \<le> walk_length src dst. map ab_cell (ir_blocks res) = map (walk_cell src dst) [1..<Suc m] \<and>
      ir_path_cells res = map (walk_cell src dst) [0..<Suc m] \<and> distinct (ir_path_cells res) \<and>
      ir_score_count res = m \<and> (\<forall>b \<in> set (ir_blocks res). block_from (cp_catalogue (sq_corpus P)) b) \<and>
      (if interval_clear P src dst occupied
       then ir_reject res = None \<and> m = walk_length src dst \<and> set (map ab_cell (ir_blocks res)) \<inter> occupied = {} \<and>
         occupied' = occupied \<union> set (map ab_cell (ir_blocks res))
       else occupied' = occupied \<and> m \<noteq> walk_length src dst \<and> (\<exists>d. ir_reject res =
         Some (if sq_max_depth P = 0 \<or> blocked P occupied (walk_cell src dst 1) then no_valid_candidates else beam_exhausted, d))))"
proof (cases "walk_length src dst = 0")
  case True
  then have "generate_interval P src dst src_block occupied = (empty_result src None, occupied)" "interval_clear P src dst occupied"
    by (simp_all add: generate_interval_def adjacent_walk_length interval_clear_def)
  then show ?thesis by (intro exI [of _ "empty_result src None"] exI [of _ occupied] exI [of _ 0]) (simp add: empty_result_def True)
next
  case False
  from search_stop [OF assms False] obtain m live completed where m:
    "beam_rounds P dst occupied (sq_max_depth P) [initial_beam src src_block] [] False = (live, completed, 0 < m)"
    "layer P src dst m live" "set (completed @ filter (beam_reached_dst dst) live) = (if m = walk_length src dst then set live else {})"
    "m = walk_length src dst \<longleftrightarrow> interval_clear P src dst occupied" "m \<le> walk_length src dst"
    "0 < m \<longleftrightarrow> sq_max_depth P \<noteq> 0 \<and> \<not> blocked P occupied (walk_cell src dst 1)" by blast
  obtain b bs where live: "live = b # bs" using m(2) by (cases live) (simp_all add: layer_def)
  note result = layer_result [OF m(2)]
  have dist: "distinct (map (walk_cell src dst) [0..<Suc m])" by (rule walk_distinct [OF m(5)])
  show ?thesis
  proof (cases "interval_clear P src dst occupied")
    case True
    with m(3,4) have arrived: "set (completed @ filter (beam_reached_dst dst) live) = set live" by simp
    then obtain x xs where xs: "completed @ filter (beam_reached_dst dst) live = x # xs" using live by (cases "completed @ filter (beam_reached_dst dst) live") auto
    define best where "best = first_max (beam_key (sq_floats P)) x xs"
    have best: "best \<in> set live" using first_max_mem [of "beam_key (sq_floats P)" x xs] arrived unfolding best_def xs by blast
    have gen: "generate_interval P src dst src_block occupied = (beam_result best None, occupied \<union> bm_interval_cells best)"
      using False xs by (simp add: generate_interval_def adjacent_walk_length m(1) best_def Let_def)
    have "\<forall>i \<in> {1..m}. walk_cell src dst i \<notin> occupied"
      using True m(4) unfolding interval_clear_def blocked_def by blast
    then have free: "set (map (walk_cell src dst) [1..<Suc m]) \<inter> occupied = {}" by (auto simp del: walk_cell_simps)
    show ?thesis
      unfolding gen using True m(4,5) free dist result [OF best, of None]
      by (intro exI [of _ "beam_result best None"] exI [of _ "occupied \<union> bm_interval_cells best"] exI [of _ m]) (simp del: walk_cell_simps upt_Suc)
  next
    case blk: False
    with m(3,4) have none: "completed @ filter (beam_reached_dst dst) live = []" by simp
    show ?thesis
    proof (cases "0 < m")
      case True
      define best where "best = first_max (beam_key (sq_floats P)) b bs"
      have best: "best \<in> set live" using first_max_mem [of "beam_key (sq_floats P)" b bs] by (simp only: best_def live)
      define r where "r = Some (beam_exhausted, NoArrival dst (sq_max_depth P) (sq_beam_width P) (sq_top_n_children P))"
      have gen: "generate_interval P src dst src_block occupied = (beam_result best r, occupied)"
        using False none live True unfolding generate_interval_def by (simp add: adjacent_walk_length m(1) best_def r_def Let_def)
      show ?thesis
        unfolding gen using blk m(4,5,6) True dist result [OF best, of r]
        by (intro exI [of _ "beam_result best r"] exI [of _ occupied] exI [of _ m]) (simp add: r_def del: walk_cell_simps upt_Suc)
    next
      case zero: False
      have gen: "generate_interval P src dst src_block occupied = (empty_result src (Some (no_valid_candidates, NoFirstStep src dst)), occupied)"
        using False none zero unfolding generate_interval_def by (simp add: adjacent_walk_length m(1))
      show ?thesis
        unfolding gen using blk m(6) zero False
        by (intro exI [of _ "empty_result src (Some (no_valid_candidates, NoFirstStep src dst))"] exI [of _ occupied] exI [of _ 0])
          (auto simp: empty_result_def)
    qed
  qed
qed

lemma generate_interval_parts:
  assumes "usable_search P" and "generate_interval P src dst src_block occupied = (res, occupied')"
  shows "\<exists>m. map ab_cell (ir_blocks res) = map (walk_cell src dst) [1..<Suc m] \<and>
      ir_path_cells res = map (walk_cell src dst) [0..<Suc m] \<and> distinct (ir_path_cells res) \<and>
      ir_score_count res = m \<and> (\<forall>b \<in> set (ir_blocks res). block_from (cp_catalogue (sq_corpus P)) b) \<and>
      (if interval_clear P src dst occupied
       then ir_reject res = None \<and> m = walk_length src dst \<and> set (map ab_cell (ir_blocks res)) \<inter> occupied = {} \<and>
         occupied' = occupied \<union> set (map ab_cell (ir_blocks res))
       else ir_reject res \<noteq> None)"
proof -
  obtain res2 occ2 where g: "generate_interval P src dst src_block occupied = (res2, occ2)" by fastforce
  with assms(2) have eq: "res2 = res" "occ2 = occupied'" by simp_all
  show ?thesis
  proof (cases "interval_clear P src dst occupied")
    case True
    with generate_interval_spec [OF assms(1), of src dst src_block occupied] show ?thesis
      unfolding g eq prod.inject simp_thms if_P [OF True] by blast
  next
    case False
    with generate_interval_spec [OF assms(1), of src dst src_block occupied] show ?thesis
      unfolding g eq prod.inject simp_thms if_not_P [OF False] by (metis option.distinct(1))
  qed
qed

text \<open>
  C15. The beam search of an interval succeeds exactly when the walk from one anchor to the next (always along
  the longer remaining axis, ignoring height) is free, the catalogue is not empty and the walk is no
  longer than the depth limit, whatever the beam width, the priors and the weights. Then the blocks stand on
  the cells of the walk, which are distinct, free before and taken afterwards; otherwise nothing is taken,
  the reason says whether a first step was possible, and the blocks kept for inspection start the walk.
\<close>

theorem generate_interval_exact:
  assumes "usable_search P"
  shows "\<exists>res occupied'. generate_interval P src dst src_block occupied = (res, occupied') \<and>
    (\<exists>m \<le> walk_length src dst. map ab_cell (ir_blocks res) = map (walk_cell src dst) [1..<Suc m] \<and>
      ir_path_cells res = map (walk_cell src dst) [0..<Suc m] \<and> distinct (ir_path_cells res) \<and>
      ir_score_count res = m \<and> (\<forall>b \<in> set (ir_blocks res). block_from (cp_catalogue (sq_corpus P)) b) \<and>
      (if interval_clear P src dst occupied
       then ir_reject res = None \<and> m = walk_length src dst \<and> set (map ab_cell (ir_blocks res)) \<inter> occupied = {} \<and>
         occupied' = occupied \<union> set (map ab_cell (ir_blocks res))
       else occupied' = occupied \<and> m \<noteq> walk_length src dst \<and> (\<exists>d. ir_reject res =
         Some (if sq_max_depth P = 0 \<or> blocked P occupied (walk_cell src dst 1) then no_valid_candidates else beam_exhausted, d))))"
  by (rule generate_interval_spec [OF assms])


subsection \<open>An instance\<close>

definition demo_search :: search_params where
  "demo_search = \<lparr>sq_floats = rat_fops, sq_round = (\<lambda>q. q),
     sq_corpus = \<lparr>cp_catalogue = [\<lparr>ct_family = ''Road'', ct_name = ''RoadTechStraight'',
         ct_info = \<lparr>gi_footprint_x = 1, gi_footprint_y = 1, gi_footprint_z = 1, gi_connector_hint = ''straight_x'',
           gi_shape_class = ''straight'', gi_is_anchor_capable = False\<rparr>\<rparr>],
       cp_pair_priors = [], cp_triple_priors = [], cp_shape_surface = []\<rparr>,
     sq_weights = AI_GENERATOR_WEIGHTS rat_fops, sq_max_depth = 12, sq_beam_width = 3, sq_top_n_children = 8\<rparr>"

theorem generate_interval_exact_witness:
  "\<exists>res occupied. generate_interval demo_search (0, 9, 0) (5, 9, 0) None {(0, 9, 0), (5, 9, 0)} = (res, occupied) \<and>
     ir_reject res = None \<and> ir_score_count res = 4"
proof -
  have "usable_search demo_search" by code_simp
  moreover have "interval_clear demo_search (0, 9, 0) (5, 9, 0) {(0, 9, 0), (5, 9, 0)}" "walk_length (0, 9, 0) (5, 9, 0) = 4" by code_simp+
  ultimately show ?thesis
    using generate_interval_exact [of demo_search "(0, 9, 0)" "(5, 9, 0)" None "{(0, 9, 0), (5, 9, 0)}"] by (simp only: if_True simp_thms) blast
qed

end
