(* ===== verification/AI_Generator.thy ===== *)
theory AI_Generator
  imports Base_Generator Beam_Search
begin

section \<open>The synthesising generator: from base map to artifact\<close>

text \<open>
  Model of the last third of \<^verbatim>\<open>src/src/generation/ai_generator.py\<close>: the anchors of a base map, the
  intervals between them, the \<open>generation-v0.2\<close> artifact. The rows of a map and of the corpus are a record;
  the order and the filter of the waypoint query are modelled. \<open>generator_env\<close> is the environment of the
  base-map generator. Wordings of details are a parameter.
\<close>

subsection \<open>Inputs and rows\<close>

record ai_generation_inputs =
  ag_base_map_id :: int
  ag_random_seed :: int
  ag_style_tag_filter :: "string option"
  ag_difficulty :: string
  ag_beam_width :: int
  ag_max_interval_depth :: int

definition DEFAULT_BEAM_WIDTH :: int where "DEFAULT_BEAM_WIDTH = 3"
definition DEFAULT_MAX_INTERVAL_DEPTH :: int where "DEFAULT_MAX_INTERVAL_DEPTH = 12"
definition AI_GENERATOR_VERSION :: string where "AI_GENERATOR_VERSION = ''ai-generator-v0.6''"

datatype ai_detail = TooFewAnchors | PlainCheckpoints | IntervalFailed interval_detail | PostSynth nat nat

record ai_env =
  ax_env :: generator_env
  ax_round :: "rat \<Rightarrow> rat"
  ax_coll :: "char \<Rightarrow> char"
  ax_text :: "ai_detail \<Rightarrow> string"

record ai_rows =
  ap_source_map_id :: "string option"
  ap_waypoints :: "waypoint_row list"
  ap_blocks :: "block_row list"
  ap_provenance :: "(string option \<times> string option) option"
  ap_geometry_rows :: "geometry_row list"
  ap_pair_rows :: "(block_id \<times> block_id \<times> int option) list"
  ap_triple_rows :: "(block_id \<times> block_id \<times> block_id \<times> int option) list"
  ap_replay_paths :: "json_item list option list"

record base_anchors =
  ba_source_map_id :: "string option"
  ba_anchors :: "anchor list"
  ba_anchor_blocks :: "map_block list"
  ba_model_hash :: "string option"
  ba_learned_score_version :: "string option"
  ba_base_families :: "string set"

subsection \<open>Anchors\<close>

text \<open>\<open>ORDER BY waypoint_order, waypoint_index\<close> over the rows on the grid.\<close>

definition anchor_rows :: "waypoint_row list \<Rightarrow> waypoint_row list" where
  "anchor_rows ws = sort_key (\<lambda>w. (wr_order w, wr_index w)) (filter (\<lambda>w. grid_cell w \<noteq> None) ws)"

definition anchor_of_row :: "waypoint_row \<Rightarrow> anchor" where
  "anchor_of_row w = \<lparr>an_tag = wr_tag w, an_order = wr_order w, an_cell = grid_cell w\<rparr>"

definition str_of_option :: "string option \<Rightarrow> string" where
  "str_of_option v = get_or v ''None''"

definition anchor_block :: "nat \<times> block_row \<Rightarrow> map_block" where
  "anchor_block ir = (case ir of (uid, r) \<Rightarrow> case bw_cell r of (x, y, z) \<Rightarrow>
     \<lparr>mb_uid = uid, mb_placement = None, mb_x = Some (PyInt x), mb_y = Some (PyInt y), mb_z = Some (PyInt z),
      mb_family = Some (str_of_option (bw_family r)), mb_name = Some (str_of_option (bw_type r)),
      mb_rotation = Some (PyInt (get_or (bw_rotation r) 0))\<rparr>)"

definition fetch_base_anchors :: "ai_rows \<Rightarrow> base_anchors" where
  "fetch_base_anchors rows =
     (let anchors = map anchor_of_row (anchor_rows (ap_waypoints rows)) in
      \<lparr>ba_source_map_id = ap_source_map_id rows, ba_anchors = anchors,
       ba_anchor_blocks = map anchor_block (enumerate 0 (filter (\<lambda>r. Some (bw_cell r) \<in> an_cell ` set anchors) (ap_blocks rows))),
       ba_model_hash = (case ap_provenance rows of None \<Rightarrow> None | Some p \<Rightarrow> fst p),
       ba_learned_score_version = (case ap_provenance rows of None \<Rightarrow> None | Some p \<Rightarrow> snd p),
       ba_base_families = set (filter (\<lambda>f. f \<noteq> []) (List.map_filter bw_family (ap_blocks rows)))\<rparr>)"

definition is_linked_cp :: "anchor list \<Rightarrow> bool" where
  "is_linked_cp anchors \<longleftrightarrow> (\<exists>a \<in> set anchors. an_tag a = ''LinkedCheckpoint'')"

definition anchor_block_at :: "map_block list \<Rightarrow> cell \<Rightarrow> block_id option" where
  "anchor_block_at blocks c =
     map_option (\<lambda>b. (str_or_empty (mb_family b), str_or_empty (mb_name b))) (find (\<lambda>b. xyz_cell b = Some c) blocks)"

subsection \<open>The intervals of a run\<close>

record ai_interval =
  av_index :: nat
  av_src :: anchor
  av_dst :: anchor
  av_path_length :: nat

record ai_state =
  as_occupied :: "cell set"
  as_synthesised :: "ai_block list"
  as_intervals :: "ai_interval list"
  as_all_cells :: "cell list"
  as_score_sum :: rat
  as_score_count :: nat

definition initial_state :: "anchor list \<Rightarrow> ai_state" where
  "initial_state anchors = \<lparr>as_occupied = set (List.map_filter an_cell anchors), as_synthesised = [], as_intervals = [],
     as_all_cells = [], as_score_sum = 0, as_score_count = 0\<rparr>"

definition add_interval :: "rat fops \<Rightarrow> nat \<Rightarrow> anchor \<Rightarrow> anchor \<Rightarrow> interval_result \<Rightarrow> cell set \<Rightarrow> ai_state \<Rightarrow> ai_state" where
  "add_interval F idx src dst result occupied st =
     \<lparr>as_occupied = occupied, as_synthesised = as_synthesised st @ ir_blocks result,
      as_intervals = as_intervals st @
        [\<lparr>av_index = idx, av_src = src, av_dst = dst, av_path_length = length (ir_path_cells result)\<rparr>],
      as_all_cells = as_all_cells st @ ir_path_cells result,
      as_score_sum = f_add F (as_score_sum st) (ir_score_sum result), as_score_count = as_score_count st + ir_score_count result\<rparr>"

text \<open>The left side is an interval that was rejected, with the state before it.\<close>

fun synthesise :: "search_params \<Rightarrow> map_block list \<Rightarrow> (nat \<times> anchor \<times> anchor) list \<Rightarrow> ai_state
    \<Rightarrow> ai_state \<times> interval_result \<times> reject_reason \<times> interval_detail + ai_state" where
  "synthesise P blocks [] st = Inr st"
| "synthesise P blocks ((idx, src, dst) # rest) st =
     (case (an_cell src, an_cell dst) of
        (Some s, Some d) \<Rightarrow>
          (case generate_interval P s d (anchor_block_at blocks s) (as_occupied st) of
             (result, occupied) \<Rightarrow>
               (case ir_reject result of
                  Some (reason, detail) \<Rightarrow> Inl (st, result, reason, detail)
                | None \<Rightarrow> synthesise P blocks rest (add_interval (sq_floats P) idx src dst result occupied st)))
      | _ \<Rightarrow> synthesise P blocks rest st)"

definition search_params_of :: "ai_env \<Rightarrow> ai_generation_inputs \<Rightarrow> ai_rows \<Rightarrow> search_params" where
  "search_params_of env inputs rows =
     (let F = ge_floats (ax_env env) in
      \<lparr>sq_floats = F, sq_round = ax_round env,
       sq_corpus = \<lparr>cp_catalogue = load_candidate_catalogue (ax_coll env) (ap_geometry_rows rows) (ba_base_families (fetch_base_anchors rows)),
         cp_pair_priors = load_pair_priors F (ap_pair_rows rows), cp_triple_priors = load_triple_priors F (ap_triple_rows rows),
         cp_shape_surface = load_shape_surface_lookup (ap_geometry_rows rows)\<rparr>,
       sq_weights = AI_GENERATOR_WEIGHTS F, sq_max_depth = nat (ag_max_interval_depth inputs),
       sq_beam_width = nat (max 1 (ag_beam_width inputs)), sq_top_n_children = DEFAULT_TOP_N_CANDIDATES\<rparr>)"

subsection \<open>The artifact\<close>

definition hash_inputs :: "generator_env \<Rightarrow> ai_generation_inputs \<Rightarrow> string" where
  "hash_inputs env i = take 16 (ge_sha256 env (ge_dumps env (JObj
     [(''base_map_id'', JInt (ag_base_map_id i)), (''base_map_source_id'', JNull),
      (''style_tag_filter'', opt_json JStr (ag_style_tag_filter i)), (''difficulty'', JStr (ag_difficulty i)),
      (''random_seed'', JInt (ag_random_seed i)), (''strip'', JBool False), (''ai_generator_version'', JStr AI_GENERATOR_VERSION)])))"

definition terms_json :: "score_terms \<Rightarrow> json" where
  "terms_json t = JObj
     [(''pair_prior'', JFloat (tm_pair_prior t)), (''triple_prior'', JFloat (tm_triple_prior t)), (''connector'', JFloat (tm_connector t)),
      (''traversability'', JFloat (tm_traversability t)), (''sequence'', JFloat (tm_sequence t)),
      (''diversity_penalty'', JFloat (tm_diversity_penalty t)), (''validation_penalty'', JFloat (tm_validation_penalty t))]"

definition ai_block_json :: "ai_block \<Rightarrow> json" where
  "ai_block_json b = (case ab_cell b of (x, y, z) \<Rightarrow> JObj
     [(''block_family'', JStr (ab_family b)), (''block_name'', JStr (ab_name b)), (''x'', JInt x), (''y'', JInt y), (''z'', JInt z),
      (''rotation'', JInt (ab_rotation b)), (''ai_score'', JFloat (ab_score b)), (''ai_score_breakdown'', terms_json (ab_breakdown b))])"

definition anchor_checkpoint :: "nat \<times> anchor \<Rightarrow> json" where
  "anchor_checkpoint ia = (case ia of (i, a) \<Rightarrow> case get_or (an_cell a) (0, 0, 0) of (x, y, z) \<Rightarrow> JObj
     [(''waypoint_index'', JInt (int i)), (''waypoint_order'', JInt (an_order a)), (''tag'', JStr (an_tag a)),
      (''x'', JInt x), (''y'', JInt y), (''z'', JInt z)])"

definition py_trunc :: "rat \<Rightarrow> int" where "py_trunc q = (if 0 \<le> q then \<lfloor>q\<rfloor> else \<lceil>q\<rceil>)"

definition ai_expected_time_ms :: "rat fops \<Rightarrow> nat \<Rightarrow> int" where
  "ai_expected_time_ms F n = py_trunc (f_mul F (f_div F (f_lit F (of_nat (32 * n))) (f_lit F 30)) (f_lit F 1000))"

definition ai_interval_entry :: "rat fops \<Rightarrow> ai_interval \<Rightarrow> json" where
  "ai_interval_entry F v = JObj
     [(''index'', JInt (int (av_index v))), (''src_tag'', JStr (an_tag (av_src v))), (''src_order'', JInt (an_order (av_src v))),
      (''dst_tag'', JStr (an_tag (av_dst v))), (''dst_order'', JInt (an_order (av_dst v))),
      (''chosen_corridor_id'', JInt (- (int (av_index v) + 1))), (''chosen_corridor_score'', JFloat 0),
      (''path_length_cells'', JInt (int (av_path_length v))), (''expected_time_ms'', JInt (ai_expected_time_ms F (av_path_length v)))]"

definition ai_corridor_entry :: "ai_interval \<Rightarrow> json" where
  "ai_corridor_entry v = JObj
     [(''corridor_id'', JInt (- (int (av_index v) + 1))), (''interval_index'', JInt (int (av_index v))),
      (''learned_corridor_score'', JFloat 0), (''contains_virtual_edge'', JBool False),
      (''path_length_cells'', JInt (int (av_path_length v)))]"

record ai_verdict =
  vd_verified :: bool
  vd_reject :: "reject_reason option"
  vd_time_ms :: "int option"
  vd_confidence :: "rat option"
  vd_detail :: "ai_detail option"

definition build_v0_2_artifact :: "ai_env \<Rightarrow> ai_generation_inputs \<Rightarrow> base_anchors \<Rightarrow> ai_block list \<Rightarrow> cell list \<Rightarrow> ai_interval list
    \<Rightarrow> ai_verdict \<Rightarrow> json" where
  "build_v0_2_artifact env inputs base synthesised all_cells intervals verdict =
     (let e = ax_env env in JObj
        [(''schema_version'', JStr ''generation-v0.2''), (''run_id'', JStr (hash_inputs e inputs)), (''generated_at'', JStr (ge_now e)),
         (''inputs'', JObj
            [(''base_map_id'', JInt (ag_base_map_id inputs)), (''base_map_source_id'', opt_json JStr (ba_source_map_id base)),
             (''style_tag_filter'', opt_json JStr (ag_style_tag_filter inputs)), (''difficulty'', JStr (ag_difficulty inputs)),
             (''random_seed'', JInt (ag_random_seed inputs)), (''strip'', JBool False)]),
         (''provenance'', JObj
            [(''model_hash'', JStr (str_default (ba_model_hash base) (replicate 64 (CHR ''0'')))),
             (''learned_score_version'', JStr (str_default (ba_learned_score_version base) [])),
             (''config_hash'', JStr (ge_config_hash e)), (''code_version'', JStr (ge_code_version e)),
             (''classification_version'', JStr (ge_classification_version e))]),
         (''map'', JObj
            [(''waypoint_order_style'', JStr ''linked''), (''interval_count'', JInt (max 1 (int (length (ba_anchors base)) - 1))),
             (''blocks'', JArr (map block_entry (ba_anchor_blocks base) @ map ai_block_json synthesised)),
             (''checkpoints'', JArr (map anchor_checkpoint (enumerate 0 (filter (\<lambda>a. an_cell a \<noteq> None) (ba_anchors base))))),
             (''ai_generated'', JBool True), (''ai_generator_version'', JStr AI_GENERATOR_VERSION)]),
         (''route'', JObj
            [(''intervals'', JArr (map (ai_interval_entry (ge_floats e)) intervals)), (''cells_total'', JInt (int (length all_cells))),
             (''corridors_used'', JArr (map ai_corridor_entry intervals))]),
         (''finishability'', JObj
            [(''route_verified'', JBool (vd_verified verdict)), (''estimated_time_ms'', opt_json JInt (vd_time_ms verdict)),
             (''ai_confidence'', opt_json JFloat (vd_confidence verdict)),
             (''reject_reason'', opt_json (\<lambda>r. JStr (reason_text r)) (vd_reject verdict)), (''gate_version'', JStr GATE_VERSION),
             (''detail'', opt_json (\<lambda>d. JStr (ax_text env d)) (vd_detail verdict))])])"

definition rejected :: "reject_reason \<Rightarrow> ai_detail \<Rightarrow> ai_verdict" where
  "rejected reason detail = \<lparr>vd_verified = False, vd_reject = Some reason, vd_time_ms = None, vd_confidence = None, vd_detail = Some detail\<rparr>"

subsection \<open>Generation\<close>

definition synth_block :: "nat \<Rightarrow> ai_block \<Rightarrow> map_block" where
  "synth_block uid b = (case ab_cell b of (x, y, z) \<Rightarrow>
     \<lparr>mb_uid = uid, mb_placement = None, mb_x = Some (PyInt x), mb_y = Some (PyInt y), mb_z = Some (PyInt z),
      mb_family = Some (ab_family b), mb_name = Some (ab_name b), mb_rotation = Some (PyInt (ab_rotation b))\<rparr>)"

text \<open>The validation of the finished route counts failures for the detail text; no verdict depends on it.\<close>

definition post_synth_detail :: "ai_rows \<Rightarrow> base_anchors \<Rightarrow> ai_block list \<Rightarrow> cell list \<Rightarrow> py_error + ai_detail option" where
  "post_synth_detail rows base synthesised all_cells =
     (let geo = load_geometry_lookup (ap_geometry_rows rows) in
      case normalize_blocks (ba_anchor_blocks base @ map (synth_block 0) synthesised) of
        Inl e \<Rightarrow> Inl e
      | Inr normalised \<Rightarrow>
          if geo = [] \<or> all_cells = [] then Inr None
          else (case validate_map_geometry normalised (map_of geo) (Some all_cells) (an_cell (hd (ba_anchors base))) 9 1 of
              Inl e \<Rightarrow> Inl e
            | Inr report \<Rightarrow>
                let cells = concat (map parse_cells (ap_replay_paths rows));
                    jumps = validate_jumps normalised (map_of geo) all_cells (if cells = [] then None else Some (set cells)) None 2
                in Inr (Some (PostSynth
                     (length (filter (\<lambda>f. fd_severity f = SEVERITY_FAIL \<and> fd_code f = CODE_PARTIAL_MULTICELL) (vr_findings report)))
                     (length (by_class jumps CLASS_LIKELY_BROKEN))))))"

definition positive_weight_sum :: "rat fops \<Rightarrow> rat" where
  "positive_weight_sum F = (let w = AI_GENERATOR_WEIGHTS F in
     f_sum F [tm_pair_prior w, tm_triple_prior w, tm_connector w, tm_traversability w, tm_sequence w])"

definition ai_confidence :: "rat fops \<Rightarrow> rat \<Rightarrow> nat \<Rightarrow> rat option" where
  "ai_confidence F score_sum score_count =
     (if 0 < score_count \<and> 0 < positive_weight_sum F
      then Some (clamp01 (f_div F (f_div F score_sum (f_lit F (of_nat score_count))) (positive_weight_sum F)))
      else None)"

definition final_verdict :: "rat fops \<Rightarrow> base_anchors \<Rightarrow> ai_state \<Rightarrow> ai_detail option \<Rightarrow> ai_verdict" where
  "final_verdict F base st detail =
     (let confidence = ai_confidence F (as_score_sum st) (as_score_count st);
          verified = (length (as_intervals st) = length (ba_anchors base) - 1 \<and>
            (case confidence of None \<Rightarrow> False | Some q \<Rightarrow> AI_CONFIDENCE_FLOOR F \<le> q))
      in \<lparr>vd_verified = verified,
          vd_reject = (if \<not> verified \<and> (case confidence of None \<Rightarrow> False | Some q \<Rightarrow> q < AI_CONFIDENCE_FLOOR F)
            then Some confidence_below_floor else None),
          vd_time_ms = (if as_intervals st = [] then None
            else Some (sum_list (map (\<lambda>v. ai_expected_time_ms F (av_path_length v)) (as_intervals st)))),
          vd_confidence = confidence, vd_detail = detail\<rparr>)"

definition indexed_steps :: "anchor list \<Rightarrow> (nat \<times> anchor \<times> anchor) list" where
  "indexed_steps anchors = enumerate 0 (steps_of anchors)"

definition generate_ai_map :: "ai_env \<Rightarrow> (int \<Rightarrow> ai_rows option) \<Rightarrow> ai_generation_inputs \<Rightarrow> generation_exn + json" where
  "generate_ai_map env db inputs =
     (case db (ag_base_map_id inputs) of
        None \<Rightarrow> Inl BadRequest
      | Some rows \<Rightarrow>
          (let base = fetch_base_anchors rows; anchors = ba_anchors base in
           if length anchors < 2
           then Inr (build_v0_2_artifact env inputs base [] [] [] (rejected empty_corridors TooFewAnchors))
           else if \<not> is_linked_cp anchors
           then Inr (build_v0_2_artifact env inputs base [] [] [] (rejected plain_cp_not_supported_v0 PlainCheckpoints))
           else (case synthesise (search_params_of env inputs rows) (ba_anchor_blocks base) (indexed_steps anchors)
                   (initial_state anchors) of
               Inl (st, result, reason, detail) \<Rightarrow>
                 Inr (build_v0_2_artifact env inputs base (as_synthesised st @ ir_blocks result) (as_all_cells st @ ir_path_cells result)
                   (as_intervals st) (rejected reason (IntervalFailed detail)))
             | Inr st \<Rightarrow>
                 (case post_synth_detail rows base (as_synthesised st) (as_all_cells st) of
                    Inl e \<Rightarrow> Inl (RaisedPy e)
                  | Inr detail \<Rightarrow>
                      let artifact = build_v0_2_artifact env inputs base (as_synthesised st) (as_all_cells st) (as_intervals st)
                            (final_verdict (ge_floats (ax_env env)) base st detail)
                      in (case ge_validate (ax_env env) artifact of
                            Some err \<Rightarrow> Inl (SchemaMismatch err)
                          | None \<Rightarrow> Inr artifact)))))"

subsection \<open>The intervals\<close>

lemma catalogue_units: "unit_catalogue (load_candidate_catalogue coll rows families)"
  by (auto simp: unit_catalogue_def load_candidate_catalogue_def candidate_entry_def geometry_info_of_def catalogue_where_def)

lemma params_usable: "usable_search (search_params_of env inputs rows)"
  by (simp add: usable_search_def search_params_of_def Let_def catalogue_units DEFAULT_TOP_N_CANDIDATES_def)

definition all_on_grid :: "(nat \<times> anchor \<times> anchor) list \<Rightarrow> bool" where
  "all_on_grid steps \<longleftrightarrow> (\<forall>(i, a, b) \<in> set steps. an_cell a \<noteq> None \<and> an_cell b \<noteq> None)"

definition step_walk :: "anchor \<times> anchor \<Rightarrow> nat" where
  "step_walk ab = (case ab of (a, b) \<Rightarrow> walk_length (the (an_cell a)) (the (an_cell b)))"

text \<open>The interval a step leaves behind.\<close>

definition interval_of :: "nat \<times> anchor \<times> anchor \<Rightarrow> ai_interval" where
  "interval_of iab = (case iab of (i, a, b) \<Rightarrow>
     \<lparr>av_index = i, av_src = a, av_dst = b, av_path_length = Suc (step_walk (a, b))\<rparr>)"

text \<open>What a finished run of the intervals has done to the state.\<close>

definition extends_state :: "search_params \<Rightarrow> (nat \<times> anchor \<times> anchor) list \<Rightarrow> ai_state \<Rightarrow> ai_state \<Rightarrow> bool" where
  "extends_state P steps st st' \<longleftrightarrow>
     (\<exists>bs. as_synthesised st' = as_synthesised st @ bs \<and> distinct (map ab_cell bs) \<and> set (map ab_cell bs) \<inter> as_occupied st = {} \<and>
        as_occupied st' = as_occupied st \<union> set (map ab_cell bs) \<and> (\<forall>b \<in> set bs. block_from (cp_catalogue (sq_corpus P)) b) \<and>
        length bs = sum_list (map (\<lambda>(i, ab). step_walk ab) steps)) \<and>
     as_intervals st' = as_intervals st @ map interval_of steps \<and>
     length (as_all_cells st') = length (as_all_cells st) + sum_list (map (\<lambda>(i, ab). Suc (step_walk ab)) steps) \<and>
     as_score_count st' = as_score_count st + sum_list (map (\<lambda>(i, ab). step_walk ab) steps) \<and>
     (\<forall>(i, ab) \<in> set steps. step_walk ab \<le> sq_max_depth P)"

lemma interval_done:
  assumes "usable_search P" and "generate_interval P s d src_block occupied = (result, occupied')"
  shows "(ir_reject result = None \<longleftrightarrow> interval_clear P s d occupied) \<and> (\<forall>b \<in> set (ir_blocks result). block_from (cp_catalogue (sq_corpus P)) b) \<and>
    (interval_clear P s d occupied \<longrightarrow> length (ir_blocks result) = walk_length s d \<and> length (ir_path_cells result) = Suc (walk_length s d) \<and>
      ir_score_count result = walk_length s d \<and> distinct (map ab_cell (ir_blocks result)) \<and>
      set (map ab_cell (ir_blocks result)) \<inter> occupied = {} \<and> occupied' = occupied \<union> set (map ab_cell (ir_blocks result)) \<and>
      set (map ab_cell (ir_blocks result)) = walk_cell s d ` {1..walk_length s d})"
proof -
  from generate_interval_parts [OF assms] obtain m where m:
    "map ab_cell (ir_blocks result) = map (walk_cell s d) [1..<Suc m]" "ir_path_cells result = map (walk_cell s d) [0..<Suc m]"
    "distinct (ir_path_cells result)" "ir_score_count result = m" "\<forall>b \<in> set (ir_blocks result). block_from (cp_catalogue (sq_corpus P)) b"
    "if interval_clear P s d occupied
       then ir_reject result = None \<and> m = walk_length s d \<and> set (map ab_cell (ir_blocks result)) \<inter> occupied = {} \<and>
         occupied' = occupied \<union> set (map ab_cell (ir_blocks result))
       else ir_reject result \<noteq> None" by blast
  have "length (ir_blocks result) = m" using arg_cong [OF m(1), of length] by simp
  moreover have "length (ir_path_cells result) = Suc m" using arg_cong [OF m(2), of length] by simp
  moreover have "distinct (map ab_cell (ir_blocks result))"
    using m(1,2,3) by (simp only: distinct_map distinct_upt set_upt) (meson atLeastLessThan_iff inj_on_subset le0 subsetI)
  moreover have "set (map ab_cell (ir_blocks result)) = walk_cell s d ` {1..m}"
    unfolding m(1) by (simp only: set_map set_upt atLeastLessThanSuc_atLeastAtMost)
  ultimately show ?thesis using m(4,5,6) by (cases "interval_clear P s d occupied") simp_all
qed

text \<open>Whether a run gets through all its intervals, and what it then has built.\<close>

fun route_clear :: "search_params \<Rightarrow> (nat \<times> anchor \<times> anchor) list \<Rightarrow> cell set \<Rightarrow> bool" where
  "route_clear P [] occupied = True"
| "route_clear P ((i, a, b) # rest) occupied =
     (let s = the (an_cell a); d = the (an_cell b)
      in interval_clear P s d occupied \<and> route_clear P rest (occupied \<union> walk_cell s d ` {1..walk_length s d}))"

lemma synthesise_step:
  assumes "usable_search P" and "an_cell a = Some s" and "an_cell b = Some d"
  shows "if interval_clear P s d (as_occupied st)
    then \<exists>st1. synthesise P blocks ((i, a, b) # rest) st = synthesise P blocks rest st1 \<and> extends_state P [(i, a, b)] st st1 \<and>
      as_occupied st1 = as_occupied st \<union> walk_cell s d ` {1..walk_length s d}
    else \<exists>result reason detail. synthesise P blocks ((i, a, b) # rest) st = Inl (st, result, reason, detail)"
proof -
  obtain result occ where g: "generate_interval P s d (anchor_block_at blocks s) (as_occupied st) = (result, occ)" by fastforce
  note fin = interval_done [OF assms(1) g]
  show ?thesis
  proof (cases "interval_clear P s d (as_occupied st)")
    case True
    let ?st1 = "add_interval (sq_floats P) i a b result occ st"
    have "walk_length s d \<le> sq_max_depth P" using True by (simp add: interval_clear_def)
    moreover define bs where "bs = ir_blocks result"
    moreover have "\<forall>x \<in> set bs. block_from (cp_catalogue (sq_corpus P)) x" "length bs = walk_length s d" "ir_score_count result = walk_length s d"
      "length (ir_path_cells result) = Suc (walk_length s d)" "distinct (map ab_cell bs)" "set (map ab_cell bs) \<inter> as_occupied st = {}"
      "occ = as_occupied st \<union> set (map ab_cell bs)"
      using fin True unfolding bs_def by blast+
    ultimately have "extends_state P [(i, a, b)] st ?st1"
      using assms(2,3) unfolding extends_state_def add_interval_def
      by (intro conjI exI [of _ bs]) (simp_all add: step_walk_def interval_of_def)
    moreover have "as_occupied ?st1 = as_occupied st \<union> walk_cell s d ` {1..walk_length s d}"
      using fin True by (simp add: add_interval_def)
    moreover have "synthesise P blocks ((i, a, b) # rest) st = synthesise P blocks rest ?st1"
      using fin True assms(2,3) by (simp add: g)
    ultimately show ?thesis using True by auto
  next
    case False
    with fin obtain reason detail where "ir_reject result = Some (reason, detail)" by auto
    with False assms(2,3) show ?thesis by (simp add: g)
  qed
qed

lemma extends_state_refl: "extends_state P [] st st"
  by (simp add: extends_state_def)

lemma extends_state_trans:
  assumes "extends_state P xs st st1" and "extends_state P ys st1 st2"
  shows "extends_state P (xs @ ys) st st2"
proof -
  from assms(1) obtain bs where bs: "as_synthesised st1 = as_synthesised st @ bs" "distinct (map ab_cell bs)"
    "set (map ab_cell bs) \<inter> as_occupied st = {}" "as_occupied st1 = as_occupied st \<union> set (map ab_cell bs)"
    "\<forall>b \<in> set bs. block_from (cp_catalogue (sq_corpus P)) b" "length bs = sum_list (map (\<lambda>(i, ab). step_walk ab) xs)"
    by (auto simp: extends_state_def)
  from assms(2) obtain cs where cs: "as_synthesised st2 = as_synthesised st1 @ cs" "distinct (map ab_cell cs)"
    "set (map ab_cell cs) \<inter> as_occupied st1 = {}" "as_occupied st2 = as_occupied st1 \<union> set (map ab_cell cs)"
    "\<forall>b \<in> set cs. block_from (cp_catalogue (sq_corpus P)) b" "length cs = sum_list (map (\<lambda>(i, ab). step_walk ab) ys)"
    by (auto simp: extends_state_def)
  have "distinct (map ab_cell (bs @ cs))" "set (map ab_cell (bs @ cs)) \<inter> as_occupied st = {}"
    using bs(2,3,4) cs(2,3) by auto
  with bs cs assms show ?thesis
    unfolding extends_state_def by (intro conjI exI [of _ "bs @ cs"]) auto
qed

lemma synthesise_run:
  assumes "usable_search P" and "all_on_grid steps"
  shows "if route_clear P steps (as_occupied st) then \<exists>st'. synthesise P blocks steps st = Inr st' \<and> extends_state P steps st st'
    else \<exists>r. synthesise P blocks steps st = Inl r"
  using assms(2)
proof (induction steps arbitrary: st)
  case Nil
  then show ?case by (simp add: extends_state_refl)
next
  case (Cons step rest)
  obtain i a b where step: "step = (i, a, b)" by (cases step)
  with Cons.prems obtain s d where sd: "an_cell a = Some s" "an_cell b = Some d" and rest: "all_on_grid rest"
    by (auto simp: all_on_grid_def)
  show ?case
  proof (cases "interval_clear P s d (as_occupied st)")
    case True
    with synthesise_step [OF assms(1) sd, of st blocks i rest] obtain st1 where
      st1: "synthesise P blocks (step # rest) st = synthesise P blocks rest st1" "extends_state P [step] st st1"
      "as_occupied st1 = as_occupied st \<union> walk_cell s d ` {1..walk_length s d}" unfolding step by auto
    have "extends_state P (step # rest) st st'" if "extends_state P rest st1 st'" for st'
      using extends_state_trans [OF st1(2) that] by simp
    with Cons.IH [OF rest, of st1] True st1(1) show ?thesis unfolding step by (simp add: sd st1(3) split: if_splits) blast
  next
    case False
    with synthesise_step [OF assms(1) sd, of st blocks i rest] show ?thesis unfolding step by (auto simp: sd)
  qed
qed

subsection \<open>Conformance with the schema\<close>

definition ai_rows_ok :: "ai_rows \<Rightarrow> bool" where
  "ai_rows_ok rows \<longleftrightarrow> (\<forall>r \<in> set (ap_blocks rows). block_row_ok r) \<and> (\<forall>w \<in> set (ap_waypoints rows). 0 \<le> wr_order w) \<and>
     (\<forall>r \<in> set (ap_geometry_rows rows). gr_family r \<noteq> [] \<and> gr_name r \<noteq> []) \<and>
     (\<forall>h v. ap_provenance rows = Some (Some h, v) \<longrightarrow> h = [] \<or> hex_string 64 h)"

definition ai_inputs_ok :: "ai_generation_inputs \<Rightarrow> bool" where
  "ai_inputs_ok i \<longleftrightarrow> ag_style_tag_filter i \<in> set ALLOWED_STYLE \<and> ag_difficulty i \<in> set ALLOWED_DIFFICULTY"

definition known_tag :: "string \<Rightarrow> bool" where
  "known_tag tag \<longleftrightarrow> tag \<in> {''Spawn'', ''Checkpoint'', ''LinkedCheckpoint'', ''Goal''}"

text \<open>No step of the route leaves a goal or enters a spawn.\<close>

definition step_tags :: "anchor \<times> anchor \<Rightarrow> bool" where
  "step_tags ab \<longleftrightarrow> an_tag (fst ab) \<noteq> ''Goal'' \<and> an_tag (snd ab) \<noteq> ''Spawn''"

definition verdict_ok :: "ai_verdict \<Rightarrow> bool" where
  "verdict_ok v \<longleftrightarrow> in_unit (vd_confidence v) \<and> (\<forall>t. vd_time_ms v = Some t \<longrightarrow> 0 \<le> t)"

lemma anchor_cells:
  assumes "a \<in> set (ba_anchors (fetch_base_anchors rows))"
  shows "\<exists>w \<in> set (ap_waypoints rows). a = anchor_of_row w \<and> grid_cell w \<noteq> None"
  using assms by (auto simp: fetch_base_anchors_def anchor_rows_def Let_def)

lemma anchors_on_grid: "a \<in> set (ba_anchors (fetch_base_anchors rows)) \<Longrightarrow> an_cell a \<noteq> None"
  by (auto dest!: anchor_cells simp: anchor_of_row_def)

lemma anchor_orders: "ai_rows_ok rows \<Longrightarrow> a \<in> set (ba_anchors (fetch_base_anchors rows)) \<Longrightarrow> 0 \<le> an_order a"
  by (auto dest!: anchor_cells simp: anchor_of_row_def ai_rows_ok_def)

lemma anchor_block_ok:
  assumes "block_row_ok r"
  shows "schema_Block (block_entry (anchor_block (n, r)))"
proof -
  obtain x y z where "bw_cell r = (x, y, z)" by (cases "bw_cell r")
  with assms show ?thesis
    by (cases "bw_family r"; cases "bw_type r")
      (simp_all add: schema_Block_def block_entry_def anchor_block_def int_field_def str_or_empty_def str_of_option_def get_or_def block_row_ok_def)
qed

lemma anchor_blocks_ok:
  assumes "ai_rows_ok rows"
  shows "list_all schema_Block (map block_entry (ba_anchor_blocks (fetch_base_anchors rows)))"
proof -
  have "schema_Block (block_entry b)" if "b \<in> set (ba_anchor_blocks (fetch_base_anchors rows))" for b
  proof -
    from that obtain n r where "b = anchor_block (n, r)" "r \<in> set (ap_blocks rows)"
      by (auto simp: fetch_base_anchors_def Let_def dest!: enumerate_in_set)
    with assms show ?thesis by (simp add: ai_rows_ok_def anchor_block_ok)
  qed
  then show ?thesis by (auto simp: list_all_iff)
qed

lemma score_breakdown_ok: "score_breakdown (terms_json t)"
  by (simp add: score_breakdown_def terms_json_def)

lemma synth_block_ok:
  assumes "ai_rows_ok rows" and "block_from (load_candidate_catalogue coll (ap_geometry_rows rows) families) b"
  shows "schema_Block (ai_block_json b)"
proof -
  obtain x y z where c: "ab_cell b = (x, y, z)" by (cases "ab_cell b")
  from assms have "ab_family b \<noteq> [] \<and> ab_name b \<noteq> [] \<and> 0 \<le> ab_rotation b \<and> ab_rotation b \<le> 3"
    by (auto simp: block_from_def load_candidate_catalogue_def candidate_entry_def ai_rows_ok_def)
  moreover have "or_null score_breakdown (terms_json t)" for t using score_breakdown_ok by (simp add: or_null_def)
  ultimately show ?thesis by (simp add: schema_Block_def ai_block_json_def c)
qed

lemma checkpoint_tag: "0 \<le> an_order a \<Longrightarrow> schema_Checkpoint (anchor_checkpoint (i, a)) \<longleftrightarrow> known_tag (an_tag a)"
  by (auto simp: schema_Checkpoint_def anchor_checkpoint_def known_tag_def split: prod.split)

lemma ai_time_nonneg:
  assumes "floats_ok F"
  shows "0 \<le> ai_expected_time_ms F n"
proof -
  have "0 \<le> f_lit F (of_nat (32 * n))" "0 \<le> f_lit F 30" "0 \<le> f_lit F 1000" using assms by (simp_all add: floats_ok_def)
  then have "0 \<le> f_mul F (f_div F (f_lit F (of_nat (32 * n))) (f_lit F 30)) (f_lit F 1000)" using assms by (simp add: floats_ok_def)
  then show ?thesis by (simp add: ai_expected_time_ms_def py_trunc_def)
qed

lemma ai_interval_tags:
  assumes "0 \<le> an_order (av_src v)" and "0 \<le> an_order (av_dst v)" and "floats_ok F"
  shows "schema_IntervalEntry (ai_interval_entry F v) \<longleftrightarrow>
    an_tag (av_src v) \<in> {''Spawn'', ''Checkpoint'', ''LinkedCheckpoint''} \<and> an_tag (av_dst v) \<in> {''Checkpoint'', ''LinkedCheckpoint'', ''Goal''}"
  using assms ai_time_nonneg by (auto simp: schema_IntervalEntry_def ai_interval_entry_def)

lemma ai_corridor_ok: "schema_CorridorUsed (ai_corridor_entry v)"
  by (simp add: schema_CorridorUsed_def ai_corridor_entry_def)

lemma final_verdict_ok: "floats_ok F \<Longrightarrow> verdict_ok (final_verdict F base st detail)"
  by (auto simp: verdict_ok_def final_verdict_def Let_def in_unit_def ai_confidence_def clamp01_def ai_time_nonneg
      intro!: sum_list_nonneg split: if_splits)

lemma rejected_ok: "verdict_ok (rejected reason detail)"
  by (simp add: verdict_ok_def rejected_def in_unit_def)

lemma ai_checkpoints:
  assumes "ai_rows_ok rows"
  shows "list_all schema_Checkpoint (map anchor_checkpoint (enumerate 0 (filter (\<lambda>a. an_cell a \<noteq> None) (ba_anchors (fetch_base_anchors rows)))))
    \<longleftrightarrow> (\<forall>a \<in> set (ba_anchors (fetch_base_anchors rows)). known_tag (an_tag a))"
    and "length (map anchor_checkpoint (enumerate 0 (filter (\<lambda>a. an_cell a \<noteq> None) (ba_anchors (fetch_base_anchors rows))))) =
      length (ba_anchors (fetch_base_anchors rows))"
proof -
  let ?as = "ba_anchors (fetch_base_anchors rows)"
  have id: "filter (\<lambda>a. an_cell a \<noteq> None) ?as = ?as" using anchors_on_grid by (simp add: filter_id_conv)
  have tag: "schema_Checkpoint (anchor_checkpoint (i, a)) \<longleftrightarrow> known_tag (an_tag a)" if "a \<in> set ?as" for i a
    using checkpoint_tag [OF anchor_orders [OF assms that]] .
  show "list_all schema_Checkpoint (map anchor_checkpoint (enumerate 0 (filter (\<lambda>a. an_cell a \<noteq> None) ?as)))
    \<longleftrightarrow> (\<forall>a \<in> set ?as. known_tag (an_tag a))"
    unfolding id by (auto simp: list_all_length nth_enumerate_eq tag all_set_conv_all_nth)
  show "length (map anchor_checkpoint (enumerate 0 (filter (\<lambda>a. an_cell a \<noteq> None) ?as))) = length ?as" unfolding id by simp
qed

lemma ai_map_object:
  assumes "ai_rows_ok rows" and "\<forall>b \<in> set bs. block_from (load_candidate_catalogue coll (ap_geometry_rows rows) families) b"
  shows "schema_map (JObj
            [(''waypoint_order_style'', JStr ''linked''),
             (''interval_count'', JInt (max 1 (int (length (ba_anchors (fetch_base_anchors rows))) - 1))),
             (''blocks'', JArr (map block_entry (ba_anchor_blocks (fetch_base_anchors rows)) @ map ai_block_json bs)),
             (''checkpoints'', JArr (map anchor_checkpoint (enumerate 0 (filter (\<lambda>a. an_cell a \<noteq> None) (ba_anchors (fetch_base_anchors rows)))))),
             (''ai_generated'', JBool True), (''ai_generator_version'', JStr AI_GENERATOR_VERSION)]) \<longleftrightarrow>
    2 \<le> length (ba_anchors (fetch_base_anchors rows)) \<and> (ba_anchor_blocks (fetch_base_anchors rows) \<noteq> [] \<or> bs \<noteq> []) \<and>
    (\<forall>a \<in> set (ba_anchors (fetch_base_anchors rows)). known_tag (an_tag a))"
proof -
  have blocks: "list_all schema_Block (map block_entry (ba_anchor_blocks (fetch_base_anchors rows)) @ map ai_block_json bs)"
    using anchor_blocks_ok [OF assms(1)] synth_block_ok [OF assms(1)] assms(2) by (auto simp: list_all_iff)
  note cps = ai_checkpoints [OF assms(1)]
  define cs where "cs = map anchor_checkpoint (enumerate 0 (filter (\<lambda>a. an_cell a \<noteq> None) (ba_anchors (fetch_base_anchors rows))))"
  define bl where "bl = map block_entry (ba_anchor_blocks (fetch_base_anchors rows)) @ map ai_block_json bs"
  have bl: "list_all schema_Block bl" "1 \<le> length bl \<longleftrightarrow> ba_anchor_blocks (fetch_base_anchors rows) \<noteq> [] \<or> bs \<noteq> []"
    using blocks by (simp_all add: bl_def Suc_le_eq)
  show ?thesis
    unfolding cs_def [symmetric] bl_def [symmetric] cps [folded cs_def, symmetric] bl(2) [symmetric]
    unfolding schema_map_def using bl(1) by (auto simp: AI_GENERATOR_VERSION_def)
qed

lemma ai_route_object:
  assumes "ai_rows_ok rows" and "floats_ok F"
    and "\<forall>v \<in> set vs. av_src v \<in> set (ba_anchors (fetch_base_anchors rows)) \<and> av_dst v \<in> set (ba_anchors (fetch_base_anchors rows))"
    and "\<forall>a \<in> set (ba_anchors (fetch_base_anchors rows)). known_tag (an_tag a)"
  shows "schema_route (JObj
            [(''intervals'', JArr (map (ai_interval_entry F) vs)), (''cells_total'', JInt (int n)),
             (''corridors_used'', JArr (map ai_corridor_entry vs))]) \<longleftrightarrow> (\<forall>v \<in> set vs. step_tags (av_src v, av_dst v))"
proof -
  have "schema_IntervalEntry (ai_interval_entry F v) \<longleftrightarrow> step_tags (av_src v, av_dst v)" if "v \<in> set vs" for v
  proof -
    have a: "av_src v \<in> set (ba_anchors (fetch_base_anchors rows))" "av_dst v \<in> set (ba_anchors (fetch_base_anchors rows))"
      using assms(3) that by simp_all
    then have "known_tag (an_tag (av_src v))" "known_tag (an_tag (av_dst v))" using assms(4) by simp_all
    then show ?thesis
      unfolding ai_interval_tags [OF anchor_orders [OF assms(1) a(1)] anchor_orders [OF assms(1) a(2)] assms(2)]
      by (auto simp: known_tag_def step_tags_def)
  qed
  then show ?thesis by (auto simp: schema_route_def list_all_iff ai_corridor_ok)
qed

lemma ai_verdict_object:
  assumes "verdict_ok v"
  shows "schema_finishability (JObj
            [(''route_verified'', JBool (vd_verified v)), (''estimated_time_ms'', opt_json JInt (vd_time_ms v)),
             (''ai_confidence'', opt_json JFloat (vd_confidence v)),
             (''reject_reason'', opt_json (\<lambda>r. JStr (reason_text r)) (vd_reject v)), (''gate_version'', JStr GATE_VERSION),
             (''detail'', opt_json (\<lambda>d. JStr (text d)) (vd_detail v))])"
proof -
  have reason: "or_null (one_of [''plain_cp_not_supported_v0'', ''missing_corridor_in_interval'', ''chain_broken'',
         ''empty_corridors'', ''confidence_below_floor'', ''unknown_block'', ''invalid_schema'', ''stripped_route_broken'',
         ''beam_exhausted'', ''interval_validation_failed'', ''no_valid_candidates'']) (opt_json (\<lambda>r. JStr (reason_text r)) (vd_reject v))"
    by (cases "vd_reject v"; simp add: opt_json_def; cases "the (vd_reject v)"; simp add: reason_text_def)
  have time: "or_null nonneg_integer (opt_json JInt (vd_time_ms v))" "or_null unit_number (opt_json JFloat (vd_confidence v))"
    "or_null is_string (opt_json (\<lambda>d. JStr (text d)) (vd_detail v))"
    using assms by (cases "vd_time_ms v"; cases "vd_confidence v"; cases "vd_detail v"; simp add: opt_json_def verdict_ok_def in_unit_def)+
  from reason time show ?thesis by (simp add: schema_finishability_def GATE_VERSION_def)
qed

lemma ai_schema:
  assumes env: "env_ok (ax_env env)" and rows: "ai_rows_ok rows" and inputs: "ai_inputs_ok inputs" and v: "verdict_ok v"
    and bs: "\<forall>b \<in> set bs. block_from (load_candidate_catalogue coll (ap_geometry_rows rows) families) b"
    and vs: "\<forall>v \<in> set vs. av_src v \<in> set (ba_anchors (fetch_base_anchors rows)) \<and> av_dst v \<in> set (ba_anchors (fetch_base_anchors rows))"
  shows "generated_map_schema (build_v0_2_artifact env inputs (fetch_base_anchors rows) bs cells vs v) \<longleftrightarrow>
    2 \<le> length (ba_anchors (fetch_base_anchors rows)) \<and> (ba_anchor_blocks (fetch_base_anchors rows) \<noteq> [] \<or> bs \<noteq> []) \<and>
    (\<forall>a \<in> set (ba_anchors (fetch_base_anchors rows)). known_tag (an_tag a)) \<and> (\<forall>v \<in> set vs. step_tags (av_src v, av_dst v))"
proof -
  have F: "floats_ok (ge_floats (ax_env env))" and sha: "hex_string 16 (hash_inputs (ax_env env) inputs)"
    using env hex_take by (auto simp: env_ok_def hash_inputs_def)
  have prov: "schema_provenance (JObj
            [(''model_hash'', JStr (str_default (ba_model_hash (fetch_base_anchors rows)) (replicate 64 (CHR ''0'')))),
             (''learned_score_version'', JStr (str_default (ba_learned_score_version (fetch_base_anchors rows)) [])),
             (''config_hash'', JStr (ge_config_hash (ax_env env))), (''code_version'', JStr (ge_code_version (ax_env env))),
             (''classification_version'', JStr (ge_classification_version (ax_env env)))])"
  proof -
    have "hex_string 64 (str_default (ba_model_hash (fetch_base_anchors rows)) (replicate 64 (CHR ''0'')))"
      using rows hex_zeros by (auto simp: ai_rows_ok_def fetch_base_anchors_def Let_def str_default_def split: option.split)
    then show ?thesis by (simp add: schema_provenance_def)
  qed
  have inp: "schema_inputs (JObj
            [(''base_map_id'', JInt (ag_base_map_id inputs)), (''base_map_source_id'', opt_json JStr (ba_source_map_id (fetch_base_anchors rows))),
             (''style_tag_filter'', opt_json JStr (ag_style_tag_filter inputs)), (''difficulty'', JStr (ag_difficulty inputs)),
             (''random_seed'', JInt (ag_random_seed inputs)), (''strip'', JBool False)])"
    using inputs by (cases "ba_source_map_id (fetch_base_anchors rows)"; cases "ag_style_tag_filter inputs")
      (auto simp: schema_inputs_def opt_json_def ai_inputs_ok_def ALLOWED_STYLE_def ALLOWED_DIFFICULTY_def)
  note fin = ai_verdict_object [OF v, of "ax_text env"]
  note mp = ai_map_object [OF rows bs]
  note rt = ai_route_object [OF rows F vs]
  show ?thesis
  proof (cases "\<forall>a \<in> set (ba_anchors (fetch_base_anchors rows)). known_tag (an_tag a)")
    case True
    show ?thesis
      unfolding build_v0_2_artifact_def Let_def generated_map_schema_def
      using sha prov inp fin mp rt [OF True] by simp
  next
    case False
    then show ?thesis
      unfolding build_v0_2_artifact_def Let_def generated_map_schema_def
      using mp by (simp, blast)
  qed
qed

subsection \<open>What generation returns\<close>

lemma indexed_steps_set: "snd ` set (indexed_steps anchors) = set (steps_of anchors)"
proof -
  have "map snd (indexed_steps anchors) = steps_of anchors" by (simp add: indexed_steps_def)
  then show ?thesis by (metis set_map)
qed

lemma steps_on_grid: "all_on_grid (indexed_steps (ba_anchors (fetch_base_anchors rows)))"
proof -
  have "an_cell a \<noteq> None \<and> an_cell b \<noteq> None" if "(i, a, b) \<in> set (indexed_steps (ba_anchors (fetch_base_anchors rows)))" for i a b
  proof -
    from that have "(a, b) \<in> set (steps_of (ba_anchors (fetch_base_anchors rows)))"
      unfolding indexed_steps_set [symmetric] by force
    then have "a \<in> set (ba_anchors (fetch_base_anchors rows))" "b \<in> set (ba_anchors (fetch_base_anchors rows))"
      by (auto simp: set_steps_of)
    then show ?thesis using anchors_on_grid by blast
  qed
  then show ?thesis unfolding all_on_grid_def by blast
qed

lemma indexed_intervals:
  "(\<forall>v \<in> set (map interval_of (indexed_steps anchors)). P (av_src v, av_dst v)) \<longleftrightarrow> (\<forall>ab \<in> set (steps_of anchors). P ab)"
proof -
  have "(av_src (interval_of s), av_dst (interval_of s)) = snd s" for s by (cases s) (simp add: interval_of_def)
  then have "(\<forall>v \<in> set (map interval_of (indexed_steps anchors)). P (av_src v, av_dst v)) \<longleftrightarrow> (\<forall>ab \<in> snd ` set (indexed_steps anchors). P ab)"
    by simp
  then show ?thesis by (simp only: indexed_steps_set)
qed

lemma interval_anchors:
  "\<forall>v \<in> set (map interval_of (indexed_steps anchors)). av_src v \<in> set anchors \<and> av_dst v \<in> set anchors"
  using indexed_intervals [of anchors "\<lambda>ab. fst ab \<in> set anchors \<and> snd ab \<in> set anchors"] by (auto simp: set_steps_of)

lemma post_synth_total: "\<exists>d. post_synth_detail rows (fetch_base_anchors rows) bs cells = Inr d"
proof -
  have "\<exists>ns. normalize_blocks (ba_anchor_blocks (fetch_base_anchors rows) @ map (synth_block 0) bs) = Inr ns"
    unfolding normalize_blocks_def
  proof (rule normalize_total)
    fix b assume "b \<in> set (ba_anchor_blocks (fetch_base_anchors rows) @ map (synth_block 0) bs)"
    then show "\<exists>x y z r. int_get (mb_x b) = Inr x \<and> int_get (mb_y b) = Inr y \<and> int_get (mb_z b) = Inr z \<and> int_get (mb_rotation b) = Inr r"
      by (auto simp: fetch_base_anchors_def Let_def anchor_block_def synth_block_def int_get_def split: prod.split)
  qed
  then obtain ns where ns: "normalize_blocks (ba_anchor_blocks (fetch_base_anchors rows) @ map (synth_block 0) bs) = Inr ns" by blast
  show ?thesis
    using normalized_validates [OF ns, of "map_of (load_geometry_lookup (ap_geometry_rows rows))" "Some cells"
        "an_cell (hd (ba_anchors (fetch_base_anchors rows)))" 9 1] by (auto simp: post_synth_detail_def ns Let_def)
qed

definition route_possible :: "ai_env \<Rightarrow> ai_generation_inputs \<Rightarrow> ai_rows \<Rightarrow> bool" where
  "route_possible env inputs rows \<longleftrightarrow> (let anchors = ba_anchors (fetch_base_anchors rows) in
     2 \<le> length anchors \<and> is_linked_cp anchors \<and>
     route_clear (search_params_of env inputs rows) (indexed_steps anchors) (as_occupied (initial_state anchors)))"

text \<open>The run that gets through all intervals.\<close>

definition finished :: "ai_env \<Rightarrow> ai_generation_inputs \<Rightarrow> ai_rows \<Rightarrow> ai_state \<Rightarrow> ai_detail option \<Rightarrow> json" where
  "finished env inputs rows st detail = build_v0_2_artifact env inputs (fetch_base_anchors rows) (as_synthesised st) (as_all_cells st)
     (as_intervals st) (final_verdict (ge_floats (ax_env env)) (fetch_base_anchors rows) st detail)"

lemma finished_run:
  assumes "db (ag_base_map_id inputs) = Some rows" and "route_possible env inputs rows"
  shows "\<exists>st detail. generate_ai_map env db inputs =
      (case ge_validate (ax_env env) (finished env inputs rows st detail) of Some err \<Rightarrow> Inl (SchemaMismatch err)
       | None \<Rightarrow> Inr (finished env inputs rows st detail)) \<and>
    extends_state (search_params_of env inputs rows) (indexed_steps (ba_anchors (fetch_base_anchors rows)))
      (initial_state (ba_anchors (fetch_base_anchors rows))) st \<and>
    synthesise (search_params_of env inputs rows) (ba_anchor_blocks (fetch_base_anchors rows))
      (indexed_steps (ba_anchors (fetch_base_anchors rows))) (initial_state (ba_anchors (fetch_base_anchors rows))) = Inr st"
proof -
  let ?as = "ba_anchors (fetch_base_anchors rows)"
  have c: "2 \<le> length ?as" "is_linked_cp ?as"
    "route_clear (search_params_of env inputs rows) (indexed_steps ?as) (as_occupied (initial_state ?as))"
    using assms(2) by (simp_all add: route_possible_def Let_def)
  from synthesise_run [OF params_usable steps_on_grid, of env inputs rows rows "initial_state ?as" "ba_anchor_blocks (fetch_base_anchors rows)"] c(3)
  obtain st where st: "synthesise (search_params_of env inputs rows) (ba_anchor_blocks (fetch_base_anchors rows)) (indexed_steps ?as)
      (initial_state ?as) = Inr st" "extends_state (search_params_of env inputs rows) (indexed_steps ?as) (initial_state ?as) st"
    by auto
  obtain detail where "post_synth_detail rows (fetch_base_anchors rows) (as_synthesised st) (as_all_cells st) = Inr detail"
    using post_synth_total by blast
  with st(1) c(1,2) assms(1) have "generate_ai_map env db inputs =
      (case ge_validate (ax_env env) (finished env inputs rows st detail) of Some err \<Rightarrow> Inl (SchemaMismatch err)
       | None \<Rightarrow> Inr (finished env inputs rows st detail))"
    unfolding finished_def by (simp add: generate_ai_map_def Let_def)
  with st show ?thesis by blast
qed

lemma finished_schema:
  assumes "env_ok (ax_env env)" and "ai_rows_ok rows" and "ai_inputs_ok inputs" and "route_possible env inputs rows"
    and "extends_state (search_params_of env inputs rows) (indexed_steps (ba_anchors (fetch_base_anchors rows)))
      (initial_state (ba_anchors (fetch_base_anchors rows))) st"
  shows "generated_map_schema (finished env inputs rows st detail) \<longleftrightarrow>
    (ba_anchor_blocks (fetch_base_anchors rows) \<noteq> [] \<or> as_synthesised st \<noteq> []) \<and>
    (\<forall>a \<in> set (ba_anchors (fetch_base_anchors rows)). known_tag (an_tag a)) \<and>
    (\<forall>ab \<in> set (steps_of (ba_anchors (fetch_base_anchors rows))). step_tags ab)"
proof -
  let ?as = "ba_anchors (fetch_base_anchors rows)"
  have vs: "as_intervals st = map interval_of (indexed_steps ?as)" using assms(5) by (simp add: extends_state_def initial_state_def)
  have bs: "\<forall>b \<in> set (as_synthesised st). block_from (load_candidate_catalogue (ax_coll env) (ap_geometry_rows rows)
      (ba_base_families (fetch_base_anchors rows))) b"
    using assms(5) by (auto simp: extends_state_def initial_state_def search_params_of_def Let_def)
  have F: "floats_ok (ge_floats (ax_env env))" using assms(1) by (simp add: env_ok_def)
  have "2 \<le> length ?as" using assms(4) by (simp add: route_possible_def Let_def)
  with ai_schema [OF assms(1-3) final_verdict_ok [OF F] bs interval_anchors [of ?as, folded vs]] show ?thesis
    by (simp only: finished_def vs indexed_intervals simp_thms)
qed

lemma verdict_field: "obj_get ''route_verified'' (obj_get ''finishability'' (build_v0_2_artifact env inputs base bs cells vs v)) = JBool (vd_verified v)"
  by (simp add: build_v0_2_artifact_def obj_get_def json_get_def Let_def)

lemma impossible_run:
  assumes "db (ag_base_map_id inputs) = Some rows" and "\<not> route_possible env inputs rows"
  shows "\<exists>bs cells vs reason detail. generate_ai_map env db inputs =
      Inr (build_v0_2_artifact env inputs (fetch_base_anchors rows) bs cells vs (rejected reason detail)) \<and>
      (length (ba_anchors (fetch_base_anchors rows)) < 2 \<longrightarrow> bs = [] \<and> vs = [])"
proof -
  let ?as = "ba_anchors (fetch_base_anchors rows)"
  show ?thesis
  proof (cases "length ?as < 2 \<or> \<not> is_linked_cp ?as")
    case True
    then show ?thesis using assms(1) by (simp add: generate_ai_map_def Let_def) blast
  next
    case False
    with assms(2) have nc: "\<not> route_clear (search_params_of env inputs rows) (indexed_steps ?as) (as_occupied (initial_state ?as))"
      by (simp add: route_possible_def Let_def)
    obtain r where r: "synthesise (search_params_of env inputs rows) (ba_anchor_blocks (fetch_base_anchors rows)) (indexed_steps ?as)
      (initial_state ?as) = Inl r"
      using synthesise_run [OF params_usable steps_on_grid, of env inputs rows rows "initial_state ?as" "ba_anchor_blocks (fetch_base_anchors rows)"] nc
      by auto
    obtain st result reason detail where "r = (st, result, reason, detail)" by (cases r)
    with r False assms(1) show ?thesis by (simp add: generate_ai_map_def Let_def) blast
  qed
qed

text \<open>
  C5. The outcome of the synthesising generator is decided by the anchors alone, before any score. If there
  are fewer than two, none is a linked checkpoint, or some interval's walk is blocked or too long, an
  unverified artifact is returned without being checked (with fewer than two anchors it never conforms to
  the schema). Otherwise the artifact is returned and conforms exactly when every tag is known, no step
  leaves a goal or enters a spawn and there is a block, and the run ends in \<open>RuntimeError\<close> if not.
\<close>

theorem generate_ai_map_exact:
  assumes "env_ok (ax_env env)" and "ai_rows_ok rows" and "ai_inputs_ok inputs" and "db (ag_base_map_id inputs) = Some rows"
  shows "if \<not> route_possible env inputs rows
    then \<exists>artifact. generate_ai_map env db inputs = Inr artifact \<and>
      obj_get ''route_verified'' (obj_get ''finishability'' artifact) = JBool False \<and>
      (length (ba_anchors (fetch_base_anchors rows)) < 2 \<longrightarrow> \<not> generated_map_schema artifact)
    else if (ba_anchor_blocks (fetch_base_anchors rows) \<noteq> [] \<or>
         (\<exists>ab \<in> set (steps_of (ba_anchors (fetch_base_anchors rows))). step_walk ab \<noteq> 0)) \<and>
       (\<forall>a \<in> set (ba_anchors (fetch_base_anchors rows)). known_tag (an_tag a)) \<and>
       (\<forall>ab \<in> set (steps_of (ba_anchors (fetch_base_anchors rows))). step_tags ab)
    then \<exists>artifact. generate_ai_map env db inputs = Inr artifact \<and> generated_map_schema artifact
    else \<exists>err. generate_ai_map env db inputs = Inl (SchemaMismatch err)"
proof (cases "route_possible env inputs rows")
  case True
  let ?as = "ba_anchors (fetch_base_anchors rows)"
  obtain st detail where st: "generate_ai_map env db inputs =
      (case ge_validate (ax_env env) (finished env inputs rows st detail) of Some err \<Rightarrow> Inl (SchemaMismatch err)
       | None \<Rightarrow> Inr (finished env inputs rows st detail))"
    "extends_state (search_params_of env inputs rows) (indexed_steps ?as) (initial_state ?as) st"
    using finished_run [where db = db and inputs = inputs, OF assms(4) True] by blast
  have v: "ge_validate (ax_env env) (finished env inputs rows st detail) = None \<longleftrightarrow> generated_map_schema (finished env inputs rows st detail)"
    using assms(1) by (simp add: env_ok_def)
  have "length (as_synthesised st) = sum_list (map (\<lambda>(i, ab). step_walk ab) (indexed_steps ?as))"
    using st(2) by (auto simp: extends_state_def initial_state_def)
  also have "map (\<lambda>(i, ab). step_walk ab) (indexed_steps ?as) = map step_walk (steps_of ?as)"
    by (simp add: indexed_steps_def case_prod_unfold flip: map_map [unfolded comp_def])
  finally have "as_synthesised st = [] \<longleftrightarrow> sum_list (map step_walk (steps_of ?as)) = 0" by (metis length_0_conv)
  then have blocks: "as_synthesised st \<noteq> [] \<longleftrightarrow> (\<exists>ab \<in> set (steps_of ?as). step_walk ab \<noteq> 0)" by (simp add: sum_list_eq_0_iff)
  show ?thesis
    using True st(1) v finished_schema [OF assms(1-3) True st(2), of detail] unfolding blocks
    by (cases "ge_validate (ax_env env) (finished env inputs rows st detail)") simp_all
next
  case False
  obtain bs cells vs reason detail where g: "generate_ai_map env db inputs =
      Inr (build_v0_2_artifact env inputs (fetch_base_anchors rows) bs cells vs (rejected reason detail))"
    "length (ba_anchors (fetch_base_anchors rows)) < 2 \<longrightarrow> bs = [] \<and> vs = []"
    using impossible_run [where db = db and inputs = inputs, OF assms(4) False] by blast
  have "\<not> generated_map_schema (build_v0_2_artifact env inputs (fetch_base_anchors rows) [] cells [] (rejected reason detail))"
    if "length (ba_anchors (fetch_base_anchors rows)) < 2"
    using that ai_schema [OF assms(1-3) rejected_ok [of reason detail], where bs = "[]" and vs = "[]" and cells = cells] by simp
  with False g show ?thesis by (auto simp: verdict_field rejected_def)
qed

lemma steps_tags_rows:
  assumes "\<forall>ab \<in> set (steps_of (map anchor_of_row rs)). step_tags ab"
  shows "\<forall>w \<in> set (butlast rs). wr_tag w \<noteq> ''Goal''" and "\<forall>w \<in> set (tl rs). wr_tag w \<noteq> ''Spawn''"
proof -
  have step: "wr_tag (rs ! i) \<noteq> ''Goal'' \<and> wr_tag (rs ! Suc i) \<noteq> ''Spawn''" if "Suc i < length rs" for i
  proof -
    have "(map anchor_of_row rs ! i, map anchor_of_row rs ! Suc i) \<in> set (steps_of (map anchor_of_row rs))"
      using that unfolding set_steps_of length_map by blast
    with assms that show ?thesis by (fastforce simp: step_tags_def anchor_of_row_def)
  qed
  show "\<forall>w \<in> set (butlast rs). wr_tag w \<noteq> ''Goal''"
    using step by (auto simp: in_set_conv_nth nth_butlast)
  show "\<forall>w \<in> set (tl rs). wr_tag w \<noteq> ''Spawn''"
    using step by (auto simp: in_set_conv_nth nth_tl)
qed

lemma initially_occupied: "c \<in> as_occupied (initial_state anchors) \<longleftrightarrow> Some c \<in> an_cell ` set anchors"
  by (auto simp: initial_state_def set_map_filter) force

text \<open>In a list whose front has no element with a property, at most the end has it.\<close>

lemma only_last:
  assumes "\<forall>w \<in> set (butlast rs). \<not> Q w"
  shows "length (filter Q rs) \<le> 1" and "g \<in> set rs \<Longrightarrow> Q g \<Longrightarrow> g = List.last rs"
proof -
  show "length (filter Q rs) \<le> 1"
  proof (cases rs rule: rev_cases)
    case (snoc xs x)
    then have "filter Q xs = []" using assms by (simp add: filter_empty_conv)
    with snoc show ?thesis by simp
  qed simp
  show "g \<in> set rs \<Longrightarrow> Q g \<Longrightarrow> g = List.last rs" using assms by (cases rs rule: rev_cases) auto
qed

lemma only_hd: "\<forall>w \<in> set (tl rs). \<not> Q w \<Longrightarrow> length (filter Q rs) \<le> 1"
  by (cases rs) (auto simp: filter_empty_conv filter_False)

lemma anchor_rows_count: "length (filter Q (anchor_rows ws)) = length (filter (\<lambda>w. grid_cell w \<noteq> None \<and> Q w) ws)"
proof -
  have "mset (filter Q (sort_key f xs)) = mset (filter Q xs)" for f :: "waypoint_row \<Rightarrow> int \<times> int" and xs by simp
  then have "length (filter Q (sort_key f xs)) = length (filter Q xs)" for f :: "waypoint_row \<Rightarrow> int \<times> int" and xs by (metis size_mset)
  then show ?thesis by (simp only: anchor_rows_def filter_filter)
qed

lemma anchor_rows_sorted:
  assumes "rs = anchor_rows ws" and "w \<in> set rs"
  shows "wr_order w \<le> wr_order (List.last rs)"
proof -
  have "sorted (map (\<lambda>w. (wr_order w, wr_index w)) rs)" by (simp add: assms(1) anchor_rows_def)
  then have "(wr_order w, wr_index w) \<le> (wr_order (List.last rs), wr_index (List.last rs))"
    using assms(2) by (cases rs rule: rev_cases) (auto simp: sorted_append)
  then show ?thesis by (auto simp: less_eq_prod_def)
qed

text \<open>
  C7. What a verified artifact of the synthesising generator guarantees. Its new blocks come from the
  catalogue, stand on distinct cells away from every anchor, and their number is the sum of the walks, each
  within the depth limit; the confidence reaches the floor. And it exists only for maps with a linked
  checkpoint, at most one spawn row and at most one goal row on the grid, whose goal has the greatest
  waypoint order.
\<close>

theorem verified_synthesis:
  assumes "env_ok (ax_env env)" and "ai_rows_ok rows" and "ai_inputs_ok inputs" and "db (ag_base_map_id inputs) = Some rows"
    and "generate_ai_map env db inputs = Inr artifact"
    and "obj_get ''route_verified'' (obj_get ''finishability'' artifact) = JBool True"
  shows "\<exists>bs. obj_get ''blocks'' (obj_get ''map'' artifact) =
       JArr (map block_entry (ba_anchor_blocks (fetch_base_anchors rows)) @ map ai_block_json bs) \<and>
     distinct (map ab_cell bs) \<and> (\<forall>b \<in> set bs. Some (ab_cell b) \<notin> an_cell ` set (ba_anchors (fetch_base_anchors rows)) \<and>
       block_from (cp_catalogue (sq_corpus (search_params_of env inputs rows))) b) \<and>
     length bs = sum_list (map step_walk (steps_of (ba_anchors (fetch_base_anchors rows)))) \<and>
     (\<forall>ab \<in> set (steps_of (ba_anchors (fetch_base_anchors rows))). step_walk ab \<le> nat (ag_max_interval_depth inputs)) \<and>
     (\<exists>q. obj_get ''ai_confidence'' (obj_get ''finishability'' artifact) = JFloat q \<and> AI_CONFIDENCE_FLOOR (ge_floats (ax_env env)) \<le> q \<and> q \<le> 1) \<and>
     (\<exists>w \<in> set (ap_waypoints rows). wr_tag w = ''LinkedCheckpoint'') \<and>
     length (filter (\<lambda>w. grid_cell w \<noteq> None \<and> wr_tag w = ''Spawn'') (ap_waypoints rows)) \<le> 1 \<and>
     length (filter (\<lambda>w. grid_cell w \<noteq> None \<and> wr_tag w = ''Goal'') (ap_waypoints rows)) \<le> 1 \<and>
     (\<forall>g \<in> set (ap_waypoints rows). \<forall>w \<in> set (ap_waypoints rows).
        grid_cell g \<noteq> None \<and> wr_tag g = ''Goal'' \<and> grid_cell w \<noteq> None \<longrightarrow> wr_order w \<le> wr_order g)"
proof -
  let ?as = "ba_anchors (fetch_base_anchors rows)"
  define rs where "rs = anchor_rows (ap_waypoints rows)"
  have as: "?as = map anchor_of_row rs" by (simp add: fetch_base_anchors_def rs_def Let_def)
  have grid: "w \<in> set rs \<longleftrightarrow> w \<in> set (ap_waypoints rows) \<and> grid_cell w \<noteq> None" for w by (auto simp: rs_def anchor_rows_def)
  have possible: "route_possible env inputs rows"
  proof (rule ccontr)
    assume "\<not> route_possible env inputs rows"
    from impossible_run [where db = db and inputs = inputs, OF assms(4) this] assms(5) obtain bs cells vs reason detail where
      "artifact = build_v0_2_artifact env inputs (fetch_base_anchors rows) bs cells vs (rejected reason detail)" by auto
    with assms(6) show False by (simp add: verdict_field rejected_def)
  qed
  from finished_run [where db = db and inputs = inputs, OF assms(4) this] assms(5) obtain st detail where
    art: "artifact = finished env inputs rows st detail" "ge_validate (ax_env env) (finished env inputs rows st detail) = None"
    and st: "extends_state (search_params_of env inputs rows) (indexed_steps ?as) (initial_state ?as) st"
    by (auto split: option.splits)
  have "generated_map_schema (finished env inputs rows st detail)" using art(2) assms(1) by (simp add: env_ok_def)
  then have tags: "\<forall>ab \<in> set (steps_of (map anchor_of_row rs)). step_tags ab"
    unfolding finished_schema [OF assms(1-3) possible st] as by blast
  note rows_tags = steps_tags_rows [OF tags]
  have goal: "wr_order w \<le> wr_order g" if "g \<in> set rs" "wr_tag g = ''Goal''" "w \<in> set rs" for g w
    using only_last(2) [OF rows_tags(1) that(1)] that(2) anchor_rows_sorted [OF rs_def that(3)] by simp
  have one: "length (filter (\<lambda>w. wr_tag w = ''Goal'') rs) \<le> 1" "length (filter (\<lambda>w. wr_tag w = ''Spawn'') rs) \<le> 1"
    using only_last(1) [OF rows_tags(1)] only_hd [OF rows_tags(2)] by simp_all
  have steps: "map (\<lambda>(i, ab). step_walk ab) (indexed_steps ?as) = map step_walk (steps_of ?as)"
    by (simp add: indexed_steps_def case_prod_unfold flip: map_map [unfolded comp_def])
  have depth: "step_walk ab \<le> nat (ag_max_interval_depth inputs)" if "ab \<in> set (steps_of ?as)" for ab
    using st that unfolding indexed_steps_set [symmetric] by (auto simp: extends_state_def search_params_of_def Let_def)
  have bs: "distinct (map ab_cell (as_synthesised st))" "length (as_synthesised st) = sum_list (map step_walk (steps_of ?as))"
    "\<forall>b \<in> set (as_synthesised st). Some (ab_cell b) \<notin> an_cell ` set ?as \<and>
       block_from (cp_catalogue (sq_corpus (search_params_of env inputs rows))) b"
    using st unfolding extends_state_def steps initially_occupied [symmetric] by (auto simp: initial_state_def)
  have blocks: "obj_get ''blocks'' (obj_get ''map'' artifact) =
      JArr (map block_entry (ba_anchor_blocks (fetch_base_anchors rows)) @ map ai_block_json (as_synthesised st))"
    by (simp add: art finished_def build_v0_2_artifact_def obj_get_def json_get_def Let_def)
  have "vd_verified (final_verdict (ge_floats (ax_env env)) (fetch_base_anchors rows) st detail)"
    using assms(6) by (simp add: art finished_def verdict_field)
  then obtain q where q: "ai_confidence (ge_floats (ax_env env)) (as_score_sum st) (as_score_count st) = Some q"
    "AI_CONFIDENCE_FLOOR (ge_floats (ax_env env)) \<le> q" by (auto simp: final_verdict_def Let_def split: option.splits)
  have conf: "obj_get ''ai_confidence'' (obj_get ''finishability'' artifact) = JFloat q"
    by (simp add: art finished_def build_v0_2_artifact_def obj_get_def json_get_def Let_def final_verdict_def q(1) opt_json_def)
  have "q \<le> 1" using q(1) by (auto simp: ai_confidence_def clamp01_def split: if_splits)
  moreover have "\<exists>w \<in> set (ap_waypoints rows). wr_tag w = ''LinkedCheckpoint''"
    using possible grid unfolding route_possible_def Let_def as is_linked_cp_def by (auto simp: anchor_of_row_def)
  ultimately show ?thesis
    using blocks bs depth conf q(2) one goal unfolding anchor_rows_count [of _ "ap_waypoints rows", folded rs_def] grid
    by (intro exI [of _ "as_synthesised st"]) blast
qed


subsection \<open>An instance\<close>

definition demo_ai_env :: ai_env where
  "demo_ai_env = \<lparr>ax_env = demo_env, ax_round = (\<lambda>q. q), ax_coll = (\<lambda>c. c), ax_text = (\<lambda>_. ''detail'')\<rparr>"

definition demo_on_grid :: "string \<Rightarrow> int \<Rightarrow> int \<Rightarrow> waypoint_row" where
  "demo_on_grid tag order x = \<lparr>wr_index = x, wr_order = order, wr_tag = tag, wr_x = Some x, wr_y = Some 9, wr_z = Some 0, wr_abs = None\<rparr>"

definition demo_ai_rows :: ai_rows where
  "demo_ai_rows = \<lparr>ap_source_map_id = None,
     ap_waypoints = [demo_on_grid ''Goal'' 2 4, demo_on_grid ''Spawn'' 0 0, demo_on_grid ''LinkedCheckpoint'' 1 2],
     ap_blocks = [\<lparr>bw_family = Some ''Road'', bw_type = Some ''Start'', bw_cell = (0, 9, 0), bw_rotation = Some 0\<rparr>],
     ap_provenance = None,
     ap_geometry_rows = [\<lparr>gr_family = ''Road'', gr_name = ''RoadTechStraight'', gr_shape_class = ''straight'', gr_surface_hint = [],
       gr_is_anchor_capable = False, gr_is_deco = False, gr_placement_mode = ''mixed'', gr_connector_hint = ''straight_x'',
       gr_footprint_x = 1, gr_footprint_y = 1, gr_footprint_z = 1, gr_map_count = 7\<rparr>],
     ap_pair_rows = [((''Road'', ''Start''), (''Road'', ''RoadTechStraight''), Some 5)], ap_triple_rows = [], ap_replay_paths = []\<rparr>"

definition demo_ai_inputs :: ai_generation_inputs where
  "demo_ai_inputs = \<lparr>ag_base_map_id = 1, ag_random_seed = 42, ag_style_tag_filter = None, ag_difficulty = ''medium'',
     ag_beam_width = DEFAULT_BEAM_WIDTH, ag_max_interval_depth = DEFAULT_MAX_INTERVAL_DEPTH\<rparr>"

lemma demo_possible:
  "route_possible demo_ai_env demo_ai_inputs demo_ai_rows"
  "case synthesise (search_params_of demo_ai_env demo_ai_inputs demo_ai_rows) (ba_anchor_blocks (fetch_base_anchors demo_ai_rows))
     (indexed_steps (ba_anchors (fetch_base_anchors demo_ai_rows))) (initial_state (ba_anchors (fetch_base_anchors demo_ai_rows))) of
     Inl _ \<Rightarrow> False | Inr st \<Rightarrow> vd_verified (final_verdict rat_fops (fetch_base_anchors demo_ai_rows) st None)"
  "ba_anchor_blocks (fetch_base_anchors demo_ai_rows) \<noteq> [] \<and>
     list_all (\<lambda>a. known_tag (an_tag a)) (ba_anchors (fetch_base_anchors demo_ai_rows)) \<and>
     list_all step_tags (steps_of (ba_anchors (fetch_base_anchors demo_ai_rows)))"
  by code_simp+

lemma demo_ai_ok: "env_ok (ax_env demo_ai_env)" "ai_rows_ok demo_ai_rows" "ai_inputs_ok demo_ai_inputs"
  using demo_facts(1) by (simp_all add: demo_ai_env_def ai_rows_ok_def demo_ai_rows_def demo_on_grid_def block_row_ok_def get_or_def
      ai_inputs_ok_def demo_ai_inputs_def ALLOWED_STYLE_def ALLOWED_DIFFICULTY_def)

definition demo_ai_db :: "int \<Rightarrow> ai_rows option" where
  "demo_ai_db i = (if i = 1 then Some demo_ai_rows else None)"

lemma demo_ai_found: "demo_ai_db (ag_base_map_id demo_ai_inputs) = Some demo_ai_rows"
  by (simp add: demo_ai_db_def demo_ai_inputs_def)

theorem generate_ai_map_exact_witness:
  "\<exists>artifact. generate_ai_map demo_ai_env demo_ai_db demo_ai_inputs = Inr artifact \<and> generated_map_schema artifact"
  using generate_ai_map_exact [where db = demo_ai_db and inputs = demo_ai_inputs, OF demo_ai_ok demo_ai_found] demo_possible(1,3)
  by (auto simp: list_all_iff split: if_splits)

text \<open>A run of the instance is verified.\<close>

lemma demo_ai_verified:
  "\<exists>artifact. generate_ai_map demo_ai_env demo_ai_db demo_ai_inputs = Inr artifact \<and>
     obj_get ''route_verified'' (obj_get ''finishability'' artifact) = JBool True"
proof -
  obtain st detail where run: "generate_ai_map demo_ai_env demo_ai_db demo_ai_inputs =
      (case ge_validate (ax_env demo_ai_env) (finished demo_ai_env demo_ai_inputs demo_ai_rows st detail) of
         Some err \<Rightarrow> Inl (SchemaMismatch err) | None \<Rightarrow> Inr (finished demo_ai_env demo_ai_inputs demo_ai_rows st detail))"
    "extends_state (search_params_of demo_ai_env demo_ai_inputs demo_ai_rows) (indexed_steps (ba_anchors (fetch_base_anchors demo_ai_rows)))
      (initial_state (ba_anchors (fetch_base_anchors demo_ai_rows))) st"
    "synthesise (search_params_of demo_ai_env demo_ai_inputs demo_ai_rows) (ba_anchor_blocks (fetch_base_anchors demo_ai_rows))
      (indexed_steps (ba_anchors (fetch_base_anchors demo_ai_rows))) (initial_state (ba_anchors (fetch_base_anchors demo_ai_rows))) = Inr st"
    using finished_run [where db = demo_ai_db and inputs = demo_ai_inputs, OF demo_ai_found demo_possible(1)] by blast
  have F: "ge_floats (ax_env demo_ai_env) = rat_fops" by (simp add: demo_ai_env_def demo_env_def)
  have "vd_verified (final_verdict rat_fops (fetch_base_anchors demo_ai_rows) st None)" using demo_possible(2) by (simp add: run(3))
  then have v: "vd_verified (final_verdict rat_fops (fetch_base_anchors demo_ai_rows) st detail)" by (simp add: final_verdict_def Let_def)
  have "generated_map_schema (finished demo_ai_env demo_ai_inputs demo_ai_rows st detail)"
    unfolding finished_schema [OF demo_ai_ok demo_possible(1) run(2)] using demo_possible(3) by (auto simp: list_all_iff)
  moreover have "ge_validate (ax_env demo_ai_env) d = None" if "generated_map_schema d" for d
    using demo_ai_ok(1) that by (simp add: env_ok_def)
  ultimately have "generate_ai_map demo_ai_env demo_ai_db demo_ai_inputs = Inr (finished demo_ai_env demo_ai_inputs demo_ai_rows st detail)"
    unfolding run(1) by simp
  with v show ?thesis by (simp add: finished_def verdict_field F)
qed

theorem verified_synthesis_witness:
  "\<exists>artifact (bs :: ai_block list). generate_ai_map demo_ai_env demo_ai_db demo_ai_inputs = Inr artifact \<and> distinct (map ab_cell bs) \<and> length bs = 2"
proof -
  obtain artifact where a: "generate_ai_map demo_ai_env demo_ai_db demo_ai_inputs = Inr artifact"
    "obj_get ''route_verified'' (obj_get ''finishability'' artifact) = JBool True" using demo_ai_verified by blast
  have "sum_list (map step_walk (steps_of (ba_anchors (fetch_base_anchors demo_ai_rows)))) = 2" by code_simp
  moreover obtain bs :: "ai_block list" where "distinct (map ab_cell bs)" "length bs = sum_list (map step_walk (steps_of (ba_anchors (fetch_base_anchors demo_ai_rows))))"
    using verified_synthesis [where db = demo_ai_db and inputs = demo_ai_inputs, OF demo_ai_ok demo_ai_found a] by blast
  ultimately show ?thesis using a(1) by auto
qed

subsection \<open>Scores\<close>

lemma shadow_unit:
  assumes "rounding rnd F"
  shows "0 \<le> shadow_cells_clear F cand occupied \<and> shadow_cells_clear F cand occupied \<le> 1"
  using rounded_fraction [OF assms] length_filter_le
  by (simp add: shadow_cells_clear_def Let_def del: length_tl)

lemma sequence_unit: "0 \<le> sequence_pair_score F prev cand \<and> sequence_pair_score F prev cand \<le> 1"
  by (simp add: sequence_pair_score_def clamp01_def split: option.split)

definition terms_unit :: "score_terms \<Rightarrow> bool" where
  "terms_unit t \<longleftrightarrow> list_all (\<lambda>q. 0 \<le> q \<and> q \<le> 1) [tm_pair_prior t, tm_triple_prior t, tm_connector t, tm_traversability t,
     tm_sequence t, tm_diversity_penalty t, tm_validation_penalty t]"

text \<open>The weighted sum of seven signals in the code's order, and the signals at which it is least and greatest.\<close>

definition weighed :: "rat fops \<Rightarrow> score_terms \<Rightarrow> rat" where
  "weighed F t = (let w = (\<lambda>field. f_mul F (field (AI_GENERATOR_WEIGHTS F)) (field t)) in
     f_add F (f_add F (f_add F (f_add F (f_add F (f_add F (w tm_pair_prior) (w tm_triple_prior)) (w tm_connector))
       (w tm_traversability)) (w tm_sequence)) (- w tm_diversity_penalty)) (- w tm_validation_penalty))"

definition signals :: "rat \<Rightarrow> rat \<Rightarrow> score_terms" where
  "signals good bad = \<lparr>tm_pair_prior = good, tm_triple_prior = good, tm_connector = 1, tm_traversability = good,
     tm_sequence = good, tm_diversity_penalty = bad, tm_validation_penalty = bad\<rparr>"

lemma exact_extremes: "weighed rat_fops (signals 0 1) = - 1 / 5" "weighed rat_fops (signals 1 0) = 3" "positive_weight_sum rat_fops = 3"
  by (simp_all add: weighed_def signals_def positive_weight_sum_def AI_GENERATOR_WEIGHTS_def rat_fops_def)

lemma weighed_mono:
  assumes "rounding rnd F" and "tm_pair_prior t \<le> tm_pair_prior u" "tm_triple_prior t \<le> tm_triple_prior u" "tm_connector t \<le> tm_connector u"
    "tm_traversability t \<le> tm_traversability u" "tm_sequence t \<le> tm_sequence u"
    "tm_diversity_penalty u \<le> tm_diversity_penalty t" "tm_validation_penalty u \<le> tm_validation_penalty t"
  shows "weighed F t \<le> weighed F u"
proof -
  have lit: "0 \<le> q \<Longrightarrow> 0 \<le> f_lit F q" and add: "a \<le> b \<Longrightarrow> c \<le> d \<Longrightarrow> f_add F a c \<le> f_add F b d"
    and mul: "0 \<le> w \<Longrightarrow> a \<le> b \<Longrightarrow> f_mul F w a \<le> f_mul F w b" for q a b c d w
    using assms(1) by (auto simp: rounding_def add_mono mult_left_mono dest: spec [of _ 0])
  have w: "0 \<le> tm_pair_prior (AI_GENERATOR_WEIGHTS F)" "0 \<le> tm_triple_prior (AI_GENERATOR_WEIGHTS F)"
    "0 \<le> tm_connector (AI_GENERATOR_WEIGHTS F)" "0 \<le> tm_traversability (AI_GENERATOR_WEIGHTS F)"
    "0 \<le> tm_sequence (AI_GENERATOR_WEIGHTS F)" "0 \<le> tm_diversity_penalty (AI_GENERATOR_WEIGHTS F)"
    "0 \<le> tm_validation_penalty (AI_GENERATOR_WEIGHTS F)"
    by (simp_all add: AI_GENERATOR_WEIGHTS_def lit)
  show ?thesis unfolding weighed_def Let_def
    by (intro add le_imp_neg_le mul w assms(2-))
qed

text \<open>
  C30. The score of a candidate in rounded arithmetic (every operation the rounded exact result, rounding monotone and
  exact at 0 and 1, as for doubles): with priors loaded from grouped counts each of the seven signals lies
  between 0 and 1, and the score between the weighted sums the code would compute for the worst signals (no
  prior, full penalties) and for the best ones (full priors, no penalty).
\<close>

theorem candidate_score_bounds:
  assumes "rounding rnd F"
    and "grouped pair_rows" and "grouped (map (\<lambda>(a, b, c, n). ((a, b), c, n)) triple_rows)"
    and "cp_pair_priors corpus = load_pair_priors F pair_rows"
    and "cp_triple_priors corpus = load_triple_priors F triple_rows"
    and "score_candidate_ai F corpus (AI_GENERATOR_WEIGHTS F) cand prev prev_prev path occupied = (score, terms)"
  shows "terms_unit terms \<and> weighed F (signals 0 1) \<le> score \<and> score \<le> weighed F (signals 1 0)"
proof -
  have pair: "0 \<le> prior_of (cp_pair_priors corpus) k b \<and> prior_of (cp_pair_priors corpus) k b \<le> 1" for k b
    using prior_unit [OF assms(1,2)] by (simp add: assms(4) load_pair_priors_def)
  have triple: "0 \<le> prior_of (cp_triple_priors corpus) k b \<and> prior_of (cp_triple_priors corpus) k b \<le> 1" for k b
    using prior_unit [OF assms(1,3)] by (simp add: assms(5) load_triple_priors_def)
  have score: "score = weighed F terms" and c: "tm_connector terms = 1" and a: "tm_traversability terms \<in> {0, 1}"
    using assms(6) by (auto simp: score_candidate_ai_def Let_def weighed_def)
  have p: "0 \<le> tm_pair_prior terms \<and> tm_pair_prior terms \<le> 1"
    using assms(6) pair by (auto simp: score_candidate_ai_def Let_def split: option.splits)
  have t: "0 \<le> tm_triple_prior terms \<and> tm_triple_prior terms \<le> 1"
    using assms(6) triple by (auto simp: score_candidate_ai_def Let_def split: option.splits)
  have s: "0 \<le> tm_sequence terms \<and> tm_sequence terms \<le> 1"
    using assms(6) sequence_unit by (auto simp: score_candidate_ai_def Let_def split: option.splits)
  have d: "0 \<le> tm_diversity_penalty terms \<and> tm_diversity_penalty terms \<le> 1"
  proof -
    have "length (filter (\<lambda>b. (ab_family b, ab_name b) = (cb_family cand, cb_name cand)) path) \<le> max 1 (length path)"
      using length_filter_le [of _ path] by (simp add: le_max_iff_disj)
    then have "rat_of_nat (length (filter (\<lambda>b. (ab_family b, ab_name b) = (cb_family cand, cb_name cand)) path)) \<le> rat_of_nat (max 1 (length path))"
      by (simp only: of_nat_le_iff)
    from rounded_fraction [OF assms(1) _ this] show ?thesis
      using assms(6) by (auto simp: score_candidate_ai_def Let_def)
  qed
  have v: "0 \<le> tm_validation_penalty terms \<and> tm_validation_penalty terms \<le> 1"
    using assms(6) shadow_unit [OF assms(1)] by (auto simp: score_candidate_ai_def Let_def)
  have "terms_unit terms" using p t s d v c a by (auto simp: terms_unit_def)
  moreover have "weighed F (signals 0 1) \<le> weighed F terms" "weighed F terms \<le> weighed F (signals 1 0)"
    using p t s d v c a by (auto intro!: weighed_mono [OF assms(1)] simp: signals_def)
  ultimately show ?thesis by (simp add: score)
qed

definition scored_corpus :: corpus where
  "scored_corpus = \<lparr>cp_catalogue = [], cp_pair_priors = load_pair_priors rat_fops [((''Road'', ''Start''), (''Road'', ''Straight''), Some 5)],
      cp_triple_priors = load_triple_priors rat_fops [], cp_shape_surface = []\<rparr>"

definition scored_candidate :: candidate_block where
  "scored_candidate = \<lparr>cb_family = ''Road'', cb_name = ''Straight'', cb_cell = (1, 9, 0), cb_rotation = 0,
      cb_info = geometry_info_of (hd (ap_geometry_rows demo_ai_rows))\<rparr>"

theorem candidate_score_bounds_witness:
  "case score_candidate_ai rat_fops scored_corpus (AI_GENERATOR_WEIGHTS rat_fops) scored_candidate (Some (''Road'', ''Start'')) None [] {} of
   (score, terms) \<Rightarrow> terms_unit terms \<and> - 1 / 5 \<le> score \<and> score \<le> 3"
proof -
  have grouped: "grouped [((''Road'', ''Start''), (''Road'', ''Straight''), Some 5)]"
    "grouped (map (\<lambda>(a, b, c, n). ((a, b), c, n)) ([] :: (block_id \<times> block_id \<times> block_id \<times> int option) list))"
    by (simp_all add: grouped_def count_of_def get_or_def)
  have priors: "cp_pair_priors scored_corpus = load_pair_priors rat_fops [((''Road'', ''Start''), (''Road'', ''Straight''), Some 5)]"
    "cp_triple_priors scored_corpus = load_triple_priors rat_fops []" by (simp_all add: scored_corpus_def)
  obtain score terms where sc: "score_candidate_ai rat_fops scored_corpus (AI_GENERATOR_WEIGHTS rat_fops) scored_candidate
      (Some (''Road'', ''Start'')) None [] {} = (score, terms)" by fastforce
  from candidate_score_bounds [OF exact_rounding grouped priors sc] show ?thesis
    unfolding sc exact_extremes by simp
qed

end
