(* ===== verification/Pair_Mining.thy ===== *)
theory Pair_Mining
  imports Catalogue
begin

section \<open>Mining the placement grammar from the corpus\<close>

text \<open>
  Model of \<^verbatim>\<open>src/src/constraints/placement_grammar.py\<close>: the neighbourhood with its rotation
  map, the clip ports, the sorted-array counter with its pending chunks, the sort-merge join of
  one map on packed 64-bit cell keys, the packed grammar keys, the scan over the corpus with its
  interning of block types, the batched upserts, and the retry wrapper around every database call.

  Correspondence. A numpy array is a list; \<open>int64\<close> arithmetic is integer arithmetic followed by
  \<open>i64\<close>, the wrap-around of two's complement; index and count arrays are lists of naturals. The
  library routines \<open>argsort\<close>, \<open>searchsorted\<close>, \<open>unique\<close>, \<open>repeat\<close>, \<open>cumsum\<close> and
  \<open>add.reduceat\<close> are the fields of a record \<open>numpy\<close>, and \<open>numpy_documented\<close> states what their
  documentation promises. SHA-256 is a parameter. The database is the record \<open>mine_db\<close>; its list of
  faults says how the next statements end: served, refused, or executed with the reply lost.
  Log lines, sleeping and the closing of connections are left out.

  Main results: the join finds exactly the pairs of placements within the neighbourhood (for
  coordinates below the packing bound), packing is injective, the counter computes totals whatever
  the points at which it folds, and a run adds to the table exactly the pairs seen in enough maps,
  with their exact counts; it fails only for lack of the database or of type indices.
\<close>

unbundle bit_operations_syntax

subsection \<open>Array library\<close>

record numpy =
  np_argsort :: "int list \<Rightarrow> nat list"
  np_left :: "int list \<Rightarrow> int \<Rightarrow> nat"
  np_right :: "int list \<Rightarrow> int \<Rightarrow> nat"
  np_unique :: "int list \<Rightarrow> int list \<times> nat list"
  np_repeat :: "nat list \<Rightarrow> nat list \<Rightarrow> nat list"
  np_cumsum :: "nat list \<Rightarrow> nat list"
  np_reduceat :: "nat list \<Rightarrow> nat list \<Rightarrow> nat list"

definition np_reference :: numpy where
  "np_reference =
     \<lparr>np_argsort = (\<lambda>xs. sort_key (\<lambda>i. xs ! i) [0..<length xs]),
      np_left = (\<lambda>xs t. length (filter (\<lambda>x. x < t) xs)),
      np_right = (\<lambda>xs t. length (filter (\<lambda>x. x \<le> t) xs)),
      np_unique = (\<lambda>xs. let us = sort (remdups xs) in (us, map (count_list xs) us)),
      np_repeat = (\<lambda>xs ns. concat (map2 (\<lambda>x n. replicate n x) xs ns)),
      np_cumsum = (\<lambda>ns. map (\<lambda>i. sum_list (take (Suc i) ns)) [0..<length ns]),
      np_reduceat = (\<lambda>xs starts. map2 (\<lambda>a b. sum_list (drop a (take b xs))) starts (tl starts @ [length xs]))\<rparr>"

text \<open>The documented behaviour, on the inputs the documentation covers: a stable \<open>argsort\<close>,
  binary search in a sorted array, \<open>repeat\<close> with one count per element, \<open>reduceat\<close> at increasing
  in-range positions.\<close>

definition numpy_documented :: "numpy \<Rightarrow> bool" where
  "numpy_documented np \<longleftrightarrow>
     (\<forall>xs. np_argsort np xs = np_argsort np_reference xs) \<and>
     (\<forall>xs t. sorted xs \<longrightarrow> np_left np xs t = np_left np_reference xs t) \<and>
     (\<forall>xs t. sorted xs \<longrightarrow> np_right np xs t = np_right np_reference xs t) \<and>
     (\<forall>xs. np_unique np xs = np_unique np_reference xs) \<and>
     (\<forall>xs ns. length xs = length ns \<longrightarrow> np_repeat np xs ns = np_repeat np_reference xs ns) \<and>
     (\<forall>ns. np_cumsum np ns = np_cumsum np_reference ns) \<and>
     (\<forall>xs starts. sorted_wrt (<) starts \<and> (\<forall>s \<in> set starts. s < length xs) \<longrightarrow>
        np_reduceat np xs starts = np_reduceat np_reference xs starts)"

definition i64 :: "int \<Rightarrow> int" where
  "i64 x = (x + 2 ^ 63) mod 2 ^ 64 - 2 ^ 63"

subsection \<open>Constants\<close>

definition TYPE_BITS :: nat where "TYPE_BITS = 17"
definition MAX_TYPES :: nat where "MAX_TYPES = 2 ^ TYPE_BITS"
definition COMPACT_EVERY :: nat where "COMPACT_EVERY = 4000000"
definition DB_RETRIES :: nat where "DB_RETRIES = 6"
definition MINER_VERSION :: string where "MINER_VERSION = ''placement-grammar-v1''"

subsection \<open>The neighbourhood\<close>

record offset_table =
  ot_offsets :: "cell list"
  ot_rot_map :: "nat list list"

definition table_offsets :: "int \<Rightarrow> int \<Rightarrow> cell list" where
  "table_offsets radius_xz radius_y =
     concat (map (\<lambda>dx. concat (map (\<lambda>dy. map (\<lambda>dz. (dx, dy, dz))
       [- radius_xz..radius_xz]) [- radius_y..radius_y])) [- radius_xz..radius_xz])"

text \<open>A row of the rotation map: the lookup \<open>index[local]\<close> raises KeyError for a displacement
  outside the box.\<close>

fun rot_map_row :: "(cell \<times> nat) list \<Rightarrow> int \<Rightarrow> cell list \<Rightarrow> py_error + nat list" where
  "rot_map_row index a_rot [] = Inr []"
| "rot_map_row index a_rot (off # offs) =
     (case map_of index (rotate_vector off ((4 - a_rot) mod 4)) of
        None \<Rightarrow> Inl KeyError
      | Some i \<Rightarrow> (case rot_map_row index a_rot offs of Inl e \<Rightarrow> Inl e | Inr r \<Rightarrow> Inr (i # r)))"

definition offset_table_of :: "int \<Rightarrow> int \<Rightarrow> py_error + offset_table" where
  "offset_table_of radius_xz radius_y =
     (let offsets = table_offsets radius_xz radius_y;
          index = rev (zip offsets [0..<length offsets])
      in case rot_map_row index 0 offsets of Inl e \<Rightarrow> Inl e | Inr r0 \<Rightarrow>
        (case rot_map_row index 1 offsets of Inl e \<Rightarrow> Inl e | Inr r1 \<Rightarrow>
        (case rot_map_row index 2 offsets of Inl e \<Rightarrow> Inl e | Inr r2 \<Rightarrow>
        (case rot_map_row index 3 offsets of Inl e \<Rightarrow> Inl e | Inr r3 \<Rightarrow>
           Inr \<lparr>ot_offsets = offsets, ot_rot_map = [r0, r1, r2, r3]\<rparr>))))"

subsection \<open>Clip ports\<close>

type_synonym world_port = "cell \<times> int \<times> string"
type_synonym port_index = "((string \<times> int) \<times> world_port list) list"

text \<open>The ports of a block's ground variant at one rotation; \<open>None\<close> where the block has none.\<close>

definition rotated_ports :: "block_variant \<Rightarrow> unit_port list \<Rightarrow> int \<Rightarrow> world_port list" where
  "rotated_ports variant ports rotation =
     map (\<lambda>p. (rotate_offset (up_offset p) rotation (bv_size variant),
               rotate_face (up_face p) rotation, up_clip_id p)) ports"

definition index_block :: "string \<times> block_def \<Rightarrow> port_index \<Rightarrow> port_index" where
  "index_block = (\<lambda>(block_id, block) index.
     case block_variant_of block ''ground'' 0 of
       None \<Rightarrow> index
     | Some variant \<Rightarrow>
         if side_ports variant = [] then index
         else fold (\<lambda>rotation. AList.update (block_id, rotation)
                (rotated_ports variant (side_ports variant) rotation)) [0, 1, 2, 3] index)"

definition clip_port_index :: "catalogue \<Rightarrow> port_index" where
  "clip_port_index catalogue = fold index_block catalogue []"

text \<open>The dictionary over B's cells keeps the last clip of a cell and face.\<close>

definition clips_meet :: "port_index \<Rightarrow> string \<Rightarrow> string \<Rightarrow> cell \<Rightarrow> int \<Rightarrow> bool" where
  "clips_meet ports block_a block_b d rel_rotation =
     (let a_ports = get_or (map_of ports (block_a, 0)) [];
          b_ports = get_or (map_of ports (block_b, rel_rotation)) []
      in if a_ports = [] \<or> b_ports = [] then False
         else
           let b_cells = rev (map (\<lambda>(c, face, clip). ((shift d c, face), clip)) b_ports)
           in list_ex (\<lambda>(c, face, clip).
                map_of b_cells (shift c (the (FACE_DELTAS face)), opposite_face face) = Some clip) a_ports)"

subsection \<open>The counter\<close>

record pair_counter =
  pc_keys :: "int list"
  pc_pairs :: "nat list"
  pc_maps :: "nat list"
  pc_pending_keys :: "int list list"
  pc_pending_pairs :: "nat list list"
  pc_pending_size :: nat

definition counter_init :: pair_counter where
  "counter_init = \<lparr>pc_keys = [], pc_pairs = [], pc_maps = [], pc_pending_keys = [],
     pc_pending_pairs = [], pc_pending_size = 0\<rparr>"

text \<open>\<open>boundary[0] = True\<close> raises IndexError on an empty array.\<close>

definition counter_compact :: "numpy \<Rightarrow> pair_counter \<Rightarrow> py_error + pair_counter" where
  "counter_compact np c =
     (if pc_pending_keys c = [] then Inr c
      else
        let keys = pc_keys c @ concat (pc_pending_keys c);
            pairs = pc_pairs c @ concat (pc_pending_pairs c);
            maps = pc_maps c @ concat (map (\<lambda>k. replicate (length k) 1) (pc_pending_keys c));
            order = np_argsort np keys;
            keys' = map (\<lambda>i. keys ! i) order;
            pairs' = map (\<lambda>i. pairs ! i) order;
            maps' = map (\<lambda>i. maps ! i) order
        in if keys' = [] then Inl IndexError
           else
             let boundary = True # map2 (\<noteq>) (tl keys') (butlast keys');
                 starts = filter (\<lambda>i. boundary ! i) [0..<length boundary]
             in Inr \<lparr>pc_keys = map (\<lambda>i. keys' ! i) starts,
                     pc_pairs = np_reduceat np pairs' starts,
                     pc_maps = np_reduceat np maps' starts,
                     pc_pending_keys = [], pc_pending_pairs = [], pc_pending_size = 0\<rparr>)"

definition counter_add :: "numpy \<Rightarrow> int list \<times> nat list \<Rightarrow> pair_counter \<Rightarrow> py_error + pair_counter" where
  "counter_add np kc c =
     (if fst kc = [] then Inr c
      else
        let c' = c\<lparr>pc_pending_keys := pc_pending_keys c @ [fst kc],
                   pc_pending_pairs := pc_pending_pairs c @ [snd kc],
                   pc_pending_size := pc_pending_size c + length (fst kc)\<rparr>
        in if COMPACT_EVERY \<le> pc_pending_size c' then counter_compact np c' else Inr c')"

subsection \<open>The join of one map\<close>

text \<open>A placement in the arrays: type index, rotation and cell.\<close>

type_synonym typed = "nat \<times> int \<times> cell"

definition cell_key :: "cell \<Rightarrow> int" where
  "cell_key c =
     i64 (i64 (i64 (i64 (fst c + 2 ^ 19) * 2 ^ 40) + i64 (i64 (fst (snd c) + 2 ^ 19) * 2 ^ 20))
       + i64 (snd (snd c) + 2 ^ 19))"

definition shift_key :: "cell \<Rightarrow> int" where
  "shift_key d = fst d * 2 ^ 40 + fst (snd d) * 2 ^ 20 + snd (snd d)"

definition pack_key :: "int \<Rightarrow> int \<Rightarrow> int \<Rightarrow> int \<Rightarrow> int \<Rightarrow> int" where
  "pack_key ta tb rel_rot stored_oi n_off =
     i64 (i64 (i64 (i64 ((i64 (push_bit TYPE_BITS ta)) OR tb) * 4 + rel_rot) * n_off) + stored_oi)"

definition unpack_key :: "int \<Rightarrow> int \<Rightarrow> nat \<times> nat \<times> int \<times> nat" where
  "unpack_key key n_off =
     (let stored_oi = key mod n_off;
          rest = key div n_off;
          rel_rot = rest AND 3;
          rest' = drop_bit 2 rest;
          tb = rest' AND (int MAX_TYPES - 1);
          ta = drop_bit TYPE_BITS rest'
      in (nat ta, nat tb, rel_rot, nat stored_oi))"

definition join_offset :: "numpy \<Rightarrow> typed list \<Rightarrow> int list \<Rightarrow> nat list \<Rightarrow> int list \<Rightarrow> offset_table
    \<Rightarrow> nat \<times> cell \<Rightarrow> int list" where
  "join_offset np ps cells order sorted_cells tbl = (\<lambda>(oi, d).
     let target = map (\<lambda>c. i64 (c + shift_key d)) cells;
         lo = map (np_left np sorted_cells) target;
         hi = map (np_right np sorted_cells) target;
         counts = map2 (-) hi lo;
         amount = sum_list counts
     in if amount = 0 then []
        else
          let a_idx = np_repeat np [0..<length ps] counts;
              starts = np_repeat np lo counts;
              ranks = map2 (-) [0..<amount] (np_repeat np (map2 (-) (np_cumsum np counts) counts) counts);
              b_idx = map (\<lambda>i. order ! i) (map2 (+) starts ranks);
              ab = (if d = (0, 0, 0) then filter (\<lambda>(a, b). a \<noteq> b) (zip a_idx b_idx) else zip a_idx b_idx)
          in map (\<lambda>(a, b).
               let a_rot = fst (snd (ps ! a));
                   rel_rot = (fst (snd (ps ! b)) - a_rot) AND 3;
                   stored_oi = ot_rot_map tbl ! nat a_rot ! oi
               in pack_key (int (fst (ps ! a))) (int (fst (ps ! b))) rel_rot (int stored_oi)
                    (int (length (ot_offsets tbl)))) ab)"

definition map_pairs :: "numpy \<Rightarrow> typed list \<Rightarrow> offset_table \<Rightarrow> int list \<times> nat list" where
  "map_pairs np ps tbl =
     (let cells = map (\<lambda>p. cell_key (snd (snd p))) ps;
          order = np_argsort np cells;
          sorted_cells = map (\<lambda>i. cells ! i) order;
          all_keys = map (join_offset np ps cells order sorted_cells tbl) (enumerate 0 (ot_offsets tbl))
      in if list_all (\<lambda>ks. ks = []) all_keys then ([], []) else np_unique np (concat all_keys))"

subsection \<open>Cell keys\<close>

lemma i64_id: "- (2 ^ 63) \<le> x \<Longrightarrow> x < 2 ^ 63 \<Longrightarrow> i64 x = x"
  by (simp add: i64_def)

lemma i64_between: "0 \<le> x \<Longrightarrow> x \<le> y \<Longrightarrow> y < 2 ^ 63 \<Longrightarrow> i64 x = x"
  by (rule i64_id) auto

definition key_fits :: "cell \<Rightarrow> bool" where
  "key_fits c \<longleftrightarrow> - (2 ^ 19) \<le> fst c \<and> fst c < 2 ^ 19 \<and>
     - (2 ^ 19) \<le> fst (snd c) \<and> fst (snd c) < 2 ^ 19 \<and>
     - (2 ^ 19) \<le> snd (snd c) \<and> snd (snd c) < 2 ^ 19"

lemma cell_key_eq:
  assumes "key_fits c"
  shows "cell_key c = (fst c + 2 ^ 19) * 2 ^ 40 + (fst (snd c) + 2 ^ 19) * 2 ^ 20 + (snd (snd c) + 2 ^ 19)"
  using assms by (simp add: cell_key_def key_fits_def i64_id)

lemma cell_key_shift:
  assumes "key_fits c" "key_fits (shift c d)"
  shows "i64 (cell_key c + shift_key d) = cell_key (shift c d)"
proof -
  have "cell_key c + shift_key d = cell_key (shift c d)"
    using assms by (simp add: cell_key_eq shift_key_def shift_def algebra_simps)
  moreover have "i64 (cell_key (shift c d)) = cell_key (shift c d)"
    using assms(2) by (intro i64_id; simp add: cell_key_eq key_fits_def)
  ultimately show ?thesis by simp
qed

lemma two_digits:
  fixes B :: int
  assumes "a * B + b = a' * B + b'" "0 \<le> b" "b < B" "0 \<le> b'" "b' < B"
  shows "a = a' \<and> b = b'"
proof -
  have "(a * B + b) div B = a" using assms(2,3) by simp
  moreover have "(a' * B + b') div B = a'" using assms(4,5) by simp
  ultimately have "a = a'" using assms(1) by metis
  with assms(1) show ?thesis by simp
qed

lemma cell_key_inj:
  assumes "key_fits c" "key_fits c'" "cell_key c = cell_key c'"
  shows "c = c'"
proof -
  let ?hi = "\<lambda>c :: cell. (fst c + 2 ^ 19) * 2 ^ 20 + (fst (snd c) + 2 ^ 19)"
  have "?hi c * 2 ^ 20 + (snd (snd c) + 2 ^ 19) = ?hi c' * 2 ^ 20 + (snd (snd c') + 2 ^ 19)"
    using assms(3) by (simp add: cell_key_eq [OF assms(1)] cell_key_eq [OF assms(2)])
  then have "?hi c = ?hi c' \<and> snd (snd c) + 2 ^ 19 = snd (snd c') + 2 ^ 19"
    using assms(1,2) by (intro two_digits [of _ "2 ^ 20"]) (simp_all add: key_fits_def)
  moreover from this have "fst c + 2 ^ 19 = fst c' + 2 ^ 19 \<and> fst (snd c) + 2 ^ 19 = fst (snd c') + 2 ^ 19"
    using assms(1,2) by (intro two_digits [of _ "2 ^ 20"]) (simp_all add: key_fits_def)
  ultimately show ?thesis by (simp add: prod_eq_iff)
qed

subsection \<open>Grammar keys\<close>

lemma OR_shifted:
  assumes "0 \<le> b" "b < 2 ^ n"
  shows "push_bit n a OR b = a * 2 ^ n + (b :: int)"
proof -
  have "push_bit n a AND b = 0"
  proof (rule bit_eqI)
    fix k
    have "take_bit n b = b" using assms by (simp add: take_bit_int_eq_self)
    then have "bit b k \<longrightarrow> k < n" by (metis bit_take_bit_iff)
    then show "bit (push_bit n a AND b) k \<longleftrightarrow> bit (0 :: int) k"
      by (auto simp: bit_and_iff bit_push_bit_iff)
  qed
  then have "push_bit n a + b = push_bit n a OR b"
    using plus_and_or [of "push_bit n a" b] by simp
  then show ?thesis by (simp add: push_bit_eq_mult)
qed

lemma AND_3: "x AND 3 = x mod (4 :: int)"
  using take_bit_eq_mask [of 2 x] by (simp add: take_bit_eq_mod mask_eq_exp_minus_1)

lemma AND_types: "x AND (int MAX_TYPES - 1) = x mod int MAX_TYPES"
  using take_bit_eq_mask [of 17 x]
  by (simp add: take_bit_eq_mod mask_eq_exp_minus_1 MAX_TYPES_def TYPE_BITS_def)

lemma pack_key_eq:
  assumes "ta < MAX_TYPES" "tb < MAX_TYPES" "0 \<le> rel" "rel < 4" "oi < n" "n \<le> 2 ^ 27"
  shows "pack_key (int ta) (int tb) rel (int oi) (int n) =
    ((int ta * int MAX_TYPES + int tb) * 4 + rel) * int n + int oi"
proof -
  let ?t = "int ta * int MAX_TYPES + int tb"
  have ta: "int ta \<le> 2 ^ 17 - 1" and tb: "int tb \<le> 2 ^ 17 - 1"
    using assms(1,2) by (simp_all add: MAX_TYPES_def TYPE_BITS_def)
  have or: "i64 (push_bit TYPE_BITS (int ta)) OR int tb = ?t"
    using ta tb OR_shifted [of "int tb" 17 "int ta"]
    by (simp add: i64_id push_bit_eq_mult MAX_TYPES_def TYPE_BITS_def)
  have t: "0 \<le> ?t" "?t \<le> 2 ^ 34 - 1"
    using ta tb by (simp_all add: MAX_TYPES_def TYPE_BITS_def)
  then have r: "0 \<le> ?t * 4 + rel" "?t * 4 + rel \<le> 2 ^ 36 - 1"
    using assms(3,4) by simp_all
  have nn: "0 \<le> int n" "int n \<le> 2 ^ 27" using assms(6) by simp_all
  have "(?t * 4 + rel) * int n \<le> (2 ^ 36 - 1) * int n"
    using r nn by (intro mult_right_mono) auto
  then have m: "(?t * 4 + rel) * int n + int n \<le> 2 ^ 36 * int n"
    by (simp add: algebra_simps)
  define W where "W = 2 ^ 36 * int n"
  have m': "W \<le> 2 ^ 63" using nn unfolding W_def by simp
  have p: "0 \<le> (?t * 4 + rel) * int n" using r nn by (intro mult_nonneg_nonneg)
  have oi: "int oi < int n" using assms(5) by simp
  have fin: "(?t * 4 + rel) * int n + int oi < 2 ^ 63" using m [folded W_def] m' oi by linarith
  have "i64 ?t = ?t" by (rule i64_between [OF t]) simp
  moreover have "i64 (?t * 4 + rel) = ?t * 4 + rel" by (rule i64_between [OF r]) simp
  moreover have "i64 ((?t * 4 + rel) * int n) = (?t * 4 + rel) * int n"
    by (rule i64_between [OF p _ fin]) simp
  moreover have "i64 ((?t * 4 + rel) * int n + int oi) = (?t * 4 + rel) * int n + int oi"
    by (rule i64_between [OF _ order_refl fin]) (use p in simp)
  ultimately show ?thesis by (simp only: pack_key_def or)
qed

lemma unpack_pack:
  assumes "ta < MAX_TYPES" "tb < MAX_TYPES" "0 \<le> rel" "rel < 4" "oi < n" "n \<le> 2 ^ 27"
  shows "unpack_key (pack_key (int ta) (int tb) rel (int oi) (int n)) (int n) = (ta, tb, rel, oi)"
proof -
  define T where "T = int ta * int MAX_TYPES + int tb"
  define R where "R = T * 4 + rel"
  have key: "pack_key (int ta) (int tb) rel (int oi) (int n) = R * int n + int oi"
    by (simp only: pack_key_eq [OF assms] R_def T_def)
  have "(R * int n + int oi) mod int n = int oi" "(R * int n + int oi) div int n = R"
    using assms(5) by (simp_all add: div_add1_eq)
  moreover have "R AND 3 = rel" using assms(3,4) unfolding AND_3 R_def by presburger
  moreover have "drop_bit 2 R = T"
    using assms(3,4) unfolding R_def drop_bit_eq_div by simp
  moreover have "T AND (int MAX_TYPES - 1) = int tb"
    using assms(2) by (simp add: AND_types T_def)
  moreover have "drop_bit TYPE_BITS T = int ta"
    using assms(2) by (simp add: T_def drop_bit_eq_div MAX_TYPES_def)
  ultimately show ?thesis
    by (simp only: key unpack_key_def Let_def nat_int)
qed

subsection \<open>Segments of a sorted array\<close>

lemma sorted_key_split:
  fixes f :: "'a \<Rightarrow> 'b :: linorder"
  shows "sorted (map f xs) \<Longrightarrow>
    xs = filter (\<lambda>x. f x < t) xs @ filter (\<lambda>x. f x = t) xs @ filter (\<lambda>x. t < f x) xs"
proof (induction xs)
  case (Cons x xs)
  then have IH: "xs = filter (\<lambda>x. f x < t) xs @ filter (\<lambda>x. f x = t) xs @ filter (\<lambda>x. t < f x) xs"
    and above: "\<forall>y \<in> set xs. f x \<le> f y" by auto
  consider "f x < t" | "f x = t" | "t < f x" by fastforce
  then show ?case
  proof cases
    case 1
    then show ?thesis using IH by auto
  next
    case 2
    then have "filter (\<lambda>x. f x < t) xs = []" using above by (auto simp: filter_empty_conv)
    then show ?thesis using IH 2 by auto
  next
    case 3
    then have "filter (\<lambda>x. f x < t) xs = []" "filter (\<lambda>x. f x = t) xs = []"
      using above by (auto simp: filter_empty_conv)
    then show ?thesis using IH 3 by auto
  qed
qed simp

lemma length_filter_le:
  fixes f :: "'a \<Rightarrow> 'b :: linorder"
  shows "length (filter (\<lambda>x. f x \<le> t) xs) = length (filter (\<lambda>x. f x < t) xs) + length (filter (\<lambda>x. f x = t) xs)"
  by (induction xs) auto

lemma sorted_segment:
  fixes f :: "'a \<Rightarrow> 'b :: linorder"
  assumes "sorted (map f xs)"
  shows "map (\<lambda>r. xs ! (length (filter (\<lambda>x. f x < t) xs) + r))
      [0..<length (filter (\<lambda>x. f x = t) xs)] = filter (\<lambda>x. f x = t) xs" (is "map (\<lambda>r. xs ! (?l + r)) [0..<?m] = ?ys")
proof (rule nth_equalityI)
  fix i assume "i < length (map (\<lambda>r. xs ! (?l + r)) [0..<?m])"
  then have i: "i < ?m" by simp
  have "xs ! (?l + i) = (filter (\<lambda>x. f x < t) xs @ ?ys @ filter (\<lambda>x. t < f x) xs) ! (?l + i)"
    using sorted_key_split [OF assms, of t] by metis
  also have "\<dots> = ?ys ! i" using i by (simp add: nth_append)
  finally show "map (\<lambda>r. xs ! (?l + r)) [0..<?m] ! i = ?ys ! i" using i by simp
qed simp

subsection \<open>Expanding ranges\<close>

lemma map2_concat:
  "(\<And>x. x \<in> set xs \<Longrightarrow> length (g x) = length (h x)) \<Longrightarrow>
    map2 F (concat (map g xs)) (concat (map h xs)) = concat (map (\<lambda>x. map2 F (g x) (h x)) xs)"
  by (induction xs) (auto simp: zip_append)

lemma zip_concat:
  "(\<And>x. x \<in> set xs \<Longrightarrow> length (g x) = length (h x)) \<Longrightarrow>
    zip (concat (map g xs)) (concat (map h xs)) = concat (map (\<lambda>x. zip (g x) (h x)) xs)"
  by (induction xs) (auto simp: zip_append)

lemma zip_replicate_left: "zip (replicate (length ys) x) ys = map (Pair x) ys"
  by (induction ys) auto

lemma map2_const_left:
  "length ys = n \<Longrightarrow> map2 F (replicate n x) ys = map (F x) ys"
  by (induction ys arbitrary: n) auto

lemma map2_self_map: "map2 F (map f xs) (map g xs) = map (\<lambda>x. F (f x) (g x)) xs"
  by (simp add: zip_map_map comp_def split_def zip_same_conv_map)

text \<open>The exclusive prefix sums: \<open>cumsum(counts) - counts\<close>.\<close>

fun prefix_sums :: "nat \<Rightarrow> nat list \<Rightarrow> nat list" where
  "prefix_sums k [] = []"
| "prefix_sums k (n # ns) = k # prefix_sums (k + n) ns"

lemma prefix_sums_nth: "i < length ns \<Longrightarrow> prefix_sums k ns ! i = k + sum_list (take i ns)"
proof (induction ns arbitrary: k i)
  case (Cons n ns)
  then show ?case by (cases i) auto
qed simp

lemma length_prefix_sums [simp]: "length (prefix_sums k ns) = length ns"
  by (induction ns arbitrary: k) auto

lemma cumsum_minus:
  "map2 (-) (map (\<lambda>i. sum_list (take (Suc i) ns)) [0..<length ns]) ns = prefix_sums 0 ns"
  by (rule nth_equalityI) (auto simp: prefix_sums_nth take_Suc_conv_app_nth)

lemma ranks_eq:
  "map2 (-) [k..<k + sum_list ns] (concat (map2 (\<lambda>x n. replicate n x) (prefix_sums k ns) ns)) =
    concat (map (\<lambda>n. [0..<n]) ns)"
proof (induction ns arbitrary: k)
  case (Cons n ns)
  have split: "[k..<k + (n + sum_list ns)] = [k..<k + n] @ [k + n..<(k + n) + sum_list ns]"
    by (metis add.assoc le_add1 upt_add_eq_append)
  have len: "length (concat (map2 (\<lambda>x n. replicate n x) (prefix_sums (k + n) ns) ns)) = sum_list ns"
    by (simp add: length_concat map2_map_map split_def comp_def)
  have "map2 (-) [k..<k + n] (replicate n k) = [0..<n]"
    by (rule nth_equalityI) auto
  with Cons [of "k + n"] show ?case
    by (simp add: split zip_append len)
qed simp

subsection \<open>The join\<close>

lemma numpy_reference_documented: "numpy_documented np_reference"
  by (simp add: numpy_documented_def)

lemma np_reference_simps [simp]:
  "np_argsort np_reference xs = sort_key (\<lambda>i. xs ! i) [0..<length xs]"
  "np_left np_reference xs t = length (filter (\<lambda>x. x < t) xs)"
  "np_right np_reference xs t = length (filter (\<lambda>x. x \<le> t) xs)"
  "np_unique np_reference xs = (sort (remdups xs), map (count_list xs) (sort (remdups xs)))"
  "np_repeat np_reference ys ns = concat (map2 (\<lambda>x n. replicate n x) ys ns)"
  "np_cumsum np_reference ns = map (\<lambda>i. sum_list (take (Suc i) ns)) [0..<length ns]"
  "np_reduceat np_reference ys starts =
     map2 (\<lambda>a b. sum_list (drop a (take b ys))) starts (tl starts @ [length ys])"
  by (simp_all add: np_reference_def Let_def)

lemma numpy_simps:
  assumes "numpy_documented np"
  shows "np_argsort np xs = sort_key (\<lambda>i. xs ! i) [0..<length xs]"
    and "sorted xs \<Longrightarrow> np_left np xs t = length (filter (\<lambda>x. x < t) xs)"
    and "sorted xs \<Longrightarrow> np_right np xs t = length (filter (\<lambda>x. x \<le> t) xs)"
    and "np_unique np xs = (sort (remdups xs), map (count_list xs) (sort (remdups xs)))"
    and "length ys = length ns \<Longrightarrow> np_repeat np ys ns = concat (map2 (\<lambda>x n. replicate n x) ys ns)"
    and "np_cumsum np ns = map (\<lambda>i. sum_list (take (Suc i) ns)) [0..<length ns]"
    and "sorted_wrt (<) starts \<Longrightarrow> \<forall>s \<in> set starts. s < length ys \<Longrightarrow> np_reduceat np ys starts =
      map2 (\<lambda>a b. sum_list (drop a (take b ys))) starts (tl starts @ [length ys])"
  using assms by (simp_all add: numpy_documented_def del: upt_Suc)

text \<open>The pairs of positions whose cells lie at one displacement.\<close>

definition offset_pairs :: "(nat \<Rightarrow> int) \<Rightarrow> nat list \<Rightarrow> nat \<Rightarrow> int \<Rightarrow> (nat \<times> nat) list" where
  "offset_pairs f order n s =
     concat (map (\<lambda>a. map (Pair a) (filter (\<lambda>b. f b = i64 (f a + s)) order)) [0..<n])"

lemma join_indices:
  fixes f :: "nat \<Rightarrow> int" and s :: int
  assumes "numpy_documented np" and srt: "sorted (map f order)" and "n = length fs"
    and "fs = map f [0..<n]"
  defines "cnt \<equiv> \<lambda>a. length (filter (\<lambda>b. f b = i64 (f a + s)) order)"
  defines "lo \<equiv> map (np_left np (map f order)) (map (\<lambda>c. i64 (c + s)) fs)"
    and "hi \<equiv> map (np_right np (map f order)) (map (\<lambda>c. i64 (c + s)) fs)"
  defines "counts \<equiv> map2 (-) hi lo"
  shows "counts = map cnt [0..<n]"
    and "zip (np_repeat np [0..<n] counts) (map (\<lambda>i. order ! i) (map2 (+) (np_repeat np lo counts)
      (map2 (-) [0..<sum_list counts] (np_repeat np (map2 (-) (np_cumsum np counts) counts) counts))))
      = offset_pairs f order n s"
proof -
  define below where "below = (\<lambda>a. length (filter (\<lambda>b. f b < i64 (f a + s)) order))"
  have lo: "lo = map below [0..<n]"
    using assms(4) by (simp add: lo_def numpy_simps(2) [OF assms(1) srt] filter_map comp_def below_def)
  have hi: "hi = map (\<lambda>a. below a + cnt a) [0..<n]"
    using assms(4) by (simp add: hi_def numpy_simps(3) [OF assms(1) srt] filter_map comp_def below_def
        cnt_def length_filter_le)
  show cs: "counts = map cnt [0..<n]"
    by (simp add: counts_def lo hi map2_self_map)
  have len: "length counts = n" by (simp add: cs)
  have cum: "map2 (-) (np_cumsum np counts) counts = prefix_sums 0 counts"
    using cumsum_minus [of counts] by (simp add: numpy_simps(6) [OF assms(1)] del: upt_Suc)
  have rep: "np_repeat np xs counts = concat (map (\<lambda>a. replicate (cnt a) (g a)) [0..<n])"
    if "xs = map g [0..<n]" for xs g
    using that by (simp add: numpy_simps(5) [OF assms(1)] len cs map2_self_map)
  have ranks: "map2 (-) [0..<sum_list counts] (np_repeat np (prefix_sums 0 counts) counts) =
      concat (map (\<lambda>a. [0..<cnt a]) [0..<n])"
    using ranks_eq [of 0 counts] by (simp add: numpy_simps(5) [OF assms(1)] cs comp_def)
  have b_idx: "map (\<lambda>i. order ! i) (map2 (+) (np_repeat np lo counts)
      (map2 (-) [0..<sum_list counts] (np_repeat np (prefix_sums 0 counts) counts))) =
      concat (map (\<lambda>a. filter (\<lambda>b. f b = i64 (f a + s)) order) [0..<n])"
    using sorted_segment [OF srt]
    by (simp add: ranks rep [OF lo] map2_concat map_concat comp_def below_def cnt_def
        map2_const_left)
  have a_idx: "np_repeat np [0..<n] counts = concat (map (\<lambda>a. replicate (cnt a) a) [0..<n])"
    by (rule rep) simp
  show "zip (np_repeat np [0..<n] counts) (map (\<lambda>i. order ! i) (map2 (+) (np_repeat np lo counts)
      (map2 (-) [0..<sum_list counts] (np_repeat np (map2 (-) (np_cumsum np counts) counts) counts))))
      = offset_pairs f order n s"
    unfolding cum b_idx a_idx offset_pairs_def
    by (subst zip_concat) (simp_all add: cnt_def zip_replicate_left)
qed

subsection \<open>The neighbourhood table\<close>

definition near :: "int \<Rightarrow> int \<Rightarrow> cell \<Rightarrow> bool" where
  "near radius_xz radius_y d \<longleftrightarrow>
     \<bar>fst d\<bar> \<le> radius_xz \<and> \<bar>fst (snd d)\<bar> \<le> radius_y \<and> \<bar>snd (snd d)\<bar> \<le> radius_xz"

lemma set_table_offsets: "set (table_offsets rxz ry) = {d. near rxz ry d}"
  by (auto simp: table_offsets_def near_def image_iff abs_le_iff)

lemma distinct_concat_map:
  assumes "distinct xs" "\<And>x. x \<in> set xs \<Longrightarrow> distinct (g x)"
    and "\<And>x y. x \<in> set xs \<Longrightarrow> y \<in> set xs \<Longrightarrow> x \<noteq> y \<Longrightarrow> set (g x) \<inter> set (g y) = {}"
  shows "distinct (concat (map g xs))"
  using assms by (induction xs) (fastforce, fastforce)

lemma distinct_table_offsets: "distinct (table_offsets rxz ry)"
  unfolding table_offsets_def
  by (intro distinct_concat_map) (auto simp: distinct_map inj_on_def)

lemma near_rotate: "near rxz ry (rotate_vector d k) \<longleftrightarrow> near rxz ry d"
  by (cases d; cases k rule: mod4_cases) (auto simp: near_def rotation_defs)

text \<open>The position of an offset in the table.\<close>

definition offset_index :: "cell list \<Rightarrow> cell \<Rightarrow> nat" where
  "offset_index offsets d = the (map_of (rev (zip offsets [0..<length offsets])) d)"

lemma offset_index:
  assumes "distinct offsets" "d \<in> set offsets"
  shows "map_of (rev (zip offsets [0..<length offsets])) d = Some (offset_index offsets d)"
    and "offset_index offsets d < length offsets" and "offsets ! offset_index offsets d = d"
proof -
  obtain i where i: "i < length offsets" "offsets ! i = d"
    using assms(2) by (auto simp: in_set_conv_nth)
  have "distinct (map fst (rev (zip offsets [0..<length offsets])))"
    using assms(1) by (simp add: rev_map [symmetric])
  moreover have "(d, i) \<in> set (rev (zip offsets [0..<length offsets]))"
    using i by (auto simp: set_zip)
  ultimately have m: "map_of (rev (zip offsets [0..<length offsets])) d = Some i" by simp
  then have "offset_index offsets d = i" by (simp add: offset_index_def)
  with m i show "map_of (rev (zip offsets [0..<length offsets])) d = Some (offset_index offsets d)"
    "offset_index offsets d < length offsets" "offsets ! offset_index offsets d = d" by auto
qed

lemma offset_index_nth:
  "distinct offsets \<Longrightarrow> i < length offsets \<Longrightarrow> offset_index offsets (offsets ! i) = i"
  using offset_index(2,3) [of offsets "offsets ! i"] by (simp add: nth_eq_iff_index_eq)

lemma rot_map_row_eq:
  assumes "\<forall>d \<in> set offs. rotate_vector d ((4 - a) mod 4) \<in> set offsets" "distinct offsets"
  shows "rot_map_row (rev (zip offsets [0..<length offsets])) a offs =
    Inr (map (\<lambda>d. offset_index offsets (rotate_vector d ((4 - a) mod 4))) offs)"
  using assms by (induction offs) (auto simp: offset_index(1))

definition rot_entry :: "cell list \<Rightarrow> int \<Rightarrow> cell \<Rightarrow> nat" where
  "rot_entry offsets a d = offset_index offsets (rotate_vector d ((4 - a) mod 4))"

lemma offset_table_total:
  "offset_table_of rxz ry = Inr \<lparr>ot_offsets = table_offsets rxz ry,
     ot_rot_map = map (\<lambda>a. map (rot_entry (table_offsets rxz ry) a) (table_offsets rxz ry)) [0, 1, 2, 3]\<rparr>"
proof -
  have "rot_map_row (rev (zip (table_offsets rxz ry) [0..<length (table_offsets rxz ry)])) a
      (table_offsets rxz ry) = Inr (map (rot_entry (table_offsets rxz ry) a) (table_offsets rxz ry))" for a
    by (subst rot_map_row_eq)
      (auto simp: set_table_offsets near_rotate distinct_table_offsets rot_entry_def)
  then show ?thesis by (simp add: offset_table_of_def Let_def)
qed

subsection \<open>The pairs of one map\<close>

text \<open>The reference: two nested loops over the placements.\<close>

type_synonym pair_tuple = "nat \<times> nat \<times> int \<times> cell"

definition pair_tuple_of :: "typed list \<Rightarrow> nat \<Rightarrow> nat \<Rightarrow> pair_tuple" where
  "pair_tuple_of ps a b =
     (fst (ps ! a), fst (ps ! b), (fst (snd (ps ! b)) - fst (snd (ps ! a))) mod 4,
      rotate_vector (sub (snd (snd (ps ! b))) (snd (snd (ps ! a)))) ((4 - fst (snd (ps ! a))) mod 4))"

definition neighbour_pairs :: "int \<Rightarrow> int \<Rightarrow> typed list \<Rightarrow> pair_tuple list" where
  "neighbour_pairs rxz ry ps =
     concat (map (\<lambda>a. map (pair_tuple_of ps a)
       (filter (\<lambda>b. a \<noteq> b \<and> near rxz ry (sub (snd (snd (ps ! b))) (snd (snd (ps ! a)))))
         [0..<length ps])) [0..<length ps])"

definition pack_tuple :: "cell list \<Rightarrow> pair_tuple \<Rightarrow> int" where
  "pack_tuple offsets = (\<lambda>(ta, tb, rel, d).
     pack_key (int ta) (int tb) rel (int (offset_index offsets d)) (int (length offsets)))"

definition typed_ok :: "int \<Rightarrow> int \<Rightarrow> typed \<Rightarrow> bool" where
  "typed_ok rxz ry p \<longleftrightarrow> fst p < MAX_TYPES \<and> 0 \<le> fst (snd p) \<and> fst (snd p) < 4 \<and>
     (\<bar>fst (snd (snd p))\<bar> + rxz < 2 ^ 19 \<and> \<bar>fst (snd (snd (snd p)))\<bar> + ry < 2 ^ 19 \<and>
      \<bar>snd (snd (snd (snd p)))\<bar> + rxz < 2 ^ 19)"

lemma near_fits:
  assumes "typed_ok rxz ry p" "near rxz ry d"
  shows "key_fits (snd (snd p))" "key_fits (shift (snd (snd p)) d)"
  using assms by (auto simp: typed_ok_def near_def key_fits_def shift_def abs_le_iff abs_if split: if_splits)

lemma sub_eq_iff: "sub b a = d \<longleftrightarrow> b = shift a d"
  by (cases a; cases b; cases d) auto

lemma sub_self: "sub c c = (0, 0, 0)"
  by (cases c) auto

lemma mset_concat_swap:
  "mset (concat (map (\<lambda>d. concat (map (g d) as')) ds)) = mset (concat (map (\<lambda>a. concat (map (\<lambda>d. g d a) ds)) as'))"
proof (induction ds)
  case (Cons d ds)
  have "mset (concat (map (\<lambda>a. g d a @ h a) as')) = mset (concat (map (g d) as')) + mset (concat (map h as'))" for h
    by (induction as') auto
  then show ?case using Cons by simp
qed simp

lemma mset_group:
  assumes "distinct ds"
  shows "mset (concat (map (\<lambda>d. map (h d) (filter (\<lambda>b. g b = d \<and> P b) bs)) ds)) =
    mset (map (\<lambda>b. h (g b) b) (filter (\<lambda>b. P b \<and> g b \<in> set ds) bs))"
  using assms
proof (induction ds)
  case (Cons d ds)
  have one: "map (h d) (filter (\<lambda>b. g b = d \<and> P b) bs) = map (\<lambda>b. h (g b) b) (filter (\<lambda>b. g b = d \<and> P b) bs)"
    by (rule map_cong) auto
  have "mset (filter (\<lambda>b. P b \<and> g b \<in> set (d # ds)) bs) =
      mset (filter (\<lambda>b. g b = d \<and> P b) bs) + mset (filter (\<lambda>b. P b \<and> g b \<in> set ds) bs)"
    using Cons.prems by (induction bs) auto
  then have "image_mset (\<lambda>b. h (g b) b) (mset (filter (\<lambda>b. P b \<and> g b \<in> set (d # ds)) bs)) =
      image_mset (\<lambda>b. h (g b) b) (mset (filter (\<lambda>b. g b = d \<and> P b) bs)) +
      image_mset (\<lambda>b. h (g b) b) (mset (filter (\<lambda>b. P b \<and> g b \<in> set ds) bs))"
    by (simp only: image_mset_union)
  moreover have "mset (concat (map (\<lambda>d. map (h d) (filter (\<lambda>b. g b = d \<and> P b) bs)) (d # ds))) =
      mset (map (\<lambda>b. h (g b) b) (filter (\<lambda>b. g b = d \<and> P b) bs)) +
      mset (map (\<lambda>b. h (g b) b) (filter (\<lambda>b. P b \<and> g b \<in> set ds) bs))"
    unfolding list.map concat.simps mset_append one using Cons by simp
  ultimately show ?case by (simp only: mset_map)
qed simp

lemma join_offset_eq:
  assumes "numpy_documented np" and d: "d \<in> set (table_offsets rxz ry)"
    and ok: "\<forall>p \<in> set ps. typed_ok rxz ry p"
    and oi: "oi < length (table_offsets rxz ry)" "table_offsets rxz ry ! oi = d"
    and tbl: "offset_table_of rxz ry = Inr tbl"
  defines "cells \<equiv> map (\<lambda>p. cell_key (snd (snd p))) ps"
  defines "order \<equiv> sort_key (\<lambda>i. cells ! i) [0..<length ps]"
  shows "join_offset np ps cells order (map (\<lambda>i. cells ! i) order) tbl (oi, d) =
    concat (map (\<lambda>a. map (\<lambda>b. pack_tuple (table_offsets rxz ry) (pair_tuple_of ps a b))
      (filter (\<lambda>b. sub (snd (snd (ps ! b))) (snd (snd (ps ! a))) = d \<and> a \<noteq> b) order)) [0..<length ps])"
proof -
  let ?n = "length ps" and ?f = "\<lambda>i. cells ! i" and ?s = "shift_key d"
  have srt: "sorted (map ?f order)" by (simp add: order_def)
  have cs: "cells = map ?f [0..<?n]" by (rule nth_equalityI) (simp_all add: cells_def)
  have set_order: "set order = {0..<?n}" by (simp add: order_def)
  have lc: "?n = length cells" by (simp add: cells_def)
  note ji = join_indices [OF assms(1) srt lc cs, of ?s]
  have cell_a: "?f a = cell_key (snd (snd (ps ! a)))" if "a < ?n" for a
    using that by (simp add: cells_def)
  have hit: "?f b = i64 (?f a + ?s) \<longleftrightarrow> sub (snd (snd (ps ! b))) (snd (snd (ps ! a))) = d"
    if "a < ?n" "b < ?n" for a b
  proof -
    have a: "typed_ok rxz ry (ps ! a)" and b: "typed_ok rxz ry (ps ! b)"
      using ok that by simp_all
    have "near rxz ry d" using d by (simp add: set_table_offsets)
    moreover have "near rxz ry (0, 0, 0)" using \<open>near rxz ry d\<close> by (auto simp: near_def)
    ultimately have fits: "key_fits (snd (snd (ps ! a)))" "key_fits (shift (snd (snd (ps ! a))) d)"
      "key_fits (snd (snd (ps ! b)))"
      using near_fits [OF a] near_fits(1) [OF b] by blast+
    then show ?thesis
      using that by (simp add: cell_a cell_key_shift sub_eq_iff) (metis cell_key_inj)
  qed
  have pairs: "offset_pairs ?f order ?n ?s = concat (map (\<lambda>a. map (Pair a)
      (filter (\<lambda>b. sub (snd (snd (ps ! b))) (snd (snd (ps ! a))) = d) order)) [0..<?n])"
    unfolding offset_pairs_def
    by (intro arg_cong [where f = concat] map_cong refl arg_cong2 [where f = map] filter_cong)
      (auto simp: hit set_order)
  have kept: "(if d = (0, 0, 0) then filter (\<lambda>(a, b). a \<noteq> b) xs else xs) = filter (\<lambda>(a, b). a \<noteq> b) xs"
    if "xs = offset_pairs ?f order ?n ?s" for xs
  proof (cases "d = (0, 0, 0)")
    case False
    then have "filter (\<lambda>(a, b). a \<noteq> b) xs = xs"
      unfolding that pairs by (intro filter_True) (auto simp: sub_self)
    then show ?thesis using False by simp
  qed simp
  have key: "pack_key (int (fst (ps ! a))) (int (fst (ps ! b))) ((fst (snd (ps ! b)) - fst (snd (ps ! a))) AND 3)
      (int (ot_rot_map tbl ! nat (fst (snd (ps ! a))) ! oi)) (int (length (ot_offsets tbl))) =
      pack_tuple (table_offsets rxz ry) (pair_tuple_of ps a b)"
    if "a < ?n" "sub (snd (snd (ps ! b))) (snd (snd (ps ! a))) = d" for a b
  proof -
    have "typed_ok rxz ry (ps ! a)" using ok that by simp
    then have "fst (snd (ps ! a)) \<in> {0, 1, 2, 3}" by (auto simp: typed_ok_def)
    then have "ot_rot_map tbl ! nat (fst (snd (ps ! a))) ! oi = rot_entry (table_offsets rxz ry) (fst (snd (ps ! a))) d"
      using tbl oi by (auto simp: offset_table_total)
    moreover have "ot_offsets tbl = table_offsets rxz ry" using tbl by (auto simp: offset_table_total)
    ultimately show ?thesis
      using that(2) by (simp add: pack_tuple_def pair_tuple_of_def AND_3 rot_entry_def)
  qed
  have empty: "offset_pairs ?f order ?n ?s = []"
    if "sum_list (map (\<lambda>a. length (filter (\<lambda>b. ?f b = i64 (?f a + ?s)) order)) [0..<?n]) = 0"
    using that by (auto simp: offset_pairs_def)
  have "join_offset np ps cells order (map ?f order) tbl (oi, d) =
    map (\<lambda>(a, b). pack_tuple (table_offsets rxz ry) (pair_tuple_of ps a b))
      (filter (\<lambda>(a, b). a \<noteq> b) (offset_pairs ?f order ?n ?s))"
    (is "_ = map ?k (filter _ ?P)")
  proof -
    have "map (\<lambda>(a, b). let a_rot = fst (snd (ps ! a)); rel_rot = (fst (snd (ps ! b)) - a_rot) AND 3;
        stored_oi = ot_rot_map tbl ! nat a_rot ! oi
      in pack_key (int (fst (ps ! a))) (int (fst (ps ! b))) rel_rot (int stored_oi)
           (int (length (ot_offsets tbl)))) (filter (\<lambda>(a, b). a \<noteq> b) ?P) =
      map ?k (filter (\<lambda>(a, b). a \<noteq> b) ?P)"
      unfolding pairs by (rule map_cong) (auto simp: Let_def key)
    moreover have "join_offset np ps cells order (map ?f order) tbl (oi, d) =
      (if sum_list (map (\<lambda>a. length (filter (\<lambda>b. ?f b = i64 (?f a + ?s)) order)) [0..<?n]) = 0 then []
       else map (\<lambda>(a, b). let a_rot = fst (snd (ps ! a)); rel_rot = (fst (snd (ps ! b)) - a_rot) AND 3;
            stored_oi = ot_rot_map tbl ! nat a_rot ! oi
          in pack_key (int (fst (ps ! a))) (int (fst (ps ! b))) rel_rot (int stored_oi)
               (int (length (ot_offsets tbl)))) (filter (\<lambda>(a, b). a \<noteq> b) ?P))"
      unfolding join_offset_def Let_def split_conv ji(2) kept [OF refl] unfolding ji(1) by (rule refl)
    ultimately show ?thesis using empty by (simp del: sum_list_eq_0_iff split: if_split)
  qed
  also have "\<dots> = concat (map (\<lambda>a. map (\<lambda>b. pack_tuple (table_offsets rxz ry) (pair_tuple_of ps a b))
      (filter (\<lambda>b. sub (snd (snd (ps ! b))) (snd (snd (ps ! a))) = d \<and> a \<noteq> b) order)) [0..<?n])"
    unfolding pairs
    by (simp add: filter_concat map_concat comp_def filter_map conj_commute)
  finally show ?thesis .
qed

text \<open>All keys of a map, up to their order, are the packed pairs of the nested loops.\<close>

lemma all_keys_mset:
  assumes "numpy_documented np" "\<forall>p \<in> set ps. typed_ok rxz ry p" "offset_table_of rxz ry = Inr tbl"
  defines "cells \<equiv> map (\<lambda>p. cell_key (snd (snd p))) ps"
  defines "order \<equiv> sort_key (\<lambda>i. cells ! i) [0..<length ps]"
  shows "mset (concat (map (join_offset np ps cells order (map (\<lambda>i. cells ! i) order) tbl)
      (enumerate 0 (ot_offsets tbl)))) =
    mset (map (pack_tuple (table_offsets rxz ry)) (neighbour_pairs rxz ry ps))"
proof -
  let ?offs = "table_offsets rxz ry"
  let ?k = "\<lambda>a b. pack_tuple ?offs (pair_tuple_of ps a b)"
  let ?g = "\<lambda>a b. sub (snd (snd (ps ! b))) (snd (snd (ps ! a)))"
  have "map (join_offset np ps cells order (map (\<lambda>i. cells ! i) order) tbl) (enumerate 0 ?offs) =
    map (\<lambda>d. concat (map (\<lambda>a. map (?k a) (filter (\<lambda>b. ?g a b = d \<and> a \<noteq> b) order)) [0..<length ps])) ?offs"
    (is "map ?J _ = map ?G _")
  proof -
    have "map ?J (enumerate 0 ?offs) = map (?G \<circ> snd) (enumerate 0 ?offs)"
    proof (rule map_cong [OF refl])
      fix p assume "p \<in> set (enumerate 0 ?offs)"
      then obtain i where "i < length ?offs" "p = (i, ?offs ! i)"
        by (auto simp: enumerate_eq_zip set_zip)
      then show "?J p = (?G \<circ> snd) p"
        using join_offset_eq [OF assms(1) _ assms(2) _ _ assms(3), of "?offs ! i" i]
        by (simp add: cells_def order_def)
    qed
    then show ?thesis by (simp flip: map_map)
  qed
  moreover have "ot_offsets tbl = ?offs" using assms(3) by (auto simp: offset_table_total)
  moreover have "mset (concat (map ?G ?offs)) = mset (concat (map (\<lambda>a. concat (map (\<lambda>d.
      map (?k a) (filter (\<lambda>b. ?g a b = d \<and> a \<noteq> b) order)) ?offs)) [0..<length ps]))"
    by (rule mset_concat_swap)
  moreover have "mset (concat (map (\<lambda>d. map (?k a) (filter (\<lambda>b. ?g a b = d \<and> a \<noteq> b) order)) ?offs)) =
      mset (map (?k a) (filter (\<lambda>b. a \<noteq> b \<and> near rxz ry (?g a b)) [0..<length ps]))" for a
  proof -
    have "mset (concat (map (\<lambda>d. map (?k a) (filter (\<lambda>b. ?g a b = d \<and> a \<noteq> b) order)) ?offs)) =
      mset (map (?k a) (filter (\<lambda>b. a \<noteq> b \<and> ?g a b \<in> set ?offs) order))"
      by (rule mset_group [OF distinct_table_offsets, where h = "\<lambda>_. ?k a"])
    also have "\<dots> = mset (map (?k a) (filter (\<lambda>b. a \<noteq> b \<and> ?g a b \<in> set ?offs) [0..<length ps]))"
      by (simp add: order_def)
    finally show ?thesis by (simp add: set_table_offsets)
  qed
  then have "mset (concat (map (\<lambda>a. concat (map (\<lambda>d.
      map (?k a) (filter (\<lambda>b. ?g a b = d \<and> a \<noteq> b) order)) ?offs)) as')) =
    mset (concat (map (\<lambda>a. map (?k a) (filter (\<lambda>b. a \<noteq> b \<and> near rxz ry (?g a b)) [0..<length ps])) as'))" for as'
    by (induction as') auto
  ultimately show ?thesis
    by (simp add: neighbour_pairs_def map_concat comp_def)
qed

lemma count_list_mset_eq: "mset xs = mset ys \<Longrightarrow> count_list xs = count_list ys"
  by (simp add: fun_eq_iff flip: count_mset)

lemma map_pairs_eq:
  assumes "numpy_documented np" "\<forall>p \<in> set ps. typed_ok rxz ry p" "offset_table_of rxz ry = Inr tbl"
  defines "K \<equiv> map (pack_tuple (table_offsets rxz ry)) (neighbour_pairs rxz ry ps)"
  shows "map_pairs np ps tbl = (sort (remdups K), map (count_list K) (sort (remdups K)))"
proof -
  let ?cells = "map (\<lambda>p. cell_key (snd (snd p))) ps"
  let ?order = "sort_key (\<lambda>i. ?cells ! i) [0..<length ps]"
  let ?all = "map (join_offset np ps ?cells ?order (map (\<lambda>i. ?cells ! i) ?order) tbl) (enumerate 0 (ot_offsets tbl))"
  have m: "mset (concat ?all) = mset K"
    unfolding K_def by (rule all_keys_mset [OF assms(1-3)])
  have arg: "np_argsort np ?cells = ?order"
    by (simp add: numpy_simps(1) [OF assms(1)])
  have "sort (remdups (concat ?all)) = sort (remdups K)"
    using mset_eq_setD [OF m] by (simp flip: sorted_list_of_set_sort_remdups)
  moreover have "count_list (concat ?all) = count_list K" using m by (rule count_list_mset_eq)
  moreover have "list_all (\<lambda>ks. ks = []) ?all \<Longrightarrow> K = []"
  proof -
    assume "list_all (\<lambda>ks. ks = []) ?all"
    then have "concat ?all = []" by (simp only: concat_eq_Nil_conv list_all_iff)
    with m show "K = []" by simp
  qed
  ultimately show ?thesis
    unfolding map_pairs_def Let_def arg
    by (cases "list_all (\<lambda>ks. ks = []) ?all")
      (simp_all only: if_True if_False numpy_simps(4) [OF assms(1)], simp_all)
qed

subsection \<open>The counter computes totals\<close>

definition total_at :: "int \<Rightarrow> int list \<Rightarrow> nat list \<Rightarrow> nat" where
  "total_at k ks vs = sum_list (map snd (filter (\<lambda>p. fst p = k) (zip ks vs)))"

lemma total_at_simps [simp]:
  "total_at k [] vs = 0"
  "total_at k (x # xs) (v # vs) = (if x = k then v else 0) + total_at k xs vs"
  by (simp_all add: total_at_def)

lemma total_at_append:
  "length xs = length vs \<Longrightarrow> total_at k (xs @ ys) (vs @ ws) = total_at k xs vs + total_at k ys ws"
  by (simp add: total_at_def)

lemma total_at_notin: "k \<notin> set xs \<Longrightarrow> total_at k xs vs = 0"
  by (induction xs arbitrary: vs) (auto simp: total_at_def dest: set_zip_leftD)

lemma total_at_map: "total_at k xs (map f xs) = (\<Sum>x\<leftarrow>xs. if x = k then f x else 0)"
  by (induction xs) auto

lemma total_at_distinct: "distinct xs \<Longrightarrow> total_at k xs (map f xs) = (if k \<in> set xs then f k else 0)"
  by (induction xs) auto

lemma total_at_ones: "total_at k xs (replicate (length xs) 1) = count_list xs k"
  by (induction xs) auto

lemma total_at_reorder:
  assumes "mset order = mset [0..<length xs]" "length xs = length vs"
  shows "total_at k (map (\<lambda>i. xs ! i) order) (map (\<lambda>i. vs ! i) order) = total_at k xs vs"
proof -
  have z: "zip (map (\<lambda>i. xs ! i) order) (map (\<lambda>i. vs ! i) order) = map (\<lambda>i. (xs ! i, vs ! i)) order"
    by (rule nth_equalityI) auto
  have "zip xs vs = map (\<lambda>i. (xs ! i, vs ! i)) [0..<length xs]"
    using assms(2) by (intro nth_equalityI) auto
  then have "mset (map (\<lambda>i. (xs ! i, vs ! i)) order) = mset (zip xs vs)"
    using assms(1) by (simp del: mset_upt)
  moreover have "sum_list (map snd (filter P ys)) = sum_mset (image_mset snd (filter_mset P (mset ys)))"
    for P :: "int \<times> nat \<Rightarrow> bool" and ys
    by (simp only: mset_filter [symmetric] mset_map [symmetric] sum_mset_sum_list)
  ultimately show ?thesis unfolding total_at_def z by (simp only:)
qed

lemma true_positions_snoc:
  "filter ((!) (bs @ [c])) [0..<length (bs @ [c])] =
    filter ((!) bs) [0..<length bs] @ (if c then [length bs] else [])"
  by (auto simp: nth_append intro!: filter_cong)

definition run_starts :: "int list \<Rightarrow> nat list" where
  "run_starts ks = filter (\<lambda>i. (True # map2 (\<noteq>) (tl ks) (butlast ks)) ! i)
     [0..<length (True # map2 (\<noteq>) (tl ks) (butlast ks))]"

lemma run_starts_single: "run_starts [x] = [0]"
  by (simp add: run_starts_def)

lemma run_starts_snoc:
  "run_starts (ks @ [x, y]) = run_starts (ks @ [x]) @ (if x = y then [] else [Suc (length ks)])"
proof -
  let ?b = "\<lambda>ks. True # map2 (\<noteq>) (tl ks) (butlast ks)"
  have "?b (ks @ [x, y]) = ?b (ks @ [x]) @ [y \<noteq> x]"
  proof -
    have "tl (ks @ [x, y]) = tl (ks @ [x]) @ [y]" by (cases ks) auto
    moreover have "butlast (ks @ [x, y]) = butlast (ks @ [x]) @ [x]"
      by (simp add: butlast_append)
    moreover have "length (tl (ks @ [x])) = length (butlast (ks @ [x]))" by simp
    ultimately show ?thesis by (simp only: zip_append map_append) simp
  qed
  moreover have "length (?b (ks @ [x])) = Suc (length ks)" by simp
  ultimately show ?thesis
    unfolding run_starts_def by (simp only: true_positions_snoc) auto
qed

lemma run_starts_hd: "\<exists>ss. run_starts (ks @ [x]) = 0 # ss \<and> (\<forall>s \<in> set ss. 0 < s)"
  by (auto simp: run_starts_def upt_conv_Cons simp del: upt_Suc)

lemma run_starts_sorted: "sorted_wrt (<) (run_starts ks)" "s \<in> set (run_starts (ks @ [x])) \<Longrightarrow> s < Suc (length ks)"
  by (auto simp: run_starts_def sorted_wrt_filter simp del: upt_Suc)

definition run_sums :: "nat list \<Rightarrow> nat list \<Rightarrow> nat list" where
  "run_sums vs starts = map2 (\<lambda>a b. sum_list (drop a (take b vs))) starts (tl starts @ [length vs])"

lemma run_sums_last:
  "run_sums vs (ss @ [s]) = map2 (\<lambda>a b. sum_list (drop a (take b vs))) ss (tl (ss @ [s])) @ [sum_list (drop s vs)]"
  by (simp add: run_sums_def zip_append)

text \<open>Summing the runs of equal neighbours keeps the total of every key.\<close>

lemma run_sums_total:
  assumes "length ks = length vs" "ks \<noteq> []"
  shows "map (\<lambda>i. ks ! i) (run_starts ks) = remdups_adj ks \<and>
    total_at k (remdups_adj ks) (run_sums vs (run_starts ks)) = total_at k ks vs"
  using assms(2,1)
proof (induction ks arbitrary: vs rule: rev_nonempty_induct)
  case (single x)
  then show ?case by (cases vs) (auto simp: run_starts_single run_sums_def)
next
  case (snoc y ks')
  obtain ks x where ks: "ks' = ks @ [x]" using snoc.hyps by (cases ks' rule: rev_cases) auto
  obtain ws v where vs: "vs = ws @ [v]" and len: "length ks' = length ws"
    using snoc.prems by (cases vs rule: rev_cases) auto
  note IH = snoc.IH [OF len]
  obtain ss s where ss: "run_starts ks' = ss @ [s]"
    using run_starts_hd [of ks x] ks by (cases "run_starts ks'" rule: rev_cases) auto
  have small: "\<forall>s \<in> set (run_starts ks'). s < length ws"
    using run_starts_sorted(2) [of _ ks x] ks len by auto
  have adj: "remdups_adj (ks @ [x, y]) = remdups_adj (ks @ [x]) @ (if x = y then [] else [y])"
    by (rule remdups_adj_append_two)
  have nths: "map (\<lambda>i. (ks' @ [y]) ! i) (run_starts ks') = map (\<lambda>i. ks' ! i) (run_starts ks')"
    using small len by (auto simp: nth_append)
  have early: "map2 (\<lambda>a b. sum_list (drop a (take b (ws @ [v])))) ss (tl (ss @ [s])) =
      map2 (\<lambda>a b. sum_list (drop a (take b ws))) ss (tl (ss @ [s]))"
  proof (rule map_cong [OF refl], clarify)
    fix a b assume "(a, b) \<in> set (zip ss (tl (ss @ [s])))"
    then have "b \<in> set (ss @ [s])" by (meson list.set_sel(2) set_zip_rightD snoc_eq_iff_butlast)
    then have "b \<le> length ws" using small ss by auto
    then show "sum_list (drop a (take b (ws @ [v]))) = sum_list (drop a (take b ws))" by simp
  qed
  have s: "s < length ws" using small ss by simp
  have grown: "total_at k (ks' @ [y]) (ws @ [v]) = total_at k ks' ws + (if y = k then v else 0)"
    by (simp only: total_at_append [OF len]) simp
  show ?case
  proof (cases "x = y")
    case True
    obtain K where K: "remdups_adj ks' = K @ [y]"
      using True ks by (metis append_butlast_last_id last_remdups_adj last_snoc remdups_adj_Nil_iff snoc_eq_iff_butlast)
    have lenK: "length K = length ss" using IH K ss by (metis length_append_singleton length_map nat.inject)
    have rs: "run_starts (ks' @ [y]) = ss @ [s]" using run_starts_snoc [of ks x y] True ks ss by simp
    have "total_at k (K @ [y]) (run_sums (ws @ [v]) (ss @ [s])) =
        total_at k (K @ [y]) (run_sums ws (ss @ [s])) + (if y = k then v else 0)"
      unfolding run_sums_last early using lenK s by (simp add: total_at_append)
    moreover have "remdups_adj (ks' @ [y]) = K @ [y]" using adj True ks K by simp
    moreover have "map (\<lambda>i. (ks' @ [y]) ! i) (ss @ [s]) = K @ [y]" using nths IH ss K by metis
    ultimately show ?thesis
      using IH K ss grown by (simp only: rs vs)
  next
    case False
    have rs: "run_starts (ks' @ [y]) = (ss @ [s]) @ [length ws]"
      using run_starts_snoc [of ks x y] False ks ss len by simp
    have "run_sums (ws @ [v]) ((ss @ [s]) @ [length ws]) = run_sums ws (ss @ [s]) @ [v]"
    proof -
      have t: "tl ((ss @ [s]) @ [length ws]) = tl (ss @ [s]) @ [length ws]" by (cases ss) auto
      have l: "length ss = length (tl (ss @ [s]))" by simp
      show ?thesis
        unfolding run_sums_last t zip_append [OF l] map_append early by simp
    qed
    moreover have "length (run_sums ws (ss @ [s])) = length (ss @ [s])" by (simp add: run_sums_def)
    moreover have lr: "length (remdups_adj ks') = length (ss @ [s])" using IH ss by (metis length_map)
    moreover have "remdups_adj (ks' @ [y]) = remdups_adj ks' @ [y]" using adj False ks by simp
    moreover have "map (\<lambda>i. (ks' @ [y]) ! i) ((ss @ [s]) @ [length ws]) = remdups_adj ks' @ [y]"
      using nths IH ss len by (metis list.map(1) list.map(2) map_append nth_append_length)
    ultimately show ?thesis
      using IH ss grown unfolding rs vs by (simp only: total_at_append) simp
  qed
qed

lemma strict_sorted_remdups_adj: "sorted xs \<Longrightarrow> sorted_wrt (<) (remdups_adj (xs :: int list))"
  by (induction xs rule: remdups_adj.induct) auto

lemma count_list_distinct: "distinct xs \<Longrightarrow> count_list xs x = (if x \<in> set xs then 1 else 0)"
  by (induction xs) auto

text \<open>Sorted, distinct running keys with one total each; pending chunks of distinct keys.\<close>

definition counter_ok :: "pair_counter \<Rightarrow> bool" where
  "counter_ok c \<longleftrightarrow> sorted_wrt (<) (pc_keys c) \<and> length (pc_pairs c) = length (pc_keys c) \<and>
     length (pc_maps c) = length (pc_keys c) \<and>
     list_all2 (\<lambda>ks vs. length ks = length vs) (pc_pending_keys c) (pc_pending_pairs c) \<and>
     (\<forall>ks \<in> set (pc_pending_keys c). ks \<noteq> [] \<and> distinct ks)"

definition pairs_seen :: "pair_counter \<Rightarrow> int \<Rightarrow> nat" where
  "pairs_seen c k = total_at k (pc_keys c) (pc_pairs c) +
     total_at k (concat (pc_pending_keys c)) (concat (pc_pending_pairs c))"

definition maps_seen :: "pair_counter \<Rightarrow> int \<Rightarrow> nat" where
  "maps_seen c k = total_at k (pc_keys c) (pc_maps c) + count_list (concat (pc_pending_keys c)) k"

definition keys_seen :: "pair_counter \<Rightarrow> int set" where
  "keys_seen c = set (pc_keys c) \<union> set (concat (pc_pending_keys c))"

lemma counter_init_ok: "counter_ok counter_init" "pairs_seen counter_init k = 0"
    "maps_seen counter_init k = 0" "keys_seen counter_init = {}"
  by (simp_all add: counter_init_def counter_ok_def pairs_seen_def maps_seen_def keys_seen_def)

lemma list_all2_lengths_concat:
  "list_all2 (\<lambda>ks vs. length ks = length vs) kss vss \<Longrightarrow> length (concat kss) = length (concat vss)"
  by (induction kss vss rule: list_all2_induct) auto

lemma counter_compact_ok:
  assumes "numpy_documented np" "counter_ok c"
  shows "\<exists>c'. counter_compact np c = Inr c' \<and> counter_ok c' \<and> pc_pending_keys c' = [] \<and>
    pc_pending_pairs c' = [] \<and> pairs_seen c' = pairs_seen c \<and> maps_seen c' = maps_seen c \<and> keys_seen c' = keys_seen c"
proof (cases "pc_pending_keys c = []")
  case True
  then show ?thesis using assms(2) by (auto simp: counter_compact_def counter_ok_def)
next
  case False
  define keys where "keys = pc_keys c @ concat (pc_pending_keys c)"
  define pairs where "pairs = pc_pairs c @ concat (pc_pending_pairs c)"
  define maps where "maps = pc_maps c @ concat (map (\<lambda>k. replicate (length k) 1) (pc_pending_keys c))"
  define order where "order = sort_key (\<lambda>i. keys ! i) [0..<length keys]"
  define ks where "ks = map (\<lambda>i. keys ! i) order"
  have ones: "concat (map (\<lambda>k. replicate (length k) (1 :: nat)) kss) = replicate (length (concat kss)) 1" for kss :: "int list list"
    by (induction kss) (auto simp: replicate_add)
  have maps_eq: "maps = pc_maps c @ replicate (length (concat (pc_pending_keys c))) 1"
    by (simp only: maps_def ones)
  have len: "length keys = length pairs" "length keys = length maps"
    using assms(2) list_all2_lengths_concat [of "pc_pending_keys c" "pc_pending_pairs c"]
    by (auto simp: keys_def pairs_def maps_eq counter_ok_def simp del: length_concat)
  have perm: "mset order = mset [0..<length keys]" by (simp add: order_def)
  have srt: "sorted ks" by (simp add: ks_def order_def)
  have ks_mset: "mset ks = mset keys"
    using perm by (simp add: ks_def del: mset_upt) (metis map_nth mset_map)
  have "pc_pending_keys c \<noteq> [] \<Longrightarrow> concat (pc_pending_keys c) \<noteq> []"
    using assms(2) by (cases "pc_pending_keys c") (auto simp: counter_ok_def)
  then have ne: "ks \<noteq> []" using False ks_mset by (auto simp: keys_def)
  let ?p = "map (\<lambda>i. pairs ! i) order" and ?m = "map (\<lambda>i. maps ! i) order"
  have lp: "length ks = length ?p" "length ks = length ?m" by (simp_all add: ks_def)
  obtain kb x where kb: "ks = kb @ [x]" using ne by (cases ks rule: rev_cases) auto
  have starts: "sorted_wrt (<) (run_starts ks)" "\<forall>s \<in> set (run_starts ks). s < length ks"
    using run_starts_sorted(1) run_starts_sorted(2) [of _ kb x] kb by auto
  have sums: "np_reduceat np ?p (run_starts ks) = run_sums ?p (run_starts ks)"
    "np_reduceat np ?m (run_starts ks) = run_sums ?m (run_starts ks)"
    using starts lp by (simp_all only: numpy_simps(7) [OF assms(1)] run_sums_def)
  have len_sums: "length (run_sums vs (run_starts ks)) = length (run_starts ks)" for vs
    using run_starts_hd [of kb x] kb by (auto simp: run_sums_def)
  have keys': "map (\<lambda>i. ks ! i) (run_starts ks) = remdups_adj ks"
    using run_sums_total [OF lp(1) ne] by blast
  define c' where "c' = \<lparr>pc_keys = remdups_adj ks, pc_pairs = run_sums ?p (run_starts ks),
    pc_maps = run_sums ?m (run_starts ks), pc_pending_keys = [], pc_pending_pairs = [], pc_pending_size = 0\<rparr>"
  have res: "counter_compact np c = Inr c'"
    using False ne
    unfolding counter_compact_def Let_def keys_def [symmetric] pairs_def [symmetric] maps_def [symmetric]
      numpy_simps(1) [OF assms(1)] order_def [symmetric] ks_def [symmetric] run_starts_def [symmetric]
      sums keys' c'_def by simp
  have "sorted_wrt (<) (remdups_adj ks)" using srt by (rule strict_sorted_remdups_adj)
  moreover have "length (remdups_adj ks) = length (run_starts ks)" using keys' by (metis length_map)
  ultimately have ok: "counter_ok c'" by (simp add: counter_ok_def c'_def len_sums)
  have "total_at k (remdups_adj ks) (run_sums ?p (run_starts ks)) = total_at k keys pairs" for k
    using run_sums_total [OF lp(1) ne] total_at_reorder [OF perm len(1)] by (simp add: ks_def)
  moreover have "total_at k (remdups_adj ks) (run_sums ?m (run_starts ks)) = total_at k keys maps" for k
    using run_sums_total [OF lp(2) ne] total_at_reorder [OF perm len(2)] by (simp add: ks_def)
  ultimately have "pairs_seen c' = pairs_seen c" "maps_seen c' = maps_seen c"
    using assms(2) by (simp_all add: fun_eq_iff pairs_seen_def maps_seen_def c'_def keys_def pairs_def maps_eq
        counter_ok_def total_at_append total_at_ones del: length_concat One_nat_def)
  moreover have "keys_seen c' = keys_seen c"
    using mset_eq_setD [OF ks_mset] by (simp add: keys_seen_def c'_def keys_def)
  ultimately show ?thesis using res ok by (auto simp: c'_def)
qed

lemma counter_add_ok:
  assumes "numpy_documented np" "counter_ok c" "distinct ks" "length ks = length vs"
  shows "\<exists>c'. counter_add np (ks, vs) c = Inr c' \<and> counter_ok c' \<and>
    pairs_seen c' = (\<lambda>k. pairs_seen c k + total_at k ks vs) \<and>
    maps_seen c' = (\<lambda>k. maps_seen c k + (if k \<in> set ks then 1 else 0)) \<and> keys_seen c' = keys_seen c \<union> set ks"
proof (cases "ks = []")
  case True
  then show ?thesis using assms(2) by (auto simp: counter_add_def)
next
  case False
  define c1 where "c1 = c\<lparr>pc_pending_keys := pc_pending_keys c @ [ks],
    pc_pending_pairs := pc_pending_pairs c @ [vs], pc_pending_size := pc_pending_size c + length ks\<rparr>"
  have ok: "counter_ok c1"
    using assms(2-4) False by (auto simp: counter_ok_def c1_def intro: list_all2_appendI)
  have "length (concat (pc_pending_keys c)) = length (concat (pc_pending_pairs c))"
    using assms(2) by (auto simp: counter_ok_def intro: list_all2_lengths_concat)
  then have tot: "pairs_seen c1 = (\<lambda>k. pairs_seen c k + total_at k ks vs)"
    "maps_seen c1 = (\<lambda>k. maps_seen c k + (if k \<in> set ks then 1 else 0))" "keys_seen c1 = keys_seen c \<union> set ks"
    using assms(3) by (auto simp: fun_eq_iff c1_def pairs_seen_def maps_seen_def keys_seen_def
        total_at_append count_list_distinct simp del: length_concat)
  show ?thesis
    using counter_compact_ok [OF assms(1) ok] ok tot False
    by (auto simp: counter_add_def c1_def [symmetric] Let_def)
qed

subsection \<open>Clip ports of a key\<close>

definition block_ports :: "block_def \<Rightarrow> int \<Rightarrow> world_port list" where
  "block_ports block rotation =
     (case block_variant_of block ''ground'' 0 of
        None \<Rightarrow> []
      | Some variant \<Rightarrow> if 0 \<le> rotation \<and> rotation < 4
          then rotated_ports variant (side_ports variant) rotation else [])"

definition ports_at :: "catalogue \<Rightarrow> string \<Rightarrow> int \<Rightarrow> world_port list" where
  "ports_at catalogue b rotation =
     (case map_of catalogue b of None \<Rightarrow> [] | Some block \<Rightarrow> block_ports block rotation)"

lemma index_block_lookup:
  "map_of (index_block (i, blk) index) (b, r) =
    (if b = i \<and> block_ports blk r \<noteq> [] then Some (block_ports blk r) else map_of index (b, r))"
proof (cases "block_variant_of blk ''ground'' 0")
  case (Some variant)
  have "r = 0 \<or> r = 1 \<or> r = 2 \<or> r = 3 \<longleftrightarrow> 0 \<le> r \<and> r < 4" by auto
  then show ?thesis
    using Some by (auto simp: index_block_def block_ports_def rotated_ports_def update_conv')
qed (simp add: index_block_def block_ports_def)

lemma clip_port_index_lookup:
  assumes "distinct (map fst catalogue)"
  shows "get_or (map_of (clip_port_index catalogue) (b, r)) [] = ports_at catalogue b r"
proof -
  have "map_of (fold index_block cat index) (b, r) =
      (if ports_at cat b r \<noteq> [] then Some (ports_at cat b r) else map_of index (b, r))"
    if "distinct (map fst cat)" for cat index
    using that
  proof (induction cat arbitrary: index)
    case (Cons p cat)
    obtain i blk where p: "p = (i, blk)" by fastforce
    have "ports_at cat b r = []" if "b = i"
    proof -
      have "map_of cat b = None" using Cons.prems p that by (simp add: map_of_eq_None_iff)
      then show ?thesis by (simp add: ports_at_def)
    qed
    then show ?case
      using Cons by (auto simp: p index_block_lookup ports_at_def)
  qed (simp add: ports_at_def)
  from this [OF assms, of "[]"] show ?thesis
    by (simp add: clip_port_index_def get_or_def)
qed

text \<open>
  A positive answer always names two meeting ports. A negative one excludes them only where no
  cell face of B carries two clips, because the dictionary keeps the last one.
\<close>

lemma clips_meet_sound:
  assumes "clips_meet ports a b d rel"
  shows "\<exists>c f clip c' . (c, f, clip) \<in> set (get_or (map_of ports (a, 0)) []) \<and>
    (c', opposite_face f, clip) \<in> set (get_or (map_of ports (b, rel)) []) \<and>
    shift d c' = shift c (the (FACE_DELTAS f))"
  using assms
  by (fastforce simp: clips_meet_def Let_def list_ex_iff dest: map_of_SomeD split: if_splits)

lemma clips_meet_complete:
  assumes "(c, f, clip) \<in> set (get_or (map_of ports (a, 0)) [])"
    and "(c', opposite_face f, clip) \<in> set (get_or (map_of ports (b, rel)) [])"
    and "shift d c' = shift c (the (FACE_DELTAS f))"
    and "distinct (map (\<lambda>(c, f, clip). (c, f)) (get_or (map_of ports (b, rel)) []))"
  shows "clips_meet ports a b d rel"
proof -
  let ?b = "get_or (map_of ports (b, rel)) []"
  let ?cells = "rev (map (\<lambda>(c, face, clip). ((shift d c, face), clip)) ?b)"
  have "map fst ?cells = rev (map ((\<lambda>(c, f). (shift d c, f)) \<circ> (\<lambda>(c, f, clip). (c, f))) ?b)"
    by (simp add: rev_map comp_def split_def)
  moreover have "inj (\<lambda>(c, f :: int). (shift d c, f))" by (auto simp: inj_def)
  ultimately have "distinct (map fst ?cells)"
    using assms(4) by (simp only: distinct_rev map_map [symmetric] distinct_map)
      (auto simp: distinct_map intro: inj_on_subset)
  moreover have "((shift d c', opposite_face f), clip) \<in> set ?cells"
    using assms(2) by force
  ultimately have "map_of ?cells (shift d c', opposite_face f) = Some clip" by simp
  then have "map_of ?cells (shift c (the (FACE_DELTAS f)), opposite_face f) = Some clip"
    by (simp only: assms(3))
  then have "list_ex (\<lambda>(c, face, clip).
      map_of ?cells (shift c (the (FACE_DELTAS face)), opposite_face face) = Some clip) (get_or (map_of ports (a, 0)) [])"
    unfolding list_ex_iff by (intro bexI [OF _ assms(1)]) simp
  moreover have "get_or (map_of ports (a, 0)) [] \<noteq> []" "?b \<noteq> []" using assms(1,2) by auto
  ultimately show ?thesis by (simp only: clips_meet_def Let_def) simp
qed

end
