(* ===== verification/Corpus_Mining.thy ===== *)
theory Corpus_Mining
  imports Pair_Mining
begin

section \<open>The corpus scan and the grammar table\<close>

text \<open>
  Second half of the model of \<^verbatim>\<open>src/src/constraints/placement_grammar.py\<close>: \<open>build_grammar\<close>
  with its database. The state of the scan (interned block types, counter, report) and of the
  database (maps, placements, grammar table, faults to come) is passed explicitly; every statement
  goes through \<open>with_reconnect\<close>. Columns are typed: integers fit the arrays, names are strings.

  Main results: what the run adds to the table, exactly (\<open>mined_rows_exact\<close>); with which outcome it
  ends when the database answers (\<open>mining_outcome\<close>); and that a flush whose reply is lost is
  counted twice, because the upsert is additive.
\<close>

subsection \<open>The database\<close>

record corpus_map =
  cm_id :: nat
  cm_status :: string
  cm_environment :: "string option"

record raw_placement =
  rp_block :: string
  rp_rotation :: int
  rp_x :: "int option"
  rp_y :: "int option"
  rp_z :: "int option"
  rp_is_free :: bool

record pair_row =
  pr_block_a :: string
  pr_block_b :: string
  pr_offset :: cell
  pr_rel :: int
  pr_environment :: string
  pr_clip_matched :: bool
  pr_pair_count :: nat
  pr_map_count :: nat
  pr_version :: string

datatype db_exn = OperationalError | InterfaceError | OtherDbError
datatype db_fault = Served | Refused db_exn | Reply_lost db_exn

text \<open>\<open>md_collate\<close> maps a character to its class in the collation of the tables.\<close>

record mine_db =
  md_collate :: "char \<Rightarrow> char"
  md_maps :: "corpus_map list"
  md_placements :: "nat \<Rightarrow> raw_placement list"
  md_table :: "(string \<times> pair_row) list"
  md_faults :: "db_fault list"

text \<open>One statement: the next fault decides whether it runs and whether its reply arrives.\<close>

definition db_call :: "(mine_db \<Rightarrow> 'a \<times> mine_db) \<Rightarrow> mine_db \<Rightarrow> (db_exn + 'a) \<times> mine_db" where
  "db_call run db =
     (let rest = db\<lparr>md_faults := tl (md_faults db)\<rparr>
      in case md_faults db of
           Refused e # _ \<Rightarrow> (Inl e, rest)
         | Reply_lost e # _ \<Rightarrow> (Inl e, snd (run rest))
         | _ \<Rightarrow> (let (v, db') = run rest in (Inr v, db')))"

text \<open>\<open>SELECT id ... ORDER BY id [LIMIT n]\<close>; the collation compares the environment, \<open>NULL\<close>
  equals nothing. A limit of 0 or \<open>None\<close> is no limit.\<close>

definition select_maps :: "string \<Rightarrow> nat option \<Rightarrow> mine_db \<Rightarrow> nat list" where
  "select_maps environment limit db =
     (let ids = sort (map cm_id (filter (\<lambda>m. cm_status m = ''success'' \<and>
          map_option (map (md_collate db)) (cm_environment m) = Some (map (md_collate db) environment)) (md_maps db)))
      in case limit of None \<Rightarrow> ids | Some n \<Rightarrow> if n = 0 then ids else take n ids)"

type_synonym placed_row = "string \<times> int \<times> cell"

definition select_placements :: "nat \<Rightarrow> mine_db \<Rightarrow> placed_row list" where
  "select_placements map_id db =
     List.map_filter (\<lambda>p. if rp_is_free p then None
       else case (rp_x p, rp_y p, rp_z p) of
              (Some x, Some y, Some z) \<Rightarrow> Some (rp_block p, rp_rotation p, (x, y, z))
            | _ \<Rightarrow> None) (md_placements db map_id)"

text \<open>\<open>INSERT ... ON DUPLICATE KEY UPDATE\<close>: an existing row keeps its key columns and its clip
  flag, and adds the counts.\<close>

definition upsert_pair :: "string \<times> pair_row \<Rightarrow> (string \<times> pair_row) list \<Rightarrow> (string \<times> pair_row) list" where
  "upsert_pair = (\<lambda>(signature, row) table.
     AList.update signature
       (case map_of table signature of
          None \<Rightarrow> row
        | Some old \<Rightarrow> old\<lparr>pr_pair_count := pr_pair_count old + pr_pair_count row,
                        pr_map_count := pr_map_count old + pr_map_count row,
                        pr_version := pr_version row\<rparr>) table)"

definition flush_rows :: "(string \<times> pair_row) list \<Rightarrow> mine_db \<Rightarrow> unit \<times> mine_db" where
  "flush_rows rows db = ((), db\<lparr>md_table := fold upsert_pair rows (md_table db)\<rparr>)"

definition reset_grammar :: "mine_db \<Rightarrow> (db_exn + unit) \<times> mine_db" where
  "reset_grammar = db_call (\<lambda>db. ((), db\<lparr>md_table := []\<rparr>))"

subsection \<open>Retrying\<close>

datatype mining_exn = DatabaseUnavailable | DbRaised db_exn | TooManyTypes | MiningPy py_error

text \<open>The attempts left count down from \<open>DB_RETRIES\<close>. Opening the new connection is a call of its
  own and stands outside the \<open>try\<close>: what it raises escapes.\<close>

primrec reconnecting :: "nat \<Rightarrow> bool \<Rightarrow> (mine_db \<Rightarrow> 'a \<times> mine_db) \<Rightarrow> mine_db \<Rightarrow> (mining_exn + 'a) \<times> mine_db" where
  "reconnecting 0 reconnect run db = (Inl DatabaseUnavailable, db)"
| "reconnecting (Suc n) reconnect run db =
     (case db_call run db of
        (Inr v, db1) \<Rightarrow> (Inr v, db1)
      | (Inl OtherDbError, db1) \<Rightarrow> (Inl (DbRaised OtherDbError), db1)
      | (Inl _, db1) \<Rightarrow>
          if \<not> reconnect \<or> n = 0 then (Inl DatabaseUnavailable, db1)
          else (case db_call (\<lambda>db. ((), db)) db1 of
                  (Inl e, db2) \<Rightarrow> (Inl (DbRaised e), db2)
                | (Inr _, db2) \<Rightarrow> reconnecting n reconnect run db2))"

definition with_reconnect :: "bool \<Rightarrow> (mine_db \<Rightarrow> 'a \<times> mine_db) \<Rightarrow> mine_db \<Rightarrow> (mining_exn + 'a) \<times> mine_db" where
  "with_reconnect = reconnecting DB_RETRIES"

subsection \<open>The scan\<close>

record grammar_report =
  gp_maps_seen :: nat
  gp_placements_seen :: nat
  gp_pairs_counted :: nat
  gp_distinct_keys :: nat
  gp_rows_written :: nat
  gp_clip_matched_rows :: nat
  gp_gap_rows :: nat
  gp_overlay_rows :: nat

definition grammar_report_init :: grammar_report where
  "grammar_report_init = \<lparr>gp_maps_seen = 0, gp_placements_seen = 0, gp_pairs_counted = 0,
     gp_distinct_keys = 0, gp_rows_written = 0, gp_clip_matched_rows = 0, gp_gap_rows = 0,
     gp_overlay_rows = 0\<rparr>"

record scan_state =
  sc_type_ids :: "(string \<times> nat) list"
  sc_type_names :: "string list"
  sc_counter :: pair_counter
  sc_report :: grammar_report

text \<open>The loop over one map's rows: a new block type gets the next index.\<close>

fun intern_rows :: "placed_row list \<Rightarrow> (string \<times> nat) list \<Rightarrow> string list
    \<Rightarrow> mining_exn + (typed list \<times> (string \<times> nat) list \<times> string list)" where
  "intern_rows [] ids names = Inr ([], ids, names)"
| "intern_rows ((name, rotation, c) # rows) ids names =
     (case (case map_of ids name of
              Some tid \<Rightarrow> Inr (tid, ids, names)
            | None \<Rightarrow> if MAX_TYPES \<le> length names then Inl TooManyTypes
                else Inr (length names, AList.update name (length names) ids, names @ [name])) of
        Inl e \<Rightarrow> Inl e
      | Inr (tid, ids', names') \<Rightarrow>
          (case intern_rows rows ids' names' of
             Inl e \<Rightarrow> Inl e
           | Inr (ps, ids'', names'') \<Rightarrow> Inr ((tid, rotation mod 4, c) # ps, ids'', names'')))"

text \<open>What the loop body does with the rows of a map.\<close>

definition scan_map :: "numpy \<Rightarrow> offset_table \<Rightarrow> placed_row list \<Rightarrow> scan_state \<Rightarrow> mining_exn + scan_state" where
  "scan_map np tbl rows st =
     (let r1 = (sc_report st)\<lparr>gp_maps_seen := gp_maps_seen (sc_report st) + 1\<rparr>
      in if rows = [] then Inr (st\<lparr>sc_report := r1\<rparr>)
         else case intern_rows rows (sc_type_ids st) (sc_type_names st) of
             Inl e \<Rightarrow> Inl e
           | Inr (ps, ids, names) \<Rightarrow>
               (let (keys, counts) = map_pairs np ps tbl
                in case counter_add np (keys, counts) (sc_counter st) of
                     Inl e \<Rightarrow> Inl (MiningPy e)
                   | Inr c \<Rightarrow> Inr \<lparr>sc_type_ids = ids, sc_type_names = names, sc_counter = c,
                       sc_report = r1\<lparr>gp_placements_seen := gp_placements_seen r1 + length rows,
                                     gp_pairs_counted := gp_pairs_counted r1 + sum_list counts\<rparr>\<rparr>))"

fun scan_corpus :: "numpy \<Rightarrow> bool \<Rightarrow> offset_table \<Rightarrow> nat list \<Rightarrow> scan_state \<Rightarrow> mine_db
    \<Rightarrow> (mining_exn + scan_state) \<times> mine_db" where
  "scan_corpus np reconnect tbl [] st db = (Inr st, db)"
| "scan_corpus np reconnect tbl (map_id # ids) st db =
     (case with_reconnect reconnect (\<lambda>db. (select_placements map_id db, db)) db of
        (Inl e, db1) \<Rightarrow> (Inl e, db1)
      | (Inr rows, db1) \<Rightarrow>
          (case scan_map np tbl rows st of
             Inl e \<Rightarrow> (Inl e, db1)
           | Inr st1 \<Rightarrow> scan_corpus np reconnect tbl ids st1 db1))"

subsection \<open>Writing the rows\<close>

definition join_bars :: "string list \<Rightarrow> string" where
  "join_bars parts = (case parts of [] \<Rightarrow> [] | p # ps \<Rightarrow> p @ concat (map (\<lambda>q. CHR ''|'' # q) ps))"

definition pair_payload :: "string \<Rightarrow> string \<Rightarrow> cell \<Rightarrow> int \<Rightarrow> string \<Rightarrow> string" where
  "pair_payload block_a block_b d rel environment =
     join_bars [block_a, block_b, py_str_int (fst d), py_str_int (fst (snd d)), py_str_int (snd (snd d)),
       py_str_int rel, environment]"

definition pair_signature :: "(string \<Rightarrow> string) \<Rightarrow> string \<Rightarrow> string \<Rightarrow> cell \<Rightarrow> int \<Rightarrow> string \<Rightarrow> string" where
  "pair_signature sha block_a block_b d rel environment = sha (pair_payload block_a block_b d rel environment)"

definition BATCH_ROWS :: nat where "BATCH_ROWS = 5000"

type_synonym clip_cache = "((nat \<times> nat \<times> int \<times> nat) \<times> bool) list"

record write_env =
  we_sha :: "string \<Rightarrow> string"
  we_environment :: string
  we_ports :: port_index
  we_names :: "string list"
  we_offsets :: "cell list"

text \<open>One surviving key: its row, the memo of clip answers and the report.\<close>

definition write_key :: "write_env \<Rightarrow> int \<Rightarrow> nat \<Rightarrow> nat \<Rightarrow> clip_cache \<Rightarrow> grammar_report
    \<Rightarrow> (string \<times> pair_row) \<times> clip_cache \<times> grammar_report" where
  "write_key env key pair_count map_count cache r =
     (let (ta, tb, rel, oi) = unpack_key key (int (length (we_offsets env)));
          block_a = we_names env ! ta;
          block_b = we_names env ! tb;
          d = we_offsets env ! oi;
          (matched, cache') = (case map_of cache (ta, tb, rel, oi) of
             Some m \<Rightarrow> (m, cache)
           | None \<Rightarrow> (let m = clips_meet (we_ports env) block_a block_b d rel
                     in (m, AList.update (ta, tb, rel, oi) m cache)));
          r1 = (if matched then r\<lparr>gp_clip_matched_rows := gp_clip_matched_rows r + 1\<rparr>
                else if d = (0, 0, 0) then r\<lparr>gp_overlay_rows := gp_overlay_rows r + 1\<rparr>
                else if max \<bar>fst d\<bar> \<bar>snd (snd d)\<bar> > 1 then r\<lparr>gp_gap_rows := gp_gap_rows r + 1\<rparr>
                else r)
      in ((pair_signature (we_sha env) block_a block_b d rel (we_environment env),
           \<lparr>pr_block_a = block_a, pr_block_b = block_b, pr_offset = d, pr_rel = rel,
            pr_environment = we_environment env, pr_clip_matched = matched,
            pr_pair_count = pair_count, pr_map_count = map_count, pr_version = MINER_VERSION\<rparr>),
          cache', r1\<lparr>gp_rows_written := gp_rows_written r1 + 1\<rparr>))"

fun write_keys :: "write_env \<Rightarrow> bool \<Rightarrow> (int \<times> nat \<times> nat) list \<Rightarrow> (string \<times> pair_row) list
    \<Rightarrow> clip_cache \<Rightarrow> grammar_report \<Rightarrow> mine_db \<Rightarrow> (mining_exn + grammar_report) \<times> mine_db" where
  "write_keys env reconnect [] batch cache r db =
     (if batch = [] then (Inr r, db)
      else case with_reconnect reconnect (flush_rows batch) db of
          (Inl e, db1) \<Rightarrow> (Inl e, db1)
        | (Inr _, db1) \<Rightarrow> (Inr r, db1))"
| "write_keys env reconnect ((key, pair_count, map_count) # keys) batch cache r db =
     (case write_key env key pair_count map_count cache r of
        (row, cache', r') \<Rightarrow>
          (if BATCH_ROWS \<le> length (batch @ [row])
           then case with_reconnect reconnect (flush_rows (batch @ [row])) db of
               (Inl e, db1) \<Rightarrow> (Inl e, db1)
             | (Inr _, db1) \<Rightarrow> write_keys env reconnect keys [] cache' r' db1
           else write_keys env reconnect keys (batch @ [row]) cache' r' db))"

subsection \<open>The whole run\<close>

record mining_options =
  mo_environment :: string
  mo_limit :: "nat option"
  mo_radius_xz :: int
  mo_radius_y :: int
  mo_min_map_count :: int
  mo_reconnect :: bool

definition scan_init :: scan_state where
  "scan_init = \<lparr>sc_type_ids = [], sc_type_names = [], sc_counter = counter_init, sc_report = grammar_report_init\<rparr>"

definition build_grammar :: "numpy \<Rightarrow> (string \<Rightarrow> string) \<Rightarrow> catalogue \<Rightarrow> mining_options \<Rightarrow> mine_db
    \<Rightarrow> (mining_exn + grammar_report) \<times> mine_db" where
  "build_grammar np sha catalogue opts db =
     (case offset_table_of (mo_radius_xz opts) (mo_radius_y opts) of
        Inl e \<Rightarrow> (Inl (MiningPy e), db)
      | Inr tbl \<Rightarrow>
        (case with_reconnect (mo_reconnect opts)
            (\<lambda>db. (select_maps (mo_environment opts) (mo_limit opts) db, db)) db of
           (Inl e, db1) \<Rightarrow> (Inl e, db1)
         | (Inr map_ids, db1) \<Rightarrow>
           (case scan_corpus np (mo_reconnect opts) tbl map_ids scan_init db1 of
              (Inl e, db2) \<Rightarrow> (Inl e, db2)
            | (Inr st, db2) \<Rightarrow>
              (case counter_compact np (sc_counter st) of
                 Inl e \<Rightarrow> (Inl (MiningPy e), db2)
               | Inr c \<Rightarrow>
                   write_keys \<lparr>we_sha = sha, we_environment = mo_environment opts,
                       we_ports = clip_port_index catalogue, we_names = sc_type_names st,
                       we_offsets = ot_offsets tbl\<rparr> (mo_reconnect opts)
                     (filter (\<lambda>(k, p, m). mo_min_map_count opts \<le> int m)
                       (zip (pc_keys c) (zip (pc_pairs c) (pc_maps c))))
                     [] [] ((sc_report st)\<lparr>gp_distinct_keys := length (pc_keys c)\<rparr>) db2))))"

subsection \<open>Database calls\<close>

definition same_data :: "mine_db \<Rightarrow> mine_db \<Rightarrow> bool" where
  "same_data db db' \<longleftrightarrow> md_collate db' = md_collate db \<and> md_maps db' = md_maps db \<and> md_placements db' = md_placements db \<and> md_table db' = md_table db"

lemma same_data_refl [simp]: "same_data db db"
  and same_data_faults [simp]: "same_data db (db\<lparr>md_faults := fs\<rparr>)"
  and same_data_trans [trans]: "same_data a b \<Longrightarrow> same_data b c \<Longrightarrow> same_data a c"
  by (simp_all add: same_data_def)

definition no_lost_reply :: "mine_db \<Rightarrow> bool" where
  "no_lost_reply db \<longleftrightarrow> (\<forall>e. Reply_lost e \<notin> set (md_faults db))"

text \<open>A statement that keeps the list of faults to come.\<close>

definition keeps_faults :: "(mine_db \<Rightarrow> 'a \<times> mine_db) \<Rightarrow> bool" where
  "keeps_faults run \<longleftrightarrow> (\<forall>db. md_faults (snd (run db)) = md_faults db)"

lemma db_call_cases:
  assumes "db_call run db = (res, db')" "no_lost_reply db" "keeps_faults run"
  obtains (served) v where "res = Inr v" "run (db\<lparr>md_faults := tl (md_faults db)\<rparr>) = (v, db')" "no_lost_reply db'"
    | (refused) e where "res = Inl e" "db' = db\<lparr>md_faults := tl (md_faults db)\<rparr>" "no_lost_reply db'"
proof -
  have rest: "no_lost_reply (db\<lparr>md_faults := tl (md_faults db)\<rparr>)"
    using assms(2) by (cases "md_faults db") (auto simp: no_lost_reply_def)
  have kept: "no_lost_reply db'" if "run (db\<lparr>md_faults := tl (md_faults db)\<rparr>) = (v, db')" for v
    using assms(3) rest that by (auto simp: keeps_faults_def no_lost_reply_def dest: spec [where x = "db\<lparr>md_faults := tl (md_faults db)\<rparr>"])
  show thesis
  proof (cases "md_faults db")
    case Nil
    then show ?thesis using assms(1) kept
      by (auto simp: db_call_def Let_def split: prod.splits intro: served)
  next
    case (Cons f fs)
    then show ?thesis using assms(1,2) kept rest
      by (cases f) (auto simp: db_call_def Let_def no_lost_reply_def split: prod.splits intro: served refused)
  qed
qed

text \<open>With no lost reply, a retried statement takes effect exactly once, or not at all.\<close>

lemma reconnecting_once:
  assumes "reconnecting n rc run db = (res, db')" "no_lost_reply db" "keeps_faults run"
  shows "no_lost_reply db' \<and> (case res of
      Inl _ \<Rightarrow> same_data db db'
    | Inr v \<Rightarrow> \<exists>db1. same_data db db1 \<and> run db1 = (v, db'))"
  using assms
proof (induction n arbitrary: db)
  case (Suc n)
  obtain r1 db1 where c: "db_call run db = (r1, db1)" by fastforce
  show ?case
  proof (cases rule: db_call_cases [OF c Suc.prems(2,3)])
    case (1 v)
    then show ?thesis using Suc.prems(1) c by (auto intro!: exI [of _ "db\<lparr>md_faults := tl (md_faults db)\<rparr>"])
  next
    case (2 e)
    have d1: "same_data db db1" using 2 by simp
    show ?thesis
    proof (cases "e = OtherDbError \<or> \<not> rc \<or> n = 0")
      case True
      then show ?thesis using Suc.prems(1) c 2 d1 by (cases e) (auto split: if_splits)
    next
      case False
      obtain r2 db2 where c2: "db_call (\<lambda>db. ((), db)) db1 = (r2, db2)" by fastforce
      have kf: "keeps_faults (\<lambda>db. ((), db))" by (simp add: keeps_faults_def)
      have step: "(res, db') = (case r2 of Inl e \<Rightarrow> (Inl (DbRaised e), db2) | Inr _ \<Rightarrow> reconnecting n rc run db2)"
        using Suc.prems(1) c c2 2(1) False by (cases e) (auto split: sum.splits)
      show ?thesis
      proof (cases rule: db_call_cases [OF c2 2(3) kf])
        case inner: (1 v)
        then have d2: "same_data db db2" using d1 by (auto simp: same_data_def)
        have "reconnecting n rc run db2 = (res, db')" using step inner by simp
        from Suc.IH [OF this inner(3) Suc.prems(3)] show ?thesis
          using d2 by (auto split: sum.splits intro: same_data_trans)
      next
        case inner: (2 e')
        then show ?thesis using step d1 by (auto simp: same_data_def)
      qed
    qed
  qed
qed auto

lemma with_reconnect_read:
  assumes "with_reconnect rc (\<lambda>db. (q db, db)) db = (res, db')" "no_lost_reply db"
    and "\<And>db1. same_data db db1 \<Longrightarrow> q db1 = q db"
  shows "no_lost_reply db' \<and> same_data db db' \<and> (\<forall>v. res = Inr v \<longrightarrow> v = q db)"
proof -
  have "keeps_faults (\<lambda>db. (q db, db))" by (simp add: keeps_faults_def)
  from reconnecting_once [OF assms(1) [unfolded with_reconnect_def] assms(2) this]
  have "no_lost_reply db'"
    and r: "case res of Inl _ \<Rightarrow> same_data db db' | Inr v \<Rightarrow> \<exists>db1. same_data db db1 \<and> (q db1, db1) = (v, db')"
    by blast+
  then show ?thesis using assms(3) [of db'] by (cases res) auto
qed

lemma with_reconnect_flush:
  assumes "with_reconnect rc (flush_rows rows) db = (res, db')" "no_lost_reply db"
  shows "no_lost_reply db' \<and> md_table db' = (case res of Inl _ \<Rightarrow> md_table db | Inr _ \<Rightarrow> fold upsert_pair rows (md_table db))"
proof -
  have "keeps_faults (flush_rows rows)" by (simp add: keeps_faults_def flush_rows_def)
  from reconnecting_once [OF assms(1) [unfolded with_reconnect_def] assms(2) this]
  show ?thesis by (auto simp: flush_rows_def same_data_def split: sum.splits)
qed

lemma with_reconnect_no_faults:
  assumes "md_faults db = []"
  shows "with_reconnect rc run db = (Inr (fst (run db)), snd (run db))"
proof -
  have e: "db\<lparr>md_faults := []\<rparr> = db" using assms by simp
  have c: "db_call run db = (Inr (fst (run db)), snd (run db))"
    by (simp add: db_call_def Let_def assms e split_beta)
  have d: "DB_RETRIES = Suc 5" by (simp add: DB_RETRIES_def)
  show ?thesis unfolding with_reconnect_def d by (simp only: reconnecting.simps c prod.case sum.case)
qed

lemma select_same_data:
  "same_data db db1 \<Longrightarrow> select_maps env l db1 = select_maps env l db"
  "same_data db db1 \<Longrightarrow> select_placements mid db1 = select_placements mid db"
  by (simp_all add: same_data_def select_maps_def select_placements_def)

subsection \<open>Interning\<close>

definition name_index :: "string list \<Rightarrow> string \<Rightarrow> nat" where
  "name_index names n = the (map_of (zip names [0..<length names]) n)"

lemma name_index:
  assumes "distinct names" "n \<in> set names"
  shows "map_of (zip names [0..<length names]) n = Some (name_index names n)"
    and "name_index names n < length names" and "names ! name_index names n = n"
proof -
  obtain i where i: "i < length names" "names ! i = n" using assms(2) by (auto simp: in_set_conv_nth)
  have "(n, i) \<in> set (zip names [0..<length names])" using i by (auto simp: set_zip)
  then have m: "map_of (zip names [0..<length names]) n = Some i" using assms(1) by simp
  then have "name_index names n = i" by (simp add: name_index_def)
  with m i show "map_of (zip names [0..<length names]) n = Some (name_index names n)"
    "name_index names n < length names" "names ! name_index names n = n" by auto
qed

lemma name_index_append:
  assumes "distinct (names @ extra)" "n \<in> set names"
  shows "name_index (names @ extra) n = name_index names n"
  using name_index(2,3) [of names n] name_index(2,3) [of "names @ extra" n] assms
  by (auto simp: nth_append distinct_conv_nth in_set_conv_nth) (metis length_append nth_append trans_less_add1)

lemma update_absent: "map_of xs k = None \<Longrightarrow> AList.update k v xs = xs @ [(k, v)]"
  by (induction xs) (auto split: if_splits)

lemma intern_rows_ok:
  assumes "ids = zip names [0..<length names]" "distinct names" "length names \<le> MAX_TYPES"
  shows "case intern_rows rows ids names of
      Inl e \<Rightarrow> e = TooManyTypes \<and> MAX_TYPES < card (set names \<union> fst ` set rows)
    | Inr (ps, ids', names') \<Rightarrow> ids' = zip names' [0..<length names'] \<and> distinct names' \<and>
        length names' \<le> MAX_TYPES \<and> (\<exists>extra. names' = names @ extra) \<and> set names' = set names \<union> fst ` set rows \<and>
        ps = map (\<lambda>(n, r, c). (name_index names' n, r mod 4, c)) rows"
  using assms
proof (induction rows ids names rule: intern_rows.induct)
  case (2 name rotation c rows ids names)
  show ?case
  proof (cases "name \<in> set names")
    case True
    have look: "map_of ids name = Some (name_index names name)"
      using name_index(1) [OF 2(3) True] "2.prems"(1) by simp
    have "case intern_rows rows ids names of
      Inl e \<Rightarrow> e = TooManyTypes \<and> MAX_TYPES < card (set names \<union> fst ` set rows)
    | Inr (ps, ids', names') \<Rightarrow> ids' = zip names' [0..<length names'] \<and> distinct names' \<and>
        length names' \<le> MAX_TYPES \<and> (\<exists>extra. names' = names @ extra) \<and> set names' = set names \<union> fst ` set rows \<and>
        ps = map (\<lambda>(n, r, c). (name_index names' n, r mod 4, c)) rows"
      using "2.IH" [of "(name_index names name, ids, names)" "name_index names name" "(ids, names)" ids names]
        look "2.prems" by simp
    then show ?thesis
      using True look by (auto simp: insert_absorb name_index_append split: sum.splits)
  next
    case False
    have look: "map_of ids name = None" using False "2.prems"(1)
      by (auto simp: map_of_eq_None_iff dest: set_zip_leftD)
    show ?thesis
    proof (cases "MAX_TYPES \<le> length names")
      case full: True
      have "card (set names) = MAX_TYPES" using full "2.prems" by (simp add: distinct_card)
      moreover have "card (insert name (set names)) \<le> card (set names \<union> fst ` set ((name, rotation, c) # rows))"
        by (intro card_mono) auto
      ultimately show ?thesis using look full False by simp
    next
      case room: False
      let ?ids = "AList.update name (length names) ids" and ?names = "names @ [name]"
      have ids: "?ids = zip ?names [0..<length ?names]"
        using look "2.prems"(1) by (simp add: update_absent)
      have "case intern_rows rows ?ids ?names of
        Inl e \<Rightarrow> e = TooManyTypes \<and> MAX_TYPES < card (set ?names \<union> fst ` set rows)
      | Inr (ps, ids', names') \<Rightarrow> ids' = zip names' [0..<length names'] \<and> distinct names' \<and>
          length names' \<le> MAX_TYPES \<and> (\<exists>extra. names' = ?names @ extra) \<and> set names' = set ?names \<union> fst ` set rows \<and>
          ps = map (\<lambda>(n, r, c). (name_index names' n, r mod 4, c)) rows"
        using "2.IH" [of "(length names, ?ids, ?names)" "length names" "(?ids, ?names)" ?ids ?names]
          look look [unfolded "2.prems"(1)] room "2.prems" ids False by simp
      moreover have "name_index ?names name = length names"
        using name_index(2,3) [of ?names name] "2.prems"(2) False
        by (auto simp: nth_append split: if_splits) (metis nth_mem)
      moreover have "name_index (?names @ extra) name = name_index ?names name"
        if "distinct (?names @ extra)" for extra using name_index_append [OF that] by simp
      ultimately show ?thesis
        using look room by (auto split: sum.splits)
    qed
  qed
qed (simp add: name_index_def)

subsection \<open>What the scan computes\<close>

text \<open>The reference: the observed pairs of one map by block names.\<close>

type_synonym pair_name = "string \<times> string \<times> int \<times> cell"

definition observed_pairs :: "int \<Rightarrow> int \<Rightarrow> placed_row list \<Rightarrow> pair_name list" where
  "observed_pairs rxz ry rows =
     concat (map (\<lambda>a. map (\<lambda>b. (fst (rows ! a), fst (rows ! b),
         (fst (snd (rows ! b)) - fst (snd (rows ! a))) mod 4,
         rotate_vector (sub (snd (snd (rows ! b))) (snd (snd (rows ! a)))) ((4 - fst (snd (rows ! a))) mod 4)))
       (filter (\<lambda>b. a \<noteq> b \<and> near rxz ry (sub (snd (snd (rows ! b))) (snd (snd (rows ! a)))))
         [0..<length rows])) [0..<length rows])"

definition row_fits :: "int \<Rightarrow> int \<Rightarrow> placed_row \<Rightarrow> bool" where
  "row_fits rxz ry r \<longleftrightarrow> \<bar>fst (snd (snd r))\<bar> + rxz < 2 ^ 19 \<and> \<bar>fst (snd (snd (snd r)))\<bar> + ry < 2 ^ 19 \<and>
     \<bar>snd (snd (snd (snd r)))\<bar> + rxz < 2 ^ 19"

definition valid_pair :: "int \<Rightarrow> int \<Rightarrow> string list \<Rightarrow> pair_name \<Rightarrow> bool" where
  "valid_pair rxz ry names = (\<lambda>(a, b, rel, d).
     a \<in> set names \<and> b \<in> set names \<and> 0 \<le> rel \<and> rel < 4 \<and> near rxz ry d)"

definition packed :: "int \<Rightarrow> int \<Rightarrow> string list \<Rightarrow> pair_name \<Rightarrow> int" where
  "packed rxz ry names = (\<lambda>(a, b, rel, d).
     pack_tuple (table_offsets rxz ry) (name_index names a, name_index names b, rel, d))"

lemma set_observed_pairs:
  assumes "q \<in> set (observed_pairs rxz ry rows)" "fst ` set rows \<subseteq> set names"
  shows "valid_pair rxz ry names q"
  using assms by (auto simp: observed_pairs_def valid_pair_def near_rotate)

lemma table_small:
  assumes "0 \<le> rxz" "0 \<le> ry" "(2 * rxz + 1) ^ 2 * (2 * ry + 1) \<le> 2 ^ 27"
  shows "length (table_offsets rxz ry) \<le> 2 ^ 27"
proof -
  have "int (length (table_offsets rxz ry)) = (2 * rxz + 1) ^ 2 * (2 * ry + 1)"
    using assms(1,2)
    by (simp add: table_offsets_def length_concat comp_def sum_list_const_mult sum_list_triv power2_eq_square algebra_simps)
  then have "int (length (table_offsets rxz ry)) \<le> int (2 ^ 27)" using assms(3) by simp
  then show ?thesis by (simp only: of_nat_le_iff)
qed

lemma unpack_packed:
  assumes "distinct names" "length names \<le> MAX_TYPES" "length (table_offsets rxz ry) \<le> 2 ^ 27"
    "valid_pair rxz ry names (a, b, rel, d)"
  shows "unpack_key (packed rxz ry names (a, b, rel, d)) (int (length (table_offsets rxz ry))) =
    (name_index names a, name_index names b, rel, offset_index (table_offsets rxz ry) d)"
proof -
  have v: "a \<in> set names" "b \<in> set names" "0 \<le> rel" "rel < 4" "d \<in> set (table_offsets rxz ry)"
    using assms(4) by (simp_all add: valid_pair_def set_table_offsets)
  show ?thesis
    using unpack_pack [of "name_index names a" "name_index names b" rel "offset_index (table_offsets rxz ry) d"
        "length (table_offsets rxz ry)"] name_index(2) [OF assms(1) v(1)] name_index(2) [OF assms(1) v(2)]
      offset_index(2) [OF distinct_table_offsets v(5)] v(3,4) assms(2,3)
    by (simp add: packed_def pack_tuple_def)
qed

lemma packed_inj:
  assumes "distinct names" "length names \<le> MAX_TYPES" "length (table_offsets rxz ry) \<le> 2 ^ 27"
  shows "inj_on (packed rxz ry names) {q. valid_pair rxz ry names q}"
proof (rule inj_onI)
  fix q q' :: pair_name
  assume q: "q \<in> {q. valid_pair rxz ry names q}" "q' \<in> {q. valid_pair rxz ry names q}"
    "packed rxz ry names q = packed rxz ry names q'"
  obtain a b rel d a' b' rel' d' where qs: "q = (a, b, rel, d)" "q' = (a', b', rel', d')"
    by (metis prod.exhaust)
  with q have v: "valid_pair rxz ry names (a, b, rel, d)" "valid_pair rxz ry names (a', b', rel', d')"
    and e: "packed rxz ry names (a, b, rel, d) = packed rxz ry names (a', b', rel', d')" by auto
  from unpack_packed [OF assms v(1)] unpack_packed [OF assms v(2)] e
  have eqs: "name_index names a = name_index names a'" "name_index names b = name_index names b'" "rel = rel'"
    "offset_index (table_offsets rxz ry) d = offset_index (table_offsets rxz ry) d'" by auto
  have m: "a \<in> set names" "b \<in> set names" "a' \<in> set names" "b' \<in> set names"
    "d \<in> set (table_offsets rxz ry)" "d' \<in> set (table_offsets rxz ry)"
    using v by (simp_all add: valid_pair_def set_table_offsets)
  have "a = a'" "b = b'" using name_index(3) [OF assms(1)] m eqs by metis+
  moreover have "d = d'" using offset_index(3) [OF distinct_table_offsets] m(5,6) eqs(4) by metis
  ultimately show "q = q'" using eqs(3) qs by simp
qed

lemma count_list_map_inj:
  "inj_on f A \<Longrightarrow> set xs \<subseteq> A \<Longrightarrow> x \<in> A \<Longrightarrow> count_list (map f xs) (f x) = count_list xs x"
  by (induction xs) (auto simp: inj_on_eq_iff)

text \<open>The keys of a map are its observed pairs, packed.\<close>

lemma interned_pairs:
  assumes "distinct names" "fst ` set rows \<subseteq> set names"
    and ps: "ps = map (\<lambda>(n, r, c). (name_index names n, r mod 4, c)) rows"
  shows "map (pack_tuple (table_offsets rxz ry)) (neighbour_pairs rxz ry ps) =
    map (packed rxz ry names) (observed_pairs rxz ry rows)"
proof -
  have len: "length ps = length rows" by (simp add: ps)
  have nth: "fst (ps ! i) = name_index names (fst (rows ! i)) \<and> fst (snd (ps ! i)) = fst (snd (rows ! i)) mod 4 \<and>
      snd (snd (ps ! i)) = snd (snd (rows ! i))" if "i < length rows" for i
    using that by (simp add: ps split_def)
  have rel: "((r' mod 4) - (r mod 4)) mod 4 = (r' - r) mod (4 :: int)" for r r'
    by (simp add: mod_diff_eq)
  have turn: "(4 - r mod 4) mod 4 = (4 - r) mod (4 :: int)" for r by presburger
  have "pack_tuple (table_offsets rxz ry) (pair_tuple_of ps a b) = packed rxz ry names (fst (rows ! a), fst (rows ! b),
         (fst (snd (rows ! b)) - fst (snd (rows ! a))) mod 4,
         rotate_vector (sub (snd (snd (rows ! b))) (snd (snd (rows ! a)))) ((4 - fst (snd (rows ! a))) mod 4))"
    if "a < length rows" "b < length rows" for a b
    using nth [OF that(1)] nth [OF that(2)] by (simp add: pair_tuple_of_def packed_def rel turn mod_minus_eq)
  moreover have "filter (\<lambda>b. a \<noteq> b \<and> near rxz ry (sub (snd (snd (ps ! b))) (snd (snd (ps ! a))))) [0..<length rows] =
      filter (\<lambda>b. a \<noteq> b \<and> near rxz ry (sub (snd (snd (rows ! b))) (snd (snd (rows ! a))))) [0..<length rows]"
    if "a < length rows" for a using nth that by (intro filter_cong) auto
  ultimately show ?thesis
    unfolding neighbour_pairs_def observed_pairs_def len map_concat map_map
    by (intro arg_cong [where f = concat] map_cong [OF refl]) (auto simp: comp_def intro!: map_cong)
qed

text \<open>The state after some maps, in terms of the observed pairs of these maps.\<close>

definition scan_ok :: "int \<Rightarrow> int \<Rightarrow> placed_row list list \<Rightarrow> scan_state \<Rightarrow> bool" where
  "scan_ok rxz ry corpus st \<longleftrightarrow>
     sc_type_ids st = zip (sc_type_names st) [0..<length (sc_type_names st)] \<and>
     distinct (sc_type_names st) \<and> length (sc_type_names st) \<le> MAX_TYPES \<and>
     set (sc_type_names st) = (\<Union>rows \<in> set corpus. fst ` set rows) \<and>
     counter_ok (sc_counter st) \<and>
     keys_seen (sc_counter st) = packed rxz ry (sc_type_names st) ` (\<Union>rows \<in> set corpus. set (observed_pairs rxz ry rows)) \<and>
     (\<forall>q. valid_pair rxz ry (sc_type_names st) q \<longrightarrow>
        pairs_seen (sc_counter st) (packed rxz ry (sc_type_names st) q) =
          (\<Sum>rows\<leftarrow>corpus. count_list (observed_pairs rxz ry rows) q) \<and>
        maps_seen (sc_counter st) (packed rxz ry (sc_type_names st) q) =
          length (filter (\<lambda>rows. q \<in> set (observed_pairs rxz ry rows)) corpus)) \<and>
     sc_report st = grammar_report_init\<lparr>gp_maps_seen := length corpus,
        gp_placements_seen := (\<Sum>rows\<leftarrow>corpus. length rows),
        gp_pairs_counted := (\<Sum>rows\<leftarrow>corpus. length (observed_pairs rxz ry rows))\<rparr>"

lemma scan_init_ok: "scan_ok rxz ry [] scan_init"
  by (simp add: scan_ok_def scan_init_def counter_init_ok grammar_report_init_def)

lemma seen_outside:
  assumes "counter_ok c" "k \<notin> keys_seen c"
  shows "pairs_seen c k = 0" "maps_seen c k = 0"
  using assms by (auto simp: keys_seen_def pairs_seen_def maps_seen_def total_at_notin count_list_0_iff)

lemma packed_append:
  assumes "distinct (names @ extra)" "valid_pair rxz ry names q"
  shows "packed rxz ry (names @ extra) q = packed rxz ry names q"
  using assms by (auto simp: packed_def valid_pair_def name_index_append split: prod.splits)

lemma sum_list_counts: "(\<Sum>k\<leftarrow>sort (remdups ks). count_list ks k) = length ks" for ks :: "int list"
proof -
  have "(\<Sum>k\<leftarrow>sort (remdups ks). count_list ks k) = (\<Sum>k \<in> set ks. count_list ks k)"
    by (metis (no_types, lifting) distinct_remdups distinct_sort set_remdups set_sort sum_list_distinct_conv_sum_set)
  then show ?thesis by (simp add: sum_count_set)
qed

lemma scan_map_ok:
  assumes "numpy_documented np" and tbl: "offset_table_of rxz ry = Inr tbl"
    and small: "length (table_offsets rxz ry) \<le> 2 ^ 27"
    and ok: "scan_ok rxz ry corpus st" and fits: "\<forall>r \<in> set rows. row_fits rxz ry r"
  shows "case scan_map np tbl rows st of
      Inl e \<Rightarrow> e = TooManyTypes \<and> MAX_TYPES < card (\<Union>rows \<in> set (corpus @ [rows]). fst ` set rows)
    | Inr st' \<Rightarrow> scan_ok rxz ry (corpus @ [rows]) st'"
proof (cases "rows = []")
  case True
  have "observed_pairs rxz ry [] = []" by (simp add: observed_pairs_def)
  then show ?thesis using True ok
    by (auto simp: scan_map_def Let_def scan_ok_def)
next
  case False
  let ?names = "sc_type_names st" and ?obs = "observed_pairs rxz ry"
  have st: "sc_type_ids st = zip ?names [0..<length ?names]" "distinct ?names" "length ?names \<le> MAX_TYPES"
    "set ?names = (\<Union>rows \<in> set corpus. fst ` set rows)" "counter_ok (sc_counter st)"
    "keys_seen (sc_counter st) = packed rxz ry ?names ` (\<Union>rows \<in> set corpus. set (?obs rows))"
    and seen: "\<And>q. valid_pair rxz ry ?names q \<Longrightarrow>
        pairs_seen (sc_counter st) (packed rxz ry ?names q) = (\<Sum>rows\<leftarrow>corpus. count_list (?obs rows) q) \<and>
        maps_seen (sc_counter st) (packed rxz ry ?names q) = length (filter (\<lambda>rows. q \<in> set (?obs rows)) corpus)"
    and rep: "sc_report st = grammar_report_init\<lparr>gp_maps_seen := length corpus,
        gp_placements_seen := (\<Sum>rows\<leftarrow>corpus. length rows),
        gp_pairs_counted := (\<Sum>rows\<leftarrow>corpus. length (?obs rows))\<rparr>"
    using ok unfolding scan_ok_def by blast+
  note io = intern_rows_ok [OF st(1-3), of rows]
  show ?thesis
  proof (cases "intern_rows rows (sc_type_ids st) ?names")
    case (Inl e)
    then show ?thesis using io st(4) False by (simp add: scan_map_def Let_def Un_commute)
  next
    case (Inr res)
    obtain ps ids names where res: "res = (ps, ids, names)" by (cases res)
    obtain extra where n: "ids = zip names [0..<length names]" "distinct names" "length names \<le> MAX_TYPES"
      "names = ?names @ extra" "set names = set ?names \<union> fst ` set rows"
      and ps: "ps = map (\<lambda>(n, r, c). (name_index names n, r mod 4, c)) rows"
      using io Inr res by auto
    have in_names: "fst ` set rows \<subseteq> set names" using n(5) by simp
    have typed: "\<forall>p \<in> set ps. typed_ok rxz ry p"
    proof
      fix p assume "p \<in> set ps"
      then obtain nm r c where row: "(nm, r, c) \<in> set rows" and p: "p = (name_index names nm, r mod 4, c)"
        unfolding ps by auto
      have "nm \<in> set names" using row in_names by force
      then have "name_index names nm < MAX_TYPES" using name_index(2) [OF n(2)] n(3) by fastforce
      then show "typed_ok rxz ry p" using fits row p by (force simp: typed_ok_def row_fits_def)
    qed
    define K where "K = map (packed rxz ry names) (?obs rows)"
    have "map (pack_tuple (table_offsets rxz ry)) (neighbour_pairs rxz ry ps) = K"
      unfolding K_def by (rule interned_pairs [OF n(2) in_names ps])
    then have mp: "map_pairs np ps tbl = (sort (remdups K), map (count_list K) (sort (remdups K)))"
      using map_pairs_eq [OF assms(1) typed tbl] by simp
    obtain c where c: "counter_add np (sort (remdups K), map (count_list K) (sort (remdups K))) (sc_counter st) = Inr c"
      "counter_ok c" "pairs_seen c = (\<lambda>k. pairs_seen (sc_counter st) k + total_at k (sort (remdups K)) (map (count_list K) (sort (remdups K))))"
      "maps_seen c = (\<lambda>k. maps_seen (sc_counter st) k + (if k \<in> set (sort (remdups K)) then 1 else 0))"
      "keys_seen c = keys_seen (sc_counter st) \<union> set (sort (remdups K))"
      using counter_add_ok [OF assms(1) st(5), of "sort (remdups K)" "map (count_list K) (sort (remdups K))"] by auto
    have counted: "total_at k (sort (remdups K)) (map (count_list K) (sort (remdups K))) = count_list K k" for k
      by (simp add: total_at_distinct count_notin)
    have inj: "inj_on (packed rxz ry names) {q. valid_pair rxz ry names q}"
      by (rule packed_inj [OF n(2,3) small])
    have obs_valid: "set (?obs rows) \<subseteq> {q. valid_pair rxz ry names q}"
      using set_observed_pairs [OF _ in_names] by auto
    have old_valid: "valid_pair rxz ry ?names q" if "q \<in> set (?obs rows')" "rows' \<in> set corpus" for q rows'
      using set_observed_pairs [OF that(1)] that(2) st(4) by blast
    have keep: "packed rxz ry names q = packed rxz ry ?names q" if "valid_pair rxz ry ?names q" for q
      using packed_append [of ?names extra] n(2,4) that by simp
    have wider: "valid_pair rxz ry names q" if "valid_pair rxz ry ?names q" for q
      using that n(4) by (auto simp: valid_pair_def)
    have keys: "keys_seen c = packed rxz ry names ` (\<Union>rows \<in> set (corpus @ [rows]). set (?obs rows))"
    proof -
      have "keys_seen (sc_counter st) = packed rxz ry names ` (\<Union>rows \<in> set corpus. set (?obs rows))"
        unfolding st(6) using keep old_valid by (intro image_cong) auto
      then show ?thesis by (simp add: c(5) K_def image_Un Un_commute)
    qed
    have totals: "pairs_seen c (packed rxz ry names q) = (\<Sum>rows\<leftarrow>corpus @ [rows]. count_list (?obs rows) q) \<and>
        maps_seen c (packed rxz ry names q) = length (filter (\<lambda>rows. q \<in> set (?obs rows)) (corpus @ [rows]))"
      if v: "valid_pair rxz ry names q" for q
    proof -
      have now: "count_list K (packed rxz ry names q) = count_list (?obs rows) q"
        unfolding K_def by (rule count_list_map_inj [OF inj obs_valid]) (simp add: v)
      have now': "packed rxz ry names q \<in> set K \<longleftrightarrow> q \<in> set (?obs rows)"
        unfolding K_def using inj_on_image_mem_iff [OF inj _ obs_valid, of q] v by simp
      have before: "pairs_seen (sc_counter st) (packed rxz ry names q) = (\<Sum>rows\<leftarrow>corpus. count_list (?obs rows) q) \<and>
        maps_seen (sc_counter st) (packed rxz ry names q) = length (filter (\<lambda>rows. q \<in> set (?obs rows)) corpus)"
      proof (cases "valid_pair rxz ry ?names q")
        case True
        then show ?thesis using seen keep by simp
      next
        case False
        then have absent: "q \<notin> set (?obs rows')" if "rows' \<in> set corpus" for rows'
          using old_valid that by blast
        have "packed rxz ry names q \<notin> keys_seen (sc_counter st)"
        proof
          assume "packed rxz ry names q \<in> keys_seen (sc_counter st)"
          then obtain q' rows' where q': "rows' \<in> set corpus" "q' \<in> set (?obs rows')"
            "packed rxz ry names q = packed rxz ry ?names q'" unfolding st(6) by auto
          then have "packed rxz ry names q = packed rxz ry names q'" using keep old_valid by metis
          then have "q = q'" using inj v wider [OF old_valid [OF q'(2,1)]] by (auto dest: inj_onD)
          then show False using absent q' by blast
        qed
        then show ?thesis using seen_outside [OF st(5)] absent
          by (auto simp: count_notin filter_empty_conv intro!: sum_list_0 [symmetric])
      qed
      show ?thesis
        using now now' before by (simp add: c(3,4) counted)
    qed
    have pairs_here: "sum_list (map (count_list K) (sort (remdups K))) = length (?obs rows)"
      using sum_list_counts [of K] by (simp add: K_def)
    have "scan_map np tbl rows st = Inr \<lparr>sc_type_ids = ids, sc_type_names = names, sc_counter = c,
        sc_report = grammar_report_init\<lparr>gp_maps_seen := length (corpus @ [rows]),
        gp_placements_seen := (\<Sum>rows\<leftarrow>corpus @ [rows]. length rows),
        gp_pairs_counted := (\<Sum>rows\<leftarrow>corpus @ [rows]. length (?obs rows))\<rparr>\<rparr>"
      using False Inr c(1) pairs_here
      by (simp add: scan_map_def Let_def res mp rep grammar_report_init_def)
    moreover have "set names = (\<Union>rows \<in> set (corpus @ [rows]). fst ` set rows)"
      using n(5) st(4) by auto
    ultimately show ?thesis
      using n(1,2,3) c(2) keys totals by (simp add: scan_ok_def)
  qed
qed

lemma scan_corpus_ok:
  assumes "numpy_documented np" "offset_table_of rxz ry = Inr tbl" "length (table_offsets rxz ry) \<le> 2 ^ 27"
    and "scan_ok rxz ry corpus st" "no_lost_reply db"
    and "\<forall>i \<in> set ids. \<forall>r \<in> set (select_placements i db). row_fits rxz ry r"
    and "scan_corpus np rc tbl ids st db = (res, db')"
  shows "no_lost_reply db' \<and> same_data db db' \<and>
    (case res of
       Inr st' \<Rightarrow> scan_ok rxz ry (corpus @ map (\<lambda>i. select_placements i db) ids) st'
     | Inl e \<Rightarrow> md_faults db = [] \<longrightarrow> e = TooManyTypes \<and>
         MAX_TYPES < card (\<Union>rows \<in> set (corpus @ map (\<lambda>i. select_placements i db) ids). fst ` set rows)) \<and>
    (md_faults db = [] \<longrightarrow> md_faults db' = [])"
  using assms(4-7)
proof (induction ids arbitrary: corpus st db)
  case (Cons i ids)
  let ?q = "\<lambda>db. select_placements i db"
  obtain r1 db1 where c: "with_reconnect rc (\<lambda>db. (?q db, db)) db = (r1, db1)" by fastforce
  have rd: "no_lost_reply db1" "same_data db db1" "\<And>v. r1 = Inr v \<Longrightarrow> v = ?q db"
    using with_reconnect_read [OF c Cons.prems(2)] select_same_data(2) by blast+
  have nf: "md_faults db = [] \<Longrightarrow> r1 = Inr (?q db) \<and> db1 = db"
    using with_reconnect_no_faults [of db rc "\<lambda>db. (?q db, db)"] c by simp
  show ?case
  proof (cases r1)
    case (Inl e)
    then show ?thesis using Cons.prems(4) c rd nf by auto
  next
    case (Inr rows)
    then have rows: "rows = ?q db" using rd(3) by simp
    have step: "case scan_map np tbl rows st of
        Inl e \<Rightarrow> e = TooManyTypes \<and> MAX_TYPES < card (\<Union>rows \<in> set (corpus @ [rows]). fst ` set rows)
      | Inr st' \<Rightarrow> scan_ok rxz ry (corpus @ [rows]) st'"
      using Cons.prems(3) rows by (intro scan_map_ok [OF assms(1-3) Cons.prems(1)]) auto
    show ?thesis
    proof (cases "scan_map np tbl rows st")
      case (Inl e)
      have grow: "card (\<Union>rows \<in> set (corpus @ [rows]). fst ` set rows) \<le>
          card (\<Union>rows \<in> set (corpus @ map (\<lambda>i. select_placements i db) (i # ids)). fst ` set rows)"
        by (rule card_mono) (auto simp: rows)
      have se: "e = TooManyTypes" "MAX_TYPES < card (\<Union>rows \<in> set (corpus @ [rows]). fst ` set rows)"
        using step Inl by simp_all
      have "res = Inl e" "db' = db1" using Cons.prems(4) c Inr Inl by simp_all
      moreover have "md_faults db = [] \<longrightarrow> md_faults db1 = []" using nf by simp
      ultimately show ?thesis using rd(1,2) se(1) less_le_trans [OF se(2) grow] by (simp only: sum.case) blast
    next
      case inner: (Inr st1)
      have "scan_corpus np rc tbl ids st1 db1 = (res, db')" using Cons.prems(4) c Inr inner by simp
      moreover have "\<forall>i \<in> set ids. \<forall>r \<in> set (select_placements i db1). row_fits rxz ry r"
        using Cons.prems(3) select_same_data(2) [OF rd(2)] by auto
      ultimately have IH: "no_lost_reply db' \<and> same_data db1 db' \<and>
        (case res of
           Inr st' \<Rightarrow> scan_ok rxz ry ((corpus @ [rows]) @ map (\<lambda>i. select_placements i db1) ids) st'
         | Inl e \<Rightarrow> md_faults db1 = [] \<longrightarrow> e = TooManyTypes \<and>
             MAX_TYPES < card (\<Union>rows \<in> set ((corpus @ [rows]) @ map (\<lambda>i. select_placements i db1) ids). fst ` set rows)) \<and>
        (md_faults db1 = [] \<longrightarrow> md_faults db' = [])"
        using step inner rd(1) by (intro Cons.IH) auto
      have eq: "(corpus @ [rows]) @ map (\<lambda>i. select_placements i db1) ids =
          corpus @ map (\<lambda>i. select_placements i db) (i # ids)"
        using select_same_data(2) [OF rd(2)] by (simp add: rows)
      have "md_faults db = [] \<Longrightarrow> md_faults db1 = []" using nf by simp
      then show ?thesis
        using IH [unfolded eq] same_data_trans [OF rd(2)] by (cases res) (simp_all only: sum.case, blast+)
    qed
  qed
qed auto

subsection \<open>What is written\<close>

definition clip_answer :: "write_env \<Rightarrow> nat \<times> nat \<times> int \<times> nat \<Rightarrow> bool" where
  "clip_answer env = (\<lambda>(ta, tb, rel, oi).
     clips_meet (we_ports env) (we_names env ! ta) (we_names env ! tb) (we_offsets env ! oi) rel)"

definition cache_ok :: "write_env \<Rightarrow> clip_cache \<Rightarrow> bool" where
  "cache_ok env cache \<longleftrightarrow> (\<forall>t m. map_of cache t = Some m \<longrightarrow> m = clip_answer env t)"

text \<open>The row of a key, and the class it is counted in.\<close>

definition row_of :: "write_env \<Rightarrow> int \<times> nat \<times> nat \<Rightarrow> string \<times> pair_row" where
  "row_of env = (\<lambda>(k, p, m). fst (write_key env k p m [] grammar_report_init))"

datatype row_class = Matched_row | Overlay_row | Gap_row | Plain_row

definition class_of :: "pair_row \<Rightarrow> row_class" where
  "class_of row = (if pr_clip_matched row then Matched_row else if pr_offset row = (0, 0, 0) then Overlay_row
     else if max \<bar>fst (pr_offset row)\<bar> \<bar>snd (snd (pr_offset row))\<bar> > 1 then Gap_row else Plain_row)"

definition class_count :: "row_class \<Rightarrow> (string \<times> pair_row) list \<Rightarrow> nat" where
  "class_count c rows = length (filter (\<lambda>p. class_of (snd p) = c) rows)"

definition report_rows :: "grammar_report \<Rightarrow> (string \<times> pair_row) list \<Rightarrow> grammar_report" where
  "report_rows r rows = r\<lparr>gp_rows_written := gp_rows_written r + length rows,
     gp_clip_matched_rows := gp_clip_matched_rows r + class_count Matched_row rows,
     gp_gap_rows := gp_gap_rows r + class_count Gap_row rows,
     gp_overlay_rows := gp_overlay_rows r + class_count Overlay_row rows\<rparr>"

lemma write_key_eq:
  assumes "cache_ok env cache"
  shows "\<exists>cache'. write_key env k p m cache r = (row_of env (k, p, m), cache', report_rows r [row_of env (k, p, m)]) \<and>
    cache_ok env cache'"
proof -
  obtain ta tb rel oi where u: "unpack_key k (int (length (we_offsets env))) = (ta, tb, rel, oi)"
    by (metis prod.exhaust)
  let ?t = "(ta, tb, rel, oi)"
  have m: "clips_meet (we_ports env) (we_names env ! ta) (we_names env ! tb) (we_offsets env ! oi) rel = clip_answer env ?t"
    by (simp add: clip_answer_def)
  have "cache_ok env (AList.update ?t (clip_answer env ?t) cache)"
    using assms by (auto simp: cache_ok_def update_conv')
  moreover have "map_of cache ?t = Some v \<Longrightarrow> v = clip_answer env ?t" for v
    using assms by (simp add: cache_ok_def)
  ultimately show ?thesis
    using assms
    by (cases "map_of cache ?t")
      (auto simp: write_key_def row_of_def u Let_def m report_rows_def class_count_def class_of_def)
qed

lemma report_rows_append: "report_rows (report_rows r xs) ys = report_rows r (xs @ ys)"
  by (simp add: report_rows_def class_count_def)

lemma report_rows_Nil: "report_rows r [] = r"
  by (simp add: report_rows_def class_count_def)

lemma write_keys_ok:
  assumes "cache_ok env cache" "no_lost_reply db"
  shows "case write_keys env rc keys batch cache r db of (res, db') \<Rightarrow>
    (\<forall>r'. res = Inr r' \<longrightarrow> md_table db' = fold upsert_pair (batch @ map (row_of env) keys) (md_table db) \<and>
       r' = report_rows r (map (row_of env) keys)) \<and>
    (md_faults db = [] \<longrightarrow> (\<exists>r'. res = Inr r'))"
  using assms
proof (induction keys arbitrary: batch cache r db)
  case Nil
  show ?case
  proof (cases "batch = []")
    case False
    obtain r1 db1 where c: "with_reconnect rc (flush_rows batch) db = (r1, db1)" by fastforce
    show ?thesis
      using with_reconnect_flush [OF c Nil.prems(2)] with_reconnect_no_faults [of db rc "flush_rows batch"] c False
      by (auto simp: report_rows_Nil split: sum.splits)
  qed (simp add: report_rows_Nil)
next
  case (Cons key keys)
  obtain k p m where key: "key = (k, p, m)" by (cases key)
  obtain cache' where w: "write_key env k p m cache r = (row_of env key, cache', report_rows r [row_of env key])"
    and ok: "cache_ok env cache'" using write_key_eq [OF Cons.prems(1), of k p m r] key by auto
  show ?case
  proof (cases "BATCH_ROWS \<le> length (batch @ [row_of env key])")
    case False
    have e: "write_keys env rc (key # keys) batch cache r db =
        write_keys env rc keys (batch @ [row_of env key]) cache' (report_rows r [row_of env key]) db"
      using False w by (simp add: key)
    show ?thesis
      using Cons.IH [OF ok Cons.prems(2), of "batch @ [row_of env key]" "report_rows r [row_of env key]"]
      unfolding e by (auto simp: report_rows_append split: prod.splits)
  next
    case True
    let ?b = "batch @ [row_of env key]"
    obtain r1 db1 where c: "with_reconnect rc (flush_rows ?b) db = (r1, db1)" by fastforce
    note fl = with_reconnect_flush [OF c Cons.prems(2)]
    have nf: "md_faults db = [] \<Longrightarrow> r1 = Inr () \<and> md_faults db1 = []"
      using with_reconnect_no_faults [of db rc "flush_rows ?b"] c by (auto simp: flush_rows_def)
    show ?thesis
    proof (cases r1)
      case (Inl e)
      then show ?thesis using True w c nf by (auto simp: key)
    next
      case (Inr v)
      have e: "write_keys env rc (key # keys) batch cache r db =
          write_keys env rc keys [] cache' (report_rows r [row_of env key]) db1"
        using True w c Inr by (simp add: key)
      show ?thesis
        using Cons.IH [OF ok, of db1 "[]" "report_rows r [row_of env key]"] fl Inr nf
        unfolding e by (auto simp: report_rows_append split: prod.splits)
    qed
  qed
qed

text \<open>A batch of rows with distinct signatures.\<close>

definition merged_row :: "pair_row option \<Rightarrow> pair_row \<Rightarrow> pair_row" where
  "merged_row old row = (case old of None \<Rightarrow> row | Some prev \<Rightarrow>
     prev\<lparr>pr_pair_count := pr_pair_count prev + pr_pair_count row, pr_map_count := pr_map_count prev + pr_map_count row,
       pr_version := pr_version row\<rparr>)"

lemma upsert_lookup:
  "map_of (upsert_pair (s, row) table) t = (if t = s then Some (merged_row (map_of table s) row) else map_of table t)"
  by (auto simp: upsert_pair_def merged_row_def update_conv' split: option.splits)

lemma fold_upsert_lookup:
  "distinct (map fst rows) \<Longrightarrow> map_of (fold upsert_pair rows table) t =
    (case map_of rows t of None \<Rightarrow> map_of table t | Some row \<Rightarrow> Some (merged_row (map_of table t) row))"
proof (induction rows arbitrary: table)
  case (Cons p rows)
  obtain s row where p: "p = (s, row)" by fastforce
  have "map_of rows s = None" using Cons.prems p by (simp add: map_of_eq_None_iff)
  then show ?case using Cons by (auto simp: p upsert_lookup split: option.splits)
qed simp

subsection \<open>Payloads of signatures\<close>

definition undigits :: "string \<Rightarrow> nat" where
  "undigits s = foldl (\<lambda>a c. 10 * a + (of_char c - 48)) 0 s"

lemma digit_char: "d < 10 \<Longrightarrow> (of_char (char_of (48 + d) :: char) :: nat) = 48 + d"
  by (simp add: of_char_mod_256)

lemma undigits_digits: "undigits (digits_of n) = n"
proof (induction n rule: digits_of.induct)
  case (1 n)
  show ?case
  proof (cases "n < 10")
    case True
    then show ?thesis by (subst digits_of.simps) (simp add: undigits_def digit_char)
  next
    case False
    then have "undigits (digits_of (n div 10) @ [char_of (48 + n mod 10)]) = n"
      using 1 by (simp add: undigits_def digit_char)
    then show ?thesis using False by (subst digits_of.simps) simp
  qed
qed

lemma digits_range: "c \<in> set (digits_of n) \<Longrightarrow> 48 \<le> (of_char c :: nat) \<and> (of_char c :: nat) < 58"
proof (induction n rule: digits_of.induct)
  case (1 n)
  show ?case
  proof (cases "n < 10")
    case True
    then show ?thesis using "1.prems" by (subst (asm) digits_of.simps) (auto simp: digit_char)
  next
    case False
    then have "c \<in> set (digits_of (n div 10)) \<or> c = char_of (48 + n mod 10)"
      using "1.prems" by (subst (asm) digits_of.simps) auto
    moreover have "n mod 10 < 10" by simp
    ultimately show ?thesis using 1 False digit_char [of "n mod 10"] by auto
  qed
qed

lemma py_str_int_inj: "py_str_int i = py_str_int j \<Longrightarrow> i = j"
proof -
  have sign: "CHR ''-'' # s \<noteq> digits_of n" for s n
  proof
    assume "CHR ''-'' # s = digits_of n"
    then have "CHR ''-'' \<in> set (digits_of n)" by (metis list.set_intros(1))
    then show False using digits_range by fastforce
  qed
  have inj: "digits_of m = digits_of n \<Longrightarrow> m = n" for m n by (metis undigits_digits)
  assume "py_str_int i = py_str_int j"
  then show "i = j"
    using sign sign [symmetric] by (auto simp: py_str_int_def dest!: inj split: if_splits)
qed

lemma no_bar_int: "CHR ''|'' \<notin> set (py_str_int i)"
  by (auto simp: py_str_int_def dest: digits_range)

lemma bar_split:
  assumes "CHR ''|'' \<notin> set p" "CHR ''|'' \<notin> set q" "p @ CHR ''|'' # r = q @ CHR ''|'' # s"
  shows "p = q \<and> r = s"
  using assms
proof (induction p arbitrary: q)
  case Nil
  then show ?case by (cases q) auto
next
  case (Cons c p)
  then show ?case by (cases q) auto
qed

lemma pair_payload_inj:
  assumes "CHR ''|'' \<notin> set a" "CHR ''|'' \<notin> set b" "CHR ''|'' \<notin> set a'" "CHR ''|'' \<notin> set b'"
    and "pair_payload a b d rel env = pair_payload a' b' d' rel' env"
  shows "a = a' \<and> b = b' \<and> d = d' \<and> rel = rel'"
proof -
  let ?r5 = "\<lambda>rel. py_str_int rel @ CHR ''|'' # env"
  let ?r4 = "\<lambda>d rel. py_str_int (snd (snd d)) @ CHR ''|'' # ?r5 rel"
  let ?r3 = "\<lambda>d rel. py_str_int (fst (snd d)) @ CHR ''|'' # ?r4 d rel"
  let ?r2 = "\<lambda>d rel. py_str_int (fst d) @ CHR ''|'' # ?r3 d rel"
  have "a @ CHR ''|'' # b @ CHR ''|'' # ?r2 d rel = a' @ CHR ''|'' # b' @ CHR ''|'' # ?r2 d' rel'"
    using assms(5) by (simp add: pair_payload_def join_bars_def)
  from bar_split [OF assms(1,3) this]
  have a: "a = a'" and "b @ CHR ''|'' # ?r2 d rel = b' @ CHR ''|'' # ?r2 d' rel'" by auto
  from bar_split [OF assms(2,4) this(2)]
  have b: "b = b'" and "?r2 d rel = ?r2 d' rel'" by auto
  from bar_split [OF no_bar_int no_bar_int this(2)]
  have x: "fst d = fst d'" and "?r3 d rel = ?r3 d' rel'" by (auto dest: py_str_int_inj)
  from bar_split [OF no_bar_int no_bar_int this(2)]
  have y: "fst (snd d) = fst (snd d')" and "?r4 d rel = ?r4 d' rel'" by (auto dest: py_str_int_inj)
  from bar_split [OF no_bar_int no_bar_int this(2)]
  have z: "snd (snd d) = snd (snd d')" and "?r5 rel = ?r5 rel'" by (auto dest: py_str_int_inj)
  from bar_split [OF no_bar_int no_bar_int this(2)]
  have "rel = rel'" by (auto dest: py_str_int_inj)
  with a b x y z show ?thesis by (simp add: prod_eq_iff)
qed

subsection \<open>The whole run\<close>

definition mined_corpus :: "mining_options \<Rightarrow> mine_db \<Rightarrow> placed_row list list" where
  "mined_corpus opts db = map (\<lambda>i. select_placements i db) (select_maps (mo_environment opts) (mo_limit opts) db)"

definition corpus_pairs :: "mining_options \<Rightarrow> placed_row list list \<Rightarrow> pair_name set" where
  "corpus_pairs opts corpus = (\<Union>rows \<in> set corpus. set (observed_pairs (mo_radius_xz opts) (mo_radius_y opts) rows))"

definition pairs_in :: "mining_options \<Rightarrow> placed_row list list \<Rightarrow> pair_name \<Rightarrow> nat" where
  "pairs_in opts corpus q = (\<Sum>rows\<leftarrow>corpus. count_list (observed_pairs (mo_radius_xz opts) (mo_radius_y opts) rows) q)"

definition maps_in :: "mining_options \<Rightarrow> placed_row list list \<Rightarrow> pair_name \<Rightarrow> nat" where
  "maps_in opts corpus q =
     length (filter (\<lambda>rows. q \<in> set (observed_pairs (mo_radius_xz opts) (mo_radius_y opts) rows)) corpus)"

definition signature_of :: "(string \<Rightarrow> string) \<Rightarrow> mining_options \<Rightarrow> pair_name \<Rightarrow> string" where
  "signature_of sha opts = (\<lambda>(a, b, rel, d). pair_signature sha a b d rel (mo_environment opts))"

definition mined_row :: "catalogue \<Rightarrow> mining_options \<Rightarrow> placed_row list list \<Rightarrow> pair_name \<Rightarrow> pair_row" where
  "mined_row catalogue opts corpus = (\<lambda>(a, b, rel, d).
     \<lparr>pr_block_a = a, pr_block_b = b, pr_offset = d, pr_rel = rel, pr_environment = mo_environment opts,
      pr_clip_matched = clips_meet (clip_port_index catalogue) a b d rel,
      pr_pair_count = pairs_in opts corpus (a, b, rel, d), pr_map_count = maps_in opts corpus (a, b, rel, d),
      pr_version = MINER_VERSION\<rparr>)"

text \<open>What the table promises: coordinates below the packing bound (the box itself is small), block
  names without a bar, and a hash without collision on the payloads of the corpus.\<close>

definition corpus_ok :: "(string \<Rightarrow> string) \<Rightarrow> mining_options \<Rightarrow> placed_row list list \<Rightarrow> bool" where
  "corpus_ok sha opts corpus \<longleftrightarrow>
     0 \<le> mo_radius_xz opts \<and> 0 \<le> mo_radius_y opts \<and>
     (2 * mo_radius_xz opts + 1) ^ 2 * (2 * mo_radius_y opts + 1) \<le> 2 ^ 27 \<and>
     (\<forall>rows \<in> set corpus. \<forall>r \<in> set rows. row_fits (mo_radius_xz opts) (mo_radius_y opts) r \<and> CHR ''|'' \<notin> set (fst r)) \<and>
     inj_on sha ((\<lambda>(a, b, rel, d). pair_payload a b d rel (mo_environment opts)) ` corpus_pairs opts corpus)"

lemma signature_inj:
  assumes "corpus_ok sha opts corpus" "q \<in> corpus_pairs opts corpus" "q' \<in> corpus_pairs opts corpus"
    and "signature_of sha opts q = signature_of sha opts q'"
  shows "q = q'"
proof -
  obtain a b rel d a' b' rel' d' where q: "q = (a, b, rel, d)" "q' = (a', b', rel', d')"
    by (metis prod.exhaust)
  have pay: "pair_payload a b d rel (mo_environment opts) = pair_payload a' b' d' rel' (mo_environment opts)"
    using assms unfolding q by (auto simp: corpus_ok_def signature_of_def pair_signature_def dest!: inj_onD
        intro: image_eqI [where x = "(a, b, rel, d)"] image_eqI [where x = "(a', b', rel', d')"])
  have bars: "CHR ''|'' \<notin> set (fst p) \<and> CHR ''|'' \<notin> set (fst (snd p))" if "p \<in> corpus_pairs opts corpus" for p
    using that assms(1) by (fastforce simp: corpus_pairs_def corpus_ok_def observed_pairs_def)
  have "a = a' \<and> b = b' \<and> d = d' \<and> rel = rel'"
    using bars [OF assms(2)] bars [OF assms(3)] by (intro pair_payload_inj [OF _ _ _ _ pay]) (simp_all add: q)
  then show ?thesis by (simp add: q)
qed

lemma total_at_zip: "distinct ks \<Longrightarrow> (k, v) \<in> set (zip ks vs) \<Longrightarrow> total_at k ks vs = v"
proof (induction ks arbitrary: vs)
  case (Cons x ks)
  then show ?case by (cases vs) (auto simp: total_at_notin dest: set_zip_leftD)
qed simp

lemma row_of_packed:
  assumes "distinct names" "length names \<le> MAX_TYPES" "length (table_offsets rxz ry) \<le> 2 ^ 27"
    and "valid_pair rxz ry names (a, b, rel, d)" "we_names env = names" "we_offsets env = table_offsets rxz ry"
  shows "row_of env (packed rxz ry names (a, b, rel, d), p, m) =
    (pair_signature (we_sha env) a b d rel (we_environment env),
     \<lparr>pr_block_a = a, pr_block_b = b, pr_offset = d, pr_rel = rel, pr_environment = we_environment env,
      pr_clip_matched = clips_meet (we_ports env) a b d rel, pr_pair_count = p, pr_map_count = m,
      pr_version = MINER_VERSION\<rparr>)"
proof -
  have "a \<in> set names" "b \<in> set names" "d \<in> set (table_offsets rxz ry)"
    using assms(4) by (simp_all add: valid_pair_def set_table_offsets)
  then have "names ! name_index names a = a" "names ! name_index names b = b"
    "table_offsets rxz ry ! offset_index (table_offsets rxz ry) d = d"
    using name_index(3) [OF assms(1)] offset_index(3) [OF distinct_table_offsets] by auto
  then show ?thesis
    using unpack_packed [OF assms(1-4)] assms(5,6) by (simp add: row_of_def write_key_def Let_def)
qed

text \<open>The rows a finished scan leads to.\<close>

lemma final_rows:
  assumes "numpy_documented np" "corpus_ok sha opts corpus"
    and "scan_ok (mo_radius_xz opts) (mo_radius_y opts) corpus st" "counter_compact np (sc_counter st) = Inr c"
    and env: "env = \<lparr>we_sha = sha, we_environment = mo_environment opts, we_ports = clip_port_index catalogue,
      we_names = sc_type_names st, we_offsets = table_offsets (mo_radius_xz opts) (mo_radius_y opts)\<rparr>"
  defines "rows \<equiv> map (row_of env) (filter (\<lambda>(k, p, m). mo_min_map_count opts \<le> int m)
    (zip (pc_keys c) (zip (pc_pairs c) (pc_maps c))))"
  shows "distinct (map fst rows)"
    and "set rows = (\<lambda>q. (signature_of sha opts q, mined_row catalogue opts corpus q)) `
      {q \<in> corpus_pairs opts corpus. mo_min_map_count opts \<le> int (maps_in opts corpus q)}"
    and "length (pc_keys c) = card (corpus_pairs opts corpus)"
proof -
  let ?rxz = "mo_radius_xz opts" and ?ry = "mo_radius_y opts" and ?names = "sc_type_names st"
  let ?P = "packed ?rxz ?ry ?names" and ?Q = "corpus_pairs opts corpus"
  have st: "distinct ?names" "length ?names \<le> MAX_TYPES" "counter_ok (sc_counter st)"
    "keys_seen (sc_counter st) = ?P ` ?Q"
    and names: "set ?names = (\<Union>rows \<in> set corpus. fst ` set rows)"
    and seen: "\<And>q. valid_pair ?rxz ?ry ?names q \<Longrightarrow> pairs_seen (sc_counter st) (?P q) = pairs_in opts corpus q \<and>
      maps_seen (sc_counter st) (?P q) = maps_in opts corpus q"
    using assms(3) unfolding scan_ok_def corpus_pairs_def pairs_in_def maps_in_def by blast+
  have small: "length (table_offsets ?rxz ?ry) \<le> 2 ^ 27"
    using assms(2) unfolding corpus_ok_def by (intro table_small) auto
  have valid: "valid_pair ?rxz ?ry ?names q" if "q \<in> ?Q" for q
  proof -
    obtain rows where r: "rows \<in> set corpus" "q \<in> set (observed_pairs ?rxz ?ry rows)"
      using \<open>q \<in> ?Q\<close> by (auto simp: corpus_pairs_def)
    have "fst ` set rows \<subseteq> set ?names" using r(1) by (auto simp: names)
    then show ?thesis by (rule set_observed_pairs [OF r(2)])
  qed
  have inj: "inj_on ?P ?Q"
    by (rule inj_on_subset [OF packed_inj [OF st(1,2) small]]) (use valid in blast)
  obtain c' where "counter_compact np (sc_counter st) = Inr c'" "counter_ok c'" "pc_pending_keys c' = []"
    "pc_pending_pairs c' = []" "pairs_seen c' = pairs_seen (sc_counter st)" "maps_seen c' = maps_seen (sc_counter st)"
    "keys_seen c' = keys_seen (sc_counter st)"
    using counter_compact_ok [OF assms(1) st(3)] by blast
  then have c: "counter_ok c" "pc_pending_keys c = []" "pc_pending_pairs c = []"
    "pairs_seen c = pairs_seen (sc_counter st)" "maps_seen c = maps_seen (sc_counter st)" "set (pc_keys c) = ?P ` ?Q"
    using assms(4) st(4) by (auto simp: keys_seen_def)
  have dk: "distinct (pc_keys c)" using c(1) by (simp add: counter_ok_def strict_sorted_iff)
  have lens: "length (pc_pairs c) = length (pc_keys c)" "length (pc_maps c) = length (pc_keys c)"
    using c(1) by (simp_all add: counter_ok_def)
  show "length (pc_keys c) = card ?Q"
    using distinct_card [OF dk] c(6) card_image [OF inj] by simp
  let ?z = "zip (pc_keys c) (zip (pc_pairs c) (pc_maps c))"
  have entry: "(k, p, m) \<in> set ?z \<longleftrightarrow> (\<exists>q \<in> ?Q. k = ?P q \<and> p = pairs_in opts corpus q \<and> m = maps_in opts corpus q)" for k p m
  proof
    assume z: "(k, p, m) \<in> set ?z"
    then have "k \<in> set (pc_keys c)" by (rule set_zip_leftD)
    then obtain q where q: "q \<in> ?Q" "k = ?P q" using c(6) by auto
    have "(k, p) \<in> set (zip (pc_keys c) (pc_pairs c))" "(k, m) \<in> set (zip (pc_keys c) (pc_maps c))"
      using z lens by (auto simp: set_zip)
    then have "pairs_seen c k = p" "maps_seen c k = m"
      using total_at_zip [OF dk] c(2,3) by (simp_all add: pairs_seen_def maps_seen_def)
    then show "\<exists>q \<in> ?Q. k = ?P q \<and> p = pairs_in opts corpus q \<and> m = maps_in opts corpus q"
      using q seen [OF valid] c(4,5) by auto
  next
    assume "\<exists>q \<in> ?Q. k = ?P q \<and> p = pairs_in opts corpus q \<and> m = maps_in opts corpus q"
    then obtain q where q: "q \<in> ?Q" "k = ?P q" "p = pairs_in opts corpus q" "m = maps_in opts corpus q" by blast
    then have "k \<in> set (pc_keys c)" using c(6) by auto
    then obtain i where i: "i < length (pc_keys c)" "pc_keys c ! i = k" by (auto simp: in_set_conv_nth)
    have "(k, pc_pairs c ! i) \<in> set (zip (pc_keys c) (pc_pairs c))" "(k, pc_maps c ! i) \<in> set (zip (pc_keys c) (pc_maps c))"
      using i lens by (auto simp: set_zip)
    then have "pairs_seen c k = pc_pairs c ! i" "maps_seen c k = pc_maps c ! i"
      using total_at_zip [OF dk] c(2,3) by (simp_all add: pairs_seen_def maps_seen_def)
    then have "pc_pairs c ! i = p" "pc_maps c ! i = m" using q seen [OF valid] c(4,5) by auto
    then show "(k, p, m) \<in> set ?z" using i lens by (auto simp: set_zip)
  qed
  have row: "row_of env (?P q, pairs_in opts corpus q, maps_in opts corpus q) =
      (signature_of sha opts q, mined_row catalogue opts corpus q)" if "q \<in> ?Q" for q
  proof -
    obtain a b rel d where q: "q = (a, b, rel, d)" by (metis prod.exhaust)
    show ?thesis
      using row_of_packed [OF st(1,2) small valid [OF that, unfolded q], of env "pairs_in opts corpus q" "maps_in opts corpus q"]
      by (simp add: q env signature_of_def mined_row_def)
  qed
  show set_rows: "set rows = (\<lambda>q. (signature_of sha opts q, mined_row catalogue opts corpus q)) `
      {q \<in> ?Q. mo_min_map_count opts \<le> int (maps_in opts corpus q)}"
  proof (rule set_eqI)
    fix x
    have "x \<in> set rows \<longleftrightarrow> (\<exists>k p m. (k, p, m) \<in> set ?z \<and> mo_min_map_count opts \<le> int m \<and> x = row_of env (k, p, m))"
      by (auto simp: rows_def split_paired_Ex Bex_def)
    also have "\<dots> \<longleftrightarrow> (\<exists>q \<in> ?Q. mo_min_map_count opts \<le> int (maps_in opts corpus q) \<and>
        x = (signature_of sha opts q, mined_row catalogue opts corpus q))"
      unfolding entry using row by (auto 0 4)
    finally show "x \<in> set rows \<longleftrightarrow> x \<in> (\<lambda>q. (signature_of sha opts q, mined_row catalogue opts corpus q)) `
      {q \<in> ?Q. mo_min_map_count opts \<le> int (maps_in opts corpus q)}" by auto
  qed
  have dz: "distinct ?z" by (rule distinct_zipI1 [OF dk])
  have "inj_on (fst \<circ> row_of env) (set ?z)"
  proof (rule inj_onI)
    fix x y assume x: "x \<in> set ?z" and y: "y \<in> set ?z" and e: "(fst \<circ> row_of env) x = (fst \<circ> row_of env) y"
    obtain k p m k' p' m' where xy: "x = (k, p, m)" "y = (k', p', m')" by (metis prod.exhaust)
    obtain q q' where q: "q \<in> ?Q" "x = (?P q, pairs_in opts corpus q, maps_in opts corpus q)"
      "q' \<in> ?Q" "y = (?P q', pairs_in opts corpus q', maps_in opts corpus q')"
      using x y entry unfolding xy by blast
    then have "signature_of sha opts q = signature_of sha opts q'" using e row by simp
    then have "q = q'" using signature_inj [OF assms(2) q(1,3)] by simp
    then show "x = y" using q by simp
  qed
  then have "inj_on (fst \<circ> row_of env) (set (filter (\<lambda>(k, p, m). mo_min_map_count opts \<le> int m) ?z))"
    by (rule inj_on_subset) auto
  then show "distinct (map fst rows)"
    using dz by (simp add: rows_def distinct_map)
qed

lemma cache_ok_Nil: "cache_ok env []"
  by (simp add: cache_ok_def)

text \<open>
  C8. Mining the placement grammar. When a run ends without an error and no reply of the database is
  lost, it has counted, for every pair of blocks within the neighbourhood (in the frame of the first
  block, by relative rotation), how often and in how many maps it occurs, as two nested loops over
  the placements of each map would; the table gains exactly the pairs seen in at least
  \<open>min_map_count\<close> maps, with these counts added to an existing row, and every other row stays. The
  report gives the maps, the pairs, the distinct keys and the rows written.
\<close>

theorem mined_rows_exact:
  assumes "numpy_documented np" "no_lost_reply db"
    and "corpus_ok sha opts (mined_corpus opts db)"
    and "build_grammar np sha catalogue opts db = (Inr report, db')"
  defines "corpus \<equiv> mined_corpus opts db"
  defines "kept \<equiv> {q \<in> corpus_pairs opts corpus. mo_min_map_count opts \<le> int (maps_in opts corpus q)}"
  shows "(\<forall>q \<in> kept. map_of (md_table db') (signature_of sha opts q) =
        Some (merged_row (map_of (md_table db) (signature_of sha opts q)) (mined_row catalogue opts corpus q))) \<and>
    (\<forall>s. s \<notin> signature_of sha opts ` kept \<longrightarrow> map_of (md_table db') s = map_of (md_table db) s) \<and>
    gp_maps_seen report = length corpus \<and>
    gp_placements_seen report = (\<Sum>rows\<leftarrow>corpus. length rows) \<and>
    gp_pairs_counted report = (\<Sum>rows\<leftarrow>corpus. length (observed_pairs (mo_radius_xz opts) (mo_radius_y opts) rows)) \<and>
    gp_distinct_keys report = card (corpus_pairs opts corpus) \<and>
    gp_rows_written report = card kept"
proof -
  let ?rxz = "mo_radius_xz opts" and ?ry = "mo_radius_y opts"
  let ?tbl = "\<lparr>ot_offsets = table_offsets ?rxz ?ry,
     ot_rot_map = map (\<lambda>a. map (rot_entry (table_offsets ?rxz ?ry) a) (table_offsets ?rxz ?ry)) [0, 1, 2, 3]\<rparr>"
  let ?q = "\<lambda>db. select_maps (mo_environment opts) (mo_limit opts) db"
  have cok: "corpus_ok sha opts corpus" using assms(3) by (simp add: corpus_def)
  have small: "length (table_offsets ?rxz ?ry) \<le> 2 ^ 27"
    using cok unfolding corpus_ok_def by (intro table_small) auto
  obtain r1 db1 where c1: "with_reconnect (mo_reconnect opts) (\<lambda>db. (?q db, db)) db = (r1, db1)" by fastforce
  with assms(4) obtain ids where r1: "r1 = Inr ids"
    by (cases r1) (auto simp: build_grammar_def offset_table_total)
  have d1: "no_lost_reply db1" "same_data db db1" "ids = ?q db"
    using with_reconnect_read [OF c1 assms(2)] select_same_data(1) r1 by auto
  have corpus: "map (\<lambda>i. select_placements i db1) ids = corpus"
    using select_same_data(2) [OF d1(2)] by (simp add: corpus_def mined_corpus_def d1(3))
  obtain r2 db2 where c2: "scan_corpus np (mo_reconnect opts) ?tbl ids scan_init db1 = (r2, db2)" by fastforce
  with assms(4) c1 r1 obtain st where r2: "r2 = Inr st"
    by (cases r2) (auto simp: build_grammar_def offset_table_total)
  have "\<forall>i \<in> set ids. \<forall>r \<in> set (select_placements i db1). row_fits ?rxz ?ry r"
  proof (intro ballI)
    fix i r assume "i \<in> set ids" "r \<in> set (select_placements i db1)"
    moreover from this have "select_placements i db1 \<in> set corpus" unfolding corpus [symmetric] by simp
    ultimately show "row_fits ?rxz ?ry r" using cok unfolding corpus_ok_def by blast
  qed
  from scan_corpus_ok [OF assms(1) offset_table_total small scan_init_ok d1(1) this c2]
  have d2: "no_lost_reply db2" "same_data db1 db2" "scan_ok ?rxz ?ry corpus st"
    by (simp_all add: r2 corpus)
  obtain c where c3: "counter_compact np (sc_counter st) = Inr c"
  proof -
    have "counter_ok (sc_counter st)" using d2(3) by (simp only: scan_ok_def)
    from counter_compact_ok [OF assms(1) this] show ?thesis using that by blast
  qed
  define env where "env = \<lparr>we_sha = sha, we_environment = mo_environment opts,
    we_ports = clip_port_index catalogue, we_names = sc_type_names st, we_offsets = table_offsets ?rxz ?ry\<rparr>"
  define rows where "rows = map (row_of env) (filter (\<lambda>(k, p, m). mo_min_map_count opts \<le> int m)
    (zip (pc_keys c) (zip (pc_pairs c) (pc_maps c))))"
  note fr = final_rows [OF assms(1) cok d2(3) c3 env_def, folded rows_def]
  have wk: "write_keys env (mo_reconnect opts) (filter (\<lambda>(k, p, m). mo_min_map_count opts \<le> int m)
      (zip (pc_keys c) (zip (pc_pairs c) (pc_maps c)))) [] []
      ((sc_report st)\<lparr>gp_distinct_keys := length (pc_keys c)\<rparr>) db2 = (Inr report, db')"
    using assms(4) c1 r1 c2 r2 c3 by (simp add: build_grammar_def offset_table_total env_def)
  note written = write_keys_ok [OF cache_ok_Nil d2(1), where env = env and rc = "mo_reconnect opts" and batch = "[]"]
  from written [of "filter (\<lambda>(k, p, m). mo_min_map_count opts \<le> int m) (zip (pc_keys c) (zip (pc_pairs c) (pc_maps c)))"
      "(sc_report st)\<lparr>gp_distinct_keys := length (pc_keys c)\<rparr>", unfolded wk rows_def [symmetric]]
  have table: "md_table db' = fold upsert_pair rows (md_table db2)"
    and report: "report = report_rows ((sc_report st)\<lparr>gp_distinct_keys := length (pc_keys c)\<rparr>) rows"
    by simp_all
  have same: "md_table db2 = md_table db" using d1(2) d2(2) by (simp add: same_data_def)
  have look: "map_of (md_table db') s = (case map_of rows s of None \<Rightarrow> map_of (md_table db) s
      | Some row \<Rightarrow> Some (merged_row (map_of (md_table db) s) row))" for s
    unfolding table same by (rule fold_upsert_lookup [OF fr(1)])
  have kept_rows: "set rows = (\<lambda>q. (signature_of sha opts q, mined_row catalogue opts corpus q)) ` kept"
    unfolding kept_def by (rule fr(2))
  have "map_of (md_table db') (signature_of sha opts q) =
      Some (merged_row (map_of (md_table db) (signature_of sha opts q)) (mined_row catalogue opts corpus q))"
    if "q \<in> kept" for q
  proof -
    have "(signature_of sha opts q, mined_row catalogue opts corpus q) \<in> set rows"
      using that kept_rows by blast
    then have "map_of rows (signature_of sha opts q) = Some (mined_row catalogue opts corpus q)"
      using fr(1) by simp
    then show ?thesis by (simp add: look)
  qed
  moreover have "map_of (md_table db') s = map_of (md_table db) s" if "s \<notin> signature_of sha opts ` kept" for s
  proof -
    have "s \<notin> fst ` set rows" using that unfolding kept_rows by auto
    then show ?thesis by (simp add: look map_of_eq_None_iff [THEN iffD2])
  qed
  moreover have "length rows = card kept"
  proof -
    have "inj_on (signature_of sha opts) kept"
      using signature_inj [OF cok] by (auto simp: kept_def intro: inj_onI)
    then have "card (fst ` set rows) = card kept"
      unfolding kept_rows by (simp add: image_image card_image)
    then show ?thesis using distinct_card [OF fr(1)] by simp
  qed
  moreover have "sc_report st = grammar_report_init\<lparr>gp_maps_seen := length corpus,
        gp_placements_seen := (\<Sum>rows\<leftarrow>corpus. length rows),
        gp_pairs_counted := (\<Sum>rows\<leftarrow>corpus. length (observed_pairs ?rxz ?ry rows))\<rparr>"
    using d2(3) by (simp only: scan_ok_def)
  ultimately show ?thesis
    by (simp add: report report_rows_def fr(3) grammar_report_init_def)
qed

lemma answered_run:
  assumes "numpy_documented np" "md_faults db = []" "corpus_ok sha opts (mined_corpus opts db)"
  defines "types \<equiv> card (\<Union>rows \<in> set (mined_corpus opts db). fst ` set rows)"
  shows "case build_grammar np sha catalogue opts db of
      (Inl e, db') \<Rightarrow> e = TooManyTypes \<and> db' = db \<and> MAX_TYPES < types
    | (Inr report, db') \<Rightarrow> types \<le> MAX_TYPES"
proof -
  let ?rxz = "mo_radius_xz opts" and ?ry = "mo_radius_y opts"
  let ?tbl = "\<lparr>ot_offsets = table_offsets ?rxz ?ry,
     ot_rot_map = map (\<lambda>a. map (rot_entry (table_offsets ?rxz ?ry) a) (table_offsets ?rxz ?ry)) [0, 1, 2, 3]\<rparr>"
  let ?ids = "select_maps (mo_environment opts) (mo_limit opts) db"
  have small: "length (table_offsets ?rxz ?ry) \<le> 2 ^ 27"
    using assms(3) unfolding corpus_ok_def by (intro table_small) auto
  have nl: "no_lost_reply db" using assms(2) by (simp add: no_lost_reply_def)
  have c1: "with_reconnect (mo_reconnect opts) (\<lambda>db. (select_maps (mo_environment opts) (mo_limit opts) db, db)) db = (Inr ?ids, db)"
    by (simp add: with_reconnect_no_faults [OF assms(2)])
  obtain r2 db2 where c2: "scan_corpus np (mo_reconnect opts) ?tbl ?ids scan_init db = (r2, db2)" by fastforce
  have "\<forall>i \<in> set ?ids. \<forall>r \<in> set (select_placements i db). row_fits ?rxz ?ry r"
  proof (intro ballI)
    fix i r assume "i \<in> set ?ids" "r \<in> set (select_placements i db)"
    moreover from this have "select_placements i db \<in> set (mined_corpus opts db)" by (simp add: mined_corpus_def)
    ultimately show "row_fits ?rxz ?ry r" using assms(3) unfolding corpus_ok_def by blast
  qed
  from scan_corpus_ok [OF assms(1) offset_table_total small scan_init_ok nl this c2]
  have d2: "no_lost_reply db2" "same_data db db2" "md_faults db2 = []"
    and r2: "case r2 of Inr st \<Rightarrow> scan_ok ?rxz ?ry (mined_corpus opts db) st
      | Inl e \<Rightarrow> e = TooManyTypes \<and> MAX_TYPES < types"
    using assms(2) by (simp_all add: mined_corpus_def types_def split: sum.splits)
  show ?thesis
  proof (cases r2)
    case (Inl e)
    have "db2 = db" using d2(2,3) assms(2) by (cases db; cases db2) (simp add: same_data_def)
    then have "build_grammar np sha catalogue opts db = (Inl TooManyTypes, db)"
      using r2 c1 c2 Inl by (simp add: build_grammar_def offset_table_total)
    then show ?thesis using r2 Inl by simp
  next
    case (Inr st)
    then have ok: "scan_ok ?rxz ?ry (mined_corpus opts db) st" using r2 by simp
    then have "types = card (set (sc_type_names st))" "distinct (sc_type_names st)" "length (sc_type_names st) \<le> MAX_TYPES"
      "counter_ok (sc_counter st)" unfolding scan_ok_def types_def by simp_all
    then have le: "types \<le> MAX_TYPES" by (simp add: distinct_card)
    obtain c where "counter_compact np (sc_counter st) = Inr c"
      using counter_compact_ok [OF assms(1)] \<open>counter_ok (sc_counter st)\<close> by blast
    then have "build_grammar np sha catalogue opts db =
        write_keys \<lparr>we_sha = sha, we_environment = mo_environment opts,
          we_ports = clip_port_index catalogue, we_names = sc_type_names st,
          we_offsets = table_offsets ?rxz ?ry\<rparr> (mo_reconnect opts)
        (filter (\<lambda>(k, p, m). mo_min_map_count opts \<le> int m) (zip (pc_keys c) (zip (pc_pairs c) (pc_maps c))))
        [] [] ((sc_report st)\<lparr>gp_distinct_keys := length (pc_keys c)\<rparr>) db2"
      using c1 c2 Inr by (simp add: build_grammar_def offset_table_total)
    moreover have "\<exists>r' db'. write_keys env rc keys [] [] r db2 = (Inr r', db')" for env rc keys r
      using write_keys_ok [OF cache_ok_Nil d2(1), where env = env and rc = rc and keys = keys and batch = "[]" and r = r] d2(3) by (auto split: prod.splits)
    ultimately show ?thesis using le by (auto split: prod.splits sum.splits) (metis Pair_inject sum.distinct(1))
  qed
qed

text \<open>
  C24. How a mining run ends while the database answers every statement: it returns a report unless the
  corpus has more block types than the packed key has room for, and then it raises before anything
  is written.
\<close>

theorem mining_outcome:
  assumes "numpy_documented np" "md_faults db = []" "corpus_ok sha opts (mined_corpus opts db)"
  defines "types \<equiv> card (\<Union>rows \<in> set (mined_corpus opts db). fst ` set rows)"
  shows "if types \<le> MAX_TYPES
    then \<exists>report db'. build_grammar np sha catalogue opts db = (Inr report, db')
    else build_grammar np sha catalogue opts db = (Inl TooManyTypes, db)"
  using answered_run [OF assms(1-3), of catalogue] unfolding types_def
  by (auto split: prod.splits sum.splits)

text \<open>A flush whose reply is lost runs again: its counts are added twice.\<close>

lemma lost_reply_counts_twice:
  assumes "md_faults db = [Reply_lost OperationalError]"
  shows "with_reconnect True (flush_rows rows) db =
    (Inr (), db\<lparr>md_table := fold upsert_pair rows (fold upsert_pair rows (md_table db)), md_faults := []\<rparr>)"
  using assms by (simp add: with_reconnect_def DB_RETRIES_def numeral_eq_Suc db_call_def flush_rows_def Let_def)

text \<open>The connection is reopened outside the \<open>try\<close>: while the server is still down, the error
  escapes at the first attempt instead of being retried.\<close>

lemma reopening_not_retried:
  assumes "md_faults db = Refused OperationalError # Refused e # fs"
  shows "fst (with_reconnect True run db) = Inl (DbRaised e)"
  using assms by (simp add: with_reconnect_def DB_RETRIES_def numeral_eq_Suc db_call_def Let_def)

subsection \<open>Witnesses\<close>

text \<open>Two maps of one environment: the same two blocks side by side, once turned.\<close>

definition demo_place :: "string \<Rightarrow> int \<Rightarrow> cell \<Rightarrow> raw_placement" where
  "demo_place b r c = \<lparr>rp_block = b, rp_rotation = r, rp_x = Some (fst c), rp_y = Some (fst (snd c)),
     rp_z = Some (snd (snd c)), rp_is_free = False\<rparr>"

definition demo_mine_db :: mine_db where
  "demo_mine_db = \<lparr>md_collate = (\<lambda>c. if c = CHR ''s'' then CHR ''S'' else c),
     md_maps = [\<lparr>cm_id = 1, cm_status = ''success'', cm_environment = Some ''S''\<rparr>,
       \<lparr>cm_id = 2, cm_status = ''success'', cm_environment = Some ''s''\<rparr>,
       \<lparr>cm_id = 3, cm_status = ''success'', cm_environment = None\<rparr>],
     md_placements = (\<lambda>i. if i = 1 then [demo_place ''A'' 0 (0, 0, 0), demo_place ''B'' 1 (1, 0, 0)]
       else [demo_place ''A'' 1 (5, 0, 5), demo_place ''B'' 2 (5, 0, 6)]),
     md_table = [], md_faults = []\<rparr>"

definition demo_options :: mining_options where
  "demo_options = \<lparr>mo_environment = ''S'', mo_limit = None, mo_radius_xz = 1, mo_radius_y = 0,
     mo_min_map_count = 2, mo_reconnect = True\<rparr>"

lemma demo_corpus:
  "mined_corpus demo_options demo_mine_db =
    [[(''A'', 0, (0, 0, 0)), (''B'', 1, (1, 0, 0))], [(''A'', 1, (5, 0, 5)), (''B'', 2, (5, 0, 6))]]"
  by (simp add: mined_corpus_def demo_options_def demo_mine_db_def select_maps_def select_placements_def
      demo_place_def map_filter_Cons)

lemma demo_fields:
  "mo_environment demo_options = ''S''" "mo_radius_xz demo_options = 1" "mo_radius_y demo_options = 0"
  "mo_min_map_count demo_options = 2"
  by (simp_all add: demo_options_def)

lemma demo_corpus_ok: "corpus_ok (\<lambda>x. x) demo_options (mined_corpus demo_options demo_mine_db)"
  by (simp add: corpus_ok_def demo_corpus row_fits_def demo_fields)

lemma demo_observed:
  "observed_pairs 1 0 [(''A'', 0, (0, 0, 0)), (''B'', 1, (1, 0, 0))] =
    [(''A'', ''B'', 1, (1, 0, 0)), (''B'', ''A'', 3, (0, 0, 1))]"
  "observed_pairs 1 0 [(''A'', 1, (5, 0, 5)), (''B'', 2, (5, 0, 6))] =
    [(''A'', ''B'', 1, (1, 0, 0)), (''B'', ''A'', 3, (0, 0, 1))]"
  by (simp_all add: observed_pairs_def near_def upt_conv_Cons Let_def)

lemma mined_rows_exact_witness:
  "\<exists>report db' row. build_grammar np_reference (\<lambda>x. x) [] demo_options demo_mine_db = (Inr report, db') \<and>
     gp_rows_written report = 2 \<and> gp_pairs_counted report = 4 \<and>
     map_of (md_table db') (signature_of (\<lambda>x. x) demo_options (''A'', ''B'', 1, (1, 0, 0))) = Some row \<and>
     pr_pair_count row = 2 \<and> pr_map_count row = 2"
proof -
  let ?q = "(''A'', ''B'', 1, (1, 0, 0)) :: pair_name"
  obtain report db' where run: "build_grammar np_reference (\<lambda>x. x) [] demo_options demo_mine_db = (Inr report, db')"
  proof -
    have "card (\<Union>rows \<in> set (mined_corpus demo_options demo_mine_db). fst ` set rows) \<le> MAX_TYPES"
      by (simp add: demo_corpus card_insert_if MAX_TYPES_def TYPE_BITS_def)
    moreover have "md_faults demo_mine_db = []" by (simp add: demo_mine_db_def)
    ultimately show ?thesis
      using answered_run [OF numpy_reference_documented _ demo_corpus_ok, of "[]"] that
      by (fastforce split: prod.splits sum.splits)
  qed
  have kept: "{q \<in> corpus_pairs demo_options (mined_corpus demo_options demo_mine_db).
      mo_min_map_count demo_options \<le> int (maps_in demo_options (mined_corpus demo_options demo_mine_db) q)} =
      {?q, (''B'', ''A'', 3, (0, 0, 1))}"
    by (auto simp: corpus_pairs_def maps_in_def demo_corpus demo_fields demo_observed)
  have "no_lost_reply demo_mine_db" by (simp add: no_lost_reply_def demo_mine_db_def)
  note res = mined_rows_exact [OF numpy_reference_documented this demo_corpus_ok run, unfolded kept]
  have "map_of (md_table db') (signature_of (\<lambda>x. x) demo_options ?q) =
      Some (merged_row None (mined_row [] demo_options (mined_corpus demo_options demo_mine_db) ?q))"
    using res by (simp add: demo_mine_db_def)
  moreover have "gp_rows_written report = 2 \<and> gp_pairs_counted report = 4"
    using res by (simp add: demo_corpus demo_fields demo_observed)
  moreover have "pairs_in demo_options (mined_corpus demo_options demo_mine_db) ?q = 2"
    "maps_in demo_options (mined_corpus demo_options demo_mine_db) ?q = 2"
    by (simp_all add: pairs_in_def maps_in_def demo_corpus demo_fields demo_observed)
  ultimately show ?thesis using run by (auto simp: merged_row_def mined_row_def)
qed

lemma mining_outcome_witness:
  "\<exists>report db'. build_grammar np_reference (\<lambda>x. x) [] demo_options demo_mine_db = (Inr report, db')"
proof -
  have "card (\<Union>rows \<in> set (mined_corpus demo_options demo_mine_db). fst ` set rows) \<le> MAX_TYPES"
    by (simp add: demo_corpus card_insert_if MAX_TYPES_def TYPE_BITS_def)
  moreover have "md_faults demo_mine_db = []" by (simp add: demo_mine_db_def)
  ultimately show ?thesis
    using mining_outcome [OF numpy_reference_documented _ demo_corpus_ok, of "[]"] by simp
qed

end
