(* ===== verification/Adjacency_Graph.thy ===== *)
theory Adjacency_Graph
  imports Prelude
begin

section \<open>The adjacency graph of the corpus\<close>

text \<open>
  Model of \<^verbatim>\<open>src/src/constraints/nodes.py\<close>, \<^verbatim>\<open>evidence.py\<close>, \<^verbatim>\<open>extractor.py\<close> and \<^verbatim>\<open>pipeline.py\<close>:
  block keys with their checks, the label policy, the adjacencies of one map, and the build run that
  merges them into a graph database.

  Correspondence. The graph database is the record \<open>adj_graph\<close>: the \<open>:ProcessedMap\<close> nodes, the
  \<open>:Block\<close> nodes by key and the \<open>:ADJACENT_TO\<close> edges by pair of keys; the three Cypher queries are
  functions on it. A write transaction ends as the world's list of outcomes says. Map and placement rows are inputs, parser versions and snapshots are not \<open>NULL\<close>. Timestamps and log lines are left out.

  Main results: the adjacencies of a map are its unordered pairs of touching keys, each once; whatever
  transactions fail or lose their acknowledgement and however runs are repeated, an edge counts every map at most once, labels are
  those of the policy and never depend on frequency; a map claimed by a failed attempt is never counted later.
\<close>

subsection \<open>Block keys\<close>

record block_key =
  bk_family :: string
  bk_type :: string
  bk_variant :: string

definition has_bar :: "string \<Rightarrow> bool" where
  "has_bar s \<longleftrightarrow> CHR ''|'' \<in> set s"

definition make_key :: "string \<Rightarrow> string \<Rightarrow> string \<Rightarrow> py_error + block_key" where
  "make_key family type variant =
     (if family = [] then Inl ValueError
      else if type = [] then Inl ValueError
      else if has_bar family \<or> has_bar type \<or> has_bar variant then Inl ValueError
      else Inr \<lparr>bk_family = family, bk_type = type, bk_variant = variant\<rparr>)"

definition normalized_key :: "block_key \<Rightarrow> string" where
  "normalized_key k = bk_family k @ CHR ''|'' # bk_type k @ CHR ''|'' # bk_variant k"

text \<open>\<open>s.split("|")\<close>.\<close>

fun split_bars :: "string \<Rightarrow> string list" where
  "split_bars [] = [[]]"
| "split_bars (c # cs) =
     (if c = CHR ''|'' then [] # split_bars cs
      else case split_bars cs of [] \<Rightarrow> [[c]] | p # ps \<Rightarrow> (c # p) # ps)"

definition from_normalized :: "string \<Rightarrow> py_error + block_key" where
  "from_normalized key = (case split_bars key of
       [family, type, variant] \<Rightarrow> make_key family type variant
     | _ \<Rightarrow> Inl ValueError)"

definition order_pair :: "block_key \<Rightarrow> block_key \<Rightarrow> block_key \<times> block_key" where
  "order_pair a b = (if normalized_key a \<le> normalized_key b then (a, b) else (b, a))"

record adj_observation =
  ao_a :: block_key
  ao_b :: block_key
  ao_snapshot :: string
  ao_bench :: bool
  ao_broken :: bool

definition make_observation :: "block_key \<Rightarrow> block_key \<Rightarrow> string \<Rightarrow> bool \<Rightarrow> bool
    \<Rightarrow> py_error + adj_observation" where
  "make_observation a b snapshot bench broken =
     (if normalized_key a > normalized_key b then Inl ValueError
      else Inr \<lparr>ao_a = a, ao_b = b, ao_snapshot = snapshot, ao_bench = bench, ao_broken = broken\<rparr>)"

subsection \<open>The label policy\<close>

definition VALID :: string where "VALID = ''valid''"
definition SUSPICIOUS :: string where "SUSPICIOUS = ''suspicious''"
definition UNKNOWN :: string where "UNKNOWN = ''unknown''"
definition ALL_LABELS :: "string set" where "ALL_LABELS = {VALID, SUSPICIOUS, UNKNOWN}"

definition derive_validity_label :: "int \<Rightarrow> int \<Rightarrow> int \<Rightarrow> int \<Rightarrow> py_error + string" where
  "derive_validity_label benchmark_strong_count broken_fixture_count replay_supported_count observed_in_maps_count =
     (if benchmark_strong_count < 0 then Inl ValueError
      else if broken_fixture_count < 0 then Inl ValueError
      else if replay_supported_count < 0 then Inl ValueError
      else if benchmark_strong_count \<ge> 1 then Inr VALID
      else if broken_fixture_count > 0 \<and> benchmark_strong_count = 0 \<and> replay_supported_count = 0
        then Inr SUSPICIOUS
      else Inr UNKNOWN)"

subsection \<open>The adjacencies of one map\<close>

record adj_placement =
  ap_family :: string
  ap_type :: string
  ap_variant :: "string option"
  ap_cell :: "(int option \<times> int option \<times> int option)"
  ap_is_free :: bool

definition AXIS_NEIGHBOR_OFFSETS :: "cell list" where
  "AXIS_NEIGHBOR_OFFSETS = [(1, 0, 0), (-1, 0, 0), (0, 1, 0), (0, -1, 0), (0, 0, 1), (0, 0, -1)]"

definition block_key_from_placement :: "adj_placement \<Rightarrow> py_error + block_key" where
  "block_key_from_placement p =
     make_key (ap_family p) (ap_type p) (case ap_variant p of None \<Rightarrow> '''' | Some v \<Rightarrow> v)"

text \<open>The default of \<open>setdefault\<close> is evaluated even where the cell is taken.\<close>

fun index_cells :: "adj_placement list \<Rightarrow> (cell \<times> block_key) list \<Rightarrow> py_error + (cell \<times> block_key) list" where
  "index_cells [] by_cell = Inr by_cell"
| "index_cells (p # ps) by_cell =
     (case (ap_is_free p, ap_cell p) of
        (False, Some x, Some y, Some z) \<Rightarrow>
          (case block_key_from_placement p of
             Inl e \<Rightarrow> Inl e
           | Inr k \<Rightarrow> index_cells ps
               (if map_of by_cell (x, y, z) = None then by_cell @ [((x, y, z), k)] else by_cell))
      | _ \<Rightarrow> index_cells ps by_cell)"

type_synonym pair_ids = "(string \<times> string) list"

text \<open>The two loops, as one pass over the pairs of a cell and an offset.\<close>

fun collect_pairs :: "(cell \<rightharpoonup> block_key) \<Rightarrow> string \<Rightarrow> bool \<Rightarrow> bool \<Rightarrow> ((cell \<times> block_key) \<times> cell) list
    \<Rightarrow> pair_ids \<Rightarrow> adj_observation list \<Rightarrow> py_error + adj_observation list" where
  "collect_pairs by_cell snapshot bench broken [] seen out = Inr out"
| "collect_pairs by_cell snapshot bench broken (((c, key), d) # rest) seen out =
     (case by_cell (shift c d) of
        None \<Rightarrow> collect_pairs by_cell snapshot bench broken rest seen out
      | Some neighbor_key \<Rightarrow>
          (let (a, b) = order_pair key neighbor_key;
               pair_id = (normalized_key a, normalized_key b)
           in if pair_id \<in> set seen then collect_pairs by_cell snapshot bench broken rest seen out
              else case make_observation a b snapshot bench broken of
                  Inl e \<Rightarrow> Inl e
                | Inr obs \<Rightarrow> collect_pairs by_cell snapshot bench broken rest (pair_id # seen) (out @ [obs])))"

definition extract_adjacencies :: "adj_placement list \<Rightarrow> string \<Rightarrow> bool \<Rightarrow> bool
    \<Rightarrow> py_error + adj_observation list" where
  "extract_adjacencies placements snapshot bench broken =
     (case index_cells placements [] of
        Inl e \<Rightarrow> Inl e
      | Inr by_cell \<Rightarrow> collect_pairs (map_of by_cell) snapshot bench broken
          (concat (map (\<lambda>entry. map (Pair entry) AXIS_NEIGHBOR_OFFSETS) by_cell)) [] [])"

definition unique_block_keys :: "adj_observation list \<Rightarrow> block_key list" where
  "unique_block_keys observations =
     map snd (fold (\<lambda>k seen. if map_of seen (normalized_key k) = None then seen @ [(normalized_key k, k)] else seen)
       (concat (map (\<lambda>obs. [ao_a obs, ao_b obs]) observations)) [])"

subsection \<open>The graph database\<close>

record adj_edge =
  ae_observed :: int
  ae_bench :: int
  ae_broken :: int
  ae_replay :: int
  ae_label :: string
  ae_first_seen :: string
  ae_last_seen :: string

type_synonym map_claim = "int \<times> string \<times> string"

record adj_graph =
  ag_processed :: "map_claim list"
  ag_nodes :: "(string \<times> block_key) list"
  ag_edges :: "((string \<times> string) \<times> adj_edge) list"

text \<open>The claim query: \<open>MERGE\<close> on map, snapshot and parser version.\<close>

definition claim_map :: "map_claim \<Rightarrow> adj_graph \<Rightarrow> bool \<times> adj_graph" where
  "claim_map claim g =
     (if claim \<in> set (ag_processed g) then (False, g)
      else (True, g\<lparr>ag_processed := ag_processed g @ [claim]\<rparr>))"

definition merge_nodes :: "block_key list \<Rightarrow> adj_graph \<Rightarrow> adj_graph" where
  "merge_nodes keys g = g\<lparr>ag_nodes := fold (\<lambda>k nodes.
     if map_of nodes (normalized_key k) = None then AList.update (normalized_key k) k nodes else nodes) keys (ag_nodes g)\<rparr>"

text \<open>The label of the edge query's \<open>CASE\<close>.\<close>

definition cypher_label :: "adj_edge \<Rightarrow> string" where
  "cypher_label r =
     (if ae_bench r \<ge> 1 then ''valid''
      else if ae_broken r > 0 \<and> ae_bench r = 0 \<and> ae_replay r = 0 then ''suspicious''
      else ''unknown'')"

text \<open>One row of the edge query; a row whose block nodes do not both exist matches nothing.\<close>

definition merge_edge :: "adj_observation \<Rightarrow> nat \<times> adj_graph \<Rightarrow> nat \<times> adj_graph" where
  "merge_edge obs = (\<lambda>(merged, g).
     (let key = (normalized_key (ao_a obs), normalized_key (ao_b obs));
          bench_delta = (if ao_bench obs then 1 else 0);
          broken_delta = (if ao_broken obs then 1 else 0)
      in if map_of (ag_nodes g) (fst key) = None \<or> map_of (ag_nodes g) (snd key) = None then (merged, g)
         else
           let r = (case map_of (ag_edges g) key of
                None \<Rightarrow> \<lparr>ae_observed = 1, ae_bench = bench_delta, ae_broken = broken_delta, ae_replay = 0,
                    ae_label = '''', ae_first_seen = ao_snapshot obs, ae_last_seen = ao_snapshot obs\<rparr>
              | Some r \<Rightarrow> r\<lparr>ae_observed := ae_observed r + 1, ae_bench := ae_bench r + bench_delta,
                    ae_broken := ae_broken r + broken_delta, ae_last_seen := ao_snapshot obs\<rparr>)
           in (merged + 1, g\<lparr>ag_edges := AList.update key (r\<lparr>ae_label := cypher_label r\<rparr>) (ag_edges g)\<rparr>)))"

definition merge_graph :: "block_key list \<Rightarrow> adj_observation list \<Rightarrow> adj_graph \<Rightarrow> (nat \<times> nat) \<times> adj_graph" where
  "merge_graph keys observations g =
     (case fold merge_edge observations (0, merge_nodes keys g) of
        (edges, g') \<Rightarrow> ((length keys, edges), g'))"

subsection \<open>The build run\<close>

text \<open>What the relational database answers: the rows of a scan, the placement rows of a map version (\<open>None\<close>: the
  query fails) and the map's snapshot (\<open>None\<close>: the query fails or the map is gone, either of which adds
  one error). \<open>gb_collate\<close> is the collation of the tables. A scan of \<open>gb_maps\<close> that fails ends the run before it starts.\<close>

record graph_map_row =
  gm_id :: int
  gm_parser_version :: string
  gm_parse_status :: string
  gm_snapshot :: string

record graph_source =
  gb_collate :: "char \<Rightarrow> char"
  gb_maps :: "graph_map_row list"
  gb_placements :: "int \<Rightarrow> string \<Rightarrow> (int \<times> adj_placement) list option"
  gb_snapshot_now :: "int \<Rightarrow> string option"

text \<open>How a write transaction ends, after the driver's retries: it is committed, or it is refused and
  leaves no trace, or it is committed and the acknowledgement is lost, which the driver does not retry.
  An exhausted list of outcomes commits.\<close>

datatype tx_outcome = Tx_committed | Tx_refused | Tx_unacknowledged

record graph_world =
  gw_graph :: adj_graph
  gw_commits :: "tx_outcome list"

datatype build_exn = WriteFailed | ReadFailed | BuildPy py_error

definition next_outcome :: "graph_world \<Rightarrow> tx_outcome" where
  "next_outcome w = (case gw_commits w of [] \<Rightarrow> Tx_committed | outcome # _ \<Rightarrow> outcome)"

definition execute_write :: "(adj_graph \<Rightarrow> 'a \<times> adj_graph) \<Rightarrow> graph_world \<Rightarrow> (build_exn + 'a) \<times> graph_world" where
  "execute_write tx w =
     (let w' = w\<lparr>gw_commits := tl (gw_commits w)\<rparr>
      in case (next_outcome w, tx (gw_graph w)) of
           (Tx_committed, v, g) \<Rightarrow> (Inr v, w'\<lparr>gw_graph := g\<rparr>)
         | (Tx_refused, _) \<Rightarrow> (Inl WriteFailed, w')
         | (Tx_unacknowledged, v, g) \<Rightarrow> (Inl WriteFailed, w'\<lparr>gw_graph := g\<rparr>))"

record build_stats =
  bs_maps_seen :: nat
  bs_maps_processed :: nat
  bs_already_processed :: nat
  bs_no_placements :: nat
  bs_observations :: nat
  bs_nodes_merged :: nat
  bs_edges_merged :: nat
  bs_errors :: "int list"

definition build_stats_init :: build_stats where
  "build_stats_init = \<lparr>bs_maps_seen = 0, bs_maps_processed = 0, bs_already_processed = 0,
     bs_no_placements = 0, bs_observations = 0, bs_nodes_merged = 0, bs_edges_merged = 0, bs_errors = []\<rparr>"

record build_params =
  bp_snapshot :: "string option"
  bp_map_ids :: "int list option"
  bp_parser_version :: "string option"
  bp_benchmark_strong :: "int set"
  bp_broken_fixture :: "int set"

definition fetch_candidate_maps :: "graph_source \<Rightarrow> build_params \<Rightarrow> (int \<times> string) list" where
  "fetch_candidate_maps src ps =
     (if bp_map_ids ps = Some [] then []
      else map (\<lambda>r. (gm_id r, gm_parser_version r))
        (sort_key gm_id (filter (\<lambda>r. gm_parse_status r = ''success'' \<and>
            (case bp_snapshot ps of None \<Rightarrow> True | Some s \<Rightarrow> map (gb_collate src) (gm_snapshot r) = map (gb_collate src) s) \<and>
            (case bp_parser_version ps of None \<Rightarrow> True | Some v \<Rightarrow> map (gb_collate src) (gm_parser_version r) = map (gb_collate src) v) \<and>
            (case bp_map_ids ps of None \<Rightarrow> True | Some ids \<Rightarrow> gm_id r \<in> set ids)) (gb_maps src))))"

text \<open>Grid rows in placement order; \<open>int(None)\<close> of a missing coordinate is a TypeError.\<close>

definition fetch_placements :: "graph_source \<Rightarrow> int \<Rightarrow> string \<Rightarrow> build_exn + adj_placement list" where
  "fetch_placements src map_id parser_version =
     (case gb_placements src map_id parser_version of
        None \<Rightarrow> Inl ReadFailed
      | Some answer \<Rightarrow>
          (let rows = map snd (sort_key fst (filter (\<lambda>(i, p). \<not> ap_is_free p) answer))
           in if list_ex (\<lambda>p. fst (ap_cell p) = None \<or> fst (snd (ap_cell p)) = None \<or> snd (snd (ap_cell p)) = None) rows
              then Inl (BuildPy TypeError) else Inr rows))"

definition effective_snapshot :: "graph_source \<Rightarrow> build_params \<Rightarrow> int \<Rightarrow> string option" where
  "effective_snapshot src ps map_id =
     (case bp_snapshot ps of Some snapshot \<Rightarrow> Some snapshot | None \<Rightarrow> gb_snapshot_now src map_id)"

definition process_one :: "graph_source \<Rightarrow> build_params \<Rightarrow> int \<times> string \<Rightarrow> build_stats \<Rightarrow> graph_world
    \<Rightarrow> (build_exn + build_stats) \<times> graph_world" where
  "process_one src ps row stats w =
     (case fetch_placements src (fst row) (snd row) of
        Inl e \<Rightarrow> (Inl e, w)
      | Inr placements \<Rightarrow>
          if placements = [] then (Inr (stats\<lparr>bs_no_placements := bs_no_placements stats + 1\<rparr>), w)
          else case effective_snapshot src ps (fst row) of
              None \<Rightarrow> (Inr (stats\<lparr>bs_errors := bs_errors stats @ [fst row]\<rparr>), w)
            | Some snapshot \<Rightarrow>
                (case execute_write (claim_map (fst row, snapshot, snd row)) w of
                   (Inl e, w1) \<Rightarrow> (Inl e, w1)
                 | (Inr was_new, w1) \<Rightarrow>
                     if \<not> was_new then (Inr (stats\<lparr>bs_already_processed := bs_already_processed stats + 1\<rparr>), w1)
                     else (case extract_adjacencies placements snapshot
                          (fst row \<in> bp_benchmark_strong ps) (fst row \<in> bp_broken_fixture ps) of
                        Inl e \<Rightarrow> (Inl (BuildPy e), w1)
                      | Inr observations \<Rightarrow>
                          if observations = [] then (Inr (stats\<lparr>bs_maps_processed := bs_maps_processed stats + 1\<rparr>), w1)
                          else (case execute_write (merge_graph (unique_block_keys observations) observations) w1 of
                             (Inl e, w2) \<Rightarrow> (Inl e, w2)
                           | (Inr (nodes, edges), w2) \<Rightarrow>
                               (Inr (stats\<lparr>bs_maps_processed := bs_maps_processed stats + 1,
                                  bs_observations := bs_observations stats + length observations,
                                  bs_nodes_merged := bs_nodes_merged stats + nodes,
                                  bs_edges_merged := bs_edges_merged stats + edges\<rparr>), w2)))))"

text \<open>The loop: an exception of one map is recorded and the run goes on.\<close>

fun build_loop :: "graph_source \<Rightarrow> build_params \<Rightarrow> (int \<times> string) list \<Rightarrow> build_stats \<Rightarrow> graph_world
    \<Rightarrow> build_stats \<times> graph_world" where
  "build_loop src ps [] stats w = (stats, w)"
| "build_loop src ps (row # rows) stats w =
     (let seen = stats\<lparr>bs_maps_seen := bs_maps_seen stats + 1\<rparr>
      in case process_one src ps row seen w of
           (Inl e, w1) \<Rightarrow> build_loop src ps rows (seen\<lparr>bs_errors := bs_errors seen @ [fst row]\<rparr>) w1
         | (Inr stats1, w1) \<Rightarrow> build_loop src ps rows stats1 w1)"

definition build_graph :: "graph_source \<Rightarrow> build_params \<Rightarrow> graph_world \<Rightarrow> build_stats \<times> graph_world" where
  "build_graph src ps w = build_loop src ps (fetch_candidate_maps src ps) build_stats_init w"

subsection \<open>Keys\<close>

definition key_ok :: "block_key \<Rightarrow> bool" where
  "key_ok k \<longleftrightarrow> bk_family k \<noteq> [] \<and> bk_type k \<noteq> [] \<and> \<not> has_bar (bk_family k) \<and> \<not> has_bar (bk_type k) \<and> \<not> has_bar (bk_variant k)"

lemma make_key_iff: "make_key f t v = Inr k \<longleftrightarrow> k = \<lparr>bk_family = f, bk_type = t, bk_variant = v\<rparr> \<and> key_ok k"
  by (auto simp: make_key_def key_ok_def)

lemma make_key_ok: "make_key f t v = Inr k \<Longrightarrow> key_ok k"
  by (auto simp: make_key_iff)

lemma split_bars_free: "\<not> has_bar p \<Longrightarrow> split_bars p = [p]"
  by (induction p) (auto simp: has_bar_def)

lemma split_bars_append: "\<not> has_bar p \<Longrightarrow> split_bars (p @ CHR ''|'' # s) = p # split_bars s"
  by (induction p) (auto simp: has_bar_def)

text \<open>The text of a key can be read back.\<close>

lemma key_roundtrip: "key_ok k \<Longrightarrow> from_normalized (normalized_key k) = Inr k"
  by (cases k) (simp add: from_normalized_def normalized_key_def split_bars_append split_bars_free
      make_key_iff key_ok_def)

lemma normalized_key_inj: "key_ok k \<Longrightarrow> key_ok k' \<Longrightarrow> normalized_key k = normalized_key k' \<longleftrightarrow> k = k'"
  by (metis key_roundtrip sum.inject(2))

lemma order_pair_cases:
  "order_pair a b = (x, y) \<Longrightarrow> {x, y} = {a, b} \<and> normalized_key x \<le> normalized_key y"
  by (auto simp: order_pair_def split: if_splits)

lemma order_pair_sym: "key_ok a \<Longrightarrow> key_ok b \<Longrightarrow> order_pair a b = order_pair b a"
  using normalized_key_inj [of a b] by (auto simp: order_pair_def)

subsection \<open>The label policy never looks at frequency\<close>

lemma label_total:
  "0 \<le> b \<Longrightarrow> 0 \<le> f \<Longrightarrow> 0 \<le> r \<Longrightarrow> \<exists>l \<in> ALL_LABELS. derive_validity_label b f r n = Inr l"
  by (auto simp: derive_validity_label_def ALL_LABELS_def)

lemma label_ignores_frequency: "derive_validity_label b f r n = derive_validity_label b f r m"
  by (simp add: derive_validity_label_def)

lemma label_cases:
  assumes "derive_validity_label b f r n = Inr l"
  shows "l = VALID \<longleftrightarrow> 1 \<le> b" "l = SUSPICIOUS \<longleftrightarrow> b = 0 \<and> 0 < f \<and> r = 0"
  using assms by (auto simp: derive_validity_label_def VALID_def SUSPICIOUS_def UNKNOWN_def split: if_splits)

text \<open>The \<open>CASE\<close> of the edge query is the policy.\<close>

lemma cypher_label_eq:
  "0 \<le> ae_bench r \<Longrightarrow> 0 \<le> ae_broken r \<Longrightarrow> 0 \<le> ae_replay r \<Longrightarrow>
    derive_validity_label (ae_bench r) (ae_broken r) (ae_replay r) (ae_observed r) = Inr (cypher_label r)"
  by (auto simp: derive_validity_label_def cypher_label_def VALID_def SUSPICIOUS_def UNKNOWN_def)

subsection \<open>What one map contributes\<close>

definition placed_cell :: "adj_placement \<Rightarrow> cell option" where
  "placed_cell p = (case (ap_is_free p, ap_cell p) of
     (False, Some x, Some y, Some z) \<Rightarrow> Some (x, y, z) | _ \<Rightarrow> None)"

lemma index_cells_Cons:
  "index_cells (p # ps) by_cell =
    (case placed_cell p of
       None \<Rightarrow> index_cells ps by_cell
     | Some c \<Rightarrow> (case block_key_from_placement p of
          Inl e \<Rightarrow> Inl e
        | Inr k \<Rightarrow> index_cells ps (if map_of by_cell c = None then by_cell @ [(c, k)] else by_cell)))"
  by (auto simp: placed_cell_def split: bool.splits option.splits prod.splits)

declare index_cells.simps(2) [simp del]

text \<open>The first block of a cell wins.\<close>

definition key_at :: "adj_placement list \<Rightarrow> cell \<rightharpoonup> block_key" where
  "key_at ps c = (case find (\<lambda>p. placed_cell p = Some c) ps of
     None \<Rightarrow> None | Some p \<Rightarrow> (case block_key_from_placement p of Inl _ \<Rightarrow> None | Inr k \<Rightarrow> Some k))"

lemma map_of_snoc: "map_of (xs @ [(k, v)]) x = (case map_of xs x of Some w \<Rightarrow> Some w | None \<Rightarrow> if x = k then Some v else None)"
  by (auto simp: map_add_def split: option.splits)

lemma index_cells_ok:
  assumes "distinct (map fst by_cell)"
  shows "case index_cells ps by_cell of
      Inl e \<Rightarrow> \<exists>p \<in> set ps. placed_cell p \<noteq> None \<and> block_key_from_placement p = Inl e
    | Inr res \<Rightarrow> distinct (map fst res) \<and>
        (\<forall>p \<in> set ps. placed_cell p \<noteq> None \<longrightarrow> (\<exists>k. block_key_from_placement p = Inr k)) \<and>
        map_of res = (\<lambda>c. case map_of by_cell c of Some k \<Rightarrow> Some k | None \<Rightarrow> key_at ps c)"
  using assms
proof (induction ps arbitrary: by_cell)
  case Nil
  then show ?case by (auto simp: key_at_def fun_eq_iff split: option.split)
next
  case (Cons p ps)
  show ?case
  proof (cases "placed_cell p")
    case None
    have eq: "key_at (p # ps) = key_at ps" using None by (simp add: key_at_def fun_eq_iff)
    show ?thesis using Cons.IH [OF Cons.prems] None unfolding eq by (auto simp: index_cells_Cons split: sum.splits)
  next
    case (Some c)
    show ?thesis
    proof (cases "block_key_from_placement p")
      case (Inl e)
      then show ?thesis using Some by (auto simp: index_cells_Cons)
    next
      case (Inr k)
      let ?b = "if map_of by_cell c = None then by_cell @ [(c, k)] else by_cell"
      have d: "distinct (map fst ?b)" using Cons.prems by (auto simp: map_of_eq_None_iff)
      have "(\<lambda>x. case map_of ?b x of Some k \<Rightarrow> Some k | None \<Rightarrow> key_at ps x) =
          (\<lambda>x. case map_of by_cell x of Some k \<Rightarrow> Some k | None \<Rightarrow> key_at (p # ps) x)"
        using Some Inr by (auto simp: fun_eq_iff map_of_snoc key_at_def split: option.split)
      then show ?thesis
        using Cons.IH [OF d] Some Inr by (auto simp: index_cells_Cons split: sum.splits)
    qed
  qed
qed

definition pair_id :: "adj_observation \<Rightarrow> string \<times> string" where
  "pair_id obs = (normalized_key (ao_a obs), normalized_key (ao_b obs))"

text \<open>The ordered pairs of touching keys, in the order they are met.\<close>

definition touching :: "(cell \<rightharpoonup> block_key) \<Rightarrow> ((cell \<times> block_key) \<times> cell) list \<Rightarrow> (block_key \<times> block_key) list" where
  "touching by_cell work = List.map_filter (\<lambda>((c, k), d). map_option (order_pair k) (by_cell (shift c d))) work"

definition key_texts :: "block_key \<times> block_key \<Rightarrow> string \<times> string" where
  "key_texts = map_prod normalized_key normalized_key"

definition stamped :: "string \<Rightarrow> bool \<Rightarrow> bool \<Rightarrow> adj_observation \<Rightarrow> bool" where
  "stamped snapshot bench broken obs \<longleftrightarrow> ao_snapshot obs = snapshot \<and> ao_bench obs = bench \<and>
     ao_broken obs = broken \<and> normalized_key (ao_a obs) \<le> normalized_key (ao_b obs)"

lemma collect_pairs_ok:
  assumes "distinct (map pair_id out)" "set seen = pair_id ` set out" "\<forall>obs \<in> set out. stamped snapshot bench broken obs"
  shows "\<exists>res. collect_pairs by_cell snapshot bench broken work seen out = Inr res \<and> distinct (map pair_id res) \<and>
    (\<forall>obs \<in> set res. stamped snapshot bench broken obs) \<and>
    pair_id ` set res = pair_id ` set out \<union> key_texts ` set (touching by_cell work) \<and>
    (\<forall>obs \<in> set res. obs \<in> set out \<or> (ao_a obs, ao_b obs) \<in> set (touching by_cell work))"
  using assms
proof (induction work arbitrary: seen out)
  case Nil
  then show ?case by (auto simp: touching_def)
next
  case (Cons w work)
  obtain c k d where w: "w = ((c, k), d)" by (metis prod.exhaust)
  show ?case
  proof (cases "by_cell (shift c d)")
    case None
    then have "touching by_cell (w # work) = touching by_cell work"
      by (simp add: touching_def map_filter_Cons w)
    moreover have "collect_pairs by_cell snapshot bench broken (w # work) seen out =
        collect_pairs by_cell snapshot bench broken work seen out" using None by (simp add: w)
    ultimately show ?thesis using Cons.IH [OF Cons.prems] by simp
  next
    case (Some k')
    obtain a b where ab: "order_pair k k' = (a, b)" by fastforce
    have le: "normalized_key a \<le> normalized_key b" using order_pair_cases [OF ab] by simp
    let ?id = "(normalized_key a, normalized_key b)"
    have new: "touching by_cell (w # work) = (a, b) # touching by_cell work"
      using Some ab by (simp add: touching_def map_filter_Cons w)
    have idt: "key_texts (a, b) = ?id" by (simp add: key_texts_def)
    show ?thesis
    proof (cases "?id \<in> set seen")
      case True
      then have "collect_pairs by_cell snapshot bench broken (w # work) seen out =
          collect_pairs by_cell snapshot bench broken work seen out"
        using Some ab by (simp add: w)
      moreover have "?id \<in> pair_id ` set out" using True Cons.prems(2) by simp
      moreover obtain res where "collect_pairs by_cell snapshot bench broken work seen out = Inr res"
        "distinct (map pair_id res)" "\<forall>obs \<in> set res. stamped snapshot bench broken obs"
        "pair_id ` set res = pair_id ` set out \<union> key_texts ` set (touching by_cell work)"
        "\<forall>obs \<in> set res. obs \<in> set out \<or> (ao_a obs, ao_b obs) \<in> set (touching by_cell work)"
        using Cons.IH [OF Cons.prems] by blast
      ultimately show ?thesis unfolding new by (auto simp: idt insert_absorb)
    next
      case False
      define obs where "obs = \<lparr>ao_a = a, ao_b = b, ao_snapshot = snapshot, ao_bench = bench, ao_broken = broken\<rparr>"
      have id: "pair_id obs = ?id" "(ao_a obs, ao_b obs) = (a, b)" by (simp_all add: pair_id_def obs_def)
      have step: "collect_pairs by_cell snapshot bench broken (w # work) seen out =
          collect_pairs by_cell snapshot bench broken work (?id # seen) (out @ [obs])"
        using Some ab leD [OF le] False by (simp add: w make_observation_def obs_def)
      have d1: "distinct (map pair_id (out @ [obs]))" using Cons.prems(1,2) False id by auto
      have d2: "set (?id # seen) = pair_id ` set (out @ [obs])" using Cons.prems(2) id by auto
      have d3: "\<forall>ob \<in> set (out @ [obs]). stamped snapshot bench broken ob"
        using Cons.prems(3) le by (auto simp: obs_def stamped_def)
      obtain res where r: "collect_pairs by_cell snapshot bench broken work (?id # seen) (out @ [obs]) = Inr res"
        "distinct (map pair_id res)" "\<forall>obs \<in> set res. stamped snapshot bench broken obs"
        "pair_id ` set res = pair_id ` set (out @ [obs]) \<union> key_texts ` set (touching by_cell work)"
        "\<forall>ob \<in> set res. ob \<in> set (out @ [obs]) \<or> (ao_a ob, ao_b ob) \<in> set (touching by_cell work)"
        using Cons.IH [OF d1 d2 d3] by blast
      have "pair_id ` set res = pair_id ` set out \<union> key_texts ` set ((a, b) # touching by_cell work)"
        unfolding r(4) by (simp add: idt id(1) insert_commute)
      moreover have "\<forall>ob \<in> set res. ob \<in> set out \<or> (ao_a ob, ao_b ob) \<in> set ((a, b) # touching by_cell work)"
        using r(5) id(2) by auto
      ultimately show ?thesis unfolding new step using r(1,2,3) by blast
    qed
  qed
qed

text \<open>
  The adjacencies of a map: extraction fails exactly when a grid block has a malformed key; otherwise
  every unordered pair of keys that meet on two touching cells is observed once.
\<close>

definition keys_touch :: "adj_placement list \<Rightarrow> block_key \<Rightarrow> block_key \<Rightarrow> bool" where
  "keys_touch ps k k' \<longleftrightarrow> (\<exists>c. \<exists>d \<in> set AXIS_NEIGHBOR_OFFSETS. key_at ps c = Some k \<and> key_at ps (shift c d) = Some k')"

theorem adjacencies_exact:
  "case extract_adjacencies ps snapshot bench broken of
     Inl e \<Rightarrow> e = ValueError \<and> (\<exists>p \<in> set ps. placed_cell p \<noteq> None \<and> block_key_from_placement p = Inl ValueError)
   | Inr res \<Rightarrow> (\<forall>p \<in> set ps. placed_cell p \<noteq> None \<longrightarrow> (\<exists>k. block_key_from_placement p = Inr k)) \<and>
       distinct (map (\<lambda>obs. (ao_a obs, ao_b obs)) res) \<and>
       (\<forall>obs \<in> set res. stamped snapshot bench broken obs \<and> key_ok (ao_a obs) \<and> key_ok (ao_b obs)) \<and>
       (\<lambda>obs. (ao_a obs, ao_b obs)) ` set res = {order_pair k k' | k k'. keys_touch ps k k'}"
proof -
  have err: "block_key_from_placement p = Inl e \<Longrightarrow> e = ValueError" for p e
    by (auto simp: block_key_from_placement_def make_key_def split: if_splits)
  have kok: "key_at ps c = Some k \<Longrightarrow> key_ok k" for c k
    by (auto simp: key_at_def block_key_from_placement_def make_key_iff split: option.splits sum.splits)
  show ?thesis
  proof (cases "index_cells ps []")
    case (Inl e)
    then show ?thesis using index_cells_ok [of "[]" ps] err by (auto simp: extract_adjacencies_def)
  next
    case (Inr cells)
    have cells: "distinct (map fst cells)" "map_of cells = key_at ps"
      "\<forall>p \<in> set ps. placed_cell p \<noteq> None \<longrightarrow> (\<exists>k. block_key_from_placement p = Inr k)"
      using index_cells_ok [of "[]" ps] Inr by auto
    define work where "work = concat (map (\<lambda>entry. map (Pair entry) AXIS_NEIGHBOR_OFFSETS) cells)"
    obtain res where res: "extract_adjacencies ps snapshot bench broken = Inr res" "distinct (map pair_id res)"
      "\<forall>obs \<in> set res. stamped snapshot bench broken obs"
      "pair_id ` set res = key_texts ` set (touching (key_at ps) work)"
      "\<forall>obs \<in> set res. (ao_a obs, ao_b obs) \<in> set (touching (key_at ps) work)"
      using collect_pairs_ok [of "[]" "[]" snapshot bench broken "map_of cells" work] Inr cells(2)
      by (auto simp: extract_adjacencies_def work_def)
    have t: "set (touching (key_at ps) work) = {order_pair k k' | k k'. keys_touch ps k k'}"
    proof -
      have "((c, k), d) \<in> set work \<longleftrightarrow> key_at ps c = Some k \<and> d \<in> set AXIS_NEIGHBOR_OFFSETS" for c k d
      proof -
        have "((c, k), d) \<in> set work \<longleftrightarrow> (c, k) \<in> set cells \<and> d \<in> set AXIS_NEIGHBOR_OFFSETS"
          by (force simp: work_def)
        then show ?thesis using map_of_eq_Some_iff [OF cells(1)] cells(2) by simp
      qed
      note w = this
      have "x \<in> set (touching (key_at ps) work) \<longleftrightarrow>
          (\<exists>c k d k'. ((c, k), d) \<in> set work \<and> key_at ps (shift c d) = Some k' \<and> order_pair k k' = x)" for x
        by (induction work) (auto simp: touching_def map_filter_Cons split: option.splits)
      then have "x \<in> set (touching (key_at ps) work) \<longleftrightarrow> (\<exists>k k'. x = order_pair k k' \<and> keys_touch ps k k')" for x
        unfolding w keys_touch_def by metis
      then show ?thesis by blast
    qed
    have okp: "key_ok a \<and> key_ok b" if "(a, b) \<in> set (touching (key_at ps) work)" for a b
    proof -
      obtain k k' where "(a, b) = order_pair k k'" "keys_touch ps k k'" using \<open>(a, b) \<in> _\<close> unfolding t by blast
      then show ?thesis using kok by (auto simp: order_pair_def keys_touch_def split: if_splits)
    qed
    have inj: "inj_on key_texts (set (touching (key_at ps) work))"
      using okp by (auto simp: inj_on_def key_texts_def normalized_key_inj)
    have pid: "pair_id obs = key_texts (ao_a obs, ao_b obs)" for obs by (simp add: pair_id_def key_texts_def)
    have "(\<lambda>obs. (ao_a obs, ao_b obs)) ` set res = set (touching (key_at ps) work)"
    proof
      show "(\<lambda>obs. (ao_a obs, ao_b obs)) ` set res \<subseteq> set (touching (key_at ps) work)" using res(5) by auto
      have "key_texts ` (\<lambda>obs. (ao_a obs, ao_b obs)) ` set res = key_texts ` set (touching (key_at ps) work)"
        using res(4) by (simp add: image_image pid)
      then show "set (touching (key_at ps) work) \<subseteq> (\<lambda>obs. (ao_a obs, ao_b obs)) ` set res"
        using inj res(5) by (metis (no_types, lifting) \<open>(\<lambda>obs. (ao_a obs, ao_b obs)) ` set res \<subseteq> set (touching (key_at ps) work)\<close>
            inj_on_image_eq_iff order_refl)
    qed
    moreover have "distinct (map (\<lambda>obs. (ao_a obs, ao_b obs)) res)"
    proof -
      have "map pair_id res = map key_texts (map (\<lambda>obs. (ao_a obs, ao_b obs)) res)" by (simp add: pid)
      then show ?thesis using res(2) by (metis distinct_map)
    qed
    moreover have "\<forall>obs \<in> set res. key_ok (ao_a obs) \<and> key_ok (ao_b obs)" using okp res(5) by blast
    ultimately show ?thesis using res(1,3) cells(3) unfolding t by simp
  qed
qed

subsection \<open>The evidence of an edge\<close>

definition occurrences :: "string \<times> string \<Rightarrow> adj_observation list \<Rightarrow> adj_observation list" where
  "occurrences key all = filter (\<lambda>obs. pair_id obs = key) all"

definition edge_of :: "adj_observation list \<Rightarrow> adj_edge option" where
  "edge_of xs = (if xs = [] then None else
     (let r = \<lparr>ae_observed = int (length xs), ae_bench = int (length (filter ao_bench xs)),
          ae_broken = int (length (filter ao_broken xs)), ae_replay = 0, ae_label = '''',
          ae_first_seen = ao_snapshot (hd xs), ae_last_seen = ao_snapshot (List.last xs)\<rparr>
      in Some (r\<lparr>ae_label := cypher_label r\<rparr>)))"

definition evidence_ok :: "adj_observation list \<Rightarrow> adj_graph \<Rightarrow> bool" where
  "evidence_ok all g \<longleftrightarrow> (\<forall>key. map_of (ag_edges g) key = edge_of (occurrences key all))"

definition nodes_cover :: "adj_observation list \<Rightarrow> adj_graph \<Rightarrow> bool" where
  "nodes_cover all g \<longleftrightarrow> (\<forall>obs \<in> set all. map_of (ag_nodes g) (normalized_key (ao_a obs)) \<noteq> None \<and>
     map_of (ag_nodes g) (normalized_key (ao_b obs)) \<noteq> None)"

lemma edge_of_snoc:
  "edge_of (xs @ [obs]) =
    (let r = (case edge_of xs of
         None \<Rightarrow> \<lparr>ae_observed = 1, ae_bench = (if ao_bench obs then 1 else 0), ae_broken = (if ao_broken obs then 1 else 0),
             ae_replay = 0, ae_label = '''', ae_first_seen = ao_snapshot obs, ae_last_seen = ao_snapshot obs\<rparr>
       | Some r \<Rightarrow> r\<lparr>ae_observed := ae_observed r + 1, ae_bench := ae_bench r + (if ao_bench obs then 1 else 0),
             ae_broken := ae_broken r + (if ao_broken obs then 1 else 0), ae_last_seen := ao_snapshot obs\<rparr>)
     in Some (r\<lparr>ae_label := cypher_label r\<rparr>))"
  by (cases xs) (auto simp: edge_of_def Let_def cypher_label_def)

lemma merge_edge_ok:
  assumes "evidence_ok all g" "nodes_cover [obs] g"
  obtains g' where "merge_edge obs (m, g) = (m + 1, g')" "evidence_ok (all @ [obs]) g'"
    "ag_nodes g' = ag_nodes g" "ag_processed g' = ag_processed g"
proof -
  have "evidence_ok (all @ [obs]) (snd (merge_edge obs (m, g)))"
    unfolding evidence_ok_def
  proof
    fix key
    show "map_of (ag_edges (snd (merge_edge obs (m, g)))) key = edge_of (occurrences key (all @ [obs]))"
    proof (cases "pair_id obs = key")
      case True
      then have "edge_of (occurrences key (all @ [obs])) = edge_of (occurrences key all @ [obs])"
        by (simp add: occurrences_def)
      then show ?thesis using assms True
        by (auto simp: merge_edge_def edge_of_snoc evidence_ok_def nodes_cover_def pair_id_def Let_def update_conv')
    next
      case False
      then show ?thesis using assms
        by (auto simp: merge_edge_def occurrences_def evidence_ok_def nodes_cover_def pair_id_def Let_def update_conv')
    qed
  qed
  moreover have "fst (merge_edge obs (m, g)) = m + 1" "ag_nodes (snd (merge_edge obs (m, g))) = ag_nodes g"
    "ag_processed (snd (merge_edge obs (m, g))) = ag_processed g"
    using assms(2) by (auto simp: merge_edge_def nodes_cover_def Let_def)
  ultimately show ?thesis using that by (metis prod.collapse)
qed

lemma merge_edges_ok:
  assumes "evidence_ok all g" "nodes_cover obss g"
  obtains g' where "fold merge_edge obss (m, g) = (m + length obss, g')" "evidence_ok (all @ obss) g'"
    "ag_nodes g' = ag_nodes g" "ag_processed g' = ag_processed g"
  using assms
proof (induction obss arbitrary: all m g thesis)
  case Nil
  then show ?case by simp
next
  case (Cons obs obss)
  from Cons.prems(3) have "nodes_cover [obs] g" by (simp add: nodes_cover_def)
  with Cons.prems(2) obtain g1 where g1: "merge_edge obs (m, g) = (m + 1, g1)" "evidence_ok (all @ [obs]) g1"
    "ag_nodes g1 = ag_nodes g" "ag_processed g1 = ag_processed g" by (rule merge_edge_ok)
  then have "nodes_cover obss g1" using Cons.prems(3) by (simp add: nodes_cover_def)
  then obtain g2 where "fold merge_edge obss (m + 1, g1) = (m + 1 + length obss, g2)"
    "evidence_ok ((all @ [obs]) @ obss) g2" "ag_nodes g2 = ag_nodes g1" "ag_processed g2 = ag_processed g1"
    using Cons.IH [OF _ g1(2)] by metis
  then show ?case using Cons.prems(1) g1 by simp
qed

text \<open>The node pass creates every node the edge pass matches on.\<close>

lemma merge_nodes_dom:
  "dom (map_of (ag_nodes (merge_nodes keys g))) = dom (map_of (ag_nodes g)) \<union> normalized_key ` set keys"
proof -
  have "dom (map_of (fold (\<lambda>k nodes. if map_of nodes (normalized_key k) = None
      then AList.update (normalized_key k) k nodes else nodes) keys nodes)) =
    dom (map_of nodes) \<union> normalized_key ` set keys" for nodes
    by (induction keys arbitrary: nodes) (auto simp: update_conv' domIff)
  then show ?thesis by (simp add: merge_nodes_def)
qed

lemma unique_block_keys_set:
  "normalized_key ` set (unique_block_keys obss) = (\<Union>obs \<in> set obss. {normalized_key (ao_a obs), normalized_key (ao_b obs)})"
proof -
  define add where "add = (\<lambda>k seen. if map_of seen (normalized_key k) = None then seen @ [(normalized_key k, k)] else seen)"
  have step: "fst ` set (add k seen) = insert (normalized_key k) (fst ` set seen)"
    "(\<forall>(t, k') \<in> set seen. t = normalized_key k') \<Longrightarrow> \<forall>(t, k') \<in> set (add k seen). t = normalized_key k'" for k seen
    by (auto simp: add_def map_of_eq_None_iff)
  have keys: "fst ` set (fold add ks seen) = fst ` set seen \<union> normalized_key ` set ks" for ks seen
    by (induction ks arbitrary: seen) (simp_all add: step(1))
  have vals: "(\<forall>(t, k) \<in> set seen. t = normalized_key k) \<Longrightarrow> \<forall>(t, k) \<in> set (fold add ks seen). t = normalized_key k" for ks seen
  proof (induction ks arbitrary: seen)
    case (Cons k ks)
    from Cons.IH [OF step(2) [OF Cons.prems]] show ?case by simp
  qed simp
  let ?ks = "concat (map (\<lambda>obs. [ao_a obs, ao_b obs]) obss)"
  have "(normalized_key \<circ> snd) ` set (fold add ?ks []) = fst ` set (fold add ?ks [])"
    using vals [of "[]" ?ks] by (intro image_cong) auto
  then have "normalized_key ` set (unique_block_keys obss) = fst ` set (fold add ?ks [])"
    by (simp add: unique_block_keys_def add_def image_image)
  then show ?thesis using keys [of ?ks "[]"] by auto
qed

lemma merge_graph_ok:
  assumes "evidence_ok all g"
  obtains nodes g' where "merge_graph (unique_block_keys obss) obss g = ((nodes, length obss), g')"
    "evidence_ok (all @ obss) g'" "ag_processed g' = ag_processed g"
proof -
  let ?g = "merge_nodes (unique_block_keys obss) g"
  have "evidence_ok all ?g" using assms by (simp add: evidence_ok_def merge_nodes_def)
  moreover have "nodes_cover obss ?g"
    using merge_nodes_dom [of "unique_block_keys obss" g] unique_block_keys_set [of obss]
    by (fastforce simp: nodes_cover_def domIff set_eq_iff)
  ultimately obtain g' where "fold merge_edge obss (0, ?g) = (0 + length obss, g')" "evidence_ok (all @ obss) g'"
    "ag_processed g' = ag_processed ?g" by (rule merge_edges_ok)
  then show ?thesis using that by (simp add: merge_graph_def merge_nodes_def)
qed

subsection \<open>Every edge counts each claimed map at most once\<close>

type_synonym graph_run = "graph_source \<times> build_params"
type_synonym graph_batch = "map_claim \<times> adj_observation list"

definition build_runs :: "graph_run list \<Rightarrow> graph_world \<Rightarrow> graph_world" where
  "build_runs runs w = fold (\<lambda>(src, ps) w. snd (build_graph src ps w)) runs w"

definition empty_graph :: adj_graph where
  "empty_graph = \<lparr>ag_processed = [], ag_nodes = [], ag_edges = []\<rparr>"

text \<open>What a map of a run would merge.\<close>

definition batch_of :: "graph_run \<Rightarrow> graph_batch \<Rightarrow> bool" where
  "batch_of run b = (case (run, b) of ((src, ps), ((m, s, v), obss)) \<Rightarrow>
     (m, v) \<in> set (fetch_candidate_maps src ps) \<and>
     effective_snapshot src ps m = Some s \<and>
     (case fetch_placements src m v of Inl _ \<Rightarrow> False
      | Inr pl \<Rightarrow> extract_adjacencies pl s (m \<in> bp_benchmark_strong ps) (m \<in> bp_broken_fixture ps) = Inr obss))"

text \<open>A ledger of merged maps that explains a graph.\<close>

definition explained :: "graph_run list \<Rightarrow> graph_batch list \<Rightarrow> adj_graph \<Rightarrow> bool" where
  "explained runs ledger g \<longleftrightarrow> distinct (map fst ledger) \<and> fst ` set ledger \<subseteq> set (ag_processed g) \<and>
     distinct (ag_processed g) \<and> (\<forall>b \<in> set ledger. \<exists>run \<in> set runs. batch_of run b) \<and>
     evidence_ok (concat (map snd ledger)) g"

lemma execute_write_cases:
  "execute_write tx w = (Inl WriteFailed, w\<lparr>gw_commits := tl (gw_commits w)\<rparr>) \<or>
   (\<exists>v g res. tx (gw_graph w) = (v, g) \<and> (res = Inr v \<or> res = Inl WriteFailed) \<and>
      execute_write tx w = (res, w\<lparr>gw_commits := tl (gw_commits w), gw_graph := g\<rparr>))"
  by (cases "tx (gw_graph w)"; cases "next_outcome w") (simp_all add: execute_write_def Let_def)

lemma claim_explained:
  assumes "explained runs ledger g" "claim_map c g = (new, g')"
  shows "explained runs ledger g'" "new \<Longrightarrow> c \<in> set (ag_processed g') \<and> c \<notin> fst ` set ledger"
  using assms by (auto simp: claim_map_def explained_def evidence_ok_def split: if_splits)

lemma merge_explained:
  assumes "explained runs ledger g" "c \<in> set (ag_processed g)" "c \<notin> fst ` set ledger" "run \<in> set runs" "batch_of run (c, obss)"
    "merge_graph (unique_block_keys obss) obss g = (v, g')"
  shows "explained runs (ledger @ [(c, obss)]) g'"
proof -
  from assms(1) have "evidence_ok (concat (map snd ledger)) g" by (simp add: explained_def)
  then obtain nodes g2 where "merge_graph (unique_block_keys obss) obss g = ((nodes, length obss), g2)"
    "evidence_ok (concat (map snd ledger) @ obss) g2" "ag_processed g2 = ag_processed g" by (rule merge_graph_ok)
  then show ?thesis using assms by (auto simp: explained_def)
qed

lemma process_one_explained:
  assumes "explained runs ledger (gw_graph w)" "(src, ps) \<in> set runs" "row \<in> set (fetch_candidate_maps src ps)"
    "process_one src ps row stats w = (res, w')"
  shows "\<exists>ledger'. explained runs (ledger @ ledger') (gw_graph w')"
proof (cases "fetch_placements src (fst row) (snd row)")
  case (Inl e)
  then have "w' = w" using assms(4) by (simp add: process_one_def)
  then show ?thesis using assms(1) by (metis append_Nil2)
next
  case pl: (Inr pl)
  show ?thesis
  proof (cases "pl = [] \<or> effective_snapshot src ps (fst row) = None")
    case True
    then have "w' = w" using assms(4) pl by (auto simp: process_one_def split: if_splits)
    then show ?thesis using assms(1) by (metis append_Nil2)
  next
    case False
    then obtain s where s: "effective_snapshot src ps (fst row) = Some s"
      and ne: "pl \<noteq> []" by auto
    let ?c = "(fst row, s, snd row)"
    obtain r1 w1 where w1: "execute_write (claim_map ?c) w = (r1, w1)" by fastforce
    have keep: "explained runs ledger (gw_graph w1)"
      using execute_write_cases [of "claim_map ?c" w] w1 claim_explained(1) [OF assms(1)] assms(1) by auto
    show ?thesis
    proof (cases "r1 = Inr True \<and> (\<exists>obss. obss \<noteq> [] \<and> extract_adjacencies pl s
          (fst row \<in> bp_benchmark_strong ps) (fst row \<in> bp_broken_fixture ps) = Inr obss)")
      case False
      then have "w' = w1" using assms(4) pl s ne w1
        by (auto simp: process_one_def split: sum.splits if_splits)
      then show ?thesis using keep by (metis append_Nil2)
    next
      case True
      then obtain obss where obss: "r1 = Inr True" "obss \<noteq> []" "extract_adjacencies pl s
          (fst row \<in> bp_benchmark_strong ps) (fst row \<in> bp_broken_fixture ps) = Inr obss" by blast
      have new: "?c \<in> set (ag_processed (gw_graph w1))" "?c \<notin> fst ` set ledger"
      proof -
        have "claim_map ?c (gw_graph w) = (True, gw_graph w1)"
          using execute_write_cases [of "claim_map ?c" w] w1 obss(1) by auto
        then show "?c \<in> set (ag_processed (gw_graph w1))" "?c \<notin> fst ` set ledger"
          using claim_explained(2) [OF assms(1)] by blast+
      qed
      have b: "batch_of (src, ps) (?c, obss)"
        using assms(3) s pl obss(3) by (simp add: batch_of_def)
      obtain r2 w2 where w2: "execute_write (merge_graph (unique_block_keys obss) obss) w1 = (r2, w2)" by fastforce
      have "w' = w2" using assms(4) pl s ne w1 w2 obss
        by (auto simp: process_one_def split: sum.splits)
      moreover have "gw_graph w2 = gw_graph w1 \<or>
          (\<exists>v. merge_graph (unique_block_keys obss) obss (gw_graph w1) = (v, gw_graph w2))"
        using execute_write_cases [of "merge_graph (unique_block_keys obss) obss" w1] w2 by auto
      ultimately show ?thesis using keep merge_explained [OF keep new assms(2) b]
        by (metis append_Nil2)
    qed
  qed
qed

lemma build_loop_explained:
  assumes "explained runs ledger (gw_graph w)" "(src, ps) \<in> set runs" "set rows \<subseteq> set (fetch_candidate_maps src ps)"
  shows "\<exists>ledger'. explained runs (ledger @ ledger') (gw_graph (snd (build_loop src ps rows stats w)))"
  using assms(1,3)
proof (induction rows arbitrary: ledger stats w)
  case Nil
  then show ?case by (metis append_Nil2 build_loop.simps(1) snd_conv)
next
  case (Cons row rows)
  let ?seen = "stats\<lparr>bs_maps_seen := bs_maps_seen stats + 1\<rparr>"
  obtain res w1 where w1: "process_one src ps row ?seen w = (res, w1)" by fastforce
  obtain ledger1 where "explained runs (ledger @ ledger1) (gw_graph w1)"
    using process_one_explained [OF Cons.prems(1) assms(2) _ w1] Cons.prems(2) by auto
  then have IH: "\<exists>ledger2. explained runs (ledger @ ledger2) (gw_graph (snd (build_loop src ps rows stats' w1)))" for stats'
    using Cons.IH [of "ledger @ ledger1" w1 stats'] Cons.prems(2) by auto
  show ?case using IH w1 by (cases res) (simp_all add: Let_def)
qed

lemma build_runs_explained:
  assumes "explained runs ledger (gw_graph w)" "set rs \<subseteq> set runs"
  shows "\<exists>ledger'. explained runs (ledger @ ledger') (gw_graph (build_runs rs w))"
  using assms
proof (induction rs arbitrary: ledger w)
  case Nil
  then show ?case by (metis append_Nil2 build_runs_def fold_simps(1))
next
  case (Cons run rs)
  obtain src ps where run: "run = (src, ps)" by fastforce
  obtain ledger1 where "explained runs (ledger @ ledger1) (gw_graph (snd (build_graph src ps w)))"
    using build_loop_explained [OF Cons.prems(1)] Cons.prems(2) run by (fastforce simp: build_graph_def)
  then obtain ledger2 where "explained runs ((ledger @ ledger1) @ ledger2) (gw_graph (build_runs rs (snd (build_graph src ps w))))"
    using Cons.IH Cons.prems(2) by fastforce
  then show ?case by (auto simp: build_runs_def run)
qed

lemma occurrences_count:
  "distinct (map pair_id obss) \<Longrightarrow> length (filter P (occurrences key obss)) =
    (if \<exists>obs \<in> set obss. pair_id obs = key \<and> P obs then 1 else 0)"
proof (induction obss)
  case (Cons obs obss)
  show ?case
  proof (cases "pair_id obs = key")
    case True
    with Cons.prems have "\<forall>x \<in> set obss. pair_id x \<noteq> key" by (auto simp: image_iff)
    then have "occurrences key obss = []" "\<not> (\<exists>x \<in> set obss. pair_id x = key \<and> P x)"
      by (auto simp: occurrences_def filter_empty_conv)
    then show ?thesis using True by (simp add: occurrences_def)
  next
    case False
    then show ?thesis using Cons by (simp add: occurrences_def)
  qed
qed (simp add: occurrences_def)

lemma ledger_count:
  assumes "\<forall>b \<in> set ledger. distinct (map pair_id (snd b))"
  shows "length (filter P (occurrences key (concat (map snd ledger)))) =
    length (filter (\<lambda>b. \<exists>obs \<in> set (snd b). pair_id obs = key \<and> P obs) ledger)"
  using assms
proof (induction ledger)
  case (Cons b ledger)
  have "occurrences key (concat (map snd (b # ledger))) = occurrences key (snd b) @ occurrences key (concat (map snd ledger))"
    by (simp add: occurrences_def)
  then show ?case using Cons occurrences_count [of "snd b" P key] by simp
qed (simp add: occurrences_def)

lemma batch_distinct: "batch_of run b \<Longrightarrow> distinct (map pair_id (snd b))"
proof -
  assume "batch_of run b"
  then obtain pl s bench broken where x: "extract_adjacencies pl s bench broken = Inr (snd b)"
    by (auto simp: batch_of_def split: prod.splits sum.splits)
  then obtain cells where "collect_pairs (map_of cells) s bench broken
      (concat (map (\<lambda>entry. map (Pair entry) AXIS_NEIGHBOR_OFFSETS) cells)) [] [] = Inr (snd b)"
    by (auto simp: extract_adjacencies_def split: sum.splits)
  then show "distinct (map pair_id (snd b))"
    using collect_pairs_ok [of "[]" "[]" s bench broken "map_of cells"
        "concat (map (\<lambda>entry. map (Pair entry) AXIS_NEIGHBOR_OFFSETS) cells)"] by auto
qed

definition counted :: "(adj_observation \<Rightarrow> bool) \<Rightarrow> string \<times> string \<Rightarrow> graph_batch list \<Rightarrow> int" where
  "counted P key ledger = int (length (filter (\<lambda>b. \<exists>obs \<in> set (snd b). pair_id obs = key \<and> P obs) ledger))"

lemma edge_of_counts:
  assumes "\<forall>b \<in> set ledger. distinct (map pair_id (snd b))"
  shows "case edge_of (occurrences key (concat (map snd ledger))) of
      None \<Rightarrow> counted (\<lambda>_. True) key ledger = 0
    | Some r \<Rightarrow> 0 < ae_observed r \<and> ae_observed r = counted (\<lambda>_. True) key ledger \<and> ae_bench r = counted ao_bench key ledger \<and>
        ae_broken r = counted ao_broken key ledger \<and> ae_replay r = 0 \<and>
        derive_validity_label (ae_bench r) (ae_broken r) (ae_replay r) (ae_observed r) = Inr (ae_label r)"
proof -
  have n: "length (occurrences key (concat (map snd ledger))) = nat (counted (\<lambda>_. True) key ledger)"
    "length (filter ao_bench (occurrences key (concat (map snd ledger)))) = nat (counted ao_bench key ledger)"
    "length (filter ao_broken (occurrences key (concat (map snd ledger)))) = nat (counted ao_broken key ledger)"
    using ledger_count [OF assms, of "\<lambda>_. True" key] ledger_count [OF assms, of ao_bench key]
      ledger_count [OF assms, of ao_broken key] by (simp_all add: counted_def)
  show ?thesis
  proof (cases "occurrences key (concat (map snd ledger)) = []")
    case True
    then show ?thesis using n(1) by (simp add: edge_of_def counted_def)
  next
    case False
    let ?r = "\<lparr>ae_observed = int (length (occurrences key (concat (map snd ledger)))),
      ae_bench = int (length (filter ao_bench (occurrences key (concat (map snd ledger))))),
      ae_broken = int (length (filter ao_broken (occurrences key (concat (map snd ledger))))),
      ae_replay = 0, ae_label = '''', ae_first_seen = ao_snapshot (hd (occurrences key (concat (map snd ledger)))),
      ae_last_seen = ao_snapshot (List.last (occurrences key (concat (map snd ledger))))\<rparr>"
    have e: "edge_of (occurrences key (concat (map snd ledger))) = Some (?r\<lparr>ae_label := cypher_label ?r\<rparr>)"
      using False by (simp add: edge_of_def)
    have "0 < length (occurrences key (concat (map snd ledger)))" using False by simp
    moreover have "derive_validity_label (ae_bench ?r) (ae_broken ?r) (ae_replay ?r) (ae_observed ?r) = Inr (cypher_label ?r)"
      by (rule cypher_label_eq) simp_all
    ultimately show ?thesis using n unfolding e by (simp add: counted_def)
  qed
qed

text \<open>
  Whatever runs are made over whatever tables, and whatever write transactions fail or lose their acknowledgement, the graph is
  explained by a ledger of merged maps: no map version of a snapshot stands in it twice, each entry is the extraction of
  that map in one of the runs, and an edge exists exactly when an entry contains its pair; its evidence counts the
  entries that do, of all maps, of benchmark maps and of broken ones, and its label is the policy's.
\<close>

theorem edges_count_maps:
  assumes "gw_graph w = empty_graph"
  shows "\<exists>ledger. distinct (map fst ledger) \<and> fst ` set ledger \<subseteq> set (ag_processed (gw_graph (build_runs runs w))) \<and>
    (\<forall>b \<in> set ledger. \<exists>run \<in> set runs. batch_of run b) \<and>
    (\<forall>key. case map_of (ag_edges (gw_graph (build_runs runs w))) key of
       None \<Rightarrow> counted (\<lambda>_. True) key ledger = 0
     | Some r \<Rightarrow> 0 < ae_observed r \<and> ae_observed r = counted (\<lambda>_. True) key ledger \<and> ae_bench r = counted ao_bench key ledger \<and>
         ae_broken r = counted ao_broken key ledger \<and> ae_replay r = 0 \<and>
         derive_validity_label (ae_bench r) (ae_broken r) (ae_replay r) (ae_observed r) = Inr (ae_label r))"
proof -
  have "explained runs [] (gw_graph w)"
    by (simp add: assms explained_def empty_graph_def evidence_ok_def occurrences_def edge_of_def)
  then obtain ledger where e: "explained runs ledger (gw_graph (build_runs runs w))"
    using build_runs_explained [of runs "[]" w runs] by auto
  then have d: "\<forall>b \<in> set ledger. distinct (map pair_id (snd b))"
    using batch_distinct by (fastforce simp: explained_def)
  show ?thesis
    using e edge_of_counts [OF d] by (intro exI [of _ ledger]) (simp add: explained_def evidence_ok_def)
qed

subsection \<open>The accounts of a run\<close>

lemma merge_edge_keeps:
  "ag_nodes (snd (merge_edge obs x)) = ag_nodes (snd x)" "ag_processed (snd (merge_edge obs x)) = ag_processed (snd x)"
  "nodes_cover [obs] (snd x) \<Longrightarrow> fst (merge_edge obs x) = fst x + 1"
  by (cases x; auto simp: merge_edge_def nodes_cover_def Let_def)+

lemma merge_edges_keep:
  "ag_processed (snd (fold merge_edge obss x)) = ag_processed (snd x)"
  "nodes_cover obss (snd x) \<Longrightarrow> fst (fold merge_edge obss x) = fst x + length obss"
  by (induction obss arbitrary: x) (simp_all add: merge_edge_keeps nodes_cover_def)

lemma merge_graph_counts:
  "merge_graph (unique_block_keys obss) obss g = ((nodes, edges), g') \<Longrightarrow>
    edges = length obss \<and> ag_processed g' = ag_processed g"
proof -
  assume m: "merge_graph (unique_block_keys obss) obss g = ((nodes, edges), g')"
  let ?g = "merge_nodes (unique_block_keys obss) g"
  have "nodes_cover obss ?g"
    using merge_nodes_dom [of "unique_block_keys obss" g] unique_block_keys_set [of obss]
    by (fastforce simp: nodes_cover_def domIff set_eq_iff)
  then show ?thesis
    using m merge_edges_keep [where obss = obss and x = "(0, ?g)"]
    by (auto simp: merge_graph_def merge_nodes_def split: prod.splits)
qed

lemma execute_merge_counts:
  "execute_write (merge_graph (unique_block_keys obss) obss) w = (Inr (nodes, edges), w') \<Longrightarrow> edges = length obss"
  using execute_write_cases [of "merge_graph (unique_block_keys obss) obss" w] merge_graph_counts by fastforce

text \<open>Nothing takes a claim back.\<close>

lemma execute_claim_keeps:
  "execute_write (claim_map c) w = (res, w') \<Longrightarrow> x \<in> set (ag_processed (gw_graph w)) \<Longrightarrow> x \<in> set (ag_processed (gw_graph w'))"
  using execute_write_cases [of "claim_map c" w] by (auto simp: claim_map_def split: if_splits)

lemma execute_merge_keeps:
  "execute_write (merge_graph (unique_block_keys obss) obss) w = (res, w') \<Longrightarrow>
    ag_processed (gw_graph w') = ag_processed (gw_graph w)"
  using execute_write_cases [of "merge_graph (unique_block_keys obss) obss" w] merge_graph_counts by fastforce

lemma process_one_keeps:
  assumes "process_one src ps row stats w = (res, w')"
  shows "set (ag_processed (gw_graph w)) \<subseteq> set (ag_processed (gw_graph w'))"
  using assms
  by (auto simp: process_one_def split: sum.splits option.splits if_splits prod.splits
      dest: execute_claim_keeps dest!: execute_merge_keeps)

lemma build_loop_keeps: "set (ag_processed (gw_graph w)) \<subseteq> set (ag_processed (gw_graph (snd (build_loop src ps rows stats w))))"
proof (induction rows arbitrary: stats w)
  case (Cons row rows)
  obtain res w1 where w1: "process_one src ps row (stats\<lparr>bs_maps_seen := bs_maps_seen stats + 1\<rparr>) w = (res, w1)" by fastforce
  show ?case
    using process_one_keeps [OF w1] Cons.IH [of w1] w1 by (cases res) (auto simp: Let_def)
qed simp

lemma build_runs_keeps: "set (ag_processed (gw_graph w)) \<subseteq> set (ag_processed (gw_graph (build_runs runs w)))"
proof (induction runs arbitrary: w)
  case (Cons run runs)
  then show ?case using build_loop_keeps [of w]
    by (cases run) (force simp: build_runs_def build_graph_def)
qed (simp add: build_runs_def)

definition accounted :: "build_stats \<Rightarrow> nat" where
  "accounted stats = bs_maps_processed stats + bs_already_processed stats + bs_no_placements stats + length (bs_errors stats)"

lemma process_one_account:
  assumes "process_one src ps row stats w = (Inr stats', w')"
  shows "accounted stats' = accounted stats + 1" "bs_maps_seen stats' = bs_maps_seen stats"
    "bs_edges_merged stats = bs_observations stats \<Longrightarrow> bs_edges_merged stats' = bs_observations stats'"
  using assms
  by (auto simp: process_one_def accounted_def split: sum.splits option.splits if_splits prod.splits
      dest: execute_merge_counts)

lemma build_loop_account:
  assumes "bs_maps_seen stats = accounted stats" "bs_edges_merged stats = bs_observations stats"
    "build_loop src ps rows stats w = (stats', w')"
  shows "bs_maps_seen stats' = accounted stats' \<and> bs_edges_merged stats' = bs_observations stats' \<and>
    bs_maps_seen stats' = bs_maps_seen stats + length rows"
  using assms
proof (induction rows arbitrary: stats w)
  case (Cons row rows)
  let ?seen = "stats\<lparr>bs_maps_seen := bs_maps_seen stats + 1\<rparr>"
  obtain res w1 where w1: "process_one src ps row ?seen w = (res, w1)" by fastforce
  show ?case
  proof (cases res)
    case (Inl e)
    then show ?thesis
      using Cons.IH [of "?seen\<lparr>bs_errors := bs_errors ?seen @ [fst row]\<rparr>" w1] Cons.prems w1
      by (simp add: accounted_def)
  next
    case (Inr stats1)
    have "accounted stats1 = accounted stats + 1" "bs_maps_seen stats1 = bs_maps_seen stats + 1"
      "bs_edges_merged stats1 = bs_observations stats1"
      using process_one_account [OF w1 [unfolded Inr]] Cons.prems(2) by (simp_all add: accounted_def)
    then show ?thesis using Cons.IH [of stats1 w1] Cons.prems w1 Inr by simp
  qed
qed simp

text \<open>Every candidate of a run ends in one of its counters, and no row of the edge query goes unmatched.\<close>

lemma run_accounts:
  "build_graph src ps w = (stats, w') \<Longrightarrow>
    bs_maps_seen stats = length (fetch_candidate_maps src ps) \<and> bs_maps_seen stats = accounted stats \<and>
    bs_edges_merged stats = bs_observations stats"
  using build_loop_account [of build_stats_init src ps "fetch_candidate_maps src ps" w stats w']
  by (simp add: build_graph_def build_stats_init_def accounted_def)

text \<open>A map claimed before is left alone.\<close>

lemma process_claimed:
  assumes "fetch_placements src m v = Inr pl" "pl \<noteq> []" "effective_snapshot src ps m = Some s"
    "(m, s, v) \<in> set (ag_processed (gw_graph w))"
  shows "process_one src ps (m, v) stats w =
    (if next_outcome w = Tx_committed then Inr (stats\<lparr>bs_already_processed := bs_already_processed stats + 1\<rparr>)
     else Inl WriteFailed, w\<lparr>gw_commits := tl (gw_commits w)\<rparr>)"
proof -
  have "execute_write (claim_map (m, s, v)) w =
      (if next_outcome w = Tx_committed then Inr False else Inl WriteFailed, w\<lparr>gw_commits := tl (gw_commits w)\<rparr>)"
    using assms(4) by (cases "next_outcome w") (simp_all add: execute_write_def claim_map_def)
  then show ?thesis using assms(1-3) by (simp add: process_one_def)
qed

lemma process_merge_fails:
  assumes "fetch_placements src m v = Inr pl" "pl \<noteq> []" "effective_snapshot src ps m = Some s"
    "(m, s, v) \<notin> set (ag_processed (gw_graph w))" "gw_commits w = Tx_committed # Tx_refused # rest"
    "extract_adjacencies pl s (m \<in> bp_benchmark_strong ps) (m \<in> bp_broken_fixture ps) = Inr obss" "obss \<noteq> []"
  shows "process_one src ps (m, v) stats w =
    (Inl WriteFailed, \<lparr>gw_graph = (gw_graph w)\<lparr>ag_processed := ag_processed (gw_graph w) @ [(m, s, v)]\<rparr>, gw_commits = rest\<rparr>)"
proof -
  let ?w1 = "\<lparr>gw_graph = (gw_graph w)\<lparr>ag_processed := ag_processed (gw_graph w) @ [(m, s, v)]\<rparr>, gw_commits = Tx_refused # rest\<rparr>"
  have "execute_write (claim_map (m, s, v)) w = (Inr True, ?w1)"
    using assms(4,5) by (simp add: execute_write_def claim_map_def next_outcome_def)
  moreover have "execute_write tx ?w1 = (Inl WriteFailed, ?w1\<lparr>gw_commits := rest\<rparr>)" for tx :: "adj_graph \<Rightarrow> (nat \<times> nat) \<times> adj_graph"
    by (simp add: execute_write_def next_outcome_def split: prod.splits)
  ultimately show ?thesis using assms(1-3,6,7) by (simp add: process_one_def)
qed

text \<open>
  Claiming a map and merging its pairs are two transactions: when the second fails, the map is reported
  as failed, the graph keeps the claim and no edge changes; every later attempt, after any further
  runs, either fails again at the claim or reports the map as already processed, and leaves the graph as it
  is. Its pairs are never counted.
\<close>

theorem failed_merge_is_final:
  assumes "fetch_placements src m v = Inr pl" "pl \<noteq> []" "effective_snapshot src ps m = Some s"
    "(m, s, v) \<notin> set (ag_processed (gw_graph w))" "gw_commits w = Tx_committed # Tx_refused # rest"
    "extract_adjacencies pl s (m \<in> bp_benchmark_strong ps) (m \<in> bp_broken_fixture ps) = Inr obss" "obss \<noteq> []"
    "fetch_placements src' m v = Inr pl'" "pl' \<noteq> []" "effective_snapshot src' ps' m = Some s"
  shows "\<exists>w1. process_one src ps (m, v) stats w = (Inl WriteFailed, w1) \<and>
      gw_graph w1 = (gw_graph w)\<lparr>ag_processed := ag_processed (gw_graph w) @ [(m, s, v)]\<rparr> \<and>
      (\<forall>runs. let w2 = build_runs runs w1 in process_one src' ps' (m, v) stats' w2 =
        (if next_outcome w2 = Tx_committed then Inr (stats'\<lparr>bs_already_processed := bs_already_processed stats' + 1\<rparr>)
         else Inl WriteFailed, w2\<lparr>gw_commits := tl (gw_commits w2)\<rparr>))"
proof -
  let ?w1 = "\<lparr>gw_graph = (gw_graph w)\<lparr>ag_processed := ag_processed (gw_graph w) @ [(m, s, v)]\<rparr>, gw_commits = rest\<rparr>"
  have "(m, s, v) \<in> set (ag_processed (gw_graph (build_runs runs ?w1)))" for runs
    using build_runs_keeps [of ?w1 runs] by auto
  then show ?thesis
    using process_merge_fails [OF assms(1-7)] process_claimed [OF assms(8-10)]
    by (intro exI [of _ ?w1]) (simp add: Let_def)
qed

subsection \<open>Concrete runs\<close>

definition wit_placement :: "string \<Rightarrow> int \<Rightarrow> adj_placement" where
  "wit_placement type x = \<lparr>ap_family = ''Road'', ap_type = type, ap_variant = None,
     ap_cell = (Some x, Some 9, Some 4), ap_is_free = False\<rparr>"

definition wit_source :: "string \<Rightarrow> graph_source" where
  "wit_source parser = \<lparr>gb_collate = (\<lambda>c. c), gb_maps = [\<lparr>gm_id = 7, gm_parser_version = parser, gm_parse_status = ''success'', gm_snapshot = ''s1''\<rparr>],
     gb_placements = (\<lambda>_ _. Some [(0, wit_placement ''Start'' 0), (1, wit_placement ''Curve'' 1), (2, wit_placement ''Start'' 2)]),
     gb_snapshot_now = (\<lambda>_. Some ''s1'')\<rparr>"

definition wit_params :: build_params where
  "wit_params = \<lparr>bp_snapshot = None, bp_map_ids = None, bp_parser_version = None,
     bp_benchmark_strong = {}, bp_broken_fixture = {7}\<rparr>"

definition wit_world :: "tx_outcome list \<Rightarrow> graph_world" where
  "wit_world commits = \<lparr>gw_graph = empty_graph, gw_commits = commits\<rparr>"

text \<open>Counts are of claimed map versions: one map, read by two parser versions, is observed in "two maps".\<close>

lemma one_map_counts_twice:
  "map_option (\<lambda>r. (ae_observed r, ae_broken r, ae_label r))
     (map_of (ag_edges (gw_graph (build_runs [(wit_source ''p1'', wit_params), (wit_source ''p2'', wit_params)] (wit_world []))))
       (''Road|Curve|'', ''Road|Start|'')) = Some (2, 2, ''suspicious'')"
  by code_simp

lemma same_version_counts_once:
  "map_option (\<lambda>r. (ae_observed r, ae_broken r, ae_label r))
     (map_of (ag_edges (gw_graph (build_runs [(wit_source ''p1'', wit_params), (wit_source ''p1'', wit_params)] (wit_world []))))
       (''Road|Curve|'', ''Road|Start|'')) = Some (1, 1, ''suspicious'')"
  by code_simp

lemma edges_count_maps_witness:
  "\<exists>ledger. distinct (map fst ledger) \<and> counted (\<lambda>_. True) (''Road|Curve|'', ''Road|Start|'') ledger = 1 \<and>
    counted ao_broken (''Road|Curve|'', ''Road|Start|'') ledger = 1"
proof -
  let ?runs = "[(wit_source ''p1'', wit_params), (wit_source ''p1'', wit_params)]"
  let ?key = "(''Road|Curve|'', ''Road|Start|'')"
  have "gw_graph (wit_world []) = empty_graph" by (simp add: wit_world_def)
  from edges_count_maps [OF this, of ?runs] obtain ledger where l: "distinct (map fst ledger)"
    "\<forall>key. case map_of (ag_edges (gw_graph (build_runs ?runs (wit_world [])))) key of
       None \<Rightarrow> counted (\<lambda>_. True) key ledger = 0
     | Some r \<Rightarrow> 0 < ae_observed r \<and> ae_observed r = counted (\<lambda>_. True) key ledger \<and> ae_bench r = counted ao_bench key ledger \<and>
         ae_broken r = counted ao_broken key ledger \<and> ae_replay r = 0 \<and>
         derive_validity_label (ae_bench r) (ae_broken r) (ae_replay r) (ae_observed r) = Inr (ae_label r)"
    by blast
  from l(2) [rule_format, of ?key] l(1) show ?thesis
    using same_version_counts_once by (auto split: option.splits)
qed

lemma failed_merge_is_final_witness:
  "\<exists>w1. process_one (wit_source ''p1'') wit_params (7, ''p1'') build_stats_init (wit_world [Tx_committed, Tx_refused]) = (Inl WriteFailed, w1) \<and>
    ag_processed (gw_graph w1) = [(7, ''s1'', ''p1'')] \<and> ag_edges (gw_graph w1) = [] \<and>
    gw_commits w1 = [] \<and> fst (process_one (wit_source ''p1'') wit_params (7, ''p1'') build_stats_init w1) =
      Inr (build_stats_init\<lparr>bs_already_processed := 1\<rparr>)"
proof -
  let ?pl = "[wit_placement ''Start'' 0, wit_placement ''Curve'' 1, wit_placement ''Start'' 2]"
  have pl: "fetch_placements (wit_source ''p1'') 7 ''p1'' = Inr ?pl" by code_simp
  have snap: "effective_snapshot (wit_source ''p1'') wit_params 7 = Some ''s1''" by code_simp
  have new: "(7, ''s1'', ''p1'') \<notin> set (ag_processed (gw_graph (wit_world [Tx_committed, Tx_refused])))" by code_simp
  have c: "gw_commits (wit_world [Tx_committed, Tx_refused]) = Tx_committed # Tx_refused # []" by code_simp
  have "case extract_adjacencies ?pl ''s1'' (7 \<in> bp_benchmark_strong wit_params) (7 \<in> bp_broken_fixture wit_params) of
      Inl _ \<Rightarrow> False | Inr obss \<Rightarrow> obss \<noteq> []" by code_simp
  then obtain obss where obss: "extract_adjacencies ?pl ''s1'' (7 \<in> bp_benchmark_strong wit_params)
      (7 \<in> bp_broken_fixture wit_params) = Inr obss" "obss \<noteq> []" by (auto split: sum.splits)
  have ne: "?pl \<noteq> []" by simp
  obtain w1 where w1: "process_one (wit_source ''p1'') wit_params (7, ''p1'') build_stats_init (wit_world [Tx_committed, Tx_refused]) = (Inl WriteFailed, w1)"
    "gw_graph w1 = (gw_graph (wit_world [Tx_committed, Tx_refused]))\<lparr>ag_processed := ag_processed (gw_graph (wit_world [Tx_committed, Tx_refused])) @ [(7, ''s1'', ''p1'')]\<rparr>"
    "let w2 = build_runs [] w1 in process_one (wit_source ''p1'') wit_params (7, ''p1'') build_stats_init w2 =
        (if next_outcome w2 = Tx_committed then Inr (build_stats_init\<lparr>bs_already_processed := bs_already_processed build_stats_init + 1\<rparr>)
         else Inl WriteFailed, w2\<lparr>gw_commits := tl (gw_commits w2)\<rparr>)"
    using failed_merge_is_final [OF pl ne snap new c obss pl ne snap, of build_stats_init build_stats_init] by blast
  have "gw_commits w1 = []"
    using process_merge_fails [OF pl ne snap new c obss, of build_stats_init] w1(1) by simp
  moreover have "ag_processed (gw_graph w1) = [(7, ''s1'', ''p1'')]" "ag_edges (gw_graph w1) = []"
    unfolding w1(2) by (simp_all add: wit_world_def empty_graph_def)
  ultimately show ?thesis using w1(1,3) by (simp add: build_runs_def Let_def build_stats_init_def next_outcome_def)
qed

lemma adjacencies_exact_witness:
  "case extract_adjacencies [wit_placement ''Start'' 0, wit_placement ''Curve'' 1, wit_placement ''Start'' 2] ''s1'' False True of
     Inl _ \<Rightarrow> False
   | Inr res \<Rightarrow> length res = 1 \<and> (\<lambda>obs. (ao_a obs, ao_b obs)) ` set res =
       {order_pair k k' | k k'. keys_touch [wit_placement ''Start'' 0, wit_placement ''Curve'' 1, wit_placement ''Start'' 2] k k'}"
proof -
  let ?pl = "[wit_placement ''Start'' 0, wit_placement ''Curve'' 1, wit_placement ''Start'' 2]"
  have "case extract_adjacencies ?pl ''s1'' False True of Inl _ \<Rightarrow> False | Inr res \<Rightarrow> length res = 1" by code_simp
  then show ?thesis using adjacencies_exact [of ?pl "''s1''" False True] by (auto split: sum.splits)
qed

end
