(* ===== verification/Spec2Isabelle.thy ===== *)
theory Spec2Isabelle
  imports Clip_Walker Families Grammar_Walker Supports Geom_Validator Jump_Validator Route_Assembly Finishability Stripper Job_Server
    Corridor_Plan Agent_Jobs Agent_Config Map_Ingest Base_Generator AI_Generator Corpus_Mining Adjacency_Graph
begin

text \<open>
  \<^bold>\<open>The TraxMania map generator.\<close> The program builds Trackmania maps. A catalogue of blocks is loaded
  from game dumps; two generators chain blocks into a drivable route (one by matching clips, one by
  mined placement moves); pillars are added under elevated blocks; validators judge the geometry and
  the jumps of a block list. A second pipeline mutates existing maps: it assembles a route from mined
  corridors, gates it, strips the map to the route and writes the result as one JSON artifact. A third pipeline keeps only the
  anchors of an existing map and synthesises the route between them block by block. Generated maps are tested on remote machines
  through a job queue with an HTTP server. The agent on such a machine polls the server and drives the
  game through a plugin. The corpus of existing maps is downloaded from a map exchange. Paths below are under \<^verbatim>\<open>src/src\<close>.

  \<^bold>\<open>Theories and the code they model.\<close>
  \<^item> \<open>Prelude\<close>: cells, the fragments of Python's runtime (\<open>int()\<close>, truth values, \<open>random\<close>), float
    arithmetic as a parameter, shared list lemmas, the interfaces \<open>quarter_turns\<close> and
    \<open>candidate_order\<close>.
  \<^item> \<open>Catalogue\<close>: \<^verbatim>\<open>catalogue/loader.py\<close>. Block records, rotations of offsets and faces, the loader
    of a dump. Rotations keep faces and footprints aligned; the loader's result and failure.
  \<^item> \<open>Face_Priors\<close>: \<^verbatim>\<open>generation/priors.py\<close>. The table of face-to-face counts and its weight.
  \<^item> \<open>Backtracking\<close>: the two interfaces both walkers share, an undo stack and a search with a call
    budget.
  \<^item> \<open>Clip_Walker\<close>: \<^verbatim>\<open>generation/clip_walker.py\<close>. Constructor, candidate order and the search of
    \<open>generate\<close>. A route is legal, failure is exhaustive, every call ends in one of three ways.
  \<^item> \<open>Families\<close>: \<^verbatim>\<open>generation/families.py\<close>. Both resolvers from surface names to block pools.
  \<^item> \<open>Grammar\<close>: \<^verbatim>\<open>generation/grammar.py\<close>. Mined moves, their loader, successors and the route
    vocabulary as a closure.
  \<^item> \<open>Route_Model\<close>: \<^verbatim>\<open>generation/route_model.py\<close>, \<^verbatim>\<open>generation/driven_prior.py\<close>. Sequence scores and
    the prior of driven transitions, with their bounds.
  \<^item> \<open>Grammar_Walker\<close>: \<^verbatim>\<open>generation/grammar_walker.py\<close>. Constructor, candidates, scoring, two-tier
    order, one attempt with all its mutable state, the restarts. Soundness, shape of routes,
    exhaustiveness of a failed attempt, termination.
  \<^item> \<open>Supports\<close>: \<^verbatim>\<open>generation/supports.py\<close>. The rule loader and the bottom-up pillar builder.
  \<^item> \<open>Geom_Validator\<close>, \<open>Jump_Validator\<close>: \<^verbatim>\<open>generation/geom_validator.py\<close>,
    \<^verbatim>\<open>generation/jump_validator.py\<close>. All checks and both orchestrators; each report is characterised by
    properties of the block list. They share the interface \<open>cell_index\<close>.
  \<^item> \<open>Route_Assembly\<close>, \<open>Finishability\<close>: \<^verbatim>\<open>generation/types.py\<close>, \<^verbatim>\<open>generation/assembly.py\<close>,
    \<^verbatim>\<open>generation/finishability.py\<close>. Corridor choice, chain check, anchors from checkpoint rows, the
    validator pass, the verdict.
  \<^item> \<open>Traversability\<close>, \<open>Union_Find\<close>, \<open>Reachability\<close>, \<open>Enumeration\<close>: \<^verbatim>\<open>corridor/traversability/\<close>
    (\<^verbatim>\<open>classification.py\<close>, \<^verbatim>\<open>labeling.py\<close>, \<^verbatim>\<open>reachability.py\<close>, \<^verbatim>\<open>enumeration.py\<close>), which mines the corridors the
    assembler uses. Edge labels and the seed graph, union-find with its contract \<open>components\<close>, the search
    and the validation of a map, the enumeration of corridors with its checks and gates.
  \<^item> \<open>Corridor_Plan\<close>: when the planned intervals of the enumerator are the intervals of the assembler.
  \<^item> \<open>Stripper\<close>: \<^verbatim>\<open>generation/stripper.py\<close>. Halo policies, block filter, continuity check.
  \<^item> \<open>Preemit\<close>: \<^verbatim>\<open>generation/preemit.py\<close>. Both validators on one block list: the summary and the
    score of each corridor.
  \<^item> \<open>Map_Schema\<close>: \<^verbatim>\<open>generation/generated_map.schema.json\<close>, the schema of artifacts, as a predicate.
  \<^item> \<open>Base_Generator\<close>: \<^verbatim>\<open>generation/generator.py\<close>, \<^verbatim>\<open>generation/replay_cells.py\<close>. From the rows of a
    base map to the artifact, and its re-validation. Which rows give a conforming artifact, and
    what it says about its base map.
  \<^item> \<open>Beam_Search\<close>, \<open>AI_Generator\<close>: \<^verbatim>\<open>generation/ai_generator.py\<close>. Catalogue query, priors, scores and the
    beam search of an interval; anchors, artifact and outcome of a run. The walk of an interval decides its
    success, the anchors decide the outcome; priors and scores have bounds in rounded arithmetic.
  \<^item> \<open>Job_Store\<close>, \<open>Job_Server\<close>: \<^verbatim>\<open>remote_test/models.py\<close>, \<^verbatim>\<open>remote_test/storage.py\<close>,
    \<^verbatim>\<open>remote_test/server.py\<close>. The queue as a state machine and the HTTP server over it; the interface
    \<open>job_lifecycle\<close> is interpreted for both.
  \<^item> \<open>Plugin_IO\<close>, \<open>Remote_Agent\<close>, \<open>Agent_Jobs\<close>, \<open>Agent_Config\<close>: \<^verbatim>\<open>remote_test_agent/\<close>. The rig directory shared
    with the game plugin and the report parser; the HTTP client, which runs the server's handlers on the
    shared store, the job handler and the loop; what becomes of jobs, on every network and when requests
    are answered; the configuration loader.
  \<^item> \<open>Rate_Limit\<close>, \<open>Ingest_Http\<close>, \<open>Tmx_Client\<close>, \<open>Map_Ingest\<close>: \<^verbatim>\<open>ingestion/\<close> (\<^verbatim>\<open>rate_limit.py\<close>;
    \<^verbatim>\<open>cache.py\<close>, \<^verbatim>\<open>http.py\<close>; \<^verbatim>\<open>tmx.py\<close>; \<^verbatim>\<open>artifacts.py\<close>, \<^verbatim>\<open>orchestrator.py\<close>), which downloads the maps and
    replays the corpus consists of. The token bucket keeps its rate, a request retries within its
    deadline and caches successes only. The database is what is committed beside what the open transaction
    shows; statements and commits are steps that can fail one by one. A run keeps tables and artifact directory
    consistent however it ends, and it ends; the interface \<open>artifact_table\<close> is interpreted for maps and replays.
  \<^item> \<open>Pair_Mining\<close>, \<open>Corpus_Mining\<close>: \<^verbatim>\<open>constraints/placement_grammar.py\<close>, which mines the moves of \<open>Grammar\<close>
    from the corpus. The sort-merge join of one map on packed 64-bit keys equals two nested loops, the
    sorted-array counter computes totals, and a run adds to the table exactly the pairs seen in enough maps.
  \<^item> \<open>Adjacency_Graph\<close>: \<^verbatim>\<open>constraints/nodes.py\<close>, \<^verbatim>\<open>evidence.py\<close>, \<^verbatim>\<open>extractor.py\<close>, \<^verbatim>\<open>pipeline.py\<close>, which
    count in a graph database in how many maps two blocks touch. Extraction is exact, an edge counts every claimed
    map at most once whatever transactions fail, and its label never depends on frequency.
  \<^item> this theory: properties that span components (from database rows to a verified route; stripping
    and validation).

  \<^bold>\<open>How code corresponds to definitions.\<close> A class or dataclass is a record, a method that changes
  state is a function from state to state, an exception is the left side of a sum or a constructor of
  a result type, a dictionary is an association list in insertion order or a partial function. Object
  identity, where the code tests it, is an explicit identifier or list position. Message texts are
  structured values or left out; logging is left out everywhere.

  \<^bold>\<open>Parameters.\<close> Float arithmetic (\<open>fops\<close>), random draws (\<open>rng\<close>), the hashes \<open>blake2b\<close> and
  \<open>sha256\<close> and the clock are arguments without any assumption, so the theorems hold for IEEE rounding,
  every seed, every hash and every clock; only the theorems on the artifact generators assume the width of
  \<open>sha256\<close>, that the \<open>jsonschema\<close> library implements the schema, and signs and means of float arithmetic
  (\<open>env_ok\<close>), for the synthesising generator also that names, orders and rotations of the rows stay within the schema
  (\<open>ai_rows_ok\<close>), and the bounds of scores that arithmetic rounds monotonically (\<open>rounding\<close>). The token bucket computes with rationals. Database rows and decoded JSON documents are inputs. The order
  in which Python iterates over a set is a function \<open>set_iter\<close>, of which the theorems assume only that it
  lists a finite set completely.

  \<^bold>\<open>Fuel.\<close> The searches of the two walkers recurse once per placed block and stop at a call budget
  that the code itself enforces; the models take the budget plus one as fuel, and the totality
  theorems show that the fuel is never exhausted. The lookup of the union-find is a partial function,
  shown to return on every state the operations build. The agent's wait for a report and its loop are
  partial functions as well; they return when the clock advances and the iterations are limited. So are
  the wait of the token bucket, which returns after at most one sleep, the loop over the map listing,
  which returns when the run has a limit, and the loop over random maps, which may not. Every other function is structurally recursive
  or has a termination proof (the capped path search by the multiset of the depths left on its stack).

  \<^bold>\<open>Not modelled.\<close> SQL text and connections, JSON decoding, Flask routing and streaming, file access
  beyond the artifact directory, the interpreter's recursion limit, and the components listed without
  a theory: evidence aggregation, corridor ranking and learning, GBX parsing, replay
  and route clustering, LLM-written specs, the other miners of \<^verbatim>\<open>constraints/\<close>, diagnostics reports and the GBX writer, dashboards, command line. They
  are database or service access, numerical training, or user interface.
\<close>

section \<open>From checkpoint rows to a verified route\<close>

text \<open>
  C9. What a positive verdict of the gate guarantees for a map, from the database rows on: the map
  has no plain checkpoint and a goal; the route's anchors are the first spawn (if there is one), the
  linked checkpoints in strictly increasing order and the goal; between any two consecutive anchors
  there is one corridor, stored for exactly these two with a learned score; and the confidence
  reaches the floor. This holds for every seed, \<open>top_k\<close> and validator.
\<close>

theorem verified_route_chain:
  assumes "fr_route_verified (run_finishability_gate F
    (assemble_route F blake arows crows map_id seed k v))"
  shows "\<exists>route cps goal. assemble_route F blake arows crows map_id seed k v = Inr route \<and>
    (\<forall>r \<in> set arows. cr_tag r \<noteq> ''Checkpoint'') \<and>
    first_tagged ''Goal'' arows = Some goal \<and>
    ar_anchors route = opt_list (first_tagged ''Spawn'' arows) @ cps @ [goal] \<and>
    sorted_wrt (<) (map an_order cps) \<and>
    set (map an_order cps) = {cr_waypoint_order r | r. r \<in> set arows \<and> cr_tag r = ''LinkedCheckpoint''} \<and>
    list_all2 (stored_interval crows) (steps_of (ar_anchors route)) (ar_intervals route) \<and>
    AI_CONFIDENCE_FLOOR F \<le> ar_ai_confidence route"
proof -
  from assms obtain route where r: "assemble_route F blake arows crows map_id seed k v = Inr route"
    and conf: "AI_CONFIDENCE_FLOOR F \<le> ar_ai_confidence route"
    by (auto simp: gate_verified)
  from assembled_chain [OF r] r conf show ?thesis by blast
qed

text \<open>
  C31. Stripping a map to a route never damages what the validator sees along that route: if the base
  map can be validated so can the stripped one, and the reports about missing blocks on route cells
  and about route gaps are the same, for every strip policy.
\<close>

theorem stripped_route_validates:
  assumes "strip_route route base policy acs = Inr res"
    and "validate_map_geometry base geo (Some (route_path_cells route)) spawn ground_y max_step = Inr report"
  shows "\<exists>report'. validate_map_geometry (sr_stripped_blocks res) geo (Some (route_path_cells route))
      spawn ground_y max_step = Inr report' \<and>
    by_code report' CODE_ROUTE_CELL_MISSING_BLOCK = by_code report CODE_ROUTE_CELL_MISSING_BLOCK \<and>
    by_code report' CODE_ROUTE_GAP = by_code report CODE_ROUTE_GAP"
proof -
  have "\<exists>report. validate_map_geometry base geo (Some (route_path_cells route)) spawn ground_y max_step = Inr report"
    using assms(2) by blast
  then have "\<exists>report'. validate_map_geometry (sr_stripped_blocks res) geo (Some (route_path_cells route))
      spawn ground_y max_step = Inr report'"
    unfolding validation_ok_iff using strip_subset [OF assms(1)] by blast
  then obtain report' where r: "validate_map_geometry (sr_stripped_blocks res) geo (Some (route_path_cells route))
      spawn ground_y max_step = Inr report'" by blast
  have "check_route_cells_have_blocks (first_at (sr_stripped_blocks res)) (route_path_cells route) =
      check_route_cells_have_blocks (first_at base) (route_path_cells route)"
    using strip_first_at [OF assms(1)]
    by (simp add: check_route_cells_have_blocks_def List.map_filter_def cong: filter_cong)
  with r show ?thesis by (simp add: route_findings [OF r] route_findings [OF assms(2)])
qed

text \<open>The demo map: two corridors over a linked checkpoint, stripped and validated.\<close>

theorem verified_route_chain_witness:
  "\<exists>cps goal. ar_anchors (demo_route_of None) = opt_list (first_tagged ''Spawn'' demo_cp_rows) @ cps @ [goal] \<and>
     3 / 10 \<le> ar_ai_confidence (demo_route_of None)"
proof -
  have "fr_route_verified (run_finishability_gate rat_fops
      (assemble_route rat_fops (\<lambda>_. 0) demo_cp_rows demo_corridors 1 0 1 None))"
    by code_simp
  moreover have floor: "AI_CONFIDENCE_FLOOR rat_fops = 3 / 10" by (simp add: AI_CONFIDENCE_FLOOR_def rat_fops_def)
  ultimately show ?thesis
    using verified_route_chain [of rat_fops "\<lambda>_. 0" demo_cp_rows demo_corridors 1 0 1 None]
    unfolding demo_assemble_rows(1) floor sum.inject by blast
qed

lemma demo_base_validates:
  "\<exists>report. validate_map_geometry [demo_map_block 0 5, demo_map_block 1 20] (demo_geo 1)
     (Some (route_path_cells demo_assembled)) None 9 1 = Inr report"
  unfolding validation_ok_iff by (simp add: demo_map_block_def block_rotation_def)

theorem stripped_route_validates_witness:
  "\<exists>report. validate_map_geometry (sr_stripped_blocks demo_strip) (demo_geo 1)
     (Some (route_path_cells demo_assembled)) None 9 1 = Inr report"
  using demo_base_validates stripped_route_validates [OF demo_strip_ok] by blast

end
